(* ===== verification/Prelude.thy ===== *)
theory Prelude
  imports Main "HOL-Library.Word" "HOL-Library.More_List"
begin

text \<open>
  What every other theory shares: the machine integers of the C++ sources at their
  width, the result type of code that throws, the test of an enum flag, the
  collections of simplification rules the component proofs are done with, and
  lemmas on lists and words that no single component owns.
\<close>

unbundle bit_operations_syntax

named_theorems enc_simps \<open>unfolding rules of the predictor and encoder operations\<close>
named_theorems buf_simps \<open>unfolding rules of the stream buffer operations\<close>
named_theorems strm_simps \<open>unfolding rules of the server stream operations\<close>

type_synonym u8 = "8 word"
type_synonym u16 = "16 word"
type_synonym u32 = "32 word"
type_synonym u64 = "64 word"

section \<open>Exceptions as values\<close>

text \<open>
  The exception classes of \<open>simubase/Exceptions.h\<close> that the modelled code throws.
  \<open>ThrowOn(c, E, ...)\<close> is modelled as a branch that returns \<open>Inl E\<close>; the texts
  of the messages are left out. \<open>StdException\<close> is any \<open>std::exception\<close> that is not one of these,
  from a library.
\<close>

datatype exn =
    ArgumentException
  | ArgumentNullException
  | ArgumentOutOfBoundsException
  | NotFoundException
  | NotSupportedException
  | InvalidOperationException
  | OperationInProgressException
  | GenericException
  | PlatformException
  | SocketException
  | RpcMessageMalformedException
  | PeerException
  | NotImplementedException
  | ConfigurationException
  | StdException

type_synonym 'a res = "exn + 'a"

definition throwOn :: "bool \<Rightarrow> exn \<Rightarrow> 'a res \<Rightarrow> 'a res" where
  "throwOn c e r = (if c then Inl e else r)"

lemma throwOn_simps [simp]:
  "throwOn True e r = Inl e" "throwOn False e r = r"
  by (simp_all add: throwOn_def)

lemma throwOn_Inr [simp]: "throwOn c e r = Inr x \<longleftrightarrow> \<not> c \<and> r = Inr x"
  by (simp add: throwOn_def)

lemma throwOn_Inl [simp]:
  "throwOn c e r = Inl x \<longleftrightarrow> (if c then x = e else r = Inl x)"
  by (auto simp: throwOn_def)

section \<open>Flags\<close>

text \<open>\<open>IsSet(flags, flag)\<close> of \<open>SimuBaseTypes.h\<close>.\<close>

definition isSet :: "'a::len word \<Rightarrow> 'a word \<Rightarrow> bool" where
  "isSet flags flag \<longleftrightarrow> flags AND flag \<noteq> 0"

section \<open>Lists and words\<close>

lemma word_less_nat_iff: "(a :: 'a::len word) < b \<longleftrightarrow> unat a < unat b"
  by (simp add: word_less_nat_alt)

lemma unat_of_nat_small: "n < 2 ^ LENGTH('a::len) \<Longrightarrow> unat (of_nat n :: 'a word) = n"
  by (simp add: unat_of_nat take_bit_nat_eq_self)

lemma map_nth_upt_take: "n \<le> length xs \<Longrightarrow> map (\<lambda>i. xs ! i) [0..<n] = take n xs"
  by (rule nth_equalityI) auto

lemma take_split: "a \<le> m \<Longrightarrow> take a xs @ take (m - a) (drop a xs) = take m xs"
  by (metis le_add_diff_inverse take_add)

end
