(* ===== verification/Fcm.thy ===== *)
theory Fcm
  imports Prelude
begin

text \<open>
  The finite context method predictor of the VPC4 compressor and its history:
  \<open>VPC4/Predictor.h\<close>, \<open>VPC4/FiniteContextMethodHistory.h\<close>,
  \<open>VPC4/FiniteContextMethodPredictor.h\<close> and \<open>VPC4/KeyedLastNValuePredictor.h\<close>.

  The template parameters \<open>tableSize\<close>, \<open>hashSize\<close>, \<open>order\<close> and \<open>lineLength\<close> are
  constant fields of the records (set by the constructors, written by no operation).
  The C arrays are functions from the 32-bit row index to a row (a list); that every
  row an operation touches is inside the array is \<open>hist_index_bound\<close> and
  \<open>fcm_index_bound\<close>, that every column is inside its row is part of the invariants.
\<close>

section \<open>Histories\<close>

record fcm_history =
  fh_tableSize :: nat
  fh_hashSize :: nat
  fh_order :: nat
  fh_index :: u32
  fh_table :: "u32 \<Rightarrow> u32 list"

definition hashMask :: "nat \<Rightarrow> u32" where
  "hashMask n = push_bit n 1 - 1"

definition hist_init :: "nat \<Rightarrow> nat \<Rightarrow> nat \<Rightarrow> fcm_history" where
  "hist_init tableSize hashSize order =
     \<lparr>fh_tableSize = tableSize, fh_hashSize = hashSize, fh_order = order,
      fh_index = 0, fh_table = (\<lambda>_. replicate order 0)\<rparr>"

lemma unat_drop_bit_less:
  assumes "0 < (w :: 'a::len word)" and "0 < n"
  shows "unat (drop_bit n w) < unat w"
proof -
  from assms(1) have "0 < unat w" by (simp add: word_less_nat_alt)
  moreover have "unat w div 2 ^ n < unat w"
    using \<open>0 < unat w\<close> one_less_power [of "2::nat" n] assms(2)
    by (intro div_less_dividend) simp_all
  moreover have "unat (drop_bit n w) = unat w div 2 ^ n"
    by (metis drop_bit_eq_div unat_drop_bit_eq)
  ultimately show ?thesis by simp
qed

text \<open>
  The loop of \<open>_hash\<close>: fold the value into 32 bits by exclusive or. Its guard is
  \<open>tmp > 0\<close>; with \<open>hashSize = 0\<close> the C++ loop would not end, and the only class with
  that parameter (the dummy history of \<open>KeyedLastNValuePredictor\<close>) never calls it. The
  guard \<open>0 < hs\<close> of the model is there for the termination proof.
\<close>

function fold_hash :: "nat \<Rightarrow> 'a::len word \<Rightarrow> u32 \<Rightarrow> u32" where
  "fold_hash hs tmp hash =
     (if 0 < tmp \<and> 0 < hs then fold_hash hs (drop_bit hs tmp) (hash XOR ucast tmp)
      else hash)"
  by pat_completeness auto

termination fold_hash
  by (relation "measure (\<lambda>(hs, tmp, hash). unat tmp)") (auto simp: unat_drop_bit_less)

declare fold_hash.simps [simp del]

definition hist_hash :: "fcm_history \<Rightarrow> 'a::len word \<Rightarrow> u32" where
  "hist_hash h v = fold_hash (fh_hashSize h) v 0 AND hashMask (fh_hashSize h)"

definition hist_setKey :: "'k::len word \<Rightarrow> fcm_history \<Rightarrow> fcm_history" where
  "hist_setKey key h = h\<lparr>fh_index := ucast (key AND ucast (hashMask (fh_tableSize h)))\<rparr>"

definition hist_get :: "fcm_history \<Rightarrow> nat \<Rightarrow> u32" where
  "hist_get h predictorOrder = fh_table h (fh_index h) ! (predictorOrder - 1)"

definition hist_set :: "nat \<Rightarrow> u32 \<Rightarrow> fcm_history \<Rightarrow> fcm_history" where
  "hist_set predictorOrder v h =
     h\<lparr>fh_table := (fh_table h)(fh_index h :=
         (fh_table h (fh_index h))[predictorOrder - 1 := v])\<rparr>"

text \<open>
  The loop of \<open>update\<close>, from \<open>order - 1\<close> down to 1, each step reading the entry below,
  which has not been overwritten yet.
\<close>

fun hist_shift :: "nat \<Rightarrow> u32 \<Rightarrow> u32 list \<Rightarrow> u32 list" where
  "hist_shift 0 hash row = row"
| "hist_shift (Suc i) hash row =
     hist_shift i hash (row[Suc i := push_bit 1 (row ! i) XOR hash])"

definition hist_update :: "'a::len word \<Rightarrow> fcm_history \<Rightarrow> fcm_history" where
  "hist_update v h =
     (let hash = hist_hash h v;
          row = hist_shift (fh_order h - 1) hash (fh_table h (fh_index h))
      in h\<lparr>fh_table := (fh_table h)(fh_index h := row[0 := hash])\<rparr>)"

section \<open>Predictors\<close>

record 'v fcm =
  fcm_idBase :: u8
  fcm_tableSize :: nat
  fcm_order :: nat
  fcm_usage :: "u64 list"
  fcm_values :: "u32 \<Rightarrow> 'v list"

text \<open>
  The prediction context names the chosen predictor object by a handle: its position
  among the members of the compound predictor (the C++ struct holds a pointer).
\<close>

record pred_context =
  ctx_usageCount :: u64
  ctx_predictor :: "nat option"
  ctx_predictorId :: u8

definition ctx_init :: pred_context where
  "ctx_init = \<lparr>ctx_usageCount = 0, ctx_predictor = None, ctx_predictorId = 255\<rparr>"

definition isPredicted :: "pred_context \<Rightarrow> bool" where
  "isPredicted c \<longleftrightarrow> ctx_predictor c \<noteq> None"

text \<open>
  The constructor of \<open>Predictor\<close> allocates the usage counters uninitialised (\<open>junk\<close>)
  and clears \<open>sizeof(_usageCount)\<close> bytes of them: the size of the smart pointer, eight
  bytes on the supported 64-bit platforms, so the first counter only.
\<close>

definition usage_init :: "u64 list \<Rightarrow> u64 list" where
  "usage_init junk = junk[0 := 0]"

definition fcm_init :: "u8 \<Rightarrow> nat \<Rightarrow> nat \<Rightarrow> u64 list \<Rightarrow> 'a::len word fcm" where
  "fcm_init idBase tableSize order junk =
     \<lparr>fcm_idBase = idBase, fcm_tableSize = tableSize, fcm_order = order,
      fcm_usage = usage_init junk,
      fcm_values = (\<lambda>_. map of_nat [0..<length junk])\<rparr>"

definition lineLength :: "('v, 'b) fcm_scheme \<Rightarrow> nat" where
  "lineLength p = length (fcm_usage p)"

definition fcm_mask :: "'a::len word fcm \<Rightarrow> u32 \<Rightarrow> u32" where
  "fcm_mask p index = index AND hashMask (fcm_tableSize p)"

definition fcm_row :: "'a::len word fcm \<Rightarrow> fcm_history \<Rightarrow> u32" where
  "fcm_row p h = fcm_mask p (hist_get h (fcm_order p))"

definition incrementUsageCount :: "u8 \<Rightarrow> 'a::len word fcm \<Rightarrow> 'a word fcm" where
  "incrementUsageCount i p =
     (let k = unat (i - fcm_idBase p)
      in p\<lparr>fcm_usage := (fcm_usage p)[k := fcm_usage p ! k + 1]\<rparr>)"

text \<open>The shift loop of \<open>_update\<close>, from \<open>lineLength - 1\<close> down to 1.\<close>

fun row_shift :: "nat \<Rightarrow> 'b list \<Rightarrow> 'b list" where
  "row_shift 0 row = row"
| "row_shift (Suc i) row = row_shift i (row[Suc i := row ! i])"

definition fcm_update_row :: "u32 \<Rightarrow> 'a::len word \<Rightarrow> 'a word fcm \<Rightarrow> 'a word fcm" where
  "fcm_update_row index v p =
     (if fcm_values p index ! 0 \<noteq> v
      then p\<lparr>fcm_values := (fcm_values p)(index :=
             (row_shift (lineLength p - 1) (fcm_values p index))[0 := v])\<rparr>
      else p)"

text \<open>One iteration of the loop of \<open>predictValue\<close>, and the loop.\<close>

definition predict_step :: "nat \<Rightarrow> 'a::len word fcm \<Rightarrow> u32 \<Rightarrow> 'a word \<Rightarrow> nat \<Rightarrow> pred_context \<Rightarrow> pred_context" where
  "predict_step self p index v i c =
     (if ctx_usageCount c \<le> fcm_usage p ! i \<and> fcm_values p index ! i = v
      then c\<lparr>ctx_predictor := Some self,
             ctx_predictorId := of_nat i + fcm_idBase p,
             ctx_usageCount := fcm_usage p ! i\<rparr>
      else c)"

definition fcm_predictValue ::
  "nat \<Rightarrow> fcm_history \<Rightarrow> 'a::len word \<Rightarrow> pred_context \<Rightarrow> 'a word fcm \<Rightarrow> pred_context \<times> 'a word fcm" where
  "fcm_predictValue self h v c p =
     (let index = fcm_row p h;
          c' = fold (predict_step self p index v) [0..<lineLength p] c
      in (c', fcm_update_row index v p))"

definition fcm_getValue :: "fcm_history \<Rightarrow> u8 \<Rightarrow> 'a::len word fcm \<Rightarrow> 'a word" where
  "fcm_getValue h i p = fcm_values p (fcm_row p h) ! unat (i - fcm_idBase p)"

definition fcm_update :: "fcm_history \<Rightarrow> 'a::len word \<Rightarrow> 'a word fcm \<Rightarrow> 'a word fcm" where
  "fcm_update h v p = fcm_update_row (fcm_row p h) v p"

section \<open>The keyed last-n-value predictor\<close>

text \<open>
  A predictor whose history is a one-entry table used to carry the key. The class
  inherits from the FCM predictor and owns the history.
\<close>

record 'v last_n =
  ln_fcm :: "'v fcm"
  ln_history :: fcm_history

definition last_n_init :: "u8 \<Rightarrow> nat \<Rightarrow> u64 list \<Rightarrow> 'a::len word last_n" where
  "last_n_init idBase tableSize junk =
     \<lparr>ln_fcm = fcm_init idBase tableSize 1 junk, ln_history = hist_init 0 0 1\<rparr>"

definition ln_setKey :: "'k::len word \<Rightarrow> 'a::len word last_n \<Rightarrow> 'a word last_n" where
  "ln_setKey key l = l\<lparr>ln_history := hist_set 1 (ucast key) (ln_history l)\<rparr>"

definition getMostRecentValue :: "'a::len word last_n \<Rightarrow> 'a word" where
  "getMostRecentValue l = fcm_getValue (ln_history l) (fcm_idBase (ln_fcm l)) (ln_fcm l)"

section \<open>Array bounds\<close>

lemma hashMask_less:
  assumes "n < 32" shows "unat (x AND hashMask n) < 2 ^ n"
proof -
  have m: "hashMask n = mask n"
    by (simp add: hashMask_def mask_eq_exp_minus_1 push_bit_eq_mult)
  have "x AND hashMask n = take_bit n x"
    by (simp add: m take_bit_eq_mask)
  then show ?thesis
    by (simp add: unsigned_take_bit_eq)
qed

lemma fcm_index_bound:
  assumes "fcm_tableSize p < 32"
  shows "unat (fcm_row p h) < 2 ^ fcm_tableSize p"
  using hashMask_less [OF assms] by (simp add: fcm_row_def fcm_mask_def)

lemma length_hist_shift [simp]: "length (hist_shift i hash row) = length row"
  by (induction i arbitrary: row) auto

lemma length_row_shift [simp]: "length (row_shift i row) = length row"
  by (induction i arbitrary: row) auto

text \<open>The shift loop moves every value one place up and drops the oldest.\<close>

lemma row_shift_nth:
  "i < length row \<Longrightarrow> j < length row \<Longrightarrow>
   row_shift i row ! j = (if j = 0 \<or> i < j then row ! j else row ! (j - 1))"
proof (induction i arbitrary: row)
  case 0
  then show ?case by simp
next
  case (Suc i)
  have "row_shift (Suc i) row ! j =
        (if j = 0 \<or> i < j then row[Suc i := row ! i] ! j else row[Suc i := row ! i] ! (j - 1))"
    using Suc.IH [of "row[Suc i := row ! i]"] Suc.prems by simp
  then show ?case using Suc.prems by (cases "j = Suc i") (auto simp: nth_list_update)
qed

lemma row_shift_full:
  assumes "row \<noteq> []"
  shows "(row_shift (length row - 1) row)[0 := v] = v # butlast row"
proof (rule nth_equalityI)
  show "length ((row_shift (length row - 1) row)[0 := v]) = length (v # butlast row)"
    using assms by simp
  fix j assume "j < length ((row_shift (length row - 1) row)[0 := v])"
  then have j: "j < length row" by simp
  show "(row_shift (length row - 1) row)[0 := v] ! j = (v # butlast row) ! j"
  proof (cases j)
    case 0
    then show ?thesis using assms by simp
  next
    case (Suc k)
    then have "(row_shift (length row - 1) row)[0 := v] ! j = row ! k"
      using j row_shift_nth [of "length row - 1" row "Suc k"] by (auto split: if_splits)
    then show ?thesis using Suc j by (simp add: nth_butlast)
  qed
qed

section \<open>What a prediction establishes\<close>

text \<open>
  \<open>fcm_wf\<close>: every row has one value per usage counter, and there is at least one.
\<close>

definition fcm_wf :: "'a::len word fcm \<Rightarrow> bool" where
  "fcm_wf p \<longleftrightarrow> 0 < lineLength p \<and> (\<forall>r. length (fcm_values p r) = lineLength p)"

lemma fcm_wf_init: "junk \<noteq> [] \<Longrightarrow> fcm_wf (fcm_init b ts ord junk)"
  by (simp add: fcm_wf_def fcm_init_def lineLength_def usage_init_def)

lemma fcm_update_row_frame [simp]:
  "fcm_idBase (fcm_update_row r v p) = fcm_idBase p"
  "fcm_tableSize (fcm_update_row r v p) = fcm_tableSize p"
  "fcm_order (fcm_update_row r v p) = fcm_order p"
  "fcm_usage (fcm_update_row r v p) = fcm_usage p"
  "lineLength (fcm_update_row r v p) = lineLength p"
  by (simp_all add: fcm_update_row_def lineLength_def)

lemma fcm_wf_update_row [simp]: "fcm_wf p \<Longrightarrow> fcm_wf (fcm_update_row r v p)"
  by (auto simp: fcm_wf_def fcm_update_row_def lineLength_def)

lemma incrementUsageCount_frame [simp]:
  "fcm_idBase (incrementUsageCount i p) = fcm_idBase p"
  "fcm_tableSize (incrementUsageCount i p) = fcm_tableSize p"
  "fcm_order (incrementUsageCount i p) = fcm_order p"
  "fcm_values (incrementUsageCount i p) = fcm_values p"
  "lineLength (incrementUsageCount i p) = lineLength p"
  by (simp_all add: incrementUsageCount_def lineLength_def Let_def)

lemma fcm_wf_increment [simp]: "fcm_wf p \<Longrightarrow> fcm_wf (incrementUsageCount i p)"
  by (simp add: fcm_wf_def)

text \<open>
  A context is justified by a lookup function when the predictor and id it names look
  the value up. The loop of \<open>predictValue\<close> keeps a context justified.
\<close>

definition ctx_just :: "(nat \<Rightarrow> u8 \<Rightarrow> bool) \<Rightarrow> pred_context \<Rightarrow> bool" where
  "ctx_just ok c \<longleftrightarrow> (\<forall>k. ctx_predictor c = Some k \<longrightarrow> ok k (ctx_predictorId c))"

lemma ctx_just_init [simp]: "ctx_just ok ctx_init"
  by (simp add: ctx_just_def ctx_init_def)

lemma predict_fold_just:
  assumes "\<And>i. i \<in> set is \<Longrightarrow> fcm_values p r ! i = v \<Longrightarrow> ok self (of_nat i + fcm_idBase p)"
    and "ctx_just ok c"
  shows "ctx_just ok (fold (predict_step self p r v) is c)"
  using assms
proof (induction "is" arbitrary: c)
  case Nil
  then show ?case by simp
next
  case (Cons i "is")
  have "ctx_just ok (predict_step self p r v i c)"
    using Cons.prems by (auto simp: predict_step_def ctx_just_def)
  then show ?case using Cons by simp
qed

lemma fcm_predictValue_just:
  assumes "\<And>i. i < lineLength p \<Longrightarrow>
      fcm_getValue h (of_nat i + fcm_idBase p) p = v \<Longrightarrow> ok self (of_nat i + fcm_idBase p)"
    and "ctx_just ok c" and "lineLength p < 256"
  shows "ctx_just ok (fst (fcm_predictValue self h v c p))"
proof -
  have "\<And>i. i \<in> set [0..<lineLength p] \<Longrightarrow> fcm_values p (fcm_row p h) ! i = v \<Longrightarrow>
      ok self (of_nat i + fcm_idBase p)"
    using assms(1,3) by (auto simp: fcm_getValue_def unat_of_nat_small)
  then have "ctx_just ok (fold (predict_step self p (fcm_row p h) v) [0..<lineLength p] c)"
    by (rule predict_fold_just) (use assms(2) in auto)
  then show ?thesis by (simp add: fcm_predictValue_def Let_def)
qed

lemma fcm_predictValue_update [simp]:
  "snd (fcm_predictValue self h v c p) = fcm_update h v p"
  by (simp add: fcm_predictValue_def fcm_update_def Let_def)

section \<open>Agreement of two predictors\<close>

text \<open>
  The decoder's predictors differ from the encoder's in the usage counters only: it
  never chooses between predictors.
\<close>

definition fcm_agree :: "'a::len word fcm \<Rightarrow> 'a word fcm \<Rightarrow> bool" where
  "fcm_agree p q \<longleftrightarrow> fcm_idBase p = fcm_idBase q \<and> fcm_tableSize p = fcm_tableSize q \<and>
     fcm_order p = fcm_order q \<and> lineLength p = lineLength q \<and> fcm_values p = fcm_values q"

lemma fcm_agree_refl [simp]: "fcm_agree p p"
  by (simp add: fcm_agree_def)

lemma fcm_agree_init: "length j1 = length j2 \<Longrightarrow> fcm_agree (fcm_init b ts ord j1) (fcm_init b ts ord j2)"
  by (simp add: fcm_agree_def fcm_init_def lineLength_def usage_init_def)

lemma fcm_agree_row: "fcm_agree p q \<Longrightarrow> fcm_row p h = fcm_row q h"
  by (simp add: fcm_agree_def fcm_row_def fcm_mask_def)

lemma fcm_agree_getValue: "fcm_agree p q \<Longrightarrow> fcm_getValue h i p = fcm_getValue h i q"
  by (simp add: fcm_agree_row fcm_getValue_def) (simp add: fcm_agree_def)

lemma fcm_agree_update: "fcm_agree p q \<Longrightarrow> fcm_agree (fcm_update h v p) (fcm_update h v q)"
  unfolding fcm_update_def fcm_agree_row [of p q h]
  by (auto simp: fcm_agree_def fcm_update_row_def lineLength_def)

lemma fcm_agree_increment: "fcm_agree p q \<Longrightarrow> fcm_agree (incrementUsageCount i p) q"
  by (simp add: fcm_agree_def)

lemma fcm_update_frame [simp]:
  "fcm_idBase (fcm_update h v p) = fcm_idBase p"
  "fcm_tableSize (fcm_update h v p) = fcm_tableSize p"
  "fcm_order (fcm_update h v p) = fcm_order p"
  "fcm_usage (fcm_update h v p) = fcm_usage p"
  "lineLength (fcm_update h v p) = lineLength p"
  by (simp_all add: fcm_update_def)

lemma fcm_wf_update [simp]: "fcm_wf p \<Longrightarrow> fcm_wf (fcm_update h v p)"
  by (simp add: fcm_update_def)

text \<open>
  The row content after an update: unchanged if the newest value is already the given
  one, otherwise the value is pushed in front and the oldest is dropped.
\<close>

lemma fcm_update_row_content:
  assumes "fcm_wf p"
  shows "fcm_values (fcm_update h v p) (fcm_row p h) =
    (if hd (fcm_values p (fcm_row p h)) = v then fcm_values p (fcm_row p h)
     else v # butlast (fcm_values p (fcm_row p h)))"
proof -
  let ?row = "fcm_values p (fcm_row p h)"
  from assms have len: "length ?row = lineLength p" "0 < lineLength p"
    by (auto simp: fcm_wf_def)
  then have ne: "?row \<noteq> []" by auto
  have "(row_shift (lineLength p - 1) ?row)[0 := v] = v # butlast ?row"
    using row_shift_full [OF ne, of v] len by simp
  then show ?thesis
    using ne by (simp add: fcm_update_def fcm_update_row_def hd_conv_nth)
qed

end
