(* ===== verification/Vpc4.thy ===== *)
theory Vpc4
  imports Fcm
begin

text \<open>
  The compound predictors of the VPC4 compressor (\<open>VPC4/CompoundPredictor.h\<close>,
  \<open>VPC4/IpPredictor.h\<close>, \<open>VPC4/CyclePredictor.h\<close>, \<open>VPC4/ValuePredictor.h\<close>) in the
  default configuration (no half-byte encoding, no predictor profiling), and the
  interface \<open>keyed_codec\<close> through which the memory encoder relies on them.

  An output buffer \<open>T** buffer\<close> that is written through and advanced is the list of
  what has been written; the same buffer in the decoder is the list of what is left to
  read, where reading the empty list (memory outside of the sub segment) is \<open>None\<close>.
\<close>

section \<open>The compound predictor base class\<close>

definition writePredictorId :: "u8 list \<Rightarrow> u8 \<Rightarrow> u8 list" where
  "writePredictorId codeBuffer i = codeBuffer @ [i]"

definition writeData :: "'d list \<Rightarrow> 'd \<Rightarrow> 'd list" where
  "writeData dataBuffer d = dataBuffer @ [d]"

fun readPredictorId :: "u8 list \<Rightarrow> (u8 \<times> u8 list) option" where
  "readPredictorId [] = None"
| "readPredictorId (i # rest) = Some (i, rest)"

fun readData :: "'d list \<Rightarrow> ('d \<times> 'd list) option" where
  "readData [] = None"
| "readData (d # rest) = Some (d, rest)"

text \<open>
  \<open>_evaluateContext\<close> without the counter update of the chosen predictor, which is
  \<open>creditPredictor\<close> below (the C++ calls it through the pointer in the context).
\<close>

definition evaluateContext ::
  "u8 \<Rightarrow> u8 list \<Rightarrow> 'd list \<Rightarrow> pred_context \<Rightarrow> 'd \<Rightarrow> u8 \<times> u8 list \<times> 'd list" where
  "evaluateContext notPredictedId codeBuffer dataBuffer c d =
     (let (pid, dataBuffer') =
            (if isPredicted c then (ctx_predictorId c, dataBuffer)
             else (notPredictedId, writeData dataBuffer d))
      in (pid, writePredictorId codeBuffer pid, dataBuffer'))"

definition creditPredictor :: "nat \<Rightarrow> pred_context \<Rightarrow> 'a::len word fcm \<Rightarrow> 'a word fcm" where
  "creditPredictor self c p =
     (if ctx_predictor c = Some self then incrementUsageCount (ctx_predictorId c) p else p)"

section \<open>Instruction pointers\<close>

record 'v ip_predictor =
  ipp_history :: fcm_history
  ipp_first :: "'v fcm"
  ipp_third :: "'v fcm"

definition IpNotPredictedId :: u8 where
  "IpNotPredictedId = 4"

definition ip_init :: "u64 list \<Rightarrow> u64 list \<Rightarrow> 'a::len word ip_predictor" where
  "ip_init j1 j3 =
     \<lparr>ipp_history = hist_init 0 17 3,
      ipp_first = fcm_init 0 17 1 j1, ipp_third = fcm_init 2 19 3 j3\<rparr>"

definition encodeIp ::
  "'a::len word \<Rightarrow> u8 list \<Rightarrow> 'a word list \<Rightarrow> 'a word ip_predictor \<Rightarrow>
   u8 \<times> u8 list \<times> 'a word list \<times> 'a word ip_predictor" where
  "encodeIp ip codeBuffer dataBuffer s =
     (let h = ipp_history s;
          (c1, first) = fcm_predictValue 0 h ip ctx_init (ipp_first s);
          (c2, third) = fcm_predictValue 1 h ip c1 (ipp_third s);
          (pid, codes, datas) = evaluateContext IpNotPredictedId codeBuffer dataBuffer c2 ip
      in (pid, codes, datas,
          \<lparr>ipp_history = hist_update ip h,
           ipp_first = creditPredictor 0 c2 first, ipp_third = creditPredictor 1 c2 third\<rparr>))"

definition getIp ::
  "u8 list \<Rightarrow> 'a::len word list \<Rightarrow> 'a word ip_predictor \<Rightarrow> ('a word \<times> u8 list \<times> 'a word list) option" where
  "getIp codeBuffer dataBuffer s =
     (case readPredictorId codeBuffer of None \<Rightarrow> None
      | Some (i, codes) \<Rightarrow>
          if i < 2 then Some (fcm_getValue (ipp_history s) i (ipp_first s), codes, dataBuffer)
          else if i < 4 then Some (fcm_getValue (ipp_history s) i (ipp_third s), codes, dataBuffer)
          else (case readData dataBuffer of None \<Rightarrow> None
                | Some (d, datas) \<Rightarrow> Some (d, codes, datas)))"

definition decodeIp ::
  "u8 list \<Rightarrow> 'a::len word list \<Rightarrow> 'a word ip_predictor \<Rightarrow>
   ('a word \<times> u8 list \<times> 'a word list \<times> 'a word ip_predictor) option" where
  "decodeIp codeBuffer dataBuffer s =
     (case getIp codeBuffer dataBuffer s of None \<Rightarrow> None
      | Some (result, codes, datas) \<Rightarrow>
          let h = ipp_history s in
          Some (result, codes, datas,
            \<lparr>ipp_history = hist_update result h,
             ipp_first = fcm_update h result (ipp_first s),
             ipp_third = fcm_update h result (ipp_third s)\<rparr>))"

section \<open>Cycle counts\<close>

record 'v cycle_predictor =
  cp_history :: fcm_history
  cp_first :: "'v fcm"
  cp_third :: "'v fcm"
  cp_reference :: 'v

definition CycleNotPredictedId :: u8 where
  "CycleNotPredictedId = 4"

definition cycle_init :: "'a::len word \<Rightarrow> u64 list \<Rightarrow> u64 list \<Rightarrow> 'a word cycle_predictor" where
  "cycle_init referenceCycleCount j1 j3 =
     \<lparr>cp_history = hist_init 0 17 3,
      cp_first = fcm_init 0 17 1 j1, cp_third = fcm_init 2 19 3 j3,
      cp_reference = referenceCycleCount\<rparr>"

definition encodeCycle ::
  "'k::len word \<Rightarrow> 'a::len word \<Rightarrow> u8 list \<Rightarrow> 'a word list \<Rightarrow> 'a word cycle_predictor \<Rightarrow>
   u8 \<times> u8 list \<times> 'a word list \<times> 'a word cycle_predictor" where
  "encodeCycle ip cycle codeBuffer dataBuffer s =
     (let stride = cycle - cp_reference s;
          v = stride + ucast ip;
          h = cp_history s;
          (c1, first) = fcm_predictValue 0 h v ctx_init (cp_first s);
          (c2, third) = fcm_predictValue 1 h v c1 (cp_third s);
          (pid, codes, datas) =
            evaluateContext CycleNotPredictedId codeBuffer dataBuffer c2 stride
      in (pid, codes, datas,
          \<lparr>cp_history = hist_update v h,
           cp_first = creditPredictor 0 c2 first, cp_third = creditPredictor 1 c2 third,
           cp_reference = cycle\<rparr>))"

text \<open>The flag of the result: whether a predictor supplied the value.\<close>

definition getCycleCount ::
  "u8 list \<Rightarrow> 'a::len word list \<Rightarrow> 'a word cycle_predictor \<Rightarrow>
   (bool \<times> 'a word \<times> u8 list \<times> 'a word list) option" where
  "getCycleCount codeBuffer dataBuffer s =
     (case readPredictorId codeBuffer of None \<Rightarrow> None
      | Some (i, codes) \<Rightarrow>
          if i < 2 then Some (True, fcm_getValue (cp_history s) i (cp_first s), codes, dataBuffer)
          else if i < 4 then Some (True, fcm_getValue (cp_history s) i (cp_third s), codes, dataBuffer)
          else (case readData dataBuffer of None \<Rightarrow> None
                | Some (d, datas) \<Rightarrow> Some (False, d, codes, datas)))"

definition decodeCycle ::
  "'k::len word \<Rightarrow> u8 list \<Rightarrow> 'a::len word list \<Rightarrow> 'a word cycle_predictor \<Rightarrow>
   ('a word \<times> u8 list \<times> 'a word list \<times> 'a word cycle_predictor) option" where
  "decodeCycle ip codeBuffer dataBuffer s =
     (case getCycleCount codeBuffer dataBuffer s of None \<Rightarrow> None
      | Some (predicted, v, codes, datas) \<Rightarrow>
          let (stride, upd) = (if predicted then (v - ucast ip, v) else (v, v + ucast ip));
              h = cp_history s
          in Some (cp_reference s + stride, codes, datas,
               \<lparr>cp_history = hist_update upd h,
                cp_first = fcm_update h upd (cp_first s),
                cp_third = fcm_update h upd (cp_third s),
                cp_reference = cp_reference s + stride\<rparr>))"

section \<open>Addresses and data\<close>

record 'v value_predictor =
  vp_dfcmHistory :: fcm_history
  vp_firstDfcm :: "'v fcm"
  vp_thirdDfcm :: "'v fcm"
  vp_fcmHistory :: fcm_history
  vp_firstFcm :: "'v fcm"
  vp_last4 :: "'v last_n"

definition ValueNotPredictedId :: u8 where
  "ValueNotPredictedId = 10"

definition value_init ::
  "u64 list \<Rightarrow> u64 list \<Rightarrow> u64 list \<Rightarrow> u64 list \<Rightarrow> 'a::len word value_predictor" where
  "value_init j1 j3 jf j4 =
     \<lparr>vp_dfcmHistory = hist_init 16 17 3,
      vp_firstDfcm = fcm_init 0 17 1 j1, vp_thirdDfcm = fcm_init 2 19 3 j3,
      vp_fcmHistory = hist_init 16 19 1, vp_firstFcm = fcm_init 8 19 1 jf,
      vp_last4 = last_n_init 4 16 j4\<rparr>"

definition vp_setKey :: "'k::len word \<Rightarrow> 'a::len word value_predictor \<Rightarrow> 'a word value_predictor" where
  "vp_setKey key s =
     s\<lparr>vp_dfcmHistory := hist_setKey key (vp_dfcmHistory s),
       vp_fcmHistory := hist_setKey key (vp_fcmHistory s),
       vp_last4 := ln_setKey key (vp_last4 s)\<rparr>"

definition vp_getValue ::
  "u8 list \<Rightarrow> 'a::len word list \<Rightarrow> 'a word value_predictor \<Rightarrow>
   ('a word \<times> u8 list \<times> 'a word list) option" where
  "vp_getValue codeBuffer dataBuffer s =
     (case readPredictorId codeBuffer of None \<Rightarrow> None
      | Some (i, codes) \<Rightarrow>
          if i < 2 then
            Some (fcm_getValue (vp_dfcmHistory s) i (vp_firstDfcm s) +
                  getMostRecentValue (vp_last4 s), codes, dataBuffer)
          else if i < 4 then
            Some (fcm_getValue (vp_dfcmHistory s) i (vp_thirdDfcm s) +
                  getMostRecentValue (vp_last4 s), codes, dataBuffer)
          else if i < 8 then
            Some (fcm_getValue (ln_history (vp_last4 s)) i (ln_fcm (vp_last4 s)), codes, dataBuffer)
          else if i < 10 then
            Some (fcm_getValue (vp_fcmHistory s) i (vp_firstFcm s), codes, dataBuffer)
          else (case readData dataBuffer of None \<Rightarrow> None
                | Some (d, datas) \<Rightarrow> Some (d, codes, datas)))"

definition encodeValue ::
  "'k::len word \<Rightarrow> 'a::len word \<Rightarrow> u8 list \<Rightarrow> 'a word list \<Rightarrow> 'a word value_predictor \<Rightarrow>
   u8 \<times> u8 list \<times> 'a word list \<times> 'a word value_predictor" where
  "encodeValue key v codeBuffer dataBuffer s0 =
     (let s = vp_setKey key s0;
          stride = v - getMostRecentValue (vp_last4 s);
          h = vp_dfcmHistory s;
          (c1, first) = fcm_predictValue 0 h stride ctx_init (vp_firstDfcm s);
          (c2, third) = fcm_predictValue 1 h stride c1 (vp_thirdDfcm s);
          (c3, last4) = fcm_predictValue 2 (ln_history (vp_last4 s)) v c2 (ln_fcm (vp_last4 s));
          (c4, fcm) = fcm_predictValue 3 (vp_fcmHistory s) v c3 (vp_firstFcm s);
          (pid, codes, datas) = evaluateContext ValueNotPredictedId codeBuffer dataBuffer c4 v
      in (pid, codes, datas,
          \<lparr>vp_dfcmHistory = hist_update stride h,
           vp_firstDfcm = creditPredictor 0 c4 first,
           vp_thirdDfcm = creditPredictor 1 c4 third,
           vp_fcmHistory = hist_update v (vp_fcmHistory s),
           vp_firstFcm = creditPredictor 3 c4 fcm,
           vp_last4 = (vp_last4 s)\<lparr>ln_fcm := creditPredictor 2 c4 last4\<rparr>\<rparr>))"

definition decodeValue ::
  "'k::len word \<Rightarrow> u8 list \<Rightarrow> 'a::len word list \<Rightarrow> 'a word value_predictor \<Rightarrow>
   ('a word \<times> u8 list \<times> 'a word list \<times> 'a word value_predictor) option" where
  "decodeValue key codeBuffer dataBuffer s0 =
     (let s = vp_setKey key s0 in
      case vp_getValue codeBuffer dataBuffer s of None \<Rightarrow> None
      | Some (result, codes, datas) \<Rightarrow>
          let stride = result - getMostRecentValue (vp_last4 s);
              h = vp_dfcmHistory s;
              l4 = vp_last4 s
          in Some (result, codes, datas,
               \<lparr>vp_dfcmHistory = hist_update stride h,
                vp_firstDfcm = fcm_update h stride (vp_firstDfcm s),
                vp_thirdDfcm = fcm_update h stride (vp_thirdDfcm s),
                vp_fcmHistory = hist_update result (vp_fcmHistory s),
                vp_firstFcm = fcm_update (vp_fcmHistory s) result (vp_firstFcm s),
                vp_last4 = l4\<lparr>ln_fcm := fcm_update (ln_history l4) result (ln_fcm l4)\<rparr>\<rparr>))"

end
