(* ===== verification/Vpc4_Codec.thy ===== *)
theory Vpc4_Codec
  imports Vpc4
begin

text \<open>
  The contract between the memory encoder and the compound predictors: an encoder
  and a decoder that run in lockstep over related states reproduce the value, consume
  exactly what was written and stay related. \<open>keyed_codec\<close> states it, its lemmas run it
  over a list of values, and the three interpretations at the end discharge it for
  the models of \<open>IpPredictor\<close>, \<open>CyclePredictor\<close> and \<open>ValuePredictor\<close>.
\<close>

section \<open>The interface\<close>

locale keyed_codec =
  fixes enc :: "'k \<Rightarrow> 'x \<Rightarrow> u8 list \<Rightarrow> 'd list \<Rightarrow> 's \<Rightarrow> u8 \<times> u8 list \<times> 'd list \<times> 's"
    and dec :: "'k \<Rightarrow> u8 list \<Rightarrow> 'd list \<Rightarrow> 's \<Rightarrow> ('x \<times> u8 list \<times> 'd list \<times> 's) option"
    and rel :: "'s \<Rightarrow> 's \<Rightarrow> bool"
  assumes lockstep: "rel s t \<Longrightarrow> \<exists>i ds s' t'. length ds \<le> 1 \<and> rel s' t' \<and>
      (\<forall>codes datas. enc k x codes datas s = (i, codes @ [i], datas @ ds, s')) \<and>
      (\<forall>cr dr. dec k (i # cr) (ds @ dr) t = Some (x, cr, dr, t'))"
begin

fun enc_all :: "('k \<times> 'x) list \<Rightarrow> u8 list \<Rightarrow> 'd list \<Rightarrow> 's \<Rightarrow> u8 list \<times> 'd list \<times> 's" where
  "enc_all [] codes datas s = (codes, datas, s)"
| "enc_all ((k, x) # kxs) codes datas s =
     (let (i, codes', datas', s') = enc k x codes datas s in enc_all kxs codes' datas' s')"

fun dec_all :: "'k list \<Rightarrow> u8 list \<Rightarrow> 'd list \<Rightarrow> 's \<Rightarrow> ('x list \<times> u8 list \<times> 'd list \<times> 's) option" where
  "dec_all [] codes datas t = Some ([], codes, datas, t)"
| "dec_all (k # ks) codes datas t =
     (case dec k codes datas t of None \<Rightarrow> None
      | Some (x, codes', datas', t') \<Rightarrow>
          (case dec_all ks codes' datas' t' of None \<Rightarrow> None
           | Some (xs, codes'', datas'', t'') \<Rightarrow> Some (x # xs, codes'', datas'', t'')))"

lemma lockstep_all:
  assumes "rel s t"
  shows "\<exists>cs ds s' t'. length cs = length kxs \<and> length ds \<le> length kxs \<and> rel s' t' \<and>
      (\<forall>codes datas. enc_all kxs codes datas s = (codes @ cs, datas @ ds, s')) \<and>
      (\<forall>cr dr. dec_all (map fst kxs) (cs @ cr) (ds @ dr) t = Some (map snd kxs, cr, dr, t'))"
  using assms
proof (induction kxs arbitrary: s t)
  case Nil
  then show ?case by auto
next
  case (Cons kx kxs)
  obtain k x where kx: "kx = (k, x)" by (cases kx)
  obtain i ds1 s1 t1 where 1: "length ds1 \<le> 1" "rel s1 t1"
      "\<And>codes datas. enc k x codes datas s = (i, codes @ [i], datas @ ds1, s1)"
      "\<And>cr dr. dec k (i # cr) (ds1 @ dr) t = Some (x, cr, dr, t1)"
    using lockstep [OF Cons.prems, of k x] by blast
  obtain cs ds s' t' where 2: "length cs = length kxs" "length ds \<le> length kxs" "rel s' t'"
      "\<And>codes datas. enc_all kxs codes datas s1 = (codes @ cs, datas @ ds, s')"
      "\<And>cr dr. dec_all (map fst kxs) (cs @ cr) (ds @ dr) t1 = Some (map snd kxs, cr, dr, t')"
    using Cons.IH [OF 1(2)] by blast
  show ?case
    by (rule exI [of _ "i # cs"], rule exI [of _ "ds1 @ ds"], rule exI [of _ s'], rule exI [of _ t'])
      (use 1 2 in \<open>simp add: kx\<close>)
qed

end

section \<open>From a justified context to the round trip\<close>

text \<open>
  The id and the data a compound predictor emits for a context. \<open>emit_code\<close> is what is
  written to the id buffer, \<open>emit_data\<close> what is written to the data buffer.
\<close>

definition emit_code :: "u8 \<Rightarrow> pred_context \<Rightarrow> u8" where
  "emit_code np c = (if isPredicted c then ctx_predictorId c else np)"

definition emit_data :: "pred_context \<Rightarrow> 'd \<Rightarrow> 'd list" where
  "emit_data c d = (if isPredicted c then [] else [d])"

lemma evaluateContext_emit:
  "evaluateContext np codes datas c d =
     (emit_code np c, codes @ [emit_code np c], datas @ emit_data c d)"
  by (simp add: evaluateContext_def emit_code_def emit_data_def writePredictorId_def writeData_def)

lemma length_emit_data: "length (emit_data c d) \<le> 1"
  by (simp add: emit_data_def)

lemma fcm_agree_credit: "fcm_agree p q \<Longrightarrow> fcm_agree (creditPredictor k c p) q"
  by (simp add: creditPredictor_def fcm_agree_increment)

lemma creditPredictor_frame [simp]:
  "fcm_idBase (creditPredictor k c p) = fcm_idBase p"
  "lineLength (creditPredictor k c p) = lineLength p"
  by (simp_all add: creditPredictor_def)

text \<open>The two predictors of the instruction pointer and the cycle count.\<close>

definition duo_ok :: "fcm_history \<Rightarrow> 'a::len word fcm \<Rightarrow> 'a word fcm \<Rightarrow> 'a word \<Rightarrow> nat \<Rightarrow> u8 \<Rightarrow> bool" where
  "duo_ok h p q v k i \<longleftrightarrow>
     (if i < 2 then fcm_getValue h i p = v else i < 4 \<and> fcm_getValue h i q = v)"

definition duo_shape :: "'a::len word fcm \<Rightarrow> 'a word fcm \<Rightarrow> bool" where
  "duo_shape p q \<longleftrightarrow> fcm_idBase p = 0 \<and> lineLength p = 2 \<and> fcm_idBase q = 2 \<and> lineLength q = 2"

lemma less_2_cases_nat: "i < (2::nat) \<Longrightarrow> i = 0 \<or> i = 1"
  by auto

lemma duo_just:
  assumes "duo_shape p q"
    and "fcm_predictValue 0 h v ctx_init p = (c1, p')" "fcm_predictValue 1 h v c1 q = (c2, q')"
  shows "ctx_just (duo_ok h p q v) c2"
proof -
  have "ctx_just (duo_ok h p q v) (fst (fcm_predictValue 0 h v ctx_init p))"
    by (rule fcm_predictValue_just)
      (use assms(1) in \<open>auto simp: duo_shape_def duo_ok_def dest!: less_2_cases_nat\<close>)
  then have "ctx_just (duo_ok h p q v) (fst (fcm_predictValue 1 h v c1 q))"
    using assms(2) by (intro fcm_predictValue_just)
      (use assms(1) in \<open>auto simp: duo_shape_def duo_ok_def dest!: less_2_cases_nat\<close>)
  then show ?thesis using assms(3) by simp
qed

lemma fcm_predictValue_pair:
  "fcm_predictValue k h v c p = (c', p') \<Longrightarrow> p' = fcm_update h v p"
  by (metis fcm_predictValue_update snd_conv)

section \<open>Instruction pointers\<close>

definition ip_rel :: "'a::len word ip_predictor \<Rightarrow> 'a word ip_predictor \<Rightarrow> bool" where
  "ip_rel s t \<longleftrightarrow> ipp_history s = ipp_history t \<and> duo_shape (ipp_first s) (ipp_third s) \<and>
     fcm_agree (ipp_first s) (ipp_first t) \<and> fcm_agree (ipp_third s) (ipp_third t)"

lemma ip_rel_init:
  "length j1 = 2 \<Longrightarrow> length j3 = 2 \<Longrightarrow> length k1 = 2 \<Longrightarrow> length k3 = 2 \<Longrightarrow>
   ip_rel (ip_init j1 j3) (ip_init k1 k3)"
  by (simp add: ip_rel_def ip_init_def duo_shape_def fcm_agree_init)
    (simp add: fcm_init_def lineLength_def usage_init_def)

lemma ip_lockstep:
  assumes r: "ip_rel s t"
  shows "\<exists>i ds s' t'. length ds \<le> 1 \<and> ip_rel s' t' \<and>
      (\<forall>codes datas. encodeIp x codes datas s = (i, codes @ [i], datas @ ds, s')) \<and>
      (\<forall>cr dr. decodeIp (i # cr) (ds @ dr) t = Some (x, cr, dr, t'))"
proof -
  let ?h = "ipp_history s"
  obtain c1 p where 1: "fcm_predictValue 0 ?h x ctx_init (ipp_first s) = (c1, p)" by fastforce
  obtain c2 q where 2: "fcm_predictValue 1 ?h x c1 (ipp_third s) = (c2, q)" by fastforce
  note pq = 1 [THEN fcm_predictValue_pair] 2 [THEN fcm_predictValue_pair]
  have just: "ctx_just (duo_ok ?h (ipp_first s) (ipp_third s) x) c2"
    using duo_just [OF _ 1 2] r by (simp add: ip_rel_def)
  let ?s' = "\<lparr>ipp_history = hist_update x ?h,
      ipp_first = creditPredictor 0 c2 p, ipp_third = creditPredictor 1 c2 q\<rparr>"
  let ?t' = "\<lparr>ipp_history = hist_update x ?h,
      ipp_first = fcm_update ?h x (ipp_first t), ipp_third = fcm_update ?h x (ipp_third t)\<rparr>"
  let ?i = "emit_code IpNotPredictedId c2" and ?ds = "emit_data c2 x"
  have rel: "ip_rel ?s' ?t'"
    using r by (simp add: ip_rel_def pq duo_shape_def fcm_agree_update fcm_agree_credit)
  have enc: "encodeIp x codes datas s = (?i, codes @ [?i], datas @ ?ds, ?s')" for codes datas
    by (simp add: encodeIp_def Let_def 1 2 evaluateContext_emit del: One_nat_def)
  have "getIp (?i # cr) (?ds @ dr) t = Some (x, cr, dr)" for cr dr
    using r just
    by (auto simp: getIp_def ip_rel_def emit_code_def emit_data_def IpNotPredictedId_def
        ctx_just_def duo_ok_def isPredicted_def fcm_agree_getValue split: if_splits)
  then have dec: "decodeIp (?i # cr) (?ds @ dr) t = Some (x, cr, dr, ?t')" for cr dr
    using r by (simp add: decodeIp_def ip_rel_def Let_def)
  show ?thesis
    by (rule exI [of _ ?i], rule exI [of _ ?ds], rule exI [of _ ?s'], rule exI [of _ ?t'])
      (intro conjI allI length_emit_data rel enc dec)
qed

interpretation ipc: keyed_codec "\<lambda>(_::unit). encodeIp" "\<lambda>_. decodeIp" ip_rel
  by unfold_locales (rule ip_lockstep)

section \<open>Cycle counts\<close>

definition cycle_rel :: "'a::len word cycle_predictor \<Rightarrow> 'a word cycle_predictor \<Rightarrow> bool" where
  "cycle_rel s t \<longleftrightarrow> cp_history s = cp_history t \<and> duo_shape (cp_first s) (cp_third s) \<and>
     cp_reference s = cp_reference t \<and>
     fcm_agree (cp_first s) (cp_first t) \<and> fcm_agree (cp_third s) (cp_third t)"

lemma cycle_rel_init:
  "length j1 = 2 \<Longrightarrow> length j3 = 2 \<Longrightarrow> length k1 = 2 \<Longrightarrow> length k3 = 2 \<Longrightarrow>
   cycle_rel (cycle_init ref j1 j3) (cycle_init ref k1 k3)"
  by (simp add: cycle_rel_def cycle_init_def duo_shape_def fcm_agree_init)
    (simp add: fcm_init_def lineLength_def usage_init_def)

lemma cycle_lockstep:
  assumes r: "cycle_rel s t"
  shows "\<exists>i ds s' t'. length ds \<le> 1 \<and> cycle_rel s' t' \<and>
      (\<forall>codes datas. encodeCycle ip x codes datas s = (i, codes @ [i], datas @ ds, s')) \<and>
      (\<forall>cr dr. decodeCycle ip (i # cr) (ds @ dr) t = Some (x, cr, dr, t'))"
proof -
  let ?h = "cp_history s" and ?stride = "x - cp_reference s"
  let ?v = "?stride + ucast ip"
  obtain c1 p where 1: "fcm_predictValue 0 ?h ?v ctx_init (cp_first s) = (c1, p)" by fastforce
  obtain c2 q where 2: "fcm_predictValue 1 ?h ?v c1 (cp_third s) = (c2, q)" by fastforce
  note pq = 1 [THEN fcm_predictValue_pair] 2 [THEN fcm_predictValue_pair]
  have just: "ctx_just (duo_ok ?h (cp_first s) (cp_third s) ?v) c2"
    using duo_just [OF _ 1 2] r by (simp add: cycle_rel_def)
  let ?s' = "\<lparr>cp_history = hist_update ?v ?h,
      cp_first = creditPredictor 0 c2 p, cp_third = creditPredictor 1 c2 q, cp_reference = x\<rparr>"
  let ?t' = "\<lparr>cp_history = hist_update ?v ?h,
      cp_first = fcm_update ?h ?v (cp_first t), cp_third = fcm_update ?h ?v (cp_third t),
      cp_reference = x\<rparr>"
  let ?i = "emit_code CycleNotPredictedId c2" and ?ds = "emit_data c2 ?stride"
  have rel: "cycle_rel ?s' ?t'"
    using r by (simp add: cycle_rel_def pq duo_shape_def fcm_agree_update fcm_agree_credit)
  have enc: "encodeCycle ip x codes datas s = (?i, codes @ [?i], datas @ ?ds, ?s')" for codes datas
    by (simp add: encodeCycle_def Let_def 1 2 evaluateContext_emit del: One_nat_def)
  have "getCycleCount (?i # cr) (?ds @ dr) t =
      Some (isPredicted c2, if isPredicted c2 then ?v else ?stride, cr, dr)" for cr dr
    using r just
    by (auto simp: getCycleCount_def cycle_rel_def emit_code_def emit_data_def CycleNotPredictedId_def
        ctx_just_def duo_ok_def isPredicted_def fcm_agree_getValue split: if_splits)
  then have dec: "decodeCycle ip (?i # cr) (?ds @ dr) t = Some (x, cr, dr, ?t')" for cr dr
    using r by (auto simp: decodeCycle_def cycle_rel_def Let_def)
  show ?thesis
    by (rule exI [of _ ?i], rule exI [of _ ?ds], rule exI [of _ ?s'], rule exI [of _ ?t'])
      (intro conjI allI length_emit_data rel enc dec)
qed

interpretation cyc: keyed_codec encodeCycle decodeCycle cycle_rel
  by unfold_locales (rule cycle_lockstep)

section \<open>Addresses and data\<close>

definition value_shape :: "'a::len word value_predictor \<Rightarrow> bool" where
  "value_shape s \<longleftrightarrow> duo_shape (vp_firstDfcm s) (vp_thirdDfcm s) \<and>
     fcm_idBase (ln_fcm (vp_last4 s)) = 4 \<and> lineLength (ln_fcm (vp_last4 s)) = 4 \<and>
     fcm_idBase (vp_firstFcm s) = 8 \<and> lineLength (vp_firstFcm s) = 2"

definition value_rel :: "'a::len word value_predictor \<Rightarrow> 'a word value_predictor \<Rightarrow> bool" where
  "value_rel s t \<longleftrightarrow> value_shape s \<and>
     vp_dfcmHistory s = vp_dfcmHistory t \<and> vp_fcmHistory s = vp_fcmHistory t \<and>
     ln_history (vp_last4 s) = ln_history (vp_last4 t) \<and>
     fcm_agree (vp_firstDfcm s) (vp_firstDfcm t) \<and> fcm_agree (vp_thirdDfcm s) (vp_thirdDfcm t) \<and>
     fcm_agree (ln_fcm (vp_last4 s)) (ln_fcm (vp_last4 t)) \<and>
     fcm_agree (vp_firstFcm s) (vp_firstFcm t)"

lemma value_rel_init:
  "length j1 = 2 \<Longrightarrow> length j3 = 2 \<Longrightarrow> length jf = 2 \<Longrightarrow> length j4 = 4 \<Longrightarrow>
   length k1 = 2 \<Longrightarrow> length k3 = 2 \<Longrightarrow> length kf = 2 \<Longrightarrow> length k4 = 4 \<Longrightarrow>
   value_rel (value_init j1 j3 jf j4) (value_init k1 k3 kf k4)"
  by (simp add: value_rel_def value_shape_def value_init_def last_n_init_def duo_shape_def fcm_agree_init)
    (simp add: fcm_init_def lineLength_def usage_init_def)

lemma value_rel_setKey: "value_rel s t \<Longrightarrow> value_rel (vp_setKey k s) (vp_setKey k t)"
  by (simp add: value_rel_def value_shape_def vp_setKey_def ln_setKey_def)

lemma value_rel_mostRecent:
  "value_rel s t \<Longrightarrow> getMostRecentValue (vp_last4 t) = getMostRecentValue (vp_last4 s)"
  using fcm_agree_getValue [of "ln_fcm (vp_last4 s)" "ln_fcm (vp_last4 t)" "ln_history (vp_last4 s)"]
  by (simp add: value_rel_def getMostRecentValue_def fcm_agree_def)

definition value_ok :: "'a::len word value_predictor \<Rightarrow> 'a word \<Rightarrow> nat \<Rightarrow> u8 \<Rightarrow> bool" where
  "value_ok s v k i \<longleftrightarrow>
     (let m = getMostRecentValue (vp_last4 s) in
      if i < 2 then fcm_getValue (vp_dfcmHistory s) i (vp_firstDfcm s) + m = v
      else if i < 4 then fcm_getValue (vp_dfcmHistory s) i (vp_thirdDfcm s) + m = v
      else if i < 8 then fcm_getValue (ln_history (vp_last4 s)) i (ln_fcm (vp_last4 s)) = v
      else i < 10 \<and> fcm_getValue (vp_fcmHistory s) i (vp_firstFcm s) = v)"

lemma less_4_cases_nat: "i < (4::nat) \<Longrightarrow> i = 0 \<or> i = 1 \<or> i = 2 \<or> i = 3"
  by auto

lemma value_just:
  assumes sh: "value_shape s"
    and 1: "fcm_predictValue 0 (vp_dfcmHistory s) (v - getMostRecentValue (vp_last4 s)) ctx_init
              (vp_firstDfcm s) = (c1, p1)"
    and 2: "fcm_predictValue 1 (vp_dfcmHistory s) (v - getMostRecentValue (vp_last4 s)) c1
              (vp_thirdDfcm s) = (c2, p2)"
    and 3: "fcm_predictValue 2 (ln_history (vp_last4 s)) v c2 (ln_fcm (vp_last4 s)) = (c3, p3)"
    and 4: "fcm_predictValue 3 (vp_fcmHistory s) v c3 (vp_firstFcm s) = (c4, p4)"
  shows "ctx_just (value_ok s v) c4"
proof -
  have "ctx_just (value_ok s v) (fst (c1, p1))" unfolding 1 [symmetric]
    by (rule fcm_predictValue_just)
      (use sh in \<open>auto simp: value_shape_def duo_shape_def value_ok_def Let_def dest!: less_2_cases_nat\<close>)
  then have "ctx_just (value_ok s v) (fst (c2, p2))" unfolding 2 [symmetric]
    by (intro fcm_predictValue_just)
      (use sh in \<open>auto simp: value_shape_def duo_shape_def value_ok_def Let_def dest!: less_2_cases_nat\<close>)
  then have "ctx_just (value_ok s v) (fst (c3, p3))" unfolding 3 [symmetric]
    by (intro fcm_predictValue_just)
      (use sh in \<open>auto simp: value_shape_def value_ok_def Let_def dest!: less_4_cases_nat\<close>)
  then have "ctx_just (value_ok s v) (fst (c4, p4))" unfolding 4 [symmetric]
    by (intro fcm_predictValue_just)
      (use sh in \<open>auto simp: value_shape_def value_ok_def Let_def dest!: less_2_cases_nat\<close>)
  then show ?thesis by simp
qed

lemma vp_getValue_emit:
  assumes "value_rel s t" and "ctx_just (value_ok s v) c"
  shows "vp_getValue (emit_code ValueNotPredictedId c # cr) (emit_data c v @ dr) t = Some (v, cr, dr)"
  using assms value_rel_mostRecent [OF assms(1)]
  by (auto simp: vp_getValue_def value_rel_def emit_code_def emit_data_def ValueNotPredictedId_def
      ctx_just_def value_ok_def isPredicted_def fcm_agree_getValue Let_def split: if_splits)

lemma value_lockstep:
  assumes r: "value_rel s0 t0"
  shows "\<exists>i ds s' t'. length ds \<le> 1 \<and> value_rel s' t' \<and>
      (\<forall>codes datas. encodeValue key x codes datas s0 = (i, codes @ [i], datas @ ds, s')) \<and>
      (\<forall>cr dr. decodeValue key (i # cr) (ds @ dr) t0 = Some (x, cr, dr, t'))"
proof -
  define s t where st: "s = vp_setKey key s0" "t = vp_setKey key t0"
  have rel: "value_rel s t" using value_rel_setKey [OF r] by (simp add: st)
  let ?stride = "x - getMostRecentValue (vp_last4 s)"
  obtain c1 p1 where 1: "fcm_predictValue 0 (vp_dfcmHistory s) ?stride ctx_init (vp_firstDfcm s) = (c1, p1)"
    by fastforce
  obtain c2 p2 where 2: "fcm_predictValue 1 (vp_dfcmHistory s) ?stride c1 (vp_thirdDfcm s) = (c2, p2)"
    by fastforce
  obtain c3 p3 where 3: "fcm_predictValue 2 (ln_history (vp_last4 s)) x c2 (ln_fcm (vp_last4 s)) = (c3, p3)"
    by fastforce
  obtain c4 p4 where 4: "fcm_predictValue 3 (vp_fcmHistory s) x c3 (vp_firstFcm s) = (c4, p4)"
    by fastforce
  note ps = 1 [THEN fcm_predictValue_pair] 2 [THEN fcm_predictValue_pair]
    3 [THEN fcm_predictValue_pair] 4 [THEN fcm_predictValue_pair]
  have just: "ctx_just (value_ok s x) c4"
    using value_just [OF _ 1 2 3 4] rel by (simp add: value_rel_def)
  let ?s' = "\<lparr>vp_dfcmHistory = hist_update ?stride (vp_dfcmHistory s),
      vp_firstDfcm = creditPredictor 0 c4 p1, vp_thirdDfcm = creditPredictor 1 c4 p2,
      vp_fcmHistory = hist_update x (vp_fcmHistory s), vp_firstFcm = creditPredictor 3 c4 p4,
      vp_last4 = (vp_last4 s)\<lparr>ln_fcm := creditPredictor 2 c4 p3\<rparr>\<rparr>"
  let ?t' = "\<lparr>vp_dfcmHistory = hist_update ?stride (vp_dfcmHistory t),
      vp_firstDfcm = fcm_update (vp_dfcmHistory t) ?stride (vp_firstDfcm t),
      vp_thirdDfcm = fcm_update (vp_dfcmHistory t) ?stride (vp_thirdDfcm t),
      vp_fcmHistory = hist_update x (vp_fcmHistory t),
      vp_firstFcm = fcm_update (vp_fcmHistory t) x (vp_firstFcm t),
      vp_last4 = (vp_last4 t)\<lparr>ln_fcm := fcm_update (ln_history (vp_last4 t)) x (ln_fcm (vp_last4 t))\<rparr>\<rparr>"
  let ?i = "emit_code ValueNotPredictedId c4" and ?ds = "emit_data c4 x"
  have enc: "encodeValue key x codes datas s0 = (?i, codes @ [?i], datas @ ?ds, ?s')" for codes datas
    unfolding encodeValue_def st(1) [symmetric]
    by (simp only: Let_def 1 2 3 4 prod.case evaluateContext_emit)
  have dec: "decodeValue key (?i # cr) (?ds @ dr) t0 = Some (x, cr, dr, ?t')" for cr dr
    unfolding decodeValue_def st(2) [symmetric]
    by (simp only: Let_def vp_getValue_emit [OF rel just] option.case prod.case
        value_rel_mostRecent [OF rel])
  have rel': "value_rel ?s' ?t'"
    using rel unfolding ps
    by (simp add: value_rel_def value_shape_def duo_shape_def fcm_agree_update fcm_agree_credit)
  show ?thesis
    by (rule exI [of _ ?i], rule exI [of _ ?ds], rule exI [of _ ?s'], rule exI [of _ ?t'])
      (intro conjI allI length_emit_data rel' enc dec)
qed

interpretation vac: keyed_codec encodeValue decodeValue value_rel
  by unfold_locales (rule value_lockstep)

end
