(* ===== verification/Memory_Encoder.thy ===== *)
theory Memory_Encoder
  imports Vpc4_Codec
begin

text \<open>
  The compression loop of the memory trace encoder
  (\<open>storageserver/simtrace/Simtrace3MemoryEncoder.h\<close>): the entry layouts, the geometry of
  the sub segments in the hidden streams, \<open>_encode\<close> and \<open>_decode\<close>.

  \<open>idBuffers[0]\<close> and \<open>dataBuffers[0]\<close> are the lane \<open>sb_ip\<close>, \<open>idBuffers[i + 1]\<close> and
  \<open>dataBuffers[i + 1]\<close> the lane \<open>i\<close> of \<open>sb_fields\<close>, \<open>idBuffers[ccidx]\<close> and
  \<open>cycleDataBuffer\<close> the lane \<open>sb_cycle\<close>, \<open>metaDataBuffer\<close> is \<open>sb_meta\<close>.
\<close>

section \<open>Entry layouts and sub segment geometry\<close>

datatype mem_type = MemoryAccess32 | DataMemoryAccess32 | MemoryAccess64 | DataMemoryAccess64

fun arch32Bit :: "mem_type \<Rightarrow> bool" where
  "arch32Bit MemoryAccess32 = True"
| "arch32Bit DataMemoryAccess32 = True"
| "arch32Bit MemoryAccess64 = False"
| "arch32Bit DataMemoryAccess64 = False"

fun dataFieldCount :: "mem_type \<Rightarrow> nat" where
  "dataFieldCount MemoryAccess32 = 1"
| "dataFieldCount DataMemoryAccess32 = 2"
| "dataFieldCount MemoryAccess64 = 1"
| "dataFieldCount DataMemoryAccess64 = 2"

fun lineCount :: "mem_type \<Rightarrow> nat" where
  "lineCount MemoryAccess32 = 4"
| "lineCount DataMemoryAccess32 = 4"
| "lineCount MemoryAccess64 = 3"
| "lineCount DataMemoryAccess64 = 3"

definition sizeof_dataType :: "mem_type \<Rightarrow> nat" where
  "sizeof_dataType t = (if arch32Bit t then 4 else 8)"

text \<open>The packed entry: the 64-bit meta data field, the ip, the data fields.\<close>

definition sizeof_entry :: "mem_type \<Rightarrow> nat" where
  "sizeof_entry t = 8 + sizeof_dataType t + dataFieldCount t * sizeof_dataType t"

definition idStreamCount :: "mem_type \<Rightarrow> nat" where
  "idStreamCount t = 2 + dataFieldCount t"

definition dataStreamCount :: "mem_type \<Rightarrow> nat" where
  "dataStreamCount t = 1 + dataFieldCount t"

definition totalStreamCount :: "mem_type \<Rightarrow> nat" where
  "totalStreamCount t = idStreamCount t + (dataStreamCount t + 1) + 1"

text \<open>\<open>SIMUTRACE_MEMMGMT_SEGMENT_SIZE\<close> at the build configuration's default.\<close>

definition segmentSize :: nat where
  "segmentSize = 64 * 0x100000"

definition maxEntryCount :: "mem_type \<Rightarrow> nat" where
  "maxEntryCount t = segmentSize div sizeof_entry t"

text \<open>The sub segments of a hidden stream with elements of \<open>w\<close> bytes.\<close>

definition subSegmentCountOf :: "mem_type \<Rightarrow> nat \<Rightarrow> nat" where
  "subSegmentCountOf t w = segmentSize div (maxEntryCount t * w)"

definition subSegmentSizeOf :: "mem_type \<Rightarrow> nat \<Rightarrow> nat" where
  "subSegmentSizeOf t w = segmentSize div subSegmentCountOf t w"

definition dataSubSegmentCount :: "mem_type \<Rightarrow> nat" where
  "dataSubSegmentCount t = subSegmentCountOf t (sizeof_dataType t)"

definition dataSubSegmentSize :: "mem_type \<Rightarrow> nat" where
  "dataSubSegmentSize t = subSegmentSizeOf t (sizeof_dataType t)"

definition cycleSubSegmentCount :: "mem_type \<Rightarrow> nat" where
  "cycleSubSegmentCount t = subSegmentCountOf t 8"

definition cycleSubSegmentSize :: "mem_type \<Rightarrow> nat" where
  "cycleSubSegmentSize t = subSegmentSizeOf t 8"

definition metaSubSegmentCount :: "mem_type \<Rightarrow> nat" where
  "metaSubSegmentCount t = subSegmentCountOf t 2"

definition metaSubSegmentSize :: "mem_type \<Rightarrow> nat" where
  "metaSubSegmentSize t = subSegmentSizeOf t 2"

definition idSubSegmentCount :: "mem_type \<Rightarrow> nat" where
  "idSubSegmentCount t = subSegmentCountOf t 1"

definition idSubSegmentSize :: "mem_type \<Rightarrow> nat" where
  "idSubSegmentSize t = subSegmentSizeOf t 1"

section \<open>Entries\<close>

definition TEMPORAL_ORDER_CYCLE_COUNT_BITS :: nat where
  "TEMPORAL_ORDER_CYCLE_COUNT_BITS = 48"

definition TEMPORAL_ORDER_CYCLE_COUNT_MASK :: u64 where
  "TEMPORAL_ORDER_CYCLE_COUNT_MASK = push_bit TEMPORAL_ORDER_CYCLE_COUNT_BITS 1 - 1"

record 'v mem_entry =
  me_metadata :: u64
  me_ip :: 'v
  me_dataFields :: "'v list"

text \<open>
  The bit field \<open>cycleCount : 48\<close> of \<open>MemoryAccessMetaData\<close> is the low 48 bits of
  \<open>value\<close>: reading it masks, assigning it keeps the upper bits.
\<close>

definition md_cycleCount :: "u64 \<Rightarrow> u64" where
  "md_cycleCount v = v AND TEMPORAL_ORDER_CYCLE_COUNT_MASK"

definition md_setCycleCount :: "u64 \<Rightarrow> u64 \<Rightarrow> u64" where
  "md_setCycleCount c v =
     (v AND NOT TEMPORAL_ORDER_CYCLE_COUNT_MASK) OR (c AND TEMPORAL_ORDER_CYCLE_COUNT_MASK)"

text \<open>The upper 16 bits, which go to the meta data stream.\<close>

definition md_upper :: "u64 \<Rightarrow> u16" where
  "md_upper v = ucast (drop_bit TEMPORAL_ORDER_CYCLE_COUNT_BITS
                   (v AND NOT TEMPORAL_ORDER_CYCLE_COUNT_MASK))"

section \<open>Sub segment buffers and predictors\<close>

type_synonym 'v lane = "u8 list \<times> 'v list"

record 'v sub_buffers =
  sb_ip :: "'v lane"
  sb_fields :: "'v lane list"
  sb_cycle :: "u64 lane"
  sb_meta :: "u16 list"

record 'v mem_predictors =
  mp_ip :: "'v ip_predictor"
  mp_fields :: "'v value_predictor list"
  mp_cycle :: "u64 cycle_predictor"

text \<open>What the uninitialised usage counters of one set of predictors hold.\<close>

record mem_junk =
  jk_ip :: "u64 list \<times> u64 list"
  jk_cycle :: "u64 list \<times> u64 list"
  jk_fields :: "(u64 list \<times> u64 list \<times> u64 list \<times> u64 list) list"

definition mem_predictors_init :: "u64 \<Rightarrow> mem_junk \<Rightarrow> 'a::len word mem_predictors" where
  "mem_predictors_init startCycle j =
     \<lparr>mp_ip = ip_init (fst (jk_ip j)) (snd (jk_ip j)),
      mp_fields = map (\<lambda>(j1, j3, jf, j4). value_init j1 j3 jf j4) (jk_fields j),
      mp_cycle = cycle_init startCycle (fst (jk_cycle j)) (snd (jk_cycle j))\<rparr>"

definition sub_buffers_empty :: "mem_type \<Rightarrow> 'v sub_buffers" where
  "sub_buffers_empty t =
     \<lparr>sb_ip = ([], []), sb_fields = replicate (dataFieldCount t) ([], []),
      sb_cycle = ([], []), sb_meta = []\<rparr>"

section \<open>Encoding\<close>

text \<open>The loop over the value fields of an entry.\<close>

fun encodeFields ::
  "'a::len word \<Rightarrow> 'a word list \<Rightarrow> 'a word lane list \<Rightarrow> 'a word value_predictor list \<Rightarrow>
   'a word lane list \<times> 'a word value_predictor list" where
  "encodeFields ip (v # vs) ((codes, datas) # bs) (p # ps) =
     (let (_, codes', datas', p') = encodeValue ip v codes datas p;
          (bs', ps') = encodeFields ip vs bs ps
      in ((codes', datas') # bs', p' # ps'))"
| "encodeFields ip _ bs ps = (bs, ps)"

definition encodeEntry ::
  "'a::len word mem_entry \<Rightarrow> 'a word sub_buffers \<times> 'a word mem_predictors \<Rightarrow>
   'a word sub_buffers \<times> 'a word mem_predictors" where
  "encodeEntry e bp =
     (let (b, p) = bp;
          (_, ipCodes, ipDatas, ipPred) = encodeIp (me_ip e) (fst (sb_ip b)) (snd (sb_ip b)) (mp_ip p);
          (flanes, fieldPreds) = encodeFields (me_ip e) (me_dataFields e) (sb_fields b) (mp_fields p);
          (_, ccCodes, ccDatas, ccPred) =
             encodeCycle (me_ip e) (md_cycleCount (me_metadata e))
               (fst (sb_cycle b)) (snd (sb_cycle b)) (mp_cycle p);
          meta = md_upper (me_metadata e)
      in (\<lparr>sb_ip = (ipCodes, ipDatas), sb_fields = flanes, sb_cycle = (ccCodes, ccDatas),
           sb_meta = sb_meta b @ [meta]\<rparr>,
          \<lparr>mp_ip = ipPred, mp_fields = fieldPreds, mp_cycle = ccPred\<rparr>))"

text \<open>
  What \<open>_encode\<close> leaves in the sub segments: the lanes, and how many bytes behind each
  data lane were overwritten with \<open>fillChar\<close>. The C++ computes the remaining space in
  \<open>size_t\<close>, so a used space above the sub segment size would wrap around.
\<close>

record 'v encoded_segment =
  es_buffers :: "'v sub_buffers"
  es_ipFill :: u64
  es_fieldFill :: "u64 list"
  es_cycleFill :: u64

definition remainingSpace :: "nat \<Rightarrow> nat \<Rightarrow> 'd list \<Rightarrow> u64" where
  "remainingSpace subSize width datas = of_nat subSize - of_nat (length datas * width)"

definition encode_segment ::
  "mem_type \<Rightarrow> mem_junk \<Rightarrow> u64 \<Rightarrow> nat \<Rightarrow> 'a::len word mem_entry list \<Rightarrow> 'a word encoded_segment" where
  "encode_segment t junk startCycle entryCount entries =
     (let (b, _) = fold encodeEntry (take entryCount entries)
                     (sub_buffers_empty t, mem_predictors_init startCycle junk);
          fill = remainingSpace (dataSubSegmentSize t) (sizeof_dataType t)
      in \<lparr>es_buffers = b, es_ipFill = fill (snd (sb_ip b)),
          es_fieldFill = map (\<lambda>l. fill (snd l)) (sb_fields b),
          es_cycleFill = remainingSpace (cycleSubSegmentSize t) 8 (snd (sb_cycle b))\<rparr>)"

section \<open>Decoding\<close>

fun decodeFields ::
  "'a::len word \<Rightarrow> 'a word lane list \<Rightarrow> 'a word value_predictor list \<Rightarrow>
   ('a word list \<times> 'a word lane list \<times> 'a word value_predictor list) option" where
  "decodeFields ip ((codes, datas) # bs) (p # ps) =
     (case decodeValue ip codes datas p of None \<Rightarrow> None
      | Some (v, codes', datas', p') \<Rightarrow>
          (case decodeFields ip bs ps of None \<Rightarrow> None
           | Some (vs, bs', ps') \<Rightarrow> Some (v # vs, (codes', datas') # bs', p' # ps')))"
| "decodeFields ip bs ps = Some ([], bs, ps)"

definition decodeEntry ::
  "'a::len word sub_buffers \<times> 'a word mem_predictors \<Rightarrow>
   ('a word mem_entry \<times> 'a word sub_buffers \<times> 'a word mem_predictors) option" where
  "decodeEntry bp =
     (let (b, p) = bp in
      case decodeIp (fst (sb_ip b)) (snd (sb_ip b)) (mp_ip p) of None \<Rightarrow> None
      | Some (ip, ipCodes, ipDatas, ipPred) \<Rightarrow>
      (case decodeFields ip (sb_fields b) (mp_fields p) of None \<Rightarrow> None
      | Some (vs, flanes, fieldPreds) \<Rightarrow>
      (case sb_meta b of [] \<Rightarrow> None
      | m # meta \<Rightarrow>
      (case decodeCycle ip (fst (sb_cycle b)) (snd (sb_cycle b)) (mp_cycle p) of None \<Rightarrow> None
      | Some (cycleCount, ccCodes, ccDatas, ccPred) \<Rightarrow>
          Some (\<lparr>me_metadata = md_setCycleCount cycleCount
                    (push_bit TEMPORAL_ORDER_CYCLE_COUNT_BITS (ucast m)),
                 me_ip = ip, me_dataFields = vs\<rparr>,
                \<lparr>sb_ip = (ipCodes, ipDatas), sb_fields = flanes,
                 sb_cycle = (ccCodes, ccDatas), sb_meta = meta\<rparr>,
                \<lparr>mp_ip = ipPred, mp_fields = fieldPreds, mp_cycle = ccPred\<rparr>)))))"

fun decodeEntries ::
  "nat \<Rightarrow> 'a::len word sub_buffers \<times> 'a word mem_predictors \<Rightarrow> 'a word mem_entry list option" where
  "decodeEntries 0 bp = Some []"
| "decodeEntries (Suc n) bp =
     (case decodeEntry bp of None \<Rightarrow> None
      | Some (e, bp') \<Rightarrow> map_option ((#) e) (decodeEntries n bp'))"

definition decode_segment ::
  "mem_junk \<Rightarrow> u64 \<Rightarrow> nat \<Rightarrow> 'a::len word sub_buffers \<Rightarrow> 'a word mem_entry list option" where
  "decode_segment junk startCycle entryCount b =
     decodeEntries entryCount (b, mem_predictors_init startCycle junk)"

section \<open>Lockstep of the entry loops\<close>

definition lane_app :: "'v lane \<Rightarrow> 'v lane \<Rightarrow> 'v lane" where
  "lane_app a b = (fst a @ fst b, snd a @ snd b)"

definition sub_app :: "'v sub_buffers \<Rightarrow> 'v sub_buffers \<Rightarrow> 'v sub_buffers" where
  "sub_app a b =
     \<lparr>sb_ip = lane_app (sb_ip a) (sb_ip b),
      sb_fields = map2 lane_app (sb_fields a) (sb_fields b),
      sb_cycle = lane_app (sb_cycle a) (sb_cycle b),
      sb_meta = sb_meta a @ sb_meta b\<rparr>"

lemma lane_app_pair [simp]: "lane_app (a, b) (c, d) = (a @ c, b @ d)"
  by (simp add: lane_app_def)

lemma lane_app_sel [simp]:
  "fst (lane_app a b) = fst a @ fst b" "snd (lane_app a b) = snd a @ snd b"
  by (simp_all add: lane_app_def)

lemma lane_app_Nil [simp]: "lane_app a ([], []) = a" "lane_app ([], []) a = a"
  by (simp_all add: lane_app_def)

lemma map2_lane_app_Nil:
  "n = length bs \<Longrightarrow> map2 lane_app bs (replicate n ([], [])) = bs"
  "n = length bs \<Longrightarrow> map2 lane_app (replicate n ([], [])) bs = bs"
  by (induction bs arbitrary: n) auto

lemma lane_app_assoc: "lane_app (lane_app a b) c = lane_app a (lane_app b c)"
  by (simp add: lane_app_def)

lemma map2_lane_app_assoc:
  "map2 lane_app (map2 lane_app as bs) cs = map2 lane_app as (map2 lane_app bs cs)"
proof (induction as arbitrary: bs cs)
  case Nil
  then show ?case by simp
next
  case (Cons a as)
  then show ?case by (cases bs; cases cs) (simp_all add: lane_app_assoc)
qed

lemma sub_app_assoc: "sub_app (sub_app a b) c = sub_app a (sub_app b c)"
  by (simp add: sub_app_def lane_app_assoc map2_lane_app_assoc)

lemma sub_app_fields_length [simp]:
  "length (sb_fields (sub_app a b)) = min (length (sb_fields a)) (length (sb_fields b))"
  by (simp add: sub_app_def)

definition preds_rel :: "'a::len word mem_predictors \<Rightarrow> 'a word mem_predictors \<Rightarrow> bool" where
  "preds_rel p q \<longleftrightarrow> ip_rel (mp_ip p) (mp_ip q) \<and>
     list_all2 value_rel (mp_fields p) (mp_fields q) \<and> cycle_rel (mp_cycle p) (mp_cycle q)"

text \<open>A lane grew by \<open>n\<close> ids and at most \<open>n\<close> data words.\<close>

definition lane_len :: "nat \<Rightarrow> 'v lane \<Rightarrow> bool" where
  "lane_len n l \<longleftrightarrow> length (fst l) = n \<and> length (snd l) \<le> n"

definition sub_len :: "nat \<Rightarrow> 'v sub_buffers \<Rightarrow> bool" where
  "sub_len n b \<longleftrightarrow> lane_len n (sb_ip b) \<and> list_all (lane_len n) (sb_fields b) \<and>
     lane_len n (sb_cycle b) \<and> length (sb_meta b) = n"

lemma lane_len_app: "lane_len m a \<Longrightarrow> lane_len n b \<Longrightarrow> lane_len (m + n) (lane_app a b)"
  by (simp add: lane_len_def lane_app_def)

lemma sub_len_app: "sub_len m a \<Longrightarrow> sub_len n b \<Longrightarrow> sub_len (m + n) (sub_app a b)"
  unfolding sub_len_def sub_app_def
  by (auto simp: list_all_iff intro!: lane_len_app simp del: lane_app_pair elim!: in_set_zipE)

lemma fields_lockstep:
  assumes "list_all2 value_rel ps qs" and "length vs = length ps"
  shows "\<exists>ds ps' qs'. length ds = length ps \<and> list_all (lane_len 1) ds \<and> list_all2 value_rel ps' qs' \<and>
      (\<forall>bs. length bs = length ps \<longrightarrow> encodeFields ip vs bs ps = (map2 lane_app bs ds, ps')) \<and>
      (\<forall>rs. length rs = length ps \<longrightarrow>
         decodeFields ip (map2 lane_app ds rs) qs = Some (vs, rs, qs'))"
  using assms
proof (induction ps qs arbitrary: vs rule: list_all2_induct)
  case Nil
  then show ?case by simp
next
  case (Cons p ps q qs)
  then obtain v vs' where vs: "vs = v # vs'" "length vs' = length ps" by (cases vs) auto
  obtain i d1 p' q' where 1: "length d1 \<le> 1" "value_rel p' q'"
      "\<And>codes datas. encodeValue ip v codes datas p = (i, codes @ [i], datas @ d1, p')"
      "\<And>cr dr. decodeValue ip (i # cr) (d1 @ dr) q = Some (v, cr, dr, q')"
    using vac.lockstep [OF Cons.hyps(1), of ip v] by blast
  obtain ds ps' qs' where 2: "length ds = length ps" "list_all (lane_len 1) ds"
      "list_all2 value_rel ps' qs'"
      "\<And>bs. length bs = length ps \<Longrightarrow> encodeFields ip vs' bs ps = (map2 lane_app bs ds, ps')"
      "\<And>rs. length rs = length ps \<Longrightarrow>
         decodeFields ip (map2 lane_app ds rs) qs = Some (vs', rs, qs')"
    using Cons.IH [OF vs(2)] by blast
  have enc: "encodeFields ip vs bs (p # ps) = (map2 lane_app bs (([i], d1) # ds), p' # ps')"
    if "length bs = length (p # ps)" for bs
    using that by (cases bs) (auto simp: vs 1 2)
  have dec: "decodeFields ip (map2 lane_app (([i], d1) # ds) rs) (q # qs) = Some (vs, rs, q' # qs')"
    if "length rs = length (p # ps)" for rs
    using that by (cases rs) (auto simp: vs 1 2)
  show ?case
    by (rule exI [of _ "([i], d1) # ds"], rule exI [of _ "p' # ps'"], rule exI [of _ "q' # qs'"])
      (use 1(1,2) 2(1-3) enc dec in \<open>simp add: lane_len_def [of _ "([i], d1)"]\<close>)
qed

text \<open>
  Splitting the meta data into cycle count and upper 16 bits loses nothing.
\<close>

lemma metadata_rejoin:
  "md_setCycleCount (md_cycleCount m)
     (push_bit TEMPORAL_ORDER_CYCLE_COUNT_BITS (ucast (md_upper m))) = m"
proof -
  have mask: "TEMPORAL_ORDER_CYCLE_COUNT_MASK = mask 48"
    by (simp add: TEMPORAL_ORDER_CYCLE_COUNT_MASK_def TEMPORAL_ORDER_CYCLE_COUNT_BITS_def
        mask_eq_exp_minus_1 push_bit_eq_mult)
  show ?thesis
    unfolding md_setCycleCount_def md_cycleCount_def md_upper_def mask TEMPORAL_ORDER_CYCLE_COUNT_BITS_def
    by (rule bit_word_eqI)
      (auto simp: bit_or_iff bit_and_iff bit_not_iff bit_mask_iff bit_push_bit_iff bit_ucast_iff
        bit_drop_bit_eq not_less)
qed

lemma entry_lockstep:
  assumes rel: "preds_rel p q" and len: "length (me_dataFields e) = length (mp_fields p)"
  shows "\<exists>d p' q'. sub_len 1 d \<and> length (sb_fields d) = length (mp_fields p) \<and> preds_rel p' q' \<and>
      length (mp_fields p') = length (mp_fields p) \<and>
      (\<forall>b. length (sb_fields b) = length (mp_fields p) \<longrightarrow> encodeEntry e (b, p) = (sub_app b d, p')) \<and>
      (\<forall>r. length (sb_fields r) = length (mp_fields p) \<longrightarrow>
         decodeEntry (sub_app d r, q) = Some (e, r, q'))"
proof -
  obtain i1 d1 ip' iq' where 1: "length d1 \<le> 1" "ip_rel ip' iq'"
      "\<And>codes datas. encodeIp (me_ip e) codes datas (mp_ip p) = (i1, codes @ [i1], datas @ d1, ip')"
      "\<And>cr dr. decodeIp (i1 # cr) (d1 @ dr) (mp_ip q) = Some (me_ip e, cr, dr, iq')"
    using ipc.lockstep [of "mp_ip p" "mp_ip q" "me_ip e"] rel unfolding preds_rel_def by blast
  obtain ds fps fqs where 2: "length ds = length (mp_fields p)" "list_all (lane_len 1) ds"
      "list_all2 value_rel fps fqs"
      "\<And>bs. length bs = length (mp_fields p) \<Longrightarrow>
         encodeFields (me_ip e) (me_dataFields e) bs (mp_fields p) = (map2 lane_app bs ds, fps)"
      "\<And>rs. length rs = length (mp_fields p) \<Longrightarrow>
         decodeFields (me_ip e) (map2 lane_app ds rs) (mp_fields q) = Some (me_dataFields e, rs, fqs)"
    using fields_lockstep [of "mp_fields p" "mp_fields q" "me_dataFields e" "me_ip e"] rel len
    unfolding preds_rel_def by metis
  let ?cc = "md_cycleCount (me_metadata e)"
  obtain i3 d3 cp' cq' where 3: "length d3 \<le> 1" "cycle_rel cp' cq'"
      "\<And>codes datas. encodeCycle (me_ip e) ?cc codes datas (mp_cycle p) =
         (i3, codes @ [i3], datas @ d3, cp')"
      "\<And>cr dr. decodeCycle (me_ip e) (i3 # cr) (d3 @ dr) (mp_cycle q) = Some (?cc, cr, dr, cq')"
    using cyc.lockstep [of "mp_cycle p" "mp_cycle q" "me_ip e" ?cc] rel
    unfolding preds_rel_def by blast
  let ?d = "\<lparr>sb_ip = ([i1], d1), sb_fields = ds, sb_cycle = ([i3], d3), sb_meta = [md_upper (me_metadata e)]\<rparr>"
  let ?p' = "\<lparr>mp_ip = ip', mp_fields = fps, mp_cycle = cp'\<rparr>"
  let ?q' = "\<lparr>mp_ip = iq', mp_fields = fqs, mp_cycle = cq'\<rparr>"
  have lens: "length fps = length (mp_fields p)"
    using 2(4) [of "replicate (length (mp_fields p)) ([], [])"] len
  proof -
    have "length (snd (encodeFields k vs bs ps)) = length ps" for k :: "'a word" and vs bs ps
      by (induction k vs bs ps rule: encodeFields.induct) (auto simp: Let_def split: prod.splits)
    from this [of "me_ip e" "me_dataFields e" "replicate (length (mp_fields p)) ([], [])" "mp_fields p"]
    show ?thesis using 2(4) [of "replicate (length (mp_fields p)) ([], [])"] by simp
  qed
  have enc: "encodeEntry e (b, p) = (sub_app b ?d, ?p')"
    if "length (sb_fields b) = length (mp_fields p)" for b
    by (simp add: encodeEntry_def Let_def 1(3) 2(4) [OF that] 3(3) sub_app_def lane_app_def)
  have dec: "decodeEntry (sub_app ?d r, q) = Some (e, r, ?q')"
    if "length (sb_fields r) = length (mp_fields p)" for r
    by (simp add: decodeEntry_def sub_app_def 1(4) 2(5) [OF that] 3(4) metadata_rejoin)
  show ?thesis
    by (rule exI [of _ ?d], rule exI [of _ ?p'], rule exI [of _ ?q'])
      (use 1(1,2) 2(1-3) 3(1,2) lens enc dec in
        \<open>auto simp: sub_len_def lane_len_def preds_rel_def\<close>)
qed

lemma entries_lockstep:
  assumes "preds_rel p q" and "list_all (\<lambda>e. length (me_dataFields e) = length (mp_fields p)) es"
  shows "\<exists>d p'. sub_len (length es) d \<and> length (sb_fields d) = length (mp_fields p) \<and>
      (\<forall>b. length (sb_fields b) = length (mp_fields p) \<longrightarrow> fold encodeEntry es (b, p) = (sub_app b d, p')) \<and>
      (\<forall>r. length (sb_fields r) = length (mp_fields p) \<longrightarrow>
         decodeEntries (length es) (sub_app d r, q) = Some es)"
  using assms
proof (induction es arbitrary: p q)
  case Nil
  let ?d = "\<lparr>sb_ip = ([], []), sb_fields = replicate (length (mp_fields p)) ([], []),
             sb_cycle = ([], []), sb_meta = []\<rparr>"
  have "sub_app b ?d = b" if "length (sb_fields b) = length (mp_fields p)" for b :: "'a word sub_buffers"
    using that by (cases b) (simp add: sub_app_def map2_lane_app_Nil)
  moreover have "sub_len 0 ?d" by (simp add: sub_len_def lane_len_def list_all_iff)
  ultimately show ?case by (intro exI [of _ ?d] exI [of _ p]) simp
next
  case (Cons e es)
  obtain d1 p1 q1 where 1: "sub_len 1 d1" "length (sb_fields d1) = length (mp_fields p)"
      "preds_rel p1 q1" "length (mp_fields p1) = length (mp_fields p)"
      "\<And>b. length (sb_fields b) = length (mp_fields p) \<Longrightarrow> encodeEntry e (b, p) = (sub_app b d1, p1)"
      "\<And>r. length (sb_fields r) = length (mp_fields p) \<Longrightarrow>
         decodeEntry (sub_app d1 r, q) = Some (e, r, q1)"
    using entry_lockstep [OF Cons.prems(1), of e] Cons.prems(2) by auto
  obtain d p' where 2: "sub_len (length es) d" "length (sb_fields d) = length (mp_fields p)"
      "\<And>b. length (sb_fields b) = length (mp_fields p) \<Longrightarrow> fold encodeEntry es (b, p1) = (sub_app b d, p')"
      "\<And>r. length (sb_fields r) = length (mp_fields p) \<Longrightarrow>
         decodeEntries (length es) (sub_app d r, q1) = Some es"
    using Cons.IH [OF 1(3)] Cons.prems(2) 1(4) by (auto simp: list_all_iff)
  have "sub_len (length (e # es)) (sub_app d1 d)"
    using sub_len_app [OF 1(1) 2(1)] by simp
  then show ?case
    by (intro exI [of _ "sub_app d1 d"] exI [of _ p']) (auto simp: 1 2 sub_app_assoc)
qed

section \<open>Geometry\<close>

lemmas geometry_defs = subSegmentCountOf_def subSegmentSizeOf_def dataSubSegmentSize_def
  dataSubSegmentCount_def cycleSubSegmentSize_def cycleSubSegmentCount_def metaSubSegmentSize_def
  metaSubSegmentCount_def idSubSegmentSize_def idSubSegmentCount_def maxEntryCount_def segmentSize_def
  sizeof_entry_def sizeof_dataType_def

lemma subSegment_fits:
  assumes "w \<in> {1, 2, sizeof_dataType t, 8}"
  shows "0 < subSegmentCountOf t w" "maxEntryCount t * w \<le> subSegmentSizeOf t w"
    "subSegmentCountOf t w * subSegmentSizeOf t w \<le> segmentSize"
  using assms by (cases t; auto simp: geometry_defs)+

section \<open>Round trip, bounds and determinism of a segment\<close>

text \<open>The arrays of usage counters have the length the templates ask for.\<close>

definition junk_ok :: "mem_type \<Rightarrow> mem_junk \<Rightarrow> bool" where
  "junk_ok t j \<longleftrightarrow> length (fst (jk_ip j)) = 2 \<and> length (snd (jk_ip j)) = 2 \<and>
     length (fst (jk_cycle j)) = 2 \<and> length (snd (jk_cycle j)) = 2 \<and>
     length (jk_fields j) = dataFieldCount t \<and>
     list_all (\<lambda>(j1, j3, jf, j4). length j1 = 2 \<and> length j3 = 2 \<and> length jf = 2 \<and> length j4 = 4)
       (jk_fields j)"

definition entries_ok :: "mem_type \<Rightarrow> 'v mem_entry list \<Rightarrow> bool" where
  "entries_ok t es \<longleftrightarrow> list_all (\<lambda>e. length (me_dataFields e) = dataFieldCount t) es"

lemma preds_rel_init:
  assumes "junk_ok t j" "junk_ok t j'"
  shows "preds_rel (mem_predictors_init c j) (mem_predictors_init c j')"
  using assms
  by (auto simp: preds_rel_def mem_predictors_init_def junk_ok_def ip_rel_init cycle_rel_init
      list_all2_conv_all_nth list_all_length case_prod_beta intro!: value_rel_init)

lemma mem_predictors_init_fields [simp]:
  "length (mp_fields (mem_predictors_init c j)) = length (jk_fields j)"
  by (simp add: mem_predictors_init_def)

lemma sub_app_empty:
  "length (sb_fields b) = dataFieldCount t \<Longrightarrow> sub_app (sub_buffers_empty t) b = b"
  by (cases b) (simp add: sub_app_def sub_buffers_empty_def map2_lane_app_Nil)

lemma segment_lockstep:
  assumes "junk_ok t j" "junk_ok t j'" "entries_ok t es" "n \<le> length es"
  shows "sub_len n (es_buffers (encode_segment t j c n es))" (is ?len)
    and "length (sb_fields (es_buffers (encode_segment t j c n es))) = dataFieldCount t" (is ?fields)
    and "length (sb_fields r) = dataFieldCount t \<Longrightarrow>
      decode_segment j' c n (sub_app (es_buffers (encode_segment t j c n es)) r) = Some (take n es)"
proof -
  let ?p = "mem_predictors_init c j :: 'a word mem_predictors"
  have fc: "length (mp_fields ?p) = dataFieldCount t"
    using assms(1) by (simp add: junk_ok_def)
  have "list_all (\<lambda>e. length (me_dataFields e) = length (mp_fields ?p)) (take n es)"
    using assms(1,3) by (auto simp: entries_ok_def junk_ok_def list_all_iff dest: in_set_takeD)
  from entries_lockstep [OF preds_rel_init [OF assms(1,2)] this] assms(4)
  obtain d p' where d: "sub_len n d" "length (sb_fields d) = dataFieldCount t"
    "\<And>b. length (sb_fields b) = dataFieldCount t \<Longrightarrow>
       fold encodeEntry (take n es) (b, ?p) = (sub_app b d, p')"
    "\<And>r. length (sb_fields r) = dataFieldCount t \<Longrightarrow>
       decodeEntries n (sub_app d r, mem_predictors_init c j') = Some (take n es)"
    unfolding fc by auto
  have "es_buffers (encode_segment t j c n es) = d"
    using d(3) [of "sub_buffers_empty t"] sub_app_empty [OF d(2)]
    by (simp add: encode_segment_def sub_buffers_empty_def Let_def)
  with d show ?len ?fields
    and "length (sb_fields r) = dataFieldCount t \<Longrightarrow>
      decode_segment j' c n (sub_app (es_buffers (encode_segment t j c n es)) r) = Some (take n es)"
    by (simp_all add: decode_segment_def)
qed

text \<open>
  C1: The memory encoder loses nothing. Whatever the uninitialised usage counters of
  the encoder (\<open>j\<close>) and of the decoder (\<open>j'\<close>) hold, and whatever stands behind the encoded
  data in the sub segments (\<open>r\<close>, for instance the fill characters), decoding the first
  \<open>n\<close> entries of an encoded segment with the same start cycle returns these entries, meta
  data included.
\<close>

theorem memory_segment_roundtrip:
  fixes es :: "'a::len word mem_entry list"
  assumes "junk_ok t j" and "junk_ok t j'" and "entries_ok t es" and "n \<le> length es"
    and "length (sb_fields r) = dataFieldCount t"
  shows "decode_segment j' startCycle n
      (sub_app (es_buffers (encode_segment t j startCycle n es)) r) = Some (take n es)"
  using segment_lockstep(3) [OF assms] .

definition junk_example :: "u64 \<Rightarrow> mem_junk" where
  "junk_example k = \<lparr>jk_ip = ([k, k], [0, 1]), jk_cycle = ([k, 0], [3, k]),
     jk_fields = [([k, 1], [0, 0], [7, k], [k, k, k, k])]\<rparr>"

definition entries_example :: "u32 mem_entry list" where
  "entries_example =
     [\<lparr>me_metadata = 0x8001000000000010, me_ip = 0x400000, me_dataFields = [0x1000]\<rparr>,
      \<lparr>me_metadata = 0x0000000000000011, me_ip = 0x400004, me_dataFields = [0x1004]\<rparr>,
      \<lparr>me_metadata = 0xFFFF000000000012, me_ip = 0x400000, me_dataFields = [0x1008]\<rparr>]"

theorem memory_segment_roundtrip_witness:
  "decode_segment (junk_example 9) 0x10 3
     (sub_app (es_buffers (encode_segment MemoryAccess32 (junk_example 4) 0x10 3 entries_example))
        \<lparr>sb_ip = ([0xFF], [0xFFFFFFFF]), sb_fields = [([], [])], sb_cycle = ([], [7]), sb_meta = [1]\<rparr>) =
   Some entries_example"
proof -
  have j: "junk_ok MemoryAccess32 (junk_example k)" for k
    by (simp add: junk_ok_def junk_example_def)
  have e: "entries_ok MemoryAccess32 entries_example" "3 \<le> length entries_example"
    "take 3 entries_example = entries_example"
    by (simp_all add: entries_ok_def entries_example_def)
  show ?thesis
    using memory_segment_roundtrip [OF j j e(1,2)] by (simp add: e(3))
qed

lemma remainingSpace_exact:
  assumes "length ds * w \<le> s" and "s \<le> segmentSize"
  shows "unat (remainingSpace s w ds) = s - length ds * w"
proof -
  have "s < 2 ^ 64" using assms(2) by (simp add: segmentSize_def)
  moreover have "remainingSpace s w ds = of_nat (s - length ds * w)"
    using assms(1) by (simp add: remainingSpace_def of_nat_diff)
  ultimately show ?thesis by (simp add: unat_of_nat_small)
qed

lemma encode_segment_fits_all:
  fixes es :: "'a::len word mem_entry list"
  assumes "junk_ok t j" and "entries_ok t es" and "n \<le> length es" and "n \<le> maxEntryCount t"
    and out: "out = encode_segment t j startCycle n es"
  shows "\<forall>l \<in> set (sb_ip (es_buffers out) # sb_fields (es_buffers out)).
           length (fst l) \<le> idSubSegmentSize t \<and>
           length (snd l) * sizeof_dataType t \<le> dataSubSegmentSize t \<and>
           unat (remainingSpace (dataSubSegmentSize t) (sizeof_dataType t) (snd l)) =
             dataSubSegmentSize t - length (snd l) * sizeof_dataType t"
    and "length (fst (sb_cycle (es_buffers out))) \<le> idSubSegmentSize t"
    and "length (snd (sb_cycle (es_buffers out))) * 8 \<le> cycleSubSegmentSize t"
    and "unat (es_cycleFill out) =
           cycleSubSegmentSize t - length (snd (sb_cycle (es_buffers out))) * 8"
    and "length (sb_meta (es_buffers out)) * 2 \<le> metaSubSegmentSize t"
proof -
  have len: "sub_len n (es_buffers out)"
    unfolding out by (rule segment_lockstep(1) [OF assms(1,1,2,3)])
  have ll: "lane_len n l" if "l \<in> set (sb_ip (es_buffers out) # sb_fields (es_buffers out))" for l
    using that len by (auto simp: sub_len_def list_all_iff)
  have small: "subSegmentSizeOf t w \<le> segmentSize" for w
    by (simp add: subSegmentSizeOf_def)
  have fit: "k * w \<le> subSegmentSizeOf t w" if "k \<le> n" "w \<in> {1, 2, sizeof_dataType t, 8}" for k w
    using subSegment_fits(2) [OF that(2)] that(1) assms(4)
    by (meson le_trans mult_le_mono1)
  note d = dataSubSegmentSize_def cycleSubSegmentSize_def idSubSegmentSize_def metaSubSegmentSize_def
  show "\<forall>l \<in> set (sb_ip (es_buffers out) # sb_fields (es_buffers out)).
      length (fst l) \<le> idSubSegmentSize t \<and>
      length (snd l) * sizeof_dataType t \<le> dataSubSegmentSize t \<and>
      unat (remainingSpace (dataSubSegmentSize t) (sizeof_dataType t) (snd l)) =
        dataSubSegmentSize t - length (snd l) * sizeof_dataType t"
  proof
    fix l assume "l \<in> set (sb_ip (es_buffers out) # sb_fields (es_buffers out))"
    then have l: "length (fst l) = n" "length (snd l) \<le> n"
      using ll by (simp_all add: lane_len_def)
    have "length (snd l) * sizeof_dataType t \<le> dataSubSegmentSize t"
      using fit [OF l(2), of "sizeof_dataType t"] by (simp add: d)
    moreover have "length (fst l) \<le> idSubSegmentSize t"
      using fit [of n 1] l(1) by (simp add: d)
    ultimately show "length (fst l) \<le> idSubSegmentSize t \<and>
      length (snd l) * sizeof_dataType t \<le> dataSubSegmentSize t \<and>
      unat (remainingSpace (dataSubSegmentSize t) (sizeof_dataType t) (snd l)) =
        dataSubSegmentSize t - length (snd l) * sizeof_dataType t"
      using small by (simp add: d remainingSpace_exact)
  qed
  show "length (fst (sb_cycle (es_buffers out))) \<le> idSubSegmentSize t"
    using len fit [of n 1] by (simp add: d sub_len_def lane_len_def)
  show cyc: "length (snd (sb_cycle (es_buffers out))) * 8 \<le> cycleSubSegmentSize t"
    using len fit [of _ 8] by (simp add: d sub_len_def lane_len_def)
  then show "unat (es_cycleFill out) =
      cycleSubSegmentSize t - length (snd (sb_cycle (es_buffers out))) * 8"
    using small by (simp add: remainingSpace_exact out encode_segment_def case_prod_beta Let_def d)
  show "length (sb_meta (es_buffers out)) * 2 \<le> metaSubSegmentSize t"
    using len fit [of n 2] by (simp add: d sub_len_def)
qed

text \<open>
  C34: Every sub segment is large enough for what \<open>_encode\<close> writes to it: with at most
  \<open>maxEntryCount\<close> entries in the segment, each id, data, cycle and meta lane stays inside
  its sub segment, so the remaining space that is filled is the exact rest and does not
  wrap around.
\<close>

theorem encode_segment_fits:
  fixes es :: "'a::len word mem_entry list"
  assumes "junk_ok t j" and "entries_ok t es" and "n \<le> length es" and "n \<le> maxEntryCount t"
    and "out = encode_segment t j startCycle n es"
  shows "(\<forall>l \<in> set (sb_ip (es_buffers out) # sb_fields (es_buffers out)).
           length (fst l) \<le> idSubSegmentSize t \<and>
           length (snd l) * sizeof_dataType t \<le> dataSubSegmentSize t \<and>
           unat (remainingSpace (dataSubSegmentSize t) (sizeof_dataType t) (snd l)) =
             dataSubSegmentSize t - length (snd l) * sizeof_dataType t) \<and>
         length (fst (sb_cycle (es_buffers out))) \<le> idSubSegmentSize t \<and>
         length (snd (sb_cycle (es_buffers out))) * 8 \<le> cycleSubSegmentSize t \<and>
         unat (es_cycleFill out) =
           cycleSubSegmentSize t - length (snd (sb_cycle (es_buffers out))) * 8 \<and>
         length (sb_meta (es_buffers out)) * 2 \<le> metaSubSegmentSize t"
  using encode_segment_fits_all [OF assms] by blast

theorem encode_segment_fits_witness:
  "length (sb_meta (es_buffers (encode_segment MemoryAccess32 (junk_example 4) 0x10 3 entries_example))) * 2
     \<le> metaSubSegmentSize MemoryAccess32"
proof -
  have j: "junk_ok MemoryAccess32 (junk_example 4)"
    by (simp add: junk_ok_def junk_example_def)
  have e: "entries_ok MemoryAccess32 entries_example" "3 \<le> length entries_example"
    by (simp_all add: entries_ok_def entries_example_def)
  have n: "3 \<le> maxEntryCount MemoryAccess32" by (simp add: geometry_defs)
  show ?thesis using encode_segment_fits [OF j e n refl] by blast
qed

text \<open>
  The sub segments of one hidden stream segment exist, do not overlap and stay inside
  the segment: for every element width the encoder uses, the byte ranges of two different
  sub segment indices are disjoint and every range ends within the 64 MiB.
\<close>

theorem subSegments_disjoint:
  assumes "w \<in> {1, 2, sizeof_dataType t, 8}"
    and "i < subSegmentCountOf t w" and "k < i"
  shows "k * subSegmentSizeOf t w + subSegmentSizeOf t w \<le> i * subSegmentSizeOf t w \<and>
    i * subSegmentSizeOf t w + subSegmentSizeOf t w \<le> segmentSize"
proof -
  have "Suc k \<le> i" "Suc i \<le> subSegmentCountOf t w" using assms by simp_all
  then have "Suc k * subSegmentSizeOf t w \<le> i * subSegmentSizeOf t w"
    and "Suc i * subSegmentSizeOf t w \<le> subSegmentCountOf t w * subSegmentSizeOf t w"
    by (blast intro: mult_le_mono1)+
  with subSegment_fits(3) [OF assms(1)] show ?thesis
    by (simp add: add.commute)
qed

theorem subSegments_disjoint_witness:
  "1 * subSegmentSizeOf MemoryAccess32 8 + subSegmentSizeOf MemoryAccess32 8 \<le> segmentSize"
proof -
  have "(1::nat) < subSegmentCountOf MemoryAccess32 8" by (simp add: geometry_defs)
  then show ?thesis using subSegments_disjoint [of 8 MemoryAccess32 1 0] by simp
qed

text \<open>
  The encoded trace depends on uninitialised memory. The constructor of \<open>Predictor\<close>
  clears only the first usage counter, so the same instruction pointer is encoded with
  another predictor id when the memory behind the other counters holds something else.
\<close>

theorem encode_depends_on_uninitialised_counters:
  "\<exists>(j :: u64 list) j' k ip.
     fst (encodeIp (ip :: u64) [] [] (ip_init j k)) \<noteq> fst (encodeIp ip [] [] (ip_init j' k)) \<and>
     length j = 2 \<and> length j' = 2 \<and> length k = 2"
proof -
  have 1: "fst (encodeIp (1 :: u64) [] [] (ip_init [0, 0] [0, 0])) = 3"
    by code_simp
  have 2: "fst (encodeIp (1 :: u64) [] [] (ip_init [0, 5] [0, 0])) = 1"
    by code_simp
  show ?thesis
    by (rule exI [of _ "[0, 0]"], rule exI [of _ "[0, 5]"], rule exI [of _ "[0, 0]"], rule exI [of _ 1])
      (simp add: 1 2)
qed

end
