(* ===== verification/Variable_Entry.thy ===== *)
theory Variable_Entry
  imports Prelude
begin

text \<open>
  Variable-sized entries (\<open>include/SimuStorTypes.h\<close>): the encoding of the entry size, and
  the block format in which data of any length is stored in blocks of a fixed size.

  Memory is a list of bytes. A block header is the 16-bit bit field
  \<open>reserved : 1, continuation : 1, size : 14\<close>, lowest bit first and stored little
  endian, as the supported x86-64 compilers lay it out. A read outside of the given
  memory (or a violated \<open>assert\<close>) is \<open>None\<close>.
\<close>

section \<open>Entry sizes\<close>

definition VARIABLE_ENTRY_SIZE_FLAG :: u32 where
  "VARIABLE_ENTRY_SIZE_FLAG = 0x80000000"

definition sizeof_VDataBlockHeader :: nat where
  "sizeof_VDataBlockHeader = 2"

definition VARIABLE_ENTRY_MAX_SIZE :: nat where
  "VARIABLE_ENTRY_MAX_SIZE = (2 ^ 14 - 1) + sizeof_VDataBlockHeader"

definition makeVariableEntrySize :: "u32 \<Rightarrow> u32" where
  "makeVariableEntrySize sizeHint =
     (let sizeHint' = (if of_nat VARIABLE_ENTRY_MAX_SIZE < sizeHint
                       then of_nat VARIABLE_ENTRY_MAX_SIZE else sizeHint)
      in sizeHint' OR VARIABLE_ENTRY_SIZE_FLAG)"

definition isVariableEntrySize :: "u32 \<Rightarrow> bool" where
  "isVariableEntrySize entrySize \<longleftrightarrow> entrySize AND VARIABLE_ENTRY_SIZE_FLAG \<noteq> 0"

definition getSizeHint :: "u32 \<Rightarrow> u32" where
  "getSizeHint variableEntrySize = variableEntrySize AND NOT VARIABLE_ENTRY_SIZE_FLAG"

text \<open>\<open>getEntrySize\<close> of a type descriptor, applied to its \<open>entrySize\<close> field.\<close>

definition getEntrySize :: "u32 \<Rightarrow> u32" where
  "getEntrySize entrySize = entrySize AND NOT VARIABLE_ENTRY_SIZE_FLAG"

definition getVBufferOffsetFromIndex :: "u64 \<Rightarrow> u32 \<Rightarrow> u64" where
  "getVBufferOffsetFromIndex rawEntryIndex sizeHint = rawEntryIndex * ucast sizeHint"

section \<open>Block headers\<close>

record VDataBlockHeader =
  vh_continuation :: bool
  vh_size :: nat

definition vh_bytes :: "VDataBlockHeader \<Rightarrow> u8 list" where
  "vh_bytes h =
     (let w = push_bit 2 (of_nat (vh_size h) AND 0x3FFF) OR (if vh_continuation h then 2 else 0) :: u16
      in [ucast w, ucast (drop_bit 8 w)])"

definition vh_read :: "u8 \<Rightarrow> u8 \<Rightarrow> VDataBlockHeader" where
  "vh_read lo hi =
     (let w = ucast lo OR push_bit 8 (ucast hi) :: u16
      in \<lparr>vh_continuation = (w AND 2 \<noteq> 0), vh_size = unat (drop_bit 2 w)\<rparr>)"

section \<open>Writing\<close>

text \<open>
  The do-while loop of \<open>writeVariableData\<close>, entered with \<open>sizeHint \<le> destSize\<close>. The
  result is what was written to \<open>dest\<close>, the number of blocks, and the data left over.
  The guard \<open>0 < sizeHint\<close> is implied by the assertions at the head of the function; it
  is there for the termination proof.
\<close>

function write_blocks :: "nat \<Rightarrow> nat \<Rightarrow> u8 list \<Rightarrow> u8 list \<times> nat \<times> u8 list" where
  "write_blocks sizeHint destSize data =
     (let blockDataSize = sizeHint - sizeof_VDataBlockHeader;
          destSize' = destSize - sizeHint;
          chunkSize = (if blockDataSize \<le> length data then blockDataSize else length data);
          chunk = take chunkSize data;
          data' = drop chunkSize data
      in if data' = [] then
           (vh_bytes \<lparr>vh_continuation = False, vh_size = chunkSize\<rparr> @ chunk @
            replicate (blockDataSize - chunkSize) 0, 1, [])
         else
           (let block = vh_bytes \<lparr>vh_continuation = True, vh_size = chunkSize\<rparr> @ chunk
            in if 0 < sizeHint \<and> sizeHint \<le> destSize' then
                 (let (out, n, left) = write_blocks sizeHint destSize' data'
                  in (block @ out, Suc n, left))
               else (block, 1, data')))"
  by pat_completeness auto
termination
  by (relation "measure (\<lambda>(h, d, xs). d)") auto

declare write_blocks.simps [simp del]

text \<open>
  The function: the number of bytes saved, the bytes written, and the block count,
  which is not stored through \<open>outBlockCount\<close> when the first block does not fit.
\<close>

definition writeVariableData :: "nat \<Rightarrow> u8 list \<Rightarrow> nat \<Rightarrow> nat \<times> u8 list \<times> nat option" where
  "writeVariableData destSize data sizeHint =
     (if destSize < sizeHint then (0, [], None)
      else let (out, n, left) = write_blocks sizeHint destSize data
           in (length data - length left, out, Some n))"

section \<open>Reading\<close>

text \<open>
  The loop of \<open>readVariableData\<close> over the bytes \<open>src\<close> (\<open>srcSize\<close> is their number), with
  a destination buffer. The result is the return value and the data; \<open>*dataSize\<close> is the
  length of the data.
\<close>

function readVariableData :: "u8 list \<Rightarrow> (bool \<times> u8 list) option" where
  "readVariableData src =
     (case src of
        lo # hi # rest \<Rightarrow>
          (let h = vh_read lo hi in
           if length rest < vh_size h then None
           else if \<not> vh_continuation h then Some (True, take (vh_size h) rest)
           else (let src' = drop (vh_size h) rest in
                 if sizeof_VDataBlockHeader < length src' then
                   map_option (\<lambda>(r, ds). (r, take (vh_size h) rest @ ds)) (readVariableData src')
                 else Some (False, take (vh_size h) rest)))
      | _ \<Rightarrow> None)"
  by pat_completeness auto
termination
  by (relation "measure length") auto

declare readVariableData.simps [simp del]

text \<open>
  The loop of \<open>findVariableEntry\<close>: \<open>offset\<close> is \<open>buffer - buf\<close>, \<open>localIndex\<close> the counter
  of the loop (a \<open>uint64_t\<close> that cannot wrap, every block takes two bytes or more). The
  result -1 (cast to \<open>size_t\<close>) is \<open>Some None\<close>, running out of the memory is \<open>None\<close>.
\<close>

function findVariableEntry_loop :: "u8 list \<Rightarrow> nat \<Rightarrow> nat \<Rightarrow> nat \<Rightarrow> nat option option" where
  "findVariableEntry_loop buffer offset localIndex localSearchIndex =
     (case buffer of
        lo # hi # rest \<Rightarrow>
          (let h = vh_read lo hi;
               localIndex' = (if \<not> vh_continuation h then Suc localIndex else localIndex)
           in if \<not> vh_continuation h \<and> localIndex' = localSearchIndex then Some (Some offset)
              else if length rest < vh_size h then None
              else (let buffer' = drop (vh_size h) rest in
                    if sizeof_VDataBlockHeader < length buffer'
                    then findVariableEntry_loop buffer' (offset + sizeof_VDataBlockHeader + vh_size h)
                           localIndex' localSearchIndex
                    else Some None))
      | _ \<Rightarrow> None)"
  by pat_completeness auto
termination
  by (relation "measure (\<lambda>(b, _). length b)") auto

declare findVariableEntry_loop.simps [simp del]

definition findVariableEntry :: "u8 list \<Rightarrow> nat \<Rightarrow> nat option option" where
  "findVariableEntry buffer localSearchIndex = findVariableEntry_loop buffer 0 0 localSearchIndex"

section \<open>The header survives\<close>

lemma u16_bytes_rejoin:
  "ucast (ucast (w :: u16) :: u8) OR push_bit 8 (ucast (ucast (drop_bit 8 w) :: u8)) = w"
  by (rule bit_word_eqI) (auto simp: bit_or_iff bit_ucast_iff bit_push_bit_iff bit_drop_bit_eq)

lemma vh_roundtrip:
  assumes "n < 2 ^ 14"
  shows "vh_read (ucast (push_bit 2 (of_nat n AND 0x3FFF) OR (if c then 2 else 0) :: u16))
      (ucast (drop_bit 8 (push_bit 2 (of_nat n AND 0x3FFF) OR (if c then 2 else 0) :: u16))) =
    \<lparr>vh_continuation = c, vh_size = n\<rparr>"
proof -
  let ?w = "push_bit 2 (of_nat n AND 0x3FFF) OR (if c then 2 else 0) :: u16"
  have m: "(0x3FFF :: u16) = mask 14" by (simp add: mask_eq_exp_minus_1)
  note w = u16_bytes_rejoin [of ?w]
  have "?w AND 2 = (if c then 2 else 0)"
    by (rule bit_word_eqI)
      (auto simp: bit_or_iff bit_and_iff bit_push_bit_iff bit_simps numeral_2_eq_2 [symmetric])
  then have cont: "(?w AND 2 \<noteq> 0) = c" by simp
  have "drop_bit 2 ?w = of_nat n AND mask 14"
    unfolding m
    by (rule bit_word_eqI)
      (auto simp: bit_or_iff bit_and_iff bit_push_bit_iff bit_drop_bit_eq bit_mask_iff bit_simps)
  then have "unat (drop_bit 2 ?w) = n"
    using assms by (simp add: unat_of_nat take_bit_nat_eq_self flip: take_bit_eq_mask)
      (simp add: take_bit_nat_eq_self unsigned_take_bit_eq unat_of_nat)
  with w cont show ?thesis by (simp add: vh_read_def Let_def)
qed

lemma vh_bytes_read:
  assumes "n < 2 ^ 14"
  obtains lo hi where "vh_bytes \<lparr>vh_continuation = c, vh_size = n\<rparr> = [lo, hi]"
    "vh_read lo hi = \<lparr>vh_continuation = c, vh_size = n\<rparr>"
  using vh_roundtrip [OF assms, of c] by (simp add: vh_bytes_def Let_def)

section \<open>The round trip\<close>

lemma read_block:
  assumes "n < 2 ^ 14" and "length ds = n"
  shows "readVariableData (vh_bytes \<lparr>vh_continuation = c, vh_size = n\<rparr> @ ds @ rest) =
    (if \<not> c then Some (True, ds)
     else if sizeof_VDataBlockHeader < length rest
       then map_option (\<lambda>(r, es). (r, ds @ es)) (readVariableData rest)
       else Some (False, ds))"
proof -
  obtain lo hi where h: "vh_bytes \<lparr>vh_continuation = c, vh_size = n\<rparr> = [lo, hi]"
    "vh_read lo hi = \<lparr>vh_continuation = c, vh_size = n\<rparr>"
    using vh_bytes_read [OF assms(1)] .
  show ?thesis
    unfolding h(1) by (subst readVariableData.simps) (simp add: h(2) assms(2) Let_def)
qed

lemma length_vh_bytes [simp]: "length (vh_bytes h) = 2"
  by (simp add: vh_bytes_def Let_def)

definition hint_ok :: "nat \<Rightarrow> bool" where
  "hint_ok sizeHint \<longleftrightarrow>
     sizeof_VDataBlockHeader < sizeHint \<and> sizeHint \<le> VARIABLE_ENTRY_MAX_SIZE"

text \<open>
  What the writing loop leaves in memory: whole blocks, and data that reads back as
  what was saved. Bytes behind the blocks (\<open>rest\<close>) matter only when data was left over.
\<close>

lemma write_blocks_spec:
  assumes "hint_ok sizeHint" and "sizeHint \<le> destSize" and "data \<noteq> []"
    and "write_blocks sizeHint destSize data = (out, n, left)"
  shows "length out = n * sizeHint \<and> length out \<le> destSize \<and> 0 < n \<and>
    length left < length data \<and> left = drop (length data - length left) data \<and>
    (left = [] \<longrightarrow> readVariableData (out @ rest) = Some (True, data)) \<and>
    (left \<noteq> [] \<longrightarrow> readVariableData out = Some (False, take (length data - length left) data) \<and>
       destSize - length out < sizeHint)"
  using assms
proof (induction sizeHint destSize data arbitrary: out n left rule: write_blocks.induct)
  case (1 sizeHint destSize data)
  let ?b = "sizeHint - sizeof_VDataBlockHeader"
  have hint: "2 < sizeHint" "sizeHint \<le> 2 ^ 14 + 1"
    using "1.prems"(1) by (auto simp: hint_ok_def VARIABLE_ENTRY_MAX_SIZE_def sizeof_VDataBlockHeader_def)
  then have b: "0 < ?b" "?b < 2 ^ 14" "?b + 2 = sizeHint"
    by (simp_all add: sizeof_VDataBlockHeader_def)
  show ?case
  proof (cases "length data \<le> ?b")
    case True
    then have eq: "write_blocks sizeHint destSize data =
        (vh_bytes \<lparr>vh_continuation = False, vh_size = length data\<rparr> @ data @
         replicate (?b - length data) 0, 1, [])"
      by (subst write_blocks.simps) (auto simp: Let_def)
    have "length data < 2 ^ 14" using True b by simp
    from read_block [OF this refl, of False] show ?thesis
      using eq "1.prems"(2,3,4) True b by auto
  next
    case False
    let ?blk = "vh_bytes \<lparr>vh_continuation = True, vh_size = ?b\<rparr> @ take ?b data"
    have blk: "length ?blk = sizeHint" using False b by simp
    have tk: "length (take ?b data) = ?b" and ne: "drop ?b data \<noteq> []" using False by simp_all
    note read = read_block [OF b(2) tk, of True]
    show ?thesis
    proof (cases "sizeHint \<le> destSize - sizeHint")
      case True
      obtain out' n' left' where rec: "write_blocks sizeHint (destSize - sizeHint) (drop ?b data) = (out', n', left')"
        by (cases "write_blocks sizeHint (destSize - sizeHint) (drop ?b data)")
      have eq: "write_blocks sizeHint destSize data = (?blk @ out', Suc n', left')"
        using False True hint by (subst write_blocks.simps) (auto simp: Let_def rec)
      have IH: "length out' = n' * sizeHint \<and> length out' \<le> destSize - sizeHint \<and> 0 < n' \<and>
        length left' < length (drop ?b data) \<and>
        left' = drop (length (drop ?b data) - length left') (drop ?b data) \<and>
        (left' = [] \<longrightarrow> readVariableData (out' @ rest) = Some (True, drop ?b data)) \<and>
        (left' \<noteq> [] \<longrightarrow>
          readVariableData out' = Some (False, take (length (drop ?b data) - length left') (drop ?b data)) \<and>
          destSize - sizeHint - length out' < sizeHint)"
        by (rule "1.IH" [OF refl refl _ refl refl])
          (use False True hint ne rec "1.prems"(1) in \<open>auto simp: Let_def\<close>)
      have out': "2 < length out'" using IH hint by (cases n') auto
      have "take ?b data @ take (length data - length left' - ?b) (drop ?b data) =
          take (length data - length left') data"
      proof (rule take_split)
        have "length left' < length (drop ?b data)" using IH by blast
        then show "?b \<le> length data - length left'" by simp
      qed
      moreover have "length (drop ?b data) - length left' = length data - length left' - ?b"
        by simp
      moreover note tk
      ultimately have split: "take ?b data @ take (length (drop ?b data) - length left') (drop ?b data) =
          take (length data - length left') data"
        by (simp only:)
      then show ?thesis
        using IH eq "1.prems"(2,4) read blk out' False split
        by (auto simp: sizeof_VDataBlockHeader_def)
    next
      case no: False
      have eq: "write_blocks sizeHint destSize data = (?blk, 1, drop ?b data)"
        using False no hint by (subst write_blocks.simps) (auto simp: Let_def)
      show ?thesis
        using eq "1.prems"(2,4) read [of "[]"] blk False no b
        by auto
    qed
  qed
qed

section \<open>Properties\<close>

text \<open>Writing variable-sized data and reading it back. If the destination takes at
  least one block, \<open>writeVariableData\<close> saves at least one byte, writes whole blocks that
  fit into the destination and reports their number. If all data was saved, \<open>readVariableData\<close>
  returns it with \<open>_true\<close> whatever follows the blocks; otherwise less than one block of
  room was left, and reading the blocks returns \<open>_false\<close> and exactly the bytes saved.\<close>

theorem variable_data_roundtrip:
  assumes "hint_ok sizeHint" and "data \<noteq> []" and "sizeHint \<le> destSize"
  shows "\<exists>saved out n. writeVariableData destSize data sizeHint = (saved, out, Some n) \<and>
    0 < saved \<and> saved \<le> length data \<and> 0 < n \<and> length out = n * sizeHint \<and> length out \<le> destSize \<and>
    (if saved = length data
     then \<forall>rest. readVariableData (out @ rest) = Some (True, data)
     else readVariableData out = Some (False, take saved data) \<and> destSize - length out < sizeHint)"
proof -
  obtain out n left where w: "write_blocks sizeHint destSize data = (out, n, left)"
    by (cases "write_blocks sizeHint destSize data")
  note spec = write_blocks_spec [OF assms(1,3,2) w]
  have less: "length left < length data" using spec [of "[]"] by (elim conjE)
  have all: "left = [] \<Longrightarrow> readVariableData (out @ rest) = Some (True, data)" for rest
    using spec [of rest] by simp
  show ?thesis
  proof (intro exI conjI)
    show "writeVariableData destSize data sizeHint = (length data - length left, out, Some n)"
      using assms(3) w by (simp add: writeVariableData_def)
  qed (use less spec [of "[]"] all in \<open>auto simp del: One_nat_def\<close>)
qed

theorem variable_data_roundtrip_witness:
  "\<exists>saved out n. writeVariableData 8 [1, 2, 3, 4, 5] 4 = (saved, out, Some n) \<and>
    0 < saved \<and> saved \<le> length [1, 2, 3, 4, 5 :: u8] \<and> 0 < n \<and> length out = n * 4 \<and> length out \<le> 8 \<and>
    (if saved = length [1, 2, 3, 4, 5 :: u8]
     then \<forall>rest. readVariableData (out @ rest) = Some (True, [1, 2, 3, 4, 5])
     else readVariableData out = Some (False, take saved [1, 2, 3, 4, 5]) \<and> 8 - length out < 4)"
  by (rule variable_data_roundtrip)
    (simp_all add: hint_ok_def VARIABLE_ENTRY_MAX_SIZE_def sizeof_VDataBlockHeader_def)

lemma find_loop_zero:
  "findVariableEntry_loop buffer offset localIndex 0 \<noteq> Some (Some r)"
proof (induction buffer offset localIndex "0 :: nat" rule: findVariableEntry_loop.induct)
  case (1 buffer offset localIndex)
  show ?case
  proof (cases buffer)
    case Nil
    then show ?thesis by (subst findVariableEntry_loop.simps) simp
  next
    case (Cons lo tl)
    then show ?thesis
    proof (cases tl)
      case Nil
      with Cons show ?thesis by (subst findVariableEntry_loop.simps) simp
    next
      case (Cons hi rest)
      note IH = 1 [OF \<open>buffer = lo # tl\<close> Cons refl refl]
      show ?thesis
        unfolding \<open>buffer = lo # tl\<close> Cons
        by (subst findVariableEntry_loop.simps) (use IH in \<open>auto simp: Let_def\<close>)
    qed
  qed
qed

text \<open>\<open>findVariableEntry\<close> counts an entry before it compares, so the entry
  with index 0, which every buffer written by \<open>writeVariableData\<close> starts with, is never
  found.\<close>

theorem findVariableEntry_zero:
  "findVariableEntry buffer 0 \<noteq> Some (Some offset)"
  by (simp add: findVariableEntry_def find_loop_zero)

end
