(* ===== verification/Stor_Types.thy ===== *)
theory Stor_Types
  imports Variable_Entry Memory_Encoder
begin

text \<open>
  The shared data types of the storage layer (\<open>include/SimuStorTypes.h\<close>,
  \<open>include/simustor/Store.h\<close>), the checks of the \<open>Stream\<close> constructor
  (\<open>libsimustor/Stream.cpp\<close>), and the table of the built-in memory access types with
  its lookup (\<open>include/SimuTraceEntryTypes.h\<close>).
\<close>

section \<open>Invalid identifiers\<close>

definition INVALID_OBJECT_ID :: u32 where
  "INVALID_OBJECT_ID = - 1"

definition INVALID_LARGE_OBJECT_ID :: u64 where
  "INVALID_LARGE_OBJECT_ID = - 1"

abbreviation INVALID_STREAM_ID :: u32 where "INVALID_STREAM_ID \<equiv> INVALID_OBJECT_ID"
abbreviation INVALID_STORE_ID :: u32 where "INVALID_STORE_ID \<equiv> INVALID_OBJECT_ID"
abbreviation INVALID_BUFFER_ID :: u32 where "INVALID_BUFFER_ID \<equiv> INVALID_OBJECT_ID"
abbreviation INVALID_SEGMENT_ID :: u32 where "INVALID_SEGMENT_ID \<equiv> INVALID_OBJECT_ID"
abbreviation INVALID_STREAM_SEGMENT_ID :: u32 where "INVALID_STREAM_SEGMENT_ID \<equiv> INVALID_OBJECT_ID"
abbreviation INVALID_SESSION_ID :: u32 where "INVALID_SESSION_ID \<equiv> INVALID_OBJECT_ID"
abbreviation INVALID_ENTRY_INDEX :: u64 where "INVALID_ENTRY_INDEX \<equiv> INVALID_LARGE_OBJECT_ID"
abbreviation INVALID_CYCLE_COUNT :: u64 where "INVALID_CYCLE_COUNT \<equiv> INVALID_LARGE_OBJECT_ID"
abbreviation INVALID_TIME_STAMP :: u64 where "INVALID_TIME_STAMP \<equiv> INVALID_LARGE_OBJECT_ID"

definition SERVER_SESSION_ID :: u32 where "SERVER_SESSION_ID = INVALID_SESSION_ID - 1"

section \<open>Flags\<close>

definition StfNone :: u32 where "StfNone = 0x00"
definition StfTemporalOrder :: u32 where "StfTemporalOrder = 0x01"
definition StfBigEndian :: u32 where "StfBigEndian = 0x02"
definition StfArch32Bit :: u32 where "StfArch32Bit = 0x04"

definition SafNone :: u32 where "SafNone = 0x00"
definition SafSequentialScan :: u32 where "SafSequentialScan = 0x01"
definition SafRandomAccess :: u32 where "SafRandomAccess = 0x02"
definition SafSynchronous :: u32 where "SafSynchronous = 0x04"
definition SafReverseQuery :: u32 where "SafReverseQuery = 0x08"
definition SafReverseRead :: u32 where "SafReverseRead = 0x10"

section \<open>Links, ranges, control elements\<close>

record StreamSegmentLink =
  ln_stream :: u32
  ln_sequenceNumber :: u32

record Range =
  rg_start :: u64
  rg_end :: u64

text \<open>
  The union of the six named fields with \<open>Range ranges[3]\<close>: entry index, cycle count
  and wall clock time, the order of \<open>QIndex\<close>, \<open>QCycleCount\<close> and \<open>QRealTime\<close>.
\<close>

record StreamRangeInformation =
  ri_index :: Range
  ri_cycle :: Range
  ri_time :: Range

definition invalidRange :: Range where
  "invalidRange = \<lparr>rg_start = INVALID_LARGE_OBJECT_ID, rg_end = INVALID_LARGE_OBJECT_ID\<rparr>"

definition ranges_init :: StreamRangeInformation where
  "ranges_init = \<lparr>ri_index = invalidRange, ri_cycle = invalidRange, ri_time = invalidRange\<rparr>"

datatype IndexTree = QIndex | QCycleCount | QRealTime

fun ranges :: "StreamRangeInformation \<Rightarrow> IndexTree \<Rightarrow> Range" where
  "ranges r QIndex = ri_index r"
| "ranges r QCycleCount = ri_cycle r"
| "ranges r QRealTime = ri_time r"

fun ranges_update :: "IndexTree \<Rightarrow> Range \<Rightarrow> StreamRangeInformation \<Rightarrow> StreamRangeInformation" where
  "ranges_update QIndex x r = r\<lparr>ri_index := x\<rparr>"
| "ranges_update QCycleCount x r = r\<lparr>ri_cycle := x\<rparr>"
| "ranges_update QRealTime x r = r\<lparr>ri_time := x\<rparr>"

lemma ranges_update_same [simp]: "ranges (ranges_update t x r) t' = (if t' = t then x else ranges r t')"
  by (cases t; cases t') simp_all

record StreamStatistics =
  st_compressedSize :: u64
  st_entryCount :: u64
  st_rawEntryCount :: u64
  st_ranges :: StreamRangeInformation

definition stats_init :: StreamStatistics where
  "stats_init = \<lparr>st_compressedSize = 0, st_entryCount = 0, st_rawEntryCount = 0,
                 st_ranges = ranges_init\<rparr>"

record SegmentControlElement =
  ce_cookie :: u64
  ce_link :: StreamSegmentLink
  ce_entryCount :: u32
  ce_rawEntryCount :: u32
  ce_startIndex :: u64
  ce_endCycle :: u64
  ce_startCycle :: u64
  ce_endTime :: u64
  ce_startTime :: u64

definition sizeof_SegmentControlElement :: nat where
  "sizeof_SegmentControlElement = 64"

text \<open>\<open>memset(control, 0, sizeof(SegmentControlElement))\<close>.\<close>

definition control_zero :: SegmentControlElement where
  "control_zero =
     \<lparr>ce_cookie = 0, ce_link = \<lparr>ln_stream = 0, ln_sequenceNumber = 0\<rparr>, ce_entryCount = 0,
      ce_rawEntryCount = 0, ce_startIndex = 0, ce_endCycle = 0, ce_startCycle = 0,
      ce_endTime = 0, ce_startTime = 0\<rparr>"

section \<open>Storage locations\<close>

record StorageLocation =
  sl_link :: StreamSegmentLink
  sl_ranges :: StreamRangeInformation
  sl_compressedSize :: u64
  sl_rawEntryCount :: u32

definition storageLocation_link :: "StreamSegmentLink \<Rightarrow> StorageLocation" where
  "storageLocation_link link =
     \<lparr>sl_link = link, sl_ranges = ranges_init, sl_compressedSize = 0, sl_rawEntryCount = 0\<rparr>"

definition storageLocation_ctrl :: "SegmentControlElement \<Rightarrow> StorageLocation" where
  "storageLocation_ctrl ctrl =
     \<lparr>sl_link = ce_link ctrl,
      sl_ranges =
        \<lparr>ri_index =
           (if ce_startIndex ctrl \<noteq> INVALID_ENTRY_INDEX
            then \<lparr>rg_start = ce_startIndex ctrl,
                  rg_end = ce_startIndex ctrl + ucast (ce_rawEntryCount ctrl) - 1\<rparr>
            else invalidRange),
         ri_cycle = \<lparr>rg_start = ce_startCycle ctrl, rg_end = ce_endCycle ctrl\<rparr>,
         ri_time = \<lparr>rg_start = ce_startTime ctrl, rg_end = ce_endTime ctrl\<rparr>\<rparr>,
      sl_compressedSize = 0,
      sl_rawEntryCount = ce_rawEntryCount ctrl\<rparr>"

definition getEntryCount :: "StorageLocation \<Rightarrow> u32" where
  "getEntryCount l =
     (if rg_start (ri_index (sl_ranges l)) = INVALID_ENTRY_INDEX then 0
      else ucast (rg_end (ri_index (sl_ranges l)) - rg_start (ri_index (sl_ranges l))) + 1)"

section \<open>Stream types\<close>

type_synonym Guid = "u32 \<times> u16 \<times> u16 \<times> u8 list"

record StreamTypeDescriptor =
  ty_name :: string
  ty_id :: Guid
  ty_flags :: u32
  ty_entrySize :: u32

record StreamDescriptor =
  sd_name :: string
  sd_flags :: u32
  sd_type :: StreamTypeDescriptor

definition MAX_STREAM_NAME_LENGTH :: nat where
  "MAX_STREAM_NAME_LENGTH = 256"

definition sizeof_CycleCount :: u32 where
  "sizeof_CycleCount = 8"

text \<open>
  The checks of the \<open>Stream\<close> constructor in their order; \<open>segSize\<close> is what
  \<open>buffer.getSegmentSize()\<close> returns. A name is the text before the terminating zero byte.
\<close>

definition newStream :: "u32 \<Rightarrow> StreamDescriptor \<Rightarrow> nat \<Rightarrow> StreamDescriptor res" where
  "newStream sid desc segSize =
     (let ty = sd_type desc; es = getEntrySize (ty_entrySize ty) in
      throwOn (sid = INVALID_STREAM_ID) ArgumentException
     (throwOn (es = 0 \<or> segSize < unat es) GenericException
     (throwOn (isVariableEntrySize (ty_entrySize ty) \<and> of_nat VARIABLE_ENTRY_MAX_SIZE < es) GenericException
     (throwOn (isSet (ty_flags ty) StfTemporalOrder \<and> es < sizeof_CycleCount) GenericException
     (throwOn (isSet (ty_flags ty) StfTemporalOrder \<and> isVariableEntrySize (ty_entrySize ty)) GenericException
     (throwOn (MAX_STREAM_NAME_LENGTH \<le> length (sd_name desc) \<or>
               MAX_STREAM_NAME_LENGTH \<le> length (ty_name ty)) GenericException
     (Inr desc)))))))"

section \<open>Built-in memory access types\<close>

definition AsMax :: nat where "AsMax = 2"
definition MatMax :: nat where "MatMax = 2"
definition AtMax :: nat where "AtMax = 2"

definition mastypeTable :: "StreamTypeDescriptor list" where
  "mastypeTable = [
     \<lparr>ty_name = ''32bit memory read (physical address)'',
      ty_id = (0x3f759bfb, 0x2c25, 0x470c, [0x96, 0x46, 0x16, 0x98, 0xcd, 0xf9, 0xd8, 0x35]),
      ty_flags = StfTemporalOrder OR StfArch32Bit, ty_entrySize = of_nat (sizeof_entry MemoryAccess32)\<rparr>,
     \<lparr>ty_name = ''64bit memory read (physical address)'',
      ty_id = (0x03cfacb5, 0xd490, 0x4d5d, [0xb5, 0xbe, 0x6b, 0xb4, 0xa3, 0x23, 0x5d, 0xd1]),
      ty_flags = StfTemporalOrder, ty_entrySize = of_nat (sizeof_entry MemoryAccess64)\<rparr>,
     \<lparr>ty_name = ''32bit memory write (physical address)'',
      ty_id = (0x624c5632, 0x3acc, 0x4b39, [0x87, 0x1f, 0x33, 0xf7, 0x39, 0xe6, 0xf9, 0x3f]),
      ty_flags = StfTemporalOrder OR StfArch32Bit, ty_entrySize = of_nat (sizeof_entry MemoryAccess32)\<rparr>,
     \<lparr>ty_name = ''64bit memory write (physical address)'',
      ty_id = (0x4ce4d04d, 0xbddc, 0x4640, [0xb5, 0x0d, 0x00, 0xb3, 0x5f, 0xc0, 0x81, 0x33]),
      ty_flags = StfTemporalOrder, ty_entrySize = of_nat (sizeof_entry MemoryAccess64)\<rparr>,
     \<lparr>ty_name = ''32bit memory read (virtual address)'',
      ty_id = (0x7cc9a0c4, 0x41bc, 0x4a9e, [0x8f, 0x9b, 0x55, 0x3c, 0x0a, 0xae, 0x8b, 0xa8]),
      ty_flags = StfTemporalOrder OR StfArch32Bit, ty_entrySize = of_nat (sizeof_entry MemoryAccess32)\<rparr>,
     \<lparr>ty_name = ''64bit memory read (virtual address)'',
      ty_id = (0xc81b6ce6, 0x47a0, 0x482b, [0xb3, 0x8e, 0x28, 0x3a, 0x4c, 0xa3, 0xed, 0x8c]),
      ty_flags = StfTemporalOrder, ty_entrySize = of_nat (sizeof_entry MemoryAccess64)\<rparr>,
     \<lparr>ty_name = ''32bit memory write (virtual address)'',
      ty_id = (0x22d8a589, 0x16a8, 0x4069, [0xb7, 0xdf, 0xdf, 0xee, 0x23, 0xba, 0x55, 0xb6]),
      ty_flags = StfTemporalOrder OR StfArch32Bit, ty_entrySize = of_nat (sizeof_entry MemoryAccess32)\<rparr>,
     \<lparr>ty_name = ''64bit memory write (virtual address)'',
      ty_id = (0xde27cf5e, 0xe16b, 0x499c, [0xb1, 0x01, 0x14, 0x06, 0x2f, 0x57, 0x8a, 0xa7]),
      ty_flags = StfTemporalOrder, ty_entrySize = of_nat (sizeof_entry MemoryAccess64)\<rparr>,
     \<lparr>ty_name = ''32bit memory read (data, physical address)'',
      ty_id = (0x74a5e8d8, 0xf8b3, 0x4831, [0xab, 0x0e, 0xac, 0xb0, 0x04, 0x55, 0x6c, 0x0a]),
      ty_flags = StfTemporalOrder OR StfArch32Bit, ty_entrySize = of_nat (sizeof_entry DataMemoryAccess32)\<rparr>,
     \<lparr>ty_name = ''64bit memory read (data, physical address)'',
      ty_id = (0x2b58f45a, 0xc2f6, 0x495b, [0xa7, 0xd2, 0x9f, 0xbb, 0xeb, 0xcd, 0x47, 0x10]),
      ty_flags = StfTemporalOrder, ty_entrySize = of_nat (sizeof_entry DataMemoryAccess64)\<rparr>,
     \<lparr>ty_name = ''32bit memory write (data, physical address)'',
      ty_id = (0xf8f41ee8, 0xeeb1, 0x4c02, [0xb9, 0x97, 0xc9, 0x1b, 0x35, 0xd5, 0xd4, 0x26]),
      ty_flags = StfTemporalOrder OR StfArch32Bit, ty_entrySize = of_nat (sizeof_entry DataMemoryAccess32)\<rparr>,
     \<lparr>ty_name = ''64bit memory write (data, physical address)'',
      ty_id = (0x6e943cdd, 0xd2da, 0x4e83, [0x98, 0x4f, 0x58, 0x5c, 0x47, 0xeb, 0x0e, 0x36]),
      ty_flags = StfTemporalOrder, ty_entrySize = of_nat (sizeof_entry DataMemoryAccess64)\<rparr>,
     \<lparr>ty_name = ''32bit memory read (data, virtual address)'',
      ty_id = (0xbfccbb37, 0xa37a, 0x4007, [0xba, 0x04, 0x53, 0xb7, 0xf1, 0xb8, 0x57, 0x46]),
      ty_flags = StfTemporalOrder OR StfArch32Bit, ty_entrySize = of_nat (sizeof_entry DataMemoryAccess32)\<rparr>,
     \<lparr>ty_name = ''64bit memory read (data, virtual address)'',
      ty_id = (0x62629e18, 0x267d, 0x4af9, [0xa5, 0xee, 0xed, 0x48, 0x58, 0x93, 0x51, 0x3a]),
      ty_flags = StfTemporalOrder, ty_entrySize = of_nat (sizeof_entry DataMemoryAccess64)\<rparr>,
     \<lparr>ty_name = ''32bit memory write (data, virtual address)'',
      ty_id = (0x9abe7322, 0x339e, 0x420d, [0x82, 0x24, 0x23, 0x11, 0x3a, 0xa0, 0x5b, 0x8c]),
      ty_flags = StfTemporalOrder OR StfArch32Bit, ty_entrySize = of_nat (sizeof_entry DataMemoryAccess32)\<rparr>,
     \<lparr>ty_name = ''64bit memory write (data, virtual address)'',
      ty_id = (0x157f6fae, 0x0e88, 0x48ba, [0xb8, 0x29, 0x5c, 0x1c, 0x81, 0x8f, 0x56, 0xa9]),
      ty_flags = StfTemporalOrder, ty_entrySize = of_nat (sizeof_entry DataMemoryAccess64)\<rparr>]"

text \<open>
  \<open>streamFindMemoryType\<close>, with the enum arguments as the numbers they are
  (\<open>As32Bit\<close>, \<open>MatRead\<close> and \<open>AtPhysical\<close> are 0; \<open>As64Bit\<close>, \<open>MatWrite\<close>, \<open>AtVirtual\<close> are 1).
\<close>

definition streamFindMemoryType :: "nat \<Rightarrow> nat \<Rightarrow> nat \<Rightarrow> bool \<Rightarrow> StreamTypeDescriptor option" where
  "streamFindMemoryType asize accessType addressType hasData =
     (if AsMax \<le> asize \<or> MatMax \<le> accessType \<or> AtMax \<le> addressType then None
      else Some (mastypeTable !
             (asize OR (accessType * AsMax) OR (addressType * AsMax * MatMax) OR
              ((if hasData then 1 else 0) * AsMax * MatMax * AtMax))))"

section \<open>Properties\<close>

text \<open>The memory entry type a query for a built-in stream type asks for.\<close>

definition memTypeOf :: "nat \<Rightarrow> bool \<Rightarrow> mem_type" where
  "memTypeOf asize hasData =
     (if asize = 0 then if hasData then DataMemoryAccess32 else MemoryAccess32
      else if hasData then DataMemoryAccess64 else MemoryAccess64)"

lemma less_2_cases: "(n :: nat) < 2 \<Longrightarrow> n = 0 \<or> n = 1"
  by auto

lemma mastypeTable_distinct: "distinct (map ty_id mastypeTable)"
  by code_simp

lemma mastypeTable_length: "length mastypeTable = 16"
  by (simp add: mastypeTable_def)

definition tableIndex :: "nat \<Rightarrow> nat \<Rightarrow> nat \<Rightarrow> bool \<Rightarrow> nat" where
  "tableIndex s a t h = s + 2 * a + 4 * t + (if h then 8 else 0)"

lemma find_tableIndex:
  assumes "s < AsMax" "a < MatMax" "t < AtMax"
  shows "streamFindMemoryType s a t h = Some (mastypeTable ! tableIndex s a t h)"
  using assms less_2_cases [of s] less_2_cases [of a] less_2_cases [of t]
  by (cases h)
    (auto simp: streamFindMemoryType_def AsMax_def MatMax_def AtMax_def tableIndex_def numeral_2_eq_2 [symmetric]
      numeral_3_eq_3 [symmetric])

lemma tableIndex_less: "s < AsMax \<Longrightarrow> a < MatMax \<Longrightarrow> t < AtMax \<Longrightarrow> tableIndex s a t h < 16"
  by (simp add: tableIndex_def AsMax_def MatMax_def AtMax_def)

lemma tableIndex_digits:
  assumes "s < AsMax" "a < MatMax" "t < AtMax"
  shows "tableIndex s a t h mod 2 = s \<and> tableIndex s a t h div 2 mod 2 = a \<and>
    tableIndex s a t h div 4 mod 2 = t \<and> (8 \<le> tableIndex s a t h) = h"
  using assms less_2_cases [of s] less_2_cases [of a] less_2_cases [of t]
  by (cases h) (auto simp: tableIndex_def AsMax_def MatMax_def AtMax_def)

lemma tableIndex_inj:
  assumes "s < AsMax" "a < MatMax" "t < AtMax" "s' < AsMax" "a' < MatMax" "t' < AtMax"
    and "tableIndex s a t h = tableIndex s' a' t' h'"
  shows "s = s' \<and> a = a' \<and> t = t' \<and> h = h'"
  using tableIndex_digits [OF assms(1-3), of h] tableIndex_digits [OF assms(4-6), of h'] assms(7)
  by metis

definition row_ok :: "StreamTypeDescriptor \<Rightarrow> mem_type \<Rightarrow> bool" where
  "row_ok d ty \<longleftrightarrow>
     unat (ty_entrySize d) = sizeof_entry ty \<and> isSet (ty_flags d) StfTemporalOrder \<and>
     isSet (ty_flags d) StfArch32Bit = arch32Bit ty"

lemma row_ok_eq:
  "row_ok \<lparr>ty_name = n, ty_id = i, ty_flags = f, ty_entrySize = of_nat (sizeof_entry ty')\<rparr> ty \<longleftrightarrow>
   sizeof_entry ty' = sizeof_entry ty \<and> isSet f StfTemporalOrder \<and> isSet f StfArch32Bit = arch32Bit ty"
proof -
  have "sizeof_entry ty' < 2 ^ 32"
    by (cases ty') (simp_all add: sizeof_entry_def sizeof_dataType_def)
  then show ?thesis by (simp add: row_ok_def unat_of_nat_small)
qed

lemma type_flags:
  "isSet StfTemporalOrder StfTemporalOrder" "\<not> isSet StfTemporalOrder StfArch32Bit"
  "isSet (StfTemporalOrder OR StfArch32Bit) StfTemporalOrder"
  "isSet (StfTemporalOrder OR StfArch32Bit) StfArch32Bit"
  by (simp_all add: isSet_def StfTemporalOrder_def StfArch32Bit_def)

lemma rows_ok:
  assumes "s < AsMax" "a < MatMax" "t < AtMax"
  shows "row_ok (mastypeTable ! tableIndex s a t h) (memTypeOf s h)"
proof -
  have "(s = 0 \<or> s = 1) \<and> (a = 0 \<or> a = 1) \<and> (t = 0 \<or> t = 1)"
    using assms by (auto simp: AsMax_def MatMax_def AtMax_def)
  then show ?thesis
    by (elim conjE disjE; cases h; hypsubst)
      (simp only: tableIndex_def memTypeOf_def if_True if_False mult_0_right mult_1_right add_0 add_0_right
        simp_thms, simp add: mastypeTable_def row_ok_eq type_flags)+
qed

text \<open>\<open>streamFindMemoryType\<close> finds a type for every valid request, its entry size
  is that of the entry structure asked for, it is temporally ordered, carries the 32-bit flag
  exactly for 32-bit requests, and no two different requests get types with the same id.\<close>

theorem streamFindMemoryType_correct:
  assumes "s < AsMax" "a < MatMax" "t < AtMax"
  shows "\<exists>d. streamFindMemoryType s a t h = Some d \<and>
    unat (ty_entrySize d) = sizeof_entry (memTypeOf s h) \<and>
    isSet (ty_flags d) StfTemporalOrder \<and>
    isSet (ty_flags d) StfArch32Bit = (s = 0) \<and>
    (\<forall>s' a' t' h' d'. streamFindMemoryType s' a' t' h' = Some d' \<and> ty_id d' = ty_id d \<longrightarrow>
       s' = s \<and> a' = a \<and> t' = t \<and> h' = h)"
proof -
  let ?d = "mastypeTable ! tableIndex s a t h"
  have "row_ok ?d (memTypeOf s h)"
    by (rule rows_ok [OF assms])
  moreover have "arch32Bit (memTypeOf s h) = (s = 0)"
    by (simp add: memTypeOf_def)
  moreover have "s' = s \<and> a' = a \<and> t' = t \<and> h' = h"
    if "streamFindMemoryType s' a' t' h' = Some d'" "ty_id d' = ty_id ?d" for s' a' t' h' d'
  proof -
    have b: "s' < AsMax" "a' < MatMax" "t' < AtMax"
      using that(1) by (auto simp: streamFindMemoryType_def split: if_splits)
    then have "ty_id (mastypeTable ! tableIndex s' a' t' h') = ty_id ?d"
      using that find_tableIndex by auto
    then have "tableIndex s' a' t' h' = tableIndex s a t h"
      using mastypeTable_distinct tableIndex_less b assms mastypeTable_length
      by (metis length_map nth_eq_iff_index_eq nth_map)
    then show ?thesis using tableIndex_inj b assms by blast
  qed
  ultimately show ?thesis
    using find_tableIndex [OF assms] unfolding row_ok_def Let_def by blast
qed

theorem streamFindMemoryType_correct_witness:
  "\<exists>d. streamFindMemoryType 0 1 1 True = Some d \<and>
    unat (ty_entrySize d) = sizeof_entry (memTypeOf 0 True) \<and>
    isSet (ty_flags d) StfTemporalOrder \<and>
    isSet (ty_flags d) StfArch32Bit = ((0 :: nat) = 0) \<and>
    (\<forall>s' a' t' h' d'. streamFindMemoryType s' a' t' h' = Some d' \<and> ty_id d' = ty_id d \<longrightarrow>
       s' = 0 \<and> a' = 1 \<and> t' = 1 \<and> h' = True)"
  by (rule streamFindMemoryType_correct) (simp_all add: AsMax_def MatMax_def AtMax_def)

lemma ucast_pred_succ: "ucast (ucast (r :: u32) - 1 :: u64) + 1 = r"
proof -
  have "ucast r - 1 = (word_of_int (uint r - 1) :: u64)"
    by (simp only: of_int_diff of_int_1 ucast_eq)
  then have "ucast (ucast r - 1 :: u64) = (word_of_int (uint r - 1) :: u32)"
    by (simp only:) (rule ucast_down_wi, simp add: is_down)
  then show ?thesis by simp
qed

text \<open>The entry count of a storage location made from a control element is its
  number of raw entries, for every control element that is indexed at all: in a stream with
  variable-sized entries the number of entries, which may be smaller, plays no role.\<close>

theorem storageLocation_counts_raw_entries:
  assumes "ce_startIndex ctrl \<noteq> INVALID_ENTRY_INDEX"
  shows "getEntryCount (storageLocation_ctrl ctrl) = ce_rawEntryCount ctrl"
proof -
  have "(i + r - 1 :: u64) - i = r - 1" for i r by simp
  then show ?thesis
    using assms ucast_pred_succ [of "ce_rawEntryCount ctrl"]
    by (simp only: getEntryCount_def storageLocation_ctrl_def StorageLocation.simps
        StreamRangeInformation.simps Range.simps if_False simp_thms if_True)
qed

theorem storageLocation_counts_raw_entries_witness:
  "getEntryCount (storageLocation_ctrl (control_zero\<lparr>ce_entryCount := 1, ce_rawEntryCount := 3\<rparr>)) =
   ce_rawEntryCount (control_zero\<lparr>ce_entryCount := 1, ce_rawEntryCount := 3\<rparr>)"
  by (rule storageLocation_counts_raw_entries) (simp add: control_zero_def INVALID_LARGE_OBJECT_ID_def)

end
