(* ===== verification/Stream_Buffer.thy ===== *)
theory Stream_Buffer
  imports Stor_Types
begin

text \<open>
  The base class of the stream buffers (\<open>libsimustor/StreamBuffer.cpp\<close>): the layout of
  the lines in the mapped memory and the debug fill patterns with their check.

  A pointer into the mapping is its offset from the start of the mapping, a 64-bit
  \<open>size_t\<close>. The page size is a parameter, the operating system reports it.
\<close>

section \<open>Layout\<close>

record stream_buffer =
  bf_id :: u32
  bf_segmentSize :: u64
  bf_lineSize :: u64
  bf_numSegments :: u32

definition MAX_NUM_SEGMENTS_PER_BUFFER :: u32 where
  "MAX_NUM_SEGMENTS_PER_BUFFER = 1024"

definition computeLineSize :: "u64 \<Rightarrow> u64 \<Rightarrow> u64" where
  "computeLineSize segSize pageSize =
     (let m = NOT (pageSize - 1)
      in segSize + ((of_nat sizeof_SegmentControlElement + pageSize - 1) AND m))"

definition newStreamBuffer :: "u32 \<Rightarrow> u64 \<Rightarrow> u32 \<Rightarrow> u64 \<Rightarrow> stream_buffer res" where
  "newStreamBuffer bid segSize numSegments pageSize =
     throwOn (bid = INVALID_BUFFER_ID) ArgumentException
    (throwOn (segSize \<noteq> of_nat segmentSize \<or> numSegments = 0 \<or>
              MAX_NUM_SEGMENTS_PER_BUFFER < numSegments) NotSupportedException
    (Inr \<lparr>bf_id = bid, bf_segmentSize = segSize,
          bf_lineSize = computeLineSize segSize pageSize, bf_numSegments = numSegments\<rparr>))"

definition getBufferSize :: "stream_buffer \<Rightarrow> u64" where
  "getBufferSize b = ucast (bf_numSegments b) * bf_lineSize b"

definition getSegment :: "stream_buffer \<Rightarrow> u32 \<Rightarrow> u64 res" where
  "getSegment b segment =
     throwOn (bf_numSegments b \<le> segment) ArgumentOutOfBoundsException
       (Inr (ucast segment * bf_lineSize b))"

definition getControlElement :: "stream_buffer \<Rightarrow> u32 \<Rightarrow> u64 res" where
  "getControlElement b segment =
     throwOn (bf_numSegments b \<le> segment) ArgumentOutOfBoundsException
       (Inr (ucast segment * bf_lineSize b + bf_segmentSize b))"

text \<open>
  \<open>rawEntryCount\<close> is what the control element of the segment holds. The product of the two
  32-bit operands is computed in 32 bits and then widened.
\<close>

definition getSegmentEnd :: "stream_buffer \<Rightarrow> u32 \<Rightarrow> u32 \<Rightarrow> u32 \<Rightarrow> u64 res" where
  "getSegmentEnd b rawEntryCount segment entrySize =
     (case getControlElement b segment of
        Inl e \<Rightarrow> Inl e
      | Inr _ \<Rightarrow>
          (let offset = ucast ((if isVariableEntrySize entrySize then getSizeHint entrySize
                                else entrySize) * rawEntryCount)
           in map_sum id (\<lambda>start. start + offset) (getSegment b segment)))"

definition getFence :: "stream_buffer \<Rightarrow> u32 \<Rightarrow> u64 res" where
  "getFence b segment =
     map_sum id (\<lambda>c. c + of_nat sizeof_SegmentControlElement) (getControlElement b segment)"

definition getFenceSize :: "stream_buffer \<Rightarrow> u64" where
  "getFenceSize b = bf_lineSize b - bf_segmentSize b - of_nat sizeof_SegmentControlElement"

section \<open>Debug fill patterns\<close>

definition FENCE_MEMORY_FILL :: u8 where "FENCE_MEMORY_FILL = 0xFD"
definition CLEAR_MEMORY_FILL :: u8 where "CLEAR_MEMORY_FILL = 0xCD"
definition DEAD_MEMORY_FILL :: u8 where "DEAD_MEMORY_FILL = 0xDD"

fun testMemory :: "u8 list \<Rightarrow> u8" where
  "testMemory [] = 0"
| "testMemory (chr # rest) =
     (if list_all (\<lambda>c. c = chr) rest \<and>
         (chr = FENCE_MEMORY_FILL \<or> chr = DEAD_MEMORY_FILL \<or> chr = CLEAR_MEMORY_FILL)
      then chr else 0)"

text \<open>The three parts of a line: the segment data, the control element, the fence.\<close>

record line =
  ln_data :: "u8 list"
  ln_control :: SegmentControlElement
  ln_fence :: "u8 list"

definition dbgSanityFill :: "bool \<Rightarrow> line \<Rightarrow> line" where
  "dbgSanityFill dead l =
     l\<lparr>ln_data := replicate (length (ln_data l)) (if dead then DEAD_MEMORY_FILL else CLEAR_MEMORY_FILL),
       ln_fence := replicate (length (ln_fence l)) FENCE_MEMORY_FILL\<rparr>"

text \<open>
  The error level of \<open>dbgSanityCheck\<close>; \<open>None\<close> is a failed assertion or a read behind the
  segment.
\<close>

definition sanityData :: "line \<Rightarrow> u32 \<Rightarrow> nat option" where
  "sanityData l es =
     (let control = ln_control l; segSize = length (ln_data l);
          validBufferLength = unat (es * ce_rawEntryCount control) in
      if segSize < validBufferLength then None
      else
       (let checkLast = 0 < validBufferLength \<and> ce_startIndex control \<noteq> INVALID_ENTRY_INDEX;
            last = testMemory (take (unat es) (drop (validBufferLength - unat es) (ln_data l)));
            behind = testMemory (drop validBufferLength (ln_data l))
        in if checkLast \<and> (validBufferLength < unat es \<or> last = FENCE_MEMORY_FILL \<or> last = DEAD_MEMORY_FILL)
           then None
           else if validBufferLength < segSize \<and> (behind = FENCE_MEMORY_FILL \<or> behind = DEAD_MEMORY_FILL)
           then None
           else Some (if (checkLast \<and> last = CLEAR_MEMORY_FILL) \<or>
                         (validBufferLength < segSize \<and> behind \<noteq> CLEAR_MEMORY_FILL) then 1 else 0)))"

definition sanityDead :: "line \<Rightarrow> nat option" where
  "sanityDead l =
     (let chr = testMemory (ln_data l) in
      if ln_data l = [] \<or> chr = FENCE_MEMORY_FILL \<or> chr = CLEAR_MEMORY_FILL then None
      else Some (if chr \<noteq> DEAD_MEMORY_FILL then 1 else 0))"

definition dbgSanityCheck :: "line \<Rightarrow> u32 \<Rightarrow> nat option" where
  "dbgSanityCheck l entrySize =
     (let es = (if isVariableEntrySize entrySize then getSizeHint entrySize else entrySize) in
      case (if 0 < es then sanityData l es else sanityDead l) of
        None \<Rightarrow> None
      | Some errorLevel \<Rightarrow>
          if ln_fence l = [] then None
          else Some (if testMemory (ln_fence l) \<noteq> FENCE_MEMORY_FILL then 2 else errorLevel))"

section \<open>Properties of the layout\<close>

lemma lineSize_page:
  assumes "6 \<le> k" and "k \<le> 20"
  shows "unat (computeLineSize (of_nat segmentSize) (2 ^ k)) = segmentSize + 2 ^ k"
proof -
  have "k \<in> set [6, 7, 8, 9, 10, 11, 12, 13, 14, 15, 16, 17, 18, 19, 20]"
    using assms by (simp only: list.set insert_iff empty_iff) presburger
  then show ?thesis
    by (auto simp: computeLineSize_def segmentSize_def sizeof_SegmentControlElement_def Let_def)
qed

lemma newStreamBuffer_InrD:
  assumes "newStreamBuffer bid segSize numSegments pageSize = Inr b"
  shows "bf_numSegments b = numSegments \<and> 0 < numSegments \<and> unat numSegments \<le> 1024 \<and>
    bf_segmentSize b = of_nat segmentSize \<and>
    bf_lineSize b = computeLineSize (of_nat segmentSize) pageSize"
  using assms
  by (auto simp: newStreamBuffer_def MAX_NUM_SEGMENTS_PER_BUFFER_def word_le_nat_alt not_less
      word_neq_0_conv)

lemma unat_ucast_u64: "unat (ucast (s :: u32) :: u64) = unat s"
proof -
  have "unat s < 2 ^ 64" by (rule less_trans [OF unsigned_less]) simp
  then show ?thesis by (simp add: unsigned_ucast_eq take_bit_nat_eq_self)
qed

lemma unat_line_offset:
  assumes "unat (s :: u32) \<le> 1024" and "unat line \<le> 2 ^ 30"
  shows "unat (ucast s * line :: u64) = unat s * unat line"
proof -
  have "unat s * unat line \<le> 1024 * 2 ^ 30"
    using assms by (rule mult_le_mono)
  then show ?thesis
    by (simp add: unat_word_ariths take_bit_nat_eq_self unat_ucast_u64)
qed

text \<open>The numbers of one valid segment of a buffer with pages of \<open>2 ^ k\<close> bytes.\<close>

lemma segment_numbers:
  assumes "newStreamBuffer bid segSize numSegments (2 ^ k) = Inr b" and "6 \<le> k" and "k \<le> 20"
    and s: "s < numSegments"
  shows "unat (ucast s * bf_lineSize b :: u64) = unat s * unat (bf_lineSize b) \<and>
    unat (bf_lineSize b) = segmentSize + 2 ^ k \<and>
    unat (getBufferSize b) = unat numSegments * unat (bf_lineSize b) \<and>
    unat (ucast s * bf_lineSize b + bf_segmentSize b) = unat s * unat (bf_lineSize b) + segmentSize \<and>
    unat (ucast s * bf_lineSize b + bf_segmentSize b + of_nat sizeof_SegmentControlElement) =
      unat s * unat (bf_lineSize b) + segmentSize + sizeof_SegmentControlElement \<and>
    unat (getFenceSize b) = 2 ^ k - sizeof_SegmentControlElement \<and>
    unat s * unat (bf_lineSize b) + unat (bf_lineSize b) \<le> unat (getBufferSize b)"
proof -
  note b = newStreamBuffer_InrD [OF assms(1)]
  let ?l = "unat (bf_lineSize b)"
  define o1 where "o1 = (ucast s * bf_lineSize b :: u64)"
  have l: "?l = segmentSize + 2 ^ k" using b lineSize_page [OF assms(2,3)] by simp
  have k: "(2 :: nat) ^ k \<le> 2 ^ 20" "(2 :: nat) ^ 6 \<le> 2 ^ k"
    by (rule power_increasing; use assms in simp)+
  then have l30: "?l \<le> 2 ^ 30" unfolding l by (simp add: segmentSize_def)
  have off: "unat (ucast r * bf_lineSize b :: u64) = unat r * ?l" if "r \<le> numSegments" for r :: u32
    using that b by (intro unat_line_offset l30) (simp add: word_le_nat_alt)
  have size: "unat (getBufferSize b) = unat numSegments * ?l"
    using off [of numSegments] b by (simp add: getBufferSize_def)
  have seg: "unat (bf_segmentSize b) = segmentSize" using b by (simp add: segmentSize_def)
  have o1: "unat o1 = unat s * ?l" using off [of s] s unfolding o1_def by simp
  have "Suc (unat s) * ?l \<le> unat numSegments * ?l"
    using s by (intro mult_right_mono) (simp_all add: word_less_nat_alt)
  then have fits: "unat o1 + ?l \<le> unat (getBufferSize b)" using o1 size by simp
  have small: "unat (getBufferSize b) \<le> 1024 * 2 ^ 30"
    unfolding size using b l30 by (intro mult_le_mono) simp_all
  have ctrl: "unat (o1 + bf_segmentSize b) = unat o1 + segmentSize"
    using fits small l seg by (subst unat_plus_simple [THEN iffD1]) (simp_all add: no_olen_add_nat)
  have fence: "unat (o1 + bf_segmentSize b + of_nat sizeof_SegmentControlElement) =
      unat o1 + segmentSize + sizeof_SegmentControlElement"
    using fits small l ctrl k
    by (subst unat_plus_simple [THEN iffD1]) (simp_all add: no_olen_add_nat sizeof_SegmentControlElement_def)
  have "bf_segmentSize b \<le> bf_lineSize b" using seg l by (simp add: word_le_nat_alt)
  then have d1: "unat (bf_lineSize b - bf_segmentSize b) = 2 ^ k"
    using seg l by (simp add: unat_sub)
  have "(of_nat sizeof_SegmentControlElement :: u64) \<le> bf_lineSize b - bf_segmentSize b"
    using d1 k by (simp add: word_le_nat_alt sizeof_SegmentControlElement_def)
  then have "unat (getFenceSize b) = 2 ^ k - sizeof_SegmentControlElement"
    using d1 by (simp add: getFenceSize_def unat_sub sizeof_SegmentControlElement_def)
  with o1 l size ctrl fence fits show ?thesis unfolding o1_def by simp
qed

text \<open>The lines of a stream buffer do not overlap. For every page size from 64
  bytes to 1 MiB, every valid segment has a page-aligned line inside of the mapping, its
  control element follows the data and ends inside of the line, the fence fills the line, and
  the line of a later segment starts behind it. No offset wraps around. A segment number
  out of range is an \<open>ArgumentOutOfBoundsException\<close>.\<close>

theorem segment_lines_disjoint:
  assumes "newStreamBuffer bid segSize numSegments (2 ^ k) = Inr b" and "6 \<le> k" and "k \<le> 20"
  shows "if s < numSegments
    then \<exists>seg ctrl fence. getSegment b s = Inr seg \<and> getControlElement b s = Inr ctrl \<and>
      getFence b s = Inr fence \<and>
      2 ^ k dvd unat seg \<and> unat ctrl = unat seg + segmentSize \<and>
      unat fence = unat ctrl + sizeof_SegmentControlElement \<and>
      unat fence + unat (getFenceSize b) = unat seg + unat (bf_lineSize b) \<and>
      unat seg + unat (bf_lineSize b) \<le> unat (getBufferSize b) \<and>
      (\<forall>s' seg'. s < s' \<and> getSegment b s' = Inr seg' \<longrightarrow> unat seg + unat (bf_lineSize b) \<le> unat seg')
    else getSegment b s = Inl ArgumentOutOfBoundsException \<and>
      getControlElement b s = Inl ArgumentOutOfBoundsException"
proof -
  note b = newStreamBuffer_InrD [OF assms(1)]
  let ?l = "unat (bf_lineSize b)"
  show ?thesis
  proof (cases "s < numSegments")
    case True
    note n = segment_numbers [OF assms True]
    have "segmentSize = 2 ^ k * 2 ^ (26 - k)"
      using assms(3) by (simp add: segmentSize_def flip: power_add)
    then have "(2 :: nat) ^ k dvd segmentSize" by (metis dvd_triv_left)
    then have dvd: "2 ^ k dvd unat s * ?l" using n by simp
    have later: "unat s * ?l + ?l \<le> unat seg'" if "s < s'" "getSegment b s' = Inr seg'" for s' seg'
    proof -
      have "s' < numSegments" "seg' = ucast s' * bf_lineSize b"
        using that(2) b by (auto simp: getSegment_def)
      then have "unat seg' = unat s' * ?l" using segment_numbers [OF assms] by blast
      moreover have "Suc (unat s) * ?l \<le> unat s' * ?l"
        using that(1) by (intro mult_right_mono) (simp_all add: word_less_nat_alt)
      ultimately show ?thesis by simp
    qed
    have "getSegment b s = Inr (ucast s * bf_lineSize b)"
      "getControlElement b s = Inr (ucast s * bf_lineSize b + bf_segmentSize b)"
      "getFence b s = Inr (ucast s * bf_lineSize b + bf_segmentSize b + of_nat sizeof_SegmentControlElement)"
      using True b by (auto simp: getSegment_def getControlElement_def getFence_def not_le [symmetric])
    moreover have "sizeof_SegmentControlElement \<le> 2 ^ k"
      using power_increasing [OF assms(2), of "2 :: nat"] by (simp add: sizeof_SegmentControlElement_def)
    ultimately show ?thesis using True n dvd later by auto
  next
    case False
    then show ?thesis using b by (simp add: getSegment_def getControlElement_def)
  qed
qed

text \<open>A buffer of four segments on a machine with 4 KiB pages.\<close>

definition buffer4 :: stream_buffer where
  "buffer4 = \<lparr>bf_id = 0, bf_segmentSize = of_nat segmentSize,
              bf_lineSize = computeLineSize (of_nat segmentSize) (2 ^ 12), bf_numSegments = 4\<rparr>"

theorem segment_lines_disjoint_witness:
  "if (1 :: u32) < 4
    then \<exists>seg ctrl fence. getSegment buffer4 1 = Inr seg \<and> getControlElement buffer4 1 = Inr ctrl \<and>
      getFence buffer4 1 = Inr fence \<and>
      2 ^ 12 dvd unat seg \<and> unat ctrl = unat seg + segmentSize \<and>
      unat fence = unat ctrl + sizeof_SegmentControlElement \<and>
      unat fence + unat (getFenceSize buffer4) = unat seg + unat (bf_lineSize buffer4) \<and>
      unat seg + unat (bf_lineSize buffer4) \<le> unat (getBufferSize buffer4) \<and>
      (\<forall>s' seg'. 1 < s' \<and> getSegment buffer4 s' = Inr seg' \<longrightarrow>
         unat seg + unat (bf_lineSize buffer4) \<le> unat seg')
    else getSegment buffer4 1 = Inl ArgumentOutOfBoundsException \<and>
      getControlElement buffer4 1 = Inl ArgumentOutOfBoundsException"
  by (rule segment_lines_disjoint [where bid = 0 and segSize = "of_nat segmentSize"])
    (simp_all add: newStreamBuffer_def buffer4_def INVALID_OBJECT_ID_def MAX_NUM_SEGMENTS_PER_BUFFER_def)

section \<open>Properties of the debug check\<close>

lemma fill_chars:
  "FENCE_MEMORY_FILL \<noteq> 0" "CLEAR_MEMORY_FILL \<noteq> 0" "DEAD_MEMORY_FILL \<noteq> 0"
  "FENCE_MEMORY_FILL \<noteq> CLEAR_MEMORY_FILL" "FENCE_MEMORY_FILL \<noteq> DEAD_MEMORY_FILL"
  "CLEAR_MEMORY_FILL \<noteq> DEAD_MEMORY_FILL"
  by (simp_all add: FENCE_MEMORY_FILL_def CLEAR_MEMORY_FILL_def DEAD_MEMORY_FILL_def)

lemma testMemory_special:
  assumes "c \<in> {FENCE_MEMORY_FILL, CLEAR_MEMORY_FILL, DEAD_MEMORY_FILL}"
  shows "testMemory xs = c \<longleftrightarrow> xs \<noteq> [] \<and> xs = replicate (length xs) c"
proof (cases xs)
  case Nil
  then show ?thesis using assms fill_chars by auto
next
  case (Cons x rest)
  have "list_all (\<lambda>d. d = x) rest \<longleftrightarrow> rest = replicate (length rest) x"
    by (auto simp: list_all_iff replicate_length_same [symmetric] dest: sym)
      (metis in_set_replicate)
  then show ?thesis using assms fill_chars Cons by auto
qed

lemma sanityDead_sound:
  "sanityDead l = Some 0 \<Longrightarrow> ln_data l = replicate (length (ln_data l)) DEAD_MEMORY_FILL"
  using testMemory_special [of DEAD_MEMORY_FILL "ln_data l"]
  by (auto simp: sanityDead_def Let_def split: if_splits)

lemma sanityData_sound:
  assumes sd: "sanityData l es = Some 0" and "0 < es"
    and v: "v = unat (es * ce_rawEntryCount (ln_control l))"
  shows "v \<le> length (ln_data l) \<and>
    drop v (ln_data l) = replicate (length (ln_data l) - v) CLEAR_MEMORY_FILL \<and>
    (0 < v \<and> ce_startIndex (ln_control l) \<noteq> INVALID_ENTRY_INDEX \<longrightarrow>
      unat es \<le> v \<and>
      take (unat es) (drop (v - unat es) (ln_data l)) \<noteq> replicate (unat es) CLEAR_MEMORY_FILL)"
proof (intro conjI impI)
  note sd' = sd [unfolded sanityData_def Let_def, folded v]
  show le: "v \<le> length (ln_data l)" using sd' by (auto split: if_splits)
  have "v < length (ln_data l) \<longrightarrow> testMemory (drop v (ln_data l)) = CLEAR_MEMORY_FILL"
    using sd' by (auto split: if_splits)
  then show "drop v (ln_data l) = replicate (length (ln_data l) - v) CLEAR_MEMORY_FILL"
    using testMemory_special [of CLEAR_MEMORY_FILL "drop v (ln_data l)"] le
    by (cases "v < length (ln_data l)") auto
  assume idx: "0 < v \<and> ce_startIndex (ln_control l) \<noteq> INVALID_ENTRY_INDEX"
  then show "unat es \<le> v" using sd' by (auto split: if_splits)
  have "testMemory (take (unat es) (drop (v - unat es) (ln_data l))) \<noteq> CLEAR_MEMORY_FILL"
    using sd' idx by (auto split: if_splits)
  moreover have "0 < unat es" using \<open>0 < es\<close> by (simp add: word_less_nat_alt)
  ultimately show "take (unat es) (drop (v - unat es) (ln_data l)) \<noteq> replicate (unat es) CLEAR_MEMORY_FILL"
    using testMemory_special [of CLEAR_MEMORY_FILL "replicate (unat es) CLEAR_MEMORY_FILL"]
    by auto
qed

lemma dbgSanityCheck_parts:
  assumes "dbgSanityCheck l entrySize = Some 0"
  shows "ln_fence l \<noteq> [] \<and> ln_fence l = replicate (length (ln_fence l)) FENCE_MEMORY_FILL \<and>
    (let es = (if isVariableEntrySize entrySize then getSizeHint entrySize else entrySize)
     in (if 0 < es then sanityData l es else sanityDead l) = Some 0)"
  using assms testMemory_special [of FENCE_MEMORY_FILL "ln_fence l"]
  by (auto simp: dbgSanityCheck_def Let_def split: option.splits if_splits)

text \<open>What an error level of 0 of the debug check certifies. The fence behind the
  control element is intact; a segment checked as free is filled with the dead pattern; in a
  used segment nothing was written behind the entries that the control element counts, and in
  an indexed one the last entry does not consist of the clear pattern only. Conversely, a
  segment passes the check for free segments after the dead fill.\<close>

theorem dbgSanityCheck_sound:
  "(dbgSanityCheck l entrySize = Some 0 \<longrightarrow>
    (let es = (if isVariableEntrySize entrySize then getSizeHint entrySize else entrySize);
         valid = unat (es * ce_rawEntryCount (ln_control l)) in
     ln_fence l \<noteq> [] \<and> ln_fence l = replicate (length (ln_fence l)) FENCE_MEMORY_FILL \<and>
     (if es = 0 then ln_data l = replicate (length (ln_data l)) DEAD_MEMORY_FILL
      else valid \<le> length (ln_data l) \<and>
        drop valid (ln_data l) = replicate (length (ln_data l) - valid) CLEAR_MEMORY_FILL \<and>
        (0 < valid \<and> ce_startIndex (ln_control l) \<noteq> INVALID_ENTRY_INDEX \<longrightarrow>
          unat es \<le> valid \<and>
          take (unat es) (drop (valid - unat es) (ln_data l)) \<noteq> replicate (unat es) CLEAR_MEMORY_FILL)))) \<and>
   (ln_data l \<noteq> [] \<and> ln_fence l \<noteq> [] \<longrightarrow> dbgSanityCheck (dbgSanityFill True l) 0 = Some 0)"
proof (intro conjI impI)
  let ?es = "if isVariableEntrySize entrySize then getSizeHint entrySize else entrySize"
  let ?v = "unat (?es * ce_rawEntryCount (ln_control l))"
  assume ok: "dbgSanityCheck l entrySize = Some 0"
  show "let es = ?es; valid = unat (es * ce_rawEntryCount (ln_control l)) in
     ln_fence l \<noteq> [] \<and> ln_fence l = replicate (length (ln_fence l)) FENCE_MEMORY_FILL \<and>
     (if es = 0 then ln_data l = replicate (length (ln_data l)) DEAD_MEMORY_FILL
      else valid \<le> length (ln_data l) \<and>
        drop valid (ln_data l) = replicate (length (ln_data l) - valid) CLEAR_MEMORY_FILL \<and>
        (0 < valid \<and> ce_startIndex (ln_control l) \<noteq> INVALID_ENTRY_INDEX \<longrightarrow>
          unat es \<le> valid \<and>
          take (unat es) (drop (valid - unat es) (ln_data l)) \<noteq> replicate (unat es) CLEAR_MEMORY_FILL))"
  proof (cases "?es = 0")
    case True
    then show ?thesis using dbgSanityCheck_parts [OF ok] sanityDead_sound [of l] by (simp add: Let_def)
  next
    case False
    then have pos: "0 < ?es" by (simp only: word_neq_0_conv)
    have "sanityData l ?es = Some 0"
      using dbgSanityCheck_parts [OF ok] pos by (simp only: Let_def if_True)
    note sanityData_sound [OF this pos refl]
    then show ?thesis
      using dbgSanityCheck_parts [OF ok] False by (simp only: Let_def if_False) blast
  qed
next
  assume ne: "ln_data l \<noteq> [] \<and> ln_fence l \<noteq> []"
  have "testMemory (replicate (length (ln_data l)) DEAD_MEMORY_FILL) = DEAD_MEMORY_FILL"
    "testMemory (replicate (length (ln_fence l)) FENCE_MEMORY_FILL) = FENCE_MEMORY_FILL"
    using ne by (simp_all add: testMemory_special)
  then show "dbgSanityCheck (dbgSanityFill True l) 0 = Some 0"
    using ne fill_chars
    by (simp add: dbgSanityCheck_def sanityDead_def dbgSanityFill_def isVariableEntrySize_def Let_def)
qed

text \<open>A clean segment of eight bytes with one entry of four bytes, and a fence.\<close>

definition line8 :: line where
  "line8 = \<lparr>ln_data = [1, 2, 3, 4, 0xCD, 0xCD, 0xCD, 0xCD],
            ln_control = control_zero\<lparr>ce_rawEntryCount := 1\<rparr>, ln_fence = [0xFD, 0xFD]\<rparr>"

theorem dbgSanityCheck_sound_witness:
  "dbgSanityCheck line8 4 = Some 0 \<and> ln_fence line8 = replicate 2 FENCE_MEMORY_FILL \<and>
   drop 4 (ln_data line8) = replicate 4 CLEAR_MEMORY_FILL \<and>
   dbgSanityCheck (dbgSanityFill True line8) 0 = Some 0"
proof -
  have chk: "dbgSanityCheck line8 4 = Some 0"
    by (simp add: dbgSanityCheck_def sanityData_def line8_def control_zero_def Let_def
        isVariableEntrySize_def VARIABLE_ENTRY_SIZE_FLAG_def INVALID_LARGE_OBJECT_ID_def
        FENCE_MEMORY_FILL_def CLEAR_MEMORY_FILL_def DEAD_MEMORY_FILL_def)
  have l: "length (ln_fence line8) = 2" "length (ln_data line8) = 8" "ln_data line8 \<noteq> []"
    "ln_fence line8 \<noteq> []" "ce_rawEntryCount (ln_control line8) = 1"
    by (simp_all add: line8_def control_zero_def)
  have "\<not> isVariableEntrySize 4"
    by (simp add: isVariableEntrySize_def VARIABLE_ENTRY_SIZE_FLAG_def)
  with chk l dbgSanityCheck_sound [of line8 4] show ?thesis by (simp add: Let_def)
qed

end
