(* ===== verification/Server_Buffer.thy ===== *)
theory Server_Buffer
  imports Stream_Buffer
begin

text \<open>
  The server side of the stream buffers (\<open>storageserver/ServerStreamBuffer.cpp\<close>): the
  segments with their free list (a stack) and their standby list (a circular doubly linked
  LRU list with an index), the control cookie, and the operations to request, open, submit,
  free, purge and flush segments. The model is that of a release build.

  A \<open>Segment*\<close> is the index of the segment in \<open>_segments\<close>, a null pointer is \<open>None\<close>; the
  heap of segments is the function \<open>sv_seg\<close>. The control elements and the data in the shared
  mapping are \<open>sv_ctrl\<close> and \<open>sv_data\<close>: the client may write them at any time. The calls to
  the encoders are recorded in \<open>sv_closed\<close> and \<open>sv_dropped\<close>; what an encoder answers
  and what the clock and the configuration return are arguments.
\<close>

section \<open>Segments\<close>

definition SgfFree :: u32 where "SgfFree = 0"
definition SgfInUse :: u32 where "SgfInUse = 1"
definition SgfReadOnly :: u32 where "SgfReadOnly = 2"
definition SgfScratch :: u32 where "SgfScratch = 4"
definition SgfCacheable :: u32 where "SgfCacheable = 8"
definition SgfLowPriority :: u32 where "SgfLowPriority = 16"
definition SgfPrefetch :: u32 where "SgfPrefetch = 32"

text \<open>What the buffer reads of the \<open>ServerStream\<close> a segment belongs to.\<close>

record stream_ref =
  sr_store :: u32
  sr_id :: u32
  sr_typeFlags :: u32
  sr_entrySize :: u32

record segment =
  sg_next :: "nat option"
  sg_prev :: "nat option"
  sg_flags :: u32
  sg_isSubmitted :: bool
  sg_stream :: "stream_ref option"
  sg_sequenceNumber :: u32
  sg_control :: SegmentControlElement

record StoreStreamSegmentLink =
  sk_store :: u32
  sk_stream :: u32
  sk_sequenceNumber :: u32

text \<open>
  \<open>LinkHash\<close>, with \<open>std::hash<uint64_t>\<close> as the identity it is in libstdc++. The loop
  that folds the store id runs at most twice on a 32-bit id.
\<close>

fun foldStore :: "nat \<Rightarrow> u32 \<Rightarrow> u64 \<Rightarrow> u64" where
  "foldStore 0 store triple = triple"
| "foldStore (Suc fuel) store triple =
     (if 0 < store then foldStore fuel (drop_bit 16 store) (triple XOR ucast (store AND 0xFFFF))
      else triple)"

definition linkHash :: "StoreStreamSegmentLink \<Rightarrow> u64" where
  "linkHash l =
     foldStore 2 (sk_store l)
       (push_bit 32 (ucast (sk_sequenceNumber l)) OR push_bit 16 (ucast (sk_stream l) AND 0xFFFF))"

text \<open>
  The keys the unordered map tells apart. There is no \<open>operator==\<close> for a
  \<open>StoreStreamSegmentLink\<close>, so the one of the base class is used, which compares the stream
  and the sequence number but not the store; the hash value takes in the store, and the map
  of libstdc++, which keeps the hash of a key, compares it first.
\<close>

type_synonym link_key = "u64 \<times> u32 \<times> u32"

definition linkKey :: "StoreStreamSegmentLink \<Rightarrow> link_key" where
  "linkKey l = (linkHash l, sk_stream l, sk_sequenceNumber l)"

record server_buffer =
  sv_numSegments :: nat
  sv_seg :: "nat \<Rightarrow> segment"
  sv_ctrl :: "nat \<Rightarrow> SegmentControlElement"
  sv_data :: "nat \<Rightarrow> u8 list"
  sv_freeHead :: "nat option"
  sv_standbyHead :: "nat option"
  sv_standbyIndex :: "link_key \<Rightarrow> nat option"
  sv_enableCache :: bool
  sv_cookie :: u64
  sv_closed :: "(stream_ref \<times> u32) list"
  sv_dropped :: "(stream_ref \<times> nat) list"

definition upd :: "nat \<Rightarrow> (segment \<Rightarrow> segment) \<Rightarrow> server_buffer \<Rightarrow> server_buffer" where
  "upd i f b = b\<lparr>sv_seg := (sv_seg b)(i := f (sv_seg b i))\<rparr>"

text \<open>\<open>_initializeSegments\<close> and the constructor, on a mapping with any content.\<close>

definition initializeSegments ::
  "nat \<Rightarrow> u64 \<Rightarrow> bool \<Rightarrow> (nat \<Rightarrow> SegmentControlElement) \<Rightarrow> (nat \<Rightarrow> u8 list) \<Rightarrow> server_buffer" where
  "initializeSegments segCount cookie enableCache ctrl mem =
     \<lparr>sv_numSegments = segCount,
      sv_seg = (\<lambda>i. \<lparr>sg_next = (if i = segCount - 1 then None else Some (i + 1)), sg_prev = None,
                     sg_flags = SgfFree, sg_isSubmitted = False, sg_stream = None,
                     sg_sequenceNumber = INVALID_STREAM_SEGMENT_ID, sg_control = control_zero\<rparr>),
      sv_ctrl = ctrl, sv_data = mem, sv_freeHead = Some 0, sv_standbyHead = None,
      sv_standbyIndex = (\<lambda>_. None), sv_enableCache = enableCache, sv_cookie = cookie,
      sv_closed = [], sv_dropped = []\<rparr>"

section \<open>The control cookie\<close>

text \<open>
  \<open>MurmurHash3_x86_32\<close> on a buffer that is a whole number of 32-bit blocks: the tail of
  the algorithm is empty, and the length in bytes is four times the number of blocks.
\<close>

definition rotl32 :: "u32 \<Rightarrow> nat \<Rightarrow> u32" where
  "rotl32 x r = push_bit r x OR drop_bit (32 - r) x"

definition fmix32 :: "u32 \<Rightarrow> u32" where
  "fmix32 h0 =
     (let h1 = h0 XOR drop_bit 16 h0;
          h2 = h1 * 0x85ebca6b;
          h3 = h2 XOR drop_bit 13 h2;
          h4 = h3 * 0xc2b2ae35
      in h4 XOR drop_bit 16 h4)"

fun murmurBody :: "u32 list \<Rightarrow> u32 \<Rightarrow> u32" where
  "murmurBody [] h1 = h1"
| "murmurBody (k # ks) h1 =
     (let k1 = rotl32 (k * 0xcc9e2d51) 15 * 0x1b873593
      in murmurBody ks (rotl32 (h1 XOR k1) 13 * 5 + 0xe6546b64))"

definition murmur3_32 :: "u32 list \<Rightarrow> u32 \<Rightarrow> u32" where
  "murmur3_32 blocks seed = fmix32 (murmurBody blocks seed XOR of_nat (4 * length blocks))"

text \<open>The control element behind its cookie as little endian 32-bit blocks.\<close>

definition lohi :: "u64 \<Rightarrow> u32 list" where
  "lohi x = [ucast x, ucast (drop_bit 32 x)]"

definition control_blocks :: "SegmentControlElement \<Rightarrow> u32 list" where
  "control_blocks c =
     [ln_stream (ce_link c), ln_sequenceNumber (ce_link c), ce_entryCount c, ce_rawEntryCount c] @
     lohi (ce_startIndex c) @ lohi (ce_endCycle c) @ lohi (ce_startCycle c) @
     lohi (ce_endTime c) @ lohi (ce_startTime c)"

text \<open>\<open>sid\<close> and \<open>flags\<close> are the id and the flags of the segment.\<close>

definition computeControlCookie :: "u64 \<Rightarrow> SegmentControlElement \<Rightarrow> nat \<Rightarrow> u32 \<Rightarrow> u64" where
  "computeControlCookie secret control sid flags =
     (let cookie = secret
            XOR (push_bit 32 (of_nat sid) OR of_nat sid)
            XOR push_bit 32 (ucast (ln_stream (ce_link control)))
            XOR ucast (ln_sequenceNumber (ce_link control))
            XOR ce_startTime control
      in if isSet flags SgfReadOnly then
           (let seed = ucast (cookie AND 0xFFFFFFFF) :: u32
            in (cookie AND NOT 0xFFFFFFFF) OR ucast (murmur3_32 (control_blocks control) seed))
         else cookie)"

definition testControlCookie :: "u64 \<Rightarrow> SegmentControlElement \<Rightarrow> nat \<Rightarrow> u32 \<Rightarrow> bool" where
  "testControlCookie secret control sid flags \<longleftrightarrow>
     ce_cookie control = computeControlCookie secret control sid flags"

definition notifyEncoderCacheClosed :: "nat \<Rightarrow> server_buffer \<Rightarrow> server_buffer" where
  "notifyEncoderCacheClosed s b =
     b\<lparr>sv_closed := sv_closed b @ [(the (sg_stream (sv_seg b s)), sg_sequenceNumber (sv_seg b s))]\<rparr>"

section \<open>The free list\<close>

definition dequeueFromFreeList :: "server_buffer \<Rightarrow> nat option \<times> server_buffer" where
  "dequeueFromFreeList b =
     (case sv_freeHead b of
        None \<Rightarrow> (None, b)
      | Some s \<Rightarrow>
          (Some s, upd s (\<lambda>g. g\<lparr>sg_isSubmitted := False, sg_flags := SgfInUse, sg_next := None\<rparr>)
             (b\<lparr>sv_freeHead := sg_next (sv_seg b s)\<rparr>)))"

definition enqueueToFreeList :: "nat \<Rightarrow> server_buffer \<Rightarrow> server_buffer" where
  "enqueueToFreeList s b =
     (upd s (\<lambda>g. g\<lparr>sg_stream := None, sg_sequenceNumber := INVALID_STREAM_SEGMENT_ID,
                    sg_flags := SgfFree, sg_next := sv_freeHead b\<rparr>) b)
       \<lparr>sv_freeHead := Some s\<rparr>"

definition doPurgeSegment :: "nat \<Rightarrow> server_buffer \<Rightarrow> server_buffer" where
  "doPurgeSegment s b =
     (let b' = (if sg_stream (sv_seg b s) \<noteq> None then notifyEncoderCacheClosed s b else b)
      in enqueueToFreeList s b')"

definition prepareSegment ::
  "nat \<Rightarrow> stream_ref option \<Rightarrow> u32 \<Rightarrow> u64 \<Rightarrow> server_buffer \<Rightarrow> server_buffer" where
  "prepareSegment s stream sequenceNumber now b =
     (let control = control_zero
            \<lparr>ce_link := \<lparr>ln_stream = (case stream of None \<Rightarrow> INVALID_STREAM_ID | Some st \<Rightarrow> sr_id st),
                         ln_sequenceNumber = sequenceNumber\<rparr>,
             ce_startCycle := INVALID_CYCLE_COUNT, ce_endCycle := INVALID_CYCLE_COUNT,
             ce_startTime := now, ce_endTime := INVALID_TIME_STAMP\<rparr>;
          control' = control\<lparr>ce_cookie :=
             computeControlCookie (sv_cookie b) control s (sg_flags (sv_seg b s))\<rparr>
      in upd s (\<lambda>g. g\<lparr>sg_control := control', sg_stream := stream, sg_sequenceNumber := sequenceNumber\<rparr>)
           (b\<lparr>sv_ctrl := (sv_ctrl b)(s := control')\<rparr>))"

section \<open>The standby list\<close>

definition dequeueFromStandbyList :: "nat \<Rightarrow> server_buffer \<Rightarrow> server_buffer" where
  "dequeueFromStandbyList s b =
     (let b' =
        (if sg_next (sv_seg b s) = Some s then b\<lparr>sv_standbyHead := None\<rparr>
         else
           (let next = the (sg_next (sv_seg b s)); prev = the (sg_prev (sv_seg b s));
                b1 = upd prev (\<lambda>g. g\<lparr>sg_next := Some next\<rparr>) b;
                b2 = upd next (\<lambda>g. g\<lparr>sg_prev := Some prev\<rparr>) b1
            in if sv_standbyHead b2 = Some s then b2\<lparr>sv_standbyHead := Some next\<rparr> else b2))
      in upd s (\<lambda>g. g\<lparr>sg_isSubmitted := False, sg_next := None, sg_prev := None\<rparr>) b')"

definition enqueueToStandbyList :: "nat \<Rightarrow> server_buffer \<Rightarrow> server_buffer" where
  "enqueueToStandbyList s b =
     (case sv_standbyHead b of
        None \<Rightarrow> (upd s (\<lambda>g. g\<lparr>sg_next := Some s, sg_prev := Some s\<rparr>) b)\<lparr>sv_standbyHead := Some s\<rparr>
      | Some head \<Rightarrow>
          (let b1 = upd s (\<lambda>g. g\<lparr>sg_next := Some head, sg_prev := sg_prev (sv_seg b head)\<rparr>) b;
               b2 = upd (the (sg_prev (sv_seg b1 head))) (\<lambda>g. g\<lparr>sg_next := Some s\<rparr>) b1;
               b3 = upd head (\<lambda>g. g\<lparr>sg_prev := Some s\<rparr>) b2
           in if \<not> isSet (sg_flags (sv_seg b3 s)) SgfLowPriority \<or> isSet (sg_flags (sv_seg b3 s)) SgfPrefetch
              then upd s (\<lambda>g. g\<lparr>sg_flags := sg_flags g AND NOT SgfPrefetch\<rparr>) (b3\<lparr>sv_standbyHead := Some s\<rparr>)
              else b3))"

definition findStandbySegment ::
  "StoreStreamSegmentLink \<Rightarrow> bool \<Rightarrow> server_buffer \<Rightarrow> nat option \<times> server_buffer" where
  "findStandbySegment link erase b =
     (case sv_standbyIndex b (linkKey link) of
        None \<Rightarrow> (None, b)
      | Some s \<Rightarrow> (Some s, if erase then b\<lparr>sv_standbyIndex := (sv_standbyIndex b)(linkKey link := None)\<rparr> else b))"

text \<open>\<open>StoreStreamSegmentLink link(store, seg.control.link)\<close> with the store of the segment's stream.\<close>

definition segmentLink :: "segment \<Rightarrow> StoreStreamSegmentLink" where
  "segmentLink g =
     \<lparr>sk_store = sr_store (the (sg_stream g)), sk_stream = ln_stream (ce_link (sg_control g)),
      sk_sequenceNumber = ln_sequenceNumber (ce_link (sg_control g))\<rparr>"

definition evictFromStandbyList :: "server_buffer \<Rightarrow> nat option \<times> server_buffer" where
  "evictFromStandbyList b =
     (case sv_standbyHead b of
        None \<Rightarrow> (None, b)
      | Some head \<Rightarrow>
          (let s = the (sg_prev (sv_seg b head));
               b1 = notifyEncoderCacheClosed s b;
               (_, b2) = findStandbySegment (segmentLink (sv_seg b1 s)) True b1;
               b3 = dequeueFromStandbyList s b2
           in (Some s, upd s (\<lambda>g. g\<lparr>sg_flags := SgfInUse\<rparr>) b3)))"

definition removeStandbySegment ::
  "StoreStreamSegmentLink \<Rightarrow> server_buffer \<Rightarrow> nat option \<times> server_buffer" where
  "removeStandbySegment link b =
     (case findStandbySegment link True b of
        (None, b1) \<Rightarrow> (None, b1)
      | (Some s, b1) \<Rightarrow> (Some s, dequeueFromStandbyList s b1))"

definition addStandbySegment :: "nat \<Rightarrow> server_buffer \<Rightarrow> server_buffer" where
  "addStandbySegment s b =
     (let link = segmentLink (sv_seg b s) in
      if fst (findStandbySegment link False b) \<noteq> None then doPurgeSegment s b
      else enqueueToStandbyList s
             (b\<lparr>sv_standbyIndex := (sv_standbyIndex b)(linkKey link := Some s)\<rparr>))"

section \<open>Allocation\<close>

text \<open>
  \<open>_tryAllocateFreeSegment\<close>: at try \<open>tryCount\<close> the segment is taken from the free list or
  from the end of the standby list. When both are empty, the thread sleeps, unless this is a
  prefetch or \<open>_handleContention\<close> gives up at \<open>maxRetryCount\<close>; \<open>env tryCount\<close> is what the
  other threads do to the buffer in the meantime.
\<close>

definition handleContention :: "nat \<Rightarrow> nat \<Rightarrow> bool" where
  "handleContention maxRetryCount tryCount \<longleftrightarrow> \<not> maxRetryCount \<le> tryCount"

function tryAllocateFreeSegment ::
  "nat \<Rightarrow> (nat \<Rightarrow> server_buffer \<Rightarrow> server_buffer) \<Rightarrow> stream_ref option \<Rightarrow> u32 \<Rightarrow> u64 \<Rightarrow> bool \<Rightarrow>
   nat \<Rightarrow> server_buffer \<Rightarrow> nat option \<times> server_buffer" where
  "tryAllocateFreeSegment maxRetryCount env stream sequenceNumber now prefetch tryCount b =
     (let (s0, b0) = dequeueFromFreeList b;
          (s1, b1) = (case s0 of None \<Rightarrow> evictFromStandbyList b0 | Some _ \<Rightarrow> (s0, b0))
      in case s1 of
           Some s \<Rightarrow> (Some s, prepareSegment s stream sequenceNumber now b1)
         | None \<Rightarrow>
             if prefetch \<or> \<not> handleContention maxRetryCount tryCount then (None, b1)
             else tryAllocateFreeSegment maxRetryCount env stream sequenceNumber now prefetch
                    (Suc tryCount) (env tryCount b1))"
  by pat_completeness auto
termination
  by (relation "measure (\<lambda>(m, _, _, _, _, _, t, _). m - t)") (auto simp: handleContention_def)

declare tryAllocateFreeSegment.simps [simp del]

section \<open>Freeing\<close>

definition doFreeSegment :: "nat \<Rightarrow> bool \<Rightarrow> server_buffer \<Rightarrow> server_buffer" where
  "doFreeSegment s prefetch b =
     (let b0 = upd s (\<lambda>g. g\<lparr>sg_isSubmitted := True\<rparr>) b in
      if isSet (sg_flags (sv_seg b0 s)) SgfCacheable \<and> sv_enableCache b0 \<and>
         0 < ce_rawEntryCount (sg_control (sv_seg b0 s))
      then
        (let b1 = (if prefetch then upd s (\<lambda>g. g\<lparr>sg_flags := sg_flags g OR SgfPrefetch\<rparr>) b0 else b0);
             b2 = (if \<not> isSet (sg_flags (sv_seg b1 s)) SgfReadOnly then
                     (let flags = sg_flags (sv_seg b1 s) OR SgfReadOnly;
                          control = (sg_control (sv_seg b1 s))
                            \<lparr>ce_cookie := computeControlCookie (sv_cookie b1) (sg_control (sv_seg b1 s)) s flags\<rparr>
                      in upd s (\<lambda>g. g\<lparr>sg_flags := flags, sg_control := control\<rparr>)
                           (b1\<lparr>sv_ctrl := (sv_ctrl b1)(s := control)\<rparr>))
                   else b1)
         in addStandbySegment s b2)
      else doPurgeSegment s b0)"
section \<open>Submitting\<close>

text \<open>The 64-bit little endian value at an offset of the segment data.\<close>

fun leBytes :: "u8 list \<Rightarrow> u64" where
  "leBytes [] = 0"
| "leBytes (x # xs) = ucast x OR push_bit 8 (leBytes xs)"

definition read64 :: "u8 list \<Rightarrow> nat \<Rightarrow> u64" where
  "read64 mem off = leBytes (take 8 (drop off mem))"

text \<open>What the encoder does with a submitted segment: \<open>encoder.write\<close> completes with or without a storage
  location, goes on asynchronously, or throws; for a segment without entries \<open>encoder.drop\<close> returns, or
  throws outside the \<open>try\<close> block, so that the segment keeps its mark.\<close>

datatype write_result = WriteDone "StorageLocation option" | WritePending | WriteThrow exn

text \<open>
  The body of the \<open>try\<close> block up to the call of the encoder, on the private control
  element: it is updated step by step, so an exception leaves the updates made before.
\<close>

definition fixControl ::
  "stream_ref \<Rightarrow> u8 list \<Rightarrow> u64 \<Rightarrow> SegmentControlElement \<Rightarrow> unit res \<times> SegmentControlElement" where
  "fixControl st mem now c0 =
     (let var = isVariableEntrySize (sr_entrySize st);
          c1 = (if \<not> var then c0\<lparr>ce_entryCount := ce_rawEntryCount c0\<rparr> else c0);
          validBufferLength = ucast (getEntrySize (sr_entrySize st) * ce_rawEntryCount c1) :: u64
      in if of_nat segmentSize < validBufferLength \<or>
            (\<not> var \<and> ce_entryCount c1 \<noteq> ce_rawEntryCount c1) \<or>
            ce_rawEntryCount c1 < ce_entryCount c1
         then (Inl GenericException, c1)
         else
           (let c2 = c1\<lparr>ce_endTime := now\<rparr> in
            if isSet (sr_typeFlags st) StfTemporalOrder then
              (let first = read64 mem 0 AND TEMPORAL_ORDER_CYCLE_COUNT_MASK;
                   last = read64 mem (unat (validBufferLength - ucast (sr_entrySize st)))
                            AND TEMPORAL_ORDER_CYCLE_COUNT_MASK;
                   c3 = c2\<lparr>ce_startCycle := first, ce_endCycle := last\<rparr>
               in (if first = INVALID_CYCLE_COUNT \<or> last = INVALID_CYCLE_COUNT \<or> last < first
                   then Inl GenericException else Inr (), c3))
            else (Inr (), c2\<lparr>ce_startCycle := INVALID_CYCLE_COUNT, ce_endCycle := INVALID_CYCLE_COUNT\<rparr>)))"

type_synonym submit_result = "(bool \<times> StorageLocation option) res"

definition doSubmitSegment ::
  "nat \<Rightarrow> u64 \<Rightarrow> write_result \<Rightarrow> server_buffer \<Rightarrow> submit_result \<times> server_buffer" where
  "doSubmitSegment s now wr b =
     (let readOnly = isSet (sg_flags (sv_seg b s)) SgfReadOnly;
          st = the (sg_stream (sv_seg b s));
          b1 = (if \<not> readOnly then
                  upd s (\<lambda>g. g\<lparr>sg_control := (sv_ctrl b s)
                     \<lparr>ce_link := \<lparr>ln_stream = sr_id st, ln_sequenceNumber = sg_sequenceNumber g\<rparr>\<rparr>\<rparr>) b
                else b);
          control = (if \<not> readOnly then sg_control (sv_seg b1 s) else sv_ctrl b s)
      in if \<not> testControlCookie (sv_cookie b) control s (sg_flags (sv_seg b1 s))
         then (Inl GenericException, b1)
         else
           (let b2 = upd s (\<lambda>g. g\<lparr>sg_isSubmitted := True\<rparr>) b1 in
            if readOnly then (Inr (True, None), doFreeSegment s False b2)
            else if ce_rawEntryCount (sg_control (sv_seg b2 s)) = 0 then
              (case wr of
                 WriteThrow e \<Rightarrow> (Inl e, b2)
               | _ \<Rightarrow> (Inr (True, None), doPurgeSegment s (b2\<lparr>sv_dropped := sv_dropped b2 @ [(st, s)]\<rparr>)))
            else
              (let (r, c3) = fixControl st (sv_data b2 s) now (sg_control (sv_seg b2 s));
                   failed = upd s (\<lambda>g. g\<lparr>sg_control := c3, sg_isSubmitted := False\<rparr>) b2
               in case r of
                    Inl e \<Rightarrow> (Inl e, failed)
                  | Inr _ \<Rightarrow>
                      (let c4 = c3\<lparr>ce_cookie := computeControlCookie (sv_cookie b2) c3 s (sg_flags (sv_seg b2 s))\<rparr>;
                           b3 = upd s (\<lambda>g. g\<lparr>sg_control := c4\<rparr>) b2
                       in case wr of
                            WriteThrow e \<Rightarrow> (Inl e, upd s (\<lambda>g. g\<lparr>sg_isSubmitted := False\<rparr>) b3)
                          | WritePending \<Rightarrow> (Inr (False, None), b3)
                          | WriteDone (Some loc) \<Rightarrow> (Inr (True, Some loc), doFreeSegment s False b3)
                          | WriteDone None \<Rightarrow> (Inr (True, None), doPurgeSegment s b3)))))"

section \<open>Requesting and opening\<close>

text \<open>What \<open>encoder.read\<close> does: it fills the segment, goes on asynchronously, or throws.\<close>

datatype read_result = ReadDone "u8 list" | ReadPending | ReadThrow exn

definition loadControl :: "StorageLocation \<Rightarrow> SegmentControlElement \<Rightarrow> SegmentControlElement" where
  "loadControl loc c =
     (let r = sl_ranges loc;
          c1 = c\<lparr>ce_startCycle := rg_start (ri_cycle r), ce_endCycle := rg_end (ri_cycle r),
                 ce_startTime := rg_start (ri_time r), ce_endTime := rg_end (ri_time r),
                 ce_startIndex := rg_start (ri_index r)\<rparr>;
          c2 = (if rg_start (ri_index r) \<noteq> INVALID_ENTRY_INDEX
                then c1\<lparr>ce_entryCount := getEntryCount loc\<rparr> else c1)
      in c2\<lparr>ce_rawEntryCount := sl_rawEntryCount loc\<rparr>)"

text \<open>
  The configuration and the environment of a request: the retry count, the other threads,
  the time stamp of the new control element.
\<close>

record request_env =
  rq_maxRetryCount :: nat
  rq_env :: "nat \<Rightarrow> server_buffer \<Rightarrow> server_buffer"
  rq_now :: u64

text \<open>
  The two parts of \<open>_requestSegment\<close> behind the allocation: the flags and the control
  element of a segment that is to be loaded (up to the call of the encoder), and the flags of
  a scratch segment or of a segment that is to be written.
\<close>

definition setupRead :: "nat \<Rightarrow> u32 \<Rightarrow> StorageLocation \<Rightarrow> server_buffer \<Rightarrow> server_buffer" where
  "setupRead s flags loc b1 =
     (let b2 = upd s (\<lambda>g. g\<lparr>sg_flags := sg_flags g OR SgfReadOnly\<rparr>) b1;
          b3 = (if sv_enableCache b2 then
                  upd s (\<lambda>g. g\<lparr>sg_flags := sg_flags g OR SgfCacheable OR
                    (if isSet flags SafRandomAccess \<or> isSet flags SafSequentialScan
                     then SgfLowPriority else 0)\<rparr>) b2
                else b2);
          c0 = loadControl loc (sv_ctrl b3 s);
          c = c0\<lparr>ce_cookie := computeControlCookie (sv_cookie b3) c0 s (sg_flags (sv_seg b3 s))\<rparr>
      in upd s (\<lambda>g. g\<lparr>sg_control := c\<rparr>) (b3\<lparr>sv_ctrl := (sv_ctrl b3)(s := c)\<rparr>))"

definition setupWrite :: "nat \<Rightarrow> bool \<Rightarrow> server_buffer \<Rightarrow> server_buffer" where
  "setupWrite s scratch b1 =
     (if scratch then upd s (\<lambda>g. g\<lparr>sg_flags := sg_flags g OR SgfScratch\<rparr>) b1
      else if sv_enableCache b1 then
        upd s (\<lambda>g. g\<lparr>sg_flags := sg_flags g OR SgfCacheable OR SgfLowPriority\<rparr>) b1
      else b1)"

text \<open>The segment id of the result is \<open>None\<close> for \<open>INVALID_SEGMENT_ID\<close>.\<close>

definition doRequestSegment ::
  "request_env \<Rightarrow> stream_ref option \<Rightarrow> u32 \<Rightarrow> u32 \<Rightarrow> StorageLocation option \<Rightarrow> bool \<Rightarrow> read_result \<Rightarrow>
   server_buffer \<Rightarrow> (bool \<times> nat option) res \<times> server_buffer" where
  "doRequestSegment e stream sequenceNumber flags location prefetch rd b =
     (let (hit, b0) =
        (case stream of
           None \<Rightarrow> (None, b)
         | Some st \<Rightarrow> removeStandbySegment
             \<lparr>sk_store = sr_store st, sk_stream = sr_id st, sk_sequenceNumber = sequenceNumber\<rparr> b)
      in case hit of
           Some s \<Rightarrow> (Inr (True, Some s), b0)
         | None \<Rightarrow>
             (case tryAllocateFreeSegment (rq_maxRetryCount e) (rq_env e) stream sequenceNumber
                     (rq_now e) prefetch 1 b0 of
                (None, b1) \<Rightarrow> (Inr (True, None), b1)
              | (Some s, b1) \<Rightarrow>
                  (case location of
                     Some loc \<Rightarrow>
                       (let b4 = setupRead s flags loc b1
                        in case rd of
                             ReadDone mem \<Rightarrow> (Inr (True, Some s), b4\<lparr>sv_data := (sv_data b4)(s := mem)\<rparr>)
                           | ReadPending \<Rightarrow> (Inr (False, Some s), b4)
                           | ReadThrow ex \<Rightarrow> (Inl ex, doPurgeSegment s b4))
                   | None \<Rightarrow> (Inr (True, Some s), setupWrite s (stream = None) b1))))"

section \<open>Public operations\<close>

definition requestSegment ::
  "request_env \<Rightarrow> stream_ref \<Rightarrow> u32 \<Rightarrow> server_buffer \<Rightarrow> (bool \<times> nat option) res \<times> server_buffer" where
  "requestSegment e stream sequenceNumber b =
     (if sequenceNumber = INVALID_STREAM_SEGMENT_ID then (Inl ArgumentException, b)
      else doRequestSegment e (Some stream) sequenceNumber SafNone None False ReadPending b)"

definition requestScratchSegment ::
  "request_env \<Rightarrow> server_buffer \<Rightarrow> (bool \<times> nat option) res \<times> server_buffer" where
  "requestScratchSegment e b =
     doRequestSegment e None INVALID_STREAM_SEGMENT_ID SafNone None False ReadPending b"

definition openSegment ::
  "request_env \<Rightarrow> stream_ref \<Rightarrow> u32 \<Rightarrow> StorageLocation \<Rightarrow> bool \<Rightarrow> read_result \<Rightarrow>
   server_buffer \<Rightarrow> (bool \<times> nat option) res \<times> server_buffer" where
  "openSegment e stream flags location prefetch rd b =
     doRequestSegment e (Some stream) (ln_sequenceNumber (sl_link location)) flags (Some location)
       prefetch rd b"

definition freeSegment :: "nat \<Rightarrow> bool \<Rightarrow> server_buffer \<Rightarrow> unit res \<times> server_buffer" where
  "freeSegment s prefetch b =
     (if sv_numSegments b \<le> s then (Inl ArgumentOutOfBoundsException, b)
      else if \<not> isSet (sg_flags (sv_seg b s)) SgfInUse \<or> sg_next (sv_seg b s) \<noteq> None \<or>
              (\<not> isSet (sg_flags (sv_seg b s)) SgfReadOnly \<and> \<not> sg_isSubmitted (sv_seg b s))
      then (Inl InvalidOperationException, b)
      else (Inr (), doFreeSegment s prefetch b))"

definition purgeSegment :: "nat \<Rightarrow> server_buffer \<Rightarrow> unit res \<times> server_buffer" where
  "purgeSegment s b =
     (if sv_numSegments b \<le> s then (Inl ArgumentOutOfBoundsException, b)
      else if \<not> isSet (sg_flags (sv_seg b s)) SgfInUse \<or> sg_next (sv_seg b s) \<noteq> None
      then (Inl InvalidOperationException, b)
      else (Inr (), doPurgeSegment s b))"

definition submitSegment ::
  "nat \<Rightarrow> u64 \<Rightarrow> write_result \<Rightarrow> server_buffer \<Rightarrow> submit_result \<times> server_buffer" where
  "submitSegment s now wr b =
     (if sv_numSegments b \<le> s then (Inl ArgumentOutOfBoundsException, b)
      else if sg_stream (sv_seg b s) = None then (Inl InvalidOperationException, b)
      else if \<not> isSet (sg_flags (sv_seg b s)) SgfInUse \<or> sg_next (sv_seg b s) \<noteq> None \<or>
              sg_isSubmitted (sv_seg b s)
      then (Inl InvalidOperationException, b)
      else doSubmitSegment s now wr b)"

text \<open>
  \<open>flushStandbyList\<close> for one store, or for all with \<open>INVALID_STORE_ID\<close>. The loop follows
  the \<open>next\<close> pointers up to \<open>end\<close>; that it comes to an end is a theorem below.
\<close>

definition flushOne :: "u32 \<Rightarrow> nat \<Rightarrow> server_buffer \<Rightarrow> server_buffer" where
  "flushOne store s b =
     (let streamStore = sr_store (the (sg_stream (sv_seg b s))) in
      if store = INVALID_STORE_ID \<or> streamStore = store then
        (let b1 = notifyEncoderCacheClosed s b;
             (_, b2) = findStandbySegment (segmentLink (sv_seg b1 s)) True b1
         in doPurgeSegment s (dequeueFromStandbyList s b2))
      else b)"

partial_function (option) flushLoop ::
  "u32 \<Rightarrow> nat \<Rightarrow> nat \<Rightarrow> server_buffer \<Rightarrow> server_buffer option" where
  "flushLoop store end s b =
     (let nseg = sg_next (sv_seg b s); b' = flushOne store s b in
      if s = end then Some b'
      else (case nseg of None \<Rightarrow> None | Some n \<Rightarrow> flushLoop store end n b'))"

definition flushStandbyList :: "u32 \<Rightarrow> server_buffer \<Rightarrow> server_buffer option" where
  "flushStandbyList store b =
     (case sv_standbyHead b of
        None \<Rightarrow> Some b
      | Some head \<Rightarrow> flushLoop store (the (sg_prev (sv_seg b head))) head b)"

text \<open>
  \<open>getControlElement\<close> returns a pointer to the private control element (\<open>Inl\<close>) or to the one
  in the shared mapping (\<open>Inr\<close>).
\<close>

definition serverGetControlElement :: "nat \<Rightarrow> server_buffer \<Rightarrow> (nat + nat) res" where
  "serverGetControlElement s b =
     throwOn (sv_numSegments b \<le> s) ArgumentOutOfBoundsException
       (Inr (if sg_isSubmitted (sv_seg b s) \<or> isSet (sg_flags (sv_seg b s)) SgfReadOnly
             then Inl s else Inr s))"

definition controlAt :: "nat + nat \<Rightarrow> server_buffer \<Rightarrow> SegmentControlElement" where
  "controlAt p b = (case p of Inl s \<Rightarrow> sg_control (sv_seg b s) | Inr s \<Rightarrow> sv_ctrl b s)"

end
