(* ===== verification/Buffer_Lists.thy ===== *)
theory Buffer_Lists
  imports Server_Buffer
begin

text \<open>
  The linked lists of the server stream buffer as lists: the chain of the free list, the
  ring of the standby list, the well-formedness relation between a buffer and the two lists
  it represents, and for each internal operation what it does to them.
\<close>

section \<open>Chains and rings\<close>

fun chain :: "(nat \<Rightarrow> segment) \<Rightarrow> nat option \<Rightarrow> nat list \<Rightarrow> bool" where
  "chain sg h [] \<longleftrightarrow> h = None"
| "chain sg h (x # r) \<longleftrightarrow> h = Some x \<and> chain sg (sg_next (sg x)) r"

lemma chain_frame:
  "(\<And>x. x \<in> set xs \<Longrightarrow> sg_next (sg' x) = sg_next (sg x)) \<Longrightarrow> chain sg' h xs = chain sg h xs"
  by (induction xs arbitrary: h) auto

fun path :: "(nat \<Rightarrow> segment) \<Rightarrow> nat list \<Rightarrow> bool" where
  "path sg (x # y # r) \<longleftrightarrow> sg_next (sg x) = Some y \<and> sg_prev (sg y) = Some x \<and> path sg (y # r)"
| "path sg [x] \<longleftrightarrow> True"
| "path sg [] \<longleftrightarrow> True"

lemma path_split: "path sg (A @ x # B) \<longleftrightarrow> path sg (A @ [x]) \<and> path sg (x # B)"
proof (induction A)
  case (Cons a A)
  then show ?case by (cases A) auto
qed simp

lemma path_frame:
  assumes "\<And>x. x \<in> set (butlast xs) \<Longrightarrow> sg_next (sg' x) = sg_next (sg x)"
    and "\<And>x. x \<in> set (tl xs) \<Longrightarrow> sg_prev (sg' x) = sg_prev (sg x)"
  shows "path sg' xs = path sg xs"
  using assms by (induction sg xs rule: path.induct) auto

definition ring :: "(nat \<Rightarrow> segment) \<Rightarrow> nat list \<Rightarrow> bool" where
  "ring sg S \<longleftrightarrow> (case S of [] \<Rightarrow> True | x # _ \<Rightarrow> path sg (S @ [x]))"

lemma ring_Nil [simp]: "ring sg []"
  by (simp add: ring_def)

lemma ring_Cons: "ring sg (x # T) \<longleftrightarrow> path sg (x # T @ [x])"
  by (simp add: ring_def)

lemma ring_rotate: "ring sg (A @ B) \<longleftrightarrow> ring sg (B @ A)"
proof (cases A)
  case (Cons a A')
  show ?thesis
  proof (cases B)
    case B: (Cons b B')
    have "path sg ((a # A') @ b # B' @ [a]) \<longleftrightarrow> path sg (a # A' @ [b]) \<and> path sg (b # B' @ [a])"
      by (subst path_split) simp
    moreover have "path sg ((b # B') @ a # A' @ [b]) \<longleftrightarrow> path sg (b # B' @ [a]) \<and> path sg (a # A' @ [b])"
      by (subst path_split) simp
    ultimately show ?thesis using Cons B by (simp add: ring_Cons) blast
  qed simp
qed simp

lemma ring_ends:
  assumes "ring sg (x # T)" and "T \<noteq> []"
  shows "sg_next (sg x) = Some (hd T) \<and> sg_prev (sg x) = Some (last T)"
proof -
  from \<open>T \<noteq> []\<close> obtain n T' where T: "T = n # T'" by (cases T) auto
  from \<open>T \<noteq> []\<close> obtain T'' where T2: "T = T'' @ [last T]" by (metis append_butlast_last_id)
  have p: "path sg (x # T @ [x])" using assms(1) by (simp add: ring_Cons)
  then have "sg_next (sg x) = Some n" using T by simp
  moreover have "path sg ((x # T'') @ last T # [x])" using p T2
    by (metis append.assoc append_Cons append_Nil)
  then have "path sg (last T # [x])" by (subst (asm) path_split) simp
  then have "sg_prev (sg x) = Some (last T)" by simp
  ultimately show ?thesis using T by simp
qed

lemma ring_single: "ring sg [x] \<longleftrightarrow> sg_next (sg x) = Some x \<and> sg_prev (sg x) = Some x"
  by (simp add: ring_Cons)

text \<open>Taking an element out of the ring, and putting one in front of the first one.\<close>

lemma ring_remove:
  assumes "ring sg (x # T)" and "T \<noteq> []" and "distinct T"
    and nx: "\<And>y. y \<in> set T \<Longrightarrow> sg_next (sg' y) = (if y = last T then Some (hd T) else sg_next (sg y))"
    and pv: "\<And>y. y \<in> set T \<Longrightarrow> sg_prev (sg' y) = (if y = hd T then Some (last T) else sg_prev (sg y))"
  shows "ring sg' T"
proof -
  from \<open>T \<noteq> []\<close> obtain n T' where T: "T = n # T'" by (cases T) auto
  obtain A where A: "T = A @ [last T]" using \<open>T \<noteq> []\<close> by (metis append_butlast_last_id)
  have "path sg (x # T @ [x])" using assms(1) by (simp add: ring_Cons)
  then have "path sg (T @ [x])" using T by simp
  then have "path sg (A @ last T # [x])" using A by (metis append.assoc append_Cons append_Nil)
  then have pT: "path sg T" using A path_split by metis
  have "path sg' T = path sg T"
  proof (rule path_frame)
    fix y assume "y \<in> set (butlast T)"
    then have "y \<in> set T" "y \<noteq> last T" using A \<open>distinct T\<close>
      by (metis in_set_butlastD, metis butlast_snoc distinct_append disjoint_iff list.set_intros(1) not_distinct_conv_prefix)
    then show "sg_next (sg' y) = sg_next (sg y)" using nx by simp
  next
    fix y assume "y \<in> set (tl T)"
    then have "y \<in> set T" "y \<noteq> hd T" using T \<open>distinct T\<close> by auto
    then show "sg_prev (sg' y) = sg_prev (sg y)" using pv by simp
  qed
  then have "path sg' (A @ [last T])" using pT A by simp
  moreover have "path sg' (last T # [n])"
    using nx [of "last T"] pv [of "hd T"] \<open>T \<noteq> []\<close> T by simp
  ultimately have "path sg' (A @ last T # [n])" using path_split by metis
  then have "path sg' (T @ [n])" using A by (metis append.assoc append_Cons append_Nil)
  then show ?thesis using T by (simp add: ring_Cons)
qed

lemma ring_insert:
  assumes "ring sg T" and "T \<noteq> []" and "distinct T" and "x \<notin> set T"
    and nx: "\<And>y. y \<in> set T \<Longrightarrow> sg_next (sg' y) = (if y = last T then Some x else sg_next (sg y))"
    and pv: "\<And>y. y \<in> set T \<Longrightarrow> sg_prev (sg' y) = (if y = hd T then Some x else sg_prev (sg y))"
    and "sg_next (sg' x) = Some (hd T)" and "sg_prev (sg' x) = Some (last T)"
  shows "ring sg' (x # T)"
proof -
  from \<open>T \<noteq> []\<close> obtain n T' where T: "T = n # T'" by (cases T) auto
  obtain A where A: "T = A @ [last T]" using \<open>T \<noteq> []\<close> by (metis append_butlast_last_id)
  have "path sg (T @ [n])" using assms(1) T by (simp add: ring_Cons)
  then have "path sg (A @ last T # [n])" using A by (metis append.assoc append_Cons append_Nil)
  then have pT: "path sg T" using A path_split by metis
  have "path sg' T = path sg T"
  proof (rule path_frame)
    fix y assume "y \<in> set (butlast T)"
    then have "y \<in> set T" "y \<noteq> last T" using A \<open>distinct T\<close>
      by (metis in_set_butlastD, metis butlast_snoc distinct_append disjoint_iff list.set_intros(1) not_distinct_conv_prefix)
    then show "sg_next (sg' y) = sg_next (sg y)" using nx by simp
  next
    fix y assume "y \<in> set (tl T)"
    then have "y \<in> set T" "y \<noteq> hd T" using T \<open>distinct T\<close> by auto
    then show "sg_prev (sg' y) = sg_prev (sg y)" using pv by simp
  qed
  then have "path sg' (A @ [last T])" using pT A by simp
  moreover have "path sg' (last T # [x])" using nx [of "last T"] assms(8) \<open>T \<noteq> []\<close> by simp
  ultimately have "path sg' (A @ last T # [x])" using path_split by metis
  then have "path sg' (T @ [x])" using A by (metis append.assoc append_Cons append_Nil)
  then show ?thesis using T assms(7) pv [of n] by (simp add: ring_Cons)
qed

section \<open>Well-formedness\<close>

definition seg_free :: "segment \<Rightarrow> bool" where
  "seg_free g \<longleftrightarrow> sg_flags g = SgfFree \<and> sg_prev g = None \<and> sg_stream g = None \<and>
     sg_sequenceNumber g = INVALID_STREAM_SEGMENT_ID"

text \<open>The private control element names the owner; that of a read-only segment has a valid cookie.\<close>

definition seg_ident :: "u64 \<Rightarrow> nat \<Rightarrow> segment \<Rightarrow> bool" where
  "seg_ident secret s g \<longleftrightarrow>
     (\<forall>st. sg_stream g = Some st \<longrightarrow>
        ce_link (sg_control g) = \<lparr>ln_stream = sr_id st, ln_sequenceNumber = sg_sequenceNumber g\<rparr>) \<and>
     (isSet (sg_flags g) SgfReadOnly \<longrightarrow> testControlCookie secret (sg_control g) s (sg_flags g))"

definition seg_used :: "u64 \<Rightarrow> nat \<Rightarrow> segment \<Rightarrow> bool" where
  "seg_used secret s g \<longleftrightarrow>
     isSet (sg_flags g) SgfInUse \<and> sg_next g = None \<and> sg_prev g = None \<and>
     (isSet (sg_flags g) SgfCacheable \<longrightarrow> sg_stream g \<noteq> None) \<and> seg_ident secret s g"

definition seg_cached :: "u64 \<Rightarrow> nat \<Rightarrow> segment \<Rightarrow> bool" where
  "seg_cached secret s g \<longleftrightarrow>
     isSet (sg_flags g) SgfInUse \<and> isSet (sg_flags g) SgfReadOnly \<and> isSet (sg_flags g) SgfCacheable \<and>
     sg_stream g \<noteq> None \<and> 0 < ce_rawEntryCount (sg_control g) \<and> seg_ident secret s g"

definition segKey :: "segment \<Rightarrow> link_key" where
  "segKey g = linkKey (segmentLink g)"

definition same_static :: "segment \<Rightarrow> segment \<Rightarrow> bool" where
  "same_static g g' \<longleftrightarrow> sg_flags g = sg_flags g' \<and> sg_stream g = sg_stream g' \<and>
     sg_sequenceNumber g = sg_sequenceNumber g' \<and> sg_control g = sg_control g'"

lemma same_static_ident: "same_static g g' \<Longrightarrow> seg_ident secret s g = seg_ident secret s g'"
  by (simp add: same_static_def seg_ident_def)

lemma same_static_cached: "same_static g g' \<Longrightarrow> seg_cached secret s g = seg_cached secret s g'"
  using same_static_ident [of g g' secret s] by (simp add: same_static_def seg_cached_def)

lemma same_static_used:
  "same_static g g' \<Longrightarrow> sg_next g = sg_next g' \<Longrightarrow> sg_prev g = sg_prev g' \<Longrightarrow>
   seg_used secret s g = seg_used secret s g'"
  using same_static_ident [of g g' secret s] by (simp add: same_static_def seg_used_def)

lemma same_static_free:
  "same_static g g' \<Longrightarrow> sg_prev g = sg_prev g' \<Longrightarrow> seg_free g = seg_free g'"
  by (simp add: same_static_def seg_free_def)

lemma seg_cached_used:
  "seg_cached secret s g \<Longrightarrow> same_static g' g \<Longrightarrow> sg_next g' = None \<Longrightarrow> sg_prev g' = None \<Longrightarrow>
   seg_used secret s g'"
  using same_static_ident [of g' g secret s]
  by (simp add: same_static_def seg_cached_def seg_used_def)

lemma segKey_cong:
  "sg_stream g = sg_stream g' \<Longrightarrow> sg_control g = sg_control g' \<Longrightarrow> segKey g = segKey g'"
  by (simp add: segKey_def segmentLink_def)

lemma segKey_upd [simp]:
  "segKey (g\<lparr>sg_next := n\<rparr>) = segKey g" "segKey (g\<lparr>sg_prev := n\<rparr>) = segKey g"
  "segKey (g\<lparr>sg_flags := f\<rparr>) = segKey g" "segKey (g\<lparr>sg_isSubmitted := p\<rparr>) = segKey g"
  by (simp_all add: segKey_def segmentLink_def)

lemma same_static_key: "same_static g g' \<Longrightarrow> segKey g = segKey g'"
  by (rule segKey_cong) (simp_all add: same_static_def)

text \<open>
  \<open>buffer_rel b F S\<close>: the free list of \<open>b\<close> is \<open>F\<close>, its standby list is \<open>S\<close> (the most
  recently used segment first), and all other segments are in use.
\<close>

definition buffer_rel :: "server_buffer \<Rightarrow> nat list \<Rightarrow> nat list \<Rightarrow> bool" where
  "buffer_rel b F S \<longleftrightarrow>
     distinct (F @ S) \<and> (\<forall>x\<in>set (F @ S). x < sv_numSegments b) \<and>
     chain (sv_seg b) (sv_freeHead b) F \<and> ring (sv_seg b) S \<and>
     sv_standbyHead b = (case S of [] \<Rightarrow> None | x # _ \<Rightarrow> Some x) \<and>
     (\<forall>x\<in>set F. seg_free (sv_seg b x)) \<and>
     (\<forall>x\<in>set S. seg_cached (sv_cookie b) x (sv_seg b x)) \<and>
     (\<forall>x < sv_numSegments b. x \<notin> set F \<and> x \<notin> set S \<longrightarrow> seg_used (sv_cookie b) x (sv_seg b x)) \<and>
     (\<forall>k x. sv_standbyIndex b k = Some x \<longleftrightarrow> x \<in> set S \<and> k = segKey (sv_seg b x)) \<and>
     (\<not> sv_enableCache b \<longrightarrow> S = [])"

lemma upd_simps [simp]:
  "sv_seg (upd i f b) = (sv_seg b)(i := f (sv_seg b i))"
  "sv_numSegments (upd i f b) = sv_numSegments b"
  "sv_ctrl (upd i f b) = sv_ctrl b"
  "sv_data (upd i f b) = sv_data b"
  "sv_freeHead (upd i f b) = sv_freeHead b"
  "sv_standbyHead (upd i f b) = sv_standbyHead b"
  "sv_standbyIndex (upd i f b) = sv_standbyIndex b"
  "sv_enableCache (upd i f b) = sv_enableCache b"
  "sv_cookie (upd i f b) = sv_cookie b"
  "sv_closed (upd i f b) = sv_closed b"
  "sv_dropped (upd i f b) = sv_dropped b"
  by (simp_all add: upd_def)

lemma flag_simps [simp]:
  "isSet SgfInUse SgfInUse" "\<not> isSet SgfInUse SgfReadOnly" "\<not> isSet SgfInUse SgfCacheable"
  "\<not> isSet SgfInUse SgfScratch" "\<not> isSet SgfFree f"
  by (simp_all add: isSet_def SgfInUse_def SgfReadOnly_def SgfCacheable_def SgfScratch_def SgfFree_def)

lemma isSet_OR [simp]: "isSet (a OR b) f \<longleftrightarrow> isSet a f \<or> isSet b f"
  by (auto simp: isSet_def bit.conj_disj_distrib2 or_eq_0_iff)

lemma cookie_flags:
  "isSet f SgfReadOnly = isSet f' SgfReadOnly \<Longrightarrow>
   computeControlCookie secret c s f = computeControlCookie secret c s f'"
  by (simp add: computeControlCookie_def)

lemma control_blocks_upd [simp]: "control_blocks (c\<lparr>ce_cookie := x\<rparr>) = control_blocks c"
  by (simp add: control_blocks_def)

lemma cookie_upd [simp]:
  "computeControlCookie secret (c\<lparr>ce_cookie := x\<rparr>) s f = computeControlCookie secret c s f"
  by (simp add: computeControlCookie_def Let_def)

text \<open>What does not touch the segments and the heads does not touch the lists.\<close>

lemma buffer_rel_frame:
  assumes "buffer_rel b F S" and "sv_seg b' = sv_seg b" and "sv_numSegments b' = sv_numSegments b"
    and "sv_freeHead b' = sv_freeHead b" and "sv_standbyHead b' = sv_standbyHead b"
    and "sv_standbyIndex b' = sv_standbyIndex b" and "sv_cookie b' = sv_cookie b"
    and "sv_enableCache b' = sv_enableCache b"
  shows "buffer_rel b' F S"
  using assms by (simp add: buffer_rel_def)

lemma buffer_rel_closed [simp]: "buffer_rel (b\<lparr>sv_closed := x\<rparr>) F S = buffer_rel b F S"
  by (simp add: buffer_rel_def)

lemma buffer_rel_dropped [simp]: "buffer_rel (b\<lparr>sv_dropped := x\<rparr>) F S = buffer_rel b F S"
  by (simp add: buffer_rel_def)

lemma buffer_rel_ctrl [simp]: "buffer_rel (b\<lparr>sv_ctrl := x\<rparr>) F S = buffer_rel b F S"
  by (simp add: buffer_rel_def)

lemma buffer_rel_data [simp]: "buffer_rel (b\<lparr>sv_data := x\<rparr>) F S = buffer_rel b F S"
  by (simp add: buffer_rel_def)

lemma rel_used:
  "buffer_rel b F S \<Longrightarrow> x < sv_numSegments b \<Longrightarrow> x \<notin> set F \<Longrightarrow> x \<notin> set S \<Longrightarrow>
   seg_used (sv_cookie b) x (sv_seg b x)"
  by (simp add: buffer_rel_def)

lemma rel_index:
  "buffer_rel b F S \<Longrightarrow>
   sv_standbyIndex b k = Some x \<longleftrightarrow> x \<in> set S \<and> k = segKey (sv_seg b x)"
  unfolding buffer_rel_def by (elim conjE) (erule allE [of _ k], erule allE [of _ x])

text \<open>A segment in use may change in any way that leaves it a segment in use.\<close>

lemma buffer_rel_upd:
  assumes "buffer_rel b F S" and "x \<notin> set F" and "x \<notin> set S"
    and "seg_used (sv_cookie b) x (f (sv_seg b x))"
  shows "buffer_rel (upd x f b) F S"
proof -
  have "chain (sv_seg (upd x f b)) h F = chain (sv_seg b) h F" for h
    by (rule chain_frame) (use assms(2) in auto)
  moreover have "ring (sv_seg (upd x f b)) S = ring (sv_seg b) S"
    by (cases S) (auto simp: ring_Cons intro!: path_frame split: if_splits, use assms(3) in auto)
  ultimately show ?thesis
    using assms by (auto simp: buffer_rel_def)
qed

section \<open>The free list\<close>

lemma rel_init:
  assumes "0 < n"
  shows "buffer_rel (initializeSegments n cookie cache ctrl mem) [0..<n] []"
proof -
  let ?b = "initializeSegments n cookie cache ctrl mem"
  have ch: "chain (sv_seg ?b) (if i = n then None else Some i) [i..<n]" if "i \<le> n" for i
    using that
  proof (induction "n - i" arbitrary: i)
    case (Suc k)
    then have i: "[i..<n] = i # [Suc i..<n]" by (simp add: upt_conv_Cons)
    have "chain (sv_seg ?b) (if Suc i = n then None else Some (Suc i)) [Suc i..<n]"
      using Suc by simp
    moreover have "sg_next (sv_seg ?b i) = (if Suc i = n then None else Some (Suc i))"
      using Suc by (auto simp: initializeSegments_def)
    ultimately show ?case using i Suc by simp
  qed simp
  from ch [of 0] assms have "chain (sv_seg ?b) (Some 0) [0..<n]" by simp
  then show ?thesis
    by (auto simp: buffer_rel_def seg_free_def) (simp_all add: initializeSegments_def)
qed

lemma dequeueFree_Nil:
  "buffer_rel b [] S \<Longrightarrow> dequeueFromFreeList b = (None, b)"
  by (simp add: buffer_rel_def dequeueFromFreeList_def)

lemma dequeueFree_Cons:
  assumes "buffer_rel b (x # F) S"
  shows "\<exists>b'. dequeueFromFreeList b = (Some x, b') \<and> buffer_rel b' F S \<and>
    sg_flags (sv_seg b' x) = SgfInUse \<and> \<not> sg_isSubmitted (sv_seg b' x)"
proof -
  have h: "sv_freeHead b = Some x" "chain (sv_seg b) (sg_next (sv_seg b x)) F"
    "x \<notin> set F" "x \<notin> set S" "seg_free (sv_seg b x)"
    using assms by (auto simp: buffer_rel_def)
  let ?f = "\<lambda>g. g\<lparr>sg_isSubmitted := False, sg_flags := SgfInUse, sg_next := None\<rparr>"
  let ?b = "upd x ?f (b\<lparr>sv_freeHead := sg_next (sv_seg b x)\<rparr>)"
  have "chain (sv_seg ?b) k F = chain (sv_seg b) k F" for k
    by (rule chain_frame) (use h in auto)
  moreover have "ring (sv_seg ?b) S = ring (sv_seg b) S"
    by (cases S) (auto simp: ring_Cons intro!: path_frame split: if_splits, use h in auto)
  moreover have "seg_used (sv_cookie b) x (?f (sv_seg b x))"
    using h(5) by (simp add: seg_used_def seg_free_def seg_ident_def)
  ultimately have "buffer_rel ?b F S"
    using assms h by (auto simp: buffer_rel_def)
  then show ?thesis using h(1) by (simp add: dequeueFromFreeList_def)
qed

lemma enqueueFree_rel:
  assumes "buffer_rel b F S" and "x < sv_numSegments b" and "x \<notin> set F" and "x \<notin> set S"
  shows "buffer_rel (enqueueToFreeList x b) (x # F) S"
proof -
  have u: "seg_used (sv_cookie b) x (sv_seg b x)" by (rule rel_used [OF assms])
  let ?b = "enqueueToFreeList x b"
  have "chain (sv_seg ?b) k F = chain (sv_seg b) k F" for k
    by (rule chain_frame) (use assms in \<open>auto simp: enqueueToFreeList_def\<close>)
  moreover have "ring (sv_seg ?b) S = ring (sv_seg b) S"
    by (cases S) (auto simp: ring_Cons enqueueToFreeList_def intro!: path_frame split: if_splits,
        use assms in auto)
  ultimately show ?thesis
    using assms u by (auto simp: buffer_rel_def enqueueToFreeList_def seg_free_def seg_used_def)
qed

lemma purge_rel:
  assumes "buffer_rel b F S" and "x < sv_numSegments b" and "x \<notin> set F" and "x \<notin> set S"
  shows "buffer_rel (doPurgeSegment x b) (x # F) S"
proof -
  have "buffer_rel (notifyEncoderCacheClosed x b) F S"
    using assms(1) by (simp add: notifyEncoderCacheClosed_def)
  moreover have "sv_numSegments (notifyEncoderCacheClosed x b) = sv_numSegments b"
    by (simp add: notifyEncoderCacheClosed_def)
  ultimately show ?thesis
    using assms enqueueFree_rel by (simp add: doPurgeSegment_def)
qed

section \<open>The standby list\<close>

lemma dequeueStandby_single:
  "sg_next (sv_seg b x) = Some x \<Longrightarrow>
   dequeueFromStandbyList x b =
     upd x (\<lambda>g. g\<lparr>sg_isSubmitted := False, sg_next := None, sg_prev := None\<rparr>) (b\<lparr>sv_standbyHead := None\<rparr>)"
  by (simp add: dequeueFromStandbyList_def)

lemma dequeueStandby_fields:
  "sg_flags (sv_seg (dequeueFromStandbyList x b) y) = sg_flags (sv_seg b y) \<and>
   sg_stream (sv_seg (dequeueFromStandbyList x b) y) = sg_stream (sv_seg b y) \<and>
   sg_sequenceNumber (sv_seg (dequeueFromStandbyList x b) y) = sg_sequenceNumber (sv_seg b y) \<and>
   sg_control (sv_seg (dequeueFromStandbyList x b) y) = sg_control (sv_seg b y)"
  by (simp add: dequeueFromStandbyList_def Let_def)

lemma dequeueStandby_state [simp]:
  "sv_numSegments (dequeueFromStandbyList x b) = sv_numSegments b"
  "sv_freeHead (dequeueFromStandbyList x b) = sv_freeHead b"
  "sv_standbyIndex (dequeueFromStandbyList x b) = sv_standbyIndex b"
  "sv_enableCache (dequeueFromStandbyList x b) = sv_enableCache b"
  "sv_cookie (dequeueFromStandbyList x b) = sv_cookie b"
  "sv_closed (dequeueFromStandbyList x b) = sv_closed b"
  by (simp_all add: dequeueFromStandbyList_def Let_def)

lemma dequeueStandby_links:
  assumes "sg_next (sv_seg b x) = Some n" "sg_prev (sv_seg b x) = Some p" "n \<noteq> x" "p \<noteq> x"
  shows "sg_next (sv_seg (dequeueFromStandbyList x b) y) =
      (if y = x then None else if y = p then Some n else sg_next (sv_seg b y)) \<and>
    sg_prev (sv_seg (dequeueFromStandbyList x b) y) =
      (if y = x then None else if y = n then Some p else sg_prev (sv_seg b y)) \<and>
    sv_standbyHead (dequeueFromStandbyList x b) =
      (if sv_standbyHead b = Some x then Some n else sv_standbyHead b)"
  using assms by (simp add: dequeueFromStandbyList_def Let_def)

text \<open>
  A buffer \<open>d\<close> in which \<open>x\<close> is unlinked from the ring and its neighbours are linked
  with each other represents the standby list without \<open>x\<close>.
\<close>

lemma unlink_rel:
  assumes b: "buffer_rel b F (A @ x # B)"
    and stat: "\<And>y. same_static (sv_seg d y) (sv_seg b y)"
    and nx: "\<And>y. y \<noteq> x \<Longrightarrow> sg_next (sv_seg d y) =
        (if B @ A \<noteq> [] \<and> y = last (B @ A) then Some (hd (B @ A)) else sg_next (sv_seg b y))"
    and pv: "\<And>y. y \<noteq> x \<Longrightarrow> sg_prev (sv_seg d y) =
        (if B @ A \<noteq> [] \<and> y = hd (B @ A) then Some (last (B @ A)) else sg_prev (sv_seg b y))"
    and x: "sg_next (sv_seg d x) = None" "sg_prev (sv_seg d x) = None"
    and head: "sv_standbyHead d = (case A @ B of [] \<Rightarrow> None | z # _ \<Rightarrow> Some z)"
    and same: "sv_numSegments d = sv_numSegments b" "sv_freeHead d = sv_freeHead b"
      "sv_cookie d = sv_cookie b" "sv_enableCache d = sv_enableCache b"
    and index: "sv_standbyIndex d = (sv_standbyIndex b)(segKey (sv_seg b x) := None)"
  shows "buffer_rel d F (A @ B)"
proof -
  have dist: "distinct (F @ A @ x # B)" and ring: "ring (sv_seg b) (A @ x # B)"
    using b by (auto simp: buffer_rel_def)
  have ring': "ring (sv_seg b) (x # (B @ A))" using ring ring_rotate [of _ A "x # B"] by simp
  have out: "sg_prev (sv_seg d y) = sg_prev (sv_seg b y) \<and> sg_next (sv_seg d y) = sg_next (sv_seg b y)"
    if "y \<noteq> x" "y \<notin> set (B @ A)" for y
  proof -
    have "B @ A = [] \<or> (y \<noteq> hd (B @ A) \<and> y \<noteq> last (B @ A))"
      using that(2) hd_in_set last_in_set by metis
    then show ?thesis using nx [OF that(1)] pv [OF that(1)] by auto
  qed
  have "ring (sv_seg d) (A @ B)"
  proof (cases "B @ A = []")
    case False
    have dBA: "distinct (B @ A)" and xBA: "x \<notin> set (B @ A)" using dist by auto
    have "ring (sv_seg d) (B @ A)"
    proof (rule ring_remove [OF ring' False dBA])
      fix y assume "y \<in> set (B @ A)"
      then have "y \<noteq> x" using xBA by blast
      show "sg_next (sv_seg d y) = (if y = last (B @ A) then Some (hd (B @ A)) else sg_next (sv_seg b y))"
        using nx [OF \<open>y \<noteq> x\<close>] False by (simp only: simp_thms not_False_eq_True)
      show "sg_prev (sv_seg d y) = (if y = hd (B @ A) then Some (last (B @ A)) else sg_prev (sv_seg b y))"
        using pv [OF \<open>y \<noteq> x\<close>] False by (simp only: simp_thms not_False_eq_True)
    qed
    then show ?thesis using ring_rotate by metis
  qed simp
  moreover have "chain (sv_seg d) (sv_freeHead d) F"
  proof -
    have "chain (sv_seg d) (sv_freeHead b) F = chain (sv_seg b) (sv_freeHead b) F"
    proof (rule chain_frame)
      fix y assume "y \<in> set F"
      then have "y \<noteq> x" "y \<notin> set (B @ A)" using dist by auto
      then show "sg_next (sv_seg d y) = sg_next (sv_seg b y)" using out by blast
    qed
    then show ?thesis using b same by (simp add: buffer_rel_def)
  qed
  moreover have "\<forall>y\<in>set F. seg_free (sv_seg d y)"
  proof
    fix y assume y: "y \<in> set F"
    then have "y \<noteq> x" "y \<notin> set (B @ A)" using dist by auto
    then have "sg_prev (sv_seg d y) = sg_prev (sv_seg b y)" using out by blast
    moreover have "seg_free (sv_seg b y)" using b y by (simp add: buffer_rel_def)
    ultimately show "seg_free (sv_seg d y)" using same_static_free [OF stat] by blast
  qed
  moreover have "\<forall>y\<in>set (A @ B). seg_cached (sv_cookie d) y (sv_seg d y)"
  proof
    fix y assume "y \<in> set (A @ B)"
    then have "seg_cached (sv_cookie b) y (sv_seg b y)" using b by (auto simp: buffer_rel_def)
    then show "seg_cached (sv_cookie d) y (sv_seg d y)"
      using same_static_cached [OF stat [of y]] same by simp
  qed
  moreover have "\<forall>y < sv_numSegments d. y \<notin> set F \<and> y \<notin> set (A @ B) \<longrightarrow>
      seg_used (sv_cookie d) y (sv_seg d y)"
  proof (intro allI impI)
    fix y assume y: "y < sv_numSegments d" "y \<notin> set F \<and> y \<notin> set (A @ B)"
    show "seg_used (sv_cookie d) y (sv_seg d y)"
    proof (cases "y = x")
      case True
      have "seg_cached (sv_cookie b) x (sv_seg b x)" using b by (simp add: buffer_rel_def)
      then show ?thesis using True x same seg_cached_used [OF _ stat [of x]] by simp
    next
      case False
      have "seg_used (sv_cookie b) y (sv_seg b y)"
        by (rule rel_used [OF b]) (use y False same in auto)
      then show ?thesis using same_static_used [OF stat [of y]] out [of y] y False same by simp
    qed
  qed
  moreover have "sv_standbyIndex d k = Some y \<longleftrightarrow> y \<in> set (A @ B) \<and> k = segKey (sv_seg d y)" for k y
  proof -
    have "segKey (sv_seg d y) = segKey (sv_seg b y)"
      by (rule same_static_key [OF stat])
    then show ?thesis
      using rel_index [OF b, of k y] rel_index [OF b, of "segKey (sv_seg b x)" x]
        rel_index [OF b, of "segKey (sv_seg b x)" y] dist
      by (auto simp: index)
  qed
  moreover have "distinct (F @ A @ B)" using dist by auto
  moreover have "\<forall>y\<in>set (F @ A @ B). y < sv_numSegments d"
    using b same by (auto simp: buffer_rel_def)
  moreover have "sv_enableCache d" using b same by (auto simp: buffer_rel_def)
  ultimately show ?thesis using head unfolding buffer_rel_def by blast
qed

text \<open>The callers of \<open>_dequeueFromStandbyList\<close> erase the index entry first.\<close>

lemma dequeueStandby_rel:
  assumes b: "buffer_rel b F (A @ x # B)"
    and index: "sv_standbyIndex b' = (sv_standbyIndex b)(segKey (sv_seg b x) := None)"
    and same: "sv_seg b' = sv_seg b" "sv_numSegments b' = sv_numSegments b"
      "sv_freeHead b' = sv_freeHead b" "sv_standbyHead b' = sv_standbyHead b"
      "sv_cookie b' = sv_cookie b" "sv_enableCache b' = sv_enableCache b"
  shows "buffer_rel (dequeueFromStandbyList x b') F (A @ B)"
proof -
  let ?d = "dequeueFromStandbyList x b'"
  have dist: "distinct (F @ A @ x # B)" and ring: "ring (sv_seg b) (A @ x # B)"
    using b by (auto simp: buffer_rel_def)
  have ring': "ring (sv_seg b) (x # (B @ A))" using ring ring_rotate [of _ A "x # B"] by simp
  have stat: "same_static (sv_seg ?d y) (sv_seg b y)" for y
    using dequeueStandby_fields [of x b' y] same(1) by (simp add: same_static_def)
  have head: "sv_standbyHead b = (case A of [] \<Rightarrow> Some x | a # _ \<Rightarrow> Some a)"
    using b by (cases A) (auto simp: buffer_rel_def)
  show ?thesis
  proof (cases "B @ A = []")
    case True
    then have "sg_next (sv_seg b' x) = Some x" using ring' same(1) by (simp add: ring_single)
    note d = dequeueStandby_single [OF this]
    show ?thesis
      by (rule unlink_rel [OF b stat]) (use True same index in \<open>simp_all add: d\<close>)
  next
    case False
    have e: "sg_next (sv_seg b' x) = Some (hd (B @ A))" "sg_prev (sv_seg b' x) = Some (last (B @ A))"
      using ring_ends [OF ring' False] same(1) by simp_all
    have "hd (B @ A) \<in> set (B @ A)" "last (B @ A) \<in> set (B @ A)"
      using False hd_in_set last_in_set by blast+
    then have "hd (B @ A) \<noteq> x" "last (B @ A) \<noteq> x" using dist by auto
    note l = dequeueStandby_links [OF e this]
    have "sv_standbyHead ?d = (case A @ B of [] \<Rightarrow> None | z # _ \<Rightarrow> Some z)"
    proof (cases A)
      case Nil
      then show ?thesis using l head same False by (cases B) simp_all
    next
      case (Cons a A')
      then have "a \<noteq> x" using dist by auto
      then show ?thesis using l head same Cons by simp
    qed
    then show ?thesis
      by (intro unlink_rel [OF b stat]) (use l False same index in simp_all)
  qed
qed

text \<open>The counterpart: \<open>x\<close> is linked in before the first (or behind the last) element.\<close>

lemma link_rel:
  assumes b: "buffer_rel b F S" and x: "x < sv_numSegments b" "x \<notin> set F" "x \<notin> set S"
    and cached: "seg_cached (sv_cookie b) x (sv_seg d x)" and cache: "sv_enableCache b"
    and stat: "\<And>y. y \<noteq> x \<Longrightarrow> same_static (sv_seg d y) (sv_seg b y)"
    and nx: "\<And>y. y \<noteq> x \<Longrightarrow> sg_next (sv_seg d y) =
        (if S \<noteq> [] \<and> y = last S then Some x else sg_next (sv_seg b y))"
    and pv: "\<And>y. y \<noteq> x \<Longrightarrow> sg_prev (sv_seg d y) =
        (if S \<noteq> [] \<and> y = hd S then Some x else sg_prev (sv_seg b y))"
    and ends: "sg_next (sv_seg d x) = Some (hd (S @ [x]))" "sg_prev (sv_seg d x) = Some (last (x # S))"
    and S': "S' = x # S \<or> S' = S @ [x]" and head: "sv_standbyHead d = Some (hd S')"
    and same: "sv_numSegments d = sv_numSegments b" "sv_freeHead d = sv_freeHead b"
      "sv_cookie d = sv_cookie b" "sv_enableCache d = sv_enableCache b"
    and index: "sv_standbyIndex d = (sv_standbyIndex b)(segKey (sv_seg d x) := Some x)"
    and new: "sv_standbyIndex b (segKey (sv_seg d x)) = None"
  shows "buffer_rel d F S'"
proof -
  have dist: "distinct (F @ S)" and ring: "ring (sv_seg b) S"
    using b by (auto simp: buffer_rel_def)
  have set': "set S' = insert x (set S)" using S' by auto
  have out: "sg_prev (sv_seg d y) = sg_prev (sv_seg b y) \<and> sg_next (sv_seg d y) = sg_next (sv_seg b y)"
    if "y \<noteq> x" "y \<notin> set S" for y
  proof -
    have "S = [] \<or> (y \<noteq> hd S \<and> y \<noteq> last S)"
      using that(2) hd_in_set last_in_set by metis
    then show ?thesis using nx [OF that(1)] pv [OF that(1)] by auto
  qed
  have "ring (sv_seg d) (x # S)"
  proof (cases "S = []")
    case True
    then show ?thesis using ends by (simp add: ring_single)
  next
    case False
    have dS: "distinct S" using dist by simp
    show ?thesis
    proof (rule ring_insert [OF ring False dS x(3)])
      fix y assume "y \<in> set S"
      then have "y \<noteq> x" using x by blast
      show "sg_next (sv_seg d y) = (if y = last S then Some x else sg_next (sv_seg b y))"
        using nx [OF \<open>y \<noteq> x\<close>] False by (simp only: simp_thms not_False_eq_True)
      show "sg_prev (sv_seg d y) = (if y = hd S then Some x else sg_prev (sv_seg b y))"
        using pv [OF \<open>y \<noteq> x\<close>] False by (simp only: simp_thms not_False_eq_True)
    next
      show "sg_next (sv_seg d x) = Some (hd S)" "sg_prev (sv_seg d x) = Some (last S)"
        using ends False by simp_all
    qed
  qed
  then have "ring (sv_seg d) S'" using S' ring_rotate [of _ "[x]" S] by auto
  moreover have "chain (sv_seg d) (sv_freeHead d) F"
  proof -
    have "chain (sv_seg d) (sv_freeHead b) F = chain (sv_seg b) (sv_freeHead b) F"
    proof (rule chain_frame)
      fix y assume "y \<in> set F"
      then have "y \<noteq> x" "y \<notin> set S" using dist x by auto
      then show "sg_next (sv_seg d y) = sg_next (sv_seg b y)" using out by blast
    qed
    then show ?thesis using b same by (simp add: buffer_rel_def)
  qed
  moreover have "\<forall>y\<in>set F. seg_free (sv_seg d y)"
  proof
    fix y assume y: "y \<in> set F"
    then have "y \<noteq> x" "y \<notin> set S" using dist x by auto
    then have "sg_prev (sv_seg d y) = sg_prev (sv_seg b y)" using out by blast
    moreover have "seg_free (sv_seg b y)" using b y by (simp add: buffer_rel_def)
    ultimately show "seg_free (sv_seg d y)" using same_static_free [OF stat [OF \<open>y \<noteq> x\<close>]] by blast
  qed
  moreover have "\<forall>y\<in>set S'. seg_cached (sv_cookie d) y (sv_seg d y)"
  proof
    fix y assume y: "y \<in> set S'"
    show "seg_cached (sv_cookie d) y (sv_seg d y)"
    proof (cases "y = x")
      case True
      then show ?thesis using cached same by simp
    next
      case False
      then have "seg_cached (sv_cookie b) y (sv_seg b y)" using b y set' by (auto simp: buffer_rel_def)
      then show ?thesis using same_static_cached [OF stat [OF False]] same by simp
    qed
  qed
  moreover have "\<forall>y < sv_numSegments d. y \<notin> set F \<and> y \<notin> set S' \<longrightarrow> seg_used (sv_cookie d) y (sv_seg d y)"
  proof (intro allI impI)
    fix y assume y: "y < sv_numSegments d" "y \<notin> set F \<and> y \<notin> set S'"
    then have ne: "y \<noteq> x" "y \<notin> set S" using set' by auto
    have "seg_used (sv_cookie b) y (sv_seg b y)"
      by (rule rel_used [OF b]) (use y ne same in auto)
    then show "seg_used (sv_cookie d) y (sv_seg d y)"
      using same_static_used [OF stat [OF ne(1)]] out [OF ne] same by simp
  qed
  moreover have "sv_standbyIndex d k = Some y \<longleftrightarrow> y \<in> set S' \<and> k = segKey (sv_seg d y)" for k y
  proof (cases "y = x")
    case True
    then show ?thesis using rel_index [OF b, of k x] x set' by (auto simp: index)
  next
    case False
    then have "segKey (sv_seg d y) = segKey (sv_seg b y)"
      using stat same_static_key by blast
    then show ?thesis
      using rel_index [OF b, of k y] new False set' by (auto simp: index)
  qed
  moreover have "distinct (F @ S')" using dist x S' by auto
  moreover have "\<forall>y\<in>set (F @ S'). y < sv_numSegments d"
    using b same x set' by (auto simp: buffer_rel_def)
  moreover have "sv_standbyHead d = (case S' of [] \<Rightarrow> None | z # _ \<Rightarrow> Some z)"
    using head S' by (cases S') auto
  moreover have "sv_enableCache d" using cache same by simp
  ultimately show ?thesis unfolding buffer_rel_def by blast
qed

lemma isSet_clear_prefetch [simp]:
  "isSet (f AND NOT SgfPrefetch) SgfInUse = isSet f SgfInUse"
  "isSet (f AND NOT SgfPrefetch) SgfReadOnly = isSet f SgfReadOnly"
  "isSet (f AND NOT SgfPrefetch) SgfCacheable = isSet f SgfCacheable"
  by (simp_all add: isSet_def and.assoc SgfPrefetch_def SgfInUse_def SgfReadOnly_def SgfCacheable_def)

lemma isSet_set_prefetch [simp]:
  "\<not> isSet SgfPrefetch SgfInUse" "\<not> isSet SgfPrefetch SgfReadOnly" "\<not> isSet SgfPrefetch SgfCacheable"
  "isSet SgfReadOnly SgfReadOnly" "\<not> isSet SgfReadOnly SgfInUse" "\<not> isSet SgfReadOnly SgfCacheable"
  "isSet SgfCacheable SgfCacheable" "\<not> isSet SgfCacheable SgfReadOnly" "\<not> isSet SgfScratch SgfCacheable"
  "\<not> isSet SgfScratch SgfReadOnly" "\<not> isSet SgfLowPriority SgfReadOnly" "\<not> isSet SgfLowPriority SgfCacheable"
  "\<not> isSet 0 f" "isSet SgfPrefetch SgfPrefetch" "\<not> isSet SgfReadOnly SgfPrefetch"
  "\<not> isSet SgfPrefetch SgfLowPriority" "\<not> isSet SgfReadOnly SgfLowPriority"
  by (simp_all add: isSet_def SgfPrefetch_def SgfInUse_def SgfReadOnly_def SgfCacheable_def
      SgfScratch_def SgfLowPriority_def)

text \<open>A low-priority segment goes to the end of the list, unless it was prefetched.\<close>

definition standbyFront :: "u32 \<Rightarrow> bool" where
  "standbyFront flags \<longleftrightarrow> \<not> isSet flags SgfLowPriority \<or> isSet flags SgfPrefetch"

lemma enqueueStandby_fields:
  assumes "sv_standbyHead b = Some h" "sg_prev (sv_seg b h) = Some p" "x \<noteq> h" "x \<noteq> p"
  shows "sv_seg (enqueueToStandbyList x b) =
      (\<lambda>y. (sv_seg b y)
        \<lparr>sg_next := (if y = x then Some h else if y = p then Some x else sg_next (sv_seg b y)),
         sg_prev := (if y = x then Some p else if y = h then Some x else sg_prev (sv_seg b y)),
         sg_flags := (if y = x \<and> standbyFront (sg_flags (sv_seg b x))
                      then sg_flags (sv_seg b x) AND NOT SgfPrefetch else sg_flags (sv_seg b y))\<rparr>) \<and>
    sv_standbyHead (enqueueToStandbyList x b) =
      Some (if standbyFront (sg_flags (sv_seg b x)) then x else h)"
  using assms by (auto simp: enqueueToStandbyList_def Let_def standbyFront_def)

lemma enqueueStandby_state [simp]:
  "sv_numSegments (enqueueToStandbyList x b) = sv_numSegments b"
  "sv_freeHead (enqueueToStandbyList x b) = sv_freeHead b"
  "sv_standbyIndex (enqueueToStandbyList x b) = sv_standbyIndex b"
  "sv_enableCache (enqueueToStandbyList x b) = sv_enableCache b"
  "sv_cookie (enqueueToStandbyList x b) = sv_cookie b"
  "sv_closed (enqueueToStandbyList x b) = sv_closed b"
  by (simp_all add: enqueueToStandbyList_def Let_def split: option.splits)

lemma cached_clear_prefetch:
  assumes "seg_cached secret s g" and "sg_flags g' = sg_flags g AND NOT SgfPrefetch"
    and "sg_stream g' = sg_stream g" "sg_sequenceNumber g' = sg_sequenceNumber g"
      "sg_control g' = sg_control g"
  shows "seg_cached secret s g'"
  using assms cookie_flags [of "sg_flags g AND NOT SgfPrefetch" "sg_flags g"]
  by (auto simp: seg_cached_def seg_ident_def testControlCookie_def)

lemma enqueueStandby_rel:
  assumes b: "buffer_rel b F S" and x: "x < sv_numSegments b" "x \<notin> set F" "x \<notin> set S"
    and cached: "seg_cached (sv_cookie b) x (sv_seg b x)" and cache: "sv_enableCache b"
    and new: "sv_standbyIndex b (segKey (sv_seg b x)) = None"
    and b': "b' = b\<lparr>sv_standbyIndex := (sv_standbyIndex b)(segKey (sv_seg b x) := Some x)\<rparr>"
  shows "buffer_rel (enqueueToStandbyList x b') F
     (if S = [] \<or> standbyFront (sg_flags (sv_seg b x)) then x # S else S @ [x])"
proof (cases S)
  case Nil
  then have "sv_standbyHead b' = None" using b b' by (simp add: buffer_rel_def)
  then have d: "enqueueToStandbyList x b' =
      (upd x (\<lambda>g. g\<lparr>sg_next := Some x, sg_prev := Some x\<rparr>) b')\<lparr>sv_standbyHead := Some x\<rparr>"
    by (simp add: enqueueToStandbyList_def)
  let ?d = "(upd x (\<lambda>g. g\<lparr>sg_next := Some x, sg_prev := Some x\<rparr>) b')\<lparr>sv_standbyHead := Some x\<rparr>"
  have st: "same_static (sv_seg ?d y) (sv_seg b y)" for y
    by (simp add: same_static_def b')
  have key: "segKey (sv_seg ?d x) = segKey (sv_seg b x)"
    by (rule same_static_key [OF st])
  show ?thesis
    unfolding d using Nil x new cached same_static_cached [OF st [of x]] cache
    by (intro link_rel [OF b x _ cache st]) (simp_all add: key, simp_all add: b')
next
  case (Cons h T)
  have h: "sv_standbyHead b' = Some h" using b b' Cons by (simp add: buffer_rel_def)
  have ring: "ring (sv_seg b) (h # T)" using b Cons by (simp add: buffer_rel_def)
  have p: "sg_prev (sv_seg b' h) = Some (last S)"
    using ring ring_ends [OF ring] Cons b' by (cases "T = []") (simp_all add: ring_single)
  have ne: "x \<noteq> h" "x \<noteq> last S" using x Cons last_in_set [of S] by auto
  note l = enqueueStandby_fields [OF h p ne]
  let ?d = "enqueueToStandbyList x b'"
  have seg: "sv_seg b' = sv_seg b" by (simp add: b')
  have st: "same_static (sv_seg ?d y) (sv_seg b y)" if "y \<noteq> x" for y
    using l that by (simp add: same_static_def seg)
  have key: "segKey (sv_seg ?d x) = segKey (sv_seg b x)"
    using l by (intro segKey_cong) (simp_all add: seg)
  have cd: "seg_cached (sv_cookie b) x (sv_seg ?d x)"
  proof (cases "standbyFront (sg_flags (sv_seg b x))")
    case True
    then show ?thesis using l by (intro cached_clear_prefetch [OF cached]) (simp_all add: seg)
  next
    case False
    then have "same_static (sv_seg ?d x) (sv_seg b x)" using l by (simp add: same_static_def seg)
    then show ?thesis using cached same_static_cached by blast
  qed
  show ?thesis
  proof (rule link_rel [OF b x cd cache st])
    show "sv_standbyHead ?d = Some (hd (if S = [] \<or> standbyFront (sg_flags (sv_seg b x)) then x # S else S @ [x]))"
      using l Cons by (simp add: seg)
  next
    show "sv_standbyIndex ?d = (sv_standbyIndex b)(segKey (sv_seg ?d x) := Some x)"
      unfolding key by (simp add: b')
  next
    show "sv_standbyIndex b (segKey (sv_seg ?d x)) = None" unfolding key by (rule new)
  qed (use l Cons ne in \<open>simp_all add: seg\<close>, simp_all add: b')
qed

lemma find_False [simp]: "findStandbySegment link False b = (sv_standbyIndex b (linkKey link), b)"
  by (simp add: findStandbySegment_def split: option.splits)

text \<open>
  \<open>_addStandbySegment\<close>: one copy per key. A segment whose key is taken goes to the free list.
\<close>

lemma addStandby_rel:
  assumes b: "buffer_rel b F S" and x: "x < sv_numSegments b" "x \<notin> set F" "x \<notin> set S"
    and cached: "seg_cached (sv_cookie b) x (sv_seg b x)" and cache: "sv_enableCache b"
  shows "if \<exists>y\<in>set S. segKey (sv_seg b y) = segKey (sv_seg b x)
    then buffer_rel (addStandbySegment x b) (x # F) S
    else buffer_rel (addStandbySegment x b) F
      (if S = [] \<or> standbyFront (sg_flags (sv_seg b x)) then x # S else S @ [x])"
proof (cases "sv_standbyIndex b (segKey (sv_seg b x))")
  case None
  then have "\<not> (\<exists>y\<in>set S. segKey (sv_seg b y) = segKey (sv_seg b x))"
    using rel_index [OF b] by (metis option.distinct(1))
  moreover have "addStandbySegment x b = enqueueToStandbyList x
      (b\<lparr>sv_standbyIndex := (sv_standbyIndex b)(segKey (sv_seg b x) := Some x)\<rparr>)"
    using None by (simp add: addStandbySegment_def segKey_def)
  ultimately show ?thesis using enqueueStandby_rel [OF b x cached cache None refl] by simp
next
  case (Some y)
  then have "\<exists>y\<in>set S. segKey (sv_seg b y) = segKey (sv_seg b x)"
    using rel_index [OF b] by metis
  moreover have "addStandbySegment x b = doPurgeSegment x b"
    using Some by (simp add: addStandbySegment_def segKey_def)
  ultimately show ?thesis using purge_rel [OF b x] by simp
qed

lemma evict_Nil: "buffer_rel b F [] \<Longrightarrow> evictFromStandbyList b = (None, b)"
  by (simp add: evictFromStandbyList_def buffer_rel_def)

text \<open>The victim is the last segment of the standby list.\<close>

lemma evict_rel:
  assumes b: "buffer_rel b F (S @ [x])"
  shows "\<exists>b'. evictFromStandbyList b = (Some x, b') \<and> buffer_rel b' F S \<and>
    sg_flags (sv_seg b' x) = SgfInUse \<and> sv_closed b' = sv_closed b @
      [(the (sg_stream (sv_seg b x)), sg_sequenceNumber (sv_seg b x))]"
proof -
  obtain h T where hT: "S @ [x] = h # T" by (cases "S @ [x]") auto
  have head: "sv_standbyHead b = Some h" and ring: "ring (sv_seg b) (h # T)"
    using b hT by (simp_all add: buffer_rel_def)
  have prev: "sg_prev (sv_seg b h) = Some x"
    using ring ring_ends [OF ring] hT
    by (cases "T = []") (simp_all add: ring_single, metis last.simps last_snoc)
  let ?b1 = "notifyEncoderCacheClosed x b"
  let ?b2 = "?b1\<lparr>sv_standbyIndex := (sv_standbyIndex b)(segKey (sv_seg b x) := None)\<rparr>"
  let ?b3 = "dequeueFromStandbyList x ?b2"
  have idx: "sv_standbyIndex b (segKey (sv_seg b x)) = Some x"
    using rel_index [OF b] by simp
  have f: "findStandbySegment (segmentLink (sv_seg ?b1 x)) True ?b1 = (Some x, ?b2)"
    using idx by (simp add: findStandbySegment_def segKey_def notifyEncoderCacheClosed_def)
  have ev: "evictFromStandbyList b = (Some x, upd x (\<lambda>g. g\<lparr>sg_flags := SgfInUse\<rparr>) ?b3)"
    using head prev f by (simp add: evictFromStandbyList_def Let_def)
  have r3: "buffer_rel ?b3 F (S @ [])"
    by (rule dequeueStandby_rel [OF b]) (simp_all add: notifyEncoderCacheClosed_def)
  have x: "x < sv_numSegments ?b3" "x \<notin> set F" "x \<notin> set S"
    using b by (auto simp: buffer_rel_def notifyEncoderCacheClosed_def)
  have u: "seg_used (sv_cookie ?b3) x (sv_seg ?b3 x)" by (rule rel_used [OF r3 x(1,2)]) (use x in simp)
  then have "seg_used (sv_cookie ?b3) x ((sv_seg ?b3 x)\<lparr>sg_flags := SgfInUse\<rparr>)"
    by (simp add: seg_used_def seg_ident_def)
  then have "buffer_rel (upd x (\<lambda>g. g\<lparr>sg_flags := SgfInUse\<rparr>) ?b3) F S"
    using r3 x by (intro buffer_rel_upd) simp_all
  then show ?thesis using ev by (simp add: notifyEncoderCacheClosed_def)
qed

lemma remove_miss:
  assumes "buffer_rel b F S" and "\<forall>y\<in>set S. segKey (sv_seg b y) \<noteq> linkKey link"
  shows "removeStandbySegment link b = (None, b)"
proof -
  have "sv_standbyIndex b (linkKey link) = None"
    using assms rel_index [OF assms(1)] by (metis not_None_eq)
  then show ?thesis by (simp add: removeStandbySegment_def findStandbySegment_def)
qed

lemma remove_hit:
  assumes b: "buffer_rel b F (A @ x # B)" and key: "segKey (sv_seg b x) = linkKey link"
  shows "\<exists>b'. removeStandbySegment link b = (Some x, b') \<and> buffer_rel b' F (A @ B) \<and>
    same_static (sv_seg b' x) (sv_seg b x) \<and> \<not> sg_isSubmitted (sv_seg b' x)"
proof -
  have idx: "sv_standbyIndex b (linkKey link) = Some x"
    using rel_index [OF b] key by simp
  let ?b1 = "b\<lparr>sv_standbyIndex := (sv_standbyIndex b)(linkKey link := None)\<rparr>"
  have "removeStandbySegment link b = (Some x, dequeueFromStandbyList x ?b1)"
    using idx by (simp add: removeStandbySegment_def findStandbySegment_def)
  moreover have "buffer_rel (dequeueFromStandbyList x ?b1) F (A @ B)"
    by (rule dequeueStandby_rel [OF b]) (simp_all add: key)
  moreover have "same_static (sv_seg (dequeueFromStandbyList x ?b1) x) (sv_seg b x)"
    using dequeueStandby_fields [of x ?b1 x] by (simp add: same_static_def)
  moreover have "\<not> sg_isSubmitted (sv_seg (dequeueFromStandbyList x ?b1) x)"
    by (simp add: dequeueFromStandbyList_def Let_def)
  ultimately show ?thesis by blast
qed

end
