(* ===== verification/Buffer_Ops.thy ===== *)
theory Buffer_Ops
  imports Buffer_Lists
begin

text \<open>
  The operations of the server stream buffer on the two lists: freeing, allocation,
  requests, submission and flushing; the invariant over all reachable buffers; and the
  properties of the component.
\<close>

section \<open>Freeing\<close>

text \<open>
  The abstract effect of releasing segment \<open>x\<close> on the free and the standby list: a
  cacheable segment with entries is kept on the standby list, unless a copy is there
  already; everything else is free at once.
\<close>

definition keepable :: "server_buffer \<Rightarrow> nat \<Rightarrow> bool" where
  "keepable b x \<longleftrightarrow> isSet (sg_flags (sv_seg b x)) SgfCacheable \<and> sv_enableCache b \<and>
     0 < ce_rawEntryCount (sg_control (sv_seg b x))"

definition free_lists :: "server_buffer \<Rightarrow> nat \<Rightarrow> bool \<Rightarrow> nat list \<times> nat list \<Rightarrow> nat list \<times> nat list" where
  "free_lists b x prefetch FS =
     (let (F, S) = FS in
      if keepable b x \<and> \<not> (\<exists>y\<in>set S. segKey (sv_seg b y) = segKey (sv_seg b x))
      then (F, if S = [] \<or> prefetch \<or> standbyFront (sg_flags (sv_seg b x)) then x # S else S @ [x])
      else (x # F, S))"

lemma segKey_link:
  "sg_stream g' = sg_stream g \<Longrightarrow> ce_link (sg_control g') = ce_link (sg_control g) \<Longrightarrow>
   segKey g' = segKey g"
  by (simp add: segKey_def segmentLink_def)

text \<open>The segment on its way to the standby list: read-only, with a fresh cookie.\<close>

definition toCached :: "u64 \<Rightarrow> nat \<Rightarrow> bool \<Rightarrow> segment \<Rightarrow> segment" where
  "toCached secret x prefetch g =
     (let f1 = (if prefetch then sg_flags g OR SgfPrefetch else sg_flags g) in
      if isSet f1 SgfReadOnly then g\<lparr>sg_isSubmitted := True, sg_flags := f1\<rparr>
      else g\<lparr>sg_isSubmitted := True, sg_flags := f1 OR SgfReadOnly,
             sg_control := (sg_control g)\<lparr>ce_cookie :=
               computeControlCookie secret (sg_control g) x (f1 OR SgfReadOnly)\<rparr>\<rparr>)"

lemma toCached_used:
  assumes "seg_used secret x g"
  shows "seg_used secret x (toCached secret x prefetch g)"
proof -
  have "computeControlCookie secret c x (f OR SgfPrefetch) = computeControlCookie secret c x f" for c f
    by (rule cookie_flags) simp
  then show ?thesis
    using assms
    by (auto simp: seg_used_def toCached_def Let_def seg_ident_def testControlCookie_def)
qed

lemma toCached_cached:
  assumes "seg_used secret x g" and "isSet (sg_flags g) SgfCacheable"
    and "0 < ce_rawEntryCount (sg_control g)"
  shows "seg_cached secret x (toCached secret x prefetch g)"
  using toCached_used [OF assms(1), of prefetch] assms
  by (auto simp: seg_used_def seg_cached_def toCached_def Let_def)

lemma toCached_key: "segKey (toCached secret x prefetch g) = segKey g"
  by (rule segKey_link) (simp_all add: toCached_def Let_def)

lemma toCached_front:
  "standbyFront (sg_flags (toCached secret x prefetch g)) \<longleftrightarrow> prefetch \<or> standbyFront (sg_flags g)"
  by (auto simp: toCached_def Let_def standbyFront_def)

text \<open>\<open>_freeSegment\<close> before the last call, up to the shared control element.\<close>

lemma doFree_keep:
  assumes "keepable b x"
  shows "\<exists>c. doFreeSegment x prefetch b =
    addStandbySegment x ((upd x (toCached (sv_cookie b) x prefetch) b)\<lparr>sv_ctrl := c\<rparr>)"
proof -
  let ?f1 = "if prefetch then sg_flags (sv_seg b x) OR SgfPrefetch else sg_flags (sv_seg b x)"
  have e: "upd x f (b\<lparr>sv_ctrl := c\<rparr>) = (upd x f b)\<lparr>sv_ctrl := c\<rparr>" for f c and b :: server_buffer
    by (simp add: upd_def)
  have uu: "upd x f (upd x g b) = upd x (f \<circ> g) b" for f g and b :: server_buffer
    by (simp add: upd_def)
  have cc: "computeControlCookie k c i ((f OR SgfPrefetch) OR SgfReadOnly) =
      computeControlCookie k c i (f OR SgfReadOnly)" for k c i f
    by (rule cookie_flags) simp
  show ?thesis
  proof (cases "isSet ?f1 SgfReadOnly")
    case True
    then have "doFreeSegment x prefetch b = addStandbySegment x (upd x (toCached (sv_cookie b) x prefetch) b)"
      using assms
      by (simp add: doFreeSegment_def keepable_def Let_def uu upd_def toCached_def split: if_splits)
    then show ?thesis by (intro exI [of _ "sv_ctrl b"]) (simp add: upd_def)
  next
    case False
    have ctrl_last: "addStandbySegment x (b\<lparr>sv_ctrl := c, sv_seg := g\<rparr>) =
        addStandbySegment x (b\<lparr>sv_seg := g, sv_ctrl := c\<rparr>)" for c g and b :: server_buffer
      by (rule arg_cong [where f = "addStandbySegment x"]) (rule server_buffer.equality, simp_all)
    show ?thesis using False assms
      by (intro exI [of _ "(sv_ctrl b)(x := sg_control (toCached (sv_cookie b) x prefetch (sv_seg b x)))"])
        (simp add: doFreeSegment_def keepable_def Let_def upd_def toCached_def ctrl_last split: if_splits)
  qed
qed

lemma doFree_drop:
  "\<not> keepable b x \<Longrightarrow> doFreeSegment x prefetch b = doPurgeSegment x (upd x (\<lambda>g. g\<lparr>sg_isSubmitted := True\<rparr>) b)"
  by (auto simp: doFreeSegment_def keepable_def Let_def)

lemma doFree_rel:
  assumes b: "buffer_rel b F S" and x: "x < sv_numSegments b" "x \<notin> set F" "x \<notin> set S"
  shows "buffer_rel (doFreeSegment x prefetch b)
    (fst (free_lists b x prefetch (F, S))) (snd (free_lists b x prefetch (F, S)))"
proof -
  have u: "seg_used (sv_cookie b) x (sv_seg b x)" by (rule rel_used [OF b x])
  show ?thesis
  proof (cases "keepable b x")
    case False
    have "buffer_rel (upd x (\<lambda>g. g\<lparr>sg_isSubmitted := True\<rparr>) b) F S"
      by (rule buffer_rel_upd [OF b x(2,3)]) (use u in \<open>simp add: seg_used_def seg_ident_def\<close>)
    then show ?thesis
      using False x purge_rel by (simp add: doFree_drop free_lists_def)
  next
    case True
    let ?t = "toCached (sv_cookie b) x prefetch"
    obtain c where d: "doFreeSegment x prefetch b = addStandbySegment x ((upd x ?t b)\<lparr>sv_ctrl := c\<rparr>)"
      using doFree_keep [OF True] by blast
    let ?b = "(upd x ?t b)\<lparr>sv_ctrl := c\<rparr>"
    have r: "buffer_rel ?b F S"
      using buffer_rel_upd [OF b x(2,3), of ?t] toCached_used [OF u] by simp
    have cd: "seg_cached (sv_cookie ?b) x (sv_seg ?b x)"
      using toCached_cached [OF u] True by (simp add: keepable_def)
    have keys: "segKey (sv_seg ?b y) = segKey (sv_seg b y)" for y
      by (simp add: toCached_key)
    have "sv_enableCache ?b" using True by (simp add: keepable_def)
    note a = addStandby_rel [OF r _ x(2,3) cd this]
    show ?thesis
      using a x True unfolding d keys by (auto simp: free_lists_def toCached_front split: if_splits)
  qed
qed

section \<open>Guards\<close>

lemma ring_next: "ring sg S \<Longrightarrow> x \<in> set S \<Longrightarrow> sg_next (sg x) \<noteq> None"
proof -
  assume r: "ring sg S" and "x \<in> set S"
  then obtain A B where "S = A @ x # B" by (meson split_list)
  then have r': "ring sg (x # (B @ A))" using r ring_rotate [of sg A "x # B"] by simp
  show ?thesis
  proof (cases "B @ A = []")
    case True
    then show ?thesis using r' by (simp add: ring_single)
  next
    case False
    from ring_ends [OF r' this] show ?thesis by simp
  qed
qed

text \<open>The test of the public operations tells the segments in use from the others.\<close>

lemma guard_in_use:
  assumes "buffer_rel b F S" and "s < sv_numSegments b"
  shows "isSet (sg_flags (sv_seg b s)) SgfInUse \<and> sg_next (sv_seg b s) = None \<longleftrightarrow> s \<notin> set F \<and> s \<notin> set S"
  using assms rel_used [OF assms] ring_next [of "sv_seg b" S s]
  by (auto simp: buffer_rel_def seg_used_def seg_free_def)

section \<open>Allocation\<close>

definition prepared :: "stream_ref option \<Rightarrow> u32 \<Rightarrow> server_buffer \<Rightarrow> nat \<Rightarrow> bool" where
  "prepared stream sqn b s \<longleftrightarrow>
     s < sv_numSegments b \<and> sg_flags (sv_seg b s) = SgfInUse \<and> sg_stream (sv_seg b s) = stream \<and>
     sg_sequenceNumber (sv_seg b s) = sqn \<and> \<not> sg_isSubmitted (sv_seg b s) \<and>
     sv_ctrl b s = sg_control (sv_seg b s) \<and>
     testControlCookie (sv_cookie b) (sv_ctrl b s) s (sg_flags (sv_seg b s)) \<and>
     ce_link (sv_ctrl b s) = \<lparr>ln_stream = (case stream of None \<Rightarrow> INVALID_STREAM_ID | Some st \<Rightarrow> sr_id st),
                              ln_sequenceNumber = sqn\<rparr>"

lemma prepare_rel:
  assumes b: "buffer_rel b F S" and x: "x < sv_numSegments b" "x \<notin> set F" "x \<notin> set S"
    and f: "sg_flags (sv_seg b x) = SgfInUse" "\<not> sg_isSubmitted (sv_seg b x)"
  shows "buffer_rel (prepareSegment x stream sqn now b) F S \<and>
    prepared stream sqn (prepareSegment x stream sqn now b) x"
proof -
  have u: "seg_used (sv_cookie b) x (sv_seg b x)" by (rule rel_used [OF b x])
  have "buffer_rel (prepareSegment x stream sqn now b) F S"
    unfolding prepareSegment_def Let_def
    by (rule buffer_rel_upd) (use b x u f in \<open>auto simp: seg_used_def seg_ident_def\<close>)
  moreover have "prepared stream sqn (prepareSegment x stream sqn now b) x"
    using x f by (simp add: prepared_def prepareSegment_def Let_def testControlCookie_def)
  ultimately show ?thesis ..
qed

lemma evict_submitted:
  "evictFromStandbyList b = (Some x, b') \<Longrightarrow> \<not> sg_isSubmitted (sv_seg b' x)"
  by (auto simp: evictFromStandbyList_def dequeueFromStandbyList_def Let_def split: option.splits prod.splits)

definition alloc_lists :: "nat list \<times> nat list \<Rightarrow> (nat \<times> nat list \<times> nat list) option" where
  "alloc_lists FS =
     (case FS of
        (x # F, S) \<Rightarrow> Some (x, F, S)
      | ([], S) \<Rightarrow> if S = [] then None else Some (last S, [], butlast S))"

text \<open>One try: the head of the free list, else the least recently used cached segment.\<close>

lemma tryAllocate_Some:
  assumes b: "buffer_rel b F S" and a: "alloc_lists (F, S) = Some (x, F', S')"
  shows "\<exists>b'. tryAllocateFreeSegment m env stream sqn now prefetch t b = (Some x, b') \<and>
    buffer_rel b' F' S' \<and> prepared stream sqn b' x \<and> x \<notin> set F' \<and> x \<notin> set S'"
proof (cases F)
  case (Cons y F0)
  then have e: "y = x" "F0 = F'" "S' = S" using a by (auto simp: alloc_lists_def)
  have b2: "buffer_rel b (x # F') S'" using b Cons e by simp
  obtain b1 where d: "dequeueFromFreeList b = (Some x, b1)" "buffer_rel b1 F' S'"
    "sg_flags (sv_seg b1 x) = SgfInUse" "\<not> sg_isSubmitted (sv_seg b1 x)"
    using dequeueFree_Cons [OF b2] by blast
  have "sv_numSegments b1 = sv_numSegments b"
    using d(1) by (auto simp: dequeueFromFreeList_def split: option.splits)
  then have x: "x < sv_numSegments b1" "x \<notin> set F'" "x \<notin> set S'"
    using b2 by (auto simp: buffer_rel_def)
  show ?thesis
    using prepare_rel [OF d(2) x d(3,4)] d(1) x
    by (subst tryAllocateFreeSegment.simps) (simp add: Let_def)
next
  case Nil
  then have "S \<noteq> []" "x = last S" "F' = []" "S' = butlast S"
    using a by (auto simp: alloc_lists_def split: if_splits)
  then have e: "S = S' @ [x]" "F' = []" by simp_all
  have b2: "buffer_rel b F' (S' @ [x])" using b Nil e by simp
  have n: "dequeueFromFreeList b = (None, b)" using dequeueFree_Nil b Nil by blast
  obtain b1 where d: "evictFromStandbyList b = (Some x, b1)" "buffer_rel b1 F' S'"
    "sg_flags (sv_seg b1 x) = SgfInUse"
    using evict_rel [OF b2] by blast
  have "sv_numSegments b1 = sv_numSegments b"
    using d(1) by (auto simp: evictFromStandbyList_def findStandbySegment_def notifyEncoderCacheClosed_def
        Let_def split: option.splits)
  then have x: "x < sv_numSegments b1" "x \<notin> set F'" "x \<notin> set S'"
    using b2 by (auto simp: buffer_rel_def)
  show ?thesis
    using prepare_rel [OF d(2) x d(3) evict_submitted [OF d(1)]] d(1) n x
    by (subst tryAllocateFreeSegment.simps) (simp add: Let_def)
qed

lemma tryAllocate_None:
  assumes b: "buffer_rel b [] []"
  shows "tryAllocateFreeSegment m env stream sqn now prefetch t b =
    (if prefetch \<or> m \<le> t then (None, b)
     else tryAllocateFreeSegment m env stream sqn now prefetch (Suc t) (env t b))"
  using dequeueFree_Nil [OF b] evict_Nil [OF b]
  by (subst tryAllocateFreeSegment.simps) (simp add: Let_def handleContention_def)

lemma alloc_lists_None: "alloc_lists (F, S) = None \<longleftrightarrow> F = [] \<and> S = []"
  by (auto simp: alloc_lists_def split: list.splits)

text \<open>What other threads do keeps the buffer well-formed.\<close>

definition wf_buffer :: "server_buffer \<Rightarrow> bool" where
  "wf_buffer b \<longleftrightarrow> (\<exists>F S. buffer_rel b F S)"

lemma wf_buffer_data [simp]: "wf_buffer (b\<lparr>sv_data := m\<rparr>) = wf_buffer b"
  by (simp add: wf_buffer_def)

definition keeps_wf :: "(nat \<Rightarrow> server_buffer \<Rightarrow> server_buffer) \<Rightarrow> bool" where
  "keeps_wf env \<longleftrightarrow> (\<forall>t b. wf_buffer b \<longrightarrow> wf_buffer (env t b))"

lemma tryAllocate_wf:
  assumes "wf_buffer b" and "keeps_wf env"
  shows "\<exists>F S. case tryAllocateFreeSegment m env stream sqn now prefetch t b of (r, b') \<Rightarrow>
    buffer_rel b' F S \<and> (\<forall>x. r = Some x \<longrightarrow> prepared stream sqn b' x \<and> x \<notin> set F \<and> x \<notin> set S)"
  using assms
proof (induction "m - t" arbitrary: t b rule: less_induct)
  case less
  obtain F S where b: "buffer_rel b F S" using less.prems(1) by (auto simp: wf_buffer_def)
  show ?case
  proof (cases "alloc_lists (F, S)")
    case None
    then have e: "F = []" "S = []" by (simp_all add: alloc_lists_None)
    note b' = b [unfolded e]
    show ?thesis
    proof (cases "prefetch \<or> m \<le> t")
      case True
      then show ?thesis using tryAllocate_None [OF b', of m env stream sqn now prefetch t] b' by auto
    next
      case False
      have "wf_buffer (env t b)" using less.prems by (simp add: keeps_wf_def)
      then have "\<exists>F S. case tryAllocateFreeSegment m env stream sqn now prefetch (Suc t) (env t b) of
          (r, b') \<Rightarrow> buffer_rel b' F S \<and>
            (\<forall>x. r = Some x \<longrightarrow> prepared stream sqn b' x \<and> x \<notin> set F \<and> x \<notin> set S)"
        using False less.prems(2) by (intro less.hyps) auto
      then show ?thesis using tryAllocate_None [OF b', of m env stream sqn now prefetch t] False by simp
    qed
  next
    case (Some a)
    then obtain x F' S' where "alloc_lists (F, S) = Some (x, F', S')" by (cases a) auto
    from tryAllocate_Some [OF b this, of m env stream sqn now prefetch t] show ?thesis
      by (elim exE) (intro exI [of _ F'] exI [of _ S'], simp)
  qed
qed

section \<open>Flushing\<close>

definition flushMatch :: "u32 \<Rightarrow> server_buffer \<Rightarrow> nat \<Rightarrow> bool" where
  "flushMatch store b x \<longleftrightarrow>
     store = INVALID_STORE_ID \<or> sr_store (the (sg_stream (sv_seg b x))) = store"

lemma flushOne_skip: "\<not> flushMatch store b x \<Longrightarrow> flushOne store x b = b"
  by (simp add: flushOne_def flushMatch_def)

lemma flushOne_rel:
  assumes b: "buffer_rel b F (A @ x # B)" and m: "flushMatch store b x"
  shows "buffer_rel (flushOne store x b) (x # F) (A @ B) \<and>
    (\<forall>y. y \<noteq> x \<longrightarrow> sg_stream (sv_seg (flushOne store x b) y) = sg_stream (sv_seg b y)) \<and>
    sv_numSegments (flushOne store x b) = sv_numSegments b"
proof -
  let ?b1 = "notifyEncoderCacheClosed x b"
  let ?b2 = "?b1\<lparr>sv_standbyIndex := (sv_standbyIndex b)(segKey (sv_seg b x) := None)\<rparr>"
  let ?b3 = "dequeueFromStandbyList x ?b2"
  have idx: "sv_standbyIndex b (segKey (sv_seg b x)) = Some x"
    using rel_index [OF b] by simp
  have f: "findStandbySegment (segmentLink (sv_seg ?b1 x)) True ?b1 = (Some x, ?b2)"
    using idx by (simp add: findStandbySegment_def segKey_def notifyEncoderCacheClosed_def)
  have d: "flushOne store x b = doPurgeSegment x ?b3"
    using m f by (simp add: flushOne_def flushMatch_def Let_def)
  have r: "buffer_rel ?b3 F (A @ B)"
    by (rule dequeueStandby_rel [OF b]) (simp_all add: notifyEncoderCacheClosed_def)
  have "x < sv_numSegments ?b3" "x \<notin> set F" "x \<notin> set (A @ B)"
    using b by (auto simp: buffer_rel_def notifyEncoderCacheClosed_def)
  from purge_rel [OF r this] have "buffer_rel (flushOne store x b) (x # F) (A @ B)" unfolding d .
  moreover have "sg_stream (sv_seg (flushOne store x b) y) = sg_stream (sv_seg b y)" if "y \<noteq> x" for y
    using dequeueStandby_fields [of x ?b2 y] that
    by (simp add: d doPurgeSegment_def enqueueToFreeList_def notifyEncoderCacheClosed_def Let_def)
  moreover have "sv_numSegments (flushOne store x b) = sv_numSegments b"
    by (simp add: d doPurgeSegment_def enqueueToFreeList_def notifyEncoderCacheClosed_def Let_def)
  ultimately show ?thesis by blast
qed

lemma ring_next_hd:
  assumes "buffer_rel b F (A @ x # y # B)"
  shows "sg_next (sv_seg b x) = Some y"
proof -
  have "ring (sv_seg b) (A @ x # y # B)" using assms by (simp add: buffer_rel_def)
  then have r: "ring (sv_seg b) (x # (y # B @ A))" using ring_rotate [of _ A "x # y # B"] by simp
  from ring_ends [OF r] show ?thesis by simp
qed

text \<open>
  The loop from \<open>x\<close> on: the segments \<open>A\<close> before \<open>x\<close> were kept, the matching ones from \<open>x\<close>
  on go to the free list. The loop terminates, because the \<open>next\<close> pointer is read before
  the segment is removed and \<open>end\<close> is visited last.
\<close>

lemma flushLoop_rel:
  assumes "buffer_rel b F (A @ x # B)"
  shows "\<exists>b'. flushLoop store (last (x # B)) x b = Some b' \<and>
    buffer_rel b' (rev (filter (flushMatch store b) (x # B)) @ F)
      (A @ filter (\<lambda>y. \<not> flushMatch store b y) (x # B))"
  using assms
proof (induction B arbitrary: b F A x)
  case Nil
  have l: "flushLoop store (last [x]) x b = Some (flushOne store x b)"
    by (subst flushLoop.simps) (simp add: Let_def)
  show ?case
  proof (cases "flushMatch store b x")
    case True
    then show ?thesis using l flushOne_rel [OF Nil True] by simp
  next
    case False
    then show ?thesis using l flushOne_skip [OF False] Nil by simp
  qed
next
  case (Cons y B)
  let ?b = "flushOne store x b"
  have dist: "x \<notin> set (y # B)" using Cons.prems by (auto simp: buffer_rel_def)
  then have "x \<noteq> last (y # B)" using last_in_set [of "y # B"] by auto
  then have l: "flushLoop store (last (x # y # B)) x b = flushLoop store (last (y # B)) y ?b"
    using ring_next_hd [OF Cons.prems] by (subst flushLoop.simps) (simp add: Let_def)
  show ?case
  proof (cases "flushMatch store b x")
    case True
    note r = flushOne_rel [OF Cons.prems True]
    have m: "flushMatch store ?b z = flushMatch store b z" if "z \<in> set (y # B)" for z
    proof -
      have "z \<noteq> x" using that dist by auto
      then show ?thesis using r by (simp add: flushMatch_def)
    qed
    have eq: "filter (flushMatch store ?b) (y # B) = filter (flushMatch store b) (y # B)"
      "filter (\<lambda>z. \<not> flushMatch store ?b z) (y # B) = filter (\<lambda>z. \<not> flushMatch store b z) (y # B)"
      by (rule filter_cong [OF refl]; use m in simp)+
    from Cons.IH [of ?b "x # F" A y] r show ?thesis
      unfolding l eq using True by simp
  next
    case False
    have "buffer_rel b F ((A @ [x]) @ y # B)" using Cons.prems by simp
    from Cons.IH [OF this] show ?thesis
      unfolding l flushOne_skip [OF False] using False by simp
  qed
qed

section \<open>Submitting\<close>

text \<open>
  The segment in use may get any control element that still names its owner, as long as a
  read-only segment keeps a valid cookie.
\<close>

lemma used_control:
  assumes "seg_used secret x g" and "\<not> isSet (sg_flags g) SgfReadOnly"
    and "\<And>st. sg_stream g = Some st \<Longrightarrow>
      ce_link c = \<lparr>ln_stream = sr_id st, ln_sequenceNumber = sg_sequenceNumber g\<rparr>"
  shows "seg_used secret x (g\<lparr>sg_control := c\<rparr>)"
  using assms by (auto simp: seg_used_def seg_ident_def)

lemma used_submitted [simp]:
  "seg_used secret x (g\<lparr>sg_isSubmitted := p\<rparr>) = seg_used secret x g"
  by (simp add: seg_used_def seg_ident_def)

lemma fixControl_link: "fixControl st mem now c = (r, c') \<Longrightarrow> ce_link c' = ce_link c"
  by (auto simp: fixControl_def Let_def split: if_splits)

lemma fixControl_raw: "fixControl st mem now c = (r, c') \<Longrightarrow> ce_rawEntryCount c' = ce_rawEntryCount c"
  by (auto simp: fixControl_def Let_def split: if_splits)

lemma doFree_wf:
  "buffer_rel b F S \<Longrightarrow> x < sv_numSegments b \<Longrightarrow> x \<notin> set F \<Longrightarrow> x \<notin> set S \<Longrightarrow>
   wf_buffer (doFreeSegment x prefetch b)"
  using doFree_rel unfolding wf_buffer_def by blast

lemma doPurge_wf:
  "buffer_rel b F S \<Longrightarrow> x < sv_numSegments b \<Longrightarrow> x \<notin> set F \<Longrightarrow> x \<notin> set S \<Longrightarrow>
   wf_buffer (doPurgeSegment x b)"
  using purge_rel unfolding wf_buffer_def by blast

lemma free_lists_mem:
  "x \<in> set (fst (free_lists b x prefetch FS)) \<union> set (snd (free_lists b x prefetch FS))"
  by (cases FS) (simp add: free_lists_def)

text \<open>The two ends of a completed submission: the segment is free or cached.\<close>

definition released :: "server_buffer \<Rightarrow> nat \<Rightarrow> bool" where
  "released b x \<longleftrightarrow> (\<exists>F S. buffer_rel b F S \<and> x \<in> set F \<union> set S)"

lemma doFree_released:
  "buffer_rel b F S \<Longrightarrow> x < sv_numSegments b \<Longrightarrow> x \<notin> set F \<Longrightarrow> x \<notin> set S \<Longrightarrow>
   released (doFreeSegment x prefetch b) x"
  using doFree_rel free_lists_mem unfolding released_def by blast

lemma doPurge_released:
  "buffer_rel b F S \<Longrightarrow> x < sv_numSegments b \<Longrightarrow> x \<notin> set F \<Longrightarrow> x \<notin> set S \<Longrightarrow>
   released (doPurgeSegment x b) x"
  using purge_rel unfolding released_def by fastforce

lemma seg_swap [simp]:
  "(g :: segment)\<lparr>sg_isSubmitted := p, sg_control := c\<rparr> = g\<lparr>sg_control := c, sg_isSubmitted := p\<rparr>"
  by (rule segment.equality) simp_all

text \<open>
  The buffer in the middle of a submission: only the private control element and the mark of
  the segment have changed.
\<close>

definition staged :: "server_buffer \<Rightarrow> server_buffer \<Rightarrow> nat \<Rightarrow> bool \<Rightarrow> bool" where
  "staged b b1 s p \<longleftrightarrow>
     (\<exists>c. sv_seg b1 = (sv_seg b)(s := (sv_seg b s)\<lparr>sg_control := c, sg_isSubmitted := p\<rparr>) \<and>
          ce_link c = ce_link (sg_control (sv_seg b s)) \<and>
          (isSet (sg_flags (sv_seg b s)) SgfReadOnly \<longrightarrow> c = sg_control (sv_seg b s))) \<and>
     sv_numSegments b1 = sv_numSegments b \<and> sv_freeHead b1 = sv_freeHead b \<and>
     sv_standbyHead b1 = sv_standbyHead b \<and> sv_standbyIndex b1 = sv_standbyIndex b \<and>
     sv_cookie b1 = sv_cookie b \<and> sv_enableCache b1 = sv_enableCache b"

lemma seg_unmarked:
  "\<not> sg_isSubmitted g \<Longrightarrow> g\<lparr>sg_control := c, sg_isSubmitted := False\<rparr> = g\<lparr>sg_control := c\<rparr>"
  by (rule segment.equality) simp_all

lemma stagedI:
  assumes "sv_seg b1 = (sv_seg b)(s := (sv_seg b s)\<lparr>sg_control := c, sg_isSubmitted := p\<rparr>)"
    and "ce_link c = ce_link (sg_control (sv_seg b s))"
    and "isSet (sg_flags (sv_seg b s)) SgfReadOnly \<Longrightarrow> c = sg_control (sv_seg b s)"
    and "sv_numSegments b1 = sv_numSegments b" "sv_freeHead b1 = sv_freeHead b"
      "sv_standbyHead b1 = sv_standbyHead b" "sv_standbyIndex b1 = sv_standbyIndex b"
      "sv_cookie b1 = sv_cookie b" "sv_enableCache b1 = sv_enableCache b"
  shows "staged b b1 s p"
  unfolding staged_def by (intro conjI exI [of _ c]) (use assms in simp_all)

lemma staged_rel:
  assumes b: "buffer_rel b F S" and x: "s < sv_numSegments b" "s \<notin> set F" "s \<notin> set S"
    and g: "staged b b1 s p"
  shows "buffer_rel b1 F S"
proof -
  have u: "seg_used (sv_cookie b) s (sv_seg b s)" by (rule rel_used [OF b x])
  obtain c where c: "sv_seg b1 = (sv_seg b)(s := (sv_seg b s)\<lparr>sg_control := c, sg_isSubmitted := p\<rparr>)"
    "ce_link c = ce_link (sg_control (sv_seg b s))"
    "isSet (sg_flags (sv_seg b s)) SgfReadOnly \<longrightarrow> c = sg_control (sv_seg b s)"
    using g by (auto simp: staged_def)
  have "seg_used (sv_cookie b) s ((sv_seg b s)\<lparr>sg_control := c\<rparr>)"
    using u c(2,3) by (auto simp: seg_used_def seg_ident_def)
  then have "buffer_rel (upd s (\<lambda>_. (sv_seg b s)\<lparr>sg_control := c, sg_isSubmitted := p\<rparr>) b) F S"
    by (intro buffer_rel_upd [OF b x(2,3)]) simp
  then show ?thesis by (rule buffer_rel_frame) (use g c in \<open>simp_all add: staged_def\<close>)
qed

lemma staged_seg:
  "staged b b1 s p \<Longrightarrow> sg_isSubmitted (sv_seg b1 s) = p \<and> sv_numSegments b1 = sv_numSegments b"
  by (auto simp: staged_def)

text \<open>An empty segment is dropped outside the \<open>try\<close> block: if the encoder throws, the mark stays.\<close>

definition submittable :: "nat \<Rightarrow> server_buffer \<Rightarrow> bool" where
  "submittable s b \<longleftrightarrow> sg_stream (sv_seg b s) \<noteq> None \<and> isSet (sg_flags (sv_seg b s)) SgfInUse \<and>
     sg_next (sv_seg b s) = None \<and> \<not> sg_isSubmitted (sv_seg b s)"

definition dropThrows :: "nat \<Rightarrow> write_result \<Rightarrow> server_buffer \<Rightarrow> bool" where
  "dropThrows s wr b \<longleftrightarrow>
     (let g = sv_seg b s; c = (sv_ctrl b s)\<lparr>ce_link := \<lparr>ln_stream = sr_id (the (sg_stream g)), ln_sequenceNumber = sg_sequenceNumber g\<rparr>\<rparr>
      in \<not> isSet (sg_flags g) SgfReadOnly \<and> ce_rawEntryCount c = 0 \<and> (case wr of WriteThrow e \<Rightarrow> True | _ \<Rightarrow> False) \<and>
         testControlCookie (sv_cookie b) c s (sg_flags g))"

text \<open>The outcomes of a submission.\<close>

lemma doSubmit_cases:
  assumes b: "buffer_rel b F S" and x: "s < sv_numSegments b" "s \<notin> set F" "s \<notin> set S"
    and st: "sg_stream (sv_seg b s) = Some st" and ns: "\<not> sg_isSubmitted (sv_seg b s)"
  obtains (Failed) e b1 where "doSubmitSegment s now wr b = (Inl e, b1)" "staged b b1 s False" "\<not> dropThrows s wr b"
  | (DropFailed) e b1 where "doSubmitSegment s now wr b = (Inl e, b1)" "staged b b1 s True" "dropThrows s wr b"
      "\<not> isSet (sg_flags (sv_seg b s)) SgfReadOnly" "ce_rawEntryCount (sg_control (sv_seg b1 s)) = 0"
  | (Pending) b1 where "doSubmitSegment s now wr b = (Inr (False, None), b1)" "staged b b1 s True"
      "\<not> isSet (sg_flags (sv_seg b s)) SgfReadOnly" "wr = WritePending"
  | (Freed) loc b1 where "doSubmitSegment s now wr b = (Inr (True, loc), doFreeSegment s False b1)"
      "staged b b1 s True" "loc = None \<longleftrightarrow> isSet (sg_flags (sv_seg b s)) SgfReadOnly"
  | (Purged) b1 where "doSubmitSegment s now wr b = (Inr (True, None), doPurgeSegment s b1)"
      "staged b b1 s True" "\<not> isSet (sg_flags (sv_seg b s)) SgfReadOnly"
proof -
  let ?g = "sv_seg b s"
  have u: "seg_used (sv_cookie b) s ?g" by (rule rel_used [OF b x])
  note d = doSubmitSegment_def Let_def
  show thesis
  proof (cases "isSet (sg_flags ?g) SgfReadOnly")
    case True
    have same: "(sv_seg b)(s := ?g\<lparr>sg_control := sg_control ?g, sg_isSubmitted := False\<rparr>) = sv_seg b"
      using ns by (intro ext) simp
    show thesis
    proof (cases "testControlCookie (sv_cookie b) (sv_ctrl b s) s (sg_flags ?g)")
      case ck: True
      let ?b1 = "upd s (\<lambda>g. g\<lparr>sg_isSubmitted := True\<rparr>) b"
      have g: "staged b ?b1 s True" by (rule stagedI [where c = "sg_control ?g"]) simp_all
      show thesis by (rule Freed [OF _ g, of None]) (use True ck in \<open>simp_all add: d\<close>)
    next
      case ck: False
      have g: "staged b b s False" by (rule stagedI [OF same [symmetric]]) simp_all
      show thesis by (rule Failed [OF _ g]) (use True ck in \<open>simp_all add: d dropThrows_def\<close>)
    qed
  next
    case nr: False
    let ?c1 = "(sv_ctrl b s)\<lparr>ce_link := \<lparr>ln_stream = sr_id st, ln_sequenceNumber = sg_sequenceNumber ?g\<rparr>\<rparr>"
    have l1: "ce_link ?c1 = ce_link (sg_control ?g)" using u st by (simp add: seg_used_def seg_ident_def)
    let ?b1 = "upd s (\<lambda>g. g\<lparr>sg_control := (sv_ctrl b s)
         \<lparr>ce_link := \<lparr>ln_stream = sr_id st, ln_sequenceNumber = sg_sequenceNumber g\<rparr>\<rparr>\<rparr>) b"
    let ?b2 = "upd s (\<lambda>g. g\<lparr>sg_isSubmitted := True\<rparr>) ?b1"
    show thesis
    proof (cases "testControlCookie (sv_cookie b) ?c1 s (sg_flags ?g)")
      case False
      have "staged b ?b1 s False" by (rule stagedI [OF _ l1]) (use nr in \<open>simp_all add: seg_unmarked [OF ns]\<close>)
      from Failed [OF _ this] show thesis using nr st False by (simp add: d dropThrows_def)
    next
      case ck: True
      show thesis
      proof (cases "ce_rawEntryCount ?c1 = 0")
        case True
        let ?b3 = "?b2\<lparr>sv_dropped := sv_dropped ?b2 @ [(st, s)]\<rparr>"
        have g: "staged b ?b3 s True" by (rule stagedI [OF _ l1]) (use nr in simp_all)
        show thesis
        proof (cases wr)
          case (WriteThrow e)
          have g2: "staged b ?b2 s True" by (rule stagedI [OF _ l1]) (use nr in simp_all)
          show thesis by (rule DropFailed [OF _ g2 _ nr]) (use nr ck True st WriteThrow in \<open>simp_all add: d dropThrows_def\<close>)
        qed (rule Purged [OF _ g nr]; use nr ck True st in \<open>simp add: d\<close>)+
      next
        case nz: False
        then have nz': "ce_rawEntryCount (sv_ctrl b s) \<noteq> 0" by simp
        obtain r c3 where fx: "fixControl st (sv_data b s) now ?c1 = (r, c3)" by fastforce
        have l3: "ce_link c3 = ce_link (sg_control ?g)" using fixControl_link [OF fx] l1 by simp
        let ?c4 = "c3\<lparr>ce_cookie := computeControlCookie (sv_cookie b) c3 s (sg_flags ?g)\<rparr>"
        have l4: "ce_link ?c4 = ce_link (sg_control ?g)" using l3 by simp
        let ?b3 = "upd s (\<lambda>g. g\<lparr>sg_control := ?c4\<rparr>) ?b2"
        have g3: "staged b ?b3 s True" by (rule stagedI [OF _ l4]) (use nr in simp_all)
        show thesis
        proof (cases r)
          case (Inl e)
          have "staged b (upd s (\<lambda>g. g\<lparr>sg_control := c3, sg_isSubmitted := False\<rparr>) ?b2) s False"
            by (rule stagedI [OF _ l3]) (use nr in simp_all)
          from Failed [OF _ this] show thesis using nr ck nz' st fx Inl by (simp add: d dropThrows_def)
        next
          case (Inr w)
          note d' = nr ck nz' st fx Inr d
          show thesis
          proof (cases wr)
            case (WriteDone loc)
            then show thesis
              using Freed [OF _ g3, of loc] Purged [OF _ g3 nr] nr by (cases loc) (simp_all add: d')
          next
            case WritePending
            then show thesis using Pending [OF _ g3 nr] by (simp add: d')
          next
            case (WriteThrow e)
            have "staged b (upd s (\<lambda>g. g\<lparr>sg_isSubmitted := False\<rparr>) ?b3) s False"
              by (rule stagedI [OF _ l4]) (use nr in simp_all)
            from Failed [OF _ this] show thesis using WriteThrow nz' by (simp add: d' dropThrows_def)
          qed
        qed
      qed
    qed
  qed
qed

lemma doSubmit_rel:
  assumes b: "buffer_rel b F S" and x: "s < sv_numSegments b" "s \<notin> set F" "s \<notin> set S"
    and st: "sg_stream (sv_seg b s) = Some st" and ns: "\<not> sg_isSubmitted (sv_seg b s)"
  shows "case doSubmitSegment s now wr b of
      (Inl e, b') \<Rightarrow> buffer_rel b' F S \<and> (sg_isSubmitted (sv_seg b' s) \<longleftrightarrow> dropThrows s wr b)
    | (Inr (False, loc), b') \<Rightarrow> buffer_rel b' F S \<and> sg_isSubmitted (sv_seg b' s) \<and> wr = WritePending
    | (Inr (True, loc), b') \<Rightarrow> released b' s"
proof (rule doSubmit_cases [OF b x st ns, of now wr])
  fix loc b1
  assume "doSubmitSegment s now wr b = (Inr (True, loc), doFreeSegment s False b1)" and g: "staged b b1 s True"
  then show ?thesis using doFree_released [OF staged_rel [OF b x g] _ x(2,3)] x staged_seg [OF g] by simp
next
  fix b1
  assume "doSubmitSegment s now wr b = (Inr (True, None), doPurgeSegment s b1)" and g: "staged b b1 s True"
  then show ?thesis using doPurge_released [OF staged_rel [OF b x g] _ x(2,3)] x staged_seg [OF g] by simp
qed (use staged_rel [OF b x] staged_seg in auto)

section \<open>Requesting\<close>

text \<open>The outcome of a request on the lists: a cached copy, else an allocation.\<close>

definition request_key :: "stream_ref option \<Rightarrow> u32 \<Rightarrow> link_key option" where
  "request_key stream sqn =
     map_option (\<lambda>st. linkKey \<lparr>sk_store = sr_store st, sk_stream = sr_id st, sk_sequenceNumber = sqn\<rparr>) stream"

definition cached_at :: "server_buffer \<Rightarrow> nat list \<Rightarrow> stream_ref option \<Rightarrow> u32 \<Rightarrow> nat option" where
  "cached_at b S stream sqn = find (\<lambda>y. Some (segKey (sv_seg b y)) = request_key stream sqn) S"

lemma loadControl_link [simp]: "ce_link (loadControl loc c) = ce_link c"
  by (simp add: loadControl_def Let_def)

lemma doRequest_hit:
  assumes b: "buffer_rel b F (A @ x # B)"
    and key: "segKey (sv_seg b x) = linkKey \<lparr>sk_store = sr_store st, sk_stream = sr_id st, sk_sequenceNumber = sqn\<rparr>"
  shows "\<exists>b'. doRequestSegment e (Some st) sqn flags location prefetch rd b = (Inr (True, Some x), b') \<and>
    buffer_rel b' F (A @ B) \<and> same_static (sv_seg b' x) (sv_seg b x) \<and> \<not> sg_isSubmitted (sv_seg b' x)"
  using remove_hit [OF b key] by (auto simp: doRequestSegment_def)

lemma doRequest_miss:
  assumes "\<And>st. stream = Some st \<Longrightarrow>
      removeStandbySegment \<lparr>sk_store = sr_store st, sk_stream = sr_id st, sk_sequenceNumber = sqn\<rparr> b = (None, b)"
    and "tryAllocateFreeSegment (rq_maxRetryCount e) (rq_env e) stream sqn (rq_now e) prefetch 1 b = (r, b1)"
  shows "doRequestSegment e stream sqn flags location prefetch rd b =
    (case r of
       None \<Rightarrow> (Inr (True, None), b1)
     | Some s \<Rightarrow>
        (case location of
           None \<Rightarrow> (Inr (True, Some s), setupWrite s (stream = None) b1)
         | Some loc \<Rightarrow>
            (let b4 = setupRead s flags loc b1 in
             case rd of
               ReadDone mem \<Rightarrow> (Inr (True, Some s), b4\<lparr>sv_data := (sv_data b4)(s := mem)\<rparr>)
             | ReadPending \<Rightarrow> (Inr (False, Some s), b4)
             | ReadThrow ex \<Rightarrow> (Inl ex, doPurgeSegment s b4))))"
proof -
  have "(case stream of None \<Rightarrow> (None, b)
      | Some st \<Rightarrow> removeStandbySegment \<lparr>sk_store = sr_store st, sk_stream = sr_id st, sk_sequenceNumber = sqn\<rparr> b) = (None, b)"
    using assms(1) by (cases stream) simp_all
  then show ?thesis
    using assms(2)
    by (cases r; cases location; cases rd) (simp_all add: doRequestSegment_def Let_def)
qed

lemma setupRead_rel:
  assumes b: "buffer_rel b F S" and x: "s < sv_numSegments b" "s \<notin> set F" "s \<notin> set S"
    and p: "prepared (Some st) sqn b s"
  shows "buffer_rel (setupRead s flags loc b) F S \<and>
    sv_numSegments (setupRead s flags loc b) = sv_numSegments b \<and>
    sg_stream (sv_seg (setupRead s flags loc b) s) = Some st \<and>
    sg_sequenceNumber (sv_seg (setupRead s flags loc b) s) = sqn \<and>
    ce_link (sg_control (sv_seg (setupRead s flags loc b) s)) = \<lparr>ln_stream = sr_id st, ln_sequenceNumber = sqn\<rparr>"
proof -
  have u: "seg_used (sv_cookie b) s (sv_seg b s)" by (rule rel_used [OF b x])
  define f where "f = sg_flags (sv_seg b s) OR SgfReadOnly OR
    (if sv_enableCache b then SgfCacheable OR
       (if isSet flags SafRandomAccess \<or> isSet flags SafSequentialScan then SgfLowPriority else 0) else 0)"
  define c where "c = (loadControl loc (sv_ctrl b s))
    \<lparr>ce_cookie := computeControlCookie (sv_cookie b) (loadControl loc (sv_ctrl b s)) s f\<rparr>"
  have e: "setupRead s flags loc b =
      upd s (\<lambda>g. g\<lparr>sg_flags := f, sg_control := c\<rparr>) (b\<lparr>sv_ctrl := (sv_ctrl b)(s := c)\<rparr>)"
    by (rule server_buffer.equality)
      (simp_all add: setupRead_def Let_def upd_def c_def f_def or.assoc)
  have "isSet f SgfReadOnly" "isSet f SgfInUse" using u by (simp_all add: f_def seg_used_def)
  moreover have "computeControlCookie (sv_cookie b) c s f = ce_cookie c" by (simp add: c_def)
  ultimately have "seg_used (sv_cookie b) s ((sv_seg b s)\<lparr>sg_flags := f, sg_control := c\<rparr>)"
    using u p by (simp add: seg_used_def seg_ident_def testControlCookie_def prepared_def c_def)
  then have "buffer_rel (setupRead s flags loc b) F S"
    unfolding e by (intro buffer_rel_upd) (use b x in simp_all)
  then show ?thesis using p by (auto simp: e prepared_def c_def)
qed

lemma setupWrite_rel:
  assumes b: "buffer_rel b F S" and x: "s < sv_numSegments b" "s \<notin> set F" "s \<notin> set S"
    and p: "prepared stream sqn b s"
  shows "buffer_rel (setupWrite s (stream = None) b) F S \<and>
    sv_numSegments (setupWrite s (stream = None) b) = sv_numSegments b \<and>
    sg_stream (sv_seg (setupWrite s (stream = None) b) s) = stream \<and>
    sg_sequenceNumber (sv_seg (setupWrite s (stream = None) b) s) = sqn"
proof -
  have u: "seg_used (sv_cookie b) s (sv_seg b s)" by (rule rel_used [OF b x])
  have "buffer_rel (setupWrite s (stream = None) b) F S"
    using b x u p
    by (auto simp: setupWrite_def seg_used_def seg_ident_def prepared_def intro!: buffer_rel_upd)
  then show ?thesis using p by (simp add: setupWrite_def prepared_def)
qed

text \<open>A miss that is served at the first try.\<close>

lemma doRequest_prepared:
  assumes rm: "\<And>st. stream = Some st \<Longrightarrow>
      removeStandbySegment \<lparr>sk_store = sr_store st, sk_stream = sr_id st, sk_sequenceNumber = sqn\<rparr> b = (None, b)"
    and t: "tryAllocateFreeSegment (rq_maxRetryCount e) (rq_env e) stream sqn (rq_now e) prefetch 1 b = (Some x, b1)"
    and b1: "buffer_rel b1 F' S'" and p: "prepared stream sqn b1 x" and n: "x \<notin> set F'" "x \<notin> set S'"
    and loc: "location \<noteq> None \<longrightarrow> stream \<noteq> None"
  shows "case doRequestSegment e stream sqn flags location prefetch rd b of
      (Inl ex, b') \<Rightarrow> location \<noteq> None \<and> rd = ReadThrow ex \<and> buffer_rel b' (x # F') S'
    | (Inr (c, s), b') \<Rightarrow> s = Some x \<and> (c \<longleftrightarrow> location = None \<or> rd \<noteq> ReadPending) \<and> buffer_rel b' F' S' \<and>
        x < sv_numSegments b' \<and> x \<notin> set F' \<and> x \<notin> set S' \<and>
        sg_stream (sv_seg b' x) = stream \<and> sg_sequenceNumber (sv_seg b' x) = sqn"
proof -
  have x: "x < sv_numSegments b1" using p by (simp add: prepared_def)
  note d = doRequest_miss [OF rm t, of flags location rd]
  show ?thesis
  proof (cases location)
    case None
    then show ?thesis using d setupWrite_rel [OF b1 x n p] x n by simp
  next
    case (Some l)
    then obtain st where st: "stream = Some st" using loc by auto
    note r = setupRead_rel [OF b1 x n p [unfolded st], of flags l]
    have r': "buffer_rel (setupRead x flags l b1) F' S'" "x < sv_numSegments (setupRead x flags l b1)"
      using r x by simp_all
    show ?thesis
      using d r st Some x n purge_rel [OF r' n] by (cases rd) (simp_all add: Let_def)
  qed
qed

lemma doRequest_alloc:
  assumes b: "buffer_rel b F S"
    and miss: "\<And>st y. stream = Some st \<Longrightarrow> y \<in> set S \<Longrightarrow>
      segKey (sv_seg b y) \<noteq> linkKey \<lparr>sk_store = sr_store st, sk_stream = sr_id st, sk_sequenceNumber = sqn\<rparr>"
    and a: "alloc_lists (F, S) = Some (x, F', S')"
    and loc: "location \<noteq> None \<longrightarrow> stream \<noteq> None"
  shows "case doRequestSegment e stream sqn flags location prefetch rd b of
      (Inl ex, b') \<Rightarrow> location \<noteq> None \<and> rd = ReadThrow ex \<and> buffer_rel b' (x # F') S'
    | (Inr (c, s), b') \<Rightarrow> s = Some x \<and> (c \<longleftrightarrow> location = None \<or> rd \<noteq> ReadPending) \<and> buffer_rel b' F' S' \<and>
        x < sv_numSegments b' \<and> x \<notin> set F' \<and> x \<notin> set S' \<and>
        sg_stream (sv_seg b' x) = stream \<and> sg_sequenceNumber (sv_seg b' x) = sqn"
proof -
  obtain b1 where t: "tryAllocateFreeSegment (rq_maxRetryCount e) (rq_env e) stream sqn (rq_now e) prefetch 1 b = (Some x, b1)"
    and b1: "buffer_rel b1 F' S'" "prepared stream sqn b1 x" "x \<notin> set F'" "x \<notin> set S'"
    using tryAllocate_Some [OF b a] by blast
  have "removeStandbySegment \<lparr>sk_store = sr_store st, sk_stream = sr_id st, sk_sequenceNumber = sqn\<rparr> b = (None, b)"
    if "stream = Some st" for st
    by (rule remove_miss [OF b]) (use miss [OF that] in blast)
  from doRequest_prepared [OF this t b1 loc] show ?thesis .
qed

section \<open>Link keys\<close>

lemma foldStore_2:
  "foldStore 2 store t =
     (if 0 < store then
        if 0 < drop_bit 16 store
        then (t XOR ucast (store AND 0xFFFF)) XOR ucast (drop_bit 16 store AND 0xFFFF)
        else t XOR ucast (store AND 0xFFFF)
      else t)"
  by (simp only: numeral_2_eq_2 foldStore.simps)

lemma xor_cancel: "(t :: 'a::len word) XOR a = t XOR b \<Longrightarrow> a = b"
  by (metis xor.left_neutral xor.assoc xor_self_eq)

lemma foldStore_small:
  assumes "unat (store :: u32) < 2 ^ 16"
  shows "foldStore 2 store t = t XOR ucast store"
proof -
  have "unat (drop_bit 16 store) = unat store div 2 ^ 16"
    by (metis unat_drop_bit_eq drop_bit_eq_div)
  then have "unat (drop_bit 16 store) = 0" using assms by simp
  then have "drop_bit 16 store = 0" by (simp only: unat_eq_0)
  moreover have "store AND 0xFFFF = store"
  proof -
    have m: "(0xFFFF :: u32) = mask 16" by (simp add: mask_eq_exp_minus_1)
    have "unat (take_bit 16 store) = unat store"
      using assms by (simp add: unsigned_take_bit_eq take_bit_nat_eq_self)
    then have "take_bit 16 store = store" by (simp add: word_unat_eq_iff)
    then show ?thesis unfolding m by (simp only: take_bit_eq_mask)
  qed
  ultimately show ?thesis by (cases "store = 0") (simp_all add: foldStore_2 word_neq_0_conv)
qed

text \<open>The standby index tells any two segments apart, as long as the store ids are
  below 65536: the keys of two links are equal only if store, stream and sequence number
  are.\<close>

theorem linkKey_injective:
  assumes "unat (sk_store l) < 2 ^ 16" and "unat (sk_store l') < 2 ^ 16"
  shows "linkKey l = linkKey l' \<longleftrightarrow> l = l'"
proof
  assume k: "linkKey l = linkKey l'"
  then have e: "sk_stream l = sk_stream l'" "sk_sequenceNumber l = sk_sequenceNumber l'"
    "linkHash l = linkHash l'"
    by (simp_all add: linkKey_def)
  then have "ucast (sk_store l) = (ucast (sk_store l') :: u64)"
    using foldStore_small [OF assms(1)] foldStore_small [OF assms(2)]
    by (simp add: linkHash_def) (erule xor_cancel)
  then have "unat (sk_store l) = unat (sk_store l')"
    by (metis unat_ucast_u64)
  then have "sk_store l = sk_store l'" by (simp add: word_unat_eq_iff)
  with e show "l = l'" by simp
qed simp

theorem linkKey_injective_witness:
  "linkKey \<lparr>sk_store = 1, sk_stream = 2, sk_sequenceNumber = 3\<rparr> =
     linkKey \<lparr>sk_store = 2, sk_stream = 2, sk_sequenceNumber = 3\<rparr> \<longleftrightarrow>
   (\<lparr>sk_store = 1, sk_stream = 2, sk_sequenceNumber = 3\<rparr> :: StoreStreamSegmentLink) =
     \<lparr>sk_store = 2, sk_stream = 2, sk_sequenceNumber = 3\<rparr>"
  by (rule linkKey_injective) simp_all

text \<open>Above that bound the key comparison, which ignores the store, is not saved
  by the hash: the id of the store is folded to 16 bits, so the links of one stream and
  sequence number in the stores 1 and 65536 are the same key.\<close>

theorem linkKey_collision:
  "linkKey \<lparr>sk_store = 1, sk_stream = sid, sk_sequenceNumber = sqn\<rparr> =
   linkKey \<lparr>sk_store = 0x10000, sk_stream = sid, sk_sequenceNumber = sqn\<rparr>"
  by (simp add: linkKey_def linkHash_def foldStore_2)

section \<open>The invariant\<close>

text \<open>
  The buffers that the public operations reach, with any encoder answers and time stamps,
  and with a client that overwrites the shared memory at will.
\<close>

inductive reachable :: "server_buffer \<Rightarrow> bool" where
  init: "0 < n \<Longrightarrow> reachable (initializeSegments n cookie cache ctrl mem)"
| request: "reachable b \<Longrightarrow> keeps_wf (rq_env e) \<Longrightarrow> reachable (snd (requestSegment e st sqn b))"
| scratch: "reachable b \<Longrightarrow> keeps_wf (rq_env e) \<Longrightarrow> reachable (snd (requestScratchSegment e b))"
| load: "reachable b \<Longrightarrow> keeps_wf (rq_env e) \<Longrightarrow> reachable (snd (openSegment e st flags loc prefetch rd b))"
| free: "reachable b \<Longrightarrow> reachable (snd (freeSegment s prefetch b))"
| purge: "reachable b \<Longrightarrow> reachable (snd (purgeSegment s b))"
| submit: "reachable b \<Longrightarrow> reachable (snd (submitSegment s now wr b))"
| flush: "reachable b \<Longrightarrow> flushStandbyList store b = Some b' \<Longrightarrow> reachable b'"
| client: "reachable b \<Longrightarrow> reachable (b\<lparr>sv_ctrl := c, sv_data := mem\<rparr>)"

lemma doRequest_wf:
  assumes w: "wf_buffer b" and k: "keeps_wf (rq_env e)" and loc: "location \<noteq> None \<longrightarrow> stream \<noteq> None"
  shows "wf_buffer (snd (doRequestSegment e stream sqn flags location prefetch rd b))"
proof -
  obtain F S where b: "buffer_rel b F S" using w by (auto simp: wf_buffer_def)
  show ?thesis
  proof (cases "\<exists>st. stream = Some st \<and> (\<exists>y\<in>set S. segKey (sv_seg b y) =
      linkKey \<lparr>sk_store = sr_store st, sk_stream = sr_id st, sk_sequenceNumber = sqn\<rparr>)")
    case True
    then obtain st y where st: "stream = Some st" and y: "y \<in> set S"
      and key: "segKey (sv_seg b y) = linkKey \<lparr>sk_store = sr_store st, sk_stream = sr_id st, sk_sequenceNumber = sqn\<rparr>"
      by blast
    obtain A B where "S = A @ y # B" using split_list [OF y] by blast
    with b have "buffer_rel b F (A @ y # B)" by simp
    from doRequest_hit [OF this key] show ?thesis
      unfolding st wf_buffer_def by (metis snd_conv)
  next
    case False
    have rm: "removeStandbySegment \<lparr>sk_store = sr_store st, sk_stream = sr_id st, sk_sequenceNumber = sqn\<rparr> b = (None, b)"
      if "stream = Some st" for st
      by (rule remove_miss [OF b]) (use False that in blast)
    obtain r b1 where t: "tryAllocateFreeSegment (rq_maxRetryCount e) (rq_env e) stream sqn (rq_now e) prefetch 1 b = (r, b1)"
      by fastforce
    obtain F1 S1 where b1: "buffer_rel b1 F1 S1"
      and p: "\<And>x. r = Some x \<Longrightarrow> prepared stream sqn b1 x \<and> x \<notin> set F1 \<and> x \<notin> set S1"
      using tryAllocate_wf [OF w k, where m = "rq_maxRetryCount e" and stream = stream and sqn = sqn and
          now = "rq_now e" and prefetch = prefetch and t = 1] t by auto
    note d = doRequest_miss [OF rm t, of flags location rd]
    show ?thesis
    proof (cases r)
      case None
      then show ?thesis using d b1 by (auto simp: wf_buffer_def)
    next
      case (Some x)
      have px: "prepared stream sqn b1 x" "x \<notin> set F1" "x \<notin> set S1" using p [OF Some] by simp_all
      then have x: "x < sv_numSegments b1" by (simp add: prepared_def)
      show ?thesis
      proof (cases location)
        case None
        then show ?thesis using d Some setupWrite_rel [OF b1 x px(2,3,1)] by (auto simp: wf_buffer_def)
      next
        case (Some l)
        then obtain st where st: "stream = Some st" using loc by auto
        note q = setupRead_rel [OF b1 x px(2,3) px(1) [unfolded st], of flags l]
        have "buffer_rel (setupRead x flags l b1) F1 S1" "x < sv_numSegments (setupRead x flags l b1)"
          using q x by simp_all
        then have "wf_buffer (setupRead x flags l b1)" "wf_buffer (doPurgeSegment x (setupRead x flags l b1))"
          using purge_rel [OF _ _ px(2,3)] unfolding wf_buffer_def by blast+
        then show ?thesis
          using d Some \<open>r = Some x\<close> by (cases rd) (simp_all add: Let_def)
      qed
    qed
  qed
qed

lemma flush_rel:
  assumes b: "buffer_rel b F S"
  shows "\<exists>b'. flushStandbyList store b = Some b' \<and>
    buffer_rel b' (rev (filter (flushMatch store b) S) @ F) (filter (\<lambda>y. \<not> flushMatch store b y) S)"
proof (cases S)
  case Nil
  then show ?thesis using b by (simp add: flushStandbyList_def buffer_rel_def)
next
  case (Cons x T)
  have h: "sv_standbyHead b = Some x" and r: "ring (sv_seg b) (x # T)"
    using b Cons by (simp_all add: buffer_rel_def)
  have "sg_prev (sv_seg b x) = Some (last (x # T))"
    using r ring_ends [OF r] by (cases "T = []") (simp_all add: ring_single)
  then show ?thesis
    using h flushLoop_rel [of b F "[]" x T store] b Cons by (simp add: flushStandbyList_def)
qed

lemma submit_wf:
  assumes "wf_buffer b"
  shows "wf_buffer (snd (submitSegment s now wr b))"
proof -
  obtain F S where b: "buffer_rel b F S" using assms by (auto simp: wf_buffer_def)
  show ?thesis
  proof (cases "s < sv_numSegments b \<and> sg_stream (sv_seg b s) \<noteq> None \<and>
      isSet (sg_flags (sv_seg b s)) SgfInUse \<and> sg_next (sv_seg b s) = None \<and> \<not> sg_isSubmitted (sv_seg b s)")
    case True
    then obtain st where st: "sg_stream (sv_seg b s) = Some st" by auto
    have "s \<notin> set F \<and> s \<notin> set S" using True guard_in_use [OF b, of s] by simp
    then have "case doSubmitSegment s now wr b of
        (Inl e, b') \<Rightarrow> buffer_rel b' F S \<and> (sg_isSubmitted (sv_seg b' s) \<longleftrightarrow> dropThrows s wr b)
      | (Inr (False, loc), b') \<Rightarrow> buffer_rel b' F S \<and> sg_isSubmitted (sv_seg b' s) \<and> wr = WritePending
      | (Inr (True, loc), b') \<Rightarrow> released b' s"
      using True st by (intro doSubmit_rel [OF b]) simp_all
    moreover have "submitSegment s now wr b = doSubmitSegment s now wr b"
      using True by (auto simp: submitSegment_def)
    moreover obtain r b' where "doSubmitSegment s now wr b = (r, b')" by fastforce
    ultimately show ?thesis
      unfolding wf_buffer_def released_def
      by (cases r) (simp_all split: prod.splits bool.splits, blast+)
  next
    case False
    then have "snd (submitSegment s now wr b) = b" by (auto simp: submitSegment_def)
    then show ?thesis using assms by simp
  qed
qed

text \<open>C2: In every reachable state of a stream buffer each of its segments is in exactly
  one place: on the free list, on the standby list, or in use. The two lists are well-formed
  (the free chain ends, the standby ring is closed in both directions and starts at its
  head), the index holds exactly the standby segments, and every read-only segment has a
  valid control cookie.\<close>

theorem reachable_wf:
  assumes "reachable b"
  shows "\<exists>F S. buffer_rel b F S"
proof -
  have "wf_buffer b"
    using assms
  proof (induction rule: reachable.induct)
    case (init n cookie cache ctrl mem)
    then show ?case
      using rel_init [OF init, of cookie cache ctrl mem] unfolding wf_buffer_def by blast
  next
    case (request b e st sqn)
    then show ?case by (simp add: requestSegment_def doRequest_wf)
  next
    case (scratch b e)
    then show ?case by (simp add: requestScratchSegment_def doRequest_wf)
  next
    case (load b e st flags loc prefetch rd)
    then show ?case by (simp add: openSegment_def doRequest_wf)
  next
    case (free b s prefetch)
    then obtain F S where b: "buffer_rel b F S" by (auto simp: wf_buffer_def)
    show ?case
      using free.IH guard_in_use [OF b, of s] doFree_wf [OF b, of s prefetch]
      by (auto simp: freeSegment_def)
  next
    case (purge b s)
    then obtain F S where b: "buffer_rel b F S" by (auto simp: wf_buffer_def)
    show ?case
      using purge.IH guard_in_use [OF b, of s] doPurge_wf [OF b, of s]
      by (auto simp: purgeSegment_def)
  next
    case (submit b s now wr)
    from submit.IH show ?case by (rule submit_wf)
  next
    case (flush b store b')
    then obtain F S where "buffer_rel b F S" by (auto simp: wf_buffer_def)
    from flush_rel [OF this, of store] flush.hyps show ?case by (auto simp: wf_buffer_def)
  next
    case (client b c mem)
    then show ?case by (auto simp: wf_buffer_def buffer_rel_def)
  qed
  then show ?thesis by (simp add: wf_buffer_def)
qed

theorem reachable_wf_witness:
  "\<exists>F S. buffer_rel (initializeSegments 4 7 True (\<lambda>_. control_zero) (\<lambda>_. [])) F S"
  by (rule reachable_wf, rule reachable.init) simp

section \<open>Refinement\<close>

text \<open>A fresh buffer of two segments, for the witnesses.\<close>

definition buffer2 :: server_buffer where
  "buffer2 = initializeSegments 2 7 True (\<lambda>_. control_zero) (\<lambda>_. [])"

lemma buffer2_rel: "buffer_rel buffer2 [0, 1] []"
  using rel_init [of 2 7 True "\<lambda>_. control_zero" "\<lambda>_. []"]
  by (simp add: buffer2_def upt_rec numeral_2_eq_2)

lemma cached_at_Some:
  assumes "cached_at b S (Some st) sqn = Some x" and "distinct S"
  shows "\<exists>A B. S = A @ x # B \<and> remove1 x S = A @ B \<and>
    segKey (sv_seg b x) = linkKey \<lparr>sk_store = sr_store st, sk_stream = sr_id st, sk_sequenceNumber = sqn\<rparr>"
proof -
  obtain i where i: "i < length S" "x = S ! i" and
    key: "Some (segKey (sv_seg b x)) = request_key (Some st) sqn"
    using assms(1) by (auto simp: cached_at_def find_Some_iff)
  from i have "x \<in> set S" by simp
  then obtain A B where S: "S = A @ x # B" by (meson split_list)
  then have "x \<notin> set A" using assms(2) by auto
  with S key show ?thesis by (auto simp: request_key_def remove1_append)
qed

lemma cached_at_None:
  "cached_at b S (Some st) sqn = None \<Longrightarrow> y \<in> set S \<Longrightarrow>
   segKey (sv_seg b y) \<noteq> linkKey \<lparr>sk_store = sr_store st, sk_stream = sr_id st, sk_sequenceNumber = sqn\<rparr>"
  by (auto simp: cached_at_def find_None_iff request_key_def)

text \<open>The buffer after \<open>k\<close> waits for a segment, in which the other threads worked on it.\<close>

fun waited :: "(nat \<Rightarrow> server_buffer \<Rightarrow> server_buffer) \<Rightarrow> nat \<Rightarrow> server_buffer \<Rightarrow> server_buffer" where
  "waited env 0 b = b"
| "waited env (Suc k) b = env (Suc k) (waited env k b)"

lemma tryAllocate_waited:
  assumes "\<And>k. k < t \<Longrightarrow> buffer_rel (waited env k b) [] []" and "t = 0 \<or> \<not> prefetch \<and> t < m"
  shows "tryAllocateFreeSegment m env stream sqn now prefetch 1 b =
    tryAllocateFreeSegment m env stream sqn now prefetch (Suc t) (waited env t b)"
  using assms
proof (induction t)
  case (Suc t)
  then have "tryAllocateFreeSegment m env stream sqn now prefetch 1 b =
      tryAllocateFreeSegment m env stream sqn now prefetch (Suc t) (waited env t b)" by simp
  also have "\<dots> = tryAllocateFreeSegment m env stream sqn now prefetch (Suc (Suc t)) (waited env (Suc t) b)"
    using tryAllocate_None [OF Suc.prems(1) [of t], of m env stream sqn now prefetch "Suc t"] Suc.prems(2) by simp
  finally show ?case .
qed simp

lemma tryAllocate_tries:
  assumes tries: "\<And>k. k \<le> t \<Longrightarrow> buffer_rel (waited env k b) (F k) (S k)" "\<And>k. k < t \<Longrightarrow> F k = [] \<and> S k = []"
    and count: "t = 0 \<or> \<not> prefetch \<and> t < m" and last: "F t = [] \<Longrightarrow> S t = [] \<Longrightarrow> prefetch \<or> m \<le> Suc t"
  shows "case alloc_lists (F t, S t) of
      Some (x, F', S') \<Rightarrow> (\<exists>b'. tryAllocateFreeSegment m env stream sqn now prefetch 1 b = (Some x, b') \<and>
        buffer_rel b' F' S' \<and> prepared stream sqn b' x \<and> x \<notin> set F' \<and> x \<notin> set S')
    | None \<Rightarrow> tryAllocateFreeSegment m env stream sqn now prefetch 1 b = (None, waited env t b)"
proof -
  have e: "\<And>k. k < t \<Longrightarrow> buffer_rel (waited env k b) [] []" using tries by (metis less_imp_le)
  note w = tryAllocate_waited [OF e count, where stream = stream and sqn = sqn and now = now]
  show ?thesis
  proof (cases "alloc_lists (F t, S t)")
    case None
    then have n: "F t = []" "S t = []" by (simp_all add: alloc_lists_None)
    have "buffer_rel (waited env t b) [] []" using tries(1) [of t] n by simp
    from tryAllocate_None [OF this, of m env stream sqn now prefetch "Suc t"] show ?thesis using None w last [OF n] by auto
  next
    case (Some a)
    then obtain x F' S' where a: "alloc_lists (F t, S t) = Some (x, F', S')" by (cases a) auto
    from tryAllocate_Some [OF tries(1) [of t] a] obtain b' where
      "tryAllocateFreeSegment m env stream sqn now prefetch (Suc t) (waited env t b) = (Some x, b')"
      "buffer_rel b' F' S'" "prepared stream sqn b' x" "x \<notin> set F'" "x \<notin> set S'" by blast
    then show ?thesis using a w by auto
  qed
qed

text \<open>C6: What \<open>openSegment\<close> does to the lists, for any number of retries. A segment with the
  requested link that is cached is taken off the standby list and handed out without a call of the
  encoder. Otherwise the first try that finds one of the lists not empty (the try \<open>t\<close>, with whatever the other
  threads did to the buffer in the waits before it) takes the head of the free list, or else the end of the
  standby list, the least recently released segment; it is handed out, completed or not as the encoder
  answers, and it is back on top of the free list if the encoder throws. If both lists are still
  empty at the last try, the request completes without a segment.\<close>

theorem openSegment_refines:
  assumes tries: "\<And>k. k \<le> t \<Longrightarrow> buffer_rel (waited (rq_env e) k b) (F k) (S k)" "\<And>k. k < t \<Longrightarrow> F k = [] \<and> S k = []"
    and count: "t = 0 \<or> \<not> prefetch \<and> t < rq_maxRetryCount e"
    and last: "F t = [] \<Longrightarrow> S t = [] \<Longrightarrow> prefetch \<or> rq_maxRetryCount e \<le> Suc t"
  shows "case cached_at b (S 0) (Some st) (ln_sequenceNumber (sl_link loc)) of
      Some x \<Rightarrow> (\<exists>b'. openSegment e st flags loc prefetch rd b = (Inr (True, Some x), b') \<and>
                  buffer_rel b' (F 0) (remove1 x (S 0)))
    | None \<Rightarrow>
       (case alloc_lists (F t, S t) of
          Some (x, F', S') \<Rightarrow>
            (case openSegment e st flags loc prefetch rd b of
               (Inl ex, b') \<Rightarrow> rd = ReadThrow ex \<and> buffer_rel b' (x # F') S'
             | (Inr (c, s), b') \<Rightarrow> s = Some x \<and> (c \<longleftrightarrow> rd \<noteq> ReadPending) \<and> buffer_rel b' F' S')
        | None \<Rightarrow> openSegment e st flags loc prefetch rd b = (Inr (True, None), waited (rq_env e) t b))"
proof -
  have b: "buffer_rel b (F 0) (S 0)" using tries(1) [of 0] by simp
  let ?q = "ln_sequenceNumber (sl_link loc)"
  show ?thesis
  proof (cases "cached_at b (S 0) (Some st) ?q")
    case (Some x)
    have "distinct (S 0)" using b by (simp add: buffer_rel_def)
    from cached_at_Some [OF Some this] obtain A B where S: "S 0 = A @ x # B" "remove1 x (S 0) = A @ B"
      and key: "segKey (sv_seg b x) = linkKey \<lparr>sk_store = sr_store st, sk_stream = sr_id st, sk_sequenceNumber = ?q\<rparr>" by blast
    have "buffer_rel b (F 0) (A @ x # B)" using b S by simp
    from doRequest_hit [OF this key, where e = e and flags = flags and location = "Some loc" and
        prefetch = prefetch and rd = rd] show ?thesis
      using Some S(2) by (auto simp: openSegment_def)
  next
    case None
    have rm: "removeStandbySegment \<lparr>sk_store = sr_store st', sk_stream = sr_id st', sk_sequenceNumber = ?q\<rparr> b = (None, b)"
      if "Some st = Some st'" for st'
      by (rule remove_miss [OF b]) (use cached_at_None [OF None] that in simp)
    have T: "case alloc_lists (F t, S t) of
        Some (x, F', S') \<Rightarrow>
          (\<exists>b'. tryAllocateFreeSegment (rq_maxRetryCount e) (rq_env e) (Some st) ?q (rq_now e) prefetch 1 b = (Some x, b') \<and>
             buffer_rel b' F' S' \<and> prepared (Some st) ?q b' x \<and> x \<notin> set F' \<and> x \<notin> set S')
      | None \<Rightarrow> tryAllocateFreeSegment (rq_maxRetryCount e) (rq_env e) (Some st) ?q (rq_now e) prefetch 1 b =
          (None, waited (rq_env e) t b)"
      by (rule tryAllocate_tries) (use tries count last in simp_all)
    show ?thesis
    proof (cases "alloc_lists (F t, S t)")
      case none: None
      have t: "tryAllocateFreeSegment (rq_maxRetryCount e) (rq_env e) (Some st) ?q (rq_now e) prefetch 1 b =
          (None, waited (rq_env e) t b)" by (rule T [unfolded none option.case])
      have "doRequestSegment e (Some st) ?q flags (Some loc) prefetch rd b = (Inr (True, None), waited (rq_env e) t b)"
        using doRequest_miss [OF rm t, of flags "Some loc" rd] by simp
      then show ?thesis unfolding none None option.case openSegment_def .
    next
      case (Some a)
      then obtain x F' S' where a: "alloc_lists (F t, S t) = Some (x, F', S')" by (cases a) auto
      obtain b1 where t: "tryAllocateFreeSegment (rq_maxRetryCount e) (rq_env e) (Some st) ?q (rq_now e) prefetch 1 b = (Some x, b1)"
        and r: "buffer_rel b1 F' S'" "prepared (Some st) ?q b1 x" "x \<notin> set F'" "x \<notin> set S'" using T [unfolded a option.case prod.case] by (elim exE conjE) (rule that)
      have "Some loc \<noteq> None \<longrightarrow> Some st \<noteq> None" by simp
      from doRequest_prepared [OF rm t r this, where flags = flags and rd = rd] show ?thesis using None a
        by (auto simp: openSegment_def split: prod.splits sum.splits)
    qed
  qed
qed

text \<open>A buffer whose only segment is in use.\<close>

definition buffer1_full :: server_buffer where
  "buffer1_full = snd (requestSegment \<lparr>rq_maxRetryCount = 1, rq_env = (\<lambda>_ b. b), rq_now = 5\<rparr>
     \<lparr>sr_store = 0, sr_id = 3, sr_typeFlags = 0, sr_entrySize = 16\<rparr> 4 (initializeSegments 1 7 True (\<lambda>_. control_zero) (\<lambda>_. [])))"

lemma buffer1_full_rel: "buffer_rel buffer1_full [] []"
proof -
  let ?e = "\<lparr>rq_maxRetryCount = 1, rq_env = (\<lambda>_ b. b), rq_now = 5\<rparr> :: request_env"
  let ?b = "initializeSegments 1 7 True (\<lambda>_. control_zero) (\<lambda>_. [])"
  have b: "buffer_rel ?b [0] []" using rel_init [of 1 7 True "\<lambda>_. control_zero" "\<lambda>_. []"] by simp
  have a: "alloc_lists ([0], []) = Some (0, [], [])" by (simp add: alloc_lists_def)
  show ?thesis
    using doRequest_alloc [OF b _ a, where stream = "Some \<lparr>sr_store = 0, sr_id = 3, sr_typeFlags = 0, sr_entrySize = 16\<rparr>"
        and sqn = 4 and e = ?e and flags = SafNone and location = None and prefetch = False and rd = ReadPending]
    by (auto simp: buffer1_full_def requestSegment_def INVALID_OBJECT_ID_def split: prod.splits sum.splits)
qed

text \<open>A request that finds this buffer full, and two free segments after its first wait.\<close>

theorem openSegment_refines_witness:
  "\<exists>b'. openSegment \<lparr>rq_maxRetryCount = 100, rq_env = (\<lambda>_ _. buffer2), rq_now = 5\<rparr>
      \<lparr>sr_store = 0, sr_id = 3, sr_typeFlags = 0, sr_entrySize = 16\<rparr> 0
      (storageLocation_link \<lparr>ln_stream = 3, ln_sequenceNumber = 9\<rparr>) False (ReadDone []) buffer1_full =
      (Inr (True, Some 0), b') \<and> buffer_rel b' [1] []"
proof -
  let ?loc = "storageLocation_link \<lparr>ln_stream = 3, ln_sequenceNumber = 9\<rparr>"
  let ?e = "\<lparr>rq_maxRetryCount = 100, rq_env = (\<lambda>_ _. buffer2), rq_now = 5\<rparr> :: request_env"
  let ?st = "\<lparr>sr_store = 0, sr_id = 3, sr_typeFlags = 0, sr_entrySize = 16\<rparr> :: stream_ref"
  let ?F = "\<lambda>k :: nat. if k = 0 then [] else [0, 1 :: nat]" and ?S = "\<lambda>k :: nat. [] :: nat list"
  have "buffer_rel (waited (rq_env ?e) k buffer1_full) (?F k) (?S k)" if "k \<le> 1" for k
    using that buffer1_full_rel buffer2_rel by (cases k) auto
  note r = openSegment_refines [where F = ?F and S = ?S and t = 1, OF this, where st = ?st and loc = ?loc and flags = 0
      and prefetch = False and rd = "ReadDone []"]
  have "cached_at buffer1_full [] (Some ?st) (ln_sequenceNumber (sl_link ?loc)) = None"
    "alloc_lists ([0, 1], []) = Some (0, [1], [])"
    by (simp_all add: cached_at_def alloc_lists_def)
  with r show ?thesis by (auto split: prod.splits sum.splits)
qed

text \<open>C7: \<open>flushStandbyList\<close> terminates on every well-formed buffer. It moves exactly the
  cached segments of the given store, in their order, to the free list, and with
  \<open>INVALID_STORE_ID\<close> it leaves the standby list and the index empty.\<close>

theorem flushStandbyList_total:
  assumes "buffer_rel b F S"
  shows "\<exists>b'. flushStandbyList store b = Some b' \<and>
    buffer_rel b' (rev (filter (flushMatch store b) S) @ F) (filter (\<lambda>y. \<not> flushMatch store b y) S) \<and>
    (store = INVALID_STORE_ID \<longrightarrow> sv_standbyHead b' = None \<and> (\<forall>k. sv_standbyIndex b' k = None))"
proof -
  obtain b' where f: "flushStandbyList store b = Some b'"
    and r: "buffer_rel b' (rev (filter (flushMatch store b) S) @ F) (filter (\<lambda>y. \<not> flushMatch store b y) S)"
    using flush_rel [OF assms] by blast
  have "sv_standbyHead b' = None \<and> (\<forall>k. sv_standbyIndex b' k = None)" if "store = INVALID_STORE_ID"
  proof -
    have "filter (\<lambda>y. \<not> flushMatch store b y) S = []" using that by (simp add: flushMatch_def)
    with r have r': "buffer_rel b' (rev (filter (flushMatch store b) S) @ F) []" by simp
    have "sv_standbyIndex b' k \<noteq> Some x" for k x using rel_index [OF r', of k x] by simp
    then have "\<forall>k. sv_standbyIndex b' k = None" by (metis not_None_eq)
    moreover have "sv_standbyHead b' = None" using r' by (simp add: buffer_rel_def)
    ultimately show ?thesis by simp
  qed
  with f r show ?thesis by blast
qed

theorem flushStandbyList_total_witness:
  "\<exists>b'. flushStandbyList 5 buffer2 = Some b' \<and>
    buffer_rel b' (rev (filter (flushMatch 5 buffer2) []) @ [0, 1]) (filter (\<lambda>y. \<not> flushMatch 5 buffer2 y) []) \<and>
    (5 = INVALID_STORE_ID \<longrightarrow> sv_standbyHead b' = None \<and> (\<forall>k. sv_standbyIndex b' k = None))"
  by (rule flushStandbyList_total [OF buffer2_rel])

text \<open>\<open>freeSegment\<close> accepts exactly the segments in use that are read-only or were
  submitted. A cacheable one with entries goes to the standby list, unless a copy of it is
  there: to the front if it has no low priority or was prefetched, else to the end. Any
  other goes to the free list. A rejected call changes nothing.\<close>

theorem freeSegment_refines:
  assumes b: "buffer_rel b F S"
  shows "if sv_numSegments b \<le> s then freeSegment s prefetch b = (Inl ArgumentOutOfBoundsException, b)
    else if s \<in> set F \<union> set S \<or> (\<not> isSet (sg_flags (sv_seg b s)) SgfReadOnly \<and> \<not> sg_isSubmitted (sv_seg b s))
    then freeSegment s prefetch b = (Inl InvalidOperationException, b)
    else \<exists>b'. freeSegment s prefetch b = (Inr (), b') \<and>
      buffer_rel b' (fst (free_lists b s prefetch (F, S))) (snd (free_lists b s prefetch (F, S)))"
proof (cases "sv_numSegments b \<le> s")
  case True
  then show ?thesis by (simp add: freeSegment_def)
next
  case False
  then have x: "s < sv_numSegments b" by simp
  show ?thesis
    using False guard_in_use [OF b x] doFree_rel [OF b x, of prefetch]
    by (auto simp: freeSegment_def)
qed

theorem freeSegment_refines_witness:
  "freeSegment 0 False buffer2 = (Inl InvalidOperationException, buffer2) \<and>
   freeSegment 2 False buffer2 = (Inl ArgumentOutOfBoundsException, buffer2)"
proof -
  have "sv_numSegments buffer2 = 2" by (simp add: buffer2_def initializeSegments_def)
  with freeSegment_refines [OF buffer2_rel, of 0 False] freeSegment_refines [OF buffer2_rel, of 2 False]
  show ?thesis by simp
qed

text \<open>A segment of that buffer, requested for writing by a stream without a time stamp.\<close>

definition stream3 :: stream_ref where
  "stream3 = \<lparr>sr_store = 0, sr_id = 3, sr_typeFlags = 0, sr_entrySize = 16\<rparr>"

definition buffer2_write :: server_buffer where
  "buffer2_write = snd (requestSegment \<lparr>rq_maxRetryCount = 1, rq_env = (\<lambda>_ b. b), rq_now = 5\<rparr> stream3 4 buffer2)"

lemma buffer2_write_rel: "buffer_rel buffer2_write [1] [] \<and> 0 < sv_numSegments buffer2_write"
proof -
  let ?e = "\<lparr>rq_maxRetryCount = 1, rq_env = (\<lambda>_ b. b), rq_now = 5\<rparr> :: request_env"
  have a: "alloc_lists ([0, 1], []) = Some (0, [1], [])" by (simp add: alloc_lists_def)
  have "buffer2_write = snd (doRequestSegment ?e (Some stream3) 4 SafNone None False ReadPending buffer2)"
    by (simp add: buffer2_write_def requestSegment_def INVALID_OBJECT_ID_def)
  then show ?thesis
    using doRequest_alloc [OF buffer2_rel _ a, where stream = "Some stream3" and sqn = 4 and e = ?e and
        flags = SafNone and location = None and prefetch = False and rd = ReadPending]
    by (auto split: prod.splits sum.splits)
qed

text \<open>C33: What \<open>submitSegment\<close> leaves of the lists, whatever the client wrote to the shared
  control element and whatever the encoder does. If it throws, no segment changes its place
  and the segment can be submitted again (its submitted flag is as before), unless it was an empty segment
  that the encoder could not drop: that one is marked as submitted for good. If the encoder goes on
  asynchronously, the segment stays in use and is marked as submitted. If it reports
  completion, the segment is on one of the two lists.\<close>

theorem submitSegment_refines:
  assumes b: "buffer_rel b F S" and n: "s < sv_numSegments b"
  shows "case submitSegment s now wr b of
      (Inl e, b') \<Rightarrow> buffer_rel b' F S \<and>
         (sg_isSubmitted (sv_seg b' s) \<longleftrightarrow> sg_isSubmitted (sv_seg b s) \<or> submittable s b \<and> dropThrows s wr b)
    | (Inr (False, loc), b') \<Rightarrow> buffer_rel b' F S \<and> sg_isSubmitted (sv_seg b' s) \<and> wr = WritePending
    | (Inr (True, loc), b') \<Rightarrow> s \<notin> set F \<and> s \<notin> set S \<and> released b' s"
proof (cases "submittable s b")
  case sub: True
  then have True: "sg_stream (sv_seg b s) \<noteq> None \<and>
    isSet (sg_flags (sv_seg b s)) SgfInUse \<and> sg_next (sv_seg b s) = None \<and> \<not> sg_isSubmitted (sv_seg b s)"
    by (simp add: submittable_def)
  then obtain st where st: "sg_stream (sv_seg b s) = Some st" by auto
  have out: "s \<notin> set F" "s \<notin> set S" and ns: "\<not> sg_isSubmitted (sv_seg b s)"
    using True guard_in_use [OF b n] by simp_all
  have eq: "submitSegment s now wr b = doSubmitSegment s now wr b"
    using True n by (auto simp: submitSegment_def)
  obtain r b' where d: "doSubmitSegment s now wr b = (r, b')" by fastforce
  show ?thesis
    using doSubmit_rel [OF b n out st ns, where now = now and wr = wr] out ns sub
    unfolding eq d by (cases r) (simp_all split: prod.splits bool.splits)
next
  case False
  then have "\<exists>e. submitSegment s now wr b = (Inl e, b)" using n by (auto simp: submitSegment_def submittable_def)
  then show ?thesis using b False by auto
qed

text \<open>The witness: an empty segment whose drop fails.\<close>

theorem submitSegment_refines_witness:
  "\<exists>b'. submitSegment 0 8 (WriteThrow GenericException) buffer2_write = (Inl GenericException, b') \<and>
    buffer_rel b' [1] [] \<and> sg_isSubmitted (sv_seg b' 0)"
proof -
  have "submittable 0 buffer2_write" "dropThrows 0 (WriteThrow GenericException) buffer2_write" by code_simp+
  moreover have "fst (submitSegment 0 8 (WriteThrow GenericException) buffer2_write) = Inl GenericException" by code_simp
  then obtain b' where "submitSegment 0 8 (WriteThrow GenericException) buffer2_write = (Inl GenericException, b')"
    by (metis prod.collapse)
  ultimately show ?thesis
    using submitSegment_refines [OF buffer2_write_rel [THEN conjunct1] buffer2_write_rel [THEN conjunct2],
        where now = 8 and wr = "WriteThrow GenericException"] by simp
qed

text \<open>The check of the number of entries in a submitted segment multiplies in 32 bits.
  For entries of 16 bytes it accepts the raw entry count 268435457, whose entries would take
  sixteen bytes more than four gigabytes, in a segment of 64 megabytes.\<close>

theorem submit_accepts_wrapped_count:
  "fst (fixControl \<lparr>sr_store = st, sr_id = i, sr_typeFlags = StfNone, sr_entrySize = 16\<rparr> mem now
     (c\<lparr>ce_rawEntryCount := 0x10000001\<rparr>)) = Inr () \<and>
   segmentSize < 16 * unat (0x10000001 :: u32)"
proof -
  have g: "getEntrySize 16 = 16" "\<not> isVariableEntrySize 16"
    by (simp_all add: getEntrySize_def isVariableEntrySize_def VARIABLE_ENTRY_SIZE_FLAG_def)
  have p: "(16 :: u32) * 0x10000001 = 16" by simp
  have "segmentSize < 16 * unat (0x10000001 :: u32)" by (simp add: segmentSize_def)
  moreover have "\<not> (of_nat segmentSize :: u64) < 16" by (simp add: segmentSize_def)
  ultimately show ?thesis
    using p by (simp add: fixControl_def Let_def g isSet_def StfNone_def)
qed

text \<open>The prefetch mark of a segment, which keeps it from the end of the standby list at
  its first release, is removed when it is put in front of other segments, but it stays when
  the list is empty: then it also decides about the next release of the segment.\<close>

theorem prefetch_mark_stays:
  assumes "isSet (sg_flags (sv_seg b s)) SgfPrefetch"
  shows "isSet (sg_flags (sv_seg (enqueueToStandbyList s b) s)) SgfPrefetch \<longleftrightarrow> sv_standbyHead b = None"
proof (cases "sv_standbyHead b")
  case None
  then show ?thesis using assms by (simp add: enqueueToStandbyList_def)
next
  case (Some h)
  have "\<not> isSet (f AND NOT SgfPrefetch) SgfPrefetch" for f
    by (simp add: isSet_def and.assoc SgfPrefetch_def)
  then show ?thesis using Some assms by (simp add: enqueueToStandbyList_def Let_def)
qed

theorem prefetch_mark_stays_witness:
  "isSet (sg_flags (sv_seg (enqueueToStandbyList 0 (upd 0 (\<lambda>g. g\<lparr>sg_flags := SgfPrefetch\<rparr>) buffer2)) 0)) SgfPrefetch \<longleftrightarrow>
   sv_standbyHead (upd 0 (\<lambda>g. g\<lparr>sg_flags := SgfPrefetch\<rparr>) buffer2) = None"
  by (rule prefetch_mark_stays) simp

end
