(* ===== verification/Buffer_Pool.thy ===== *)
theory Buffer_Pool
  imports Buffer_Ops
begin

text \<open>
  The server stream buffer as its users see it: a pool of segments. A user holds some
  segments, and every operation on one of them leaves the other held segments as they are,
  those of other users included. The laws are stated as a locale, which is interpreted on the
  operations of the buffer; the streams are proved correct on these laws.
\<close>

section \<open>What an operation changes\<close>

definition changes :: "nat set \<Rightarrow> server_buffer \<Rightarrow> server_buffer \<Rightarrow> bool" where
  "changes P b b' \<longleftrightarrow> sv_numSegments b' = sv_numSegments b \<and> (\<forall>y. y \<notin> P \<longrightarrow> sv_seg b' y = sv_seg b y)"

lemma changes_same [intro]: "sv_numSegments b' = sv_numSegments b \<Longrightarrow> sv_seg b' = sv_seg b \<Longrightarrow> changes P b b'"
  by (simp add: changes_def)

lemma changes_trans: "changes P b b1 \<Longrightarrow> changes P b1 b2 \<Longrightarrow> changes P b b2"
  by (simp add: changes_def)

lemma changes_mono: "changes P b b' \<Longrightarrow> P \<subseteq> Q \<Longrightarrow> changes Q b b'"
  by (auto simp: changes_def)

lemma changes_upd: "i \<in> P \<Longrightarrow> changes P b (upd i f b') \<longleftrightarrow> changes P b b'"
  by (auto simp: changes_def)

lemma changes_frame [simp]:
  "changes P b (b'\<lparr>sv_ctrl := c\<rparr>) = changes P b b'" "changes P b (b'\<lparr>sv_data := d\<rparr>) = changes P b b'"
  "changes P b (b'\<lparr>sv_freeHead := h\<rparr>) = changes P b b'" "changes P b (b'\<lparr>sv_standbyHead := h\<rparr>) = changes P b b'"
  "changes P b (b'\<lparr>sv_standbyIndex := x\<rparr>) = changes P b b'" "changes P b (b'\<lparr>sv_closed := l\<rparr>) = changes P b b'"
  "changes P b (b'\<lparr>sv_dropped := l'\<rparr>) = changes P b b'"
  by (simp_all add: changes_def)

lemma changes_refl [simp]: "changes P b b"
  by (simp add: changes_def)

lemma dequeueFree_changes:
  assumes "buffer_rel b F S" and "dequeueFromFreeList b = (r, b')"
  shows "changes (set F) b b'"
  using assms by (cases F) (auto simp: dequeueFromFreeList_def buffer_rel_def changes_upd)

lemma purge_changes: "s \<in> P \<Longrightarrow> changes P b (doPurgeSegment s b)"
  by (simp add: doPurgeSegment_def enqueueToFreeList_def notifyEncoderCacheClosed_def changes_upd)

lemma prepare_changes: "s \<in> P \<Longrightarrow> changes P b (prepareSegment s stream sqn now b)"
  by (simp add: prepareSegment_def Let_def changes_upd)

text \<open>The neighbours of a segment on the ring are on the ring.\<close>

lemma ring_neighbours:
  assumes "ring sg S" and "x \<in> set S"
  shows "\<exists>n\<in>set S. \<exists>p\<in>set S. sg_next (sg x) = Some n \<and> sg_prev (sg x) = Some p"
proof -
  obtain A B where S: "S = A @ x # B" using assms(2) by (meson split_list)
  then have r: "ring sg (x # (B @ A))" using assms(1) ring_rotate [of sg A "x # B"] by simp
  show ?thesis
  proof (cases "B @ A = []")
    case True
    then show ?thesis using r S by (simp add: ring_single)
  next
    case False
    then have "hd (B @ A) \<in> set S" "last (B @ A) \<in> set S"
      using S hd_in_set [OF False] last_in_set [OF False] by auto
    then show ?thesis using ring_ends [OF r False] by blast
  qed
qed

lemma dequeueStandby_changes:
  assumes "ring (sv_seg b) S" and "x \<in> set S"
  shows "changes (set S) b (dequeueFromStandbyList x b)"
proof -
  obtain n p where "n \<in> set S" "p \<in> set S" "sg_next (sv_seg b x) = Some n" "sg_prev (sv_seg b x) = Some p"
    using ring_neighbours [OF assms] by blast
  then show ?thesis using assms(2)
    by (auto simp: dequeueFromStandbyList_def Let_def changes_upd)
qed

lemma enqueueStandby_changes:
  assumes "ring (sv_seg b) S" and "sv_standbyHead b = (case S of [] \<Rightarrow> None | y # _ \<Rightarrow> Some y)" and "x \<notin> set S"
  shows "changes (insert x (set S)) b (enqueueToStandbyList x b)"
proof (cases S)
  case Nil
  then show ?thesis using assms(2) by (simp add: enqueueToStandbyList_def changes_upd)
next
  case (Cons h T)
  then obtain p where p: "p \<in> set S" "sg_prev (sv_seg b h) = Some p"
    using ring_neighbours [OF assms(1), of h] by auto
  have "h \<noteq> x" using assms(3) Cons by auto
  then show ?thesis using assms(2) Cons p
    by (auto simp: enqueueToStandbyList_def Let_def changes_upd)
qed

lemma addStandby_changes:
  assumes b: "buffer_rel b F S" and "x \<notin> set S"
  shows "changes (insert x (set S)) b (addStandbySegment x b)"
proof -
  let ?b = "b\<lparr>sv_standbyIndex := (sv_standbyIndex b)(linkKey (segmentLink (sv_seg b x)) := Some x)\<rparr>"
  have "changes (insert x (set S)) ?b (enqueueToStandbyList x ?b)"
    by (rule enqueueStandby_changes) (use assms in \<open>simp_all add: buffer_rel_def\<close>)
  then have "changes (insert x (set S)) b (enqueueToStandbyList x ?b)" by (simp add: changes_def)
  then show ?thesis by (auto simp: addStandbySegment_def Let_def purge_changes)
qed

lemma evict_changes:
  assumes b: "buffer_rel b F S" and e: "evictFromStandbyList b = (r, b')"
  shows "changes (set S) b b'"
proof (cases S)
  case Nil
  then show ?thesis using evict_Nil b e by auto
next
  case (Cons h T)
  have ring: "ring (sv_seg b) S" and head: "sv_standbyHead b = Some h"
    using b Cons by (simp_all add: buffer_rel_def)
  obtain p where p: "p \<in> set S" "sg_prev (sv_seg b h) = Some p"
    using ring_neighbours [OF ring, of h] Cons by auto
  define d where "d = snd (findStandbySegment (segmentLink (sv_seg b p)) True (notifyEncoderCacheClosed p b))"
  have d: "sv_seg d = sv_seg b" "sv_numSegments d = sv_numSegments b"
    by (simp_all add: d_def findStandbySegment_def notifyEncoderCacheClosed_def split: option.splits)
  have b': "b' = upd p (\<lambda>g. g\<lparr>sg_flags := SgfInUse\<rparr>) (dequeueFromStandbyList p d)"
    using e head p
    by (simp add: evictFromStandbyList_def Let_def d_def case_prod_unfold notifyEncoderCacheClosed_def)
  have "changes (set S) d (dequeueFromStandbyList p d)"
    by (rule dequeueStandby_changes) (use ring p d in simp_all)
  then have "changes (set S) b (dequeueFromStandbyList p d)" using d by (simp add: changes_def)
  then show ?thesis using b' p by (simp add: changes_upd)
qed

lemma removeStandby_changes:
  assumes b: "buffer_rel b F S" and e: "removeStandbySegment link b = (r, b')"
  shows "changes (set S) b b'"
proof (cases "sv_standbyIndex b (linkKey link)")
  case None
  then show ?thesis using e by (simp add: removeStandbySegment_def findStandbySegment_def)
next
  case (Some x)
  then have x: "x \<in> set S" using rel_index [OF b] by simp
  let ?d = "b\<lparr>sv_standbyIndex := (sv_standbyIndex b)(linkKey link := None)\<rparr>"
  have "b' = dequeueFromStandbyList x ?d"
    using e Some by (simp add: removeStandbySegment_def findStandbySegment_def)
  moreover have "changes (set S) ?d (dequeueFromStandbyList x ?d)"
    by (rule dequeueStandby_changes) (use x b in \<open>simp_all add: buffer_rel_def\<close>)
  ultimately show ?thesis by (simp add: changes_def)
qed

lemma doFree_changes:
  assumes b: "buffer_rel b F S" and x: "x < sv_numSegments b" "x \<notin> set F" "x \<notin> set S"
  shows "changes (insert x (set S)) b (doFreeSegment x prefetch b)"
proof (cases "keepable b x")
  case False
  have "changes (insert x (set S)) b (upd x (\<lambda>g. g\<lparr>sg_isSubmitted := True\<rparr>) b)" by (simp add: changes_upd)
  then show ?thesis using False changes_trans [OF _ purge_changes] by (simp add: doFree_drop)
next
  case True
  obtain c where d: "doFreeSegment x prefetch b =
      addStandbySegment x ((upd x (toCached (sv_cookie b) x prefetch) b)\<lparr>sv_ctrl := c\<rparr>)"
    using doFree_keep [OF True] by blast
  let ?b = "(upd x (toCached (sv_cookie b) x prefetch) b)\<lparr>sv_ctrl := c\<rparr>"
  have "buffer_rel ?b F S"
    using buffer_rel_upd [OF b x(2,3)] toCached_used rel_used [OF b x] by simp
  from addStandby_changes [OF this x(3)] have "changes (insert x (set S)) ?b (doFreeSegment x prefetch b)"
    unfolding d .
  then show ?thesis by (rule changes_trans [rotated]) (simp add: changes_upd)
qed

lemma staged_changes: "staged b b1 s p \<Longrightarrow> changes {s} b b1"
  by (auto simp: staged_def changes_def)

text \<open>One try of the allocation touches only segments that are not in use.\<close>

lemma tryAllocate_changes:
  assumes b: "buffer_rel b F S" and a: "alloc_lists (F, S) = Some a"
    and t: "tryAllocateFreeSegment m env stream sqn now prefetch t b = (r, b')"
  shows "changes (set F \<union> set S) b b' \<and> (\<forall>k. sv_standbyIndex b k = None \<longrightarrow> sv_standbyIndex b' k = None)"
proof -
  have prep: "sv_standbyIndex (prepareSegment x stream sqn now d) = sv_standbyIndex d" for x d
    by (simp add: prepareSegment_def Let_def)
  obtain s0 b0 where f: "dequeueFromFreeList b = (s0, b0)" by fastforce
  have c0: "changes (set F \<union> set S) b b0"
    using dequeueFree_changes [OF b f] by (rule changes_mono) simp
  have i0: "sv_standbyIndex b0 = sv_standbyIndex b"
    using f by (auto simp: dequeueFromFreeList_def split: option.splits)
  show ?thesis
  proof (cases F)
    case (Cons x F')
    have bF: "buffer_rel b (x # F') S" using b Cons by simp
    have x: "s0 = Some x" using dequeueFree_Cons [OF bF] f by auto
    have b': "b' = prepareSegment x stream sqn now b0"
      using t f x by (subst (asm) tryAllocateFreeSegment.simps) (simp add: Let_def)
    have "x \<in> set F \<union> set S" using Cons by simp
    then have "changes (set F \<union> set S) b0 b'" unfolding b' by (rule prepare_changes)
    then show ?thesis using changes_trans [OF c0] b' prep i0 by simp
  next
    case Nil
    then have n: "s0 = None" "b0 = b" using dequeueFree_Nil [of b S] b f by simp_all
    have "S \<noteq> []" using a Nil by (auto simp: alloc_lists_def)
    then have S: "S = butlast S @ [last S]" by simp
    have bS: "buffer_rel b F (butlast S @ [last S])" using b S by simp
    obtain b1 where e: "evictFromStandbyList b = (Some (last S), b1)" using evict_rel [OF bS] by blast
    have b': "b' = prepareSegment (last S) stream sqn now b1"
      using t f n e by (subst (asm) tryAllocateFreeSegment.simps) (simp add: Let_def)
    have "changes (set F \<union> set S) b b1" using evict_changes [OF b e] by (rule changes_mono) simp
    moreover have "changes (set F \<union> set S) b1 b'"
      unfolding b' by (rule prepare_changes) (use \<open>S \<noteq> []\<close> in simp)
    moreover have "sv_standbyIndex b k = None \<longrightarrow> sv_standbyIndex b1 k = None" for k
      using e by (auto simp: evictFromStandbyList_def findStandbySegment_def notifyEncoderCacheClosed_def
          Let_def case_prod_unfold split: option.splits)
    ultimately show ?thesis using changes_trans b' prep by auto
  qed
qed

section \<open>Held segments\<close>

text \<open>
  What the holder of a segment knows of it: the key of the link it was requested with, whether
  it is being encoded, and whether it is read-only. A segment that is being encoded is marked as submitted;
  another one is marked only if it is an empty one that the encoder could not drop.
\<close>

record hold =
  ho_key :: link_key
  ho_submitted :: bool
  ho_read :: bool

definition held :: "server_buffer \<Rightarrow> nat \<Rightarrow> hold \<Rightarrow> bool" where
  "held b x h \<longleftrightarrow>
     x < sv_numSegments b \<and> isSet (sg_flags (sv_seg b x)) SgfInUse \<and> sg_next (sv_seg b x) = None \<and>
     sg_stream (sv_seg b x) \<noteq> None \<and> segKey (sv_seg b x) = ho_key h \<and>
     (ho_submitted h \<longrightarrow> sg_isSubmitted (sv_seg b x)) \<and>
     (sg_isSubmitted (sv_seg b x) \<longrightarrow> ho_submitted h \<or> \<not> ho_read h \<and> ce_rawEntryCount (sg_control (sv_seg b x)) = 0) \<and>
     (isSet (sg_flags (sv_seg b x)) SgfReadOnly \<longleftrightarrow> ho_read h)"

text \<open>
  \<open>holds H N b\<close>: the users hold the segments \<open>H\<close> of the buffer \<open>b\<close>, and no segment with
  a key in \<open>N\<close> is cached.
\<close>

definition holds :: "(nat \<Rightarrow> hold option) \<Rightarrow> link_key set \<Rightarrow> server_buffer \<Rightarrow> bool" where
  "holds H N b \<longleftrightarrow> wf_buffer b \<and> (\<forall>x h. H x = Some h \<longrightarrow> held b x h) \<and>
     (\<forall>k\<in>N. sv_standbyIndex b k = None)"

lemma holds_D:
  "holds H N b \<Longrightarrow> wf_buffer b" "holds H N b \<Longrightarrow> H x = Some h \<Longrightarrow> held b x h"
  "holds H N b \<Longrightarrow> k \<in> N \<Longrightarrow> sv_standbyIndex b k = None"
  by (auto simp: holds_def)

lemma held_in_use:
  "held b x h \<Longrightarrow> buffer_rel b F S \<Longrightarrow> x < sv_numSegments b \<and> x \<notin> set F \<and> x \<notin> set S"
  using guard_in_use [of b F S x] by (auto simp: held_def)

lemma held_frame:
  "sv_seg b' x = sv_seg b x \<Longrightarrow> sv_numSegments b' = sv_numSegments b \<Longrightarrow> held b' x h = held b x h"
  by (simp add: held_def)

lemma holds_change:
  assumes "holds H N b" and "changes P b b'" and "wf_buffer b'"
    and "\<And>x. x \<in> P \<Longrightarrow> H' x = None" and "H' \<subseteq>\<^sub>m H"
    and "\<And>k. k \<in> N' \<Longrightarrow> sv_standbyIndex b' k = None"
  shows "holds H' N' b'"
  unfolding holds_def
proof (intro conjI allI impI ballI)
  fix x h assume h: "H' x = Some h"
  then have "H x = Some h" "x \<notin> P" using assms(4,5) by (auto simp: map_le_def dom_def)
  then show "held b' x h" using holds_D(2) [OF assms(1)] assms(2) held_frame
    by (metis changes_def)
qed (use assms in auto)

lemma holds_add: "holds H N b \<Longrightarrow> held b x h \<Longrightarrow> holds (H(x \<mapsto> h)) N b"
  by (auto simp: holds_def)

lemma holds_weaken: "holds H N b \<Longrightarrow> H' \<subseteq>\<^sub>m H \<Longrightarrow> N' \<subseteq> N \<Longrightarrow> holds H' N' b"
  by (auto simp: holds_def map_le_def dom_def)

lemma holds_unused:
  assumes "holds H N b" and "buffer_rel b F S" and "x \<in> set F \<union> set S"
  shows "H x = None"
proof (rule ccontr)
  assume "H x \<noteq> None"
  then obtain h where "H x = Some h" by auto
  from held_in_use [OF holds_D(2) [OF assms(1) this] assms(2)] show False using assms(3) by simp
qed

definition keeps_holds ::
  "(nat \<Rightarrow> hold option) \<Rightarrow> link_key set \<Rightarrow> (nat \<Rightarrow> server_buffer \<Rightarrow> server_buffer) \<Rightarrow> bool" where
  "keeps_holds H N env \<longleftrightarrow> (\<forall>t b. holds H N b \<longrightarrow> holds H N (env t b))"

section \<open>The operations on held segments\<close>

lemma purge_index [simp]: "sv_standbyIndex (doPurgeSegment s b) = sv_standbyIndex b"
  by (simp add: doPurgeSegment_def enqueueToFreeList_def notifyEncoderCacheClosed_def)

lemma doFree_index:
  "sv_standbyIndex b k = None \<Longrightarrow> k \<noteq> segKey (sv_seg b x) \<Longrightarrow> sv_standbyIndex (doFreeSegment x prefetch b) k = None"
proof (cases "keepable b x")
  case True
  assume n: "sv_standbyIndex b k = None" "k \<noteq> segKey (sv_seg b x)"
  obtain c where d: "doFreeSegment x prefetch b =
      addStandbySegment x ((upd x (toCached (sv_cookie b) x prefetch) b)\<lparr>sv_ctrl := c\<rparr>)"
    using doFree_keep [OF True] by blast
  have "linkKey (segmentLink (toCached (sv_cookie b) x prefetch (sv_seg b x))) = segKey (sv_seg b x)"
    using toCached_key [of "sv_cookie b" x prefetch "sv_seg b x"] by (simp add: segKey_def)
  then show ?thesis using n unfolding d by (simp add: addStandbySegment_def Let_def)
qed (simp add: doFree_drop)

lemma release_holds:
  assumes h: "holds H N b" and b: "buffer_rel b F S" and x: "x < sv_numSegments b" "x \<notin> set F" "x \<notin> set S"
  shows "holds (H(x := None)) (N - {segKey (sv_seg b x)}) (doFreeSegment x prefetch b)"
    and "holds (H(x := None)) N (doPurgeSegment x b)"
proof -
  have none: "(H(x := None)) y = None" if "y \<in> insert x (set S)" for y
    using that holds_unused [OF h b] by auto
  have le: "H(x := None) \<subseteq>\<^sub>m H" by (simp add: map_le_def)
  show "holds (H(x := None)) (N - {segKey (sv_seg b x)}) (doFreeSegment x prefetch b)"
    by (rule holds_change [OF h doFree_changes [OF b x] doFree_wf [OF b x] none le])
      (use holds_D(3) [OF h] doFree_index in auto)
  show "holds (H(x := None)) N (doPurgeSegment x b)"
    by (rule holds_change [OF h purge_changes doPurge_wf [OF b x] none le])
      (use holds_D(3) [OF h] in auto)
qed

lemma held_release:
  assumes h: "holds H N b" and x: "H x = Some i"
  shows "holds (H(x := None)) (N - {ho_key i}) (doFreeSegment x prefetch b)"
    and "holds (H(x := None)) N (doPurgeSegment x b)"
proof -
  obtain F S where b: "buffer_rel b F S" using holds_D(1) [OF h] by (auto simp: wf_buffer_def)
  have hd: "held b x i" by (rule holds_D(2) [OF h x])
  note r = release_holds [OF h b, of x] held_in_use [OF hd b] hd
  show "holds (H(x := None)) (N - {ho_key i}) (doFreeSegment x prefetch b)"
    "holds (H(x := None)) N (doPurgeSegment x b)"
    using r by (simp_all add: held_def)
qed

lemma purge_held:
  assumes h: "holds H N b" and x: "H x = Some i"
  shows "\<exists>b'. purgeSegment x b = (Inr (), b') \<and> holds (H(x := None)) N b'"
  using held_release [OF h x] holds_D(2) [OF h x] by (simp add: purgeSegment_def held_def)

lemma free_held:
  assumes h: "holds H N b" and x: "H x = Some i" and "ho_read i \<or> ho_submitted i"
  shows "\<exists>b'. freeSegment x prefetch b = (Inr (), b') \<and> holds (H(x := None)) (N - {ho_key i}) b'"
  using held_release [OF h x] holds_D(2) [OF h x] assms(3) by (auto simp: freeSegment_def held_def)

text \<open>Staging a held segment only changes its mark.\<close>

lemma staged_held:
  assumes h: "holds H N b" and x: "H x = Some i" and g: "staged b b1 x p"
    and q: "q \<longrightarrow> p" "p \<longrightarrow> q \<or> \<not> ho_read i \<and> ce_rawEntryCount (sg_control (sv_seg b1 x)) = 0"
  shows "holds (H(x \<mapsto> i\<lparr>ho_submitted := q\<rparr>)) N b1"
proof -
  obtain F S where b: "buffer_rel b F S" using holds_D(1) [OF h] by (auto simp: wf_buffer_def)
  have hd: "held b x i" by (rule holds_D(2) [OF h x])
  have in_use: "x < sv_numSegments b" "x \<notin> set F" "x \<notin> set S" using held_in_use [OF hd b] by auto
  have w: "wf_buffer b1" using staged_rel [OF b in_use g] by (auto simp: wf_buffer_def)
  obtain c where seg: "sv_seg b1 = (sv_seg b)(x := (sv_seg b x)\<lparr>sg_control := c, sg_isSubmitted := p\<rparr>)"
    and link: "ce_link c = ce_link (sg_control (sv_seg b x))" and
    same: "sv_numSegments b1 = sv_numSegments b" "sv_standbyIndex b1 = sv_standbyIndex b"
    using g unfolding staged_def by blast
  note c = seg [THEN fun_cong, of x, unfolded fun_upd_same] link same
  have "segKey (sv_seg b1 x) = segKey (sv_seg b x)" by (rule segKey_link) (use c in simp_all)
  then have "held b1 x (i\<lparr>ho_submitted := q\<rparr>)" using hd c q by (simp add: held_def)
  moreover have "holds (H(x := None)) N b1"
    by (rule holds_change [OF h staged_changes [OF g] w])
      (use holds_D(3) [OF h] c in \<open>auto simp: map_le_def\<close>)
  ultimately show ?thesis using holds_add by fastforce
qed

lemma submit_held:
  assumes h: "holds H N b" and x: "H x = Some i" and ns: "\<not> ho_submitted i"
  shows "case submitSegment x now wr b of
      (Inl e, b') \<Rightarrow> holds H N b'
    | (Inr (False, loc), b') \<Rightarrow> holds (H(x \<mapsto> i\<lparr>ho_submitted := True\<rparr>)) N b' \<and> \<not> ho_read i \<and>
        loc = None \<and> wr = WritePending
    | (Inr (True, loc), b') \<Rightarrow>
        (loc = None \<longleftrightarrow> ho_read i) \<and> holds (H(x := None)) (N - {ho_key i}) b' \<or>
        loc = None \<and> \<not> ho_read i \<and> holds (H(x := None)) N b'"
proof (cases "sg_isSubmitted (sv_seg b x)")
  case True
  then have "\<exists>e. submitSegment x now wr b = (Inl e, b)" by (auto simp: submitSegment_def)
  then show ?thesis using h by auto
next
  case s: False
  obtain F S where b: "buffer_rel b F S" using holds_D(1) [OF h] by (auto simp: wf_buffer_def)
  have hd: "held b x i" by (rule holds_D(2) [OF h x])
  have in_use: "x < sv_numSegments b" "x \<notin> set F" "x \<notin> set S" using held_in_use [OF hd b] by auto
  obtain st where st: "sg_stream (sv_seg b x) = Some st" using hd by (auto simp: held_def)
  have ro: "isSet (sg_flags (sv_seg b x)) SgfReadOnly \<longleftrightarrow> ho_read i"
    using hd by (simp add: held_def)
  have eq: "submitSegment x now wr b = doSubmitSegment x now wr b"
    using hd s by (auto simp: submitSegment_def held_def)
  have keep: "H(x \<mapsto> i\<lparr>ho_submitted := False\<rparr>) = H"
  proof -
    have "i\<lparr>ho_submitted := False\<rparr> = i" using ns by simp
    then show ?thesis using x by auto
  qed
  have r: "holds (H(x := None)) (N - {ho_key i}) (doFreeSegment x False b1)"
    "holds (H(x := None)) N (doPurgeSegment x b1)" if "staged b b1 x True" for b1
  proof -
    have "(H(x \<mapsto> i\<lparr>ho_submitted := True\<rparr>)) x = Some (i\<lparr>ho_submitted := True\<rparr>)" by simp
    note a = held_release [OF staged_held [OF h x that, of True] this]
    show "holds (H(x := None)) (N - {ho_key i}) (doFreeSegment x False b1)" using a(1) [of False] unfolding fun_upd_upd by simp
    show "holds (H(x := None)) N (doPurgeSegment x b1)" using a(2) unfolding fun_upd_upd by simp
  qed
  have failed: "holds H N b1" if "staged b b1 x p" "p \<longrightarrow> \<not> ho_read i \<and> ce_rawEntryCount (sg_control (sv_seg b1 x)) = 0" for b1 p
    using staged_held [OF h x that(1), of False] that(2) unfolding keep by simp
  show ?thesis
    unfolding eq
    by (rule doSubmit_cases [OF b in_use st s, of now wr])
      (use staged_held [OF h x, of _ True True] failed r ro in auto)
qed

section \<open>Acquiring a segment\<close>

lemma tryAllocate_holds:
  assumes "holds H N b" and "keeps_holds H N env"
  shows "\<exists>F S. case tryAllocateFreeSegment m env stream sqn now prefetch t b of (r, b') \<Rightarrow>
    holds H N b' \<and> buffer_rel b' F S \<and>
    (\<forall>x. r = Some x \<longrightarrow> prepared stream sqn b' x \<and> x \<notin> set F \<and> x \<notin> set S \<and> H x = None)"
  using assms
proof (induction "m - t" arbitrary: t b rule: less_induct)
  case less
  obtain F S where b: "buffer_rel b F S" using holds_D(1) [OF less.prems(1)] by (auto simp: wf_buffer_def)
  show ?case
  proof (cases "alloc_lists (F, S)")
    case None
    then have e: "F = []" "S = []" by (simp_all add: alloc_lists_None)
    note b' = b [unfolded e]
    show ?thesis
    proof (cases "prefetch \<or> m \<le> t")
      case True
      then show ?thesis
        using tryAllocate_None [OF b', of m env stream sqn now prefetch t] b' less.prems(1) by auto
    next
      case False
      have "holds H N (env t b)" using less.prems by (simp add: keeps_holds_def)
      then have "\<exists>F S. case tryAllocateFreeSegment m env stream sqn now prefetch (Suc t) (env t b) of
          (r, b') \<Rightarrow> holds H N b' \<and> buffer_rel b' F S \<and>
            (\<forall>x. r = Some x \<longrightarrow> prepared stream sqn b' x \<and> x \<notin> set F \<and> x \<notin> set S \<and> H x = None)"
        using False less.prems(2) by (intro less.hyps) auto
      then show ?thesis using tryAllocate_None [OF b', of m env stream sqn now prefetch t] False by simp
    qed
  next
    case (Some a)
    then obtain x F' S' where a: "alloc_lists (F, S) = Some (x, F', S')" by (cases a) auto
    obtain b' where t: "tryAllocateFreeSegment m env stream sqn now prefetch t b = (Some x, b')"
      and r: "buffer_rel b' F' S'" "prepared stream sqn b' x" "x \<notin> set F'" "x \<notin> set S'"
      using tryAllocate_Some [OF b a] by blast
    note c = tryAllocate_changes [OF b a t]
    have out: "H y = None" if "y \<in> set F \<union> set S" for y by (rule holds_unused [OF less.prems(1) b that])
    have "x \<in> set F \<union> set S" using a by (auto simp: alloc_lists_def split: list.splits if_splits)
    moreover have "holds H N b'"
      by (rule holds_change [OF less.prems(1) conjunct1 [OF c]])
        (use c r out holds_D(3) [OF less.prems(1)] in \<open>auto simp: wf_buffer_def\<close>)
    ultimately show ?thesis using t r out by (intro exI [of _ F'] exI [of _ S']) simp
  qed
qed

text \<open>The link a segment is requested with, as the index sees it.\<close>

definition streamKey :: "stream_ref \<Rightarrow> u32 \<Rightarrow> link_key" where
  "streamKey st sqn = linkKey \<lparr>sk_store = sr_store st, sk_stream = sr_id st, sk_sequenceNumber = sqn\<rparr>"

lemma streamKey_inj: "streamKey st sqn = streamKey st sqn' \<longleftrightarrow> sqn = sqn'"
  by (auto simp: streamKey_def linkKey_def)

lemma prepared_key:
  assumes "prepared (Some st) sqn b x"
  shows "segKey (sv_seg b x) = streamKey st sqn"
proof -
  have "ce_link (sg_control (sv_seg b x)) = \<lparr>ln_stream = sr_id st, ln_sequenceNumber = sqn\<rparr>"
    "sg_stream (sv_seg b x) = Some st"
    using assms unfolding prepared_def by (metis option.case(2))+
  then show ?thesis by (simp add: segKey_def segmentLink_def streamKey_def)
qed

text \<open>A hit: the segment comes off the standby list, read-only and not submitted.\<close>

lemma hit_holds:
  assumes h: "holds H N b" and r: "removeStandbySegment link b = (Some x, b')"
  shows "H x = None \<and> linkKey link \<notin> N \<and>
    holds (H(x \<mapsto> \<lparr>ho_key = linkKey link, ho_submitted = False, ho_read = True\<rparr>)) N b'"
proof -
  obtain F S where b: "buffer_rel b F S" using holds_D(1) [OF h] by (auto simp: wf_buffer_def)
  have idx: "sv_standbyIndex b (linkKey link) = Some x"
    using r by (auto simp: removeStandbySegment_def findStandbySegment_def split: option.splits)
  then have x: "x \<in> set S" and key: "segKey (sv_seg b x) = linkKey link" using rel_index [OF b] by simp_all
  obtain A B where S: "S = A @ x # B" using split_list [OF x] by blast
  have b2: "buffer_rel b F (A @ x # B)" using b S by simp
  have r': "buffer_rel b' F (A @ B)" and same: "same_static (sv_seg b' x) (sv_seg b x)"
    and ns: "\<not> sg_isSubmitted (sv_seg b' x)"
    using remove_hit [OF b2 key] r by auto
  have c: "changes (set S) b b'" by (rule removeStandby_changes [OF b r])
  have dist: "x \<notin> set F" "x \<notin> set (A @ B)" "x < sv_numSegments b" using b2 by (auto simp: buffer_rel_def)
  have i': "sv_standbyIndex b' = (sv_standbyIndex b)(linkKey link := None)"
    using r idx by (auto simp: removeStandbySegment_def findStandbySegment_def)
  have out: "H y = None" if "y \<in> set S" for y using holds_unused [OF h b] that by simp
  have hb': "holds H N b'"
    by (rule holds_change [OF h c])
      (use r' out i' holds_D(3) [OF h] in \<open>auto simp: wf_buffer_def\<close>)
  have cached: "seg_cached (sv_cookie b) x (sv_seg b x)" using b x by (simp add: buffer_rel_def)
  have n': "sv_numSegments b' = sv_numSegments b" using c by (simp add: changes_def)
  have "seg_used (sv_cookie b') x (sv_seg b' x)" by (rule rel_used [OF r' _ dist(1,2)]) (use dist n' in simp)
  then have "held b' x \<lparr>ho_key = linkKey link, ho_submitted = False, ho_read = True\<rparr>"
    using cached same same_static_key [OF same] key ns dist n'
    by (simp add: held_def seg_used_def seg_cached_def same_static_def)
  then show ?thesis using holds_add [OF hb'] out [OF x] holds_D(3) [OF h, of "linkKey link"] idx by auto
qed

lemma setup_changes:
  "s \<in> P \<Longrightarrow> changes P b (setupRead s flags loc b)" "s \<in> P \<Longrightarrow> changes P b (setupWrite s scratch b)"
  by (simp_all add: setupRead_def setupWrite_def Let_def changes_upd)

lemma setup_state [simp]:
  "sv_standbyIndex (setupRead s flags loc b) = sv_standbyIndex b"
  "sv_standbyIndex (setupWrite s scratch b) = sv_standbyIndex b"
  "sg_isSubmitted (sv_seg (setupRead s flags loc b) s) = sg_isSubmitted (sv_seg b s)"
  "sg_isSubmitted (sv_seg (setupWrite s scratch b) s) = sg_isSubmitted (sv_seg b s)"
  "isSet (sg_flags (sv_seg (setupRead s flags loc b) s)) SgfReadOnly"
  "isSet (sg_flags (sv_seg (setupWrite s scratch b) s)) SgfReadOnly = isSet (sg_flags (sv_seg b s)) SgfReadOnly"
  by (simp_all add: setupRead_def setupWrite_def Let_def)

text \<open>
  The setup of an allocated segment: it is held from here on, read-only if it is for a load.
\<close>

lemma setup_holds:
  assumes h: "holds H N b" and b: "buffer_rel b F S" and p: "prepared (Some st) sqn b x"
    and x: "x \<notin> set F" "x \<notin> set S" and n: "H x = None"
  shows "holds (H(x \<mapsto> \<lparr>ho_key = streamKey st sqn, ho_submitted = False, ho_read = True\<rparr>)) N
      (setupRead x flags loc b)"
    and "holds (H(x \<mapsto> \<lparr>ho_key = streamKey st sqn, ho_submitted = False, ho_read = False\<rparr>)) N
      (setupWrite x False b)"
proof -
  have xn: "x < sv_numSegments b" and ns: "\<not> sg_isSubmitted (sv_seg b x)" and
    nr: "\<not> isSet (sg_flags (sv_seg b x)) SgfReadOnly"
    using p by (simp_all add: prepared_def)
  have step: "holds (H(x \<mapsto> \<lparr>ho_key = streamKey st sqn, ho_submitted = False, ho_read = ro\<rparr>)) N b'"
    if r: "buffer_rel b' F S" and c: "changes {x} b b'" and i: "sv_standbyIndex b' = sv_standbyIndex b"
      and sk: "sg_stream (sv_seg b' x) = Some st" "segKey (sv_seg b' x) = streamKey st sqn"
      and f: "sg_isSubmitted (sv_seg b' x) = sg_isSubmitted (sv_seg b x)"
        "isSet (sg_flags (sv_seg b' x)) SgfReadOnly = ro" for b' ro
  proof -
    have "sv_numSegments b' = sv_numSegments b" using c by (simp add: changes_def)
    then have "seg_used (sv_cookie b') x (sv_seg b' x)" "x < sv_numSegments b'"
      using rel_used [OF r _ x] xn by simp_all
    then have hd: "held b' x \<lparr>ho_key = streamKey st sqn, ho_submitted = False, ho_read = ro\<rparr>"
      using sk f ns by (simp add: held_def seg_used_def)
    have "holds H N b'"
      by (rule holds_change [OF h c]) (use r i n holds_D(3) [OF h] in \<open>auto simp: wf_buffer_def\<close>)
    from holds_add [OF this hd] show ?thesis .
  qed
  note q = setupRead_rel [OF b xn x p, of flags loc]
  have "segKey (sv_seg (setupRead x flags loc b) x) = streamKey st sqn"
    using q by (simp add: segKey_def segmentLink_def streamKey_def)
  then show "holds (H(x \<mapsto> \<lparr>ho_key = streamKey st sqn, ho_submitted = False, ho_read = True\<rparr>)) N
      (setupRead x flags loc b)"
    by (intro step) (use q setup_changes in auto)
  note w = setupWrite_rel [OF b xn x p]
  have "segKey (sv_seg (setupWrite x False b) x) = segKey (sv_seg b x)"
    by (rule segKey_cong) (simp_all add: setupWrite_def)
  then show "holds (H(x \<mapsto> \<lparr>ho_key = streamKey st sqn, ho_submitted = False, ho_read = False\<rparr>)) N
      (setupWrite x False b)"
    by (intro step) (use w nr setup_changes prepared_key [OF p] in auto)
qed

text \<open>A request as a user of the pool sees it: \<open>location\<close> tells a load from a new segment.\<close>

lemma doRequest_holds:
  assumes h: "holds H N b" and k: "keeps_holds H N (rq_env e)"
    and fresh: "location = None \<Longrightarrow> streamKey st sqn \<in> N"
  shows "case doRequestSegment e (Some st) sqn flags location prefetch rd b of
      (Inl ex, b') \<Rightarrow> location \<noteq> None \<and> rd = ReadThrow ex \<and> holds H N b'
    | (Inr (c, None), b') \<Rightarrow> c \<and> holds H N b'
    | (Inr (c, Some x), b') \<Rightarrow> (c \<or> location \<noteq> None \<and> rd = ReadPending) \<and> H x = None \<and>
        holds (H(x \<mapsto> \<lparr>ho_key = streamKey st sqn, ho_submitted = False, ho_read = (location \<noteq> None)\<rparr>)) N b' \<and>
        (location = None \<longrightarrow> \<not> sg_isSubmitted (sv_seg b' x))"
proof -
  let ?link = "\<lparr>sk_store = sr_store st, sk_stream = sr_id st, sk_sequenceNumber = sqn\<rparr>"
  obtain hit b0 where rm: "removeStandbySegment ?link b = (hit, b0)" by fastforce
  show ?thesis
  proof (cases hit)
    case (Some x)
    note r = hit_holds [OF h rm [unfolded Some]]
    then have "location \<noteq> None" using fresh by (auto simp: streamKey_def)
    moreover have "doRequestSegment e (Some st) sqn flags location prefetch rd b = (Inr (True, Some x), b0)"
      using rm Some by (simp add: doRequestSegment_def)
    ultimately show ?thesis using r by (cases location) (simp_all add: streamKey_def)
  next
    case None
    then have same: "b0 = b"
      using rm by (auto simp: removeStandbySegment_def findStandbySegment_def split: option.splits)
    have m: "removeStandbySegment \<lparr>sk_store = sr_store st', sk_stream = sr_id st', sk_sequenceNumber = sqn\<rparr> b = (None, b)"
      if "Some st = Some st'" for st' using rm None same that by simp
    obtain r b1 where t: "tryAllocateFreeSegment (rq_maxRetryCount e) (rq_env e) (Some st) sqn (rq_now e) prefetch 1 b = (r, b1)"
      by fastforce
    obtain F S where a: "holds H N b1" "buffer_rel b1 F S"
      "\<forall>x. r = Some x \<longrightarrow> prepared (Some st) sqn b1 x \<and> x \<notin> set F \<and> x \<notin> set S \<and> H x = None"
      using tryAllocate_holds [OF h k, where m = "rq_maxRetryCount e" and stream = "Some st" and sqn = sqn
          and now = "rq_now e" and prefetch = prefetch and t = 1] t by auto
    note d = doRequest_miss [OF m t, of flags location rd]
    show ?thesis
    proof (cases r)
      case None
      then show ?thesis using d a(1) by simp
    next
      case (Some x)
      then have x: "prepared (Some st) sqn b1 x" "x \<notin> set F" "x \<notin> set S" "H x = None" using a(3) by auto
      note s = setup_holds [OF a(1,2) x]
      show ?thesis
      proof (cases location)
        case None
        moreover have "\<not> sg_isSubmitted (sv_seg (setupWrite x False b1) x)"
          using x(1) by (simp add: prepared_def setupWrite_def)
        ultimately show ?thesis using d Some s(2) x(4) by simp
      next
        case (Some loc)
        let ?h = "\<lparr>ho_key = streamKey st sqn, ho_submitted = False, ho_read = True\<rparr>"
        have p: "(H(x \<mapsto> ?h)) x = Some ?h" by simp
        have "H(x := None) = H" using x(4) by auto
        then have "holds H N (doPurgeSegment x (setupRead x flags loc b1))"
          using held_release(2) [OF s(1) p] unfolding fun_upd_upd by simp
        moreover have "holds H' N (b\<lparr>sv_data := m\<rparr>) = holds H' N b" for H' m and b :: server_buffer
          by (simp add: holds_def held_def)
        ultimately show ?thesis using d \<open>r = Some x\<close> Some s(1) x(4) by (cases rd) (simp_all add: Let_def)
      qed
    qed
  qed
qed

lemma request_unmarked:
  assumes "holds H N b" and "keeps_holds H N (rq_env e)" and "streamKey st sqn \<in> N"
    and "requestSegment e st sqn b = (Inr (c, Some x), b')"
  shows "\<not> sg_isSubmitted (sv_seg b' x)"
  using doRequest_holds [OF assms(1,2), where location = None and st = st and sqn = sqn and flags = SafNone and
      prefetch = False and rd = ReadPending] assms(3,4)
  by (simp add: requestSegment_def split: if_splits)

lemma startIndex_holds:
  assumes h: "holds H N b" and x: "H x = Some i" and "\<not> ho_read i" and "\<not> sg_isSubmitted (sv_seg b x)"
  shows "\<exists>c. serverGetControlElement x b = Inr (Inr x) \<and> holds H N (b\<lparr>sv_ctrl := c\<rparr>)"
proof -
  have "serverGetControlElement x b = Inr (Inr x)"
    using holds_D(2) [OF h x] assms(3,4) by (simp add: serverGetControlElement_def held_def)
  moreover have "holds H N (b\<lparr>sv_ctrl := c\<rparr>)" for c
    using h by (simp add: holds_def held_def wf_buffer_def)
  ultimately show ?thesis by blast
qed

section \<open>The interface\<close>

text \<open>
  The contract between a pool of segments and its users. \<open>inv H N b\<close> says that the pool \<open>b\<close>
  is intact, that its users hold \<open>H\<close>, and that it caches no segment with a key in \<open>N\<close>;
  \<open>quiet e H N\<close> says that what the other threads do in the environment \<open>e\<close> keeps that.
\<close>

abbreviation newHold :: "link_key \<Rightarrow> bool \<Rightarrow> hold" where
  "newHold k ro \<equiv> \<lparr>ho_key = k, ho_submitted = False, ho_read = ro\<rparr>"

locale segment_pool =
  fixes inv :: "(nat \<Rightarrow> hold option) \<Rightarrow> link_key set \<Rightarrow> 'b \<Rightarrow> bool"
    and quiet :: "'e \<Rightarrow> (nat \<Rightarrow> hold option) \<Rightarrow> link_key set \<Rightarrow> bool"
    and keyOf :: "'s \<Rightarrow> u32 \<Rightarrow> link_key"
    and sqnOf :: "'r \<Rightarrow> u32"
    and request :: "'e \<Rightarrow> 's \<Rightarrow> u32 \<Rightarrow> 'b \<Rightarrow> (bool \<times> nat option) res \<times> 'b"
    and fetch :: "'e \<Rightarrow> 's \<Rightarrow> 'r \<Rightarrow> 'b \<Rightarrow> (bool \<times> nat option) res \<times> 'b"
    and submit :: "nat \<Rightarrow> 'w \<Rightarrow> 'b \<Rightarrow> submit_result \<times> 'b"
    and release :: "nat \<Rightarrow> bool \<Rightarrow> 'b \<Rightarrow> unit res \<times> 'b"
    and discard :: "nat \<Rightarrow> 'b \<Rightarrow> unit res \<times> 'b"
  assumes key_inj: "keyOf st sqn = keyOf st sqn' \<Longrightarrow> sqn = sqn'"
    and request_law: "inv H N b \<Longrightarrow> quiet e H N \<Longrightarrow> keyOf st sqn \<in> N \<Longrightarrow>
      case request e st sqn b of
        (Inl ex, b') \<Rightarrow> b' = b
      | (Inr (c, None), b') \<Rightarrow> c \<and> inv H N b'
      | (Inr (c, Some x), b') \<Rightarrow> c \<and> H x = None \<and> inv (H(x \<mapsto> newHold (keyOf st sqn) False)) N b'"
    and fetch_law: "inv H N b \<Longrightarrow> quiet e H N \<Longrightarrow>
      case fetch e st r b of
        (Inl ex, b') \<Rightarrow> inv H N b'
      | (Inr (c, None), b') \<Rightarrow> c \<and> inv H N b'
      | (Inr (c, Some x), b') \<Rightarrow> H x = None \<and> inv (H(x \<mapsto> newHold (keyOf st (sqnOf r)) True)) N b'"
    and submit_law: "inv H N b \<Longrightarrow> H x = Some i \<Longrightarrow> \<not> ho_submitted i \<Longrightarrow>
      case submit x w b of
        (Inl e, b') \<Rightarrow> inv H N b'
      | (Inr (False, loc), b') \<Rightarrow> inv (H(x \<mapsto> i\<lparr>ho_submitted := True\<rparr>)) N b' \<and> \<not> ho_read i \<and> loc = None
      | (Inr (True, loc), b') \<Rightarrow>
          (loc = None \<longleftrightarrow> ho_read i) \<and> inv (H(x := None)) (N - {ho_key i}) b' \<or>
          loc = None \<and> \<not> ho_read i \<and> inv (H(x := None)) N b'"
    and release_law: "inv H N b \<Longrightarrow> H x = Some i \<Longrightarrow> ho_read i \<or> ho_submitted i \<Longrightarrow>
      \<exists>b'. release x prefetch b = (Inr (), b') \<and> inv (H(x := None)) (N - {ho_key i}) b'"
    and discard_law: "inv H N b \<Longrightarrow> H x = Some i \<Longrightarrow>
      \<exists>b'. discard x b = (Inr (), b') \<and> inv (H(x := None)) N b'"
begin

text \<open>Two users of one pool: what one of them gets is new to both, and the other keeps his.\<close>

lemma request_other_user:
  assumes "inv (H1 ++ H2) N b" and "quiet e (H1 ++ H2) N" and "keyOf st sqn \<in> N"
    and "request e st sqn b = (Inr (c, Some x), b')"
  shows "x \<notin> dom H1 \<and> x \<notin> dom H2 \<and> inv (H1(x \<mapsto> newHold (keyOf st sqn) False) ++ H2) N b'"
proof -
  have r: "(H1 ++ H2) x = None" "inv ((H1 ++ H2)(x \<mapsto> newHold (keyOf st sqn) False)) N b'"
    using request_law [OF assms(1-3)] assms(4) by simp_all
  then have "x \<notin> dom H1" "x \<notin> dom H2" by auto
  moreover from this have "(H1 ++ H2)(x \<mapsto> newHold (keyOf st sqn) False) =
      H1(x \<mapsto> newHold (keyOf st sqn) False) ++ H2"
    by (simp add: map_add_upd_left)
  ultimately show ?thesis using r by simp
qed

text \<open>
  A write from the request to the asynchronous completion: the submission can only fail or go
  on, and the release behind it takes the segment out of the user's hands and into the cache.
\<close>

lemma write_session:
  assumes "inv H N b" and "quiet e H N" and "keyOf st sqn \<in> N"
    and "request e st sqn b = (Inr (c, Some x), b1)"
    and "submit x w b1 = (Inr (False, loc), b2)"
  shows "\<exists>b3. release x prefetch b2 = (Inr (), b3) \<and> inv H (N - {keyOf st sqn}) b3"
proof -
  let ?h = "newHold (keyOf st sqn) False"
  have n: "H x = None" and r: "inv (H(x \<mapsto> ?h)) N b1"
    using request_law [OF assms(1-3)] assms(4) by simp_all
  have "(H(x \<mapsto> ?h)) x = Some ?h" "\<not> ho_submitted ?h" by simp_all
  from submit_law [OF r this, of w] have s: "inv (H(x \<mapsto> ?h\<lparr>ho_submitted := True\<rparr>)) N b2"
    using assms(5) by simp
  have "(H(x \<mapsto> ?h\<lparr>ho_submitted := True\<rparr>)) x = Some (?h\<lparr>ho_submitted := True\<rparr>)" by simp
  from release_law [OF s this, of prefetch] obtain b3 where "release x prefetch b2 = (Inr (), b3)"
    "inv (H(x := None)) (N - {keyOf st sqn}) b3" by (auto simp del: fun_upd_apply)
  moreover have "H(x := None) = H" using n by auto
  ultimately show ?thesis by simp
qed

text \<open>
  A read from the load to the close. The client can make the close fail by overwriting the
  control element of the segment; then it can be discarded.
\<close>

lemma read_session:
  assumes "inv H N b" and "quiet e H N"
    and "fetch e st r b = (Inr (c, Some x), b1)"
  shows "case submit x w b1 of
      (Inl ex, b2) \<Rightarrow> \<exists>b3. discard x b2 = (Inr (), b3) \<and> inv H N b3
    | (Inr (done, loc), b2) \<Rightarrow> done \<and> loc = None \<and> inv H (N - {keyOf st (sqnOf r)}) b2"
proof -
  let ?h = "newHold (keyOf st (sqnOf r)) True"
  have n: "H x = None" and f: "inv (H(x \<mapsto> ?h)) N b1"
    using fetch_law [OF assms(1,2), of st r] assms(3) by simp_all
  have p: "(H(x \<mapsto> ?h)) x = Some ?h" "\<not> ho_submitted ?h" by simp_all
  have H: "H(x \<mapsto> ?h, x := None) = H" using n by auto
  have d: "\<exists>b3. discard x b2 = (Inr (), b3) \<and> inv H N b3" if "inv (H(x \<mapsto> ?h)) N b2" for b2
    using discard_law [OF that p(1)] unfolding H by blast
  show ?thesis
    using submit_law [OF f p, of w] d unfolding H
    by (auto simp del: fun_upd_apply split: prod.splits sum.splits bool.splits)
qed

end

interpretation pool: segment_pool holds "\<lambda>e H N. keeps_holds H N (rq_env e)" streamKey
  "\<lambda>(flags, location, prefetch, rd). ln_sequenceNumber (sl_link location)"
  requestSegment
  "\<lambda>e st (flags, location, prefetch, rd). openSegment e st flags location prefetch rd"
  "\<lambda>x (now, wr). submitSegment x now wr" freeSegment purgeSegment
proof (unfold_locales, goal_cases)
  case (1 st sqn sqn')
  then show ?case by (simp add: streamKey_inj)
next
  case (2 H N b e st sqn)
  then show ?case
    using doRequest_holds [where H = H and N = N and b = b and e = e and location = None and st = st and
        sqn = sqn and flags = SafNone and prefetch = False and rd = ReadPending]
    by (auto simp del: fun_upd_apply simp add: requestSegment_def split: prod.splits sum.splits option.splits)
next
  case (3 H N b e st r)
  obtain flags location prefetch rd where "r = (flags, location, prefetch, rd)" by (cases r)
  then show ?case
    using doRequest_holds [OF 3, where location = "Some location" and st = st and flags = flags and
        sqn = "ln_sequenceNumber (sl_link location)" and prefetch = prefetch and rd = rd]
    by (auto simp del: fun_upd_apply simp add: openSegment_def split: prod.splits sum.splits option.splits)
next
  case (4 H N b x i w)
  then show ?case
    using submit_held [OF 4, where now = "fst w" and wr = "snd w"]
    by (cases w) (auto simp del: fun_upd_apply split: prod.splits sum.splits bool.splits)
next
  case 5
  then show ?case by (rule free_held)
next
  case 6
  then show ?case by (rule purge_held)
qed

end
