(* ===== verification/Server_Stream.thy ===== *)
theory Server_Stream
  imports Server_Buffer
begin

text \<open>
  A stream on the server (\<open>storageserver/ServerStream.cpp\<close>): the table of its segments, the
  list of the open ones, the index trees, the append state and the statistics, and the
  operations to append, add, open, complete and close segments. The stream works on the server
  stream buffer it belongs to, which is a part of its state here. The model is that of a
  release build; the locks make every operation below one step, and where the code lets go
  of a lock, what may happen in between is an argument.

  A \<open>SegmentLocation*\<close> is the sequence number of the slot that holds it, a \<open>SegmentId\<close> is
  \<open>None\<close> for \<open>INVALID_SEGMENT_ID\<close>, a \<open>StreamWait*\<close> is a number.
\<close>

section \<open>Wait contexts\<close>

text \<open>\<open>simubase/WaitContext.h\<close>, instantiated for links. Only \<open>wait\<close> blocks.\<close>

record wait_context =
  wc_count :: u32
  wc_errors :: "StreamSegmentLink list"

definition wc_increment :: "wait_context \<Rightarrow> wait_context" where
  "wc_increment w = w\<lparr>wc_count := wc_count w + 1\<rparr>"

definition wc_decrement :: "wait_context \<Rightarrow> wait_context" where
  "wc_decrement w = w\<lparr>wc_count := wc_count w - 1\<rparr>"

definition wc_pushError :: "StreamSegmentLink \<Rightarrow> wait_context \<Rightarrow> wait_context" where
  "wc_pushError e w = w\<lparr>wc_errors := wc_errors w @ [e]\<rparr>"

text \<open>The value of \<open>wait\<close>, \<open>None\<close> as long as it blocks.\<close>

definition wc_wait :: "wait_context \<Rightarrow> bool option" where
  "wc_wait w = (if 0 < wc_count w then None else Some (wc_errors w = []))"

section \<open>The state\<close>

record segment_location =
  lc_sequenceNumber :: u32
  lc_location :: "StorageLocation option"
  lc_id :: "nat option"
  lc_sideId :: "nat option"
  lc_cancel :: bool
  lc_prefetched :: bool
  lc_referenceCount :: u32
  lc_referenceMap :: "u32 \<Rightarrow> u32 option"
  lc_waitList :: "nat list"

text \<open>The two constructors: a segment that is written, and one that is on disk already.\<close>

definition newLocation :: "u32 \<Rightarrow> u32 \<Rightarrow> nat \<Rightarrow> segment_location" where
  "newLocation sequenceNumber session buffer =
     \<lparr>lc_sequenceNumber = sequenceNumber, lc_location = None, lc_id = Some buffer, lc_sideId = None,
      lc_cancel = False, lc_prefetched = False, lc_referenceCount = 1,
      lc_referenceMap = [session \<mapsto> 1], lc_waitList = []\<rparr>"

definition storedLocation :: "u32 \<Rightarrow> StorageLocation \<Rightarrow> segment_location" where
  "storedLocation sequenceNumber loc =
     \<lparr>lc_sequenceNumber = sequenceNumber, lc_location = Some loc, lc_id = None, lc_sideId = None,
      lc_cancel = False, lc_prefetched = False, lc_referenceCount = 0,
      lc_referenceMap = Map.empty, lc_waitList = []\<rparr>"

text \<open>
  An index tree is a \<open>std::set\<close> of pointers to the ranges inside of the storage locations,
  ordered by the start of the range; the element is the location that holds the range.
  \<open>ss_notified\<close> records the calls of \<open>notifySegmentClosed\<close> to the encoder.
\<close>

record server_stream =
  ss_ref :: stream_ref
  ss_segments :: "segment_location option list"
  ss_openList :: "u32 list"
  ss_trees :: "IndexTree \<Rightarrow> StorageLocation list"
  ss_lastSequenceNumber :: u32
  ss_lastAppendSequenceNumber :: u32
  ss_lastAppendIndex :: u64
  ss_stats :: StreamStatistics
  ss_readAheadAmount :: u32
  ss_notified :: "u32 list"
  ss_waits :: "nat \<Rightarrow> wait_context"
  ss_buffer :: server_buffer

definition newServerStream :: "stream_ref \<Rightarrow> u32 \<Rightarrow> (nat \<Rightarrow> wait_context) \<Rightarrow> server_buffer \<Rightarrow> server_stream" where
  "newServerStream ref readAhead waits b =
     \<lparr>ss_ref = ref, ss_segments = [], ss_openList = [], ss_trees = (\<lambda>_. []),
      ss_lastSequenceNumber = INVALID_STREAM_SEGMENT_ID,
      ss_lastAppendSequenceNumber = INVALID_STREAM_SEGMENT_ID, ss_lastAppendIndex = 0,
      ss_stats = stats_init, ss_readAheadAmount = readAhead, ss_notified = [], ss_waits = waits,
      ss_buffer = b\<rparr>"

definition locAt :: "u32 \<Rightarrow> server_stream \<Rightarrow> segment_location" where
  "locAt sqn s = the (ss_segments s ! unat sqn)"

definition updLoc :: "u32 \<Rightarrow> (segment_location \<Rightarrow> segment_location) \<Rightarrow> server_stream \<Rightarrow> server_stream" where
  "updLoc sqn f s =
     s\<lparr>ss_segments := (ss_segments s)[unat sqn := map_option f (ss_segments s ! unat sqn)]\<rparr>"

definition updWait :: "nat option \<Rightarrow> (wait_context \<Rightarrow> wait_context) \<Rightarrow> server_stream \<Rightarrow> server_stream" where
  "updWait wait f s =
     (case wait of None \<Rightarrow> s
      | Some w \<Rightarrow> s\<lparr>ss_waits := (ss_waits s)(w := f (ss_waits s w))\<rparr>)"

text \<open>\<open>if (wait != nullptr) { wait->increment(); loc->waitList.push_back(wait); }\<close>\<close>

definition enlist :: "nat option \<Rightarrow> u32 \<Rightarrow> server_stream \<Rightarrow> server_stream" where
  "enlist wait sqn s =
     (case wait of None \<Rightarrow> s
      | Some w \<Rightarrow> updLoc sqn (\<lambda>l. l\<lparr>lc_waitList := lc_waitList l @ [w]\<rparr>) (updWait wait wc_increment s))"

definition segmentIsAllocated :: "u32 \<Rightarrow> server_stream \<Rightarrow> bool" where
  "segmentIsAllocated sqn s \<longleftrightarrow>
     unat sqn < length (ss_segments s) \<and> ss_segments s ! unat sqn \<noteq> None"

section \<open>The segment table\<close>

definition addSegmentLocation :: "segment_location \<Rightarrow> server_stream \<Rightarrow> server_stream" where
  "addSegmentLocation loc s =
     (let sqn = lc_sequenceNumber loc;
          slots = ss_segments s @ replicate (Suc (unat sqn) - length (ss_segments s)) None;
          s1 = s\<lparr>ss_segments := slots[unat sqn := Some loc]\<rparr>;
          s2 = (if 0 < lc_referenceCount loc then s1\<lparr>ss_openList := ss_openList s1 @ [sqn]\<rparr> else s1)
      in if ss_lastSequenceNumber s2 < sqn \<or> ss_lastSequenceNumber s2 = INVALID_STREAM_SEGMENT_ID
         then s2\<lparr>ss_lastSequenceNumber := sqn\<rparr> else s2)"

text \<open>The loops that skip the holes in the table.\<close>

fun prevIn :: "segment_location option list \<Rightarrow> nat \<Rightarrow> segment_location option" where
  "prevIn segs 0 = None"
| "prevIn segs (Suc n) = (case segs ! n of None \<Rightarrow> prevIn segs n | Some l \<Rightarrow> Some l)"

definition getPreviousSegment :: "u32 \<Rightarrow> server_stream \<Rightarrow> segment_location option" where
  "getPreviousSegment sqn s =
     (if ss_lastSequenceNumber s < sqn then prevIn (ss_segments s) (unat (ss_lastSequenceNumber s))
      else if ss_lastSequenceNumber s = INVALID_STREAM_SEGMENT_ID then None
      else prevIn (ss_segments s) (unat sqn))"

function nextIn :: "segment_location option list \<Rightarrow> nat \<Rightarrow> segment_location option" where
  "nextIn segs i =
     (if length segs \<le> i then None
      else case segs ! i of Some l \<Rightarrow> Some l | None \<Rightarrow> nextIn segs (Suc i))"
  by pat_completeness auto
termination
  by (relation "measure (\<lambda>(segs, i). length segs - i)") auto

declare nextIn.simps [simp del]

definition getNextSegment :: "u32 \<Rightarrow> server_stream \<Rightarrow> segment_location option" where
  "getNextSegment sqn s = nextIn (ss_segments s) (unat (sqn + 1))"

section \<open>The index\<close>

abbreviation treeStart :: "IndexTree \<Rightarrow> StorageLocation \<Rightarrow> u64" where
  "treeStart t l \<equiv> rg_start (ranges (sl_ranges l) t)"

abbreviation treeEnd :: "IndexTree \<Rightarrow> StorageLocation \<Rightarrow> u64" where
  "treeEnd t l \<equiv> rg_end (ranges (sl_ranges l) t)"

text \<open>\<open>std::set::insert\<close>: an element with an equal key stays and the new one is dropped.\<close>

fun treeInsert :: "IndexTree \<Rightarrow> StorageLocation \<Rightarrow> StorageLocation list \<Rightarrow> StorageLocation list" where
  "treeInsert t l [] = [l]"
| "treeInsert t l (x # xs) =
     (if treeStart t l < treeStart t x then l # x # xs
      else if treeStart t l = treeStart t x then x # xs
      else x # treeInsert t l xs)"

definition validRange :: "Range \<Rightarrow> bool" where
  "validRange r \<longleftrightarrow> rg_start r \<noteq> INVALID_LARGE_OBJECT_ID \<and> rg_end r \<noteq> INVALID_LARGE_OBJECT_ID"

definition normRange :: "Range \<Rightarrow> Range" where
  "normRange r = (if validRange r then r else invalidRange)"

definition allTrees :: "IndexTree list" where
  "allTrees = [QIndex, QCycleCount, QRealTime]"

definition normLocation :: "StorageLocation \<Rightarrow> StorageLocation" where
  "normLocation l =
     l\<lparr>sl_ranges := fold (\<lambda>t r. ranges_update t (normRange (ranges r t)) r) allTrees (sl_ranges l)\<rparr>"

text \<open>
  The condition of the monotonicity exception for one index, with the storage locations of the
  previous and of the next segment (if they have one).
\<close>

definition violatesOrder ::
  "IndexTree \<Rightarrow> StorageLocation \<Rightarrow> StorageLocation option \<Rightarrow> StorageLocation option \<Rightarrow> bool" where
  "violatesOrder t l ploc nloc \<longleftrightarrow>
     (let r = ranges (sl_ranges l) t in
      if validRange r then
        rg_end r < rg_start r \<or>
        (case ploc of None \<Rightarrow> False
         | Some p \<Rightarrow> treeStart t p = treeEnd t p \<and> rg_start r \<le> treeEnd t p) \<or>
        (case nloc of None \<Rightarrow> False
         | Some n \<Rightarrow> treeStart t n = treeEnd t n \<and> treeStart t n \<le> rg_end r)
      else
        (case ploc of None \<Rightarrow> False | Some p \<Rightarrow> treeStart t p \<noteq> INVALID_LARGE_OBJECT_ID) \<or>
        (case nloc of None \<Rightarrow> False | Some n \<Rightarrow> treeStart t n \<noteq> INVALID_LARGE_OBJECT_ID))"

definition statRange :: "Range \<Rightarrow> Range \<Rightarrow> Range" where
  "statRange r st =
     (let st1 = (if rg_start r < rg_start st then st\<lparr>rg_start := rg_start r\<rparr> else st)
      in if rg_end st1 < rg_end r \<or> rg_end st1 = INVALID_LARGE_OBJECT_ID
         then st1\<lparr>rg_end := rg_end r\<rparr> else st1)"

definition indexTree :: "StorageLocation \<Rightarrow> IndexTree \<Rightarrow> server_stream \<Rightarrow> server_stream" where
  "indexTree l t s =
     (let r = ranges (sl_ranges l) t in
      if validRange r then
        s\<lparr>ss_trees := (ss_trees s)(t := treeInsert t l (ss_trees s t)),
          ss_stats := (ss_stats s)\<lparr>st_ranges :=
            ranges_update t (statRange r (ranges (st_ranges (ss_stats s)) t)) (st_ranges (ss_stats s))\<rparr>\<rparr>
      else s)"

text \<open>The last part of \<open>_addSegment\<close>: the trees and the statistics.\<close>

definition indexLocation :: "StorageLocation \<Rightarrow> server_stream \<Rightarrow> server_stream" where
  "indexLocation l s =
     (let s1 = fold (indexTree l) allTrees s
      in s1\<lparr>ss_stats := (ss_stats s1)
             \<lparr>st_compressedSize := st_compressedSize (ss_stats s1) + sl_compressedSize l,
              st_entryCount := st_entryCount (ss_stats s1) + ucast (getEntryCount l),
              st_rawEntryCount := st_rawEntryCount (ss_stats s1) + ucast (sl_rawEntryCount l)\<rparr>\<rparr>)"

definition neighbours :: "u32 \<Rightarrow> server_stream \<Rightarrow> StorageLocation option \<times> StorageLocation option" where
  "neighbours sqn s =
     (Option.bind (getPreviousSegment sqn s) lc_location, Option.bind (getNextSegment sqn s) lc_location)"

text \<open>
  \<open>_addSegment\<close>. When it throws, the stream is unchanged and the caller keeps the location.
\<close>

definition addSegment_internal :: "u32 \<Rightarrow> StorageLocation \<Rightarrow> server_stream \<Rightarrow> unit res \<times> server_stream" where
  "addSegment_internal sqn location s =
     (let (ploc, nloc) = neighbours sqn s in
      if \<exists>t\<in>set allTrees. violatesOrder t location ploc nloc then (Inl GenericException, s)
      else
        (let l = normLocation location;
             s1 = (if \<not> segmentIsAllocated sqn s then
                     (let s0 = addSegmentLocation (storedLocation sqn l) s
                      in if ss_lastAppendIndex s0 < treeStart QIndex l
                         then s0\<lparr>ss_lastAppendIndex := treeStart QIndex l\<rparr> else s0)
                   else updLoc sqn (\<lambda>lc. lc\<lparr>lc_location := Some l\<rparr>) s)
         in (Inr (), indexLocation l s1)))"

section \<open>Completing a segment\<close>

text \<open>Calls to the buffer with a segment id that may be invalid, which is out of bounds.\<close>

definition purgeId :: "nat option \<Rightarrow> server_stream \<Rightarrow> unit res \<times> server_stream" where
  "purgeId i s =
     (case i of None \<Rightarrow> (Inl ArgumentOutOfBoundsException, s)
      | Some x \<Rightarrow> (let (r, b) = purgeSegment x (ss_buffer s) in (r, s\<lparr>ss_buffer := b\<rparr>)))"

definition freeId :: "nat option \<Rightarrow> bool \<Rightarrow> server_stream \<Rightarrow> unit res \<times> server_stream" where
  "freeId i prefetch s =
     (case i of None \<Rightarrow> (Inl ArgumentOutOfBoundsException, s)
      | Some x \<Rightarrow> (let (r, b) = freeSegment x prefetch (ss_buffer s) in (r, s\<lparr>ss_buffer := b\<rparr>)))"

text \<open>
  The first half of \<open>_completeSegment\<close> for a segment that has a storage location: a load that
  was finished, canceled or has failed, or a reader that closes. \<open>given\<close> is \<open>*location != nullptr\<close>.
\<close>

definition dropReferences :: "segment_location \<Rightarrow> segment_location" where
  "dropReferences l = l\<lparr>lc_referenceCount := 0, lc_referenceMap := Map.empty\<rparr>"

definition completeRead :: "u32 \<Rightarrow> bool \<Rightarrow> bool \<Rightarrow> server_stream \<Rightarrow> bool res \<times> server_stream" where
  "completeRead sqn given success s =
     (let loc = locAt sqn s;
          activate = updLoc sqn (\<lambda>l. l\<lparr>lc_id := lc_sideId l, lc_sideId := None, lc_cancel := False\<rparr>)
      in if \<not> given \<or> lc_cancel loc then
           (let s1 = s\<lparr>ss_notified := ss_notified s @ [sqn]\<rparr>;
                (r, s2) =
                  (if \<not> success then
                     (case purgeId (lc_sideId loc) s1 of
                        (Inl e, s') \<Rightarrow> (Inl e, s')
                      | (Inr _, s') \<Rightarrow> (Inr (), updLoc sqn (\<lambda>l. l\<lparr>lc_prefetched := False\<rparr>) s'))
                   else if lc_cancel loc then freeId (lc_sideId loc) (lc_prefetched loc) s1
                   else (Inr (), s1))
            in case r of
                 Inl e \<Rightarrow> (Inl e, s2)
               | Inr _ \<Rightarrow>
                   (Inr True, activate (updLoc sqn (\<lambda>l. dropReferences (l\<lparr>lc_sideId := None\<rparr>)) s2)))
         else (Inr False, activate s))"

text \<open>
  The first half for a segment that was written. The result says whether the segment location
  stays (\<open>sqnAlive\<close>).
\<close>

definition completeWrite ::
  "u32 \<Rightarrow> StorageLocation option \<Rightarrow> bool \<Rightarrow> bool \<Rightarrow> server_stream \<Rightarrow> bool res \<times> server_stream" where
  "completeWrite sqn location success synchronous s =
     (let side = lc_sideId (locAt sqn s);
          (r, s1) =
            (case location of
               Some l \<Rightarrow>
                 (case addSegment_internal sqn l s of
                    (Inl e, s') \<Rightarrow> (Inl e, s')
                  | (Inr _, s') \<Rightarrow> if \<not> synchronous then freeId side False s' else (Inr (), s'))
             | None \<Rightarrow> if \<not> synchronous \<or> \<not> success then purgeId side s else (Inr (), s))
      in case r of
           Inl e \<Rightarrow> (Inl e, s1)
         | Inr _ \<Rightarrow>
             (if lc_location (locAt sqn s1) \<noteq> None
              then (Inr True, updLoc sqn (\<lambda>l. dropReferences (l\<lparr>lc_sideId := None, lc_cancel := False\<rparr>)) s1)
              else (Inr False, s1)))"

text \<open>
  \<open>_completeSegment\<close>. \<open>waiters\<close> says whether the caller takes over the wait list (else it
  stays, and the code asserts that it is empty); the list is a part of the result.
  \<open>openListIt\<close> is the position of the caller's iterator, and the position behind the call is
  returned: erasing an element moves the iterator to the next one.
\<close>

type_synonym iterator = "nat option"

definition eraseAt :: "nat \<Rightarrow> 'a list \<Rightarrow> 'a list" where
  "eraseAt i xs = take i xs @ drop (Suc i) xs"

definition removeOpen :: "u32 \<Rightarrow> iterator \<Rightarrow> server_stream \<Rightarrow> server_stream" where
  "removeOpen sqn it s =
     s\<lparr>ss_openList := (case it of None \<Rightarrow> removeAll sqn (ss_openList s) | Some i \<Rightarrow> eraseAt i (ss_openList s))\<rparr>"

definition takeWaiters :: "u32 \<Rightarrow> bool \<Rightarrow> server_stream \<Rightarrow> nat list \<times> server_stream" where
  "takeWaiters sqn success s =
     (let ws = lc_waitList (locAt sqn s);
          s1 = updLoc sqn (\<lambda>l. l\<lparr>lc_waitList := []\<rparr>) s;
          link = \<lparr>ln_stream = sr_id (ss_ref s), ln_sequenceNumber = sqn\<rparr>
      in (ws, if \<not> success then fold (\<lambda>w. updWait (Some w) (wc_pushError link)) ws s1 else s1))"

definition completeSegment_core ::
  "u32 \<Rightarrow> StorageLocation option \<Rightarrow> bool \<Rightarrow> iterator \<Rightarrow> bool \<Rightarrow> bool \<Rightarrow> server_stream \<Rightarrow>
   nat list res \<times> server_stream" where
  "completeSegment_core sqn location waiters it success synchronous s =
     (let (r, s1) =
        (if lc_location (locAt sqn s) \<noteq> None
         then (case completeRead sqn (location \<noteq> None) success s of
                 (Inl e, s') \<Rightarrow> (Inl e, s')
               | (Inr remove, s') \<Rightarrow> (Inr (remove, True), s'))
         else (case completeWrite sqn location success synchronous s of
                 (Inl e, s') \<Rightarrow> (Inl e, s')
               | (Inr alive, s') \<Rightarrow> (Inr (True, alive), s')))
      in case r of
           Inl e \<Rightarrow> (Inl e, s1)
         | Inr (remove, alive) \<Rightarrow>
             (let (ws, s2) = (if waiters then takeWaiters sqn success s1 else ([], s1));
                  s3 = (if remove then removeOpen sqn it s2 else s2);
                  s4 = (if \<not> alive then s3\<lparr>ss_segments := (ss_segments s3)[unat sqn := None]\<rparr> else s3)
              in (Inr ws, s4)))"

text \<open>The asynchronous \<open>_completeSegment\<close>, which wakes the waiters behind the lock.\<close>

definition completeSegment_async ::
  "u32 \<Rightarrow> StorageLocation option \<Rightarrow> bool \<Rightarrow> server_stream \<Rightarrow> unit res \<times> server_stream" where
  "completeSegment_async sqn location success s =
     (case completeSegment_core sqn location True None success False s of
        (Inl e, s1) \<Rightarrow> (Inl e, s1)
      | (Inr ws, s1) \<Rightarrow> (Inr (), fold (\<lambda>w. updWait (Some w) wc_decrement) ws s1))"

text \<open>The two public \<open>completeSegment\<close>: without a location, and with a pointer to one.\<close>

definition completeSegment :: "u32 \<Rightarrow> server_stream \<Rightarrow> unit res \<times> server_stream" where
  "completeSegment sqn s =
     (if \<not> segmentIsAllocated sqn s then (Inl InvalidOperationException, s)
      else completeSegment_async sqn (lc_location (locAt sqn s)) True s)"

definition completeSegment_location ::
  "u32 \<Rightarrow> StorageLocation option \<Rightarrow> server_stream \<Rightarrow> unit res \<times> server_stream" where
  "completeSegment_location sqn location s =
     (if \<not> segmentIsAllocated sqn s \<or> lc_location (locAt sqn s) \<noteq> None
      then (Inl InvalidOperationException, s)
      else completeSegment_async sqn location (location \<noteq> None) s)"

section \<open>Loading a segment\<close>

text \<open>
  What \<open>_open\<close> meets: the environment of the buffer's allocation, the answer of the encoder,
  and whether an asynchronous load is completed (by another thread) before \<open>_open\<close> gets the
  lock again.
\<close>

record open_env =
  oe_request :: request_env
  oe_read :: read_result
  oe_early :: bool

definition bump :: "u32 \<Rightarrow> (u32 \<Rightarrow> u32 option) \<Rightarrow> u32 \<Rightarrow> u32 option" where
  "bump session m = m(session \<mapsto> (case m session of None \<Rightarrow> 1 | Some n \<Rightarrow> n + 1))"

text \<open>\<open>_open\<close>: the result is whether the operation is complete, and the segment id.\<close>

definition open_internal ::
  "open_env \<Rightarrow> u32 \<Rightarrow> u32 \<Rightarrow> u32 \<Rightarrow> bool \<Rightarrow> nat option \<Rightarrow> server_stream \<Rightarrow>
   (bool \<times> nat option) res \<times> server_stream" where
  "open_internal env session sqn flags prefetch wait s =
     (let s0 = updLoc sqn (\<lambda>l. l\<lparr>lc_prefetched := prefetch, lc_cancel := prefetch\<rparr>) s;
          (r, b) = openSegment (oe_request env) (ss_ref s) flags (the (lc_location (locAt sqn s0)))
                     prefetch (oe_read env) (ss_buffer s0);
          s1 = s0\<lparr>ss_buffer := b\<rparr>
      in case r of
           Inl e \<Rightarrow> (Inl e, updLoc sqn (\<lambda>l. l\<lparr>lc_sideId := None\<rparr>) s1)
         | Inr (complete, side) \<Rightarrow>
             (let s2 = updLoc sqn (\<lambda>l. l\<lparr>lc_sideId := side\<rparr>) s1;
                  s3 = (if \<not> complete \<and> oe_early env then snd (completeSegment sqn s2) else s2);
                  loc = locAt sqn s3
              in if lc_id loc = None \<and> lc_sideId loc = None then
                   (Inr (True, None),
                    updWait wait (wc_pushError \<lparr>ln_stream = sr_id (ss_ref s3), ln_sequenceNumber = sqn\<rparr>)
                      (updLoc sqn (\<lambda>l. l\<lparr>lc_cancel := False, lc_prefetched := False\<rparr>) s3))
                 else
                   (let segmentId = (if lc_id loc = None then lc_sideId loc else lc_id loc);
                        s4 = (if lc_id loc = None \<and> \<not> complete then enlist wait sqn s3 else s3);
                        s5 = updLoc sqn (\<lambda>l. l\<lparr>lc_referenceCount := lc_referenceCount l + 1,
                                               lc_referenceMap := bump session (lc_referenceMap l)\<rparr>) s4;
                        s6 = s5\<lparr>ss_openList := ss_openList s5 @ [sqn]\<rparr>
                    in if complete then
                         (case completeSegment_core sqn (lc_location (locAt sqn s6)) False None True True s6 of
                            (Inl e, s7) \<Rightarrow> (Inl e, s7)
                          | (Inr _, s7) \<Rightarrow> (Inr (complete, segmentId), s7))
                       else (Inr (complete, segmentId), s6))))"

section \<open>Closing a segment\<close>

text \<open>What \<open>_close\<close> meets: the time stamp and the answer of the encoder.\<close>

record close_env =
  cl_now :: u64
  cl_write :: write_result

text \<open>
  \<open>_close\<close>. The result is the position of the iterator behind the call: the element is
  either erased, or the iterator is moved on.
\<close>

definition nextIt :: "iterator \<Rightarrow> iterator" where
  "nextIt = map_option Suc"

definition submitId :: "close_env \<Rightarrow> nat \<Rightarrow> server_stream \<Rightarrow> submit_result \<times> server_stream" where
  "submitId env i s =
     (let (r, b) = submitSegment i (cl_now env) (cl_write env) (ss_buffer s) in (r, s\<lparr>ss_buffer := b\<rparr>))"

definition appended :: "u32 \<Rightarrow> u32 \<Rightarrow> server_stream \<Rightarrow> server_stream" where
  "appended sqn entryCount s =
     (if sqn = ss_lastAppendSequenceNumber s
      then s\<lparr>ss_lastAppendIndex := ss_lastAppendIndex s + ucast entryCount,
             ss_lastAppendSequenceNumber := INVALID_STREAM_SEGMENT_ID\<rparr>
      else s)"

text \<open>The control element the buffer hands out for a segment.\<close>

definition controlOf :: "nat \<Rightarrow> server_stream \<Rightarrow> SegmentControlElement res" where
  "controlOf i s =
     (case serverGetControlElement i (ss_buffer s) of
        Inl e \<Rightarrow> Inl e | Inr p \<Rightarrow> Inr (controlAt p (ss_buffer s)))"

definition close_pending ::
  "u32 \<Rightarrow> nat \<Rightarrow> nat option \<Rightarrow> iterator \<Rightarrow> server_stream \<Rightarrow> iterator res \<times> server_stream" where
  "close_pending sqn i wait it s =
     (let s1 = enlist wait sqn s in
      case controlOf i s1 of
        Inl e \<Rightarrow> (Inl e, s1)
      | Inr ctrl \<Rightarrow>
          (let entryCount = (if ce_startIndex ctrl \<noteq> INVALID_ENTRY_INDEX then ce_entryCount ctrl else 0)
           in (Inr (nextIt it), appended sqn entryCount s1)))"

definition close_complete ::
  "u32 \<Rightarrow> StorageLocation option \<Rightarrow> bool \<Rightarrow> iterator \<Rightarrow> server_stream \<Rightarrow> iterator res \<times> server_stream" where
  "close_complete sqn location success it s =
     (let entryCount = (case location of None \<Rightarrow> 0 | Some l \<Rightarrow> getEntryCount l) in
      case completeSegment_core sqn location False it success True s of
        (Inl e, s1) \<Rightarrow> (Inl e, s1)
      | (Inr _, s1) \<Rightarrow> (Inr it, appended sqn entryCount s1))"

definition close_internal ::
  "close_env \<Rightarrow> u32 \<Rightarrow> nat option \<Rightarrow> bool \<Rightarrow> iterator \<Rightarrow> server_stream \<Rightarrow> iterator res \<times> server_stream" where
  "close_internal env sqn wait ignoreErrors it s =
     (case lc_id (locAt sqn s) of
        None \<Rightarrow> (Inr (nextIt it), updLoc sqn (\<lambda>l. l\<lparr>lc_cancel := True\<rparr>) (enlist wait sqn s))
      | Some i \<Rightarrow>
          (let (r, s1) = submitId env i s;
               s2 = updLoc sqn (\<lambda>l. l\<lparr>lc_sideId := lc_id l, lc_id := None\<rparr>) s1
           in case r of
                Inl e \<Rightarrow>
                  if \<not> ignoreErrors \<and> lc_location (locAt sqn s1) = None then (Inl e, s1)
                  else close_complete sqn None False it s2
              | Inr (complete, location) \<Rightarrow>
                  if complete then close_complete sqn location True it s2
                  else close_pending sqn i wait it s2))"

section \<open>Queries\<close>

datatype QueryIndexType =
    QTree IndexTree
  | QSequenceNumber
  | QNextValidSequenceNumber
  | QPreviousValidSequenceNumber
  | QUserIndex nat

text \<open>
  The lookup in a tree: the element that \<open>lower_bound\<close> finds if it starts at the value, else
  the one before it if the value is not behind its end.
\<close>

definition findInTree :: "IndexTree \<Rightarrow> u64 \<Rightarrow> StorageLocation list \<Rightarrow> StorageLocation option" where
  "findInTree t value tree =
     (let before = takeWhile (\<lambda>l. treeStart t l < value) tree;
          from = dropWhile (\<lambda>l. treeStart t l < value) tree
      in if from \<noteq> [] \<and> treeStart t (hd from) = value then Some (hd from)
         else if before \<noteq> [] \<and> value \<le> treeEnd t (last before) then Some (last before)
         else None)"

definition seqOf :: "segment_location option \<Rightarrow> u32" where
  "seqOf l = (case l of None \<Rightarrow> INVALID_STREAM_SEGMENT_ID | Some l \<Rightarrow> lc_sequenceNumber l)"

definition findSequenceNumber :: "QueryIndexType \<Rightarrow> u64 \<Rightarrow> server_stream \<Rightarrow> u32 res" where
  "findSequenceNumber type value s =
     (case type of
        QTree t \<Rightarrow>
          Inr (case findInTree t value (ss_trees s t) of
                 None \<Rightarrow> INVALID_STREAM_SEGMENT_ID
               | Some l \<Rightarrow> ln_sequenceNumber (sl_link l))
      | QSequenceNumber \<Rightarrow> Inr (ucast value)
      | QNextValidSequenceNumber \<Rightarrow> Inr (seqOf (getNextSegment (ucast value) s))
      | QPreviousValidSequenceNumber \<Rightarrow> Inr (seqOf (getPreviousSegment (ucast value) s))
      | QUserIndex _ \<Rightarrow> Inl NotSupportedException)"

text \<open>The new flags and value, \<open>None\<close> if the query is not valid.\<close>

definition adjustQuery ::
  "u32 \<Rightarrow> QueryIndexType \<Rightarrow> u64 \<Rightarrow> server_stream \<Rightarrow> (u32 \<times> u64) option" where
  "adjustQuery flags type value s =
     (if isSet flags SafReverseQuery then
        (case type of
           QTree t \<Rightarrow>
             (let endValue = rg_end (ranges (st_ranges (ss_stats s)) t)
              in if endValue < value then None
                 else Some (flags XOR SafReverseQuery, endValue - value))
         | _ \<Rightarrow> Some (flags XOR SafReverseQuery, value))
      else Some (flags, value))"

text \<open>
  The binary search for a cycle count. The positions are 64-bit signed integers in the code;
  they start at zero and at a 32-bit number, so no position and no offset wraps.
\<close>

function cycleSearch ::
  "u8 list \<Rightarrow> nat \<Rightarrow> u64 \<Rightarrow> bool \<Rightarrow> nat \<Rightarrow> nat \<Rightarrow> nat \<Rightarrow> nat" where
  "cycleSearch mem entrySize cycle reverse start end offset =
     (if start < end then
        (let mid = start + (end - start) div 2;
             offset' = mid * entrySize;
             cycleCount = read64 mem offset' AND TEMPORAL_ORDER_CYCLE_COUNT_MASK
         in if cycleCount < cycle then cycleSearch mem entrySize cycle reverse (mid + 1) end offset'
            else if cycleCount = cycle \<and> reverse \<and> start \<noteq> mid
            then cycleSearch mem entrySize cycle reverse mid end offset'
            else cycleSearch mem entrySize cycle reverse start mid offset')
      else offset)"
  by pat_completeness auto
termination
  by (relation "measure (\<lambda>(_, _, _, _, start, end, _). end - start)") auto

declare cycleSearch.simps [simp del]

definition findCycleCountBinarySearch :: "nat \<Rightarrow> u64 \<Rightarrow> bool \<Rightarrow> server_stream \<Rightarrow> nat res" where
  "findCycleCountBinarySearch i cycle reverse s =
     (case controlOf i s of
        Inl e \<Rightarrow> Inl e
      | Inr ctrl \<Rightarrow>
          Inr (cycleSearch (sv_data (ss_buffer s) i) (unat (sr_entrySize (ss_ref s))) cycle reverse
                 0 (unat (ce_entryCount ctrl - 1)) 0))"

text \<open>
  The offset of a query in a loaded segment. \<open>getSegmentEnd\<close> is the one of the base class and
  reads the control element in the shared mapping. \<open>None\<close> is a read beyond the segment in
  \<open>findVariableEntry\<close>; its result -1 is the largest \<open>size_t\<close>.
\<close>

definition endOffset :: "nat \<Rightarrow> server_stream \<Rightarrow> u64" where
  "endOffset i s =
     ucast ((if isVariableEntrySize (sr_entrySize (ss_ref s)) then getSizeHint (sr_entrySize (ss_ref s))
             else sr_entrySize (ss_ref s)) * ce_rawEntryCount (sv_ctrl (ss_buffer s) i))"

definition findOffset ::
  "nat option \<Rightarrow> u32 \<Rightarrow> QueryIndexType \<Rightarrow> u64 \<Rightarrow> server_stream \<Rightarrow> u64 res option" where
  "findOffset seg flags type value s =
     (case seg of None \<Rightarrow> Some (Inl ArgumentOutOfBoundsException)
      | Some i \<Rightarrow>
       (case controlOf i s of Inl e \<Rightarrow> Some (Inl e)
        | Inr ctrl \<Rightarrow>
         (let size = sr_entrySize (ss_ref s);
              reverseRead = isSet flags SafReverseRead;
              atEnd = endOffset i s - ucast (getEntrySize size)
          in case type of
               QTree QIndex \<Rightarrow>
                 if ce_startIndex ctrl = INVALID_ENTRY_INDEX then Some (Inl NotSupportedException)
                 else (let idx = value - ce_startIndex ctrl in
                   if isVariableEntrySize size then
                     map_option (\<lambda>r. Inr (case r of None \<Rightarrow> - 1 | Some o' \<Rightarrow> of_nat o'))
                       (findVariableEntry (take (unat (endOffset i s)) (sv_data (ss_buffer s) i)) (unat idx))
                   else Some (Inr (idx * ucast size)))
             | QTree QCycleCount \<Rightarrow>
                 if \<not> isSet (sr_typeFlags (ss_ref s)) StfTemporalOrder then Some (Inl NotSupportedException)
                 else Some (map_sum id of_nat (findCycleCountBinarySearch i value reverseRead s))
             | QTree QRealTime \<Rightarrow> Some (Inr (if reverseRead then atEnd else 0))
             | QSequenceNumber \<Rightarrow> Some (Inr (if reverseRead then atEnd else 0))
             | QNextValidSequenceNumber \<Rightarrow> Some (Inr 0)
             | QPreviousValidSequenceNumber \<Rightarrow> Some (Inr atEnd)
             | QUserIndex _ \<Rightarrow> Some (Inl ArgumentException))))"

section \<open>Public operations\<close>

definition getBufferMapping :: "u32 \<Rightarrow> server_stream \<Rightarrow> nat option" where
  "getBufferMapping sqn s = (if segmentIsAllocated sqn s then lc_id (locAt sqn s) else None)"

definition getStorageLocation :: "u32 \<Rightarrow> server_stream \<Rightarrow> StorageLocation res" where
  "getStorageLocation sqn s =
     throwOn (\<not> segmentIsAllocated sqn s) NotFoundException
       (case lc_location (locAt sqn s) of None \<Rightarrow> Inl NotFoundException | Some l \<Rightarrow> Inr l)"

text \<open>Adding a stored segment, when the store is loaded.\<close>

definition addSegment_stored ::
  "u32 \<Rightarrow> StorageLocation option \<Rightarrow> server_stream \<Rightarrow> unit res \<times> server_stream" where
  "addSegment_stored sqn location s =
     (case location of
        None \<Rightarrow> (Inl ArgumentNullException, s)
      | Some l \<Rightarrow>
          if sqn = INVALID_STREAM_SEGMENT_ID then (Inl ArgumentOutOfBoundsException, s)
          else if segmentIsAllocated sqn s then (Inl InvalidOperationException, s)
          else addSegment_internal sqn l s)"

text \<open>
  The common end of the other \<open>addSegment\<close> and of \<open>append\<close>: a new segment is requested from
  the buffer, and its start index is set in the shared control element (the one that
  \<open>getControlElement\<close> returns).
\<close>

definition writeStartIndex :: "nat \<Rightarrow> u64 \<Rightarrow> server_buffer \<Rightarrow> server_buffer" where
  "writeStartIndex i index b =
     (case serverGetControlElement i b of
        Inl _ \<Rightarrow> b
      | Inr (Inl j) \<Rightarrow> upd j (\<lambda>g. g\<lparr>sg_control := (sg_control g)\<lparr>ce_startIndex := index\<rparr>\<rparr>) b
      | Inr (Inr j) \<Rightarrow> b\<lparr>sv_ctrl := (sv_ctrl b)(j := (sv_ctrl b j)\<lparr>ce_startIndex := index\<rparr>)\<rparr>)"

definition allocateSegment ::
  "request_env \<Rightarrow> u32 \<Rightarrow> u32 \<Rightarrow> u64 \<Rightarrow> server_stream \<Rightarrow> nat option res \<times> server_stream" where
  "allocateSegment e session sqn startIndex s =
     (let (r, b) = requestSegment e (ss_ref s) sqn (ss_buffer s);
          s1 = s\<lparr>ss_buffer := b\<rparr>
      in case r of
           Inl ex \<Rightarrow> (Inl ex, s1)
         | Inr (_, None) \<Rightarrow> (Inr None, s1)
         | Inr (_, Some i) \<Rightarrow>
             (Inr (Some i),
              addSegmentLocation (newLocation sqn session i)
                (s1\<lparr>ss_buffer := writeStartIndex i startIndex (ss_buffer s1)\<rparr>)))"

definition addSegment_session ::
  "request_env \<Rightarrow> u32 \<Rightarrow> u32 \<Rightarrow> server_stream \<Rightarrow> nat option res \<times> server_stream" where
  "addSegment_session e session sqn s =
     (if sqn = INVALID_STREAM_SEGMENT_ID then (Inl ArgumentOutOfBoundsException, s)
      else if segmentIsAllocated sqn s then (Inl InvalidOperationException, s)
      else allocateSegment e session sqn INVALID_ENTRY_INDEX s)"

text \<open>
  \<open>append\<close> submits the segment of the previous call, if it was not closed, and allocates the
  next one. The result is the new sequence number and the segment id.
\<close>

definition append_submit ::
  "close_env \<Rightarrow> nat option \<Rightarrow> server_stream \<Rightarrow> iterator res \<times> server_stream" where
  "append_submit c wait s =
     (if ss_lastAppendSequenceNumber s \<noteq> INVALID_STREAM_SEGMENT_ID
      then close_internal c (ss_lastAppendSequenceNumber s) wait False None s
      else (Inr None, s))"

definition append_next ::
  "request_env \<Rightarrow> u32 \<Rightarrow> server_stream \<Rightarrow> (u32 \<times> nat option) res \<times> server_stream" where
  "append_next e session s =
     (let sqn = ss_lastSequenceNumber s + 1 in
      if sqn = INVALID_STREAM_SEGMENT_ID then (Inl InvalidOperationException, s)
      else
        (case allocateSegment e session sqn (ss_lastAppendIndex s) s of
           (Inl ex, s1) \<Rightarrow> (Inl ex, s1)
         | (Inr None, s1) \<Rightarrow> (Inr (ss_lastAppendSequenceNumber s1, None), s1)
         | (Inr (Some i), s1) \<Rightarrow>
             (Inr (sqn, Some i),
              s1\<lparr>ss_lastAppendSequenceNumber := sqn, ss_lastSequenceNumber := sqn\<rparr>)))"

definition append ::
  "request_env \<Rightarrow> close_env \<Rightarrow> u32 \<Rightarrow> nat option \<Rightarrow> server_stream \<Rightarrow>
   (u32 \<times> nat option) res \<times> server_stream" where
  "append e c session wait s =
     (case append_submit c wait s of
        (Inl ex, s1) \<Rightarrow> (Inl ex, s1)
      | (Inr _, s1) \<Rightarrow> append_next e session s1)"

subsection \<open>Open\<close>

text \<open>
  The sequence numbers for the read ahead, in the order in which they are opened: a valid one
  is found from the one before, and an invalid one ends the list.
\<close>

fun readAheadFrom :: "nat \<Rightarrow> QueryIndexType \<Rightarrow> u32 \<Rightarrow> server_stream \<Rightarrow> u32 list" where
  "readAheadFrom 0 type sqn s = []"
| "readAheadFrom (Suc n) type sqn s =
     (let next = (case findSequenceNumber type (ucast sqn) s of
                    Inl _ \<Rightarrow> INVALID_STREAM_SEGMENT_ID | Inr q \<Rightarrow> q)
      in next # (if next = INVALID_STREAM_SEGMENT_ID then [] else readAheadFrom n type next s))"

text \<open>The loop that opens them; \<open>env k\<close> is what the k-th of these opens meets.\<close>

fun readAhead ::
  "(nat \<Rightarrow> open_env) \<Rightarrow> nat \<Rightarrow> u32 \<Rightarrow> u32 \<Rightarrow> u32 list \<Rightarrow> server_stream \<Rightarrow> unit res \<times> server_stream" where
  "readAhead env k session flags [] s = (Inr (), s)"
| "readAhead env k session flags (sqn # sqns) s =
     (if sqn = INVALID_STREAM_SEGMENT_ID then (Inr (), s)
      else
        (let loc = locAt sqn s in
         if lc_location loc \<noteq> None \<and> lc_referenceCount loc = 0 \<and> \<not> lc_prefetched loc then
           (case open_internal (env k) session sqn flags True None s of
              (Inl e, s1) \<Rightarrow> (Inl e, s1)
            | (Inr (_, None), s1) \<Rightarrow> (Inr (), s1)
            | (Inr (_, Some _), s1) \<Rightarrow> readAhead env (Suc k) session flags sqns s1)
         else readAhead env (Suc k) session flags sqns s))"

text \<open>
  The part of \<open>open\<close> under the lock, for a segment that is referenced already: the result is
  whether the operation is complete and the segment id. The test for the server session can
  not fail, because a segment without a storage location is rejected before.
\<close>

definition shareSegment ::
  "u32 \<Rightarrow> u32 \<Rightarrow> nat option \<Rightarrow> server_stream \<Rightarrow> (bool \<times> nat option) \<times> server_stream" where
  "shareSegment session sqn wait s =
     (let s1 = updLoc sqn (\<lambda>l. if \<not> lc_prefetched l then l\<lparr>lc_referenceCount := lc_referenceCount l + 1\<rparr>
                               else l\<lparr>lc_referenceMap := Map.empty, lc_prefetched := False\<rparr>) s;
          s2 = updLoc sqn (\<lambda>l. l\<lparr>lc_referenceMap := bump session (lc_referenceMap l), lc_cancel := False\<rparr>) s1;
          loc = locAt sqn s2
      in case lc_id loc of
           None \<Rightarrow> ((False, lc_sideId loc), enlist wait sqn s2)
         | Some i \<Rightarrow> ((True, Some i), s2))"

definition open_lookup ::
  "QueryIndexType \<Rightarrow> u64 \<Rightarrow> u32 \<Rightarrow> server_stream \<Rightarrow> (u32 \<times> u32 \<times> u64) res" where
  "open_lookup type value flags s =
     (case adjustQuery flags type value s of
        None \<Rightarrow> Inl NotFoundException
      | Some (nflags, nvalue) \<Rightarrow>
          (case findSequenceNumber type nvalue s of
             Inl e \<Rightarrow> Inl e
           | Inr sqn \<Rightarrow>
               throwOn (length (ss_segments s) \<le> unat sqn) NotFoundException
              (throwOn (ss_segments s ! unat sqn = None) NotFoundException
              (throwOn (lc_location (locAt sqn s) = None) OperationInProgressException
                 (Inr (sqn, nflags, nvalue))))))"

text \<open>
  The environment of a call of \<open>open\<close>: the open of the segment itself, the opens of the read
  ahead, and what the other threads do to the stream while the call waits for the segment.
\<close>

record stream_env =
  se_open :: open_env
  se_readAhead :: "nat \<Rightarrow> open_env"
  se_waiting :: "server_stream \<Rightarrow> server_stream"

text \<open>\<open>open\<close> up to the wait: whether the operation is complete, the segment id, and the
  adjusted query.\<close>

definition open_start ::
  "stream_env \<Rightarrow> u32 \<Rightarrow> QueryIndexType \<Rightarrow> u64 \<Rightarrow> u32 \<Rightarrow> nat option \<Rightarrow> server_stream \<Rightarrow>
   (bool \<times> nat option \<times> u32 \<times> u32 \<times> u64) res \<times> server_stream" where
  "open_start env session type value flags wait s =
     (case open_lookup type value flags s of
        Inl e \<Rightarrow> (Inl e, s)
      | Inr (sqn, nflags, nvalue) \<Rightarrow>
          (let handled = 0 < lc_referenceCount (locAt sqn s);
               (r1, s1) = (if handled then shareSegment session sqn wait s else ((False, None), s));
               sequential = isSet nflags SafSequentialScan;
               ratype = (if isSet flags SafReverseRead then QPreviousValidSequenceNumber
                         else QNextValidSequenceNumber);
               sqns = (if sequential then readAheadFrom (unat (ss_readAheadAmount s1)) ratype sqn s1 else []);
               (ra, s2) = readAhead (se_readAhead env) 0 session (nflags AND NOT SafSynchronous) sqns s1
           in case ra of
                Inl e \<Rightarrow> (Inl e, s2)
              | Inr _ \<Rightarrow>
                  (if handled then (Inr (fst r1, snd r1, sqn, nflags, nvalue), s2)
                   else if lc_location (locAt sqn s2) = None then (Inl OperationInProgressException, s2)
                   else
                     (case open_internal (se_open env) session sqn nflags False wait s2 of
                        (Inl e, s3) \<Rightarrow> (Inl e, s3)
                      | (Inr (completed, seg), s3) \<Rightarrow> (Inr (completed, seg, sqn, nflags, nvalue), s3)))))"

text \<open>
  \<open>open\<close>. The result is the sequence number (invalid if the operation is still in progress), the
  segment id and the offset (if it was asked for); \<open>None\<close> is a call that waits for ever, or
  that reads behind the end of the segment in \<open>findVariableEntry\<close>.
\<close>

definition openStream ::
  "stream_env \<Rightarrow> u32 \<Rightarrow> QueryIndexType \<Rightarrow> u64 \<Rightarrow> u32 \<Rightarrow> bool \<Rightarrow> nat option \<Rightarrow> server_stream \<Rightarrow>
   (u32 \<times> nat option \<times> u64 option) res option \<times> server_stream" where
  "openStream env session type value flags offsetOut wait s =
     (if offsetOut \<and> wait = None then (Some (Inl ArgumentException), s)
      else
        (case open_start env session type value flags wait s of
           (Inl e, s1) \<Rightarrow> (Some (Inl e), s1)
         | (Inr (completed, seg, sqn, nflags, nvalue), s1) \<Rightarrow>
             if offsetOut then
               (let s2 = se_waiting env s1 in
                case wc_wait (ss_waits s2 (the wait)) of
                  None \<Rightarrow> (None, s2)
                | Some False \<Rightarrow> (Some (Inl GenericException), s2)
                | Some True \<Rightarrow>
                    (case findOffset seg nflags type nvalue s2 of
                       None \<Rightarrow> (None, s2)
                     | Some (Inl e) \<Rightarrow> (Some (Inl e), s2)
                     | Some (Inr off) \<Rightarrow>
                         (Some (Inr (if seg \<noteq> None then sqn else INVALID_STREAM_SEGMENT_ID, seg, Some off)), s2)))
             else (Some (Inr (if completed \<and> seg \<noteq> None then sqn else INVALID_STREAM_SEGMENT_ID, seg, None)), s1)))"

subsection \<open>Close\<close>

definition close ::
  "close_env \<Rightarrow> u32 \<Rightarrow> u32 \<Rightarrow> nat option \<Rightarrow> bool \<Rightarrow> server_stream \<Rightarrow> unit res \<times> server_stream" where
  "close env session sqn wait ignoreErrors s =
     (if \<not> segmentIsAllocated sqn s then (Inl InvalidOperationException, s)
      else
        (let loc = locAt sqn s in
         if lc_referenceCount loc = 0 \<or> lc_referenceMap loc session = None then (Inl GenericException, s)
         else if lc_referenceCount loc = 1 then
           (case close_internal env sqn wait ignoreErrors None s of
              (Inl e, s1) \<Rightarrow> (Inl e, s1)
            | (Inr _, s1) \<Rightarrow> (Inr (), s1))
         else
           (Inr (),
            updLoc sqn (\<lambda>l. l\<lparr>lc_referenceMap :=
                 (if lc_referenceMap l session = Some 1 then (lc_referenceMap l)(session := None)
                  else (lc_referenceMap l)(session \<mapsto> the (lc_referenceMap l session) - 1)),
               lc_referenceCount := lc_referenceCount l - 1\<rparr>) s)))"

text \<open>
  Closing all the references of a session. The loop runs over the open list with an iterator;
  an element is either erased or the iterator moves on. \<open>env k\<close> is what the k-th close meets,
  and the fuel is the length of the list.
\<close>

fun closeLoop ::
  "nat \<Rightarrow> (nat \<Rightarrow> close_env) \<Rightarrow> nat \<Rightarrow> u32 \<Rightarrow> nat option \<Rightarrow> bool \<Rightarrow> nat \<Rightarrow> server_stream \<Rightarrow>
   unit res option \<times> server_stream" where
  "closeLoop fuel env k session wait ignoreErrors it s =
     (if length (ss_openList s) \<le> it then (Some (Inr ()), s)
      else case fuel of 0 \<Rightarrow> (None, s)
      | Suc fuel \<Rightarrow>
        (let sqn = ss_openList s ! it; loc = locAt sqn s in
         case lc_referenceMap loc session of
           None \<Rightarrow> closeLoop fuel env k session wait ignoreErrors (Suc it) s
         | Some n \<Rightarrow>
             if lc_referenceCount loc = n then
               (case close_internal (env k) sqn wait ignoreErrors (Some it) s of
                  (Inl e, s1) \<Rightarrow> (Some (Inl e), s1)
                | (Inr it', s1) \<Rightarrow>
                    closeLoop fuel env (Suc k) session wait ignoreErrors (the it') s1)
             else
               closeLoop fuel env k session wait ignoreErrors (Suc it)
                 (updLoc sqn (\<lambda>l. l\<lparr>lc_referenceCount := lc_referenceCount l - n,
                                    lc_referenceMap := (lc_referenceMap l)(session := None)\<rparr>) s)))"

declare closeLoop.simps [simp del]

definition close_session ::
  "(nat \<Rightarrow> close_env) \<Rightarrow> u32 \<Rightarrow> nat option \<Rightarrow> bool \<Rightarrow> server_stream \<Rightarrow> unit res option \<times> server_stream" where
  "close_session env session wait ignoreErrors s =
     closeLoop (length (ss_openList s)) env 0 session wait ignoreErrors 0 s"

end
