(* ===== verification/Stream_Inv.thy ===== *)
theory Stream_Inv
  imports Server_Stream Buffer_Pool
begin

text \<open>
  The invariant of a server stream: the reference counts, the open list, the append state, and
  the segments of the stream buffer that the stream holds. The operations are shown to keep
  it on the laws of the segment pool.
\<close>

section \<open>Slots\<close>

text \<open>The segment table as a map from sequence numbers.\<close>

definition slot :: "server_stream \<Rightarrow> u32 \<Rightarrow> segment_location option" where
  "slot s q = (if unat q < length (ss_segments s) then ss_segments s ! unat q else None)"

lemma allocated_slot: "segmentIsAllocated q s \<longleftrightarrow> slot s q \<noteq> None"
  by (simp add: segmentIsAllocated_def slot_def)

lemma locAt_slot: "slot s q = Some l \<Longrightarrow> locAt q s = l"
  by (auto simp: slot_def locAt_def split: if_splits)

lemma slot_updLoc [simp]: "slot (updLoc q f s) = (slot s)(q := map_option f (slot s q))"
  by (rule ext) (auto simp: slot_def updLoc_def nth_list_update simp flip: word_unat_eq_iff)

lemma slot_kill [simp]:
  "slot (s\<lparr>ss_segments := (ss_segments s)[unat q := None]\<rparr>) = (slot s)(q := None)"
  by (rule ext) (auto simp: slot_def nth_list_update simp flip: word_unat_eq_iff)

lemma updLoc_simps [simp]:
  "ss_ref (updLoc q f s) = ss_ref s" "length (ss_segments (updLoc q f s)) = length (ss_segments s)"
  "ss_openList (updLoc q f s) = ss_openList s" "ss_trees (updLoc q f s) = ss_trees s"
  "ss_lastSequenceNumber (updLoc q f s) = ss_lastSequenceNumber s"
  "ss_lastAppendSequenceNumber (updLoc q f s) = ss_lastAppendSequenceNumber s"
  "ss_lastAppendIndex (updLoc q f s) = ss_lastAppendIndex s" "ss_stats (updLoc q f s) = ss_stats s"
  "ss_readAheadAmount (updLoc q f s) = ss_readAheadAmount s" "ss_notified (updLoc q f s) = ss_notified s"
  "ss_waits (updLoc q f s) = ss_waits s" "ss_buffer (updLoc q f s) = ss_buffer s"
  by (simp_all add: updLoc_def)

lemma slot_frame [simp]:
  "slot (s\<lparr>ss_buffer := b\<rparr>) = slot s" "slot (s\<lparr>ss_notified := n\<rparr>) = slot s"
  "slot (s\<lparr>ss_openList := ol\<rparr>) = slot s" "slot (s\<lparr>ss_waits := w\<rparr>) = slot s"
  "slot (s\<lparr>ss_stats := st\<rparr>) = slot s" "slot (s\<lparr>ss_trees := t\<rparr>) = slot s"
  "slot (s\<lparr>ss_lastAppendIndex := i\<rparr>) = slot s" "slot (s\<lparr>ss_lastAppendSequenceNumber := q\<rparr>) = slot s"
  "slot (s\<lparr>ss_lastSequenceNumber := q\<rparr>) = slot s"
  by (simp_all add: slot_def fun_eq_iff)

lemma updWait_simps [simp]:
  "slot (updWait w f s) = slot s" "ss_ref (updWait w f s) = ss_ref s"
  "length (ss_segments (updWait w f s)) = length (ss_segments s)"
  "ss_openList (updWait w f s) = ss_openList s" "ss_trees (updWait w f s) = ss_trees s"
  "ss_lastSequenceNumber (updWait w f s) = ss_lastSequenceNumber s"
  "ss_lastAppendSequenceNumber (updWait w f s) = ss_lastAppendSequenceNumber s"
  "ss_lastAppendIndex (updWait w f s) = ss_lastAppendIndex s" "ss_stats (updWait w f s) = ss_stats s"
  "ss_buffer (updWait w f s) = ss_buffer s" "ss_segments (updWait w f s) = ss_segments s"
  by (simp_all add: updWait_def split: option.splits)

lemma slot_addLocation [simp]: "slot (addSegmentLocation l s) = (slot s)(lc_sequenceNumber l \<mapsto> l)"
  by (rule ext) (auto simp: slot_def addSegmentLocation_def Let_def nth_list_update nth_append
      simp flip: word_unat_eq_iff)

section \<open>Reference counts\<close>

lemma unat_u32: "unat (x :: u32) < 4294967296"
  using unsigned_less [of x, where 'a = nat] by simp

definition refs_ok :: "u32 \<Rightarrow> (u32 \<Rightarrow> u32 option) \<Rightarrow> bool" where
  "refs_ok n m \<longleftrightarrow> finite (dom m) \<and> (\<forall>x v. m x = Some v \<longrightarrow> 0 < v) \<and>
     (\<Sum>x\<in>dom m. unat (the (m x))) = unat n"

lemma refs_none [simp]: "refs_ok 0 Map.empty"
  by (simp add: refs_ok_def)

lemma refs_one [simp]: "refs_ok 1 [x \<mapsto> 1]"
  by (simp add: refs_ok_def)

lemma refs_remove:
  assumes "refs_ok n m" and "m x = Some v"
  shows "v \<le> n" and "refs_ok (n - v) (m(x := None))"
proof -
  have f: "finite (dom m)" "x \<in> dom m" using assms by (auto simp: refs_ok_def)
  have s: "(\<Sum>y\<in>dom m. unat (the (m y))) = unat v + (\<Sum>y\<in>dom m - {x}. unat (the (m y)))"
    using sum.remove [OF f, of "\<lambda>y. unat (the (m y))"] assms(2) by simp
  then have u: "unat v + (\<Sum>y\<in>dom m - {x}. unat (the (m y))) = unat n" using assms(1) by (simp add: refs_ok_def)
  then show le: "v \<le> n" by (simp add: word_le_nat_alt)
  have "(\<Sum>y\<in>dom (m(x := None)). unat (the ((m(x := None)) y))) = (\<Sum>y\<in>dom m - {x}. unat (the (m y)))"
    by (rule sum.cong) auto
  also have "\<dots> = unat (n - v)" using u le by (simp add: unat_sub)
  finally show "refs_ok (n - v) (m(x := None))" using assms(1) f by (auto simp: refs_ok_def split: if_splits)
qed

lemma refs_insert:
  assumes "refs_ok n m" and "m x = None" and "0 < v" and "unat n + unat v < 2 ^ 32"
  shows "refs_ok (n + v) (m(x \<mapsto> v))"
proof -
  have f: "finite (dom m)" "x \<notin> dom m" using assms by (auto simp: refs_ok_def)
  have "(\<Sum>y\<in>dom m. unat (the ((m(x \<mapsto> v)) y))) = (\<Sum>y\<in>dom m. unat (the (m y)))"
    by (rule sum.cong) (use f in auto)
  moreover have "unat (n + v) = unat n + unat v" using assms(4) by (simp add: unat_word_ariths)
  ultimately show ?thesis using f assms by (auto simp: refs_ok_def)
qed

lemma refs_update:
  assumes "refs_ok n m" and "m x = Some v" and "0 < w" and "unat (n - v) + unat w < 2 ^ 32"
  shows "refs_ok (n - v + w) (m(x \<mapsto> w))"
  using refs_insert [OF refs_remove(2) [OF assms(1,2)] _ assms(3,4), of x] by simp

lemma refs_bump:
  assumes "refs_ok n m" and "n \<noteq> - 1"
  shows "refs_ok (n + 1) (bump session m)"
proof -
  have "1 + n \<noteq> 0" using assms(2) by (simp add: add_eq_0_iff)
  then have "unat (1 + n) = Suc (unat n)" by (rule unatSuc)
  then have n: "unat n + 1 < 2 ^ 32" using unat_u32 [of "1 + n"] by simp
  show ?thesis
  proof (cases "m session")
    case None
    then show ?thesis using refs_insert [OF assms(1) None, of 1] n by (simp add: bump_def)
  next
    case (Some v)
    have le: "v \<le> n" by (rule refs_remove(1) [OF assms(1) Some])
    then have "unat v + 1 < 2 ^ 32" using n by (simp add: word_le_nat_alt)
    then have v1: "unat (v + 1) = unat v + 1" by (simp add: unat_word_ariths)
    have "unat (n - v) + unat (v + 1) < 2 ^ 32" using n le v1 by (simp add: unat_sub word_le_nat_alt)
    moreover have "0 < v + 1" using v1 by (simp add: word_less_nat_alt)
    ultimately have "refs_ok (n - v + (v + 1)) (m(session \<mapsto> v + 1))"
      using refs_update [OF assms(1) Some] by blast
    then show ?thesis using Some by (simp add: bump_def)
  qed
qed

lemma refs_drop_one:
  assumes "refs_ok n m" and "m x = Some v"
  shows "refs_ok (n - 1) (if v = 1 then m(x := None) else m(x \<mapsto> v - 1))"
proof (cases "v = 1")
  case True
  then show ?thesis using refs_remove(2) [OF assms] by simp
next
  case False
  have "0 < v" using assms by (auto simp: refs_ok_def)
  have le: "v \<le> n" by (rule refs_remove(1) [OF assms])
  have v1: "unat (v - 1) = unat v - 1" using \<open>0 < v\<close> by (simp add: unat_sub word_le_nat_alt word_less_nat_alt)
  have "unat v \<noteq> 1" using False by (simp add: word_unat_eq_iff)
  then have "1 < unat v" using \<open>0 < v\<close> by (simp add: word_less_nat_alt)
  then have "0 < v - 1" using v1 by (simp add: word_less_nat_alt)
  moreover have "unat (n - v) + unat (v - 1) < 2 ^ 32"
    using le v1 unat_u32 [of n] by (simp add: unat_sub word_le_nat_alt)
  ultimately have "refs_ok (n - v + (v - 1)) (m(x \<mapsto> v - 1))" using refs_update [OF assms] by blast
  then show ?thesis using False by simp
qed

lemma refs_all:
  assumes "refs_ok n m" and "m x = Some n"
  shows "m = [x \<mapsto> n]"
proof -
  have "refs_ok 0 (m(x := None))" using refs_remove(2) [OF assms] by simp
  then have z: "(\<Sum>y\<in>dom (m(x := None)). unat (the ((m(x := None)) y))) = 0" "finite (dom (m(x := None)))"
    and pos: "\<forall>y v. (m(x := None)) y = Some v \<longrightarrow> 0 < v"
    unfolding refs_ok_def by simp_all
  have none: "(m(x := None)) y = None" for y
  proof (rule ccontr)
    assume "(m(x := None)) y \<noteq> None"
    then obtain v where v: "(m(x := None)) y = Some v" by blast
    then have "y \<in> dom (m(x := None))" by (rule domI)
    then have "unat (the ((m(x := None)) y)) = 0" using z by (simp only: sum_eq_0_iff)
    then have "v = 0" using v by (simp add: unat_eq_0)
    then show False using pos v by blast
  qed
  show ?thesis
  proof
    fix y
    show "m y = [x \<mapsto> n] y" using none [of y] assms(2) by (cases "y = x") simp_all
  qed
qed

section \<open>The invariant\<close>

text \<open>
  A segment location is idle (no reference), open for reading, being loaded, open for writing,
  or being encoded: the active id and the side id tell the phase, and only a segment in
  progress has waiters. A storage location is the one of its segment.
\<close>

definition loc_ok :: "segment_location \<Rightarrow> bool" where
  "loc_ok l \<longleftrightarrow>
     refs_ok (lc_referenceCount l) (lc_referenceMap l) \<and>
     (lc_id l = None \<or> lc_sideId l = None) \<and>
     (0 < lc_referenceCount l \<longleftrightarrow> lc_id l \<noteq> None \<or> lc_sideId l \<noteq> None) \<and>
     (lc_location l = None \<longrightarrow> lc_referenceCount l = 1 \<and> \<not> lc_prefetched l) \<and>
     (lc_sideId l = None \<longrightarrow> lc_waitList l = []) \<and>
     (lc_prefetched l \<and> 0 < lc_referenceCount l \<longrightarrow> lc_referenceCount l = 1 \<and> lc_cancel l) \<and>
     (lc_id l \<noteq> None \<longrightarrow> \<not> lc_cancel l) \<and>
     (\<forall>loc. lc_location l = Some loc \<longrightarrow> ln_sequenceNumber (sl_link loc) = lc_sequenceNumber l)"

text \<open>What the location holds of the stream buffer.\<close>

definition locHold :: "stream_ref \<Rightarrow> segment_location \<Rightarrow> (nat \<times> hold) option" where
  "locHold ref l =
     (case lc_id l of
        Some i \<Rightarrow> Some (i, \<lparr>ho_key = streamKey ref (lc_sequenceNumber l), ho_submitted = False,
                             ho_read = (lc_location l \<noteq> None)\<rparr>)
      | None \<Rightarrow>
         map_option (\<lambda>i. (i, \<lparr>ho_key = streamKey ref (lc_sequenceNumber l),
                              ho_submitted = (lc_location l = None), ho_read = (lc_location l \<noteq> None)\<rparr>))
           (lc_sideId l))"

type_synonym slots = "u32 \<Rightarrow> segment_location option"

definition stored :: "slots \<Rightarrow> u32 \<Rightarrow> bool" where
  "stored sl q \<longleftrightarrow> (\<exists>l. sl q = Some l \<and> lc_location l \<noteq> None)"

definition absent :: "stream_ref \<Rightarrow> slots \<Rightarrow> link_key set" where
  "absent ref sl = {streamKey ref q | q. \<not> stored sl q}"

definition matches :: "stream_ref \<Rightarrow> slots \<Rightarrow> (nat \<Rightarrow> hold option) \<Rightarrow> bool" where
  "matches ref sl H \<longleftrightarrow>
     (\<forall>x h. H x = Some h \<longleftrightarrow> (\<exists>q l. sl q = Some l \<and> locHold ref l = Some (x, h)))"

definition seq_ok :: "slots \<Rightarrow> bool" where
  "seq_ok sl \<longleftrightarrow> (\<forall>q l. sl q = Some l \<longrightarrow> lc_sequenceNumber l = q)"

definition hold_rel :: "stream_ref \<Rightarrow> slots \<Rightarrow> server_buffer \<Rightarrow> bool" where
  "hold_rel ref sl b \<longleftrightarrow> seq_ok sl \<and> (\<exists>H. matches ref sl H \<and> holds H (absent ref sl) b)"

lemma seq_ok_D: "seq_ok sl \<Longrightarrow> sl q = Some l \<Longrightarrow> lc_sequenceNumber l = q"
  by (simp add: seq_ok_def)

lemma seq_ok_set: "seq_ok sl \<Longrightarrow> (\<And>l. v = Some l \<Longrightarrow> lc_sequenceNumber l = q) \<Longrightarrow> seq_ok (sl(q := v))"
  by (simp add: seq_ok_def)

definition slots_ok :: "slots \<Rightarrow> u32 list \<Rightarrow> u32 \<Rightarrow> bool" where
  "slots_ok sl ol la \<longleftrightarrow>
     (\<forall>q l. sl q = Some l \<longrightarrow> lc_sequenceNumber l = q \<and> loc_ok l) \<and>
     distinct ol \<and>
     (\<forall>q. q \<in> set ol \<longleftrightarrow> (\<exists>l. sl q = Some l \<and> 0 < lc_referenceCount l)) \<and>
     (la \<noteq> INVALID_STREAM_SEGMENT_ID \<longrightarrow> (\<exists>l. sl la = Some l \<and> lc_location l = None \<and> lc_id l \<noteq> None))"

text \<open>The table ends with the last sequence number.\<close>

definition table_ok :: "server_stream \<Rightarrow> bool" where
  "table_ok s \<longleftrightarrow> length (ss_segments s) = unat (ss_lastSequenceNumber s + 1)"

definition stream_inv :: "server_stream \<Rightarrow> bool" where
  "stream_inv s \<longleftrightarrow>
     table_ok s \<and> slots_ok (slot s) (ss_openList s) (ss_lastAppendSequenceNumber s) \<and>
     hold_rel (ss_ref s) (slot s) (ss_buffer s)"

section \<open>Held segments and slots\<close>

lemma locHold_key: "locHold ref l = Some (x, h) \<Longrightarrow> ho_key h = streamKey ref (lc_sequenceNumber l)"
  by (auto simp: locHold_def split: option.splits)

lemma locHold_read: "locHold ref l = Some (x, h) \<Longrightarrow> ho_read h \<longleftrightarrow> lc_location l \<noteq> None"
  by (auto simp: locHold_def split: option.splits)

lemma locHold_None: "locHold ref l = None \<longleftrightarrow> lc_id l = None \<and> lc_sideId l = None"
  by (auto simp: locHold_def split: option.splits)

text \<open>Changing one slot \<open>q\<close> with the segment it held, and the one it holds then.\<close>

lemma matches_set:
  assumes m: "matches ref sl H" and ok: "seq_ok sl"
    and v: "\<And>l. v = Some l \<Longrightarrow> lc_sequenceNumber l = q"
    and old: "Option.bind (sl q) (locHold ref) = old" and new: "Option.bind v (locHold ref) = new"
    and fresh: "\<And>x h. new = Some (x, h) \<Longrightarrow> map_option fst old \<noteq> Some x \<Longrightarrow> H x = None"
  shows "matches ref (sl(q := v))
    (case new of None \<Rightarrow> (case old of None \<Rightarrow> H | Some (x, _) \<Rightarrow> H(x := None))
     | Some (y, h) \<Rightarrow> (case old of None \<Rightarrow> H | Some (x, _) \<Rightarrow> H(x := None))(y \<mapsto> h))"
proof -
  let ?H = "case old of None \<Rightarrow> H | Some (x, _) \<Rightarrow> H(x := None)"
  have uniq: "q' = q" if q': "sl q' = Some l'" "locHold ref l' = Some (x, h')" and o: "old = Some (x, h)"
    for q' l' x h h'
  proof -
    obtain l where l: "sl q = Some l" "locHold ref l = Some (x, h)"
      using old o by (auto simp: bind_eq_Some_conv)
    then have "H x = Some h" "H x = Some h'" using m q' unfolding matches_def by blast+
    then have "streamKey ref q = streamKey ref q'"
      using locHold_key [OF l(2)] locHold_key [OF q'(2)] seq_ok_D [OF ok l(1)] seq_ok_D [OF ok q'(1)] by force
    then show ?thesis by (simp add: streamKey_inj)
  qed
  have rest: "?H x = Some h \<longleftrightarrow> (\<exists>q' l. q' \<noteq> q \<and> sl q' = Some l \<and> locHold ref l = Some (x, h))" for x h
  proof (cases old)
    case None
    then have "\<not> (\<exists>l. sl q = Some l \<and> locHold ref l = Some (x, h))" using old by auto
    then show ?thesis using None m unfolding matches_def by (metis option.case(1))
  next
    case (Some a)
    then obtain y g where y: "old = Some (y, g)" by (cases a) auto
    then obtain l where l: "sl q = Some l" "locHold ref l = Some (y, g)"
      using old by (auto simp: bind_eq_Some_conv)
    show ?thesis
    proof (cases "x = y")
      case True
      then have "\<not> (\<exists>q' l. q' \<noteq> q \<and> sl q' = Some l \<and> locHold ref l = Some (x, h))"
        using uniq y by blast
      then show ?thesis using y True by simp
    next
      case False
      then have "?H x = H x" using y by simp
      moreover have "\<not> (\<exists>l. sl q = Some l \<and> locHold ref l = Some (x, h))" using l False by auto
      ultimately show ?thesis using m unfolding matches_def by metis
    qed
  qed
  show ?thesis
  proof (cases new)
    case None
    then have "\<not> (\<exists>l. v = Some l \<and> locHold ref l = Some (x, h))" for x h using new by auto
    then show ?thesis using rest None unfolding matches_def by (auto simp: fun_upd_def)
  next
    case (Some a)
    then obtain y g where y: "new = Some (y, g)" by (cases a) auto
    then obtain l where l: "v = Some l" "locHold ref l = Some (y, g)"
      using new by (auto simp: bind_eq_Some_conv)
    have "?H y = None" using fresh [OF y] by (cases old) (auto split: if_splits)
    then have none: "\<not> (\<exists>q' l. q' \<noteq> q \<and> sl q' = Some l \<and> locHold ref l = Some (y, h))" for h
      using rest [of y h] by simp
    show ?thesis
      unfolding matches_def
    proof (intro allI)
      fix x h
      show "((case new of None \<Rightarrow> ?H | Some (y, h) \<Rightarrow> ?H(y \<mapsto> h)) x = Some h) =
        (\<exists>q' l'. (sl(q := v)) q' = Some l' \<and> locHold ref l' = Some (x, h))"
      proof (cases "x = y")
        case True
        then show ?thesis using y l none [of h] by auto
      next
        case False
        then show ?thesis using y l rest [of x h] by auto
      qed
    qed
  qed
qed

lemma absent_stored: "sl q = Some l \<Longrightarrow> lc_location l \<noteq> None \<Longrightarrow> streamKey ref q \<notin> absent ref sl"
  by (auto simp: absent_def stored_def streamKey_inj)

lemma absent_set_stored:
  "lc_location l \<noteq> None \<Longrightarrow> absent ref (sl(q \<mapsto> l)) = absent ref sl - {streamKey ref q}"
  by (auto simp: absent_def stored_def streamKey_inj split: if_splits)

lemma absent_set_mono:
  "(stored sl q \<Longrightarrow> stored (sl(q := v)) q) \<Longrightarrow> absent ref (sl(q := v)) \<subseteq> absent ref sl"
  by (auto simp: absent_def stored_def split: if_splits)

text \<open>What the other threads do in the environment keeps the segments of this stream.\<close>

definition quietEnv :: "stream_ref \<Rightarrow> request_env \<Rightarrow> bool" where
  "quietEnv ref e \<longleftrightarrow>
     (\<forall>H N. (\<forall>x h. H x = Some h \<longrightarrow> ho_key h \<in> range (streamKey ref)) \<and> N \<subseteq> range (streamKey ref) \<longrightarrow>
        keeps_holds H N (rq_env e))"

lemma quiet_matches:
  assumes "quietEnv ref e" and "matches ref sl H"
  shows "keeps_holds H (absent ref sl) (rq_env e)"
proof -
  have "ho_key h \<in> range (streamKey ref)" if "H x = Some h" for x h
    using assms(2) that locHold_key unfolding matches_def by fastforce
  moreover have "absent ref sl \<subseteq> range (streamKey ref)" by (auto simp: absent_def)
  ultimately show ?thesis using assms(1) unfolding quietEnv_def by blast
qed

text \<open>The laws of the pool, for the slot that holds the segment.\<close>

abbreviation slotHold :: "stream_ref \<Rightarrow> segment_location option \<Rightarrow> (nat \<times> hold) option" where
  "slotHold ref v \<equiv> Option.bind v (locHold ref)"

lemma matches_same:
  assumes "matches ref sl H" and "seq_ok sl" and "\<And>l. v = Some l \<Longrightarrow> lc_sequenceNumber l = q"
    and "slotHold ref v = slotHold ref (sl q)"
  shows "matches ref (sl(q := v)) H"
proof -
  have "H x = Some h" if "slotHold ref (sl q) = Some (x, h)" for x h
    using assms(1) that unfolding matches_def by (auto simp: bind_eq_Some_conv)
  then show ?thesis
    using matches_set [OF assms(1-3) refl assms(4)]
    by (cases "slotHold ref (sl q)") (auto simp: map_upd_triv)
qed

lemma matches_drop:
  assumes "matches ref sl H" and "seq_ok sl" and "\<And>l. v = Some l \<Longrightarrow> lc_sequenceNumber l = q"
    and "sl q = Some l" and "locHold ref l = Some (x, h)" and "slotHold ref v = None"
  shows "matches ref (sl(q := v)) (H(x := None))"
  using matches_set [OF assms(1-3) _ assms(6), of "Some (x, h)"] assms(4,5) by simp

lemma matches_add:
  assumes "matches ref sl H" and "seq_ok sl" and "lc_sequenceNumber l = q"
    and "slotHold ref (sl q) = None" and "locHold ref l = Some (x, h)" and "H x = None"
  shows "matches ref (sl(q \<mapsto> l)) (H(x \<mapsto> h))"
  using matches_set [OF assms(1,2), of "Some l" q None "Some (x, h)"] assms(3-6) by simp

lemma matches_mod:
  assumes "matches ref sl H" and "seq_ok sl" and "sl q = Some l" and "lc_sequenceNumber l' = q"
    and "locHold ref l = Some (x, h)" and "locHold ref l' = Some (x, h')"
  shows "matches ref (sl(q \<mapsto> l')) (H(x \<mapsto> h'))"
  using matches_set [OF assms(1,2), of "Some l'" q "Some (x, h)" "Some (x, h')"] assms(3-6) by simp

lemma matches_D: "matches ref sl H \<Longrightarrow> sl q = Some l \<Longrightarrow> locHold ref l = Some (x, h) \<Longrightarrow> H x = Some h"
  unfolding matches_def by blast

lemma hold_keep:
  assumes "hold_rel ref sl b" and "\<And>l. v = Some l \<Longrightarrow> lc_sequenceNumber l = q"
    and "slotHold ref v = slotHold ref (sl q)" and "stored sl q \<Longrightarrow> stored (sl(q := v)) q"
  shows "hold_rel ref (sl(q := v)) b"
proof -
  obtain H where H: "seq_ok sl" "matches ref sl H" "holds H (absent ref sl) b"
    using assms(1) by (auto simp: hold_rel_def)
  have "holds H (absent ref (sl(q := v))) b"
    by (rule holds_weaken [OF H(3)]) (use absent_set_mono [of sl q v ref] assms(4) in auto)
  then show ?thesis
    using matches_same [OF H(2,1) assms(2,3)] seq_ok_set [OF H(1) assms(2)] by (auto simp: hold_rel_def)
qed

text \<open>After the release of a stored segment, and after a segment is discarded.\<close>

lemma hold_release:
  assumes "hold_rel ref sl b" and "sl q = Some l" and "locHold ref l = Some (x, h)"
    and "ho_read h \<or> ho_submitted h" and "lc_sequenceNumber l' = q" "locHold ref l' = None"
    and "lc_location l' \<noteq> None"
  shows "\<exists>b'. freeSegment x prefetch b = (Inr (), b') \<and> hold_rel ref (sl(q \<mapsto> l')) b'"
proof -
  obtain H where H: "seq_ok sl" "matches ref sl H" "holds H (absent ref sl) b"
    using assms(1) by (auto simp: hold_rel_def)
  have key: "ho_key h = streamKey ref q" using locHold_key [OF assms(3)] seq_ok_D [OF H(1) assms(2)] by simp
  obtain b' where "freeSegment x prefetch b = (Inr (), b')" "holds (H(x := None)) (absent ref sl - {ho_key h}) b'"
    using pool.release_law [OF H(3) matches_D [OF H(2) assms(2,3)] assms(4)] by blast
  moreover have "matches ref (sl(q \<mapsto> l')) (H(x := None))"
    by (rule matches_drop [OF H(2,1) _ assms(2,3)]) (use assms(5,6) in auto)
  ultimately show ?thesis
    using absent_set_stored [OF assms(7)] key seq_ok_set [OF H(1), of "Some l'" q] assms(5)
    by (auto simp: hold_rel_def)
qed

lemma hold_discard:
  assumes "hold_rel ref sl b" and "sl q = Some l" and "locHold ref l = Some (x, h)"
    and "\<And>l'. v = Some l' \<Longrightarrow> lc_sequenceNumber l' = q" and "slotHold ref v = None"
    and "lc_location l \<noteq> None \<Longrightarrow> stored (sl(q := v)) q"
  shows "\<exists>b'. purgeSegment x b = (Inr (), b') \<and> hold_rel ref (sl(q := v)) b'"
proof -
  obtain H where H: "seq_ok sl" "matches ref sl H" "holds H (absent ref sl) b"
    using assms(1) by (auto simp: hold_rel_def)
  obtain b' where b': "purgeSegment x b = (Inr (), b')" "holds (H(x := None)) (absent ref sl) b'"
    using pool.discard_law [OF H(3) matches_D [OF H(2) assms(2,3)]] by blast
  have "matches ref (sl(q := v)) (H(x := None))"
    by (rule matches_drop [OF H(2,1) assms(4) assms(2,3,5)])
  moreover have "absent ref (sl(q := v)) \<subseteq> absent ref sl"
    by (rule absent_set_mono) (use assms(2,6) in \<open>auto simp: stored_def\<close>)
  ultimately show ?thesis
    using b' holds_weaken [OF b'(2) map_le_refl] seq_ok_set [OF H(1) assms(4)]
    by (auto simp: hold_rel_def)
qed

text \<open>
  Submitting the active segment of a location: it stays, or it moves to the side id, or it is
  gone. In the last case the slot may get any content without a segment, as long as it has a
  storage location if the segment may be cached.
\<close>

lemma hold_submit:
  assumes "hold_rel ref sl b" and "sl q = Some l" and "lc_id l = Some x" and "lc_sideId l = None"
  shows "case submitSegment x now wr b of
      (Inl e, b') \<Rightarrow> hold_rel ref sl b'
    | (Inr (False, loc), b') \<Rightarrow> loc = None \<and> lc_location l = None \<and>
        hold_rel ref (sl(q \<mapsto> l\<lparr>lc_sideId := lc_id l, lc_id := None\<rparr>)) b'
    | (Inr (True, loc), b') \<Rightarrow> (loc \<noteq> None \<longrightarrow> lc_location l = None) \<and>
        (\<forall>v. (\<forall>l'. v = Some l' \<longrightarrow> lc_sequenceNumber l' = q) \<and> slotHold ref v = None \<and>
             (loc \<noteq> None \<or> lc_location l \<noteq> None \<longrightarrow> stored (sl(q := v)) q) \<longrightarrow>
             hold_rel ref (sl(q := v)) b')"
proof -
  obtain H where H: "seq_ok sl" "matches ref sl H" "holds H (absent ref sl) b"
    using assms(1) by (auto simp: hold_rel_def)
  let ?h = "\<lparr>ho_key = streamKey ref (lc_sequenceNumber l), ho_submitted = False, ho_read = (lc_location l \<noteq> None)\<rparr>"
  have lh: "locHold ref l = Some (x, ?h)" using assms(3) by (simp add: locHold_def)
  have key: "ho_key ?h = streamKey ref q" using seq_ok_D [OF H(1) assms(2)] by simp
  have ns: "\<not> ho_submitted ?h" by simp
  note law = pool.submit_law [OF H(3) matches_D [OF H(2) assms(2) lh] ns, where w = "(now, wr)", unfolded prod.case]
  have gone: "hold_rel ref (sl(q := v)) b'"
    if v: "\<forall>l'. v = Some l' \<longrightarrow> lc_sequenceNumber l' = q" "slotHold ref v = None"
      and N: "absent ref (sl(q := v)) \<subseteq> N'" and b': "holds (H(x := None)) N' b'" for v b' N'
  proof -
    have "matches ref (sl(q := v)) (H(x := None))"
      by (rule matches_drop [OF H(2,1) _ assms(2) lh v(2)]) (use v(1) in simp)
    then show ?thesis
      using holds_weaken [OF b' map_le_refl N] seq_ok_set [OF H(1), of v q] v(1) by (auto simp: hold_rel_def)
  qed
  have stored_sub: "absent ref (sl(q := v)) \<subseteq> absent ref sl - {streamKey ref q}" if "stored (sl(q := v)) q" for v
    using that absent_set_stored [of _ ref sl q] by (auto simp: stored_def)
  have mono: "absent ref (sl(q := v)) \<subseteq> absent ref sl" if "lc_location l = None" for v
    by (rule absent_set_mono) (use assms(2) that in \<open>simp add: stored_def\<close>)
  obtain r b' where s: "submitSegment x now wr b = (r, b')" by fastforce
  show ?thesis
  proof (cases r)
    case (Inl e)
    then show ?thesis using law s H by (auto simp: hold_rel_def)
  next
    case (Inr a)
    then obtain c loc where r: "r = Inr (c, loc)" by (cases a) auto
    show ?thesis
    proof (cases c)
      case False
      let ?l = "l\<lparr>lc_sideId := lc_id l, lc_id := None\<rparr>"
      have l: "lc_location l = None" "loc = None" using law False unfolding s r by simp_all
      then have "holds (H(x \<mapsto> ?h\<lparr>ho_submitted := True\<rparr>)) (absent ref sl) b'"
        using law False unfolding s r by simp
      note w = this l
      have "locHold ref ?l = Some (x, ?h\<lparr>ho_submitted := True\<rparr>)"
        using assms(3) w(2) by (simp add: locHold_def)
      from matches_mod [OF H(2,1) assms(2) _ lh this]
      have m: "matches ref (sl(q \<mapsto> ?l)) (H(x \<mapsto> ?h\<lparr>ho_submitted := True\<rparr>))"
        using seq_ok_D [OF H(1) assms(2)] by simp
      have "holds (H(x \<mapsto> ?h\<lparr>ho_submitted := True\<rparr>)) (absent ref (sl(q \<mapsto> ?l))) b'"
        by (rule holds_weaken [OF w(1) map_le_refl mono [OF w(2)]])
      then have "hold_rel ref (sl(q \<mapsto> ?l)) b'"
        using m seq_ok_set [OF H(1), of "Some ?l" q] seq_ok_D [OF H(1) assms(2)] by (auto simp: hold_rel_def)
      then show ?thesis using s r False w by simp
    next
      case True
      then have w: "((loc = None \<longleftrightarrow> ho_read ?h) \<and> holds (H(x := None)) (absent ref sl - {ho_key ?h}) b') \<or>
          (loc = None \<and> \<not> ho_read ?h \<and> holds (H(x := None)) (absent ref sl) b')"
        using law unfolding s r by simp
      have "hold_rel ref (sl(q := v)) b'"
        if v: "\<forall>l'. v = Some l' \<longrightarrow> lc_sequenceNumber l' = q" "slotHold ref v = None"
          "loc \<noteq> None \<or> lc_location l \<noteq> None \<longrightarrow> stored (sl(q := v)) q" for v
        using w
      proof (elim disjE conjE)
        assume a: "loc = None \<longleftrightarrow> ho_read ?h" "holds (H(x := None)) (absent ref sl - {ho_key ?h}) b'"
        then have "stored (sl(q := v)) q" using v(3) by auto
        from gone [OF v(1,2) stored_sub [OF this] a(2) [unfolded key]] show ?thesis .
      next
        assume a: "\<not> ho_read ?h" "holds (H(x := None)) (absent ref sl) b'"
        then have "lc_location l = None" by simp
        from gone [OF v(1,2) mono [OF this] a(2)] show ?thesis .
      qed
      moreover have "loc \<noteq> None \<longrightarrow> lc_location l = None" using w by auto
      ultimately show ?thesis using s r True by simp
    qed
  qed
qed

text \<open>Requesting a segment for an empty slot, and loading one for an idle location.\<close>

lemma hold_request:
  assumes "hold_rel ref sl b" and "quietEnv ref e" and "sl q = None"
  shows "case requestSegment e ref q b of
      (Inl ex, b') \<Rightarrow> b' = b
    | (Inr (c, None), b') \<Rightarrow> hold_rel ref sl b'
    | (Inr (c, Some x), b') \<Rightarrow>
        (\<exists>cs. serverGetControlElement x b' = Inr (Inr x) \<and>
           (\<forall>l c. lc_sequenceNumber l = q \<and> lc_location l = None \<and> lc_id l = Some x \<longrightarrow>
              hold_rel ref (sl(q \<mapsto> l)) (b'\<lparr>sv_ctrl := c\<rparr>)))"
proof -
  obtain H where H: "seq_ok sl" "matches ref sl H" "holds H (absent ref sl) b"
    using assms(1) by (auto simp: hold_rel_def)
  have n: "streamKey ref q \<in> absent ref sl" using assms(3) by (auto simp: absent_def stored_def)
  note law = pool.request_law [OF H(3) quiet_matches [OF assms(2) H(2)] n]
  obtain r b' where s: "requestSegment e ref q b = (r, b')" by fastforce
  show ?thesis
  proof (cases r)
    case (Inl ex)
    then show ?thesis using law s by simp
  next
    case (Inr a)
    then obtain c v where r: "r = Inr (c, v)" by (cases a) auto
    show ?thesis
    proof (cases v)
      case None
      then show ?thesis using law s r H by (auto simp: hold_rel_def)
    next
      case (Some x)
      let ?h = "newHold (streamKey ref q) False"
      have w: "H x = None" "holds (H(x \<mapsto> ?h)) (absent ref sl) b'" using law s r Some by simp_all
      have p: "(H(x \<mapsto> ?h)) x = Some ?h" "\<not> ho_read ?h" "\<not> sg_isSubmitted (sv_seg b' x)"
        using request_unmarked [OF H(3) quiet_matches [OF assms(2) H(2)] n] s r Some by simp_all
      have "hold_rel ref (sl(q \<mapsto> l)) (b'\<lparr>sv_ctrl := c\<rparr>)"
        if l: "lc_sequenceNumber l = q" "lc_location l = None" "lc_id l = Some x" for l c
      proof -
        have "locHold ref l = Some (x, ?h)" using l by (simp add: locHold_def)
        then have m: "matches ref (sl(q \<mapsto> l)) (H(x \<mapsto> ?h))"
          by (intro matches_add [OF H(2,1) l(1)]) (use w assms(3) in simp_all)
        have "holds (H(x \<mapsto> ?h)) (absent ref sl) (b'\<lparr>sv_ctrl := c\<rparr>)"
          using w(2) by (simp add: holds_def held_def wf_buffer_def del: fun_upd_apply)
        then have "holds (H(x \<mapsto> ?h)) (absent ref (sl(q \<mapsto> l))) (b'\<lparr>sv_ctrl := c\<rparr>)"
          by (rule holds_weaken [OF _ map_le_refl]) (rule absent_set_mono, use assms(3) in \<open>simp add: stored_def\<close>)
        then show ?thesis using m seq_ok_set [OF H(1), of "Some l" q] l(1) by (auto simp: hold_rel_def)
      qed
      then show ?thesis using startIndex_holds [OF w(2) p] s r Some by auto
    qed
  qed
qed

lemma hold_fetch:
  assumes "hold_rel ref sl b" and "quietEnv ref e" and "sl q = Some l"
    and "lc_id l = None" "lc_sideId l = None" "lc_location l = Some loc"
    and "ln_sequenceNumber (sl_link loc) = q"
  shows "case openSegment e ref flags loc prefetch rd b of
      (Inl ex, b') \<Rightarrow> hold_rel ref sl b'
    | (Inr (c, None), b') \<Rightarrow> c \<and> hold_rel ref sl b'
    | (Inr (c, Some x), b') \<Rightarrow>
        (\<forall>l'. lc_sequenceNumber l' = q \<and> lc_location l' \<noteq> None \<and> lc_id l' = None \<and> lc_sideId l' = Some x \<longrightarrow>
           hold_rel ref (sl(q \<mapsto> l')) b')"
proof -
  obtain H where H: "seq_ok sl" "matches ref sl H" "holds H (absent ref sl) b"
    using assms(1) by (auto simp: hold_rel_def)
  note law = pool.fetch_law [OF H(3) quiet_matches [OF assms(2) H(2)], of ref "(flags, loc, prefetch, rd)",
      unfolded prod.case assms(7)]
  obtain r b' where s: "openSegment e ref flags loc prefetch rd b = (r, b')" by fastforce
  show ?thesis
  proof (cases r)
    case (Inl ex)
    then show ?thesis using law s H by (auto simp: hold_rel_def)
  next
    case (Inr a)
    then obtain c v where r: "r = Inr (c, v)" by (cases a) auto
    show ?thesis
    proof (cases v)
      case None
      then show ?thesis using law s r H by (auto simp: hold_rel_def)
    next
      case (Some x)
      let ?h = "newHold (streamKey ref q) True"
      have w: "H x = None" "holds (H(x \<mapsto> ?h)) (absent ref sl) b'" using law s r Some by simp_all
      have "hold_rel ref (sl(q \<mapsto> l')) b'"
        if l: "lc_sequenceNumber l' = q" "lc_location l' \<noteq> None" "lc_id l' = None" "lc_sideId l' = Some x" for l'
      proof -
        have "locHold ref l' = Some (x, ?h)" using l by (simp add: locHold_def)
        then have m: "matches ref (sl(q \<mapsto> l')) (H(x \<mapsto> ?h))"
          by (intro matches_add [OF H(2,1) l(1)]) (use w assms(3-5) in \<open>simp_all add: locHold_None\<close>)
        have "holds (H(x \<mapsto> ?h)) (absent ref (sl(q \<mapsto> l'))) b'"
          by (rule holds_weaken [OF w(2) map_le_refl]) (rule absent_set_mono, use l in \<open>simp add: stored_def\<close>)
        then show ?thesis using m seq_ok_set [OF H(1), of "Some l'" q] l(1) by (auto simp: hold_rel_def)
      qed
      then show ?thesis using s r Some by simp
    qed
  qed
qed

section \<open>What completing a segment does\<close>

text \<open>The rest of the state, which an operation on a segment leaves as it is.\<close>

definition same_rest :: "server_stream \<Rightarrow> server_stream \<Rightarrow> bool" where
  "same_rest s s' \<longleftrightarrow> ss_ref s' = ss_ref s \<and> length (ss_segments s') = length (ss_segments s) \<and>
     ss_lastSequenceNumber s' = ss_lastSequenceNumber s \<and>
     ss_lastAppendSequenceNumber s' = ss_lastAppendSequenceNumber s"

lemma same_rest_refl [simp]: "same_rest s s"
  by (simp add: same_rest_def)

lemma same_rest_trans: "same_rest s s1 \<Longrightarrow> same_rest s1 s2 \<Longrightarrow> same_rest s s2"
  by (simp add: same_rest_def)

lemma table_ok_rest: "same_rest s s' \<Longrightarrow> table_ok s' = table_ok s"
  by (simp add: same_rest_def table_ok_def)

lemma same_rest_upd [simp]:
  "same_rest s (updLoc q f s') = same_rest s s'" "same_rest s (updWait w g s') = same_rest s s'"
  "same_rest s (s'\<lparr>ss_buffer := b\<rparr>) = same_rest s s'" "same_rest s (s'\<lparr>ss_notified := n\<rparr>) = same_rest s s'"
  "same_rest s (s'\<lparr>ss_openList := ol\<rparr>) = same_rest s s'"
  "same_rest s (s'\<lparr>ss_segments := (ss_segments s')[i := v]\<rparr>) = same_rest s s'"
  by (simp_all add: same_rest_def)

lemma fold_waits [simp]:
  "slot (fold (\<lambda>w. updWait (Some w) f) ws s) = slot s"
  "ss_buffer (fold (\<lambda>w. updWait (Some w) f) ws s) = ss_buffer s"
  "ss_openList (fold (\<lambda>w. updWait (Some w) f) ws s) = ss_openList s"
  "same_rest s0 (fold (\<lambda>w. updWait (Some w) f) ws s) = same_rest s0 s"
  "ss_segments (fold (\<lambda>w. updWait (Some w) f) ws s) = ss_segments s"
  by (induction ws arbitrary: s) simp_all

lemma indexTree_simps [simp]:
  "slot (indexTree l t s) = slot s" "ss_buffer (indexTree l t s) = ss_buffer s"
  "ss_openList (indexTree l t s) = ss_openList s" "same_rest s0 (indexTree l t s) = same_rest s0 s"
  by (simp_all add: indexTree_def Let_def slot_def same_rest_def fun_eq_iff)

lemma indexLocation_simps [simp]:
  "slot (indexLocation l s) = slot s" "ss_buffer (indexLocation l s) = ss_buffer s"
  "ss_openList (indexLocation l s) = ss_openList s" "same_rest s0 (indexLocation l s) = same_rest s0 s"
proof -
  have f: "slot (fold (indexTree l) ts s) = slot s \<and> ss_buffer (fold (indexTree l) ts s) = ss_buffer s \<and>
      ss_openList (fold (indexTree l) ts s) = ss_openList s \<and>
      same_rest s0 (fold (indexTree l) ts s) = same_rest s0 s" for ts s0
    by (induction ts arbitrary: s) simp_all
  show "slot (indexLocation l s) = slot s" "ss_buffer (indexLocation l s) = ss_buffer s"
    "ss_openList (indexLocation l s) = ss_openList s" "same_rest s0 (indexLocation l s) = same_rest s0 s"
    using f [of allTrees s0] f [of allTrees s] by (simp_all add: indexLocation_def Let_def same_rest_def)
qed

text \<open>The open list behind an operation that takes the segment off it.\<close>

definition itOk :: "iterator \<Rightarrow> u32 \<Rightarrow> server_stream \<Rightarrow> bool" where
  "itOk it q s \<longleftrightarrow> (case it of None \<Rightarrow> True | Some i \<Rightarrow> i < length (ss_openList s) \<and> ss_openList s ! i = q)"

lemma eraseAt_removeAll:
  assumes "distinct xs" and "i < length xs"
  shows "eraseAt i xs = removeAll (xs ! i) xs"
proof -
  have xs: "xs = take i xs @ xs ! i # drop (Suc i) xs" using assms(2) by (rule id_take_nth_drop)
  then have "distinct (take i xs @ xs ! i # drop (Suc i) xs)" using assms(1) by simp
  then have "xs ! i \<notin> set (take i xs)" "xs ! i \<notin> set (drop (Suc i) xs)" by auto
  then show ?thesis by (subst xs) (simp add: eraseAt_def)
qed

lemma removeOpen_list:
  "distinct (ss_openList s) \<Longrightarrow> itOk it q s \<Longrightarrow> ss_openList (removeOpen q it s) = removeAll q (ss_openList s)"
  by (auto simp: removeOpen_def itOk_def eraseAt_removeAll split: option.splits)

lemma removeOpen_simps [simp]:
  "slot (removeOpen q it s) = slot s" "ss_buffer (removeOpen q it s) = ss_buffer s"
  "same_rest s0 (removeOpen q it s) = same_rest s0 s" "ss_segments (removeOpen q it s) = ss_segments s"
  by (simp_all add: removeOpen_def)

text \<open>The location of a segment without references.\<close>

definition idled :: "bool \<Rightarrow> nat list \<Rightarrow> segment_location \<Rightarrow> segment_location" where
  "idled p ws l = l\<lparr>lc_id := None, lc_sideId := None, lc_cancel := False, lc_prefetched := p,
     lc_referenceCount := 0, lc_referenceMap := Map.empty, lc_waitList := ws\<rparr>"

lemma idled_simps [simp]:
  "lc_id (idled p ws l) = None" "lc_sideId (idled p ws l) = None" "lc_location (idled p ws l) = lc_location l"
  "lc_sequenceNumber (idled p ws l) = lc_sequenceNumber l" "lc_referenceCount (idled p ws l) = 0"
  "locHold ref (idled p ws l) = None"
  by (simp_all add: idled_def locHold_def)

lemma idled_ok: "loc_ok l \<Longrightarrow> lc_location l \<noteq> None \<Longrightarrow> loc_ok (idled p [] l)"
  by (simp add: loc_ok_def idled_def)

text \<open>
  An outcome of \<open>_completeSegment\<close>: the slot gets \<open>v\<close>, the buffer is \<open>b\<close>, and the
  segment leaves the open list if \<open>gone\<close>.
\<close>

definition outcome ::
  "u32 \<Rightarrow> segment_location option \<Rightarrow> server_buffer \<Rightarrow> bool \<Rightarrow> server_stream \<Rightarrow> server_stream \<Rightarrow> bool" where
  "outcome q v b gone s s' \<longleftrightarrow>
     slot s' = (slot s)(q := v) \<and> ss_buffer s' = b \<and>
     ss_openList s' = (if gone then removeAll q (ss_openList s) else ss_openList s) \<and> same_rest s s'"

lemma takeWaiters_simps:
  assumes "takeWaiters q success s = (ws, s')"
  shows "slot s' = (slot s)(q := map_option (\<lambda>l. l\<lparr>lc_waitList := []\<rparr>) (slot s q))"
    and "ss_buffer s' = ss_buffer s" "ss_openList s' = ss_openList s" "same_rest s0 s' = same_rest s0 s"
    "ss_segments s' = ss_segments (updLoc q (\<lambda>l. l\<lparr>lc_waitList := []\<rparr>) s)"
  using assms by (cases success; auto simp: takeWaiters_def Let_def)+

lemma core_finish:
  assumes "distinct (ss_openList s)" and "itOk it q s"
    and "outcome q v b False s s1"
  shows "\<exists>ws s'. (let (ws, s2) = (if waiters then takeWaiters q success s1 else ([], s1));
            s3 = (if remove then removeOpen q it s2 else s2);
            s4 = (if \<not> alive then s3\<lparr>ss_segments := (ss_segments s3)[unat q := None]\<rparr> else s3)
        in (Inr ws, s4)) = (Inr ws, s') \<and>
      outcome q (if alive then map_option (\<lambda>l. if waiters then l\<lparr>lc_waitList := []\<rparr> else l) v else None)
        b remove s s'"
proof -
  obtain ws s2 where t: "(if waiters then takeWaiters q success s1 else ([], s1)) = (ws, s2)" by fastforce
  have s2: "slot s2 = (slot s)(q := map_option (\<lambda>l. if waiters then l\<lparr>lc_waitList := []\<rparr> else l) v)"
    "ss_buffer s2 = b" "ss_openList s2 = ss_openList s" "same_rest s s2"
    using t takeWaiters_simps [of q success s1 ws s2] assms(3)
    by (auto simp: outcome_def option.map_ident split: if_splits)
  let ?s3 = "if remove then removeOpen q it s2 else s2"
  have s3: "slot ?s3 = slot s2" "ss_buffer ?s3 = b" "same_rest s ?s3"
    "ss_openList ?s3 = (if remove then removeAll q (ss_openList s) else ss_openList s)"
    using s2 removeOpen_list [of s2 it q] assms(1,2) by (simp_all add: itOk_def split: option.splits)
  show ?thesis unfolding t using s2 s3 by (auto simp: outcome_def Let_def)
qed

lemma upd_idled:
  "l\<lparr>lc_referenceCount := 0, lc_referenceMap := Map.empty, lc_id := None, lc_sideId := None,
     lc_cancel := False\<rparr> = idled (lc_prefetched l) (lc_waitList l) l"
  "lc_id l = None \<Longrightarrow>
   l\<lparr>lc_sideId := None, lc_cancel := False, lc_referenceCount := 0, lc_referenceMap := Map.empty\<rparr> =
     idled (lc_prefetched l) (lc_waitList l) l"
  by (rule segment_location.equality; simp add: idled_def)+

lemma idled_prefetched [simp]: "idled p ws (l\<lparr>lc_prefetched := p'\<rparr>) = idled p ws l"
  by (simp add: idled_def)

text \<open>Failed and canceled loads, a reader that closes, and a successful load.\<close>

lemma completeRead_cases:
  assumes l: "slot s q = Some l" "lc_sideId l = Some x"
  shows "\<not> given \<or> lc_cancel l \<Longrightarrow> purgeSegment x (ss_buffer s) = (Inr (), b') \<Longrightarrow>
      \<exists>s1. completeRead q given False s = (Inr True, s1) \<and>
        outcome q (Some (idled False (lc_waitList l) l)) b' False s s1"
    and "lc_cancel l \<Longrightarrow> freeSegment x (lc_prefetched l) (ss_buffer s) = (Inr (), b') \<Longrightarrow>
      \<exists>s1. completeRead q given True s = (Inr True, s1) \<and>
        outcome q (Some (idled (lc_prefetched l) (lc_waitList l) l)) b' False s s1"
    and "\<not> given \<Longrightarrow> \<not> lc_cancel l \<Longrightarrow>
      \<exists>s1. completeRead q given True s = (Inr True, s1) \<and>
        outcome q (Some (idled (lc_prefetched l) (lc_waitList l) l)) (ss_buffer s) False s s1"
    and "given \<Longrightarrow> \<not> lc_cancel l \<Longrightarrow>
      \<exists>s1. completeRead q given success s = (Inr False, s1) \<and>
        outcome q (Some (l\<lparr>lc_id := Some x, lc_sideId := None, lc_cancel := False\<rparr>)) (ss_buffer s) False s s1"
  using l locAt_slot [OF l(1)]
  by (auto simp: completeRead_def Let_def purgeId_def freeId_def outcome_def dropReferences_def upd_idled)

lemma core_read:
  assumes l: "slot s q = Some l" and loc: "lc_location l \<noteq> None"
    and ol: "distinct (ss_openList s)" "itOk it q s"
    and r: "completeRead q (location \<noteq> None) success s = (Inr remove, s1)" "outcome q v b False s s1"
  shows "\<exists>ws s'. completeSegment_core q location waiters it success sync s = (Inr ws, s') \<and>
    outcome q (map_option (\<lambda>l. if waiters then l\<lparr>lc_waitList := []\<rparr> else l) v) b remove s s'"
  using core_finish [OF ol r(2), of waiters success remove True] l loc r(1) locAt_slot [OF l]
  by (simp add: completeSegment_core_def)

text \<open>A written segment: with a storage location in the right order, or without.\<close>

definition inOrder :: "u32 \<Rightarrow> StorageLocation \<Rightarrow> server_stream \<Rightarrow> bool" where
  "inOrder q loc s \<longleftrightarrow>
     (\<forall>t\<in>set allTrees. \<not> violatesOrder t loc (fst (neighbours q s)) (snd (neighbours q s)))"

lemma addSegment_inOrder:
  assumes "slot s q = Some l" and "inOrder q loc s"
  shows "\<exists>s1. addSegment_internal q loc s = (Inr (), s1) \<and>
    outcome q (Some (l\<lparr>lc_location := Some (normLocation loc)\<rparr>)) (ss_buffer s) False s s1"
proof -
  let ?s1 = "indexLocation (normLocation loc) (updLoc q (\<lambda>lc. lc\<lparr>lc_location := Some (normLocation loc)\<rparr>) s)"
  have n: "(\<exists>t\<in>set allTrees. violatesOrder t loc (fst (neighbours q s)) (snd (neighbours q s))) = False"
    using assms(2) by (simp add: inOrder_def)
  have "segmentIsAllocated q s" using assms(1) by (simp add: allocated_slot)
  then have "addSegment_internal q loc s = (Inr (), ?s1)"
    by (simp only: addSegment_internal_def Let_def case_prod_unfold n if_False simp_thms if_True)
  moreover have "outcome q (Some (l\<lparr>lc_location := Some (normLocation loc)\<rparr>)) (ss_buffer s) False s ?s1"
    using assms(1) by (simp add: outcome_def)
  ultimately show ?thesis by blast
qed

lemma addSegment_outOfOrder:
  assumes "\<not> inOrder q loc s"
  shows "addSegment_internal q loc s = (Inl GenericException, s)"
proof -
  from assms have n: "(\<exists>t\<in>set allTrees. violatesOrder t loc (fst (neighbours q s)) (snd (neighbours q s))) = True"
    unfolding inOrder_def by blast
  show ?thesis by (simp only: addSegment_internal_def Let_def case_prod_unfold n if_True)
qed

lemma completeWrite_cases:
  assumes l: "slot s q = Some l" "lc_sideId l = Some x" "lc_id l = None" "lc_location l = None"
  shows "inOrder q loc s \<Longrightarrow>
      (sync \<and> b' = ss_buffer s \<or> \<not> sync \<and> freeSegment x False (ss_buffer s) = (Inr (), b')) \<Longrightarrow>
      \<exists>s1. completeWrite q (Some loc) success sync s = (Inr True, s1) \<and>
        outcome q (Some (idled (lc_prefetched l) (lc_waitList l) (l\<lparr>lc_location := Some (normLocation loc)\<rparr>)))
          b' False s s1"
    and "\<not> inOrder q loc s \<Longrightarrow> completeWrite q (Some loc) success sync s = (Inl GenericException, s)"
    and "(sync \<and> success \<and> b' = ss_buffer s) \<or> ((\<not> sync \<or> \<not> success) \<and> purgeSegment x (ss_buffer s) = (Inr (), b')) \<Longrightarrow>
      \<exists>s1. completeWrite q None success sync s = (Inr False, s1) \<and> outcome q (Some l) b' False s s1"
proof -
  note la = locAt_slot [OF l(1)]
  show "\<exists>s1. completeWrite q (Some loc) success sync s = (Inr True, s1) \<and>
        outcome q (Some (idled (lc_prefetched l) (lc_waitList l) (l\<lparr>lc_location := Some (normLocation loc)\<rparr>)))
          b' False s s1"
    if o: "inOrder q loc s"
      and f: "sync \<and> b' = ss_buffer s \<or> \<not> sync \<and> freeSegment x False (ss_buffer s) = (Inr (), b')"
  proof -
    let ?l = "l\<lparr>lc_location := Some (normLocation loc)\<rparr>"
    obtain s1 where a: "addSegment_internal q loc s = (Inr (), s1)" and s1: "outcome q (Some ?l) (ss_buffer s) False s s1"
      using addSegment_inOrder [OF l(1) o] by blast
    have sl: "slot s1 q = Some ?l" using s1 by (simp add: outcome_def)
    have la1: "locAt q s1 = ?l" by (rule locAt_slot [OF sl])
    have idl: "?l\<lparr>lc_sideId := None, lc_cancel := False, lc_referenceCount := 0, lc_referenceMap := Map.empty\<rparr> =
        idled (lc_prefetched l) (lc_waitList l) ?l"
      using upd_idled(2) [of ?l] l(3) by simp
    have la2: "locAt q (s1\<lparr>ss_buffer := b'\<rparr>) = ?l" by (rule locAt_slot) (simp add: sl)
    show ?thesis
      using f l(2) s1 sl
      by (elim disjE conjE)
        (simp_all add: completeWrite_def a Let_def la la1 la2 freeId_def outcome_def dropReferences_def idl)
  qed
  show "completeWrite q (Some loc) success sync s = (Inl GenericException, s)" if "\<not> inOrder q loc s"
    using that addSegment_outOfOrder [OF that] by (simp add: completeWrite_def Let_def)
  show "\<exists>s1. completeWrite q None success sync s = (Inr False, s1) \<and> outcome q (Some l) b' False s s1"
    if "(sync \<and> success \<and> b' = ss_buffer s) \<or> ((\<not> sync \<or> \<not> success) \<and> purgeSegment x (ss_buffer s) = (Inr (), b'))"
  proof -
    have la': "locAt q (s\<lparr>ss_buffer := b'\<rparr>) = l" by (rule locAt_slot) (simp add: l)
    have same: "s\<lparr>ss_buffer := ss_buffer s\<rparr> = s" by simp
    have o: "outcome q (Some l) b' False s (s\<lparr>ss_buffer := b'\<rparr>)"
      using l(1) by (auto simp: outcome_def)
    have "completeWrite q None success sync s = (Inr False, s\<lparr>ss_buffer := b'\<rparr>)"
      using that l la la' by (cases "sync \<and> success") (auto simp: completeWrite_def Let_def purgeId_def)
    with o show ?thesis by blast
  qed
qed

lemma core_write:
  assumes l: "slot s q = Some l" and loc: "lc_location l = None"
    and ol: "distinct (ss_openList s)" "itOk it q s"
    and r: "completeWrite q location success sync s = (Inr alive, s1)" "outcome q v b False s s1"
  shows "\<exists>ws s'. completeSegment_core q location waiters it success sync s = (Inr ws, s') \<and>
    outcome q (if alive then map_option (\<lambda>l. if waiters then l\<lparr>lc_waitList := []\<rparr> else l) v else None) b True s s'"
  using core_finish [OF ol r(2), of waiters success True alive] l loc r(1) locAt_slot [OF l]
  by (simp add: completeSegment_core_def)

section \<open>Keeping the invariant\<close>

definition openSlot :: "segment_location option \<Rightarrow> bool" where
  "openSlot v \<longleftrightarrow> (\<exists>l. v = Some l \<and> 0 < lc_referenceCount l)"

lemma openSlot_simps [simp]:
  "\<not> openSlot None" "openSlot (Some l) \<longleftrightarrow> 0 < lc_referenceCount l"
  by (simp_all add: openSlot_def)

lemma slots_D:
  assumes "slots_ok sl ol la"
  shows "sl q = Some l \<Longrightarrow> lc_sequenceNumber l = q" "sl q = Some l \<Longrightarrow> loc_ok l" "distinct ol"
    "q \<in> set ol \<longleftrightarrow> openSlot (sl q)"
    "la \<noteq> INVALID_STREAM_SEGMENT_ID \<Longrightarrow> \<exists>l. sl la = Some l \<and> lc_location l = None \<and> lc_id l \<noteq> None"
  using assms by (auto simp: slots_ok_def openSlot_def)

lemma slots_set:
  assumes sl: "slots_ok sl ol la"
    and v: "\<And>l. v = Some l \<Longrightarrow> lc_sequenceNumber l = q \<and> loc_ok l"
    and ol': "ol' = (if openSlot v then (if openSlot (sl q) then ol else ol @ [q]) else removeAll q ol)"
    and la': "la' \<noteq> INVALID_STREAM_SEGMENT_ID \<Longrightarrow>
      \<exists>l. (sl(q := v)) la' = Some l \<and> lc_location l = None \<and> lc_id l \<noteq> None"
  shows "slots_ok (sl(q := v)) ol' la'"
  unfolding slots_ok_def
proof (intro conjI allI impI)
  show "distinct ol'" using slots_D(3,4) [OF sl] ol' by (auto simp: distinct_removeAll)
next
  fix q'
  show "q' \<in> set ol' \<longleftrightarrow> (\<exists>l. (sl(q := v)) q' = Some l \<and> 0 < lc_referenceCount l)"
    using slots_D(4) [OF sl, of q'] ol' by (auto simp: openSlot_def split: if_splits)
qed (use slots_D(1,2) [OF sl] v la' in \<open>auto split: if_splits\<close>)

lemma inv_D:
  assumes "stream_inv s"
  shows "slots_ok (slot s) (ss_openList s) (ss_lastAppendSequenceNumber s)"
    "hold_rel (ss_ref s) (slot s) (ss_buffer s)" "table_ok s"
    "slot s q = Some l \<Longrightarrow> lc_sequenceNumber l = q" "slot s q = Some l \<Longrightarrow> loc_ok l"
    "distinct (ss_openList s)" "q \<in> set (ss_openList s) \<longleftrightarrow> openSlot (slot s q)"
    "ss_lastAppendSequenceNumber s \<noteq> INVALID_STREAM_SEGMENT_ID \<Longrightarrow>
       \<exists>l. slot s (ss_lastAppendSequenceNumber s) = Some l \<and> lc_location l = None \<and> lc_id l \<noteq> None"
proof -
  show sl: "slots_ok (slot s) (ss_openList s) (ss_lastAppendSequenceNumber s)"
    and "hold_rel (ss_ref s) (slot s) (ss_buffer s)" "table_ok s"
    using assms by (simp_all add: stream_inv_def)
  show "slot s q = Some l \<Longrightarrow> lc_sequenceNumber l = q" by (rule slots_D(1) [OF sl])
  show "slot s q = Some l \<Longrightarrow> loc_ok l" by (rule slots_D(2) [OF sl])
  show "distinct (ss_openList s)" by (rule slots_D(3) [OF sl])
  show "q \<in> set (ss_openList s) \<longleftrightarrow> openSlot (slot s q)" by (rule slots_D(4) [OF sl])
  show "ss_lastAppendSequenceNumber s \<noteq> INVALID_STREAM_SEGMENT_ID \<Longrightarrow>
       \<exists>l. slot s (ss_lastAppendSequenceNumber s) = Some l \<and> lc_location l = None \<and> lc_id l \<noteq> None"
    by (rule slots_D(5) [OF sl])
qed

text \<open>The open list behind an operation on one slot.\<close>

lemma outcome_openList:
  assumes inv: "stream_inv s" and o: "outcome q v b gone s s'"
    and gone: "gone \<Longrightarrow> \<not> openSlot v" "\<not> gone \<Longrightarrow> openSlot v = openSlot (slot s q)"
  shows "ss_openList s' = (if openSlot v then (if openSlot (slot s q) then ss_openList s else ss_openList s @ [q])
      else removeAll q (ss_openList s))"
proof -
  have "ss_openList s' = (if gone then removeAll q (ss_openList s) else ss_openList s)"
    using o by (simp add: outcome_def)
  moreover have "removeAll q (ss_openList s) = ss_openList s" if "\<not> openSlot (slot s q)"
    using that inv_D(7) [OF inv, of q] by (intro removeAll_id) simp
  ultimately show ?thesis using gone by (cases gone) simp_all
qed

text \<open>An operation on one slot, of a segment that is not the last appended one.\<close>

lemma inv_set:
  assumes inv: "stream_inv s" and o: "outcome q v b gone s s'"
    and v: "\<And>l. v = Some l \<Longrightarrow> lc_sequenceNumber l = q \<and> loc_ok l"
    and gone: "gone \<Longrightarrow> \<not> openSlot v" "\<not> gone \<Longrightarrow> openSlot v = openSlot (slot s q)"
    and la: "\<And>l. slot s q = Some l \<Longrightarrow> lc_location l = None \<Longrightarrow> lc_id l = None"
    and h: "hold_rel (ss_ref s) ((slot s)(q := v)) b"
  shows "stream_inv s'"
proof -
  note ol = outcome_openList [OF inv o gone]
  have "slots_ok ((slot s)(q := v)) (ss_openList s') (ss_lastAppendSequenceNumber s)"
  proof (rule slots_set [OF inv_D(1) [OF inv] v ol])
    assume "ss_lastAppendSequenceNumber s \<noteq> INVALID_STREAM_SEGMENT_ID"
    then obtain l where l: "slot s (ss_lastAppendSequenceNumber s) = Some l" "lc_location l = None" "lc_id l \<noteq> None"
      using inv_D(8) [OF inv] by blast
    have "ss_lastAppendSequenceNumber s \<noteq> q"
    proof
      assume "ss_lastAppendSequenceNumber s = q"
      then show False using la [of l] l by simp
    qed
    then show "\<exists>l. ((slot s)(q := v)) (ss_lastAppendSequenceNumber s) = Some l \<and> lc_location l = None \<and> lc_id l \<noteq> None"
      using l by simp
  qed
  then show ?thesis
    using o h inv_D(3) [OF inv] table_ok_rest [of s s']
    by (simp add: stream_inv_def outcome_def same_rest_def)
qed

lemma inv_waits: "stream_inv s \<Longrightarrow> stream_inv (fold (\<lambda>w. updWait (Some w) f) ws s)"
proof -
  have "same_rest s (fold (\<lambda>w. updWait (Some w) f) ws s)" by simp
  then show "stream_inv s \<Longrightarrow> stream_inv (fold (\<lambda>w. updWait (Some w) f) ws s)"
    using table_ok_rest [of s "fold (\<lambda>w. updWait (Some w) f) ws s"]
    by (simp add: stream_inv_def same_rest_def)
qed

text \<open>A segment in progress has a side id and no active id.\<close>

definition inProgress :: "server_stream \<Rightarrow> u32 \<Rightarrow> nat \<Rightarrow> segment_location \<Rightarrow> bool" where
  "inProgress s q x l \<longleftrightarrow> slot s q = Some l \<and> lc_sideId l = Some x"

lemma inProgress_D:
  assumes "stream_inv s" and "inProgress s q x l"
  shows "slot s q = Some l" "lc_sideId l = Some x" "lc_id l = None" "loc_ok l" "lc_sequenceNumber l = q"
    "0 < lc_referenceCount l"
    "locHold (ss_ref s) l = Some (x, \<lparr>ho_key = streamKey (ss_ref s) q,
       ho_submitted = (lc_location l = None), ho_read = (lc_location l \<noteq> None)\<rparr>)"
proof -
  show 1: "slot s q = Some l" "lc_sideId l = Some x" using assms(2) by (simp_all add: inProgress_def)
  show 2: "loc_ok l" "lc_sequenceNumber l = q" using inv_D(4,5) [OF assms(1) 1(1)] by simp_all
  show 3: "lc_id l = None" "0 < lc_referenceCount l" using 1 2 by (auto simp: loc_ok_def)
  show "locHold (ss_ref s) l = Some (x, \<lparr>ho_key = streamKey (ss_ref s) q,
       ho_submitted = (lc_location l = None), ho_read = (lc_location l \<noteq> None)\<rparr>)"
    using 1 2 3 by (simp add: locHold_def)
qed

text \<open>The completion of a load.\<close>

lemma load_completed:
  assumes inv: "stream_inv s" and p: "inProgress s q x l" and loc: "lc_location l \<noteq> None"
  shows "\<exists>ws s'. completeSegment_core q (lc_location l) True None True False s = (Inr ws, s') \<and> stream_inv s' \<and>
    slot s' = (slot s)(q \<mapsto> (if lc_cancel l then idled (lc_prefetched l) [] l
      else l\<lparr>lc_id := Some x, lc_sideId := None, lc_cancel := False, lc_waitList := []\<rparr>))"
proof -
  note d = inProgress_D [OF inv p]
  have ol: "distinct (ss_openList s)" "itOk None q s" using inv_D(6) [OF inv] by (simp_all add: itOk_def)
  show ?thesis
  proof (cases "lc_cancel l")
    case True
    let ?v = "idled (lc_prefetched l) [] l"
    have h: "locHold (ss_ref s) l = Some (x, \<lparr>ho_key = streamKey (ss_ref s) q, ho_submitted = False, ho_read = True\<rparr>)"
      using d(7) loc by simp
    obtain b' where b': "freeSegment x (lc_prefetched l) (ss_buffer s) = (Inr (), b')"
      "hold_rel (ss_ref s) ((slot s)(q \<mapsto> ?v)) b'"
      using hold_release [OF inv_D(2) [OF inv] d(1) h, of ?v "lc_prefetched l"] d(5) loc by auto
    obtain s1 where "completeRead q (lc_location l \<noteq> None) True s = (Inr True, s1)"
      "outcome q (Some (idled (lc_prefetched l) (lc_waitList l) l)) b' False s s1"
      using completeRead_cases(2) [OF d(1,2) True b'(1), of "lc_location l \<noteq> None"] by blast
    from core_read [OF d(1) loc ol this, of True False]
    obtain ws s' where c: "completeSegment_core q (lc_location l) True None True False s = (Inr ws, s')"
      and o: "outcome q (Some ?v) b' True s s'" by (auto simp: idled_def)
    have "stream_inv s'"
      by (rule inv_set [OF inv o]) (use d(3,5) idled_ok [OF d(4) loc] d(1) b'(2) in auto)
    then show ?thesis using c o True by (simp add: outcome_def)
  next
    case False
    let ?v = "l\<lparr>lc_id := Some x, lc_sideId := None, lc_cancel := False, lc_waitList := []\<rparr>"
    obtain s1 where "completeRead q (lc_location l \<noteq> None) True s = (Inr False, s1)"
      "outcome q (Some (l\<lparr>lc_id := Some x, lc_sideId := None, lc_cancel := False\<rparr>)) (ss_buffer s) False s s1"
      using completeRead_cases(4) [OF d(1,2) _ False, of "lc_location l \<noteq> None" True] loc by blast
    from core_read [OF d(1) loc ol this, of True False]
    obtain ws s' where c: "completeSegment_core q (lc_location l) True None True False s = (Inr ws, s')"
      and o: "outcome q (Some ?v) (ss_buffer s) False s s'" by auto
    have "hold_rel (ss_ref s) ((slot s)(q \<mapsto> ?v)) (ss_buffer s)"
      by (rule hold_keep [OF inv_D(2) [OF inv]])
        (use d loc in \<open>auto simp: locHold_def stored_def\<close>)
    moreover have "loc_ok ?v" using d(4,2,6) False by (auto simp: loc_ok_def)
    ultimately have "stream_inv s'"
      by (intro inv_set [OF inv o]) (use d in auto)
    then show ?thesis using c o False by (simp add: outcome_def)
  qed
qed

end
