(* ===== verification/Stream_Ops.thy ===== *)
theory Stream_Ops
  imports Stream_Inv
begin

text \<open>
  The operations of a server stream keep its invariant: completing, opening, closing and
  appending segments, and the operations on whole sessions.
\<close>

section \<open>Completing\<close>

lemma normLocation_link [simp]: "sl_link (normLocation l) = sl_link l"
  by (simp add: normLocation_def)

lemma written_stored:
  assumes inv: "stream_inv s" and p: "inProgress s q x l" and loc: "lc_location l = None"
    and o: "inOrder q sloc s" and link: "ln_sequenceNumber (sl_link sloc) = q"
  shows "\<exists>ws s'. completeSegment_core q (Some sloc) True None success False s = (Inr ws, s') \<and> stream_inv s' \<and>
    slot s' = (slot s)(q \<mapsto> idled False [] (l\<lparr>lc_location := Some (normLocation sloc)\<rparr>))"
proof -
  note d = inProgress_D [OF inv p]
  have ol: "distinct (ss_openList s)" "itOk None q s" using inv_D(6) [OF inv] by (simp_all add: itOk_def)
  have np: "\<not> lc_prefetched l" using d(4) loc by (simp add: loc_ok_def)
  let ?l = "l\<lparr>lc_location := Some (normLocation sloc)\<rparr>"
  let ?v = "idled False [] ?l"
  have h: "locHold (ss_ref s) l = Some (x, \<lparr>ho_key = streamKey (ss_ref s) q, ho_submitted = True, ho_read = False\<rparr>)"
    using d(7) loc by simp
  obtain b' where b': "freeSegment x False (ss_buffer s) = (Inr (), b')"
    "hold_rel (ss_ref s) ((slot s)(q \<mapsto> ?v)) b'"
    using hold_release [OF inv_D(2) [OF inv] d(1) h, where l' = ?v and prefetch = False] d(5) by auto
  obtain s1 where "completeWrite q (Some sloc) success False s = (Inr True, s1)"
    "outcome q (Some (idled (lc_prefetched l) (lc_waitList l) ?l)) b' False s s1"
    using completeWrite_cases(1) [OF d(1,2,3) loc o, where sync = False and b' = b' and success = success] b'(1) by blast
  from core_write [OF d(1) loc ol this, where waiters = True]
  obtain ws s' where c: "completeSegment_core q (Some sloc) True None success False s = (Inr ws, s')"
    and out: "outcome q (Some ?v) b' True s s'" using np by (auto simp: idled_def)
  have "loc_ok ?v" using d(4,5) link by (simp add: loc_ok_def idled_def)
  then have "stream_inv s'"
    by (intro inv_set [OF inv out]) (use d(1,3,5) b'(2) in auto)
  then show ?thesis using c out by (simp add: outcome_def)
qed

lemma written_dropped:
  assumes inv: "stream_inv s" and p: "inProgress s q x l" and loc: "lc_location l = None"
  shows "\<exists>ws s'. completeSegment_core q None True None success False s = (Inr ws, s') \<and> stream_inv s' \<and>
    slot s' = (slot s)(q := None)"
proof -
  note d = inProgress_D [OF inv p]
  have ol: "distinct (ss_openList s)" "itOk None q s" using inv_D(6) [OF inv] by (simp_all add: itOk_def)
  obtain b' where b': "purgeSegment x (ss_buffer s) = (Inr (), b')"
    "hold_rel (ss_ref s) ((slot s)(q := None)) b'"
    using hold_discard [OF inv_D(2) [OF inv] d(1,7), where v = None] loc by auto
  obtain s1 where "completeWrite q None success False s = (Inr False, s1)" "outcome q (Some l) b' False s s1"
    using completeWrite_cases(3) [OF d(1,2,3) loc, where sync = False and b' = b' and success = success] b'(1) by blast
  from core_write [OF d(1) loc ol this, where waiters = True]
  obtain ws s' where c: "completeSegment_core q None True None success False s = (Inr ws, s')"
    and out: "outcome q None b' True s s'" by auto
  have "stream_inv s'"
    by (intro inv_set [OF inv out]) (use d(1,3) b'(2) in auto)
  then show ?thesis using c out by (simp add: outcome_def)
qed

lemma written_rejected:
  assumes inv: "stream_inv s" and p: "inProgress s q x l" and loc: "lc_location l = None"
    and o: "\<not> inOrder q sloc s"
  shows "completeSegment_core q (Some sloc) waiters it success sync s = (Inl GenericException, s)"
proof -
  note d = inProgress_D [OF inv p]
  show ?thesis
    using completeWrite_cases(2) [OF d(1,2,3) loc o] loc locAt_slot [OF d(1)]
    by (simp add: completeSegment_core_def)
qed

section \<open>Closing\<close>

lemma enlist_simps [simp]:
  "slot (enlist w q s) = (slot s)(q := map_option (\<lambda>l. l\<lparr>lc_waitList := lc_waitList l @
     (case w of None \<Rightarrow> [] | Some x \<Rightarrow> [x])\<rparr>) (slot s q))"
  "ss_buffer (enlist w q s) = ss_buffer s" "ss_openList (enlist w q s) = ss_openList s"
  "ss_ref (enlist w q s) = ss_ref s" "same_rest s0 (enlist w q s) = same_rest s0 s"
  "ss_lastAppendSequenceNumber (enlist w q s) = ss_lastAppendSequenceNumber s"
  by (auto simp: enlist_def option.map_ident fun_upd_idem_iff split: option.splits)

lemma appended_simps [simp]:
  "slot (appended q n s) = slot s" "ss_buffer (appended q n s) = ss_buffer s"
  "ss_openList (appended q n s) = ss_openList s" "ss_ref (appended q n s) = ss_ref s"
  "ss_lastAppendSequenceNumber (appended q n s) =
     (if q = ss_lastAppendSequenceNumber s then INVALID_STREAM_SEGMENT_ID else ss_lastAppendSequenceNumber s)"
  "table_ok (appended q n s) = table_ok s"
  by (simp_all add: appended_def table_ok_def)

text \<open>A segment that is closed is not the last appended one any more.\<close>

lemma inv_close:
  assumes inv: "stream_inv s" and o: "outcome q v b gone s s1"
    and v: "\<And>l. v = Some l \<Longrightarrow> lc_sequenceNumber l = q \<and> loc_ok l"
    and gone: "gone \<Longrightarrow> \<not> openSlot v" "\<not> gone \<Longrightarrow> openSlot v = openSlot (slot s q)"
    and h: "hold_rel (ss_ref s) ((slot s)(q := v)) b"
  shows "stream_inv (appended q n s1)"
proof -
  have ol: "ss_openList s1 = (if openSlot v then (if openSlot (slot s q) then ss_openList s else ss_openList s @ [q])
      else removeAll q (ss_openList s))"
    by (rule outcome_openList [OF inv o gone])
  let ?la = "ss_lastAppendSequenceNumber (appended q n s1)"
  have la: "?la = (if q = ss_lastAppendSequenceNumber s then INVALID_STREAM_SEGMENT_ID
      else ss_lastAppendSequenceNumber s)"
    using o by (simp add: outcome_def same_rest_def)
  have "slots_ok ((slot s)(q := v)) (ss_openList s1) ?la"
  proof (rule slots_set [OF inv_D(1) [OF inv] v ol])
    assume "?la \<noteq> INVALID_STREAM_SEGMENT_ID"
    then have l: "?la = ss_lastAppendSequenceNumber s" "?la \<noteq> q" using la by (auto split: if_splits)
    then show "\<exists>l. ((slot s)(q := v)) ?la = Some l \<and> lc_location l = None \<and> lc_id l \<noteq> None"
      using inv_D(8) [OF inv] \<open>?la \<noteq> INVALID_STREAM_SEGMENT_ID\<close> by simp
  qed
  then show ?thesis
    using o h inv_D(3) [OF inv] table_ok_rest [of s s1]
    by (simp add: stream_inv_def outcome_def same_rest_def)
qed

lemma unat_INVALID: "unat INVALID_OBJECT_ID = 4294967295"
  by (simp add: INVALID_OBJECT_ID_def unsigned_minus_1_eq_mask mask_eq_exp_minus_1)

lemma INVALID_max: "\<not> INVALID_OBJECT_ID < p"
  using unat_u32 [of p] by (simp add: word_less_nat_alt unat_INVALID)

lemma inv_valid:
  assumes "stream_inv s" and "slot s q = Some l"
  shows "q \<noteq> INVALID_STREAM_SEGMENT_ID"
proof
  assume "q = INVALID_STREAM_SEGMENT_ID"
  then have "unat q = 4294967295" by (simp add: unat_INVALID)
  moreover have "unat q < unat (ss_lastSequenceNumber s + 1)"
    using assms(2) inv_D(3) [OF assms(1)] by (auto simp: slot_def table_ok_def split: if_splits)
  ultimately show False using unat_u32 [of "ss_lastSequenceNumber s + 1"] by simp
qed

text \<open>What an encoder that works synchronously has to respect.\<close>

definition orderly :: "close_env \<Rightarrow> u32 \<Rightarrow> server_stream \<Rightarrow> bool" where
  "orderly env q s \<longleftrightarrow> (\<forall>loc. cl_write env = WriteDone (Some loc) \<longrightarrow>
     inOrder q loc s \<and> ln_sequenceNumber (sl_link loc) = q)"

lemma submit_location:
  assumes "submitSegment x now wr b = (Inr (True, Some loc), b')"
  shows "wr = WriteDone (Some loc)"
  using assms by (auto simp: submitSegment_def doSubmitSegment_def Let_def split: if_splits prod.splits sum.splits
      write_result.splits option.splits)

text \<open>The neighbours of a segment depend only on the storage locations.\<close>

lemma prevIn_locations:
  assumes "length segs' = length segs"
    and "\<And>i. i < length segs \<Longrightarrow> map_option lc_location (segs' ! i) = map_option lc_location (segs ! i)"
    and "n \<le> length segs"
  shows "map_option lc_location (prevIn segs' n) = map_option lc_location (prevIn segs n)"
  using assms(3)
proof (induction n)
  case (Suc n)
  then have "map_option lc_location (segs' ! n) = map_option lc_location (segs ! n)" using assms(2) by simp
  then show ?case using Suc by (cases "segs ! n"; cases "segs' ! n") simp_all
qed simp

lemma nextIn_locations:
  assumes "length segs' = length segs"
    and "\<And>i. i < length segs \<Longrightarrow> map_option lc_location (segs' ! i) = map_option lc_location (segs ! i)"
  shows "map_option lc_location (nextIn segs' i) = map_option lc_location (nextIn segs i)"
proof (induction "length segs - i" arbitrary: i)
  case 0
  then show ?case using assms(1) by (simp add: nextIn.simps [of _ i])
next
  case (Suc n)
  then have "map_option lc_location (segs' ! i) = map_option lc_location (segs ! i)" using assms(2) by simp
  moreover have "map_option lc_location (nextIn segs' (Suc i)) = map_option lc_location (nextIn segs (Suc i))"
    using Suc by simp
  ultimately show ?case
    using assms(1) by (cases "segs ! i"; cases "segs' ! i") (simp_all add: nextIn.simps [of _ i])
qed

lemma neighbours_updLoc:
  assumes "table_ok s" and f: "\<And>l. lc_location (f l) = lc_location l"
  shows "neighbours p (updLoc q f s) = neighbours p s"
proof -
  let ?s = "updLoc q f s"
  have b: "Option.bind x lc_location = Option.bind (map_option lc_location x) (\<lambda>y. y)" for x
    by (cases x) simp_all
  have len: "length (ss_segments ?s) = length (ss_segments s)" by simp
  have at: "map_option lc_location (ss_segments ?s ! i) = map_option lc_location (ss_segments s ! i)"
    if "i < length (ss_segments s)" for i
    using that f by (cases "i = unat q"; cases "ss_segments s ! i") (simp_all add: updLoc_def)
  have prev: "map_option lc_location (prevIn (ss_segments ?s) n) = map_option lc_location (prevIn (ss_segments s) n)"
    if "n \<le> length (ss_segments s)" for n
    by (rule prevIn_locations [OF len at that])
  have le: "unat (ss_lastSequenceNumber s) \<le> length (ss_segments s)" if "ss_lastSequenceNumber s \<noteq> INVALID_OBJECT_ID"
  proof -
    have "1 + ss_lastSequenceNumber s \<noteq> 0" using that by (simp add: add_eq_0_iff INVALID_OBJECT_ID_def)
    then have "unat (1 + ss_lastSequenceNumber s) = Suc (unat (ss_lastSequenceNumber s))" by (rule unatSuc)
    then show ?thesis using assms(1) by (simp add: table_ok_def add.commute)
  qed
  have "map_option lc_location (getPreviousSegment p ?s) = map_option lc_location (getPreviousSegment p s)"
  proof (cases "ss_lastSequenceNumber s = INVALID_OBJECT_ID")
    case True
    then show ?thesis by (simp add: getPreviousSegment_def INVALID_max)
  next
    case False
    then show ?thesis
      using prev le [OF False]
      by (auto simp: getPreviousSegment_def word_less_nat_alt not_less)
  qed
  moreover have "map_option lc_location (getNextSegment p ?s) = map_option lc_location (getNextSegment p s)"
    unfolding getNextSegment_def by (rule nextIn_locations [OF len at])
  ultimately show ?thesis unfolding neighbours_def by (simp add: b)
qed

lemma neighbours_buffer [simp]: "neighbours p (s\<lparr>ss_buffer := b\<rparr>) = neighbours p s"
  by (simp add: neighbours_def getPreviousSegment_def getNextSegment_def)

lemma idled_side [simp]:
  "idled p ws (l\<lparr>lc_sideId := x, lc_id := y\<rparr>) = idled p ws l"
  "idled p ws (l\<lparr>lc_sideId := x, lc_id := y, lc_location := z\<rparr>) = idled p ws (l\<lparr>lc_location := z\<rparr>)"
  by (simp_all add: idled_def)

text \<open>
  The synchronous end of a close: \<open>s2\<close> is the state with the segment moved to the side id,
  and the buffer has given the segment up or purges it now.
\<close>

lemma close_complete_ok:
  assumes inv: "stream_inv s" and q: "slot s q = Some l" and i: "lc_id l = Some i" and it: "itOk it q s"
    and s2: "s2 = updLoc q (\<lambda>l. l\<lparr>lc_sideId := lc_id l, lc_id := None\<rparr>) (s\<lparr>ss_buffer := b\<rparr>)"
    and read: "lc_location l \<noteq> None \<Longrightarrow> loc = None"
    and sync: "success \<Longrightarrow> b' = b" and fail: "\<not> success \<Longrightarrow> loc = None \<and> purgeSegment i b = (Inr (), b')"
    and order: "\<And>sloc. loc = Some sloc \<Longrightarrow> inOrder q sloc s \<and> ln_sequenceNumber (sl_link sloc) = q"
    and v: "v = (case loc of
        Some sloc \<Rightarrow> Some (idled False [] (l\<lparr>lc_location := Some (normLocation sloc)\<rparr>))
      | None \<Rightarrow> if lc_location l = None then None else Some (idled (success \<and> lc_prefetched l) [] l))"
    and h: "hold_rel (ss_ref s) ((slot s)(q := v)) b'"
  shows "\<exists>s'. close_complete q loc success it s2 = (Inr it, s') \<and> stream_inv s' \<and>
    slot s' = (slot s)(q := v) \<and> ss_openList s' = removeAll q (ss_openList s) \<and> ss_ref s' = ss_ref s \<and>
    ss_buffer s' = b' \<and> ss_lastAppendSequenceNumber s' \<noteq> q"
proof -
  have ok: "loc_ok l" "lc_sequenceNumber l = q" using inv_D(4,5) [OF inv q] by simp_all
  have side: "lc_sideId l = None" "\<not> lc_cancel l" "lc_waitList l = []" using ok i by (auto simp: loc_ok_def)
  let ?l = "l\<lparr>lc_sideId := lc_id l, lc_id := None\<rparr>"
  have q2: "slot s2 q = Some ?l" using q s2 by simp
  have x2: "lc_sideId ?l = Some i" "lc_id ?l = None" using i by simp_all
  have buf2: "ss_buffer s2 = b" using s2 by simp
  have ol2: "distinct (ss_openList s2)" "itOk it q s2"
    using inv_D(6) [OF inv] it s2 by (simp_all add: itOk_def split: option.splits)
  have "\<exists>ws s'. completeSegment_core q loc False it success True s2 = (Inr ws, s') \<and> outcome q v b' True s2 s'"
  proof (cases "lc_location l = None")
    case True
    then have loc2: "lc_location ?l = None" by simp
    show ?thesis
    proof (cases loc)
      case None
      have "(True \<and> success \<and> b' = ss_buffer s2) \<or> ((\<not> True \<or> \<not> success) \<and> purgeSegment i (ss_buffer s2) = (Inr (), b'))"
        using sync fail buf2 by auto
      then obtain s1 where "completeWrite q None success True s2 = (Inr False, s1)" "outcome q (Some ?l) b' False s2 s1"
        using completeWrite_cases(3) [OF q2 x2 loc2, where sync = True and success = success and b' = b'] by blast
      from core_write [OF q2 loc2 ol2 this, where waiters = False] show ?thesis using None True v by simp
    next
      case (Some sloc)
      then have succ: "success" "b' = ss_buffer s2" using fail sync buf2 by auto
      have "inOrder q sloc s2"
        using order [OF Some] neighbours_updLoc [of "s\<lparr>ss_buffer := b\<rparr>" "\<lambda>l. l\<lparr>lc_sideId := lc_id l, lc_id := None\<rparr>"]
          inv_D(3) [OF inv]
        by (simp add: inOrder_def s2 table_ok_def)
      then obtain s1 where "completeWrite q (Some sloc) success True s2 = (Inr True, s1)"
        "outcome q (Some (idled (lc_prefetched ?l) (lc_waitList ?l) (?l\<lparr>lc_location := Some (normLocation sloc)\<rparr>))) b' False s2 s1"
        using completeWrite_cases(1) [OF q2 x2 loc2, where sync = True and success = success and b' = b'] succ by blast
      from core_write [OF q2 loc2 ol2 this, where waiters = False] show ?thesis
        using Some v side ok True by (simp add: loc_ok_def)
    qed
  next
    case False
    then have loc2: "lc_location ?l \<noteq> None" and n: "loc = None" using read by simp_all
    have "\<exists>s1. completeRead q False success s2 = (Inr True, s1) \<and>
        outcome q (Some (idled (success \<and> lc_prefetched l) [] l)) b' False s2 s1"
    proof (cases success)
      case True
      then show ?thesis
        using completeRead_cases(3) [OF q2 x2(1), of False] side sync buf2 by simp
    next
      case False
      then have p: "purgeSegment i (ss_buffer s2) = (Inr (), b')" using fail buf2 by simp
      show ?thesis using completeRead_cases(1) [OF q2 x2(1) _ p, of False] False side by simp
    qed
    then obtain s1 where "completeRead q (loc \<noteq> None) success s2 = (Inr True, s1)"
      "outcome q (Some (idled (success \<and> lc_prefetched l) [] l)) b' False s2 s1" using n by auto
    note c = core_read [OF q2 loc2 ol2 this, where waiters = False and sync = True]
    have "v = Some (idled (success \<and> lc_prefetched l) [] l)" using v n False by simp
    then show ?thesis using c by simp
  qed
  then obtain ws s3 where c: "completeSegment_core q loc False it success True s2 = (Inr ws, s3)"
    and o2: "outcome q v b' True s2 s3" by blast
  have o: "outcome q v b' True s s3"
    using o2 s2 by (auto simp: outcome_def same_rest_def)
  let ?n = "case loc of None \<Rightarrow> 0 | Some l \<Rightarrow> getEntryCount l"
  have vok: "lc_sequenceNumber l' = q \<and> loc_ok l' \<and> lc_referenceCount l' = 0" if l': "v = Some l'" for l'
  proof (cases loc)
    case None
    then have "l' = idled (success \<and> lc_prefetched l) [] l" "lc_location l \<noteq> None"
      using v l' by (simp_all split: if_splits)
    then show ?thesis using ok idled_ok by simp
  next
    case (Some sloc)
    then have "l' = idled False [] (l\<lparr>lc_location := Some (normLocation sloc)\<rparr>)" using v l' by simp
    then show ?thesis using ok order [OF Some] by (simp add: loc_ok_def idled_def)
  qed
  have closed: "\<not> openSlot v" using vok unfolding openSlot_def by fastforce
  have "stream_inv (appended q ?n s3)"
    by (rule inv_close [OF inv o _ _ _ h]) (use vok closed in simp_all)
  moreover have "close_complete q loc success it s2 = (Inr it, appended q ?n s3)"
    using c by (simp add: close_complete_def)
  moreover have "ss_lastAppendSequenceNumber (appended q ?n s3) \<noteq> q"
    using inv_valid [OF inv q] by auto
  ultimately show ?thesis using o unfolding outcome_def same_rest_def by simp
qed

text \<open>
  What \<open>_close\<close> leaves behind: an error changes nothing in the table, and happens only for
  a write whose errors are not ignored; else the segment is off the open list, or it is in
  progress and the iterator has moved on.
\<close>

definition closed_to :: "u32 \<Rightarrow> segment_location \<Rightarrow> bool \<Rightarrow> iterator \<Rightarrow> server_stream \<Rightarrow> iterator res \<Rightarrow> server_stream \<Rightarrow> bool" where
  "closed_to q l ignoreErrors it s r s' \<longleftrightarrow>
     stream_inv s' \<and> ss_ref s' = ss_ref s \<and> (\<forall>p. p \<noteq> q \<longrightarrow> slot s' p = slot s p) \<and>
     (case r of
        Inl e \<Rightarrow> \<not> ignoreErrors \<and> lc_location l = None \<and> slot s' q = slot s q \<and> ss_openList s' = ss_openList s \<and>
          ss_lastAppendSequenceNumber s' = ss_lastAppendSequenceNumber s
      | Inr it' \<Rightarrow> ss_lastAppendSequenceNumber s' \<noteq> q \<and>
          (it' = it \<and> ss_openList s' = removeAll q (ss_openList s) \<and> \<not> openSlot (slot s' q) \<or>
           it' = nextIt it \<and> ss_openList s' = ss_openList s \<and> (\<exists>x l'. inProgress s' q x l')))"

lemma close_busy:
  assumes inv: "stream_inv s" and p: "inProgress s q x l" and i: "lc_id l = None"
  shows "\<exists>s'. close_internal env q wait ignoreErrors it s = (Inr (nextIt it), s') \<and>
    closed_to q l ignoreErrors it s (Inr (nextIt it)) s'"
proof -
  note d = inProgress_D [OF inv p]
  let ?s = "updLoc q (\<lambda>l. l\<lparr>lc_cancel := True\<rparr>) (enlist wait q s)"
  let ?v = "l\<lparr>lc_waitList := lc_waitList l @ (case wait of None \<Rightarrow> [] | Some x \<Rightarrow> [x]), lc_cancel := True\<rparr>"
  have o: "outcome q (Some ?v) (ss_buffer s) False s ?s"
    using d(1) by (simp add: outcome_def)
  have "loc_ok ?v" using d(4,2,3) by (simp add: loc_ok_def)
  moreover have "hold_rel (ss_ref s) ((slot s)(q \<mapsto> ?v)) (ss_buffer s)"
    by (rule hold_keep [OF inv_D(2) [OF inv]]) (use d in \<open>auto simp: locHold_def stored_def\<close>)
  ultimately have inv': "stream_inv ?s"
    by (intro inv_set [OF inv o]) (use d in auto)
  have "ss_lastAppendSequenceNumber ?s \<noteq> q"
    using inv_D(8) [OF inv] d(1,3) inv_valid [OF inv d(1)] by auto
  then have "closed_to q l ignoreErrors it s (Inr (nextIt it)) ?s"
    using inv' o d(1,2) by (auto simp: closed_to_def outcome_def same_rest_def inProgress_def)
  then show ?thesis using i locAt_slot [OF d(1)] by (simp add: close_internal_def)
qed

lemma close_pending_ok:
  assumes inv: "stream_inv s" and q: "slot s q = Some l" and i: "lc_id l = Some i"
    and s2: "s2 = updLoc q (\<lambda>l. l\<lparr>lc_sideId := lc_id l, lc_id := None\<rparr>) (s\<lparr>ss_buffer := b\<rparr>)"
    and loc: "lc_location l = None"
    and h: "hold_rel (ss_ref s) ((slot s)(q \<mapsto> l\<lparr>lc_sideId := lc_id l, lc_id := None\<rparr>)) b"
  shows "\<exists>s'. close_pending q i wait it s2 = (Inr (nextIt it), s') \<and>
    closed_to q l ignoreErrors it s (Inr (nextIt it)) s'"
proof -
  have ok: "loc_ok l" "lc_sequenceNumber l = q" using inv_D(4,5) [OF inv q] by simp_all
  let ?w = "case wait of None \<Rightarrow> [] | Some x \<Rightarrow> [x]"
  let ?l = "l\<lparr>lc_sideId := lc_id l, lc_id := None\<rparr>"
  let ?v = "?l\<lparr>lc_waitList := lc_waitList l @ ?w\<rparr>"
  have keep: "hold_rel (ss_ref s) (((slot s)(q \<mapsto> ?l))(q \<mapsto> ?v)) b"
    by (rule hold_keep [OF h]) (use ok in \<open>auto simp: locHold_def stored_def split: option.splits\<close>)
  let ?s = "enlist wait q s2"
  have o: "outcome q (Some ?v) b False s ?s" using q s2 by (simp add: outcome_def)
  have "i < sv_numSegments b"
  proof -
    obtain H where H: "matches (ss_ref s) ((slot s)(q \<mapsto> ?l)) H" "holds H (absent (ss_ref s) ((slot s)(q \<mapsto> ?l))) b"
      using h by (auto simp: hold_rel_def)
    have "locHold (ss_ref s) ?l = Some (i, \<lparr>ho_key = streamKey (ss_ref s) (lc_sequenceNumber l),
        ho_submitted = True, ho_read = False\<rparr>)" using i loc by (simp add: locHold_def)
    then have "H i \<noteq> None" using matches_D [OF H(1), of q ?l] by simp
    then show ?thesis using holds_D(2) [OF H(2)] by (auto simp: held_def)
  qed
  then obtain p where c: "controlOf i ?s = Inr p"
    using s2 by (auto simp: controlOf_def serverGetControlElement_def)
  let ?n = "if ce_startIndex p \<noteq> INVALID_ENTRY_INDEX then ce_entryCount p else 0"
  have "loc_ok ?v" using ok i by (auto simp: loc_ok_def)
  moreover have "0 < lc_referenceCount l" using ok i by (simp add: loc_ok_def)
  ultimately have inv': "stream_inv (appended q ?n ?s)"
    by (intro inv_close [OF inv o]) (use ok q keep in auto)
  have "closed_to q l ignoreErrors it s (Inr (nextIt it)) (appended q ?n ?s)"
    using inv' o inv_valid [OF inv q] i q
    by (auto simp: closed_to_def outcome_def same_rest_def inProgress_def)
  moreover have "close_pending q i wait it s2 = (Inr (nextIt it), appended q ?n ?s)"
    using c by (simp add: close_pending_def Let_def)
  ultimately show ?thesis by blast
qed

lemma close_internal_ok:
  assumes inv: "stream_inv s" and q: "slot s q = Some l" and n: "0 < lc_referenceCount l"
    and it: "itOk it q s" and ord: "orderly env q s"
  shows "\<exists>r s'. close_internal env q wait ignoreErrors it s = (r, s') \<and> closed_to q l ignoreErrors it s r s'"
proof (cases "lc_id l")
  case None
  have "loc_ok l" by (rule inv_D(5) [OF inv q])
  then obtain x where "lc_sideId l = Some x" using None n by (auto simp: loc_ok_def)
  then have "inProgress s q x l" using q by (simp add: inProgress_def)
  from close_busy [OF inv this None] show ?thesis by blast
next
  case (Some i)
  have ok: "loc_ok l" "lc_sequenceNumber l = q" using inv_D(4,5) [OF inv q] by simp_all
  then have side: "lc_sideId l = None" using Some by (auto simp: loc_ok_def)
  obtain r b where sub: "submitSegment i (cl_now env) (cl_write env) (ss_buffer s) = (r, b)" by fastforce
  note law = hold_submit [OF inv_D(2) [OF inv] q Some side, of "cl_now env" "cl_write env", unfolded sub]
  let ?s1 = "s\<lparr>ss_buffer := b\<rparr>"
  let ?s2 = "updLoc q (\<lambda>l. l\<lparr>lc_sideId := lc_id l, lc_id := None\<rparr>) ?s1"
  have la: "locAt q s = l" "locAt q ?s1 = l" using locAt_slot q by simp_all
  have ci: "close_internal env q wait ignoreErrors it s =
      (case r of
         Inl e \<Rightarrow> if \<not> ignoreErrors \<and> lc_location l = None then (Inl e, ?s1)
                  else close_complete q None False it ?s2
       | Inr (complete, location) \<Rightarrow>
           if complete then close_complete q location True it ?s2 else close_pending q i wait it ?s2)"
    using Some la sub by (simp add: close_internal_def submitId_def Let_def split: sum.splits prod.splits)
  have fin: "closed_to q l ignoreErrors it s (Inr it) s'"
    if "stream_inv s' \<and> slot s' = (slot s)(q := v) \<and> ss_openList s' = removeAll q (ss_openList s) \<and>
      ss_ref s' = ss_ref s \<and> ss_buffer s' = b' \<and> ss_lastAppendSequenceNumber s' \<noteq> q" "\<not> openSlot v" for s' v b'
    using that by (auto simp: closed_to_def)
  show ?thesis
  proof (cases r)
    case (Inl e)
    then have h: "hold_rel (ss_ref s) (slot s) b" using law by simp
    show ?thesis
    proof (cases "\<not> ignoreErrors \<and> lc_location l = None")
      case True
      have "stream_inv ?s1" using inv h by (simp add: stream_inv_def table_ok_def)
      then show ?thesis using True Inl ci q by (auto simp: closed_to_def)
    next
      case False
      let ?v = "if lc_location l = None then None else Some (idled False [] l)"
      obtain x hd where lh: "locHold (ss_ref s) l = Some (i, hd)" using Some by (simp add: locHold_def)
      have v: "lc_sequenceNumber l' = q" if "?v = Some l'" for l'
        using that ok by (simp split: if_splits) (metis idled_simps(4))
      have "slotHold (ss_ref s) ?v = None" by simp
      moreover have "stored ((slot s)(q := ?v)) q" if "lc_location l \<noteq> None"
        using that by (simp add: stored_def)
      ultimately obtain b' where b': "purgeSegment i b = (Inr (), b')" "hold_rel (ss_ref s) ((slot s)(q := ?v)) b'"
        using hold_discard [OF h q lh v] by blast
      have c: "\<exists>s'. close_complete q None False it ?s2 = (Inr it, s') \<and> stream_inv s' \<and>
          slot s' = (slot s)(q := ?v) \<and> ss_openList s' = removeAll q (ss_openList s) \<and> ss_ref s' = ss_ref s \<and>
          ss_buffer s' = b' \<and> ss_lastAppendSequenceNumber s' \<noteq> q"
        by (rule close_complete_ok [OF inv q Some it refl _ _ _ _ _ b'(2)]) (use b'(1) in simp_all)
      then obtain s' where s': "close_complete q None False it ?s2 = (Inr it, s')" and
        rest: "stream_inv s' \<and> slot s' = (slot s)(q := ?v) \<and> ss_openList s' = removeAll q (ss_openList s) \<and>
          ss_ref s' = ss_ref s \<and> ss_buffer s' = b' \<and> ss_lastAppendSequenceNumber s' \<noteq> q" by blast
      have "\<not> openSlot ?v" by simp
      note f = fin [OF rest this]
      have "close_internal env q wait ignoreErrors it s = (Inr it, s')"
        unfolding ci Inl sum.case if_not_P [OF False] by (rule s')
      then show ?thesis using f by blast
    qed
  next
    case (Inr a)
    then obtain complete loc where r: "r = Inr (complete, loc)" by (cases a) auto
    show ?thesis
    proof (cases complete)
      case False
      then have "lc_location l = None" "hold_rel (ss_ref s) ((slot s)(q \<mapsto> l\<lparr>lc_sideId := lc_id l, lc_id := None\<rparr>)) b"
        using law r by simp_all
      note c = close_pending_ok [OF inv q Some refl this, of wait it ignoreErrors]
      have eq: "close_internal env q wait ignoreErrors it s = close_pending q i wait it ?s2"
        using ci r False by simp
      show ?thesis unfolding eq using c by blast
    next
      case True
      let ?v = "case loc of
          Some sloc \<Rightarrow> Some (idled False [] (l\<lparr>lc_location := Some (normLocation sloc)\<rparr>))
        | None \<Rightarrow> if lc_location l = None then None else Some (idled (lc_prefetched l) [] l)"
      have law': "loc \<noteq> None \<longrightarrow> lc_location l = None"
        "\<forall>v. (\<forall>l'. v = Some l' \<longrightarrow> lc_sequenceNumber l' = q) \<and> slotHold (ss_ref s) v = None \<and>
             (loc \<noteq> None \<or> lc_location l \<noteq> None \<longrightarrow> stored ((slot s)(q := v)) q) \<longrightarrow>
             hold_rel (ss_ref s) ((slot s)(q := v)) b"
        using law r True by simp_all
      have h: "hold_rel (ss_ref s) ((slot s)(q := ?v)) b"
        by (rule law'(2) [rule_format]) (use ok in \<open>auto simp: stored_def split: option.splits if_splits\<close>)
      have order: "inOrder q sloc s \<and> ln_sequenceNumber (sl_link sloc) = q" if "loc = Some sloc" for sloc
        using ord submit_location sub r True that by (auto simp: orderly_def)
      have c: "\<exists>s'. close_complete q loc True it ?s2 = (Inr it, s') \<and> stream_inv s' \<and>
          slot s' = (slot s)(q := ?v) \<and> ss_openList s' = removeAll q (ss_openList s) \<and> ss_ref s' = ss_ref s \<and>
          ss_buffer s' = b \<and> ss_lastAppendSequenceNumber s' \<noteq> q"
        by (rule close_complete_ok [OF inv q Some it refl _ _ _ order _ h]) (use law'(1) in auto)
      then obtain s' where s': "close_complete q loc True it ?s2 = (Inr it, s')" and
        rest: "stream_inv s' \<and> slot s' = (slot s)(q := ?v) \<and> ss_openList s' = removeAll q (ss_openList s) \<and>
          ss_ref s' = ss_ref s \<and> ss_buffer s' = b \<and> ss_lastAppendSequenceNumber s' \<noteq> q" by blast
      have "\<not> openSlot ?v" by (simp split: option.splits)
      note f = fin [OF rest this]
      have "close_internal env q wait ignoreErrors it s = (Inr it, s')"
        unfolding ci r sum.case prod.case if_P [OF True] by (rule s')
      then show ?thesis using f by blast
    qed
  qed
qed

text \<open>A reader gives back some of its references and others remain.\<close>

lemma refs_pos: "refs_ok n m \<Longrightarrow> m x = Some v \<Longrightarrow> 0 < n"
  using order.strict_trans2 [OF _ refs_remove(1), of 0 v n m x] by (auto simp: refs_ok_def)

lemma slot_refs:
  assumes inv: "stream_inv s" and q: "slot s q = Some l"
    and refs: "refs_ok n m" "0 < n" and more: "1 < lc_referenceCount l"
    and s': "s' = updLoc q (\<lambda>l. l\<lparr>lc_referenceMap := m, lc_referenceCount := n\<rparr>) s"
  shows "stream_inv s' \<and> ss_ref s' = ss_ref s \<and> (\<forall>p. p \<noteq> q \<longrightarrow> slot s' p = slot s p) \<and>
    slot s' q = Some (l\<lparr>lc_referenceMap := m, lc_referenceCount := n\<rparr>) \<and> ss_openList s' = ss_openList s \<and>
    ss_lastAppendSequenceNumber s' = ss_lastAppendSequenceNumber s"
proof -
  have ok: "loc_ok l" "lc_sequenceNumber l = q" using inv_D(4,5) [OF inv q] by simp_all
  let ?v = "l\<lparr>lc_referenceMap := m, lc_referenceCount := n\<rparr>"
  have o: "outcome q (Some ?v) (ss_buffer s) False s s'" using q s' by (simp add: outcome_def)
  have ne: "lc_referenceCount l \<noteq> 1" using more by auto
  have loc: "lc_location l \<noteq> None" "\<not> lc_prefetched l" "0 < lc_referenceCount l"
    using ok(1) ne more by (auto simp: loc_ok_def intro: order_less_trans [of 0 1])
  have "loc_ok ?v" using ok(1) refs loc by (auto simp: loc_ok_def)
  moreover have "hold_rel (ss_ref s) ((slot s)(q \<mapsto> ?v)) (ss_buffer s)"
    by (rule hold_keep [OF inv_D(2) [OF inv]]) (use q ok loc in \<open>auto simp: locHold_def stored_def split: option.splits\<close>)
  ultimately have "stream_inv s'"
    by (intro inv_set [OF inv o]) (use q ok loc refs in auto)
  then show ?thesis using q s' by simp
qed

lemma word_gt_one:
  assumes "(n :: u32) \<noteq> 0" and "n \<noteq> 1"
  shows "1 < n \<and> 0 < n - 1"
proof -
  have "unat n \<noteq> 0" using assms(1) by (simp add: unat_eq_0)
  moreover have "unat n \<noteq> unat (1 :: u32)" using assms(2) unfolding word_unat_eq_iff [symmetric] .
  ultimately have "1 < unat n" by simp
  then have "1 < n" by (simp add: word_less_nat_alt)
  moreover have "unat (n - 1) = unat n - 1" using \<open>1 < unat n\<close> by (simp add: unat_sub word_le_nat_alt)
  ultimately show ?thesis using \<open>1 < unat n\<close> by (simp add: word_less_nat_alt)
qed

lemma updLoc_cong:
  assumes "slot s q = Some l" and "f l = g l"
  shows "updLoc q f s = updLoc q g s"
  using assms by (simp add: updLoc_def slot_def split: if_splits)

lemma close_inv:
  assumes inv: "stream_inv s" and ord: "orderly env q s"
  shows "stream_inv (snd (close env session q wait ignoreErrors s)) \<and>
    ss_ref (snd (close env session q wait ignoreErrors s)) = ss_ref s"
proof (cases "slot s q")
  case None
  then show ?thesis using inv by (simp add: close_def allocated_slot)
next
  case (Some l)
  note la = locAt_slot [OF Some]
  have ok: "loc_ok l" by (rule inv_D(5) [OF inv Some])
  show ?thesis
  proof (cases "lc_referenceCount l = 0 \<or> lc_referenceMap l session = None")
    case True
    then show ?thesis using inv Some la by (simp add: close_def allocated_slot)
  next
    case False
    then obtain v where v: "lc_referenceMap l session = Some v" and n: "0 < lc_referenceCount l"
      by (auto simp: word_neq_0_conv)
    show ?thesis
    proof (cases "lc_referenceCount l = 1")
      case True
      have "itOk None q s" by (simp add: itOk_def)
      from close_internal_ok [OF inv Some n this ord, where wait = wait and ignoreErrors = ignoreErrors]
      obtain r s' where c: "close_internal env q wait ignoreErrors None s = (r, s')" "stream_inv s'" "ss_ref s' = ss_ref s"
        by (auto simp: closed_to_def)
      then show ?thesis using Some la v True by (cases r) (simp_all add: close_def allocated_slot)
    next
      case more: False
      let ?m = "if lc_referenceMap l session = Some 1 then (lc_referenceMap l)(session := None)
        else (lc_referenceMap l)(session \<mapsto> the (lc_referenceMap l session) - 1)"
      let ?n = "lc_referenceCount l - 1"
      have refs: "refs_ok (lc_referenceCount l) (lc_referenceMap l)" using ok by (simp add: loc_ok_def)
      have r: "refs_ok ?n ?m" using refs_drop_one [where x = session and v = v and m = "lc_referenceMap l", OF refs v] v by (cases "v = 1") simp_all
      have g: "1 < lc_referenceCount l" "0 < ?n" using n more word_gt_one [of "lc_referenceCount l"] by auto
      let ?f = "\<lambda>l. l\<lparr>lc_referenceMap := (if lc_referenceMap l session = Some 1 then (lc_referenceMap l)(session := None)
              else (lc_referenceMap l)(session \<mapsto> the (lc_referenceMap l session) - 1)),
            lc_referenceCount := lc_referenceCount l - 1\<rparr>"
      have "updLoc q ?f s = updLoc q (\<lambda>l. l\<lparr>lc_referenceMap := ?m, lc_referenceCount := ?n\<rparr>) s"
        by (rule updLoc_cong [OF Some]) simp
      then have "stream_inv (updLoc q ?f s)" "ss_ref (updLoc q ?f s) = ss_ref s"
        using slot_refs [OF inv Some r g(2,1) refl] by simp_all
      moreover have "close env session q wait ignoreErrors s = (Inr (), updLoc q ?f s)"
        using Some la False more by (simp add: close_def allocated_slot)
      ultimately show ?thesis by simp
    qed
  qed
qed

text \<open>An encoder that works in the background, as all encoders of the Simtrace3 store do.\<close>

definition asyncEnv :: "close_env \<Rightarrow> bool" where
  "asyncEnv env \<longleftrightarrow> (\<forall>loc. cl_write env \<noteq> WriteDone (Some loc))"

lemma async_orderly: "asyncEnv env \<Longrightarrow> orderly env q s"
  by (simp add: asyncEnv_def orderly_def)

text \<open>
  Closing a session: the loop comes to its end, and behind it the session has no references but
  to segments that are in progress.
\<close>

definition released_by :: "u32 \<Rightarrow> server_stream \<Rightarrow> u32 \<Rightarrow> bool" where
  "released_by session s q \<longleftrightarrow>
     (\<forall>l. slot s q = Some l \<and> lc_referenceMap l session \<noteq> None \<longrightarrow> lc_sideId l \<noteq> None)"

lemma removeAll_nth:
  assumes "distinct xs" and "it < length xs"
  shows "i < it \<Longrightarrow> removeAll (xs ! it) xs ! i = xs ! i"
    and "length (removeAll (xs ! it) xs) = length xs - 1"
  using eraseAt_removeAll [OF assms, symmetric] assms(2)
  by (simp_all add: eraseAt_def nth_append)

lemma all_released:
  assumes inv: "stream_inv s" and "length (ss_openList s) \<le> it"
    and "\<And>i. i < it \<Longrightarrow> i < length (ss_openList s) \<Longrightarrow> released_by session s (ss_openList s ! i)"
  shows "released_by session s q"
  unfolding released_by_def
proof (intro allI impI, elim conjE)
  fix l assume l: "slot s q = Some l" "lc_referenceMap l session \<noteq> None"
  then obtain v where "lc_referenceMap l session = Some v" by blast
  moreover have "loc_ok l" by (rule inv_D(5) [OF inv l(1)])
  ultimately have "0 < lc_referenceCount l" using refs_pos by (auto simp: loc_ok_def)
  then have "q \<in> set (ss_openList s)" using inv_D(7) [OF inv] l(1) by simp
  then obtain i where "i < length (ss_openList s)" "ss_openList s ! i = q" by (auto simp: in_set_conv_nth)
  then show "lc_sideId l \<noteq> None" using assms(2) assms(3) [of i] l by (auto simp: released_by_def)
qed

lemma released_other: "slot s' p = slot s p \<Longrightarrow> released_by session s p \<Longrightarrow> released_by session s' p"
  by (simp add: released_by_def)

lemma release_some:
  assumes inv: "stream_inv s" and q: "slot s q = Some l" and m: "lc_referenceMap l session = Some m"
    and less: "lc_referenceCount l \<noteq> m"
  defines "s1 \<equiv> updLoc q (\<lambda>l. l\<lparr>lc_referenceCount := lc_referenceCount l - m,
      lc_referenceMap := (lc_referenceMap l)(session := None)\<rparr>) s"
  shows "stream_inv s1 \<and> ss_ref s1 = ss_ref s \<and> (\<forall>p. p \<noteq> q \<longrightarrow> slot s1 p = slot s p) \<and>
    slot s1 q = Some (l\<lparr>lc_referenceMap := (lc_referenceMap l)(session := None),
      lc_referenceCount := lc_referenceCount l - m\<rparr>) \<and> ss_openList s1 = ss_openList s \<and>
    ss_lastAppendSequenceNumber s1 = ss_lastAppendSequenceNumber s"
proof -
  have ok: "loc_ok l" by (rule inv_D(5) [OF inv q])
  then have refs: "refs_ok (lc_referenceCount l) (lc_referenceMap l)" by (simp add: loc_ok_def)
  note rm = refs_remove [OF refs m]
  let ?n = "lc_referenceCount l - m"
  have s1: "s1 = updLoc q (\<lambda>l'. l'\<lparr>lc_referenceMap := (lc_referenceMap l)(session := None),
      lc_referenceCount := ?n\<rparr>) s"
    unfolding s1_def by (rule updLoc_cong [OF q]) simp
  have pos: "0 < ?n" using less by (simp add: word_neq_0_conv [symmetric])
  have n: "0 < lc_referenceCount l" by (rule refs_pos [OF refs m])
  have "lc_referenceCount l \<noteq> 1"
  proof
    assume one: "lc_referenceCount l = 1"
    have "0 < m" using refs m by (auto simp: refs_ok_def)
    then have "m = 1" using rm(1) one by (simp add: word_le_nat_alt word_less_nat_alt word_unat_eq_iff)
    then show False using less one by simp
  qed
  then have more: "1 < lc_referenceCount l" using word_gt_one n by (simp add: word_neq_0_conv [symmetric])
  show ?thesis by (rule slot_refs [OF inv q rm(2) pos more s1])
qed

lemma closeLoop_ok:
  assumes "stream_inv s" and async: "\<And>k. asyncEnv (env k)" and "length (ss_openList s) - it \<le> fuel"
    and "\<And>i. i < it \<Longrightarrow> i < length (ss_openList s) \<Longrightarrow> released_by session s (ss_openList s ! i)"
  shows "\<exists>r s'. closeLoop fuel env k session wait ignoreErrors it s = (Some r, s') \<and> stream_inv s' \<and> ss_ref s' = ss_ref s \<and>
    (case r of Inl e \<Rightarrow> \<not> ignoreErrors | Inr _ \<Rightarrow> \<forall>q. released_by session s' q)"
  using assms(1,3,4)
proof (induction fuel arbitrary: k it s)
  case (0 k it s)
  then have le: "length (ss_openList s) \<le> it" by simp
  then have "\<forall>q. released_by session s q" using all_released [OF 0(1) le 0(3)] by blast
  then show ?case using 0(1) le by (simp add: closeLoop.simps [of 0])
next
  case (Suc fuel k it s)
  note inv = Suc(2) and rel = Suc(4)
  let ?ol = "ss_openList s"
  show ?case
  proof (cases "length ?ol \<le> it")
    case True
    have "\<forall>q. released_by session s q" using all_released [OF inv True rel] by blast
    then show ?thesis using inv True by (simp add: closeLoop.simps [of "Suc fuel"])
  next
    case False
    then have it: "it < length ?ol" by simp
    define q where "q = ?ol ! it"
    have "q \<in> set ?ol" using it by (simp add: q_def)
    then obtain l where q: "slot s q = Some l" and n: "0 < lc_referenceCount l"
      using inv_D(7) [OF inv] by (auto simp: openSlot_def)
    note la = locAt_slot [OF q]
    have dist: "distinct ?ol" by (rule inv_D(6) [OF inv])
    have neq: "?ol ! i \<noteq> q" if "i < it" for i
      using dist it that by (auto simp: q_def nth_eq_iff_index_eq)
    have step: "closeLoop (Suc fuel) env k session wait ignoreErrors it s =
        (case lc_referenceMap l session of
           None \<Rightarrow> closeLoop fuel env k session wait ignoreErrors (Suc it) s
         | Some n \<Rightarrow>
             if lc_referenceCount l = n then
               (case close_internal (env k) q wait ignoreErrors (Some it) s of
                  (Inl e, s1) \<Rightarrow> (Some (Inl e), s1)
                | (Inr it', s1) \<Rightarrow> closeLoop fuel env (Suc k) session wait ignoreErrors (the it') s1)
             else
               closeLoop fuel env k session wait ignoreErrors (Suc it)
                 (updLoc q (\<lambda>l. l\<lparr>lc_referenceCount := lc_referenceCount l - n,
                                    lc_referenceMap := (lc_referenceMap l)(session := None)\<rparr>) s))"
      using False la by (simp add: closeLoop.simps [of "Suc fuel"] Let_def q_def [symmetric] cong: option.case_cong)
    have next_ok: "\<exists>r s'. closeLoop fuel env k' session wait ignoreErrors (Suc it) s1 = (Some r, s') \<and> stream_inv s' \<and> ss_ref s' = ss_ref s \<and>
        (case r of Inl e \<Rightarrow> \<not> ignoreErrors | Inr _ \<Rightarrow> \<forall>q. released_by session s' q)"
      if "stream_inv s1" "ss_openList s1 = ?ol" "released_by session s1 q" "\<And>p. p \<noteq> q \<Longrightarrow> slot s1 p = slot s p"
      "ss_ref s1 = ss_ref s"
      for k' s1 unfolding that(5) [symmetric]
    proof (rule Suc.IH [OF that(1)])
      show "length (ss_openList s1) - Suc it \<le> fuel" using Suc(3) that(2) by simp
      fix i assume i: "i < Suc it" "i < length (ss_openList s1)"
      show "released_by session s1 (ss_openList s1 ! i)"
      proof (cases "i = it")
        case True
        then show ?thesis using that(2,3) by (simp add: q_def)
      next
        case False
        then have "i < it" using i by simp
        then show ?thesis using rel [of i] released_other [OF that(4)] neq that(2) i by simp
      qed
    qed
    show ?thesis
    proof (cases "lc_referenceMap l session")
      case None
      then have "released_by session s q" using q by (simp add: released_by_def)
      from next_ok [OF inv refl this refl refl] show ?thesis using step None by simp
    next
      case (Some m)
      show ?thesis
      proof (cases "lc_referenceCount l = m")
        case True
        have "itOk (Some it) q s" using it by (simp add: itOk_def q_def)
        from close_internal_ok [OF inv q n this async_orderly [OF async], where wait = wait and ignoreErrors = ignoreErrors]
        obtain r s1 where c: "close_internal (env k) q wait ignoreErrors (Some it) s = (r, s1)"
          and to: "closed_to q l ignoreErrors (Some it) s r s1" by blast
        show ?thesis
        proof (cases r)
          case (Inl e)
          then show ?thesis using step Some True c to by (simp add: closed_to_def)
        next
          case (Inr it')
          have inv1: "stream_inv s1" and ref1: "ss_ref s1 = ss_ref s" and other: "\<And>p. p \<noteq> q \<Longrightarrow> slot s1 p = slot s p"
            using to by (simp_all add: closed_to_def)
          have go: "closeLoop (Suc fuel) env k session wait ignoreErrors it s =
              closeLoop fuel env (Suc k) session wait ignoreErrors (the it') s1"
            using step Some True c Inr by simp
          from to consider (gone) "it' = Some it" "ss_openList s1 = removeAll q ?ol"
            | (busy) x l' where "it' = Some (Suc it)" "ss_openList s1 = ?ol" "inProgress s1 q x l'"
            unfolding closed_to_def Inr by (auto simp: nextIt_def)
          then show ?thesis
          proof cases
            case gone
            note ra = removeAll_nth [OF dist it, folded q_def]
            have "\<exists>r s'. closeLoop fuel env (Suc k) session wait ignoreErrors it s1 = (Some r, s') \<and> stream_inv s' \<and> ss_ref s' = ss_ref s \<and>
                (case r of Inl e \<Rightarrow> \<not> ignoreErrors | Inr _ \<Rightarrow> \<forall>q. released_by session s' q)"
              unfolding ref1 [symmetric]
            proof (rule Suc.IH [OF inv1])
              show "length (ss_openList s1) - it \<le> fuel" using Suc(3) it gone(2) ra(2) by simp
              fix i assume i: "i < it" "i < length (ss_openList s1)"
              then show "released_by session s1 (ss_openList s1 ! i)"
                using rel [of i] released_other [OF other] neq gone(2) ra(1) it by simp
            qed
            then show ?thesis unfolding go gone(1) option.sel .
          next
            case busy
            then have "released_by session s1 q" by (simp add: released_by_def inProgress_def)
            from next_ok [OF inv1 busy(2) this other ref1] show ?thesis unfolding go busy(1) option.sel .
          qed
        qed
      next
        case False
        let ?s1 = "updLoc q (\<lambda>l. l\<lparr>lc_referenceCount := lc_referenceCount l - m,
                                    lc_referenceMap := (lc_referenceMap l)(session := None)\<rparr>) s"
        note sr = release_some [OF inv q Some False]
        have "released_by session ?s1 q" using sr q by (simp add: released_by_def)
        from next_ok [OF _ _ this, of k] sr show ?thesis using step Some False by simp
      qed
    qed
  qed
qed

text \<open>
  The loop that closes a session ends within the length of the open list and cannot throw if
  errors are ignored.
\<close>

lemma close_session_ok:
  assumes "stream_inv s" and "\<And>k. asyncEnv (env k)"
  shows "\<exists>r s'. close_session env session wait ignoreErrors s = (Some r, s') \<and> stream_inv s' \<and> ss_ref s' = ss_ref s \<and>
    (case r of Inl e \<Rightarrow> \<not> ignoreErrors | Inr _ \<Rightarrow> \<forall>q. released_by session s' q)"
  unfolding close_session_def by (rule closeLoop_ok [OF assms]) simp_all

end
