(* ===== verification/Stream_Open.thy ===== *)
theory Stream_Open
  imports Stream_Ops
begin

text \<open>
  Opening, appending and completing keep the invariant of a stream.
\<close>

section \<open>Opening an idle segment\<close>

definition idleSlot :: "u32 \<Rightarrow> server_stream \<Rightarrow> segment_location \<Rightarrow> StorageLocation \<Rightarrow> bool" where
  "idleSlot q s l loc \<longleftrightarrow> slot s q = Some l \<and> lc_location l = Some loc \<and> lc_referenceCount l = 0"

lemma idleSlot_D:
  assumes "stream_inv s" and "idleSlot q s l loc"
  shows "slot s q = Some l" "lc_location l = Some loc" "lc_referenceCount l = 0" "lc_id l = None"
    "lc_sideId l = None" "lc_waitList l = []" "lc_sequenceNumber l = q" "loc_ok l"
    "ln_sequenceNumber (sl_link loc) = q" "refs_ok 0 (lc_referenceMap l)" "q \<notin> set (ss_openList s)"
proof -
  show 1: "slot s q = Some l" "lc_location l = Some loc" "lc_referenceCount l = 0"
    using assms(2) by (simp_all add: idleSlot_def)
  show 2: "loc_ok l" "lc_sequenceNumber l = q" using inv_D(4,5) [OF assms(1) 1(1)] by simp_all
  show "lc_id l = None" "lc_sideId l = None" "lc_waitList l = []" "ln_sequenceNumber (sl_link loc) = q"
    "refs_ok 0 (lc_referenceMap l)"
    using 1 2 by (simp_all add: loc_ok_def)
  show "q \<notin> set (ss_openList s)" using inv_D(7) [OF assms(1)] 1 by simp
qed

text \<open>What an open may change: the slot, the buffer, the wait contexts and the end of the open list.\<close>

definition opened :: "u32 \<Rightarrow> segment_location \<Rightarrow> server_stream \<Rightarrow> server_stream \<Rightarrow> bool" where
  "opened q l' s s' \<longleftrightarrow> slot s' = (slot s)(q \<mapsto> l') \<and> same_rest s s' \<and>
     ss_openList s' = (if 0 < lc_referenceCount l' then ss_openList s @ [q] else ss_openList s)"

lemma opened_inv:
  assumes inv: "stream_inv s" and i: "idleSlot q s l loc" and o: "opened q l' s s'"
    and l': "loc_ok l'" "lc_sequenceNumber l' = q"
    and h: "hold_rel (ss_ref s) ((slot s)(q \<mapsto> l')) (ss_buffer s')"
  shows "stream_inv s'"
proof -
  note d = idleSlot_D [OF inv i]
  have o': "slot s' = (slot s)(q \<mapsto> l')" "same_rest s s'"
    "ss_openList s' = (if 0 < lc_referenceCount l' then ss_openList s @ [q] else ss_openList s)"
    using o by (simp_all add: opened_def)
  have "removeAll q (ss_openList s) = ss_openList s" using d(11) by (rule removeAll_id)
  then have ol: "ss_openList s' = (if openSlot (Some l') then
      (if openSlot (slot s q) then ss_openList s else ss_openList s @ [q]) else removeAll q (ss_openList s))"
    using o'(3) d(1,3) by simp
  have "slots_ok ((slot s)(q \<mapsto> l')) (ss_openList s') (ss_lastAppendSequenceNumber s)"
  proof (rule slots_set [OF inv_D(1) [OF inv] _ ol])
    assume "ss_lastAppendSequenceNumber s \<noteq> INVALID_STREAM_SEGMENT_ID"
    then obtain l1 where l1: "slot s (ss_lastAppendSequenceNumber s) = Some l1" "lc_location l1 = None" "lc_id l1 \<noteq> None"
      using inv_D(8) [OF inv] by blast
    then have "ss_lastAppendSequenceNumber s \<noteq> q" using d(1,2) by auto
    then show "\<exists>l. ((slot s)(q \<mapsto> l')) (ss_lastAppendSequenceNumber s) = Some l \<and> lc_location l = None \<and> lc_id l \<noteq> None"
      using l1 by simp
  qed (use l' in simp)
  then show ?thesis
    using o' h inv_D(3) [OF inv] table_ok_rest [OF o'(2)] by (simp add: stream_inv_def same_rest_def)
qed

lemma same_rest_openList [simp]:
  "ss_ref (s\<lparr>ss_openList := ol\<rparr>) = ss_ref s" "same_rest (s\<lparr>ss_openList := ol\<rparr>) s' = same_rest s s'"
  by (simp_all add: same_rest_def)

text \<open>The part of \<open>_open\<close> behind the load, for a load that is still in progress or complete.\<close>

definition openTail ::
  "bool \<Rightarrow> u32 \<Rightarrow> u32 \<Rightarrow> nat option \<Rightarrow> server_stream \<Rightarrow> (bool \<times> nat option) res \<times> server_stream" where
  "openTail complete session sqn wait s3 =
     (let loc = locAt sqn s3;
          segmentId = (if lc_id loc = None then lc_sideId loc else lc_id loc);
          s4 = (if lc_id loc = None \<and> \<not> complete then enlist wait sqn s3 else s3);
          s5 = updLoc sqn (\<lambda>l. l\<lparr>lc_referenceCount := lc_referenceCount l + 1,
                                 lc_referenceMap := bump session (lc_referenceMap l)\<rparr>) s4;
          s6 = s5\<lparr>ss_openList := ss_openList s5 @ [sqn]\<rparr>
      in if complete then
           (case completeSegment_core sqn (lc_location (locAt sqn s6)) False None True True s6 of
              (Inl e, s7) \<Rightarrow> (Inl e, s7)
            | (Inr _, s7) \<Rightarrow> (Inr (complete, segmentId), s7))
         else (Inr (complete, segmentId), s6))"

definition openFail :: "u32 \<Rightarrow> nat option \<Rightarrow> server_stream \<Rightarrow> server_stream" where
  "openFail sqn wait s3 =
     updWait wait (wc_pushError \<lparr>ln_stream = sr_id (ss_ref s3), ln_sequenceNumber = sqn\<rparr>)
       (updLoc sqn (\<lambda>l. l\<lparr>lc_cancel := False, lc_prefetched := False\<rparr>) s3)"

definition openLoad :: "open_env \<Rightarrow> bool \<Rightarrow> u32 \<Rightarrow> server_stream \<Rightarrow> server_stream" where
  "openLoad env complete sqn s2 =
     (if \<not> complete \<and> oe_early env then snd (completeSegment sqn s2) else s2)"

text \<open>\<open>_open\<close> in these parts, for an idle segment.\<close>

lemma open_internal_parts:
  assumes q: "slot s q = Some l" and loc: "lc_location l = Some loc"
    and o: "openSegment (oe_request env) (ss_ref s) flags loc prefetch (oe_read env) (ss_buffer s) = (r, b)"
  shows "open_internal env session q flags prefetch wait s =
    (let s0 = updLoc q (\<lambda>l. l\<lparr>lc_prefetched := prefetch, lc_cancel := prefetch\<rparr>) s;
         s1 = s0\<lparr>ss_buffer := b\<rparr>
     in case r of
          Inl e \<Rightarrow> (Inl e, updLoc q (\<lambda>l. l\<lparr>lc_sideId := None\<rparr>) s1)
        | Inr (complete, side) \<Rightarrow>
            (let s3 = openLoad env complete q (updLoc q (\<lambda>l. l\<lparr>lc_sideId := side\<rparr>) s1)
             in if lc_id (locAt q s3) = None \<and> lc_sideId (locAt q s3) = None
                then (Inr (True, None), openFail q wait s3)
                else openTail complete session q wait s3))"
proof -
  have "locAt q (updLoc q (\<lambda>l. l\<lparr>lc_prefetched := prefetch, lc_cancel := prefetch\<rparr>) s) =
      l\<lparr>lc_prefetched := prefetch, lc_cancel := prefetch\<rparr>"
    by (rule locAt_slot) (simp add: q)
  then show ?thesis
    using loc o by (simp add: open_internal_def openFail_def openTail_def openLoad_def Let_def cong: if_cong
        split: sum.splits prod.splits)
qed

text \<open>The locations of a segment behind an open: being loaded, and open.\<close>

definition loading :: "bool \<Rightarrow> u32 \<Rightarrow> nat \<Rightarrow> nat list \<Rightarrow> segment_location \<Rightarrow> segment_location" where
  "loading prefetch session x ws l = l\<lparr>lc_prefetched := prefetch, lc_cancel := prefetch, lc_sideId := Some x,
     lc_referenceCount := 1, lc_referenceMap := bump session (lc_referenceMap l), lc_waitList := ws\<rparr>"

definition active :: "u32 \<Rightarrow> nat \<Rightarrow> segment_location \<Rightarrow> segment_location" where
  "active session x l = l\<lparr>lc_prefetched := False, lc_referenceCount := 1,
     lc_referenceMap := bump session (lc_referenceMap l), lc_id := Some x, lc_sideId := None, lc_cancel := False\<rparr>"

lemma opened_ok:
  assumes "stream_inv s" and "idleSlot q s l loc"
  shows "loc_ok (loading prefetch session x ws l)" "loc_ok (active session x l)"
    "loc_ok (l\<lparr>lc_prefetched := p, lc_cancel := c\<rparr>)" "loc_ok (idled p [] l)"
proof -
  note d = idleSlot_D [OF assms]
  have "refs_ok 1 (bump session (lc_referenceMap l))" using refs_bump [OF d(10)] by simp
  then show "loc_ok (loading prefetch session x ws l)" "loc_ok (active session x l)"
    using d by (auto simp: loc_ok_def loading_def active_def)
  show "loc_ok (l\<lparr>lc_prefetched := p, lc_cancel := c\<rparr>)" using d by (auto simp: loc_ok_def)
  show "loc_ok (idled p [] l)" using d idled_ok by simp
qed

lemma openTail_pending:
  assumes q: "slot s3 q = Some l3" and l3: "l3 = l\<lparr>lc_prefetched := p, lc_cancel := p, lc_sideId := Some x\<rparr>"
    and l: "lc_id l = None" "lc_referenceCount l = 0" "lc_waitList l = []"
  shows "\<exists>s'. openTail False session q wait s3 = (Inr (False, Some x), s') \<and>
    slot s' = (slot s3)(q \<mapsto> loading p session x (case wait of None \<Rightarrow> [] | Some w \<Rightarrow> [w]) l) \<and>
    ss_buffer s' = ss_buffer s3 \<and> ss_openList s' = ss_openList s3 @ [q] \<and> same_rest s3 s'"
  using assms locAt_slot [OF q] by (auto simp: openTail_def Let_def loading_def)

lemma openTail_active:
  assumes q: "slot s3 q = Some l3" and l3: "l3 = l\<lparr>lc_prefetched := False, lc_cancel := False, lc_id := Some x\<rparr>"
    and l: "lc_referenceCount l = 0" "lc_sideId l = None"
  shows "\<exists>s'. openTail False session q wait s3 = (Inr (False, Some x), s') \<and>
    slot s' = (slot s3)(q \<mapsto> active session x l) \<and>
    ss_buffer s' = ss_buffer s3 \<and> ss_openList s' = ss_openList s3 @ [q] \<and> same_rest s3 s'"
proof -
  have "l3\<lparr>lc_referenceCount := 1, lc_referenceMap := bump session (lc_referenceMap l)\<rparr> = active session x l"
    by (rule segment_location.equality) (simp_all add: active_def l3 l)
  then show ?thesis using assms locAt_slot [OF q] by (auto simp: openTail_def Let_def)
qed

lemma openTail_complete:
  assumes q: "slot s3 q = Some l3" and l3: "l3 = l\<lparr>lc_prefetched := p, lc_cancel := p, lc_sideId := Some x\<rparr>"
    and l: "lc_id l = None" "lc_referenceCount l = 0" "lc_waitList l = []" "lc_location l \<noteq> None"
    and ol: "distinct (ss_openList s3)" "q \<notin> set (ss_openList s3)"
    and b: "if p then freeSegment x p (ss_buffer s3) = (Inr (), b) else b = ss_buffer s3"
  shows "\<exists>s'. openTail True session q wait s3 = (Inr (True, Some x), s') \<and>
    slot s' = (slot s3)(q \<mapsto> (if p then idled True [] l else active session x l)) \<and>
    ss_buffer s' = b \<and> ss_openList s' = (if p then ss_openList s3 else ss_openList s3 @ [q]) \<and> same_rest s3 s'"
proof -
  let ?l = "l3\<lparr>lc_referenceCount := 1, lc_referenceMap := bump session (lc_referenceMap l)\<rparr>"
  let ?s5 = "updLoc q (\<lambda>l. l\<lparr>lc_referenceCount := lc_referenceCount l + 1,
      lc_referenceMap := bump session (lc_referenceMap l)\<rparr>) s3"
  let ?s6 = "?s5\<lparr>ss_openList := ss_openList ?s5 @ [q]\<rparr>"
  have q6: "slot ?s6 q = Some ?l" using q l3 l by simp
  have x6: "lc_sideId ?l = Some x" "lc_location ?l \<noteq> None" using l3 l by simp_all
  have ol6: "distinct (ss_openList ?s6)" "itOk None q ?s6" using ol by (simp_all add: itOk_def)
  have rest6: "same_rest s3 ?s6" "ss_buffer ?s6 = ss_buffer s3" by simp_all
  have c: "\<exists>ws s'. completeSegment_core q (lc_location ?l) False None True True ?s6 = (Inr ws, s') \<and>
      outcome q (Some (if p then idled True [] l else active session x l)) b p ?s6 s'"
  proof (cases p)
    case True
    then have "lc_cancel ?l" "freeSegment x (lc_prefetched ?l) (ss_buffer ?s6) = (Inr (), b)" using l3 b by simp_all
    from completeRead_cases(2) [OF q6 x6(1) this, of "lc_location ?l \<noteq> None"] obtain s1 where
      "completeRead q (lc_location ?l \<noteq> None) True ?s6 = (Inr True, s1)"
      "outcome q (Some (idled (lc_prefetched ?l) (lc_waitList ?l) ?l)) b False ?s6 s1" by blast
    from core_read [OF q6 x6(2) ol6 this, of False True] show ?thesis
      using True l3 l by (simp add: idled_def)
  next
    case False
    then have "\<not> lc_cancel ?l" "ss_buffer ?s6 = b" using l3 b by simp_all
    then obtain s1 where
      "completeRead q (lc_location ?l \<noteq> None) True ?s6 = (Inr False, s1)"
      "outcome q (Some (?l\<lparr>lc_id := Some x, lc_sideId := None, lc_cancel := False\<rparr>)) b False ?s6 s1"
      using completeRead_cases(4) [OF q6 x6(1) x6(2), of True] by auto
    from core_read [OF q6 x6(2) ol6 this, of False True] show ?thesis
      using False l3 l by (simp add: active_def)
  qed
  then obtain ws s' where s': "completeSegment_core q (lc_location ?l) False None True True ?s6 = (Inr ws, s')"
    "outcome q (Some (if p then idled True [] l else active session x l)) b p ?s6 s'" by blast
  have "openTail True session q wait s3 = (Inr (True, Some x), s')"
    using s'(1) locAt_slot [OF q] locAt_slot [OF q6] l3 l by (simp add: openTail_def Let_def)
  moreover have "removeAll q (ss_openList s3) = ss_openList s3" using ol(2) by (rule removeAll_id)
  ultimately show ?thesis using s'(2) rest6 by (auto simp: outcome_def same_rest_def)
qed

text \<open>The load itself: still in progress, or completed by another thread meanwhile.\<close>

lemma openLoad_early:
  assumes q: "slot s2 q = Some l2" and l2: "l2 = l\<lparr>lc_prefetched := p, lc_cancel := p, lc_sideId := Some x\<rparr>"
    and l: "lc_id l = None" "lc_waitList l = []" "lc_location l \<noteq> None" "lc_referenceCount l = 0"
    and ol: "distinct (ss_openList s2)" "q \<notin> set (ss_openList s2)"
    and b: "if p then freeSegment x p (ss_buffer s2) = (Inr (), b) else b = ss_buffer s2"
  shows "\<exists>s3. snd (completeSegment q s2) = s3 \<and> ss_buffer s3 = b \<and> ss_openList s3 = ss_openList s2 \<and>
    same_rest s2 s3 \<and> slot s3 = (slot s2)(q \<mapsto> (if p then idled True [] l
      else l2\<lparr>lc_id := Some x, lc_sideId := None, lc_cancel := False\<rparr>))"
proof -
  have x2: "lc_sideId l2 = Some x" "lc_location l2 \<noteq> None" using l2 l by simp_all
  have it: "itOk None q s2" by (simp add: itOk_def)
  have c: "\<exists>ws s'. completeSegment_core q (lc_location l2) True None True False s2 = (Inr ws, s') \<and>
      outcome q (Some (if p then idled True [] l
        else l2\<lparr>lc_id := Some x, lc_sideId := None, lc_cancel := False\<rparr>)) b p s2 s'"
  proof (cases p)
    case True
    then have "lc_cancel l2" "freeSegment x (lc_prefetched l2) (ss_buffer s2) = (Inr (), b)" using l2 b by simp_all
    from completeRead_cases(2) [OF q x2(1) this, of "lc_location l2 \<noteq> None"] obtain s1 where
      "completeRead q (lc_location l2 \<noteq> None) True s2 = (Inr True, s1)"
      "outcome q (Some (idled (lc_prefetched l2) (lc_waitList l2) l2)) b False s2 s1" by blast
    from core_read [OF q x2(2) ol(1) it this, of True False] show ?thesis
      using True l2 l by (simp add: idled_def)
  next
    case False
    then have "\<not> lc_cancel l2" "ss_buffer s2 = b" using l2 b by simp_all
    then obtain s1 where s1:
      "completeRead q (lc_location l2 \<noteq> None) True s2 = (Inr False, s1)"
      "outcome q (Some (l2\<lparr>lc_id := Some x, lc_sideId := None, lc_cancel := False\<rparr>)) b False s2 s1"
      using completeRead_cases(4) [OF q x2(1) x2(2), of True] by auto
    have "l2\<lparr>lc_id := Some x, lc_sideId := None, lc_cancel := False, lc_waitList := []\<rparr> =
        l2\<lparr>lc_id := Some x, lc_sideId := None, lc_cancel := False\<rparr>"
      by (rule segment_location.equality) (simp_all add: l2 l)
    then show ?thesis using core_read [OF q x2(2) ol(1) it s1, of True False] False by simp
  qed
  then obtain ws s' where s': "completeSegment_core q (lc_location l2) True None True False s2 = (Inr ws, s')"
    and o: "outcome q (Some (if p then idled True [] l
        else l2\<lparr>lc_id := Some x, lc_sideId := None, lc_cancel := False\<rparr>)) b p s2 s'" by blast
  have "snd (completeSegment q s2) = fold (\<lambda>w. updWait (Some w) wc_decrement) ws s'"
    using s' q locAt_slot [OF q] by (simp add: completeSegment_def completeSegment_async_def allocated_slot)
  moreover have "removeAll q (ss_openList s2) = ss_openList s2" using ol(2) by (rule removeAll_id)
  ultimately show ?thesis using o by (auto simp: outcome_def)
qed

text \<open>
  What \<open>_open\<close> leaves: the invariant, the other segments as they were, and the segment idle
  (and maybe prefetched), being loaded for the session, or open for the session.
\<close>

definition open_to :: "u32 \<Rightarrow> u32 \<Rightarrow> segment_location \<Rightarrow> server_stream \<Rightarrow> (bool \<times> nat option) res \<Rightarrow> server_stream \<Rightarrow> bool" where
  "open_to session q l s r s' \<longleftrightarrow> stream_inv s' \<and>
     (\<exists>l'. opened q l' s s' \<and> lc_location l' = lc_location l \<and>
        (case r of
           Inl e \<Rightarrow> lc_referenceCount l' = 0
         | Inr (c, None) \<Rightarrow> c \<and> lc_referenceCount l' = 0
         | Inr (c, Some x) \<Rightarrow> l' = idled True [] l \<and> c \<or> l' = active session x l \<or>
             (\<exists>p ws. l' = loading p session x ws l) \<and> \<not> c))"

lemma opened_open:
  assumes "slot s3 = (slot s)(q \<mapsto> l3)" "same_rest s s3" "ss_openList s3 = ss_openList s"
    and "slot s' = (slot s3)(q \<mapsto> l')" "same_rest s3 s'"
    and "ss_openList s' = (if 0 < lc_referenceCount l' then ss_openList s3 @ [q] else ss_openList s3)"
  shows "opened q l' s s'"
  using assms same_rest_trans [of s s3 s'] by (simp add: opened_def)

lemma open_toI:
  assumes "stream_inv s" and "idleSlot q s l loc" and "opened q l' s s'"
    and "loc_ok l'" "lc_sequenceNumber l' = q" "lc_location l' = lc_location l"
    and "hold_rel (ss_ref s) ((slot s)(q \<mapsto> l')) (ss_buffer s')"
    and "case r of
           Inl e \<Rightarrow> lc_referenceCount l' = 0
         | Inr (c, None) \<Rightarrow> c \<and> lc_referenceCount l' = 0
         | Inr (c, Some x) \<Rightarrow> l' = idled True [] l \<and> c \<or> l' = active session x l \<or>
             (\<exists>p ws. l' = loading p session x ws l) \<and> \<not> c"
  shows "open_to session q l s r s'"
  using opened_inv [OF assms(1-5,7)] assms(3,6,8) unfolding open_to_def by blast

text \<open>The load throws, or the buffer is exhausted.\<close>

lemma open_failed:
  assumes inv: "stream_inv s" and i: "idleSlot q s l loc"
    and o: "openSegment (oe_request env) (ss_ref s) flags loc p (oe_read env) (ss_buffer s) = (r, b)"
    and r: "r = Inl e \<or> r = Inr (True, None)" and h: "hold_rel (ss_ref s) (slot s) b"
  shows "\<exists>r s'. open_internal env session q flags p wait s = (r, s') \<and> open_to session q l s r s'"
proof -
  note d = idleSlot_D [OF inv i]
  note parts = open_internal_parts [OF d(1,2) o, of session wait]
  let ?s1 = "updLoc q (\<lambda>l. l\<lparr>lc_prefetched := p, lc_cancel := p\<rparr>) s\<lparr>ss_buffer := b\<rparr>"
  let ?s3 = "updLoc q (\<lambda>l. l\<lparr>lc_sideId := None\<rparr>) ?s1"
  have to: "open_to session q l s r' s'"
    if "slot s' = (slot s)(q \<mapsto> l\<lparr>lc_prefetched := p', lc_cancel := c\<rparr>)" "same_rest s s'"
      "ss_openList s' = ss_openList s" "ss_buffer s' = b" "r' = Inl e \<or> r' = Inr (True, None)" for p' c s' r'
  proof (rule open_toI [OF inv i])
    have "hold_rel (ss_ref s) ((slot s)(q \<mapsto> l\<lparr>lc_prefetched := p', lc_cancel := c\<rparr>)) b"
      by (rule hold_keep [OF h]) (use d in \<open>auto simp: stored_def locHold_def\<close>)
    then show "hold_rel (ss_ref s) ((slot s)(q \<mapsto> l\<lparr>lc_prefetched := p', lc_cancel := c\<rparr>)) (ss_buffer s')"
      using that by simp
  qed (use that d opened_ok(3) [OF inv i] in \<open>auto simp: opened_def\<close>)
  have side: "l'\<lparr>lc_sideId := None\<rparr> = l'" if "lc_sideId l' = None" for l'
    by (rule segment_location.equality) (simp_all add: that)
  have "slot ?s3 = (slot s)(q \<mapsto> l\<lparr>lc_prefetched := p, lc_cancel := p\<rparr>\<lparr>lc_sideId := None\<rparr>)"
    using d(1) by simp
  then have slot3: "slot ?s3 = (slot s)(q \<mapsto> l\<lparr>lc_prefetched := p, lc_cancel := p\<rparr>)"
    by (rule trans) (intro arg_cong [where f = "\<lambda>l'. (slot s)(q \<mapsto> l')"] side, simp add: d(5))
  have fail: "slot (openFail q wait s3) = (slot s)(q \<mapsto> l\<lparr>lc_prefetched := False, lc_cancel := False\<rparr>)"
    if "slot s3 = (slot s)(q \<mapsto> l\<lparr>lc_prefetched := p, lc_cancel := p\<rparr>)" for s3
  proof -
    have e: "l\<lparr>lc_cancel := False, lc_prefetched := False\<rparr> = l\<lparr>lc_prefetched := False, lc_cancel := False\<rparr>"
      by (rule segment_location.equality) simp_all
    show ?thesis using that by (simp add: openFail_def e)
  qed
  from r show ?thesis
  proof
    assume "r = Inl e"
    moreover have "open_to session q l s (Inl e) ?s3" by (rule to [OF slot3]) simp_all
    ultimately show ?thesis using parts by (simp add: Let_def)
  next
    assume "r = Inr (True, None)"
    moreover have "locAt q ?s3 = l\<lparr>lc_prefetched := p, lc_cancel := p\<rparr>"
      by (rule locAt_slot) (simp only: slot3 fun_upd_same)
    ultimately have "open_internal env session q flags p wait s = (Inr (True, None), openFail q wait ?s3)"
      using parts d(4,5) by (simp add: Let_def openLoad_def)
    moreover have "slot (openFail q wait ?s3) = (slot s)(q \<mapsto> l\<lparr>lc_prefetched := False, lc_cancel := False\<rparr>)"
      by (rule fail [OF slot3])
    then have "open_to session q l s (Inr (True, None)) (openFail q wait ?s3)"
      by (rule to) (simp_all add: openFail_def)
    ultimately show ?thesis by blast
  qed
qed

text \<open>The buffer has a segment \<open>x\<close> for the load. The locations that may hold it:\<close>

definition fetched :: "u32 \<Rightarrow> nat \<Rightarrow> server_stream \<Rightarrow> server_buffer \<Rightarrow> bool" where
  "fetched q x s b \<longleftrightarrow> (\<forall>l'. lc_sequenceNumber l' = q \<and> lc_location l' \<noteq> None \<and> lc_id l' = None \<and>
     lc_sideId l' = Some x \<longrightarrow> hold_rel (ss_ref s) ((slot s)(q \<mapsto> l')) b)"

lemma fetched_hold:
  assumes "fetched q x s b" and l: "lc_location l \<noteq> None" "lc_sequenceNumber l = q" "lc_id l = None"
  shows "hold_rel (ss_ref s) ((slot s)(q \<mapsto> loading p session x ws l)) b"
    and "hold_rel (ss_ref s) ((slot s)(q \<mapsto> active session x l)) b"
    and "\<exists>b'. freeSegment x True b = (Inr (), b') \<and> hold_rel (ss_ref s) ((slot s)(q \<mapsto> idled p [] l)) b'"
proof -
  have load: "hold_rel (ss_ref s) ((slot s)(q \<mapsto> loading p session x ws l)) b" for p ws
    using assms unfolding fetched_def by (simp add: loading_def)
  then show "hold_rel (ss_ref s) ((slot s)(q \<mapsto> loading p session x ws l)) b" by blast
  have lh: "locHold (ss_ref s) (loading p session x ws l) =
      Some (x, \<lparr>ho_key = streamKey (ss_ref s) q, ho_submitted = False, ho_read = True\<rparr>)"
    using l by (simp add: loading_def locHold_def)
  have "hold_rel (ss_ref s) (((slot s)(q \<mapsto> loading p session x ws l))(q \<mapsto> active session x l)) b"
    by (rule hold_keep [OF load]) (use lh l in \<open>auto simp: active_def locHold_def stored_def\<close>)
  then show "hold_rel (ss_ref s) ((slot s)(q \<mapsto> active session x l)) b" by simp
  have "\<exists>b'. freeSegment x True b = (Inr (), b') \<and>
      hold_rel (ss_ref s) (((slot s)(q \<mapsto> loading p session x ws l))(q \<mapsto> idled p [] l)) b'"
    by (rule hold_release [OF load _ lh]) (use l in simp_all)
  then show "\<exists>b'. freeSegment x True b = (Inr (), b') \<and> hold_rel (ss_ref s) ((slot s)(q \<mapsto> idled p [] l)) b'"
    by simp
qed

lemma open_later:
  assumes inv: "stream_inv s" and i: "idleSlot q s l loc"
    and o: "openSegment (oe_request env) (ss_ref s) flags loc p (oe_read env) (ss_buffer s) = (Inr (c, Some x), b)"
    and s2: "s2 = updLoc q (\<lambda>l. l\<lparr>lc_sideId := Some x\<rparr>)
      (updLoc q (\<lambda>l. l\<lparr>lc_prefetched := p, lc_cancel := p\<rparr>) s\<lparr>ss_buffer := b\<rparr>)"
    and s3: "openLoad env c q s2 = s3" and l3: "lc_id l3 \<noteq> None \<or> lc_sideId l3 \<noteq> None"
    and q3: "slot s3 = (slot s)(q \<mapsto> l3)" "same_rest s s3" "ss_openList s3 = ss_openList s"
    and t: "openTail c session q wait s3 = (Inr (c, Some x), s')" "slot s' = (slot s3)(q \<mapsto> l')" "same_rest s3 s'"
      "ss_openList s' = (if 0 < lc_referenceCount l' then ss_openList s3 @ [q] else ss_openList s3)"
    and l': "loc_ok l'" "lc_sequenceNumber l' = q" "lc_location l' = lc_location l"
    and h: "hold_rel (ss_ref s) ((slot s)(q \<mapsto> l')) (ss_buffer s')"
    and r: "l' = idled True [] l \<and> c \<or> l' = active session x l \<or> (\<exists>p ws. l' = loading p session x ws l) \<and> \<not> c"
  shows "\<exists>r s'. open_internal env session q flags p wait s = (r, s') \<and> open_to session q l s r s'"
proof -
  note d = idleSlot_D [OF inv i]
  note parts = open_internal_parts [OF d(1,2) o, of session wait]
  have "locAt q s3 = l3" by (rule locAt_slot) (simp add: q3)
  then have "open_internal env session q flags p wait s = (Inr (c, Some x), s')"
    using parts s3 t(1) l3 unfolding s2 by (auto simp: Let_def)
  moreover have "open_to session q l s (Inr (c, Some x)) s'"
    by (rule open_toI [OF inv i opened_open [OF q3 t(2,3,4)] l' h]) (use r in simp)
  ultimately show ?thesis by blast
qed

lemma open_loaded:
  assumes inv: "stream_inv s" and i: "idleSlot q s l loc"
    and o: "openSegment (oe_request env) (ss_ref s) flags loc p (oe_read env) (ss_buffer s) = (Inr (c, Some x), b)"
    and f: "fetched q x s b"
  shows "\<exists>r s'. open_internal env session q flags p wait s = (r, s') \<and> open_to session q l s r s'"
proof -
  note d = idleSlot_D [OF inv i]
  note ok = opened_ok [OF inv i]
  define s2 where "s2 = updLoc q (\<lambda>l. l\<lparr>lc_sideId := Some x\<rparr>)
      (updLoc q (\<lambda>l. l\<lparr>lc_prefetched := p, lc_cancel := p\<rparr>) s\<lparr>ss_buffer := b\<rparr>)"
  let ?l2 = "l\<lparr>lc_prefetched := p, lc_cancel := p, lc_sideId := Some x\<rparr>"
  have q2: "slot s2 = (slot s)(q \<mapsto> ?l2)" "same_rest s s2" "ss_openList s2 = ss_openList s" "ss_buffer s2 = b"
    using d(1) by (simp_all add: s2_def)
  have q2': "slot s2 q = Some ?l2" using q2 by simp
  have ol2: "distinct (ss_openList s2)" "q \<notin> set (ss_openList s2)" using inv_D(6) [OF inv] d(11) q2 by simp_all
  have loc: "lc_location l \<noteq> None" using d(2) by simp
  note fh = fetched_hold [OF f loc d(7,4)]
  have act: "lc_sequenceNumber (active session x l) = q" "lc_location (active session x l) = lc_location l"
    "lc_referenceCount (active session x l) = 1" using d by (simp_all add: active_def)
  obtain b' where b': "if p then freeSegment x p (ss_buffer s2) = (Inr (), b') else b' = ss_buffer s2"
    and hp: "p \<Longrightarrow> hold_rel (ss_ref s) ((slot s)(q \<mapsto> idled True [] l)) b'"
    using fh(3) [of True] q2(4) by (cases p) auto
  note later = open_later [OF inv i o s2_def]
  consider (complete) c | (pending) "\<not> c" "\<not> oe_early env" | (early) "\<not> c" "oe_early env" by blast
  then show ?thesis
  proof cases
    case complete
    let ?l = "if p then idled True [] l else active session x l"
    from openTail_complete [OF q2' refl d(4,3,6) loc ol2 b', of session wait] obtain s' where
      t: "openTail c session q wait s2 = (Inr (c, Some x), s')" and
      t': "slot s' = (slot s2)(q \<mapsto> ?l)" "ss_buffer s' = b'"
        "ss_openList s' = (if p then ss_openList s2 else ss_openList s2 @ [q])" "same_rest s2 s'" using complete by auto
    have ld: "openLoad env c q s2 = s2" using complete by (simp add: openLoad_def)
    show ?thesis
    proof (rule later [OF ld _ q2(1-3) t t'(1,4)])
      show "hold_rel (ss_ref s) ((slot s)(q \<mapsto> ?l)) (ss_buffer s')"
        using hp fh(2) b' t'(2) q2(4) by (cases p) simp_all
    qed (use t'(3) act ok d complete in auto)
  next
    case pending
    let ?ws = "case wait of None \<Rightarrow> [] | Some w \<Rightarrow> [w]"
    let ?l = "loading p session x ?ws l"
    from openTail_pending [OF q2' refl d(4,3,6), of session wait] pending obtain s' where
      t: "openTail c session q wait s2 = (Inr (c, Some x), s')" and
      t': "slot s' = (slot s2)(q \<mapsto> ?l)" "ss_buffer s' = ss_buffer s2"
        "ss_openList s' = ss_openList s2 @ [q]" "same_rest s2 s'" by auto
    have ll: "lc_sequenceNumber ?l = q" "lc_location ?l = lc_location l" "lc_referenceCount ?l = 1"
      using d by (simp_all add: loading_def)
    have ld: "openLoad env c q s2 = s2" using pending by (simp add: openLoad_def)
    show ?thesis
    proof (rule later [OF ld _ q2(1-3) t t'(1,4)])
      show "hold_rel (ss_ref s) ((slot s)(q \<mapsto> ?l)) (ss_buffer s')" using fh(1) t'(2) q2(4) by simp
    qed (use t'(3) ll ok pending in auto)
  next
    case early
    from openLoad_early [OF q2' refl d(4,6) loc d(3) ol2 b'] obtain s3 where
      s3: "snd (completeSegment q s2) = s3" "ss_buffer s3 = b'" "ss_openList s3 = ss_openList s2" "same_rest s2 s3"
        "slot s3 = (slot s2)(q \<mapsto> (if p then idled True [] l
           else ?l2\<lparr>lc_id := Some x, lc_sideId := None, lc_cancel := False\<rparr>))" by blast
    have ld: "openLoad env c q s2 = s3" using early s3(1) by (simp add: openLoad_def)
    have rest3: "same_rest s s3" "ss_openList s3 = ss_openList s"
      using same_rest_trans [OF q2(2) s3(4)] s3(3) q2(3) by simp_all
    show ?thesis
    proof (cases p)
      case True
      have q3: "slot s3 = (slot s)(q \<mapsto> idled True [] l)" using s3(5) q2 True by simp
      then have la: "locAt q s3 = idled True [] l" by (intro locAt_slot) simp
      have "open_internal env session q flags p wait s = (Inr (True, None), openFail q wait s3)"
        using open_internal_parts [OF d(1,2) o, of session wait] ld la unfolding s2_def by (simp add: Let_def)
      moreover have "open_to session q l s (Inr (True, None)) (openFail q wait s3)"
      proof (rule open_toI [OF inv i])
        have l': "(idled True [] l)\<lparr>lc_cancel := False, lc_prefetched := False\<rparr> = idled False [] l"
          by (rule segment_location.equality) (simp_all add: idled_def)
        show "opened q (idled False [] l) s (openFail q wait s3)"
          by (rule opened_open [OF q3 rest3]) (use q3 l' in \<open>simp_all add: openFail_def\<close>)
        have "hold_rel (ss_ref s) (((slot s)(q \<mapsto> idled True [] l))(q \<mapsto> idled False [] l)) b'"
          by (rule hold_keep [OF hp [OF True]]) (use d in \<open>auto simp: stored_def\<close>)
        then show "hold_rel (ss_ref s) ((slot s)(q \<mapsto> idled False [] l)) (ss_buffer (openFail q wait s3))"
          using s3(2) by (simp add: openFail_def)
      qed (use d ok(4) in simp_all)
      ultimately show ?thesis by blast
    next
      case False
      let ?l3 = "?l2\<lparr>lc_id := Some x, lc_sideId := None, lc_cancel := False\<rparr>"
      have q3: "slot s3 = (slot s)(q \<mapsto> ?l3)" using s3(5) q2 False by simp
      then have q3': "slot s3 q = Some ?l3" by simp
      have "?l3 = l\<lparr>lc_prefetched := False, lc_cancel := False, lc_id := Some x\<rparr>"
        by (rule segment_location.equality) (simp_all add: False d(5))
      from openTail_active [OF q3' this d(3,5), of session wait] early obtain s' where
        t: "openTail c session q wait s3 = (Inr (c, Some x), s')" and
        t': "slot s' = (slot s3)(q \<mapsto> active session x l)" "ss_buffer s' = ss_buffer s3"
          "ss_openList s' = ss_openList s3 @ [q]" "same_rest s3 s'" by auto
      show ?thesis
      proof (rule later [OF ld _ q3 rest3 t t'(1,4)])
        show "hold_rel (ss_ref s) ((slot s)(q \<mapsto> active session x l)) (ss_buffer s')"
          using fh(2) b' t'(2) s3(2) False q2(4) by simp
      qed (use t'(3) act ok in auto)
    qed
  qed
qed

lemma open_internal_ok:
  assumes inv: "stream_inv s" and i: "idleSlot q s l loc" and quiet: "quietEnv (ss_ref s) (oe_request env)"
  shows "\<exists>r s'. open_internal env session q flags p wait s = (r, s') \<and> open_to session q l s r s'"
proof -
  note d = idleSlot_D [OF inv i]
  obtain r b where o: "openSegment (oe_request env) (ss_ref s) flags loc p (oe_read env) (ss_buffer s) = (r, b)"
    by fastforce
  note law = hold_fetch [OF inv_D(2) [OF inv] quiet d(1,4,5,2,9), of flags p "oe_read env", unfolded o prod.case]
  show ?thesis
  proof (cases r)
    case (Inl e)
    with open_failed [OF inv i o] law show ?thesis by simp
  next
    case (Inr a)
    then obtain c side where r: "r = Inr (c, side)" by (cases a) auto
    show ?thesis
    proof (cases side)
      case None
      with open_failed [OF inv i o] law r show ?thesis by simp
    next
      case (Some x)
      then have "fetched q x s b" using law r by (simp add: fetched_def)
      with open_loaded [OF inv i _ this] o r Some show ?thesis by simp
    qed
  qed
qed

end
