(* ===== verification/Stream_Steps.thy ===== *)
theory Stream_Steps
  imports Stream_Open
begin

text \<open>
  The rest of the operations of a stream keep its invariant (sharing a segment, the read ahead,
  opening, appending and adding), and the stream as a transition system.
\<close>

section \<open>Sharing a segment\<close>

lemma share_inv:
  assumes inv: "stream_inv s" and q: "slot s q = Some l" and loc: "lc_location l \<noteq> None"
    and n: "0 < lc_referenceCount l" and max: "lc_referenceCount l \<noteq> - 1"
  shows "\<exists>r s'. shareSegment session q wait s = (r, s') \<and> stream_inv s' \<and> ss_ref s' = ss_ref s \<and>
    (\<forall>p. p \<noteq> q \<longrightarrow> slot s' p = slot s p) \<and> (\<exists>l'. slot s' q = Some l' \<and> lc_location l' = lc_location l \<and>
      0 < lc_referenceCount l' \<and> lc_referenceMap l' session \<noteq> None)"
proof -
  have ok: "loc_ok l" "lc_sequenceNumber l = q" using inv_D(4,5) [OF inv q] by simp_all
  let ?n = "if lc_prefetched l then lc_referenceCount l else lc_referenceCount l + 1"
  let ?m = "bump session (if lc_prefetched l then Map.empty else lc_referenceMap l)"
  let ?ws = "lc_waitList l @ (case lc_id l of None \<Rightarrow> (case wait of None \<Rightarrow> [] | Some w \<Rightarrow> [w]) | Some _ \<Rightarrow> [])"
  let ?v = "l\<lparr>lc_referenceCount := ?n, lc_referenceMap := ?m, lc_prefetched := False, lc_cancel := False,
      lc_waitList := ?ws\<rparr>"
  have refs: "refs_ok ?n ?m" "0 < ?n" "lc_location l = None \<longrightarrow> ?n = 1"
  proof -
    show "refs_ok ?n ?m"
      using ok(1) n refs_bump [OF _ max, of "lc_referenceMap l" session] by (auto simp: loc_ok_def bump_def)
    have "1 + lc_referenceCount l \<noteq> 0" using max by (simp add: add_eq_0_iff)
    then have "lc_referenceCount l + 1 \<noteq> 0" by (simp add: add.commute)
    then show "0 < ?n" using n by (simp add: word_neq_0_conv [symmetric])
  qed (use loc in auto)
  have "loc_ok ?v" using ok(1) refs n loc by (auto simp: loc_ok_def)
  obtain r s' where s': "shareSegment session q wait s = (r, s')" by fastforce
  define s2 where "s2 = updLoc q (\<lambda>l. l\<lparr>lc_referenceMap := bump session (lc_referenceMap l), lc_cancel := False\<rparr>)
      (updLoc q (\<lambda>l. if \<not> lc_prefetched l then l\<lparr>lc_referenceCount := lc_referenceCount l + 1\<rparr>
                               else l\<lparr>lc_referenceMap := Map.empty, lc_prefetched := False\<rparr>) s)"
  let ?l2 = "l\<lparr>lc_referenceCount := ?n, lc_referenceMap := ?m, lc_prefetched := False, lc_cancel := False\<rparr>"
  have l2: "slot s2 q = Some ?l2"
    unfolding s2_def using q by (auto intro: segment_location.equality)
  have s2: "slot s2 = (slot s)(q \<mapsto> ?l2)"
  proof
    fix p
    have "slot s2 p = slot s p" if "p \<noteq> q" using that unfolding s2_def by simp
    then show "slot s2 p = ((slot s)(q \<mapsto> ?l2)) p" using l2 by (cases "p = q") simp_all
  qed
  have "s' = (if lc_id l = None then enlist wait q s2 else s2)"
    using s' locAt_slot [OF l2] by (auto simp: shareSegment_def Let_def s2_def split: option.splits)
  moreover have "?v = ?l2" if "lc_id l = Some i" for i
    by (rule segment_location.equality) (simp_all add: that)
  ultimately have o: "outcome q (Some ?v) (ss_buffer s) False s s'"
    using l2 s2 by (cases "lc_id l") (simp_all add: outcome_def, simp_all add: s2_def)
  have "hold_rel (ss_ref s) ((slot s)(q \<mapsto> ?v)) (ss_buffer s)"
    by (rule hold_keep [OF inv_D(2) [OF inv]])
      (use q ok loc in \<open>auto simp: locHold_def stored_def split: option.splits\<close>)
  then have "stream_inv s'"
    by (intro inv_set [OF inv o]) (use q ok loc refs n \<open>loc_ok ?v\<close> in auto)
  moreover have "bump session m session \<noteq> None" for m by (simp add: bump_def)
  ultimately show ?thesis using s' o refs(2) by (auto simp: outcome_def same_rest_def)
qed

section \<open>The read ahead\<close>

lemma prevIn_Some: "prevIn segs n = Some l \<Longrightarrow> \<exists>i<n. segs ! i = Some l"
  by (induction n) (auto split: option.splits intro: less_SucI)

lemma nextIn_Some: "nextIn segs i = Some l \<Longrightarrow> \<exists>j\<ge>i. j < length segs \<and> segs ! j = Some l"
proof (induction segs i rule: nextIn.induct)
  case (1 segs i)
  show ?case
  proof (cases "length segs \<le> i \<or> segs ! i \<noteq> None")
    case True
    then show ?thesis using 1(2) by (auto simp: nextIn.simps [of segs i] split: if_splits)
  next
    case False
    then have "nextIn segs (Suc i) = Some l" using 1(2) by (simp add: nextIn.simps [of segs i])
    with 1(1) False obtain j where "Suc i \<le> j" "j < length segs" "segs ! j = Some l" by auto
    then show ?thesis using Suc_leD by blast
  qed
qed

lemma slot_nth:
  assumes inv: "stream_inv s" and i: "i < length (ss_segments s)" "ss_segments s ! i = Some l"
  shows "slot s (lc_sequenceNumber l) = Some l" "unat (lc_sequenceNumber l) = i"
proof -
  have "length (ss_segments s) < 4294967296"
    using inv_D(3) [OF inv] unat_u32 [of "ss_lastSequenceNumber s + 1"] by (simp add: table_ok_def)
  then have u: "unat (of_nat i :: u32) = i" using i(1) by (simp add: unat_of_nat)
  then have s: "slot s (of_nat i) = Some l" using i by (simp add: slot_def)
  then have "lc_sequenceNumber l = of_nat i" by (rule inv_D(4) [OF inv])
  then show "slot s (lc_sequenceNumber l) = Some l" "unat (lc_sequenceNumber l) = i" using s u by simp_all
qed

lemma table_length:
  assumes "table_ok s" and "ss_lastSequenceNumber s \<noteq> INVALID_OBJECT_ID"
  shows "length (ss_segments s) = Suc (unat (ss_lastSequenceNumber s))"
proof -
  have "1 + ss_lastSequenceNumber s \<noteq> 0" using assms(2) by (simp add: add_eq_0_iff INVALID_OBJECT_ID_def)
  then have "unat (1 + ss_lastSequenceNumber s) = Suc (unat (ss_lastSequenceNumber s))" by (rule unatSuc)
  then show ?thesis using assms(1) by (simp add: table_ok_def add.commute)
qed

text \<open>The neighbours of a sequence number are segments before and behind it.\<close>

lemma previous_Some:
  assumes inv: "stream_inv s" and p: "getPreviousSegment q s = Some l"
  shows "slot s (lc_sequenceNumber l) = Some l \<and> lc_sequenceNumber l < q"
proof -
  let ?last = "ss_lastSequenceNumber s"
  have v: "?last \<noteq> INVALID_OBJECT_ID" using p INVALID_max by (auto simp: getPreviousSegment_def split: if_splits)
  obtain n where n: "prevIn (ss_segments s) n = Some l" "n \<le> unat ?last" "n \<le> unat q"
    using p v by (auto simp: getPreviousSegment_def word_less_nat_alt not_less split: if_splits)
  obtain i where i: "i < n" "ss_segments s ! i = Some l" using prevIn_Some [OF n(1)] by blast
  have "i < length (ss_segments s)" using i(1) n(2) table_length [OF inv_D(3) [OF inv] v] by simp
  from slot_nth [OF inv this i(2)] show ?thesis using i(1) n(3) by (simp add: word_less_nat_alt)
qed

lemma next_Some:
  assumes inv: "stream_inv s" and n: "getNextSegment q s = Some l" and q: "q \<noteq> INVALID_OBJECT_ID"
  shows "slot s (lc_sequenceNumber l) = Some l \<and> q < lc_sequenceNumber l"
proof -
  have "1 + q \<noteq> 0" using q by (simp add: add_eq_0_iff INVALID_OBJECT_ID_def)
  then have "unat (1 + q) = Suc (unat q)" by (rule unatSuc)
  then have u: "unat (q + 1) = Suc (unat q)" by (simp add: add.commute)
  from n obtain j where j: "unat (q + 1) \<le> j" "j < length (ss_segments s)" "ss_segments s ! j = Some l"
    using nextIn_Some unfolding getNextSegment_def by blast
  from slot_nth [OF inv j(2,3)] show ?thesis using j(1) u by (simp add: word_less_nat_alt)
qed

text \<open>The list of the read ahead: segments of the table, in one direction.\<close>

definition beyond :: "QueryIndexType \<Rightarrow> u32 \<Rightarrow> u32 \<Rightarrow> bool" where
  "beyond type q p \<longleftrightarrow> (type = QNextValidSequenceNumber \<and> q < p) \<or> (type = QPreviousValidSequenceNumber \<and> p < q)"

lemma beyond_trans: "beyond type q p \<Longrightarrow> beyond type p r \<Longrightarrow> beyond type q r"
  by (auto simp: beyond_def)

lemma readAheadFrom_ok:
  assumes inv: "stream_inv s" and "type = QNextValidSequenceNumber \<or> type = QPreviousValidSequenceNumber"
    and "q \<noteq> INVALID_OBJECT_ID"
  shows "\<forall>p\<in>set (readAheadFrom n type q s). p = INVALID_STREAM_SEGMENT_ID \<or> slot s p \<noteq> None \<and> beyond type q p"
  using assms(3)
proof (induction n arbitrary: q)
  case (Suc n)
  let ?p = "case findSequenceNumber type (ucast q) s of Inl _ \<Rightarrow> INVALID_STREAM_SEGMENT_ID | Inr q \<Rightarrow> q"
  have cast: "ucast (ucast q :: u64) = q" by (rule bit_word_eqI) (auto simp: bit_simps dest: bit_imp_le_length)
  have p: "slot s ?p \<noteq> None \<and> beyond type q ?p" if v: "?p \<noteq> INVALID_STREAM_SEGMENT_ID"
    using assms(2)
  proof
    assume t: "type = QNextValidSequenceNumber"
    then obtain l where "getNextSegment q s = Some l" "?p = lc_sequenceNumber l"
      using v cast by (auto simp: findSequenceNumber_def seqOf_def split: option.splits)
    with next_Some [OF inv this(1) Suc(2)] t show ?thesis by (simp add: beyond_def)
  next
    assume t: "type = QPreviousValidSequenceNumber"
    then obtain l where "getPreviousSegment q s = Some l" "?p = lc_sequenceNumber l"
      using v cast by (auto simp: findSequenceNumber_def seqOf_def split: option.splits)
    with previous_Some [OF inv this(1)] t show ?thesis by (simp add: beyond_def)
  qed
  show ?case
  proof (cases "?p = INVALID_STREAM_SEGMENT_ID")
    case True
    then show ?thesis by (simp add: Let_def)
  next
    case False
    then show ?thesis
      using p [OF False] Suc.IH [of ?p] beyond_trans [of type q ?p] by (auto simp: Let_def)
  qed
qed simp

lemma readAhead_ok:
  assumes "stream_inv s" and "\<And>k. quietEnv (ss_ref s) (oe_request (env k))"
    and "\<forall>p\<in>set sqns. p = INVALID_STREAM_SEGMENT_ID \<or> slot s p \<noteq> None"
  shows "\<exists>r s'. readAhead env k session flags sqns s = (r, s') \<and> stream_inv s' \<and> ss_ref s' = ss_ref s \<and>
    (\<forall>p. p \<notin> set sqns \<longrightarrow> slot s' p = slot s p)"
  using assms
proof (induction sqns arbitrary: k s)
  case (Cons q sqns)
  show ?case
  proof (cases "q = INVALID_STREAM_SEGMENT_ID")
    case True
    then show ?thesis using Cons.prems by simp
  next
    case False
    then obtain l where l: "slot s q = Some l" using Cons.prems(3) by auto
    note la = locAt_slot [OF l]
    show ?thesis
    proof (cases "lc_location l \<noteq> None \<and> lc_referenceCount l = 0 \<and> \<not> lc_prefetched l")
      case True
      then obtain loc where i: "idleSlot q s l loc" using l by (auto simp: idleSlot_def)
      obtain r s1 where o: "open_internal (env k) session q flags True None s = (r, s1)" "open_to session q l s r s1"
        using open_internal_ok [OF Cons.prems(1) i Cons.prems(2)] by blast
      then obtain l1 where s1: "stream_inv s1" "ss_ref s1 = ss_ref s" "slot s1 = (slot s)(q \<mapsto> l1)"
        by (auto simp: open_to_def opened_def same_rest_def)
      have "\<exists>r s'. readAhead env (Suc k) session flags sqns s1 = (r, s') \<and> stream_inv s' \<and> ss_ref s' = ss_ref s1 \<and>
          (\<forall>p. p \<notin> set sqns \<longrightarrow> slot s' p = slot s1 p)"
        by (rule Cons.IH) (use s1 Cons.prems in auto)
      then show ?thesis using o(1) s1 True False la
        by (auto simp: Let_def split: sum.splits prod.splits option.splits)
    next
      case no: False
      have "\<exists>r s'. readAhead env (Suc k) session flags sqns s = (r, s') \<and> stream_inv s' \<and> ss_ref s' = ss_ref s \<and>
          (\<forall>p. p \<notin> set sqns \<longrightarrow> slot s' p = slot s p)"
        by (rule Cons.IH) (use Cons.prems in auto)
      then show ?thesis using False no la by (auto simp: Let_def)
    qed
  qed
qed simp

section \<open>Open\<close>

definition quietStream :: "stream_ref \<Rightarrow> stream_env \<Rightarrow> bool" where
  "quietStream ref env \<longleftrightarrow> quietEnv ref (oe_request (se_open env)) \<and>
     (\<forall>k. quietEnv ref (oe_request (se_readAhead env k)))"

text \<open>No segment has as many references as the counter can hold.\<close>

definition refsBelowMax :: "server_stream \<Rightarrow> bool" where
  "refsBelowMax s \<longleftrightarrow> (\<forall>q l. slot s q = Some l \<longrightarrow> lc_referenceCount l \<noteq> - 1)"

lemma lookup_ok:
  assumes "open_lookup type value flags s = Inr (q, nflags, nvalue)"
  shows "\<exists>l. slot s q = Some l \<and> lc_location l \<noteq> None"
proof -
  from assms have "unat q < length (ss_segments s)" "ss_segments s ! unat q \<noteq> None" "lc_location (locAt q s) \<noteq> None"
    by (auto simp: open_lookup_def throwOn_def split: option.splits sum.splits if_splits prod.splits)
  then obtain l where "slot s q = Some l" "lc_location (locAt q s) \<noteq> None" by (auto simp: slot_def)
  then show ?thesis using locAt_slot by force
qed

text \<open>The three parts of \<open>open\<close>: sharing an open segment, the read ahead, and opening an idle one.\<close>

lemma open_start_parts:
  assumes inv: "stream_inv s" and quiet: "quietStream (ss_ref s) env" and max: "refsBelowMax s"
    and look: "open_lookup type value flags s = Inr (q, nflags, nvalue)"
  obtains l r1 s1 sqns ra s2 where
    "slot s q = Some l" "lc_location l \<noteq> None"
    "(if 0 < lc_referenceCount l then shareSegment session q wait s else ((False, None), s)) = (r1, s1)"
    "stream_inv s1" "ss_ref s1 = ss_ref s" "\<not> 0 < lc_referenceCount l \<longrightarrow> s1 = s"
    "\<forall>p\<in>set sqns. p = INVALID_STREAM_SEGMENT_ID \<or> slot s1 p \<noteq> None"
    "readAhead (se_readAhead env) 0 session (nflags AND NOT SafSynchronous) sqns s1 = (ra, s2)"
    "stream_inv s2" "ss_ref s2 = ss_ref s" "slot s2 q = slot s1 q"
    "open_start env session type value flags wait s =
      (case ra of Inl e \<Rightarrow> (Inl e, s2)
       | Inr _ \<Rightarrow>
          (if 0 < lc_referenceCount l then (Inr (fst r1, snd r1, q, nflags, nvalue), s2)
           else
             (case open_internal (se_open env) session q nflags False wait s2 of
                (Inl e, s3) \<Rightarrow> (Inl e, s3)
              | (Inr (completed, seg), s3) \<Rightarrow> (Inr (completed, seg, q, nflags, nvalue), s3))))"
proof -
  obtain l where l: "slot s q = Some l" "lc_location l \<noteq> None" using lookup_ok [OF look] by blast
  note la = locAt_slot [OF l(1)]
  have qv: "q \<noteq> INVALID_OBJECT_ID" using inv_valid [OF inv l(1)] by simp
  let ?handled = "0 < lc_referenceCount l"
  obtain r1 s1 where share: "(if ?handled then shareSegment session q wait s else ((False, None), s)) = (r1, s1)"
    by fastforce
  have s1: "stream_inv s1" "ss_ref s1 = ss_ref s" "\<not> ?handled \<Longrightarrow> s1 = s"
    using share share_inv [OF inv l, of session wait] max inv l
    by (auto simp: refsBelowMax_def split: if_splits)
  let ?ratype = "if isSet flags SafReverseRead then QPreviousValidSequenceNumber else QNextValidSequenceNumber"
  let ?sqns = "if isSet nflags SafSequentialScan then readAheadFrom (unat (ss_readAheadAmount s1)) ?ratype q s1 else []"
  have sqns: "\<forall>p\<in>set ?sqns. p = INVALID_STREAM_SEGMENT_ID \<or> slot s1 p \<noteq> None \<and> beyond ?ratype q p"
    using readAheadFrom_ok [OF s1(1) _ qv, of ?ratype "unat (ss_readAheadAmount s1)"] by auto
  then have notin: "q \<notin> set ?sqns" using qv by (auto simp: beyond_def)
  obtain ra s2 where ra: "readAhead (se_readAhead env) 0 session (nflags AND NOT SafSynchronous) ?sqns s1 = (ra, s2)"
    and s2: "stream_inv s2" "ss_ref s2 = ss_ref s1" "slot s2 q = slot s1 q"
    using readAhead_ok [OF s1(1), of "se_readAhead env" ?sqns 0 session "nflags AND NOT SafSynchronous"]
      quiet s1(2) sqns notin by (auto simp: quietStream_def)
  have unf: "open_start env session type value flags wait s =
      (case ra of Inl e \<Rightarrow> (Inl e, s2)
       | Inr _ \<Rightarrow>
          (if ?handled then (Inr (fst r1, snd r1, q, nflags, nvalue), s2)
           else if lc_location (locAt q s2) = None then (Inl OperationInProgressException, s2)
           else
             (case open_internal (se_open env) session q nflags False wait s2 of
                (Inl e, s3) \<Rightarrow> (Inl e, s3)
              | (Inr (completed, seg), s3) \<Rightarrow> (Inr (completed, seg, q, nflags, nvalue), s3))))"
    unfolding open_start_def look by (simp only: Let_def la share ra prod.case sum.case)
  have still: "lc_location (locAt q s2) \<noteq> None" if "\<not> ?handled"
    using that s2(3) s1(3) l locAt_slot [of s2 q l] by simp
  show thesis
  proof (rule that [OF l share s1(1,2) _ _ ra s2(1) _ s2(3)])
    show "open_start env session type value flags wait s =
      (case ra of Inl e \<Rightarrow> (Inl e, s2)
       | Inr _ \<Rightarrow>
          (if ?handled then (Inr (fst r1, snd r1, q, nflags, nvalue), s2)
           else
             (case open_internal (se_open env) session q nflags False wait s2 of
                (Inl e, s3) \<Rightarrow> (Inl e, s3)
              | (Inr (completed, seg), s3) \<Rightarrow> (Inr (completed, seg, q, nflags, nvalue), s3))))"
      using unf still by (auto split: sum.splits)
  qed (use s1 s2 sqns in auto)
qed

lemma open_idle:
  assumes "slot s2 q = Some l" and "lc_location l \<noteq> None" and "\<not> 0 < lc_referenceCount l"
  obtains loc where "idleSlot q s2 l loc"
  using assms by (auto simp: idleSlot_def word_neq_0_conv [symmetric])

lemma open_start_ok:
  assumes inv: "stream_inv s" and quiet: "quietStream (ss_ref s) env" and max: "refsBelowMax s"
  shows "\<exists>r s'. open_start env session type value flags wait s = (r, s') \<and> stream_inv s' \<and> ss_ref s' = ss_ref s"
proof (cases "open_lookup type value flags s")
  case (Inl e)
  then show ?thesis using inv by (simp add: open_start_def)
next
  case (Inr a)
  then obtain q nflags nvalue where look: "open_lookup type value flags s = Inr (q, nflags, nvalue)" by (cases a) auto
  obtain l r1 s1 sqns ra s2 where l: "slot s q = Some l" "lc_location l \<noteq> None"
    and "(if 0 < lc_referenceCount l then shareSegment session q wait s else ((False, None), s)) = (r1, s1)"
    "stream_inv s1" "ss_ref s1 = ss_ref s" and s1: "\<not> 0 < lc_referenceCount l \<longrightarrow> s1 = s"
    and "\<forall>p\<in>set sqns. p = INVALID_STREAM_SEGMENT_ID \<or> slot s1 p \<noteq> None"
    "readAhead (se_readAhead env) 0 session (nflags AND NOT SafSynchronous) sqns s1 = (ra, s2)"
    and s2: "stream_inv s2" "ss_ref s2 = ss_ref s" "slot s2 q = slot s1 q"
    and eq: "open_start env session type value flags wait s =
      (case ra of Inl e \<Rightarrow> (Inl e, s2)
       | Inr _ \<Rightarrow>
          (if 0 < lc_referenceCount l then (Inr (fst r1, snd r1, q, nflags, nvalue), s2)
           else
             (case open_internal (se_open env) session q nflags False wait s2 of
                (Inl e, s3) \<Rightarrow> (Inl e, s3)
              | (Inr (completed, seg), s3) \<Rightarrow> (Inr (completed, seg, q, nflags, nvalue), s3))))"
    by (rule open_start_parts [OF inv quiet max look, of session wait])
  show ?thesis
  proof (cases "(\<exists>e. ra = Inl e) \<or> 0 < lc_referenceCount l")
    case True
    then show ?thesis using eq s2 by (auto split: sum.splits)
  next
    case False
    then obtain loc where i: "idleSlot q s2 l loc" using open_idle s1 s2(3) l by metis
    have "quietEnv (ss_ref s2) (oe_request (se_open env))" using quiet s2(2) by (simp add: quietStream_def)
    then obtain r s3 where o: "open_internal (se_open env) session q nflags False wait s2 = (r, s3)"
      "open_to session q l s2 r s3" using open_internal_ok [OF s2(1) i] by blast
    then have "stream_inv s3" "ss_ref s3 = ss_ref s2" by (auto simp: open_to_def opened_def same_rest_def)
    then show ?thesis using eq o(1) False s2(2) by (auto split: sum.splits prod.splits)
  qed
qed

section \<open>Append and add\<close>

lemma length_addLocation:
  "length (ss_segments (addSegmentLocation l s)) = max (length (ss_segments s)) (Suc (unat (lc_sequenceNumber l)))"
  by (auto simp: addSegmentLocation_def Let_def)

lemma addLocation_simps [simp]:
  "ss_ref (addSegmentLocation l s) = ss_ref s" "ss_buffer (addSegmentLocation l s) = ss_buffer s"
  "ss_lastAppendSequenceNumber (addSegmentLocation l s) = ss_lastAppendSequenceNumber s"
  "ss_openList (addSegmentLocation l s) =
     (if 0 < lc_referenceCount l then ss_openList s @ [lc_sequenceNumber l] else ss_openList s)"
  "ss_lastSequenceNumber (addSegmentLocation l s) =
     (if ss_lastSequenceNumber s < lc_sequenceNumber l \<or> ss_lastSequenceNumber s = INVALID_STREAM_SEGMENT_ID
      then lc_sequenceNumber l else ss_lastSequenceNumber s)"
  by (simp_all add: addSegmentLocation_def Let_def)

lemma table_addLocation:
  assumes t: "table_ok s" and q: "lc_sequenceNumber l = q" "q \<noteq> INVALID_STREAM_SEGMENT_ID"
  shows "table_ok (addSegmentLocation l s)"
proof -
  have suc: "unat (p + 1) = Suc (unat p)" if "p \<noteq> INVALID_OBJECT_ID" for p
  proof -
    have "1 + p \<noteq> 0" using that by (simp add: add_eq_0_iff INVALID_OBJECT_ID_def)
    then have "unat (1 + p) = Suc (unat p)" by (rule unatSuc)
    then show ?thesis by (simp add: add.commute)
  qed
  show ?thesis
  proof (cases "ss_lastSequenceNumber s = INVALID_OBJECT_ID")
    case True
    then have "length (ss_segments s) = 0" using t by (simp add: table_ok_def INVALID_OBJECT_ID_def)
    then show ?thesis using True suc [of q] q by (simp add: table_ok_def length_addLocation)
  next
    case False
    then show ?thesis using table_length [OF t False] suc [of q] suc [OF False] q
      by (simp add: table_ok_def length_addLocation word_less_nat_alt max_def)
  qed
qed

text \<open>A new location in an empty slot.\<close>

lemma add_inv:
  assumes inv: "stream_inv s" and q: "slot s q = None" "q \<noteq> INVALID_STREAM_SEGMENT_ID"
    and l: "lc_sequenceNumber l = q" "loc_ok l"
    and h: "hold_rel (ss_ref s) ((slot s)(q \<mapsto> l)) b"
    and s': "slot s' = slot (addSegmentLocation l s)" "table_ok s' = table_ok (addSegmentLocation l s)"
      "ss_buffer s' = b" "ss_ref s' = ss_ref s" "ss_openList s' = ss_openList (addSegmentLocation l s)"
    and la: "ss_lastAppendSequenceNumber s' = ss_lastAppendSequenceNumber s \<or>
      ss_lastAppendSequenceNumber s' = q \<and> lc_location l = None \<and> lc_id l \<noteq> None"
  shows "stream_inv s'"
proof -
  have "q \<notin> set (ss_openList s)" using inv_D(7) [OF inv] q(1) by simp
  then have "removeAll q (ss_openList s) = ss_openList s" by (rule removeAll_id)
  then have ol: "ss_openList s' = (if openSlot (Some l) then
      (if openSlot (slot s q) then ss_openList s else ss_openList s @ [q]) else removeAll q (ss_openList s))"
    using s'(5) q l(1) by simp
  have "slots_ok ((slot s)(q \<mapsto> l)) (ss_openList s') (ss_lastAppendSequenceNumber s')"
  proof (rule slots_set [OF inv_D(1) [OF inv] _ ol])
    assume v: "ss_lastAppendSequenceNumber s' \<noteq> INVALID_STREAM_SEGMENT_ID"
    show "\<exists>l'. ((slot s)(q \<mapsto> l)) (ss_lastAppendSequenceNumber s') = Some l' \<and> lc_location l' = None \<and> lc_id l' \<noteq> None"
      using la
    proof
      assume e: "ss_lastAppendSequenceNumber s' = ss_lastAppendSequenceNumber s"
      then obtain l1 where l1: "slot s (ss_lastAppendSequenceNumber s) = Some l1" "lc_location l1 = None" "lc_id l1 \<noteq> None"
        using inv_D(8) [OF inv] v by auto
      then have "ss_lastAppendSequenceNumber s \<noteq> q" using q by auto
      then show ?thesis using l1 e by simp
    qed simp
  qed (use l in simp)
  then show ?thesis
    using s' h l(1) table_addLocation [OF inv_D(3) [OF inv] l(1) q(2)] by (simp add: stream_inv_def)
qed

lemma new_ok: "loc_ok (newLocation q session x)"
  by (simp add: loc_ok_def newLocation_def)

text \<open>What \<open>allocateSegment\<close> does to an empty slot.\<close>

lemma allocate_ok:
  assumes inv: "stream_inv s" and quiet: "quietEnv (ss_ref s) e" and q: "slot s q = None" "q \<noteq> INVALID_STREAM_SEGMENT_ID"
  shows "\<exists>r s'. allocateSegment e session q idx s = (r, s') \<and> stream_inv s' \<and> ss_ref s' = ss_ref s \<and>
    ss_lastAppendSequenceNumber s' = ss_lastAppendSequenceNumber s \<and>
    (case r of
       Inr (Some x) \<Rightarrow> slot s' = (slot s)(q \<mapsto> newLocation q session x) \<and>
         ss_lastSequenceNumber s' = ss_lastSequenceNumber (addSegmentLocation (newLocation q session x) s)
     | _ \<Rightarrow> slot s' = slot s \<and> ss_openList s' = ss_openList s)"
proof -
  obtain r b where r: "requestSegment e (ss_ref s) q (ss_buffer s) = (r, b)" by fastforce
  note law = hold_request [OF inv_D(2) [OF inv] quiet q(1), unfolded r prod.case]
  have same: "stream_inv (s\<lparr>ss_buffer := b\<rparr>)" if "hold_rel (ss_ref s) (slot s) b"
    using inv that by (simp add: stream_inv_def table_ok_def)
  show ?thesis
  proof (cases "\<exists>c x. r = Inr (c, Some x)")
    case False
    then have "hold_rel (ss_ref s) (slot s) b"
      using law inv_D(2) [OF inv] by (auto split: sum.splits prod.splits option.splits)
    note inv' = same [OF this]
    have "\<exists>r'. allocateSegment e session q idx s = (r', s\<lparr>ss_buffer := b\<rparr>) \<and> (\<forall>x. r' \<noteq> Inr (Some x))"
    proof (cases r)
      case (Inl ex)
      then show ?thesis using r by (simp add: allocateSegment_def)
    next
      case (Inr a)
      then obtain c where "r = Inr (c, None)" using False by (cases a; cases "snd a") auto
      then show ?thesis using r by (simp add: allocateSegment_def)
    qed
    then obtain r' where "allocateSegment e session q idx s = (r', s\<lparr>ss_buffer := b\<rparr>)" "\<forall>x. r' \<noteq> Inr (Some x)"
      by blast
    then show ?thesis using inv' by (cases r') (simp_all split: option.splits)
  next
    case True
    then obtain c x where cx: "r = Inr (c, Some x)" by blast
    let ?l = "newLocation q session x"
    let ?b = "writeStartIndex x idx b"
    have l: "lc_sequenceNumber ?l = q" "lc_location ?l = None" "lc_id ?l = Some x" by (simp_all add: newLocation_def)
    have "serverGetControlElement x b = Inr (Inr x)" using law cx by auto
    then obtain ctrl where b: "?b = b\<lparr>sv_ctrl := ctrl\<rparr>" by (auto simp: writeStartIndex_def)
    have h: "hold_rel (ss_ref s) ((slot s)(q \<mapsto> ?l)) ?b" unfolding b using law cx l by simp
    let ?s' = "addSegmentLocation ?l (s\<lparr>ss_buffer := ?b\<rparr>)"
    have "stream_inv ?s'"
      by (rule add_inv [OF inv q l(1) new_ok h])
        (use l in \<open>simp_all add: table_ok_def length_addLocation\<close>)
    moreover have "allocateSegment e session q idx s = (Inr (Some x), ?s')"
      using r cx by (simp add: allocateSegment_def Let_def)
    ultimately show ?thesis using l by simp
  qed
qed

lemma append_next_ok:
  assumes inv: "stream_inv s" and quiet: "quietEnv (ss_ref s) e"
  shows "\<exists>r s'. append_next e session s = (r, s') \<and> stream_inv s' \<and> ss_ref s' = ss_ref s"
proof (cases "ss_lastSequenceNumber s + 1 = INVALID_STREAM_SEGMENT_ID")
  case True
  then show ?thesis using inv by (simp add: append_next_def)
next
  case False
  let ?q = "ss_lastSequenceNumber s + 1"
  have free: "slot s ?q = None" using inv_D(3) [OF inv] by (simp add: slot_def table_ok_def)
  obtain r s1 where a: "allocateSegment e session ?q (ss_lastAppendIndex s) s = (r, s1)" and
    s1: "stream_inv s1" "ss_ref s1 = ss_ref s" and
    new: "case r of
       Inr (Some x) \<Rightarrow> slot s1 = (slot s)(?q \<mapsto> newLocation ?q session x) \<and>
         ss_lastSequenceNumber s1 = ss_lastSequenceNumber (addSegmentLocation (newLocation ?q session x) s)
     | _ \<Rightarrow> slot s1 = slot s \<and> ss_openList s1 = ss_openList s"
    using allocate_ok [OF inv quiet free False, of session "ss_lastAppendIndex s"] by blast
  show ?thesis
  proof (cases "\<exists>x. r = Inr (Some x)")
    case True
    then obtain x where x: "r = Inr (Some x)" by blast
    let ?s' = "s1\<lparr>ss_lastAppendSequenceNumber := ?q, ss_lastSequenceNumber := ?q\<rparr>"
    have l: "slot s1 ?q = Some (newLocation ?q session x)" using new x by simp
    have sl: "slots_ok (slot s1) (ss_openList s1) ?q"
      using inv_D(1) [OF s1(1)] l by (auto simp: slots_ok_def newLocation_def)
    have "ss_lastSequenceNumber s1 = ?q"
    proof -
      have "ss_lastSequenceNumber s < ?q \<or> ss_lastSequenceNumber s = INVALID_OBJECT_ID"
      proof (rule disjCI)
        assume "ss_lastSequenceNumber s \<noteq> INVALID_OBJECT_ID"
        then have "1 + ss_lastSequenceNumber s \<noteq> 0" by (simp add: add_eq_0_iff INVALID_OBJECT_ID_def)
        then have "unat (1 + ss_lastSequenceNumber s) = Suc (unat (ss_lastSequenceNumber s))" by (rule unatSuc)
        then show "ss_lastSequenceNumber s < ?q" by (simp add: word_less_nat_alt add.commute)
      qed
      then show ?thesis using new x by (auto simp: newLocation_def)
    qed
    then have "table_ok ?s'" using inv_D(3) [OF s1(1)] by (simp add: table_ok_def)
    moreover have "slot ?s' = slot s1" by (simp add: slot_def fun_eq_iff)
    ultimately have "stream_inv ?s'" using inv_D(2) [OF s1(1)] sl by (simp add: stream_inv_def)
    then show ?thesis using a x s1(2) False by (simp add: append_next_def Let_def)
  next
    case no: False
    then show ?thesis using a s1 False
      by (auto simp: append_next_def Let_def split: sum.splits option.splits)
  qed
qed

lemma append_ok:
  assumes inv: "stream_inv s" and quiet: "quietEnv (ss_ref s) e" and async: "asyncEnv c"
  shows "\<exists>r s'. append e c session wait s = (r, s') \<and> stream_inv s' \<and> ss_ref s' = ss_ref s"
proof -
  let ?q = "ss_lastAppendSequenceNumber s"
  obtain r s1 where s1: "append_submit c wait s = (r, s1)" "stream_inv s1" "ss_ref s1 = ss_ref s"
  proof (cases "?q = INVALID_STREAM_SEGMENT_ID")
    case True
    then show ?thesis using that inv by (simp add: append_submit_def)
  next
    case False
    then obtain l where l: "slot s ?q = Some l" "lc_id l \<noteq> None" using inv_D(8) [OF inv] by blast
    then have "0 < lc_referenceCount l" using inv_D(5) [OF inv l(1)] by (auto simp: loc_ok_def)
    moreover have "itOk None ?q s" by (simp add: itOk_def)
    ultimately obtain r s1 where "close_internal c ?q wait False None s = (r, s1)" "closed_to ?q l False None s r s1"
      using close_internal_ok [OF inv l(1) _ _ async_orderly [OF async]] by blast
    then show ?thesis using that False by (auto simp: append_submit_def closed_to_def)
  qed
  show ?thesis
  proof (cases r)
    case (Inl e)
    then show ?thesis using s1 by (simp add: append_def)
  next
    case (Inr it)
    then show ?thesis using s1 append_next_ok [OF s1(2), of e session] quiet by (auto simp: append_def)
  qed
qed

lemma addSegment_session_ok:
  assumes inv: "stream_inv s" and quiet: "quietEnv (ss_ref s) e"
  shows "\<exists>r s'. addSegment_session e session q s = (r, s') \<and> stream_inv s' \<and> ss_ref s' = ss_ref s"
proof (cases "q = INVALID_STREAM_SEGMENT_ID \<or> slot s q \<noteq> None")
  case True
  then show ?thesis using inv by (auto simp: addSegment_session_def allocated_slot)
next
  case False
  then have "slot s q = None" "q \<noteq> INVALID_STREAM_SEGMENT_ID" by simp_all
  from allocate_ok [OF inv quiet this, of session INVALID_ENTRY_INDEX] False show ?thesis
    by (auto simp: addSegment_session_def allocated_slot)
qed

lemma addSegment_stored_ok:
  assumes inv: "stream_inv s" and loc: "\<And>l. location = Some l \<Longrightarrow> ln_sequenceNumber (sl_link l) = q"
  shows "\<exists>r s'. addSegment_stored q location s = (r, s') \<and> stream_inv s' \<and> ss_ref s' = ss_ref s"
proof (cases "\<exists>sl. location = Some sl \<and> q \<noteq> INVALID_STREAM_SEGMENT_ID \<and> slot s q = None \<and> inOrder q sl s")
  case False
  then show ?thesis
    using inv addSegment_outOfOrder
    by (cases location) (auto simp: addSegment_stored_def allocated_slot)
next
  case True
  then obtain sl where sl: "location = Some sl" "q \<noteq> INVALID_STREAM_SEGMENT_ID" "slot s q = None" "inOrder q sl s"
    by blast
  let ?l = "storedLocation q (normLocation sl)"
  let ?s0 = "addSegmentLocation ?l s"
  let ?s1 = "if ss_lastAppendIndex ?s0 < treeStart QIndex (normLocation sl)
      then ?s0\<lparr>ss_lastAppendIndex := treeStart QIndex (normLocation sl)\<rparr> else ?s0"
  have "(\<exists>t\<in>set allTrees. violatesOrder t sl (fst (neighbours q s)) (snd (neighbours q s))) = False"
    using sl(4) by (simp add: inOrder_def)
  then have a: "addSegment_internal q sl s = (Inr (), indexLocation (normLocation sl) ?s1)"
    using sl(3) by (simp add: addSegment_internal_def Let_def case_prod_unfold allocated_slot)
  have l: "lc_sequenceNumber ?l = q" "loc_ok ?l"
    using loc [OF sl(1)] by (simp_all add: storedLocation_def loc_ok_def)
  have "same_rest ?s0 ?s1" by (simp add: same_rest_def)
  then have r: "same_rest ?s0 (indexLocation (normLocation sl) ?s1)" by simp
  have "stream_inv (indexLocation (normLocation sl) ?s1)"
  proof (rule add_inv [OF inv sl(3,2) l])
    show "hold_rel (ss_ref s) ((slot s)(q \<mapsto> ?l)) (ss_buffer s)"
      by (rule hold_keep [OF inv_D(2) [OF inv]])
        (use sl(3) in \<open>auto simp: storedLocation_def locHold_def stored_def\<close>)
    show "table_ok (indexLocation (normLocation sl) ?s1) = table_ok ?s0" by (rule table_ok_rest [OF r])
  qed (use r in \<open>simp_all add: same_rest_def\<close>)
  moreover have "addSegment_stored q location s = (Inr (), indexLocation (normLocation sl) ?s1)"
    using sl a by (simp add: addSegment_stored_def allocated_slot)
  moreover have "ss_ref (indexLocation (normLocation sl) ?s1) = ss_ref s" using r by (simp add: same_rest_def)
  ultimately show ?thesis by blast
qed

end
