(* ===== verification/Stream_Waits.thy ===== *)
theory Stream_Waits
  imports Stream_Steps
begin

text \<open>
  The completions as the encoders call them, and the wait contexts: the counter of a context
  is the number of its entries in the wait lists of the segments in progress.
\<close>

section \<open>Counting waiters\<close>

definition waitLists :: "server_stream \<Rightarrow> nat list list" where
  "waitLists s = map (\<lambda>v. case v of None \<Rightarrow> [] | Some l \<Rightarrow> lc_waitList l) (ss_segments s)"

definition pending :: "server_stream \<Rightarrow> nat \<Rightarrow> nat" where
  "pending s w = count_list (concat (waitLists s)) w"

text \<open>What a context counts beyond its entries in the wait lists.\<close>

definition debt :: "server_stream \<Rightarrow> nat \<Rightarrow> u32" where
  "debt s w = wc_count (ss_waits s w) - of_nat (pending s w)"

text \<open>A part of an operation that neither waits nor wakes.\<close>

definition waitSlots :: "server_stream \<Rightarrow> nat list option list" where
  "waitSlots s = map (map_option lc_waitList) (ss_segments s)"

lemma waitLists_slots: "waitLists s = map (case_option [] id) (waitSlots s)"
  by (simp add: waitLists_def waitSlots_def comp_def option.case_eq_if option.map_sel)

definition wframe :: "server_stream \<Rightarrow> server_stream \<Rightarrow> bool" where
  "wframe s s' \<longleftrightarrow> same_rest s s' \<and> waitSlots s' = waitSlots s \<and>
     (\<forall>w. wc_count (ss_waits s' w) = wc_count (ss_waits s w))"

lemma wframe_refl [simp]: "wframe s s"
  by (simp add: wframe_def)

lemma wframe_trans: "wframe s s1 \<Longrightarrow> wframe s1 s2 \<Longrightarrow> wframe s s2"
  using same_rest_trans by (auto simp: wframe_def)

lemma wframe_debt: "wframe s s' \<Longrightarrow> debt s' = debt s"
  by (simp add: wframe_def debt_def pending_def waitLists_slots fun_eq_iff)

lemma wframe_slot:
  assumes "wframe s s'" and "slot s q = Some l"
  shows "\<exists>l'. slot s' q = Some l' \<and> lc_waitList l' = lc_waitList l"
proof -
  have q: "unat q < length (ss_segments s)" "ss_segments s ! unat q = Some l"
    using assms(2) by (simp_all add: slot_def split: if_splits)
  have len: "length (ss_segments s') = length (ss_segments s)" using assms(1) by (simp add: wframe_def same_rest_def)
  have "waitSlots s' ! unat q = waitSlots s ! unat q" using assms(1) by (simp add: wframe_def)
  then show ?thesis using q len by (auto simp: waitSlots_def slot_def)
qed

lemma waitSlots_upd:
  "(\<And>l. lc_waitList (f l) = lc_waitList l) \<Longrightarrow> waitSlots (updLoc q f s) = waitSlots s"
proof -
  assume "\<And>l. lc_waitList (f l) = lc_waitList l"
  then have "map_option lc_waitList (map_option f v) = map_option lc_waitList v" for v by (cases v) simp_all
  then show ?thesis
    by (cases "unat q < length (ss_segments s)")
      (simp_all add: waitSlots_def updLoc_def map_update list_update_same_conv list_update_beyond)
qed

lemma wframe_updLoc [simp]:
  "(\<And>l. lc_waitList (f l) = lc_waitList l) \<Longrightarrow> wframe s (updLoc q f s') = wframe s s'"
  using waitSlots_upd [of f q s'] by (simp add: wframe_def)

lemma wframe_simps [simp]:
  "wframe s (s'\<lparr>ss_buffer := b\<rparr>) = wframe s s'" "wframe s (s'\<lparr>ss_notified := n\<rparr>) = wframe s s'"
  "wframe s (s'\<lparr>ss_openList := ol\<rparr>) = wframe s s'" "wframe s (s'\<lparr>ss_trees := t\<rparr>) = wframe s s'"
  "wframe s (s'\<lparr>ss_stats := st\<rparr>) = wframe s s'" "wframe s (removeOpen q it s') = wframe s s'"
  by (simp_all add: wframe_def same_rest_def waitSlots_def removeOpen_def)

lemma wframe_pushError [simp]: "wframe s (updWait v (wc_pushError e) s') = wframe s s'"
  by (auto simp: wframe_def waitSlots_def updWait_def same_rest_def wc_pushError_def split: option.splits)

lemma wframe_errors: "wframe s (fold (\<lambda>w. updWait (Some w) (wc_pushError e)) ws s') = wframe s s'"
  by (induction ws arbitrary: s') simp_all

lemma wframe_index [simp]: "wframe s (indexLocation l s') = wframe s s'"
proof -
  have one: "wframe s (indexTree l t s') = wframe s s'" for t s'
    by (simp add: indexTree_def Let_def wframe_def same_rest_def waitSlots_def)
  have "wframe s (fold (indexTree l) ts s') = wframe s s'" for ts
    by (induction ts arbitrary: s') (simp_all add: one)
  then show ?thesis by (simp add: indexLocation_def Let_def)
qed

lemma purgeId_frame: "wframe s (snd (purgeId i s))"
  by (simp add: purgeId_def split: option.splits prod.splits)

lemma freeId_frame: "wframe s (snd (freeId i p s))"
  by (simp add: freeId_def split: option.splits prod.splits)

lemma completeRead_frame: "completeRead q given success s = (r, s') \<Longrightarrow> wframe s s'"
  by (auto simp: completeRead_def Let_def purgeId_def freeId_def dropReferences_def
      split: if_splits sum.splits prod.splits option.splits)

lemma addSegment_frame: "slot s q \<noteq> None \<Longrightarrow> addSegment_internal q l s = (r, s') \<Longrightarrow> wframe s s'"
  by (auto simp: addSegment_internal_def Let_def allocated_slot split: if_splits prod.splits)

lemma completeWrite_frame:
  assumes q: "slot s q \<noteq> None" and c: "completeWrite q location success sync s = (r, s')"
  shows "wframe s s'"
proof -
  obtain r1 s1 where s1: "(case location of
               Some l \<Rightarrow>
                 (case addSegment_internal q l s of
                    (Inl e, s') \<Rightarrow> (Inl e, s')
                  | (Inr _, s') \<Rightarrow> if \<not> sync then freeId (lc_sideId (locAt q s)) False s' else (Inr (), s'))
             | None \<Rightarrow> if \<not> sync \<or> \<not> success then purgeId (lc_sideId (locAt q s)) s else (Inr (), s)) = (r1, s1)"
    by fastforce
  have "wframe s s1"
  proof (cases location)
    case None
    then show ?thesis using s1 purgeId_frame [of s "lc_sideId (locAt q s)"] by (auto split: if_splits)
  next
    case (Some l)
    obtain r2 s2 where s2: "addSegment_internal q l s = (r2, s2)" by fastforce
    have f: "wframe s s2" by (rule addSegment_frame [OF q s2])
    then show ?thesis using s1 Some s2 wframe_trans [OF f freeId_frame [of s2 "lc_sideId (locAt q s)" False]]
      by (auto split: sum.splits if_splits)
  qed
  then show ?thesis using c unfolding completeWrite_def Let_def s1
    by (auto simp: dropReferences_def split: sum.splits if_splits)
qed

section \<open>The waiters of a completion\<close>

lemma waitLists_set:
  assumes "slot s q = Some l"
  shows "waitLists (updLoc q f s) = (waitLists s)[unat q := lc_waitList (f l)]"
    and "unat q < length (waitLists s)" "waitLists s ! unat q = lc_waitList l"
  using assms by (auto simp: waitLists_def updLoc_def slot_def map_update split: if_splits)

lemma count_concat_update:
  "i < length xss \<Longrightarrow> count_list (concat (xss[i := ys])) w + count_list (xss ! i) w =
     count_list (concat xss) w + count_list ys w"
proof (induction xss arbitrary: i)
  case (Cons xs xss)
  then show ?case by (cases i) (simp_all add: count_list_append add.assoc add.left_commute)
qed simp

text \<open>Changing one wait list changes the debt of the contexts by the difference.\<close>

lemma debt_set:
  assumes "slot s q = Some l" and "length (ss_segments s') = length (ss_segments s)"
    and "waitLists s' = (waitLists s)[unat q := ys]"
  shows "debt s' w = debt s w + (wc_count (ss_waits s' w) - wc_count (ss_waits s w)) +
    of_nat (count_list (lc_waitList l) w) - of_nat (count_list ys w)"
proof -
  have "pending s' w + count_list (lc_waitList l) w = pending s w + count_list ys w"
    using count_concat_update [of "unat q" "waitLists s" ys w] waitLists_set [OF assms(1)] assms(3)
    by (simp add: pending_def)
  then have "of_nat (pending s' w) + of_nat (count_list (lc_waitList l) w) =
      (of_nat (pending s w) + of_nat (count_list ys w) :: u32)"
    unfolding of_nat_add [symmetric] by (rule arg_cong)
  then have "(of_nat (pending s' w) :: u32) = of_nat (pending s w) + of_nat (count_list ys w) -
      of_nat (count_list (lc_waitList l) w)" by (simp add: eq_diff_eq)
  then show ?thesis by (simp add: debt_def)
qed

lemma debt_enlist:
  assumes q: "slot s q \<noteq> None"
  shows "debt (enlist wait q s) = debt s"
proof (cases wait)
  case (Some x)
  obtain l where l: "slot s q = Some l" using q by blast
  let ?s = "updWait wait wc_increment s"
  have wl: "waitLists ?s = waitLists s" by (simp add: waitLists_def)
  have e: "enlist wait q s = updLoc q (\<lambda>l. l\<lparr>lc_waitList := lc_waitList l @ [x]\<rparr>) ?s"
    using Some by (simp add: enlist_def)
  have "waitLists (enlist wait q s) = (waitLists s)[unat q := lc_waitList l @ [x]]"
    unfolding e using waitLists_set(1) [of ?s q l] l wl by simp
  then have "debt (enlist wait q s) w = debt s w" for w
    using debt_set [OF l, of "enlist wait q s" "lc_waitList l @ [x]" w]
    unfolding e by (simp add: Some updWait_def wc_increment_def count_list_append)
  then show ?thesis by blast
qed (simp add: enlist_def)

lemma takeWaiters_debt:
  assumes t: "takeWaiters q success s = (ws, s')" and q: "slot s q = Some l"
  shows "ws = lc_waitList l" and "debt s' w = debt s w + of_nat (count_list ws w)"
    and "\<And>v. wc_count (ss_waits s' v) = wc_count (ss_waits s v)" "same_rest s s'"
proof -
  let ?s1 = "updLoc q (\<lambda>l. l\<lparr>lc_waitList := []\<rparr>) s"
  show ws: "ws = lc_waitList l" using t locAt_slot [OF q] by (simp add: takeWaiters_def Let_def)
  have f: "wframe ?s1 s'" using t by (auto simp: takeWaiters_def Let_def wframe_errors split: if_splits)
  have wl: "waitLists ?s1 = (waitLists s)[unat q := []]" using waitLists_set(1) [OF q] by simp
  have "debt s' w = debt ?s1 w" using wframe_debt [OF f] by simp
  also have "\<dots> = debt s w + of_nat (count_list ws w)"
    using debt_set [OF q _ wl] ws by simp
  finally show "debt s' w = debt s w + of_nat (count_list ws w)" .
  show "wc_count (ss_waits s' v) = wc_count (ss_waits s v)" for v using f by (simp add: wframe_def)
  have "same_rest s ?s1" by simp
  from same_rest_trans [OF this] show "same_rest s s'" using f by (simp add: wframe_def)
qed

lemma debt_kill:
  assumes q: "slot s q = Some l" and "lc_waitList l = []"
  shows "debt (s\<lparr>ss_segments := (ss_segments s)[unat q := None]\<rparr>) = debt s"
proof
  fix w
  let ?s = "s\<lparr>ss_segments := (ss_segments s)[unat q := None]\<rparr>"
  have "waitLists ?s = (waitLists s)[unat q := []]" by (simp add: waitLists_def map_update)
  from debt_set [OF q _ this, of w] assms(2) show "debt ?s w = debt s w" by simp
qed

lemma wakes:
  "wc_count (ss_waits (fold (\<lambda>w. updWait (Some w) wc_decrement) ws s) w) =
     wc_count (ss_waits s w) - of_nat (count_list ws w)"
  "waitLists (fold (\<lambda>w. updWait (Some w) wc_decrement) ws s) = waitLists s"
proof -
  show "waitLists (fold (\<lambda>w. updWait (Some w) wc_decrement) ws s) = waitLists s"
    by (induction ws arbitrary: s) (simp_all add: waitLists_def)
  show "wc_count (ss_waits (fold (\<lambda>w. updWait (Some w) wc_decrement) ws s) w) =
     wc_count (ss_waits s w) - of_nat (count_list ws w)"
    by (induction ws arbitrary: s) (auto simp: updWait_def wc_decrement_def algebra_simps)
qed

lemma wakes_debt:
  "debt (fold (\<lambda>w. updWait (Some w) wc_decrement) ws s) w = debt s w - of_nat (count_list ws w)"
  by (simp add: debt_def pending_def wakes)

text \<open>
  \<open>_completeSegment\<close> hands the waiters out; a caller that does not take them completes a
  segment without waiters.
\<close>

lemma core_debt:
  assumes q: "slot s q = Some l" and w: "waiters \<or> lc_waitList l = []"
    and c: "completeSegment_core q location waiters it success sync s = (r, s')"
  shows "same_rest s s'" and "debt s' w = debt s w + (case r of Inl _ \<Rightarrow> 0 | Inr ws \<Rightarrow> of_nat (count_list ws w))"
    and "r = Inr ws \<Longrightarrow> waiters \<Longrightarrow> ws = lc_waitList l"
    and "wc_count (ss_waits s' v) = wc_count (ss_waits s v)"
proof -
  obtain r1 s1 where s1: "(if lc_location (locAt q s) \<noteq> None
         then (case completeRead q (location \<noteq> None) success s of
                 (Inl e, s') \<Rightarrow> (Inl e, s')
               | (Inr remove, s') \<Rightarrow> (Inr (remove, True), s'))
         else (case completeWrite q location success sync s of
                 (Inl e, s') \<Rightarrow> (Inl e, s')
               | (Inr alive, s') \<Rightarrow> (Inr (True, alive), s'))) = (r1, s1)" by fastforce
  have f: "wframe s s1"
    using s1 completeRead_frame [of q "location \<noteq> None" success s] completeWrite_frame [of s q location success sync] q
    by (auto split: if_splits prod.splits sum.splits)
  have all: "same_rest s s' \<and> debt s' w = debt s w + (case r of Inl _ \<Rightarrow> 0 | Inr ws \<Rightarrow> of_nat (count_list ws w)) \<and>
      (\<forall>ws. r = Inr ws \<longrightarrow> waiters \<longrightarrow> ws = lc_waitList l) \<and> wc_count (ss_waits s' v) = wc_count (ss_waits s v)"
  proof (cases r1)
    case (Inl e)
    then have "r = Inl e" "s' = s1" using c unfolding completeSegment_core_def s1 by simp_all
    then show ?thesis using f wframe_debt [OF f] by (simp add: wframe_def)
  next
    case (Inr a)
    then obtain remove alive where r1: "r1 = Inr (remove, alive)" by (cases a) auto
    obtain l1 where l1: "slot s1 q = Some l1" "lc_waitList l1 = lc_waitList l"
      using wframe_slot [OF f q] by blast
    obtain ws s2 where s2: "(if waiters then takeWaiters q success s1 else ([], s1)) = (ws, s2)" by fastforce
    have t: "same_rest s1 s2" "debt s2 w = debt s1 w + of_nat (count_list ws w)" "waiters \<longrightarrow> ws = lc_waitList l"
      "wc_count (ss_waits s2 v) = wc_count (ss_waits s1 v)"
      using s2 takeWaiters_debt [of q success s1 ws s2, OF _ l1(1)] l1(2) by (auto split: if_splits)
    have "wframe s2 (if remove then removeOpen q it s2 else s2)" by simp
    moreover define s3 where "s3 = (if remove then removeOpen q it s2 else s2)"
    ultimately have s3: "wframe s2 s3" by simp
    obtain l2 where l2: "slot s2 q = Some l2" "lc_waitList l2 = []"
      using s2 l1 w takeWaiters_simps(1) [of q success s1 ws s2] by (auto split: if_splits)
    obtain l3 where l3: "slot s3 q = Some l3" "lc_waitList l3 = []" using wframe_slot [OF s3 l2(1)] l2(2) by auto
    let ?s4 = "if \<not> alive then s3\<lparr>ss_segments := (ss_segments s3)[unat q := None]\<rparr> else s3"
    have c': "r = Inr ws" "s' = ?s4"
      using c unfolding completeSegment_core_def s1 Let_def r1 s2 sum.case prod.case s3_def by simp_all
    have "debt ?s4 w = debt s3 w" using debt_kill [OF l3] by simp
    moreover have "debt s3 w = debt s2 w" "debt s1 w = debt s w" using wframe_debt s3 f by auto
    ultimately have "debt s' w = debt s w + of_nat (count_list ws w)" using t(2) c'(2) by simp
    moreover have "same_rest s1 ?s4" "wc_count (ss_waits ?s4 v) = wc_count (ss_waits s2 v)"
      using s3 t(1) same_rest_trans [OF t(1), of s3] by (auto simp: wframe_def)
    ultimately show ?thesis
      using f c' t(3,4) same_rest_trans [of s s1 ?s4] by (simp add: wframe_def)
  qed
  show "same_rest s s'" "debt s' w = debt s w + (case r of Inl _ \<Rightarrow> 0 | Inr ws \<Rightarrow> of_nat (count_list ws w))"
    "r = Inr ws \<Longrightarrow> waiters \<Longrightarrow> ws = lc_waitList l" "wc_count (ss_waits s' v) = wc_count (ss_waits s v)"
    using all by blast+
qed

lemma core_alive:
  assumes q: "slot s q = Some l" and loc: "lc_location l \<noteq> None"
    and c: "completeSegment_core q location waiters it success sync s = (r, s')"
  shows "\<exists>l'. slot s' q = Some l'"
proof -
  obtain r1 s1 where s1: "completeRead q (location \<noteq> None) success s = (r1, s1)" by fastforce
  obtain l1 where l1: "slot s1 q = Some l1" using wframe_slot [OF completeRead_frame [OF s1] q] by blast
  show ?thesis
  proof (cases r1)
    case (Inl e)
    then show ?thesis using c l1 s1 loc locAt_slot [OF q] by (simp add: completeSegment_core_def)
  next
    case (Inr remove)
    obtain ws s2 where s2: "(if waiters then takeWaiters q success s1 else ([], s1)) = (ws, s2)" by fastforce
    then have "\<exists>l2. slot s2 q = Some l2"
      using l1 takeWaiters_simps(1) [of q success s1 ws s2] by (auto split: if_splits)
    then show ?thesis
      using c s1 Inr s2 loc locAt_slot [OF q] by (auto simp: completeSegment_core_def Let_def split: if_splits)
  qed
qed

section \<open>The completions\<close>

lemma async_debt:
  assumes q: "slot s q = Some l" and c: "completeSegment_async q location success s = (r, s')"
  shows "debt s' = debt s" "same_rest s s'"
    and "r = Inr () \<Longrightarrow> wc_count (ss_waits s' w) = wc_count (ss_waits s w) - of_nat (count_list (lc_waitList l) w)"
proof -
  obtain r1 s1 where s1: "completeSegment_core q location True None success False s = (r1, s1)" by fastforce
  note d = core_debt [OF q _ s1]
  show "debt s' = debt s"
    using c s1 d(2) by (cases r1) (auto simp: completeSegment_async_def wakes_debt)
  show "same_rest s s'" using c s1 d(1) by (cases r1) (auto simp: completeSegment_async_def)
  show "wc_count (ss_waits s' w) = wc_count (ss_waits s w) - of_nat (count_list (lc_waitList l) w)" if "r = Inr ()"
    using c s1 d(3,4) that by (cases r1) (auto simp: completeSegment_async_def wakes)
qed

lemma completeSegment_debt: "debt (snd (completeSegment q s)) = debt s"
proof (cases "slot s q")
  case (Some l)
  obtain r s' where c: "completeSegment_async q (lc_location (locAt q s)) True s = (r, s')" by fastforce
  then show ?thesis using async_debt(1) [OF Some c] Some by (simp add: completeSegment_def allocated_slot)
qed (simp add: completeSegment_def allocated_slot)

lemma completeSegment_location_debt: "debt (snd (completeSegment_location q location s)) = debt s"
proof (cases "slot s q")
  case (Some l)
  obtain r s' where c: "completeSegment_async q location (location \<noteq> None) s = (r, s')" by fastforce
  then show ?thesis using async_debt(1) [OF Some c] Some by (simp add: completeSegment_location_def allocated_slot)
qed (simp add: completeSegment_location_def allocated_slot)

text \<open>A finished load: the segment is active, or idle if it was canceled, and nobody waits for it.\<close>

lemma completeSegment_ok:
  assumes inv: "stream_inv s" and p: "inProgress s q x l" and loc: "lc_location l \<noteq> None"
  shows "\<exists>s'. completeSegment q s = (Inr (), s') \<and> stream_inv s' \<and> ss_ref s' = ss_ref s \<and>
    slot s' = (slot s)(q \<mapsto> (if lc_cancel l then idled (lc_prefetched l) [] l
      else l\<lparr>lc_id := Some x, lc_sideId := None, lc_cancel := False, lc_waitList := []\<rparr>)) \<and>
    (\<forall>w. wc_count (ss_waits s' w) = wc_count (ss_waits s w) - of_nat (count_list (lc_waitList l) w))"
proof -
  have q: "slot s q = Some l" using p by (simp add: inProgress_def)
  obtain ws s' where s': "completeSegment_core q (lc_location l) True None True False s = (Inr ws, s')" "stream_inv s'"
    "slot s' = (slot s)(q \<mapsto> (if lc_cancel l then idled (lc_prefetched l) [] l
      else l\<lparr>lc_id := Some x, lc_sideId := None, lc_cancel := False, lc_waitList := []\<rparr>))"
    using load_completed [OF inv p loc] by blast
  let ?s' = "fold (\<lambda>w. updWait (Some w) wc_decrement) ws s'"
  have c: "completeSegment_async q (lc_location l) True s = (Inr (), ?s')"
    using s'(1) by (simp add: completeSegment_async_def)
  then have "completeSegment q s = (Inr (), ?s')"
    using q locAt_slot [OF q] by (simp add: completeSegment_def allocated_slot)
  moreover have "ss_ref ?s' = ss_ref s" using async_debt(2) [OF q c] by (simp add: same_rest_def)
  ultimately show ?thesis using s'(2,3) inv_waits [OF s'(2)] async_debt(3) [OF q c refl] by simp
qed

text \<open>
  The end of an asynchronous write. A rejected location leaves the segment in progress; a
  location for a segment that is being loaded is an invalid operation, and so is no location.
\<close>

lemma completeSegment_location_ok:
  assumes inv: "stream_inv s" and p: "inProgress s q x l"
    and link: "\<And>sloc. location = Some sloc \<Longrightarrow> ln_sequenceNumber (sl_link sloc) = q"
  shows "\<exists>r s'. completeSegment_location q location s = (r, s') \<and> stream_inv s' \<and> ss_ref s' = ss_ref s \<and>
    (if lc_location l \<noteq> None then r = Inl InvalidOperationException \<and> s' = s
     else if \<exists>sloc. location = Some sloc \<and> \<not> inOrder q sloc s then r = Inl GenericException \<and> s' = s
     else r = Inr () \<and>
       slot s' = (slot s)(q := map_option (\<lambda>sloc. idled False [] (l\<lparr>lc_location := Some (normLocation sloc)\<rparr>)) location) \<and>
       (\<forall>w. wc_count (ss_waits s' w) = wc_count (ss_waits s w) - of_nat (count_list (lc_waitList l) w)))"
proof -
  have q: "slot s q = Some l" using p by (simp add: inProgress_def)
  note la = locAt_slot [OF q]
  consider (load) "lc_location l \<noteq> None"
    | (late) sloc where "lc_location l = None" "location = Some sloc" "\<not> inOrder q sloc s"
    | (written) "lc_location l = None" "\<forall>sloc. location = Some sloc \<longrightarrow> inOrder q sloc s" by blast
  then show ?thesis
  proof cases
    case load
    then show ?thesis using q la inv by (simp add: completeSegment_location_def)
  next
    case late
    then show ?thesis
      using q la inv written_rejected [OF inv p late(1,3)]
      by (simp add: completeSegment_location_def completeSegment_async_def allocated_slot)
  next
    case written
    let ?v = "map_option (\<lambda>sloc. idled False [] (l\<lparr>lc_location := Some (normLocation sloc)\<rparr>)) location"
    have "\<exists>ws s'. completeSegment_core q location True None (location \<noteq> None) False s = (Inr ws, s') \<and> stream_inv s' \<and>
        slot s' = (slot s)(q := ?v)"
      using written_dropped [OF inv p written(1)] written_stored [OF inv p written(1)] written(2) link
      by (cases location) simp_all
    then obtain ws s' where s': "completeSegment_core q location True None (location \<noteq> None) False s = (Inr ws, s')"
      "stream_inv s'" "slot s' = (slot s)(q := ?v)" by blast
    let ?s' = "fold (\<lambda>w. updWait (Some w) wc_decrement) ws s'"
    have c: "completeSegment_async q location (location \<noteq> None) s = (Inr (), ?s')"
      using s'(1) by (simp add: completeSegment_async_def)
    then have "completeSegment_location q location s = (Inr (), ?s')"
      using q la written(1) by (simp add: completeSegment_location_def allocated_slot)
    moreover have "ss_ref ?s' = ss_ref s" using async_debt(2) [OF q c] by (simp add: same_rest_def)
    moreover have "\<not> (\<exists>sloc. location = Some sloc \<and> \<not> inOrder q sloc s)" using written(2) by blast
    ultimately show ?thesis
      using s'(2,3) inv_waits [OF s'(2)] async_debt(3) [OF q c refl] written(1) by simp
  qed
qed

section \<open>The other operations\<close>

lemma idle_waits: "stream_inv s \<Longrightarrow> slot s q = Some l \<Longrightarrow> lc_sideId l = None \<Longrightarrow> lc_waitList l = []"
  using inv_D(5) by (auto simp: loc_ok_def)

lemma appended_debt [simp]: "debt (appended q n s) = debt s"
  by (simp add: appended_def debt_def pending_def waitLists_def fun_eq_iff)

lemma debt_frame [simp]:
  "debt (s\<lparr>ss_buffer := b\<rparr>) = debt s" "debt (s\<lparr>ss_openList := ol\<rparr>) = debt s"
  "debt (s\<lparr>ss_lastAppendSequenceNumber := q\<rparr>) = debt s" "debt (s\<lparr>ss_lastSequenceNumber := q\<rparr>) = debt s"
  "debt (s\<lparr>ss_lastAppendIndex := i\<rparr>) = debt s" "debt (updWait v (wc_pushError e) s) = debt s"
  "(\<And>l. lc_waitList (f l) = lc_waitList l) \<Longrightarrow> debt (updLoc q f s) = debt s"
  "debt (indexLocation l s) = debt s"
proof -
  show "debt (updWait v (wc_pushError e) s) = debt s" by (rule wframe_debt) simp
  show "(\<And>l. lc_waitList (f l) = lc_waitList l) \<Longrightarrow> debt (updLoc q f s) = debt s" by (rule wframe_debt) simp
  show "debt (indexLocation l s) = debt s" by (rule wframe_debt) simp
qed (simp_all add: debt_def pending_def waitLists_def fun_eq_iff)

lemma close_debt:
  assumes inv: "stream_inv s" and q: "slot s q = Some l"
  shows "debt (snd (close_internal env q wait ignoreErrors it s)) = debt s"
proof (cases "lc_id l")
  case None
  then show ?thesis using q locAt_slot [OF q] debt_enlist [of s q wait] by (simp add: close_internal_def)
next
  case (Some i)
  then have w: "lc_waitList l = []" using inv_D(5) [OF inv q] by (auto simp: loc_ok_def)
  obtain r b where sub: "submitSegment i (cl_now env) (cl_write env) (ss_buffer s) = (r, b)" by fastforce
  let ?s1 = "s\<lparr>ss_buffer := b\<rparr>"
  let ?s2 = "updLoc q (\<lambda>l. l\<lparr>lc_sideId := lc_id l, lc_id := None\<rparr>) ?s1"
  have q2: "slot ?s2 q = Some (l\<lparr>lc_sideId := lc_id l, lc_id := None\<rparr>)" using q by simp
  have complete: "debt (snd (close_complete q location success it ?s2)) = debt s" for location success
  proof -
    obtain r3 s3 where c: "completeSegment_core q location False it success True ?s2 = (r3, s3)" by fastforce
    have "debt s3 w' = debt s w' + (case r3 of Inl _ \<Rightarrow> 0 | Inr ws \<Rightarrow> of_nat (count_list ws w'))" for w'
      using core_debt(2) [OF q2 _ c, of w'] w by simp
    moreover have "ws = []" if "r3 = Inr ws" for ws
      using c that by (auto simp: completeSegment_core_def Let_def split: if_splits sum.splits prod.splits)
    ultimately have "debt s3 = debt s" by (cases r3) (auto simp: fun_eq_iff)
    then show ?thesis using c by (simp add: close_complete_def split: sum.splits)
  qed
  have "slot ?s2 q \<noteq> None" using q by simp
  from debt_enlist [OF this, of wait]
  have pend: "debt (snd (close_pending q i wait it ?s2)) = debt s"
    by (simp add: close_pending_def Let_def split: sum.splits)
  show ?thesis
    using Some locAt_slot [OF q] sub complete pend
    by (simp add: close_internal_def submitId_def Let_def split: sum.splits prod.splits)
qed

lemma openTail_debt:
  assumes q: "slot s3 q = Some l3" and w: "complete \<Longrightarrow> lc_waitList l3 = []"
  shows "debt (snd (openTail complete session q wait s3)) = debt s3"
proof (cases complete)
  case True
  let ?s6 = "(\<lambda>s5. s5\<lparr>ss_openList := ss_openList s5 @ [q]\<rparr>)
    (updLoc q (\<lambda>l. l\<lparr>lc_referenceCount := lc_referenceCount l + 1,
       lc_referenceMap := bump session (lc_referenceMap l)\<rparr>) s3)"
  obtain l6 where l6: "slot ?s6 q = Some l6" "lc_waitList l6 = []" using q w True by simp
  obtain r7 s7 where c: "completeSegment_core q (lc_location (locAt q ?s6)) False None True True ?s6 = (r7, s7)"
    by fastforce
  have "ws = []" if "r7 = Inr ws" for ws
    using c that by (auto simp: completeSegment_core_def Let_def split: if_splits sum.splits prod.splits)
  then have "debt s7 = debt ?s6"
    using core_debt(2) [OF l6(1) _ c] l6(2) by (cases r7) (auto simp: fun_eq_iff)
  then show ?thesis using c True by (simp add: openTail_def Let_def split: sum.splits)
next
  case False
  then show ?thesis using q debt_enlist [of s3 q wait] by (simp add: openTail_def Let_def)
qed

lemma open_debt:
  assumes inv: "stream_inv s" and i: "idleSlot q s l loc"
  shows "debt (snd (open_internal env session q flags p wait s)) = debt s"
proof -
  note d = idleSlot_D [OF inv i]
  obtain r b where o: "openSegment (oe_request env) (ss_ref s) flags loc p (oe_read env) (ss_buffer s) = (r, b)"
    by fastforce
  note parts = open_internal_parts [OF d(1,2) o, of session wait]
  let ?s1 = "updLoc q (\<lambda>l. l\<lparr>lc_prefetched := p, lc_cancel := p\<rparr>) s\<lparr>ss_buffer := b\<rparr>"
  show ?thesis
  proof (cases r)
    case (Inl e)
    then show ?thesis using parts by (simp add: Let_def)
  next
    case (Inr a)
    then obtain complete side where r: "r = Inr (complete, side)" by (cases a) auto
    let ?s2 = "updLoc q (\<lambda>l. l\<lparr>lc_sideId := side\<rparr>) ?s1"
    let ?s3 = "openLoad env complete q ?s2"
    have s3: "debt ?s3 = debt s" by (simp add: openLoad_def completeSegment_debt)
    have l2: "slot ?s2 q = Some (l\<lparr>lc_prefetched := p, lc_cancel := p, lc_sideId := side\<rparr>)" using d(1) by simp
    have tail: "debt (snd (openTail complete session q wait ?s3)) = debt s"
    proof (cases "complete \<or> \<not> oe_early env")
      case True
      then have same: "?s3 = ?s2" by (auto simp: openLoad_def)
      have "debt (snd (openTail complete session q wait ?s2)) = debt ?s2"
        by (rule openTail_debt [OF l2]) (simp add: d(6))
      then show ?thesis using s3 unfolding same by simp
    next
      case False
      obtain r4 s4 where c: "completeSegment_core q (lc_location (locAt q ?s2)) True None True False ?s2 = (r4, s4)"
        by fastforce
      have "\<exists>l4. slot s4 q = Some l4" by (rule core_alive [OF l2 _ c]) (simp add: d(2))
      then have "\<exists>l3. slot ?s3 q = Some l3"
        using False c l2
        by (cases r4) (auto simp: openLoad_def completeSegment_def completeSegment_async_def allocated_slot)
      then show ?thesis using openTail_debt [of ?s3 q _ complete session wait] False s3 by auto
    qed
    show ?thesis using parts r tail s3 by (simp add: Let_def openFail_def)
  qed
qed

lemma share_debt:
  assumes "slot s q \<noteq> None"
  shows "debt (snd (shareSegment session q wait s)) = debt s"
proof -
  define s2 where "s2 = updLoc q (\<lambda>l. l\<lparr>lc_referenceMap := bump session (lc_referenceMap l), lc_cancel := False\<rparr>)
      (updLoc q (\<lambda>l. if \<not> lc_prefetched l then l\<lparr>lc_referenceCount := lc_referenceCount l + 1\<rparr>
                               else l\<lparr>lc_referenceMap := Map.empty, lc_prefetched := False\<rparr>) s)"
  have "debt s2 = debt s" "slot s2 q \<noteq> None" using assms by (simp_all add: s2_def)
  moreover have "snd (shareSegment session q wait s) = s2 \<or> snd (shareSegment session q wait s) = enlist wait q s2"
    by (simp add: shareSegment_def Let_def s2_def split: option.splits)
  ultimately show ?thesis using debt_enlist [of s2 q wait] by auto
qed

lemma readAhead_debt:
  assumes "stream_inv s" and "\<And>k. quietEnv (ss_ref s) (oe_request (env k))"
    and "\<forall>p\<in>set sqns. p = INVALID_STREAM_SEGMENT_ID \<or> slot s p \<noteq> None"
  shows "debt (snd (readAhead env k session flags sqns s)) = debt s"
  using assms
proof (induction sqns arbitrary: k s)
  case (Cons q sqns)
  show ?case
  proof (cases "q = INVALID_STREAM_SEGMENT_ID")
    case False
    then obtain l where l: "slot s q = Some l" using Cons.prems(3) by auto
    note la = locAt_slot [OF l]
    show ?thesis
    proof (cases "lc_location l \<noteq> None \<and> lc_referenceCount l = 0 \<and> \<not> lc_prefetched l")
      case True
      then obtain loc where i: "idleSlot q s l loc" using l by (auto simp: idleSlot_def)
      obtain r s1 where o: "open_internal (env k) session q flags True None s = (r, s1)" "open_to session q l s r s1"
        using open_internal_ok [OF Cons.prems(1) i Cons.prems(2)] by blast
      then obtain l1 where s1: "stream_inv s1" "ss_ref s1 = ss_ref s" "slot s1 = (slot s)(q \<mapsto> l1)"
        by (auto simp: open_to_def opened_def same_rest_def)
      have "debt s1 = debt s" using open_debt [OF Cons.prems(1) i, of "env k" session flags True None] o(1) by simp
      moreover have "debt (snd (readAhead env (Suc k) session flags sqns s1)) = debt s1"
        by (rule Cons.IH) (use s1 Cons.prems in auto)
      ultimately show ?thesis using o(1) True False la
        by (auto simp: Let_def split: sum.splits prod.splits option.splits)
    next
      case no: False
      have "debt (snd (readAhead env (Suc k) session flags sqns s)) = debt s"
        by (rule Cons.IH) (use Cons.prems in auto)
      then show ?thesis using False no la by (auto simp: Let_def)
    qed
  qed simp
qed simp

end
