(* ===== verification/Stream_System.thy ===== *)
theory Stream_System
  imports Stream_Waits
begin

text \<open>
  A stream as a transition system: the public operations in any order, together with what
  other threads do to the stream buffer. The invariant of the stream and the counts of the
  wait contexts hold in every reachable state, and the properties of the stream follow.
\<close>

section \<open>Both invariants\<close>

definition same_debt :: "server_stream \<Rightarrow> server_stream \<Rightarrow> bool" where
  "same_debt s s' \<longleftrightarrow> stream_inv s' \<and> ss_ref s' = ss_ref s \<and> debt s' = debt s"

lemma same_debtI: "x = (r, s') \<Longrightarrow> stream_inv s' \<Longrightarrow> ss_ref s' = ss_ref s \<Longrightarrow> debt (snd x) = debt s \<Longrightarrow> same_debt s (snd x)"
  by (simp add: same_debt_def)

lemma open_start_debt:
  assumes inv: "stream_inv s" and quiet: "quietStream (ss_ref s) env" and max: "refsBelowMax s"
  shows "debt (snd (open_start env session type value flags wait s)) = debt s"
proof (cases "open_lookup type value flags s")
  case (Inl e)
  then show ?thesis by (simp add: open_start_def)
next
  case (Inr a)
  then obtain q nflags nvalue where look: "open_lookup type value flags s = Inr (q, nflags, nvalue)" by (cases a) auto
  obtain l r1 s1 sqns ra s2 where l: "slot s q = Some l" "lc_location l \<noteq> None"
    and share: "(if 0 < lc_referenceCount l then shareSegment session q wait s else ((False, None), s)) = (r1, s1)"
    and inv1: "stream_inv s1" "ss_ref s1 = ss_ref s" and s1: "\<not> 0 < lc_referenceCount l \<longrightarrow> s1 = s"
    and sqns: "\<forall>p\<in>set sqns. p = INVALID_STREAM_SEGMENT_ID \<or> slot s1 p \<noteq> None"
    and ra: "readAhead (se_readAhead env) 0 session (nflags AND NOT SafSynchronous) sqns s1 = (ra, s2)"
    and s2: "stream_inv s2" "ss_ref s2 = ss_ref s" "slot s2 q = slot s1 q"
    and eq: "open_start env session type value flags wait s =
      (case ra of Inl e \<Rightarrow> (Inl e, s2)
       | Inr _ \<Rightarrow>
          (if 0 < lc_referenceCount l then (Inr (fst r1, snd r1, q, nflags, nvalue), s2)
           else
             (case open_internal (se_open env) session q nflags False wait s2 of
                (Inl e, s3) \<Rightarrow> (Inl e, s3)
              | (Inr (completed, seg), s3) \<Rightarrow> (Inr (completed, seg, q, nflags, nvalue), s3))))"
    by (rule open_start_parts [OF inv quiet max look, of session wait])
  have "debt s1 = debt s" using share l(1) share_debt [of s q session wait] by (auto split: if_splits)
  moreover have "quietEnv (ss_ref s1) (oe_request (se_readAhead env k))" for k
    using quiet inv1(2) by (simp add: quietStream_def)
  ultimately have d2: "debt s2 = debt s"
    using readAhead_debt [OF inv1(1) _ sqns, of "se_readAhead env" 0 session "nflags AND NOT SafSynchronous"] ra by simp
  show ?thesis
  proof (cases "(\<exists>e. ra = Inl e) \<or> 0 < lc_referenceCount l")
    case True
    then show ?thesis using eq d2 by (auto split: sum.splits)
  next
    case False
    then obtain loc where "idleSlot q s2 l loc" using open_idle s1 s2(3) l by metis
    from open_debt [OF s2(1) this, of "se_open env" session nflags False wait]
    show ?thesis using eq False d2 by (auto split: sum.splits prod.splits)
  qed
qed

lemma addLocation_debt:
  assumes "slot s (lc_sequenceNumber l) = None" and "lc_waitList l = []"
  shows "debt (addSegmentLocation l s) = debt s"
proof -
  let ?q = "unat (lc_sequenceNumber l)"
  let ?n = "Suc ?q - length (ss_segments s)"
  have "concat ((waitLists s @ replicate ?n [])[?q := []]) = concat (waitLists s)"
  proof -
    have "(waitLists s @ replicate ?n []) ! ?q = []"
      using assms(1) by (auto simp: waitLists_def slot_def nth_append split: if_splits)
    then have "(waitLists s @ replicate ?n [])[?q := []] = waitLists s @ replicate ?n []"
      by (metis list_update_id)
    then show ?thesis by simp
  qed
  moreover have "waitLists (addSegmentLocation l s) = (waitLists s @ replicate ?n [])[?q := []]"
    using assms(2) by (simp add: waitLists_def addSegmentLocation_def Let_def map_update map_replicate_const)
  ultimately show ?thesis
    by (simp add: debt_def pending_def fun_eq_iff) (simp add: addSegmentLocation_def Let_def)
qed

lemma allocate_debt:
  assumes "slot s q = None"
  shows "debt (snd (allocateSegment e session q idx s)) = debt s"
proof -
  have "debt (addSegmentLocation (newLocation q session x) (s\<lparr>ss_buffer := b\<rparr>)) = debt s" for x b
    using addLocation_debt [of "s\<lparr>ss_buffer := b\<rparr>" "newLocation q session x"] assms by (simp add: newLocation_def)
  then show ?thesis by (simp add: allocateSegment_def Let_def split: prod.splits sum.splits option.splits)
qed

lemma append_debt:
  assumes inv: "stream_inv s" and quiet: "quietEnv (ss_ref s) e" and async: "asyncEnv c"
  shows "debt (snd (append e c session wait s)) = debt s"
proof -
  let ?q = "ss_lastAppendSequenceNumber s"
  obtain r s1 where s1: "append_submit c wait s = (r, s1)" by fastforce
  have d1: "debt s1 = debt s \<and> table_ok s1"
  proof (cases "?q = INVALID_STREAM_SEGMENT_ID")
    case True
    then show ?thesis using s1 inv_D(3) [OF inv] by (auto simp: append_submit_def)
  next
    case False
    then obtain l where l: "slot s ?q = Some l" "lc_id l \<noteq> None" using inv_D(8) [OF inv] by blast
    then have "0 < lc_referenceCount l" using inv_D(5) [OF inv l(1)] by (auto simp: loc_ok_def)
    moreover have "itOk None ?q s" by (simp add: itOk_def)
    ultimately have "stream_inv s1"
      using close_internal_ok [OF inv l(1) _ _ async_orderly [OF async], of None wait False] s1 False
      by (auto simp: append_submit_def closed_to_def)
    then show ?thesis using close_debt [OF inv l(1), of c wait False None] s1 False inv_D(3)
      by (auto simp: append_submit_def)
  qed
  have free: "slot s1 (ss_lastSequenceNumber s1 + 1) = None" using d1 by (simp add: slot_def table_ok_def)
  have "debt (snd (append_next e session s1)) = debt s1"
    using allocate_debt [OF free, of e session "ss_lastAppendIndex s1"]
    by (auto simp: append_next_def Let_def split: sum.splits option.splits prod.splits)
  then show ?thesis using d1 s1 by (simp add: append_def split: sum.splits)
qed

lemma addSegment_stored_debt: "debt (snd (addSegment_stored q location s)) = debt s"
proof (cases "\<exists>sl. location = Some sl \<and> slot s q = None")
  case False
  then show ?thesis by (cases location) (auto simp: addSegment_stored_def allocated_slot)
next
  case True
  then obtain sl where sl: "location = Some sl" "slot s q = None" by blast
  have "debt (addSegmentLocation (storedLocation q (normLocation sl)) s) = debt s"
    using addLocation_debt [of s "storedLocation q (normLocation sl)"] sl(2) by (simp add: storedLocation_def)
  then show ?thesis
    using sl by (simp add: addSegment_stored_def addSegment_internal_def Let_def allocated_slot split: prod.splits)
qed

lemma close_public_debt:
  assumes inv: "stream_inv s"
  shows "debt (snd (close env session q wait ignoreErrors s)) = debt s"
proof (cases "slot s q")
  case (Some l)
  show ?thesis using close_debt [OF inv Some, of env wait ignoreErrors None]
    by (auto simp: close_def Let_def split: sum.splits prod.splits)
qed (simp add: close_def allocated_slot)

lemma closeLoop_debt:
  assumes "stream_inv s" and "\<And>k. asyncEnv (env k)"
  shows "debt (snd (closeLoop fuel env k session wait ignoreErrors it s)) = debt s"
  using assms(1)
proof (induction fuel arbitrary: k it s)
  case 0
  show ?case by (simp add: closeLoop.simps [of 0])
next
  case (Suc fuel k it s)
  note inv = Suc.prems
  show ?case
  proof (cases "length (ss_openList s) \<le> it")
    case True
    then show ?thesis by (simp add: closeLoop.simps [of "Suc fuel"])
  next
    case False
    define q where "q = ss_openList s ! it"
    have "q \<in> set (ss_openList s)" using False by (simp add: q_def)
    then obtain l where q: "slot s q = Some l" and n: "0 < lc_referenceCount l"
      using inv_D(7) [OF inv] by (auto simp: openSlot_def)
    note la = locAt_slot [OF q]
    have "itOk (Some it) q s" using False by (simp add: itOk_def q_def)
    from close_internal_ok [OF inv q n this async_orderly [OF assms(2)], of k wait ignoreErrors]
    obtain r s1 where c: "close_internal (env k) q wait ignoreErrors (Some it) s = (r, s1)" and i1: "stream_inv s1"
      by (auto simp: closed_to_def)
    have d1: "debt s1 = debt s" using close_debt [OF inv q, of "env k" wait ignoreErrors "Some it"] c by simp
    have part: "stream_inv (updLoc q (\<lambda>l. l\<lparr>lc_referenceCount := lc_referenceCount l - m,
        lc_referenceMap := (lc_referenceMap l)(session := None)\<rparr>) s)"
      if m: "lc_referenceMap l session = Some m" "lc_referenceCount l \<noteq> m" for m
      using release_some [OF inv q m] by blast
    show ?thesis
      using False c d1 Suc.IH [OF i1] Suc.IH [OF inv] Suc.IH [OF part] la
      by (simp add: closeLoop.simps [of "Suc fuel"] Let_def q_def [symmetric] split: option.splits sum.splits)
  qed
qed

section \<open>The transition system\<close>

text \<open>
  The steps of the threads that use the stream, with the obligations of the callers: an
  encoder completes segments that are in progress, its storage locations are the ones of their
  segments, and encoders work in the background; what happens to the buffer between the steps
  (requests of other streams, writes of clients to the mappings) keeps the segments of this stream.
\<close>

inductive stream_step :: "server_stream \<Rightarrow> server_stream \<Rightarrow> bool" where
  append: "quietEnv (ss_ref s) e \<Longrightarrow> asyncEnv c \<Longrightarrow> stream_step s (snd (append e c session wait s))"
| add: "quietEnv (ss_ref s) e \<Longrightarrow> stream_step s (snd (addSegment_session e session q s))"
| add_stored: "(\<And>l. location = Some l \<Longrightarrow> ln_sequenceNumber (sl_link l) = q) \<Longrightarrow>
    stream_step s (snd (addSegment_stored q location s))"
| start: "quietStream (ss_ref s) env \<Longrightarrow> refsBelowMax s \<Longrightarrow>
    stream_step s (snd (open_start env session type value flags wait s))"
| loaded: "inProgress s q x l \<Longrightarrow> lc_location l \<noteq> None \<Longrightarrow> stream_step s (snd (completeSegment q s))"
| written: "inProgress s q x l \<Longrightarrow> (\<And>sloc. location = Some sloc \<Longrightarrow> ln_sequenceNumber (sl_link sloc) = q) \<Longrightarrow>
    stream_step s (snd (completeSegment_location q location s))"
| closing: "asyncEnv c \<Longrightarrow> stream_step s (snd (close c session q wait ignoreErrors s))"
| closing_session: "(\<And>k. asyncEnv (env k)) \<Longrightarrow>
    stream_step s (snd (close_session env session wait ignoreErrors s))"
| others: "quietEnv (ss_ref s) \<lparr>rq_maxRetryCount = 0, rq_env = (\<lambda>_. f), rq_now = 0\<rparr> \<Longrightarrow>
    stream_step s (s\<lparr>ss_buffer := f (ss_buffer s)\<rparr>)"

lemma stream_step_ok:
  assumes "stream_step s s'" and "stream_inv s"
  shows "same_debt s s'"
  using assms
proof cases
  case (append e c session wait)
  then show ?thesis
    using append_ok [OF assms(2) append(2,3), of session wait] append_debt [OF assms(2) append(2,3), of session wait]
    by (auto simp: same_debt_def)
next
  case (add e session q)
  have "debt s' = debt s"
  proof (cases "slot s q")
    case None
    from allocate_debt [OF this, of e session INVALID_ENTRY_INDEX] show ?thesis
      by (simp add: add addSegment_session_def)
  qed (simp add: add addSegment_session_def allocated_slot)
  then show ?thesis
    using addSegment_session_ok [OF assms(2) add(2), of session q] add by (auto simp: same_debt_def)
next
  case (add_stored location q)
  then show ?thesis
    using addSegment_stored_ok [OF assms(2), of location q] addSegment_stored_debt [of q location s]
    by (auto simp: same_debt_def)
next
  case (start env session type "value" flags wait)
  then show ?thesis
    using open_start_ok [OF assms(2) start(2,3), of session type "value" flags wait]
      open_start_debt [OF assms(2) start(2,3), of session type "value" flags wait]
    by (auto simp: same_debt_def)
next
  case (loaded q x l)
  then show ?thesis
    using completeSegment_ok [OF assms(2) loaded(2,3)] completeSegment_debt [of q s] by (auto simp: same_debt_def)
next
  case (written q x l location)
  then show ?thesis
    using completeSegment_location_ok [OF assms(2) written(2), of location] completeSegment_location_debt [of q location s]
    by (auto simp: same_debt_def)
next
  case (closing c session q wait ignoreErrors)
  then show ?thesis
    using close_inv [OF assms(2) async_orderly [OF closing(2)], where session = session and wait = wait and ignoreErrors = ignoreErrors]
      close_public_debt [OF assms(2), of c session q wait ignoreErrors]
    by (auto simp: same_debt_def)
next
  case (closing_session env session wait ignoreErrors)
  then show ?thesis
    using close_session_ok [OF assms(2), of env session wait ignoreErrors]
      closeLoop_debt [OF assms(2), of env]
    by (auto simp: same_debt_def close_session_def)
next
  case (others f)
  have "stream_inv s'"
  proof -
    obtain H where H: "seq_ok (slot s)" "matches (ss_ref s) (slot s) H" "holds H (absent (ss_ref s) (slot s)) (ss_buffer s)"
      using inv_D(2) [OF assms(2)] by (auto simp: hold_rel_def)
    from quiet_matches [OF others(2) H(2)] H(3) have "holds H (absent (ss_ref s) (slot s)) (f (ss_buffer s))"
      by (simp add: keeps_holds_def)
    then have "hold_rel (ss_ref s) (slot s) (f (ss_buffer s))" using H by (auto simp: hold_rel_def)
    then show ?thesis using assms(2) others by (simp add: stream_inv_def table_ok_def)
  qed
  then show ?thesis by (simp add: same_debt_def others)
qed

text \<open>The start: a new stream on a well-formed buffer that caches nothing of the stream.\<close>

definition freshBuffer :: "stream_ref \<Rightarrow> server_buffer \<Rightarrow> bool" where
  "freshBuffer ref b \<longleftrightarrow> wf_buffer b \<and> (\<forall>q. sv_standbyIndex b (streamKey ref q) = None)"

lemma newStream_inv:
  assumes "freshBuffer ref b"
  shows "stream_inv (newServerStream ref ra waits b)"
proof -
  let ?s = "newServerStream ref ra waits b"
  have n: "slot ?s q = None" for q by (simp add: slot_def newServerStream_def)
  have "hold_rel ref (slot ?s) b"
    unfolding hold_rel_def
  proof (intro conjI exI)
    show "seq_ok (slot ?s)" by (simp add: seq_ok_def n)
    show "matches ref (slot ?s) Map.empty" by (simp add: matches_def n)
    show "holds Map.empty (absent ref (slot ?s)) b"
      using assms by (auto simp: holds_def freshBuffer_def absent_def)
  qed
  moreover have "slots_ok (slot ?s) (ss_openList ?s) (ss_lastAppendSequenceNumber ?s)"
    by (simp add: slots_ok_def n) (simp add: newServerStream_def)
  ultimately show ?thesis
    by (simp add: stream_inv_def table_ok_def) (simp add: newServerStream_def INVALID_OBJECT_ID_def)
qed

definition stream_reach :: "server_stream \<Rightarrow> bool" where
  "stream_reach s \<longleftrightarrow> (\<exists>ref ra waits b. freshBuffer ref b \<and> (\<forall>w. wc_count (waits w) = 0) \<and>
     stream_step\<^sup>*\<^sup>* (newServerStream ref ra waits b) s)"

lemma reach_ok:
  assumes "stream_reach s"
  shows "stream_inv s" "debt s w = 0"
proof -
  obtain ref ra waits b where i: "freshBuffer ref b" "\<forall>w. wc_count (waits w) = 0"
    and steps: "stream_step\<^sup>*\<^sup>* (newServerStream ref ra waits b) s"
    using assms by (auto simp: stream_reach_def)
  have "stream_inv s \<and> debt s = debt (newServerStream ref ra waits b)"
    using steps
  proof (induction rule: rtranclp_induct)
    case base
    show ?case using newStream_inv [OF i(1)] by simp
  next
    case (step s s')
    then show ?case using stream_step_ok [OF step.hyps(2)] by (simp add: same_debt_def)
  qed
  moreover have "debt (newServerStream ref ra waits b) w = 0"
    using i(2) by (simp add: debt_def pending_def waitLists_def newServerStream_def)
  ultimately show "stream_inv s" "debt s w = 0" by simp_all
qed

text \<open>A small stream for the witnesses, on a fresh buffer, with its first segment appended.\<close>

definition ref0 :: stream_ref where
  "ref0 = \<lparr>sr_store = 1, sr_id = 0, sr_typeFlags = 0, sr_entrySize = 8\<rparr>"

definition env0 :: request_env where
  "env0 = \<lparr>rq_maxRetryCount = 0, rq_env = (\<lambda>_ b. b), rq_now = 5\<rparr>"

definition close0 :: close_env where
  "close0 = \<lparr>cl_now = 6, cl_write = WritePending\<rparr>"

definition stream0 :: server_stream where
  "stream0 = newServerStream ref0 2 (\<lambda>_. \<lparr>wc_count = 0, wc_errors = []\<rparr>) buffer2"

definition stream1 :: server_stream where
  "stream1 = snd (append env0 close0 9 None stream0)"

lemma stream0_reach: "stream_reach stream0"
proof -
  have "wf_buffer buffer2" using buffer2_rel by (auto simp: wf_buffer_def)
  then have "freshBuffer ref0 buffer2" by (simp add: freshBuffer_def buffer2_def initializeSegments_def)
  then show ?thesis unfolding stream_reach_def stream0_def by (intro exI conjI) auto
qed

lemma env0_quiet: "quietEnv ref env0"
  by (simp add: quietEnv_def env0_def keeps_holds_def)

lemma close0_async: "asyncEnv close0"
  by (simp add: asyncEnv_def close0_def)

lemma reach_step: "stream_reach s \<Longrightarrow> stream_step s s' \<Longrightarrow> stream_reach s'"
  unfolding stream_reach_def by (meson rtranclp.rtrancl_into_rtrancl)

lemma stream1_reach: "stream_reach stream1"
  unfolding stream1_def
  by (rule reach_step [OF stream0_reach], rule stream_step.append [OF env0_quiet close0_async])

section \<open>Properties\<close>

text \<open>
  C3: In every reachable state of a server stream: the table ends with the last sequence number
  and the location in a slot belongs to it; the reference count of a segment is the sum of the
  references of its sessions and it is positive exactly if the segment is active or in progress;
  the open list holds exactly the referenced segments; and the segment that was appended last,
  if there is one, is active and not written yet.
\<close>

theorem stream_reachable_consistent:
  assumes "stream_reach s"
  shows "length (ss_segments s) = unat (ss_lastSequenceNumber s + 1) \<and> distinct (ss_openList s) \<and>
    (\<forall>q l. slot s q = Some l \<longrightarrow> lc_sequenceNumber l = q \<and>
       (\<Sum>x\<in>dom (lc_referenceMap l). unat (the (lc_referenceMap l x))) = unat (lc_referenceCount l) \<and>
       (q \<in> set (ss_openList s) \<longleftrightarrow> 0 < lc_referenceCount l) \<and>
       (0 < lc_referenceCount l \<longleftrightarrow> (lc_id l = None) \<noteq> (lc_sideId l = None))) \<and>
    (ss_lastAppendSequenceNumber s \<noteq> INVALID_STREAM_SEGMENT_ID \<longrightarrow>
       (\<exists>l. slot s (ss_lastAppendSequenceNumber s) = Some l \<and> lc_location l = None \<and> lc_id l \<noteq> None))"
proof (intro conjI allI impI)
  note inv = reach_ok(1) [OF assms]
  show "length (ss_segments s) = unat (ss_lastSequenceNumber s + 1)"
    using inv_D(3) [OF inv] by (simp add: table_ok_def)
  show "distinct (ss_openList s)" by (rule inv_D(6) [OF inv])
  fix q l assume q: "slot s q = Some l"
  note ok = inv_D(4,5) [OF inv q]
  show "lc_sequenceNumber l = q" by (rule ok(1))
  show "(\<Sum>x\<in>dom (lc_referenceMap l). unat (the (lc_referenceMap l x))) = unat (lc_referenceCount l)"
    using ok(2) by (simp add: loc_ok_def refs_ok_def)
  show "q \<in> set (ss_openList s) \<longleftrightarrow> 0 < lc_referenceCount l" using inv_D(7) [OF inv, of q] q by simp
  show "0 < lc_referenceCount l \<longleftrightarrow> (lc_id l = None) \<noteq> (lc_sideId l = None)"
    using ok(2) by (auto simp: loc_ok_def)
qed (use inv_D(8) [OF reach_ok(1) [OF assms]] in blast)

theorem stream_reachable_consistent_witness:
  "length (ss_segments stream1) = unat (ss_lastSequenceNumber stream1 + 1) \<and> distinct (ss_openList stream1)"
  using stream_reachable_consistent [OF stream1_reach] by blast

text \<open>
  C5: No two segments of a stream ever have the same buffer segment, active or in progress, and
  the buffer segment of a sequence number is in use and carries the link of that segment: a
  session never sees the data of another segment through a segment id. It is read-only exactly if the
  segment is stored, marked as submitted while it is encoded, and otherwise only
  if it is an empty segment that the encoder could not drop (see \<open>held\<close>).
\<close>

theorem stream_segments_exclusive:
  assumes "stream_reach s" and "slot s q = Some l" and "lc_id l = Some i \<or> lc_sideId l = Some i"
  shows "held (ss_buffer s) i \<lparr>ho_key = streamKey (ss_ref s) q,
      ho_submitted = (lc_sideId l \<noteq> None \<and> lc_location l = None), ho_read = (lc_location l \<noteq> None)\<rparr> \<and>
    (\<forall>q' l'. slot s q' = Some l' \<and> (lc_id l' = Some i \<or> lc_sideId l' = Some i) \<longrightarrow> q' = q)"
proof -
  note inv = reach_ok(1) [OF assms(1)]
  obtain H where H: "matches (ss_ref s) (slot s) H" "holds H (absent (ss_ref s) (slot s)) (ss_buffer s)"
    using inv_D(2) [OF inv] by (auto simp: hold_rel_def)
  have h: "H i = Some \<lparr>ho_key = streamKey (ss_ref s) p,
      ho_submitted = (lc_sideId m \<noteq> None \<and> lc_location m = None), ho_read = (lc_location m \<noteq> None)\<rparr>"
    if m: "slot s p = Some m" "lc_id m = Some i \<or> lc_sideId m = Some i" for p m
  proof -
    have "loc_ok m" "lc_sequenceNumber m = p" using inv_D(4,5) [OF inv m(1)] by simp_all
    then have "locHold (ss_ref s) m = Some (i, \<lparr>ho_key = streamKey (ss_ref s) p,
        ho_submitted = (lc_sideId m \<noteq> None \<and> lc_location m = None), ho_read = (lc_location m \<noteq> None)\<rparr>)"
      using m(2) by (auto simp: locHold_def loc_ok_def split: option.splits)
    from matches_D [OF H(1) m(1) this] show ?thesis .
  qed
  note this_h = h [OF assms(2,3)]
  have "q' = q" if "slot s q' = Some l'" "lc_id l' = Some i \<or> lc_sideId l' = Some i" for q' l'
    using h [OF that] this_h by (simp add: streamKey_inj)
  then show ?thesis using holds_D(2) [OF H(2) this_h] by blast
qed

lemma stream1_append: "append env0 close0 9 None stream0 = (Inr (0, Some 0), stream1)"
  and stream1_slot: "slot stream1 0 = Some (newLocation 0 9 0)"
proof -
  have a: "alloc_lists ([0, 1], []) = Some (0, [1], [])" by (simp add: alloc_lists_def)
  have "\<exists>c b. requestSegment env0 ref0 0 buffer2 = (Inr (c, Some 0), b)"
    using doRequest_alloc [OF buffer2_rel _ a, where stream = "Some ref0" and sqn = 0 and e = env0 and
        flags = SafNone and location = None and prefetch = False and rd = ReadPending]
    by (auto simp: requestSegment_def INVALID_OBJECT_ID_def split: prod.splits sum.splits)
  then obtain c b where r: "requestSegment env0 ref0 0 buffer2 = (Inr (c, Some 0), b)" by blast
  have f: "ss_ref stream0 = ref0" "ss_buffer stream0 = buffer2" "ss_lastSequenceNumber stream0 = INVALID_OBJECT_ID"
    "ss_lastAppendSequenceNumber stream0 = INVALID_OBJECT_ID"
    by (simp_all add: stream0_def newServerStream_def)
  have n: "INVALID_OBJECT_ID + 1 = 0" "INVALID_OBJECT_ID \<noteq> 0" by (simp_all add: INVALID_OBJECT_ID_def)
  show "append env0 close0 9 None stream0 = (Inr (0, Some 0), stream1)"
    by (simp add: stream1_def append_def append_submit_def append_next_def allocateSegment_def f r n Let_def)
  show "slot stream1 0 = Some (newLocation 0 9 0)"
    by (simp add: stream1_def append_def append_submit_def append_next_def allocateSegment_def f r n Let_def)
      (simp add: newLocation_def)
qed

theorem stream_segments_exclusive_witness:
  "held (ss_buffer stream1) 0 \<lparr>ho_key = streamKey (ss_ref stream1) 0, ho_submitted = False, ho_read = False\<rparr>"
  using stream_segments_exclusive [OF stream1_reach stream1_slot, of 0] by (simp add: newLocation_def)

text \<open>
  C4: The counter of a wait context is the number of its entries in the wait lists of the
  segments in progress: \<open>wait\<close> blocks exactly as long as a segment the caller waits for is
  in progress, and no completion, error or close loses a wake-up or wakes twice.
\<close>

theorem wait_blocks_while_pending:
  assumes "stream_reach s" and "pending s w < 2 ^ 32"
  shows "unat (wc_count (ss_waits s w)) = pending s w \<and>
    (wc_wait (ss_waits s w) = None \<longleftrightarrow> (\<exists>q x l. inProgress s q x l \<and> w \<in> set (lc_waitList l)))"
proof -
  note inv = reach_ok(1) [OF assms(1)]
  have "wc_count (ss_waits s w) = of_nat (pending s w)"
    using reach_ok(2) [OF assms(1), of w] by (simp add: debt_def)
  then have u: "unat (wc_count (ss_waits s w)) = pending s w" using assms(2) by (simp add: unat_of_nat)
  have "0 < pending s w \<longleftrightarrow> (\<exists>ws\<in>set (waitLists s). w \<in> set ws)"
    by (simp add: pending_def count_list_0_iff neq0_conv [symmetric] del: neq0_conv)
  also have "\<dots> \<longleftrightarrow> (\<exists>i l. i < length (ss_segments s) \<and> ss_segments s ! i = Some l \<and> w \<in> set (lc_waitList l))"
  proof -
    have "(\<exists>ws\<in>set (waitLists s). w \<in> set ws) \<longleftrightarrow> (\<exists>v\<in>set (ss_segments s). \<exists>l. v = Some l \<and> w \<in> set (lc_waitList l))"
      by (auto simp: waitLists_def split: option.splits)
    then show ?thesis by (metis in_set_conv_nth)
  qed
  also have "\<dots> \<longleftrightarrow> (\<exists>q x l. inProgress s q x l \<and> w \<in> set (lc_waitList l))"
  proof
    assume "\<exists>i l. i < length (ss_segments s) \<and> ss_segments s ! i = Some l \<and> w \<in> set (lc_waitList l)"
    then obtain i l where l: "i < length (ss_segments s)" "ss_segments s ! i = Some l" "w \<in> set (lc_waitList l)" by blast
    from slot_nth(1) [OF inv l(1,2)] have q: "slot s (lc_sequenceNumber l) = Some l" .
    then obtain x where "lc_sideId l = Some x" using idle_waits [OF inv q] l(3) by (cases "lc_sideId l") auto
    then show "\<exists>q x l. inProgress s q x l \<and> w \<in> set (lc_waitList l)" using q l(3) by (auto simp: inProgress_def)
  next
    assume "\<exists>q x l. inProgress s q x l \<and> w \<in> set (lc_waitList l)"
    then show "\<exists>i l. i < length (ss_segments s) \<and> ss_segments s ! i = Some l \<and> w \<in> set (lc_waitList l)"
      by (auto simp: inProgress_def slot_def split: if_splits)
  qed
  finally show ?thesis using u by (auto simp: wc_wait_def word_less_nat_alt)
qed

theorem wait_blocks_while_pending_witness:
  "unat (wc_count (ss_waits stream0 3)) = pending stream0 3"
proof -
  have "pending stream0 3 < 2 ^ 32" by (simp add: pending_def waitLists_def stream0_def newServerStream_def)
  then show ?thesis using wait_blocks_while_pending [OF stream0_reach] by blast
qed

text \<open>A stream with a segment that is being loaded, and a client waiting for it, for the witnesses.\<close>

definition location0 :: StorageLocation where
  "location0 = storageLocation_link \<lparr>ln_stream = 0, ln_sequenceNumber = 0\<rparr>"

definition load0 :: open_env where
  "load0 = \<lparr>oe_request = env0, oe_read = ReadPending, oe_early = False\<rparr>"

definition stream2 :: server_stream where
  "stream2 = snd (addSegment_stored 0 (Some location0) stream0)"

definition stream3 :: server_stream where
  "stream3 = snd (open_start \<lparr>se_open = load0, se_readAhead = (\<lambda>_. load0), se_waiting = id\<rparr> 9 QSequenceNumber 0 0 (Some 4) stream2)"

lemma stream2_slot:
  "slot stream2 0 = Some (storedLocation 0 (normLocation location0))" "ss_buffer stream2 = buffer2"
  "ss_ref stream2 = ref0" "stream_reach stream2" "p \<noteq> 0 \<Longrightarrow> slot stream2 p = None"
proof -
  have s0: "slot stream0 p = None" for p by (simp add: slot_def stream0_def newServerStream_def)
  have n: "neighbours 0 stream0 = (None, None)"
    by (simp add: neighbours_def getPreviousSegment_def getNextSegment_def stream0_def newServerStream_def nextIn.simps)
  have v: "\<not> violatesOrder t location0 None None" for t
    by (cases t) (simp_all add: violatesOrder_def location0_def storageLocation_link_def validRange_def ranges_init_def
        invalidRange_def)
  have ref: "ss_ref (indexLocation l s) = ss_ref s" for l s
  proof -
    have "same_rest s (indexLocation l s)" by simp
    then show ?thesis by (simp add: same_rest_def)
  qed
  have a: "\<not> segmentIsAllocated 0 stream0" by (simp add: segmentIsAllocated_def stream0_def newServerStream_def)
  have l: "lc_sequenceNumber (storedLocation 0 l) = 0" for l by (simp add: storedLocation_def)
  show "slot stream2 0 = Some (storedLocation 0 (normLocation location0))" "ss_buffer stream2 = buffer2"
    "ss_ref stream2 = ref0" "p \<noteq> 0 \<Longrightarrow> slot stream2 p = None"
    using n v a l s0 by (simp_all add: stream2_def addSegment_stored_def addSegment_internal_def Let_def INVALID_OBJECT_ID_def ref)
      (simp_all add: slot_def stream0_def newServerStream_def)
  show "stream_reach stream2" unfolding stream2_def
    by (rule reach_step [OF stream0_reach], rule stream_step.add_stored)
      (auto simp: location0_def storageLocation_link_def)
qed

lemma stream3_slot: "slot stream3 0 = Some (loading False 9 0 [4] (storedLocation 0 (normLocation location0)))"
proof -
  let ?l = "storedLocation 0 (normLocation location0)"
  let ?loc = "normLocation location0"
  have a: "alloc_lists ([0, 1], []) = Some (0, [1], [])" by (simp add: alloc_lists_def)
  have l: "lc_location ?l = Some ?loc" "lc_referenceCount ?l = 0" "lc_id ?l = None" "lc_waitList ?l = []"
    by (simp_all add: storedLocation_def)
  have link: "ln_sequenceNumber (sl_link ?loc) = 0" by (simp add: location0_def storageLocation_link_def normLocation_def)
  have "\<exists>b. openSegment env0 ref0 0 ?loc False ReadPending buffer2 = (Inr (False, Some 0), b)"
    using doRequest_alloc [OF buffer2_rel _ a, where stream = "Some ref0" and sqn = 0 and e = env0 and
        flags = 0 and location = "Some ?loc" and prefetch = False and rd = ReadPending]
    by (auto simp: openSegment_def location0_def storageLocation_link_def split: prod.splits sum.splits)
  then obtain b where o: "openSegment (oe_request load0) (ss_ref stream2) 0 ?loc False (oe_read load0) (ss_buffer stream2) =
      (Inr (False, Some 0), b)"
    by (auto simp: stream2_slot load0_def)
  have look: "open_lookup QSequenceNumber 0 0 stream2 = Inr (0, 0, 0)"
    using stream2_slot(1) locAt_slot [OF stream2_slot(1)] l
    by (simp add: open_lookup_def adjustQuery_def findSequenceNumber_def isSet_def throwOn_def slot_def SafReverseQuery_def
        split: if_splits)
  have "snd (open_internal load0 9 0 0 False (Some 4) stream2) =
      snd (open_start \<lparr>se_open = load0, se_readAhead = (\<lambda>_. load0), se_waiting = id\<rparr> 9 QSequenceNumber 0 0 (Some 4) stream2)"
    using look locAt_slot [OF stream2_slot(1)] l
    by (simp add: open_start_def Let_def isSet_def SafSequentialScan_def split: sum.splits prod.splits)
  then have s3: "stream3 = snd (open_internal load0 9 0 0 False (Some 4) stream2)" by (simp add: stream3_def)
  let ?s2 = "updLoc 0 (\<lambda>l. l\<lparr>lc_sideId := Some 0\<rparr>)
      (updLoc 0 (\<lambda>l. l\<lparr>lc_prefetched := False, lc_cancel := False\<rparr>) stream2\<lparr>ss_buffer := b\<rparr>)"
  have q2: "slot ?s2 0 = Some (?l\<lparr>lc_prefetched := False, lc_cancel := False, lc_sideId := Some 0\<rparr>)"
    using stream2_slot(1) by simp
  from openTail_pending [OF q2 refl l(3,2,4), of 9 "Some 4"] obtain s' where
    t: "openTail False 9 0 (Some 4) ?s2 = (Inr (False, Some 0), s')" "slot s' = (slot ?s2)(0 \<mapsto> loading False 9 0 [4] ?l)"
    by auto
  have "open_internal load0 9 0 0 False (Some 4) stream2 = (Inr (False, Some 0), s')"
    using open_internal_parts [OF stream2_slot(1) l(1) o, of 9 "Some 4"] locAt_slot [OF q2] t(1)
    by (simp add: Let_def openLoad_def load0_def)
  then show ?thesis using s3 t(2) by simp
qed

lemma stream3_reach: "stream_reach stream3"
proof -
  have "stream_inv stream2" using reach_ok stream2_slot(4) by blast
  have "refsBelowMax stream2"
    unfolding refsBelowMax_def
  proof (intro allI impI)
    fix q l assume q: "slot stream2 q = Some l"
    then have "q = 0" using stream2_slot(5) [of q] by (cases "q = 0") simp_all
    then show "lc_referenceCount l \<noteq> - 1" using q stream2_slot(1) by (auto simp: storedLocation_def)
  qed
  then show ?thesis unfolding stream3_def
    by (intro reach_step [OF stream2_slot(4)] stream_step.start)
      (simp_all add: quietStream_def load0_def env0_quiet)
qed

text \<open>
  C9: A load in progress can always be completed: \<open>completeSegment\<close> does not throw, the segment
  is active under the id it was loaded into (or idle, if it was closed meanwhile), nobody waits
  for it any more, and every context that waited for it is counted down once per wait.
\<close>

theorem load_completes:
  assumes "stream_reach s" and "inProgress s q x l" and "lc_location l \<noteq> None"
  shows "\<exists>s' l'. completeSegment q s = (Inr (), s') \<and> stream_reach s' \<and> slot s' q = Some l' \<and>
    lc_location l' = lc_location l \<and> lc_sideId l' = None \<and> lc_waitList l' = [] \<and>
    (if lc_cancel l then lc_referenceCount l' = 0
     else lc_id l' = Some x \<and> lc_referenceMap l' = lc_referenceMap l) \<and>
    (\<forall>w. wc_count (ss_waits s' w) = wc_count (ss_waits s w) - of_nat (count_list (lc_waitList l) w))"
proof -
  obtain s' where c: "completeSegment q s = (Inr (), s')" and
    s': "slot s' = (slot s)(q \<mapsto> (if lc_cancel l then idled (lc_prefetched l) [] l
      else l\<lparr>lc_id := Some x, lc_sideId := None, lc_cancel := False, lc_waitList := []\<rparr>))"
    "\<forall>w. wc_count (ss_waits s' w) = wc_count (ss_waits s w) - of_nat (count_list (lc_waitList l) w)"
    using completeSegment_ok [OF reach_ok(1) [OF assms(1)] assms(2,3)] by blast
  have "stream_reach s'" using reach_step [OF assms(1) stream_step.loaded [OF assms(2,3)]] c by simp
  then show ?thesis using c s' by (cases "lc_cancel l") (auto simp: idled_def)
qed

lemma stream3_progress:
  "inProgress stream3 0 0 (loading False 9 0 [4] (storedLocation 0 (normLocation location0)))"
  using stream3_slot by (simp add: inProgress_def loading_def)

theorem load_completes_witness:
  "\<exists>s' l'. completeSegment 0 stream3 = (Inr (), s') \<and> slot s' 0 = Some l' \<and> lc_id l' = Some 0 \<and>
    wc_count (ss_waits s' 4) = wc_count (ss_waits stream3 4) - 1"
proof -
  have n: "lc_location (loading False 9 0 [4] (storedLocation 0 (normLocation location0))) \<noteq> None"
    by (simp add: loading_def storedLocation_def)
  show ?thesis
    using load_completes [OF stream3_reach stream3_progress n]
    by (auto simp: loading_def)
qed

text \<open>
  C10: The end of an asynchronous write. A storage location in the right order makes the segment
  an idle stored one, no location removes it from the stream, and both wake the waiters. A
  location that violates the order of the indexes is rejected, and so is every call for a
  segment that is being loaded (which is how the trace decoder reports a failed load): nothing
  changes then, the segment stays in progress and whoever waits for it waits on.
\<close>

theorem write_completion:
  assumes "stream_reach s" and "inProgress s q x l"
    and "\<And>sloc. location = Some sloc \<Longrightarrow> ln_sequenceNumber (sl_link sloc) = q"
  shows "\<exists>r s'. completeSegment_location q location s = (r, s') \<and> stream_reach s' \<and>
    (if lc_location l \<noteq> None then r = Inl InvalidOperationException \<and> s' = s
     else if \<exists>sloc. location = Some sloc \<and> \<not> inOrder q sloc s then r = Inl GenericException \<and> s' = s
     else r = Inr () \<and>
       slot s' = (slot s)(q := map_option (\<lambda>sloc. idled False [] (l\<lparr>lc_location := Some (normLocation sloc)\<rparr>)) location) \<and>
       (\<forall>w. wc_count (ss_waits s' w) = wc_count (ss_waits s w) - of_nat (count_list (lc_waitList l) w)))"
proof -
  have "stream_reach (snd (completeSegment_location q location s))"
    by (rule reach_step [OF assms(1) stream_step.written [OF assms(2,3)]])
  then show ?thesis
    using completeSegment_location_ok [OF reach_ok(1) [OF assms(1)] assms(2,3)] by fastforce
qed

theorem write_completion_witness:
  "completeSegment_location 0 None stream3 = (Inl InvalidOperationException, stream3)"
  using write_completion [OF stream3_reach stream3_progress, of None] by (auto simp: loading_def storedLocation_def)

text \<open>
  C8: Closing a session ends, in any state and whatever the encoder answers in the background:
  the loop over the open list takes at most as many rounds as the list is long. If errors are
  ignored it does not throw, and then the session has no references but to segments in progress.
\<close>

theorem close_session_releases:
  assumes "stream_reach s" and "\<And>k. asyncEnv (env k)"
  shows "\<exists>r s'. close_session env session wait ignoreErrors s = (Some r, s') \<and> stream_reach s' \<and>
    (ignoreErrors \<longrightarrow> r = Inr ()) \<and>
    (r = Inr () \<longrightarrow> (\<forall>q l. slot s' q = Some l \<and> lc_referenceMap l session \<noteq> None \<longrightarrow> lc_sideId l \<noteq> None))"
proof -
  obtain r s' where c: "close_session env session wait ignoreErrors s = (Some r, s')" and
    r: "case r of Inl e \<Rightarrow> \<not> ignoreErrors | Inr _ \<Rightarrow> \<forall>q. released_by session s' q"
    using close_session_ok [where env = env and session = session and wait = wait and
      ignoreErrors = ignoreErrors, OF reach_ok(1) [OF assms(1)] assms(2)] by blast
  have "stream_reach (snd (close_session env session wait ignoreErrors s))"
    by (rule reach_step [OF assms(1) stream_step.closing_session [where env = env, OF assms(2)]])
  moreover have "r = Inr ()" if ignoreErrors using r that by (cases r) simp_all
  moreover have "slot s' q = Some l \<and> lc_referenceMap l session \<noteq> None \<longrightarrow> lc_sideId l \<noteq> None" if "r = Inr ()" for q l
    using r that unfolding released_by_def by auto
  ultimately show ?thesis using c by auto
qed

theorem close_session_releases_witness:
  "\<exists>s'. close_session (\<lambda>_. close0) 9 None True stream1 = (Some (Inr ()), s') \<and>
    (\<forall>l. slot s' 0 = Some l \<and> lc_referenceMap l 9 \<noteq> None \<longrightarrow> lc_sideId l \<noteq> None)"
  using close_session_releases [where env = "\<lambda>_. close0" and session = 9 and wait = None and ignoreErrors = True,
      OF stream1_reach close0_async] by auto



end
