(* ===== verification/Trace_Format.thy ===== *)
theory Trace_Format
  imports Server_Buffer
begin

text \<open>
  The file format of the Simtrace3 store (\<open>simtrace/FileHeader.h\<close>, \<open>simtrace/Simtrace3Format.h\<close>)
  byte by byte: frame headers, attribute headers, directory entries and the fields of the file
  header. The structures are laid out with the natural alignment of the 64-bit little endian
  targets; what is written is read back.
\<close>

section \<open>Little endian numbers\<close>

fun le :: "nat \<Rightarrow> nat \<Rightarrow> u8 list" where
  "le 0 v = []"
| "le (Suc n) v = of_nat v # le n (v div 256)"

fun unle :: "u8 list \<Rightarrow> nat" where
  "unle [] = 0"
| "unle (b # bs) = unat b + 256 * unle bs"

lemma length_le [simp]: "length (le n v) = n"
  by (induction n v rule: le.induct) simp_all

lemma unle_le: "unle (le n v) = v mod 256 ^ n"
proof (induction n v rule: le.induct)
  case (2 n v)
  have "unat (of_nat v :: u8) = v mod 256" by (simp add: unat_of_nat)
  then show ?case using 2 by (simp add: mod_mult2_eq)
qed simp

lemma unle_word:
  fixes x :: "'a::len word"
  assumes "LENGTH('a) = 8 * n"
  shows "unle (le n (unat x)) = unat x"
proof -
  have "unat x < 2 ^ LENGTH('a)" using unsigned_less [of x, where 'a = nat] by simp
  then have "unat x < 256 ^ n" using assms by (simp add: power_mult)
  then show ?thesis by (simp add: unle_le)
qed

lemma unle_words [simp]:
  "unle (le 8 (unat (x :: u64))) = unat x" "unle (le 4 (unat (y :: u32))) = unat y"
  "unle (le 2 (unat (z :: u16))) = unat z" "unle (le 1 (unat (b :: u8))) = unat b"
  by (rule unle_word; simp)+

text \<open>A field of a structure.\<close>

definition field :: "u8 list \<Rightarrow> nat \<Rightarrow> nat \<Rightarrow> nat" where
  "field bs off n = unle (take n (drop off bs))"

lemma field_skip: "length xs \<le> off \<Longrightarrow> field (xs @ ys) off n = field ys (off - length xs) n"
  by (simp add: field_def)

lemma field_hit: "length xs = n \<Longrightarrow> field (xs @ ys) 0 n = unle xs"
  by (simp add: field_def)

lemma field_last: "length xs = n \<Longrightarrow> field xs 0 n = unle xs"
  by (simp add: field_def)

section \<open>Frame headers\<close>

definition SIMTRACE_V3_ATTRIBUTE_MARKER :: u32 where "SIMTRACE_V3_ATTRIBUTE_MARKER = 0x52545441"
definition SIMTRACE_V3_FRAME_MARKER :: u32 where "SIMTRACE_V3_FRAME_MARKER = 0x454D5246"
definition SIMTRACE_V3_DIRECTORY_LINK_MARKER :: u32 where "SIMTRACE_V3_DIRECTORY_LINK_MARKER = 0x4B4E4C44"
definition SIMTRACE_V3_FRAME_ATTRIBUTE_TABLE_SIZE :: nat where "SIMTRACE_V3_FRAME_ATTRIBUTE_TABLE_SIZE = 2"
definition SIMTRACE_V3_DIRECTORY_TABLE_SIZE :: nat where "SIMTRACE_V3_DIRECTORY_TABLE_SIZE = 448"
definition SIMTRACE_V3_DIRECTORY_SIZE :: nat where "SIMTRACE_V3_DIRECTORY_SIZE = 1024"

definition SatData :: u8 where "SatData = 0"
definition SatStreamDescription :: u8 where "SatStreamDescription = 1"
definition SatAssociatedStreams :: u8 where "SatAssociatedStreams = 2"

text \<open>The offset in an attribute link is a bit field of 48 bits.\<close>

record AttributeHeaderLink =
  al_type :: u8
  al_reserved0 :: u8
  al_relativeFileOffset :: "48 word"

record FrameHeader =
  fh_markerValue :: u32
  fh_reserved0 :: u32
  fh_sequenceNumber :: u32
  fh_streamId :: u32
  fh_typeId :: Guid
  fh_entryCount :: u32
  fh_rawEntryCount :: u32
  fh_startTime :: u64
  fh_endTime :: u64
  fh_startCycle :: u64
  fh_endCycle :: u64
  fh_startIndex :: u64
  fh_totalSize :: u64
  fh_reserved1 :: u64
  fh_attributes :: "AttributeHeaderLink \<times> AttributeHeaderLink"
  fh_attributeCount :: u8
  fh_reserved2 :: "u8 \<times> u8 \<times> u8"
  fh_checksum :: u32

definition link_bytes :: "AttributeHeaderLink \<Rightarrow> u8 list" where
  "link_bytes l = [al_type l, al_reserved0 l] @ le 6 (unat (al_relativeFileOffset l))"

definition link_read :: "u8 list \<Rightarrow> nat \<Rightarrow> AttributeHeaderLink" where
  "link_read bs off =
     \<lparr>al_type = of_nat (field bs off 1), al_reserved0 = of_nat (field bs (off + 1) 1),
      al_relativeFileOffset = of_nat (field bs (off + 2) 6)\<rparr>"

definition guid_bytes :: "Guid \<Rightarrow> u8 list" where
  "guid_bytes g = (case g of (a, b, c, d) \<Rightarrow> le 4 (unat a) @ le 2 (unat b) @ le 2 (unat c) @ d)"

definition guid_read :: "u8 list \<Rightarrow> nat \<Rightarrow> Guid" where
  "guid_read bs off =
     (of_nat (field bs off 4), of_nat (field bs (off + 4) 2), of_nat (field bs (off + 6) 2),
      take 8 (drop (off + 8) bs))"

definition guid_ok :: "Guid \<Rightarrow> bool" where
  "guid_ok g = (case g of (a, b, c, d) \<Rightarrow> length d = 8)"

definition sizeof_FrameHeader :: nat where "sizeof_FrameHeader = 120"

text \<open>The part of a frame header that the checksum covers, and the whole header.\<close>

definition frame_body :: "FrameHeader \<Rightarrow> u8 list" where
  "frame_body h =
     le 4 (unat (fh_markerValue h)) @ le 4 (unat (fh_reserved0 h)) @
     le 4 (unat (fh_sequenceNumber h)) @ le 4 (unat (fh_streamId h)) @ guid_bytes (fh_typeId h) @
     le 4 (unat (fh_entryCount h)) @ le 4 (unat (fh_rawEntryCount h)) @
     le 8 (unat (fh_startTime h)) @ le 8 (unat (fh_endTime h)) @
     le 8 (unat (fh_startCycle h)) @ le 8 (unat (fh_endCycle h)) @
     le 8 (unat (fh_startIndex h)) @ le 8 (unat (fh_totalSize h)) @ le 8 (unat (fh_reserved1 h)) @
     link_bytes (fst (fh_attributes h)) @ link_bytes (snd (fh_attributes h)) @
     [fh_attributeCount h, fst (fh_reserved2 h), fst (snd (fh_reserved2 h)), snd (snd (fh_reserved2 h))]"

definition frame_bytes :: "FrameHeader \<Rightarrow> u8 list" where
  "frame_bytes h = frame_body h @ le 4 (unat (fh_checksum h))"

definition frame_read :: "u8 list \<Rightarrow> FrameHeader" where
  "frame_read bs =
     \<lparr>fh_markerValue = of_nat (field bs 0 4), fh_reserved0 = of_nat (field bs 4 4),
      fh_sequenceNumber = of_nat (field bs 8 4), fh_streamId = of_nat (field bs 12 4),
      fh_typeId = guid_read bs 16, fh_entryCount = of_nat (field bs 32 4),
      fh_rawEntryCount = of_nat (field bs 36 4), fh_startTime = of_nat (field bs 40 8),
      fh_endTime = of_nat (field bs 48 8), fh_startCycle = of_nat (field bs 56 8),
      fh_endCycle = of_nat (field bs 64 8), fh_startIndex = of_nat (field bs 72 8),
      fh_totalSize = of_nat (field bs 80 8), fh_reserved1 = of_nat (field bs 88 8),
      fh_attributes = (link_read bs 96, link_read bs 104),
      fh_attributeCount = of_nat (field bs 112 1),
      fh_reserved2 = (of_nat (field bs 113 1), of_nat (field bs 114 1), of_nat (field bs 115 1)),
      fh_checksum = of_nat (field bs 116 4)\<rparr>"

lemma link_length [simp]: "length (link_bytes l) = 8"
  by (simp add: link_bytes_def)

lemma guid_length: "guid_ok g \<Longrightarrow> length (guid_bytes g) = 16"
  by (auto simp: guid_ok_def guid_bytes_def split: prod.splits)

lemma frame_length: "guid_ok (fh_typeId h) \<Longrightarrow> length (frame_body h) = 116 \<and> length (frame_bytes h) = sizeof_FrameHeader"
  by (simp add: frame_body_def frame_bytes_def guid_length sizeof_FrameHeader_def)

lemma link_read: "link_read (link_bytes l @ bs) 0 = l"
proof -
  have "unle (le 6 (unat (al_relativeFileOffset l))) = unat (al_relativeFileOffset l)" by (rule unle_word) simp
  then show ?thesis by (simp add: link_read_def link_bytes_def field_def)
qed

lemma link_skip: "length xs \<le> off \<Longrightarrow> link_read (xs @ ys) off = link_read ys (off - length xs)"
  by (simp add: link_read_def field_skip Suc_diff_le)

lemma guid_read: "guid_ok g \<Longrightarrow> guid_read (guid_bytes g @ bs) 0 = g"
  by (auto simp: guid_read_def guid_bytes_def guid_ok_def field_hit field_skip split: prod.splits)

lemma guid_skip: "length xs \<le> off \<Longrightarrow> guid_read (xs @ ys) off = guid_read ys (off - length xs)"
  by (simp add: guid_read_def field_skip)

lemma field_Cons: "field (b # bs) 0 (Suc 0) = unat b" "0 < off \<Longrightarrow> field (b # bs) off n = field bs (off - 1) n"
  by (simp_all add: field_def drop_Cons')

lemmas field_rules = field_skip field_hit field_last field_Cons link_skip guid_skip link_read guid_read

lemma frame_roundtrip:
  assumes "guid_ok (fh_typeId h)"
  shows "frame_read (frame_bytes h @ bs) = h"
  using assms guid_length [OF assms]
  by (intro FrameHeader.equality) (simp_all add: frame_read_def frame_bytes_def frame_body_def field_rules)

section \<open>Attribute headers\<close>

record AttributeHeader =
  ah_markerValue :: u32
  ah_type :: u8
  ah_reserved0 :: "u8 \<times> u8 \<times> u8"
  ah_reserved1 :: u64
  ah_size :: u64
  ah_uncompressedSize :: u64

definition sizeof_AttributeHeader :: nat where "sizeof_AttributeHeader = 32"

definition attribute_bytes :: "AttributeHeader \<Rightarrow> u8 list" where
  "attribute_bytes a =
     le 4 (unat (ah_markerValue a)) @
     [ah_type a, fst (ah_reserved0 a), fst (snd (ah_reserved0 a)), snd (snd (ah_reserved0 a))] @
     le 8 (unat (ah_reserved1 a)) @ le 8 (unat (ah_size a)) @ le 8 (unat (ah_uncompressedSize a))"

definition attribute_read :: "u8 list \<Rightarrow> AttributeHeader" where
  "attribute_read bs =
     \<lparr>ah_markerValue = of_nat (field bs 0 4), ah_type = of_nat (field bs 4 1),
      ah_reserved0 = (of_nat (field bs 5 1), of_nat (field bs 6 1), of_nat (field bs 7 1)),
      ah_reserved1 = of_nat (field bs 8 8), ah_size = of_nat (field bs 16 8),
      ah_uncompressedSize = of_nat (field bs 24 8)\<rparr>"

lemma attribute_length [simp]: "length (attribute_bytes a) = sizeof_AttributeHeader"
  by (simp add: attribute_bytes_def sizeof_AttributeHeader_def)

lemma attribute_roundtrip: "attribute_read (attribute_bytes a @ bs) = a"
  by (rule AttributeHeader.equality)
    (simp_all add: attribute_read_def attribute_bytes_def field_rules)

section \<open>The checksum of a frame\<close>

text \<open>The 32-bit blocks of the first 116 bytes, which \<open>MurmurHash3_x86_32\<close> reads.\<close>

fun blocks32 :: "u8 list \<Rightarrow> u32 list" where
  "blocks32 (a # b # c # d # bs) = of_nat (unle [a, b, c, d]) # blocks32 bs"
| "blocks32 _ = []"

definition frame_hash :: "FrameHeader \<Rightarrow> u32" where
  "frame_hash h = murmur3_32 (blocks32 (frame_body h)) 0"

definition updateHash :: "FrameHeader \<Rightarrow> FrameHeader" where
  "updateHash h = h\<lparr>fh_checksum := frame_hash h\<rparr>"

definition validateHash :: "FrameHeader \<Rightarrow> bool" where
  "validateHash h \<longleftrightarrow> frame_hash h = fh_checksum h"

lemma hash_body: "frame_hash (h\<lparr>fh_checksum := c\<rparr>) = frame_hash h"
  by (simp add: frame_hash_def frame_body_def)

lemma updateHash_valid: "validateHash (updateHash h)"
  by (simp add: validateHash_def updateHash_def hash_body)

end
