(* ===== verification/Trace_Store.thy ===== *)
theory Trace_Store
  imports Trace_Format
begin

text \<open>
  Frames (\<open>simtrace/Simtrace3Frame.cpp\<close>) and the Simtrace3 store (\<open>simtrace/Simtrace3Store.cpp\<close>):
  the file with its mapped header and directories, writing frames, the frame directories, and
  opening a store again. The header and the directory in use are mapped shared, so that what is
  written through a mapping is in the file at once. The disk is a part of the file: if \<open>tf_budget\<close>
  is \<open>Some (n, k)\<close>, \<open>n\<close> more writes succeed, and the ones after them throw when \<open>k\<close> bytes are written.
\<close>

section \<open>The file\<close>

record trace_file =
  tf_data :: "nat \<Rightarrow> u8"
  tf_writePos :: u64
  tf_budget :: "(nat \<times> nat) option"

definition poke :: "nat \<Rightarrow> u8 list \<Rightarrow> (nat \<Rightarrow> u8) \<Rightarrow> nat \<Rightarrow> u8" where
  "poke off bs d = (\<lambda>i. if off \<le> i \<and> i < off + length bs then bs ! (i - off) else d i)"

definition peek :: "nat \<Rightarrow> nat \<Rightarrow> (nat \<Rightarrow> u8) \<Rightarrow> u8 list" where
  "peek off n d = map d [off..<off + n]"

definition num :: "nat \<Rightarrow> nat \<Rightarrow> (nat \<Rightarrow> u8) \<Rightarrow> nat" where
  "num off n d = unle (peek off n d)"

text \<open>\<open>File::write\<close> at an offset; it returns the number of bytes.\<close>

definition file_write :: "u8 list \<Rightarrow> u64 \<Rightarrow> trace_file \<Rightarrow> u64 res \<times> trace_file" where
  "file_write bs off f =
     (if bs = [] then (Inl ArgumentException, f)
      else
        (case tf_budget f of
           None \<Rightarrow> (Inr (of_nat (length bs)), f\<lparr>tf_data := poke (unat off) bs (tf_data f)\<rparr>)
         | Some (0, k) \<Rightarrow> (Inl GenericException, f\<lparr>tf_data := poke (unat off) (take k bs) (tf_data f)\<rparr>)
         | Some (Suc n, k) \<Rightarrow>
             (Inr (of_nat (length bs)),
              f\<lparr>tf_data := poke (unat off) bs (tf_data f), tf_budget := Some (n, k)\<rparr>)))"

definition commitSpace :: "u64 \<Rightarrow> trace_file \<Rightarrow> u64 res \<times> trace_file" where
  "commitSpace sz f =
     (let off = tf_writePos f;
          f1 = f\<lparr>tf_writePos := off + sz\<rparr>
      in case file_write [0] (off + sz - 1) f1 of
           (Inl e, f2) \<Rightarrow> (Inl e, f2)
         | (Inr _, f2) \<Rightarrow> (Inr off, f2))"

section \<open>Frames\<close>

record frame =
  fr_header :: FrameHeader
  fr_attributes :: "(AttributeHeader \<times> u8 list) list"
  fr_offset :: u64

text \<open>\<open>memset(&_header, 0, sizeof(FrameHeader))\<close>.\<close>

definition header_zero :: FrameHeader where
  "header_zero =
     \<lparr>fh_markerValue = 0, fh_reserved0 = 0, fh_sequenceNumber = 0, fh_streamId = 0,
      fh_typeId = (0, 0, 0, replicate 8 0), fh_entryCount = 0, fh_rawEntryCount = 0,
      fh_startTime = 0, fh_endTime = 0, fh_startCycle = 0, fh_endCycle = 0, fh_startIndex = 0,
      fh_totalSize = 0, fh_reserved1 = 0,
      fh_attributes = (\<lparr>al_type = 0, al_reserved0 = 0, al_relativeFileOffset = 0\<rparr>,
                       \<lparr>al_type = 0, al_reserved0 = 0, al_relativeFileOffset = 0\<rparr>),
      fh_attributeCount = 0, fh_reserved2 = (0, 0, 0), fh_checksum = 0\<rparr>"

text \<open>
  The constructor from a stream (its id and the id of its type) and a control element, both
  optional, and the one from a header, which leaves the other members uninitialised.
\<close>

definition newFrame :: "(u32 \<times> Guid) option \<Rightarrow> SegmentControlElement option \<Rightarrow> frame res" where
  "newFrame stream control =
     (let h0 = header_zero\<lparr>fh_markerValue := SIMTRACE_V3_FRAME_MARKER\<rparr> in
      throwOn (stream = None \<and> control \<noteq> None) ArgumentException
        (let h1 = (case stream of
               Some (sid, type) \<Rightarrow> h0\<lparr>fh_streamId := sid, fh_typeId := type\<rparr>
             | None \<Rightarrow> h0\<lparr>fh_streamId := INVALID_STREAM_ID\<rparr>);
             h2 = (case control of
               Some c \<Rightarrow> h1\<lparr>fh_sequenceNumber := ln_sequenceNumber (ce_link c),
                  fh_entryCount := ce_entryCount c, fh_rawEntryCount := ce_rawEntryCount c,
                  fh_startTime := ce_startTime c, fh_endTime := ce_endTime c,
                  fh_startCycle := ce_startCycle c, fh_endCycle := ce_endCycle c,
                  fh_startIndex := ce_startIndex c\<rparr>
             | None \<Rightarrow> h1\<lparr>fh_sequenceNumber := INVALID_STREAM_SEGMENT_ID,
                  fh_startTime := INVALID_LARGE_OBJECT_ID, fh_endTime := INVALID_LARGE_OBJECT_ID,
                  fh_startCycle := INVALID_LARGE_OBJECT_ID, fh_endCycle := INVALID_LARGE_OBJECT_ID,
                  fh_startIndex := INVALID_ENTRY_INDEX\<rparr>)
         in Inr \<lparr>fr_header = h2\<lparr>fh_totalSize := of_nat sizeof_FrameHeader\<rparr>, fr_attributes = [],
                 fr_offset = - 1\<rparr>))"

definition frame_of_header :: "FrameHeader \<Rightarrow> frame" where
  "frame_of_header h = \<lparr>fr_header = h, fr_attributes = [], fr_offset = - 1\<rparr>"

text \<open>\<open>buffer\<close> stands for the memory at the pointer; the first \<open>sz\<close> bytes of it count.\<close>

definition addAttribute :: "u8 \<Rightarrow> u64 \<Rightarrow> u64 \<Rightarrow> u8 list \<Rightarrow> frame \<Rightarrow> frame res" where
  "addAttribute type uncompressedSize sz buffer f =
     (let h = fr_header f; index = unat (fh_attributeCount h) in
      throwOn (SIMTRACE_V3_FRAME_ATTRIBUTE_TABLE_SIZE \<le> index) InvalidOperationException
        (let link = \<lparr>al_type = type,
               al_reserved0 = al_reserved0 (if index = 0 then fst (fh_attributes h) else snd (fh_attributes h)),
               al_relativeFileOffset = ucast (fh_totalSize h)\<rparr>;
             ah = \<lparr>ah_markerValue = SIMTRACE_V3_ATTRIBUTE_MARKER, ah_type = type, ah_reserved0 = (0, 0, 0),
                   ah_reserved1 = 0, ah_size = sz, ah_uncompressedSize = uncompressedSize\<rparr>
         in Inr (f\<lparr>fr_attributes := fr_attributes f @ [(ah, take (unat sz) buffer)],
                   fr_header := h\<lparr>fh_attributes := (if index = 0 then (link, snd (fh_attributes h))
                                                    else (fst (fh_attributes h), link)),
                                 fh_attributeCount := fh_attributeCount h + 1,
                                 fh_totalSize := fh_totalSize h + (of_nat sizeof_AttributeHeader + sz)\<rparr>\<rparr>)))"

definition findAttribute :: "u8 \<Rightarrow> frame \<Rightarrow> (AttributeHeader \<times> u8 list) option" where
  "findAttribute type f = find (\<lambda>(h, _). ah_type h = type) (fr_attributes f)"

section \<open>The store\<close>

record sim3_store =
  s3_file :: trace_file
  s3_readMode :: bool
  s3_loading :: bool
  s3_directory :: "u64 option"
  s3_nextFrameIndex :: u32

definition SIMTRACE_HEADER_RESERVED_SPACE :: nat where "SIMTRACE_HEADER_RESERVED_SPACE = 4096"
definition SIMTRACE_DEFAULT_SIGNATURE :: u64 where "SIMTRACE_DEFAULT_SIGNATURE = 0x65636172746d6953"
definition SIMTRACE_VERSION3 :: u16 where "SIMTRACE_VERSION3 = 3"
definition SIMTRACE_VERSION3_MINOR :: u16 where "SIMTRACE_VERSION3_MINOR = 0"

text \<open>
  The offsets of the fields of \<open>SimtraceFileHeader\<close>: the master header has 16 bytes with its
  padding, the version 3 header behind it 3744.
\<close>

definition H_signatureValue :: nat where "H_signatureValue = 0"
definition H_majorVersion :: nat where "H_majorVersion = 8"
definition H_minorVersion :: nat where "H_minorVersion = 10"
definition H_v3 :: nat where "H_v3 = 16"
definition H_writerVersion :: nat where "H_writerVersion = 16"
definition H_fileSize :: nat where "H_fileSize = 24"
definition H_uncompressedFileSize :: nat where "H_uncompressedFileSize = 32"
definition H_frameCount :: nat where "H_frameCount = 40"
definition H_entryCount :: nat where "H_entryCount = 48"
definition H_rawEntryCount :: nat where "H_rawEntryCount = 56"
definition H_startTime :: nat where "H_startTime = 64"
definition H_endTime :: nat where "H_endTime = 72"
definition H_startCycle :: nat where "H_startCycle = 80"
definition H_endCycle :: nat where "H_endCycle = 88"
definition H_directoryCount :: nat where "H_directoryCount = 96"
definition H_directoryCapacity :: nat where "H_directoryCapacity = 100"
definition H_directories :: nat where "H_directories = 168"
definition H_checksum :: nat where "H_checksum = 3752"
definition H_dirtyFlag :: nat where "H_dirtyFlag = 3756"

definition sizeof_FrameDirectoryEntry :: nat where "sizeof_FrameDirectoryEntry = 128"

text \<open>Reading and writing the mapped header and directories.\<close>

abbreviation data :: "sim3_store \<Rightarrow> nat \<Rightarrow> u8" where
  "data s \<equiv> tf_data (s3_file s)"

definition mem_write :: "nat \<Rightarrow> u8 list \<Rightarrow> sim3_store \<Rightarrow> sim3_store" where
  "mem_write off bs s = s\<lparr>s3_file := (s3_file s)\<lparr>tf_data := poke off bs (tf_data (s3_file s))\<rparr>\<rparr>"

definition get64 :: "nat \<Rightarrow> sim3_store \<Rightarrow> u64" where "get64 off s = of_nat (num off 8 (data s))"
definition set64 :: "nat \<Rightarrow> u64 \<Rightarrow> sim3_store \<Rightarrow> sim3_store" where "set64 off v s = mem_write off (le 8 (unat v)) s"
definition get32 :: "nat \<Rightarrow> sim3_store \<Rightarrow> u32" where "get32 off s = of_nat (num off 4 (data s))"
definition set32 :: "nat \<Rightarrow> u32 \<Rightarrow> sim3_store \<Rightarrow> sim3_store" where "set32 off v s = mem_write off (le 4 (unat v)) s"
definition get16 :: "nat \<Rightarrow> sim3_store \<Rightarrow> u16" where "get16 off s = of_nat (num off 2 (data s))"
definition set16 :: "nat \<Rightarrow> u16 \<Rightarrow> sim3_store \<Rightarrow> sim3_store" where "set16 off v s = mem_write off (le 2 (unat v)) s"

definition isDirty :: "sim3_store \<Rightarrow> bool" where
  "isDirty s \<longleftrightarrow> data s H_dirtyFlag \<noteq> 0"

definition markDirty :: "sim3_store \<Rightarrow> sim3_store" where
  "markDirty s = mem_write H_dirtyFlag [0xFF] s"

definition markClean :: "sim3_store \<Rightarrow> sim3_store" where
  "markClean s = mem_write H_dirtyFlag [0] s"

definition withFile :: "(trace_file \<Rightarrow> 'a res \<times> trace_file) \<Rightarrow> sim3_store \<Rightarrow> 'a res \<times> sim3_store" where
  "withFile f s = (case f (s3_file s) of (r, g) \<Rightarrow> (r, s\<lparr>s3_file := g\<rparr>))"

text \<open>\<open>_reserveSpace\<close> with a mapped header.\<close>

definition reserveSpace :: "u64 \<Rightarrow> sim3_store \<Rightarrow> u64 res \<times> sim3_store" where
  "reserveSpace len s =
     (case withFile (commitSpace len) s of
        (Inl e, s1) \<Rightarrow> (Inl e, s1)
      | (Inr off, s1) \<Rightarrow>
          (Inr off,
           (let s2 = set64 H_fileSize (get64 H_fileSize s1 + len) s1
            in set64 H_uncompressedFileSize (get64 H_uncompressedFileSize s2 + len) s2)))"

definition initalizeHeader :: "u32 \<Rightarrow> sim3_store \<Rightarrow> sim3_store" where
  "initalizeHeader version s =
     (let s1 = markDirty (mem_write 0 (replicate SIMTRACE_HEADER_RESERVED_SPACE 0) s);
          s2 = set16 H_minorVersion SIMTRACE_VERSION3_MINOR
                 (set16 H_majorVersion SIMTRACE_VERSION3
                   (set64 H_signatureValue SIMTRACE_DEFAULT_SIGNATURE s1));
          s3 = set64 H_uncompressedFileSize (of_nat SIMTRACE_HEADER_RESERVED_SPACE)
                 (set64 H_fileSize (of_nat SIMTRACE_HEADER_RESERVED_SPACE) (set32 H_writerVersion version s2));
          s4 = set64 H_endCycle INVALID_LARGE_OBJECT_ID (set64 H_startCycle INVALID_LARGE_OBJECT_ID
                 (set64 H_endTime INVALID_LARGE_OBJECT_ID (set64 H_startTime INVALID_LARGE_OBJECT_ID s3)))
      in set16 H_directoryCapacity (of_nat SIMTRACE_V3_DIRECTORY_SIZE) s4)"

text \<open>A new store on an empty file.\<close>

definition emptyFile :: "(nat \<times> nat) option \<Rightarrow> trace_file" where
  "emptyFile budget = \<lparr>tf_data = (\<lambda>_. 0), tf_writePos = 0, tf_budget = budget\<rparr>"

definition createStore :: "u32 \<Rightarrow> (nat \<times> nat) option \<Rightarrow> sim3_store res" where
  "createStore version budget =
     (case commitSpace (of_nat SIMTRACE_HEADER_RESERVED_SPACE) (emptyFile budget) of
        (Inl e, _) \<Rightarrow> Inl e
      | (Inr _, f) \<Rightarrow>
          Inr (initalizeHeader version
                 \<lparr>s3_file = f, s3_readMode = False, s3_loading = False, s3_directory = None,
                  s3_nextFrameIndex = 0\<rparr>))"

text \<open>
  \<open>_finalizeHeader\<close>, without the log. The checksum is the one of the bytes from the start of the
  file on, as many as there are before the checksum in the version 3 header.
\<close>

definition SIMTRACE_V3_HEADER_CHECKSUM_DATA_SIZE :: nat where
  "SIMTRACE_V3_HEADER_CHECKSUM_DATA_SIZE = H_checksum - H_v3"

definition finalizeHeader :: "u32 \<Rightarrow> u64 \<Rightarrow> sim3_store \<Rightarrow> sim3_store" where
  "finalizeHeader version now s =
     (if \<not> isDirty s then s
      else
        (let s1 = set64 H_endTime now (set32 H_writerVersion version s);
             hash = murmur3_32 (blocks32 (peek 0 SIMTRACE_V3_HEADER_CHECKSUM_DATA_SIZE (data s1))) 0
         in markClean (set32 H_checksum hash s1)))"

section \<open>Directories\<close>

abbreviation capacity :: "sim3_store \<Rightarrow> nat" where
  "capacity s \<equiv> unat (get16 H_directoryCapacity s)"

definition mapDirectory :: "u64 \<Rightarrow> sim3_store \<Rightarrow> sim3_store" where
  "mapDirectory off s = s\<lparr>s3_directory := Some off\<rparr>"

definition entryOffset :: "u64 \<Rightarrow> nat \<Rightarrow> nat" where
  "entryOffset dir i = unat dir + sizeof_FrameDirectoryEntry * i"

text \<open>
  The slot of the directory table is written if the count is below the capacity of a directory,
  which is not the size of the table.
\<close>

definition addDirectory :: "sim3_store \<Rightarrow> unit res \<times> sim3_store" where
  "addDirectory s0 =
     (let s = markDirty s0;
          cap = capacity s
      in case reserveSpace (of_nat (cap * sizeof_FrameDirectoryEntry)) s of
           (Inl e, s1) \<Rightarrow> (Inl e, s1)
         | (Inr off, s1) \<Rightarrow>
             (let count = get32 H_directoryCount s1;
                  s2 = (if unat count < cap then set64 (H_directories + 8 * unat count) off s1 else s1);
                  s3 = set32 H_directoryCount (get32 H_directoryCount s2 + 1) s2;
                  s4 = (case s3_directory s3 of
                          None \<Rightarrow> s3
                        | Some dir \<Rightarrow>
                            (let last = entryOffset dir (capacity s3 - 1)
                             in set64 (last + 8) off (set32 last SIMTRACE_V3_DIRECTORY_LINK_MARKER s3)))
              in (Inr (), (mapDirectory off s4)\<lparr>s3_nextFrameIndex := 0\<rparr>)))"

definition addFrameToDirectory :: "FrameHeader \<Rightarrow> u64 \<Rightarrow> sim3_store \<Rightarrow> unit res \<times> sim3_store" where
  "addFrameToDirectory h off s0 =
     (let s = markDirty s0;
          (r, s1) = (if s3_directory s = None \<or> unat (s3_nextFrameIndex s) = capacity s - 1
                     then addDirectory s else (Inr (), s))
      in case r of
           Inl e \<Rightarrow> (Inl e, s1)
         | Inr _ \<Rightarrow>
             (let entry = entryOffset (the (s3_directory s1)) (unat (s3_nextFrameIndex s1));
                  s2 = s1\<lparr>s3_nextFrameIndex := s3_nextFrameIndex s1 + 1\<rparr>;
                  s3 = set64 (entry + sizeof_FrameHeader) off (mem_write entry (frame_bytes h) s2)
              in (Inr (), set64 H_frameCount (get64 H_frameCount s3 + 1) s3)))"

text \<open>The range of times and cycles in the header; its upper ends are invalid at first.\<close>

definition lowerBound :: "nat \<Rightarrow> u64 \<Rightarrow> sim3_store \<Rightarrow> sim3_store" where
  "lowerBound off v s = (if v < get64 off s then set64 off v s else s)"

definition upperBound :: "nat \<Rightarrow> u64 \<Rightarrow> sim3_store \<Rightarrow> sim3_store" where
  "upperBound off v s =
     (if get64 off s = INVALID_LARGE_OBJECT_ID \<or> (v \<noteq> INVALID_LARGE_OBJECT_ID \<and> get64 off s < v)
      then set64 off v s else s)"

definition addFrameToStoreInformation :: "FrameHeader \<Rightarrow> u64 \<Rightarrow> sim3_store \<Rightarrow> sim3_store" where
  "addFrameToStoreInformation h uncompressedSize s =
     (let s1 = set64 H_fileSize (get64 H_fileSize s + fh_totalSize h) s;
          s2 = set64 H_uncompressedFileSize (get64 H_uncompressedFileSize s1 + uncompressedSize) s1;
          s3 = upperBound H_endTime (fh_endTime h) (lowerBound H_startTime (fh_startTime h) s2);
          s4 = upperBound H_endCycle (fh_endCycle h) (lowerBound H_startCycle (fh_startCycle h) s3);
          s5 = set64 H_entryCount (get64 H_entryCount s4 + ucast (fh_entryCount h)) s4
      in set64 H_rawEntryCount (get64 H_rawEntryCount s5 + ucast (fh_rawEntryCount h)) s5)"

section \<open>Writing frames\<close>

text \<open>The attributes one after the other; the result is the number of uncompressed bytes.\<close>

fun writeAttributes ::
  "(AttributeHeader \<times> u8 list) list \<Rightarrow> u64 \<Rightarrow> u64 \<Rightarrow> trace_file \<Rightarrow> u64 res \<times> trace_file" where
  "writeAttributes [] off written f = (Inr written, f)"
| "writeAttributes ((ah, buffer) # as) off written f =
     (case file_write (attribute_bytes ah) off f of
        (Inl e, f1) \<Rightarrow> (Inl e, f1)
      | (Inr n, f1) \<Rightarrow>
          (case file_write (take (unat (ah_size ah)) buffer) (off + n) f1 of
             (Inl e, f2) \<Rightarrow> (Inl e, f2)
           | (Inr m, f2) \<Rightarrow>
               writeAttributes as (off + n + m)
                 (written + (ah_uncompressedSize ah + of_nat sizeof_AttributeHeader)) f2))"

definition writeFrame :: "frame \<Rightarrow> sim3_store \<Rightarrow> (u64 \<times> u64) res \<times> sim3_store" where
  "writeFrame f s0 =
     withFile (\<lambda>file.
       (case commitSpace (fh_totalSize (fr_header f)) file of
          (Inl e, f1) \<Rightarrow> (Inl e, f1)
        | (Inr frameOffset, f1) \<Rightarrow>
            (case file_write (frame_bytes (fr_header f)) frameOffset f1 of
               (Inl e, f2) \<Rightarrow> (Inl e, f2)
             | (Inr n, f2) \<Rightarrow>
                 (case writeAttributes (fr_attributes f) (frameOffset + n) (of_nat sizeof_FrameHeader) f2 of
                    (Inl e, f3) \<Rightarrow> (Inl e, f3)
                  | (Inr written, f3) \<Rightarrow> (Inr (frameOffset, written), f3))))) (markDirty s0)"

definition commitFrame :: "frame \<Rightarrow> sim3_store \<Rightarrow> u64 res \<times> sim3_store" where
  "commitFrame f0 s =
     (if s3_readMode s \<or> s3_loading s then (Inl InvalidOperationException, s)
      else
        (let f = f0\<lparr>fr_header := updateHash (fr_header f0)\<rparr> in
         if fh_streamId (fr_header f) = INVALID_STREAM_ID then (Inl ArgumentException, s)
         else
           (case writeFrame f (markDirty s) of
              (Inl e, s1) \<Rightarrow> (Inl e, s1\<lparr>s3_readMode := True\<rparr>)
            | (Inr (off, written), s1) \<Rightarrow>
                (case addFrameToDirectory (fr_header f) off s1 of
                   (Inl e, s2) \<Rightarrow> (Inl e, s2\<lparr>s3_readMode := True\<rparr>)
                 | (Inr _, s2) \<Rightarrow>
                     (Inr off, addFrameToStoreInformation (fr_header f) written s2)))))"

section \<open>Reading frames\<close>

fun readAttributes :: "nat \<Rightarrow> u64 \<Rightarrow> (nat \<Rightarrow> u8) \<Rightarrow> nat \<Rightarrow> (AttributeHeader \<times> u8 list) list \<times> u64" where
  "readAttributes 0 position d base = ([], position)"
| "readAttributes (Suc n) position d base =
     (let ah = attribute_read (peek (base + unat position) sizeof_AttributeHeader d);
          pos1 = position + of_nat sizeof_AttributeHeader;
          buffer = peek (base + unat pos1) (unat (ah_size ah)) d;
          (as, pos2) = readAttributes n (pos1 + ah_size ah) d base
      in ((ah, buffer) # as, pos2))"

text \<open>
  \<open>_readFrame\<close> into an empty frame. The size of the mapping is not looked at (a position behind it
  is only asserted not to occur).
\<close>

definition readFrame :: "u64 \<Rightarrow> sim3_store \<Rightarrow> (frame \<times> u64) res" where
  "readFrame off s =
     (let h = frame_read (peek (unat off) sizeof_FrameHeader (data s)) in
      throwOn (\<not> validateHash h) GenericException
        (let (as, position) = readAttributes (unat (fh_attributeCount h)) (of_nat sizeof_FrameHeader)
                                (data s) (unat off)
         in Inr (\<lparr>fr_header = h, fr_attributes = as, fr_offset = off\<rparr>, position)))"

definition readFrame_public :: "u64 \<Rightarrow> sim3_store \<Rightarrow> (frame \<times> u64) res" where
  "readFrame_public off s = throwOn (s3_loading s) InvalidOperationException (readFrame off s)"

section \<open>Opening a store\<close>

text \<open>
  The loop over the directories. \<open>openFrame\<close> is what is done with an entry (the frame header in
  the directory and the offset of the frame); the fuel is the number of entries visited.
\<close>

fun openLoop ::
  "(FrameHeader \<times> u64 \<Rightarrow> 'c \<Rightarrow> 'c res) \<Rightarrow> nat \<Rightarrow> nat \<Rightarrow> sim3_store \<Rightarrow> 'c \<Rightarrow> 'c res option \<times> sim3_store" where
  "openLoop openFrame 0 index s c = (None, s)"
| "openLoop openFrame (Suc fuel) index s c =
     (if capacity s \<le> index then (Some (Inl GenericException), s)
      else
        (let entry = entryOffset (the (s3_directory s)) index;
             marker = get32 entry s
         in if marker = SIMTRACE_V3_FRAME_MARKER then
              (case openFrame (frame_read (peek entry sizeof_FrameHeader (data s)),
                               get64 (entry + sizeof_FrameHeader) s) c of
                 Inl e \<Rightarrow> (Some (Inl e), s)
               | Inr c1 \<Rightarrow> openLoop openFrame fuel (Suc index) s c1)
            else if marker = SIMTRACE_V3_DIRECTORY_LINK_MARKER then
              openLoop openFrame fuel 0 (mapDirectory (get64 (entry + 8) s) s) c
            else (Some (Inr c), s)))"

text \<open>\<open>_openStore\<close> on the file of a store; a dirty store is opened all the same.\<close>

definition openStore ::
  "(FrameHeader \<times> u64 \<Rightarrow> 'c \<Rightarrow> 'c res) \<Rightarrow> nat \<Rightarrow> trace_file \<Rightarrow> 'c \<Rightarrow> 'c res option \<times> sim3_store" where
  "openStore openFrame fuel file c =
     (let s = \<lparr>s3_file = file, s3_readMode = False, s3_loading = True, s3_directory = None,
               s3_nextFrameIndex = 0\<rparr>;
          (r, s1) =
            (if get32 H_directoryCount s = 0 then (Some (Inr c), s)
             else
               (let dirOffset = get64 H_directories s in
                if dirOffset = 0 then (Some (Inl GenericException), s)
                else openLoop openFrame fuel 0 (mapDirectory dirOffset s) c))
      in case r of
           Some (Inr x) \<Rightarrow> (Some (Inr x), s1\<lparr>s3_loading := False, s3_readMode := True\<rparr>)
         | _ \<Rightarrow> (r, s1))"

end
