(* ===== verification/Trace_Store_Inv.thy ===== *)
theory Trace_Store_Inv
  imports Trace_Store
begin

text \<open>
  What is in the file of a Simtrace3 store: the directories, their entries and the frames, with
  their places in the file. Committing a frame adds it to this log and keeps the rest, also when
  the disk is full; opening the store again lists the log.
\<close>

section \<open>Memory\<close>

lemma poke_out: "i < off \<or> off + length bs \<le> i \<Longrightarrow> poke off bs d i = d i"
  by (auto simp: poke_def)

lemma length_peek [simp]: "length (peek off n d) = n"
  by (simp add: peek_def)

lemma peek_cong: "(\<And>i. off \<le> i \<Longrightarrow> i < off + n \<Longrightarrow> d' i = d i) \<Longrightarrow> peek off n d' = peek off n d"
  by (simp add: peek_def)

lemma num_cong: "(\<And>i. off \<le> i \<Longrightarrow> i < off + n \<Longrightarrow> d' i = d i) \<Longrightarrow> num off n d' = num off n d"
  unfolding num_def by (rule arg_cong [OF peek_cong])

lemma peek_poke: "n = length bs \<Longrightarrow> peek off n (poke off bs d) = bs"
  by (rule nth_equalityI) (simp_all add: peek_def poke_def)

lemma peek_poke_out: "a + n \<le> off \<or> off + length bs \<le> a \<Longrightarrow> peek a n (poke off bs d) = peek a n d"
  by (rule peek_cong) (auto simp: poke_def)

lemma num_poke_out: "a + n \<le> off \<or> off + length bs \<le> a \<Longrightarrow> num a n (poke off bs d) = num a n d"
  by (simp add: num_def peek_poke_out)

lemma num_poke: "n = length bs \<Longrightarrow> num off n (poke off bs d) = unle bs"
  by (simp add: num_def peek_poke)

lemma poke_append: "poke (off + length a) b (poke off a d) = poke off (a @ b) d"
  by (rule ext) (auto simp: poke_def nth_append)

lemma peek_add: "peek off (m + n) d = peek off m d @ peek (off + m) n d"
  using upt_add_eq_append [of off "off + m" n] by (simp add: peek_def add.assoc)

lemma peek_take: "m \<le> n \<Longrightarrow> peek off m d = take m (peek off n d)"
  using peek_add [of off m "n - m" d] by simp

lemma peek_drop: "m \<le> n \<Longrightarrow> peek (off + m) (n - m) d = drop m (peek off n d)"
  using peek_add [of off m "n - m" d] by simp

lemma peek_zero: "(\<And>i. off \<le> i \<Longrightarrow> i < off + n \<Longrightarrow> d i = 0) \<Longrightarrow> peek off n d = replicate n 0"
  by (rule nth_equalityI) (simp_all add: peek_def)

lemma unle_zero: "unle (replicate n 0) = 0"
  by (induction n) simp_all

lemma num_zero: "(\<And>i. off \<le> i \<Longrightarrow> i < off + n \<Longrightarrow> d i = 0) \<Longrightarrow> num off n d = 0"
  by (simp add: num_def peek_zero unle_zero)

lemma num_field: "off + n \<le> m \<Longrightarrow> num (a + off) n d = field (peek a m d) off n"
proof -
  assume le: "off + n \<le> m"
  have "peek (a + off) n d = take n (peek (a + off) (m - off) d)" by (rule peek_take) (use le in simp)
  also have "peek (a + off) (m - off) d = drop off (peek a m d)" by (rule peek_drop) (use le in simp)
  finally show ?thesis by (simp add: num_def field_def)
qed

section \<open>The log in the file\<close>

type_synonym attributes = "(AttributeHeader \<times> u8 list) list"
type_synonym logged = "FrameHeader \<times> attributes \<times> u64"

definition attributes_bytes :: "attributes \<Rightarrow> u8 list" where
  "attributes_bytes as = concat (map (\<lambda>(a, b). attribute_bytes a @ b) as)"

definition frame_ok :: "FrameHeader \<Rightarrow> attributes \<Rightarrow> bool" where
  "frame_ok h as \<longleftrightarrow> guid_ok (fh_typeId h) \<and> validateHash h \<and> fh_markerValue h = SIMTRACE_V3_FRAME_MARKER \<and>
     unat (fh_attributeCount h) = length as \<and> (\<forall>(a, b)\<in>set as. length b = unat (ah_size a)) \<and>
     unat (fh_totalSize h) = length (frame_bytes h) + length (attributes_bytes as)"

definition dirSize :: nat where "dirSize = SIMTRACE_V3_DIRECTORY_SIZE * sizeof_FrameDirectoryEntry"

text \<open>The frames per directory; the last entry is kept for the link.\<close>

definition perDir :: nat where "perDir = SIMTRACE_V3_DIRECTORY_SIZE - 1"

definition slotOf :: "u64 list \<Rightarrow> nat \<Rightarrow> nat" where
  "slotOf dirs i = entryOffset (dirs ! (i div perDir)) (i mod perDir)"

definition apart :: "nat \<times> nat \<Rightarrow> nat \<times> nat \<Rightarrow> bool" where
  "apart x y \<longleftrightarrow> fst x + snd x \<le> fst y \<or> fst y + snd y \<le> fst x"

definition regions :: "u64 list \<Rightarrow> logged list \<Rightarrow> (nat \<times> nat) list" where
  "regions dirs fs = map (\<lambda>o'. (unat o', dirSize)) dirs @ map (\<lambda>(h, as, o'). (unat o', unat (fh_totalSize h))) fs"

definition inLast :: "u64 list \<Rightarrow> logged list \<Rightarrow> nat" where
  "inLast dirs fs = length fs - perDir * (length dirs - 1)"

definition file_rel :: "(nat \<Rightarrow> u8) \<Rightarrow> nat \<Rightarrow> u64 list \<Rightarrow> logged list \<Rightarrow> bool" where
  "file_rel d p dirs fs \<longleftrightarrow>
     SIMTRACE_HEADER_RESERVED_SPACE \<le> p \<and>
     num H_directoryCapacity 2 d = SIMTRACE_V3_DIRECTORY_SIZE \<and>
     num H_directoryCount 4 d = length dirs \<and> length dirs \<le> SIMTRACE_V3_DIRECTORY_TABLE_SIZE \<and>
     (\<forall>i<length dirs. num (H_directories + 8 * i) 8 d = unat (dirs ! i)) \<and>
     (\<forall>(o', n)\<in>set (regions dirs fs). SIMTRACE_HEADER_RESERVED_SPACE \<le> o' \<and> o' + n \<le> p) \<and>
     sorted_wrt apart (regions dirs fs) \<and>
     perDir * (length dirs - 1) \<le> length fs \<and> length fs \<le> perDir * length dirs \<and>
     (\<forall>i<length fs. case fs ! i of (h, as, o') \<Rightarrow>
        peek (slotOf dirs i) sizeof_FrameDirectoryEntry d = frame_bytes h @ le 8 (unat o') \<and>
        frame_ok h as \<and> peek (unat o') (unat (fh_totalSize h)) d = frame_bytes h @ attributes_bytes as) \<and>
     (\<forall>j. Suc j < length dirs \<longrightarrow>
        num (entryOffset (dirs ! j) perDir) 4 d = unat SIMTRACE_V3_DIRECTORY_LINK_MARKER \<and>
        num (entryOffset (dirs ! j) perDir + 8) 8 d = unat (dirs ! Suc j)) \<and>
     (dirs \<noteq> [] \<longrightarrow> (\<forall>k. inLast dirs fs \<le> k \<and> k < SIMTRACE_V3_DIRECTORY_SIZE \<longrightarrow>
        peek (entryOffset (last dirs) k) sizeof_FrameDirectoryEntry d = replicate sizeof_FrameDirectoryEntry 0))"

lemmas size_defs = SIMTRACE_HEADER_RESERVED_SPACE_def SIMTRACE_V3_DIRECTORY_SIZE_def
  SIMTRACE_V3_DIRECTORY_TABLE_SIZE_def sizeof_FrameDirectoryEntry_def sizeof_FrameHeader_def
  sizeof_AttributeHeader_def dirSize_def perDir_def

lemmas H_defs = H_signatureValue_def H_majorVersion_def H_minorVersion_def H_writerVersion_def H_fileSize_def
  H_uncompressedFileSize_def H_frameCount_def H_entryCount_def H_rawEntryCount_def H_startTime_def
  H_endTime_def H_startCycle_def H_endCycle_def H_directoryCount_def H_directoryCapacity_def
  H_directories_def H_checksum_def H_dirtyFlag_def H_v3_def

lemma file_rel_D:
  assumes "file_rel d p dirs fs"
  shows "4096 \<le> p" "num 100 2 d = 1024" "num 96 4 d = length dirs" "length dirs \<le> 448"
    "i < length dirs \<Longrightarrow> num (168 + 8 * i) 8 d = unat (dirs ! i)"
    "x \<in> set dirs \<Longrightarrow> 4096 \<le> unat x \<and> unat x + 131072 \<le> p"
    "(h, as, o') \<in> set fs \<Longrightarrow> 4096 \<le> unat o' \<and> unat o' + unat (fh_totalSize h) \<le> p"
    "sorted_wrt apart (regions dirs fs)"
    "1023 * (length dirs - 1) \<le> length fs" "length fs \<le> 1023 * length dirs"
    "k < length fs \<Longrightarrow> fs ! k = (h, as, o') \<Longrightarrow> peek (slotOf dirs k) 128 d = frame_bytes h @ le 8 (unat o') \<and>
        frame_ok h as \<and> peek (unat o') (unat (fh_totalSize h)) d = frame_bytes h @ attributes_bytes as"
    "Suc j < length dirs \<Longrightarrow> num (entryOffset (dirs ! j) 1023) 4 d = unat SIMTRACE_V3_DIRECTORY_LINK_MARKER \<and>
        num (entryOffset (dirs ! j) 1023 + 8) 8 d = unat (dirs ! Suc j)"
    "dirs \<noteq> [] \<Longrightarrow> inLast dirs fs \<le> m \<Longrightarrow> m < 1024 \<Longrightarrow> peek (entryOffset (last dirs) m) 128 d = replicate 128 0"
proof -
  have reg: "4096 \<le> a \<and> a + n \<le> p" if "(a, n) \<in> set (regions dirs fs)" for a n
    using assms that by (auto simp: file_rel_def size_defs)
  show "x \<in> set dirs \<Longrightarrow> 4096 \<le> unat x \<and> unat x + 131072 \<le> p"
    by (rule reg) (auto simp: regions_def size_defs)
  show "(h, as, o') \<in> set fs \<Longrightarrow> 4096 \<le> unat o' \<and> unat o' + unat (fh_totalSize h) \<le> p"
    by (rule reg) (force simp: regions_def)
  show "k < length fs \<Longrightarrow> fs ! k = (h, as, o') \<Longrightarrow> peek (slotOf dirs k) 128 d = frame_bytes h @ le 8 (unat o') \<and>
        frame_ok h as \<and> peek (unat o') (unat (fh_totalSize h)) d = frame_bytes h @ attributes_bytes as"
    using assms unfolding file_rel_def size_defs by fastforce
qed (use assms in \<open>simp_all add: file_rel_def size_defs H_defs\<close>)

text \<open>The header fields that are not part of the log: statistics, checksum and dirty flag.\<close>

definition statBytes :: "nat set" where
  "statBytes = {0..<96} \<union> {3752..<4096}"

lemma slotOf_region:
  assumes "i < length fs" and "length fs \<le> 1023 * length dirs"
  shows "i div perDir < length dirs" "entryOffset (dirs ! (i div perDir)) (i mod perDir) + 128 \<le> unat (dirs ! (i div perDir)) + 131072"
    "unat (dirs ! (i div perDir)) \<le> slotOf dirs i"
proof -
  show "i div perDir < length dirs" using assms by (simp add: size_defs less_mult_imp_div_less mult.commute)
  have "i mod perDir < 1023" by (simp add: size_defs)
  then show "entryOffset (dirs ! (i div perDir)) (i mod perDir) + 128 \<le> unat (dirs ! (i div perDir)) + 131072"
    by (simp add: entryOffset_def size_defs)
  show "unat (dirs ! (i div perDir)) \<le> slotOf dirs i" by (simp add: slotOf_def entryOffset_def)
qed

text \<open>Writing statistics, and writing behind the end, keeps the log.\<close>

lemma file_rel_mono:
  assumes rel: "file_rel d p dirs fs" and le: "p \<le> p'"
    and same: "\<And>i. i < p \<Longrightarrow> i \<notin> statBytes \<Longrightarrow> d' i = d i"
  shows "file_rel d' p' dirs fs"
proof -
  note D = file_rel_D [OF rel]
  have far: "num a n d' = num a n d \<and> peek a n d' = peek a n d" if "4096 \<le> a" "a + n \<le> p" for a n
    using that by (intro conjI num_cong peek_cong same) (auto simp: statBytes_def)
  have hdr: "num a n d' = num a n d" if "96 \<le> a" "a + n \<le> 3752" for a n
    using that D(1) by (intro num_cong same) (auto simp: statBytes_def)
  have reg: "(\<forall>(o', n)\<in>set (regions dirs fs). SIMTRACE_HEADER_RESERVED_SPACE \<le> o' \<and> o' + n \<le> p')"
    using rel le unfolding file_rel_def by fastforce
  have dirs: "num a n d' = num a n d \<and> peek a n d' = peek a n d"
    if "x \<in> set dirs" "unat x \<le> a" "a + n \<le> unat x + 131072" for x a n
    using D(6) [OF that(1)] that by (intro far) auto
  show ?thesis
    unfolding file_rel_def
  proof (intro conjI allI impI)
    show "SIMTRACE_HEADER_RESERVED_SPACE \<le> p'" using D(1) le by (simp add: size_defs)
    show "num H_directoryCapacity 2 d' = SIMTRACE_V3_DIRECTORY_SIZE" using hdr D(2) by (simp add: size_defs H_defs)
    show "num H_directoryCount 4 d' = length dirs" using hdr D(3) by (simp add: H_defs)
    show "length dirs \<le> SIMTRACE_V3_DIRECTORY_TABLE_SIZE" using D(4) by (simp add: size_defs)
    show "num (H_directories + 8 * i) 8 d' = unat (dirs ! i)" if "i < length dirs" for i
      using hdr [of "168 + 8 * i" 8] D(5) [OF that] that D(4) by (simp add: H_defs)
    show "case fs ! i of (h, as, o') \<Rightarrow>
        peek (slotOf dirs i) sizeof_FrameDirectoryEntry d' = frame_bytes h @ le 8 (unat o') \<and>
        frame_ok h as \<and> peek (unat o') (unat (fh_totalSize h)) d' = frame_bytes h @ attributes_bytes as"
      if "i < length fs" for i
    proof (clarify)
      fix h as o' assume f: "fs ! i = (h, as, o')"
      note r = slotOf_region [OF that D(10)]
      have "peek (slotOf dirs i) 128 d' = peek (slotOf dirs i) 128 d"
        using dirs [of "dirs ! (i div perDir)" "slotOf dirs i" 128] r by (simp add: slotOf_def)
      moreover have "(h, as, o') \<in> set fs" using that f nth_mem by fastforce
      then have "peek (unat o') (unat (fh_totalSize h)) d' = peek (unat o') (unat (fh_totalSize h)) d"
        using far D(7) by blast
      ultimately show "peek (slotOf dirs i) sizeof_FrameDirectoryEntry d' = frame_bytes h @ le 8 (unat o') \<and>
        frame_ok h as \<and> peek (unat o') (unat (fh_totalSize h)) d' = frame_bytes h @ attributes_bytes as"
        using D(11) [OF that f] by (simp add: size_defs)
    qed
    show "num (entryOffset (dirs ! j) perDir) 4 d' = unat SIMTRACE_V3_DIRECTORY_LINK_MARKER"
      "num (entryOffset (dirs ! j) perDir + 8) 8 d' = unat (dirs ! Suc j)" if j: "Suc j < length dirs" for j
    proof -
      have x: "dirs ! j \<in> set dirs" using j by simp
      show "num (entryOffset (dirs ! j) perDir) 4 d' = unat SIMTRACE_V3_DIRECTORY_LINK_MARKER"
        using D(12) [OF j] dirs [OF x, of "entryOffset (dirs ! j) 1023" 4] by (simp add: size_defs entryOffset_def)
      show "num (entryOffset (dirs ! j) perDir + 8) 8 d' = unat (dirs ! Suc j)"
        using D(12) [OF j] dirs [OF x, of "entryOffset (dirs ! j) 1023 + 8" 8] by (simp add: size_defs entryOffset_def)
    qed
    show "peek (entryOffset (last dirs) k) sizeof_FrameDirectoryEntry d' = replicate sizeof_FrameDirectoryEntry 0"
      if "dirs \<noteq> []" "inLast dirs fs \<le> k \<and> k < SIMTRACE_V3_DIRECTORY_SIZE" for k
      using D(13) [OF that(1), of k] dirs [of "last dirs" "entryOffset (last dirs) k" 128] that
      by (simp add: size_defs entryOffset_def)
  qed (use rel reg in \<open>simp_all add: file_rel_def\<close>)
qed

lemma regions_apart:
  assumes "file_rel d p dirs fs"
  shows "i < length dirs \<Longrightarrow> j < length dirs \<Longrightarrow> i \<noteq> j \<Longrightarrow>
      unat (dirs ! i) + 131072 \<le> unat (dirs ! j) \<or> unat (dirs ! j) + 131072 \<le> unat (dirs ! i)"
    and "x \<in> set dirs \<Longrightarrow> (h, as, o') \<in> set fs \<Longrightarrow>
      unat x + 131072 \<le> unat o' \<or> unat o' + unat (fh_totalSize h) \<le> unat x"
proof -
  have s: "sorted_wrt (\<lambda>x y. apart (unat x, dirSize) (unat y, dirSize)) dirs"
    "\<forall>x\<in>set dirs. \<forall>(h, as, o')\<in>set fs. apart (unat x, dirSize) (unat o', unat (fh_totalSize h))"
    using file_rel_D(8) [OF assms] by (auto simp: regions_def sorted_wrt_append sorted_wrt_map)
  show "i < length dirs \<Longrightarrow> j < length dirs \<Longrightarrow> i \<noteq> j \<Longrightarrow>
      unat (dirs ! i) + 131072 \<le> unat (dirs ! j) \<or> unat (dirs ! j) + 131072 \<le> unat (dirs ! i)"
    using sorted_wrt_nth_less [OF s(1), of i j] sorted_wrt_nth_less [OF s(1), of j i]
    by (cases "i < j") (auto simp: apart_def size_defs)
  show "x \<in> set dirs \<Longrightarrow> (h, as, o') \<in> set fs \<Longrightarrow>
      unat x + 131072 \<le> unat o' \<or> unat o' + unat (fh_totalSize h) \<le> unat x"
    using s(2) by (force simp: apart_def size_defs)
qed

text \<open>A change inside of one range, outside of the statistics.\<close>

definition touches :: "nat set \<Rightarrow> nat \<Rightarrow> (nat \<Rightarrow> u8) \<Rightarrow> (nat \<Rightarrow> u8) \<Rightarrow> bool" where
  "touches W p d d' \<longleftrightarrow> (\<forall>i<p. i \<notin> statBytes \<union> W \<longrightarrow> d' i = d i)"

lemma touches_num:
  assumes "touches W p d d'" and "96 \<le> a" "a + n \<le> 3752 \<or> 4096 \<le> a \<and> a + n \<le> p" "4096 \<le> p" "W \<inter> {a..<a + n} = {}"
  shows "num a n d' = num a n d" "peek a n d' = peek a n d"
proof -
  have "d' i = d i" if i: "a \<le> i" "i < a + n" for i
  proof -
    have "i \<notin> W" using assms(5) i by auto
    moreover have "i \<notin> statBytes" "i < p" using assms(2,3,4) i by (auto simp: statBytes_def)
    ultimately show ?thesis using assms(1) unfolding touches_def by blast
  qed
  then show "num a n d' = num a n d" "peek a n d' = peek a n d" by (auto intro: num_cong peek_cong)
qed

text \<open>The entries and frames of the log do not change when a part of a directory is written.\<close>

lemma log_kept:
  assumes rel: "file_rel d p dirs fs" and t: "touches (V \<union> W) p d d'"
    and V: "V \<subseteq> {96..<3752}" and j: "j < length dirs" and W: "W \<subseteq> {entryOffset (dirs ! j) k..<entryOffset (dirs ! j) 1024}"
    and k: "\<And>i. i < length fs \<Longrightarrow> i div 1023 = j \<Longrightarrow> i mod 1023 < k"
    and i: "i < length fs" "fs ! i = (h, as, o')"
  shows "peek (slotOf dirs i) 128 d' = frame_bytes h @ le 8 (unat o') \<and>
    frame_ok h as \<and> peek (unat o') (unat (fh_totalSize h)) d' = frame_bytes h @ attributes_bytes as"
proof -
  note D = file_rel_D [OF rel]
  note r = slotOf_region [OF i(1) D(10)]
  have mem: "(h, as, o') \<in> set fs" using i nth_mem by fastforce
  have dj: "dirs ! j \<in> set dirs" using j by simp
  have Wj: "W \<subseteq> {unat (dirs ! j)..<unat (dirs ! j) + 131072}"
    using W by (auto simp: entryOffset_def size_defs)
  have x: "dirs ! (i div 1023) \<in> set dirs" using r(1) by (simp add: size_defs)
  have "W \<inter> {slotOf dirs i..<slotOf dirs i + 128} = {}"
  proof (cases "i div 1023 = j")
    case True
    then have "i mod 1023 + 1 \<le> k" using k [OF i(1)] by simp
    then have "slotOf dirs i + 128 \<le> entryOffset (dirs ! j) k"
      using True by (simp add: slotOf_def entryOffset_def size_defs)
    then show ?thesis using W by auto
  next
    case False
    have "i div 1023 < length dirs" using r(1) by (simp add: size_defs)
    from regions_apart(1) [OF rel this j False] Wj r(2,3) show ?thesis by (auto simp: size_defs slotOf_def)
  qed
  moreover have "4096 \<le> slotOf dirs i" "slotOf dirs i + 128 \<le> p"
    using D(6) [OF x] r(2,3) by (auto simp: size_defs slotOf_def)
  ultimately have "peek (slotOf dirs i) 128 d' = peek (slotOf dirs i) 128 d"
    using V D(1) by (intro touches_num [OF t]) auto
  moreover have "peek (unat o') (unat (fh_totalSize h)) d' = peek (unat o') (unat (fh_totalSize h)) d"
    using V D(1) D(7) [OF mem] regions_apart(2) [OF rel dj mem] Wj by (intro touches_num(2) [OF t]) auto
  ultimately show ?thesis using D(11) [OF i] by simp
qed

lemma link_kept:
  assumes rel: "file_rel d p dirs fs" and t: "touches (V \<union> W) p d d'"
    and V: "V \<subseteq> {96..<3752}" and l: "l < length dirs" and W: "W \<subseteq> {unat (dirs ! l)..<unat (dirs ! l) + 131072}"
    and j: "Suc j < length dirs" "j \<noteq> l"
  shows "num (entryOffset (dirs ! j) 1023) 4 d' = unat SIMTRACE_V3_DIRECTORY_LINK_MARKER \<and>
        num (entryOffset (dirs ! j) 1023 + 8) 8 d' = unat (dirs ! Suc j)"
proof -
  note D = file_rel_D [OF rel]
  have x: "dirs ! j \<in> set dirs" using j by simp
  have ap: "unat (dirs ! j) + 131072 \<le> unat (dirs ! l) \<or> unat (dirs ! l) + 131072 \<le> unat (dirs ! j)"
    using regions_apart(1) [OF rel _ l j(2)] j(1) by simp
  have in': "unat (dirs ! j) \<le> entryOffset (dirs ! j) 1023" "entryOffset (dirs ! j) 1023 + 16 \<le> unat (dirs ! j) + 131072"
    by (simp_all add: entryOffset_def size_defs)
  have "num (entryOffset (dirs ! j) 1023) 4 d' = num (entryOffset (dirs ! j) 1023) 4 d"
    using V W ap in' D(1) D(6) [OF x] by (intro touches_num(1) [OF t]) auto
  moreover have "num (entryOffset (dirs ! j) 1023 + 8) 8 d' = num (entryOffset (dirs ! j) 1023 + 8) 8 d"
    using V W ap in' D(1) D(6) [OF x] by (intro touches_num(1) [OF t]) auto
  ultimately show ?thesis using D(12) [OF j(1)] by simp
qed

text \<open>A new entry in the last directory, for a frame that is in the file.\<close>

lemma last_slot:
  fixes n m :: nat
  assumes "1023 * (n - 1) \<le> m" and "m < 1023 * n"
  shows "m div 1023 = n - 1" "m mod 1023 = m - 1023 * (n - 1)"
proof -
  have n: "0 < n" using assms(2) by (cases n) simp_all
  then have "m < 1023 * (n - 1) + 1023" using assms(2) by (cases n) simp_all
  then have m: "m = (m - 1023 * (n - 1)) + 1023 * (n - 1)" "m - 1023 * (n - 1) < 1023" using assms(1) by simp_all
  show "m div 1023 = n - 1" by (subst m(1)) (use m(2) in simp)
  show "m mod 1023 = m - 1023 * (n - 1)" by (subst m(1)) (use m(2) in simp)
qed

lemma file_rel_entry:
  assumes rel: "file_rel d p dirs fs" and ne: "dirs \<noteq> []" and room: "inLast dirs fs < 1023"
    and e: "e = entryOffset (last dirs) (inLast dirs fs)"
    and t: "touches {e..<e + 128} p d d'" and new: "peek e 128 d' = frame_bytes h @ le 8 (unat x)"
    and ok: "frame_ok h as" and at: "peek (unat x) (unat (fh_totalSize h)) d = frame_bytes h @ attributes_bytes as"
    and place: "4096 \<le> unat x" "unat x + unat (fh_totalSize h) \<le> p"
    and ap: "\<And>r. r \<in> set (regions dirs fs) \<Longrightarrow> apart r (unat x, unat (fh_totalSize h))"
  shows "file_rel d' p dirs (fs @ [(h, as, x)])"
proof -
  note D = file_rel_D [OF rel]
  let ?fs = "fs @ [(h, as, x)]" and ?n = "length fs" and ?l = "length dirs - 1"
  have l: "?l < length dirs" "last dirs = dirs ! ?l" using ne by (simp_all add: last_conv_nth)
  have nn: "?n < 1023 * length dirs" using room D(9) ne by (simp add: inLast_def size_defs) (cases dirs; simp)
  note ls = last_slot [OF D(9) nn]
  have slot: "slotOf dirs ?n = e" using ls e l(2) by (simp add: slotOf_def inLast_def size_defs)
  have t': "touches ({} \<union> {e..<e + 128}) p d d'" using t by simp
  have ein: "{e..<e + 128} \<subseteq> {entryOffset (dirs ! ?l) (inLast dirs fs)..<entryOffset (dirs ! ?l) 1024}"
    using e l(2) room by (auto simp: entryOffset_def size_defs)
  have ereg: "{e..<e + 128} \<subseteq> {unat (dirs ! ?l)..<unat (dirs ! ?l) + 131072}"
    using e l(2) room by (auto simp: entryOffset_def size_defs)
  have dl: "dirs ! ?l \<in> set dirs" using l by simp
  have e4: "4096 \<le> e" "e + 128 \<le> p" using D(6) [OF dl] ereg by auto
  have kept: "peek (slotOf dirs i) 128 d' = frame_bytes h' @ le 8 (unat o') \<and>
      frame_ok h' as' \<and> peek (unat o') (unat (fh_totalSize h')) d' = frame_bytes h' @ attributes_bytes as'"
    if i: "i < ?n" "fs ! i = (h', as', o')" for i h' as' o'
  proof (rule log_kept [OF rel t' _ l(1) ein _ i])
    fix i' assume "i' < ?n" "i' div 1023 = ?l"
    then have "i' = 1023 * ?l + i' mod 1023" by (metis mult_div_mod_eq)
    then show "i' mod 1023 < inLast dirs fs" using \<open>i' < ?n\<close> by (simp add: inLast_def size_defs)
  qed simp
  have at': "peek (unat x) (unat (fh_totalSize h)) d' = frame_bytes h @ attributes_bytes as"
  proof -
    have "apart (unat (dirs ! ?l), dirSize) (unat x, unat (fh_totalSize h))"
      by (rule ap) (use dl in \<open>auto simp: regions_def\<close>)
    then have "{e..<e + 128} \<inter> {unat x..<unat x + unat (fh_totalSize h)} = {}"
      using ereg by (auto simp: apart_def size_defs)
    then show ?thesis using touches_num(2) [OF t, of "unat x"] place D(1) at by auto
  qed
  show ?thesis
    unfolding file_rel_def
  proof (intro conjI allI impI)
    show "num H_directoryCapacity 2 d' = SIMTRACE_V3_DIRECTORY_SIZE"
      using touches_num(1) [OF t, of 100 2] D(1,2) e4 by (simp add: size_defs H_defs)
    show "num H_directoryCount 4 d' = length dirs"
      using touches_num(1) [OF t, of 96 4] D(1,3) e4 by (simp add: H_defs)
    show "num (H_directories + 8 * i) 8 d' = unat (dirs ! i)" if "i < length dirs" for i
      using touches_num(1) [OF t, of "168 + 8 * i" 8] D(1,4) D(5) [OF that] that e4 by (simp add: H_defs)
    show "\<forall>(o', n)\<in>set (regions dirs ?fs). SIMTRACE_HEADER_RESERVED_SPACE \<le> o' \<and> o' + n \<le> p"
      using rel place by (auto simp: file_rel_def regions_def size_defs)
    show "sorted_wrt apart (regions dirs ?fs)"
      using D(8) ap by (auto simp: regions_def sorted_wrt_append)
    show "perDir * (length dirs - 1) \<le> length ?fs" "length ?fs \<le> perDir * length dirs"
      using D(9) nn by (simp_all add: size_defs)
    show "case ?fs ! i of (h, as, o') \<Rightarrow>
        peek (slotOf dirs i) sizeof_FrameDirectoryEntry d' = frame_bytes h @ le 8 (unat o') \<and>
        frame_ok h as \<and> peek (unat o') (unat (fh_totalSize h)) d' = frame_bytes h @ attributes_bytes as"
      if "i < length ?fs" for i
    proof (cases "i = ?n")
      case True
      then show ?thesis using slot new ok at' by (simp add: size_defs)
    next
      case False
      then have i: "i < ?n" using that by simp
      then show ?thesis using kept [OF i] by (auto simp: nth_append size_defs split: prod.splits)
    qed
    show "num (entryOffset (dirs ! j) perDir) 4 d' = unat SIMTRACE_V3_DIRECTORY_LINK_MARKER"
      "num (entryOffset (dirs ! j) perDir + 8) 8 d' = unat (dirs ! Suc j)" if j: "Suc j < length dirs" for j
      using link_kept [OF rel t' _ l(1) ereg j] j by (simp_all add: size_defs)
    show "peek (entryOffset (last dirs) k) sizeof_FrameDirectoryEntry d' = replicate sizeof_FrameDirectoryEntry 0"
      if "inLast dirs ?fs \<le> k \<and> k < SIMTRACE_V3_DIRECTORY_SIZE" for k
    proof -
      have k: "Suc (inLast dirs fs) \<le> k" "k < 1024" using that D(9) by (simp_all add: inLast_def size_defs Suc_diff_le)
      have "entryOffset (last dirs) k + 128 \<le> p" "4096 \<le> entryOffset (last dirs) k" "e + 128 \<le> entryOffset (last dirs) k"
        using k D(6) [OF dl] l(2) e by (simp_all add: entryOffset_def size_defs)
      then have "peek (entryOffset (last dirs) k) 128 d' = peek (entryOffset (last dirs) k) 128 d"
        using D(1) by (intro touches_num(2) [OF t]) auto
      then show ?thesis using D(13) [OF ne, of k] k by (simp add: size_defs)
    qed
  qed (use rel in \<open>simp_all add: file_rel_def\<close>)
qed

text \<open>A new directory behind the end, linked from the last one, when that one is full.\<close>

lemma slotOf_append: "i < perDir * length dirs \<Longrightarrow> slotOf (dirs @ [x]) i = slotOf dirs i"
  by (simp add: slotOf_def nth_append size_defs less_mult_imp_div_less mult.commute)

lemma file_rel_dir:
  assumes rel: "file_rel d p dirs fs" and full: "length fs = 1023 * length dirs" and room: "length dirs < 448"
    and V: "V = {96..<100} \<union> {168 + 8 * length dirs..<168 + 8 * length dirs + 8}"
    and W: "W = (if dirs = [] then {} else {entryOffset (last dirs) 1023..<entryOffset (last dirs) 1023 + 16})"
    and t: "touches (V \<union> W) p d d'"
    and count: "num 96 4 d' = Suc (length dirs)" and tab: "num (168 + 8 * length dirs) 8 d' = unat x"
    and link: "dirs \<noteq> [] \<Longrightarrow> num (entryOffset (last dirs) 1023) 4 d' = unat SIMTRACE_V3_DIRECTORY_LINK_MARKER \<and>
        num (entryOffset (last dirs) 1023 + 8) 8 d' = unat x"
    and zero: "\<And>i. p \<le> i \<Longrightarrow> i < p + 131072 \<Longrightarrow> d' i = 0" and x: "unat x = p"
  shows "file_rel d' (p + 131072) (dirs @ [x]) fs"
proof -
  note D = file_rel_D [OF rel]
  let ?n = "length dirs" and ?dirs = "dirs @ [x]"
  have regs: "set (regions ?dirs fs) = insert (unat x, dirSize) (set (regions dirs fs))"
    by (auto simp: regions_def)
  have reg: "\<forall>(o', n)\<in>set (regions dirs fs). 4096 \<le> o' \<and> o' + n \<le> p"
    using rel by (simp add: file_rel_def size_defs)
  have V96: "V \<subseteq> {96..<3752}" using V room by auto
  have Wp: "W \<subseteq> {4096..<p}" using W D(6) [of "last dirs"] by (auto simp: entryOffset_def size_defs)
  have WL: "W \<subseteq> {entryOffset (dirs ! (?n - 1)) 1023..<entryOffset (dirs ! (?n - 1)) 1024}" if "dirs \<noteq> []"
    using W that by (auto simp: last_conv_nth entryOffset_def size_defs)
  have Wreg: "W \<subseteq> {unat (dirs ! (?n - 1))..<unat (dirs ! (?n - 1)) + 131072}" if "dirs \<noteq> []"
    using W that by (auto simp: last_conv_nth entryOffset_def size_defs)
  have kept: "peek (slotOf dirs i) 128 d' = frame_bytes h @ le 8 (unat o') \<and>
      frame_ok h as \<and> peek (unat o') (unat (fh_totalSize h)) d' = frame_bytes h @ attributes_bytes as"
    if i: "i < length fs" "fs ! i = (h, as, o')" for i h as o'
  proof -
    have ne: "dirs \<noteq> []" using i(1) full by auto
    then show ?thesis by (intro log_kept [OF rel t V96 _ WL [OF ne] _ i]) simp_all
  qed
  show ?thesis
    unfolding file_rel_def
  proof (intro conjI allI impI)
    show "SIMTRACE_HEADER_RESERVED_SPACE \<le> p + 131072" using D(1) by (simp add: size_defs)
    show "num H_directoryCapacity 2 d' = SIMTRACE_V3_DIRECTORY_SIZE"
    proof -
      have "(V \<union> W) \<inter> {100..<100 + 2} = {}" using V Wp by auto
      then show ?thesis using touches_num(1) [OF t, of 100 2] D(1,2) by (simp add: size_defs H_defs)
    qed
    show "num H_directoryCount 4 d' = length ?dirs" using count by (simp add: H_defs)
    show "length ?dirs \<le> SIMTRACE_V3_DIRECTORY_TABLE_SIZE" using room by (simp add: size_defs)
    show "num (H_directories + 8 * i) 8 d' = unat (?dirs ! i)" if "i < length ?dirs" for i
    proof (cases "i = ?n")
      case True
      then show ?thesis using tab by (simp add: H_defs)
    next
      case False
      then have i: "i < ?n" using that by simp
      have "(V \<union> W) \<inter> {168 + 8 * i..<168 + 8 * i + 8} = {}" using V Wp i room by auto
      then show ?thesis
        using touches_num(1) [OF t, of "168 + 8 * i" 8] D(1) D(5) [OF i] i room by (simp add: H_defs nth_append)
    qed
    show "\<forall>(o', n)\<in>set (regions ?dirs fs). SIMTRACE_HEADER_RESERVED_SPACE \<le> o' \<and> o' + n \<le> p + 131072"
      using reg x D(1) by (auto simp: regs size_defs)
    show "sorted_wrt apart (regions ?dirs fs)"
    proof -
      have "apart r (unat x, dirSize) \<and> apart (unat x, dirSize) r" if "r \<in> set (regions dirs fs)" for r
        using bspec [OF reg that] x by (auto simp: apart_def)
      then show ?thesis using D(8) by (auto simp: regions_def sorted_wrt_append)
    qed
    show "perDir * (length ?dirs - 1) \<le> length fs" "length fs \<le> perDir * length ?dirs"
      using full by (simp_all add: size_defs)
    show "case fs ! i of (h, as, o') \<Rightarrow>
        peek (slotOf ?dirs i) sizeof_FrameDirectoryEntry d' = frame_bytes h @ le 8 (unat o') \<and>
        frame_ok h as \<and> peek (unat o') (unat (fh_totalSize h)) d' = frame_bytes h @ attributes_bytes as"
      if "i < length fs" for i
      using kept [OF that] that full slotOf_append [of i dirs x] by (auto simp: size_defs split: prod.splits)
    show "num (entryOffset (?dirs ! j) perDir) 4 d' = unat SIMTRACE_V3_DIRECTORY_LINK_MARKER"
      "num (entryOffset (?dirs ! j) perDir + 8) 8 d' = unat (?dirs ! Suc j)" if j: "Suc j < length ?dirs" for j
    proof -
      have ne: "dirs \<noteq> []" using j by auto
      have "num (entryOffset (?dirs ! j) 1023) 4 d' = unat SIMTRACE_V3_DIRECTORY_LINK_MARKER \<and>
        num (entryOffset (?dirs ! j) 1023 + 8) 8 d' = unat (?dirs ! Suc j)"
      proof (cases "Suc j = ?n")
        case True
        then have "?dirs ! j = last dirs" using ne by (simp add: nth_append last_conv_nth flip: True)
        then show ?thesis using link [OF ne] True by (simp add: nth_append)
      next
        case False
        then have "Suc j < ?n" "j \<noteq> ?n - 1" using j by simp_all
        from link_kept [OF rel t V96 _ Wreg [OF ne] this] this ne show ?thesis by (simp add: nth_append)
      qed
      then show "num (entryOffset (?dirs ! j) perDir) 4 d' = unat SIMTRACE_V3_DIRECTORY_LINK_MARKER"
        "num (entryOffset (?dirs ! j) perDir + 8) 8 d' = unat (?dirs ! Suc j)" by (simp_all add: size_defs)
    qed
    show "peek (entryOffset (last ?dirs) k) sizeof_FrameDirectoryEntry d' = replicate sizeof_FrameDirectoryEntry 0"
      if "inLast ?dirs fs \<le> k \<and> k < SIMTRACE_V3_DIRECTORY_SIZE" for k
      by (rule peek_zero, rule zero) (use that x in \<open>auto simp: entryOffset_def size_defs\<close>)
  qed
qed

end
