(* ===== verification/Trace_Commit.thy ===== *)
theory Trace_Commit
  imports Trace_Store_Inv
begin

text \<open>
  The operations of the Simtrace3 store on the log of its file: a frame that is committed is the
  new last entry of the log, a write that fails leaves the log as it was.
\<close>

section \<open>Frame conditions\<close>

abbreviation writePos :: "sim3_store \<Rightarrow> nat" where
  "writePos s \<equiv> unat (tf_writePos (s3_file s))"

text \<open>Nothing but the bytes of \<open>W\<close> is changed.\<close>

definition quiet :: "nat set \<Rightarrow> sim3_store \<Rightarrow> sim3_store \<Rightarrow> bool" where
  "quiet W s s' \<longleftrightarrow>
     tf_writePos (s3_file s') = tf_writePos (s3_file s) \<and> tf_budget (s3_file s') = tf_budget (s3_file s) \<and>
     s3_readMode s' = s3_readMode s \<and> s3_loading s' = s3_loading s \<and> s3_directory s' = s3_directory s \<and>
     s3_nextFrameIndex s' = s3_nextFrameIndex s \<and> (\<forall>i. i \<notin> W \<longrightarrow> data s' i = data s i)"

lemma quiet_refl: "quiet W s s"
  by (simp add: quiet_def)

lemma quiet_trans: "quiet V s s' \<Longrightarrow> quiet W s' s'' \<Longrightarrow> quiet (V \<union> W) s s''"
  by (simp add: quiet_def)

lemma quiet_trans_same: "quiet W s s' \<Longrightarrow> quiet W s' s'' \<Longrightarrow> quiet W s s''"
  by (simp add: quiet_def)

lemma quiet_mono: "quiet V s s' \<Longrightarrow> V \<subseteq> W \<Longrightarrow> quiet W s s'"
  by (auto simp: quiet_def)

lemma quiet_data: "quiet W s s' \<Longrightarrow> i \<notin> W \<Longrightarrow> data s' i = data s i"
  by (simp add: quiet_def)

lemma quiet_mem_write: "{off..<off + length bs} \<subseteq> W \<Longrightarrow> quiet W s (mem_write off bs s)"
  by (auto simp: quiet_def mem_write_def poke_def)

lemma quiet_set:
  "{off..<off + 8} \<subseteq> W \<Longrightarrow> quiet W s (set64 off x s)"
  "{off..<off + 4} \<subseteq> W \<Longrightarrow> quiet W s (set32 off y s)"
  "{off..<off + 2} \<subseteq> W \<Longrightarrow> quiet W s (set16 off z s)"
  by (auto simp: set64_def set32_def set16_def intro!: quiet_mem_write)

lemma quiet_markDirty: "quiet statBytes s (markDirty s)"
  unfolding markDirty_def by (rule quiet_mem_write) (auto simp: statBytes_def H_defs)

lemma data_set [simp]:
  "data (mem_write off bs s) = poke off bs (data s)"
  "data (set64 off x s) = poke off (le 8 (unat x)) (data s)"
  "data (set32 off y s) = poke off (le 4 (unat y)) (data s)"
  "data (set16 off z s) = poke off (le 2 (unat z)) (data s)"
  by (simp_all add: mem_write_def set64_def set32_def set16_def)

lemma quiet_stat:
  "off + 8 \<le> 96 \<Longrightarrow> quiet statBytes s t \<Longrightarrow> quiet statBytes s (set64 off v t)"
  "off + 8 \<le> 96 \<Longrightarrow> quiet statBytes s t \<Longrightarrow> quiet statBytes s (lowerBound off v t)"
  "off + 8 \<le> 96 \<Longrightarrow> quiet statBytes s t \<Longrightarrow> quiet statBytes s (upperBound off v t)"
proof -
  assume *: "off + 8 \<le> 96" "quiet statBytes s t"
  have "quiet statBytes t (set64 off v t)" by (rule quiet_set) (use * in \<open>auto simp: statBytes_def\<close>)
  then show "quiet statBytes s (set64 off v t)" using * quiet_trans_same by blast
  then show "quiet statBytes s (lowerBound off v t)" "quiet statBytes s (upperBound off v t)"
    using * by (simp_all add: lowerBound_def upperBound_def)
qed

lemma quiet_information: "quiet statBytes s (addFrameToStoreInformation h u s)"
  unfolding addFrameToStoreInformation_def Let_def
  by (intro quiet_stat quiet_refl) (simp_all add: H_defs)

lemma file_rel_quiet: "file_rel (data s) p dirs fs \<Longrightarrow> quiet statBytes s s' \<Longrightarrow> file_rel (data s') p dirs fs"
  by (erule file_rel_mono) (simp_all add: quiet_data)

section \<open>Writing a frame\<close>

definition uncompressed :: "attributes \<Rightarrow> u64" where
  "uncompressed as = sum_list (map (\<lambda>(a, b). ah_uncompressedSize a + of_nat sizeof_AttributeHeader) as)"

lemma attributes_bytes_simps [simp]:
  "attributes_bytes [] = []" "attributes_bytes ((a, b) # as) = attribute_bytes a @ b @ attributes_bytes as"
  by (simp_all add: attributes_bytes_def)

lemma unat_off: "unat (off :: u64) + n < 2 ^ 64 \<Longrightarrow> unat (off + of_nat n) = unat off + n"
  by (simp add: unat_word_ariths unat_of_nat)

lemma poke_Nil: "poke off [] d = d"
  by (rule ext) (auto simp: poke_def)

lemma file_write_cases:
  assumes "file_write bs off f = (r, g)"
  shows "(\<exists>e k. r = Inl e \<and> tf_data g = poke (unat off) (take k bs) (tf_data f) \<and> tf_writePos g = tf_writePos f) \<or>
    r = Inr (of_nat (length bs)) \<and> tf_data g = poke (unat off) bs (tf_data f) \<and> tf_writePos g = tf_writePos f"
proof (cases "bs = []")
  case True
  then show ?thesis using assms by (auto simp: file_write_def poke_Nil)
qed (use assms in \<open>auto simp: file_write_def split: option.splits nat.splits prod.splits\<close>)

text \<open>The change of a file: outside of a range nothing.\<close>

definition within :: "nat \<Rightarrow> nat \<Rightarrow> trace_file \<Rightarrow> trace_file \<Rightarrow> bool" where
  "within a n f g \<longleftrightarrow> tf_writePos g = tf_writePos f \<and> (\<forall>i. i < a \<or> a + n \<le> i \<longrightarrow> tf_data g i = tf_data f i)"

lemma within_refl: "within a n f f"
  by (simp add: within_def)

lemma within_write: "file_write bs off f = (r, g) \<Longrightarrow> a \<le> unat off \<Longrightarrow> unat off + length bs \<le> a + n \<Longrightarrow> within a n f g"
  using file_write_cases [of bs off f r g] by (auto simp: within_def poke_def)

lemma within_trans: "within a n f g \<Longrightarrow> within a n g g' \<Longrightarrow> within a n f g'"
  by (simp add: within_def)

lemma within_mono: "within b m f g \<Longrightarrow> a \<le> b \<Longrightarrow> b + m \<le> a + n \<Longrightarrow> within a n f g"
  by (auto simp: within_def)

lemma writeAttributes_ok:
  assumes "writeAttributes as off written f = (r, g)" and "\<forall>(a, b)\<in>set as. length b = unat (ah_size a)"
    and "unat off + length (attributes_bytes as) < 2 ^ 64"
  shows "within (unat off) (length (attributes_bytes as)) f g \<and>
    (\<forall>w. r = Inr w \<longrightarrow> w = written + uncompressed as \<and> tf_data g = poke (unat off) (attributes_bytes as) (tf_data f))"
  using assms
proof (induction as off written f arbitrary: r g rule: writeAttributes.induct)
  case (1 off written f)
  then show ?case by (auto simp: within_refl uncompressed_def poke_Nil)
next
  case (2 ah buffer as off written f)
  let ?n = "length (attributes_bytes ((ah, buffer) # as))"
  have len: "length buffer = unat (ah_size ah)" using 2(3) by simp
  have room: "unat off + (32 + (length buffer + length (attributes_bytes as))) < 2 ^ 64"
    using 2(4) by (simp add: sizeof_AttributeHeader_def)
  obtain r1 f1 where w1: "file_write (attribute_bytes ah) off f = (r1, f1)" by (cases "file_write (attribute_bytes ah) off f")
  have in1: "within (unat off) ?n f f1" by (rule within_write [OF w1]) simp_all
  show ?case
  proof (cases r1)
    case (Inl e)
    then show ?thesis using 2(2) w1 in1 by auto
  next
    case n: (Inr n)
    then have n32: "n = of_nat 32" and d1: "tf_data f1 = poke (unat off) (attribute_bytes ah) (tf_data f)"
      using file_write_cases [OF w1] by (auto simp: sizeof_AttributeHeader_def)
    have o1: "unat (off + n) = unat off + 32" unfolding n32 by (rule unat_off) (use room in simp)
    obtain r2 f2 where w2: "file_write (take (unat (ah_size ah)) buffer) (off + n) f1 = (r2, f2)"
      by (cases "file_write (take (unat (ah_size ah)) buffer) (off + n) f1")
    have in2: "within (unat off) ?n f1 f2"
      by (rule within_write [OF w2]) (use len in \<open>simp_all add: o1 sizeof_AttributeHeader_def\<close>)
    show ?thesis
    proof (cases r2)
      case (Inl e)
      then show ?thesis using 2(2) w1 w2 n within_trans [OF in1 in2] by auto
    next
      case m: (Inr m)
      then have mm: "m = of_nat (length buffer)" and d2: "tf_data f2 = poke (unat (off + n)) buffer (tf_data f1)"
        using file_write_cases [OF w2] len by auto
      have o2: "unat (off + n + m) = unat off + (32 + length buffer)"
        unfolding mm by (subst unat_off) (use room o1 in simp_all)
      let ?w = "written + (ah_uncompressedSize ah + of_nat sizeof_AttributeHeader)"
      have call: "writeAttributes as (off + n + m) ?w f2 = (r, g)" using 2(2) w1 w2 n m by simp
      have IH: "within (unat (off + n + m)) (length (attributes_bytes as)) f2 g \<and>
        (\<forall>w. r = Inr w \<longrightarrow> w = ?w + uncompressed as \<and>
           tf_data g = poke (unat (off + n + m)) (attributes_bytes as) (tf_data f2))"
        using 2(1) [OF w1 [symmetric] n w2 [symmetric] m call] 2(3) room o2 by (simp add: prod.case_eq_if)
      have "within (unat off) ?n f2 g"
        by (rule within_mono [OF conjunct1 [OF IH]]) (simp_all add: o2 sizeof_AttributeHeader_def)
      then have "within (unat off) ?n f g" using in1 in2 within_trans by blast
      moreover have "tf_data g = poke (unat off) (attributes_bytes ((ah, buffer) # as)) (tf_data f)" if "r = Inr w" for w
        using IH that poke_append [of "unat off" "attribute_bytes ah" buffer "tf_data f"]
          poke_append [of "unat off" "attribute_bytes ah @ buffer" "attributes_bytes as" "tf_data f"]
        by (simp add: d2 d1 o1 o2 sizeof_AttributeHeader_def)
      ultimately show ?thesis using IH by (simp add: uncompressed_def add.assoc)
    qed
  qed
qed

lemma commitSpace_ok:
  assumes "commitSpace sz f = (r, g)" and "0 < unat sz" and "unat (tf_writePos f) + unat sz < 2 ^ 64"
  shows "tf_writePos g = tf_writePos f + sz \<and> unat (tf_writePos g) = unat (tf_writePos f) + unat sz \<and>
    (\<forall>i. i < unat (tf_writePos f) \<or> unat (tf_writePos f) + unat sz \<le> i \<longrightarrow> tf_data g i = tf_data f i) \<and>
    (\<forall>i. tf_data f i = 0 \<longrightarrow> tf_data g i = 0) \<and> (\<forall>x. r = Inr x \<longrightarrow> x = tf_writePos f)"
proof -
  define f1 where "f1 = f\<lparr>tf_writePos := tf_writePos f + sz\<rparr>"
  obtain r1 g1 where w: "file_write [0] (tf_writePos f + sz - 1) f1 = (r1, g1)" by (cases "file_write [0] (tf_writePos f + sz - 1) f1")
  have sum: "unat (tf_writePos f + sz) = unat (tf_writePos f) + unat sz" using assms(3) by (simp add: unat_word_ariths)
  have "1 \<le> tf_writePos f + sz" using sum assms(2) by (simp add: word_le_nat_alt)
  then have off: "unat (tf_writePos f + sz - 1) = unat (tf_writePos f) + unat sz - 1" using sum by (simp add: unat_sub)
  have "within (unat (tf_writePos f)) (unat sz) f1 g1"
    by (rule within_write [OF w]) (use off assms(2) in simp_all)
  moreover have "g = g1" "r = (case r1 of Inl e \<Rightarrow> Inl e | Inr _ \<Rightarrow> Inr (tf_writePos f))"
    using assms(1) w by (auto simp: commitSpace_def f1_def Let_def split: sum.splits)
  moreover have "tf_data g1 i = 0" if "tf_data f i = 0" for i
    using file_write_cases [OF w] that by (auto simp: f1_def poke_def)
  ultimately show ?thesis using sum by (auto simp: within_def f1_def split: sum.splits)
qed

lemma withFile_ok:
  assumes "withFile F s = (r, s')"
  obtains g where "F (s3_file s) = (r, g)" "s' = s\<lparr>s3_file := g\<rparr>"
  using assms by (auto simp: withFile_def split: prod.splits)

lemma writeFrame_ok:
  assumes call: "writeFrame f s = (r, s')" and ok: "frame_ok (fr_header f) (fr_attributes f)"
    and p: "p = writePos s" and n: "n = unat (fh_totalSize (fr_header f))" and room: "p + n < 2 ^ 64"
  shows "tf_writePos (s3_file s') = tf_writePos (s3_file s) + fh_totalSize (fr_header f) \<and> writePos s' = p + n \<and>
    s3_readMode s' = s3_readMode s \<and> s3_loading s' = s3_loading s \<and> s3_directory s' = s3_directory s \<and>
    s3_nextFrameIndex s' = s3_nextFrameIndex s \<and>
    (\<forall>i. i \<notin> statBytes \<longrightarrow> i < p \<or> p + n \<le> i \<longrightarrow> data s' i = data s i) \<and>
    (\<forall>x w. r = Inr (x, w) \<longrightarrow> x = tf_writePos (s3_file s) \<and>
       w = of_nat sizeof_FrameHeader + uncompressed (fr_attributes f) \<and>
       peek p n (data s') = frame_bytes (fr_header f) @ attributes_bytes (fr_attributes f))"
proof -
  let ?h = "fr_header f" and ?as = "fr_attributes f" and ?m = "markDirty s"
  have q: "quiet statBytes s ?m" by (rule quiet_markDirty)
  have pm: "tf_writePos (s3_file ?m) = tf_writePos (s3_file s)" using q by (simp add: quiet_def)
  have lens: "length (frame_bytes ?h) = 120" "n = 120 + length (attributes_bytes ?as)"
    using ok frame_length [of ?h] by (simp_all add: frame_ok_def n sizeof_FrameHeader_def)
  obtain g where F: "(case commitSpace (fh_totalSize ?h) (s3_file ?m) of
          (Inl e, f1) \<Rightarrow> (Inl e, f1)
        | (Inr frameOffset, f1) \<Rightarrow>
            (case file_write (frame_bytes ?h) frameOffset f1 of
               (Inl e, f2) \<Rightarrow> (Inl e, f2)
             | (Inr n, f2) \<Rightarrow>
                 (case writeAttributes ?as (frameOffset + n) (of_nat sizeof_FrameHeader) f2 of
                    (Inl e, f3) \<Rightarrow> (Inl e, f3)
                  | (Inr written, f3) \<Rightarrow> (Inr (frameOffset, written), f3)))) = (r, g)"
    and s': "s' = ?m\<lparr>s3_file := g\<rparr>"
    using call unfolding writeFrame_def by (rule withFile_ok)
  obtain r1 f1 where c: "commitSpace (fh_totalSize ?h) (s3_file ?m) = (r1, f1)"
    by (cases "commitSpace (fh_totalSize ?h) (s3_file ?m)")
  have C: "tf_writePos f1 = tf_writePos (s3_file s) + fh_totalSize ?h \<and> unat (tf_writePos f1) = p + n \<and>
    (\<forall>i. i < p \<or> p + n \<le> i \<longrightarrow> tf_data f1 i = data ?m i) \<and> (\<forall>x. r1 = Inr x \<longrightarrow> x = tf_writePos (s3_file s))"
    using commitSpace_ok [OF c] lens room unfolding pm p n by auto
  have main: "within p n f1 g \<and> (\<forall>x w. r = Inr (x, w) \<longrightarrow> x = tf_writePos (s3_file s) \<and>
     w = of_nat sizeof_FrameHeader + uncompressed ?as \<and> peek p n (tf_data g) = frame_bytes ?h @ attributes_bytes ?as)"
  proof (cases r1)
    case (Inl e)
    then show ?thesis using F c by (auto simp: within_refl)
  next
    case x: (Inr x)
    then have xp: "x = tf_writePos (s3_file s)" "unat x = p" using C p by simp_all
    obtain r2 f2 where w2: "file_write (frame_bytes ?h) x f1 = (r2, f2)" by (cases "file_write (frame_bytes ?h) x f1")
    have in2: "within p n f1 f2" by (rule within_write [OF w2]) (use xp lens in simp_all)
    show ?thesis
    proof (cases r2)
      case (Inl e)
      then show ?thesis using F c x w2 in2 by auto
    next
      case m: (Inr m)
      then have m120: "m = of_nat 120" and d2: "tf_data f2 = poke p (frame_bytes ?h) (tf_data f1)"
        using file_write_cases [OF w2] lens xp by auto
      have o2: "unat (x + m) = p + 120" unfolding m120 using xp room lens by (subst unat_off) simp_all
      obtain r3 f3 where w3: "writeAttributes ?as (x + m) (of_nat sizeof_FrameHeader) f2 = (r3, f3)"
        by (cases "writeAttributes ?as (x + m) (of_nat sizeof_FrameHeader) f2")
      have W: "within (p + 120) (length (attributes_bytes ?as)) f2 f3 \<and>
        (\<forall>w. r3 = Inr w \<longrightarrow> w = of_nat sizeof_FrameHeader + uncompressed ?as \<and>
           tf_data f3 = poke (p + 120) (attributes_bytes ?as) (tf_data f2))"
        using writeAttributes_ok [OF w3] ok room lens o2 by (simp add: frame_ok_def)
      have g: "g = f3" "r = (case r3 of Inl e \<Rightarrow> Inl e | Inr w \<Rightarrow> Inr (x, w))"
        using F c x w2 m w3 by (auto split: sum.splits)
      have "within p n f2 f3" by (rule within_mono [OF conjunct1 [OF W]]) (use lens in simp_all)
      then have "within p n f1 g" using in2 within_trans g by blast
      moreover have "peek p n (tf_data g) = frame_bytes ?h @ attributes_bytes ?as" if "r3 = Inr w" for w
        using W that g poke_append [of p "frame_bytes ?h" "attributes_bytes ?as" "tf_data f1"] lens
        by (simp add: d2 peek_poke)
      ultimately show ?thesis using W g xp by (auto split: sum.splits)
    qed
  qed
  show ?thesis
    using C main q unfolding s' by (auto simp: within_def quiet_def)
qed

section \<open>Adding a directory\<close>

text \<open>The store agrees with the log and can be written.\<close>

definition ready :: "sim3_store \<Rightarrow> u64 list \<Rightarrow> logged list \<Rightarrow> bool" where
  "ready s dirs fs \<longleftrightarrow>
     file_rel (data s) (writePos s) dirs fs \<and> (\<forall>i\<ge>writePos s. data s i = 0) \<and>
     s3_directory s = (if dirs = [] then None else Some (last dirs)) \<and>
     (dirs \<noteq> [] \<longrightarrow> unat (s3_nextFrameIndex s) = inLast dirs fs)"

lemma ready_quiet: "ready s dirs fs \<Longrightarrow> quiet statBytes s s' \<Longrightarrow> ready s' dirs fs"
proof -
  assume r: "ready s dirs fs" and q: "quiet statBytes s s'"
  have "4096 \<le> writePos s" using r file_rel_D(1) by (auto simp: ready_def)
  then have "data s' i = data s i" if "writePos s \<le> i" for i
    using that q by (auto simp: quiet_def statBytes_def)
  then show ?thesis using r q file_rel_quiet [of s _ dirs fs s'] by (auto simp: ready_def quiet_def)
qed

lemma ready_capacity: "file_rel (data s) p dirs fs \<Longrightarrow> get16 H_directoryCapacity s = 1024"
  using file_rel_D(2) [of "data s" p dirs fs] by (simp add: get16_def H_defs)

lemma reserveSpace_ok:
  assumes call: "reserveSpace sz s = (r, s')" and pos: "0 < unat sz" and room: "writePos s + unat sz < 2 ^ 64"
    and p: "4096 \<le> writePos s"
  shows "writePos s' = writePos s + unat sz \<and>
    s3_readMode s' = s3_readMode s \<and> s3_loading s' = s3_loading s \<and> s3_directory s' = s3_directory s \<and>
    s3_nextFrameIndex s' = s3_nextFrameIndex s \<and>
    (\<forall>i. i \<notin> statBytes \<longrightarrow> i < writePos s \<or> writePos s + unat sz \<le> i \<longrightarrow> data s' i = data s i) \<and>
    (\<forall>i\<ge>writePos s. data s i = 0 \<longrightarrow> data s' i = 0) \<and> (\<forall>x. r = Inr x \<longrightarrow> x = tf_writePos (s3_file s))"
proof -
  obtain r1 s1 where w: "withFile (commitSpace sz) s = (r1, s1)" by (cases "withFile (commitSpace sz) s")
  from w obtain g where c: "commitSpace sz (s3_file s) = (r1, g)" and s1: "s1 = s\<lparr>s3_file := g\<rparr>" by (rule withFile_ok)
  note C = commitSpace_ok [OF c pos room]
  have q: "quiet statBytes s1 s'" "r = r1"
    using call w quiet_stat [OF _ quiet_stat(1)] quiet_refl
    by (auto simp: reserveSpace_def Let_def H_defs split: sum.splits intro!: quiet_stat)
  have "data s' i = 0" if "writePos s \<le> i" "data s i = 0" for i
  proof -
    have "i \<notin> statBytes" using that(1) p by (auto simp: statBytes_def)
    then show ?thesis using quiet_data [OF q(1)] C that(2) by (simp add: s1)
  qed
  then show ?thesis using C q by (auto simp: quiet_def s1)
qed

lemma addDirectory_ok:
  assumes call: "addDirectory s = (r, s')" and rel: "ready s dirs fs" and full: "length fs = 1023 * length dirs"
    and room: "length dirs < 448" and fits: "writePos s + 131072 < 2 ^ 64"
  defines "V \<equiv> {96..<100} \<union> {168 + 8 * length dirs..<168 + 8 * length dirs + 8}"
    and "W \<equiv> (if dirs = [] then {} else {entryOffset (last dirs) 1023..<entryOffset (last dirs) 1023 + 16})"
  shows "s3_readMode s' = s3_readMode s \<and> s3_loading s' = s3_loading s \<and> writePos s' = writePos s + 131072 \<and>
    touches (V \<union> W) (writePos s) (data s) (data s') \<and>
    (case r of Inl e \<Rightarrow> file_rel (data s') (writePos s') dirs fs
     | Inr u \<Rightarrow> ready s' (dirs @ [tf_writePos (s3_file s)]) fs \<and> s3_nextFrameIndex s' = 0)"
proof -
  let ?p = "writePos s" and ?n = "length dirs" and ?m = "markDirty s" and ?x = "tf_writePos (s3_file s)"
  have q: "quiet statBytes s ?m" by (rule quiet_markDirty)
  have rm: "ready ?m dirs fs" by (rule ready_quiet [OF rel q])
  have pm: "tf_writePos (s3_file ?m) = ?x" using q by (simp add: quiet_def)
  have R: "file_rel (data ?m) ?p dirs fs" using rm pm by (simp add: ready_def)
  note D = file_rel_D [OF R]
  have cap: "get16 H_directoryCapacity ?m = 1024" by (rule ready_capacity [OF R])
  obtain r1 s1 where w: "reserveSpace 131072 ?m = (r1, s1)" by (cases "reserveSpace 131072 ?m")
  have S1: "writePos s1 = ?p + 131072" "s3_readMode s1 = s3_readMode s" "s3_loading s1 = s3_loading s"
    "s3_directory s1 = s3_directory s" "r1 = Inr y \<Longrightarrow> y = ?x"
    "i \<notin> statBytes \<Longrightarrow> i < ?p \<Longrightarrow> data s1 i = data s i" "?p \<le> i \<Longrightarrow> data s1 i = 0" for i y
    using reserveSpace_ok [OF w] fits D(1) rm q by (auto simp: pm ready_def quiet_def)
  have R1: "file_rel (data s1) (?p + 131072) dirs fs"
    by (rule file_rel_mono [OF R]) (use S1(6) q in \<open>auto simp: quiet_def\<close>)
  note D1 = file_rel_D [OF R1]
  have cap1: "get16 H_directoryCapacity s1 = 1024" by (rule ready_capacity [OF R1])
  show ?thesis
  proof (cases r1)
    case (Inl e)
    then have "r = Inl e" "s' = s1" using call w by (simp_all add: addDirectory_def cap Let_def size_defs)
    then show ?thesis using S1 R1 by (simp add: touches_def)
  next
    case (Inr y)
    then have y: "y = ?x" by (rule S1(5))
    let ?L = "entryOffset (last dirs) 1023"
    have cnt: "get32 96 s1 = of_nat ?n" "unat (get32 96 s1) = ?n"
      using D1(3) room by (simp_all add: get32_def unat_of_nat)
    have Suc: "unat (of_nat ?n + 1 :: u32) = Suc ?n" using room by (simp add: unat_word_ariths unat_of_nat)
    define s2 where "s2 = set64 (168 + 8 * ?n) ?x s1"
    define s3 where "s3 = set32 96 (of_nat ?n + 1) s2"
    define s4 where "s4 = (if dirs = [] then s3
      else set64 (?L + 8) ?x (set32 ?L SIMTRACE_V3_DIRECTORY_LINK_MARKER s3))"
    have c2: "get32 96 s2 = of_nat ?n" using cnt by (simp add: s2_def get32_def num_poke_out)
    have cap3: "get16 100 s3 = 1024" using cap1 by (simp add: s3_def s2_def get16_def num_poke_out H_defs)
    have q3: "quiet V s1 s3"
      unfolding s2_def s3_def V_def by (rule quiet_trans_same [OF quiet_set(1) quiet_set(2)]) auto
    then have dir3: "s3_directory s3 = (if dirs = [] then None else Some (last dirs))"
      using rel S1(4) by (simp add: quiet_def ready_def)
    have hd: "H_directoryCount = 96" "H_directories = 168" "H_directoryCapacity = 100" by (simp_all add: H_defs)
    have e: "set64 (H_directories + 8 * unat (get32 H_directoryCount s1)) ?x s1 = s2"
      "set32 H_directoryCount (get32 H_directoryCount s2 + 1) s2 = s3" "unat (get32 H_directoryCount s1) < 1024"
      "get16 H_directoryCapacity s3 = 1024"
      using cnt room cap3 c2 by (simp_all add: s2_def s3_def hd)
    have body: "addDirectory s = (Inr (), (mapDirectory ?x s4)\<lparr>s3_nextFrameIndex := 0\<rparr>)"
      using w Inr y cap dir3 by (auto simp: addDirectory_def Let_def sizeof_FrameDirectoryEntry_def e s4_def)
    have Wp: "W \<subseteq> {4096..<?p}" using D(6) [of "last dirs"] by (auto simp: W_def entryOffset_def size_defs)
    have q4: "quiet W s3 s4"
      unfolding s4_def W_def by (auto intro!: quiet_trans_same [OF quiet_set(2) quiet_set(1)] quiet_refl)
    have q14: "quiet (V \<union> W) s1 s4" by (rule quiet_trans [OF q3 q4])
    have d4: "data s' = data s4" "writePos s' = writePos s1" "s3_readMode s' = s3_readMode s1" "s3_loading s' = s3_loading s1"
      "s3_nextFrameIndex s' = 0" "s3_directory s' = Some ?x" "r = Inr ()"
      using call body q14 by (auto simp: mapDirectory_def quiet_def)
    have t: "touches (V \<union> W) ?p (data s) (data s4)"
      using S1(6) q14 by (simp add: touches_def quiet_def)
    have z: "data s4 i = 0" if "?p \<le> i" for i
    proof -
      have "i \<notin> V \<union> W" using that Wp D(1) room by (auto simp: V_def)
      then show ?thesis using S1(7) [OF that] quiet_data [OF q14] by simp
    qed
    have n4: "num 96 4 (data s3) = Suc ?n" "num (168 + 8 * ?n) 8 (data s3) = unat ?x"
      using Suc unle_words(2) [of "of_nat ?n + 1"] by (simp_all add: s3_def s2_def num_poke num_poke_out)
    have keep: "num a k (data s4) = num a k (data s3)" if "a + k \<le> 4096" for a k
      by (rule num_cong, rule quiet_data [OF q4]) (use that Wp in auto)
    have rel': "file_rel (data s4) (?p + 131072) (dirs @ [?x]) fs"
    proof (rule file_rel_dir [OF _ full room _ _ t])
      show "file_rel (data s) ?p dirs fs" using rel by (simp add: ready_def)
      show "num 96 4 (data s4) = Suc ?n" "num (168 + 8 * ?n) 8 (data s4) = unat ?x"
        using keep n4 room by simp_all
      show "num ?L 4 (data s4) = unat SIMTRACE_V3_DIRECTORY_LINK_MARKER \<and> num (?L + 8) 8 (data s4) = unat ?x"
        if "dirs \<noteq> []" using that by (simp add: s4_def num_poke num_poke_out)
    qed (simp_all add: V_def W_def z)
    have "inLast (dirs @ [?x]) fs = 0" using full by (simp add: inLast_def size_defs)
    then show ?thesis using d4 S1(1,2,3) t rel' z by (simp add: ready_def)
  qed
qed

section \<open>Adding an entry\<close>

lemma entry_ok:
  assumes rel: "ready s dirs fs" and ne: "dirs \<noteq> []" and room: "inLast dirs fs < 1023"
    and ok: "frame_ok h as" and at: "peek (unat x) (unat (fh_totalSize h)) (data s) = frame_bytes h @ attributes_bytes as"
    and place: "4096 \<le> unat x" "unat x + unat (fh_totalSize h) \<le> writePos s"
    and ap: "\<And>r. r \<in> set (regions dirs fs) \<Longrightarrow> apart r (unat x, unat (fh_totalSize h))"
    and e: "e = entryOffset (the (s3_directory s)) (unat (s3_nextFrameIndex s))"
    and s': "s' = set64 (e + sizeof_FrameHeader) x (mem_write e (frame_bytes h) (s\<lparr>s3_nextFrameIndex := s3_nextFrameIndex s + 1\<rparr>))"
  shows "ready s' dirs (fs @ [(h, as, x)]) \<and> s3_readMode s' = s3_readMode s \<and> s3_loading s' = s3_loading s \<and>
    writePos s' = writePos s"
proof -
  let ?p = "writePos s" and ?k = "inLast dirs fs"
  let ?t = "s\<lparr>s3_nextFrameIndex := s3_nextFrameIndex s + 1\<rparr>"
  have R: "file_rel (data s) ?p dirs fs" and z: "\<forall>i\<ge>?p. data s i = 0"
    and nxt: "unat (s3_nextFrameIndex s) = ?k" and dir: "s3_directory s = Some (last dirs)"
    using rel ne by (simp_all add: ready_def)
  note D = file_rel_D [OF R]
  have el: "e = entryOffset (last dirs) ?k" using e nxt dir by simp
  have len: "length (frame_bytes h) = 120" using ok frame_length [of h] by (simp add: frame_ok_def sizeof_FrameHeader_def)
  have q: "quiet {e..<e + 128} ?t s'"
    unfolding s' by (rule quiet_trans_same [OF quiet_mem_write quiet_set(1)]) (use len in \<open>auto simp: sizeof_FrameHeader_def\<close>)
  have epos: "e + 128 \<le> ?p" using el room D(6) [of "last dirs"] ne by (simp add: entryOffset_def size_defs)
  have rel': "file_rel (data s') ?p dirs (fs @ [(h, as, x)])"
  proof (rule file_rel_entry [OF R ne room el _ _ ok at place ap])
    show "touches {e..<e + 128} ?p (data s) (data s')" using q by (simp add: touches_def quiet_def)
    have "data s' = poke e (frame_bytes h @ le 8 (unat x)) (data s)"
      using len poke_append [of e "frame_bytes h" "le 8 (unat x)" "data s"] by (simp add: s' sizeof_FrameHeader_def)
    then show "peek e 128 (data s') = frame_bytes h @ le 8 (unat x)" using len by (simp add: peek_poke)
  qed
  have fields: "tf_writePos (s3_file s') = tf_writePos (s3_file s)" "s3_directory s' = s3_directory s"
    "s3_readMode s' = s3_readMode s" "s3_loading s' = s3_loading s" "s3_nextFrameIndex s' = s3_nextFrameIndex s + 1"
    using q by (simp_all add: quiet_def)
  have "unat (s3_nextFrameIndex s + 1) = Suc ?k" using nxt room by (simp add: unat_word_ariths)
  moreover have "inLast dirs (fs @ [(h, as, x)]) = Suc ?k" using D(9) by (simp add: inLast_def size_defs Suc_diff_le)
  moreover have "data s' i = 0" if "?p \<le> i" for i using that z epos quiet_data [OF q, of i] by simp
  ultimately show ?thesis using rel' ne dir by (simp add: ready_def fields)
qed

lemma addFrameToDirectory_ok:
  assumes call: "addFrameToDirectory h x s = (r, s')" and rel: "ready s dirs fs"
    and room: "length fs < 1023 * 448" and fits: "writePos s + 131072 < 2 ^ 64"
    and ok: "frame_ok h as" and at: "peek (unat x) (unat (fh_totalSize h)) (data s) = frame_bytes h @ attributes_bytes as"
    and place: "4096 \<le> unat x" "unat x + unat (fh_totalSize h) \<le> writePos s"
    and ap: "\<And>r. r \<in> set (regions dirs fs) \<Longrightarrow> apart r (unat x, unat (fh_totalSize h))"
  shows "s3_readMode s' = s3_readMode s \<and> s3_loading s' = s3_loading s \<and> writePos s' \<le> writePos s + 131072 \<and>
    (case r of Inl e \<Rightarrow> file_rel (data s') (writePos s') dirs fs
     | Inr u \<Rightarrow> \<exists>dirs'. ready s' dirs' (fs @ [(h, as, x)]))"
proof -
  let ?m = "markDirty s" and ?n = "length dirs"
  have q: "quiet statBytes s ?m" by (rule quiet_markDirty)
  have rm: "ready ?m dirs fs" by (rule ready_quiet [OF rel q])
  have pm: "writePos ?m = writePos s" "s3_readMode ?m = s3_readMode s" "s3_loading ?m = s3_loading s"
    using q by (simp_all add: quiet_def)
  have R: "file_rel (data ?m) (writePos s) dirs fs" using rm pm by (simp add: ready_def)
  note D = file_rel_D [OF R]
  have atm: "peek (unat x) (unat (fh_totalSize h)) (data ?m) = frame_bytes h @ attributes_bytes as"
    unfolding at [symmetric] by (rule peek_cong, rule quiet_data [OF q]) (use place in \<open>auto simp: statBytes_def\<close>)
  let ?grow = "s3_directory ?m = None \<or> unat (s3_nextFrameIndex ?m) = capacity ?m - 1"
  have grow: "?grow \<longleftrightarrow> dirs = [] \<or> inLast dirs fs = 1023"
    using rm ready_capacity [OF R] by (auto simp: ready_def)
  obtain r1 s1 where c: "(if ?grow then addDirectory ?m else (Inr (), ?m)) = (r1, s1)"
    by (cases "if ?grow then addDirectory ?m else (Inr (), ?m)")
  have G: "s3_readMode s1 = s3_readMode s \<and> s3_loading s1 = s3_loading s \<and> writePos s \<le> writePos s1 \<and>
      writePos s1 \<le> writePos s + 131072 \<and>
      (case r1 of Inl e \<Rightarrow> file_rel (data s1) (writePos s1) dirs fs
       | Inr u \<Rightarrow> \<exists>dirs1. ready s1 dirs1 fs \<and> dirs1 \<noteq> [] \<and> inLast dirs1 fs < 1023 \<and>
           peek (unat x) (unat (fh_totalSize h)) (data s1) = frame_bytes h @ attributes_bytes as \<and>
           (\<forall>r\<in>set (regions dirs1 fs). apart r (unat x, unat (fh_totalSize h))))"
  proof (cases ?grow)
    case False
    have "r1 = Inr ()" "s1 = ?m" using c unfolding if_not_P [OF False] by simp_all
    moreover have "dirs \<noteq> []" "inLast dirs fs \<noteq> 1023" using False grow by auto
    moreover have "inLast dirs fs \<le> 1023" using D(10) by (auto simp: inLast_def size_defs diff_mult_distrib2 algebra_simps)
    ultimately show ?thesis using rm pm atm ap by auto
  next
    case True
    have full: "length fs = 1023 * ?n"
    proof (cases "dirs = []")
      case False
      then show ?thesis using True grow D(9,10) by (cases ?n) (auto simp: inLast_def size_defs)
    qed (use D(10) in simp)
    have n448: "?n < 448" using full room by simp
    have call1: "addDirectory ?m = (r1, s1)" using True c by simp
    note A = addDirectory_ok [OF call1 rm full n448, unfolded pm, OF fits]
    let ?x1 = "tf_writePos (s3_file ?m)"
    show ?thesis
    proof (cases r1)
      case (Inl e)
      then show ?thesis using A pm by (simp; metis)
    next
      case (Inr u)
      have "inLast (dirs @ [?x1]) fs = 0" using full by (simp add: inLast_def size_defs)
      moreover have "peek (unat x) (unat (fh_totalSize h)) (data s1) = frame_bytes h @ attributes_bytes as"
      proof -
        let ?V = "{96..<100} \<union> {168 + 8 * ?n..<168 + 8 * ?n + 8}"
        let ?W = "if dirs = [] then {} else {entryOffset (last dirs) 1023..<entryOffset (last dirs) 1023 + 16}"
        have "apart (unat (last dirs), 131072) (unat x, unat (fh_totalSize h))" if "dirs \<noteq> []"
          by (rule ap) (use that in \<open>auto simp: regions_def size_defs\<close>)
        then have "?W \<inter> {unat x..<unat x + unat (fh_totalSize h)} = {}"
          by (auto simp: apart_def entryOffset_def size_defs)
        moreover have "?V \<inter> {unat x..<unat x + unat (fh_totalSize h)} = {}" using place n448 by auto
        ultimately have no: "(?V \<union> ?W) \<inter> {unat x..<unat x + unat (fh_totalSize h)} = {}" by blast
        have "touches (?V \<union> ?W) (writePos s) (data ?m) (data s1)" using A by blast
        from touches_num(2) [OF this _ _ _ no] show ?thesis using place D(1) atm by simp
      qed
      moreover have "apart r (unat x, unat (fh_totalSize h))" if "r \<in> set (regions (dirs @ [?x1]) fs)" for r
      proof (cases "r = (unat ?x1, dirSize)")
        case True
        then show ?thesis using place(2) pm by (simp add: apart_def)
      next
        case False
        then show ?thesis using that by (intro ap) (auto simp: regions_def)
      qed
      ultimately show ?thesis using A Inr pm by (auto intro!: exI [of _ "dirs @ [?x1]"])
    qed
  qed
  show ?thesis
  proof (cases r1)
    case (Inl e)
    then have "r = Inl e" "s' = s1" using call c by (simp_all add: addFrameToDirectory_def Let_def)
    then show ?thesis using G Inl by simp
  next
    case (Inr u)
    then obtain dirs1 where d1: "ready s1 dirs1 fs" "dirs1 \<noteq> []" "inLast dirs1 fs < 1023"
      "peek (unat x) (unat (fh_totalSize h)) (data s1) = frame_bytes h @ attributes_bytes as"
      "\<And>r. r \<in> set (regions dirs1 fs) \<Longrightarrow> apart r (unat x, unat (fh_totalSize h))"
      using G by auto
    define e where "e = entryOffset (the (s3_directory s1)) (unat (s3_nextFrameIndex s1))"
    define s3 where "s3 = set64 (e + sizeof_FrameHeader) x
      (mem_write e (frame_bytes h) (s1\<lparr>s3_nextFrameIndex := s3_nextFrameIndex s1 + 1\<rparr>))"
    have E: "ready s3 dirs1 (fs @ [(h, as, x)]) \<and> s3_readMode s3 = s3_readMode s1 \<and> s3_loading s3 = s3_loading s1 \<and>
      writePos s3 = writePos s1"
      by (rule entry_ok [OF d1(1,2,3) ok d1(4) place(1) _ d1(5) e_def s3_def]) (use G place in simp_all)
    have r: "r = Inr ()" "s' = set64 H_frameCount (get64 H_frameCount s3 + 1) s3"
      using call c Inr by (auto simp: addFrameToDirectory_def Let_def s3_def e_def)
    have q3: "quiet statBytes s3 s'" unfolding r by (rule quiet_stat(1) [OF _ quiet_refl]) (simp add: H_defs)
    show ?thesis using E G r(1) ready_quiet [OF _ q3] q3 by (auto simp: quiet_def)
  qed
qed

lemma commitFrame_ok:
  assumes call: "commitFrame f s = (r, s')" and rel: "ready s dirs fs"
    and open': "\<not> s3_readMode s" "\<not> s3_loading s"
    and h: "h = updateHash (fr_header f)" and ok: "frame_ok h (fr_attributes f)" and id: "fh_streamId h \<noteq> INVALID_STREAM_ID"
    and room: "length fs < 1023 * 448" and fits: "writePos s + unat (fh_totalSize h) + 131072 < 2 ^ 64"
  shows "case r of
      Inl e \<Rightarrow> s3_readMode s' \<and> \<not> s3_loading s' \<and> file_rel (data s') (writePos s') dirs fs
    | Inr x \<Rightarrow> x = tf_writePos (s3_file s) \<and> \<not> s3_readMode s' \<and> \<not> s3_loading s' \<and>
        writePos s' \<le> writePos s + unat (fh_totalSize h) + 131072 \<and>
        (\<exists>dirs'. ready s' dirs' (fs @ [(h, fr_attributes f, x)]))"
proof -
  let ?f = "f\<lparr>fr_header := h\<rparr>" and ?m = "markDirty s" and ?p = "writePos s" and ?n = "unat (fh_totalSize h)"
  have q: "quiet statBytes s ?m" by (rule quiet_markDirty)
  have rm: "ready ?m dirs fs" by (rule ready_quiet [OF rel q])
  have pm: "tf_writePos (s3_file ?m) = tf_writePos (s3_file s)" "s3_readMode ?m = False" "s3_loading ?m = False"
    using q open' by (simp_all add: quiet_def)
  have R: "file_rel (data ?m) ?p dirs fs" using rm pm by (simp add: ready_def)
  note D = file_rel_D [OF R]
  obtain r1 s1 where w: "writeFrame ?f ?m = (r1, s1)" by (cases "writeFrame ?f ?m")
  have okf: "frame_ok (fr_header ?f) (fr_attributes ?f)" using ok by simp
  have W: "writePos s1 = ?p + ?n \<and>
    s3_readMode s1 = False \<and> s3_loading s1 = False \<and> s3_directory s1 = s3_directory ?m \<and>
    s3_nextFrameIndex s1 = s3_nextFrameIndex ?m \<and>
    (\<forall>i. i \<notin> statBytes \<longrightarrow> i < ?p \<or> ?p + ?n \<le> i \<longrightarrow> data s1 i = data ?m i) \<and>
    (\<forall>x w. r1 = Inr (x, w) \<longrightarrow> x = tf_writePos (s3_file s) \<and>
       peek ?p ?n (data s1) = frame_bytes h @ attributes_bytes (fr_attributes f))"
    using writeFrame_ok [OF w okf refl refl] fits by (auto simp: pm)
  have R1: "file_rel (data s1) (writePos s1) dirs fs"
    by (rule file_rel_mono [OF R]) (use W in auto)
  show ?thesis
  proof (cases r1)
    case (Inl e)
    then have "r = Inl e" "s' = s1\<lparr>s3_readMode := True\<rparr>"
      using call w open' id h by (auto simp: commitFrame_def Let_def)
    then show ?thesis using R1 W by simp
  next
    case (Inr xw)
    then obtain x w1 where xw: "r1 = Inr (x, w1)" by (cases xw) auto
    then have x: "x = tf_writePos (s3_file s)" "unat x = ?p" using W by simp_all
    have rdy: "ready s1 dirs fs"
    proof -
      have "data s1 i = 0" if "?p + ?n \<le> i" for i
      proof -
        have "i \<notin> statBytes" using that D(1) by (auto simp: statBytes_def)
        then show ?thesis using that W rm pm by (simp add: ready_def)
      qed
      then show ?thesis using R1 W rm by (simp add: ready_def)
    qed
    obtain r2 s2 where a: "addFrameToDirectory h x s1 = (r2, s2)" by (cases "addFrameToDirectory h x s1")
    have ap: "apart r (unat x, ?n)" if "r \<in> set (regions dirs fs)" for r
      using R that x unfolding file_rel_def by (auto simp: apart_def)
    have A: "s3_readMode s2 = s3_readMode s1 \<and> s3_loading s2 = s3_loading s1 \<and> writePos s2 \<le> writePos s1 + 131072 \<and>
      (case r2 of Inl e \<Rightarrow> file_rel (data s2) (writePos s2) dirs fs
       | Inr u \<Rightarrow> \<exists>dirs'. ready s2 dirs' (fs @ [(h, fr_attributes f, x)]))"
      by (rule addFrameToDirectory_ok [OF a rdy room _ ok _ _ _ ap]) (use W fits xw x D(1) in simp_all)
    show ?thesis
    proof (cases r2)
      case (Inl e)
      then have "r = Inl e" "s' = s2\<lparr>s3_readMode := True\<rparr>"
        using call w xw a open' id h by (auto simp: commitFrame_def Let_def)
      then show ?thesis using A Inl W by simp
    next
      case (Inr u)
      then have r: "r = Inr x" "s' = addFrameToStoreInformation h w1 s2"
        using call w xw a open' id h by (auto simp: commitFrame_def Let_def)
      have q2: "quiet statBytes s2 s'" unfolding r by (rule quiet_information)
      show ?thesis using A Inr W x r(1) q2 ready_quiet [OF _ q2] by (auto simp: quiet_def)
    qed
  qed
qed

end
