(* ===== verification/Trace_Open.thy ===== *)
theory Trace_Open
  imports Trace_Commit
begin

text \<open>
  A new store has an empty log; opening the file of a store visits the entries of its log in the
  order they were committed; reading a frame of the log gives its header and attributes back.
\<close>

section \<open>A new store\<close>

lemma createStore_ok:
  assumes "createStore version budget = Inr s"
  shows "ready s [] [] \<and> \<not> s3_readMode s \<and> \<not> s3_loading s \<and> writePos s = 4096"
proof -
  obtain r f where c: "commitSpace (of_nat SIMTRACE_HEADER_RESERVED_SPACE) (emptyFile budget) = (r, f)"
    by (cases "commitSpace (of_nat SIMTRACE_HEADER_RESERVED_SPACE) (emptyFile budget)")
  let ?s0 = "\<lparr>s3_file = f, s3_readMode = False, s3_loading = False, s3_directory = None, s3_nextFrameIndex = 0\<rparr>"
  have s: "s = initalizeHeader version ?s0" using assms c by (auto simp: createStore_def split: sum.splits)
  have C: "unat (tf_writePos f) = 4096" "tf_data f i = 0" for i
    using commitSpace_ok [OF c] by (simp_all add: emptyFile_def size_defs)
  define t where "t = mem_write 0 (replicate SIMTRACE_HEADER_RESERVED_SPACE 0) ?s0"
  let ?A = "statBytes \<union> {100..<102}"
  have q: "quiet ?A t s"
    unfolding s initalizeHeader_def Let_def t_def markDirty_def
    by (rule quiet_trans_same [OF _ quiet_set(1)] quiet_trans_same [OF _ quiet_set(2)]
        quiet_trans_same [OF _ quiet_set(3)] quiet_mem_write | force simp: statBytes_def H_defs)+
  have dt: "data t i = 0" for i by (simp add: t_def poke_def C)
  have ds: "data s i = 0" if "i \<notin> ?A" for i using quiet_data [OF q that] dt by simp
  have cap: "num 100 2 (data s) = 1024"
    using unle_words(3) [of 1024] by (simp add: s initalizeHeader_def Let_def H_defs size_defs num_poke)
  have "num 96 4 (data s) = 0" by (rule num_zero, rule ds) (auto simp: statBytes_def)
  then have "file_rel (data s) 4096 [] []"
    using cap by (simp add: file_rel_def size_defs H_defs regions_def)
  moreover have "tf_writePos (s3_file s) = tf_writePos f" "s3_directory s = None" "\<not> s3_readMode s" "\<not> s3_loading s"
    using q by (simp_all add: quiet_def t_def mem_write_def)
  moreover have "data s i = 0" if "4096 \<le> i" for i by (rule ds) (use that in \<open>auto simp: statBytes_def\<close>)
  ultimately show ?thesis using C(1) by (simp add: ready_def)
qed

section \<open>The entries of the log\<close>

text \<open>The entries of a log, and what \<open>openFrame\<close> makes of them one after the other.\<close>

definition entries :: "logged list \<Rightarrow> (FrameHeader \<times> u64) list" where
  "entries fs = map (\<lambda>(h, as, x). (h, x)) fs"

fun openAll :: "(FrameHeader \<times> u64 \<Rightarrow> 'c \<Rightarrow> 'c res) \<Rightarrow> (FrameHeader \<times> u64) list \<Rightarrow> 'c \<Rightarrow> 'c res" where
  "openAll openFrame [] c = Inr c"
| "openAll openFrame (e # es) c = (case openFrame e c of Inl x \<Rightarrow> Inl x | Inr c1 \<Rightarrow> openAll openFrame es c1)"

lemma peek_frame_read: "peek a sizeof_FrameHeader d = frame_bytes h \<Longrightarrow> guid_ok (fh_typeId h) \<Longrightarrow>
    frame_read (peek a sizeof_FrameHeader d) = h"
  using frame_roundtrip [of h "[]"] by simp

lemma entry_read:
  assumes rel: "file_rel (data s) p dirs fs" and i: "i < length fs" "fs ! i = (h, as, x)"
  shows "frame_read (peek (slotOf dirs i) sizeof_FrameHeader (data s)) = h"
    "get64 (slotOf dirs i + sizeof_FrameHeader) s = x" "get32 (slotOf dirs i) s = SIMTRACE_V3_FRAME_MARKER"
proof -
  let ?e = "slotOf dirs i"
  have L: "peek ?e 128 (data s) = frame_bytes h @ le 8 (unat x)" "frame_ok h as"
    using file_rel_D(11) [OF rel i] by simp_all
  have g: "guid_ok (fh_typeId h)" "fh_markerValue h = SIMTRACE_V3_FRAME_MARKER" using L(2) by (simp_all add: frame_ok_def)
  have len: "length (frame_bytes h) = 120" using frame_length [OF g(1)] by (simp add: sizeof_FrameHeader_def)
  have "peek ?e sizeof_FrameHeader (data s) = frame_bytes h"
    using L(1) len peek_take [of 120 128 ?e "data s"] by (simp add: sizeof_FrameHeader_def)
  then show "frame_read (peek ?e sizeof_FrameHeader (data s)) = h" using g(1) by (rule peek_frame_read)
  have "num (?e + 120) 8 (data s) = unat x"
    using num_field [of 120 8 128 ?e "data s"] L(1) len by (simp add: field_skip field_last)
  then show "get64 (?e + sizeof_FrameHeader) s = x" by (simp add: get64_def sizeof_FrameHeader_def)
  have "num ?e 4 (data s) = unat SIMTRACE_V3_FRAME_MARKER"
    using num_field [of 0 4 128 ?e "data s"] L(1) g(2)
    by (simp add: frame_bytes_def frame_body_def field_hit)
  then show "get32 ?e s = SIMTRACE_V3_FRAME_MARKER" by (simp add: get32_def)
qed

lemma markers_differ:
  "SIMTRACE_V3_DIRECTORY_LINK_MARKER \<noteq> SIMTRACE_V3_FRAME_MARKER"
  "(0 :: u32) \<noteq> SIMTRACE_V3_FRAME_MARKER" "(0 :: u32) \<noteq> SIMTRACE_V3_DIRECTORY_LINK_MARKER"
  by (simp_all add: SIMTRACE_V3_DIRECTORY_LINK_MARKER_def SIMTRACE_V3_FRAME_MARKER_def)

lemma openLoop_ok:
  assumes "file_rel (data s) p dirs fs" and "s3_directory s = Some (dirs ! j)" and "j < length dirs" and "k \<le> 1023"
    and "1023 * j + k \<le> length fs" and "(length fs - (1023 * j + k)) + (length dirs - j) \<le> fuel"
  shows "fst (openLoop F fuel k s c) = Some (openAll F (entries (drop (1023 * j + k) fs)) c) \<and>
    (\<exists>o'. snd (openLoop F fuel k s c) = s\<lparr>s3_directory := o'\<rparr>)"
  using assms
proof (induction fuel arbitrary: k j s c)
  case 0
  then show ?case by simp
next
  case (Suc fuel)
  let ?e = "entryOffset (dirs ! j) k" and ?i = "1023 * j + k"
  note D = file_rel_D [OF Suc.prems(1)]
  have cap: "capacity s = 1024" using ready_capacity [OF Suc.prems(1)] by simp
  have same: "\<exists>o'. s = s\<lparr>s3_directory := o'\<rparr>" by (intro exI [of _ "s3_directory s"]) simp
  have ends: "fst (openLoop F (Suc fuel) k s c) = Some (Inr c) \<and> snd (openLoop F (Suc fuel) k s c) = s"
    if "get32 ?e s = 0"
    using that cap Suc.prems(2,4) markers_differ by simp
  show ?case
  proof (cases "k < 1023")
    case k: True
    show ?thesis
    proof (cases "?i < length fs")
      case i: True
      obtain h as x where f: "fs ! ?i = (h, as, x)" by (cases "fs ! ?i") auto
      have slot: "slotOf dirs ?i = ?e" using k by (simp add: slotOf_def size_defs)
      note E = entry_read [OF Suc.prems(1) i f, unfolded slot]
      have d: "drop ?i fs = (h, as, x) # drop (Suc ?i) fs" using Cons_nth_drop_Suc [OF i] f by simp
      show ?thesis
      proof (cases "F (h, x) c")
        case (Inl e)
        then show ?thesis using E Suc.prems(2,4) cap d same by (simp add: entries_def)
      next
        case (Inr c1)
        then show ?thesis
          using E Suc.prems cap d k i Suc.IH [OF Suc.prems(1,2,3), of "Suc k" c1] by (simp add: entries_def)
      qed
    next
      case False
      then have i: "?i = length fs" using Suc.prems(5) by simp
      have "j = length dirs - 1"
      proof (rule ccontr)
        assume "j \<noteq> length dirs - 1"
        then have "Suc j \<le> length dirs - 1" using Suc.prems(3) by simp
        then have "1023 * Suc j \<le> 1023 * (length dirs - 1)" by (rule mult_le_mono2)
        then show False using D(9) i k by simp
      qed
      moreover have ne: "dirs \<noteq> []" using Suc.prems(3) by auto
      ultimately have last: "last dirs = dirs ! j" and kk: "k = inLast dirs fs"
        using i by (simp_all add: last_conv_nth inLast_def size_defs flip: i)
      have "peek ?e 128 (data s) = replicate 128 0" using D(13) [OF ne, of k] k kk last by simp
      then have "num ?e 4 (data s) = 0"
        using num_field [of 0 4 128 ?e "data s"] unle_zero [of 4] by (simp add: field_def)
      then have "get32 ?e s = 0" by (simp add: get32_def)
      from ends [OF this] same i show ?thesis by (simp add: entries_def)
    qed
  next
    case False
    then have k: "k = 1023" using Suc.prems(4) by simp
    show ?thesis
    proof (cases "Suc j < length dirs")
      case True
      have L: "get32 ?e s = SIMTRACE_V3_DIRECTORY_LINK_MARKER" "get64 (?e + 8) s = dirs ! Suc j"
        using D(12) [OF True] k by (simp_all add: get32_def get64_def)
      let ?t = "mapDirectory (dirs ! Suc j) s"
      have t: "data ?t = data s" "s3_directory ?t = Some (dirs ! Suc j)" by (simp_all add: mapDirectory_def)
      have step: "openLoop F (Suc fuel) k s c = openLoop F fuel 0 ?t c"
        using L cap Suc.prems(2) k markers_differ(1) by simp
      have ii: "1023 * Suc j + 0 = ?i" using k by simp
      have "fst (openLoop F fuel 0 ?t c) = Some (openAll F (entries (drop (1023 * Suc j + 0) fs)) c) \<and>
        (\<exists>o'. snd (openLoop F fuel 0 ?t c) = ?t\<lparr>s3_directory := o'\<rparr>)"
        using Suc.prems t k True by (intro Suc.IH) simp_all
      then show ?thesis unfolding step ii by (auto simp: mapDirectory_def)
    next
      case False
      then have j: "j = length dirs - 1" using Suc.prems(3) by simp
      have n: "length dirs = Suc j" using j Suc.prems(3) by simp
      have i: "?i = length fs" using D(10) Suc.prems(5) k by (simp add: n)
      have ne: "dirs \<noteq> []" using Suc.prems(3) by auto
      then have last: "last dirs = dirs ! j" and kk: "k = inLast dirs fs"
        using j by (simp_all add: last_conv_nth inLast_def size_defs flip: i)
      have "peek ?e 128 (data s) = replicate 128 0" using D(13) [OF ne, of k] k kk last by simp
      then have "num ?e 4 (data s) = 0"
        using num_field [of 0 4 128 ?e "data s"] unle_zero [of 4] by (simp add: field_def)
      then have "get32 ?e s = 0" by (simp add: get32_def)
      from ends [OF this] same i show ?thesis by (simp add: entries_def)
    qed
  qed
qed

lemma openStore_ok:
  assumes rel: "file_rel (tf_data f) p dirs fs" and fuel: "length fs + 448 \<le> fuel"
  shows "fst (openStore F fuel f c) = Some (openAll F (entries fs) c)"
    "openAll F (entries fs) c = Inr y \<Longrightarrow> s3_readMode (snd (openStore F fuel f c)) \<and>
       \<not> s3_loading (snd (openStore F fuel f c)) \<and> s3_file (snd (openStore F fuel f c)) = f"
proof -
  let ?s = "\<lparr>s3_file = f, s3_readMode = False, s3_loading = True, s3_directory = None, s3_nextFrameIndex = 0\<rparr>"
  note D = file_rel_D [OF rel]
  have n: "get32 H_directoryCount ?s = of_nat (length dirs)" using D(3) by (simp add: get32_def H_defs)
  have n0: "get32 H_directoryCount ?s = 0 \<longleftrightarrow> dirs = []"
    unfolding n using D(4) by (simp add: word_unat_eq_iff unat_of_nat)
  let ?t = "mapDirectory (dirs ! 0) ?s"
  have loop: "fst (openLoop F fuel 0 ?t c) = Some (openAll F (entries (drop (1023 * 0 + 0) fs)) c) \<and>
    (\<exists>o'. snd (openLoop F fuel 0 ?t c) = ?t\<lparr>s3_directory := o'\<rparr>)" if "dirs \<noteq> []"
  proof (rule openLoop_ok)
    have "length fs + length dirs \<le> fuel" using fuel D(4) by linarith
    then show "length fs - (1023 * 0 + 0) + (length dirs - 0) \<le> fuel" by simp
  qed (use that rel in \<open>simp_all add: mapDirectory_def\<close>)
  have d0: "get64 H_directories ?s = dirs ! 0" "dirs ! 0 \<noteq> 0" if "dirs \<noteq> []"
  proof -
    show "get64 H_directories ?s = dirs ! 0" using D(5) [of 0] that by (simp add: get64_def H_defs)
    have "4096 \<le> unat (dirs ! 0)" using D(6) [of "dirs ! 0"] that by simp
    then show "dirs ! 0 \<noteq> 0" by auto
  qed
  have res: "fst (openStore F fuel f c) = Some (openAll F (entries fs) c) \<and>
    (\<forall>y. openAll F (entries fs) c = Inr y \<longrightarrow> s3_readMode (snd (openStore F fuel f c)) \<and>
       \<not> s3_loading (snd (openStore F fuel f c)) \<and> s3_file (snd (openStore F fuel f c)) = f)"
  proof (cases "dirs = []")
    case True
    then have "fs = []" using D(10) by simp
    then show ?thesis using n0 True by (simp add: openStore_def Let_def entries_def)
  next
    case False
    obtain r t' where l: "openLoop F fuel 0 ?t c = (r, t')" by (cases "openLoop F fuel 0 ?t c")
    then have "r = Some (openAll F (entries fs) c)" "\<exists>o'. t' = ?t\<lparr>s3_directory := o'\<rparr>" using loop [OF False] by simp_all
    then show ?thesis using n0 False d0 [OF False] l
      by (auto simp: openStore_def Let_def mapDirectory_def split: sum.splits)
  qed
  then show "fst (openStore F fuel f c) = Some (openAll F (entries fs) c)"
    "openAll F (entries fs) c = Inr y \<Longrightarrow> s3_readMode (snd (openStore F fuel f c)) \<and>
       \<not> s3_loading (snd (openStore F fuel f c)) \<and> s3_file (snd (openStore F fuel f c)) = f"
    by auto
qed

section \<open>Reading a frame\<close>

lemma attribute_split: "peek a (length (x @ y)) d = x @ y \<Longrightarrow> peek a (length x) d = x \<and> peek (a + length x) (length y) d = y"
  by (simp add: peek_add)

lemma readAttributes_ok:
  assumes "peek (base + unat position) (length (attributes_bytes as)) d = attributes_bytes as"
    and "\<forall>(a, b)\<in>set as. length b = unat (ah_size a)" and "unat position + length (attributes_bytes as) < 2 ^ 64"
  shows "readAttributes (length as) position d base = (as, position + of_nat (length (attributes_bytes as)))"
  using assms
proof (induction as arbitrary: position)
  case (Cons ab as)
  obtain a b where ab: "ab = (a, b)" by (cases ab)
  have len: "length b = unat (ah_size a)" using Cons.prems(2) ab by simp
  let ?p1 = "position + of_nat sizeof_AttributeHeader" and ?p2 = "position + of_nat sizeof_AttributeHeader + ah_size a"
  have room: "unat position + (32 + (length b + length (attributes_bytes as))) < 2 ^ 64"
    using Cons.prems(3) ab by (simp add: sizeof_AttributeHeader_def)
  have p1: "unat ?p1 = unat position + 32" unfolding sizeof_AttributeHeader_def by (rule unat_off) (use room in simp)
  have p2: "unat ?p2 = unat position + (32 + length b)"
    using unat_off [of ?p1 "length b"] room p1 len by simp
  have whole: "peek (base + unat position) (length (attribute_bytes a @ b @ attributes_bytes as)) d
      = attribute_bytes a @ b @ attributes_bytes as" using Cons.prems(1) ab by simp
  note s1 = attribute_split [OF whole]
  note s2 = attribute_split [OF conjunct2 [OF s1]]
  have "attribute_read (peek (base + unat position) sizeof_AttributeHeader d) = a"
    using s1 attribute_roundtrip [of a "[]"] by simp
  moreover have "peek (base + unat ?p1) (unat (ah_size a)) d = b"
    using s2 p1 len by (simp add: sizeof_AttributeHeader_def add.assoc)
  moreover have "readAttributes (length as) ?p2 d base = (as, ?p2 + of_nat (length (attributes_bytes as)))"
    using s2 p2 room Cons.prems(2) ab by (intro Cons.IH) (simp_all add: sizeof_AttributeHeader_def add.assoc)
  ultimately show ?case using ab len by (simp add: Let_def algebra_simps)
qed simp

lemma readFrame_ok:
  assumes rel: "file_rel (data s) p dirs fs" and mem: "(h, as, x) \<in> set fs" and p: "p < 2 ^ 64"
  shows "readFrame x s = Inr (\<lparr>fr_header = h, fr_attributes = as, fr_offset = x\<rparr>, fh_totalSize h)"
proof -
  obtain i where i: "i < length fs" "fs ! i = (h, as, x)" using mem by (auto simp: in_set_conv_nth)
  have L: "frame_ok h as" "peek (unat x) (unat (fh_totalSize h)) (data s) = frame_bytes h @ attributes_bytes as"
    using file_rel_D(11) [OF rel i] by simp_all
  have g: "guid_ok (fh_typeId h)" "validateHash h" and n: "unat (fh_attributeCount h) = length as"
    and sz: "\<forall>(a, b)\<in>set as. length b = unat (ah_size a)"
    and total: "unat (fh_totalSize h) = length (frame_bytes h @ attributes_bytes as)"
    using L(1) by (auto simp: frame_ok_def)
  have len: "length (frame_bytes h) = sizeof_FrameHeader" using frame_length [OF g(1)] by simp
  have room: "unat (fh_totalSize h) < 2 ^ 64" using unsigned_less [of "fh_totalSize h", where 'a = nat] by simp
  note s = attribute_split [OF L(2) [unfolded total]]
  have read: "frame_read (peek (unat x) sizeof_FrameHeader (data s)) = h"
    using s len g(1) by (intro peek_frame_read) simp_all
  have "readAttributes (length as) (of_nat sizeof_FrameHeader) (data s) (unat x)
      = (as, of_nat sizeof_FrameHeader + of_nat (length (attributes_bytes as)))"
    by (rule readAttributes_ok) (use s len room total sz in \<open>simp_all add: sizeof_FrameHeader_def\<close>)
  moreover have "of_nat sizeof_FrameHeader + of_nat (length (attributes_bytes as)) = fh_totalSize h"
    using arg_cong [OF total, of "of_nat :: nat \<Rightarrow> u64"] len by simp
  ultimately show ?thesis by (simp add: readFrame_def read g(2) n Let_def throwOn_def)
qed

section \<open>Building frames\<close>

text \<open>What \<open>addAttribute\<close> keeps: sizes, count and total size of a frame agree with its attributes.\<close>

definition frame_built :: "frame \<Rightarrow> bool" where
  "frame_built f \<longleftrightarrow> frame_ok (updateHash (fr_header f)) (fr_attributes f)"

lemma updateHash_frame: "guid_ok (fh_typeId h) \<Longrightarrow>
    frame_ok (updateHash h) as \<longleftrightarrow> fh_markerValue h = SIMTRACE_V3_FRAME_MARKER \<and>
     unat (fh_attributeCount h) = length as \<and> (\<forall>(a, b)\<in>set as. length b = unat (ah_size a)) \<and>
     unat (fh_totalSize h) = sizeof_FrameHeader + length (attributes_bytes as)"
  using frame_length [of "updateHash h"] updateHash_valid [of h] by (auto simp: frame_ok_def updateHash_def)

lemma newFrame_built:
  assumes "newFrame stream control = Inr f" and "\<And>sid t. stream = Some (sid, t) \<Longrightarrow> guid_ok t"
  shows "frame_built f"
  unfolding frame_built_def
  by (subst updateHash_frame)
    (use assms in \<open>auto simp: newFrame_def throwOn_def header_zero_def guid_ok_def Let_def sizeof_FrameHeader_def
      split: option.splits if_splits\<close>)

lemma addAttribute_built:
  assumes add: "addAttribute type un sz buffer f = Inr g" and built: "frame_built f"
    and mem: "unat sz \<le> length buffer" and room: "unat (fh_totalSize (fr_header f)) + 32 + unat sz < 2 ^ 64"
  shows "frame_built g"
proof -
  have gid: "guid_ok (fh_typeId (fr_header f))" using built by (simp add: frame_built_def frame_ok_def updateHash_def)
  note F = built [unfolded frame_built_def updateHash_frame [OF gid]]
  obtain l ah where g: "g = f\<lparr>fr_attributes := fr_attributes f @ [(ah, take (unat sz) buffer)],
      fr_header := (fr_header f)\<lparr>fh_attributes := l, fh_attributeCount := fh_attributeCount (fr_header f) + 1,
        fh_totalSize := fh_totalSize (fr_header f) + (of_nat sizeof_AttributeHeader + sz)\<rparr>\<rparr>"
    "ah_size ah = sz" "unat (fh_attributeCount (fr_header f)) < 2"
    using add by (auto simp: addAttribute_def throwOn_def Let_def SIMTRACE_V3_FRAME_ATTRIBUTE_TABLE_SIZE_def split: if_splits)
  have "unat (fh_totalSize (fr_header f) + (32 + sz)) = unat (fh_totalSize (fr_header f)) + (32 + unat sz)"
    using unat_off [of "fh_totalSize (fr_header f)" "32 + unat sz"] room by simp
  moreover have "unat (fh_attributeCount (fr_header f) + 1) = Suc (unat (fh_attributeCount (fr_header f)))"
    using g(3) by (simp add: unat_word_ariths)
  ultimately show ?thesis
    using F g mem gid unfolding frame_built_def
    by (subst updateHash_frame) (simp_all add: sizeof_AttributeHeader_def attributes_bytes_def)
qed

end
