(* ===== verification/Trace_System.thy ===== *)
theory Trace_System
  imports Trace_Open
begin

text \<open>
  The life of a Simtrace3 store: it is created, frames are committed to it, of which some may fail
  when the disk is full, and its file is opened again.
\<close>

section \<open>Commits that succeed\<close>

definition unlimited :: "trace_file \<Rightarrow> bool" where
  "unlimited f \<longleftrightarrow> tf_budget f = None"

lemma file_write_succeeds: "unlimited f \<Longrightarrow> bs \<noteq> [] \<Longrightarrow>
    \<exists>g. file_write bs off f = (Inr (of_nat (length bs)), g) \<and> unlimited g"
  by (simp add: file_write_def unlimited_def)

lemma commitSpace_succeeds: "unlimited f \<Longrightarrow> \<exists>g. commitSpace sz f = (Inr (tf_writePos f), g) \<and> unlimited g"
  by (simp add: commitSpace_def file_write_def unlimited_def Let_def)

lemma unlimited_quiet: "quiet W s s' \<Longrightarrow> unlimited (s3_file s') = unlimited (s3_file s)"
  by (simp add: quiet_def unlimited_def)

lemma unlimited_mem [simp]:
  "unlimited (s3_file (mem_write off bs s)) = unlimited (s3_file s)"
  "unlimited (s3_file (set64 off x s)) = unlimited (s3_file s)"
  "unlimited (s3_file (set32 off y s)) = unlimited (s3_file s)"
  "unlimited (s3_file (markDirty s)) = unlimited (s3_file s)"
  "unlimited (s3_file (mapDirectory x s)) = unlimited (s3_file s)"
  by (simp_all add: unlimited_def mem_write_def set64_def set32_def markDirty_def mapDirectory_def)

lemma writeAttributes_succeeds:
  "unlimited f \<Longrightarrow> \<forall>(a, b)\<in>set as. take (unat (ah_size a)) b \<noteq> [] \<Longrightarrow>
    \<exists>w g. writeAttributes as off written f = (Inr w, g) \<and> unlimited g"
proof (induction as off written f rule: writeAttributes.induct)
  case (2 ah buffer as off written f)
  obtain f1 where w1: "file_write (attribute_bytes ah) off f = (Inr (of_nat (length (attribute_bytes ah))), f1)" "unlimited f1"
    using file_write_succeeds [OF 2(2), of "attribute_bytes ah" off] by (auto simp: attribute_bytes_def)
  let ?n = "of_nat (length (attribute_bytes ah)) :: u64"
  obtain m f2 where w2: "file_write (take (unat (ah_size ah)) buffer) (off + ?n) f1 = (Inr m, f2)" "unlimited f2"
    using file_write_succeeds [OF w1(2), of "take (unat (ah_size ah)) buffer" "off + ?n"] 2(3) by auto
  have "\<exists>w g. writeAttributes as (off + ?n + m) (written + (ah_uncompressedSize ah + of_nat sizeof_AttributeHeader)) f2 = (Inr w, g)
      \<and> unlimited g"
    using 2(1) [OF w1(1) [symmetric] refl w2(1) [symmetric] refl w2(2)] 2(3) by simp
  then show ?case using w1 w2 by simp
qed simp

lemma addDirectory_succeeds:
  assumes "unlimited (s3_file s)"
  shows "\<exists>s'. addDirectory s = (Inr (), s') \<and> unlimited (s3_file s')"
proof -
  have "unlimited (s3_file (markDirty s))" using assms by simp
  from commitSpace_succeeds [OF this, of "of_nat (capacity (markDirty s) * sizeof_FrameDirectoryEntry)"]
  obtain g where g: "commitSpace (of_nat (capacity (markDirty s) * sizeof_FrameDirectoryEntry)) (s3_file (markDirty s)) =
      (Inr (tf_writePos (s3_file (markDirty s))), g)" "unlimited g" by blast
  show ?thesis
    unfolding addDirectory_def reserveSpace_def withFile_def Let_def g(1)
    by (simp add: g(2) split: option.splits)
qed

lemma addFrameToDirectory_succeeds:
  assumes "unlimited (s3_file s)"
  shows "\<exists>s'. addFrameToDirectory h x s = (Inr (), s') \<and> unlimited (s3_file s')"
proof -
  let ?b = "s3_directory (markDirty s) = None \<or> unat (s3_nextFrameIndex (markDirty s)) = capacity (markDirty s) - 1"
  have "\<exists>s1. (if ?b then addDirectory (markDirty s) else (Inr (), markDirty s)) = (Inr (), s1) \<and> unlimited (s3_file s1)"
    using addDirectory_succeeds [of "markDirty s"] assms by (cases ?b) simp_all
  then show ?thesis by (force simp: addFrameToDirectory_def Let_def)
qed

lemma addFrameToStoreInformation_unlimited:
  "unlimited (s3_file (addFrameToStoreInformation h u s)) = unlimited (s3_file s)"
  using unlimited_quiet [OF quiet_information] .

lemma commitFrame_succeeds:
  assumes "unlimited (s3_file s)" and "\<not> s3_readMode s" "\<not> s3_loading s"
    and "fh_streamId (fr_header f) \<noteq> INVALID_STREAM_ID"
    and "\<forall>(a, b)\<in>set (fr_attributes f). take (unat (ah_size a)) b \<noteq> []" and "guid_ok (fh_typeId (fr_header f))"
  shows "\<exists>x s'. commitFrame f s = (Inr x, s') \<and> unlimited (s3_file s')"
proof -
  let ?f = "f\<lparr>fr_header := updateHash (fr_header f)\<rparr>" and ?m = "markDirty (markDirty s)"
  have u: "unlimited (s3_file ?m)" using assms(1) by simp
  have id: "fh_streamId (updateHash (fr_header f)) = fh_streamId (fr_header f)" by (simp add: updateHash_def)
  obtain f1 where c: "commitSpace (fh_totalSize (updateHash (fr_header f))) (s3_file ?m) = (Inr (tf_writePos (s3_file ?m)), f1)" "unlimited f1"
    using commitSpace_succeeds [OF u] by blast
  have "length (frame_bytes (updateHash (fr_header f))) = 120"
    using frame_length [of "updateHash (fr_header f)"] assms(6) by (simp add: updateHash_def sizeof_FrameHeader_def)
  then obtain n f2 where w: "file_write (frame_bytes (updateHash (fr_header f))) (tf_writePos (s3_file ?m)) f1 = (Inr n, f2)" "unlimited f2"
    using file_write_succeeds [OF c(2), of "frame_bytes (updateHash (fr_header f))"] by fastforce
  obtain wr f3 where a: "writeAttributes (fr_attributes f) (tf_writePos (s3_file ?m) + n) (of_nat sizeof_FrameHeader) f2 = (Inr wr, f3)" "unlimited f3"
    using writeAttributes_succeeds [OF w(2) assms(5)] by blast
  have W: "writeFrame ?f (markDirty s) = (Inr (tf_writePos (s3_file ?m), wr), ?m\<lparr>s3_file := f3\<rparr>)"
    using c w a by (simp add: writeFrame_def withFile_def)
  obtain s2 where D: "addFrameToDirectory (updateHash (fr_header f)) (tf_writePos (s3_file ?m)) (?m\<lparr>s3_file := f3\<rparr>) = (Inr (), s2)" "unlimited (s3_file s2)"
    using addFrameToDirectory_succeeds [of "?m\<lparr>s3_file := f3\<rparr>"] a(2) by auto
  then show ?thesis
    using assms(2,3,4) W D(1) id by (simp add: commitFrame_def Let_def addFrameToStoreInformation_unlimited)
qed

section \<open>Histories of a store\<close>

text \<open>
  The frames are committed one after the other; the result lists those that were written, with
  their offsets.
\<close>

fun commitAll :: "frame list \<Rightarrow> sim3_store \<Rightarrow> (frame \<times> u64) list \<times> sim3_store" where
  "commitAll [] s = ([], s)"
| "commitAll (f # fs) s =
     (case commitFrame f s of
        (Inl e, s1) \<Rightarrow> commitAll fs s1
      | (Inr x, s1) \<Rightarrow> (case commitAll fs s1 of (l, s2) \<Rightarrow> ((f, x) # l, s2)))"

definition logOf :: "(frame \<times> u64) list \<Rightarrow> logged list" where
  "logOf l = map (\<lambda>(f, x). (updateHash (fr_header f), fr_attributes f, x)) l"

definition committable :: "frame \<Rightarrow> bool" where
  "committable f \<longleftrightarrow> frame_built f \<and> fh_streamId (fr_header f) \<noteq> INVALID_STREAM_ID"

text \<open>The space that frames need at most: each may need a new directory.\<close>

definition spaceOf :: "frame list \<Rightarrow> nat" where
  "spaceOf fs = sum_list (map (\<lambda>f. unat (fh_totalSize (fr_header f)) + 131072) fs)"

lemma commitFrame_readMode: "s3_readMode s \<Longrightarrow> commitFrame f s = (Inl InvalidOperationException, s)"
  by (simp add: commitFrame_def)

lemma commitAll_readMode: "s3_readMode s \<Longrightarrow> commitAll fs s = ([], s)"
  by (induction fs) (simp_all add: commitFrame_readMode)

lemma commitAll_ok:
  assumes "commitAll fs s = (l, s')" and "ready s dirs log" and "\<not> s3_readMode s" "\<not> s3_loading s"
    and "\<forall>f\<in>set fs. committable f" and "length log + length fs \<le> 1023 * 448" and "writePos s + spaceOf fs < 2 ^ 64"
  shows "(\<exists>dirs'. file_rel (data s') (writePos s') dirs' (log @ logOf l)) \<and> \<not> s3_loading s'"
  using assms
proof (induction fs arbitrary: s l dirs log)
  case Nil
  then show ?case by (auto simp: logOf_def ready_def)
next
  case (Cons f fs)
  let ?h = "updateHash (fr_header f)"
  obtain r s1 where c: "commitFrame f s = (r, s1)" by (cases "commitFrame f s")
  have ok: "frame_ok ?h (fr_attributes f)" and id: "fh_streamId ?h \<noteq> INVALID_STREAM_ID"
    using Cons.prems(5) by (auto simp: committable_def frame_built_def updateHash_def)
  have n: "fh_totalSize ?h = fh_totalSize (fr_header f)" by (simp add: updateHash_def)
  have room: "length log < 1023 * 448" and fits: "writePos s + unat (fh_totalSize ?h) + 131072 < 2 ^ 64"
    and fits2: "writePos s + (unat (fh_totalSize ?h) + 131072 + spaceOf fs) < 2 ^ 64"
    using Cons.prems(6,7) n by (simp_all add: spaceOf_def)
  note C = commitFrame_ok [OF c Cons.prems(2,3,4) refl ok id room fits]
  show ?case
  proof (cases r)
    case (Inl e)
    then have "commitAll fs s1 = ([], s1)" using C by (simp add: commitAll_readMode)
    then have l: "l = []" "s' = s1" using Cons.prems(1) c Inl by simp_all
    then show ?thesis using C Inl l Cons.prems(4) by (auto simp: logOf_def)
  next
    case (Inr x)
    obtain l2 where rec: "commitAll fs s1 = (l2, s')" and l: "l = (f, x) # l2"
      using Cons.prems(1) c Inr by (auto split: prod.splits)
    obtain dirs' where d: "ready s1 dirs' (log @ [(?h, fr_attributes f, x)])" using C Inr by auto
    have "(\<exists>dirs'. file_rel (data s') (writePos s') dirs' ((log @ [(?h, fr_attributes f, x)]) @ logOf l2)) \<and> \<not> s3_loading s'"
      by (rule Cons.IH [OF rec d]) (use C Inr Cons.prems fits2 in auto)
    then show ?thesis using l by (simp add: logOf_def)
  qed
qed

lemma commitAll_length: "length (fst (commitAll fs s)) \<le> length fs"
proof (induction fs arbitrary: s)
  case (Cons f fs)
  obtain r s1 where c: "commitFrame f s = (r, s1)" by (cases "commitFrame f s")
  obtain l2 s2 where l: "commitAll fs s1 = (l2, s2)" by (cases "commitAll fs s1")
  have "length l2 \<le> length fs" using Cons.IH [of s1] l by simp
  then show ?case using c l by (cases r) simp_all
qed simp

lemma quiet_finalize: "quiet statBytes s (finalizeHeader version now s)"
proof -
  have s: "quiet statBytes t (set64 72 x t)" "quiet statBytes t (set32 16 y t)" "quiet statBytes t (set32 3752 y t)"
    "quiet statBytes t (markClean t)" for t x y
    by (auto simp: statBytes_def markClean_def H_defs intro!: quiet_set quiet_mem_write)
  show ?thesis
    unfolding finalizeHeader_def Let_def H_defs
    by (cases "isDirty s") (simp_all add: quiet_refl
      quiet_trans_same [OF quiet_trans_same [OF quiet_trans_same [OF s(2) s(1)] s(3)] s(4)])
qed

text \<open>What the theorems assume of a history, and what it means for the log of the file.\<close>

definition history :: "u32 \<Rightarrow> (nat \<times> nat) option \<Rightarrow> frame list \<Rightarrow> (frame \<times> u64) list \<Rightarrow> sim3_store \<Rightarrow> bool" where
  "history version budget fs l s \<longleftrightarrow>
     (\<forall>f\<in>set fs. committable f) \<and> length fs \<le> 1023 * 448 \<and> 4096 + spaceOf fs < 2 ^ 64 \<and>
     (case createStore version budget of Inl e \<Rightarrow> False | Inr s0 \<Rightarrow> commitAll fs s0 = (l, s))"

lemma history_D:
  assumes "history version budget fs l s"
  obtains dirs where "file_rel (data s) (writePos s) dirs (logOf l)" "\<not> s3_loading s" "length l \<le> length fs"
proof -
  obtain s0 where s0: "createStore version budget = Inr s0" "commitAll fs s0 = (l, s)"
    using assms by (auto simp: history_def split: sum.splits)
  note C = createStore_ok [OF s0(1)]
  have "(\<exists>dirs'. file_rel (data s) (writePos s) dirs' ([] @ logOf l)) \<and> \<not> s3_loading s"
    by (rule commitAll_ok [OF s0(2)]) (use C assms in \<open>auto simp: history_def\<close>)
  moreover have "length l \<le> length fs" using commitAll_length [of fs s0] s0(2) by simp
  ultimately show thesis using that by auto
qed

lemma entries_logOf: "entries (logOf l) = map (\<lambda>(f, x). (updateHash (fr_header f), x)) l"
  by (auto simp: entries_def logOf_def)

lemma history_reopens:
  assumes h: "history version budget fs l s" and fuel: "length fs + 448 \<le> fuel"
    and q: "\<And>dirs. file_rel (data s) (writePos s) dirs (logOf l) \<Longrightarrow> file_rel (tf_data f) p dirs (logOf l)"
  shows "fst (openStore F fuel f c) = Some (openAll F (map (\<lambda>(f, x). (updateHash (fr_header f), x)) l) c)"
proof -
  from h obtain dirs where rel: "file_rel (data s) (writePos s) dirs (logOf l)" and "length l \<le> length fs" by (rule history_D)
  then have "length (logOf l) + 448 \<le> fuel" using fuel by (simp add: logOf_def)
  from openStore_ok(1) [OF q [OF rel] this] show ?thesis by (simp add: entries_logOf)
qed

lemma commitAll_append:
  "commitAll (fs @ gs) s = (case commitAll fs s of (l, s1) \<Rightarrow> case commitAll gs s1 of (m, s2) \<Rightarrow> (l @ m, s2))"
  by (induction fs arbitrary: s) (auto split: prod.splits sum.splits)

lemma commitFrame_fails:
  assumes "\<not> s3_loading s" and "committable f" and "\<not> s3_readMode s" and "commitFrame f s = (Inl e, s')"
  shows "s3_readMode s'"
  using assms by (auto simp: commitFrame_def committable_def updateHash_def Let_def split: sum.splits prod.splits if_splits)

lemma writeFrame_modes: "writeFrame f s = (r, s') \<Longrightarrow> s3_readMode s' = s3_readMode s \<and> s3_loading s' = s3_loading s"
  using quiet_markDirty [of s] by (auto simp: writeFrame_def withFile_def quiet_def split: prod.splits)

lemma modes_mem [simp]:
  "s3_readMode (mem_write off bs s) = s3_readMode s" "s3_loading (mem_write off bs s) = s3_loading s"
  "s3_readMode (set64 off x s) = s3_readMode s" "s3_loading (set64 off x s) = s3_loading s"
  "s3_readMode (set32 off y s) = s3_readMode s" "s3_loading (set32 off y s) = s3_loading s"
  "s3_readMode (markDirty s) = s3_readMode s" "s3_loading (markDirty s) = s3_loading s"
  "s3_readMode (mapDirectory x s) = s3_readMode s" "s3_loading (mapDirectory x s) = s3_loading s"
  "s3_readMode (if b then set64 off x s else s) = s3_readMode s" "s3_loading (if b then set64 off x s else s) = s3_loading s"
  by (simp_all add: mem_write_def set64_def set32_def markDirty_def mapDirectory_def)

lemma reserveSpace_modes:
  "reserveSpace n s = (r, s') \<Longrightarrow> s3_readMode s' = s3_readMode s \<and> s3_loading s' = s3_loading s"
  by (auto simp: reserveSpace_def withFile_def Let_def split: prod.splits sum.splits)

lemma addDirectory_modes:
  assumes "addDirectory s = (r, s')"
  shows "s3_readMode s' = s3_readMode s \<and> s3_loading s' = s3_loading s"
proof -
  obtain r1 s1 where w: "reserveSpace (of_nat (capacity (markDirty s) * sizeof_FrameDirectoryEntry)) (markDirty s) = (r1, s1)"
    by (cases "reserveSpace (of_nat (capacity (markDirty s) * sizeof_FrameDirectoryEntry)) (markDirty s)")
  have m: "s3_readMode s1 = s3_readMode s" "s3_loading s1 = s3_loading s" using reserveSpace_modes [OF w] by simp_all
  show ?thesis
    using assms m unfolding addDirectory_def Let_def w
    by (cases r1) (auto split: option.splits)
qed

lemma addFrameToDirectory_modes:
  "addFrameToDirectory h x s = (r, s') \<Longrightarrow> s3_readMode s' = s3_readMode s \<and> s3_loading s' = s3_loading s"
  using addDirectory_modes [of "markDirty s"]
  by (fastforce simp: addFrameToDirectory_def Let_def split: prod.splits sum.splits if_splits)

lemma commitFrame_modes:
  assumes "commitFrame f s = (Inr x, s')" 
  shows "\<not> s3_readMode s' \<and> \<not> s3_loading s'"
proof -
  obtain wr s1 s2 where m: "\<not> s3_readMode s" "\<not> s3_loading s"
    and w: "writeFrame (f\<lparr>fr_header := updateHash (fr_header f)\<rparr>) (markDirty s) = (Inr (x, wr), s1)"
    and d: "addFrameToDirectory (updateHash (fr_header f)) x s1 = (Inr (), s2)"
    and s': "s' = addFrameToStoreInformation (updateHash (fr_header f)) wr s2"
    using assms by (auto simp: commitFrame_def Let_def split: sum.splits prod.splits if_splits)
  show ?thesis
    using m writeFrame_modes [OF w] addFrameToDirectory_modes [OF d] quiet_information [of s2] quiet_markDirty [of s]
    by (simp add: s' quiet_def)
qed

lemma commitAll_succeeds:
  assumes "unlimited (s3_file s)" and "\<not> s3_readMode s" "\<not> s3_loading s"
    and "\<forall>f\<in>set fs. committable f \<and> (\<forall>(a, b)\<in>set (fr_attributes f). b \<noteq> [])"
  shows "map fst (fst (commitAll fs s)) = fs"
  using assms
proof (induction fs arbitrary: s)
  case (Cons f fs)
  have ok: "frame_ok (updateHash (fr_header f)) (fr_attributes f)" using Cons.prems(4) by (simp add: committable_def frame_built_def)
  have gid: "guid_ok (fh_typeId (fr_header f))" using ok by (simp add: frame_ok_def updateHash_def)
  have sid: "fh_streamId (fr_header f) \<noteq> INVALID_STREAM_ID" using Cons.prems(4) by (simp add: committable_def)
  have ne: "\<forall>(a, b)\<in>set (fr_attributes f). take (unat (ah_size a)) b \<noteq> []"
    using ok Cons.prems(4) by (force simp: frame_ok_def)
  from commitFrame_succeeds [OF Cons.prems(1,2,3) sid ne gid]
  obtain x s1 where c: "commitFrame f s = (Inr x, s1)" "unlimited (s3_file s1)" by blast
  note modes = commitFrame_modes [OF c(1)]
  have "map fst (fst (commitAll fs s1)) = fs" by (rule Cons.IH) (use c(2) modes Cons.prems(4) in auto)
  then show ?case using c by (auto split: prod.splits)
qed simp

lemma createStore_unlimited:
  assumes "createStore version None = Inr s"
  shows "unlimited (s3_file s)"
proof -
  obtain f where c: "commitSpace (of_nat SIMTRACE_HEADER_RESERVED_SPACE) (emptyFile None) = (Inr (tf_writePos (emptyFile None)), f)" "unlimited f"
    using commitSpace_succeeds [of "emptyFile None" "of_nat SIMTRACE_HEADER_RESERVED_SPACE"] by (auto simp: unlimited_def emptyFile_def)
  have "unlimited (s3_file (set16 off z t)) = unlimited (s3_file t)" for off z t by (simp add: set16_def)
  then show ?thesis using assms c by (auto simp: createStore_def initalizeHeader_def Let_def)
qed

lemma le_nth: "i < n \<Longrightarrow> le n v ! i = of_nat (v div 256 ^ i)"
proof (induction n v arbitrary: i rule: le.induct)
  case (2 n v)
  then show ?case by (cases i) (simp_all add: div_mult2_eq)
qed simp

lemma nth_peek: "i < n \<Longrightarrow> peek off n d ! i = d (off + i)"
  by (simp add: peek_def)

lemma take_le: "m \<le> n \<Longrightarrow> take m (le n v) = le m v"
  by (rule nth_equalityI) (simp_all add: le_nth)

section \<open>Properties\<close>

text \<open>
  C12: Whatever frames were committed, up to the 1023 * 448 frames and the 2^64 bytes that the directories can
  hold, and wherever the disk was full, closing the store and opening its file visits exactly the frames whose commit succeeded, in the order of the commits, each with
  its header and its offset, and the loop over the directories ends.
\<close>

theorem store_reopens_log:
  assumes "createStore version budget = Inr s0" and "commitAll fs s0 = (l, s)" and "\<And>f. f \<in> set fs \<Longrightarrow> committable f"
    and "length fs \<le> 1023 * 448" "4096 + spaceOf fs < 2 ^ 64" and "length fs + 448 \<le> fuel"
  shows "fst (openStore F fuel (s3_file (finalizeHeader v now s)) c) =
    Some (openAll F (map (\<lambda>(f, x). (updateHash (fr_header f), x)) l) c)"
proof -
  have "history version budget fs l s" using assms by (simp add: history_def)
  then show ?thesis using assms(6) by (rule history_reopens) (rule file_rel_quiet [OF _ quiet_finalize])
qed

text \<open>
  C15: Every frame whose commit succeeded is read back with its header and its attributes, whatever
  was committed after it (up to the frames and bytes that the directories can hold, see \<open>history\<close>) and even if a later commit failed.
\<close>

theorem store_reads_committed:
  assumes h: "history version budget fs l s" and mem: "(f, x) \<in> set l"
  shows "readFrame_public x s = Inr (\<lparr>fr_header = updateHash (fr_header f), fr_attributes = fr_attributes f, fr_offset = x\<rparr>,
    fh_totalSize (fr_header f))"
proof -
  from h obtain dirs where rel: "file_rel (data s) (writePos s) dirs (logOf l)" and n: "\<not> s3_loading s" by (rule history_D)
  have "(updateHash (fr_header f), fr_attributes f, x) \<in> set (logOf l)" using mem by (force simp: logOf_def)
  moreover have "writePos s < 2 ^ 64" using unsigned_less [of "tf_writePos (s3_file s)", where 'a = nat] by simp
  ultimately show ?thesis
    using readFrame_ok [OF rel] n by (simp add: readFrame_public_def throwOn_def updateHash_def)
qed


text \<open>
  While the disk has space, every frame with a stream and without empty attributes is
  committed; no commit fails for another reason.
\<close>

theorem store_commits_all:
  assumes c: "createStore version None = Inr s0"
    and fs: "\<forall>f\<in>set fs. committable f \<and> (\<forall>(a, b)\<in>set (fr_attributes f). b \<noteq> [])"
    and room: "length fs \<le> 1023 * 448" "4096 + spaceOf fs < 2 ^ 64"
  shows "map fst (fst (commitAll fs s0)) = fs"
  using commitAll_succeeds [OF _ _ _ fs] createStore_ok [OF c] createStore_unlimited [OF c] room by (simp add: ready_def)

text \<open>
  An attribute of size 0 makes the commit throw although the disk has space, and the store
  becomes read-only.
\<close>

theorem store_empty_attribute:
  assumes "\<not> s3_readMode s" "\<not> s3_loading s" "fh_streamId (fr_header f) \<noteq> INVALID_STREAM_ID"
    and "fr_attributes f = [(a, b)]" and "ah_size a = 0"
  shows "(\<exists>e. fst (commitFrame f s) = Inl e) \<and> s3_readMode (snd (commitFrame f s))"
proof -
  have w: "\<exists>e g. writeAttributes [(a, b)] off w fl = (Inl e, g)" for off w fl
    using assms(5) by (cases "file_write (attribute_bytes a) off fl") (auto simp: file_write_def split: sum.splits)
  have "\<exists>e s1. writeFrame (f\<lparr>fr_header := updateHash (fr_header f)\<rparr>) (markDirty s) = (Inl e, s1)"
  proof (cases "writeFrame (f\<lparr>fr_header := updateHash (fr_header f)\<rparr>) (markDirty s)")
    case (Pair r s1)
    obtain r1 f1 where c: "commitSpace (fh_totalSize (updateHash (fr_header f))) (s3_file (markDirty (markDirty s))) = (r1, f1)"
      by (cases "commitSpace (fh_totalSize (updateHash (fr_header f))) (s3_file (markDirty (markDirty s)))")
    have "r = Inl e" if "r1 = Inl e" for e using Pair c that by (simp add: writeFrame_def withFile_def)
    moreover have "\<exists>e. r = Inl e" if r1: "r1 = Inr x" for x
    proof -
      obtain r2 f2 where d: "file_write (frame_bytes (updateHash (fr_header f))) x f1 = (r2, f2)"
        by (cases "file_write (frame_bytes (updateHash (fr_header f))) x f1")
      show ?thesis
      proof (cases r2)
        case (Inr n)
        obtain e g where "writeAttributes [(a, b)] (x + n) (of_nat sizeof_FrameHeader) f2 = (Inl e, g)" using w by blast
        then show ?thesis using Pair c r1 d Inr assms(4) by (auto simp: writeFrame_def withFile_def simp del: writeAttributes.simps)
      qed (use Pair c r1 d in \<open>auto simp: writeFrame_def withFile_def\<close>)
    qed
    ultimately have "\<exists>e. r = Inl e" by (cases r1) auto
    then show ?thesis using Pair by (cases r) auto
  qed
  then show ?thesis
    using assms(1,2,3) by (auto simp: commitFrame_def Let_def updateHash_def)
qed

text \<open>
  C20: A frame made by the constructor and filled with at most two attributes has consistent sizes,
  markers, counts and checksum, its attributes are found by their type, and a third attribute is
  rejected.
\<close>

theorem frame_construction:
  assumes "guid_ok t" and "newFrame (Some (sid, t)) control = Inr f0"
    and "addAttribute ty1 u1 z1 b1 f0 = Inr f1" and "addAttribute ty2 u2 z2 b2 f1 = Inr f2"
    and "unat z1 \<le> length b1" "unat z2 \<le> length b2" "unat z1 + unat z2 + 184 < 2 ^ 64" and "ty1 \<noteq> ty2"
  shows "frame_built f0 \<and> frame_built f1 \<and> frame_built f2 \<and>
    map_option snd (findAttribute ty1 f2) = Some (take (unat z1) b1) \<and>
    map_option snd (findAttribute ty2 f2) = Some (take (unat z2) b2) \<and>
    addAttribute ty3 u3 z3 b3 f2 = Inl InvalidOperationException"
proof -
  have b0: "frame_built f0" by (rule newFrame_built [OF assms(2)]) (use assms(1) in simp)
  have h0: "fh_totalSize (fr_header f0) = 120" "fr_attributes f0 = []" "fh_attributeCount (fr_header f0) = 0"
    using assms(2) by (auto simp: newFrame_def throwOn_def header_zero_def Let_def sizeof_FrameHeader_def split: option.splits)
  have h1: "fh_totalSize (fr_header f1) = 120 + (32 + z1)" "fh_attributeCount (fr_header f1) = 1"
    "\<exists>ah. fr_attributes f1 = [(ah, take (unat z1) b1)] \<and> ah_type ah = ty1"
    using assms(3) h0 by (auto simp: addAttribute_def throwOn_def Let_def SIMTRACE_V3_FRAME_ATTRIBUTE_TABLE_SIZE_def sizeof_AttributeHeader_def)
  have h2: "fh_attributeCount (fr_header f2) = 2"
    "\<exists>ah bh. fr_attributes f2 = [(ah, take (unat z1) b1), (bh, take (unat z2) b2)] \<and> ah_type ah = ty1 \<and> ah_type bh = ty2"
    using assms(4) h1 by (auto simp: addAttribute_def throwOn_def Let_def SIMTRACE_V3_FRAME_ATTRIBUTE_TABLE_SIZE_def)
  have t1: "unat (fh_totalSize (fr_header f1)) = 152 + unat z1"
    using unat_off [of z1 152] assms(7) h1(1) by (simp add: add.commute)
  have b1: "frame_built f1" by (rule addAttribute_built [OF assms(3) b0 assms(5)]) (use assms(7) h0 in simp)
  have b2: "frame_built f2" by (rule addAttribute_built [OF assms(4) b1 assms(6)]) (use assms(7) t1 in simp)
  show ?thesis
    using b0 b1 b2 h2 assms(8)
    by (auto simp: findAttribute_def addAttribute_def throwOn_def SIMTRACE_V3_FRAME_ATTRIBUTE_TABLE_SIZE_def)
qed

text \<open>
  C40: The directory table of the header has 448 slots but is bounded by the capacity of a directory,
  1024: the 449th directory overwrites the checksum with the low half of its offset, and the dirty flag with the next
  byte of it. For a file below 4 GiB the store then counts as clean and its header is not finalised.
\<close>

theorem directory_table_overflow:
  assumes count: "get32 H_directoryCount s = 448" and cap: "get16 H_directoryCapacity s = 1024"
    and call: "addDirectory s = (Inr (), s')" and pos: "writePos s + 131072 < 2 ^ 64" "4096 \<le> writePos s"
    and dir: "s3_directory s = Some d" "4096 \<le> unat d"
  shows "get32 H_checksum s' = ucast (tf_writePos (s3_file s)) \<and> data s' H_dirtyFlag = of_nat (writePos s div 2 ^ 32) \<and>
    (writePos s < 2 ^ 32 \<longrightarrow> \<not> isDirty s' \<and> finalizeHeader v now s' = s')"
proof -
  let ?m = "markDirty s" and ?x = "tf_writePos (s3_file s)"
  have q: "quiet statBytes s ?m" by (rule quiet_markDirty)
  have m: "tf_writePos (s3_file ?m) = ?x" "s3_directory ?m = Some d" using q dir by (simp_all add: quiet_def)
  have capm: "get16 H_directoryCapacity ?m = 1024"
    using cap by (simp add: get16_def H_defs markDirty_def num_poke_out)
  obtain r1 s1 where w: "reserveSpace 131072 ?m = (r1, s1)" by (cases "reserveSpace 131072 ?m")
  have R: "writePos s1 = writePos s + 131072 \<and> s3_directory s1 = Some d \<and> (\<forall>i. i \<notin> statBytes \<longrightarrow> i < writePos s \<longrightarrow> data s1 i = data ?m i)
      \<and> (\<forall>y. r1 = Inr y \<longrightarrow> y = ?x)"
    using reserveSpace_ok [OF w] pos by (auto simp: m)
  have "num a n (data s1) = num a n (data s)" if "96 \<le> a" "a + n \<le> 3752" for a n
    by (rule num_cong) (use that R pos q in \<open>auto simp: quiet_def statBytes_def\<close>)
  then have c1: "get32 H_directoryCount s1 = 448" using count by (simp add: get32_def H_defs)
  obtain y where "r1 = Inr y" using call w capm by (cases r1) (auto simp: addDirectory_def Let_def size_defs)
  then have r1: "r1 = Inr ?x" using R by simp
  define s3 where "s3 = set32 H_directoryCount 449 (set64 H_checksum ?x s1)"
  have s3: "s3_directory s3 = Some d" "get16 H_directoryCapacity s3 = 1024" "get32 H_directoryCount (set64 H_checksum ?x s1) = 448"
    using R \<open>\<And>n a. 96 \<le> a \<Longrightarrow> a + n \<le> 3752 \<Longrightarrow> num a n (data s1) = num a n (data s)\<close> [of 100 2] cap c1
    by (simp_all add: s3_def get16_def get32_def H_defs num_poke_out) (simp_all add: set64_def set32_def mem_write_def)
  let ?L = "entryOffset d 1023"
  have H: "H_directories + 8 * unat (448 :: u32) = H_checksum" by (simp add: H_defs)
  have data': "data s' = poke (?L + 8) (le 8 (unat ?x)) (poke ?L (le 4 (unat SIMTRACE_V3_DIRECTORY_LINK_MARKER)) (data s3))"
    using call w r1 capm s3 c1 H by (auto simp: addDirectory_def Let_def size_defs mapDirectory_def simp flip: s3_def)
  have far: "3757 \<le> ?L" using dir(2) by (simp add: entryOffset_def)
  have at3: "data s3 (3752 + i) = le 8 (unat ?x) ! i" if "i < 8" for i
    using that by (simp add: s3_def poke_def H_defs)
  have at': "data s' (3752 + i) = le 8 (unat ?x) ! i" if "i < 5" for i
    using that far at3 [of i] by (simp add: data' poke_def)
  have flag: "data s' H_dirtyFlag = of_nat (writePos s div 2 ^ 32)" using at' [of 4] by (simp add: le_nth H_defs)
  then have clean: "writePos s < 2 ^ 32 \<longrightarrow> \<not> isDirty s'" by (simp add: isDirty_def)
  have "peek 3752 4 (data s') = take 4 (le 8 (unat ?x))"
    by (rule nth_equalityI) (simp_all add: nth_peek at')
  moreover have "take 4 (le 8 (unat ?x)) = le 4 (unat ?x)" by (simp add: take_le)
  ultimately have "num 3752 4 (data s') = unat ?x mod 2 ^ 32" by (simp add: num_def unle_le)
  then have "get32 H_checksum s' = of_nat (unat ?x mod 2 ^ 32)" by (simp add: get32_def H_defs)
  moreover have "(of_nat (unat ?x mod 2 ^ 32) :: u32) = ucast ?x"
    by (simp add: word_unat_eq_iff unsigned_of_nat unsigned_ucast_eq take_bit_eq_mod)
  ultimately have "get32 H_checksum s' = ucast ?x" by simp
  then show ?thesis using clean flag by (simp add: finalizeHeader_def)
qed

section \<open>Concrete stores\<close>

text \<open>A stream with the id 7 and a zero frame for it with one attribute of three bytes.\<close>

definition guid7 :: Guid where "guid7 = (1, 2, 3, replicate 8 4)"

definition frame7 :: frame where
  "frame7 = (case newFrame (Some (7, guid7)) None of
     Inl e \<Rightarrow> frame_of_header header_zero
   | Inr f \<Rightarrow> (case addAttribute SatStreamDescription 3 3 [1, 2, 3] f of Inl e \<Rightarrow> f | Inr g \<Rightarrow> g))"

lemma frame7_cases:
  obtains f0 where "newFrame (Some (7, guid7)) None = Inr f0" "addAttribute SatStreamDescription 3 3 [1, 2, 3] f0 = Inr frame7"
proof -
  obtain f0 where f0: "newFrame (Some (7, guid7)) None = Inr f0" by (simp add: newFrame_def throwOn_def Let_def)
  have "unat (fh_attributeCount (fr_header f0)) = 0" using f0 by (auto simp: newFrame_def throwOn_def Let_def header_zero_def)
  then obtain g where "addAttribute SatStreamDescription 3 3 [1, 2, 3] f0 = Inr g"
    by (simp add: addAttribute_def throwOn_def Let_def SIMTRACE_V3_FRAME_ATTRIBUTE_TABLE_SIZE_def)
  then show thesis using f0 by (intro that) (simp_all add: frame7_def)
qed

lemma addAttribute_fields:
  "addAttribute ty u z b f = Inr g \<Longrightarrow> fh_streamId (fr_header g) = fh_streamId (fr_header f) \<and>
    fh_totalSize (fr_header g) = fh_totalSize (fr_header f) + (32 + z) \<and>
    (\<exists>a. fr_attributes g = fr_attributes f @ [(a, take (unat z) b)])"
  by (auto simp: addAttribute_def throwOn_def Let_def sizeof_AttributeHeader_def split: if_splits)

lemma frame7_facts:
  "frame_built frame7" "fh_streamId (fr_header frame7) = 7" "unat (fh_totalSize (fr_header frame7)) = 155"
  "\<exists>a. fr_attributes frame7 = [(a, [1, 2, 3])]"
proof -
  obtain f0 where f: "newFrame (Some (7, guid7)) None = Inr f0" "addAttribute SatStreamDescription 3 3 [1, 2, 3] f0 = Inr frame7"
    by (rule frame7_cases)
  have gid: "guid_ok guid7" by (simp add: guid7_def guid_ok_def)
  have f0: "f0 = \<lparr>fr_header = header_zero\<lparr>fh_markerValue := SIMTRACE_V3_FRAME_MARKER, fh_streamId := 7, fh_typeId := guid7,
      fh_sequenceNumber := INVALID_STREAM_SEGMENT_ID, fh_startTime := INVALID_LARGE_OBJECT_ID,
      fh_endTime := INVALID_LARGE_OBJECT_ID, fh_startCycle := INVALID_LARGE_OBJECT_ID,
      fh_endCycle := INVALID_LARGE_OBJECT_ID, fh_startIndex := INVALID_ENTRY_INDEX, fh_totalSize := 120\<rparr>,
      fr_attributes = [], fr_offset = - 1\<rparr>"
    using f(1) by (simp add: newFrame_def throwOn_def Let_def sizeof_FrameHeader_def)
  show b: "frame_built frame7"
    by (rule addAttribute_built [OF f(2) newFrame_built [OF f(1)]]) (use gid f0 in \<open>auto simp: header_zero_def\<close>)
  show "fh_streamId (fr_header frame7) = 7" "unat (fh_totalSize (fr_header frame7)) = 155"
    "\<exists>a. fr_attributes frame7 = [(a, [1, 2, 3])]"
    using addAttribute_fields [OF f(2)] by (auto simp: f0 header_zero_def)
qed

lemma frame7_committable: "committable frame7"
  using frame7_facts by (simp add: committable_def INVALID_OBJECT_ID_def)

definition store7 :: "(nat \<times> nat) option \<Rightarrow> sim3_store" where
  "store7 budget = (case createStore 1 budget of Inr s \<Rightarrow> s)"

lemma budget_cases:
  obtains "b = None" | k where "b = Some (0, k)" | n k where "b = Some (Suc n, k)"
  by (metis not0_implies_Suc option.exhaust surj_pair)

lemma createStore_succeeds: "\<forall>k. budget \<noteq> Some (0, k) \<Longrightarrow> createStore 1 budget = Inr (store7 budget)"
  by (cases budget rule: budget_cases) (simp_all add: store7_def createStore_def commitSpace_def file_write_def emptyFile_def Let_def)

lemma history7:
  assumes "\<forall>k. budget \<noteq> Some (0, k)" and "n \<le> 3"
  shows "history 1 budget (replicate n frame7) (fst (commitAll (replicate n frame7) (store7 budget)))
    (snd (commitAll (replicate n frame7) (store7 budget)))"
  using assms createStore_succeeds [OF assms(1)] frame7_committable frame7_facts(3)
  by (auto simp: history_def spaceOf_def sum_list_replicate)

text \<open>The theorems on them; the disk of the third one is full after six writes.\<close>

theorem store_reopens_log_witness:
  "let (l, s) = commitAll [frame7, frame7] (store7 None)
   in fst (openStore (\<lambda>e c. Inr (c @ [snd e])) 500 (s3_file (finalizeHeader 1 0 s)) []) =
        Some (openAll (\<lambda>e c. Inr (c @ [snd e])) (map (\<lambda>(f, x). (updateHash (fr_header f), x)) l) [])"
proof -
  have h: "history 1 None [frame7, frame7] (fst (commitAll [frame7, frame7] (store7 None))) (snd (commitAll [frame7, frame7] (store7 None)))"
    using history7 [of None 2] by (simp add: numeral_2_eq_2 del: commitAll.simps)
  have c: "createStore 1 None = Inr (store7 None)" by (rule createStore_succeeds) simp
  have m: "length [frame7, frame7] \<le> 1023 * 448" "4096 + spaceOf [frame7, frame7] < 2 ^ 64" "length [frame7, frame7] + 448 \<le> 500"
    using h by (simp_all add: history_def del: commitAll.simps)
  have "committable f" if "f \<in> set [frame7, frame7]" for f using that frame7_committable by auto
  from store_reopens_log [OF c prod.collapse [symmetric] this m] show ?thesis
    by (simp add: case_prod_beta Let_def del: commitAll.simps)
qed

theorem store_reads_committed_witness:
  "\<exists>x. readFrame_public x (snd (commitAll [frame7] (store7 None))) =
     Inr (\<lparr>fr_header = updateHash (fr_header frame7), fr_attributes = fr_attributes frame7, fr_offset = x\<rparr>,
          fh_totalSize (fr_header frame7))"
proof -
  have "map fst (fst (commitAll [frame7] (store7 None))) = [frame7]"
    using commitAll_succeeds [of "store7 None" "[frame7]"] createStore_ok [OF createStore_succeeds [of None]]
      createStore_unlimited [OF createStore_succeeds [of None]] frame7_committable frame7_facts(4) by auto
  then obtain x where "(frame7, x) \<in> set (fst (commitAll [frame7] (store7 None)))" by auto
  moreover have "history 1 None [frame7] (fst (commitAll [frame7] (store7 None))) (snd (commitAll [frame7] (store7 None)))"
    using history7 [of None 1] by (simp del: commitAll.simps)
  ultimately show ?thesis using store_reads_committed by blast
qed

theorem store_commits_all_witness:
  "map fst (fst (commitAll [frame7, frame7] (store7 None))) = [frame7, frame7]"
proof (rule store_commits_all [OF createStore_succeeds [of None]])
  show "\<forall>f\<in>set [frame7, frame7]. committable f \<and> (\<forall>(a, b)\<in>set (fr_attributes f). b \<noteq> [])"
    using frame7_committable frame7_facts(4) by auto
qed (simp_all add: spaceOf_def frame7_facts)

lemma store7_budget: "tf_budget (s3_file (store7 (Some (2, 7)))) = Some (1, 7)"
  by (simp add: store7_def createStore_def commitSpace_def file_write_def emptyFile_def Let_def initalizeHeader_def
    mem_write_def set64_def set32_def set16_def markDirty_def)

lemma commitFrame_disk_full:
  assumes "tf_budget (s3_file s) = Some (1, 7)" and "\<not> s3_readMode s" "\<not> s3_loading s" and f: "committable f"
  shows "\<exists>e s'. commitFrame f s = (Inl e, s')"
proof -
  have b: "tf_budget (s3_file (markDirty (markDirty s))) = Some (1, 7)" using assms(1) by (simp add: markDirty_def mem_write_def)
  then obtain g where c: "commitSpace n (s3_file (markDirty (markDirty s))) = (Inr (tf_writePos (s3_file (markDirty (markDirty s)))), g n)"
    "tf_budget (g n) = Some (0, 7)" for n
    by (simp add: commitSpace_def file_write_def Let_def)
  have "\<exists>e s1. writeFrame (f\<lparr>fr_header := updateHash (fr_header f)\<rparr>) (markDirty s) = (Inl e, s1)"
    using c by (simp add: writeFrame_def withFile_def file_write_def)
  then show ?thesis using assms f by (auto simp: commitFrame_def Let_def committable_def updateHash_def)
qed


definition attribute_empty :: AttributeHeader where
  "attribute_empty = \<lparr>ah_markerValue = 0, ah_type = 0, ah_reserved0 = (0, 0, 0), ah_reserved1 = 0, ah_size = 0, ah_uncompressedSize = 0\<rparr>"

definition frame_empty :: frame where
  "frame_empty = frame7\<lparr>fr_attributes := [(attribute_empty, [])]\<rparr>"

theorem store_empty_attribute_witness:
  "(\<exists>e. fst (commitFrame frame_empty (store7 None)) = Inl e) \<and> s3_readMode (snd (commitFrame frame_empty (store7 None)))"
proof (rule store_empty_attribute [where a = attribute_empty and b = "[]"])
  show "\<not> s3_readMode (store7 None)" "\<not> s3_loading (store7 None)"
    using createStore_ok [OF createStore_succeeds [of None]] by simp_all
qed (simp_all add: frame_empty_def attribute_empty_def frame7_facts INVALID_OBJECT_ID_def)

theorem frame_construction_witness:
  "\<exists>f0 f1 f2. newFrame (Some (7, guid7)) None = Inr f0 \<and> addAttribute 0 3 3 [1, 2, 3] f0 = Inr f1 \<and>
     addAttribute 1 1 1 [9] f1 = Inr f2 \<and> frame_built f2 \<and> map_option snd (findAttribute 1 f2) = Some [9]"
proof -
  obtain f0 where f0: "newFrame (Some (7, guid7)) None = Inr f0" "unat (fh_attributeCount (fr_header f0)) = 0"
    by (simp add: newFrame_def throwOn_def Let_def header_zero_def)
  obtain f1 where f1: "addAttribute 0 3 3 [1, 2, 3] f0 = Inr f1" "unat (fh_attributeCount (fr_header f1)) = 1"
    using f0(2) by (simp add: addAttribute_def throwOn_def Let_def SIMTRACE_V3_FRAME_ATTRIBUTE_TABLE_SIZE_def unat_word_ariths)
  obtain f2 where f2: "addAttribute 1 1 1 [9] f1 = Inr f2"
    using f1(2) by (simp add: addAttribute_def throwOn_def Let_def SIMTRACE_V3_FRAME_ATTRIBUTE_TABLE_SIZE_def)
  have "guid_ok guid7" by (simp add: guid7_def guid_ok_def)
  from frame_construction [OF this f0(1) f1(1) f2] f0 f1 f2 show ?thesis by auto
qed

text \<open>A store whose header counts 448 directories, the last one at 8192.\<close>

definition store448 :: sim3_store where
  "store448 = (store7 None)\<lparr>s3_file := (s3_file (store7 None))\<lparr>
     tf_data := poke H_directoryCount (le 4 448) (data (store7 None)), tf_writePos := 0x100000\<rparr>, s3_directory := Some 8192\<rparr>"

theorem directory_table_overflow_witness:
  "\<exists>s'. addDirectory store448 = (Inr (), s') \<and> get32 H_checksum s' = 0x100000 \<and> \<not> isDirty s' \<and> finalizeHeader 1 0 s' = s'"
proof -
  have r: "ready (store7 None) [] []" using createStore_ok [OF createStore_succeeds [of None]] by simp
  then have "file_rel (data (store7 None)) (writePos (store7 None)) [] []" by (simp add: ready_def)
  then have "get16 H_directoryCapacity (store7 None) = 1024" by (rule ready_capacity)
  then have c: "get16 H_directoryCapacity store448 = 1024"
    by (simp add: store448_def get16_def num_poke_out H_defs)
  have n: "get32 H_directoryCount store448 = 448"
    using unle_words(2) [of 448] by (simp add: store448_def get32_def num_poke)
  have "unlimited (s3_file store448)"
    using createStore_unlimited [OF createStore_succeeds [of None]] by (simp add: store448_def unlimited_def)
  then obtain s' where s': "addDirectory store448 = (Inr (), s')" using addDirectory_succeeds by blast
  have "get32 H_checksum s' = ucast (tf_writePos (s3_file store448)) \<and> data s' H_dirtyFlag = of_nat (writePos store448 div 2 ^ 32) \<and>
      (writePos store448 < 2 ^ 32 \<longrightarrow> \<not> isDirty s' \<and> finalizeHeader 1 0 s' = s')"
    by (rule directory_table_overflow [OF n c s', where d = 8192]) (simp_all add: store448_def)
  then show ?thesis using s' by (simp add: store448_def)
qed

end
