(* ===== verification/Multiplexer.thy ===== *)
theory Multiplexer
  imports Memory_Encoder Trace_Format "HOL-Library.Multiset"
begin

text \<open>
  The stream multiplexer (\<open>libsimutraceX/StreamMultiplexer.cpp\<close>), a dynamic stream that returns
  the entries of its input streams one after the other, by turns or in the order of their cycle
  counts. What \<open>StGetNextEntryFast\<close> still returns for an input stream, up to the null pointer, is
  the list of its entries.
\<close>

section \<open>The state\<close>

datatype MultiplexingRule = MxrRoundRobin | MxrCycleCount

definition MxfIndirect :: u32 where "MxfIndirect = 1"

record MultiplexerEntry =
  me_cycleCount :: u64
  me_streamId :: u32
  me_streamIdx :: u32
  me_entry :: "u8 list"

text \<open>\<open>HandleStreamContext\<close>: the current entry and the entries behind it.\<close>

record stream_context =
  sc_entry :: MultiplexerEntry
  sc_rest :: "u8 list list"

text \<open>\<open>HandleContext\<close>: the list of the streams that are not exhausted and the index into it.\<close>

record handle_context =
  hc_list :: "stream_context list"
  hc_index :: int

section \<open>Operations\<close>

definition entryCycle :: "bool \<Rightarrow> u8 list \<Rightarrow> u64" where
  "entryCycle temporal e =
     (if temporal then of_nat (field e 0 8) AND TEMPORAL_ORDER_CYCLE_COUNT_MASK else INVALID_LARGE_OBJECT_ID)"

definition update :: "bool \<Rightarrow> stream_context \<Rightarrow> stream_context option" where
  "update temporal s =
     (case sc_rest s of
        [] \<Rightarrow> None
      | e # es \<Rightarrow> Some \<lparr>sc_entry = (sc_entry s)\<lparr>me_entry := e, me_cycleCount := entryCycle temporal e\<rparr>, sc_rest = es\<rparr>)"

abbreviation cyc :: "stream_context \<Rightarrow> u64" where
  "cyc s \<equiv> me_cycleCount (sc_entry s)"

definition getNextEntryHandler :: "MultiplexingRule \<Rightarrow> u32 \<Rightarrow> bool \<Rightarrow> (MultiplexingRule \<times> bool \<times> bool) res" where
  "getNextEntryHandler rule flags temporal =
     (case rule of
        MxrRoundRobin \<Rightarrow> Inr (MxrRoundRobin, isSet flags MxfIndirect, temporal)
      | MxrCycleCount \<Rightarrow> throwOn (\<not> temporal) GenericException (Inr (MxrCycleCount, isSet flags MxfIndirect, True)))"

text \<open>
  \<open>_open\<close>: the contexts of the input streams, given by their ids and entries; those that are not
  empty are listed. \<open>std_sort\<close> is \<open>std::sort\<close> with the comparison of the cycle counts.
\<close>

definition newContext :: "nat \<Rightarrow> u32 \<Rightarrow> u8 list list \<Rightarrow> stream_context" where
  "newContext i sid es =
     \<lparr>sc_entry = \<lparr>me_cycleCount = 0, me_streamId = sid, me_streamIdx = of_nat i, me_entry = []\<rparr>, sc_rest = es\<rparr>"

definition openContext ::
  "(stream_context list \<Rightarrow> stream_context list) \<Rightarrow> MultiplexingRule \<Rightarrow> bool \<Rightarrow> (u32 \<times> u8 list list) list \<Rightarrow>
   handle_context" where
  "openContext std_sort rule temporal streams =
     (let ctxs = map (\<lambda>(i, sid, es). newContext i sid es) (zip [0..<length streams] streams);
          listed = map the (filter (\<lambda>c. c \<noteq> None) (map (update temporal) ctxs))
      in \<lparr>hc_list = (if rule = MxrCycleCount then std_sort listed else listed), hc_index = - 1\<rparr>)"

text \<open>The loop that moves the current stream to its place in the sorted list.\<close>

function sinkLoop :: "nat \<Rightarrow> stream_context \<Rightarrow> stream_context list \<Rightarrow> stream_context list" where
  "sinkLoop i s xs =
     (let i1 = Suc i in
      if length xs \<le> i1 \<or> cyc s \<le> cyc (xs ! i1) then xs[i1 - 1 := s]
      else sinkLoop i1 s (xs[i1 - 1 := xs ! i1]))"
  by pat_completeness auto
termination
  by (relation "measure (\<lambda>(i, s, xs). length xs - i)") auto

declare sinkLoop.simps [simp del]

definition getNextEntry ::
  "MultiplexingRule \<Rightarrow> bool \<Rightarrow> handle_context \<Rightarrow> MultiplexerEntry option \<times> handle_context" where
  "getNextEntry rule temporal ctx =
     (if hc_index ctx = - 1
      then (if hc_list ctx \<noteq> [] then (Some (sc_entry (hc_list ctx ! 0)), \<lparr>hc_list = hc_list ctx, hc_index = 0\<rparr>)
            else (None, ctx))
      else
        (let i = nat (hc_index ctx); s = hc_list ctx ! i in
         case update temporal s of
           None \<Rightarrow>
             (let xs = take i (hc_list ctx) @ drop (Suc i) (hc_list ctx) in
              if xs = [] then (None, \<lparr>hc_list = xs, hc_index = - 1\<rparr>)
              else (let j = (if i = length xs then i - 1 else i)
                    in (Some (sc_entry (xs ! j)), \<lparr>hc_list = xs, hc_index = int j\<rparr>)))
         | Some s1 \<Rightarrow>
             (let xs = (hc_list ctx)[i := s1];
                  ctx1 = (case rule of
                    MxrRoundRobin \<Rightarrow> \<lparr>hc_list = xs, hc_index = int ((i + 1) mod length xs)\<rparr>
                  | MxrCycleCount \<Rightarrow> \<lparr>hc_list = sinkLoop 0 s1 xs, hc_index = int i\<rparr>)
              in (Some (sc_entry (hc_list ctx1 ! nat (hc_index ctx1))), ctx1))))"

text \<open>What is returned to the caller: the entry, or with \<open>MxfIndirect\<close> the description of it.\<close>

datatype mx_output = OutEntry "u8 list" | OutDescription MultiplexerEntry

definition entryOut :: "bool \<Rightarrow> MultiplexerEntry \<Rightarrow> mx_output" where
  "entryOut indirect e = (if indirect then OutDescription e else OutEntry (me_entry e))"

text \<open>Reading up to the null pointer, at most \<open>n\<close> entries.\<close>

fun readAll :: "nat \<Rightarrow> MultiplexingRule \<Rightarrow> bool \<Rightarrow> handle_context \<Rightarrow> MultiplexerEntry list" where
  "readAll 0 rule temporal ctx = []"
| "readAll (Suc n) rule temporal ctx =
     (case getNextEntry rule temporal ctx of
        (None, ctx1) \<Rightarrow> []
      | (Some e, ctx1) \<Rightarrow> e # readAll n rule temporal ctx1)"

section \<open>The loop\<close>

lemma sinkLoop_spec:
  "sinkLoop (length pre) s (pre @ y # rest) =
     pre @ takeWhile (\<lambda>x. cyc x < cyc s) rest @ s # dropWhile (\<lambda>x. cyc x < cyc s) rest"
proof (induction rest arbitrary: pre y)
  case Nil
  then show ?case by (simp add: sinkLoop.simps Let_def)
next
  case (Cons x rest)
  show ?case
  proof (cases "cyc s \<le> cyc x")
    case True
    then show ?thesis by (auto simp: sinkLoop.simps Let_def nth_append not_less)
  next
    case False
    have "sinkLoop (length pre) s (pre @ y # x # rest) = sinkLoop (length (pre @ [x])) s ((pre @ [x]) @ x # rest)"
      using False by (subst sinkLoop.simps) (simp add: Let_def nth_append)
    also have "\<dots> = (pre @ [x]) @ takeWhile (\<lambda>x. cyc x < cyc s) rest @ s # dropWhile (\<lambda>x. cyc x < cyc s) rest"
      by (rule Cons.IH)
    finally show ?thesis using False by (auto simp: not_le)
  qed
qed

lemma sinkLoop_0:
  "sinkLoop 0 s (y # rest) = takeWhile (\<lambda>x. cyc x < cyc s) rest @ s # dropWhile (\<lambda>x. cyc x < cyc s) rest"
  using sinkLoop_spec [of "[]"] by simp

section \<open>The abstract multiplexer\<close>

text \<open>
  Every input stream, by its index, has the list of the entries that were not returned yet. In the
  list of the handle the entry of the stream at the index is returned already.
\<close>

abbreviation idx :: "stream_context \<Rightarrow> u32" where
  "idx s \<equiv> me_streamIdx (sc_entry s)"

definition unread :: "bool \<Rightarrow> stream_context \<Rightarrow> u8 list list" where
  "unread returned s = (if returned then sc_rest s else me_entry (sc_entry s) # sc_rest s)"

definition context_ok :: "bool \<Rightarrow> stream_context \<Rightarrow> bool" where
  "context_ok temporal s \<longleftrightarrow> cyc s = entryCycle temporal (me_entry (sc_entry s))"

definition mx_rel :: "bool \<Rightarrow> handle_context \<Rightarrow> (u32 \<Rightarrow> u8 list list) \<Rightarrow> bool" where
  "mx_rel temporal ctx A \<longleftrightarrow>
     distinct (map idx (hc_list ctx)) \<and> (\<forall>s\<in>set (hc_list ctx). context_ok temporal s) \<and>
     (hc_index ctx = - 1 \<or> 0 \<le> hc_index ctx \<and> nat (hc_index ctx) < length (hc_list ctx)) \<and>
     (\<forall>j<length (hc_list ctx). A (idx (hc_list ctx ! j)) = unread (int j = hc_index ctx) (hc_list ctx ! j)) \<and>
     (\<forall>i. i \<notin> idx ` set (hc_list ctx) \<longrightarrow> A i = [])"

lemma update_D:
  assumes "update temporal s = Some s1"
  shows "idx s1 = idx s" "me_streamId (sc_entry s1) = me_streamId (sc_entry s)" "sc_rest s = me_entry (sc_entry s1) # sc_rest s1"
    "context_ok temporal s1"
  using assms by (auto simp: update_def context_ok_def split: list.splits)

lemma update_None: "update temporal s = None \<longleftrightarrow> sc_rest s = []"
  by (simp add: update_def split: list.splits)

text \<open>A list of streams of which no current entry is returned yet; the order does not matter.\<close>

definition all_unread :: "bool \<Rightarrow> stream_context list \<Rightarrow> (u32 \<Rightarrow> u8 list list) \<Rightarrow> bool" where
  "all_unread temporal xs A \<longleftrightarrow>
     distinct (map idx xs) \<and> (\<forall>s\<in>set xs. context_ok temporal s \<and> A (idx s) = unread False s) \<and>
     (\<forall>i. i \<notin> idx ` set xs \<longrightarrow> A i = [])"

lemma all_unread_perm: "all_unread temporal xs A \<Longrightarrow> mset ys = mset xs \<Longrightarrow> all_unread temporal ys A"
  unfolding all_unread_def by (metis mset_eq_setD mset_map set_map mset_eq_imp_distinct_iff)

lemma mx_return:
  assumes un: "all_unread temporal xs A" and k: "k < length xs"
  shows "A (idx (xs ! k)) = me_entry (sc_entry (xs ! k)) # sc_rest (xs ! k) \<and> context_ok temporal (xs ! k) \<and>
    mx_rel temporal \<lparr>hc_list = xs, hc_index = int k\<rparr> (A(idx (xs ! k) := sc_rest (xs ! k)))"
proof -
  have d: "idx (xs ! j) \<noteq> idx (xs ! k)" if "j < length xs" "j \<noteq> k" for j
    using un k that nth_eq_iff_index_eq [of "map idx xs" j k] by (simp add: all_unread_def)
  have m: "xs ! j \<in> set xs" if "j < length xs" for j using that by simp
  have "idx (xs ! k) \<in> idx ` set xs" using k by simp
  then show ?thesis
    using un k d m by (auto simp: mx_rel_def unread_def all_unread_def)
qed

lemma mx_start: "mx_rel temporal ctx A \<Longrightarrow> hc_index ctx = - 1 \<Longrightarrow> all_unread temporal (hc_list ctx) A"
  by (auto simp: mx_rel_def all_unread_def in_set_conv_nth)

lemma mx_current:
  assumes "mx_rel temporal ctx A" and "hc_index ctx \<noteq> - 1"
  obtains i where "hc_index ctx = int i" "i < length (hc_list ctx)" "A (idx (hc_list ctx ! i)) = sc_rest (hc_list ctx ! i)"
proof -
  from assms have i: "0 \<le> hc_index ctx" "nat (hc_index ctx) < length (hc_list ctx)" by (auto simp: mx_rel_def)
  then have "hc_index ctx = int (nat (hc_index ctx))" by simp
  moreover have "A (idx (hc_list ctx ! nat (hc_index ctx))) = sc_rest (hc_list ctx ! nat (hc_index ctx))"
    using assms i by (simp add: mx_rel_def unread_def)
  ultimately show thesis using i by (intro that [of "nat (hc_index ctx)"]) simp_all
qed

lemma mx_advance:
  assumes rel: "mx_rel temporal ctx A" and i: "hc_index ctx = int i" "i < length (hc_list ctx)"
    and u: "update temporal (hc_list ctx ! i) = Some s1"
  shows "all_unread temporal ((hc_list ctx)[i := s1]) A"
proof -
  let ?xs = "hc_list ctx"
  note U = update_D [OF u]
  have ids: "map idx (?xs[i := s1]) = map idx ?xs" using U(1) i(2) by (simp add: map_update list_update_same_conv)
  have "context_ok temporal (?xs[i := s1] ! j) \<and> A (idx (?xs[i := s1] ! j)) = unread False (?xs[i := s1] ! j)"
    if "j < length ?xs" for j
    using rel i U that by (cases "j = i") (auto simp: mx_rel_def unread_def)
  then show ?thesis
    using rel ids unfolding all_unread_def mx_rel_def set_map [symmetric] by (auto simp: in_set_conv_nth)
qed

lemma mx_remove:
  assumes rel: "mx_rel temporal ctx A" and i: "hc_index ctx = int i" "i < length (hc_list ctx)"
    and u: "update temporal (hc_list ctx ! i) = None"
  shows "all_unread temporal (take i (hc_list ctx) @ drop (Suc i) (hc_list ctx)) A"
proof -
  let ?xs = "hc_list ctx"
  have xs: "?xs = take i ?xs @ ?xs ! i # drop (Suc i) ?xs" using i(2) by (simp add: id_take_nth_drop)
  let ?ys = "take i ?xs @ drop (Suc i) ?xs"
  have dis: "distinct (map idx (take i ?xs @ ?xs ! i # drop (Suc i) ?xs))" using rel xs by (simp add: mx_rel_def)
  have j: "\<exists>j<length ?xs. j \<noteq> i \<and> s = ?xs ! j" if "s \<in> set ?ys" for s
  proof -
    have "\<exists>j<length ?xs. s = ?xs ! j" using that by (metis in_set_conv_nth in_set_dropD in_set_takeD set_append Un_iff)
    moreover have "s \<noteq> ?xs ! i" using that dis by auto
    ultimately show ?thesis by blast
  qed
  have "A (idx (?xs ! i)) = []" using rel i u by (auto simp: mx_rel_def unread_def update_None)
  moreover have "idx ` set ?xs = insert (idx (?xs ! i)) (idx ` set ?ys)" by (subst xs) auto
  ultimately have "\<forall>k. k \<notin> idx ` set ?ys \<longrightarrow> A k = []" using rel by (auto simp: mx_rel_def)
  moreover have "context_ok temporal s \<and> A (idx s) = unread False s" if "s \<in> set ?ys" for s
    using j [OF that] rel i by (auto simp: mx_rel_def)
  ultimately show ?thesis using dis by (auto simp: all_unread_def)
qed

lemma getNextEntry_removed:
  assumes "hc_index ctx = int i" and "i < length (hc_list ctx)" and "update temporal (hc_list ctx ! i) = None"
    and "ys = take i (hc_list ctx) @ drop (Suc i) (hc_list ctx)" and "ys \<noteq> []"
  shows "getNextEntry rule temporal ctx =
    (Some (sc_entry (ys ! (if i = length ys then i - 1 else i))),
     \<lparr>hc_list = ys, hc_index = int (if i = length ys then i - 1 else i)\<rparr>)"
  using assms(1,3,5) unfolding getNextEntry_def Let_def assms(4) by simp

text \<open>One call takes the first unread entry of one input stream, or says that there is none.\<close>

lemma getNextEntry_step:
  assumes rel: "mx_rel temporal ctx A"
    and idx0: "rule = MxrCycleCount \<Longrightarrow> hc_index ctx = - 1 \<or> hc_index ctx = 0"
  shows "case getNextEntry rule temporal ctx of
      (None, ctx1) \<Rightarrow> \<forall>i. A i = []
    | (Some e, ctx1) \<Rightarrow> \<exists>es. A (me_streamIdx e) = me_entry e # es \<and> me_cycleCount e = entryCycle temporal (me_entry e) \<and>
        mx_rel temporal ctx1 (A(me_streamIdx e := es))"
proof -
  have ret: "\<exists>es. A (me_streamIdx e) = me_entry e # es \<and> me_cycleCount e = entryCycle temporal (me_entry e) \<and>
      mx_rel temporal \<lparr>hc_list = xs, hc_index = int k\<rparr> (A(me_streamIdx e := es))"
    if "all_unread temporal xs A" "k < length xs" "e = sc_entry (xs ! k)" for xs k e
    using mx_return [OF that(1,2)] that(3) by (auto simp: context_ok_def)
  show ?thesis
  proof (cases "hc_index ctx = - 1")
    case True
    note un = mx_start [OF rel True]
    show ?thesis
    proof (cases "hc_list ctx = []")
      case True
      then show ?thesis using un \<open>hc_index ctx = - 1\<close> by (simp add: getNextEntry_def all_unread_def)
    next
      case False
      then show ?thesis using True ret [OF un, of 0] by (simp add: getNextEntry_def)
    qed
  next
    case False
    from rel False obtain i where i: "hc_index ctx = int i" "i < length (hc_list ctx)" by (rule mx_current)
    let ?xs = "hc_list ctx"
    show ?thesis
    proof (cases "update temporal (?xs ! i)")
      case None
      note un = mx_remove [OF rel i None]
      let ?ys = "take i ?xs @ drop (Suc i) ?xs"
      show ?thesis
      proof (cases "?ys = []")
        case True
        have "\<forall>k. A k = []" using un unfolding True by (simp add: all_unread_def)
        then show ?thesis using i None True by (simp add: getNextEntry_def Let_def)
      next
        case False
        let ?j = "if i = length ?ys then i - 1 else i"
        have "?j < length ?ys" using i(2) False by (auto simp: min_def)
        note r = ret [OF un this refl]
        have "getNextEntry rule temporal ctx = (Some (sc_entry (?ys ! ?j)), \<lparr>hc_list = ?ys, hc_index = int ?j\<rparr>)"
          by (rule getNextEntry_removed [OF i None refl False])
        then show ?thesis using r by (simp only: prod.case option.case)
      qed
    next
      case (Some s1)
      note un = mx_advance [OF rel i Some]
      show ?thesis
      proof (cases rule)
        case MxrRoundRobin
        have "(i + 1) mod length (?xs[i := s1]) < length (?xs[i := s1])" using i(2) by (intro mod_less_divisor) auto
        from ret [OF un this refl] show ?thesis using i Some MxrRoundRobin
          by (simp add: getNextEntry_def Let_def)
      next
        case MxrCycleCount
        then have i0: "i = 0" using idx0 i False by simp
        obtain y rest where xs: "?xs = y # rest" using i(2) i0 by (cases ?xs) auto
        let ?ys = "sinkLoop 0 s1 (s1 # rest)"
        have "mset ?ys = mset (s1 # rest)"
          by (simp add: sinkLoop_0) (metis mset_append takeWhile_dropWhile_id union_commute)
        then have un': "all_unread temporal ?ys A" using un i0 xs by (auto intro: all_unread_perm)
        have "0 < length ?ys" by (simp add: sinkLoop_0)
        from ret [OF un' this refl] show ?thesis using i i0 xs Some MxrCycleCount
          by (simp add: getNextEntry_def Let_def)
      qed
    qed
  qed
qed

section \<open>Reading everything\<close>

definition amount :: "u32 set \<Rightarrow> (u32 \<Rightarrow> u8 list list) \<Rightarrow> nat" where
  "amount I A = (\<Sum>i\<in>I. length (A i))"

lemma amount_step: "finite I \<Longrightarrow> s \<in> I \<Longrightarrow> A s = e # es \<Longrightarrow> amount I A = Suc (amount I (fun_upd A s es))"
  by (simp add: amount_def sum.remove [of I s])

definition index_ok :: "MultiplexingRule \<Rightarrow> handle_context \<Rightarrow> bool" where
  "index_ok rule ctx \<longleftrightarrow> (rule = MxrCycleCount \<longrightarrow> hc_index ctx = - 1 \<or> hc_index ctx = 0)"

lemma index_ok_step: "index_ok rule ctx \<Longrightarrow> index_ok rule (snd (getNextEntry rule temporal ctx))"
  by (auto simp: index_ok_def getNextEntry_def Let_def split: option.splits)

lemma readAll_complete:
  assumes "mx_rel temporal ctx A" and "index_ok rule ctx" and "finite I" and "\<forall>i. i \<notin> I \<longrightarrow> A i = []" and "amount I A < n"
  shows "map me_entry (filter (\<lambda>e. me_streamIdx e = i) (readAll n rule temporal ctx)) = A i"
    and "length (readAll n rule temporal ctx) = amount I A"
    and "\<forall>e\<in>set (readAll n rule temporal ctx). me_cycleCount e = entryCycle temporal (me_entry e)"
proof -
  have "map me_entry (filter (\<lambda>e. me_streamIdx e = i) (readAll n rule temporal ctx)) = A i \<and>
    length (readAll n rule temporal ctx) = amount I A \<and>
    (\<forall>e\<in>set (readAll n rule temporal ctx). me_cycleCount e = entryCycle temporal (me_entry e))"
    using assms
  proof (induction n arbitrary: ctx A)
    case (Suc n)
    obtain r ctx1 where g: "getNextEntry rule temporal ctx = (r, ctx1)" by (cases "getNextEntry rule temporal ctx")
    note step = getNextEntry_step [OF Suc.prems(1), of rule, unfolded g]
    have idx0: "rule = MxrCycleCount \<Longrightarrow> hc_index ctx = - 1 \<or> hc_index ctx = 0" using Suc.prems(2) by (simp add: index_ok_def)
    show ?case
    proof (cases r)
      case None
      then show ?thesis using step idx0 g by (simp add: amount_def)
    next
      case (Some e)
      then obtain es where e: "A (me_streamIdx e) = me_entry e # es" "me_cycleCount e = entryCycle temporal (me_entry e)"
        "mx_rel temporal ctx1 (A(me_streamIdx e := es))" using step idx0 by auto
      have I: "me_streamIdx e \<in> I" using Suc.prems(4) e(1) by force
      have am: "amount I A = Suc (amount I (A(me_streamIdx e := es)))" 
        by (rule amount_step [where A = A and s = "me_streamIdx e" and es = es and e = "me_entry e", OF Suc.prems(3) I e(1)])
      have pre: "\<forall>i. i \<notin> I \<longrightarrow> (A(me_streamIdx e := es)) i = []" "amount I (A(me_streamIdx e := es)) < n"
        using Suc.prems(4,5) am I by auto
      have ix: "index_ok rule ctx1" using index_ok_step [OF Suc.prems(2), of temporal] g by simp
      have "map me_entry (filter (\<lambda>e. me_streamIdx e = i) (readAll n rule temporal ctx1)) = (A(me_streamIdx e := es)) i \<and>
        length (readAll n rule temporal ctx1) = amount I (A(me_streamIdx e := es)) \<and>
        (\<forall>e\<in>set (readAll n rule temporal ctx1). me_cycleCount e = entryCycle temporal (me_entry e))"
        by (rule Suc.IH [OF e(3) ix Suc.prems(3) pre])
      then show ?thesis using g Some e am by auto
    qed
  qed simp
  then show "map me_entry (filter (\<lambda>e. me_streamIdx e = i) (readAll n rule temporal ctx)) = A i"
    "length (readAll n rule temporal ctx) = amount I A"
    "\<forall>e\<in>set (readAll n rule temporal ctx). me_cycleCount e = entryCycle temporal (me_entry e)" by simp_all
qed

section \<open>The order of the cycle counts\<close>

definition stream_sorted :: "bool \<Rightarrow> u8 list list \<Rightarrow> bool" where
  "stream_sorted temporal es \<longleftrightarrow> sorted (map (entryCycle temporal) es)"

definition cycles_ok :: "bool \<Rightarrow> handle_context \<Rightarrow> bool" where
  "cycles_ok temporal ctx \<longleftrightarrow> sorted (map cyc (hc_list ctx)) \<and>
     (\<forall>s\<in>set (hc_list ctx). context_ok temporal s \<and> stream_sorted temporal (me_entry (sc_entry s) # sc_rest s))"

lemma sink_sorted:
  assumes "sorted (map cyc xs)"
  shows "sorted (map cyc (takeWhile (\<lambda>x. cyc x < cyc s) xs @ s # dropWhile (\<lambda>x. cyc x < cyc s) xs))"
  using assms
proof (induction xs)
  case (Cons x xs)
  show ?case
  proof (cases "cyc x < cyc s")
    case True
    have "\<forall>y\<in>set (takeWhile (\<lambda>x. cyc x < cyc s) xs @ dropWhile (\<lambda>x. cyc x < cyc s) xs). cyc x \<le> cyc y"
      using Cons.prems by (simp del: set_append)
    then show ?thesis using Cons True by (auto dest: set_takeWhileD set_dropWhileD)
  next
    case False
    then show ?thesis using Cons.prems by (auto simp: not_less intro: order_trans)
  qed
qed simp

lemma cycles_step:
  assumes "cycles_ok temporal ctx" and "hc_index ctx = - 1 \<or> hc_index ctx = 0 \<and> hc_list ctx \<noteq> []"
    and "getNextEntry MxrCycleCount temporal ctx = (r, ctx1)"
  shows "cycles_ok temporal ctx1 \<and> (\<forall>e. r = Some e \<longrightarrow> hc_index ctx1 = 0 \<and> hc_list ctx1 \<noteq> [] \<and> e = sc_entry (hd (hc_list ctx1)))"
proof (cases "hc_index ctx = - 1")
  case True
  then show ?thesis using assms by (auto simp: getNextEntry_def cycles_ok_def hd_conv_nth split: if_splits)
next
  case False
  then obtain y rest where xs: "hc_list ctx = y # rest" "hc_index ctx = 0" using assms(2) by (cases "hc_list ctx") auto
  show ?thesis
  proof (cases "update temporal y")
    case None
    then show ?thesis using assms(1,3) xs
      by (auto simp: getNextEntry_def Let_def cycles_ok_def hd_conv_nth split: if_splits)
  next
    case (Some s1)
    let ?ys = "sinkLoop 0 s1 (s1 # rest)"
    have c1: "ctx1 = \<lparr>hc_list = ?ys, hc_index = 0\<rparr>" "r = Some (sc_entry (?ys ! 0))"
      using assms(3) xs Some by (simp_all add: getNextEntry_def Let_def)
    have s1: "context_ok temporal s1 \<and> stream_sorted temporal (me_entry (sc_entry s1) # sc_rest s1)"
      using assms(1) xs update_D [OF Some] by (auto simp: cycles_ok_def stream_sorted_def)
    have ys: "?ys = takeWhile (\<lambda>x. cyc x < cyc s1) rest @ s1 # dropWhile (\<lambda>x. cyc x < cyc s1) rest" by (rule sinkLoop_0)
    have "sorted (map cyc ?ys)" unfolding ys by (rule sink_sorted) (use assms(1) xs in \<open>simp add: cycles_ok_def\<close>)
    moreover have "set ?ys = insert s1 (set rest)"
      unfolding ys by (metis set_append takeWhile_dropWhile_id Un_insert_right list.simps(15))
    moreover have "?ys \<noteq> []" unfolding ys by simp
    ultimately show ?thesis using c1 s1 assms(1) xs by (auto simp: cycles_ok_def hd_conv_nth)
  qed
qed

lemma cycles_bound:
  assumes "cycles_ok temporal ctx" and "hc_index ctx = 0" "hc_list ctx \<noteq> []" and rel: "mx_rel temporal ctx A" and u: "u \<in> set (A i)"
  shows "cyc (hd (hc_list ctx)) \<le> entryCycle temporal u"
proof -
  have "i \<in> idx ` set (hc_list ctx)" using rel u by (auto simp: mx_rel_def)
  then obtain j where j: "j < length (hc_list ctx)" "i = idx (hc_list ctx ! j)" by (auto simp: in_set_conv_nth)
  let ?s = "hc_list ctx ! j"
  have "A i = unread (int j = hc_index ctx) ?s" using rel j by (simp add: mx_rel_def)
  then have "u \<in> set (me_entry (sc_entry ?s) # sc_rest ?s)" using u by (auto simp: unread_def split: if_splits)
  moreover have "stream_sorted temporal (me_entry (sc_entry ?s) # sc_rest ?s)" "context_ok temporal ?s"
    using assms(1) j(1) by (auto simp: cycles_ok_def)
  ultimately have "cyc ?s \<le> entryCycle temporal u" by (auto simp: stream_sorted_def context_ok_def)
  moreover have "cyc (hd (hc_list ctx)) \<le> cyc ?s"
    using assms(1,3) j(1) sorted_nth_mono [of "map cyc (hc_list ctx)" 0 j] by (simp add: cycles_ok_def hd_conv_nth)
  ultimately show ?thesis by simp
qed

lemma readAll_sorted:
  assumes "cycles_ok temporal ctx" and "hc_index ctx = - 1 \<or> hc_index ctx = 0 \<and> hc_list ctx \<noteq> []"
    and "mx_rel temporal ctx A" and "finite I" and "\<forall>i. i \<notin> I \<longrightarrow> A i = []" and "amount I A < n"
  shows "sorted (map me_cycleCount (readAll n MxrCycleCount temporal ctx))"
  using assms
proof (induction n arbitrary: ctx A)
  case (Suc n)
  obtain r ctx1 where g: "getNextEntry MxrCycleCount temporal ctx = (r, ctx1)" by (cases "getNextEntry MxrCycleCount temporal ctx")
  show ?case
  proof (cases r)
    case (Some e)
    then obtain es where e: "A (me_streamIdx e) = me_entry e # es" "mx_rel temporal ctx1 (A(me_streamIdx e := es))"
      using getNextEntry_step [OF Suc.prems(3), of MxrCycleCount] g Suc.prems(2) by auto
    let ?A = "A(me_streamIdx e := es)" and ?l = "readAll n MxrCycleCount temporal ctx1"
    have C: "cycles_ok temporal ctx1" "hc_index ctx1 = 0" "hc_list ctx1 \<noteq> []" "e = sc_entry (hd (hc_list ctx1))"
      using cycles_step [OF Suc.prems(1,2) g] Some by auto
    have I: "me_streamIdx e \<in> I" using Suc.prems(5) e(1) by force
    have am: "amount I A = Suc (amount I ?A)" 
      by (rule amount_step [where A = A and s = "me_streamIdx e" and es = es and e = "me_entry e", OF Suc.prems(4) I e(1)])
    have pre: "index_ok MxrCycleCount ctx1" "\<forall>i. i \<notin> I \<longrightarrow> ?A i = []" "amount I ?A < n"
      using C Suc.prems(5,6) am I by (auto simp: index_ok_def)
    have "sorted (map me_cycleCount ?l)" by (rule Suc.IH [OF C(1) _ e(2) Suc.prems(4) pre(2,3)]) (use C in simp)
    moreover have "me_cycleCount e \<le> me_cycleCount f" if f: "f \<in> set ?l" for f
    proof -
      note R = readAll_complete [OF e(2) pre(1) Suc.prems(4) pre(2,3)]
      have "me_entry f \<in> set (?A (me_streamIdx f))" unfolding R(1) [symmetric] using f by auto
      from cycles_bound [OF C(1,2,3) e(2) this] show ?thesis using C(4) R(3) f by simp
    qed
    ultimately show ?thesis using g Some by auto
  qed (simp add: g)
qed simp

section \<open>A handle from its opening on\<close>

text \<open>What an input stream, by its index, has to give when the handle is opened.\<close>

definition streamEntries :: "(u32 \<times> u8 list list) list \<Rightarrow> u32 \<Rightarrow> u8 list list" where
  "streamEntries streams i = (if unat i < length streams then snd (streams ! unat i) else [])"

definition listedContexts :: "bool \<Rightarrow> (u32 \<times> u8 list list) list \<Rightarrow> stream_context list" where
  "listedContexts temporal streams =
     map the (filter (\<lambda>c. c \<noteq> None) (map (update temporal) (map (\<lambda>(i, sid, es). newContext i sid es) (zip [0..<length streams] streams))))"

lemma listedContexts_snoc:
  "listedContexts temporal (streams @ [(sid, es)]) = listedContexts temporal streams @
     (case update temporal (newContext (length streams) sid es) of None \<Rightarrow> [] | Some c \<Rightarrow> [c])"
  by (simp add: listedContexts_def split: option.splits)

lemma streamEntries_snoc:
  "Suc (length streams) < 2 ^ 32 \<Longrightarrow>
   streamEntries (streams @ [(sid, es)]) = (streamEntries streams)(of_nat (length streams) := es)"
proof
  fix i :: u32
  assume L: "Suc (length streams) < 2 ^ 32"
  have n: "unat (of_nat (length streams) :: u32) = length streams" using L by (intro unat_of_nat_small) simp
  show "streamEntries (streams @ [(sid, es)]) i = ((streamEntries streams)(of_nat (length streams) := es)) i"
  proof (cases "i = of_nat (length streams)")
    case False
    then have "unat i \<noteq> length streams" using n by (metis word_unat_eq_iff)
    then show ?thesis using False by (auto simp: streamEntries_def nth_append)
  qed (simp add: streamEntries_def n)
qed

lemma listed_unread:
  "length streams < 2 ^ 32 \<Longrightarrow>
   all_unread temporal (listedContexts temporal streams) (streamEntries streams) \<and>
   (\<forall>s\<in>set (listedContexts temporal streams). unat (idx s) < length streams)"
proof (induction streams rule: rev_induct)
  case Nil
  show ?case by (simp add: listedContexts_def all_unread_def streamEntries_def)
next
  case (snoc p streams)
  obtain sid es where p: "p = (sid, es)" by (cases p)
  let ?n = "of_nat (length streams) :: u32" and ?L = "listedContexts temporal streams"
  have L: "Suc (length streams) < 2 ^ 32" using snoc.prems by simp
  have n: "unat ?n = length streams" using L by (intro unat_of_nat_small) simp
  have un: "all_unread temporal ?L (streamEntries streams)"
    and lt: "\<And>s. s \<in> set ?L \<Longrightarrow> unat (idx s) < length streams" using snoc.IH L by auto
  have new: "?n \<notin> idx ` set ?L" using lt n by fastforce
  have E: "streamEntries (streams @ [p]) = (streamEntries streams)(?n := es)" unfolding p by (rule streamEntries_snoc [OF L])
  show ?case
  proof (cases "update temporal (newContext (length streams) sid es)")
    case None
    then have "es = []" by (simp add: update_None newContext_def)
    moreover have "streamEntries streams ?n = []" using un new by (auto simp: all_unread_def)
    ultimately have "streamEntries (streams @ [p]) = streamEntries streams" unfolding E by auto
    then show ?thesis using un lt None unfolding p listedContexts_snoc by (auto intro: less_SucI)
  next
    case (Some c)
    have c: "idx c = ?n" "es = me_entry (sc_entry c) # sc_rest c" "context_ok temporal c"
      using update_D [OF Some] by (simp_all add: newContext_def)
    have "distinct (map idx (?L @ [c]))" using un new c(1) by (simp add: all_unread_def)
    moreover have "context_ok temporal s \<and> ((streamEntries streams)(?n := es)) (idx s) = unread False s"
      if "s \<in> set (?L @ [c])" for s
    proof (cases "s = c")
      case True
      then show ?thesis using c by (simp add: unread_def)
    next
      case False
      then have s: "s \<in> set ?L" using that by simp
      then have "idx s \<noteq> ?n" using new by force
      then show ?thesis using un s by (simp add: all_unread_def)
    qed
    ultimately have "all_unread temporal (?L @ [c]) ((streamEntries streams)(?n := es))"
      using un c(1) unfolding all_unread_def by auto
    moreover have "unat (idx s) < Suc (length streams)" if "s \<in> set (?L @ [c])" for s
      using that lt n c(1) by (auto intro: less_SucI)
    ultimately show ?thesis using Some unfolding p listedContexts_snoc E [unfolded p] by (simp del: fun_upd_apply)
  qed
qed

lemma openContext_listed:
  "openContext std_sort rule temporal streams =
     \<lparr>hc_list = (if rule = MxrCycleCount then std_sort (listedContexts temporal streams) else listedContexts temporal streams),
      hc_index = - 1\<rparr>"
  by (simp add: openContext_def listedContexts_def)

lemma open_unread:
  assumes "length streams < 2 ^ 32" and "\<forall>xs. mset (std_sort xs) = mset xs"
  shows "all_unread temporal (hc_list (openContext std_sort rule temporal streams)) (streamEntries streams)"
proof -
  let ?L = "listedContexts temporal streams"
  have "all_unread temporal ?L (streamEntries streams)" using listed_unread [OF assms(1)] by blast
  then have "all_unread temporal ys (streamEntries streams)" if "mset ys = mset ?L" for ys using that by (rule all_unread_perm)
  then show ?thesis using assms(2) by (simp add: openContext_listed)
qed

lemma open_rel:
  assumes "length streams < 2 ^ 32" and "\<forall>xs. mset (std_sort xs) = mset xs"
  shows "mx_rel temporal (openContext std_sort rule temporal streams) (streamEntries streams)"
  using open_unread [OF assms, of temporal rule]
  by (auto simp: mx_rel_def all_unread_def openContext_listed)

lemma streamEntries_amount:
  "length streams < 2 ^ 32 \<Longrightarrow>
   amount (of_nat ` {..<length streams}) (streamEntries streams) = sum_list (map (\<lambda>p. length (snd p)) streams) \<and>
   (\<forall>i. i \<notin> of_nat ` {..<length streams} \<longrightarrow> streamEntries streams i = [])"
proof -
  assume L: "length streams < 2 ^ 32"
  have n: "unat (of_nat j :: u32) = j" if "j < length streams" for j using L that by (intro unat_of_nat_small) simp
  have inj: "inj_on (of_nat :: nat \<Rightarrow> u32) {..<length streams}"
    by (rule inj_onI) (metis lessThan_iff n)
  have "(\<Sum>j<length streams. length (streamEntries streams (of_nat j))) = (\<Sum>j<length streams. length (snd (streams ! j)))"
    by (rule sum.cong) (simp_all add: streamEntries_def n)
  then have "amount (of_nat ` {..<length streams}) (streamEntries streams) = sum_list (map (\<lambda>p. length (snd p)) streams)"
    by (simp add: amount_def sum.reindex [OF inj] sum_list_sum_nth atLeast0LessThan)
  moreover have "streamEntries streams i = []" if "i \<notin> of_nat ` {..<length streams}" for i
  proof -
    have "i = of_nat (unat i)" by simp
    then have "\<not> unat i < length streams" using that by blast
    then show ?thesis by (simp add: streamEntries_def)
  qed
  ultimately show ?thesis by blast
qed

lemma open_cycles:
  assumes "length streams < 2 ^ 32" and "\<forall>xs. mset (std_sort xs) = mset xs \<and> sorted (map cyc (std_sort xs))"
    and "\<forall>p\<in>set streams. stream_sorted temporal (snd p)"
  shows "cycles_ok temporal (openContext std_sort MxrCycleCount temporal streams)"
proof -
  have un: "all_unread temporal (hc_list (openContext std_sort MxrCycleCount temporal streams)) (streamEntries streams)"
    by (rule open_unread) (use assms in auto)
  have "stream_sorted temporal (streamEntries streams i)" for i
    using assms(3) by (auto simp: streamEntries_def stream_sorted_def)
  then have "stream_sorted temporal (me_entry (sc_entry s) # sc_rest s)"
    if "s \<in> set (hc_list (openContext std_sort MxrCycleCount temporal streams))" for s
    using un that by (metis all_unread_def unread_def)
  then show ?thesis using un assms(2) by (auto simp: cycles_ok_def all_unread_def openContext_listed)
qed

section \<open>Properties\<close>

text \<open>
  C27: reading a multiplexer to its end gives every entry of every input stream exactly once, and the
  entries of one input stream in the order of that stream, for both rules and streams of any length.
\<close>

theorem multiplexer_complete:
  assumes "length streams < 2 ^ 32" and "\<forall>xs. mset (std_sort xs) = mset xs"
    and "sum_list (map (\<lambda>p. length (snd p)) streams) < n"
  shows "let es = readAll n rule temporal (openContext std_sort rule temporal streams) in
    length es = sum_list (map (\<lambda>p. length (snd p)) streams) \<and>
    (\<forall>i. map me_entry (filter (\<lambda>e. me_streamIdx e = i) es) = streamEntries streams i)"
proof -
  note A = streamEntries_amount [OF assms(1)]
  have ix: "index_ok rule (openContext std_sort rule temporal streams)" by (simp add: index_ok_def openContext_listed)
  have fin: "finite (of_nat ` {..<length streams} :: u32 set)" by simp
  note R = readAll_complete [OF open_rel [OF assms(1,2)] ix fin A [THEN conjunct2]]
  show ?thesis using R A assms(3) by (simp add: Let_def)
qed

lemma multiplexer_complete_witness:
  "let streams = [(7, [[1], [3]]), (8, []), (9, [[2]])]; es = readAll 4 MxrCycleCount False (openContext (sort_key cyc) MxrCycleCount False streams)
   in length es = 3 \<and> (\<forall>i. map me_entry (filter (\<lambda>e. me_streamIdx e = i) es) = streamEntries streams i)"
  using multiplexer_complete [of "[(7, [[1], [3]]), (8, []), (9, [[2]])]" "sort_key cyc" 4 MxrCycleCount False]
  by (simp add: Let_def)

text \<open>
  C28: the multiplexer of the cycle counts merges input streams that are ordered by their cycle counts
  into a stream that is ordered by the cycle counts.
\<close>

theorem multiplexer_sorted:
  assumes "length streams < 2 ^ 32" and "\<forall>xs. mset (std_sort xs) = mset xs \<and> sorted (map cyc (std_sort xs))"
    and "\<forall>p\<in>set streams. stream_sorted True (snd p)"
    and "sum_list (map (\<lambda>p. length (snd p)) streams) < n"
  shows "sorted (map me_cycleCount (readAll n MxrCycleCount True (openContext std_sort MxrCycleCount True streams)))"
proof -
  note A = streamEntries_amount [OF assms(1)]
  have ms: "\<forall>xs. mset (std_sort xs) = mset xs" using assms(2) by simp
  have fin: "finite (of_nat ` {..<length streams} :: u32 set)" by simp
  show ?thesis
    by (rule readAll_sorted [OF open_cycles [OF assms(1-3)] _ open_rel [OF assms(1) ms] fin A [THEN conjunct2]])
      (use A assms(4) in \<open>simp_all add: openContext_listed\<close>)
qed

lemma multiplexer_sorted_witness:
  "sorted (map me_cycleCount (readAll 4 MxrCycleCount True (openContext (sort_key cyc) MxrCycleCount True
     [(7, [[1, 0, 0, 0, 0, 0, 0, 0], [3, 0, 0, 0, 0, 0, 0, 0]]), (9, [[2, 0, 0, 0, 0, 0, 0, 0]])])))"
  by (rule multiplexer_sorted)
    (simp_all add: stream_sorted_def entryCycle_def field_def TEMPORAL_ORDER_CYCLE_COUNT_MASK_def TEMPORAL_ORDER_CYCLE_COUNT_BITS_def)

text \<open>
  By turns, the stream behind the last of the list is the first one; when the last one ends, the code
  goes on with the stream before it, which had its turn already.
\<close>

theorem round_robin_goes_back:
  "map me_entry (readAll 7 MxrRoundRobin False (openContext (\<lambda>xs. xs) MxrRoundRobin False
     [(7, [[1], [4], [6]]), (8, [[2], [5]]), (9, [[3]])])) = [[1], [2], [3], [5], [4], [6]]"
  by code_simp

end
