(* ===== verification/Work_Pool.thy ===== *)
theory Work_Pool
  imports Prelude "HOL-Library.Multiset"
begin

text \<open>
  The worker pool of the server: the work queue with its three priorities (\<open>WorkQueue.cpp\<close>), the
  worker threads and the closing of the pool (\<open>WorkerPool.cpp\<close>), and a worker that helps out while
  it waits for a stream (\<open>WorkerStreamWait.cpp\<close>). The threads are a step relation; every call that
  holds the lock of the queue is one step. Work items are opaque.
\<close>

section \<open>Events\<close>

text \<open>
  \<open>Event\<close> (\<open>libsimubase/Event.cpp\<close>) is an auto-reset event on Windows and a semaphore elsewhere: the
  number of waits it lets through.
\<close>

datatype event_kind = AutoReset | Semaphore

definition signal :: "event_kind \<Rightarrow> nat \<Rightarrow> nat" where
  "signal k n = (case k of AutoReset \<Rightarrow> 1 | Semaphore \<Rightarrow> Suc n)"

lemma signal_pos [simp]: "0 < signal k n"
  by (simp add: signal_def split: event_kind.splits)

section \<open>The work queue\<close>

definition Low :: nat where "Low = 0"
definition Normal :: nat where "Normal = 1"
definition High :: nat where "High = 2"
definition MaxPriority :: nat where "MaxPriority = High"

record 'w work_queue =
  wq_queue :: "'w list list"
  wq_workEvent :: nat
  wq_emptyEvent :: nat
  wq_blocked :: bool

definition newWorkQueue :: "'w work_queue" where
  "newWorkQueue =
     \<lparr>wq_queue = replicate (MaxPriority + 1) [], wq_workEvent = 0, wq_emptyEvent = 0, wq_blocked = False\<rparr>"

definition wakeUpWorkers :: "event_kind \<Rightarrow> 'w work_queue \<Rightarrow> 'w work_queue" where
  "wakeUpWorkers k q = q\<lparr>wq_workEvent := signal k (wq_workEvent q)\<rparr>"

definition enqueueWork :: "event_kind \<Rightarrow> 'w \<Rightarrow> nat \<Rightarrow> 'w work_queue \<Rightarrow> unit res \<times> 'w work_queue" where
  "enqueueWork k item priority q =
     (if wq_blocked q then (Inl InvalidOperationException, q)
      else if MaxPriority < priority then (Inl ArgumentOutOfBoundsException, q)
      else (Inr (), wakeUpWorkers k (q\<lparr>wq_queue := (wq_queue q)[priority := wq_queue q ! priority @ [item]]\<rparr>)))"

text \<open>The loop over the priorities, from the one below \<open>p\<close> down to 0.\<close>

fun dequeueFrom :: "nat \<Rightarrow> 'w list list \<Rightarrow> ('w \<times> 'w list list) option" where
  "dequeueFrom 0 qs = None"
| "dequeueFrom (Suc p) qs =
     (case qs ! p of [] \<Rightarrow> dequeueFrom p qs | x # xs \<Rightarrow> Some (x, qs[p := xs]))"

definition dequeueWork :: "event_kind \<Rightarrow> 'w work_queue \<Rightarrow> 'w option \<times> 'w work_queue" where
  "dequeueWork k q =
     (case dequeueFrom (MaxPriority + 1) (wq_queue q) of
        Some (x, qs) \<Rightarrow> (Some x, q\<lparr>wq_queue := qs\<rparr>)
      | None \<Rightarrow> (None, if wq_blocked q then q\<lparr>wq_emptyEvent := signal k (wq_emptyEvent q)\<rparr> else q))"

definition clear :: "'w work_queue \<Rightarrow> 'w work_queue" where
  "clear q = q\<lparr>wq_queue := replicate (MaxPriority + 1) []\<rparr>"

definition isEmpty :: "'w work_queue \<Rightarrow> bool" where
  "isEmpty q \<longleftrightarrow> (\<forall>xs\<in>set (wq_queue q). xs = [])"

definition getLength :: "'w work_queue \<Rightarrow> u32" where
  "getLength q = foldl (\<lambda>num xs. num + of_nat (length xs)) 0 (rev (wq_queue q))"

definition block :: "event_kind \<Rightarrow> 'w work_queue \<Rightarrow> 'w work_queue" where
  "block k q =
     (let q1 = q\<lparr>wq_blocked := True\<rparr>
      in if isEmpty q1 then q1\<lparr>wq_emptyEvent := signal k (wq_emptyEvent q1)\<rparr> else q1)"

section \<open>The workers\<close>

text \<open>
  Where a worker is in \<open>_workerMain\<close>: at the head of the outer loop, in \<open>wait\<close>, in front of
  \<open>tryProcessWorkItem\<close>, or in the items it executes (an item that waits for a stream may process
  others, so they are nested). The flag is \<open>shouldStop()\<close>.
\<close>

datatype 'w worker_pc = AtTop | Waiting | Trying | Executing "'w list" | Finished

datatype closer_pc = NotClosing | WaitEmpty | Stopping | Joining | Closed

text \<open>\<open>pl_submitted\<close>, \<open>pl_processed\<close> and \<open>pl_dropped\<close> record the history of the items.\<close>

record 'w pool =
  pl_queue :: "'w work_queue"
  pl_workers :: "('w worker_pc \<times> bool) list"
  pl_closer :: closer_pc
  pl_submitted :: "'w list"
  pl_processed :: "'w list"
  pl_dropped :: "'w list"

definition newPool :: "nat \<Rightarrow> 'w pool" where
  "newPool numWorkers =
     \<lparr>pl_queue = newWorkQueue, pl_workers = replicate numWorkers (AtTop, False), pl_closer = NotClosing,
      pl_submitted = [], pl_processed = [], pl_dropped = []\<rparr>"

abbreviation setWorker :: "nat \<Rightarrow> 'w worker_pc \<Rightarrow> 'w pool \<Rightarrow> 'w pool" where
  "setWorker i pc s \<equiv> s\<lparr>pl_workers := (pl_workers s)[i := (pc, snd (pl_workers s ! i))]\<rparr>"

definition submitWork :: "event_kind \<Rightarrow> 'w \<Rightarrow> nat \<Rightarrow> 'w pool \<Rightarrow> unit res \<times> 'w pool" where
  "submitWork k item priority s =
     (case enqueueWork k item priority (pl_queue s) of
        (Inl e, q) \<Rightarrow> (Inl e, s\<lparr>pl_queue := q\<rparr>)
      | (Inr _, q) \<Rightarrow> (Inr (), s\<lparr>pl_queue := q, pl_submitted := item # pl_submitted s\<rparr>))"

text \<open>A step of worker \<open>i\<close> in \<open>_workerMain\<close>, if it can take one.\<close>

definition workerStep :: "event_kind \<Rightarrow> nat \<Rightarrow> 'w pool \<Rightarrow> 'w pool option" where
  "workerStep k i s =
     (let (pc, stop) = pl_workers s ! i; q = pl_queue s in
      case pc of
        AtTop \<Rightarrow> Some (setWorker i (if stop then Finished else Waiting) s)
      | Waiting \<Rightarrow>
          if wq_workEvent q = 0 then None
          else Some (setWorker i Trying (s\<lparr>pl_queue := q\<lparr>wq_workEvent := wq_workEvent q - 1\<rparr>\<rparr>))
      | Trying \<Rightarrow>
          (case dequeueWork k q of
             (None, q1) \<Rightarrow> Some (setWorker i AtTop (s\<lparr>pl_queue := q1\<rparr>))
           | (Some x, q1) \<Rightarrow> Some (setWorker i (Executing [x]) (s\<lparr>pl_queue := q1\<rparr>)))
      | Executing xs \<Rightarrow>
          (case xs of
             [] \<Rightarrow> None
           | [x] \<Rightarrow> Some (setWorker i (if stop then AtTop else Trying) (s\<lparr>pl_processed := x # pl_processed s\<rparr>))
           | x # ys \<Rightarrow> Some (setWorker i (Executing ys) (s\<lparr>pl_processed := x # pl_processed s\<rparr>)))
      | Finished \<Rightarrow> None)"

text \<open>
  An item that waits processes another item. If there is none, it goes on to wait; the queue may have
  signalled that it is empty.
\<close>

definition waitStep :: "event_kind \<Rightarrow> nat \<Rightarrow> 'w pool \<Rightarrow> 'w pool option" where
  "waitStep k i s =
     (case fst (pl_workers s ! i) of
        Executing (x # xs) \<Rightarrow>
          (case dequeueWork k (pl_queue s) of
             (None, q1) \<Rightarrow> Some (s\<lparr>pl_queue := q1\<rparr>)
           | (Some y, q1) \<Rightarrow> Some (setWorker i (Executing (y # x # xs)) (s\<lparr>pl_queue := q1\<rparr>)))
      | _ \<Rightarrow> None)"

text \<open>\<open>close\<close>: up to \<open>waitEmpty\<close>, the return of it, the loop that stops the workers, the joins.\<close>

definition closeStep :: "event_kind \<Rightarrow> bool \<Rightarrow> 'w pool \<Rightarrow> 'w pool option" where
  "closeStep k dropQueue s =
     (let q = pl_queue s in
      case pl_closer s of
        NotClosing \<Rightarrow>
          if dropQueue
          then Some (s\<lparr>pl_queue := clear (block k q), pl_closer := Stopping,
                       pl_dropped := concat (wq_queue (block k q)) @ pl_dropped s\<rparr>)
          else Some (s\<lparr>pl_queue := block k q, pl_closer := WaitEmpty\<rparr>)
      | WaitEmpty \<Rightarrow>
          if wq_emptyEvent q = 0 then None
          else Some (s\<lparr>pl_queue := q\<lparr>wq_emptyEvent := wq_emptyEvent q - 1\<rparr>, pl_closer := Stopping\<rparr>)
      | Stopping \<Rightarrow>
          Some (s\<lparr>pl_workers := map (\<lambda>(pc, _). (pc, True)) (pl_workers s), pl_queue := wakeUpWorkers k q,
                  pl_closer := Joining\<rparr>)
      | Joining \<Rightarrow> if \<forall>w\<in>set (pl_workers s). fst w = Finished then Some (s\<lparr>pl_closer := Closed\<rparr>) else None
      | Closed \<Rightarrow> None)"

inductive pool_step :: "event_kind \<Rightarrow> 'w pool \<Rightarrow> 'w pool \<Rightarrow> bool" for k where
  submit: "submitWork k x p s = (r, s') \<Longrightarrow> pool_step k s s'"
| worker: "i < length (pl_workers s) \<Longrightarrow> workerStep k i s = Some s' \<Longrightarrow> pool_step k s s'"
| help_out: "i < length (pl_workers s) \<Longrightarrow> waitStep k i s = Some s' \<Longrightarrow> pool_step k s s'"
| close_pool: "closeStep k dropQueue s = Some s' \<Longrightarrow> pool_step k s s'"

inductive pool_reachable :: "event_kind \<Rightarrow> nat \<Rightarrow> 'w pool \<Rightarrow> bool" for k n where
  init: "pool_reachable k n (newPool n)"
| step: "pool_reachable k n s \<Longrightarrow> pool_step k s s' \<Longrightarrow> pool_reachable k n s'"

section \<open>The queue and a list ordered by priority\<close>

lemma dequeueFrom_Some:
  assumes "dequeueFrom p qs = Some (x, qs')"
  obtains j xs where "j < p" "qs ! j = x # xs" "qs' = qs[j := xs]" "\<And>i. j < i \<Longrightarrow> i < p \<Longrightarrow> qs ! i = []"
proof -
  have "\<exists>j xs. j < p \<and> qs ! j = x # xs \<and> qs' = qs[j := xs] \<and> (\<forall>i. j < i \<and> i < p \<longrightarrow> qs ! i = [])"
    using assms
  proof (induction p)
    case (Suc p)
    show ?case
    proof (cases "qs ! p")
      case Nil
      then show ?thesis using Suc by (auto simp: less_Suc_eq)
    next
      case (Cons y ys)
      then show ?thesis using Suc.prems by (intro exI [of _ p] exI [of _ ys]) auto
    qed
  qed simp
  then show thesis using that by blast
qed

lemma dequeueFrom_None: "dequeueFrom p qs = None \<longleftrightarrow> (\<forall>i<p. qs ! i = [])"
  by (induction p) (auto split: list.splits simp: less_Suc_eq)

text \<open>The reference: all waiting items in the order of their arrival, with their priorities.\<close>

datatype 'w queue_op = Enq 'w nat | Deq

definition byPriority :: "(nat \<times> 'w) list \<Rightarrow> (nat \<times> 'w) list" where
  "byPriority arr = sort_key (\<lambda>y. MaxPriority - fst y) arr"

fun runSpec :: "'w queue_op list \<Rightarrow> (nat \<times> 'w) list \<Rightarrow> 'w option list" where
  "runSpec [] arr = []"
| "runSpec (Enq x p # ops) arr = runSpec ops (if MaxPriority < p then arr else arr @ [(p, x)])"
| "runSpec (Deq # ops) arr =
     (case byPriority arr of
        [] \<Rightarrow> None # runSpec ops arr
      | y # _ \<Rightarrow> Some (snd y) # runSpec ops (remove1 y arr))"

fun runQueue :: "event_kind \<Rightarrow> 'w queue_op list \<Rightarrow> 'w work_queue \<Rightarrow> 'w option list" where
  "runQueue k [] q = []"
| "runQueue k (Enq x p # ops) q = runQueue k ops (snd (enqueueWork k x p q))"
| "runQueue k (Deq # ops) q = (case dequeueWork k q of (r, q1) \<Rightarrow> r # runQueue k ops q1)"

definition queue_rel :: "'w work_queue \<Rightarrow> (nat \<times> 'w) list \<Rightarrow> bool" where
  "queue_rel q arr \<longleftrightarrow> \<not> wq_blocked q \<and> length (wq_queue q) = 3 \<and> (\<forall>y\<in>set arr. fst y \<le> 2) \<and>
     (\<forall>p<3. wq_queue q ! p = map snd (filter (\<lambda>y. fst y = p) arr))"

lemma priorities: "MaxPriority = 2" "MaxPriority + 1 = 3"
  by (simp_all add: MaxPriority_def High_def)

lemma filter_priority:
  "filter (\<lambda>y. fst y = a) (filter (\<lambda>y. fst y = b) xs) = (if a = b then filter (\<lambda>y. fst y = b) xs else [])"
  by (induction xs) auto

lemma priority_const:
  "map (\<lambda>y. 2 - fst y) (filter (\<lambda>y. fst y = a) xs) = replicate (length (filter (\<lambda>y. fst y = a) xs)) (2 - a)"
  by (induction xs) auto

lemma byPriority_split:
  assumes "\<forall>y\<in>set arr. fst y \<le> 2"
  shows "byPriority arr = filter (\<lambda>y. fst y = 2) arr @ filter (\<lambda>y. fst y = 1) arr @ filter (\<lambda>y. fst y = 0) arr"
    (is "_ = ?ys")
  unfolding byPriority_def priorities
proof (rule properties_for_sort_key)
  show "mset ?ys = mset arr" using assms
  proof (induction arr)
    case (Cons y arr)
    then have "fst y = 0 \<or> fst y = 1 \<or> fst y = 2" by auto
    then show ?case using Cons by auto
  qed simp
  show "filter (\<lambda>x. 2 - fst k = 2 - fst x) ?ys = filter (\<lambda>x. 2 - fst k = 2 - fst x) arr" if "k \<in> set ?ys" for k
  proof -
    have k: "fst k \<le> 2" using that by auto
    have e: "(2 - fst k = 2 - fst x) = (fst x = fst k)" if "fst x \<le> 2" for x using k that by arith
    have f: "filter (\<lambda>x. 2 - fst k = 2 - fst x) xs = filter (\<lambda>x. fst x = fst k) xs" if "\<forall>x\<in>set xs. fst x \<le> 2" for xs
    proof (rule filter_cong [OF refl])
      fix x
      assume "x \<in> set xs"
      then show "(2 - fst k = 2 - fst x) = (fst x = fst k)" using e [of x] that by blast
    qed
    have "filter (\<lambda>x. fst x = fst k) ?ys = filter (\<lambda>x. fst x = fst k) arr"
    proof -
      have "fst k = 0 \<or> fst k = 1 \<or> fst k = 2" using k by auto
      then show ?thesis by (elim disjE) (simp_all add: filter_priority del: filter_filter)
    qed
    moreover have "\<forall>x\<in>set ?ys. fst x \<le> 2" by auto
    ultimately show ?thesis using f [of ?ys] f [of arr] assms by simp
  qed
  show "sorted (map (\<lambda>y. 2 - fst y) ?ys)" 
    by (simp add: priority_const sorted_append)
qed

lemma queue_rel_new: "queue_rel newWorkQueue []"
  by (simp add: queue_rel_def newWorkQueue_def priorities numeral_3_eq_3 less_Suc_eq)

lemma queue_rel_enqueue:
  assumes "queue_rel q arr"
  shows "queue_rel (snd (enqueueWork k x p q)) (if MaxPriority < p then arr else arr @ [(p, x)])"
  using assms by (auto simp: queue_rel_def enqueueWork_def priorities wakeUpWorkers_def nth_list_update)

lemma queue_rel_dequeue:
  assumes rel: "queue_rel q arr"
  shows "case byPriority arr of
      [] \<Rightarrow> dequeueWork k q = (None, q)
    | y # _ \<Rightarrow> \<exists>q1. dequeueWork k q = (Some (snd y), q1) \<and> queue_rel q1 (remove1 y arr)"
proof -
  have qs: "wq_queue q ! p = map snd (filter (\<lambda>y. fst y = p) arr)" if "p < 3" for p using rel that by (simp add: queue_rel_def)
  have len: "length (wq_queue q) = 3" using rel by (simp add: queue_rel_def)
  have ord: "byPriority arr = filter (\<lambda>y. fst y = 2) arr @ filter (\<lambda>y. fst y = 1) arr @ filter (\<lambda>y. fst y = 0) arr"
    by (rule byPriority_split) (use rel in \<open>simp add: queue_rel_def\<close>)
  show ?thesis
  proof (cases "dequeueFrom 3 (wq_queue q)")
    case None
    then have "filter (\<lambda>y. fst y = p) arr = []" if "p < 3" for p using qs [OF that] that by (simp add: dequeueFrom_None)
    from this [of 0] this [of 1] this [of 2] show ?thesis
      using None rel by (simp add: ord dequeueWork_def priorities queue_rel_def)
  next
    case (Some r)
    obtain x qs' where r: "r = (x, qs')" by (cases r)
    obtain j xs where j: "j < 3" "wq_queue q ! j = x # xs" "qs' = (wq_queue q)[j := xs]"
      and above: "\<And>i. j < i \<Longrightarrow> i < 3 \<Longrightarrow> wq_queue q ! i = []"
      using dequeueFrom_Some [OF Some [unfolded r]] by metis
    obtain y ys where y: "filter (\<lambda>y. fst y = j) arr = y # ys" "x = snd y" "xs = map snd ys" using qs [OF j(1)] j(2) by auto
    have fy: "fst y = j" using y(1) by (metis (mono_tags) filter_eq_Cons_iff)
    have "\<exists>l. byPriority arr = y # l"
    proof -
      have "filter (\<lambda>y. fst y = i) arr = []" if "j < i" "i < 3" for i using above [OF that] qs [OF that(2)] by simp
      from this [of 1] this [of 2] show ?thesis using j(1) y(1) unfolding ord
        by (cases "j = 0"; cases "j = 1"; cases "j = 2") auto
    qed
    then obtain l where l: "byPriority arr = y # l" by blast
    have d: "dequeueWork k q = (Some (snd y), q\<lparr>wq_queue := qs'\<rparr>)"
      using Some r y(2) by (simp add: dequeueWork_def priorities)
    have "queue_rel (q\<lparr>wq_queue := qs'\<rparr>) (remove1 y arr)"
    proof -
      have "qs' ! p = map snd (filter (\<lambda>y. fst y = p) (remove1 y arr))" if p: "p < 3" for p
      proof (cases "p = j")
        case True
        then show ?thesis using j(1,3) y len by (simp add: filter_remove1)
      next
        case False
        then have "remove1 y (filter (\<lambda>y. fst y = p) arr) = filter (\<lambda>y. fst y = p) arr"
          using fy by (intro remove1_idem) auto
        then show ?thesis using False j(3) qs [OF p] by (simp add: filter_remove1)
      qed
      moreover have "\<forall>z\<in>set (remove1 y arr). fst z \<le> 2" using rel set_remove1_subset [of y arr] by (auto simp: queue_rel_def)
      ultimately show ?thesis using rel j(3) by (simp add: queue_rel_def)
    qed
    then show ?thesis unfolding l d by simp
  qed
qed

lemma runQueue_spec: "queue_rel q arr \<Longrightarrow> runQueue k ops q = runSpec ops arr"
proof (induction ops arr arbitrary: q rule: runSpec.induct)
  case (2 x p ops arr)
  from 2(1) [OF queue_rel_enqueue [OF 2(2)]] show ?case by simp
next
  case (3 ops arr)
  note D = queue_rel_dequeue [OF 3(3), of k]
  show ?case
  proof (cases "byPriority arr")
    case Nil
    then show ?thesis using D 3(1) [OF Nil 3(3)] by simp
  next
    case (Cons y ys)
    then obtain q1 where q1: "dequeueWork k q = (Some (snd y), q1)" "queue_rel q1 (remove1 y arr)" using D by auto
    from 3(2) [OF Cons q1(2)] show ?thesis using q1(1) Cons by simp
  qed
qed simp

text \<open>
  for every sequence of enqueues and dequeues, the three queues give the items out as one list that
  is stably ordered by descending priority: the highest priority first, and first in, first out within
  a priority; an invalid priority is rejected without effect.
\<close>

theorem work_queue_by_priority: "runQueue k ops newWorkQueue = runSpec ops []"
  by (rule runQueue_spec [OF queue_rel_new])

section \<open>Invariants of the pool\<close>

text \<open>The items a worker has in its hands, and the workers that will look into the queue again.\<close>

fun pcItems :: "'w worker_pc \<Rightarrow> 'w list" where
  "pcItems (Executing xs) = xs"
| "pcItems _ = []"

fun awake :: "'w worker_pc \<Rightarrow> bool" where
  "awake Trying = True"
| "awake (Executing xs) = True"
| "awake _ = False"

definition queued :: "'w work_queue \<Rightarrow> 'w multiset" where
  "queued q = mset (concat (wq_queue q))"

definition inHands :: "('w worker_pc \<times> bool) list \<Rightarrow> 'w multiset" where
  "inHands ws = (\<Sum>w\<leftarrow>ws. mset (pcItems (fst w)))"

definition closing :: "closer_pc \<Rightarrow> bool" where
  "closing c \<longleftrightarrow> c = Joining \<or> c = Closed"

definition pool_inv :: "nat \<Rightarrow> 'w pool \<Rightarrow> bool" where
  "pool_inv n s \<longleftrightarrow>
     length (wq_queue (pl_queue s)) = 3 \<and> length (pl_workers s) = n \<and>
     (\<forall>w\<in>set (pl_workers s). fst w \<noteq> Executing [] \<and> snd w = closing (pl_closer s) \<and> (fst w = Finished \<longrightarrow> snd w)) \<and>
     wq_blocked (pl_queue s) = (pl_closer s \<noteq> NotClosing) \<and>
     (0 < wq_emptyEvent (pl_queue s) \<longrightarrow> wq_blocked (pl_queue s) \<and> queued (pl_queue s) = {#}) \<and>
     (pl_closer s = Stopping \<or> closing (pl_closer s) \<longrightarrow> queued (pl_queue s) = {#}) \<and>
     (queued (pl_queue s) \<noteq> {#} \<longrightarrow> 0 < wq_workEvent (pl_queue s) \<or> (\<exists>w\<in>set (pl_workers s). awake (fst w))) \<and>
     (pl_closer s = Closed \<longrightarrow> (\<forall>w\<in>set (pl_workers s). fst w = Finished)) \<and>
     mset (pl_submitted s) = queued (pl_queue s) + inHands (pl_workers s) + mset (pl_processed s) + mset (pl_dropped s)"

lemma queued_empty: "queued q = {#} \<longleftrightarrow> isEmpty q"
  by (auto simp: queued_def isEmpty_def)

lemma concat_update:
  "j < length qs \<Longrightarrow> mset (concat (qs[j := xs])) + mset (qs ! j) = mset (concat qs) + mset xs"
proof (induction qs arbitrary: j)
  case (Cons y qs)
  then show ?case
  proof (cases j)
    case (Suc k)
    then show ?thesis using Cons.IH [of k] Cons.prems by (simp add: add.assoc)
  qed (simp add: ac_simps)
qed simp

lemma dequeueWork_Some:
  assumes "dequeueWork k q = (Some x, q')" and "length (wq_queue q) = 3"
  shows "queued q = add_mset x (queued q') \<and> length (wq_queue q') = 3 \<and> wq_workEvent q' = wq_workEvent q \<and>
    wq_emptyEvent q' = wq_emptyEvent q \<and> wq_blocked q' = wq_blocked q"
proof -
  obtain qs where d: "dequeueFrom 3 (wq_queue q) = Some (x, qs)" and q': "q' = q\<lparr>wq_queue := qs\<rparr>"
    using assms(1) by (auto simp: dequeueWork_def priorities split: option.splits)
  obtain j xs where "j < 3" "wq_queue q ! j = x # xs" "qs = (wq_queue q)[j := xs]"
    using dequeueFrom_Some [OF d] by metis
  then show ?thesis using q' concat_update [of j "wq_queue q" xs] assms(2) by (simp add: queued_def)
qed

lemma dequeueWork_None:
  assumes "dequeueWork k q = (None, q')" and "length (wq_queue q) = 3"
  shows "queued q = {#} \<and> q' = (if wq_blocked q then q\<lparr>wq_emptyEvent := signal k (wq_emptyEvent q)\<rparr> else q)"
proof -
  have "dequeueFrom 3 (wq_queue q) = None" "q' = (if wq_blocked q then q\<lparr>wq_emptyEvent := signal k (wq_emptyEvent q)\<rparr> else q)"
    using assms(1) by (auto simp: dequeueWork_def priorities split: option.splits)
  then show ?thesis using assms(2) by (auto simp: dequeueFrom_None queued_def in_set_conv_nth)
qed

text \<open>The workers but one.\<close>

lemma inHands_update:
  "i < length ws \<Longrightarrow> inHands (ws[i := (pc, st)]) + mset (pcItems (fst (ws ! i))) = inHands ws + mset (pcItems pc)"
proof (induction ws arbitrary: i)
  case (Cons w ws)
  then show ?case
  proof (cases i)
    case (Suc k)
    then show ?thesis using Cons.IH [of k] Cons.prems by (simp add: inHands_def add.assoc)
  qed (simp add: inHands_def ac_simps)
qed simp

lemma pool_inv_new: "pool_inv n (newPool n)"
proof -
  have "inHands (replicate n (AtTop, False)) = {#}" by (induction n) (simp_all add: inHands_def)
  then show ?thesis by (simp add: pool_inv_def newPool_def newWorkQueue_def priorities queued_def closing_def)
qed

lemma multiset_balance:
  fixes q :: "'w multiset"
  assumes "a + p = h + p'" and "q' + p' + d' = q + p + d"
  shows "q + h + d + x = q' + a + d' + x"
proof (rule multiset_eqI)
  fix z
  have "count a z + count p z = count h z + count p' z" using arg_cong [OF assms(1), of "\<lambda>m. count m z"] by simp
  moreover have "count q' z + count p' z + count d' z = count q z + count p z + count d z"
    using arg_cong [OF assms(2), of "\<lambda>m. count m z"] by simp
  ultimately show "count (q + h + d + x) z = count (q' + a + d' + x) z" by simp
qed

lemma pool_inv_D:
  assumes "pool_inv n s"
  shows "length (wq_queue (pl_queue s)) = 3" "length (pl_workers s) = n"
    "w \<in> set (pl_workers s) \<Longrightarrow> fst w \<noteq> Executing [] \<and> snd w = closing (pl_closer s) \<and> (fst w = Finished \<longrightarrow> snd w)"
    "wq_blocked (pl_queue s) = (pl_closer s \<noteq> NotClosing)"
    "0 < wq_emptyEvent (pl_queue s) \<Longrightarrow> wq_blocked (pl_queue s) \<and> queued (pl_queue s) = {#}"
    "pl_closer s = Stopping \<or> closing (pl_closer s) \<Longrightarrow> queued (pl_queue s) = {#}"
    "queued (pl_queue s) \<noteq> {#} \<Longrightarrow> 0 < wq_workEvent (pl_queue s) \<or> (\<exists>w\<in>set (pl_workers s). awake (fst w))"
    "pl_closer s = Closed \<Longrightarrow> w \<in> set (pl_workers s) \<Longrightarrow> fst w = Finished"
    "mset (pl_submitted s) = queued (pl_queue s) + inHands (pl_workers s) + mset (pl_processed s) + mset (pl_dropped s)"
  using assms unfolding pool_inv_def by blast+

lemma pool_inv_worker:
  assumes inv: "pool_inv n s" and i: "i < n" and w: "pl_workers s ! i = (pc, st)" "pc \<noteq> Finished"
    and s': "pl_workers s' = (pl_workers s)[i := (pc', st)]" "pl_closer s' = pl_closer s" "pl_submitted s' = pl_submitted s"
      "pl_dropped s' = pl_dropped s" "pl_queue s' = q'"
    and q': "length (wq_queue q') = 3" "wq_blocked q' = wq_blocked (pl_queue s)"
      "0 < wq_emptyEvent q' \<Longrightarrow> wq_blocked q' \<and> queued q' = {#}"
    and pc': "pc' \<noteq> Executing []" "pc' = Finished \<Longrightarrow> st"
    and sub: "queued (pl_queue s) = {#} \<Longrightarrow> queued q' = {#}"
    and aw: "queued q' \<noteq> {#} \<Longrightarrow> awake pc' \<or> \<not> awake pc \<and> wq_workEvent q' = wq_workEvent (pl_queue s)"
    and sum: "queued q' + mset (pcItems pc') + mset (pl_processed s') =
      queued (pl_queue s) + mset (pcItems pc) + mset (pl_processed s)"
  shows "pool_inv n s'"
proof -
  let ?ws = "pl_workers s" and ?q = "pl_queue s"
  note D = pool_inv_D [OF inv]
  have len: "length ?ws = n" and all: "\<And>w. w \<in> set ?ws \<Longrightarrow> fst w \<noteq> Executing [] \<and> snd w = closing (pl_closer s) \<and> (fst w = Finished \<longrightarrow> snd w)"
    and blk: "wq_blocked ?q = (pl_closer s \<noteq> NotClosing)" and cl: "pl_closer s = Stopping \<or> closing (pl_closer s) \<Longrightarrow> queued ?q = {#}"
    and wake: "queued ?q \<noteq> {#} \<Longrightarrow> 0 < wq_workEvent ?q \<or> (\<exists>w\<in>set ?ws. awake (fst w))"
    and fin: "pl_closer s = Closed \<Longrightarrow> \<forall>w\<in>set ?ws. fst w = Finished"
    and acc: "mset (pl_submitted s) = queued ?q + inHands ?ws + mset (pl_processed s) + mset (pl_dropped s)"
    using D by blast+
  have mem: "(pc, st) \<in> set ?ws" using i len w(1) by (metis nth_mem)
  have st: "st = closing (pl_closer s)" using all [OF mem] by simp
  have nc: "pl_closer s \<noteq> Closed" using fin mem w(2) by force
  have set': "w' \<in> set (?ws[i := (pc', st)]) \<Longrightarrow> w' = (pc', st) \<or> w' \<in> set ?ws" for w'
    using set_update_subset_insert [of ?ws i "(pc', st)"] by auto
  have all': "fst w \<noteq> Executing [] \<and> snd w = closing (pl_closer s) \<and> (fst w = Finished \<longrightarrow> snd w)"
    if "w \<in> set (?ws[i := (pc', st)])" for w
  proof (cases "w = (pc', st)")
    case True
    then show ?thesis using pc' st by auto
  next
    case False
    then show ?thesis using set' [OF that] all by blast
  qed
  have "inHands (?ws[i := (pc', st)]) + mset (pcItems pc) = inHands ?ws + mset (pcItems pc')"
    using inHands_update [of i ?ws pc' st] i len w(1) by simp
  from multiset_balance [OF this sum]
  have acc': "mset (pl_submitted s) = queued q' + inHands (?ws[i := (pc', st)]) + mset (pl_processed s') + mset (pl_dropped s)"
    using acc by simp
  have aw': "0 < wq_workEvent q' \<or> (\<exists>w\<in>set (?ws[i := (pc', st)]). awake (fst w))" if ne: "queued q' \<noteq> {#}"
  proof (cases "awake pc'")
    case True
    then show ?thesis using i len by (intro disjI2 bexI [of _ "(pc', st)"]) (auto intro: set_update_memI)
  next
    case False
    then have k: "\<not> awake pc" "wq_workEvent q' = wq_workEvent ?q" using aw [OF ne] by auto
    have "queued ?q \<noteq> {#}" using sub ne by blast
    from wake [OF this] show ?thesis
    proof
      assume "\<exists>w\<in>set ?ws. awake (fst w)"
      then obtain j where j: "j < length ?ws" "awake (fst (?ws ! j))" by (auto simp: in_set_conv_nth)
      then have "j \<noteq> i" using k(1) w(1) by auto
      then have "?ws[i := (pc', st)] ! j = ?ws ! j" by simp
      then show ?thesis using j by (metis length_list_update nth_mem)
    qed (simp add: k(2))
  qed
  show ?thesis
    unfolding pool_inv_def s'
  proof (intro conjI)
    show "\<forall>w\<in>set (?ws[i := (pc', st)]). fst w \<noteq> Executing [] \<and> snd w = closing (pl_closer s) \<and> (fst w = Finished \<longrightarrow> snd w)"
      using all' by blast
    show "0 < wq_emptyEvent q' \<longrightarrow> wq_blocked q' \<and> queued q' = {#}" using q'(3) by blast
    show "pl_closer s = Stopping \<or> closing (pl_closer s) \<longrightarrow> queued q' = {#}" using cl sub by blast
    show "queued q' \<noteq> {#} \<longrightarrow> 0 < wq_workEvent q' \<or> (\<exists>w\<in>set (?ws[i := (pc', st)]). awake (fst w))" using aw' by blast
  qed (use q' blk len acc' nc in simp_all)
qed

lemma pool_inv_workerStep:
  assumes inv: "pool_inv n s" and i: "i < length (pl_workers s)" and w: "workerStep k i s = Some s'"
  shows "pool_inv n s'"
proof -
  obtain pc st where pc: "pl_workers s ! i = (pc, st)" by (cases "pl_workers s ! i")
  have n: "i < n" "length (wq_queue (pl_queue s)) = 3" using inv i by (simp_all add: pool_inv_def)
  have ev: "0 < wq_emptyEvent (pl_queue s) \<Longrightarrow> wq_blocked (pl_queue s) \<and> queued (pl_queue s) = {#}"
    by (rule pool_inv_D(5) [OF inv])
  have nf: "pc \<noteq> Finished" using w pc by (auto simp: workerStep_def)
  note W = pool_inv_worker [OF inv n(1) pc nf]
  note w' = w [unfolded workerStep_def pc Let_def prod.case snd_conv]
  have stop: "queued (pl_queue s) = {#}" if "st"
    using inv that pc i nth_mem [OF i] by (auto simp: pool_inv_def)
  show ?thesis
  proof (cases pc)
    case AtTop
    then show ?thesis using w' pc n ev
      by (intro W [where q' = "pl_queue s" and pc' = "if st then Finished else Waiting"]) (auto split: if_splits)
  next
    case Waiting
    then show ?thesis using w' pc n ev
      by (intro W [where q' = "(pl_queue s)\<lparr>wq_workEvent := wq_workEvent (pl_queue s) - 1\<rparr>" and pc' = Trying])
        (auto simp: queued_def split: if_splits)
  next
    case Trying
    show ?thesis
    proof (cases "dequeueWork k (pl_queue s)")
      case (Pair r q1)
      show ?thesis
      proof (cases r)
        case None
        note D = dequeueWork_None [OF Pair [unfolded None] n(2)]
        then have "queued q1 = {#}" by (auto simp: queued_def)
        then show ?thesis using w' pc n ev D None Pair Trying
          by (intro W [where q' = q1 and pc' = AtTop]) (auto split: if_splits)
      next
        case (Some x)
        note D = dequeueWork_Some [OF Pair [unfolded Some] n(2)]
        then show ?thesis using w' pc n ev Some Pair Trying
          by (intro W [where q' = q1 and pc' = "Executing [x]"]) auto
      qed
    qed
  next
    case (Executing xs)
    then obtain x ys where xs: "xs = x # ys" using w' by (cases xs) auto
    show ?thesis
    proof (cases ys)
      case Nil
      then show ?thesis using w' pc n ev xs Executing stop
        by (intro W [where q' = "pl_queue s" and pc' = "if st then AtTop else Trying"]) (auto split: if_splits)
    next
      case (Cons y zs)
      then show ?thesis using w' pc n ev xs Executing
        by (intro W [where q' = "pl_queue s" and pc' = "Executing ys"]) auto
    qed
  next
    case Finished
    then show ?thesis using nf by simp
  qed
qed

lemma pool_inv_waitStep:
  assumes inv: "pool_inv n s" and i: "i < length (pl_workers s)" and w: "waitStep k i s = Some s'"
  shows "pool_inv n s'"
proof -
  obtain x xs st where pc: "pl_workers s ! i = (Executing (x # xs), st)"
    using w by (cases "pl_workers s ! i") (auto simp: waitStep_def split: worker_pc.splits list.splits)
  note D = pool_inv_D [OF inv]
  have n: "i < n" using i D(2) by simp
  have nf: "Executing (x # xs) \<noteq> Finished" by simp
  note W = pool_inv_worker [OF inv n pc nf]
  obtain r q1 where q1: "dequeueWork k (pl_queue s) = (r, q1)" by (cases "dequeueWork k (pl_queue s)")
  show ?thesis
  proof (cases r)
    case None
    note Q = dequeueWork_None [OF q1 [unfolded None] D(1)]
    then have e: "queued q1 = {#}" by (auto simp: queued_def)
    have s': "s' = s\<lparr>pl_queue := q1\<rparr>" using w pc q1 None by (simp add: waitStep_def)
    have same: "(pl_workers s)[i := (Executing (x # xs), st)] = pl_workers s" using pc by (metis list_update_id)
    show ?thesis using s' e Q D(1,5) same
      by (intro W [where q' = q1 and pc' = "Executing (x # xs)"]) (auto split: if_splits)
  next
    case (Some y)
    note Q = dequeueWork_Some [OF q1 [unfolded Some] D(1)]
    have s': "s' = s\<lparr>pl_queue := q1, pl_workers := (pl_workers s)[i := (Executing (y # x # xs), st)]\<rparr>"
      using w pc q1 Some by (simp add: waitStep_def)
    show ?thesis using s' Q D(5)
      by (intro W [where q' = q1 and pc' = "Executing (y # x # xs)"]) auto
  qed
qed

lemma pool_inv_submit:
  assumes inv: "pool_inv n s" and c: "submitWork k x p s = (r, s')"
  shows "pool_inv n s'"
proof -
  note D = pool_inv_D [OF inv]
  obtain r1 q where q: "enqueueWork k x p (pl_queue s) = (r1, q)" by (cases "enqueueWork k x p (pl_queue s)")
  show ?thesis
  proof (cases r1)
    case (Inl e)
    then have "q = pl_queue s" using q by (auto simp: enqueueWork_def split: if_splits)
    then have "s' = s" using c q Inl by (simp add: submitWork_def)
    then show ?thesis using inv by simp
  next
    case (Inr u)
    have p: "\<not> wq_blocked (pl_queue s)" "p < 3"
      "q = wakeUpWorkers k ((pl_queue s)\<lparr>wq_queue := (wq_queue (pl_queue s))[p := wq_queue (pl_queue s) ! p @ [x]]\<rparr>)"
      using q Inr by (auto simp: enqueueWork_def priorities split: if_splits)
    have s': "s' = s\<lparr>pl_queue := q, pl_submitted := x # pl_submitted s\<rparr>" using c q Inr by (simp add: submitWork_def)
    have "queued q = add_mset x (queued (pl_queue s))"
      using concat_update [of p "wq_queue (pl_queue s)" "wq_queue (pl_queue s) ! p @ [x]"] p D(1)
      by (simp add: queued_def wakeUpWorkers_def)
    moreover have "length (wq_queue q) = 3" "0 < wq_workEvent q" "\<not> wq_blocked q" "wq_emptyEvent q = wq_emptyEvent (pl_queue s)"
      using p D(1) by (simp_all add: wakeUpWorkers_def)
    moreover have "pl_closer s = NotClosing" using p(1) D(4) by simp
    moreover have "fst w \<noteq> Executing [] \<and> \<not> snd w \<and> (fst w = Finished \<longrightarrow> snd w)" if "w \<in> set (pl_workers s)" for w
      using D(3) [OF that] \<open>pl_closer s = NotClosing\<close> by (auto simp: closing_def)
    moreover have "\<not> 0 < wq_emptyEvent (pl_queue s)" using D(5) p(1) by auto
    ultimately show ?thesis using D(2,9) p(1) unfolding s' pool_inv_def by (auto simp: closing_def)
  qed
qed

lemma block_D: "wq_queue (block k q) = wq_queue q" "wq_blocked (block k q)" "wq_workEvent (block k q) = wq_workEvent q"
  "queued (block k q) = queued q" "queued q \<noteq> {#} \<Longrightarrow> wq_emptyEvent (block k q) = wq_emptyEvent q"
proof -
  have "isEmpty (q\<lparr>wq_blocked := True\<rparr>) = isEmpty q" by (simp add: isEmpty_def)
  then show "wq_queue (block k q) = wq_queue q" "wq_blocked (block k q)" "wq_workEvent (block k q) = wq_workEvent q"
    "queued (block k q) = queued q" "queued q \<noteq> {#} \<Longrightarrow> wq_emptyEvent (block k q) = wq_emptyEvent q"
    by (auto simp: block_def Let_def queued_def isEmpty_def)
qed

lemma queued_clear [simp]: "queued (clear q) = {#}"
  by (simp add: queued_def clear_def)

lemma inHands_stop: "inHands (map (\<lambda>(pc, _). (pc, True)) ws) = inHands ws"
  by (simp add: inHands_def comp_def split_beta)

lemma pool_inv_closeStep:
  assumes inv: "pool_inv n s" and c: "closeStep k dropQueue s = Some s'"
  shows "pool_inv n s'"
proof -
  note D = pool_inv_D [OF inv]
  note c' = c [unfolded closeStep_def Let_def]
  show ?thesis
  proof (cases "pl_closer s")
    case NotClosing
    have nb: "\<not> wq_blocked (pl_queue s)" using NotClosing D(4) by simp
    then have e0: "wq_emptyEvent (pl_queue s) = 0" using D(5) by auto
    have w: "fst w \<noteq> Executing [] \<and> \<not> snd w \<and> (fst w = Finished \<longrightarrow> snd w)" if "w \<in> set (pl_workers s)" for w
      using D(3) [OF that] NotClosing by (auto simp: closing_def)
    show ?thesis
    proof (cases dropQueue)
      case True
      have s': "s' = s\<lparr>pl_queue := clear (block k (pl_queue s)), pl_closer := Stopping,
          pl_dropped := concat (wq_queue (block k (pl_queue s))) @ pl_dropped s\<rparr>" using c' NotClosing True by simp
      have "wq_blocked (clear (block k (pl_queue s)))" "length (wq_queue (clear (block k (pl_queue s)))) = 3"
        using block_D(2) by (simp_all add: clear_def priorities)
      moreover have "mset (concat (wq_queue (block k (pl_queue s)))) = queued (pl_queue s)" by (simp add: queued_def block_D)
      ultimately show ?thesis using D(2,9) w unfolding pool_inv_def s' by (auto simp: closing_def)
    next
      case False
      have s': "s' = s\<lparr>pl_queue := block k (pl_queue s), pl_closer := WaitEmpty\<rparr>" using c' NotClosing False by simp
      have "0 < wq_emptyEvent (block k (pl_queue s)) \<Longrightarrow> queued (pl_queue s) = {#}"
        using block_D(5) [where k = k and q = "pl_queue s"] e0 by (cases "queued (pl_queue s) = {#}") simp_all
      then show ?thesis unfolding pool_inv_def s'
        using D(1,2,7,9) w block_D(1-4) [where k = k and q = "pl_queue s"] by (auto simp: closing_def)
    qed
  next
    case WaitEmpty
    then have e: "0 < wq_emptyEvent (pl_queue s)" and
      s': "s' = s\<lparr>pl_queue := (pl_queue s)\<lparr>wq_emptyEvent := wq_emptyEvent (pl_queue s) - 1\<rparr>, pl_closer := Stopping\<rparr>"
      using c' by (auto split: if_splits)
    have "queued (pl_queue s) = {#}" using D(5) e by simp
    then have q: "queued ((pl_queue s)\<lparr>wq_emptyEvent := wq_emptyEvent (pl_queue s) - 1\<rparr>) = {#}" by (simp add: queued_def)
    have w: "fst w \<noteq> Executing [] \<and> \<not> snd w \<and> (fst w = Finished \<longrightarrow> snd w)" if "w \<in> set (pl_workers s)" for w
      using D(3) [OF that] WaitEmpty by (auto simp: closing_def)
    show ?thesis unfolding pool_inv_def s' using D(1,2,4,9) w q WaitEmpty \<open>queued (pl_queue s) = {#}\<close> by (auto simp: closing_def)
  next
    case Stopping
    have s': "s' = s\<lparr>pl_workers := map (\<lambda>(pc, _). (pc, True)) (pl_workers s), pl_queue := wakeUpWorkers k (pl_queue s), pl_closer := Joining\<rparr>"
      using c' Stopping by simp
    have q: "queued (wakeUpWorkers k (pl_queue s)) = {#}" "queued (pl_queue s) = {#}" using D(6) Stopping by (simp_all add: queued_def wakeUpWorkers_def)
    have w: "fst w \<noteq> Executing []" if "w \<in> set (pl_workers s)" for w using D(3) [OF that] by simp
    show ?thesis unfolding pool_inv_def s'
      using D(1,2,4,9) w q Stopping by (auto simp: closing_def inHands_stop wakeUpWorkers_def)
  next
    case Joining
    then have "\<forall>w\<in>set (pl_workers s). fst w = Finished" and s': "s' = s\<lparr>pl_closer := Closed\<rparr>" using c' by (auto split: if_splits)
    then show ?thesis using inv Joining unfolding pool_inv_def s' by (auto simp: closing_def)
  next
    case Closed
    then show ?thesis using c' by simp
  qed
qed

lemma pool_reachable_inv: "pool_reachable k n s \<Longrightarrow> pool_inv n s"
proof (induction rule: pool_reachable.induct)
  case init
  show ?case by (rule pool_inv_new)
next
  case (step s s')
  from step(2) step(3) show ?case
    by cases (auto intro: pool_inv_submit pool_inv_workerStep pool_inv_waitStep pool_inv_closeStep)
qed

section \<open>The work gets done\<close>

text \<open>The steps of the workers alone, without the dequeues of waiting items that find nothing.\<close>

inductive work_step :: "event_kind \<Rightarrow> 'w pool \<Rightarrow> 'w pool \<Rightarrow> bool" for k where
  work: "i < length (pl_workers s) \<Longrightarrow> workerStep k i s = Some s' \<Longrightarrow> work_step k s s'"
| help_work: "i < length (pl_workers s) \<Longrightarrow> waitStep k i s = Some s' \<Longrightarrow> pl_workers s' \<noteq> pl_workers s \<Longrightarrow> work_step k s s'"

fun pcWork :: "'w worker_pc \<Rightarrow> nat" where
  "pcWork AtTop = 1"
| "pcWork Waiting = 0"
| "pcWork Trying = 2"
| "pcWork (Executing xs) = 2 + length xs"
| "pcWork Finished = 0"

definition work :: "'w pool \<Rightarrow> nat" where
  "work s = 4 * size (queued (pl_queue s)) + 3 * wq_workEvent (pl_queue s) + (\<Sum>w\<leftarrow>pl_workers s. pcWork (fst w))"

lemma pcWork_update:
  "i < length ws \<Longrightarrow> (\<Sum>w\<leftarrow>ws[i := (pc, st)]. pcWork (fst w)) + pcWork (fst (ws ! i)) = (\<Sum>w\<leftarrow>ws. pcWork (fst w)) + pcWork pc"
proof (induction ws arbitrary: i)
  case (Cons w ws)
  then show ?case
  proof (cases i)
    case (Suc k)
    then show ?thesis using Cons.IH [of k] Cons.prems by simp
  qed simp
qed simp

lemma work_decreases:
  assumes inv: "pool_inv n s" and st: "work_step k s s'"
  shows "work s' < work s"
  using st
proof cases
  case (work i)
  obtain pc st where pc: "pl_workers s ! i = (pc, st)" by (cases "pl_workers s ! i")
  note D = pool_inv_D [OF inv]
  note U = pcWork_update [OF work(1), of _ st]
  note w' = work(2) [unfolded workerStep_def pc Let_def prod.case snd_conv]
  show ?thesis
  proof (cases pc)
    case AtTop
    then show ?thesis using w' U [of "if st then Finished else Waiting"] pc by (auto simp: work_def split: if_splits)
  next
    case Waiting
    then show ?thesis using w' U [of Trying] pc by (auto simp: work_def queued_def split: if_splits)
  next
    case Trying
    obtain r q1 where q1: "dequeueWork k (pl_queue s) = (r, q1)" by (cases "dequeueWork k (pl_queue s)")
    show ?thesis
    proof (cases r)
      case None
      have "queued q1 = queued (pl_queue s)" "wq_workEvent q1 = wq_workEvent (pl_queue s)"
        using dequeueWork_None [OF q1 [unfolded None] D(1)] by (auto simp: queued_def)
      then show ?thesis using w' U [of AtTop] pc Trying q1 None by (auto simp: work_def)
    next
      case (Some x)
      show ?thesis using w' U [of "Executing [x]"] pc Trying q1 Some dequeueWork_Some [OF q1 [unfolded Some] D(1)]
        by (auto simp: work_def)
    qed
  next
    case (Executing xs)
    then obtain x ys where xs: "xs = x # ys" using w' by (cases xs) auto
    then show ?thesis
      using w' U [of "if st then AtTop else Trying"] U [of "Executing ys"] pc Executing
      by (cases ys) (auto simp: work_def split: if_splits)
  next
    case Finished
    then show ?thesis using w' by simp
  qed
next
  case (help_work i)
  obtain x xs st where pc: "pl_workers s ! i = (Executing (x # xs), st)"
    using help_work(2) by (cases "pl_workers s ! i") (auto simp: waitStep_def split: worker_pc.splits list.splits)
  obtain r q1 where q1: "dequeueWork k (pl_queue s) = (r, q1)" by (cases "dequeueWork k (pl_queue s)")
  obtain y where y: "r = Some y" using help_work(2,3) pc q1 by (cases r) (auto simp: waitStep_def)
  have "s' = s\<lparr>pl_queue := q1, pl_workers := (pl_workers s)[i := (Executing (y # x # xs), st)]\<rparr>"
    using help_work(2) pc q1 y by (simp add: waitStep_def)
  then show ?thesis
    using pcWork_update [OF help_work(1), of "Executing (y # x # xs)" st] pc
      dequeueWork_Some [OF q1 [unfolded y] pool_inv_D(1) [OF inv]] by (auto simp: work_def)
qed

lemma pool_inv_work_step: "pool_inv n s \<Longrightarrow> work_step k s s' \<Longrightarrow> pool_inv n s'"
  by (erule work_step.cases) (auto intro: pool_inv_workerStep pool_inv_waitStep)

lemma work_steps:
  assumes "(work_step k)\<^sup>*\<^sup>* s s'" and "pool_inv n s"
  shows "pool_inv n s' \<and> pl_submitted s' = pl_submitted s \<and> pl_dropped s' = pl_dropped s \<and> pl_closer s' = pl_closer s"
  using assms
proof (induction rule: rtranclp_induct)
  case (step t u)
  have "pl_submitted u = pl_submitted t \<and> pl_dropped u = pl_dropped t \<and> pl_closer u = pl_closer t"
    using step(2)
    by cases (auto simp: workerStep_def waitStep_def Let_def split: prod.splits worker_pc.splits list.splits option.splits if_splits)
  then show ?case using step pool_inv_work_step by metis
qed simp

text \<open>Workers that can not go on are waiting or finished, with nothing to do.\<close>

lemma workers_stuck:
  assumes inv: "pool_inv n s" and n: "0 < n" and stuck: "\<And>s'. \<not> work_step k s s'"
  shows "queued (pl_queue s) = {#} \<and> (\<forall>w\<in>set (pl_workers s). fst w = Waiting \<or> fst w = Finished)"
proof -
  note D = pool_inv_D [OF inv]
  have no: "workerStep k i s = None" if "i < n" for i
    using stuck work_step.work [of i s k] that D(2) by (cases "workerStep k i s") auto
  have pc: "fst w = Waiting \<and> wq_workEvent (pl_queue s) = 0 \<or> fst w = Finished" if w: "w \<in> set (pl_workers s)" for w
  proof -
    obtain i where i: "i < n" "pl_workers s ! i = w" using w D(2) by (auto simp: in_set_conv_nth)
    have "fst w \<noteq> Executing []" using D(3) [OF w] by simp
    then show ?thesis using no [OF i(1)] i(2)
      by (cases w) (auto simp: workerStep_def Let_def split: worker_pc.splits list.splits prod.splits option.splits if_splits)
  qed
  have "queued (pl_queue s) = {#}"
  proof (rule ccontr)
    assume ne: "queued (pl_queue s) \<noteq> {#}"
    then have "\<not> closing (pl_closer s)" using D(6) by blast
    then have "fst w \<noteq> Finished" if "w \<in> set (pl_workers s)" for w using D(3) [OF that] by auto
    then have all: "fst w = Waiting \<and> wq_workEvent (pl_queue s) = 0" if "w \<in> set (pl_workers s)" for w using pc [OF that] that by blast
    have "hd (pl_workers s) \<in> set (pl_workers s)" using n D(2) by (intro hd_in_set) auto
    then have "wq_workEvent (pl_queue s) = 0" using all by blast
    moreover have "\<not> awake (fst w)" if "w \<in> set (pl_workers s)" for w using all [OF that] by simp
    ultimately show False using D(7) [OF ne] by auto
  qed
  then show ?thesis using pc by blast
qed

lemma inHands_none: "\<forall>w\<in>set ws. fst w = Waiting \<or> fst w = Finished \<Longrightarrow> inHands ws = {#}"
  by (induction ws) (auto simp: inHands_def)

section \<open>Properties of the pool\<close>

text \<open>
  C29: no work is lost or forgotten. Whatever was submitted and however the workers were interrupted,
  the workers on their own can take only finitely many steps, and where they all wait or are finished
  every submitted item was processed, unless a closing of the pool dropped it. So no item stays in the
  queue with all workers asleep.
\<close>

theorem pool_finishes_work:
  assumes "pool_reachable k n s" and "0 < n" and "(work_step k)\<^sup>*\<^sup>* s s'" and "\<nexists>t. work_step k s' t"
  shows "isEmpty (pl_queue s') \<and> mset (pl_submitted s) = mset (pl_processed s') + mset (pl_dropped s) \<and>
    (\<nexists>f. f 0 = s \<and> (\<forall>i. work_step k (f i) (f (Suc i))))"
proof (intro conjI notI)
  have inv: "pool_inv n s" by (rule pool_reachable_inv [OF assms(1)])
  note S = work_steps [OF assms(3) inv]
  have W: "queued (pl_queue s') = {#} \<and> (\<forall>w\<in>set (pl_workers s'). fst w = Waiting \<or> fst w = Finished)"
    by (rule workers_stuck) (use S assms(2,4) in auto)
  then show "isEmpty (pl_queue s')" by (simp add: queued_empty)
  show "mset (pl_submitted s) = mset (pl_processed s') + mset (pl_dropped s)"
    using pool_inv_D(9) [OF conjunct1 [OF S]] S W inHands_none by auto
  assume "\<exists>f. f 0 = s \<and> (\<forall>i. work_step k (f i) (f (Suc i)))"
  then obtain f where f: "f 0 = s" "work_step k (f i) (f (Suc i))" for i by blast
  have "pool_inv n (f i) \<and> work (f i) + i \<le> work s" for i
  proof (induction i)
    case (Suc i)
    then show ?case using pool_inv_work_step [OF _ f(2)] work_decreases [OF _ f(2), of n i] by fastforce
  qed (simp add: f(1) inv)
  from this [of "Suc (work s)"] show False by simp
qed

text \<open>The pool with one worker that was given one item.\<close>

definition pool1 :: "nat pool" where
  "pool1 = snd (submitWork Semaphore 7 Normal (newPool 1))"

lemma pool1_reachable: "pool_reachable Semaphore 1 pool1"
  unfolding pool1_def
  by (rule pool_reachable.step [OF pool_reachable.init pool_step.submit]) (rule surjective_pairing)

fun workRun :: "nat \<Rightarrow> 'w pool \<Rightarrow> 'w pool" where
  "workRun 0 s = s"
| "workRun (Suc m) s = (case workerStep Semaphore 0 s of None \<Rightarrow> s | Some s' \<Rightarrow> workRun m s')"

lemma workRun_steps: "0 < length (pl_workers s) \<Longrightarrow> (work_step Semaphore)\<^sup>*\<^sup>* s (workRun m s)"
proof (induction m arbitrary: s)
  case (Suc m)
  show ?case
  proof (cases "workerStep Semaphore 0 s")
    case (Some s')
    then have "work_step Semaphore s s'" using Suc.prems by (intro work_step.work)
    moreover have "0 < length (pl_workers s')"
      using Some Suc.prems by (auto simp: workerStep_def Let_def split: prod.splits worker_pc.splits list.splits option.splits if_splits)
    ultimately show ?thesis using Suc.IH Some by (simp add: converse_rtranclp_into_rtranclp)
  qed simp
qed simp

lemmas pool1_eval = pool1_def submitWork_def enqueueWork_def newPool_def newWorkQueue_def priorities Normal_def
  wakeUpWorkers_def signal_def workerStep_def dequeueWork_def Let_def numeral_3_eq_3

lemma pool1_done:
  "workRun 6 pool1 = \<lparr>pl_queue = newWorkQueue, pl_workers = [(Waiting, False)], pl_closer = NotClosing,
     pl_submitted = [7], pl_processed = [7], pl_dropped = []\<rparr>"
  by (simp add: eval_nat_numeral pool1_eval)

lemma pool_finishes_work_witness:
  "isEmpty (pl_queue (workRun 6 pool1)) \<and>
   mset (pl_submitted pool1) = mset (pl_processed (workRun 6 pool1)) + mset (pl_dropped pool1) \<and>
   (\<nexists>f. f 0 = pool1 \<and> (\<forall>i. work_step Semaphore (f i) (f (Suc i))))"
proof (rule pool_finishes_work [OF pool1_reachable])
  show "(work_step Semaphore)\<^sup>*\<^sup>* pool1 (workRun 6 pool1)" by (rule workRun_steps) (simp add: pool1_eval)
  show "\<nexists>t. work_step Semaphore (workRun 6 pool1) t"
    unfolding pool1_done by (auto elim!: work_step.cases simp: workerStep_def waitStep_def newWorkQueue_def)
qed simp

text \<open>
  C30: when the closing of the pool is past waiting for the queue, the queue is empty and stays so: new
  items are rejected, and every submitted item was processed, is being processed by a worker, or was
  dropped by the closing. When the closing is done, all workers have finished.
\<close>

theorem pool_close_safe:
  assumes "pool_reachable k n s" and "pl_closer s \<in> {Stopping, Joining, Closed}"
  shows "isEmpty (pl_queue s) \<and> submitWork k x p s = (Inl InvalidOperationException, s) \<and>
    mset (pl_submitted s) = inHands (pl_workers s) + mset (pl_processed s) + mset (pl_dropped s) \<and>
    {w \<in> set (pl_workers s). fst w \<noteq> Finished \<and> pl_closer s = Closed} = {}"
proof -
  note D = pool_inv_D [OF pool_reachable_inv [OF assms(1)]]
  have q: "queued (pl_queue s) = {#}" "wq_blocked (pl_queue s)" using D(4,6) assms(2) by (auto simp: closing_def)
  moreover have "submitWork k x p s = (Inl InvalidOperationException, s)" using q(2) by (simp add: submitWork_def enqueueWork_def)
  ultimately show ?thesis using D(8,9) by (auto simp: queued_empty)
qed

definition poolDropped :: "nat pool" where
  "poolDropped = the (closeStep Semaphore True pool1)"

lemma poolDropped_reachable: "pool_reachable Semaphore 1 poolDropped"
  unfolding poolDropped_def
  by (rule pool_reachable.step [OF pool1_reachable pool_step.close_pool [where dropQueue = True]])
    (simp add: closeStep_def pool1_eval)

lemma pool_close_safe_witness:
  "isEmpty (pl_queue poolDropped) \<and> submitWork Semaphore 1 Low poolDropped = (Inl InvalidOperationException, poolDropped) \<and>
   mset (pl_submitted poolDropped) = inHands (pl_workers poolDropped) + mset (pl_processed poolDropped) + mset (pl_dropped poolDropped) \<and>
   {w \<in> set (pl_workers poolDropped). fst w \<noteq> Finished \<and> pl_closer poolDropped = Closed} = {}"
  by (rule pool_close_safe [OF poolDropped_reachable]) (simp add: poolDropped_def closeStep_def pool1_eval)

text \<open>A pool whose closing waits for a worker that is not woken up.\<close>

definition hanging :: "nat \<Rightarrow> 'w pool \<Rightarrow> bool" where
  "hanging i s \<longleftrightarrow> i < length (pl_workers s) \<and> pl_closer s = Joining \<and> fst (pl_workers s ! i) = Waiting \<and>
     wq_blocked (pl_queue s) \<and> wq_workEvent (pl_queue s) = 0"

lemma dequeueWork_events: "dequeueWork k q = (r, q') \<Longrightarrow> wq_workEvent q' = wq_workEvent q \<and> wq_blocked q' = wq_blocked q"
  by (auto simp: dequeueWork_def split: option.splits if_splits)

lemma hanging_step:
  assumes h: "hanging i s" and st: "pool_step k s s'"
  shows "hanging i s'"
  using st
proof cases
  case (submit x p r)
  then show ?thesis using h by (simp add: hanging_def submitWork_def enqueueWork_def)
next
  case (worker j)
  have "j \<noteq> i" using worker h by (auto simp: hanging_def workerStep_def Let_def split: prod.splits)
  then show ?thesis using worker h
    by (auto simp: hanging_def workerStep_def Let_def dest!: dequeueWork_events
      split: prod.splits worker_pc.splits list.splits option.splits if_splits)
next
  case (help_out j)
  have "j \<noteq> i" using help_out h by (auto simp: hanging_def waitStep_def)
  then show ?thesis using help_out h
    by (auto simp: hanging_def waitStep_def dest!: dequeueWork_events
      split: prod.splits worker_pc.splits list.splits option.splits)
next
  case (close_pool dropQueue)
  have "\<exists>w\<in>set (pl_workers s). fst w \<noteq> Finished"
    using h by (intro bexI [of _ "pl_workers s ! i"]) (auto simp: hanging_def)
  then show ?thesis using close_pool h by (auto simp: hanging_def closeStep_def Let_def split: if_splits)
qed

lemma hanging_steps: "(pool_step k)\<^sup>*\<^sup>* s t \<Longrightarrow> hanging i s \<Longrightarrow> hanging i t"
  by (induction rule: rtranclp_induct) (auto intro: hanging_step)

fun poolRun :: "event_kind \<Rightarrow> nat option list \<Rightarrow> 'w pool \<Rightarrow> 'w pool option" where
  "poolRun k [] s = Some s"
| "poolRun k (c # cs) s =
     (case (case c of None \<Rightarrow> closeStep k False s | Some i \<Rightarrow> if i < length (pl_workers s) then workerStep k i s else None) of
        None \<Rightarrow> None | Some s' \<Rightarrow> poolRun k cs s')"

lemma poolRun_reachable: "poolRun k cs s = Some t \<Longrightarrow> pool_reachable k n s \<Longrightarrow> pool_reachable k n t"
proof (induction cs arbitrary: s)
  case (Cons c cs)
  then obtain s' where s': "(case c of None \<Rightarrow> closeStep k False s | Some i \<Rightarrow> if i < length (pl_workers s) then workerStep k i s else None) = Some s'"
    "poolRun k cs s' = Some t" by (auto split: option.splits if_splits)
  then have "pool_step k s s'"
    by (cases c) (auto split: if_splits intro: pool_step.close_pool pool_step.worker)
  then show ?case using Cons.IH [OF s'(2)] Cons.prems(2) by (blast intro: pool_reachable.step)
qed simp

text \<open>
  Closing a pool of two idle workers can hang: only one of them is woken up, so the other one waits
  on, and whatever happens then, the closing never gets past joining the workers.
\<close>

theorem pool_close_hangs:
  "\<exists>s :: nat pool. pool_reachable k 2 s \<and> pl_submitted s = [] \<and> {t. (pool_step k)\<^sup>*\<^sup>* s t} \<subseteq> {t. pl_closer t = Joining}"
proof -
  let ?run = "[Some 0, Some 1, None, None, None, Some 0, Some 0, Some 0]"
  obtain s :: "nat pool" where s: "poolRun k ?run (newPool 2) = Some s" "pl_submitted s = []" "hanging 1 s"
    by (cases k) (simp_all add: newPool_def newWorkQueue_def workerStep_def closeStep_def Let_def priorities numeral_2_eq_2
      numeral_3_eq_3 block_def isEmpty_def signal_def wakeUpWorkers_def dequeueWork_def hanging_def)
  have "pool_reachable k 2 s" by (rule poolRun_reachable [OF s(1) pool_reachable.init])
  then show ?thesis using s(2) hanging_steps [OF _ s(3)] by (auto simp: hanging_def)
qed

end
