(* ===== verification/Std_Map.thy ===== *)
theory Std_Map
  imports Prelude
begin

text \<open>
  \<open>std::map\<close>, as the stores and sessions are kept in: the pairs in the order of the keys. And the
  numbering of what is kept in them (\<open>simubase/IdAllocator.h\<close>). The interface of the clients is the
  locale \<open>ordered_map\<close>.
\<close>

section \<open>Maps\<close>

fun mapPut :: "'k::linorder \<Rightarrow> 'v \<Rightarrow> ('k \<times> 'v) list \<Rightarrow> ('k \<times> 'v) list" where
  "mapPut k v [] = [(k, v)]"
| "mapPut k v ((l, w) # m) =
     (if k < l then (k, v) # (l, w) # m else if k = l then (k, v) # m else (l, w) # mapPut k v m)"

definition mapErase :: "'k \<Rightarrow> ('k \<times> 'v) list \<Rightarrow> ('k \<times> 'v) list" where
  "mapErase k m = filter (\<lambda>(l, w). l \<noteq> k) m"

definition keys :: "('k \<times> 'v) list \<Rightarrow> 'k list" where
  "keys m = map fst m"

definition map_ok :: "('k::linorder \<times> 'v) list \<Rightarrow> bool" where
  "map_ok m \<longleftrightarrow> sorted_wrt (<) (keys m)"

lemma set_keys_put: "set (keys (mapPut k v m)) = insert k (set (keys m))"
  by (induction k v m rule: mapPut.induct) (auto simp: keys_def)

lemma map_ok_empty [simp]: "map_ok []"
  by (simp add: map_ok_def keys_def)

lemma map_ok_put [simp]: "map_ok m \<Longrightarrow> map_ok (mapPut k v m)"
proof (induction k v m rule: mapPut.induct)
  case (2 k v l w m)
  have "\<forall>x\<in>set (keys (mapPut k v m)). l < x" if "l < k"
    unfolding set_keys_put using 2(2) that by (auto simp: map_ok_def keys_def)
  then show ?case using 2 by (auto simp: map_ok_def keys_def)
qed (simp add: map_ok_def keys_def)

lemma map_ok_erase [simp]: "map_ok m \<Longrightarrow> map_ok (mapErase k m)"
  by (induction m) (auto simp: map_ok_def keys_def mapErase_def)

lemma map_of_put [simp]: "map_ok m \<Longrightarrow> map_of (mapPut k v m) = (map_of m)(k \<mapsto> v)"
proof (induction k v m rule: mapPut.induct)
  case (2 k v l w m)
  then show ?case by (auto simp: map_ok_def keys_def fun_eq_iff)
qed simp

lemma map_of_erase [simp]: "map_of (mapErase k m) = (map_of m)(k := None)"
  by (induction m) (auto simp: mapErase_def fun_eq_iff)

lemma mapErase_put: "map_ok m \<Longrightarrow> mapErase k (mapPut k v m) = mapErase k m"
  by (induction k v m rule: mapPut.induct) (auto simp: mapErase_def map_ok_def keys_def)

lemma map_ok_distinct: "map_ok m \<Longrightarrow> distinct (keys m)"
  by (auto simp: map_ok_def strict_sorted_iff)

lemma map_of_mem: "map_ok m \<Longrightarrow> map_of m k = Some v \<longleftrightarrow> (k, v) \<in> set m"
  by (auto simp: keys_def dest: map_ok_distinct intro: map_of_is_SomeI dest: map_of_SomeD)

lemma length_put: "map_ok m \<Longrightarrow> map_of m k = None \<Longrightarrow> length (mapPut k v m) = Suc (length m)"
proof (induction k v m rule: mapPut.induct)
  case (2 k v l w m)
  then show ?case by (auto simp: map_ok_def keys_def split: if_splits)
qed simp

lemma filter_put:
  assumes "map_ok m" and "map_of m k = None"
  shows "length (filter P (mapPut k v m)) = length (filter P m) + (if P (k, v) then 1 else 0)"
  using assms
proof (induction k v m rule: mapPut.induct)
  case (2 k v l w m)
  then show ?case by (auto simp: map_ok_def keys_def split: if_splits)
qed simp

section \<open>Numbers\<close>

text \<open>\<open>IdAllocator\<close>; its state is the next number.\<close>

definition getNextId :: "u32 \<Rightarrow> u32 res \<times> u32" where
  "getNextId n = (if n = - 1 then (Inl InvalidOperationException, n) else (Inr n, n + 1))"

definition stealId :: "u32 \<Rightarrow> u32 \<Rightarrow> u32" where
  "stealId i n = i + 1"

definition retireId :: "u32 \<Rightarrow> u32 \<Rightarrow> u32" where
  "retireId i n = n"

section \<open>The interface\<close>

text \<open>
  A collection of numbered objects: lookup, insertion or replacement, removal. Numbers that the
  allocator gives out are fresh as long as all numbers in use are below the next one.
\<close>

locale ordered_map =
  fixes valid :: "'m \<Rightarrow> bool"
    and find :: "'m \<Rightarrow> u32 \<Rightarrow> 'v option"
    and put :: "u32 \<Rightarrow> 'v \<Rightarrow> 'm \<Rightarrow> 'm"
    and erase :: "u32 \<Rightarrow> 'm \<Rightarrow> 'm"
  assumes valid_put: "valid m \<Longrightarrow> valid (put k v m)"
    and valid_erase: "valid m \<Longrightarrow> valid (erase k m)"
    and find_put: "valid m \<Longrightarrow> find (put k v m) l = (if l = k then Some v else find m l)"
    and find_erase: "valid m \<Longrightarrow> find (erase k m) l = (if l = k then None else find m l)"
begin

definition below :: "'m \<Rightarrow> u32 \<Rightarrow> bool" where
  "below m n \<longleftrightarrow> (\<forall>k v. find m k = Some v \<longrightarrow> k < n)"

lemma below_dom: "below m n \<longleftrightarrow> (\<forall>k\<in>dom (find m). k < n)"
  by (auto simp: below_def dom_def)

lemma below_fresh: "below m n \<Longrightarrow> find m n = None"
  unfolding below_def by (cases "find m n") force+

lemma below_mono: "below m n \<Longrightarrow> n \<le> n' \<Longrightarrow> below m n'"
  unfolding below_def by fastforce

lemma below_erase: "valid m \<Longrightarrow> below m n \<Longrightarrow> below (erase k m) n"
  by (auto simp: below_def find_erase)

lemma below_put: "valid m \<Longrightarrow> below m n \<Longrightarrow> k < n \<Longrightarrow> below (put k v m) n"
  by (auto simp: below_def find_put)

lemma below_next:
  assumes "valid m" and "below m n" and "getNextId n = (Inr i, n')"
  shows "find m i = None \<and> below (put i v m) n'"
proof -
  have i: "i = n" "n' = n + 1" "n \<noteq> - 1" using assms(3) by (auto simp: getNextId_def split: if_splits)
  have "1 + n \<noteq> 0" using i(3) by (metis add_eq_0_iff)
  then have n: "n < n + 1" using unatSuc [of n] by (simp add: word_less_nat_alt add.commute)
  have "below (put n v m) (n + 1)"
    by (rule below_put [OF assms(1) below_mono [OF assms(2)] n]) (use n in simp)
  then show ?thesis using i below_fresh [OF assms(2)] by simp
qed

end

interpretation std_map: ordered_map "map_ok :: (u32 \<times> 'v) list \<Rightarrow> bool" map_of mapPut mapErase
  by unfold_locales simp_all

end
