(* ===== verification/Store_Registry.thy ===== *)
theory Store_Registry
  imports Stor_Types Std_Map
begin

text \<open>
  Stores (\<open>libsimustor/Store.cpp\<close>) and the stores of the server (\<open>storageserver/ServerStore.cpp\<close>):
  the registry of stream buffers and streams with its limits, the enumeration filters, the summary of
  the statistics, the encoder table, and the sessions that are attached to a store. The buffers and
  the \<open>ServerStream\<close> objects are type variables; what is done with them is an argument.
\<close>

section \<open>The state\<close>

definition SfNone :: u32 where "SfNone = 0"
definition SfHidden :: u32 where "SfHidden = 1"
definition SfDynamic :: u32 where "SfDynamic = 2"
definition SefRegular :: u32 where "SefRegular = 1"
definition SefHidden :: u32 where "SefHidden = 2"
definition SefDynamic :: u32 where "SefDynamic = 4"
definition SefAll :: u32 where "SefAll = SefRegular OR SefHidden OR SefDynamic"
definition SERVER_BUFFER_ID :: u32 where "SERVER_BUFFER_ID = INVALID_BUFFER_ID - 1"

definition STORE_MAX_NUM_STREAMBUFFERS :: nat where "STORE_MAX_NUM_STREAMBUFFERS = 1"
definition STORE_MAX_NUM_STREAMS :: u32 where "STORE_MAX_NUM_STREAMS = 0xFFFF"
definition STORE_MAX_NUM_DYNAMIC_STREAMS :: u32 where "STORE_MAX_NUM_DYNAMIC_STREAMS = 0xFFFF"

text \<open>A stream: the fields of the base class and the object.\<close>

record 's stream_object =
  so_id :: u32
  so_desc :: StreamDescriptor
  so_bufferId :: u32
  so_stream :: 's

record ('b, 's) store =
  sr_id :: u32
  sr_name :: string
  sr_configurationLocked :: bool
  sr_numRegularStreams :: u32
  sr_numDynamicStreams :: u32
  sr_buffers :: "(u32 \<times> 'b) list"
  sr_streams :: "(u32 \<times> 's stream_object) list"

definition newStore :: "u32 \<Rightarrow> string \<Rightarrow> ('b, 's) store res" where
  "newStore i name =
     throwOn (i = INVALID_STORE_ID) ArgumentException
       (Inr \<lparr>sr_id = i, sr_name = name, sr_configurationLocked = False, sr_numRegularStreams = 0,
             sr_numDynamicStreams = 0, sr_buffers = [], sr_streams = []\<rparr>)"

section \<open>Operations of a store\<close>

definition addStreamBuffer :: "u32 \<Rightarrow> 'b \<Rightarrow> ('b, 's, 'z) store_scheme \<Rightarrow> ('b, 's, 'z) store_scheme" where
  "addStreamBuffer i buffer s = s\<lparr>sr_buffers := mapPut i buffer (sr_buffers s)\<rparr>"

definition addStream :: "'s stream_object \<Rightarrow> ('b, 's, 'z) store_scheme \<Rightarrow> ('b, 's, 'z) store_scheme" where
  "addStream stream s =
     (let s1 = s\<lparr>sr_streams := mapPut (so_id stream) stream (sr_streams s)\<rparr>
      in if isSet (sd_flags (so_desc stream)) SfDynamic
         then s1\<lparr>sr_numDynamicStreams := sr_numDynamicStreams s1 + 1\<rparr>
         else s1\<lparr>sr_numRegularStreams := sr_numRegularStreams s1 + 1\<rparr>)"

text \<open>\<open>createBuffer\<close> and \<open>createStream\<close> are the virtual methods of the derived class.\<close>

definition registerStreamBuffer ::
  "(('b, 's, 'z) store_scheme \<Rightarrow> (u32 \<times> 'b) res \<times> ('b, 's, 'z) store_scheme) \<Rightarrow> ('b, 's, 'z) store_scheme \<Rightarrow>
   u32 res \<times> ('b, 's, 'z) store_scheme" where
  "registerStreamBuffer createBuffer s =
     (if sr_configurationLocked s then (Inl InvalidOperationException, s)
      else if STORE_MAX_NUM_STREAMBUFFERS \<le> length (sr_buffers s) then (Inl GenericException, s)
      else (case createBuffer s of
              (Inl e, s1) \<Rightarrow> (Inl e, s1)
            | (Inr (i, buffer), s1) \<Rightarrow> (Inr i, addStreamBuffer i buffer s1)))"

definition registerStream ::
  "(u32 \<Rightarrow> StreamDescriptor \<Rightarrow> u32 \<Rightarrow> ('b, 's, 'z) store_scheme \<Rightarrow> 's stream_object res \<times> ('b, 's, 'z) store_scheme) \<Rightarrow>
   u32 \<Rightarrow> StreamDescriptor \<Rightarrow> u32 \<Rightarrow> ('b, 's, 'z) store_scheme \<Rightarrow> u32 res \<times> ('b, 's, 'z) store_scheme" where
  "registerStream createStream i desc buffer s =
     (if sr_configurationLocked s then (Inl InvalidOperationException, s)
      else if (if isSet (sd_flags desc) SfDynamic then STORE_MAX_NUM_DYNAMIC_STREAMS \<le> sr_numDynamicStreams s
               else STORE_MAX_NUM_STREAMS \<le> sr_numRegularStreams s)
      then (Inl GenericException, s)
      else (case createStream i desc buffer s of
              (Inl e, s1) \<Rightarrow> (Inl e, s1)
            | (Inr stream, s1) \<Rightarrow> (Inr (so_id stream), addStream stream s1)))"

text \<open>\<open>_supportsWriteAfterOpen\<close> is not overridden and false.\<close>

definition lockConfiguration :: "('b, 's, 'z) store_scheme \<Rightarrow> ('b, 's, 'z) store_scheme" where
  "lockConfiguration s = (if \<not> sr_configurationLocked s then s\<lparr>sr_configurationLocked := True\<rparr> else s)"

definition freeConfiguration :: "('b, 's, 'z) store_scheme \<Rightarrow> ('b, 's, 'z) store_scheme" where
  "freeConfiguration s =
     s\<lparr>sr_streams := [], sr_buffers := [], sr_numDynamicStreams := 0, sr_numRegularStreams := 0,
       sr_configurationLocked := False\<rparr>"

definition enumerateStreamBuffers :: "('b, 's, 'z) store_scheme \<Rightarrow> 'b list" where
  "enumerateStreamBuffers s = map snd (sr_buffers s)"

definition enumFilter :: "u32 \<Rightarrow> 's stream_object \<Rightarrow> bool" where
  "enumFilter filt x \<longleftrightarrow>
     (let mask = (if isSet filt SefHidden then SfHidden else 0) OR (if isSet filt SefDynamic then SfDynamic else 0);
          includeRegular = isSet filt SefRegular; flags = sd_flags (so_desc x)
      in flags AND mask \<noteq> 0 \<or> flags AND (SfDynamic OR SfHidden) = 0 \<and> includeRegular)"

definition enumerateStreams :: "u32 \<Rightarrow> ('b, 's, 'z) store_scheme \<Rightarrow> 's stream_object list" where
  "enumerateStreams filt s = filter (enumFilter filt) (map snd (sr_streams s))"

definition getStreamBuffer :: "u32 \<Rightarrow> ('b, 's, 'z) store_scheme \<Rightarrow> 'b res" where
  "getStreamBuffer i s = (case map_of (sr_buffers s) i of None \<Rightarrow> Inl NotFoundException | Some b \<Rightarrow> Inr b)"

definition getStream :: "u32 \<Rightarrow> ('b, 's, 'z) store_scheme \<Rightarrow> 's stream_object res" where
  "getStream i s = (case map_of (sr_streams s) i of None \<Rightarrow> Inl NotFoundException | Some x \<Rightarrow> Inr x)"

definition findStream :: "u32 \<Rightarrow> ('b, 's, 'z) store_scheme \<Rightarrow> 's stream_object option" where
  "findStream i s = map_of (sr_streams s) i"

text \<open>\<open>summarizeStreamStats\<close>; \<open>query\<close> is \<open>queryInformation\<close> of a stream.\<close>

definition sumRange :: "Range \<Rightarrow> Range \<Rightarrow> Range" where
  "sumRange r t =
     (let s1 = (if rg_start r < rg_start t then t\<lparr>rg_start := rg_start r\<rparr> else t)
      in if rg_end s1 = INVALID_LARGE_OBJECT_ID \<or> rg_end r \<noteq> INVALID_LARGE_OBJECT_ID \<and> rg_end s1 < rg_end r
         then s1\<lparr>rg_end := rg_end r\<rparr> else s1)"

definition sumStats :: "StreamTypeDescriptor \<Rightarrow> StreamStatistics \<Rightarrow> StreamStatistics \<times> u64 \<Rightarrow> StreamStatistics \<times> u64" where
  "sumStats ty x acc =
     (case acc of (l, uncompr) \<Rightarrow>
        (\<lparr>st_compressedSize = st_compressedSize l + st_compressedSize x, st_entryCount = st_entryCount l + st_entryCount x,
          st_rawEntryCount = st_rawEntryCount l + st_rawEntryCount x,
          st_ranges = \<lparr>ri_index = sumRange (ri_index (st_ranges x)) (ri_index (st_ranges l)),
                       ri_cycle = sumRange (ri_cycle (st_ranges x)) (ri_cycle (st_ranges l)),
                       ri_time = sumRange (ri_time (st_ranges x)) (ri_time (st_ranges l))\<rparr>\<rparr>,
         uncompr + st_rawEntryCount x * ucast (getEntrySize (ty_entrySize ty))))"

definition summarizeStreamStats ::
  "('s \<Rightarrow> StreamStatistics) \<Rightarrow> u32 \<Rightarrow> ('b, 's, 'z) store_scheme \<Rightarrow> u32 \<times> StreamStatistics \<times> u64" where
  "summarizeStreamStats query filt0 s =
     (let filt = (if isSet filt0 SefDynamic then filt0 XOR SefDynamic else filt0);
          streams = enumerateStreams filt s
      in (of_nat (length streams),
          fold (\<lambda>x. sumStats (sd_type (so_desc x)) (query (so_stream x))) streams (stats_init, 0)))"

section \<open>The stores of the server\<close>

text \<open>
  \<open>'f\<close> are the factory methods of the encoders. The type id of the default encoder is the nil GUID.
\<close>

record ('b, 's, 'f) server_store = "('b, 's) store" +
  vs_referenceCount :: u32
  vs_references :: "u32 list"
  vs_nextBufferId :: u32
  vs_nextStreamId :: u32
  vs_encoderMap :: "(Guid \<times> 'f) list"

definition defaultEncoderTypeId :: Guid where
  "defaultEncoderTypeId = (0, 0, 0, replicate 8 0)"

definition findEncoder :: "Guid \<Rightarrow> ('b, 's, 'f, 'z) server_store_scheme \<Rightarrow> 'f option" where
  "findEncoder type s = map_of (vs_encoderMap s) type"

definition registerEncoder :: "Guid \<Rightarrow> 'f \<Rightarrow> ('b, 's, 'f, 'z) server_store_scheme \<Rightarrow> ('b, 's, 'f, 'z) server_store_scheme" where
  "registerEncoder type f s = s\<lparr>vs_encoderMap := (type, f) # vs_encoderMap s\<rparr>"

definition getEncoderFactory :: "Guid \<Rightarrow> ('b, 's, 'f, 'z) server_store_scheme \<Rightarrow> 'f res" where
  "getEncoderFactory type s =
     (case findEncoder type s of
        Some f \<Rightarrow> Inr f
      | None \<Rightarrow> (case findEncoder defaultEncoderTypeId s of Some f \<Rightarrow> Inr f | None \<Rightarrow> Inl NotFoundException))"

definition findReference :: "u32 \<Rightarrow> ('b, 's, 'f, 'z) server_store_scheme \<Rightarrow> bool" where
  "findReference session s \<longleftrightarrow> session \<in> set (vs_references s)"

text \<open>
  What a server store gets from outside: making a \<open>ServerStreamBuffer\<close> (its id, the segment size and
  the number of segments), the segment size of a buffer, the segment size of the memory pool of the
  server, and making the rest of a \<open>ServerStream\<close> with an encoder.
\<close>

record ('b, 's, 'f) store_env =
  se_newBuffer :: "u32 \<Rightarrow> nat \<Rightarrow> u32 \<Rightarrow> 'b res"
  se_segmentSize :: "'b \<Rightarrow> nat"
  se_poolSegmentSize :: nat
  se_newStream :: "u32 \<Rightarrow> u32 \<Rightarrow> StreamDescriptor \<Rightarrow> 'f \<Rightarrow> 's res"

definition createStreamBuffer ::
  "('b, 's, 'f) store_env \<Rightarrow> nat \<Rightarrow> u32 \<Rightarrow> ('b, 's, 'f, 'z) server_store_scheme \<Rightarrow>
   (u32 \<times> 'b) res \<times> ('b, 's, 'f, 'z) server_store_scheme" where
  "createStreamBuffer env segSize numSegments s =
     (case getNextId (vs_nextBufferId s) of
        (Inl e, n) \<Rightarrow> (Inl e, s\<lparr>vs_nextBufferId := n\<rparr>)
      | (Inr i, n) \<Rightarrow>
          (case se_newBuffer env i segSize numSegments of
             Inl e \<Rightarrow> (Inl e, s\<lparr>vs_nextBufferId := retireId i n\<rparr>)
           | Inr b \<Rightarrow> (Inr (i, b), s\<lparr>vs_nextBufferId := n\<rparr>)))"

text \<open>The constructors of \<open>Stream\<close> and \<open>ServerStream\<close>.\<close>

definition makeServerStream ::
  "('b, 's, 'f) store_env \<Rightarrow> u32 \<Rightarrow> StreamDescriptor \<Rightarrow> u32 \<Rightarrow> nat \<Rightarrow> ('b, 's, 'f, 'z) server_store_scheme \<Rightarrow>
   's stream_object res" where
  "makeServerStream env rid desc buffer segSize s =
     (case newStream rid desc segSize of
        Inl e \<Rightarrow> Inl e
      | Inr d \<Rightarrow>
          (case getEncoderFactory (ty_id (sd_type d)) s of
             Inl e \<Rightarrow> Inl e
           | Inr f \<Rightarrow>
               (case se_newStream env rid buffer d f of
                  Inl e \<Rightarrow> Inl e
                | Inr x \<Rightarrow> Inr \<lparr>so_id = rid, so_desc = d, so_bufferId = buffer, so_stream = x\<rparr>)))"

definition createStream ::
  "('b, 's, 'f) store_env \<Rightarrow> u32 \<Rightarrow> StreamDescriptor \<Rightarrow> u32 \<Rightarrow> ('b, 's, 'f, 'z) server_store_scheme \<Rightarrow>
   's stream_object res \<times> ('b, 's, 'f, 'z) server_store_scheme" where
  "createStream env i desc buffer s =
     (case (if buffer = SERVER_BUFFER_ID then Some (se_poolSegmentSize env)
            else map_option (se_segmentSize env) (map_of (sr_buffers s) buffer)) of
        None \<Rightarrow> (Inl NotFoundException, s)
      | Some segSize \<Rightarrow>
          (case (if i = INVALID_STREAM_ID then getNextId (vs_nextStreamId s)
                 else (Inr i, stealId i (vs_nextStreamId s))) of
             (Inl e, n) \<Rightarrow> (Inl e, s\<lparr>vs_nextStreamId := n\<rparr>)
           | (Inr rid, n) \<Rightarrow>
               (case makeServerStream env rid desc buffer segSize (s\<lparr>vs_nextStreamId := n\<rparr>) of
                  Inl e \<Rightarrow> (Inl e, s\<lparr>vs_nextStreamId := retireId rid n\<rparr>)
                | Inr x \<Rightarrow> (Inr x, s\<lparr>vs_nextStreamId := n\<rparr>))))"

text \<open>The constructor, which registers the first buffer.\<close>

definition SIMUTRACE_MEMMGMT_SEGMENT_SIZE :: nat where "SIMUTRACE_MEMMGMT_SEGMENT_SIZE = 64"

definition newServerStore :: "('b, 's, 'f) store_env \<Rightarrow> u32 \<Rightarrow> u32 \<Rightarrow> string \<Rightarrow> ('b, 's, 'f) server_store res" where
  "newServerStore env poolSize i name =
     (case newStore i name of
        Inl e \<Rightarrow> Inl e
      | Inr s0 \<Rightarrow>
          (case registerStreamBuffer
                  (createStreamBuffer env (SIMUTRACE_MEMMGMT_SEGMENT_SIZE * 2 ^ 20)
                     (poolSize div of_nat SIMUTRACE_MEMMGMT_SEGMENT_SIZE))
                  (store.extend s0
                     \<lparr>vs_referenceCount = 1, vs_references = [], vs_nextBufferId = 0, vs_nextStreamId = 0,
                      vs_encoderMap = []\<rparr>) of
             (Inl e, _) \<Rightarrow> Inl e
           | (Inr _, s) \<Rightarrow> Inr s))"

section \<open>Sessions of a store\<close>

definition attach :: "u32 \<Rightarrow> ('b, 's, 'f, 'z) server_store_scheme \<Rightarrow> unit res \<times> ('b, 's, 'f, 'z) server_store_scheme" where
  "attach session s =
     (if findReference session s then (Inl InvalidOperationException, s)
      else if vs_referenceCount s = 0 then (Inl OperationInProgressException, s)
      else (Inr (), s\<lparr>vs_references := vs_references s @ [session], vs_referenceCount := vs_referenceCount s + 1\<rparr>))"

text \<open>
  \<open>detach\<close>, with the asserts of the debug build left out. \<open>closeSession\<close> is the closing of a stream
  for the session and \<open>closeEncoder\<close> the closing of its encoder, up to the end of the operations they
  trigger, for which \<open>detach\<close> waits.
\<close>

definition mapStreams :: "u32 \<Rightarrow> ('s \<Rightarrow> 's) \<Rightarrow> ('b, 's, 'z) store_scheme \<Rightarrow> ('b, 's, 'z) store_scheme" where
  "mapStreams filt f s =
     s\<lparr>sr_streams := map (\<lambda>(k, x). (k, if enumFilter filt x then x\<lparr>so_stream := f (so_stream x)\<rparr> else x)) (sr_streams s)\<rparr>"

definition detachSession ::
  "(u32 \<Rightarrow> 's \<Rightarrow> 's) \<Rightarrow> u32 \<Rightarrow> ('b, 's, 'f, 'z) server_store_scheme \<Rightarrow> ('b, 's, 'f, 'z) server_store_scheme" where
  "detachSession closeSession session s =
     (if 1 < vs_referenceCount s
      then (mapStreams SefRegular (closeSession session) s)
             \<lparr>vs_references := filter (\<lambda>r. r \<noteq> session) (vs_references s),
              vs_referenceCount := vs_referenceCount s - 1\<rparr>
      else s)"

definition storeRundown ::
  "('s \<Rightarrow> 's) \<Rightarrow> u32 \<Rightarrow> ('b, 's, 'f, 'z) server_store_scheme \<Rightarrow> ('b, 's, 'f, 'z) server_store_scheme" where
  "storeRundown closeEncoder session s =
     (if vs_referenceCount s = 1
      then (if session = SERVER_SESSION_ID then s\<lparr>vs_referenceCount := 0\<rparr>
            else mapStreams SefAll closeEncoder (lockConfiguration s))
      else s)"

definition detach ::
  "(u32 \<Rightarrow> 's \<Rightarrow> 's) \<Rightarrow> ('s \<Rightarrow> 's) \<Rightarrow> u32 \<Rightarrow> ('b, 's, 'f, 'z) server_store_scheme \<Rightarrow>
   u32 res \<times> ('b, 's, 'f, 'z) server_store_scheme" where
  "detach closeSession closeEncoder session s =
     (if vs_referenceCount s = 0 then (Inl InvalidOperationException, s)
      else if 1 < vs_referenceCount s \<and> \<not> findReference session s then (Inl InvalidOperationException, s)
      else
        (let s1 = storeRundown closeEncoder session (detachSession closeSession session s)
         in (Inr (vs_referenceCount s1), s1)))"

section \<open>The invariant of a store\<close>

text \<open>
  Keys, numbers and limits of the registry. Numbers are given out by the allocators; the numbers of a
  store that is loaded come from the file and are not covered.
\<close>

definition countStreams :: "bool \<Rightarrow> ('b, 's, 'z) store_scheme \<Rightarrow> nat" where
  "countStreams dynamic s = length (filter (\<lambda>(k, x). isSet (sd_flags (so_desc x)) SfDynamic = dynamic) (sr_streams s))"

definition registry_ok :: "('b, 's, 'f, 'z) server_store_scheme \<Rightarrow> bool" where
  "registry_ok s \<longleftrightarrow>
     map_ok (sr_streams s) \<and> map_ok (sr_buffers s) \<and> (\<forall>(k, x)\<in>set (sr_streams s). so_id x = k) \<and>
     std_map.below (sr_streams s) (vs_nextStreamId s) \<and> std_map.below (sr_buffers s) (vs_nextBufferId s) \<and>
     sr_numRegularStreams s = of_nat (countStreams False s) \<and> countStreams False s \<le> 0xFFFF \<and>
     sr_numDynamicStreams s = of_nat (countStreams True s) \<and> countStreams True s \<le> 0xFFFF \<and>
     length (sr_buffers s) \<le> STORE_MAX_NUM_STREAMBUFFERS"

definition references_ok :: "('b, 's, 'f, 'z) server_store_scheme \<Rightarrow> bool" where
  "references_ok s \<longleftrightarrow>
     distinct (vs_references s) \<and>
     (vs_referenceCount s = 0 \<and> vs_references s = [] \<or> unat (vs_referenceCount s) = Suc (length (vs_references s)))"

lemma makeServerStream_id: "makeServerStream env rid desc buffer segSize s = Inr x \<Longrightarrow> so_id x = rid \<and> so_desc x = desc"
  by (auto simp: makeServerStream_def newStream_def throwOn_def Let_def split: sum.splits if_splits)

lemma getNextId_mono: "std_map.below m n \<Longrightarrow> getNextId n = (r, n') \<Longrightarrow> std_map.below m n'"
proof -
  assume b: "std_map.below m n" and g: "getNextId n = (r, n')"
  show ?thesis
  proof (cases "n = - 1")
    case True
    then show ?thesis using b g by (simp add: getNextId_def)
  next
    case False
    then have "1 + n \<noteq> 0" by (metis add_eq_0_iff)
    then have "n \<le> n + 1" using unatSuc [of n] by (simp add: word_le_nat_alt add.commute)
    then show ?thesis using b g False by (auto simp: getNextId_def intro: std_map.below_mono)
  qed
qed

lemma createStream_frame:
  assumes c: "createStream env INVALID_STREAM_ID desc buffer s = (r, s')" and ok: "registry_ok s"
  shows "\<exists>n. s' = s\<lparr>vs_nextStreamId := n\<rparr> \<and> std_map.below (sr_streams s) n \<and>
    (\<forall>x. r = Inr x \<longrightarrow> so_desc x = desc \<and> map_of (sr_streams s) (so_id x) = None \<and> std_map.below (mapPut (so_id x) x (sr_streams s)) n)"
proof -
  let ?find = "if buffer = SERVER_BUFFER_ID then Some (se_poolSegmentSize env) else map_option (se_segmentSize env) (map_of (sr_buffers s) buffer)"
  have B: "map_ok (sr_streams s)" "std_map.below (sr_streams s) (vs_nextStreamId s)" using ok by (simp_all add: registry_ok_def)
  show ?thesis
  proof (cases ?find)
    case None
    then have "s' = s\<lparr>vs_nextStreamId := vs_nextStreamId s\<rparr> \<and> r = Inl NotFoundException"
      using c by (auto simp: createStream_def split: option.splits if_splits)
    then show ?thesis using B by blast
  next
    case (Some segSize)
    obtain i n where n: "getNextId (vs_nextStreamId s) = (i, n)" by (cases "getNextId (vs_nextStreamId s)")
    have m: "std_map.below (sr_streams s) n" by (rule getNextId_mono [OF B(2) n])
    have c': "(case (i, n) of
             (Inl e, n) \<Rightarrow> (Inl e, s\<lparr>vs_nextStreamId := n\<rparr>)
           | (Inr rid, n) \<Rightarrow>
               (case makeServerStream env rid desc buffer segSize (s\<lparr>vs_nextStreamId := n\<rparr>) of
                  Inl e \<Rightarrow> (Inl e, s\<lparr>vs_nextStreamId := retireId rid n\<rparr>)
                | Inr x \<Rightarrow> (Inr x, s\<lparr>vs_nextStreamId := n\<rparr>))) = (r, s')"
      using c Some n unfolding createStream_def by simp
    have s': "s' = s\<lparr>vs_nextStreamId := n\<rparr>" using c' by (auto simp: retireId_def split: sum.splits)
    moreover have "so_desc x = desc \<and> map_of (sr_streams s) (so_id x) = None \<and> std_map.below (mapPut (so_id x) x (sr_streams s)) n"
      if r: "r = Inr x" for x
    proof -
      obtain rid where rid: "i = Inr rid" "makeServerStream env rid desc buffer segSize (s\<lparr>vs_nextStreamId := n\<rparr>) = Inr x"
        using c' r by (cases i) (auto split: sum.splits)
      show ?thesis
        using std_map.below_next [OF B n [unfolded rid(1)]] makeServerStream_id [OF rid(2)] by simp
    qed
    ultimately show ?thesis using m by blast
  qed
qed

lemma registerStream_ok:
  assumes c: "registerStream (createStream env) INVALID_STREAM_ID desc buffer s = (r, s')" and ok: "registry_ok s"
  shows "registry_ok s' \<and> vs_references s' = vs_references s \<and> vs_referenceCount s' = vs_referenceCount s"
proof (cases "sr_configurationLocked s \<or>
    (if isSet (sd_flags desc) SfDynamic then STORE_MAX_NUM_DYNAMIC_STREAMS \<le> sr_numDynamicStreams s
     else STORE_MAX_NUM_STREAMS \<le> sr_numRegularStreams s)")
  case True
  then have "s' = s" using c by (auto simp: registerStream_def split: if_splits)
  then show ?thesis using ok by simp
next
  case False
  obtain r1 s1 where cr: "createStream env INVALID_STREAM_ID desc buffer s = (r1, s1)"
    by (cases "createStream env INVALID_STREAM_ID desc buffer s")
  note F = createStream_frame [OF cr ok]
  have c': "(case r1 of Inl e \<Rightarrow> (Inl e, s1) | Inr stream \<Rightarrow> (Inr (so_id stream), addStream stream s1)) = (r, s')"
    using c False cr by (auto simp: registerStream_def split: if_splits)
  show ?thesis
  proof (cases r1)
    case (Inl e)
    then show ?thesis using c' F ok by (auto simp: registry_ok_def countStreams_def)
  next
    case (Inr x)
    then obtain n where n: "s1 = s\<lparr>vs_nextStreamId := n\<rparr>" "so_desc x = desc" "map_of (sr_streams s) (so_id x) = None"
      "std_map.below (mapPut (so_id x) x (sr_streams s)) n" using F by blast
    have s': "s' = addStream x s1" using c' Inr by simp
    have map: "map_ok (sr_streams s)" using ok by (simp add: registry_ok_def)
    have count: "length (filter P (mapPut (so_id x) x (sr_streams s))) = length (filter P (sr_streams s)) + (if P (so_id x, x) then 1 else 0)" for P
      by (rule filter_put [OF map n(3)])
    have ids: "\<forall>(k, y)\<in>set (mapPut (so_id x) x (sr_streams s)). so_id y = k"
    proof clarify
      fix k y
      assume "(k, y) \<in> set (mapPut (so_id x) x (sr_streams s))"
      then have "map_of (mapPut (so_id x) x (sr_streams s)) k = Some y" using map_of_mem [OF map_ok_put [OF map]] by blast
      then show "so_id y = k" using ok map by (auto simp: registry_ok_def map_of_mem split: if_splits)
    qed
    have lt: "countStreams True s < 0xFFFF" if "isSet (sd_flags desc) SfDynamic"
      using False that ok
      by (auto simp: registry_ok_def STORE_MAX_NUM_DYNAMIC_STREAMS_def word_le_nat_alt not_le unat_of_nat_small)
    have lf: "countStreams False s < 0xFFFF" if "\<not> isSet (sd_flags desc) SfDynamic"
      using False that ok
      by (auto simp: registry_ok_def STORE_MAX_NUM_STREAMS_def word_le_nat_alt not_le unat_of_nat_small)
    show ?thesis
      using ok n map count ids lt lf unfolding s'
      by (auto simp: registry_ok_def addStream_def Let_def countStreams_def)
  qed
qed

lemma registerStreamBuffer_ok:
  assumes c: "registerStreamBuffer (createStreamBuffer env segSize numSegments) s = (r, s')" and ok: "registry_ok s"
  shows "registry_ok s' \<and> vs_references s' = vs_references s \<and> vs_referenceCount s' = vs_referenceCount s"
proof (cases "sr_configurationLocked s \<or> STORE_MAX_NUM_STREAMBUFFERS \<le> length (sr_buffers s)")
  case True
  then have "s' = s" using c by (auto simp: registerStreamBuffer_def split: if_splits)
  then show ?thesis using ok by simp
next
  case False
  obtain i n where n: "getNextId (vs_nextBufferId s) = (i, n)" by (cases "getNextId (vs_nextBufferId s)")
  have B: "map_ok (sr_buffers s)" "std_map.below (sr_buffers s) (vs_nextBufferId s)" using ok by (simp_all add: registry_ok_def)
  have m: "std_map.below (sr_buffers s) n" by (rule getNextId_mono [OF B(2) n])
  let ?s = "s\<lparr>vs_nextBufferId := n\<rparr>"
  have ok1: "registry_ok ?s" using ok m by (auto simp: registry_ok_def countStreams_def)
  show ?thesis
  proof (cases "s' = ?s")
    case True
    then show ?thesis using ok1 by simp
  next
    case not: False
    then obtain j b where j: "i = Inr j" "s' = addStreamBuffer j b ?s"
      using c False n by (auto simp: registerStreamBuffer_def createStreamBuffer_def retireId_def split: sum.splits if_splits)
    have "map_of (sr_buffers s) j = None \<and> std_map.below (mapPut j b (sr_buffers s)) n"
      by (rule std_map.below_next [OF B n [unfolded j(1)]])
    moreover have "sr_buffers s = []" using False by (cases "sr_buffers s") (auto simp: STORE_MAX_NUM_STREAMBUFFERS_def)
    ultimately show ?thesis using ok1 B unfolding j(2)
      by (auto simp: registry_ok_def addStreamBuffer_def countStreams_def STORE_MAX_NUM_STREAMBUFFERS_def map_ok_def keys_def)
  qed
qed

lemma mapStreams_simps [simp]:
  "vs_references (mapStreams filt f s) = vs_references s" "vs_referenceCount (mapStreams filt f s) = vs_referenceCount s"
  by (simp_all add: mapStreams_def)

lemma registry_mapStreams: "registry_ok s \<Longrightarrow> registry_ok (mapStreams filt f s)"
proof -
  assume ok: "registry_ok s"
  let ?g = "\<lambda>x. if enumFilter filt x then x\<lparr>so_stream := f (so_stream x)\<rparr> else x"
  let ?m = "map (\<lambda>(k, x). (k, ?g x)) (sr_streams s)"
  have k: "keys ?m = keys (sr_streams s)" by (simp add: keys_def comp_def split_beta)
  have g: "so_desc (?g x) = so_desc x" for x by simp
  have f: "length (filter (\<lambda>(k, x). isSet (sd_flags (so_desc x)) SfDynamic = d) (map (\<lambda>(k, x). (k, ?g x)) m)) =
      length (filter (\<lambda>(k, x). isSet (sd_flags (so_desc x)) SfDynamic = d) m)" for d m
    by (induction m) (auto simp: g)
  have mo: "map_of (map (\<lambda>(k, x). (k, ?g x)) m) j = map_option ?g (map_of m j)" for j m by (induction m) auto
  have "dom (map_of ?m) = dom (map_of (sr_streams s))" by (simp only: dom_def mo map_option_is_None)
  then have b: "std_map.below ?m n = std_map.below (sr_streams s) n" for n by (simp only: std_map.below_dom)
  have i: "\<forall>(k, x)\<in>set ?m. so_id x = k" using ok by (auto simp: registry_ok_def)
  let ?t = "mapStreams filt f s"
  have cnt: "countStreams d ?t = countStreams d s" for d
    using f [of d "sr_streams s"] by (simp add: countStreams_def mapStreams_def)
  have t: "sr_streams ?t = ?m" "sr_buffers ?t = sr_buffers s" "vs_nextStreamId ?t = vs_nextStreamId s" "vs_nextBufferId ?t = vs_nextBufferId s"
    "sr_numRegularStreams ?t = sr_numRegularStreams s" "sr_numDynamicStreams ?t = sr_numDynamicStreams s"
    by (simp_all add: mapStreams_def)
  show ?thesis using ok i unfolding registry_ok_def cnt t map_ok_def k b by blast
qed

lemma lockConfiguration_simps [simp]:
  "vs_references (lockConfiguration s) = vs_references s" "vs_referenceCount (lockConfiguration s) = vs_referenceCount s"
  "sr_streams (lockConfiguration s) = sr_streams s"
  by (simp_all add: lockConfiguration_def)

lemma registry_lock: "registry_ok s \<Longrightarrow> registry_ok (lockConfiguration s)"
  by (simp add: registry_ok_def lockConfiguration_def countStreams_def)

lemma registry_references: "registry_ok (s\<lparr>vs_references := l\<rparr>) = registry_ok s"
  "registry_ok (s\<lparr>vs_referenceCount := c\<rparr>) = registry_ok s"
  by (simp_all add: registry_ok_def countStreams_def)

lemma attach_ok:
  assumes c: "attach session s = (r, s')" and ok: "references_ok s" and few: "length (vs_references s) < 2 ^ 32 - 2"
  shows "registry_ok s' = registry_ok s \<and> references_ok s' \<and> vs_referenceCount s' \<noteq> 0 = (vs_referenceCount s \<noteq> 0) \<and>
    (case r of Inl e \<Rightarrow> s' = s | Inr _ \<Rightarrow> vs_references s' = vs_references s @ [session] \<and> session \<notin> set (vs_references s) \<and> sr_id s' = sr_id s)"
proof (cases "findReference session s \<or> vs_referenceCount s = 0")
  case True
  then show ?thesis using c ok by (auto simp: attach_def split: if_splits)
next
  case False
  then have s': "s' = s\<lparr>vs_references := vs_references s @ [session], vs_referenceCount := vs_referenceCount s + 1\<rparr>" "r = Inr ()"
    using c by (auto simp: attach_def)
  have n: "unat (vs_referenceCount s) = Suc (length (vs_references s))" using ok False by (auto simp: references_ok_def)
  then have u: "unat (vs_referenceCount s + 1) = Suc (unat (vs_referenceCount s))" using few by (simp add: unat_word_ariths)
  then have "vs_referenceCount s + 1 \<noteq> 0" by auto
  then show ?thesis using s' ok n u False
    by (auto simp: references_ok_def findReference_def registry_ok_def countStreams_def)
qed

text \<open>What \<open>detach\<close> does to the references: the session is removed; the last reference is that of the server.\<close>

lemma detach_ok:
  assumes c: "detach closeSession closeEncoder session s = (r, s')" and ok: "references_ok s"
  shows "(registry_ok s \<longrightarrow> registry_ok s') \<and> references_ok s' \<and> (session \<noteq> SERVER_SESSION_ID \<longrightarrow> vs_referenceCount s \<noteq> 0 \<longrightarrow> vs_referenceCount s' \<noteq> 0) \<and>
    (case r of
       Inl e \<Rightarrow> s' = s
     | Inr n \<Rightarrow> n = vs_referenceCount s' \<and> vs_references s' = filter (\<lambda>x. x \<noteq> session) (vs_references s) \<and>
         (vs_references s = [] \<or> session \<in> set (vs_references s)))"
proof (cases "vs_referenceCount s = 0 \<or> 1 < vs_referenceCount s \<and> \<not> findReference session s")
  case True
  then have "s' = s \<and> (\<exists>e. r = Inl e)" using c unfolding detach_def by (auto split: if_splits)
  then show ?thesis using ok by auto
next
  case False
  let ?s1 = "detachSession closeSession session s" and ?s2 = "storeRundown closeEncoder session (detachSession closeSession session s)"
  have s': "r = Inr (vs_referenceCount ?s2)" "s' = ?s2"
    using c False unfolding detach_def Let_def by (auto split: if_splits)
  have nz: "vs_referenceCount s \<noteq> 0" using False by simp
  have n: "unat (vs_referenceCount s) = Suc (length (vs_references s))" using ok nz by (auto simp: references_ok_def)
  have refs1: "references_ok ?s1 \<and> vs_referenceCount ?s1 \<noteq> 0 \<and> vs_references ?s1 = filter (\<lambda>x. x \<noteq> session) (vs_references s) \<and>
      (vs_references s = [] \<or> session \<in> set (vs_references s))"
  proof (cases "1 < vs_referenceCount s")
    case True
    then have mem: "session \<in> set (vs_references s)" using False by (auto simp: findReference_def)
    have dist: "distinct (vs_references s)" using ok by (simp add: references_ok_def)
    have "filter (\<lambda>x. x \<noteq> session) (vs_references s) = remove1 session (vs_references s)"
      unfolding distinct_remove1_removeAll [OF dist] removeAll_filter_not_eq by (rule filter_cong) auto
    then have len: "length (filter (\<lambda>x. x \<noteq> session) (vs_references s)) = length (vs_references s) - 1"
      using mem by (simp add: length_remove1)
    have one: "unat (vs_referenceCount s - 1) = unat (vs_referenceCount s) - 1" using nz by (simp add: unat_minus_one)
    have pos: "0 < length (vs_references s)" using mem by (cases "vs_references s") auto
    have "vs_referenceCount s - 1 \<noteq> 0" using True by auto
    then show ?thesis using True n len one pos mem dist by (simp add: references_ok_def detachSession_def)
  next
    case F: False
    then have "unat (vs_referenceCount s) \<le> 1" by (simp add: word_less_nat_alt)
    then have "vs_references s = []" using n by simp
    then show ?thesis using F ok nz by (simp add: detachSession_def)
  qed
  have reg1: "registry_ok s \<Longrightarrow> registry_ok ?s1" by (simp add: registry_references registry_mapStreams detachSession_def)
  have "registry_ok s \<longrightarrow> registry_ok ?s2" using reg1 by (auto simp: registry_references registry_mapStreams registry_lock storeRundown_def)
  moreover have "references_ok ?s2 \<and> vs_references ?s2 = vs_references ?s1 \<and> (session \<noteq> SERVER_SESSION_ID \<longrightarrow> vs_referenceCount ?s2 \<noteq> 0)"
  proof (cases "vs_referenceCount ?s1 = 1")
    case True
    then have "vs_references ?s1 = []" using refs1 by (auto simp: references_ok_def)
    then show ?thesis using refs1 True by (auto simp: references_ok_def storeRundown_def)
  next
    case False
    then show ?thesis using refs1 by (simp add: storeRundown_def)
  qed
  ultimately show ?thesis using refs1 s' by simp
qed

section \<open>Reachable stores\<close>

text \<open>
  A store of the server from its construction on: registering streams and buffers, sessions that
  attach and detach. A session id is below the id of the server session.
\<close>

inductive store_reachable :: "('b, 's, 'f) store_env \<Rightarrow> ('b, 's, 'f) server_store \<Rightarrow> bool" for env where
  created: "newServerStore env poolSize i name = Inr s \<Longrightarrow> store_reachable env s"
| encoder: "store_reachable env s \<Longrightarrow> store_reachable env (registerEncoder type f s)"
| stream: "store_reachable env s \<Longrightarrow> registerStream (createStream env) INVALID_STREAM_ID desc buffer s = (r, s') \<Longrightarrow>
    store_reachable env s'"
| buffer: "store_reachable env s \<Longrightarrow> registerStreamBuffer (createStreamBuffer env segSize n) s = (r, s') \<Longrightarrow>
    store_reachable env s'"
| attached: "store_reachable env s \<Longrightarrow> length (vs_references s) < 2 ^ 32 - 2 \<Longrightarrow> attach session s = (r, s') \<Longrightarrow>
    store_reachable env s'"
| detached: "store_reachable env s \<Longrightarrow> detach closeSession closeEncoder session s = (r, s') \<Longrightarrow> store_reachable env s'"

lemma newServerStore_ok:
  fixes env :: "('b, 's, 'f) store_env"
  assumes new: "newServerStore env poolSize i name = Inr s"
  shows "registry_ok s \<and> references_ok s \<and> vs_references s = [] \<and> vs_referenceCount s = 1 \<and> sr_id s = i"
proof -
  obtain s0 :: "('b, 's) store" where s0: "newStore i name = Inr s0" using new by (auto simp: newServerStore_def split: sum.splits)
  let ?e = "store.extend s0 \<lparr>vs_referenceCount = 1, vs_references = [], vs_nextBufferId = 0, vs_nextStreamId = 0, vs_encoderMap = []\<rparr> :: ('b, 's, 'f) server_store"
  have ok: "registry_ok ?e" "references_ok ?e" "vs_references ?e = []" "vs_referenceCount ?e = 1"
    using s0
    by (auto simp: newStore_def registry_ok_def references_ok_def store.defs countStreams_def std_map.below_def
      STORE_MAX_NUM_STREAMBUFFERS_def)
  have id: "sr_id ?e = i" using s0 by (auto simp: newStore_def store.defs)
  obtain r s1 where r: "registerStreamBuffer (createStreamBuffer env (SIMUTRACE_MEMMGMT_SEGMENT_SIZE * 2 ^ 20)
                     (poolSize div of_nat SIMUTRACE_MEMMGMT_SEGMENT_SIZE)) ?e = (r, s1)" by fastforce
  have "s1 = s" using new s0 r by (auto simp: newServerStore_def split: sum.splits)
  moreover have "sr_id s1 = sr_id ?e" using r
    by (auto simp: registerStreamBuffer_def createStreamBuffer_def addStreamBuffer_def split: if_splits sum.splits prod.splits)
  ultimately show ?thesis using registerStreamBuffer_ok [OF r ok(1)] ok id by (simp add: references_ok_def)
qed

lemma store_reachable_ok: "store_reachable env s \<Longrightarrow> registry_ok s \<and> references_ok s"
proof (induction rule: store_reachable.induct)
  case (created poolSize i name s)
  then show ?case using newServerStore_ok by blast
next
  case (encoder s type f)
  then show ?case by (simp add: registerEncoder_def registry_ok_def references_ok_def countStreams_def)
next
  case (stream s desc buffer r s')
  then show ?case using registerStream_ok [OF stream(2)] by (simp add: references_ok_def)
next
  case (buffer s segSize n r s')
  then show ?case using registerStreamBuffer_ok [OF buffer(2)] by (simp add: references_ok_def)
next
  case (attached s session r s')
  then show ?case using attach_ok [OF attached(3)] by blast
next
  case (detached s closeSession closeEncoder session r s')
  then show ?case using detach_ok [OF detached(2)] by blast
qed

section \<open>Properties\<close>

text \<open>
  C31: in every store of the server the streams and buffers are filed under their own ids, the ids are
  below the next one to be given out, the counters are the numbers of regular and dynamic streams and
  within their limits, and the reference count is one more than the number of attached sessions, which
  are all different, until the server gives up the last reference.
\<close>

theorem store_registry_consistent:
  assumes "store_reachable env s"
  shows "registry_ok s \<and> references_ok s"
  using store_reachable_ok [OF assms] .

definition trivial_env :: "(unit, unit, unit) store_env" where
  "trivial_env = \<lparr>se_newBuffer = (\<lambda>_ _ _. Inr ()), se_segmentSize = (\<lambda>_. 2 ^ 26), se_poolSegmentSize = 2 ^ 26,
     se_newStream = (\<lambda>_ _ _ _. Inr ())\<rparr>"

definition trivial_store :: "(unit, unit, unit) server_store" where
  "trivial_store = \<lparr>sr_id = 0, sr_name = ''a'', sr_configurationLocked = False, sr_numRegularStreams = 0, sr_numDynamicStreams = 0,
     sr_buffers = [(0, ())], sr_streams = [], vs_referenceCount = 1, vs_references = [], vs_nextBufferId = 1, vs_nextStreamId = 0,
     vs_encoderMap = []\<rparr>"

lemma trivial_store_reachable: "store_reachable trivial_env trivial_store"
  by (rule store_reachable.created [where poolSize = 4096 and i = 0 and name = "''a''"])
    (simp add: trivial_store_def trivial_env_def newServerStore_def newStore_def INVALID_OBJECT_ID_def registerStreamBuffer_def
      createStreamBuffer_def getNextId_def STORE_MAX_NUM_STREAMBUFFERS_def addStreamBuffer_def store.defs)

lemma store_registry_consistent_witness:
  "registry_ok (registerEncoder defaultEncoderTypeId () trivial_store) \<and>
   references_ok (registerEncoder defaultEncoderTypeId () trivial_store)"
  by (rule store_registry_consistent [OF store_reachable.encoder [OF trivial_store_reachable]])

section \<open>The summary of the statistics\<close>

text \<open>The smallest range around the valid bounds of ranges.\<close>

definition rangeHull :: "Range list \<Rightarrow> Range" where
  "rangeHull rs =
     (let valid = filter (\<lambda>e. e \<noteq> INVALID_LARGE_OBJECT_ID) (map rg_end rs)
      in \<lparr>rg_start = fold min (map rg_start rs) INVALID_LARGE_OBJECT_ID,
          rg_end = (if valid = [] then INVALID_LARGE_OBJECT_ID else Max (set valid))\<rparr>)"

lemma Max_snoc: "l \<noteq> [] \<Longrightarrow> Max (set (l @ [x])) = max x (Max (set l))"
  by (simp add: Un_commute)

lemma Max_valid: "filter P l \<noteq> [] \<Longrightarrow> P (Max (set (filter P l)))"
proof -
  assume ne: "filter P l \<noteq> []"
  have "Max (set (filter P l)) \<in> set (filter P l)"
    by (rule Max_in [OF finite_set]) (use ne in \<open>simp only: set_empty not_False_eq_True\<close>)
  then have "Max (set (filter P l)) \<in> {x \<in> set l. P x}" unfolding set_filter .
  then show ?thesis by blast
qed

lemma rangeHull_snoc: "rangeHull (rs @ [r]) = sumRange r (rangeHull rs)"
proof -
  define v where "v = filter (\<lambda>e. e \<noteq> INVALID_LARGE_OBJECT_ID) (map rg_end rs)"
  have ne: "Max (set v) \<noteq> INVALID_LARGE_OBJECT_ID" if "v \<noteq> []"
    unfolding v_def by (rule Max_valid) (use that in \<open>simp only: v_def not_False_eq_True\<close>)
  have h: "rangeHull rs = \<lparr>rg_start = fold min (map rg_start rs) INVALID_LARGE_OBJECT_ID,
      rg_end = (if v = [] then INVALID_LARGE_OBJECT_ID else Max (set v))\<rparr>"
    by (simp only: rangeHull_def v_def Let_def)
  have "rangeHull (rs @ [r]) = (let w = v @ (if rg_end r \<noteq> INVALID_LARGE_OBJECT_ID then [rg_end r] else []) in
      \<lparr>rg_start = min (rg_start r) (fold min (map rg_start rs) INVALID_LARGE_OBJECT_ID),
       rg_end = (if w = [] then INVALID_LARGE_OBJECT_ID else Max (set w))\<rparr>)"
    by (simp add: rangeHull_def v_def Let_def)
  also have "\<dots> = sumRange r (rangeHull rs)"
  proof (cases "v = []")
    case True
    then show ?thesis unfolding h by (auto simp: sumRange_def Let_def min_def)
  next
    case False
    define mx where "mx = Max (set v)"
    have m: "Max (set (v @ [rg_end r])) = max (rg_end r) mx" "mx \<noteq> INVALID_LARGE_OBJECT_ID" "Max (set v) = mx"
      using ne [OF False] Max_snoc [OF False, of "rg_end r"] by (simp_all only: mx_def not_False_eq_True)
    show ?thesis
    proof (cases "rg_end r = INVALID_LARGE_OBJECT_ID")
      case True
      then show ?thesis using False m(2,3) unfolding h by (auto simp: sumRange_def Let_def min_def)
    next
      case ve: False
      have "v @ [rg_end r] \<noteq> []" by simp
      then show ?thesis using False ve m unfolding h
        by (auto simp: sumRange_def Let_def min_def max_def simp del: set_append Max_less_iff Max.bounded_iff)
    qed
  qed
  finally show ?thesis .
qed

lemma rangeHull_Nil: "rangeHull [] = invalidRange"
  by (simp add: rangeHull_def invalidRange_def)

lemma sumStats_all:
  "fold (\<lambda>x. sumStats (ty x) (q x)) xs (stats_init, 0) =
    (\<lparr>st_compressedSize = (\<Sum>x\<leftarrow>xs. st_compressedSize (q x)), st_entryCount = (\<Sum>x\<leftarrow>xs. st_entryCount (q x)),
      st_rawEntryCount = (\<Sum>x\<leftarrow>xs. st_rawEntryCount (q x)),
      st_ranges = \<lparr>ri_index = rangeHull (map (\<lambda>x. ri_index (st_ranges (q x))) xs),
                   ri_cycle = rangeHull (map (\<lambda>x. ri_cycle (st_ranges (q x))) xs),
                   ri_time = rangeHull (map (\<lambda>x. ri_time (st_ranges (q x))) xs)\<rparr>\<rparr>,
     (\<Sum>x\<leftarrow>xs. st_rawEntryCount (q x) * ucast (getEntrySize (ty_entrySize (ty x)))))"
proof (induction xs rule: rev_induct)
  case Nil
  show ?case by (simp add: stats_init_def ranges_init_def rangeHull_Nil)
next
  case (snoc x xs)
  then show ?case by (simp add: sumStats_def rangeHull_snoc)
qed

lemma isSet_bits: "isSet f SefDynamic = bit f 2"
  using and_exp_eq_0_iff_not_bit [of f 2] by (simp add: isSet_def SefDynamic_def)

lemma no_dynamic:
  "\<not> isSet (if isSet f SefDynamic then f XOR SefDynamic else f) SefDynamic"
proof -
  have "bit (SefDynamic :: u32) 2" using isSet_bits [of SefDynamic] by (simp add: isSet_def SefDynamic_def)
  then show ?thesis unfolding isSet_bits by (simp add: bit_xor_iff)
qed

text \<open>
  The summary of a store covers the streams of the filter without the dynamic ones: their number,
  the sums of their sizes and counts, the uncompressed size from the raw entries and the entry sizes,
  and for index, cycle count and time the smallest range around the valid ranges of the streams.
\<close>

theorem summary_of_streams:
  fixes s :: "('b, 's, 'z) store_scheme"
  shows "let filt = (if isSet filt0 SefDynamic then filt0 XOR SefDynamic else filt0);
       xs = enumerateStreams filt s; stats = (\<lambda>x. query (so_stream x));
       (n, st, uncompressed) = summarizeStreamStats query filt0 s
   in n = of_nat (length xs) \<and>
      st_compressedSize st = (\<Sum>x\<leftarrow>xs. st_compressedSize (stats x)) \<and>
      st_entryCount st = (\<Sum>x\<leftarrow>xs. st_entryCount (stats x)) \<and>
      st_rawEntryCount st = (\<Sum>x\<leftarrow>xs. st_rawEntryCount (stats x)) \<and>
      uncompressed = (\<Sum>x\<leftarrow>xs. st_rawEntryCount (stats x) * ucast (getEntrySize (ty_entrySize (sd_type (so_desc x))))) \<and>
      (\<forall>t. ranges (st_ranges st) t = rangeHull (map (\<lambda>x. ranges (st_ranges (stats x)) t) xs)) \<and>
      {x \<in> set xs. sd_flags (so_desc x) AND (SfDynamic OR SfHidden) = SfDynamic} = {}"
proof -
  have r: "ranges \<lparr>ri_index = rangeHull (map (\<lambda>x. ri_index (st_ranges (q x))) xs),
      ri_cycle = rangeHull (map (\<lambda>x. ri_cycle (st_ranges (q x))) xs), ri_time = rangeHull (map (\<lambda>x. ri_time (st_ranges (q x))) xs)\<rparr> t =
      rangeHull (map (\<lambda>x. ranges (st_ranges (q x)) t) xs)" for q :: "'s stream_object \<Rightarrow> StreamStatistics" and xs t
    by (cases t) simp_all
  have dyn: "\<not> enumFilter (if isSet filt0 SefDynamic then filt0 XOR SefDynamic else filt0) x"
    if "sd_flags (so_desc x) AND (SfDynamic OR SfHidden) = SfDynamic" for x :: "'s stream_object"
  proof -
    have "sd_flags (so_desc x) AND SfHidden = (sd_flags (so_desc x) AND (SfDynamic OR SfHidden)) AND SfHidden"
      by (simp add: SfHidden_def SfDynamic_def and.assoc)
    also have "\<dots> = 0" unfolding that by (simp add: SfHidden_def SfDynamic_def)
    finally have "sd_flags (so_desc x) AND SfHidden = 0" .
    moreover have "SfDynamic \<noteq> 0" by (simp add: SfDynamic_def)
    ultimately show ?thesis using that no_dynamic [of filt0] by (simp add: enumFilter_def Let_def)
  qed
  show ?thesis using dyn by (auto simp: Let_def summarizeStreamStats_def sumStats_all r enumerateStreams_def)
qed

end
