(* ===== verification/Store_Manager.thy ===== *)
theory Store_Manager
  imports Store_Registry Trace_Store
begin

text \<open>
  The stores that the server has open (\<open>storageserver/ServerStoreManager.cpp\<close>) with the prefixes of
  the store specifiers, the sessions that use them (\<open>libsimustor/Session.cpp\<close>,
  \<open>libsimustor/SessionManager.cpp\<close>, \<open>storageserver/ServerSession.cpp\<close>), and the choice of the file
  format (\<open>simtrace/SimtraceStoreProvider.cpp\<close>). One operation runs at a time: the retry of
  \<open>_createOrOpenStore\<close> and the use counts of the references concern other threads.
\<close>

section \<open>Specifiers\<close>

definition prefixes :: "string list" where
  "prefixes = [''simtrace:'']"

definition findPrefixDescriptor :: "string \<Rightarrow> bool \<Rightarrow> string option" where
  "findPrefixDescriptor specifier perfectMatch =
     find (\<lambda>p. perfectMatch \<and> specifier = p \<or> \<not> perfectMatch \<and> take (length p) specifier = p) prefixes"

definition getPath :: "string \<Rightarrow> string \<Rightarrow> string" where
  "getPath prefix specifier = drop (length prefix) specifier"

definition isValidPrefix :: "string \<Rightarrow> bool" where
  "isValidPrefix prefix \<longleftrightarrow> findPrefixDescriptor prefix True \<noteq> None"

definition splitSpecifier :: "string \<Rightarrow> (string \<times> string) res" where
  "splitSpecifier specifier =
     (case findPrefixDescriptor specifier False of
        None \<Rightarrow> Inl NotSupportedException
      | Some p \<Rightarrow> Inr (p, getPath p specifier))"

section \<open>The format of a store file\<close>

text \<open>
  \<open>_createOrOpen\<close>: whether an existing file, given by its content, is removed first, and the version
  of the store to construct.
\<close>

definition SIMTRACE_DEFAULT_VERSION :: u16 where "SIMTRACE_DEFAULT_VERSION = SIMTRACE_VERSION3"
definition sizeof_SimtraceMasterHeader :: nat where "sizeof_SimtraceMasterHeader = 16"

definition isSimtraceStore :: "u8 list \<Rightarrow> bool" where
  "isSimtraceStore header \<longleftrightarrow> of_nat (field header H_signatureValue 8) = SIMTRACE_DEFAULT_SIGNATURE"

definition createOrOpen :: "u8 list option \<Rightarrow> bool \<Rightarrow> bool \<Rightarrow> (bool \<times> u16) res" where
  "createOrOpen content alwaysCreate opening =
     (case (case content of
              Some bytes \<Rightarrow>
                if \<not> opening then throwOn (\<not> alwaysCreate) GenericException (Inr (True, SIMTRACE_DEFAULT_VERSION))
                else throwOn (length bytes < sizeof_SimtraceMasterHeader \<or> \<not> isSimtraceStore bytes) GenericException
                       (Inr (False, of_nat (field bytes H_majorVersion 2)))
            | None \<Rightarrow> throwOn opening GenericException (Inr (False, SIMTRACE_DEFAULT_VERSION))) of
        Inl e \<Rightarrow> Inl e
      | Inr (remove, majorVersion) \<Rightarrow>
          throwOn (majorVersion \<noteq> SIMTRACE_VERSION3) NotSupportedException (Inr (remove, majorVersion)))"

section \<open>The open stores\<close>

text \<open>\<open>ServerStoreReference\<close>; the store is \<open>None\<close> when it could not be created.\<close>

record ('b, 's, 'f) store_reference =
  rf_name :: string
  rf_store :: "('b, 's, 'f) server_store option"
  rf_dormant :: bool
  rf_dormantTime :: u64

record ('b, 's, 'f) store_manager =
  mg_persistentCache :: u32
  mg_nextStoreId :: u32
  mg_stores :: "(u32 \<times> ('b, 's, 'f) store_reference) list"

definition newStoreManager :: "u32 \<Rightarrow> ('b, 's, 'f) store_manager" where
  "newStoreManager cache = \<lparr>mg_persistentCache = cache, mg_nextStoreId = 0, mg_stores = []\<rparr>"

text \<open>
  What the manager gets from outside: the path of a specifier, the factory methods of the store
  format, and what closes the streams and encoders of a store.
\<close>

record ('b, 's, 'f) manager_env =
  me_makePath :: "string \<Rightarrow> string"
  me_create :: "u32 \<Rightarrow> string \<Rightarrow> bool \<Rightarrow> ('b, 's, 'f) server_store res"
  me_open :: "u32 \<Rightarrow> string \<Rightarrow> ('b, 's, 'f) server_store res"
  me_closeSession :: "u32 \<Rightarrow> 's \<Rightarrow> 's"
  me_closeEncoder :: "'s \<Rightarrow> 's"

definition newReference :: "string \<Rightarrow> ('b, 's, 'f) store_reference" where
  "newReference name = \<lparr>rf_name = name, rf_store = None, rf_dormant = False, rf_dormantTime = INVALID_TIME_STAMP\<rparr>"

text \<open>Removing a store also destroys it, as it has no other owner.\<close>

definition releaseStore :: "u32 \<Rightarrow> ('b, 's, 'f) store_manager \<Rightarrow> ('b, 's, 'f) store_manager" where
  "releaseStore i m = m\<lparr>mg_stores := mapErase i (mg_stores m), mg_nextStoreId := retireId i (mg_nextStoreId m)\<rparr>"

text \<open>The loop of \<open>_evictStore\<close>: the number of updates, the smallest time so far and its store.\<close>

fun evictLoop :: "(u32 \<times> ('b, 's, 'f) store_reference) list \<Rightarrow> u32 \<times> u64 \<times> u32 \<Rightarrow> u32 \<times> u64 \<times> u32" where
  "evictLoop [] acc = acc"
| "evictLoop ((i, r) # refs) (cnt, evictTime, evictId) =
     evictLoop refs
       (if rf_dormant r \<and> rf_dormantTime r < evictTime \<and> rf_store r \<noteq> None
        then (cnt + 1, rf_dormantTime r, i) else (cnt, evictTime, evictId))"

definition evictStore :: "('b, 's, 'f) store_manager \<Rightarrow> ('b, 's, 'f) store_manager" where
  "evictStore m =
     (case evictLoop (mg_stores m) (0, INVALID_TIME_STAMP, INVALID_STORE_ID) of
        (cnt, evictTime, evictId) \<Rightarrow> if mg_persistentCache m < cnt then releaseStore evictId m else m)"

text \<open>The search through the open stores: what is released on the way, and the reference found.\<close>

fun searchStores ::
  "string \<Rightarrow> bool \<Rightarrow> (u32 \<times> ('b, 's, 'f) store_reference) list \<Rightarrow> u32 list \<times> u32 option" where
  "searchStores path opening [] = ([], None)"
| "searchStores path opening ((i, r) # refs) =
     (if rf_store r = None \<and> rf_dormant r then
        (case searchStores path opening refs of (dels, found) \<Rightarrow> (i # dels, found))
      else if path = rf_name r then (if rf_dormant r \<and> \<not> opening then ([i], None) else ([], Some i))
      else searchStores path opening refs)"

definition setReference ::
  "u32 \<Rightarrow> ('b, 's, 'f) store_reference \<Rightarrow> ('b, 's, 'f) store_manager \<Rightarrow> ('b, 's, 'f) store_manager" where
  "setReference i r m = m\<lparr>mg_stores := mapPut i r (mg_stores m)\<rparr>"

text \<open>The part that holds the lock of the reference; \<open>i\<close> is \<open>INVALID_STORE_ID\<close> if the reference was found.\<close>

definition attachReference ::
  "u32 \<Rightarrow> u32 \<Rightarrow> ('b, 's, 'f) store_reference \<Rightarrow> ('b, 's, 'f) store_manager \<Rightarrow> u32 res \<times> ('b, 's, 'f) store_manager" where
  "attachReference session key r m =
     (case rf_store r of
        None \<Rightarrow> (Inl NotFoundException, m)
      | Some st \<Rightarrow>
          (case attach session st of
             (Inl e, st1) \<Rightarrow> (Inl e, setReference key (r\<lparr>rf_store := Some st1\<rparr>) m)
           | (Inr _, st1) \<Rightarrow> (Inr key, setReference key (r\<lparr>rf_store := Some st1\<rparr>) m)))"

definition useReference ::
  "('b, 's, 'f) manager_env \<Rightarrow> u32 \<Rightarrow> string \<Rightarrow> bool \<Rightarrow> bool \<Rightarrow> u32 \<Rightarrow> u32 \<Rightarrow> ('b, 's, 'f) store_reference \<Rightarrow>
   ('b, 's, 'f) store_manager \<Rightarrow> u32 res \<times> ('b, 's, 'f) store_manager" where
  "useReference env session path alwaysCreate opening i key r m =
     (case rf_store r of
        None \<Rightarrow>
          (case (if opening then me_open env i path else me_create env i path alwaysCreate) of
             Inl e \<Rightarrow> (Inl e, setReference key (r\<lparr>rf_dormant := True\<rparr>) m)
           | Inr st \<Rightarrow> attachReference session key (r\<lparr>rf_store := Some st\<rparr>) m)
      | Some st \<Rightarrow>
          if rf_dormant r then attachReference session key (r\<lparr>rf_dormant := False\<rparr>) m
          else if \<not> opening then (Inl GenericException, m)
          else attachReference session key r m)"

definition createOrOpenStore ::
  "('b, 's, 'f) manager_env \<Rightarrow> u32 \<Rightarrow> string \<Rightarrow> bool \<Rightarrow> bool \<Rightarrow> ('b, 's, 'f) store_manager \<Rightarrow>
   u32 res \<times> ('b, 's, 'f) store_manager" where
  "createOrOpenStore env session specifier alwaysCreate opening m =
     (case findPrefixDescriptor specifier False of
        None \<Rightarrow> (Inl GenericException, m)
      | Some p \<Rightarrow>
          (let path = me_makePath env (getPath p specifier);
               (dels, found) = searchStores path opening (mg_stores m);
               m1 = fold releaseStore dels m
           in case found of
                Some key \<Rightarrow>
                  useReference env session path alwaysCreate opening INVALID_STORE_ID key (the (map_of (mg_stores m1) key)) m1
              | None \<Rightarrow>
                  (case getNextId (mg_nextStoreId m1) of
                     (Inl e, n) \<Rightarrow> (Inl e, m1\<lparr>mg_nextStoreId := n\<rparr>)
                   | (Inr i, n) \<Rightarrow>
                       useReference env session path alwaysCreate opening i i (newReference path)
                         (evictStore (setReference i (newReference path) (m1\<lparr>mg_nextStoreId := n\<rparr>))))))"

text \<open>\<open>now\<close> is the time stamp of a store that becomes dormant.\<close>

definition closeStore ::
  "('b, 's, 'f) manager_env \<Rightarrow> u64 \<Rightarrow> u32 \<Rightarrow> u32 \<Rightarrow> ('b, 's, 'f) store_manager \<Rightarrow> unit res \<times> ('b, 's, 'f) store_manager" where
  "closeStore env now session i m =
     (if session = SERVER_SESSION_ID then (Inl NotFoundException, m)
      else
        (case map_of (mg_stores m) i of
           None \<Rightarrow> (Inl NotFoundException, m)
         | Some r \<Rightarrow>
             (case detach (me_closeSession env) (me_closeEncoder env) session (the (rf_store r)) of
                (Inl e, st) \<Rightarrow> (Inl e, setReference i (r\<lparr>rf_store := Some st\<rparr>) m)
              | (Inr n, st) \<Rightarrow>
                  (Inr (),
                   if n = 1 then
                     (if mg_persistentCache m = 0 then releaseStore i m
                      else setReference i (r\<lparr>rf_store := Some st, rf_dormant := True, rf_dormantTime := now\<rparr>) m)
                   else setReference i (r\<lparr>rf_store := Some st\<rparr>) m))))"

definition getStore :: "u32 \<Rightarrow> ('b, 's, 'f) store_manager \<Rightarrow> ('b, 's, 'f) server_store res" where
  "getStore i m = (case map_of (mg_stores m) i of None \<Rightarrow> Inl NotFoundException | Some r \<Rightarrow> Inr (the (rf_store r)))"

section \<open>Sessions\<close>

text \<open>
  A session of the server: its worker threads, the reference count, and the store it has open. The
  thread that calls \<open>detach\<close> is given by its number; it has left its processing loop.
\<close>

record session =
  es_peerApiVersion :: u16
  es_workers :: "nat list"
  es_referenceCount :: u32
  es_isAlive :: bool
  es_store :: "u32 option"

record ('b, 's, 'f) server =
  sy_sessions :: "(u32 \<times> session) list"
  sy_nextSessionId :: u32
  sy_canCreateSession :: bool
  sy_manager :: "('b, 's, 'f) store_manager"

definition newServer :: "u32 \<Rightarrow> ('b, 's, 'f) server" where
  "newServer cache =
     \<lparr>sy_sessions = [], sy_nextSessionId = 0, sy_canCreateSession = True, sy_manager = newStoreManager cache\<rparr>"

definition setSession :: "u32 \<Rightarrow> session \<Rightarrow> ('b, 's, 'f) server \<Rightarrow> ('b, 's, 'f) server" where
  "setSession i x s = s\<lparr>sy_sessions := mapPut i x (sy_sessions s)\<rparr>"

definition createSession :: "u16 \<Rightarrow> nat \<Rightarrow> ('b, 's, 'f) server \<Rightarrow> u32 res \<times> ('b, 's, 'f) server" where
  "createSession version worker s =
     (if \<not> sy_canCreateSession s then (Inl InvalidOperationException, s)
      else
        (case getNextId (sy_nextSessionId s) of
           (Inl e, n) \<Rightarrow> (Inl e, s\<lparr>sy_nextSessionId := n\<rparr>)
         | (Inr i, n) \<Rightarrow>
             (Inr i, setSession i \<lparr>es_peerApiVersion = version, es_workers = [worker], es_referenceCount = 1, es_isAlive = True, es_store = None\<rparr>
                       (s\<lparr>sy_nextSessionId := n\<rparr>))))"

definition attachSession :: "nat \<Rightarrow> session \<Rightarrow> session res" where
  "attachSession worker x =
     throwOn (\<not> es_isAlive x) InvalidOperationException
       (Inr (x\<lparr>es_workers := es_workers x @ [worker], es_referenceCount := es_referenceCount x + 1\<rparr>))"

definition openLocalSession :: "u16 \<Rightarrow> nat \<Rightarrow> u32 \<Rightarrow> ('b, 's, 'f) server \<Rightarrow> unit res \<times> ('b, 's, 'f) server" where
  "openLocalSession version worker i s =
     (case map_of (sy_sessions s) i of
        None \<Rightarrow> (Inl NotFoundException, s)
      | Some x \<Rightarrow>
          (case throwOn (es_peerApiVersion x \<noteq> version) GenericException (attachSession worker x) of
             Inl e \<Rightarrow> (Inl e, s)
           | Inr y \<Rightarrow> (Inr (), setSession i y s)))"

text \<open>\<open>createStore\<close> and \<open>openStore\<close> of a session.\<close>

definition sessionOpenStore ::
  "('b, 's, 'f) manager_env \<Rightarrow> string \<Rightarrow> bool \<Rightarrow> bool \<Rightarrow> u32 \<Rightarrow> ('b, 's, 'f) server \<Rightarrow> unit res \<times> ('b, 's, 'f) server" where
  "sessionOpenStore env specifier alwaysCreate opening i s =
     (case map_of (sy_sessions s) i of
        None \<Rightarrow> (Inl NotFoundException, s)
      | Some x \<Rightarrow>
          if es_store x \<noteq> None \<or> \<not> es_isAlive x then (Inl InvalidOperationException, s)
          else
            (case createOrOpenStore env i specifier alwaysCreate opening (sy_manager s) of
               (Inl e, m) \<Rightarrow> (Inl e, s\<lparr>sy_manager := m\<rparr>)
             | (Inr key, m) \<Rightarrow> (Inr (), setSession i (x\<lparr>es_store := Some key\<rparr>) (s\<lparr>sy_manager := m\<rparr>))))"

definition closeSessionStore ::
  "('b, 's, 'f) manager_env \<Rightarrow> u64 \<Rightarrow> u32 \<Rightarrow> session \<Rightarrow> ('b, 's, 'f) server \<Rightarrow> session res \<times> ('b, 's, 'f) server" where
  "closeSessionStore env now i x s =
     (case es_store x of
        None \<Rightarrow> (Inr x, s)
      | Some key \<Rightarrow>
          (case closeStore env now i key (sy_manager s) of
             (Inl e, m) \<Rightarrow> (Inl e, s\<lparr>sy_manager := m\<rparr>)
           | (Inr _, m) \<Rightarrow> (Inr (x\<lparr>es_store := None\<rparr>), s\<lparr>sy_manager := m\<rparr>)))"

definition sessionCloseStore ::
  "('b, 's, 'f) manager_env \<Rightarrow> u64 \<Rightarrow> u32 \<Rightarrow> ('b, 's, 'f) server \<Rightarrow> unit res \<times> ('b, 's, 'f) server" where
  "sessionCloseStore env now i s =
     (case map_of (sy_sessions s) i of
        None \<Rightarrow> (Inl NotFoundException, s)
      | Some x \<Rightarrow>
          if \<not> es_isAlive x then (Inl InvalidOperationException, s)
          else
            (case closeSessionStore env now i x s of
               (Inl e, s1) \<Rightarrow> (Inl e, s1)
             | (Inr y, s1) \<Rightarrow> (Inr (), setSession i y s1)))"

text \<open>
  \<open>detach\<close> of the worker thread: a worker that is not the last one is taken off the session; with the
  last one the store is closed and the session is released.
\<close>

definition detachWorker ::
  "('b, 's, 'f) manager_env \<Rightarrow> u64 \<Rightarrow> nat \<Rightarrow> u32 \<Rightarrow> ('b, 's, 'f) server \<Rightarrow> unit res \<times> ('b, 's, 'f) server" where
  "detachWorker env now worker i s =
     (case map_of (sy_sessions s) i of
        None \<Rightarrow> (Inl NotFoundException, s)
      | Some x \<Rightarrow>
          if \<not> es_isAlive x then (Inl InvalidOperationException, s)
          else if worker \<notin> set (es_workers x) then (Inl InvalidOperationException, s)
          else if 1 < es_referenceCount x then
            (Inr (), setSession i (x\<lparr>es_workers := remove1 worker (es_workers x), es_referenceCount := es_referenceCount x - 1\<rparr>) s)
          else
            (case closeSessionStore env now i x s of
               (Inl e, s1) \<Rightarrow> (Inl e, s1)
             | (Inr y, s1) \<Rightarrow> (Inr (), s1\<lparr>sy_sessions := mapErase i (sy_sessions s1)\<rparr>)))"

end
