(* ===== verification/Store_Server.thy ===== *)
theory Store_Server
  imports Store_Manager
begin

text \<open>
  The invariant of the server's stores and sessions, and what every operation of
  \<open>storageserver/ServerStoreManager.cpp\<close> and of the sessions keeps of it: a store is open exactly as
  long as a session uses it, and one instance of a store exists per path.
\<close>

section \<open>The invariant of the open stores\<close>

text \<open>\<open>U\<close> is the set of the sessions that use the store.\<close>

definition reference_ok :: "u32 set \<Rightarrow> ('b, 's, 'f) store_reference \<Rightarrow> bool" where
  "reference_ok U r \<longleftrightarrow>
     (rf_dormant r \<longleftrightarrow> U = {}) \<and>
     (case rf_store r of
        None \<Rightarrow> U = {}
      | Some st \<Rightarrow> references_ok st \<and> vs_referenceCount st \<noteq> 0 \<and> set (vs_references st) = U)"

text \<open>The references in \<open>X\<close> are under construction.\<close>

definition manager_ok :: "(u32 \<Rightarrow> u32 set) \<Rightarrow> u32 set \<Rightarrow> ('b, 's, 'f) store_manager \<Rightarrow> bool" where
  "manager_ok users X m \<longleftrightarrow>
     map_ok (mg_stores m) \<and> std_map.below (mg_stores m) (mg_nextStoreId m) \<and>
     (\<forall>i r. map_of (mg_stores m) i = Some r \<longrightarrow> (if i \<in> X then \<not> rf_dormant r else reference_ok (users i) r)) \<and>
     (\<forall>i. map_of (mg_stores m) i = None \<longrightarrow> users i = {}) \<and>
     (\<forall>i j r q. map_of (mg_stores m) i = Some r \<longrightarrow> map_of (mg_stores m) j = Some q \<longrightarrow> rf_name r = rf_name q \<longrightarrow> i = j)"

lemma manager_okD:
  assumes "manager_ok users X m"
  shows "map_ok (mg_stores m)" "std_map.below (mg_stores m) (mg_nextStoreId m)"
    and "map_of (mg_stores m) i = Some r \<Longrightarrow> i \<notin> X \<Longrightarrow> reference_ok (users i) r"
    and "map_of (mg_stores m) i = Some r \<Longrightarrow> i \<in> X \<Longrightarrow> \<not> rf_dormant r"
    and "map_of (mg_stores m) i = None \<Longrightarrow> users i = {}"
    and "map_of (mg_stores m) i = Some r \<Longrightarrow> map_of (mg_stores m) j = Some q \<Longrightarrow> rf_name r = rf_name q \<Longrightarrow> i = j"
proof -
  show "map_ok (mg_stores m)" "std_map.below (mg_stores m) (mg_nextStoreId m)" using assms by (simp_all add: manager_ok_def)
  have all: "\<forall>i r. map_of (mg_stores m) i = Some r \<longrightarrow> (if i \<in> X then \<not> rf_dormant r else reference_ok (users i) r)"
    "\<forall>i. map_of (mg_stores m) i = None \<longrightarrow> users i = {}"
    "\<forall>i j r q. map_of (mg_stores m) i = Some r \<longrightarrow> map_of (mg_stores m) j = Some q \<longrightarrow> rf_name r = rf_name q \<longrightarrow> i = j"
    using assms unfolding manager_ok_def by blast+
  show "map_of (mg_stores m) i = Some r \<Longrightarrow> i \<notin> X \<Longrightarrow> reference_ok (users i) r"
    "map_of (mg_stores m) i = Some r \<Longrightarrow> i \<in> X \<Longrightarrow> \<not> rf_dormant r"
    using all(1) by (metis, metis)
  show "map_of (mg_stores m) i = None \<Longrightarrow> users i = {}" using all(2) by blast
  show "map_of (mg_stores m) i = Some r \<Longrightarrow> map_of (mg_stores m) j = Some q \<Longrightarrow> rf_name r = rf_name q \<Longrightarrow> i = j"
    using all(3) by blast
qed

lemma dormant_unused: "manager_ok users X m \<Longrightarrow> map_of (mg_stores m) i = Some r \<Longrightarrow> rf_dormant r \<Longrightarrow> users i = {}"
  using manager_okD(3, 4) [of users X m i r] by (auto simp: reference_ok_def)

lemma releaseStore_simps [simp]:
  "map_of (mg_stores (releaseStore i m)) = (map_of (mg_stores m))(i := None)"
  "mg_nextStoreId (releaseStore i m) = mg_nextStoreId m"
  "mg_persistentCache (releaseStore i m) = mg_persistentCache m"
  by (simp_all add: releaseStore_def retireId_def)

lemma releaseStore_ok:
  assumes ok: "manager_ok users X m" and unused: "users i = {}"
  shows "manager_ok users X (releaseStore i m)"
proof -
  have "map_ok (mg_stores (releaseStore i m))" "std_map.below (mg_stores (releaseStore i m)) (mg_nextStoreId m)"
    using manager_okD(1, 2) [OF ok] by (simp_all add: releaseStore_def std_map.below_erase)
  then show ?thesis using ok unused unfolding manager_ok_def by (auto split: if_splits)
qed

lemma releaseStores_ok:
  "manager_ok users X m \<Longrightarrow> (\<And>i. i \<in> set dels \<Longrightarrow> users i = {}) \<Longrightarrow>
   manager_ok users X (fold releaseStore dels m) \<and>
   map_of (mg_stores (fold releaseStore dels m)) = (\<lambda>i. if i \<in> set dels then None else map_of (mg_stores m) i) \<and>
   mg_nextStoreId (fold releaseStore dels m) = mg_nextStoreId m"
proof (induction dels arbitrary: m)
  case (Cons i dels)
  from Cons.IH [OF releaseStore_ok [OF Cons.prems(1) Cons.prems(2) [of i]]] Cons.prems(2) show ?case
    by (auto simp: fun_eq_iff)
qed simp

text \<open>A reference is set to its state for the users \<open>U\<close>; the others are not affected.\<close>

lemma setReference_ok:
  assumes ok: "manager_ok users X m" and small: "i < mg_nextStoreId m" and ref: "reference_ok U r"
    and name: "\<And>j q. j \<noteq> i \<Longrightarrow> map_of (mg_stores m) j = Some q \<Longrightarrow> rf_name q \<noteq> rf_name r"
  shows "manager_ok (users(i := U)) (X - {i}) (setReference i r m)"
proof -
  have "map_ok (mg_stores m)" "std_map.below (mg_stores m) (mg_nextStoreId m)" by (rule manager_okD(1, 2) [OF ok])+
  moreover from this have "std_map.below (mapPut i r (mg_stores m)) (mg_nextStoreId m)"
    by (rule std_map.below_put) (rule small)
  moreover have "rf_name r \<noteq> rf_name q" if "j \<noteq> i" "map_of (mg_stores m) j = Some q" for j q
    using name [OF that] by simp
  ultimately show ?thesis using ok ref name unfolding manager_ok_def setReference_def by (auto split: if_splits)
qed

lemma newReference_ok:
  assumes ok: "manager_ok users {} m" and fresh: "map_of (mg_stores m) i = None" and small: "i < mg_nextStoreId m"
    and name: "\<And>j q. map_of (mg_stores m) j = Some q \<Longrightarrow> rf_name q \<noteq> path"
  shows "manager_ok users {i} (setReference i (newReference path) m)"
proof -
  have "map_ok (mg_stores m)" "std_map.below (mg_stores m) (mg_nextStoreId m)" by (rule manager_okD(1, 2) [OF ok])+
  moreover from this have "std_map.below (mapPut i (newReference path) (mg_stores m)) (mg_nextStoreId m)"
    by (rule std_map.below_put) (rule small)
  ultimately show ?thesis using ok name fresh unfolding manager_ok_def setReference_def
    by (auto simp: newReference_def split: if_splits)
qed

section \<open>Eviction and search\<close>

lemma evictLoop_picks:
  "evictLoop refs acc = (cnt, t, e) \<Longrightarrow> acc = (cnt, t, e) \<or> (\<exists>r. (e, r) \<in> set refs \<and> rf_dormant r \<and> rf_store r \<noteq> None)"
proof (induction refs acc rule: evictLoop.induct)
  case (2 i r refs cnt0 t0 e0)
  from 2(2) have "evictLoop refs (if rf_dormant r \<and> rf_dormantTime r < t0 \<and> rf_store r \<noteq> None
        then (cnt0 + 1, rf_dormantTime r, i) else (cnt0, t0, e0)) = (cnt, t, e)" by simp
  from 2(1) [OF this] show ?case by (auto split: if_splits)
qed simp

lemma evictStore_ok:
  assumes ok: "manager_ok users X m"
  shows "manager_ok users X (evictStore m) \<and> mg_nextStoreId (evictStore m) = mg_nextStoreId m \<and>
    (\<forall>j q. map_of (mg_stores (evictStore m)) j = Some q \<longrightarrow> map_of (mg_stores m) j = Some q) \<and>
    (\<forall>j\<in>X. map_of (mg_stores (evictStore m)) j = map_of (mg_stores m) j)"
proof -
  obtain cnt t e where l: "evictLoop (mg_stores m) (0, INVALID_TIME_STAMP, INVALID_STORE_ID) = (cnt, t, e)" by (metis prod_cases3)
  show ?thesis
  proof (cases "mg_persistentCache m < cnt")
    case True
    then have "cnt \<noteq> 0" by auto
    then obtain r where "(e, r) \<in> set (mg_stores m)" and d: "rf_dormant r" using evictLoop_picks [OF l] by auto
    then have r: "map_of (mg_stores m) e = Some r" using map_of_mem [OF manager_okD(1) [OF ok]] by blast
    have "e \<notin> X" using manager_okD(4) [OF ok r] d by blast
    moreover have "manager_ok users X (releaseStore e m)" by (rule releaseStore_ok [OF ok dormant_unused [OF ok r d]])
    ultimately show ?thesis using l True by (auto simp: evictStore_def)
  next
    case False
    then show ?thesis using l ok by (simp add: evictStore_def)
  qed
qed

lemma searchStores_finds:
  "searchStores path opening refs = (dels, found) \<Longrightarrow> distinct (map fst refs) \<Longrightarrow>
   (\<forall>i\<in>set dels. \<exists>r. (i, r) \<in> set refs \<and> rf_dormant r) \<and>
   (\<forall>k. found = Some k \<longrightarrow> k \<notin> set dels \<and>
      (\<exists>r. (k, r) \<in> set refs \<and> rf_name r = path \<and> (rf_dormant r \<longrightarrow> opening \<and> rf_store r \<noteq> None)))"
proof (induction refs arbitrary: dels)
  case (Cons a refs)
  obtain i r where a: "a = (i, r)" by fastforce
  obtain dels' found' where rest: "searchStores path opening refs = (dels', found')" by fastforce
  have "(\<forall>i\<in>set dels'. \<exists>r. (i, r) \<in> set refs \<and> rf_dormant r) \<and> (\<forall>k. found' = Some k \<longrightarrow> k \<notin> set dels' \<and>
      (\<exists>r. (k, r) \<in> set refs \<and> rf_name r = path \<and> (rf_dormant r \<longrightarrow> opening \<and> rf_store r \<noteq> None)))" if "found' = found"
    using Cons.IH [of dels'] rest Cons.prems(2) that by simp
  moreover have "i \<notin> fst ` set refs" using Cons.prems(2) a by simp
  then have "k \<noteq> i" if "(k, q) \<in> set refs" for k q using that by force
  ultimately show ?case using Cons.prems(1) a rest by (fastforce split: if_splits)
qed simp

lemma searchStores_misses:
  "searchStores path opening refs = (dels, None) \<Longrightarrow> inj_on (\<lambda>(i, r). rf_name r) (set refs) \<Longrightarrow> distinct (map fst refs) \<Longrightarrow>
   (j, q) \<in> set refs \<Longrightarrow> j \<notin> set dels \<Longrightarrow> rf_name q \<noteq> path"
proof (induction refs arbitrary: dels)
  case (Cons a refs)
  obtain i r where a: "a = (i, r)" by fastforce
  obtain dels' found' where rest: "searchStores path opening refs = (dels', found')" by fastforce
  have IH: "rf_name q \<noteq> path" if "found' = None" "(j, q) \<in> set refs" "j \<notin> set dels'"
    using Cons.IH [of dels'] rest Cons.prems(2, 3) that by simp
  have "rf_name q \<noteq> rf_name r" if "(j, q) \<in> set refs"
    using inj_onD [OF Cons.prems(2), of "(j, q)" "(i, r)"] that a Cons.prems(3) by force
  then show ?case using Cons.prems(1, 4, 5) a rest IH by (auto split: if_splits)
qed simp

section \<open>Opening and closing a store\<close>

text \<open>What the factory methods promise: a store that only the server refers to.\<close>

definition fresh_store :: "('b, 's, 'f) server_store \<Rightarrow> bool" where
  "fresh_store st \<longleftrightarrow> references_ok st \<and> vs_referenceCount st = 1 \<and> vs_references st = []"

definition env_ok :: "('b, 's, 'f) manager_env \<Rightarrow> bool" where
  "env_ok env \<longleftrightarrow>
     (\<forall>i path always st. me_create env i path always = Inr st \<longrightarrow> fresh_store st) \<and>
     (\<forall>i path st. me_open env i path = Inr st \<longrightarrow> fresh_store st)"

text \<open>A store that can be attached to: its users are \<open>U\<close>, its reference is not dormant.\<close>

definition attachable :: "u32 set \<Rightarrow> ('b, 's, 'f) store_reference \<Rightarrow> bool" where
  "attachable U r \<longleftrightarrow> \<not> rf_dormant r \<and>
     (\<exists>st. rf_store r = Some st \<and> references_ok st \<and> vs_referenceCount st \<noteq> 0 \<and> set (vs_references st) = U)"

lemma attachReference_ok:
  assumes ok: "manager_ok users X m" and X: "X \<subseteq> {key}" and small: "key < mg_nextStoreId m"
    and r: "attachable (users key) r" and new: "session \<notin> users key" and few: "card (users key) < 2 ^ 32 - 2"
    and name: "\<And>j q. j \<noteq> key \<Longrightarrow> map_of (mg_stores m) j = Some q \<Longrightarrow> rf_name q \<noteq> rf_name r"
    and c: "attachReference session key r m = (res, m')"
  shows "res = Inr key \<and> manager_ok (users(key := insert session (users key))) {} m' \<and> mg_nextStoreId m' = mg_nextStoreId m"
proof -
  obtain st where st: "rf_store r = Some st" "references_ok st" "vs_referenceCount st \<noteq> 0" "set (vs_references st) = users key"
    and d: "\<not> rf_dormant r" using r by (auto simp: attachable_def)
  have len: "length (vs_references st) < 2 ^ 32 - 2" using st(2, 4) few distinct_card by (fastforce simp: references_ok_def)
  obtain a st1 where a: "attach session st = (a, st1)" by fastforce
  have "a = Inr ()" using a st(3, 4) new by (auto simp: attach_def findReference_def split: if_splits)
  then have st1: "references_ok st1" "vs_referenceCount st1 \<noteq> 0" "vs_references st1 = vs_references st @ [session]"
    using attach_ok [OF a st(2) len] st(3) by simp_all
  have r1: "reference_ok (insert session (users key)) (r\<lparr>rf_store := Some st1\<rparr>)"
    using st1 st(4) d by (simp add: reference_ok_def)
  have X0: "X - {key} = {}" using X by blast
  have "manager_ok (users(key := insert session (users key))) {} (setReference key (r\<lparr>rf_store := Some st1\<rparr>) m)"
    using setReference_ok [OF ok small r1] name unfolding X0 by simp
  then show ?thesis using c a st(1) \<open>a = Inr ()\<close> by (auto simp: attachReference_def setReference_def)
qed

text \<open>\<open>reserved\<close> is the reference that was found, or the new one, which has no store.\<close>

lemma useReference_ok:
  assumes ok: "manager_ok users X m" and X: "X \<subseteq> {key}" and small: "key < mg_nextStoreId m" and env: "env_ok env"
    and found: "X = {} \<Longrightarrow> reference_ok (users key) r \<and> rf_store r \<noteq> None"
    and empty: "X = {key} \<Longrightarrow> r = newReference path \<and> users key = {}"
    and new: "session \<notin> users key" and few: "card (users key) < 2 ^ 32 - 2"
    and name: "\<And>j q. j \<noteq> key \<Longrightarrow> map_of (mg_stores m) j = Some q \<Longrightarrow> rf_name q \<noteq> rf_name r"
    and c: "useReference env session path alwaysCreate opening i key r m = (res, m')"
  shows "mg_nextStoreId m' = mg_nextStoreId m \<and>
    (case res of
       Inl e \<Rightarrow> manager_ok users {} m'
     | Inr k \<Rightarrow> k = key \<and> manager_ok (users(key := insert session (users key))) {} m')"
proof -
  note attach = attachReference_ok [where users = users, OF ok X small _ new few]
  consider "X = {}" | "X = {key}" using X by blast
  then show ?thesis
  proof cases
    case 1
    obtain st where st: "rf_store r = Some st" using found [OF 1] by blast
    have r: "reference_ok (users key) r" using found [OF 1] by blast
    have "attachable (users key) (r\<lparr>rf_dormant := False\<rparr>)" "attachable (users key) r \<or> rf_dormant r"
      using r st by (auto simp: attachable_def reference_ok_def)
    with attach [of "r\<lparr>rf_dormant := False\<rparr>"] attach [of r] show ?thesis
      using c st name ok 1 by (auto simp: useReference_def split: if_splits)
  next
    case 2
    have r: "r = newReference path" "users key = {}" using empty [OF 2] by simp_all
    let ?opened = "if opening then me_open env i path else me_create env i path alwaysCreate"
    show ?thesis
    proof (cases ?opened)
      case (Inl e)
      have "reference_ok (users key) (r\<lparr>rf_dormant := True\<rparr>)" using r by (simp add: reference_ok_def newReference_def)
      from setReference_ok [OF ok small this] name have "manager_ok (users(key := users key)) (X - {key}) (setReference key (r\<lparr>rf_dormant := True\<rparr>) m)"
        by simp
      then have "manager_ok users {} (setReference key (r\<lparr>rf_dormant := True\<rparr>) m)" using 2 by simp
      then show ?thesis using c Inl r(1) by (auto simp: useReference_def newReference_def setReference_def)
    next
      case (Inr st)
      then have "fresh_store st" using env by (auto simp: env_ok_def split: if_splits)
      then have "attachable (users key) (r\<lparr>rf_store := Some st\<rparr>)"
        using r by (simp add: attachable_def fresh_store_def newReference_def)
      from attach [OF this] name have "\<And>res m'. attachReference session key (r\<lparr>rf_store := Some st\<rparr>) m = (res, m') \<Longrightarrow>
          res = Inr key \<and> manager_ok (users(key := insert session (users key))) {} m' \<and> mg_nextStoreId m' = mg_nextStoreId m"
        by simp
      then show ?thesis using c Inr r(1) by (simp add: useReference_def newReference_def)
    qed
  qed
qed

lemma createOrOpenStore_ok:
  assumes ok: "manager_ok users {} m" and env: "env_ok env"
    and new: "\<And>i. session \<notin> users i" and few: "\<And>i. card (users i) < 2 ^ 32 - 2"
    and c: "createOrOpenStore env session specifier alwaysCreate opening m = (res, m')"
  shows "(case res of
       Inl e \<Rightarrow> manager_ok users {} m'
     | Inr k \<Rightarrow> manager_ok (users(k := insert session (users k))) {} m')"
proof (cases "findPrefixDescriptor specifier False")
  case None
  then show ?thesis using c ok by (auto simp: createOrOpenStore_def)
next
  case (Some p)
  let ?path = "me_makePath env (getPath p specifier)"
  obtain dels found where s: "searchStores ?path opening (mg_stores m) = (dels, found)" by fastforce
  have map: "map_ok (mg_stores m)" by (rule manager_okD(1) [OF ok])
  then have dist: "distinct (map fst (mg_stores m))" using map_ok_distinct by (auto simp: keys_def)
  have mem: "(i, r) \<in> set (mg_stores m) \<longleftrightarrow> map_of (mg_stores m) i = Some r" for i r using map_of_mem [OF map] by blast
  have dels: "users i = {}" if "i \<in> set dels" for i
    using searchStores_finds [OF s dist] that dormant_unused [OF ok] mem by blast
  define m1 where "m1 = fold releaseStore dels m"
  have m1: "manager_ok users {} m1" "map_of (mg_stores m1) = (\<lambda>i. if i \<in> set dels then None else map_of (mg_stores m) i)"
    using releaseStores_ok [of users "{}" m dels] ok dels by (simp_all add: m1_def)
  show ?thesis
  proof (cases found)
    case Some': (Some key)
    then obtain r where "(key, r) \<in> set (mg_stores m)" and name: "rf_name r = ?path" and live: "rf_dormant r \<longrightarrow> rf_store r \<noteq> None"
      and nd: "key \<notin> set dels" using searchStores_finds [OF s dist] by blast
    then have r: "map_of (mg_stores m1) key = Some r" using mem m1(2) by simp
    have r_ok: "reference_ok (users key) r" by (rule manager_okD(3) [OF m1(1) r]) simp
    then have st: "rf_store r \<noteq> None" using live by (auto simp: reference_ok_def split: option.splits)
    have small: "key < mg_nextStoreId m1" using manager_okD(2) [OF m1(1)] r by (auto simp: std_map.below_def)
    have others: "rf_name q \<noteq> rf_name r" if "j \<noteq> key" "map_of (mg_stores m1) j = Some q" for j q
      using manager_okD(6) [OF m1(1) that(2) r] that(1) by blast
    have "useReference env session ?path alwaysCreate opening INVALID_STORE_ID key r m1 = (res, m')"
      using c Some s Some' r by (simp add: createOrOpenStore_def Let_def flip: m1_def)
    from useReference_ok [OF m1(1) _ small env _ _ new few others this] show ?thesis using r_ok st by (auto split: sum.splits)
  next
    case None
    have "inj_on (\<lambda>(i, r). rf_name r) (set (mg_stores m))"
      using manager_okD(6) [OF ok] mem by (auto simp: inj_on_def) (metis option.inject)
    from searchStores_misses [OF s [unfolded None] this dist] m1(2) mem
    have fresh: "rf_name q \<noteq> ?path" if "map_of (mg_stores m1) j = Some q" for j q using that by (auto split: if_splits)
    obtain g n where g: "getNextId (mg_nextStoreId m1) = (g, n)" by fastforce
    let ?m2 = "m1\<lparr>mg_nextStoreId := n\<rparr>"
    have m2: "manager_ok users {} ?m2"
      using m1(1) getNextId_mono [OF manager_okD(2) [OF m1(1)] g] by (simp add: manager_ok_def)
    show ?thesis
    proof (cases g)
      case (Inl e)
      then show ?thesis using c Some s None g m2 by (auto simp: createOrOpenStore_def Let_def m1_def)
    next
      case (Inr i)
      let ?r = "newReference ?path"
      let ?m3 = "setReference i ?r ?m2"
      have fits: "map_of (mg_stores m1) i = None \<and> std_map.below (mapPut i ?r (mg_stores m1)) n"
        by (rule std_map.below_next [OF manager_okD(1, 2) [OF m1(1)]]) (use g Inr in simp)
      then have small: "i < n" using manager_okD(1) [OF m1(1)] by (auto simp: std_map.below_def)
      have m3: "manager_ok users {i} ?m3"
        by (rule newReference_ok [OF m2]) (use fits small fresh in auto)
      note evict = evictStore_ok [OF m3]
      have names: "rf_name q \<noteq> rf_name ?r" if "j \<noteq> i" "map_of (mg_stores (evictStore ?m3)) j = Some q" for j q
      proof -
        have "map_of (mg_stores ?m3) j = Some q" using evict that(2) by blast
        then have "map_of (mg_stores m1) j = Some q" using that(1) manager_okD(1) [OF m1(1)] by (simp add: setReference_def)
        then show ?thesis using fresh by (simp add: newReference_def)
      qed
      have u: "users i = {}" using manager_okD(5) [OF m1(1)] fits by blast
      have step: "useReference env session ?path alwaysCreate opening i i ?r (evictStore ?m3) = (res, m')"
        using c Some s None g Inr by (simp add: createOrOpenStore_def Let_def flip: m1_def)
      have e: "manager_ok users {i} (evictStore ?m3)" "i < mg_nextStoreId (evictStore ?m3)"
        using evict small by (simp_all add: setReference_def)
      have "mg_nextStoreId m' = mg_nextStoreId (evictStore ?m3) \<and>
          (case res of
             Inl e \<Rightarrow> manager_ok users {} m'
           | Inr k \<Rightarrow> k = i \<and> manager_ok (users(i := insert session (users i))) {} m')"
        by (rule useReference_ok [where X = "{i}" and r = ?r and path = ?path, OF e(1) _ e(2) env _ _ new few names step])
          (use u in simp_all)
      then show ?thesis by (auto split: sum.splits)
    qed
  qed
qed

text \<open>Closing a store that the session uses succeeds.\<close>

lemma closeStore_ok:
  assumes ok: "manager_ok users {} m" and uses: "session \<in> users i" and id: "session \<noteq> SERVER_SESSION_ID"
    and c: "closeStore env now session i m = (res, m')"
  shows "res = Inr () \<and> manager_ok (users(i := users i - {session})) {} m'"
proof -
  obtain r where r: "map_of (mg_stores m) i = Some r" using manager_okD(5) [OF ok, of i] uses by blast
  have "reference_ok (users i) r" by (rule manager_okD(3) [OF ok r]) simp
  then obtain st where st: "rf_store r = Some st" "references_ok st" "vs_referenceCount st \<noteq> 0" "set (vs_references st) = users i"
    and d: "\<not> rf_dormant r" using uses by (auto simp: reference_ok_def split: option.splits)
  have small: "i < mg_nextStoreId m" using manager_okD(2) [OF ok] r by (auto simp: std_map.below_def)
  have others: "rf_name q \<noteq> rf_name r" if "j \<noteq> i" "map_of (mg_stores m) j = Some q" for j q
    using manager_okD(6) [OF ok that(2) r] that(1) by blast
  obtain a st1 where a: "detach (me_closeSession env) (me_closeEncoder env) session st = (a, st1)" by fastforce
  have "\<exists>n. a = Inr n" using a st(3, 4) uses by (auto simp: detach_def findReference_def Let_def split: if_splits)
  then obtain n where n: "a = Inr n" by blast
  have st1: "references_ok st1" "vs_referenceCount st1 \<noteq> 0" "n = vs_referenceCount st1" "set (vs_references st1) = users i - {session}"
    using detach_ok [OF a st(2)] n id st(3, 4) by auto
  have last: "n = 1 \<longleftrightarrow> users i - {session} = {}"
  proof -
    have "unat n = Suc (length (vs_references st1))" using st1(1-3) by (auto simp: references_ok_def)
    moreover have "n = 1 \<longleftrightarrow> unat n = 1" using word_unat_eq_iff [of n 1] by (simp only: unat_1)
    ultimately show ?thesis using st1(4) by (metis One_nat_def Suc_inject length_0_conv set_empty)
  qed
  note set = setReference_ok [OF ok small, where U = "users i - {session}"]
  have keep: "manager_ok (users(i := users i - {session})) {} (setReference i (r\<lparr>rf_store := Some st1\<rparr>) m)" if "n \<noteq> 1"
    using set [of "r\<lparr>rf_store := Some st1\<rparr>"] st1 last that d others by (simp add: reference_ok_def)
  have sleep: "manager_ok (users(i := users i - {session})) {}
      (setReference i (r\<lparr>rf_store := Some st1, rf_dormant := True, rf_dormantTime := now\<rparr>) m)" if "n = 1"
    using set [of "r\<lparr>rf_store := Some st1, rf_dormant := True, rf_dormantTime := now\<rparr>"] st1 last that others
    by (simp add: reference_ok_def)
  have "releaseStore i m = releaseStore i (setReference i (r\<lparr>rf_store := Some st1, rf_dormant := True, rf_dormantTime := now\<rparr>) m)"
    using manager_okD(1) [OF ok] by (simp add: releaseStore_def setReference_def mapErase_put)
  then have drop: "manager_ok (users(i := users i - {session})) {} (releaseStore i m)" if "n = 1"
    using releaseStore_ok [OF sleep [OF that]] last that by simp
  show ?thesis using c r st(1) a n id keep sleep drop by (auto simp: closeStore_def split: if_splits)
qed

section \<open>Sessions\<close>

text \<open>The sessions that have a store open.\<close>

definition users :: "('b, 's, 'f) server \<Rightarrow> u32 \<Rightarrow> u32 set" where
  "users s k = {i. \<exists>x. map_of (sy_sessions s) i = Some x \<and> es_store x = Some k}"

definition session_ok :: "session \<Rightarrow> bool" where
  "session_ok x \<longleftrightarrow> es_isAlive x \<and> es_workers x \<noteq> [] \<and> unat (es_referenceCount x) = length (es_workers x)"

definition server_ok :: "('b, 's, 'f) server \<Rightarrow> bool" where
  "server_ok s \<longleftrightarrow>
     map_ok (sy_sessions s) \<and> std_map.below (sy_sessions s) (sy_nextSessionId s) \<and> sy_nextSessionId s \<le> SERVER_SESSION_ID \<and>
     (\<forall>i x. map_of (sy_sessions s) i = Some x \<longrightarrow> session_ok x) \<and>
     manager_ok (users s) {} (sy_manager s)"

lemma server_okD:
  assumes "server_ok s"
  shows "map_ok (sy_sessions s)" "std_map.below (sy_sessions s) (sy_nextSessionId s)" "manager_ok (users s) {} (sy_manager s)"
    and "map_of (sy_sessions s) i = Some x \<Longrightarrow> session_ok x"
    and "map_of (sy_sessions s) i = Some x \<Longrightarrow> i < SERVER_SESSION_ID"
  using assms unfolding server_ok_def by (auto simp: std_map.below_def)

lemma users_set:
  assumes "map_ok (sy_sessions s)"
  shows "users (setSession i x s) k = (if es_store x = Some k then insert i (users s k) else users s k - {i})"
  using assms by (auto simp: users_def setSession_def split: if_splits)

lemma users_simps [simp]: "users (s\<lparr>sy_manager := m\<rparr>) = users s" "users (s\<lparr>sy_nextSessionId := n\<rparr>) = users s"
  by (simp_all add: users_def fun_eq_iff)

lemma setSession_simps [simp]:
  "sy_manager (setSession i x s) = sy_manager s" "sy_nextSessionId (setSession i x s) = sy_nextSessionId s"
  "sy_sessions (setSession i x s) = mapPut i x (sy_sessions s)"
  by (simp_all add: setSession_def)

lemma few_users:
  assumes "server_ok s" and "map_of (sy_sessions s) i = Some x" and "es_store x = None"
  shows "i \<notin> users s k \<and> card (users s k) < 2 ^ 32 - 2"
proof -
  have "users s k \<subseteq> {..<SERVER_SESSION_ID} - {i}" using server_okD(5) [OF assms(1)] assms(2, 3) by (auto simp: users_def)
  then have "card (users s k) \<le> card ({..<SERVER_SESSION_ID} - {i})" by (intro card_mono) auto
  also have "\<dots> < card {..<SERVER_SESSION_ID}" using server_okD(5) [OF assms(1, 2)] by (intro card_Diff1_less) auto
  also have "card {..<SERVER_SESSION_ID} = 2 ^ 32 - 2"
  proof -
    have u: "unat SERVER_SESSION_ID = 2 ^ 32 - 2" by (simp add: SERVER_SESSION_ID_def INVALID_OBJECT_ID_def)
    have "unat ` {..<SERVER_SESSION_ID} = {..<unat SERVER_SESSION_ID}"
    proof (intro equalityI subsetI)
      fix n assume n: "n \<in> {..<unat SERVER_SESSION_ID}"
      then have "n < 2 ^ 32" using u by simp
      then have "unat (of_nat n :: u32) = n" by (simp add: unat_of_nat_small)
      then show "n \<in> unat ` {..<SERVER_SESSION_ID}" using n by (intro image_eqI [of _ _ "of_nat n"]) (auto simp: word_less_nat_alt)
    qed (auto simp: word_less_nat_alt)
    moreover have "inj_on (unat :: u32 \<Rightarrow> nat) {..<SERVER_SESSION_ID}" by (simp add: inj_on_def word_unat_eq_iff)
    ultimately have "card {..<SERVER_SESSION_ID} = unat SERVER_SESSION_ID" by (metis card_image card_lessThan)
    then show ?thesis using u by simp
  qed
  finally show ?thesis using assms(2, 3) by (auto simp: users_def)
qed

text \<open>A session that changes nothing but its store, and the manager that agrees with the change.\<close>

lemma server_ok_update:
  assumes ok: "server_ok s" and x: "map_of (sy_sessions s) i = Some x" and y: "session_ok y"
    and m: "manager_ok (users (setSession i y s)) {} m"
  shows "server_ok (setSession i y (s\<lparr>sy_manager := m\<rparr>))"
proof -
  have "i < sy_nextSessionId s" using server_okD(2) [OF ok] x by (auto simp: std_map.below_def)
  then have "std_map.below (mapPut i y (sy_sessions s)) (sy_nextSessionId s)"
    by (rule std_map.below_put [OF server_okD(1, 2) [OF ok]])
  moreover have "users (setSession i y (s\<lparr>sy_manager := m\<rparr>)) = users (setSession i y s)"
    by (simp add: users_def setSession_def fun_eq_iff)
  ultimately show ?thesis using ok y m by (auto simp: server_ok_def split: if_splits)
qed

lemma server_ok_manager: "server_ok s \<Longrightarrow> manager_ok (users s) {} m \<Longrightarrow> server_ok (s\<lparr>sy_manager := m\<rparr>)"
  by (simp add: server_ok_def)

lemma createSession_ok:
  assumes ok: "server_ok s" and few: "sy_nextSessionId s < SERVER_SESSION_ID" and c: "createSession version worker s = (r, s')"
  shows "server_ok s'"
proof -
  obtain g n where g: "getNextId (sy_nextSessionId s) = (g, n)" by fastforce
  have "sy_nextSessionId s \<noteq> - 1" using few by (auto simp: SERVER_SESSION_ID_def INVALID_OBJECT_ID_def)
  then have gn: "g = Inr (sy_nextSessionId s)" "n = sy_nextSessionId s + 1" using g by (auto simp: getNextId_def)
  show ?thesis
  proof (cases "sy_canCreateSession s")
    case True
    let ?x = "\<lparr>es_peerApiVersion = version, es_workers = [worker], es_referenceCount = 1, es_isAlive = True, es_store = None\<rparr>" and ?i = "sy_nextSessionId s"
    have fresh: "map_of (sy_sessions s) ?i = None \<and> std_map.below (mapPut ?i ?x (sy_sessions s)) n"
      by (rule std_map.below_next [OF server_okD(1, 2) [OF ok]]) (use g gn in simp)
    have s': "s' = setSession ?i ?x (s\<lparr>sy_nextSessionId := n\<rparr>)" using c True g gn by (simp add: createSession_def)
    have "?i \<notin> users s k" for k using fresh by (simp add: users_def)
    then have "users s' = users s" using s' users_set [of "s\<lparr>sy_nextSessionId := n\<rparr>" ?i ?x] server_okD(1) [OF ok]
      by (simp add: fun_eq_iff)
    moreover have "n \<le> SERVER_SESSION_ID" using few gn(2) inc_le by blast
    ultimately show ?thesis using ok s' fresh by (auto simp: server_ok_def session_ok_def split: if_splits)
  next
    case False
    then show ?thesis using c ok by (simp add: createSession_def)
  qed
qed

lemma session_update_ok:
  assumes ok: "server_ok s" and x: "map_of (sy_sessions s) i = Some x" and y: "session_ok y" and same: "es_store y = es_store x"
  shows "server_ok (setSession i y s)"
proof -
  have "users (setSession i y s) = users s"
    using users_set [OF server_okD(1) [OF ok], of i y] x same by (auto simp: fun_eq_iff users_def)
  then have "manager_ok (users (setSession i y s)) {} (sy_manager s)" using server_okD(3) [OF ok] by simp
  from server_ok_update [OF ok x y this] show ?thesis by simp
qed

lemma openLocalSession_ok:
  assumes ok: "server_ok s" and c: "openLocalSession version worker i s = (r, s')"
    and few: "\<And>x. map_of (sy_sessions s) i = Some x \<Longrightarrow> length (es_workers x) < 2 ^ 32 - 1"
  shows "server_ok s'"
proof (cases "map_of (sy_sessions s) i")
  case (Some x)
  have x: "session_ok x" by (rule server_okD(4) [OF ok Some])
  let ?y = "x\<lparr>es_workers := es_workers x @ [worker], es_referenceCount := es_referenceCount x + 1\<rparr>"
  have "unat (es_referenceCount x + 1) = Suc (unat (es_referenceCount x))"
    using x few [OF Some] by (simp add: session_ok_def unat_word_ariths)
  then have "session_ok ?y" using x by (simp add: session_ok_def)
  from session_update_ok [OF ok Some this] show ?thesis
    using c Some x ok by (auto simp: openLocalSession_def attachSession_def throwOn_def session_ok_def split: if_splits)
qed (use c ok in \<open>simp add: openLocalSession_def\<close>)

lemma sessionOpenStore_ok:
  assumes ok: "server_ok s" and env: "env_ok env" and c: "sessionOpenStore env specifier alwaysCreate opening i s = (r, s')"
  shows "server_ok s'"
proof (cases "map_of (sy_sessions s) i")
  case (Some x)
  show ?thesis
  proof (cases "es_store x \<noteq> None \<or> \<not> es_isAlive x")
    case False
    then have closed: "es_store x = None" by simp
    obtain res m where m: "createOrOpenStore env i specifier alwaysCreate opening (sy_manager s) = (res, m)" by fastforce
    note few = few_users [OF ok Some closed]
    have post: "case res of Inl e \<Rightarrow> manager_ok (users s) {} m
        | Inr k \<Rightarrow> manager_ok ((users s)(k := insert i (users s k))) {} m"
      by (rule createOrOpenStore_ok [OF server_okD(3) [OF ok] env _ _ m]) (use few in simp_all)
    show ?thesis
    proof (cases res)
      case (Inl e)
      then show ?thesis using c Some False m post server_ok_manager [OF ok] by (auto simp: sessionOpenStore_def)
    next
      case (Inr k)
      let ?y = "x\<lparr>es_store := Some k\<rparr>"
      have "users (setSession i ?y s) = (users s)(k := insert i (users s k))"
        using users_set [OF server_okD(1) [OF ok], of i ?y] few by (auto simp: fun_eq_iff)
      then have "manager_ok (users (setSession i ?y s)) {} m" using post Inr by simp
      moreover have "session_ok ?y" using server_okD(4) [OF ok Some] by (simp add: session_ok_def)
      ultimately have "server_ok (setSession i ?y (s\<lparr>sy_manager := m\<rparr>))" by (intro server_ok_update [OF ok Some])
      then show ?thesis using c Some False m Inr by (simp add: sessionOpenStore_def)
    qed
  qed (use c ok Some in \<open>simp add: sessionOpenStore_def\<close>)
qed (use c ok in \<open>simp add: sessionOpenStore_def\<close>)

text \<open>The store of a session can always be closed.\<close>

lemma closeSessionStore_ok:
  assumes ok: "server_ok s" and x: "map_of (sy_sessions s) i = Some x" and c: "closeSessionStore env now i x s = (r, s')"
  shows "r = Inr (x\<lparr>es_store := None\<rparr>) \<and> server_ok (setSession i (x\<lparr>es_store := None\<rparr>) s') \<and> sy_sessions s' = sy_sessions s"
proof (cases "es_store x")
  case None
  then have same: "x\<lparr>es_store := None\<rparr> = x" by simp
  show ?thesis unfolding same using None c session_update_ok [OF ok x server_okD(4) [OF ok x]]
    by (simp add: closeSessionStore_def)
next
  case (Some k)
  obtain res m where m: "closeStore env now i k (sy_manager s) = (res, m)" by fastforce
  have uses: "i \<in> users s k" using x Some by (simp add: users_def)
  have "i \<noteq> SERVER_SESSION_ID" using server_okD(5) [OF ok x] by blast
  from closeStore_ok [OF server_okD(3) [OF ok] uses this m]
  have post: "res = Inr ()" "manager_ok ((users s)(k := users s k - {i})) {} m" by simp_all
  let ?y = "x\<lparr>es_store := None\<rparr>"
  have other: "i \<notin> users s l" if "l \<noteq> k" for l using x Some that by (simp add: users_def)
  have "users (setSession i ?y s) = (users s)(k := users s k - {i})"
    using users_set [OF server_okD(1) [OF ok], of i ?y] other by (auto simp: fun_eq_iff)
  then have "manager_ok (users (setSession i ?y s)) {} m" using post by simp
  moreover have "session_ok ?y" using server_okD(4) [OF ok x] by (simp add: session_ok_def)
  ultimately have "server_ok (setSession i ?y (s\<lparr>sy_manager := m\<rparr>))" by (intro server_ok_update [OF ok x])
  then show ?thesis using c Some m post by (auto simp: closeSessionStore_def)
qed

lemma sessionCloseStore_ok:
  assumes ok: "server_ok s" and c: "sessionCloseStore env now i s = (r, s')"
  shows "server_ok s' \<and> (map_of (sy_sessions s) i \<noteq> None \<longrightarrow> r = Inr ())"
proof (cases "map_of (sy_sessions s) i")
  case (Some x)
  obtain r1 s1 where m: "closeSessionStore env now i x s = (r1, s1)" by fastforce
  have "es_isAlive x" using server_okD(4) [OF ok Some] by (simp add: session_ok_def)
  then show ?thesis using c Some m closeSessionStore_ok [OF ok Some m] by (auto simp: sessionCloseStore_def)
qed (use c ok in \<open>simp add: sessionCloseStore_def\<close>)

lemma releaseSession_ok:
  assumes ok: "server_ok s" and x: "map_of (sy_sessions s) i = Some x" and closed: "es_store x = None"
  shows "server_ok (s\<lparr>sy_sessions := mapErase i (sy_sessions s)\<rparr>)"
proof -
  have "users (s\<lparr>sy_sessions := mapErase i (sy_sessions s)\<rparr>) = users s"
    using x closed by (auto simp: users_def fun_eq_iff)
  then show ?thesis using ok by (auto simp: server_ok_def std_map.below_erase split: if_splits)
qed

lemma detachWorker_ok:
  assumes ok: "server_ok s" and c: "detachWorker env now worker i s = (r, s')"
  shows "server_ok s'"
proof (cases "map_of (sy_sessions s) i")
  case (Some x)
  have x: "session_ok x" by (rule server_okD(4) [OF ok Some])
  consider (no) "worker \<notin> set (es_workers x)" | (many) "worker \<in> set (es_workers x)" "1 < es_referenceCount x"
    | (last) "worker \<in> set (es_workers x)" "\<not> 1 < es_referenceCount x" by blast
  then show ?thesis
  proof cases
    case no
    then show ?thesis using c ok Some x by (simp add: detachWorker_def session_ok_def)
  next
    case many
    let ?y = "x\<lparr>es_workers := remove1 worker (es_workers x), es_referenceCount := es_referenceCount x - 1\<rparr>"
    have "es_referenceCount x \<noteq> 0" using many(2) by auto
    then have "unat (es_referenceCount x - 1) = length (remove1 worker (es_workers x))"
      using x many(1) by (simp add: unat_minus_one session_ok_def length_remove1)
    moreover have "1 < length (es_workers x)" using x many(2) by (simp add: session_ok_def word_less_nat_alt)
    then have "remove1 worker (es_workers x) \<noteq> []" using many(1) length_remove1 [of worker "es_workers x"] by auto
    ultimately have "session_ok ?y" using x by (simp add: session_ok_def)
    from session_update_ok [OF ok Some this] show ?thesis using c Some x many by (simp add: detachWorker_def session_ok_def)
  next
    case last
    obtain r1 s1 where m: "closeSessionStore env now i x s = (r1, s1)" by fastforce
    let ?y = "x\<lparr>es_store := None\<rparr>"
    have post: "r1 = Inr ?y" "server_ok (setSession i ?y s1)" "sy_sessions s1 = sy_sessions s"
      using closeSessionStore_ok [OF ok Some m] by simp_all
    have map: "map_ok (sy_sessions s1)" using post(3) server_okD(1) [OF ok] by simp
    have "server_ok ((setSession i ?y s1)\<lparr>sy_sessions := mapErase i (sy_sessions (setSession i ?y s1))\<rparr>)"
      by (rule releaseSession_ok [where x = ?y, OF post(2)]) (use map in simp_all)
    also have "(setSession i ?y s1)\<lparr>sy_sessions := mapErase i (sy_sessions (setSession i ?y s1))\<rparr> =
        s1\<lparr>sy_sessions := mapErase i (sy_sessions s1)\<rparr>"
      using map by (simp add: setSession_def mapErase_put)
    finally show ?thesis using c Some x last m post(1) by (simp add: detachWorker_def session_ok_def)
  qed
qed (use c ok in \<open>simp add: detachWorker_def\<close>)

section \<open>Reachable states of the server\<close>

text \<open>
  The requests of the clients in any order, with any results of the factory methods. Session ids are
  below that of the server session, and fewer than \<open>2\<^sup>3\<^sup>2 - 1\<close> threads work for a session.
\<close>

inductive server_reachable :: "('b, 's, 'f) manager_env \<Rightarrow> ('b, 's, 'f) server \<Rightarrow> bool" for env where
  started: "server_reachable env (newServer cache)"
| created: "server_reachable env s \<Longrightarrow> sy_nextSessionId s < SERVER_SESSION_ID \<Longrightarrow> createSession version worker s = (r, s') \<Longrightarrow>
    server_reachable env s'"
| attached: "server_reachable env s \<Longrightarrow>
    (\<And>x. map_of (sy_sessions s) i = Some x \<Longrightarrow> length (es_workers x) < 2 ^ 32 - 1) \<Longrightarrow>
    openLocalSession version worker i s = (r, s') \<Longrightarrow> server_reachable env s'"
| store_opened: "server_reachable env s \<Longrightarrow> sessionOpenStore env specifier alwaysCreate opening i s = (r, s') \<Longrightarrow>
    server_reachable env s'"
| store_closed: "server_reachable env s \<Longrightarrow> sessionCloseStore env now i s = (r, s') \<Longrightarrow> server_reachable env s'"
| detached: "server_reachable env s \<Longrightarrow> detachWorker env now worker i s = (r, s') \<Longrightarrow> server_reachable env s'"

lemma server_reachable_ok:
  assumes "server_reachable env s" and env: "env_ok env"
  shows "server_ok s"
  using assms(1)
proof induction
  case (started cache)
  show ?case by (simp add: server_ok_def newServer_def newStoreManager_def manager_ok_def std_map.below_def users_def)
qed (auto intro: createSession_ok openLocalSession_ok sessionOpenStore_ok [OF _ env] detachWorker_ok dest: sessionCloseStore_ok)

section \<open>The properties\<close>

text \<open>
  C21: in every reachable state of the server the store a session has open is attached to that session
  and to no other session than those that have it open; a store is kept as dormant exactly when no
  session uses it; the reference count of a store is one more than the number of its sessions; and no
  path has two stores. In particular no store is evicted, overwritten or released while it is in use.
\<close>

theorem server_stores_consistent:
  assumes "server_reachable env s" and "env_ok env"
  shows "{(i, k). \<exists>x. map_of (sy_sessions s) i = Some x \<and> es_store x = Some k} =
           {(i, k). \<exists>r st. map_of (mg_stores (sy_manager s)) k = Some r \<and> rf_store r = Some st \<and> i \<in> set (vs_references st)} \<and>
         {k. \<exists>r st. map_of (mg_stores (sy_manager s)) k = Some r \<and> rf_store r = Some st \<and>
             (rf_dormant r \<noteq> (vs_references st = []) \<or> unat (vs_referenceCount st) \<noteq> Suc (length (vs_references st)))} = {} \<and>
         inj_on (\<lambda>(k, r). rf_name r) (set (mg_stores (sy_manager s)))"
proof -
  have m: "manager_ok (users s) {} (sy_manager s)" by (rule server_okD(3) [OF server_reachable_ok [OF assms]])
  have ref: "reference_ok (users s k) r" if "map_of (mg_stores (sy_manager s)) k = Some r" for k r
    using manager_okD(3) [OF m that] by simp
  have st: "set (vs_references st) = users s k \<and> (rf_dormant r \<longleftrightarrow> vs_references st = []) \<and>
      unat (vs_referenceCount st) = Suc (length (vs_references st))"
    if "map_of (mg_stores (sy_manager s)) k = Some r" "rf_store r = Some st" for k r st
    using ref [OF that(1)] that(2) by (auto simp: reference_ok_def references_ok_def)
  have "\<exists>r st. map_of (mg_stores (sy_manager s)) k = Some r \<and> rf_store r = Some st" if used: "i \<in> users s k" for i k
  proof -
    obtain r where r: "map_of (mg_stores (sy_manager s)) k = Some r" using manager_okD(5) [OF m, of k] used by fastforce
    then show ?thesis using ref [OF r] used by (auto simp: reference_ok_def split: option.splits)
  qed
  then have "{(i, k). i \<in> users s k} = {(i, k). \<exists>r st. map_of (mg_stores (sy_manager s)) k = Some r \<and> rf_store r = Some st \<and> i \<in> set (vs_references st)}"
    using st by blast
  moreover have "{(i, k). i \<in> users s k} = {(i, k). \<exists>x. map_of (sy_sessions s) i = Some x \<and> es_store x = Some k}"
    by (auto simp: users_def)
  moreover have "inj_on (\<lambda>(k, r). rf_name r) (set (mg_stores (sy_manager s)))"
  proof (rule inj_onI, clarsimp)
    fix i r j q assume "(i, r) \<in> set (mg_stores (sy_manager s))" "(j, q) \<in> set (mg_stores (sy_manager s))" and n: "rf_name r = rf_name q"
    then have rq: "map_of (mg_stores (sy_manager s)) i = Some r" "map_of (mg_stores (sy_manager s)) j = Some q"
      using map_of_mem [OF manager_okD(1) [OF m]] by blast+
    then show "i = j \<and> r = q" using manager_okD(6) [OF m rq n] by simp
  qed
  ultimately show ?thesis using st by auto
qed

text \<open>A server with one store, which two sessions share, and a third session that is closed.\<close>

definition witness_env :: "(unit, unit, unit) manager_env" where
  "witness_env = \<lparr>me_makePath = (\<lambda>p. p), me_create = (\<lambda>_ _ _. Inr trivial_store), me_open = (\<lambda>_ _. Inl GenericException),
     me_closeSession = (\<lambda>_ x. x), me_closeEncoder = (\<lambda>x. x)\<rparr>"

definition witness_server :: "(unit, unit, unit) server" where
  "witness_server =
     (let s1 = snd (createSession 3 1 (newServer 3));
          s2 = snd (createSession 3 2 s1);
          s3 = snd (sessionOpenStore witness_env ''simtrace:a'' True False 0 s2);
          s4 = snd (sessionOpenStore witness_env ''simtrace:a'' False True 1 s3)
      in snd (sessionCloseStore witness_env 7 0 s4))"

lemma witness_env_ok: "env_ok witness_env"
  by (simp add: env_ok_def witness_env_def fresh_store_def trivial_store_def references_ok_def)

lemma witness_reachable: "server_reachable witness_env witness_server"
proof -
  have 1: "server_reachable witness_env (snd (createSession 3 1 (newServer 3)))"
    by (rule server_reachable.created [OF server_reachable.started [of _ 3] _ surjective_pairing])
      (simp add: newServer_def SERVER_SESSION_ID_def INVALID_OBJECT_ID_def word_gt_0)
  have 2: "server_reachable witness_env (snd (createSession 3 2 (snd (createSession 3 1 (newServer 3)))))"
    by (rule server_reachable.created [OF 1 _ surjective_pairing])
      (simp add: newServer_def createSession_def getNextId_def SERVER_SESSION_ID_def INVALID_OBJECT_ID_def word_less_nat_alt)
  show ?thesis unfolding witness_server_def Let_def
    by (intro server_reachable.store_closed [OF _ surjective_pairing] server_reachable.store_opened [OF _ surjective_pairing] 2)
qed

lemma witness_shared: "{(i, k). \<exists>x. map_of (sy_sessions witness_server) i = Some x \<and> es_store x = Some k} = {(1, 0)}"
proof -
  have "sy_sessions witness_server =
      [(0, \<lparr>es_peerApiVersion = 3, es_workers = [1], es_referenceCount = 1, es_isAlive = True, es_store = None\<rparr>),
       (1, \<lparr>es_peerApiVersion = 3, es_workers = [2], es_referenceCount = 1, es_isAlive = True, es_store = Some 0\<rparr>)]"
    by code_simp
  then show ?thesis by (auto split: if_splits)
qed

theorem server_stores_consistent_witness:
  "{(i, k). \<exists>r st. map_of (mg_stores (sy_manager witness_server)) k = Some r \<and> rf_store r = Some st \<and> i \<in> set (vs_references st)} = {(1, 0)}"
  using server_stores_consistent [OF witness_reachable witness_env_ok] witness_shared by simp

text \<open>The loop of the eviction counts the updates of the smallest time, not the dormant stores.\<close>

lemma evictLoop_no_update:
  "(\<And>i r. (i, r) \<in> set refs \<Longrightarrow> rf_dormant r \<Longrightarrow> t \<le> rf_dormantTime r) \<Longrightarrow> evictLoop refs (cnt, t, e) = (cnt, t, e)"
proof (induction refs)
  case (Cons a refs)
  obtain i r where a: "a = (i, r)" by fastforce
  have "\<not> (rf_dormant r \<and> rf_dormantTime r < t)" using Cons.prems [of i r] a by auto
  then show ?case using Cons a by auto
qed simp

lemma evictLoop_sorted:
  "sorted (map (\<lambda>(i, r). rf_dormantTime r) (filter (\<lambda>(i, r). rf_dormant r) refs)) \<Longrightarrow>
   fst (evictLoop refs (0, t, e)) \<le> 1"
proof (induction refs arbitrary: t e)
  case (Cons a refs)
  obtain i r where a: "a = (i, r)" by fastforce
  have later: "evictLoop refs (1, rf_dormantTime r, i) = (1, rf_dormantTime r, i)" if "rf_dormant r"
    by (rule evictLoop_no_update) (use Cons.prems that a in fastforce)
  have "sorted (map (\<lambda>(i, r). rf_dormantTime r) (filter (\<lambda>(i, r). rf_dormant r) refs))"
    using Cons.prems a by (auto split: if_splits)
  then show ?case using Cons.IH a later by auto
qed simp

text \<open>
  C32: when the dormant stores became dormant in the order they were opened in, opening a further store
  evicts none of them, however many there are and however small the cache limit is (unless it is 0).
\<close>

theorem dormant_stores_pile_up:
  assumes "sorted (map (\<lambda>(i, r). rf_dormantTime r) (filter (\<lambda>(i, r). rf_dormant r) (mg_stores m)))"
    and "mg_persistentCache m \<noteq> 0"
  shows "evictStore m = m"
proof -
  obtain cnt t e where l: "evictLoop (mg_stores m) (0, INVALID_TIME_STAMP, INVALID_STORE_ID) = (cnt, t, e)" by (metis prod_cases3)
  have "cnt \<le> 1" using evictLoop_sorted [OF assms(1), of INVALID_TIME_STAMP INVALID_STORE_ID] l by simp
  moreover have "1 \<le> mg_persistentCache m" using assms(2) by (metis word_gt_0 inc_le add_0)
  ultimately have "\<not> mg_persistentCache m < cnt" by (meson leD order_trans)
  then show ?thesis using l by (simp add: evictStore_def)
qed

definition full_manager :: "(unit, unit, unit) store_manager" where
  "full_manager = \<lparr>mg_persistentCache = 1, mg_nextStoreId = 3,
     mg_stores = map (\<lambda>i. (i, \<lparr>rf_name = replicate (Suc (unat i)) CHR ''a'', rf_store = Some trivial_store, rf_dormant = True,
                                rf_dormantTime = 100 + ucast i\<rparr>)) [0, 1, 2]\<rparr>"

theorem dormant_stores_pile_up_witness: "evictStore full_manager = full_manager"
  by (rule dormant_stores_pile_up) (simp_all add: full_manager_def)

end
