(* ===== verification/Trace_Codec.thy ===== *)
theory Trace_Codec
  imports Trace_System Server_Stream Work_Pool Store_Registry
begin

text \<open>
  What is in the frames: the data of a segment, compressed by the generic encoder
  (\<open>simtrace/Simtrace3GenericEncoder.cpp\<close>, \<open>libsimubase/Compression.cpp\<close>), and the description of a
  stream. The work items of the encoders (\<open>simtrace/Simtrace3Encoder.cpp\<close>), which write and read the
  segments, and the storage locations they make. The LZMA library is a parameter.
\<close>

section \<open>Compression\<close>

text \<open>
  \<open>LzmaCompress\<close> from a source to a destination of some capacity, which gives the properties and the
  compressed data, or an error; \<open>LzmaUncompress\<close> from data and properties to a destination of a size.
\<close>

record lzma =
  lz_compress :: "u8 list \<Rightarrow> nat \<Rightarrow> (u8 list \<times> u8 list) option"
  lz_uncompress :: "u8 list \<Rightarrow> u8 list \<Rightarrow> nat \<Rightarrow> u8 list option"

text \<open>
  What the documentation of the library promises: five bytes of properties, at least one byte of data
  and no more than there is room for; and what was compressed is decompressed.
\<close>

definition lzma_ok :: "lzma \<Rightarrow> bool" where
  "lzma_ok lz \<longleftrightarrow>
     (\<forall>src cap props out. lz_compress lz src cap = Some (props, out) \<longrightarrow>
        length props = 5 \<and> out \<noteq> [] \<and> length out \<le> cap \<and> lz_uncompress lz out props (length src) = Some src)"

definition totalHeaderSize :: nat where "totalHeaderSize = 5 + 8"

definition lzmaCompress :: "lzma \<Rightarrow> u8 list \<Rightarrow> nat \<Rightarrow> u8 list res" where
  "lzmaCompress lz source destinationLength =
     (if source = [] then Inl ArgumentException
      else if destinationLength \<le> totalHeaderSize then Inl ArgumentException
      else
        (case lz_compress lz source (destinationLength - totalHeaderSize) of
           None \<Rightarrow> Inl GenericException
         | Some (props, out) \<Rightarrow> Inr (le 8 (length source) @ props @ out)))"

definition lzmaDecompress :: "lzma \<Rightarrow> u8 list \<Rightarrow> nat \<Rightarrow> u8 list res" where
  "lzmaDecompress lz source destinationLength =
     (if length source \<le> totalHeaderSize then Inl ArgumentException
      else if destinationLength = 0 then Inl ArgumentException
      else if destinationLength < field source 0 8 then Inl GenericException
      else
        (case lz_uncompress lz (drop totalHeaderSize source) (take 5 (drop 8 source)) (field source 0 8) of
           None \<Rightarrow> Inl GenericException
         | Some out \<Rightarrow> Inr out))"

lemma lzma_length:
  assumes "lzma_ok lz" and "lzmaCompress lz src n = Inr bytes"
  shows "totalHeaderSize < length bytes \<and> length bytes \<le> n"
proof -
  obtain props out where o: "lz_compress lz src (n - totalHeaderSize) = Some (props, out)" "totalHeaderSize < n"
    and b: "bytes = le 8 (length src) @ props @ out"
    using assms(2) by (auto simp: lzmaCompress_def split: if_splits option.splits)
  have "length props = 5 \<and> out \<noteq> [] \<and> length out \<le> n - totalHeaderSize" using assms(1) o(1) unfolding lzma_ok_def by blast
  then show ?thesis using b o(2) by (auto simp: totalHeaderSize_def)
qed

lemma lzma_roundtrip:
  assumes ok: "lzma_ok lz" and c: "lzmaCompress lz src n = Inr bytes" and len: "length src < 2 ^ 64" "length src \<le> m"
  shows "lzmaDecompress lz bytes m = Inr src"
proof -
  obtain props out where o: "lz_compress lz src (n - totalHeaderSize) = Some (props, out)" and b: "bytes = le 8 (length src) @ props @ out"
    and ne: "src \<noteq> []" using c by (auto simp: lzmaCompress_def split: if_splits option.splits)
  have p: "length props = 5" "lz_uncompress lz out props (length src) = Some src" using ok o unfolding lzma_ok_def by blast+
  have "field bytes 0 8 = length src" using len(1) by (simp add: b field_def unle_le)
  moreover have "drop totalHeaderSize bytes = out" "take 5 (drop 8 bytes) = props" using p(1) by (simp_all add: b totalHeaderSize_def)
  moreover have "totalHeaderSize < length bytes" using lzma_length [OF ok c] by simp
  moreover have "m \<noteq> 0" using len(2) ne by (cases src) auto
  ultimately show ?thesis using p(2) len(2) by (simp add: lzmaDecompress_def)
qed

section \<open>The generic encoder\<close>

text \<open>
  \<open>_encode\<close>: \<open>scratch\<close> is the size of the scratch segment and \<open>segment\<close> the memory of the segment. The
  length of the source is a product of 32 bits.
\<close>

definition genericEncode :: "lzma \<Rightarrow> nat \<Rightarrow> u32 \<Rightarrow> SegmentControlElement \<Rightarrow> u8 list \<Rightarrow> frame \<Rightarrow> frame res" where
  "genericEncode lz scratch entrySize ctrl segment f =
     (let sourceLength = getEntrySize entrySize * ce_rawEntryCount ctrl in
      case lzmaCompress lz (take (unat sourceLength) segment) scratch of
        Inl e \<Rightarrow> Inl e
      | Inr bytes \<Rightarrow> addAttribute SatData (ucast sourceLength) (of_nat (length bytes)) bytes f)"

text \<open>A location is extended by the place of its frame in the file.\<close>

record sim3_location = StorageLocation +
  l3_offset :: u64
  l3_size :: u64

text \<open>
  \<open>_decode\<close>: the frame is read and then decoded; the result is what is written to the start of the
  segment.
\<close>

definition decodeFrame :: "lzma \<Rightarrow> nat \<Rightarrow> frame \<Rightarrow> u8 list res" where
  "decodeFrame lz segSize f =
     (case findAttribute SatData f of
        None \<Rightarrow> Inl GenericException
      | Some (ah, buffer) \<Rightarrow>
          if segSize < unat (ah_uncompressedSize ah) then Inl GenericException
          else lzmaDecompress lz (take (unat (ah_size ah)) buffer) segSize)"

definition decodeSegment :: "(frame \<Rightarrow> u8 list res) \<Rightarrow> sim3_location \<Rightarrow> sim3_store \<Rightarrow> u8 list res" where
  "decodeSegment decode location s =
     (case readFrame_public (l3_offset location) s of Inl e \<Rightarrow> Inl e | Inr (f, _) \<Rightarrow> decode f)"

definition INVALID_FILE_OFFSET :: u64 where "INVALID_FILE_OFFSET = - 1"

definition makeStorageLocation :: "frame \<Rightarrow> sim3_location" where
  "makeStorageLocation f =
     (let h = fr_header f in
      \<lparr>sl_link = \<lparr>ln_stream = fh_streamId h, ln_sequenceNumber = fh_sequenceNumber h\<rparr>,
       sl_ranges =
         \<lparr>ri_index =
            (if 0 < fh_entryCount h \<and> fh_startIndex h \<noteq> INVALID_ENTRY_INDEX
             then \<lparr>rg_start = fh_startIndex h, rg_end = fh_startIndex h + ucast (fh_entryCount h) - 1\<rparr>
             else invalidRange),
          ri_cycle = \<lparr>rg_start = fh_startCycle h, rg_end = fh_endCycle h\<rparr>,
          ri_time = \<lparr>rg_start = fh_startTime h, rg_end = fh_endTime h\<rparr>\<rparr>,
       sl_compressedSize = fh_totalSize h,
       sl_rawEntryCount = fh_rawEntryCount h,
       l3_offset = INVALID_FILE_OFFSET,
       l3_size = 0\<rparr>)"

section \<open>The work items of an encoder\<close>

text \<open>
  \<open>_writerMain\<close> for a stream with its id and type id, up to the completion; \<open>encode\<close> is the virtual
  \<open>_encode\<close> with the segment and the scratch memory. Without a location the encoding has failed.
\<close>

definition writerMain ::
  "(frame \<Rightarrow> frame res) \<Rightarrow> u32 \<times> Guid \<Rightarrow> SegmentControlElement \<Rightarrow> sim3_store \<Rightarrow> sim3_location option \<times> sim3_store" where
  "writerMain encode stream ctrl s =
     (case newFrame (Some stream) (Some ctrl) of
        Inl e \<Rightarrow> (None, s)
      | Inr f0 \<Rightarrow>
          (case encode f0 of
             Inl e \<Rightarrow> (None, s)
           | Inr f \<Rightarrow>
               (let location = makeStorageLocation f in
                case commitFrame f s of
                  (Inl e, s1) \<Rightarrow> (None, s1)
                | (Inr off, s1) \<Rightarrow>
                    (Some (location\<lparr>l3_offset := off, l3_size := fh_totalSize (fr_header f)\<rparr>), s1))))"

text \<open>The completion, which is in the scope of the exception handler.\<close>

definition writerComplete :: "u32 \<Rightarrow> sim3_location option \<Rightarrow> server_stream \<Rightarrow> unit res \<times> server_stream" where
  "writerComplete sqn result st =
     (case result of
        None \<Rightarrow> completeSegment_location sqn None st
      | Some location \<Rightarrow>
          (case completeSegment_location sqn (Some (StorageLocation.truncate location)) st of
             (Inr u, st1) \<Rightarrow> (Inr u, st1)
           | (Inl e, st1) \<Rightarrow> completeSegment_location sqn None st1))"

text \<open>\<open>_readerMain\<close> after \<open>_decode\<close>, with its result.\<close>

definition readerMain :: "unit res \<Rightarrow> u32 \<Rightarrow> u32 \<Rightarrow> server_stream \<Rightarrow> unit res \<times> server_stream" where
  "readerMain decoded flags sqn st =
     (let sync = isSet flags SafSynchronous in
      case decoded of
        Inl e \<Rightarrow> if sync then (Inl e, st) else completeSegment_location sqn None st
      | Inr _ \<Rightarrow>
          if sync then (Inr (), st)
          else
            (case completeSegment sqn st of
               (Inr u, st1) \<Rightarrow> (Inr u, st1)
             | (Inl e, st1) \<Rightarrow> completeSegment_location sqn None st1))"

definition writePriority :: "StreamDescriptor \<Rightarrow> nat" where
  "writePriority desc = (if isSet (sd_flags desc) SfHidden then High else Normal)"

definition readPriority :: "StreamDescriptor \<Rightarrow> bool \<Rightarrow> nat" where
  "readPriority desc prefetch =
     (if isSet (sd_flags desc) SfHidden then High else if prefetch then Low else Normal)"

section \<open>Facts about the encoder\<close>

definition segmentData :: "u32 \<Rightarrow> SegmentControlElement \<Rightarrow> u8 list \<Rightarrow> u8 list" where
  "segmentData entrySize ctrl segment = take (unat (getEntrySize entrySize) * unat (ce_rawEntryCount ctrl)) segment"

text \<open>A segment whose data has less than 4 GiB and is in the memory of the segment.\<close>

definition segment_fits :: "u32 \<Rightarrow> SegmentControlElement \<Rightarrow> u8 list \<Rightarrow> bool" where
  "segment_fits entrySize ctrl segment \<longleftrightarrow>
     unat (getEntrySize entrySize) * unat (ce_rawEntryCount ctrl) < 2 ^ 32 \<and>
     unat (getEntrySize entrySize) * unat (ce_rawEntryCount ctrl) \<le> length segment"

lemma sourceLength:
  "segment_fits entrySize ctrl segment \<Longrightarrow>
   unat (getEntrySize entrySize * ce_rawEntryCount ctrl) = unat (getEntrySize entrySize) * unat (ce_rawEntryCount ctrl)"
  by (simp add: segment_fits_def unat_word_ariths)

lemma newFrame_facts:
  assumes "newFrame (Some (sid, type)) control = Inr f"
  shows "fh_streamId (fr_header f) = sid" "fh_typeId (fr_header f) = type" "fr_attributes f = []"
    "unat (fh_totalSize (fr_header f)) = 120" "fh_attributeCount (fr_header f) = 0"
    "fh_sequenceNumber (fr_header f) =
       (case control of None \<Rightarrow> INVALID_STREAM_SEGMENT_ID | Some c \<Rightarrow> ln_sequenceNumber (ce_link c))"
  using assms by (auto simp: newFrame_def throwOn_def Let_def header_zero_def sizeof_FrameHeader_def split: option.splits)

lemma addAttribute_facts:
  assumes "addAttribute type un sz buffer f = Inr g"
  shows "fh_streamId (fr_header g) = fh_streamId (fr_header f)" "fh_typeId (fr_header g) = fh_typeId (fr_header f)"
    "fh_sequenceNumber (fr_header g) = fh_sequenceNumber (fr_header f)"
    "\<exists>ah. fr_attributes g = fr_attributes f @ [(ah, take (unat sz) buffer)] \<and> ah_type ah = type \<and> ah_size ah = sz \<and>
       ah_uncompressedSize ah = un"
    "fh_totalSize (fr_header g) = fh_totalSize (fr_header f) + (32 + sz)"
  using assms by (auto simp: addAttribute_def throwOn_def Let_def sizeof_AttributeHeader_def split: if_splits)

text \<open>A frame with one attribute.\<close>

lemma one_attribute_frame:
  assumes f0: "newFrame (Some (sid, type)) control = Inr f0" and f: "addAttribute ty un (of_nat (length bytes)) bytes f0 = Inr f"
    and id: "guid_ok type" "sid \<noteq> INVALID_STREAM_ID" and len: "length bytes \<le> 2 ^ 32"
  shows "committable f" "fh_streamId (fr_header f) = sid"
    "fh_sequenceNumber (fr_header f) =
       (case control of None \<Rightarrow> INVALID_STREAM_SEGMENT_ID | Some c \<Rightarrow> ln_sequenceNumber (ce_link c))"
    "\<exists>ah. fr_attributes f = [(ah, bytes)] \<and> ah_type ah = ty \<and> unat (ah_size ah) = length bytes \<and> ah_uncompressedSize ah = un"
    "unat (fh_totalSize (fr_header f)) = 152 + length bytes"
proof -
  note n = newFrame_facts [OF f0]
  note a = addAttribute_facts [OF f]
  have u: "unat (of_nat (length bytes) :: u64) = length bytes" by (rule unat_of_nat_small) (use len in simp)
  have "frame_built f0" by (rule newFrame_built [OF f0]) (use id in simp)
  then have "frame_built f" by (rule addAttribute_built [OF f]) (use u n(4) len in simp_all)
  then show "committable f" using a(1) n(1) id(2) by (simp add: committable_def)
  show "fh_streamId (fr_header f) = sid" using a(1) n(1) by simp
  show "fh_sequenceNumber (fr_header f) =
       (case control of None \<Rightarrow> INVALID_STREAM_SEGMENT_ID | Some c \<Rightarrow> ln_sequenceNumber (ce_link c))" using a(3) n(6) by simp
  show "\<exists>ah. fr_attributes f = [(ah, bytes)] \<and> ah_type ah = ty \<and> unat (ah_size ah) = length bytes \<and> ah_uncompressedSize ah = un"
    using a(4) n(3) u by auto
  have "unat (32 + of_nat (length bytes) :: u64) = 32 + length bytes" using u len by (simp add: unat_word_ariths)
  then show "unat (fh_totalSize (fr_header f)) = 152 + length bytes" using a(5) n(4) len by (simp add: unat_word_ariths)
qed

text \<open>The frame that the generic encoder makes for a segment.\<close>

lemma genericEncode_frame:
  assumes lz: "lzma_ok lz" and f0: "newFrame (Some (sid, type)) (Some ctrl) = Inr f0"
    and f: "genericEncode lz scratch entrySize ctrl segment f0 = Inr f" and id: "guid_ok type" "sid \<noteq> INVALID_STREAM_ID"
    and small: "scratch \<le> 2 ^ 32" and fits: "segment_fits entrySize ctrl segment"
  shows "committable f" "fh_streamId (fr_header f) = sid" "fh_sequenceNumber (fr_header f) = ln_sequenceNumber (ce_link ctrl)"
    "unat (fh_totalSize (fr_header f)) \<le> 152 + scratch"
    "\<exists>ah bytes. fr_attributes f = [(ah, bytes)] \<and> ah_type ah = SatData \<and> unat (ah_size ah) = length bytes \<and>
       unat (ah_uncompressedSize ah) = length (segmentData entrySize ctrl segment) \<and>
       lzmaCompress lz (segmentData entrySize ctrl segment) scratch = Inr bytes"
proof -
  let ?n = "getEntrySize entrySize * ce_rawEntryCount ctrl"
  have n: "take (unat ?n) segment = segmentData entrySize ctrl segment" "length (segmentData entrySize ctrl segment) = unat ?n"
    using sourceLength [OF fits] fits by (simp_all add: segmentData_def segment_fits_def)
  obtain bytes where b: "lzmaCompress lz (segmentData entrySize ctrl segment) scratch = Inr bytes"
    and add: "addAttribute SatData (ucast ?n) (of_nat (length bytes)) bytes f0 = Inr f"
    using f n by (auto simp: genericEncode_def Let_def split: sum.splits)
  have len: "length bytes \<le> scratch" using lzma_length [OF lz b] by simp
  then have small': "length bytes \<le> 2 ^ 32" using small by simp
  note one = one_attribute_frame [OF f0 add id small']
  show "committable f" "fh_streamId (fr_header f) = sid" "fh_sequenceNumber (fr_header f) = ln_sequenceNumber (ce_link ctrl)"
    using one(1-3) by simp_all
  show "unat (fh_totalSize (fr_header f)) \<le> 152 + scratch" using one(5) len by simp
  have "unat (ucast ?n :: u64) = unat ?n" by (rule unat_ucast_u64)
  then show "\<exists>ah bytes. fr_attributes f = [(ah, bytes)] \<and> ah_type ah = SatData \<and> unat (ah_size ah) = length bytes \<and>
       unat (ah_uncompressedSize ah) = length (segmentData entrySize ctrl segment) \<and>
       lzmaCompress lz (segmentData entrySize ctrl segment) scratch = Inr bytes"
    using one(4) b n(2) by auto
qed

text \<open>Decoding a frame with this attribute.\<close>

lemma decodeFrame_ok:
  assumes lz: "lzma_ok lz" and len: "length src < 2 ^ 64" "length src \<le> segSize"
    and one: "fr_attributes f = [(ah, bytes)]" "ah_type ah = SatData" "unat (ah_size ah) = length bytes"
      "unat (ah_uncompressedSize ah) = length src" "lzmaCompress lz src scratch = Inr bytes"
  shows "decodeFrame lz segSize f = Inr src"
  using lzma_roundtrip [OF lz one(5) len] one(1-4) len(2) by (simp add: decodeFrame_def findAttribute_def)

end
