(* ===== verification/Trace_Streams.thy ===== *)
theory Trace_Streams
  imports Trace_Codec
begin

text \<open>
  Streams of a Simtrace3 store: registering a stream writes a frame that describes it, segments are
  encoded and committed, and opening the file registers the streams again and adds their segments
  (\<open>_createStream\<close>, \<open>_openFrame\<close> and \<open>_openStream\<close> of \<open>simtrace/Simtrace3Store.cpp\<close>). What was written
  is what is opened: descriptions, storage locations, and the data of the segments.
\<close>

section \<open>Stream descriptors in memory\<close>

text \<open>
  \<open>StreamDescriptor\<close>: 256 bytes for the name, the flags, a reserved word, and the type with a name, an
  id, the flags, a reserved word, the entry size and a reserved word. The reserved words are 0.
\<close>

definition name_bytes :: "string \<Rightarrow> u8 list" where
  "name_bytes n = map (\<lambda>c. of_nat (of_char c)) n @ replicate (MAX_STREAM_NAME_LENGTH - length n) 0"

definition name_read :: "u8 list \<Rightarrow> string" where
  "name_read bs = map (\<lambda>b. char_of (unat b)) (takeWhile (\<lambda>b. b \<noteq> 0) (take MAX_STREAM_NAME_LENGTH bs))"

definition sizeof_StreamDescriptor :: nat where "sizeof_StreamDescriptor = 552"

definition descriptor_bytes :: "StreamDescriptor \<Rightarrow> u8 list" where
  "descriptor_bytes d =
     name_bytes (sd_name d) @ le 4 (unat (sd_flags d)) @ le 4 0 @
     name_bytes (ty_name (sd_type d)) @ guid_bytes (ty_id (sd_type d)) @
     le 4 (unat (ty_flags (sd_type d))) @ le 4 0 @ le 4 (unat (ty_entrySize (sd_type d))) @ le 4 0"

definition descriptor_read :: "u8 list \<Rightarrow> StreamDescriptor" where
  "descriptor_read bs =
     \<lparr>sd_name = name_read bs, sd_flags = of_nat (field bs 256 4),
      sd_type = \<lparr>ty_name = name_read (drop 264 bs), ty_id = guid_read bs 520,
                 ty_flags = of_nat (field bs 536 4), ty_entrySize = of_nat (field bs 544 4)\<rparr>\<rparr>"

text \<open>Names are terminated by a zero byte.\<close>

definition name_ok :: "string \<Rightarrow> bool" where
  "name_ok n \<longleftrightarrow> length n < MAX_STREAM_NAME_LENGTH \<and> CHR 0x00 \<notin> set n"

definition descriptor_ok :: "StreamDescriptor \<Rightarrow> bool" where
  "descriptor_ok d \<longleftrightarrow> name_ok (sd_name d) \<and> name_ok (ty_name (sd_type d)) \<and> guid_ok (ty_id (sd_type d))"

lemma name_length: "name_ok n \<Longrightarrow> length (name_bytes n) = 256"
  by (simp add: name_ok_def name_bytes_def MAX_STREAM_NAME_LENGTH_def)

lemma char_byte: "unat (of_nat (of_char c) :: u8) = of_char c"
  by (simp add: unat_of_nat)

lemma name_roundtrip:
  assumes "name_ok n"
  shows "name_read (name_bytes n @ bs) = n"
proof -
  let ?b = "map (\<lambda>c. of_nat (of_char c)) n :: u8 list"
  have "take 256 (name_bytes n @ bs) = name_bytes n" using name_length [OF assms] by simp
  moreover have "takeWhile (\<lambda>b. b \<noteq> 0) (name_bytes n) = ?b"
  proof -
    have "b \<noteq> 0" if b: "b \<in> set ?b" for b
    proof -
      obtain c where c: "c \<in> set n" "b = of_nat (of_char c)" using b by auto
      then have "c \<noteq> CHR 0x00" using assms by (auto simp: name_ok_def)
      then have "(of_char c :: nat) \<noteq> of_char (CHR 0x00)" using of_char_eqI by blast
      then have "(of_char c :: nat) \<noteq> 0" by simp
      then show ?thesis using c(2) char_byte [of c] by auto
    qed
    moreover have "replicate (MAX_STREAM_NAME_LENGTH - length n) (0 :: u8) \<noteq> []"
      using assms by (simp add: name_ok_def)
    ultimately show ?thesis unfolding name_bytes_def
      by (subst takeWhile_append2) (auto simp: takeWhile_eq_Nil_iff)
  qed
  ultimately show ?thesis by (simp add: name_read_def MAX_STREAM_NAME_LENGTH_def comp_def char_byte)
qed

lemma name_skip: "length xs \<le> off \<Longrightarrow> drop off (xs @ ys) = drop (off - length xs) ys"
  by simp

lemma descriptor_length: "descriptor_ok d \<Longrightarrow> length (descriptor_bytes d) = sizeof_StreamDescriptor"
  by (simp add: descriptor_bytes_def descriptor_ok_def name_length guid_length sizeof_StreamDescriptor_def)

lemma descriptor_roundtrip:
  assumes "descriptor_ok d"
  shows "descriptor_read (descriptor_bytes d @ bs) = d"
proof -
  have n: "length (name_bytes (sd_name d)) = 256" "length (name_bytes (ty_name (sd_type d))) = 256"
    "guid_ok (ty_id (sd_type d))" "length (guid_bytes (ty_id (sd_type d))) = 16"
    using assms by (simp_all add: descriptor_ok_def name_length guid_length)
  have names: "name_read (descriptor_bytes d @ bs) = sd_name d"
    "name_read (drop 264 (descriptor_bytes d @ bs)) = ty_name (sd_type d)"
    using assms name_roundtrip n by (simp_all add: descriptor_bytes_def descriptor_ok_def)
  show ?thesis
    by (intro StreamDescriptor.equality StreamTypeDescriptor.equality)
      (use names n in \<open>simp_all add: descriptor_read_def\<close>,
       simp_all add: descriptor_bytes_def field_rules n)
qed

section \<open>The encoders of the store\<close>

datatype encoder_kind = GenericEncoder | MemoryEncoder mem_type

definition methodMap :: "mem_type list" where
  "methodMap =
     [MemoryAccess32, MemoryAccess64, MemoryAccess32, MemoryAccess64, MemoryAccess32, MemoryAccess64,
      MemoryAccess32, MemoryAccess64, DataMemoryAccess32, DataMemoryAccess64, DataMemoryAccess32, DataMemoryAccess64,
      DataMemoryAccess32, DataMemoryAccess64, DataMemoryAccess32, DataMemoryAccess64]"

definition initializeEncoderMap ::
  "('b, 's, encoder_kind, 'z) server_store_scheme \<Rightarrow> ('b, 's, encoder_kind, 'z) server_store_scheme" where
  "initializeEncoderMap s =
     fold (\<lambda>(type, t). registerEncoder (ty_id type) (MemoryEncoder t)) (zip mastypeTable methodMap)
       (registerEncoder defaultEncoderTypeId GenericEncoder s)"

lemma registerEncoders:
  "vs_encoderMap (fold (\<lambda>(type, t). registerEncoder (ty_id type) (f t)) xs s) =
   rev (map (\<lambda>(type, t). (ty_id type, f t)) xs) @ vs_encoderMap s"
  by (induction xs arbitrary: s) (auto simp: registerEncoder_def)

lemma table_rows: "map (\<lambda>(type, t). unat (ty_entrySize type) = sizeof_entry t) (zip mastypeTable methodMap) = replicate 16 True"
  by code_simp

lemma rows_of_table:
  "distinct (map ty_id (map fst (zip mastypeTable methodMap)))" "map fst (zip mastypeTable methodMap) = mastypeTable"
  "defaultEncoderTypeId \<notin> ty_id ` set mastypeTable"
proof -
  have "length methodMap = 16" by (simp add: methodMap_def)
  then show m: "map fst (zip mastypeTable methodMap) = mastypeTable" by (simp add: mastypeTable_length)
  show "distinct (map ty_id (map fst (zip mastypeTable methodMap)))" unfolding m by (rule mastypeTable_distinct)
  have "defaultEncoderTypeId \<notin> set (map ty_id mastypeTable)" by code_simp
  then show "defaultEncoderTypeId \<notin> ty_id ` set mastypeTable" by simp
qed

lemma findEncoder_row:
  assumes "(type, t) \<in> set (zip mastypeTable methodMap)"
  shows "findEncoder (ty_id type) (initializeEncoderMap s) = Some (MemoryEncoder t)"
proof -
  let ?rows = "map (\<lambda>(type, t). (ty_id type, MemoryEncoder t)) (zip mastypeTable methodMap)"
  have keys: "map fst (rev ?rows) = rev (map ty_id (map fst (zip mastypeTable methodMap)))"
    by (simp add: rev_map comp_def case_prod_beta)
  then have "distinct (map fst (rev ?rows))" using rows_of_table(1) by simp
  moreover have "(ty_id type, MemoryEncoder t) \<in> set (rev ?rows)" using assms by force
  ultimately have "map_of (rev ?rows) (ty_id type) = Some (MemoryEncoder t)" by (rule map_of_is_SomeI)
  then show ?thesis by (simp add: findEncoder_def initializeEncoderMap_def registerEncoders map_add_Some_iff)
qed

lemma findEncoder_other:
  assumes "i \<notin> ty_id ` set mastypeTable"
  shows "findEncoder i (initializeEncoderMap s) = findEncoder i (registerEncoder defaultEncoderTypeId GenericEncoder s)"
proof -
  let ?rows = "map (\<lambda>(type, t). (ty_id type, MemoryEncoder t)) (zip mastypeTable methodMap)"
  have "fst ` set (rev ?rows) = ty_id ` set (map fst (zip mastypeTable methodMap))" by (force simp: image_iff)
  then have "map_of (rev ?rows) i = None" using assms unfolding rows_of_table(2) by (simp add: map_of_eq_None_iff)
  then show ?thesis by (simp add: findEncoder_def initializeEncoderMap_def registerEncoders map_add_def)
qed

section \<open>Registering a stream\<close>

text \<open>
  The frame 0 of a stream; \<open>initialize\<close> is what the encoder adds to it. The result is its offset.
\<close>

definition describeStream :: "(frame \<Rightarrow> frame res) \<Rightarrow> u32 \<Rightarrow> StreamDescriptor \<Rightarrow> sim3_store \<Rightarrow> u64 res \<times> sim3_store" where
  "describeStream initialize sid desc s =
     (case newFrame (Some (sid, ty_id (sd_type desc))) None of
        Inl e \<Rightarrow> (Inl e, s)
      | Inr f0 \<Rightarrow>
          (case addAttribute SatStreamDescription (of_nat sizeof_StreamDescriptor) (of_nat sizeof_StreamDescriptor)
                  (descriptor_bytes desc) f0 of
             Inl e \<Rightarrow> (Inl e, s)
           | Inr f1 \<Rightarrow>
               (case initialize f1 of
                  Inl e \<Rightarrow> (Inl e, s)
                | Inr f \<Rightarrow> commitFrame f s)))"

text \<open>\<open>_createStream\<close> on the registry of the server store and on the trace store.\<close>

definition createTraceStream ::
  "('b, 's, 'f) store_env \<Rightarrow> ('s stream_object \<Rightarrow> frame \<Rightarrow> frame res) \<Rightarrow> u32 \<Rightarrow> StreamDescriptor \<Rightarrow> u32 \<Rightarrow>
   ('b, 's, 'f) server_store \<times> sim3_store \<Rightarrow> 's stream_object res \<times> ('b, 's, 'f) server_store \<times> sim3_store" where
  "createTraceStream env initialize i desc buffer st =
     (case createStream env i desc buffer (fst st) of
        (Inl e, s) \<Rightarrow> (Inl e, s, snd st)
      | (Inr x, s) \<Rightarrow>
          if s3_loading (snd st) then (Inr x, s, snd st)
          else
            (case describeStream (initialize x) (so_id x) desc (snd st) of
               (Inl e, t) \<Rightarrow> (Inl e, s, t)
             | (Inr _, t) \<Rightarrow> (Inr x, s, t)))"

section \<open>Opening the streams\<close>

text \<open>
  What opening gets from outside: making streams, the encoder's reaction to the attributes of a frame
  0, and adding a stored segment to a stream.
\<close>

record ('b, 's, 'f) restore_env =
  re_env :: "('b, 's, 'f) store_env"
  re_initialize :: "u32 \<Rightarrow> (u8 \<times> u8 list) list \<Rightarrow> ('b, 's, 'f) server_store \<Rightarrow> ('b, 's, 'f) server_store res"
  re_addSegment :: "u32 \<Rightarrow> sim3_location \<Rightarrow> 's \<Rightarrow> 's res"

definition restoreStream ::
  "('b, 's, 'f) restore_env \<Rightarrow> u32 \<Rightarrow> StreamDescriptor \<Rightarrow> ('b, 's, 'f) server_store \<Rightarrow> ('b, 's, 'f) server_store res" where
  "restoreStream re sid desc s =
     (case createStream (re_env re) sid desc (if isSet (sd_flags desc) SfHidden then SERVER_BUFFER_ID else 0) s of
        (Inl e, _) \<Rightarrow> Inl e
      | (Inr x, s1) \<Rightarrow> Inr (addStream x s1))"

definition openTraceStream ::
  "('b, 's, 'f) restore_env \<Rightarrow> frame \<Rightarrow> ('b, 's, 'f) server_store \<Rightarrow> ('b, 's, 'f) server_store res" where
  "openTraceStream re f s =
     (case findAttribute SatStreamDescription f of
        None \<Rightarrow> Inl GenericException
      | Some (_, buffer) \<Rightarrow> restoreStream re (fh_streamId (fr_header f)) (descriptor_read buffer) s)"

definition restoreSegment ::
  "('b, 's, 'f) restore_env \<Rightarrow> sim3_location \<Rightarrow> ('b, 's, 'f) server_store \<Rightarrow> ('b, 's, 'f) server_store res" where
  "restoreSegment re location s =
     (case getStream (ln_stream (sl_link location)) s of
        Inl e \<Rightarrow> Inl e
      | Inr x \<Rightarrow>
          (case re_addSegment re (ln_sequenceNumber (sl_link location)) location (so_stream x) of
             Inl e \<Rightarrow> Inl e
           | Inr y \<Rightarrow> Inr (s\<lparr>sr_streams := mapPut (so_id x) (x\<lparr>so_stream := y\<rparr>) (sr_streams s)\<rparr>)))"

text \<open>\<open>_openFrame\<close> for an entry of a directory of the file.\<close>

definition attributeBytes :: "frame \<Rightarrow> (u8 \<times> u8 list) list" where
  "attributeBytes f = map (\<lambda>(a, b). (ah_type a, b)) (fr_attributes f)"

definition openFrame ::
  "('b, 's, 'f) restore_env \<Rightarrow> trace_file \<Rightarrow> FrameHeader \<times> u64 \<Rightarrow> ('b, 's, 'f) server_store \<Rightarrow> ('b, 's, 'f) server_store res" where
  "openFrame re file entry s =
     (case entry of (h, off) \<Rightarrow>
        if fh_sequenceNumber h = INVALID_STREAM_SEGMENT_ID then
          (case readFrame off \<lparr>s3_file = file, s3_readMode = False, s3_loading = True, s3_directory = None, s3_nextFrameIndex = 0\<rparr> of
             Inl e \<Rightarrow> Inl e
           | Inr (f, _) \<Rightarrow>
               throwOn (\<not> validateHash (fr_header f)) GenericException
                 (case (if findStream (fh_streamId h) s = None then openTraceStream re f s else Inr s) of
                    Inl e \<Rightarrow> Inl e
                  | Inr s1 \<Rightarrow> re_initialize re (fh_streamId h) (attributeBytes f) s1))
        else restoreSegment re ((makeStorageLocation (frame_of_header h))\<lparr>l3_offset := off, l3_size := fh_totalSize h\<rparr>) s)"

section \<open>The work on a store\<close>

text \<open>
  The writes on a store one after the other, as the lock of the store orders them: streams are
  described and segments written. The result lists those that succeeded; a segment has a location
  then. \<open>encode\<close> is the encoder, for the entry size of the stream type.
\<close>

datatype job =
    Describe u32 StreamDescriptor
  | Write u32 StreamTypeDescriptor SegmentControlElement "u8 list"

type_synonym encoder = "u32 \<Rightarrow> SegmentControlElement \<Rightarrow> u8 list \<Rightarrow> frame \<Rightarrow> frame res"

fun runJob :: "encoder \<Rightarrow> job \<Rightarrow> sim3_store \<Rightarrow> sim3_location option option \<times> sim3_store" where
  "runJob encode (Describe sid desc) s =
     (case describeStream Inr sid desc s of (Inl e, s1) \<Rightarrow> (None, s1) | (Inr _, s1) \<Rightarrow> (Some None, s1))"
| "runJob encode (Write sid type ctrl segment) s =
     (case writerMain (encode (ty_entrySize type) ctrl segment) (sid, ty_id type) ctrl s of
        (None, s1) \<Rightarrow> (None, s1)
      | (Some location, s1) \<Rightarrow> (Some (Some location), s1))"

fun runJobs :: "encoder \<Rightarrow> job list \<Rightarrow> sim3_store \<Rightarrow> (job \<times> sim3_location option) list \<times> sim3_store" where
  "runJobs encode [] s = ([], s)"
| "runJobs encode (j # js) s =
     (case runJob encode j s of
        (None, s1) \<Rightarrow> runJobs encode js s1
      | (Some r, s1) \<Rightarrow> (case runJobs encode js s1 of (rs, s2) \<Rightarrow> ((j, r) # rs, s2)))"

text \<open>What opening the file is meant to do: to register the streams and add the segments again.\<close>

fun restoreJob ::
  "('b, 's, 'f) restore_env \<Rightarrow> job \<times> sim3_location option \<Rightarrow> ('b, 's, 'f) server_store \<Rightarrow> ('b, 's, 'f) server_store res" where
  "restoreJob re (Describe sid desc, _) s =
     (case (if findStream sid s = None then restoreStream re sid desc s else Inr s) of
        Inl e \<Rightarrow> Inl e
      | Inr s1 \<Rightarrow> re_initialize re sid [(SatStreamDescription, descriptor_bytes desc)] s1)"
| "restoreJob re (Write _ _ _ _, Some location) s = restoreSegment re location s"
| "restoreJob re (Write _ _ _ _, None) s = Inr s"

fun restoreAll ::
  "('b, 's, 'f) restore_env \<Rightarrow> (job \<times> sim3_location option) list \<Rightarrow> ('b, 's, 'f) server_store \<Rightarrow> ('b, 's, 'f) server_store res" where
  "restoreAll re [] s = Inr s"
| "restoreAll re (r # rs) s = (case restoreJob re r s of Inl e \<Rightarrow> Inl e | Inr s1 \<Rightarrow> restoreAll re rs s1)"

section \<open>The interface of an encoder\<close>

text \<open>Jobs on valid streams; \<open>fits\<close> is what the encoder needs of a segment.\<close>

fun job_ok :: "(u32 \<Rightarrow> SegmentControlElement \<Rightarrow> u8 list \<Rightarrow> bool) \<Rightarrow> job \<Rightarrow> bool" where
  "job_ok fits (Describe sid desc) \<longleftrightarrow> sid \<noteq> INVALID_STREAM_ID \<and> descriptor_ok desc"
| "job_ok fits (Write sid type ctrl segment) \<longleftrightarrow>
     sid \<noteq> INVALID_STREAM_ID \<and> guid_ok (ty_id type) \<and> ln_sequenceNumber (ce_link ctrl) \<noteq> INVALID_STREAM_SEGMENT_ID \<and>
     fits (ty_entrySize type) ctrl segment"

text \<open>A result and the frame that was committed for it.\<close>

fun job_frame ::
  "(frame \<Rightarrow> u8 list res) \<Rightarrow> (u32 \<Rightarrow> SegmentControlElement \<Rightarrow> u8 list \<Rightarrow> u8 list) \<Rightarrow>
   job \<times> sim3_location option \<Rightarrow> frame \<times> u64 \<Rightarrow> bool" where
  "job_frame decode contents (Describe sid desc, r) (f, x) \<longleftrightarrow>
     r = None \<and> fh_streamId (fr_header f) = sid \<and> fh_sequenceNumber (fr_header f) = INVALID_STREAM_SEGMENT_ID \<and>
     descriptor_ok desc \<and> (\<exists>ah. fr_attributes f = [(ah, descriptor_bytes desc)] \<and> ah_type ah = SatStreamDescription)"
| "job_frame decode contents (Write sid type ctrl segment, r) (f, x) \<longleftrightarrow>
     r = Some ((makeStorageLocation f)\<lparr>l3_offset := x, l3_size := fh_totalSize (fr_header f)\<rparr>) \<and>
     fh_streamId (fr_header f) = sid \<and> fh_sequenceNumber (fr_header f) = ln_sequenceNumber (ce_link ctrl) \<and>
     ln_sequenceNumber (ce_link ctrl) \<noteq> INVALID_STREAM_SEGMENT_ID \<and>
     (\<forall>h y. decode \<lparr>fr_header = h, fr_attributes = fr_attributes f, fr_offset = y\<rparr> =
        Inr (contents (ty_entrySize type) ctrl segment))"

text \<open>
  What a store needs of the encoder of a stream, the virtual methods \<open>_encode\<close> and \<open>_decode\<close>: the
  frame keeps the stream and the sequence number, its size is bounded, and the frame with its
  attributes is decoded to the contents of the segment.
\<close>

locale segment_encoder =
  fixes valid :: "'e \<Rightarrow> bool"
    and encode :: "'e \<Rightarrow> encoder"
    and decode :: "'e \<Rightarrow> frame \<Rightarrow> u8 list res"
    and fits :: "'e \<Rightarrow> u32 \<Rightarrow> SegmentControlElement \<Rightarrow> u8 list \<Rightarrow> bool"
    and contents :: "u32 \<Rightarrow> SegmentControlElement \<Rightarrow> u8 list \<Rightarrow> u8 list"
  assumes encode_frame: "valid e \<Longrightarrow> newFrame (Some (sid, type)) (Some ctrl) = Inr f0 \<Longrightarrow>
      encode e entrySize ctrl segment f0 = Inr f \<Longrightarrow> guid_ok type \<Longrightarrow> sid \<noteq> INVALID_STREAM_ID \<Longrightarrow>
      fits e entrySize ctrl segment \<Longrightarrow>
      committable f \<and> fh_streamId (fr_header f) = sid \<and> fh_sequenceNumber (fr_header f) = ln_sequenceNumber (ce_link ctrl) \<and>
      unat (fh_totalSize (fr_header f)) \<le> 2 ^ 33"
    and decode_frame: "valid e \<Longrightarrow> newFrame (Some (sid, type)) (Some ctrl) = Inr f0 \<Longrightarrow>
      encode e entrySize ctrl segment f0 = Inr f \<Longrightarrow> guid_ok type \<Longrightarrow> sid \<noteq> INVALID_STREAM_ID \<Longrightarrow>
      fits e entrySize ctrl segment \<Longrightarrow>
      decode e \<lparr>fr_header = h, fr_attributes = fr_attributes f, fr_offset = x\<rparr> = Inr (contents entrySize ctrl segment)"
begin

lemma runJob_commits:
  assumes e: "valid e" and j: "job_ok (fits e) j" and run: "runJob (encode e) j s = (r, s')"
  shows "r = None \<and> s' = s \<or>
    (\<exists>f res. commitFrame f s = (res, s') \<and> committable f \<and> unat (fh_totalSize (fr_header f)) \<le> 2 ^ 33 \<and>
       (case res of Inl _ \<Rightarrow> r = None | Inr x \<Rightarrow> \<exists>l. r = Some l \<and> job_frame (decode e) contents (j, l) (f, x)))"
proof (cases j)
  case (Describe sid desc)
  have ok: "sid \<noteq> INVALID_STREAM_ID" "descriptor_ok desc" using j Describe by simp_all
  then have gid: "guid_ok (ty_id (sd_type desc))" by (simp add: descriptor_ok_def)
  have len: "of_nat sizeof_StreamDescriptor = (of_nat (length (descriptor_bytes desc)) :: u64)" using descriptor_length [OF ok(2)] by simp
  obtain f0 where f0: "newFrame (Some (sid, ty_id (sd_type desc))) None = Inr f0" by (simp add: newFrame_def throwOn_def Let_def)
  show ?thesis
  proof (cases "addAttribute SatStreamDescription (of_nat sizeof_StreamDescriptor) (of_nat sizeof_StreamDescriptor) (descriptor_bytes desc) f0")
    case (Inl x)
    then show ?thesis using run Describe f0 by (simp add: describeStream_def)
  next
    case (Inr f)
    obtain res s1 where c: "commitFrame f s = (res, s1)" by fastforce
    have "length (descriptor_bytes desc) \<le> 2 ^ 32" using descriptor_length [OF ok(2)] by (simp add: sizeof_StreamDescriptor_def)
    note one = one_attribute_frame [OF f0 Inr [unfolded len] gid ok(1) this]
    have "unat (fh_totalSize (fr_header f)) \<le> 2 ^ 33" using one(5) descriptor_length [OF ok(2)] by (simp add: sizeof_StreamDescriptor_def)
    moreover have "\<exists>ah. fr_attributes f = [(ah, descriptor_bytes desc)] \<and> ah_type ah = SatStreamDescription" using one(4) by blast
    ultimately show ?thesis by (intro disjI2 exI [of _ f] exI [of _ res])
        (use run Describe f0 Inr c one(1-3) ok(2) in \<open>auto simp: describeStream_def split: sum.splits\<close>)
  qed
next
  case (Write sid type ctrl segment)
  have ok: "sid \<noteq> INVALID_STREAM_ID" "guid_ok (ty_id type)" "ln_sequenceNumber (ce_link ctrl) \<noteq> INVALID_STREAM_SEGMENT_ID"
    "fits e (ty_entrySize type) ctrl segment" using j Write by simp_all
  obtain f0 where f0: "newFrame (Some (sid, ty_id type)) (Some ctrl) = Inr f0" by (simp add: newFrame_def throwOn_def Let_def)
  show ?thesis
  proof (cases "encode e (ty_entrySize type) ctrl segment f0")
    case (Inl x)
    then show ?thesis using run Write f0 by (simp add: writerMain_def)
  next
    case (Inr f)
    obtain res s1 where c: "commitFrame f s = (res, s1)" by fastforce
    note enc = encode_frame [OF e f0 Inr ok(2,1,4)]
    have dec: "decode e \<lparr>fr_header = h, fr_attributes = fr_attributes f, fr_offset = y\<rparr> = Inr (contents (ty_entrySize type) ctrl segment)"
      for h y by (rule decode_frame [OF e f0 Inr ok(2,1,4)])
    show ?thesis by (intro disjI2 exI [of _ f] exI [of _ res])
        (use run Write f0 Inr c enc dec ok(3) in \<open>auto simp: writerMain_def Let_def split: sum.splits\<close>)
  qed
qed

lemma runJobs_commits:
  "valid e \<Longrightarrow> \<forall>j\<in>set js. job_ok (fits e) j \<Longrightarrow> runJobs (encode e) js s = (rs, s') \<Longrightarrow>
   \<exists>fs l. commitAll fs s = (l, s') \<and> length fs \<le> length js \<and>
     (\<forall>f\<in>set fs. committable f \<and> unat (fh_totalSize (fr_header f)) \<le> 2 ^ 33) \<and>
     list_all2 (job_frame (decode e) contents) rs l"
proof (induction js arbitrary: s rs)
  case Nil
  have "commitAll [] s = ([], s)" by simp
  then show ?case using Nil by (intro exI [of _ "[]"]) simp
next
  case (Cons j js)
  obtain r s1 where r: "runJob (encode e) j s = (r, s1)" by fastforce
  obtain rs1 where rest: "runJobs (encode e) js s1 = (rs1, s')" and rs: "rs = (case r of None \<Rightarrow> rs1 | Some l \<Rightarrow> (j, l) # rs1)"
    using Cons.prems(3) r by (auto split: option.splits prod.splits)
  obtain fs l where IH: "commitAll fs s1 = (l, s')" "length fs \<le> length js"
    "\<forall>f\<in>set fs. committable f \<and> unat (fh_totalSize (fr_header f)) \<le> 2 ^ 33" "list_all2 (job_frame (decode e) contents) rs1 l"
    using Cons.IH [OF Cons.prems(1) _ rest] Cons.prems(2) by auto
  have "job_ok (fits e) j" using Cons.prems(2) by simp
  from runJob_commits [OF Cons.prems(1) this r] show ?case
  proof (elim disjE exE conjE)
    assume "r = None" "s1 = s"
    then show ?case using IH rs by (intro exI [of _ fs] exI [of _ l]) auto
  next
    fix f res
    assume f: "commitFrame f s = (res, s1)" "committable f" "unat (fh_totalSize (fr_header f)) \<le> 2 ^ 33"
      and res: "case res of Inl _ \<Rightarrow> r = None | Inr x \<Rightarrow> \<exists>l. r = Some l \<and> job_frame (decode e) contents (j, l) (f, x)"
    show ?case
    proof (cases res)
      case (Inl x)
      then have "commitAll (f # fs) s = (l, s')" "rs = rs1" using f(1) IH(1) res rs by simp_all
      then show ?thesis using IH f by (intro exI [of _ "f # fs"] exI [of _ l]) auto
    next
      case (Inr x)
      then have "commitAll (f # fs) s = ((f, x) # l, s')" using f(1) IH(1) by simp
      moreover have "list_all2 (job_frame (decode e) contents) rs ((f, x) # l)" using res Inr rs IH(4) by auto
      ultimately show ?thesis using IH f by (intro exI [of _ "f # fs"] exI [of _ "(f, x) # l"]) auto
    qed
  qed
qed

lemma run_history:
  assumes e: "valid e" and ok: "\<forall>j\<in>set js. job_ok (fits e) j" and run: "runJobs (encode e) js s0 = (rs, s)"
    and new: "createStore version budget = Inr s0" and few: "length js \<le> 1023 * 448"
  obtains fs l where "history version budget fs l s" "length fs \<le> length js" "list_all2 (job_frame (decode e) contents) rs l"
proof -
  obtain fs l where c: "commitAll fs s0 = (l, s)" "length fs \<le> length js"
    "\<forall>f\<in>set fs. committable f \<and> unat (fh_totalSize (fr_header f)) \<le> 2 ^ 33" "list_all2 (job_frame (decode e) contents) rs l"
    using runJobs_commits [OF e ok run] by blast
  have "spaceOf fs \<le> length fs * (2 ^ 33 + 131072)"
    using c(3) unfolding spaceOf_def by (induction fs) auto
  also have "\<dots> \<le> (1023 * 448) * (2 ^ 33 + 131072)" using c(2) few by (intro mult_le_mono1) simp
  finally have "4096 + spaceOf fs < 2 ^ 64" by simp
  then have "history version budget fs l s" using c few new by (simp add: history_def)
  then show thesis using that c by blast
qed

lemma committed_segments:
  assumes rel: "file_rel (data t) p dirs (logOf l)" and p: "p < 2 ^ 64" and t: "\<not> s3_loading t"
    and all: "list_all2 (job_frame (decode e) contents) rs l" and mem: "(Write sid type ctrl segment, Some loc) \<in> set rs"
  shows "decodeSegment (decode e) loc t = Inr (contents (ty_entrySize type) ctrl segment)"
proof -
  obtain i where i: "i < length rs" "rs ! i = (Write sid type ctrl segment, Some loc)" using mem by (auto simp: in_set_conv_nth)
  obtain f x where f: "l ! i = (f, x)" by fastforce
  have "job_frame (decode e) contents (rs ! i) (l ! i)" using list_all2_nthD [OF all i(1)] .
  then have m: "loc = (makeStorageLocation f)\<lparr>l3_offset := x, l3_size := fh_totalSize (fr_header f)\<rparr>"
    "decode e \<lparr>fr_header = h, fr_attributes = fr_attributes f, fr_offset = y\<rparr> = Inr (contents (ty_entrySize type) ctrl segment)" for h y
    using i f by simp_all
  have "i < length l" using i list_all2_lengthD [OF all] by simp
  then have "(f, x) \<in> set l" using f nth_mem by metis
  then have "(updateHash (fr_header f), fr_attributes f, x) \<in> set (logOf l)" by (force simp: logOf_def)
  from readFrame_ok [OF rel this p] show ?thesis using m t by (simp add: decodeSegment_def readFrame_public_def throwOn_def)
qed

lemma openAll_restores:
  assumes rel: "file_rel (tf_data file) p dirs log" and p: "p < 2 ^ 64" and sub: "set (logOf l) \<subseteq> set log"
    and all: "list_all2 (job_frame (decode e) contents) rs l"
  shows "openAll (openFrame re file) (map (\<lambda>(f, x). (updateHash (fr_header f), x)) l) c = restoreAll re rs c"
  using all sub
proof (induction rs l arbitrary: c rule: list_all2_induct)
  case (Cons r rs m l)
  obtain f x where m: "m = (f, x)" by fastforce
  let ?s = "\<lparr>s3_file = file, s3_readMode = False, s3_loading = True, s3_directory = None, s3_nextFrameIndex = 0\<rparr>"
  have in_log: "(updateHash (fr_header f), fr_attributes f, x) \<in> set log" using Cons.prems m by (auto simp: logOf_def)
  have rel': "file_rel (data ?s) p dirs log" using rel by simp
  note read = readFrame_ok [OF rel' in_log p]
  have u: "fh_sequenceNumber (updateHash (fr_header f)) = fh_sequenceNumber (fr_header f)"
    "fh_streamId (updateHash (fr_header f)) = fh_streamId (fr_header f)" by (simp_all add: updateHash_def)
  have "openFrame re file (updateHash (fr_header f), x) c = restoreJob re r c"
  proof (cases "fst r")
    case (Describe sid desc)
    then obtain ah where r: "r = (Describe sid desc, None)" "fh_streamId (fr_header f) = sid"
      "fh_sequenceNumber (fr_header f) = INVALID_STREAM_SEGMENT_ID" "descriptor_ok desc"
      "fr_attributes f = [(ah, descriptor_bytes desc)]" "ah_type ah = SatStreamDescription"
      using Cons.hyps(1) m by (cases r) auto
    show ?thesis using r read u updateHash_valid [of "fr_header f"] descriptor_roundtrip [OF r(4), of "[]"]
      by (cases "findStream sid c"; cases "restoreStream re sid desc c")
        (simp_all add: openFrame_def throwOn_def openTraceStream_def findAttribute_def attributeBytes_def)
  next
    case (Write sid type ctrl segment)
    then have r: "r = (Write sid type ctrl segment, Some ((makeStorageLocation f)\<lparr>l3_offset := x, l3_size := fh_totalSize (fr_header f)\<rparr>))"
      "fh_sequenceNumber (fr_header f) \<noteq> INVALID_STREAM_SEGMENT_ID" using Cons.hyps(1) m by (cases r; auto)+
    have "(makeStorageLocation (frame_of_header (updateHash (fr_header f))))\<lparr>l3_offset := x, l3_size := fh_totalSize (updateHash (fr_header f))\<rparr> =
        (makeStorageLocation f)\<lparr>l3_offset := x, l3_size := fh_totalSize (fr_header f)\<rparr>"
      by (simp add: makeStorageLocation_def frame_of_header_def updateHash_def Let_def)
    then show ?thesis using r u by (simp add: openFrame_def)
  qed
  then show ?case using Cons.IH Cons.prems m by (auto simp: logOf_def split: sum.splits)
qed simp

end

section \<open>The generic encoder\<close>

text \<open>An instance of the encoder: the library, the scratch memory and the size of a segment.\<close>

record generic_encoder =
  ge_lzma :: lzma
  ge_scratch :: nat
  ge_segmentSize :: nat

definition generic_valid :: "generic_encoder \<Rightarrow> bool" where
  "generic_valid e \<longleftrightarrow> lzma_ok (ge_lzma e) \<and> ge_scratch e \<le> 2 ^ 32"

definition generic_encode :: "generic_encoder \<Rightarrow> encoder" where
  "generic_encode e = genericEncode (ge_lzma e) (ge_scratch e)"

definition generic_decode :: "generic_encoder \<Rightarrow> frame \<Rightarrow> u8 list res" where
  "generic_decode e = decodeFrame (ge_lzma e) (ge_segmentSize e)"

text \<open>The data is in the memory of a segment, which has less than 4 GiB.\<close>

definition generic_fits :: "generic_encoder \<Rightarrow> u32 \<Rightarrow> SegmentControlElement \<Rightarrow> u8 list \<Rightarrow> bool" where
  "generic_fits e entrySize ctrl segment \<longleftrightarrow>
     segment_fits entrySize ctrl segment \<and> length segment \<le> ge_segmentSize e"

lemma generic_laws:
  assumes e: "generic_valid e" and f0: "newFrame (Some (sid, type)) (Some ctrl) = Inr f0"
    and f: "generic_encode e entrySize ctrl segment f0 = Inr f" and id: "guid_ok type" "sid \<noteq> INVALID_STREAM_ID"
    and fits: "generic_fits e entrySize ctrl segment"
  shows "committable f \<and> fh_streamId (fr_header f) = sid \<and> fh_sequenceNumber (fr_header f) = ln_sequenceNumber (ce_link ctrl) \<and> unat (fh_totalSize (fr_header f)) \<le> 2 ^ 33"
    and "generic_decode e \<lparr>fr_header = h, fr_attributes = fr_attributes f, fr_offset = x\<rparr> = Inr (segmentData entrySize ctrl segment)"
proof -
  have lz: "lzma_ok (ge_lzma e)" "ge_scratch e \<le> 2 ^ 32" using e by (simp_all add: generic_valid_def)
  have fit: "segment_fits entrySize ctrl segment" "length segment \<le> ge_segmentSize e" using fits by (simp_all add: generic_fits_def)
  note g = genericEncode_frame [OF lz(1) f0 f [unfolded generic_encode_def] id lz(2) fit(1)]
  show "committable f \<and> fh_streamId (fr_header f) = sid \<and> fh_sequenceNumber (fr_header f) = ln_sequenceNumber (ce_link ctrl) \<and> unat (fh_totalSize (fr_header f)) \<le> 2 ^ 33"
    using g(1-4) lz(2) by simp
  obtain ah bytes where b: "fr_attributes f = [(ah, bytes)]" "ah_type ah = SatData" "unat (ah_size ah) = length bytes"
    "unat (ah_uncompressedSize ah) = length (segmentData entrySize ctrl segment)"
    "lzmaCompress (ge_lzma e) (segmentData entrySize ctrl segment) (ge_scratch e) = Inr bytes" using g(5) by blast
  have len: "length (segmentData entrySize ctrl segment) \<le> ge_segmentSize e" "length (segmentData entrySize ctrl segment) < 2 ^ 64"
    using fit by (simp_all add: segmentData_def segment_fits_def)
  let ?g = "\<lparr>fr_header = h, fr_attributes = fr_attributes f, fr_offset = x\<rparr>"
  show "generic_decode e ?g = Inr (segmentData entrySize ctrl segment)"
    unfolding generic_decode_def
    by (rule decodeFrame_ok [where f = ?g, OF lz(1) len(2, 1) _ b(2, 3, 4, 5)]) (simp add: b(1))
qed

interpretation generic: segment_encoder generic_valid generic_encode generic_decode generic_fits segmentData
  by unfold_locales (rule generic_laws; assumption)+

section \<open>Writing to a disk with space\<close>

text \<open>All jobs succeed as long as the encoder does.\<close>

fun writable :: "encoder \<Rightarrow> job \<Rightarrow> bool" where
  "writable encode (Describe sid desc) \<longleftrightarrow> sid \<noteq> INVALID_STREAM_ID \<and> descriptor_ok desc"
| "writable encode (Write sid type ctrl segment) \<longleftrightarrow>
     sid \<noteq> INVALID_STREAM_ID \<and> guid_ok (ty_id type) \<and>
     (\<exists>f0 f ah b. newFrame (Some (sid, ty_id type)) (Some ctrl) = Inr f0 \<and> encode (ty_entrySize type) ctrl segment f0 = Inr f \<and>
        fr_attributes f = [(ah, b)] \<and> take (unat (ah_size ah)) b \<noteq> [] \<and> fh_streamId (fr_header f) = sid \<and>
        fh_typeId (fr_header f) = ty_id type)"

lemma runJob_succeeds:
  assumes u: "unlimited (s3_file s)" and m: "\<not> s3_readMode s" "\<not> s3_loading s" and w: "writable encode j"
  shows "\<exists>r s'. runJob encode j s = (Some r, s') \<and> unlimited (s3_file s') \<and> \<not> s3_readMode s' \<and> \<not> s3_loading s'"
proof (cases j)
  case (Describe sid desc)
  then have ok: "sid \<noteq> INVALID_STREAM_ID" "descriptor_ok desc" using w by simp_all
  let ?n = "of_nat sizeof_StreamDescriptor :: u64"
  obtain f0 where f0: "newFrame (Some (sid, ty_id (sd_type desc))) None = Inr f0" by (simp add: newFrame_def throwOn_def Let_def)
  have "fh_attributeCount (fr_header f0) = 0" by (rule newFrame_facts [OF f0])
  then obtain f where f: "addAttribute SatStreamDescription ?n ?n (descriptor_bytes desc) f0 = Inr f"
    by (simp add: addAttribute_def throwOn_def Let_def SIMTRACE_V3_FRAME_ATTRIBUTE_TABLE_SIZE_def)
  note a = addAttribute_facts [OF f] newFrame_facts [OF f0]
  obtain ah where one: "fr_attributes f = [(ah, descriptor_bytes desc)]" "ah_size ah = ?n"
    using a(4, 8) descriptor_length [OF ok(2)] by (auto simp: sizeof_StreamDescriptor_def)
  have ne: "\<forall>(a, b)\<in>set (fr_attributes f). take (unat (ah_size a)) b \<noteq> []"
    using one descriptor_length [OF ok(2)] by (auto simp: sizeof_StreamDescriptor_def)
  have id: "fh_streamId (fr_header f) \<noteq> INVALID_STREAM_ID" "guid_ok (fh_typeId (fr_header f))"
    using a(1, 2, 6, 7) ok by (auto simp: descriptor_ok_def)
  obtain x s' where c: "commitFrame f s = (Inr x, s')" "unlimited (s3_file s')"
    using commitFrame_succeeds [OF u m id(1) ne id(2)] by blast
  then show ?thesis using Describe f0 f commitFrame_modes [OF c(1)] by (simp add: describeStream_def)
next
  case (Write sid type ctrl segment)
  obtain f0 f ah b where f: "newFrame (Some (sid, ty_id type)) (Some ctrl) = Inr f0" "encode (ty_entrySize type) ctrl segment f0 = Inr f"
    "fr_attributes f = [(ah, b)]" "take (unat (ah_size ah)) b \<noteq> []" "fh_streamId (fr_header f) \<noteq> INVALID_STREAM_ID"
    "guid_ok (fh_typeId (fr_header f))" using w Write by auto
  have "\<forall>(a, b)\<in>set (fr_attributes f). take (unat (ah_size a)) b \<noteq> []" using f(3, 4) by simp
  from commitFrame_succeeds [OF u m f(5) this f(6)] obtain x s' where c: "commitFrame f s = (Inr x, s')" "unlimited (s3_file s')" by blast
  then show ?thesis using Write f(1, 2) commitFrame_modes [OF c(1)] by (simp add: writerMain_def Let_def)
qed

lemma runJobs_succeed:
  "unlimited (s3_file s) \<Longrightarrow> \<not> s3_readMode s \<Longrightarrow> \<not> s3_loading s \<Longrightarrow> \<forall>j\<in>set js. writable encode j \<Longrightarrow>
   map fst (fst (runJobs encode js s)) = js"
proof (induction js arbitrary: s)
  case (Cons j js)
  have "writable encode j" using Cons.prems(4) by simp
  from runJob_succeeds [OF Cons.prems(1-3) this] obtain r s1 where r: "runJob encode j s = (Some r, s1)"
    "unlimited (s3_file s1)" "\<not> s3_readMode s1" "\<not> s3_loading s1" by blast
  have "map fst (fst (runJobs encode js s1)) = js" by (rule Cons.IH [OF r(2-4)]) (use Cons.prems(4) in simp)
  then show ?case using r(1) by (cases "runJobs encode js s1") simp
qed simp

section \<open>Opening the file\<close>

lemma reopened_store:
  assumes "generic_valid e" and "createStore version budget = Inr s0" and "runJobs (generic_encode e) js s0 = (rs, s)"
    and "\<forall>j\<in>set js. job_ok (generic_fits e) j" and "length js \<le> 1023 * 448"
    and "file = s3_file (finalizeHeader v now s)" and "length js + 448 \<le> fuel"
  shows "fst (openStore (openFrame re file) fuel file c) = Some (restoreAll re rs c)"
proof -
  obtain fs l where h: "history version budget fs l s" "length fs \<le> length js" "list_all2 (job_frame (generic_decode e) segmentData) rs l"
    using generic.run_history [OF assms(1, 4, 3, 2, 5)] by blast
  obtain dirs where rel: "file_rel (data s) (writePos s) dirs (logOf l)" "length l \<le> length fs"
    using history_D [OF h(1)] by blast
  have p: "writePos s < 2 ^ 64" using unsigned_less [of "tf_writePos (s3_file s)", where 'a = nat] by simp
  have rel': "file_rel (tf_data file) (writePos s) dirs (logOf l)"
    using file_rel_quiet [OF rel(1) quiet_finalize] by (simp add: assms(6))
  have "length (logOf l) + 448 \<le> fuel" using rel(2) h(2) assms(7) by (simp add: logOf_def)
  from openStore_ok(1) [OF rel' this, of "openFrame re file" c]
  have "fst (openStore (openFrame re file) fuel file c) = Some (openAll (openFrame re file) (map (\<lambda>(f, x). (updateHash (fr_header f), x)) l) c)"
    by (simp add: entries_logOf)
  then show ?thesis using generic.openAll_restores [OF rel' p subset_refl h(3)] by simp
qed

section \<open>Properties\<close>



text \<open>
  In a new store the streams of every built-in memory type are encoded by the memory encoder for an
  entry structure of the size that the type says, and the streams of all other types by the generic
  encoder.
\<close>

theorem encoder_of_type:
  assumes "vs_encoderMap s = []"
  shows "(if i \<in> ty_id ` set mastypeTable
          then \<exists>type t. type \<in> set mastypeTable \<and> ty_id type = i \<and> unat (ty_entrySize type) = sizeof_entry t \<and>
                 getEncoderFactory i (initializeEncoderMap s) = Inr (MemoryEncoder t)
          else getEncoderFactory i (initializeEncoderMap s) = Inr GenericEncoder)"
proof (cases "i \<in> ty_id ` set mastypeTable")
  case True
  then obtain type where type: "type \<in> set mastypeTable" "ty_id type = i" by blast
  then have "type \<in> set (map fst (zip mastypeTable methodMap))" unfolding rows_of_table(2) by simp
  then obtain t where t: "(type, t) \<in> set (zip mastypeTable methodMap)" unfolding set_map by fastforce
  have "\<forall>b\<in>set (map (\<lambda>(type, t). unat (ty_entrySize type) = sizeof_entry t) (zip mastypeTable methodMap)). b"
    unfolding table_rows by simp
  then have "unat (ty_entrySize type) = sizeof_entry t" using t by auto
  moreover have "getEncoderFactory i (initializeEncoderMap s) = Inr (MemoryEncoder t)"
    using findEncoder_row [OF t, of s] type(2) by (simp add: getEncoderFactory_def)
  ultimately show ?thesis using True type by auto
next
  case False
  have d: "findEncoder defaultEncoderTypeId (registerEncoder defaultEncoderTypeId GenericEncoder s) = Some GenericEncoder"
    by (simp add: findEncoder_def registerEncoder_def)
  have "findEncoder i (registerEncoder defaultEncoderTypeId GenericEncoder s) =
      (if i = defaultEncoderTypeId then Some GenericEncoder else None)"
    using assms by (simp add: findEncoder_def registerEncoder_def)
  then show ?thesis using False findEncoder_other [OF False, of s] findEncoder_other [OF rows_of_table(3), of s] d
    by (simp add: getEncoderFactory_def)
qed

section \<open>A concrete store\<close>

text \<open>An encoder with a library that copies, a stream of 32-bit numbers and a segment with two of them.\<close>

definition copy_lzma :: lzma where
  "copy_lzma = \<lparr>lz_compress = (\<lambda>src cap. if length src < cap then Some (replicate 5 0, 0 # src) else None),
     lz_uncompress = (\<lambda>out props n. Some (tl out))\<rparr>"

definition copy_encoder :: generic_encoder where
  "copy_encoder = \<lparr>ge_lzma = copy_lzma, ge_scratch = 64, ge_segmentSize = 16\<rparr>"

definition desc7 :: StreamDescriptor where
  "desc7 = \<lparr>sd_name = ''numbers'', sd_flags = 0, sd_type = \<lparr>ty_name = ''number'', ty_id = guid7, ty_flags = 0, ty_entrySize = 4\<rparr>\<rparr>"

definition ctrl7 :: SegmentControlElement where
  "ctrl7 = control_zero\<lparr>ce_link := \<lparr>ln_stream = 7, ln_sequenceNumber = 0\<rparr>, ce_entryCount := 2, ce_rawEntryCount := 2\<rparr>"

definition segment7 :: "u8 list" where
  "segment7 = [1, 0, 0, 0, 2, 0, 0, 0, 9, 9, 9, 9, 9, 9, 9, 9]"

definition jobs7 :: "job list" where
  "jobs7 = [Describe 7 desc7, Write 7 (sd_type desc7) ctrl7 segment7]"

lemma data7: "segmentData (ty_entrySize (sd_type desc7)) ctrl7 segment7 = [1, 0, 0, 0, 2, 0, 0, 0]"
  by code_simp

lemma copy_valid: "generic_valid copy_encoder"
  by (auto simp: generic_valid_def lzma_ok_def copy_encoder_def copy_lzma_def split: if_splits)

lemma fits7: "generic_fits copy_encoder (ty_entrySize (sd_type desc7)) ctrl7 segment7"
proof -
  have "unat (getEntrySize (ty_entrySize (sd_type desc7))) * unat (ce_rawEntryCount ctrl7) = 8" by code_simp
  then show ?thesis by (simp add: generic_fits_def segment_fits_def segment7_def copy_encoder_def)
qed

lemma guid7_ok: "guid_ok guid7"
  by (simp add: guid7_def guid_ok_def)

lemma desc7_ok: "descriptor_ok desc7"
  by (simp add: descriptor_ok_def desc7_def name_ok_def guid7_ok MAX_STREAM_NAME_LENGTH_def)

lemma jobs7_ok: "\<forall>j\<in>set jobs7. job_ok (generic_fits copy_encoder) j"
  using fits7 desc7_ok guid7_ok by (simp add: jobs7_def INVALID_OBJECT_ID_def ctrl7_def desc7_def)

lemma encode7:
  obtains f0 f ah b where "newFrame (Some (7, guid7)) (Some ctrl7) = Inr f0" "generic_encode copy_encoder 4 ctrl7 segment7 f0 = Inr f"
    "fr_attributes f = [(ah, b)]" "take (unat (ah_size ah)) b \<noteq> []" "fh_streamId (fr_header f) = 7" "fh_typeId (fr_header f) = guid7"
proof -
  have "\<exists>f0 f. newFrame (Some (7, guid7)) (Some ctrl7) = Inr f0 \<and> generic_encode copy_encoder 4 ctrl7 segment7 f0 = Inr f"
  proof -
    obtain f0 where f0: "newFrame (Some (7, guid7)) (Some ctrl7) = Inr f0" by (simp add: newFrame_def throwOn_def Let_def)
    have "lzmaCompress copy_lzma (take (unat (getEntrySize 4 * ce_rawEntryCount ctrl7)) segment7) 64 =
        Inr [8, 0, 0, 0, 0, 0, 0, 0, 0, 0, 0, 0, 0, 0, 1, 0, 0, 0, 2, 0, 0, 0]"
      by code_simp
    moreover have "fh_attributeCount (fr_header f0) = 0" by (rule newFrame_facts [OF f0])
    ultimately show ?thesis using f0
      by (auto simp: generic_encode_def genericEncode_def copy_encoder_def addAttribute_def throwOn_def Let_def
        SIMTRACE_V3_FRAME_ATTRIBUTE_TABLE_SIZE_def)
  qed
  then obtain f0 f where f: "newFrame (Some (7, guid7)) (Some ctrl7) = Inr f0" "generic_encode copy_encoder 4 ctrl7 segment7 f0 = Inr f" by blast
  have fits: "generic_fits copy_encoder 4 ctrl7 segment7" using fits7 by (simp add: desc7_def)
  note g = genericEncode_frame [OF _ f(1) f(2) [unfolded generic_encode_def] guid7_ok]
  have lz: "lzma_ok (ge_lzma copy_encoder)" using copy_valid by (simp add: generic_valid_def)
  obtain ah b where b: "fr_attributes f = [(ah, b)]" "unat (ah_size ah) = length b" "lzmaCompress (ge_lzma copy_encoder) (segmentData 4 ctrl7 segment7) 64 = Inr b"
    using g(5) [OF lz] fits by (auto simp: copy_encoder_def generic_fits_def INVALID_OBJECT_ID_def)
  have "b \<noteq> []" using lzma_length [OF lz b(3)] by auto
  then show thesis
    using that f b fits g(2) [OF lz] newFrame_facts(2) [OF f(1)] addAttribute_facts(2) [of SatData]
    by (auto simp: generic_encode_def genericEncode_def Let_def copy_encoder_def generic_fits_def INVALID_OBJECT_ID_def split: sum.splits)
qed

definition written7 :: "(job \<times> sim3_location option) list \<times> sim3_store" where
  "written7 = runJobs (generic_encode copy_encoder) jobs7 (store7 None)"

definition file7 :: trace_file where
  "file7 = s3_file (finalizeHeader 1 0 (snd written7))"

lemma written7_results:
  obtains loc where "fst written7 = [(Describe 7 desc7, None), (Write 7 (sd_type desc7) ctrl7 segment7, Some loc)]"
    "sl_link loc = \<lparr>ln_stream = 7, ln_sequenceNumber = 0\<rparr>"
proof -
  have new: "createStore 1 None = Inr (store7 None)" by (rule createStore_succeeds) simp
  have w: "\<forall>j\<in>set jobs7. writable (generic_encode copy_encoder) j"
    using encode7 desc7_ok guid7_ok by (simp add: jobs7_def INVALID_OBJECT_ID_def desc7_def) metis
  have "map fst (fst written7) = jobs7" unfolding written7_def
    by (rule runJobs_succeed [OF createStore_unlimited [OF new] _ _ w]) (use createStore_ok [OF new] in simp_all)
  then obtain r1 r2 where r: "fst written7 = [(Describe 7 desc7, r1), (Write 7 (sd_type desc7) ctrl7 segment7, r2)]"
    by (auto simp: jobs7_def map_eq_Cons_conv)
  have "runJobs (generic_encode copy_encoder) jobs7 (store7 None) = (fst written7, snd written7)" by (simp add: written7_def)
  from generic.runJobs_commits [OF copy_valid jobs7_ok this] obtain l where
    "list_all2 (job_frame (generic_decode copy_encoder) segmentData) (fst written7) l" by blast
  then obtain f x where "r1 = None" "r2 = Some ((makeStorageLocation f)\<lparr>l3_offset := x, l3_size := fh_totalSize (fr_header f)\<rparr>)"
    "fh_streamId (fr_header f) = 7" "fh_sequenceNumber (fr_header f) = ln_sequenceNumber (ce_link ctrl7)"
    using r by (auto simp: list_all2_Cons1)
  then show thesis using r that by (simp add: makeStorageLocation_def ctrl7_def Let_def)
qed

text \<open>Opening it with streams that record their segments.\<close>

type_synonym recorder = "(u32 \<times> sim3_location) list"

definition recorder_env :: "(unit, recorder, unit) restore_env" where
  "recorder_env =
     \<lparr>re_env = \<lparr>se_newBuffer = (\<lambda>_ _ _. Inr ()), se_segmentSize = (\<lambda>_. 2 ^ 26), se_poolSegmentSize = 2 ^ 26,
                 se_newStream = (\<lambda>_ _ _ _. Inr [])\<rparr>,
      re_initialize = (\<lambda>_ _ s. Inr s), re_addSegment = (\<lambda>sqn loc l. Inr (l @ [(sqn, loc)]))\<rparr>"

definition recorder_store :: "(unit, recorder, unit) server_store" where
  "recorder_store = \<lparr>sr_id = 0, sr_name = ''a'', sr_configurationLocked = False, sr_numRegularStreams = 0, sr_numDynamicStreams = 0,
     sr_buffers = [(0, ())], sr_streams = [], vs_referenceCount = 1, vs_references = [], vs_nextBufferId = 1, vs_nextStreamId = 0,
     vs_encoderMap = [(defaultEncoderTypeId, ())]\<rparr>"

lemma recorder_restores:
  assumes "sl_link loc = \<lparr>ln_stream = 7, ln_sequenceNumber = 0\<rparr>"
  shows "\<exists>c'. restoreAll recorder_env [(Describe 7 desc7, None), (Write 7 (sd_type desc7) ctrl7 segment7, Some loc)] recorder_store = Inr c' \<and>
    sr_streams c' = [(7, \<lparr>so_id = 7, so_desc = desc7, so_bufferId = 0, so_stream = [(0, loc)]\<rparr>)]"
proof -
  have new: "newStream 7 desc7 (2 ^ 26) = Inr desc7"
  proof -
    have "getEntrySize 4 = 4" "\<not> isVariableEntrySize 4" "\<not> isSet 0 StfTemporalOrder" by code_simp+
    then show ?thesis by (simp add: newStream_def desc7_def MAX_STREAM_NAME_LENGTH_def throwOn_def INVALID_OBJECT_ID_def)
  qed
  have flags: "\<not> isSet 0 SfHidden" "\<not> isSet 0 SfDynamic" by (simp_all add: isSet_def SfHidden_def SfDynamic_def)
  have "createStream (re_env recorder_env) 7 desc7 0 recorder_store =
      (Inr \<lparr>so_id = 7, so_desc = desc7, so_bufferId = 0, so_stream = []\<rparr>, recorder_store\<lparr>vs_nextStreamId := 8\<rparr>)"
    using new by (simp add: createStream_def recorder_env_def recorder_store_def makeServerStream_def SERVER_BUFFER_ID_def
      INVALID_OBJECT_ID_def stealId_def getEncoderFactory_def findEncoder_def)
  then have "restoreStream recorder_env 7 desc7 recorder_store =
      Inr (addStream \<lparr>so_id = 7, so_desc = desc7, so_bufferId = 0, so_stream = []\<rparr> (recorder_store\<lparr>vs_nextStreamId := 8\<rparr>))"
    using flags by (simp add: restoreStream_def desc7_def)
  then show ?thesis using assms flags
    by (simp add: findStream_def getStream_def restoreSegment_def addStream_def Let_def recorder_store_def recorder_env_def
      desc7_def mapPut.simps)
qed



definition fresh_encoders :: "(unit, unit, encoder_kind) server_store" where
  "fresh_encoders = \<lparr>sr_id = 0, sr_name = ''a'', sr_configurationLocked = False, sr_numRegularStreams = 0, sr_numDynamicStreams = 0,
     sr_buffers = [], sr_streams = [], vs_referenceCount = 1, vs_references = [], vs_nextBufferId = 0, vs_nextStreamId = 0,
     vs_encoderMap = []\<rparr>"

theorem encoder_of_type_witness: "getEncoderFactory guid7 (initializeEncoderMap fresh_encoders) = Inr GenericEncoder"
proof -
  have "guid7 \<notin> set (map ty_id mastypeTable)" by code_simp
  then show ?thesis using encoder_of_type [of fresh_encoders guid7] by (simp add: fresh_encoders_def)
qed

end
