(* ===== verification/Client_Stream.thy ===== *)
theory Client_Stream
  imports Stream_Buffer Server_Stream Variable_Entry
begin

text \<open>
  Streams on the side of the client: the handles of static and dynamic streams
  (\<open>libsimutrace/ClientStream.cpp\<close>, \<open>StaticStream.cpp\<close>, \<open>DynamicStream.cpp\<close>), the functions of the
  interface that use them (\<open>libsimutrace/SimuTrace.cpp\<close>) and the inline functions that step through
  the entries (\<open>include/SimuTrace.h\<close>). Pointers are 64-bit addresses, 0 is \<open>NULL\<close>; a stream handle
  is the number of its descriptor. The replies of the server are arguments.
\<close>

section \<open>Handles\<close>

definition SsfNone :: u32 where "SsfNone = 0"
definition SsfRead :: u32 where "SsfRead = 1"
definition SsfDynamic :: u32 where "SsfDynamic = 2"

text \<open>
  \<open>StreamStateDescriptor\<close>; the control element is given by the segment it belongs to, and the user
  data of a dynamic stream by its address.
\<close>

record handle =
  hd_flags :: u32
  hd_accessFlags :: u32
  hd_entrySize :: u32
  hd_segment :: u32
  hd_sequenceNumber :: u32
  hd_control :: "u32 option"
  hd_userData :: u64
  hd_segmentStart :: u64
  hd_segmentEnd :: u64
  hd_entry :: u64

definition newHandle :: handle where
  "newHandle =
     \<lparr>hd_flags = 0, hd_accessFlags = 0, hd_entrySize = 0, hd_segment = 0, hd_sequenceNumber = 0, hd_control = None,
      hd_userData = 0, hd_segmentStart = 0, hd_segmentEnd = 0, hd_entry = 0\<rparr>"

text \<open>
  A stream of the client with the stream buffer, which is mapped at an address and shared with the
  server or a copy (\<open>isMaster\<close>), the control elements of its segments, the memory, the segments that
  were handed to the server (sent as payload, or in the shared memory), and the descriptors of
  the handles: the write handle and the read handles.
\<close>

record client_stream =
  ct_entrySize :: u32
  ct_buffer :: stream_buffer
  ct_base :: u64
  ct_isMaster :: bool
  ct_control :: "u32 \<Rightarrow> SegmentControlElement"
  ct_memory :: "u64 \<Rightarrow> u8"
  ct_sent :: "(u32 \<times> SegmentControlElement \<times> u8 list) list"
  ct_handle :: "nat \<Rightarrow> handle"
  ct_write :: "nat option"
  ct_read :: "nat list"
  ct_next :: nat

definition address :: "client_stream \<Rightarrow> u64 res \<Rightarrow> u64 res" where
  "address ct offset = map_sum id (\<lambda>x. ct_base ct + x) offset"

definition setHandle :: "nat \<Rightarrow> handle \<Rightarrow> client_stream \<Rightarrow> client_stream" where
  "setHandle p h ct = ct\<lparr>ct_handle := (ct_handle ct)(p := h)\<rparr>"

definition readMemory :: "(u64 \<Rightarrow> u8) \<Rightarrow> u64 \<Rightarrow> nat \<Rightarrow> u8 list" where
  "readMemory mem a n = map (\<lambda>i. mem (a + of_nat i)) [0..<n]"

definition writeMemory :: "u64 \<Rightarrow> u8 list \<Rightarrow> (u64 \<Rightarrow> u8) \<Rightarrow> u64 \<Rightarrow> u8" where
  "writeMemory a bs mem = (\<lambda>x. if unat (x - a) < length bs then bs ! unat (x - a) else mem x)"

text \<open>\<open>_addHandle\<close> for a new descriptor; the result is its number.\<close>

definition addHandle :: "handle \<Rightarrow> client_stream \<Rightarrow> nat \<times> client_stream" where
  "addHandle h ct =
     (let p = ct_next ct; ct1 = (setHandle p h ct)\<lparr>ct_next := Suc p\<rparr>
      in (p, if \<not> isSet (hd_flags h) SsfRead then ct1\<lparr>ct_write := Some p\<rparr> else ct1\<lparr>ct_read := ct_read ct1 @ [p]\<rparr>))"

definition releaseHandle :: "nat \<Rightarrow> client_stream \<Rightarrow> client_stream" where
  "releaseHandle p ct =
     (if ct_write ct = Some p then ct\<lparr>ct_write := None\<rparr> else ct\<lparr>ct_read := remove1 p (ct_read ct)\<rparr>)"

section \<open>Static streams\<close>

text \<open>The members are set in this order, up to the one that throws.\<close>

definition initializeStaticHandle ::
  "client_stream \<Rightarrow> u32 \<Rightarrow> u32 \<Rightarrow> u32 \<Rightarrow> u64 \<Rightarrow> handle \<Rightarrow> unit res \<times> handle" where
  "initializeStaticHandle ct segment flags aflags offset h =
     (let h1 = h\<lparr>hd_flags := flags, hd_accessFlags := aflags, hd_entrySize := ct_entrySize ct, hd_segment := segment\<rparr>;
          ctrl = ct_control ct segment
      in case getControlElement (ct_buffer ct) segment of
           Inl e \<Rightarrow> (Inl e, h1)
         | Inr _ \<Rightarrow>
             (let h2 = h1\<lparr>hd_control := Some segment, hd_sequenceNumber := ln_sequenceNumber (ce_link ctrl)\<rparr>
              in case address ct (getSegment (ct_buffer ct) segment) of
                   Inl e \<Rightarrow> (Inl e, h2)
                 | Inr start \<Rightarrow>
                     (let h3 = h2\<lparr>hd_segmentStart := start\<rparr>
                      in case (if isSet flags SsfRead
                               then address ct (getSegmentEnd (ct_buffer ct) (ce_rawEntryCount ctrl) segment (ct_entrySize ct))
                               else Inr (start + bf_segmentSize (ct_buffer ct))) of
                           Inl e \<Rightarrow> (Inl e, h3)
                         | Inr end' \<Rightarrow> (Inr (), h3\<lparr>hd_segmentEnd := end', hd_entry := start + offset\<rparr>))))"

definition invalidateStaticHandle :: "handle \<Rightarrow> handle" where
  "invalidateStaticHandle h =
     h\<lparr>hd_segment := INVALID_SEGMENT_ID, hd_control := None, hd_entry := 0, hd_segmentStart := 0, hd_segmentEnd := 0\<rparr>"

text \<open>
  The reply to an append: the segment and its control element; and to a query to open, which has the
  type, the value, the flags and the sequence number to close: the segment, the offset in it, the
  control element and the data. What a dynamic stream answers is in the second part.
\<close>

type_synonym query = "QueryIndexType \<times> u64 \<times> u32 \<times> u32"

record client_env =
  cn_append :: "(u32 \<times> SegmentControlElement) res"
  cn_open :: "query \<Rightarrow> (u32 \<times> u64 \<times> SegmentControlElement \<times> u8 list) res"
  cn_close :: "unit res"
  cn_dynOpen :: "QueryIndexType \<Rightarrow> u64 \<Rightarrow> u32 \<Rightarrow> u64 \<Rightarrow> int \<times> u64"
  cn_dynNext :: "u64 \<Rightarrow> int \<times> u64"

text \<open>
  The segment of a write handle is handed over: as payload of the call (\<open>_getPayload\<close>) or, when
  the memory is shared, in place.
\<close>

definition sendSegment :: "nat \<Rightarrow> client_stream \<Rightarrow> client_stream" where
  "sendSegment p ct =
     (let h = ct_handle ct p in
      ct\<lparr>ct_sent := ct_sent ct @
           [(hd_segment h, ct_control ct (hd_segment h),
             readMemory (ct_memory ct) (hd_segmentStart h) (unat (bf_segmentSize (ct_buffer ct))))]\<rparr>)"

definition receiveControl :: "u32 \<Rightarrow> SegmentControlElement \<Rightarrow> client_stream \<Rightarrow> client_stream" where
  "receiveControl segment ctrl ct = ct\<lparr>ct_control := (ct_control ct)(segment := ctrl)\<rparr>"

text \<open>
  The whole segment, with its control element, is the payload of the reply to an open
  (\<open>_payloadAllocatorRead\<close>), or is in the shared memory.
\<close>

definition receiveSegment :: "u32 \<Rightarrow> SegmentControlElement \<Rightarrow> u8 list \<Rightarrow> client_stream \<Rightarrow> client_stream" where
  "receiveSegment segment ctrl content ct =
     (case address ct (getSegment (ct_buffer ct) segment) of
        Inl _ \<Rightarrow> ct
      | Inr start \<Rightarrow> (receiveControl segment ctrl ct)\<lparr>ct_memory := writeMemory start content (ct_memory ct)\<rparr>)"

text \<open>A new handle (the handle is \<open>None\<close>) is added when it could be initialised.\<close>

definition placeHandle ::
  "u32 \<Rightarrow> u32 \<Rightarrow> u32 \<Rightarrow> u64 \<Rightarrow> nat option \<Rightarrow> client_stream \<Rightarrow> nat res \<times> client_stream" where
  "placeHandle segment flags aflags offset handle ct =
     (case handle of
        None \<Rightarrow>
          (case initializeStaticHandle ct segment flags aflags offset newHandle of
             (Inl e, _) \<Rightarrow> (Inl e, ct)
           | (Inr _, h) \<Rightarrow> (case addHandle h ct of (p, ct1) \<Rightarrow> (Inr p, ct1)))
      | Some p \<Rightarrow>
          (case initializeStaticHandle ct segment flags aflags offset (ct_handle ct p) of
             (Inl e, h) \<Rightarrow> (Inl e, setHandle p h ct)
           | (Inr _, h) \<Rightarrow> (Inr p, setHandle p h ct)))"

definition releaseOptional :: "nat option \<Rightarrow> client_stream \<Rightarrow> client_stream" where
  "releaseOptional handle ct = (case handle of None \<Rightarrow> ct | Some p \<Rightarrow> releaseHandle p ct)"

definition staticAppend :: "client_env \<Rightarrow> nat option \<Rightarrow> client_stream \<Rightarrow> nat option res \<times> client_stream" where
  "staticAppend env handle ct =
     (let ct1 = (case handle of None \<Rightarrow> ct | Some p \<Rightarrow> sendSegment p ct) in
      case cn_append env of
        Inl e \<Rightarrow> (Inl e, releaseOptional handle ct1)
      | Inr (segment, ctrl) \<Rightarrow>
          if segment = INVALID_SEGMENT_ID then (Inr None, releaseOptional handle ct1)
          else
            (case placeHandle segment SsfNone SafNone 0 handle (receiveControl segment ctrl ct1) of
               (Inl e, ct2) \<Rightarrow> (Inl e, ct2)
             | (Inr p, ct2) \<Rightarrow> (Inr (Some p), ct2)))"

definition invalidateOptional :: "nat option \<Rightarrow> client_stream \<Rightarrow> client_stream" where
  "invalidateOptional handle ct =
     (case handle of None \<Rightarrow> ct | Some p \<Rightarrow> setHandle p (invalidateStaticHandle (ct_handle ct p)) ct)"

definition staticOpen ::
  "client_env \<Rightarrow> QueryIndexType \<Rightarrow> u64 \<Rightarrow> u32 \<Rightarrow> nat option \<Rightarrow> client_stream \<Rightarrow> nat option res \<times> client_stream" where
  "staticOpen env type index flags handle ct =
     (let (qflags, ct1) =
            (case handle of
               None \<Rightarrow> (flags, ct)
             | Some p \<Rightarrow>
                 if flags = SafNone then (hd_accessFlags (ct_handle ct p), ct)
                 else (flags, setHandle p ((ct_handle ct p)\<lparr>hd_accessFlags := flags\<rparr>) ct));
          closeSqn =
            (case handle of
               None \<Rightarrow> INVALID_STREAM_SEGMENT_ID
             | Some p \<Rightarrow>
                 (case hd_control (ct_handle ct1 p) of
                    None \<Rightarrow> INVALID_STREAM_SEGMENT_ID
                  | Some s \<Rightarrow> ln_sequenceNumber (ce_link (ct_control ct1 s))))
      in case cn_open env (type, index, qflags, closeSqn) of
           Inl e \<Rightarrow> (Inl e, invalidateOptional handle ct1)
         | Inr (segment, offset, ctrl, content) \<Rightarrow>
             if segment = INVALID_SEGMENT_ID then (Inr handle, invalidateOptional handle ct1)
             else
               (case placeHandle segment SsfRead flags offset handle (receiveSegment segment ctrl content ct1) of
                  (Inl e, ct2) \<Rightarrow> (Inl e, ct2)
                | (Inr p, ct2) \<Rightarrow> (Inr (Some p), ct2)))"

section \<open>Dynamic streams\<close>

definition initializeDynamicHandle :: "client_stream \<Rightarrow> u32 \<Rightarrow> u32 \<Rightarrow> u64 \<Rightarrow> handle \<Rightarrow> handle" where
  "initializeDynamicHandle ct flags aflags userData h =
     h\<lparr>hd_flags := flags OR SsfDynamic, hd_accessFlags := aflags, hd_entrySize := ct_entrySize ct, hd_entry := 0,
       hd_segment := INVALID_SEGMENT_ID, hd_segmentStart := 1, hd_segmentEnd := 0, hd_userData := userData\<rparr>"

text \<open>\<open>_open\<close>; without an open handler, the answer is 0 and leaves the user data.\<close>

definition dynamicOpen ::
  "client_env \<Rightarrow> QueryIndexType \<Rightarrow> u64 \<Rightarrow> u32 \<Rightarrow> nat option \<Rightarrow> client_stream \<Rightarrow> nat option res \<times> client_stream" where
  "dynamicOpen env type index flags handle ct =
     (let (aflags, ct1) =
            (case handle of
               None \<Rightarrow> (flags, ct)
             | Some p \<Rightarrow>
                 if flags = SafNone then (hd_accessFlags (ct_handle ct p), ct)
                 else (flags, setHandle p ((ct_handle ct p)\<lparr>hd_accessFlags := flags\<rparr>) ct));
          userData = (case handle of None \<Rightarrow> 0 | Some p \<Rightarrow> hd_userData (ct_handle ct1 p))
      in case cn_dynOpen env type index aflags userData of
           (result, userData1) \<Rightarrow>
             if result \<noteq> 0 then
               (Inl GenericException,
                (case handle of None \<Rightarrow> ct1
                 | Some p \<Rightarrow> setHandle p ((ct_handle ct1 p)\<lparr>hd_userData := userData1\<rparr>) ct1))
             else
               (case handle of
                  None \<Rightarrow>
                    (case addHandle (initializeDynamicHandle ct1 SsfRead aflags userData1 newHandle) ct1 of
                       (p, ct2) \<Rightarrow> (Inr (Some p), ct2))
                | Some p \<Rightarrow>
                    (Inr (Some p), setHandle p (initializeDynamicHandle ct1 SsfRead aflags userData1 (ct_handle ct1 p)) ct1)))"

section \<open>The operations of a stream\<close>

definition clientAppend :: "client_env \<Rightarrow> bool \<Rightarrow> nat option \<Rightarrow> client_stream \<Rightarrow> nat option res \<times> client_stream" where
  "clientAppend env dynamic handle ct =
     (if (case handle of None \<Rightarrow> False | Some p \<Rightarrow> isSet (hd_flags (ct_handle ct p)) SsfRead) then (Inl InvalidOperationException, ct)
      else if dynamic then (Inl InvalidOperationException, ct)
      else staticAppend env handle ct)"

definition clientOpen ::
  "client_env \<Rightarrow> bool \<Rightarrow> QueryIndexType \<Rightarrow> u64 \<Rightarrow> u32 \<Rightarrow> nat option \<Rightarrow> client_stream \<Rightarrow> nat option res \<times> client_stream" where
  "clientOpen env dynamic type index flags handle ct =
     (if (case handle of None \<Rightarrow> False | Some p \<Rightarrow> \<not> isSet (hd_flags (ct_handle ct p)) SsfRead) then (Inl InvalidOperationException, ct)
      else if dynamic then dynamicOpen env type index flags handle ct
      else staticOpen env type index flags handle ct)"

text \<open>\<open>_closeHandle\<close> tells the server, which may fail, or calls the handler of a dynamic stream.\<close>

definition clientClose :: "client_env \<Rightarrow> nat \<Rightarrow> client_stream \<Rightarrow> unit res \<times> client_stream" where
  "clientClose env p ct =
     (let h = ct_handle ct p;
          call = \<not> isSet (hd_flags h) SsfDynamic \<and> hd_control h \<noteq> None;
          ct1 = (if call \<and> \<not> isSet (hd_flags h) SsfRead then sendSegment p ct else ct)
      in case (if call then cn_close env else Inr ()) of
           Inl e \<Rightarrow> (Inl e, ct1)
         | Inr _ \<Rightarrow> (Inr (), releaseHandle p ct1))"

definition clientFlush :: "client_env \<Rightarrow> client_stream \<Rightarrow> unit res \<times> client_stream" where
  "clientFlush env ct =
     (case ct_write ct of
        None \<Rightarrow> (Inr (), ct)
      | Some p \<Rightarrow>
          if ct_isMaster ct then
            (case cn_close env of
               Inl e \<Rightarrow> (Inl e, sendSegment p ct)
             | Inr _ \<Rightarrow> (Inr (), releaseHandle p (sendSegment p ct)))
          else (Inr (), releaseHandle p ct))"

section \<open>The interface\<close>

text \<open>An exception in \<open>StStreamAppend\<close> gives \<open>NULL\<close>, one in \<open>StStreamOpen\<close> the handle.\<close>

definition stStreamAppend :: "client_env \<Rightarrow> bool \<Rightarrow> nat option \<Rightarrow> client_stream \<Rightarrow> nat option \<times> client_stream" where
  "stStreamAppend env dynamic handle ct =
     (case clientAppend env dynamic handle ct of (Inl _, ct1) \<Rightarrow> (None, ct1) | (Inr r, ct1) \<Rightarrow> (r, ct1))"

definition stStreamOpen ::
  "client_env \<Rightarrow> bool \<Rightarrow> QueryIndexType \<Rightarrow> u64 \<Rightarrow> u32 \<Rightarrow> nat option \<Rightarrow> client_stream \<Rightarrow> nat option \<times> client_stream" where
  "stStreamOpen env dynamic type index flags handle ct =
     (case clientOpen env dynamic type index flags handle ct of (Inl _, ct1) \<Rightarrow> (handle, ct1) | (Inr r, ct1) \<Rightarrow> (r, ct1))"

text \<open>The end of both functions that step: the entry is returned and the handle moved.\<close>

definition stepEntry :: "bool \<Rightarrow> nat \<Rightarrow> client_stream \<Rightarrow> u64 \<times> client_stream" where
  "stepEntry forward p ct =
     (let h = ct_handle ct p; size = ucast (hd_entrySize h)
      in (hd_entry h, setHandle p (h\<lparr>hd_entry := (if forward then hd_entry h + size else hd_entry h - size)\<rparr>) ct))"

text \<open>The result is the entry (0 for \<open>NULL\<close>) and the handle that the caller has afterwards.\<close>

definition stGetNextEntryFast :: "client_env \<Rightarrow> nat \<Rightarrow> client_stream \<Rightarrow> u64 \<times> nat option \<times> client_stream" where
  "stGetNextEntryFast env p ct =
     (let h = ct_handle ct p in
      if hd_segmentEnd h < hd_entry h + ucast (hd_entrySize h) then
        (if isSet (hd_flags h) SsfDynamic then
           (case cn_dynNext env (hd_userData h) of
              (result, entry) \<Rightarrow> (if result \<noteq> 0 then 0 else entry, Some p, ct))
         else
           (case (if isSet (hd_flags h) SsfRead then
                    (let h1 = h\<lparr>hd_accessFlags := hd_accessFlags h AND NOT SafReverseRead\<rparr>
                     in stStreamOpen env False QNextValidSequenceNumber (ucast (hd_sequenceNumber h1)) (hd_accessFlags h1)
                          (Some p) (setHandle p h1 ct))
                  else stStreamAppend env False (Some p) ct) of
              (None, ct1) \<Rightarrow> (0, None, ct1)
            | (Some q, ct1) \<Rightarrow>
                if hd_control (ct_handle ct1 q) = None then (0, Some q, ct1)
                else (case stepEntry True q ct1 of (entry, ct2) \<Rightarrow> (entry, Some q, ct2))))
      else (case stepEntry True p ct of (entry, ct1) \<Rightarrow> (entry, Some p, ct1)))"

definition stGetPreviousEntryFast :: "client_env \<Rightarrow> nat \<Rightarrow> client_stream \<Rightarrow> u64 \<times> nat option \<times> client_stream" where
  "stGetPreviousEntryFast env p ct =
     (let h = ct_handle ct p in
      if hd_entry h < hd_segmentStart h then
        (if isSet (hd_flags h) SsfDynamic then (0, Some p, ct)
         else
           (let h1 = h\<lparr>hd_accessFlags := hd_accessFlags h OR SafReverseRead\<rparr>
            in case stStreamOpen env False QPreviousValidSequenceNumber (ucast (hd_sequenceNumber h1)) (hd_accessFlags h1)
                      (Some p) (setHandle p h1 ct) of
                 (None, ct1) \<Rightarrow> (0, None, ct1)
               | (Some q, ct1) \<Rightarrow>
                   if hd_control (ct_handle ct1 q) = None then (0, Some q, ct1)
                   else (case stepEntry False q ct1 of (entry, ct2) \<Rightarrow> (entry, Some q, ct2))))
      else (case stepEntry False p ct of (entry, ct1) \<Rightarrow> (entry, Some p, ct1)))"

definition stSubmitEntryFast :: "nat \<Rightarrow> client_stream \<Rightarrow> client_stream" where
  "stSubmitEntryFast p ct =
     (case hd_control (ct_handle ct p) of
        None \<Rightarrow> ct
      | Some s \<Rightarrow>
          receiveControl s ((ct_control ct s)\<lparr>ce_rawEntryCount := ce_rawEntryCount (ct_control ct s) + 1\<rparr>) ct)"

section \<open>Data of variable size\<close>

text \<open>
  The loop of \<open>StWriteVariableData\<close>: the handle, the data that are left and the stream. Each
  append meets the next environment of the list; \<open>None\<close> is a loop that needs more appends than
  there are environments. \<open>first\<close> tells that nothing was written yet.
\<close>

fun writeDataLoop ::
  "client_env list \<Rightarrow> bool \<Rightarrow> nat \<Rightarrow> u8 list \<Rightarrow> client_stream \<Rightarrow> (nat option \<times> u8 list \<times> client_stream) option" where
  "writeDataLoop envs first p source ct =
     (let h = ct_handle ct p; sizeHint = getSizeHint (hd_entrySize h); s = the (hd_control h) in
      case writeVariableData (unat (hd_segmentEnd h - hd_entry h)) source (unat sizeHint) of
        (bytesWritten, written, blocks) \<Rightarrow>
          (let count = of_nat (case blocks of None \<Rightarrow> 0 | Some n \<Rightarrow> n) :: u32;
               source1 = (if 0 < count then drop bytesWritten source else source);
               c = ct_control ct s;
               c1 = (if 0 < count \<and> first then c\<lparr>ce_entryCount := ce_entryCount c + 1\<rparr> else c);
               c2 = c1\<lparr>ce_rawEntryCount := ce_rawEntryCount c1 + count\<rparr>;
               ct1 = receiveControl s c2 ct\<lparr>ct_memory := writeMemory (hd_entry h) written (ct_memory ct)\<rparr>
           in if 0 < count \<and> source1 = [] then
                Some (Some p, [], setHandle p (h\<lparr>hd_entry := hd_entry h + ucast (count * sizeHint)\<rparr>) ct1)
              else
                (case envs of
                   [] \<Rightarrow> None
                 | env # envs1 \<Rightarrow>
                     (case stStreamAppend env False (Some p) ct1 of
                        (None, ct2) \<Rightarrow> Some (None, source1, ct2)
                      | (Some q, ct2) \<Rightarrow> writeDataLoop envs1 (first \<and> count = 0) q source1 ct2))))"

declare writeDataLoop.simps [simp del]

text \<open>
  \<open>StWriteVariableData\<close>: the number of bytes written, the reference and the handle. The reference is
  made from the sequence number and the number of raw entries that the segment has.
\<close>

definition VARIABLE_ENTRY_EMPTY_INDEX :: u64 where
  "VARIABLE_ENTRY_EMPTY_INDEX = INVALID_ENTRY_INDEX - 1"

definition variableReference :: "u64 \<Rightarrow> u32 \<Rightarrow> u32 \<Rightarrow> u32 \<Rightarrow> u64" where
  "variableReference segSize sizeHint sqn rawEntryCount =
     (segSize div ucast sizeHint) * ucast sqn + ucast rawEntryCount"

definition stWriteVariableData ::
  "client_env list \<Rightarrow> nat \<Rightarrow> u8 list \<Rightarrow> client_stream \<Rightarrow> (nat \<times> u64 \<times> nat option \<times> client_stream) option" where
  "stWriteVariableData envs p source ct =
     (if source = [] then Some (0, VARIABLE_ENTRY_EMPTY_INDEX, Some p, ct)
      else
        (let h = ct_handle ct p; c = ct_control ct (the (hd_control h));
             reference = variableReference (bf_segmentSize (ct_buffer ct)) (getSizeHint (hd_entrySize h))
                           (ln_sequenceNumber (ce_link c)) (ce_rawEntryCount c)
         in map_option (\<lambda>(q, left, ct1). (length source - length left, reference, q, ct1))
              (writeDataLoop envs True p source ct)))"

text \<open>The segment and the entry in it that a reference stands for in \<open>StReadVariableData\<close>.\<close>

definition variablePlace :: "u64 \<Rightarrow> u32 \<Rightarrow> u64 \<Rightarrow> u32 \<times> u64" where
  "variablePlace segSize sizeHint reference =
     (let rsqn = ucast ((reference * ucast sizeHint) div segSize) :: u32
      in (rsqn, reference - ucast rsqn * (segSize div ucast sizeHint)))"

text \<open>
  The loop of \<open>StReadVariableData\<close> with a destination buffer: the data, or \<open>Inl\<close> for the result -1.
  \<open>None\<close> is a read beyond the entries of a segment, or fuel that ran out.
\<close>

fun readDataLoop ::
  "client_env \<Rightarrow> nat \<Rightarrow> nat \<Rightarrow> u32 \<Rightarrow> u64 \<Rightarrow> client_stream \<Rightarrow>
   ((unit + u8 list) \<times> nat option \<times> client_stream) option" where
  "readDataLoop env 0 p rsqn localRef ct = None"
| "readDataLoop env (Suc fuel) p rsqn localRef ct =
     (let h = ct_handle ct p;
          (handle, ct1) =
            (if rsqn \<noteq> hd_sequenceNumber h \<or> hd_control h = None
             then stStreamOpen env False QSequenceNumber (ucast rsqn) (hd_accessFlags h) (Some p) ct
             else (Some p, ct))
      in case handle of
           None \<Rightarrow> Some (Inl (), None, ct1)
         | Some q \<Rightarrow>
             (let h1 = ct_handle ct1 q in
              if hd_control h1 = None then Some (Inl (), Some q, ct1)
              else
                (let src = hd_segmentStart h1 + localRef * ucast (getSizeHint (hd_entrySize h1));
                     srcSize = hd_segmentEnd h1 - src
                 in case readVariableData (readMemory (ct_memory ct1) src (unat srcSize)) of
                      None \<Rightarrow> None
                    | Some (True, bytes) \<Rightarrow> Some (Inr bytes, Some q, ct1)
                    | Some (False, bytes) \<Rightarrow>
                        map_option (\<lambda>(r, x). (map_sum id (\<lambda>rest. bytes @ rest) r, x))
                          (readDataLoop env fuel q (rsqn + 1) 0 ct1))))"

declare readDataLoop.simps [simp del]

definition stReadVariableData ::
  "client_env \<Rightarrow> nat \<Rightarrow> nat \<Rightarrow> u64 \<Rightarrow> client_stream \<Rightarrow> ((unit + u8 list) \<times> nat option \<times> client_stream) option" where
  "stReadVariableData env fuel p reference ct =
     (if reference = VARIABLE_ENTRY_EMPTY_INDEX then Some (Inr [], Some p, ct)
      else
        (case variablePlace (bf_segmentSize (ct_buffer ct)) (getSizeHint (hd_entrySize (ct_handle ct p))) reference of
           (rsqn, localRef) \<Rightarrow> readDataLoop env fuel p rsqn localRef ct))"

end
