(* ===== verification/Client_Read.thy ===== *)
theory Client_Read
  imports Client_Stream
begin

text \<open>
  Reading a static stream with a handle of the client: stepping forwards gives all entries of the
  segments that the server has, in order, and stepping backwards gives them in reverse. What an
  invalidated handle does.
\<close>

section \<open>What the server answers\<close>

text \<open>
  The buffer segment, the control element and the data with which a segment of the stream is
  delivered.
\<close>

type_synonym content = "u32 \<Rightarrow> u32 \<times> SegmentControlElement \<times> u8 list"

definition rawCount :: "content \<Rightarrow> u32 \<Rightarrow> nat" where
  "rawCount content q = unat (ce_rawEntryCount (fst (snd (content q))))"

text \<open>
  The server finds the segment in its table (\<open>open_lookup\<close>) and the offset in it (\<open>findOffset\<close>); both
  come from the model of the server stream.
\<close>

definition entryOffset :: "u32 \<Rightarrow> QueryIndexType \<Rightarrow> u32 \<Rightarrow> SegmentControlElement \<Rightarrow> u64" where
  "entryOffset es type flags ctrl =
     (let atEnd = ucast (getEntrySize es * ce_rawEntryCount ctrl) - ucast (getEntrySize es)
      in case type of
           QNextValidSequenceNumber \<Rightarrow> 0
         | QPreviousValidSequenceNumber \<Rightarrow> atEnd
         | _ \<Rightarrow> if isSet flags SafReverseRead then atEnd else 0)"

definition servedBy :: "server_stream \<Rightarrow> u32 \<Rightarrow> content \<Rightarrow> client_env" where
  "servedBy st es content =
     \<lparr>cn_append = Inl NotSupportedException,
      cn_open = (\<lambda>(type, index, flags, close).
        case open_lookup type index flags st of
          Inl e \<Rightarrow> Inl e
        | Inr (q, _, _) \<Rightarrow>
            (case content q of (slot, ctrl, bytes) \<Rightarrow> Inr (slot, entryOffset es type flags ctrl, ctrl, bytes))),
      cn_close = Inr (), cn_dynOpen = (\<lambda>_ _ _ u. (0, u)), cn_dynNext = (\<lambda>_. (0, 0))\<rparr>"

lemma and_not_disjoint:
  assumes "x AND f = 0"
  shows "x AND NOT f = (x :: 'a::len word)"
proof -
  have "x = x AND (f OR NOT f)" by simp
  also have "\<dots> = (x AND f) OR (x AND NOT f)" by (simp only: bit.conj_disj_distrib)
  finally show ?thesis using assms by simp
qed

lemma unit_size: "(if isVariableEntrySize es then getSizeHint es else es) = getEntrySize es"
  by (simp add: isVariableEntrySize_def getSizeHint_def getEntrySize_def and_not_disjoint)

lemma fixed_size: "\<not> isVariableEntrySize es \<Longrightarrow> getEntrySize es = es"
  using unit_size [of es] by simp

lemma findOffset_sequence:
  assumes "controlOf i s = Inr (sv_ctrl (ss_buffer s) i)"
    and "type \<in> {QSequenceNumber, QNextValidSequenceNumber, QPreviousValidSequenceNumber}"
  shows "findOffset (Some i) flags type v s =
    Some (Inr (entryOffset (sr_entrySize (ss_ref s)) type flags (sv_ctrl (ss_buffer s) i)))"
  using assms by (auto simp: findOffset_def entryOffset_def endOffset_def unit_size Let_def)

text \<open>The numbers of the segments of the table, and the entries of a segment.\<close>

definition present :: "server_stream \<Rightarrow> nat \<Rightarrow> bool" where
  "present st i \<longleftrightarrow> ss_segments st ! i \<noteq> None"

definition storedFrom :: "server_stream \<Rightarrow> nat \<Rightarrow> nat list" where
  "storedFrom st i = filter (present st) [i..<length (ss_segments st)]"

definition storedBefore :: "server_stream \<Rightarrow> nat \<Rightarrow> nat list" where
  "storedBefore st i = filter (present st) [0..<i]"

definition entryAt :: "nat \<Rightarrow> u8 list \<Rightarrow> nat \<Rightarrow> u8 list" where
  "entryAt es bytes k = take es (drop (k * es) bytes)"

definition entriesOf :: "nat \<Rightarrow> content \<Rightarrow> nat \<Rightarrow> u8 list list" where
  "entriesOf es content i =
     map (entryAt es (snd (snd (content (of_nat i))))) [0..<rawCount content (of_nat i)]"

text \<open>What the theorems ask for: the segments are stored and fit into the buffer of the client.\<close>

definition deliverable :: "client_stream \<Rightarrow> content \<Rightarrow> u32 \<Rightarrow> bool" where
  "deliverable ct content q \<longleftrightarrow>
     (case content q of (slot, ctrl, bytes) \<Rightarrow>
        slot < bf_numSegments (ct_buffer ct) \<and> slot \<noteq> INVALID_SEGMENT_ID \<and>
        ln_sequenceNumber (ce_link ctrl) = q \<and> 0 < unat (ce_rawEntryCount ctrl) \<and>
        length bytes = unat (bf_segmentSize (ct_buffer ct)) \<and>
        unat (getEntrySize (ct_entrySize ct)) * unat (ce_rawEntryCount ctrl) \<le> length bytes)"

definition mapped :: "client_stream \<Rightarrow> bool" where
  "mapped ct \<longleftrightarrow>
     0 < getEntrySize (ct_entrySize ct) \<and> 2 ^ 32 \<le> unat (ct_base ct) \<and>
     unat (ct_base ct) + unat (bf_numSegments (ct_buffer ct)) * unat (bf_lineSize (ct_buffer ct)) + 2 ^ 32 < 2 ^ 64 \<and>
     0 < unat (bf_segmentSize (ct_buffer ct)) \<and> unat (bf_segmentSize (ct_buffer ct)) < 2 ^ 32 \<and>
     unat (bf_segmentSize (ct_buffer ct)) \<le> unat (bf_lineSize (ct_buffer ct))"

definition readable :: "server_stream \<Rightarrow> content \<Rightarrow> client_stream \<Rightarrow> bool" where
  "readable st content ct \<longleftrightarrow>
     mapped ct \<and> \<not> isVariableEntrySize (ct_entrySize ct) \<and>
     length (ss_segments st) < 2 ^ 32 \<and> Suc (unat (ss_lastSequenceNumber st)) = length (ss_segments st) \<and>
     list_all (\<lambda>i. case ss_segments st ! i of None \<Rightarrow> True
                   | Some l \<Rightarrow> lc_location l \<noteq> None \<and> lc_sequenceNumber l = of_nat i \<and> deliverable ct content (of_nat i))
       [0..<length (ss_segments st)]"

text \<open>Stepping through a stream until there is no entry, for a number of steps at most.\<close>

definition getEntry :: "client_env \<Rightarrow> bool \<Rightarrow> nat \<Rightarrow> client_stream \<Rightarrow> u64 \<times> nat option \<times> client_stream" where
  "getEntry env forward = (if forward then stGetNextEntryFast env else stGetPreviousEntryFast env)"

fun readEntries :: "client_env \<Rightarrow> bool \<Rightarrow> nat \<Rightarrow> nat \<Rightarrow> client_stream \<Rightarrow> u8 list list" where
  "readEntries env forward 0 p ct = []"
| "readEntries env forward (Suc n) p ct =
     (case getEntry env forward p ct of
        (entry, Some q, ct1) \<Rightarrow>
          if entry = 0 then []
          else readMemory (ct_memory ct1) entry (unat (ct_entrySize ct1)) # readEntries env forward n q ct1
      | (entry, None, ct1) \<Rightarrow> [])"

section \<open>The tables\<close>

lemma nextIn_stored:
  "nextIn (ss_segments st) i = (case storedFrom st i of [] \<Rightarrow> None | j # _ \<Rightarrow> ss_segments st ! j)"
proof (induction "ss_segments st" i rule: nextIn.induct)
  case (1 i)
  show ?case
  proof (cases "i < length (ss_segments st)")
    case False
    then show ?thesis by (simp add: nextIn.simps [of _ i] storedFrom_def)
  next
    case True
    then have split: "storedFrom st i = (if present st i then i # storedFrom st (Suc i) else storedFrom st (Suc i))"
      by (simp add: storedFrom_def upt_rec [of i])
    show ?thesis
    proof (cases "ss_segments st ! i")
      case None
      then show ?thesis using 1 True split
        by (simp add: nextIn.simps [of _ i] present_def)
    next
      case (Some l)
      then show ?thesis using True split by (simp add: nextIn.simps [of _ i] present_def)
    qed
  qed
qed

lemma storedFrom_Cons:
  assumes "storedFrom st i = j # js"
  shows "i \<le> j \<and> j < length (ss_segments st) \<and> present st j \<and> js = storedFrom st (Suc j)"
  using assms
proof (induction "length (ss_segments st) - i" arbitrary: i)
  case 0
  then show ?case by (simp add: storedFrom_def)
next
  case (Suc n)
  then have "i < length (ss_segments st)" by simp
  then have split: "storedFrom st i = (if present st i then i # storedFrom st (Suc i) else storedFrom st (Suc i))"
    by (simp add: storedFrom_def upt_rec [of i])
  show ?case
  proof (cases "present st i")
    case True
    then show ?thesis using Suc(3) split \<open>i < _\<close> by auto
  next
    case False
    then show ?thesis using Suc(1) [of "Suc i"] Suc(2,3) split by fastforce
  qed
qed

lemma prevIn_stored:
  "prevIn (ss_segments st) n = (case rev (storedBefore st n) of [] \<Rightarrow> None | j # _ \<Rightarrow> ss_segments st ! j)"
  by (induction n) (auto simp: storedBefore_def present_def split: option.splits)

lemma storedBefore_snoc:
  assumes "rev (storedBefore st i) = j # js"
  shows "j < i \<and> present st j \<and> js = rev (storedBefore st j)"
  using assms by (induction i) (auto simp: storedBefore_def split: if_splits)

lemma readable_D:
  assumes "readable st content ct" "i < length (ss_segments st)" "present st i"
  shows "\<exists>l. ss_segments st ! i = Some l \<and> lc_location l \<noteq> None \<and> lc_sequenceNumber l = of_nat i \<and>
    deliverable ct content (of_nat i) \<and> unat (of_nat i :: u32) = i"
proof -
  have "i < 2 ^ 32" using assms(1,2) by (simp add: readable_def)
  then show ?thesis
    using assms by (auto simp: readable_def list_all_iff present_def unat_of_nat_small split: option.splits)
qed

lemma ucast_u32: "ucast (ucast (q :: u32) :: u64) = q"
  by (rule bit_word_eqI) (simp add: bit_simps)

lemma adjust_kept: "\<nexists>t. type = QTree t \<Longrightarrow> \<exists>f. adjustQuery flags type v st = Some (f, v)"
  by (cases "isSet flags SafReverseQuery"; cases type) (simp_all add: adjustQuery_def)

lemma lookup_found:
  assumes ok: "readable st content ct"
    and found: "findSequenceNumber type v st = Inr (of_nat j)" "j < length (ss_segments st)" "present st j"
    and type: "\<nexists>t. type = QTree t"
  shows "\<exists>f w. open_lookup type v flags st = Inr (of_nat j, f, w)"
proof -
  obtain l where l: "ss_segments st ! j = Some l" "lc_location l \<noteq> None" "unat (of_nat j :: u32) = j"
    using readable_D [OF ok found(2,3)] by blast
  obtain f where f: "adjustQuery flags type v st = Some (f, v)"
    using adjust_kept [OF type] by blast
  show ?thesis using found l f by (simp add: open_lookup_def locAt_def)
qed

lemma unat_invalid: "unat INVALID_STREAM_SEGMENT_ID = 2 ^ 32 - 1"
  by (simp add: INVALID_OBJECT_ID_def unsigned_minus_1_eq_mask mask_eq_exp_minus_1)

lemma lookup_missing:
  assumes ok: "readable st content ct"
    and found: "findSequenceNumber type v st = Inr INVALID_STREAM_SEGMENT_ID"
    and type: "\<nexists>t. type = QTree t"
  shows "open_lookup type v flags st = Inl NotFoundException"
proof -
  obtain f where f: "adjustQuery flags type v st = Some (f, v)"
    using adjust_kept [OF type] by blast
  have "length (ss_segments st) \<le> unat INVALID_STREAM_SEGMENT_ID" using ok by (simp add: readable_def unat_invalid)
  then show ?thesis using found f by (simp add: open_lookup_def)
qed

lemma find_next:
  assumes ok: "readable st content ct" and q: "q < length (ss_segments st)"
  shows "findSequenceNumber QNextValidSequenceNumber (ucast (of_nat q :: u32)) st =
    Inr (case storedFrom st (Suc q) of [] \<Rightarrow> INVALID_STREAM_SEGMENT_ID | j # _ \<Rightarrow> of_nat j)"
proof -
  have "Suc q < 2 ^ 32" using q ok by (simp add: readable_def)
  then have "unat (of_nat (Suc q) :: u32) = Suc q" by (intro unat_of_nat_small) simp
  then have "unat ((of_nat q :: u32) + 1) = Suc q" by (simp add: add.commute)
  then have next': "getNextSegment (ucast (ucast (of_nat q :: u32) :: u64)) st =
      (case storedFrom st (Suc q) of [] \<Rightarrow> None | j # _ \<Rightarrow> ss_segments st ! j)"
    by (simp add: getNextSegment_def nextIn_stored ucast_u32)
  show ?thesis
  proof (cases "storedFrom st (Suc q)")
    case Nil
    then show ?thesis using next' by (simp add: findSequenceNumber_def seqOf_def)
  next
    case (Cons j js)
    then show ?thesis using next' readable_D [OF ok, of j] storedFrom_Cons [OF Cons]
      by (auto simp: findSequenceNumber_def seqOf_def)
  qed
qed

lemma find_previous:
  assumes ok: "readable st content ct" and q: "q < length (ss_segments st)"
  shows "findSequenceNumber QPreviousValidSequenceNumber (ucast (of_nat q :: u32)) st =
    Inr (case rev (storedBefore st q) of [] \<Rightarrow> INVALID_STREAM_SEGMENT_ID | j # _ \<Rightarrow> of_nat j)"
proof -
  have len: "length (ss_segments st) < 2 ^ 32" and last: "Suc (unat (ss_lastSequenceNumber st)) = length (ss_segments st)"
    using ok by (simp_all add: readable_def)
  have u: "unat (of_nat q :: u32) = q" using q len by (simp add: unat_of_nat_small)
  have "\<not> ss_lastSequenceNumber st < of_nat q" using u last q by (simp add: word_less_nat_alt)
  moreover have "ss_lastSequenceNumber st \<noteq> INVALID_STREAM_SEGMENT_ID"
    using last len unat_invalid by auto
  ultimately have prev: "getPreviousSegment (ucast (ucast (of_nat q :: u32) :: u64)) st =
      (case rev (storedBefore st q) of [] \<Rightarrow> None | j # _ \<Rightarrow> ss_segments st ! j)"
    by (simp add: getPreviousSegment_def prevIn_stored ucast_u32 u)
  show ?thesis
  proof (cases "rev (storedBefore st q)")
    case Nil
    then show ?thesis using prev by (simp add: findSequenceNumber_def seqOf_def)
  next
    case (Cons j js)
    then show ?thesis using prev readable_D [OF ok, of j] storedBefore_snoc [OF Cons] q
      by (auto simp: findSequenceNumber_def seqOf_def)
  qed
qed

section \<open>Handles that point into a segment\<close>

definition sameStream :: "client_stream \<Rightarrow> client_stream \<Rightarrow> bool" where
  "sameStream ct ct' \<longleftrightarrow>
     ct_entrySize ct' = ct_entrySize ct \<and> ct_base ct' = ct_base ct \<and> ct_buffer ct' = ct_buffer ct"

lemma deliverable_same: "sameStream ct ct' \<Longrightarrow> deliverable ct' = deliverable ct"
  by (intro ext) (simp add: sameStream_def deliverable_def)

lemma mapped_same: "sameStream ct ct' \<Longrightarrow> mapped ct \<Longrightarrow> mapped ct'"
  by (simp add: mapped_def sameStream_def)

lemma readable_same:
  assumes "sameStream ct ct'" "readable st content ct"
  shows "readable st content ct'"
  using assms(2) assms(1) [unfolded sameStream_def] unfolding readable_def deliverable_same [OF assms(1)] mapped_def by simp

lemma sameStream_trans: "sameStream a b \<Longrightarrow> sameStream b c \<Longrightarrow> sameStream a c"
  by (simp add: sameStream_def)

definition startOf :: "client_stream \<Rightarrow> content \<Rightarrow> u32 \<Rightarrow> u64" where
  "startOf ct content q = ct_base ct + ucast (fst (content q)) * bf_lineSize (ct_buffer ct)"

lemma startOf_same: "sameStream ct ct' \<Longrightarrow> startOf ct' content q = startOf ct content q"
  by (simp add: startOf_def sameStream_def)

definition inSegment :: "client_stream \<Rightarrow> content \<Rightarrow> nat \<Rightarrow> u32 \<Rightarrow> bool" where
  "inSegment ct content p q \<longleftrightarrow>
     (let h = ct_handle ct p; start = startOf ct content q in
      hd_flags h = SsfRead \<and> hd_entrySize h = ct_entrySize ct \<and> hd_sequenceNumber h = q \<and> hd_control h \<noteq> None \<and>
      hd_segmentStart h = start \<and> hd_segmentEnd h = start + of_nat (unat (getEntrySize (ct_entrySize ct)) * rawCount content q) \<and>
      readMemory (ct_memory ct) start (unat (bf_segmentSize (ct_buffer ct))) = snd (snd (content q)))"

lemma start_room:
  assumes "mapped ct" "deliverable ct content q"
  shows "2 ^ 32 \<le> unat (startOf ct content q) \<and>
    unat (startOf ct content q) + unat (bf_segmentSize (ct_buffer ct)) + 2 ^ 32 < 2 ^ 64"
proof -
  let ?b = "unat (ct_base ct)" let ?l = "unat (bf_lineSize (ct_buffer ct))"
  let ?s = "unat (fst (content q))" let ?S = "unat (bf_segmentSize (ct_buffer ct))"
  have room: "2 ^ 32 \<le> ?b" "?b + unat (bf_numSegments (ct_buffer ct)) * ?l + 2 ^ 32 < 2 ^ 64" "?S \<le> ?l"
    using assms(1) by (simp_all add: mapped_def)
  have "Suc ?s \<le> unat (bf_numSegments (ct_buffer ct))"
    using assms(2) by (auto simp: deliverable_def word_less_nat_alt)
  then have "Suc ?s * ?l \<le> unat (bf_numSegments (ct_buffer ct)) * ?l" by (rule mult_le_mono1)
  then have fits: "?b + ?s * ?l + ?S + 2 ^ 32 < 2 ^ 64" using room by simp
  have offset: "unat (ucast (fst (content q)) * bf_lineSize (ct_buffer ct)) = ?s * ?l"
    using fits by (subst unat_mult_lem [THEN iffD1]) (simp_all add: unat_ucast_u64)
  have "unat (startOf ct content q) = ?b + ?s * ?l"
    unfolding startOf_def using fits offset by (subst unat_add_lem [THEN iffD1]) simp_all
  then show ?thesis using fits room(1) by simp
qed

lemma add_room:
  assumes "unat a + S + 2 ^ 32 < 2 ^ 64" "x \<le> S + 2 ^ 32"
  shows "unat ((a :: u64) + of_nat x) = unat a + x"
proof -
  have "unat (of_nat x :: u64) = x" using assms by (intro unat_of_nat_small) simp
  then show ?thesis using assms by (subst unat_add_lem [THEN iffD1]) simp_all
qed

lemma length_readMemory [simp]: "length (readMemory mem a n) = n"
  by (simp add: readMemory_def)

lemma nth_readMemory: "i < n \<Longrightarrow> readMemory mem a n ! i = mem (a + of_nat i)"
  by (simp add: readMemory_def)

lemma read_written:
  assumes "length bs < 2 ^ 64"
  shows "readMemory (writeMemory a bs mem) a (length bs) = bs"
proof (rule nth_equalityI)
  fix i assume "i < length (readMemory (writeMemory a bs mem) a (length bs))"
  then have i: "i < length bs" by simp
  then have "unat (of_nat i :: u64) = i" using assms by (intro unat_of_nat_small) simp
  then show "readMemory (writeMemory a bs mem) a (length bs) ! i = bs ! i"
    using i by (simp add: nth_readMemory writeMemory_def)
qed simp

lemma read_part:
  assumes "i + m \<le> n"
  shows "readMemory mem (a + of_nat i) m = take m (drop i (readMemory mem a n))"
  by (rule nth_equalityI) (use assms in \<open>simp_all add: nth_readMemory add.assoc\<close>)

lemma servedBy_open:
  assumes "open_lookup type v flags st = Inr (q, f, w)" "content q = (slot, ctrl, bytes)"
  shows "cn_open (servedBy st es content) (type, v, flags, c) = Inr (slot, entryOffset es type flags ctrl, ctrl, bytes)"
  using assms by (simp add: servedBy_def)

lemma servedBy_fails:
  assumes "open_lookup type v flags st = Inl e"
  shows "cn_open (servedBy st es content) (type, v, flags, c) = Inl e"
  using assms by (simp add: servedBy_def)

text \<open>What the initialisation of a read handle sets, when the segment fits.\<close>

lemma initialize_read:
  assumes ok: "mapped ct" and q: "deliverable ct content q"
    and c: "content q = (slot, ctrl, bytes)" "ct_control ct slot = ctrl"
  shows "initializeStaticHandle ct slot SsfRead aflags off h =
    (Inr (), h\<lparr>hd_flags := SsfRead, hd_accessFlags := aflags, hd_entrySize := ct_entrySize ct, hd_segment := slot,
       hd_control := Some slot, hd_sequenceNumber := q, hd_segmentStart := startOf ct content q,
       hd_segmentEnd := startOf ct content q + of_nat (unat (getEntrySize (ct_entrySize ct)) * rawCount content q),
       hd_entry := startOf ct content q + off\<rparr>)"
proof -
  have valid: "slot < bf_numSegments (ct_buffer ct)" "ln_sequenceNumber (ce_link ctrl) = q"
    and fit: "unat (getEntrySize (ct_entrySize ct)) * unat (ce_rawEntryCount ctrl) \<le> unat (bf_segmentSize (ct_buffer ct))"
    using q c by (simp_all add: deliverable_def)
  have "unat (bf_segmentSize (ct_buffer ct)) < 2 ^ 32" using ok by (simp add: mapped_def)
  then have "unat (getEntrySize (ct_entrySize ct) * ce_rawEntryCount ctrl) = unat (getEntrySize (ct_entrySize ct)) * unat (ce_rawEntryCount ctrl)"
    using fit by (subst unat_mult_lem [THEN iffD1]) simp_all
  moreover have "ucast (getEntrySize (ct_entrySize ct) * ce_rawEntryCount ctrl) = (of_nat (unat (getEntrySize (ct_entrySize ct) * ce_rawEntryCount ctrl)) :: u64)"
    by simp
  ultimately have size: "ucast (getEntrySize (ct_entrySize ct) * ce_rawEntryCount ctrl) =
      (of_nat (unat (getEntrySize (ct_entrySize ct)) * unat (ce_rawEntryCount ctrl)) :: u64)"
    by (simp only:)
  show ?thesis
    using valid ok c size
    by (simp add: initializeStaticHandle_def getControlElement_def getSegment_def getSegmentEnd_def unit_size address_def
        not_le throwOn_def startOf_def rawCount_def mapped_def isSet_def SsfRead_def add.assoc)
qed

lemma open_delivered:
  assumes ok: "mapped ct" and q: "deliverable ct content q"
    and c: "content q = (slot, ctrl, bytes)"
    and reply: "\<And>c. cn_open env (type, v, flags, c) = Inr (slot, off, ctrl, bytes)"
    and h: "hd_flags (ct_handle ct p) = SsfRead" "flags = SafNone \<Longrightarrow> hd_accessFlags (ct_handle ct p) = SafNone"
  shows "\<exists>ct1. stStreamOpen env False type v flags (Some p) ct = (Some p, ct1) \<and>
    sameStream ct ct1 \<and> inSegment ct1 content p q \<and> hd_entry (ct_handle ct1 p) = startOf ct content q + off"
proof -
  have valid: "slot < bf_numSegments (ct_buffer ct)" "slot \<noteq> INVALID_SEGMENT_ID"
    and len: "length bytes = unat (bf_segmentSize (ct_buffer ct))" using q c by (simp_all add: deliverable_def)
  have start: "address ct' (getSegment (ct_buffer ct) slot) = Inr (startOf ct content q)" if "ct_base ct' = ct_base ct" for ct'
    using valid c that by (simp add: address_def getSegment_def throwOn_def not_le startOf_def)
  define ct0 where "ct0 = (if flags = SafNone then ct else setHandle p ((ct_handle ct p)\<lparr>hd_accessFlags := flags\<rparr>) ct)"
  have base: "ct_base ct0 = ct_base ct" "ct_buffer ct0 = ct_buffer ct" "ct_entrySize ct0 = ct_entrySize ct"
      "ct_memory ct0 = ct_memory ct"
    by (simp_all add: ct0_def setHandle_def)
  define ct2 where "ct2 = receiveSegment slot ctrl bytes ct0"
  have same: "sameStream ct ct2" "ct_control ct2 slot = ctrl"
      "ct_memory ct2 = writeMemory (startOf ct content q) bytes (ct_memory ct)"
    unfolding ct2_def using start [OF base(1)] base
    by (simp_all add: receiveSegment_def receiveControl_def sameStream_def)
  note init = initialize_read [where content = content and q = q, OF mapped_same [OF same(1) ok] _ c same(2), unfolded deliverable_same [OF same(1)], OF q]
  define h2 where "h2 = snd (initializeStaticHandle ct2 slot SsfRead flags off (ct_handle ct2 p))"
  have "stStreamOpen env False type v flags (Some p) ct = (Some p, setHandle p h2 ct2)"
    using h valid c reply init
    by (auto simp: stStreamOpen_def clientOpen_def staticOpen_def placeHandle_def ct2_def ct0_def h2_def isSet_def
        SsfRead_def)
  moreover have "sameStream ct (setHandle p h2 ct2)" using same(1) by (simp add: sameStream_def setHandle_def)
  moreover have "startOf (setHandle p h2 ct2) content q = startOf ct content q"
    by (rule startOf_same [OF calculation(2)])
  moreover have "readMemory (ct_memory ct2) (startOf ct content q) (length bytes) = bytes"
    unfolding same(3) by (rule read_written) (use len ok in \<open>simp add: mapped_def\<close>)
  ultimately show ?thesis
    using init startOf_same [OF same(1)] len c same(1)
    by (auto simp: inSegment_def h2_def setHandle_def sameStream_def Let_def)
qed

lemma open_read:
  assumes "mapped ct" "deliverable ct content q" "open_lookup type v flags st = Inr (q, f, w)"
    and "hd_flags (ct_handle ct p) = SsfRead" "flags = SafNone \<Longrightarrow> hd_accessFlags (ct_handle ct p) = SafNone"
    and off: "entryOffset (ct_entrySize ct) type flags (fst (snd (content q))) = off"
  shows "\<exists>ct1. stStreamOpen (servedBy st (ct_entrySize ct) content) False type v flags (Some p) ct = (Some p, ct1) \<and>
    sameStream ct ct1 \<and> inSegment ct1 content p q \<and> hd_entry (ct_handle ct1 p) = startOf ct content q + off"
proof -
  obtain slot ctrl bytes where c: "content q = (slot, ctrl, bytes)" by (cases "content q")
  show ?thesis
    using open_delivered [OF assms(1,2) c servedBy_open [where content = content and q = q and es = "ct_entrySize ct", OF assms(3) c] assms(4,5)] c off
    by simp
qed

lemma open_end:
  assumes lookup: "open_lookup type v flags st = Inl e"
    and h: "hd_flags (ct_handle ct p) = SsfRead" "flags = SafNone \<Longrightarrow> hd_accessFlags (ct_handle ct p) = SafNone"
  shows "\<exists>ct1. stStreamOpen (servedBy st es content) False type v flags (Some p) ct = (Some p, ct1) \<and>
    hd_control (ct_handle ct1 p) = None"
  using h servedBy_fails [OF lookup]
  by (auto simp: stStreamOpen_def clientOpen_def staticOpen_def isSet_def SsfRead_def invalidateOptional_def
      invalidateStaticHandle_def setHandle_def)

section \<open>Stepping\<close>

text \<open>The handle with the entry: it is returned and read, and the handle moves.\<close>

lemma readable_mapped: "readable st content ct \<Longrightarrow> mapped ct"
  by (simp add: readable_def)

lemma fixed_entry: "readable st content ct \<Longrightarrow> getEntrySize (ct_entrySize ct) = ct_entrySize ct"
  by (simp add: readable_def fixed_size)

lemma entry_positive: "readable st content ct \<Longrightarrow> 0 < unat (ct_entrySize ct)"
  using fixed_entry [of st content ct] by (auto simp: readable_def mapped_def word_less_nat_alt)

lemma segment_fits:
  assumes "readable st content ct" "deliverable ct content q" "k < rawCount content q"
  shows "k * unat (ct_entrySize ct) + unat (ct_entrySize ct) \<le> unat (bf_segmentSize (ct_buffer ct))"
proof -
  have "Suc k * unat (ct_entrySize ct) \<le> rawCount content q * unat (ct_entrySize ct)"
    using assms(3) by (intro mult_le_mono1) simp
  then show ?thesis using assms(2) fixed_entry [OF assms(1)] by (auto simp: deliverable_def rawCount_def mult.commute)
qed

lemma step_entry:
  assumes ok: "readable st content ct" "deliverable ct content q" and at: "inSegment ct content p q"
    and k: "k < rawCount content q" "hd_entry (ct_handle ct p) = startOf ct content q + of_nat (k * unat (ct_entrySize ct))"
  shows "\<exists>entry ct1. stepEntry forward p ct = (entry, ct1) \<and> entry \<noteq> 0 \<and> sameStream ct ct1 \<and> inSegment ct1 content p q \<and>
    readMemory (ct_memory ct1) entry (unat (ct_entrySize ct)) = entryAt (unat (ct_entrySize ct)) (snd (snd (content q))) k \<and>
    hd_entry (ct_handle ct1 p) =
      (if forward then startOf ct content q + of_nat (Suc k * unat (ct_entrySize ct))
       else startOf ct content q + of_nat (k * unat (ct_entrySize ct)) - ucast (ct_entrySize ct))"
proof -
  let ?E = "unat (ct_entrySize ct)" let ?s = "startOf ct content q"
  note fit = segment_fits [OF ok k(1)]
  have "unat (?s + of_nat (k * ?E)) = unat ?s + k * ?E"
    by (rule add_room [where S = "unat (bf_segmentSize (ct_buffer ct))"]) (use start_room [OF readable_mapped [OF ok(1)] ok(2)] fit in simp_all)
  then have "?s + of_nat (k * ?E) \<noteq> 0" using start_room [OF readable_mapped [OF ok(1)] ok(2)] by auto
  moreover have "readMemory (ct_memory ct) (?s + of_nat (k * ?E)) ?E = entryAt ?E (snd (snd (content q))) k"
    using read_part [OF fit, of "ct_memory ct" ?s] at by (simp only: inSegment_def Let_def entryAt_def)
  ultimately show ?thesis
    using at k(2)
    by (auto simp: stepEntry_def Let_def inSegment_def setHandle_def sameStream_def startOf_def algebra_simps)
qed

text \<open>Both directions request a segment in the same way.\<close>

definition turn :: "nat \<Rightarrow> u32 \<Rightarrow> client_stream \<Rightarrow> client_stream" where
  "turn p flags ct = setHandle p ((ct_handle ct p)\<lparr>hd_accessFlags := flags\<rparr>) ct"

definition advance :: "client_env \<Rightarrow> bool \<Rightarrow> nat \<Rightarrow> u32 \<Rightarrow> u32 \<Rightarrow> client_stream \<Rightarrow> u64 \<times> nat option \<times> client_stream" where
  "advance env forward p q flags ct =
     (case stStreamOpen env False (if forward then QNextValidSequenceNumber else QPreviousValidSequenceNumber) (ucast q) flags
             (Some p) (turn p flags ct) of
        (None, ct1) \<Rightarrow> (0, None, ct1)
      | (Some q, ct1) \<Rightarrow>
          if hd_control (ct_handle ct1 q) = None then (0, Some q, ct1)
          else (case stepEntry forward q ct1 of (entry, ct2) \<Rightarrow> (entry, Some q, ct2)))"

lemma next_within:
  assumes ok: "readable st content ct" "deliverable ct content q" and at: "inSegment ct content p q"
    and k: "k < rawCount content q" "hd_entry (ct_handle ct p) = startOf ct content q + of_nat (k * unat (ct_entrySize ct))"
  shows "stGetNextEntryFast env p ct = (case stepEntry True p ct of (entry, ct1) \<Rightarrow> (entry, Some p, ct1))"
proof -
  let ?E = "unat (ct_entrySize ct)" let ?s = "startOf ct content q" let ?S = "unat (bf_segmentSize (ct_buffer ct))"
  note room = start_room [OF readable_mapped [OF ok(1)] ok(2)]
  have "Suc k * ?E \<le> rawCount content q * ?E" using k(1) by (intro mult_le_mono1) simp
  then have le: "Suc k * ?E \<le> ?E * rawCount content q" by (simp add: mult.commute)
  have all: "?E * rawCount content q \<le> ?S" using ok(2) fixed_entry [OF ok(1)] by (auto simp: deliverable_def rawCount_def)
  have "unat (?s + of_nat (Suc k * ?E)) = unat ?s + Suc k * ?E"
      "unat (?s + of_nat (?E * rawCount content q)) = unat ?s + ?E * rawCount content q"
    by (rule add_room [where S = ?S]; use room le all in simp)+
  then have "\<not> ?s + of_nat (?E * rawCount content q) < ?s + of_nat (Suc k * ?E)"
    using le unfolding word_less_nat_alt by linarith
  moreover have "hd_entry (ct_handle ct p) + ucast (hd_entrySize (ct_handle ct p)) = ?s + of_nat (Suc k * ?E)"
    using at k(2) by (simp add: inSegment_def Let_def)
  moreover have "hd_segmentEnd (ct_handle ct p) = ?s + of_nat (?E * rawCount content q)"
    using at fixed_entry [OF ok(1)] by (simp add: inSegment_def Let_def)
  ultimately show ?thesis by (simp only: stGetNextEntryFast_def Let_def if_False)
qed

lemma next_over:
  assumes ok: "readable st content ct" "deliverable ct content q" and at: "inSegment ct content p q"
    and k: "hd_entry (ct_handle ct p) = startOf ct content q + of_nat (rawCount content q * unat (ct_entrySize ct))"
  shows "stGetNextEntryFast env p ct =
    advance env True p q (hd_accessFlags (ct_handle ct p) AND NOT SafReverseRead) ct"
proof -
  let ?E = "unat (ct_entrySize ct)" let ?s = "startOf ct content q" let ?S = "unat (bf_segmentSize (ct_buffer ct))"
  note room = start_room [OF readable_mapped [OF ok(1)] ok(2)]
  have all: "?E * rawCount content q \<le> ?S" using ok(2) fixed_entry [OF ok(1)] by (auto simp: deliverable_def rawCount_def)
  have E: "0 < ?E" "?E < 2 ^ 32" using unsigned_less [of "ct_entrySize ct"]
    entry_positive [OF ok(1)] by simp_all
  have "unat (?s + of_nat (?E * rawCount content q + ?E)) = unat ?s + (?E * rawCount content q + ?E)"
      "unat (?s + of_nat (?E * rawCount content q)) = unat ?s + ?E * rawCount content q"
    by (rule add_room [where S = ?S]; use room all E in simp)+
  then have "?s + of_nat (?E * rawCount content q) < ?s + of_nat (?E * rawCount content q + ?E)"
    using E by (simp add: word_less_nat_alt)
  moreover have "hd_entry (ct_handle ct p) + ucast (hd_entrySize (ct_handle ct p)) = ?s + of_nat (?E * rawCount content q + ?E)"
    using at k by (simp add: inSegment_def Let_def mult.commute)
  moreover have "hd_segmentEnd (ct_handle ct p) = ?s + of_nat (?E * rawCount content q)"
    using at fixed_entry [OF ok(1)] by (simp add: inSegment_def Let_def)
  moreover have "isSet (hd_flags (ct_handle ct p)) SsfRead" "\<not> isSet (hd_flags (ct_handle ct p)) SsfDynamic"
      "hd_sequenceNumber (ct_handle ct p) = q"
    using at by (simp_all add: inSegment_def Let_def isSet_def SsfRead_def SsfDynamic_def)
  ultimately show ?thesis by (simp add: stGetNextEntryFast_def Let_def advance_def turn_def)
qed

lemma entryOffset_simps [simp]:
  "entryOffset es QNextValidSequenceNumber flags ctrl = 0"
  "entryOffset es QPreviousValidSequenceNumber flags ctrl = ucast (getEntrySize es * ce_rawEntryCount ctrl) - ucast (getEntrySize es)"
  by (simp_all add: entryOffset_def)

lemma last_offset:
  assumes "readable st content ct" "deliverable ct content q"
  shows "ucast (getEntrySize (ct_entrySize ct) * ce_rawEntryCount (fst (snd (content q)))) - ucast (getEntrySize (ct_entrySize ct)) =
    (of_nat ((rawCount content q - 1) * unat (ct_entrySize ct)) :: u64)"
proof -
  let ?r = "unat (ce_rawEntryCount (fst (snd (content q))))" let ?E = "unat (ct_entrySize ct)"
  have "?E * ?r \<le> unat (bf_segmentSize (ct_buffer ct))" and r: "0 < ?r"
    using assms(2) fixed_entry [OF assms(1)] by (auto simp: deliverable_def)
  then have "?E * ?r < 2 ^ 32" using readable_mapped [OF assms(1)] by (simp add: mapped_def)
  then have "unat (ct_entrySize ct * ce_rawEntryCount (fst (snd (content q)))) = ?E * ?r"
    by (subst unat_mult_lem [THEN iffD1]) simp_all
  moreover have "ucast (ct_entrySize ct * ce_rawEntryCount (fst (snd (content q)))) =
      (of_nat (unat (ct_entrySize ct * ce_rawEntryCount (fst (snd (content q))))) :: u64)" by simp
  ultimately have "ucast (ct_entrySize ct * ce_rawEntryCount (fst (snd (content q)))) = (of_nat (?E * ?r) :: u64)"
    by (simp only:)
  moreover have "?E * ?r = (rawCount content q - 1) * ?E + ?E"
    using r by (cases ?r) (simp_all add: rawCount_def)
  ultimately show ?thesis using fixed_entry [OF assms(1)] by simp
qed

definition following :: "server_stream \<Rightarrow> bool \<Rightarrow> nat \<Rightarrow> nat list" where
  "following st forward i = (if forward then storedFrom st (Suc i) else rev (storedBefore st i))"

lemma following_Cons:
  assumes "following st forward i = j # js" "i < length (ss_segments st)"
  shows "j < length (ss_segments st) \<and> present st j \<and> js = following st forward j"
  using assms storedFrom_Cons [of st "Suc i" j js] storedBefore_snoc [of st i j js]
  by (auto simp: following_def split: if_splits)

lemma find_following:
  assumes "readable st content ct" "i < length (ss_segments st)"
  shows "findSequenceNumber (if forward then QNextValidSequenceNumber else QPreviousValidSequenceNumber) (ucast (of_nat i :: u32)) st =
    Inr (case following st forward i of [] \<Rightarrow> INVALID_STREAM_SEGMENT_ID | j # _ \<Rightarrow> of_nat j)"
  using find_next [OF assms] find_previous [OF assms] by (simp add: following_def)

text \<open>At the end of the table no entry is returned, otherwise the first (last) of the segment that follows.\<close>

lemma advance_end:
  assumes ok: "readable st content ct" "i < length (ss_segments st)" and flags: "hd_flags (ct_handle ct p) = SsfRead"
    and none: "following st forward i = []"
  shows "\<exists>ct1. advance (servedBy st es content) forward p (of_nat i) flags ct = (0, Some p, ct1)"
proof -
  let ?type = "if forward then QNextValidSequenceNumber else QPreviousValidSequenceNumber"
  have "open_lookup ?type (ucast (of_nat i :: u32)) flags st = Inl NotFoundException"
    using lookup_missing [OF ok(1)] find_following [OF ok, of forward] none by simp
  from open_end [OF this, of "turn p flags ct" p es content] flags show ?thesis
    by (auto simp: advance_def turn_def setHandle_def)
qed

lemma advance_next:
  assumes ok: "readable st content ct" "i < length (ss_segments st)" and flags: "hd_flags (ct_handle ct p) = SsfRead"
    and next': "following st forward i = j # js"
  shows "\<exists>ct1. advance (servedBy st (ct_entrySize ct) content) forward p (of_nat i) flags ct =
      (case stepEntry forward p ct1 of (entry, ct2) \<Rightarrow> (entry, Some p, ct2)) \<and>
    sameStream ct ct1 \<and> inSegment ct1 content p (of_nat j) \<and>
    hd_entry (ct_handle ct1 p) = startOf ct content (of_nat j) +
      of_nat ((if forward then 0 else rawCount content (of_nat j) - 1) * unat (ct_entrySize ct))"
proof -
  let ?type = "if forward then QNextValidSequenceNumber else QPreviousValidSequenceNumber"
  define ct0 where "ct0 = turn p flags ct"
  have same: "sameStream ct ct0" by (simp add: ct0_def turn_def setHandle_def sameStream_def)
  have E: "ct_entrySize ct0 = ct_entrySize ct" using same by (simp add: sameStream_def)
  have h: "hd_flags (ct_handle ct0 p) = SsfRead" "hd_accessFlags (ct_handle ct0 p) = flags"
    using flags by (simp_all add: ct0_def turn_def setHandle_def)
  note j = following_Cons [OF next' ok(2)]
  have del: "deliverable ct content (of_nat j)" using readable_D [OF ok(1)] j by blast
  then have del0: "deliverable ct0 content (of_nat j)" by (simp add: deliverable_same [OF same])
  obtain f w where "open_lookup ?type (ucast (of_nat i :: u32)) flags st = Inr (of_nat j, f, w)"
    using lookup_found [OF ok(1)] find_following [OF ok, of forward] next' j by fastforce
  from open_read [OF mapped_same [OF same readable_mapped [OF ok(1)]] del0 this h(1) _ refl] h(2)
  obtain ct1 where ct1: "stStreamOpen (servedBy st (ct_entrySize ct) content) False ?type (ucast (of_nat i :: u32)) flags (Some p) ct0 =
      (Some p, ct1)" "sameStream ct0 ct1" "inSegment ct1 content p (of_nat j)"
      "hd_entry (ct_handle ct1 p) = startOf ct0 content (of_nat j) +
        entryOffset (ct_entrySize ct) ?type flags (fst (snd (content (of_nat j))))"
    unfolding E by auto
  have "entryOffset (ct_entrySize ct) ?type flags (fst (snd (content (of_nat j)))) =
      of_nat ((if forward then 0 else rawCount content (of_nat j) - 1) * unat (ct_entrySize ct))"
    using last_offset [OF ok(1) del] by simp
  moreover have "hd_control (ct_handle ct1 p) \<noteq> None" using ct1(3) by (simp add: inSegment_def Let_def)
  ultimately show ?thesis
    using ct1 sameStream_trans [OF same ct1(2)] startOf_same [OF same]
    by (intro exI [of _ ct1]) (auto simp: advance_def ct0_def [symmetric])
qed

lemma previous_within:
  assumes ok: "readable st content ct" "deliverable ct content q" and at: "inSegment ct content p q"
    and k: "k < rawCount content q" "hd_entry (ct_handle ct p) = startOf ct content q + of_nat (k * unat (ct_entrySize ct))"
  shows "stGetPreviousEntryFast env p ct = (case stepEntry False p ct of (entry, ct1) \<Rightarrow> (entry, Some p, ct1))"
proof -
  let ?s = "startOf ct content q"
  have "unat (?s + of_nat (k * unat (ct_entrySize ct))) = unat ?s + k * unat (ct_entrySize ct)"
    by (rule add_room [where S = "unat (bf_segmentSize (ct_buffer ct))"])
      (use start_room [OF readable_mapped [OF ok(1)] ok(2)] segment_fits [OF ok k(1)] in simp_all)
  then have "\<not> ?s + of_nat (k * unat (ct_entrySize ct)) < ?s" unfolding word_less_nat_alt by linarith
  moreover have "hd_segmentStart (ct_handle ct p) = ?s" using at fixed_entry [OF ok(1)] by (simp add: inSegment_def Let_def)
  ultimately show ?thesis using k(2) by (simp only: stGetPreviousEntryFast_def Let_def if_False)
qed

lemma previous_over:
  assumes ok: "readable st content ct" "deliverable ct content q" and at: "inSegment ct content p q"
    and k: "hd_entry (ct_handle ct p) = startOf ct content q - ucast (ct_entrySize ct)"
  shows "stGetPreviousEntryFast env p ct = advance env False p q (hd_accessFlags (ct_handle ct p) OR SafReverseRead) ct"
proof -
  let ?s = "startOf ct content q"
  have E: "0 < unat (ct_entrySize ct)" "unat (ct_entrySize ct) < 2 ^ 32"
    using unsigned_less [of "ct_entrySize ct"] entry_positive [OF ok(1)] by simp_all
  have "unat (?s - ucast (ct_entrySize ct)) = unat ?s - unat (ct_entrySize ct)"
    using E start_room [OF readable_mapped [OF ok(1)] ok(2)] by (subst unat_sub) (simp_all add: word_le_nat_alt unat_ucast_u64)
  then have "?s - ucast (ct_entrySize ct) < ?s"
    using E start_room [OF readable_mapped [OF ok(1)] ok(2)] by (simp add: word_less_nat_alt)
  moreover have "hd_segmentStart (ct_handle ct p) = ?s" "\<not> isSet (hd_flags (ct_handle ct p)) SsfDynamic"
      "hd_sequenceNumber (ct_handle ct p) = q"
    using at by (simp_all add: inSegment_def Let_def isSet_def SsfRead_def SsfDynamic_def)
  ultimately show ?thesis using k by (simp add: stGetPreviousEntryFast_def Let_def advance_def turn_def)
qed

lemma getEntry_within:
  assumes "readable st content ct" "deliverable ct content q" "inSegment ct content p q"
    and "k < rawCount content q" "hd_entry (ct_handle ct p) = startOf ct content q + of_nat (k * unat (ct_entrySize ct))"
  shows "getEntry env forward p ct = (case stepEntry forward p ct of (entry, ct1) \<Rightarrow> (entry, Some p, ct1))"
  using next_within [OF assms] previous_within [OF assms] by (simp add: getEntry_def)

text \<open>
  The position of a handle: \<open>k\<close> entries of the segment were returned (stepping forwards), or \<open>k\<close> are left
  (stepping backwards).
\<close>

definition position :: "client_stream \<Rightarrow> content \<Rightarrow> bool \<Rightarrow> u32 \<Rightarrow> nat \<Rightarrow> u64" where
  "position ct content forward q k =
     startOf ct content q + of_nat (k * unat (ct_entrySize ct)) - (if forward then 0 else ucast (ct_entrySize ct))"

definition unreadOf :: "nat \<Rightarrow> content \<Rightarrow> bool \<Rightarrow> nat \<Rightarrow> nat \<Rightarrow> u8 list list" where
  "unreadOf es content forward i k =
     (if forward then drop k (entriesOf es content i) else rev (take k (entriesOf es content i)))"

definition ordered :: "nat \<Rightarrow> content \<Rightarrow> bool \<Rightarrow> nat \<Rightarrow> u8 list list" where
  "ordered es content forward i = (if forward then entriesOf es content i else rev (entriesOf es content i))"

lemma length_entriesOf [simp]: "length (entriesOf es content i) = rawCount content (of_nat i)"
  by (simp add: entriesOf_def)

lemma unreadOf_Cons:
  assumes "c < rawCount content (of_nat i)"
  shows "unreadOf es content forward i (if forward then c else Suc c) =
    entryAt es (snd (snd (content (of_nat i)))) c # unreadOf es content forward i (if forward then Suc c else c)"
proof -
  have c: "entriesOf es content i ! c = entryAt es (snd (snd (content (of_nat i)))) c"
    using assms by (simp add: entriesOf_def)
  show ?thesis
    using assms c Cons_nth_drop_Suc [of c "entriesOf es content i"]
    by (simp add: unreadOf_def take_Suc_conv_app_nth)
qed

lemma unreadOf_start: "unreadOf es content forward i (if forward then 0 else rawCount content (of_nat i)) = ordered es content forward i"
  by (simp add: unreadOf_def ordered_def)

lemma getEntry_over:
  assumes "readable st content ct" "deliverable ct content q" "inSegment ct content p q"
    and "hd_entry (ct_handle ct p) = position ct content forward q (if forward then rawCount content q else 0)"
  shows "\<exists>flags. getEntry env forward p ct = advance env forward p q flags ct"
  using next_over [OF assms(1-3)] previous_over [OF assms(1-3)] assms(4) by (auto simp: getEntry_def position_def)

text \<open>One entry, and then what the rest of the reading gives.\<close>

lemma reads_entry:
  assumes ok: "readable st content ct" "i < length (ss_segments st)" "present st i"
    and at: "inSegment ct content p (of_nat i)" "c < rawCount content (of_nat i)"
      "hd_entry (ct_handle ct p) = startOf ct content (of_nat i) + of_nat (c * unat (ct_entrySize ct))"
    and step: "getEntry env forward p ct0 = (case stepEntry forward p ct of (entry, ct1) \<Rightarrow> (entry, Some p, ct1))"
    and rest: "\<And>ct1. sameStream ct ct1 \<Longrightarrow> inSegment ct1 content p (of_nat i) \<Longrightarrow>
      hd_entry (ct_handle ct1 p) = position ct1 content forward (of_nat i) (if forward then Suc c else c) \<Longrightarrow>
      readEntries env forward n p ct1 =
        take n (unreadOf (unat (ct_entrySize ct)) content forward i (if forward then Suc c else c) @ later)"
  shows "readEntries env forward (Suc n) p ct0 =
    take (Suc n) (unreadOf (unat (ct_entrySize ct)) content forward i (if forward then c else Suc c) @ later)"
proof -
  have del: "deliverable ct content (of_nat i)" using readable_D [OF ok] by blast
  obtain entry ct1 where st: "stepEntry forward p ct = (entry, ct1)" "entry \<noteq> 0" "sameStream ct ct1"
      "inSegment ct1 content p (of_nat i)"
      "readMemory (ct_memory ct1) entry (unat (ct_entrySize ct)) =
        entryAt (unat (ct_entrySize ct)) (snd (snd (content (of_nat i)))) c"
      "hd_entry (ct_handle ct1 p) =
        (if forward then startOf ct content (of_nat i) + of_nat (Suc c * unat (ct_entrySize ct))
         else startOf ct content (of_nat i) + of_nat (c * unat (ct_entrySize ct)) - ucast (ct_entrySize ct))"
    using step_entry [OF ok(1) del at(1,2,3), of forward] by blast
  have E: "ct_entrySize ct1 = ct_entrySize ct" using st(3) by (simp add: sameStream_def)
  have "hd_entry (ct_handle ct1 p) = position ct1 content forward (of_nat i) (if forward then Suc c else c)"
    using st(6) startOf_same [OF st(3)] E
    by (cases forward) (simp_all add: position_def del: mult_Suc of_nat_Suc of_nat_mult)
  from rest [OF st(3,4) this] show ?thesis
    using step st(1,2,5) E by (simp add: unreadOf_Cons [OF at(2)])
qed

lemma reads_all:
  assumes "readable st content ct" "i < length (ss_segments st)" "present st i"
    and "inSegment ct content p (of_nat i)" "k \<le> rawCount content (of_nat i)"
    and "hd_entry (ct_handle ct p) = position ct content forward (of_nat i) k"
  shows "readEntries (servedBy st (ct_entrySize ct) content) forward n p ct =
    take n (unreadOf (unat (ct_entrySize ct)) content forward i k @
            concat (map (ordered (unat (ct_entrySize ct)) content forward) (following st forward i)))"
  using assms
proof (induction n arbitrary: ct i k)
  case (Suc n)
  let ?E = "unat (ct_entrySize ct)" let ?env = "servedBy st (ct_entrySize ct) content"
  have del: "deliverable ct content (of_nat i)" using readable_D [OF Suc.prems(1-3)] by blast
  have rest: "readEntries ?env forward n p ct1 = take n (unreadOf ?E content forward j (if forward then Suc c else c) @
        concat (map (ordered ?E content forward) (following st forward j)))"
    if "sameStream ct ct1" "j < length (ss_segments st)" "present st j" "inSegment ct1 content p (of_nat j)"
      "c < rawCount content (of_nat j)"
      "hd_entry (ct_handle ct1 p) = position ct1 content forward (of_nat j) (if forward then Suc c else c)" for ct1 j c
    using Suc.IH [OF readable_same [OF that(1) Suc.prems(1)] that(2-4) _ that(6)] that(1,5)
    by (simp add: sameStream_def split: if_splits)
  show ?case
  proof (cases "if forward then k < rawCount content (of_nat i) else 0 < k")
    case True
    define c where "c = (if forward then k else k - 1)"
    have k: "k = (if forward then c else Suc c)" and c: "c < rawCount content (of_nat i)"
      using True Suc.prems(5) by (auto simp: c_def split: if_splits)
    have entry: "hd_entry (ct_handle ct p) = startOf ct content (of_nat i) + of_nat (c * ?E)"
      using Suc.prems(6) by (cases forward) (simp_all add: position_def k)
    show ?thesis unfolding k
      by (rule reads_entry [OF Suc.prems(1-4) c entry getEntry_within [OF Suc.prems(1) del Suc.prems(4) c entry]])
        (rule rest [OF _ Suc.prems(2,3) _ c])
  next
    case False
    then have k: "k = (if forward then rawCount content (of_nat i) else 0)" using Suc.prems(5) by auto
    then have gone: "unreadOf ?E content forward i k = []" by (simp add: unreadOf_def)
    obtain flags where over: "getEntry ?env forward p ct = advance ?env forward p (of_nat i) flags ct"
      using getEntry_over [OF Suc.prems(1) del Suc.prems(4) Suc.prems(6) [unfolded k]] by blast
    have read: "hd_flags (ct_handle ct p) = SsfRead" using Suc.prems(4) by (simp add: inSegment_def Let_def)
    show ?thesis
    proof (cases "following st forward i")
      case Nil
      then show ?thesis using advance_end [where es = "ct_entrySize ct" and content = content and flags = flags, OF Suc.prems(1,2) read Nil] over gone by auto
    next
      case (Cons j js)
      note j = following_Cons [OF Cons Suc.prems(2)]
      define c where "c = (if forward then 0 else rawCount content (of_nat j) - 1)"
      obtain ct1 where ct1: "advance ?env forward p (of_nat i) flags ct =
          (case stepEntry forward p ct1 of (entry, ct2) \<Rightarrow> (entry, Some p, ct2))"
          "sameStream ct ct1" "inSegment ct1 content p (of_nat j)"
          "hd_entry (ct_handle ct1 p) = startOf ct content (of_nat j) + of_nat (c * ?E)"
        using advance_next [OF Suc.prems(1,2) read Cons] unfolding c_def by blast
      have delj: "deliverable ct content (of_nat j)" using readable_D [OF Suc.prems(1)] j by blast
      have raw: "c < rawCount content (of_nat j)"
        using delj by (auto simp: deliverable_def rawCount_def c_def)
      have all: "unreadOf ?E content forward j (if forward then c else Suc c) = ordered ?E content forward j"
        using unreadOf_start [of ?E content forward j] raw by (simp add: c_def split: if_splits)
      have E: "ct_entrySize ct1 = ct_entrySize ct" using ct1(2) by (simp add: sameStream_def)
      have "readEntries ?env forward (Suc n) p ct = take (Suc n) (unreadOf ?E content forward j (if forward then c else Suc c) @
          concat (map (ordered ?E content forward) (following st forward j)))"
        by (rule reads_entry [OF readable_same [OF ct1(2) Suc.prems(1)], unfolded E, OF _ _ ct1(3) raw])
          (use j ct1 over startOf_same [OF ct1(2)] rest [OF sameStream_trans [OF ct1(2)] _ _ _ raw] in auto)
      then show ?thesis using gone Cons j all by simp
    qed
  qed
qed simp

section \<open>Reading a stream\<close>

lemma open_new:
  assumes ok: "mapped ct" and q: "deliverable ct content q"
    and lookup: "open_lookup type v flags st = Inr (q, f, w)"
  shows "\<exists>p ct1. stStreamOpen (servedBy st (ct_entrySize ct) content) False type v flags None ct = (Some p, ct1) \<and>
    sameStream ct ct1 \<and> inSegment ct1 content p q \<and>
    hd_entry (ct_handle ct1 p) = startOf ct content q + entryOffset (ct_entrySize ct) type flags (fst (snd (content q)))"
proof -
  obtain slot ctrl bytes where c: "content q = (slot, ctrl, bytes)" by (cases "content q")
  have valid: "slot < bf_numSegments (ct_buffer ct)" "slot \<noteq> INVALID_SEGMENT_ID"
    and len: "length bytes = unat (bf_segmentSize (ct_buffer ct))" using q c by (simp_all add: deliverable_def)
  have nle: "\<not> bf_numSegments (ct_buffer ct) \<le> slot" using valid by simp
  define ct2 where "ct2 = receiveSegment slot ctrl bytes ct"
  have same: "sameStream ct ct2" "ct_control ct2 slot = ctrl"
      "ct_memory ct2 = writeMemory (startOf ct content q) bytes (ct_memory ct)"
    using nle c unfolding ct2_def
    by (simp_all add: receiveSegment_def receiveControl_def sameStream_def address_def getSegment_def throwOn_def startOf_def)
  define off where "off = entryOffset (ct_entrySize ct) type flags ctrl"
  note init = initialize_read [where content = content and q = q, OF mapped_same [OF same(1) ok] _ c same(2), unfolded deliverable_same [OF same(1)], OF q]
  define h2 where "h2 = snd (initializeStaticHandle ct2 slot SsfRead flags off newHandle)"
  define ct3 where "ct3 = snd (addHandle h2 ct2)"
  have "stStreamOpen (servedBy st (ct_entrySize ct) content) False type v flags None ct = (Some (ct_next ct2), ct3)"
    using valid c servedBy_open [where content = content and q = q, OF lookup c] init
    by (simp add: stStreamOpen_def clientOpen_def staticOpen_def placeHandle_def ct2_def [symmetric] h2_def ct3_def
        off_def addHandle_def Let_def)
  moreover have added: "ct_handle ct3 (ct_next ct2) = h2" "sameStream ct ct3" "ct_memory ct3 = ct_memory ct2"
    using same(1) by (auto simp: ct3_def addHandle_def setHandle_def sameStream_def Let_def)
  moreover have "readMemory (ct_memory ct2) (startOf ct content q) (length bytes) = bytes"
    unfolding same(3) by (rule read_written) (use len ok in \<open>simp add: mapped_def\<close>)
  ultimately show ?thesis
    using init startOf_same [OF same(1)] startOf_same [OF added(2)] len c same(1)
    by (intro exI [of _ "ct_next ct2"] exI [of _ ct3])
      (simp add: inSegment_def h2_def off_def Let_def, simp add: sameStream_def)
qed

text \<open>C23: Reading a static stream gives all its entries in order. A handle that is opened at a
  segment of the stream and steps forwards returns the entries of that segment and of all that
  follow in the table of the server, one after the other, and then \<open>NULL\<close>; a handle that is opened
  for reverse reading and steps backwards returns the entries of that segment and of all before
  it, from the last to the first. Holes in the table are skipped, and every pointer that is
  returned points to the bytes of its entry.\<close>

theorem client_reads_stream:
  assumes "readable st content ct"
    and "i < length (ss_segments st)" "present st i"
    and "isSet flags SafReverseRead \<longleftrightarrow> \<not> forward"
  shows "\<exists>p ct1. stStreamOpen (servedBy st (ct_entrySize ct) content) False QSequenceNumber (ucast (of_nat i :: u32)) flags None ct =
      (Some p, ct1) \<and>
    readEntries (servedBy st (ct_entrySize ct) content) forward n p ct1 =
      take n (concat (map (ordered (unat (ct_entrySize ct)) content forward) (i # following st forward i)))"
proof -
  let ?E = "unat (ct_entrySize ct)" let ?k = "if forward then 0 else rawCount content (of_nat i)"
  have del: "deliverable ct content (of_nat i)" using readable_D [OF assms(1-3)] by blast
  have "findSequenceNumber QSequenceNumber (ucast (of_nat i :: u32)) st = Inr (of_nat i)"
    by (simp add: findSequenceNumber_def ucast_u32)
  then obtain f w where "open_lookup QSequenceNumber (ucast (of_nat i :: u32)) flags st = Inr (of_nat i, f, w)"
    using lookup_found [OF assms(1) _ assms(2,3)] by blast
  from open_new [OF readable_mapped [OF assms(1)] del this] obtain p ct1 where op:
      "stStreamOpen (servedBy st (ct_entrySize ct) content) False QSequenceNumber (ucast (of_nat i :: u32)) flags None ct = (Some p, ct1)"
      "sameStream ct ct1" "inSegment ct1 content p (of_nat i)"
      "hd_entry (ct_handle ct1 p) = startOf ct content (of_nat i) +
        entryOffset (ct_entrySize ct) QSequenceNumber flags (fst (snd (content (of_nat i))))"
    by blast
  have E: "ct_entrySize ct1 = ct_entrySize ct" using op(2) by (simp add: sameStream_def)
  have "0 < rawCount content (of_nat i)" using del by (auto simp: deliverable_def rawCount_def)
  then obtain r where r: "rawCount content (of_nat i) = Suc r" by (cases "rawCount content (of_nat i)") auto
  have "hd_entry (ct_handle ct1 p) = position ct1 content forward (of_nat i) ?k"
    using op(4) assms(4) last_offset [OF assms(1) del] startOf_same [OF op(2)] E r
    by (cases forward) (simp_all add: position_def entryOffset_def algebra_simps)
  from reads_all [OF readable_same [OF op(2) assms(1)] assms(2,3) op(3) _ this]
  have "readEntries (servedBy st (ct_entrySize ct) content) forward n p ct1 =
      take n (ordered ?E content forward i @ concat (map (ordered ?E content forward) (following st forward i)))"
    unfolding E unreadOf_start by simp
  then show ?thesis using op(1) by simp
qed

definition tableStream :: "server_buffer \<Rightarrow> server_stream" where
  "tableStream b =
     (newServerStream \<lparr>sr_store = 1, sr_id = 4, sr_typeFlags = 0, sr_entrySize = 2\<rparr> 0 (\<lambda>_. \<lparr>wc_count = 0, wc_errors = []\<rparr>) b)
       \<lparr>ss_segments := [Some (storedLocation 0 (storageLocation_link \<lparr>ln_stream = 4, ln_sequenceNumber = 0\<rparr>)), None,
                       Some (storedLocation 2 (storageLocation_link \<lparr>ln_stream = 4, ln_sequenceNumber = 2\<rparr>))],
        ss_lastSequenceNumber := 2\<rparr>"

definition client3 :: client_stream where
  "client3 =
     \<lparr>ct_entrySize = 2, ct_buffer = \<lparr>bf_id = 1, bf_segmentSize = 8, bf_lineSize = 72, bf_numSegments = 2\<rparr>,
      ct_base = 2 ^ 32, ct_isMaster = True, ct_control = (\<lambda>_. control_zero), ct_memory = (\<lambda>_. 0), ct_sent = [],
      ct_handle = (\<lambda>_. newHandle), ct_write = None, ct_read = [], ct_next = 0\<rparr>"

definition content3 :: content where
  "content3 q =
     (let ctrl = control_zero\<lparr>ce_link := \<lparr>ln_stream = 4, ln_sequenceNumber = q\<rparr>\<rparr>
      in if q = 0 then (0, ctrl\<lparr>ce_rawEntryCount := 3\<rparr>, [1, 2, 3, 4, 5, 6, 0, 0])
         else (1, ctrl\<lparr>ce_rawEntryCount := 1\<rparr>, [7, 8, 0, 0, 0, 0, 0, 0]))"

lemma readable3: "readable (tableStream b) content3 client3"
  by (simp add: readable_def mapped_def getEntrySize_def tableStream_def client3_def content3_def newServerStream_def storedLocation_def deliverable_def
      isVariableEntrySize_def VARIABLE_ENTRY_SIZE_FLAG_def INVALID_OBJECT_ID_def control_zero_def Let_def
      word_less_nat_alt upt_rec)

theorem client_reads_stream_witness:
  "\<forall>b. \<exists>p ct1. stStreamOpen (servedBy (tableStream b) 2 content3) False QSequenceNumber 0 SafNone None client3 = (Some p, ct1) \<and>
     readEntries (servedBy (tableStream b) 2 content3) True 9 p ct1 = [[1, 2], [3, 4], [5, 6], [7, 8]]"
proof
  fix b
  have "entriesOf 2 content3 0 = [[1, 2], [3, 4], [5, 6]]" "entriesOf 2 content3 2 = [[7, 8]]"
    by (simp_all add: entriesOf_def content3_def rawCount_def entryAt_def Let_def upt_rec)
  moreover have "following (tableStream b) True 0 = [2]"
    by (simp add: following_def storedFrom_def tableStream_def present_def upt_rec)
  ultimately show "\<exists>p ct1. stStreamOpen (servedBy (tableStream b) 2 content3) False QSequenceNumber 0 SafNone None client3 = (Some p, ct1) \<and>
     readEntries (servedBy (tableStream b) 2 content3) True 9 p ct1 = [[1, 2], [3, 4], [5, 6], [7, 8]]"
    using client_reads_stream [where st = "tableStream b" and i = 0 and flags = SafNone and forward = True and n = 9,
        OF readable3]
    by (simp add: tableStream_def present_def client3_def ordered_def isSet_def SafNone_def)
qed

section \<open>Invalidated handles\<close>

text \<open>C39: An invalidated read handle can not be used to step backwards again. Both step functions
  promise that an invalidated handle may be used to retry, and \<open>StGetNextEntryFast\<close> does ask the
  server again. But \<open>StGetPreviousEntryFast\<close> compares the entry with the start of the segment, which
  are both \<open>NULL\<close>: without a request it returns \<open>NULL\<close> and moves the entry to an address below zero,
  which is what the next call returns as a valid entry.\<close>

theorem invalidated_handle_goes_wild:
  assumes "ct_handle ct p = invalidateStaticHandle h" "hd_flags h = SsfRead" "0 < hd_entrySize h"
  shows "\<exists>ct1. stGetPreviousEntryFast env p ct = (0, Some p, ct1) \<and>
    fst (stGetPreviousEntryFast env p ct1) = - ucast (hd_entrySize h) \<and>
    stGetNextEntryFast env p ct =
      advance env True p (hd_sequenceNumber h) (hd_accessFlags h AND NOT SafReverseRead) ct"
  using assms
  by (auto simp: stGetPreviousEntryFast_def stGetNextEntryFast_def stepEntry_def setHandle_def invalidateStaticHandle_def
      Let_def isSet_def SsfRead_def SsfDynamic_def advance_def turn_def word_less_nat_alt unat_ucast_u64)

theorem invalidated_handle_goes_wild_witness:
  "\<forall>env. \<exists>ct1. stGetPreviousEntryFast env 0 (setHandle 0 (invalidateStaticHandle (newHandle\<lparr>hd_flags := SsfRead, hd_entrySize := 24\<rparr>)) client3) =
       (0, Some 0, ct1) \<and>
     fst (stGetPreviousEntryFast env 0 ct1) = - 24"
  using invalidated_handle_goes_wild [of "setHandle 0 (invalidateStaticHandle (newHandle\<lparr>hd_flags := SsfRead, hd_entrySize := 24\<rparr>)) client3"
      0 "newHandle\<lparr>hd_flags := SsfRead, hd_entrySize := 24\<rparr>"]
  by (auto simp: setHandle_def)

end
