(* ===== verification/Client_Data.thy ===== *)
theory Client_Data
  imports Client_Read
begin

text \<open>
  Data of variable size on the side of the client: \<open>StWriteVariableData\<close> may spread the blocks over
  several segments, and \<open>StReadVariableData\<close> follows them with the reference.
\<close>

section \<open>Segments that carry the blocks\<close>

text \<open>What the server gets to see of the segment of a write handle.\<close>

definition currentSegment :: "nat \<Rightarrow> client_stream \<Rightarrow> u32 \<times> SegmentControlElement \<times> u8 list" where
  "currentSegment p ct =
     (let h = ct_handle ct p in
      (hd_segment h, ct_control ct (hd_segment h),
       readMemory (ct_memory ct) (hd_segmentStart h) (unat (bf_segmentSize (ct_buffer ct)))))"

lemma sendSegment_current: "sendSegment p ct = ct\<lparr>ct_sent := ct_sent ct @ [currentSegment p ct]\<rparr>"
  by (simp add: sendSegment_def currentSegment_def Let_def)

text \<open>The number of raw entries and the content of such a segment.\<close>

definition frameOf :: "u32 \<times> SegmentControlElement \<times> u8 list \<Rightarrow> nat \<times> u8 list" where
  "frameOf seg = (case seg of (_, ctrl, bytes) \<Rightarrow> (unat (ce_rawEntryCount ctrl), bytes))"

definition sqnOf :: "u32 \<times> SegmentControlElement \<times> u8 list \<Rightarrow> u32" where
  "sqnOf seg = (case seg of (_, ctrl, _) \<Rightarrow> ln_sequenceNumber (ce_link ctrl))"

text \<open>
  Frames that hold the data from the raw entry \<open>r\<close> of the first frame on: all but the last are full
  and their blocks are continued.
\<close>

fun chained :: "nat \<Rightarrow> nat \<Rightarrow> nat \<Rightarrow> (nat \<times> u8 list) list \<Rightarrow> u8 list \<Rightarrow> bool" where
  "chained hint seg r [] source \<longleftrightarrow> False"
| "chained hint seg r ((n, bytes) # fs) source \<longleftrightarrow>
     r < n \<and> n * hint \<le> seg \<and>
     (if fs = [] then \<forall>rest. readVariableData (drop (r * hint) (take (n * hint) bytes) @ rest) = Some (True, source)
      else seg < n * hint + hint \<and>
        (\<exists>d1 d2. source = d1 @ d2 \<and>
          readVariableData (drop (r * hint) (take (n * hint) bytes)) = Some (False, d1) \<and> chained hint seg 0 fs d2))"

definition sizeHint :: "client_stream \<Rightarrow> nat" where
  "sizeHint ct = unat (getEntrySize (ct_entrySize ct))"

abbreviation segSize :: "client_stream \<Rightarrow> nat" where
  "segSize ct \<equiv> unat (bf_segmentSize (ct_buffer ct))"

text \<open>A write handle at a raw entry of a segment, and appends that succeed.\<close>

definition writing :: "client_stream \<Rightarrow> nat \<Rightarrow> u32 \<Rightarrow> nat \<Rightarrow> bool" where
  "writing ct p q r \<longleftrightarrow>
     (let h = ct_handle ct p; s = hd_segment h; start = ct_base ct + ucast s * bf_lineSize (ct_buffer ct) in
      hd_flags h = SsfNone \<and> hd_entrySize h = ct_entrySize ct \<and> hd_control h = Some s \<and>
      s < bf_numSegments (ct_buffer ct) \<and> hd_segmentStart h = start \<and>
      hd_segmentEnd h = start + bf_segmentSize (ct_buffer ct) \<and> hd_entry h = start + of_nat (r * sizeHint ct) \<and>
      ce_rawEntryCount (ct_control ct s) = of_nat r \<and> ln_sequenceNumber (ce_link (ct_control ct s)) = q \<and>
      r * sizeHint ct \<le> segSize ct)"

fun appends :: "client_stream \<Rightarrow> u32 \<Rightarrow> client_env list \<Rightarrow> bool" where
  "appends ct q [] \<longleftrightarrow> True"
| "appends ct q (env # envs) \<longleftrightarrow>
     (case cn_append env of
        Inl _ \<Rightarrow> False
      | Inr (slot, ctrl) \<Rightarrow>
          slot < bf_numSegments (ct_buffer ct) \<and> slot \<noteq> INVALID_SEGMENT_ID \<and>
          ln_sequenceNumber (ce_link ctrl) = q + 1 \<and> ce_rawEntryCount ctrl = 0) \<and>
     appends ct (q + 1) envs"

lemma appends_same: "sameStream ct ct' \<Longrightarrow> appends ct' q envs = appends ct q envs"
  by (induction envs arbitrary: q) (auto simp: sameStream_def split: sum.splits)

section \<open>Writing\<close>

lemma append_writing:
  assumes ok: "hd_flags (ct_handle ct p) = SsfNone" and env: "appends ct q (env # envs)"
  shows "\<exists>ct1. stStreamAppend env False (Some p) ct = (Some p, ct1) \<and> sameStream ct ct1 \<and> writing ct1 p (q + 1) 0 \<and>
    ct_sent ct1 = ct_sent ct @ [currentSegment p ct]"
proof -
  obtain slot ctrl where reply: "cn_append env = Inr (slot, ctrl)"
      and slot: "\<not> bf_numSegments (ct_buffer ct) \<le> slot" "slot \<noteq> INVALID_SEGMENT_ID"
        "ln_sequenceNumber (ce_link ctrl) = q + 1" "ce_rawEntryCount ctrl = 0"
    using env by (auto split: sum.splits)
  have flags: "\<not> isSet (hd_flags (ct_handle ct p)) SsfRead" "\<not> isSet SsfNone SsfRead"
    using ok by (simp_all add: writing_def Let_def isSet_def SsfNone_def SsfRead_def)
  define ct1 where "ct1 = snd (stStreamAppend env False (Some p) ct)"
  have "stStreamAppend env False (Some p) ct = (Some p, ct1)"
    using reply slot flags
    by (simp add: ct1_def stStreamAppend_def clientAppend_def staticAppend_def placeHandle_def initializeStaticHandle_def
        getControlElement_def getSegment_def throwOn_def address_def receiveControl_def sendSegment_current Let_def)
  moreover have "sameStream ct ct1 \<and> writing ct1 p (q + 1) 0 \<and> ct_sent ct1 = ct_sent ct @ [currentSegment p ct]"
    using reply slot flags
    by (simp add: ct1_def stStreamAppend_def clientAppend_def staticAppend_def placeHandle_def initializeStaticHandle_def
        getControlElement_def getSegment_def throwOn_def address_def receiveControl_def sendSegment_current Let_def
        sameStream_def writing_def setHandle_def sizeHint_def)
  ultimately show ?thesis by blast
qed

text \<open>What is written behind the blocks that are there.\<close>

lemma read_behind:
  assumes "i + length bs \<le> n" "n < 2 ^ 64"
  shows "drop i (take (i + length bs) (readMemory (writeMemory (a + of_nat i) bs mem) a n)) = bs"
proof (rule nth_equalityI)
  fix k assume "k < length (drop i (take (i + length bs) (readMemory (writeMemory (a + of_nat i) bs mem) a n)))"
  then have k: "k < length bs" using assms(1) by simp
  then have "unat (of_nat k :: u64) = k" using assms by (intro unat_of_nat_small) simp
  moreover have "a + of_nat (i + k) - (a + of_nat i) = (of_nat k :: u64)" by simp
  ultimately show "drop i (take (i + length bs) (readMemory (writeMemory (a + of_nat i) bs mem) a n)) ! k = bs ! k"
    using k assms(1) by (simp add: nth_readMemory writeMemory_def del: of_nat_add)
qed (use assms in simp)

lemma write_step:
  assumes at: "writing ct p q r" and ok: "mapped ct" "hint_ok (sizeHint ct)" "source \<noteq> []"
    and room: "r * sizeHint ct + sizeHint ct \<le> segSize ct"
    and w: "write_blocks (sizeHint ct) (segSize ct - r * sizeHint ct) source = (out, n, left)"
  shows "\<exists>ct1 e. writeDataLoop envs first p source ct =
      (if left = [] then Some (Some p, [], setHandle p ((ct_handle ct p)\<lparr>hd_entry := e\<rparr>) ct1)
       else (case envs of [] \<Rightarrow> None
             | env # envs1 \<Rightarrow>
                 (case stStreamAppend env False (Some p) ct1 of
                    (None, ct2) \<Rightarrow> Some (None, left, ct2)
                  | (Some p', ct2) \<Rightarrow> writeDataLoop envs1 False p' left ct2))) \<and>
    sameStream ct ct1 \<and> ct_handle ct1 = ct_handle ct \<and> ct_sent ct1 = ct_sent ct \<and> (r + n) * sizeHint ct \<le> segSize ct \<and>
    sqnOf (currentSegment p ct1) = q \<and> 0 < n \<and>
    (\<exists>bytes. frameOf (currentSegment p ct1) = (r + n, bytes) \<and>
       drop (r * sizeHint ct) (take ((r + n) * sizeHint ct) bytes) = out)"
proof -
  let ?h = "sizeHint ct" let ?S = "segSize ct"
  define hd where "hd = ct_handle ct p"
  define s where "s = hd_segment hd"
  define start where "start = ct_base ct + ucast s * bf_lineSize (ct_buffer ct)"
  have h: "hd_control hd = Some s" "hd_segmentStart hd = start" "hd_segmentEnd hd = start + bf_segmentSize (ct_buffer ct)"
      "hd_entry hd = start + of_nat (r * ?h)" "hd_entrySize hd = ct_entrySize ct"
      "ce_rawEntryCount (ct_control ct s) = of_nat r" "ln_sequenceNumber (ce_link (ct_control ct s)) = q"
    using at by (simp_all add: writing_def Let_def hd_def s_def start_def)
  have S: "?S < 2 ^ 32" using ok(1) by (simp add: mapped_def)
  have hint: "0 < ?h" using ok(2) by (simp add: hint_ok_def sizeof_VDataBlockHeader_def)
  note spec = write_blocks_spec [OF ok(2) _ ok(3) w, of "[]"]
  have out: "length out = n * ?h" "length out \<le> ?S - r * ?h" "0 < n"
      "left = drop (length source - length left) source" "length left < length source"
    using spec room by (simp_all only: nat_le_linear) (use spec room in simp_all)
  have fit: "(r + n) * ?h \<le> ?S" using out(1,2) room by (simp add: algebra_simps)
  then have "(r + n) * 1 \<le> ?S" using hint by (metis le_trans mult_le_mono2 Suc_leI One_nat_def)
  then have small: "r + n < 2 ^ 32" using S by simp
  have "of_nat ?S - of_nat (r * ?h) = (of_nat (?S - r * ?h) :: u64)" using room by (simp add: of_nat_diff)
  then have "hd_segmentEnd hd - hd_entry hd = of_nat (?S - r * ?h)" using h by simp
  moreover have "unat (of_nat (?S - r * ?h) :: u64) = ?S - r * ?h" using S by (intro unat_of_nat_small) simp
  ultimately have dest: "unat (hd_segmentEnd hd - hd_entry hd) = ?S - r * ?h" by simp
  have written: "writeVariableData (?S - r * ?h) source ?h = (length source - length left, out, Some n)"
    using w room by (simp add: writeVariableData_def)
  have "unat (of_nat n :: u32) = n" using small by (intro unat_of_nat_small) simp
  then have count: "(0 :: u32) < of_nat n" "(of_nat n :: u32) \<noteq> 0" using out(3) by (auto simp: word_less_nat_alt)
  define c1 where "c1 = (if first then (ct_control ct s)\<lparr>ce_entryCount := ce_entryCount (ct_control ct s) + 1\<rparr> else ct_control ct s)"
  define c2 where "c2 = c1\<lparr>ce_rawEntryCount := ce_rawEntryCount c1 + of_nat n\<rparr>"
  define ct1 where "ct1 = receiveControl s c2 ct\<lparr>ct_memory := writeMemory (hd_entry hd) out (ct_memory ct)\<rparr>"
  have c2: "ce_rawEntryCount c2 = of_nat (r + n)" "ln_sequenceNumber (ce_link c2) = q"
    using h by (simp_all add: c2_def c1_def)
  have raw: "unat (of_nat (r + n) :: u32) = r + n" using small by (intro unat_of_nat_small) simp
  have "drop (r * ?h) (take (r * ?h + length out) (readMemory (writeMemory (start + of_nat (r * ?h)) out (ct_memory ct)) start ?S)) = out"
    by (rule read_behind) (use out(2) room S in simp_all)
  then have content: "drop (r * ?h) (take ((r + n) * ?h) (readMemory (ct_memory ct1) start ?S)) = out"
    using h(4) out(1) by (simp add: ct1_def receiveControl_def algebra_simps)
  have hint_of: "unat (getSizeHint (ct_entrySize ct)) = ?h" by (simp add: sizeHint_def getSizeHint_def getEntrySize_def)
  have "writeDataLoop envs first p source ct =
      (if left = [] then Some (Some p, [], setHandle p (hd\<lparr>hd_entry := hd_entry hd + ucast (of_nat n * getSizeHint (hd_entrySize hd))\<rparr>) ct1)
       else (case envs of [] \<Rightarrow> None
             | env # envs1 \<Rightarrow>
                 (case stStreamAppend env False (Some p) ct1 of
                    (None, ct2) \<Rightarrow> Some (None, left, ct2)
                  | (Some p', ct2) \<Rightarrow> writeDataLoop envs1 False p' left ct2)))"
    using dest written count h out(4) [symmetric]
    by (subst writeDataLoop.simps)
      (simp add: Let_def hd_def [symmetric] hint_of c1_def c2_def ct1_def
        del: of_nat_mult split: list.split cong: prod.case_cong option.case_cong)
  moreover have "sameStream ct ct1" "ct_handle ct1 = ct_handle ct" "ct_sent ct1 = ct_sent ct"
    by (simp_all add: ct1_def receiveControl_def sameStream_def)
  moreover have "currentSegment p ct1 = (s, c2, readMemory (ct_memory ct1) start ?S)"
    using h by (simp add: currentSegment_def ct1_def receiveControl_def Let_def hd_def [symmetric] s_def)
  ultimately show ?thesis
    using fit out(3) c2 raw content
    by (intro exI [of _ ct1] exI [of _ "hd_entry hd + ucast (of_nat n * getSizeHint (hd_entrySize hd))"])
      (simp add: sqnOf_def frameOf_def hd_def [symmetric] del: of_nat_add)
qed

text \<open>The loop writes all the data if there are enough appends, one for every byte at most.\<close>

definition onward :: "nat \<Rightarrow> client_stream \<Rightarrow> client_stream \<Rightarrow> (u32 \<times> SegmentControlElement \<times> u8 list) list" where
  "onward p ct ct' = drop (length (ct_sent ct)) (ct_sent ct') @ [currentSegment p ct']"

lemma numbered:
  "map (\<lambda>k. (q :: u32) + of_nat k) [0..<Suc n] = q # map (\<lambda>k. (q + 1) + of_nat k) [0..<n]"
  by (simp only: upt_conv_Cons zero_less_Suc map_Suc_upt [symmetric]) (simp add: algebra_simps)

lemma loop_writes:
  assumes "writing ct p q r" "mapped ct" "hint_ok (sizeHint ct)" "source \<noteq> []"
    and "r * sizeHint ct + sizeHint ct \<le> segSize ct" "appends ct q envs" "length source \<le> length envs"
  shows "\<exists>ct1. writeDataLoop envs first p source ct = Some (Some p, [], ct1) \<and> sameStream ct ct1 \<and>
    take (length (ct_sent ct)) (ct_sent ct1) = ct_sent ct \<and>
    map sqnOf (onward p ct ct1) = map (\<lambda>k. q + of_nat k) [0..<length (onward p ct ct1)] \<and>
    chained (sizeHint ct) (segSize ct) r (map frameOf (onward p ct ct1)) source"
  using assms
proof (induction envs arbitrary: first ct q r source)
  case (Cons env envs)
  let ?h = "sizeHint ct" let ?S = "segSize ct"
  obtain out n left where w: "write_blocks ?h (?S - r * ?h) source = (out, n, left)"
    by (cases "write_blocks ?h (?S - r * ?h) source")
  obtain ct1 e bytes where step: "writeDataLoop (env # envs) first p source ct =
      (if left = [] then Some (Some p, [], setHandle p ((ct_handle ct p)\<lparr>hd_entry := e\<rparr>) ct1)
       else (case stStreamAppend env False (Some p) ct1 of
               (None, ct2) \<Rightarrow> Some (None, left, ct2)
             | (Some p', ct2) \<Rightarrow> writeDataLoop envs False p' left ct2))"
      and same: "sameStream ct ct1" "ct_handle ct1 = ct_handle ct" "ct_sent ct1 = ct_sent ct"
      and frame: "(r + n) * ?h \<le> ?S" "sqnOf (currentSegment p ct1) = q" "0 < n"
        "frameOf (currentSegment p ct1) = (r + n, bytes)" "drop (r * ?h) (take ((r + n) * ?h) bytes) = out"
    using write_step [OF Cons.prems(1-5) w, of "env # envs" first] unfolding list.case by blast
  have "?h \<le> ?S - r * ?h" using Cons.prems(5) by simp
  note spec = write_blocks_spec [OF Cons.prems(3) this Cons.prems(4) w]
  show ?case
  proof (cases "left = []")
    case True
    define ct2 where "ct2 = setHandle p ((ct_handle ct p)\<lparr>hd_entry := e\<rparr>) ct1"
    have "currentSegment p ct2 = currentSegment p ct1" "ct_sent ct2 = ct_sent ct" "sameStream ct ct2"
      using same by (simp_all add: ct2_def currentSegment_def setHandle_def sameStream_def Let_def)
    moreover have "readVariableData (out @ rest) = Some (True, source)" for rest using spec [of rest] True by blast
    ultimately show ?thesis
      using step True frame by (intro exI [of _ ct2]) (simp add: ct2_def [symmetric] onward_def)
  next
    case False
    have flags: "hd_flags (ct_handle ct1 p) = SsfNone" using Cons.prems(1) same(2) by (simp add: writing_def Let_def)
    obtain ct2 where ct2: "stStreamAppend env False (Some p) ct1 = (Some p, ct2)" "sameStream ct1 ct2"
        "writing ct2 p (q + 1) 0" "ct_sent ct2 = ct_sent ct @ [currentSegment p ct1]"
      using append_writing [OF flags, of q env envs] Cons.prems(6) appends_same [OF same(1), of q "env # envs"] same(3) by auto
    note both = sameStream_trans [OF same(1) ct2(2)]
    have sizes: "sizeHint ct2 = ?h" "segSize ct2 = ?S" using both by (simp_all add: sizeHint_def sameStream_def)
    have left: "length left < length source" "left = drop (length source - length left) source"
        "readVariableData out = Some (False, take (length source - length left) source)" "?S - r * ?h - length out < ?h"
        "length out = n * ?h"
      using spec [of "[]"] False by blast+
    obtain ct3 where ct3: "writeDataLoop envs False p left ct2 = Some (Some p, [], ct3)" "sameStream ct2 ct3"
        "take (length (ct_sent ct2)) (ct_sent ct3) = ct_sent ct2"
        "map sqnOf (onward p ct2 ct3) = map (\<lambda>k. (q + 1) + of_nat k) [0..<length (onward p ct2 ct3)]"
        "chained ?h ?S 0 (map frameOf (onward p ct2 ct3)) left"
      using Cons.IH [OF ct2(3) mapped_same [OF both Cons.prems(2)], of left False] Cons.prems False left(1) sizes
        appends_same [OF both, of "q + 1" envs] by auto
    define rest where "rest = drop (length (ct_sent ct2)) (ct_sent ct3)"
    have "ct_sent ct3 = ct_sent ct2 @ rest" unfolding rest_def using ct3(3) by (metis append_take_drop_id)
    then have sent: "ct_sent ct3 = ct_sent ct @ currentSegment p ct1 # rest" using ct2(4) by simp
    then have "drop (length (ct_sent ct)) (ct_sent ct3) = currentSegment p ct1 # rest" by simp
    then have on: "onward p ct ct3 = currentSegment p ct1 # onward p ct2 ct3"
      unfolding onward_def rest_def by simp
    have "?S < (r + n) * ?h + ?h" using left(4,5) frame(1) by (simp add: algebra_simps)
    moreover have "onward p ct2 ct3 \<noteq> []" by (simp add: onward_def)
    moreover have "source = take (length source - length left) source @ left" using left(2) by (metis append_take_drop_id)
    ultimately have "chained ?h ?S r (map frameOf (onward p ct ct3)) source"
      using frame left(3) ct3(5) unfolding on by (auto simp: exI)
    moreover have "map sqnOf (onward p ct ct3) = map (\<lambda>k. q + of_nat k) [0..<length (onward p ct ct3)]"
      unfolding on length_Cons numbered using ct3(4) frame(2) by simp
    moreover have "take (length (ct_sent ct)) (ct_sent ct3) = ct_sent ct" unfolding sent by simp
    ultimately show ?thesis
      using step False ct2(1) ct3(1) sameStream_trans [OF both ct3(2)] by (intro exI [of _ ct3]) simp
  qed
qed simp

text \<open>A full segment is only handed over.\<close>

lemma writeMemory_Nil [simp]: "writeMemory a [] mem = mem"
  by (simp add: writeMemory_def)

lemma write_full:
  assumes at: "writing ct p q r" and ok: "mapped ct" "source \<noteq> []"
    and room: "r * sizeHint ct = segSize ct" "0 < sizeHint ct"
  shows "writeDataLoop (env # envs) first p source ct =
    (case stStreamAppend env False (Some p) ct of
       (None, ct2) \<Rightarrow> Some (None, source, ct2)
     | (Some p', ct2) \<Rightarrow> writeDataLoop envs first p' source ct2)"
proof -
  have "unat (hd_segmentEnd (ct_handle ct p) - hd_entry (ct_handle ct p)) = 0"
    using at room(1) by (simp add: writing_def Let_def del: of_nat_mult)
  moreover have "unat (getSizeHint (hd_entrySize (ct_handle ct p))) = sizeHint ct"
    using at by (simp add: writing_def Let_def sizeHint_def getSizeHint_def getEntrySize_def)
  moreover have "receiveControl s (ct_control ct s) ct\<lparr>ct_memory := ct_memory ct\<rparr> = ct" for s
    by (simp add: receiveControl_def)
  ultimately show ?thesis
    using room(2) ok(2) by (subst writeDataLoop.simps) (simp add: Let_def writeVariableData_def cong: prod.case_cong option.case_cong)
qed

section \<open>Reading\<close>

definition readHandle :: "client_stream \<Rightarrow> content \<Rightarrow> nat \<Rightarrow> bool" where
  "readHandle rd content p \<longleftrightarrow>
     hd_flags (ct_handle rd p) = SsfRead \<and> hd_entrySize (ct_handle rd p) = ct_entrySize rd \<and>
     (hd_control (ct_handle rd p) = None \<or> inSegment rd content p (hd_sequenceNumber (ct_handle rd p)))"

text \<open>
  A reader gets the segments as they were handed over: with the entries that were there, and
  perhaps more behind them.
\<close>

definition delivers :: "client_env \<Rightarrow> content \<Rightarrow> client_stream \<Rightarrow> (u32 \<times> SegmentControlElement \<times> u8 list) \<Rightarrow> bool" where
  "delivers env content rd seg \<longleftrightarrow>
     (let q = sqnOf seg; n = fst (frameOf seg); (slot, ctrl, bytes) = content q in
      deliverable rd content q \<and> n \<le> rawCount content q \<and>
      take (n * sizeHint rd) bytes = take (n * sizeHint rd) (snd (frameOf seg)) \<and>
      (\<forall>flags c. \<exists>off. cn_open env (QSequenceNumber, ucast q, flags, c) = Inr (slot, off, ctrl, bytes)))"

lemma delivers_same: "sameStream rd rd' \<Longrightarrow> delivers env content rd' seg = delivers env content rd seg"
  using deliverable_same [of rd rd'] by (simp add: delivers_def sizeHint_def Let_def sameStream_def)

text \<open>The handle is in the segment after the first part of the loop.\<close>

lemma read_enter:
  assumes "mapped rd" "readHandle rd content p" "delivers env content rd seg"
  shows "\<exists>rd1. (if sqnOf seg \<noteq> hd_sequenceNumber (ct_handle rd p) \<or> hd_control (ct_handle rd p) = None
      then stStreamOpen env False QSequenceNumber (ucast (sqnOf seg)) (hd_accessFlags (ct_handle rd p)) (Some p) rd
      else (Some p, rd)) = (Some p, rd1) \<and> sameStream rd rd1 \<and> inSegment rd1 content p (sqnOf seg)"
proof (cases "sqnOf seg \<noteq> hd_sequenceNumber (ct_handle rd p) \<or> hd_control (ct_handle rd p) = None")
  case True
  obtain slot ctrl bytes where c: "content (sqnOf seg) = (slot, ctrl, bytes)" by (cases "content (sqnOf seg)")
  have del: "deliverable rd content (sqnOf seg)" using assms(3) by (simp add: delivers_def Let_def split: prod.splits)
  define close where "close = (case hd_control (ct_handle rd p) of None \<Rightarrow> INVALID_STREAM_SEGMENT_ID
      | Some s \<Rightarrow> ln_sequenceNumber (ce_link (ct_control rd s)))"
  obtain off where off: "cn_open env (QSequenceNumber, ucast (sqnOf seg), hd_accessFlags (ct_handle rd p), close) = Inr (slot, off, ctrl, bytes)"
    using assms(3) c unfolding delivers_def Let_def by fastforce
  define env1 where "env1 = env\<lparr>cn_open := (\<lambda>_. Inr (slot, off, ctrl, bytes))\<rparr>"
  have "stStreamOpen env False QSequenceNumber (ucast (sqnOf seg)) (hd_accessFlags (ct_handle rd p)) (Some p) rd =
      stStreamOpen env1 False QSequenceNumber (ucast (sqnOf seg)) (hd_accessFlags (ct_handle rd p)) (Some p) rd"
    using off by (auto simp: stStreamOpen_def clientOpen_def staticOpen_def env1_def close_def setHandle_def Let_def)
  moreover have "hd_flags (ct_handle rd p) = SsfRead" using assms(2) by (simp add: readHandle_def)
  moreover have "cn_open env1 (QSequenceNumber, v, flags, c) = Inr (slot, off, ctrl, bytes)" for v flags c
    by (simp add: env1_def)
  ultimately show ?thesis
    using True open_delivered [OF assms(1) del c, of env1 QSequenceNumber] by fastforce
next
  case False
  then show ?thesis using assms(2) by (auto simp: readHandle_def sameStream_def)
qed

lemma segment_entries:
  assumes "mapped rd" "deliverable rd content q" "inSegment rd content p q" "r \<le> rawCount content q"
  shows "readMemory (ct_memory rd) (hd_segmentStart (ct_handle rd p) + of_nat r * ucast (getSizeHint (hd_entrySize (ct_handle rd p))))
      (unat (hd_segmentEnd (ct_handle rd p) -
        (hd_segmentStart (ct_handle rd p) + of_nat r * ucast (getSizeHint (hd_entrySize (ct_handle rd p)))))) =
    drop (r * sizeHint rd) (take (rawCount content q * sizeHint rd) (snd (snd (content q))))"
proof -
  let ?h = "sizeHint rd" let ?n = "rawCount content q" let ?s = "startOf rd content q"
  have at: "hd_segmentStart (ct_handle rd p) = ?s" "hd_segmentEnd (ct_handle rd p) = ?s + of_nat (?h * ?n)"
      "hd_entrySize (ct_handle rd p) = ct_entrySize rd" "readMemory (ct_memory rd) ?s (segSize rd) = snd (snd (content q))"
    using assms(3) by (simp_all add: inSegment_def sizeHint_def Let_def)
  have le: "r * ?h \<le> ?n * ?h" using assms(4) by simp
  have all: "?n * ?h \<le> segSize rd" using assms(2) by (auto simp: deliverable_def rawCount_def sizeHint_def mult.commute)
  have S: "segSize rd < 2 ^ 32" using assms(1) by (simp add: mapped_def)
  have src: "of_nat r * ucast (getSizeHint (ct_entrySize rd)) = (of_nat (r * ?h) :: u64)"
    by (simp add: sizeHint_def getSizeHint_def getEntrySize_def)
  have "(of_nat (?h * ?n) :: u64) - of_nat (r * ?h) = of_nat (?n * ?h - r * ?h)"
    using le by (simp add: of_nat_diff mult.commute)
  moreover have "unat (of_nat (?n * ?h - r * ?h) :: u64) = ?n * ?h - r * ?h"
    using all S by (intro unat_of_nat_small) simp
  ultimately have "unat ((of_nat (?h * ?n) :: u64) - of_nat (r * ?h)) = ?n * ?h - r * ?h" by simp
  moreover have "take (?n * ?h - r * ?h) (drop (r * ?h) (snd (snd (content q)))) =
      drop (r * ?h) (take (?n * ?h) (snd (snd (content q))))"
    using le by (simp add: drop_take)
  ultimately show ?thesis
    using read_part [of "r * ?h" "?n * ?h - r * ?h" "segSize rd" "ct_memory rd" ?s] all le
    unfolding at(1-3) src by (simp add: at(4) del: of_nat_mult)
qed

lemma loop_reads:
  assumes "chained (sizeHint rd) (segSize rd) r (map frameOf segs) source" "0 < sizeHint rd"
    and "map sqnOf segs = map (\<lambda>k. q + of_nat k) [0..<length segs]"
    and "mapped rd" "readHandle rd content p" "list_all (delivers env content rd) segs" "length segs \<le> fuel"
  shows "\<exists>rd1. readDataLoop env fuel p q (of_nat r) rd = Some (Inr source, Some p, rd1)"
  using assms
proof (induction segs arbitrary: r q rd source fuel)
  case (Cons seg segs)
  obtain f where fuel: "fuel = Suc f" "length segs \<le> f" using Cons.prems(7) by (cases fuel) auto
  let ?h = "sizeHint rd"
  obtain n bytes where frame: "frameOf seg = (n, bytes)" by (cases "frameOf seg")
  have q: "sqnOf seg = q" and rest: "map sqnOf segs = map (\<lambda>k. (q + 1) + of_nat k) [0..<length segs]"
    using Cons.prems(3) unfolding length_Cons numbered by simp_all
  have del: "delivers env content rd seg" and dels: "list_all (delivers env content rd) segs" using Cons.prems(6) by simp_all
  have d: "deliverable rd content q" "n \<le> rawCount content q"
      "take (n * ?h) (snd (snd (content q))) = take (n * ?h) bytes"
    using del q frame by (auto simp: delivers_def Let_def split: prod.splits)
  have chain: "r < n" "n * ?h \<le> segSize rd" using Cons.prems(1) frame by simp_all
  obtain rd1 where rd1: "(if q \<noteq> hd_sequenceNumber (ct_handle rd p) \<or> hd_control (ct_handle rd p) = None
      then stStreamOpen env False QSequenceNumber (ucast q) (hd_accessFlags (ct_handle rd p)) (Some p) rd
      else (Some p, rd)) = (Some p, rd1)" "sameStream rd rd1" "inSegment rd1 content p q"
    using read_enter [OF Cons.prems(4,5) del] unfolding q by blast
  have h: "sizeHint rd1 = ?h" "segSize rd1 = segSize rd" using rd1(2) by (simp_all add: sizeHint_def sameStream_def)
  have m1: "mapped rd1" by (rule mapped_same [OF rd1(2) Cons.prems(4)])
  have d1: "deliverable rd1 content q" using d(1) by (simp add: deliverable_same [OF rd1(2)])
  define avail where "avail = drop (r * ?h) (take (rawCount content q * ?h) (snd (snd (content q))))"
  have "hd_control (ct_handle rd1 p) \<noteq> None" using rd1(3) by (simp add: inSegment_def Let_def)
  then have loop: "readDataLoop env fuel p q (of_nat r) rd =
      (case readVariableData avail of
         None \<Rightarrow> None
       | Some (True, bs) \<Rightarrow> Some (Inr bs, Some p, rd1)
       | Some (False, bs) \<Rightarrow>
           map_option (\<lambda>(r, x). (map_sum id (\<lambda>rest. bs @ rest) r, x)) (readDataLoop env f p (q + 1) 0 rd1))"
    using segment_entries [OF m1 d1 rd1(3), of r] chain(1) d(2) rd1(1) h(1)
    unfolding fuel(1) avail_def by (auto simp: readDataLoop.simps Let_def)
  show ?case
  proof (cases "segs = []")
    case True
    have "take (rawCount content q * ?h) (snd (snd (content q))) =
        take (n * ?h) bytes @ drop (n * ?h) (take (rawCount content q * ?h) (snd (snd (content q))))"
      using append_take_drop_id [of "n * ?h" "take (rawCount content q * ?h) (snd (snd (content q)))"] d(2,3) by (simp add: min_def)
    moreover have "r * ?h \<le> length (take (n * ?h) bytes)"
    proof -
      have "length (snd (snd (content q))) = segSize rd" using d(1) by (auto simp: deliverable_def)
      then have "length (take (n * ?h) bytes) = n * ?h" using d(3) chain(2) by (metis length_take min.absorb2)
      then show ?thesis using chain(1) by simp
    qed
    ultimately have "avail = drop (r * ?h) (take (n * ?h) bytes) @ drop (n * ?h) (take (rawCount content q * ?h) (snd (snd (content q))))"
      unfolding avail_def by (metis drop_append diff_is_0_eq' drop_0)
    then show ?thesis using Cons.prems(1) frame True loop by simp
  next
    case False
    then obtain d1 d2 where split: "source = d1 @ d2" "readVariableData (drop (r * ?h) (take (n * ?h) bytes)) = Some (False, d1)"
        "chained ?h (segSize rd) 0 (map frameOf segs) d2" "segSize rd < n * ?h + ?h"
      using Cons.prems(1) frame by auto
    have "rawCount content q * ?h \<le> segSize rd" using d(1) by (auto simp: deliverable_def rawCount_def sizeHint_def mult.commute)
    then have "rawCount content q * ?h < Suc n * ?h" using split(4) by simp
    then have "rawCount content q < Suc n" by (rule mult_right_less_imp_less) simp
    then have "rawCount content q = n" using d(2) by simp
    then have here: "avail = drop (r * ?h) (take (n * ?h) bytes)" using d(3) by (simp add: avail_def)
    have "readHandle rd1 content p" using rd1(3) by (auto simp: readHandle_def inSegment_def Let_def)
    moreover have "list_all (delivers env content rd1) segs" using dels by (simp add: list_all_iff delivers_same [OF rd1(2)])
    ultimately obtain rd2 where "readDataLoop env f p (q + 1) 0 rd1 = Some (Inr d2, Some p, rd2)"
      using Cons.IH [of rd1 0 d2 "q + 1" f] split(3) h rest m1 Cons.prems(2) fuel(2) by auto
    then show ?thesis using loop split(1,2) here by simp
  qed
qed simp

section \<open>References\<close>

text \<open>If the size hint divides the segment size, a reference is decoded to its place.\<close>

lemma reference_place:
  fixes segSize' :: u64 and hint q :: u32
  assumes dvd: "unat hint dvd unat segSize'" "0 < unat hint" and S: "unat segSize' < 2 ^ 32"
    and r: "r < unat segSize' div unat hint"
  shows "variablePlace segSize' hint (variableReference segSize' hint q (of_nat r)) = (q, of_nat r) \<and>
    variableReference segSize' hint q (of_nat r) \<noteq> VARIABLE_ENTRY_EMPTY_INDEX"
proof -
  let ?S = "unat segSize'" let ?h = "unat hint" let ?n = "?S div ?h"
  have per: "unat (segSize' div ucast hint) = ?n" by (simp add: unat_div unat_ucast_u64)
  have n: "?n * ?h = ?S" using dvd(1) by simp
  have "?n \<le> ?S" by simp
  then have small: "?n < 2 ^ 32" "r < 2 ^ 32" using S r by linarith+
  have "unat q < 2 ^ LENGTH(32)" by (rule unsigned_less)
  then have q: "Suc (unat q) \<le> 2 ^ 32" by simp
  have ur: "unat (ucast (of_nat r :: u32) :: u64) = r" using small(2) by (simp add: unat_ucast_u64 unat_of_nat_small)
  have bound: "?n * unat q + r < ?n * Suc (unat q)" using r by simp
  have "?n * Suc (unat q) \<le> ?n * 2 ^ 32" using q by (intro mult_le_mono2)
  also have "\<dots> \<le> (2 ^ 32 - 1) * 2 ^ 32" using small(1) by (intro mult_le_mono1) simp
  finally have le: "?n * Suc (unat q) \<le> (2 ^ 32 - 1) * 2 ^ 32" .
  have mult: "unat ((segSize' div ucast hint) * ucast q) = ?n * unat q"
    using le bound per by (subst unat_mult_lem [THEN iffD1]) (simp_all add: unat_ucast_u64)
  have ref: "unat (variableReference segSize' hint q (of_nat r)) = ?n * unat q + r"
    unfolding variableReference_def using mult ur le bound by (subst unat_add_lem [THEN iffD1]) simp_all
  have "(?n * unat q + r) * ?h < ?n * Suc (unat q) * ?h" using bound dvd(2) by simp
  also have "\<dots> = ?S * Suc (unat q)" using n by (metis mult.commute mult.left_commute)
  also have "\<dots> \<le> ?S * 2 ^ 32" using q by (intro mult_le_mono2)
  also have "\<dots> \<le> (2 ^ 32 - 1) * 2 ^ 32" using S by (intro mult_le_mono1) simp
  finally have "(?n * unat q + r) * ?h < 2 ^ 64" by simp
  then have prod: "unat (variableReference segSize' hint q (of_nat r) * ucast hint) = (?n * unat q + r) * ?h"
    using ref by (subst unat_mult_lem [THEN iffD1]) (simp_all add: unat_ucast_u64)
  have "(?n * unat q + r) * ?h = r * ?h + unat q * ?S" using n by (simp add: algebra_simps)
  moreover have "r * ?h < ?S" using r n dvd(2) by (metis mult_less_mono1)
  ultimately have "(?n * unat q + r) * ?h div ?S = unat q" by simp
  then have "unat ((variableReference segSize' hint q (of_nat r) * ucast hint) div segSize') = unat q"
    using prod by (simp add: unat_div)
  then have "(variableReference segSize' hint q (of_nat r) * ucast hint) div segSize' = ucast q"
    by (intro word_unat_eq_iff [THEN iffD2]) (simp add: unat_ucast_u64)
  then have place: "ucast ((variableReference segSize' hint q (of_nat r) * ucast hint) div segSize') = q"
    by (simp add: ucast_u32)
  have "variableReference segSize' hint q (of_nat r) - ucast q * (segSize' div ucast hint) = of_nat r"
  proof -
    have "(ucast (of_nat r :: u32) :: u64) = of_nat r"
      using ur small(2) by (intro word_unat_eq_iff [THEN iffD2]) (simp add: unat_of_nat_small)
    then show ?thesis by (simp add: variableReference_def mult.commute)
  qed
  moreover have "variableReference segSize' hint q (of_nat r) \<noteq> VARIABLE_ENTRY_EMPTY_INDEX"
  proof
    assume "variableReference segSize' hint q (of_nat r) = VARIABLE_ENTRY_EMPTY_INDEX"
    then have "unat VARIABLE_ENTRY_EMPTY_INDEX = ?n * unat q + r" using ref by simp
    moreover have "unat VARIABLE_ENTRY_EMPTY_INDEX = 2 ^ 64 - 2" by (simp add: VARIABLE_ENTRY_EMPTY_INDEX_def INVALID_LARGE_OBJECT_ID_def)
    ultimately show False using bound le by simp
  qed
  ultimately show ?thesis using place by (simp add: variablePlace_def Let_def)
qed

lemma reference_rolls_over:
  assumes per: "r * unat hint = unat segSize'" "0 < unat hint" and S: "unat segSize' < 2 ^ 32" and q: "Suc (unat q) < 2 ^ 32"
  shows "variableReference segSize' hint q (of_nat r) = variableReference segSize' hint (q + 1) (of_nat 0)"
proof -
  have "r = unat segSize' div unat hint" using per by (metis nonzero_mult_div_cancel_right less_numeral_extra(3))
  then have r: "r = unat (segSize' div ucast hint)" by (simp add: unat_div unat_ucast_u64)
  have "r * 1 \<le> r * unat hint" using per(2) by (intro mult_le_mono2) simp
  then have small: "r < 2 ^ 32" using per(1) S by simp
  have "unat (ucast (of_nat r :: u32) :: u64) = r" using small by (simp add: unat_ucast_u64 unat_of_nat_small)
  then have r': "ucast (of_nat r :: u32) = segSize' div ucast hint" using r by (metis word_unat_eq_iff)
  have "unat (q + 1) = Suc (unat q)" using q by (subst unat_add_lem [THEN iffD1]) simp_all
  moreover have "unat (ucast q + 1 :: u64) = Suc (unat q)"
    using q by (subst unat_add_lem [THEN iffD1]) (simp_all add: unat_ucast_u64)
  ultimately have "ucast (q + 1) = (ucast q + 1 :: u64)" by (intro word_unat_eq_iff [THEN iffD2]) (simp add: unat_ucast_u64)
  then show ?thesis by (simp add: variableReference_def r' algebra_simps)
qed

text \<open>What the loop writes from a place in a segment that may be full already.\<close>

lemma loop_writes_from:
  assumes at: "writing ct p q r" and ok: "mapped ct" "hint_ok (sizeHint ct)" "sizeHint ct dvd segSize ct" "source \<noteq> []"
    and envs: "appends ct q envs" "length source < length envs" and q: "Suc (unat q) < 2 ^ 32"
  shows "\<exists>ct1 q' r' segs. writeDataLoop envs True p source ct = Some (Some p, [], ct1) \<and>
    (\<exists>pre. onward p ct ct1 = pre @ segs) \<and> r' < segSize ct div sizeHint ct \<and>
    variableReference (bf_segmentSize (ct_buffer ct)) (getEntrySize (ct_entrySize ct)) q (of_nat r) =
      variableReference (bf_segmentSize (ct_buffer ct)) (getEntrySize (ct_entrySize ct)) q' (of_nat r') \<and>
    map sqnOf segs = map (\<lambda>k. q' + of_nat k) [0..<length segs] \<and>
    chained (sizeHint ct) (segSize ct) r' (map frameOf segs) source"
proof (cases "r * sizeHint ct + sizeHint ct \<le> segSize ct")
  case True
  then have "Suc r * sizeHint ct \<le> segSize ct" by simp
  moreover have h: "0 < sizeHint ct" using ok(2) by (simp add: hint_ok_def)
  ultimately have "r < segSize ct div sizeHint ct" by (metis less_eq_div_iff_mult_less_eq Suc_le_eq)
  moreover obtain ct1 where "writeDataLoop envs True p source ct = Some (Some p, [], ct1)"
      "map sqnOf (onward p ct ct1) = map (\<lambda>k. q + of_nat k) [0..<length (onward p ct ct1)]"
      "chained (sizeHint ct) (segSize ct) r (map frameOf (onward p ct ct1)) source"
    using loop_writes [OF at ok(1,2,4) True envs(1), of True] envs(2) by auto
  ultimately show ?thesis by (metis append_Nil)
next
  case False
  have h: "0 < sizeHint ct" using ok(2) by (simp add: hint_ok_def)
  have "r * sizeHint ct \<le> segSize ct" using at by (simp add: writing_def Let_def)
  moreover obtain m where m: "segSize ct = m * sizeHint ct" using ok(3) by (metis dvd_def mult.commute)
  ultimately have "r \<le> m" using h by simp
  have "\<not> Suc r * sizeHint ct \<le> m * sizeHint ct" using False m by simp
  then have "m < Suc r" by (meson mult_le_mono1 not_less)
  then have full: "r * sizeHint ct = segSize ct" using m \<open>r \<le> m\<close> by (simp add: le_antisym)
  obtain env envs1 where e: "envs = env # envs1" using envs(2) by (cases envs) auto
  have "hd_flags (ct_handle ct p) = SsfNone" using at by (simp add: writing_def Let_def)
  from append_writing [OF this envs(1) [unfolded e]]
  obtain ct2 where ct2: "stStreamAppend env False (Some p) ct = (Some p, ct2)" "sameStream ct ct2" "writing ct2 p (q + 1) 0"
      "ct_sent ct2 = ct_sent ct @ [currentSegment p ct]" by blast
  have same: "sizeHint ct2 = sizeHint ct" "segSize ct2 = segSize ct" "appends ct2 (q + 1) envs1"
    using ct2(2) envs(1) appends_same [OF ct2(2), of "q + 1" envs1] unfolding e by (simp_all add: sizeHint_def sameStream_def)
  have m0: "0 < m" using ok(1) m by (cases m) (simp_all add: mapped_def)
  have "0 * sizeHint ct2 + sizeHint ct2 \<le> segSize ct2" using m m0 same by (cases m) simp_all
  from loop_writes [OF ct2(3) mapped_same [OF ct2(2) ok(1)] _ ok(4) this same(3), of True] ok(2) envs(2) same
  obtain ct1 where ct1: "writeDataLoop envs1 True p source ct2 = Some (Some p, [], ct1)"
      "take (length (ct_sent ct2)) (ct_sent ct1) = ct_sent ct2"
      "map sqnOf (onward p ct2 ct1) = map (\<lambda>k. (q + 1) + of_nat k) [0..<length (onward p ct2 ct1)]"
      "chained (sizeHint ct) (segSize ct) 0 (map frameOf (onward p ct2 ct1)) source"
    unfolding e by auto
  have "writeDataLoop envs True p source ct = Some (Some p, [], ct1)"
    unfolding e write_full [OF at ok(1,4) full h] using ct2(1) ct1(1) by simp
  moreover have "onward p ct ct1 = [currentSegment p ct] @ onward p ct2 ct1"
  proof -
    have "ct_sent ct1 = ct_sent ct2 @ drop (length (ct_sent ct2)) (ct_sent ct1)" using ct1(2) by (metis append_take_drop_id)
    then have "drop (length (ct_sent ct)) (ct_sent ct1) = currentSegment p ct # drop (length (ct_sent ct2)) (ct_sent ct1)"
      unfolding ct2(4) by (metis append.assoc append_Cons append_Nil append_eq_conv_conj)
    then show ?thesis by (simp add: onward_def)
  qed
  moreover have "0 < segSize ct div sizeHint ct" using m m0 h by simp
  moreover have "variableReference (bf_segmentSize (ct_buffer ct)) (getEntrySize (ct_entrySize ct)) q (of_nat r) =
      variableReference (bf_segmentSize (ct_buffer ct)) (getEntrySize (ct_entrySize ct)) (q + 1) (of_nat 0)"
    by (rule reference_rolls_over) (use full h q ok(1) in \<open>simp_all add: sizeHint_def mapped_def\<close>)
  ultimately show ?thesis using ct1(3,4) by blast
qed

text \<open>C22: Data of variable size survive, however many segments they are spread over. If the size
  hint divides the size of a segment, the appends succeed and there is one for every byte, then
  \<open>StWriteVariableData\<close> writes all the data from any place in a segment (even a full one) and
  returns a reference; and whoever gets the segments with at least the entries that were handed
  over, and with whatever was added to the last of them, reads exactly these data with that reference.\<close>

theorem client_data_roundtrip:
  assumes "writing ct p q r" "mapped ct" "hint_ok (sizeHint ct)" "sizeHint ct dvd segSize ct" "source \<noteq> []"
    and "appends ct q envs" "length source < length envs" "Suc (unat q) < 2 ^ 32"
    and reader: "mapped rd" "readHandle rd content pr" "ct_entrySize rd = ct_entrySize ct"
      "bf_segmentSize (ct_buffer rd) = bf_segmentSize (ct_buffer ct)"
  shows "\<exists>ct1 reference. stWriteVariableData envs p source ct = Some (length source, reference, Some p, ct1) \<and>
    (list_all (delivers env content rd) (onward p ct ct1) \<and> length (onward p ct ct1) \<le> fuel \<longrightarrow>
       (\<exists>rd1. stReadVariableData env fuel pr reference rd = Some (Inr source, Some pr, rd1)))"
proof -
  obtain ct1 q' r' pre segs where w: "writeDataLoop envs True p source ct = Some (Some p, [], ct1)"
      "onward p ct ct1 = pre @ segs" "r' < segSize ct div sizeHint ct"
      "variableReference (bf_segmentSize (ct_buffer ct)) (getEntrySize (ct_entrySize ct)) q (of_nat r) =
        variableReference (bf_segmentSize (ct_buffer ct)) (getEntrySize (ct_entrySize ct)) q' (of_nat r')"
      "map sqnOf segs = map (\<lambda>k. q' + of_nat k) [0..<length segs]"
      "chained (sizeHint ct) (segSize ct) r' (map frameOf segs) source"
    using loop_writes_from [OF assms(1-8)] by blast
  have h: "0 < sizeHint ct" using assms(3) by (simp add: hint_ok_def)
  have hint: "getSizeHint x = getEntrySize x" for x by (simp add: getSizeHint_def getEntrySize_def)
  have sizes: "sizeHint rd = sizeHint ct" "segSize rd = segSize ct" using reader(3,4) by (simp_all add: sizeHint_def)
  define reference where "reference = variableReference (bf_segmentSize (ct_buffer ct)) (getEntrySize (ct_entrySize ct)) q' (of_nat r')"
  have place: "variablePlace (bf_segmentSize (ct_buffer ct)) (getEntrySize (ct_entrySize ct)) reference = (q', of_nat r')"
      "reference \<noteq> VARIABLE_ENTRY_EMPTY_INDEX"
    using reference_place [of "getEntrySize (ct_entrySize ct)" "bf_segmentSize (ct_buffer ct)" r' q'] assms(2,4) h w(3)
    by (simp_all add: sizeHint_def mapped_def reference_def)
  have written: "stWriteVariableData envs p source ct = Some (length source, reference, Some p, ct1)"
    using assms(1,5) w(1,4) by (simp add: stWriteVariableData_def Let_def hint reference_def) (simp add: writing_def Let_def)
  have "\<exists>rd1. stReadVariableData env fuel pr reference rd = Some (Inr source, Some pr, rd1)"
    if "list_all (delivers env content rd) (onward p ct ct1)" "length (onward p ct ct1) \<le> fuel"
  proof -
    have "list_all (delivers env content rd) segs" "length segs \<le> fuel" using that w(2) by simp_all
    then obtain rd1 where "readDataLoop env fuel pr q' (of_nat r') rd = Some (Inr source, Some pr, rd1)"
      using loop_reads [of rd r' segs source q'] w(5,6) reader(1,2) h unfolding sizes by blast
    then show ?thesis
      using place reader by (simp add: stReadVariableData_def readHandle_def hint)
  qed
  then show ?thesis using written by blast
qed

definition writer5 :: client_stream where
  "writer5 =
     client3\<lparr>ct_entrySize := 0x80000004,
       ct_control := (\<lambda>_. control_zero\<lparr>ce_link := \<lparr>ln_stream = 4, ln_sequenceNumber = 3\<rparr>, ce_rawEntryCount := 1\<rparr>),
       ct_handle := (\<lambda>_. newHandle\<lparr>hd_entrySize := 0x80000004, hd_segment := 0, hd_control := Some 0, hd_segmentStart := 2 ^ 32,
         hd_segmentEnd := 2 ^ 32 + 8, hd_entry := 2 ^ 32 + 4\<rparr>), ct_write := Some 0\<rparr>"

definition append5 :: "u32 \<Rightarrow> client_env" where
  "append5 q =
     \<lparr>cn_append = Inr (1, control_zero\<lparr>ce_link := \<lparr>ln_stream = 4, ln_sequenceNumber = q\<rparr>\<rparr>), cn_open = (\<lambda>_. Inl NotFoundException),
      cn_close = Inr (), cn_dynOpen = (\<lambda>_ _ _ u. (0, u)), cn_dynNext = (\<lambda>_. (0, 0))\<rparr>"

lemma blocks5:
  "write_blocks 4 4 [1, 2, 3, 4, 5] = (vh_bytes \<lparr>vh_continuation = True, vh_size = 2\<rparr> @ [1, 2], 1, [3, 4, 5])"
  "write_blocks 4 8 [3, 4, 5] = (vh_bytes \<lparr>vh_continuation = True, vh_size = 2\<rparr> @ [3, 4] @
     vh_bytes \<lparr>vh_continuation = False, vh_size = 1\<rparr> @ [5, 0], 2, [])"
  by (simp_all add: write_blocks.simps sizeof_VDataBlockHeader_def)

lemma written5:
  "\<exists>m1 m2. onward 0 writer5 (snd (snd (snd (the (stWriteVariableData (map append5 [4, 5, 6, 7, 8, 9]) 0 [1, 2, 3, 4, 5] writer5))))) = 
   [(0, control_zero\<lparr>ce_link := \<lparr>ln_stream = 4, ln_sequenceNumber = 3\<rparr>, ce_entryCount := 1, ce_rawEntryCount := 2\<rparr>, readMemory m1 (2 ^ 32) 8),
    (1, control_zero\<lparr>ce_link := \<lparr>ln_stream = 4, ln_sequenceNumber = 4\<rparr>, ce_rawEntryCount := 2\<rparr>, readMemory m2 (2 ^ 32 + 72) 8)]"
  by (simp add: writer5_def client3_def stWriteVariableData_def Let_def newHandle_def writeDataLoop.simps
    getSizeHint_def VARIABLE_ENTRY_SIZE_FLAG_def writeVariableData_def blocks5 stStreamAppend_def clientAppend_def
    staticAppend_def placeHandle_def initializeStaticHandle_def append5_def receiveControl_def sendSegment_def
    getControlElement_def getSegment_def throwOn_def address_def setHandle_def isSet_def SsfRead_def SsfNone_def SafNone_def
    INVALID_OBJECT_ID_def onward_def currentSegment_def control_zero_def
    cong: option.case_cong prod.case_cong sum.case_cong)
    (auto simp: word_le_nat_alt)

definition reader5 :: client_stream where
  "reader5 =
     client3\<lparr>ct_entrySize := 0x80000004, ct_handle := (\<lambda>_. newHandle\<lparr>hd_flags := SsfRead, hd_entrySize := 0x80000004\<rparr>)\<rparr>"

definition deliver5 :: "content \<Rightarrow> client_env" where
  "deliver5 content =
     (append5 0)\<lparr>cn_open := (\<lambda>(_, q, _, _). case content (ucast q) of (slot, ctrl, bytes) \<Rightarrow> Inr (slot, 0, ctrl, bytes))\<rparr>"

lemma setting5:
  "writing writer5 0 3 1" "mapped writer5" "sizeHint writer5 = 4" "segSize writer5 = 8" "mapped reader5"
  "appends writer5 3 (map append5 [4, 5, 6, 7, 8, 9])"
  "ct_entrySize reader5 = ct_entrySize writer5" "ct_buffer reader5 = ct_buffer writer5" "readHandle reader5 content 0"
  by (simp_all add: writing_def mapped_def writer5_def reader5_def client3_def newHandle_def getEntrySize_def sizeHint_def
      VARIABLE_ENTRY_SIZE_FLAG_def append5_def INVALID_OBJECT_ID_def control_zero_def readHandle_def SsfNone_def Let_def
      word_less_nat_alt)

theorem client_data_roundtrip_witness:
  "\<exists>reference ct1 env rd1. stWriteVariableData (map append5 [4, 5, 6, 7, 8, 9]) 0 [1, 2, 3, 4, 5] writer5 =
       Some (5, reference, Some 0, ct1) \<and>
     stReadVariableData env 2 0 reference reader5 = Some (Inr [1, 2, 3, 4, 5], Some 0, rd1)"
proof -
  let ?a = "control_zero\<lparr>ce_link := \<lparr>ln_stream = 4, ln_sequenceNumber = 3\<rparr>, ce_entryCount := 1, ce_rawEntryCount := 2\<rparr>"
  let ?b = "control_zero\<lparr>ce_link := \<lparr>ln_stream = 4, ln_sequenceNumber = 4\<rparr>, ce_rawEntryCount := 2\<rparr>"
  obtain m1 m2 where segs:
      "onward 0 writer5 (snd (snd (snd (the (stWriteVariableData (map append5 [4, 5, 6, 7, 8, 9]) 0 [1, 2, 3, 4, 5] writer5))))) =
       [(0, ?a, readMemory m1 (2 ^ 32) 8), (1, ?b, readMemory m2 (2 ^ 32 + 72) 8)]"
    using written5 by blast
  define content :: content where
    "content = (\<lambda>q. if q = 3 then (0, ?a, readMemory m1 (2 ^ 32) 8) else (1, ?b, readMemory m2 (2 ^ 32 + 72) 8))"
  have hint: "hint_ok (sizeHint writer5)" "sizeHint writer5 dvd segSize writer5"
    using setting5 by (simp_all add: hint_ok_def VARIABLE_ENTRY_MAX_SIZE_def sizeof_VDataBlockHeader_def)
  obtain ct1 reference where r: "stWriteVariableData (map append5 [4, 5, 6, 7, 8, 9]) 0 [1, 2, 3, 4, 5] writer5 =
        Some (length [1, 2, 3, 4, 5 :: u8], reference, Some 0, ct1)"
      "list_all (delivers (deliver5 content) content reader5) (onward 0 writer5 ct1) \<and> length (onward 0 writer5 ct1) \<le> 2 \<longrightarrow>
        (\<exists>rd1. stReadVariableData (deliver5 content) 2 0 reference reader5 = Some (Inr [1, 2, 3, 4, 5], Some 0, rd1))"
    using client_data_roundtrip [where source = "[1, 2, 3, 4, 5]" and content = content and env = "deliver5 content" and fuel = 2,
        OF setting5(1,2) hint _ setting5(6) _ _ setting5(5,9,7)]
      setting5(8) by auto
  have "onward 0 writer5 ct1 = [(0, ?a, readMemory m1 (2 ^ 32) 8), (1, ?b, readMemory m2 (2 ^ 32 + 72) 8)]"
    using segs r(1) by simp
  moreover have "list_all (delivers (deliver5 content) content reader5) [(0, ?a, readMemory m1 (2 ^ 32) 8), (1, ?b, readMemory m2 (2 ^ 32 + 72) 8)]"
    by (simp add: delivers_def deliver5_def content_def sqnOf_def frameOf_def control_zero_def rawCount_def deliverable_def
        reader5_def client3_def getEntrySize_def VARIABLE_ENTRY_SIZE_FLAG_def INVALID_OBJECT_ID_def ucast_u32 word_less_nat_alt)
  ultimately show ?thesis using r by auto
qed

section \<open>References that lead astray\<close>

text \<open>If the size hint does not divide the size of a segment, references are decoded to the
  wrong segment. For segments of 64 MiB and blocks of 12 bytes, the first entry of the second
  segment gets the reference 5592405, which \<open>StReadVariableData\<close> takes for the entry behind the last
  one of the first segment. The writer counts the whole blocks of a segment
  (\<open>segmentSize / sizeHint\<close>), the reader multiplies and divides by the size in bytes.\<close>

theorem reference_leads_astray:
  "variableReference (2 ^ 26) 12 1 0 = 5592405 \<and> variablePlace (2 ^ 26) 12 5592405 = (0, 5592405) \<and>
   unat (2 ^ 26 :: u64) div unat (12 :: u32) = 5592405"
  by (simp add: variableReference_def variablePlace_def Let_def)

end
