(* ===== verification/Hidden_Lines.thy ===== *)
theory Hidden_Lines
  imports Memory_Encoder Trace_Store_Inv Std_Map
begin

text \<open>
  The hidden streams of the memory encoder (\<open>storageserver/simtrace/Simtrace3MemoryEncoder.h\<close>): the
  buffer contexts, which collect the sub segments of several memory segments in one segment of
  every hidden stream of a line, the lines, and the sub segment contexts of the workers that encode
  and decode. What the hidden streams answer is an argument; what is closed is logged.

  Sequence numbers are natural numbers here: the code only divides them. The content of a segment is
  a function from offsets to bytes.
\<close>

section \<open>Buffer contexts\<close>

text \<open>The answers of the hidden streams of one line.\<close>

record hidden_env =
  hn_request :: "nat \<Rightarrow> nat option res"
  hn_content :: "nat \<Rightarrow> nat \<Rightarrow> u8"
  hn_close :: "nat \<Rightarrow> unit res"
  hn_wait :: bool

text \<open>
  \<open>BufferContext\<close>. The members of \<open>_bufferEmpty\<close> are 0 for a sub segment that was never used, 1 for
  an empty and 2 for a valid one. A buffer pointer that is set comes with the content of the segment.
\<close>

record buffer_context =
  bc_initialized :: bool
  bc_sequenceNumber :: nat
  bc_subSegmentCount :: nat
  bc_subSegmentSize :: nat
  bc_segmentIds :: "nat option list"
  bc_buffers :: "(nat \<Rightarrow> u8) option list"
  bc_usedBuffers :: nat
  bc_bufferEmpty :: "nat list"
  bc_isLoad :: bool

definition newBufferContext :: "nat \<Rightarrow> nat \<Rightarrow> nat \<Rightarrow> buffer_context res" where
  "newBufferContext sqn streams subSegmentCount =
     throwOn (streams = 0) GenericException
       (Inr \<lparr>bc_initialized = False, bc_sequenceNumber = sqn, bc_subSegmentCount = subSegmentCount,
             bc_subSegmentSize = segmentSize div subSegmentCount, bc_segmentIds = replicate streams None,
             bc_buffers = replicate streams None, bc_usedBuffers = 0, bc_bufferEmpty = replicate subSegmentCount 0,
             bc_isLoad = False\<rparr>)"

text \<open>The loop of \<open>_initialize\<close> over \<open>n\<close> streams from stream \<open>i\<close> on; what it set is kept when it throws.\<close>

fun requestBuffers :: "hidden_env \<Rightarrow> nat \<Rightarrow> nat \<Rightarrow> buffer_context \<Rightarrow> unit res \<times> buffer_context" where
  "requestBuffers env i 0 ctx = (Inr (), ctx)"
| "requestBuffers env i (Suc n) ctx =
     (case hn_request env i of
        Inl e \<Rightarrow> (Inl e, ctx)
      | Inr None \<Rightarrow> (Inl GenericException, ctx)
      | Inr (Some seg) \<Rightarrow>
          requestBuffers env (Suc i) n
            (ctx\<lparr>bc_segmentIds := (bc_segmentIds ctx)[i := Some seg], bc_buffers := (bc_buffers ctx)[i := Some (hn_content env i)]\<rparr>))"

definition initializeContext :: "hidden_env \<Rightarrow> bool \<Rightarrow> buffer_context \<Rightarrow> unit res \<times> buffer_context" where
  "initializeContext env isLoad ctx =
     (case requestBuffers env 0 (length (bc_buffers ctx)) ctx of
        (Inl e, ctx1) \<Rightarrow> (Inl e, ctx1)
      | (Inr _, ctx1) \<Rightarrow> (Inr (), ctx1\<lparr>bc_isLoad := isLoad, bc_initialized := True\<rparr>))"

text \<open>\<open>append\<close> and \<open>open\<close>.\<close>

definition enterContext :: "hidden_env \<Rightarrow> bool \<Rightarrow> buffer_context \<Rightarrow> unit res \<times> buffer_context" where
  "enterContext env isLoad ctx =
     (case (if bc_initialized ctx then (Inr (), ctx) else initializeContext env isLoad ctx) of
        (Inl e, ctx1) \<Rightarrow> (Inl e, ctx1)
      | (Inr _, ctx1) \<Rightarrow> (throwOn (bc_isLoad ctx1 \<noteq> isLoad) InvalidOperationException (Inr ()), ctx1))"

text \<open>The two loops of \<open>_close\<close> over the sub segments: the last valid one, and filling the empty ones.\<close>

fun validSubSegments :: "nat list \<Rightarrow> nat \<Rightarrow> nat" where
  "validSubSegments empties 0 = 0"
| "validSubSegments empties (Suc j) = (if empties ! j = 2 then Suc j else validSubSegments empties j)"

definition fillChar :: u8 where "fillChar = 0xFF"

fun fillEmpty :: "nat \<Rightarrow> nat list \<Rightarrow> nat \<Rightarrow> (nat \<Rightarrow> u8) \<Rightarrow> nat \<Rightarrow> u8" where
  "fillEmpty sz empties 0 b = b"
| "fillEmpty sz empties (Suc j) b =
     (let b1 = fillEmpty sz empties j b
      in if empties ! j < 2 then poke (j * sz) (replicate sz fillChar) b1 else b1)"

text \<open>
  What a close logs: the stream, the sequence number, the number of raw entries (a new segment has
  none until it is set) and the content. Nothing is written for a loaded segment.
\<close>

record hidden_close =
  hc_stream :: nat
  hc_sequenceNumber :: nat
  hc_rawEntryCount :: "nat option"
  hc_content :: "nat \<Rightarrow> u8"

definition closeEntry :: "buffer_context \<Rightarrow> nat \<Rightarrow> (nat \<Rightarrow> u8) \<Rightarrow> hidden_close" where
  "closeEntry ctx i b =
     (let valid = validSubSegments (bc_bufferEmpty ctx) (bc_usedBuffers ctx)
      in if bc_isLoad ctx
         then \<lparr>hc_stream = i, hc_sequenceNumber = bc_sequenceNumber ctx, hc_rawEntryCount = None, hc_content = b\<rparr>
         else \<lparr>hc_stream = i, hc_sequenceNumber = bc_sequenceNumber ctx,
               hc_rawEntryCount = Some (bc_subSegmentSize ctx * valid),
               hc_content = fillEmpty (bc_subSegmentSize ctx) (bc_bufferEmpty ctx) (valid - 1) b\<rparr>)"

text \<open>
  The loop of \<open>_close\<close> over \<open>n\<close> streams from stream \<open>i\<close> on. It ends at the first buffer that was not
  set; an exception of one stream is swallowed and leaves its buffer set.
\<close>

fun closeBuffers :: "hidden_env \<Rightarrow> nat \<Rightarrow> nat \<Rightarrow> buffer_context \<Rightarrow> hidden_close list \<times> buffer_context" where
  "closeBuffers env i 0 ctx = ([], ctx)"
| "closeBuffers env i (Suc n) ctx =
     (case bc_buffers ctx ! i of
        None \<Rightarrow> ([], ctx)
      | Some b \<Rightarrow>
          (case hn_close env i of
             Inl e \<Rightarrow> closeBuffers env (Suc i) n ctx
           | Inr _ \<Rightarrow>
               (case closeBuffers env (Suc i) n
                       (ctx\<lparr>bc_buffers := (bc_buffers ctx)[i := None], bc_segmentIds := (bc_segmentIds ctx)[i := None]\<rparr>) of
                  (log, ctx1) \<Rightarrow> (closeEntry ctx i b # log, ctx1))))"

definition closeContext :: "hidden_env \<Rightarrow> buffer_context \<Rightarrow> hidden_close list \<times> buffer_context" where
  "closeContext env ctx = closeBuffers env 0 (length (bc_buffers ctx)) ctx"

definition completeSubSegment ::
  "hidden_env \<Rightarrow> nat \<Rightarrow> bool \<Rightarrow> buffer_context \<Rightarrow> bool \<times> hidden_close list \<times> buffer_context" where
  "completeSubSegment env index isEmpty ctx =
     (let ctx1 = ctx\<lparr>bc_bufferEmpty := (bc_bufferEmpty ctx)[index := (if isEmpty then 1 else 2)],
                     bc_usedBuffers := bc_usedBuffers ctx + 1\<rparr>
      in if bc_usedBuffers ctx = bc_subSegmentCount ctx - 1
         then (case closeContext env ctx1 of (log, ctx2) \<Rightarrow> (True, log, ctx2))
         else (False, [], ctx1))"

text \<open>\<open>getSubSegment\<close> gives the place at which a worker writes or reads.\<close>

definition subSegmentOffset :: "buffer_context \<Rightarrow> nat \<Rightarrow> nat" where
  "subSegmentOffset ctx m = (m mod bc_subSegmentCount ctx) * bc_subSegmentSize ctx"

definition writeSubSegment :: "nat \<Rightarrow> (nat \<Rightarrow> u8 list) \<Rightarrow> buffer_context \<Rightarrow> buffer_context" where
  "writeSubSegment m content ctx =
     ctx\<lparr>bc_buffers := map (\<lambda>i. map_option (poke (subSegmentOffset ctx m) (content i)) (bc_buffers ctx ! i))
                        [0..<length (bc_buffers ctx)]\<rparr>"

section \<open>Lines\<close>

text \<open>\<open>SegmentLine\<close>; of the streams only the number matters here.\<close>

record segment_line =
  gl_subSegmentCount :: nat
  gl_streams :: nat
  gl_contexts :: "(nat \<times> buffer_context) list"

text \<open>\<open>_getBufferContext\<close>: whether the context was created.\<close>

definition getBufferContext :: "nat \<Rightarrow> segment_line \<Rightarrow> bool res \<times> segment_line" where
  "getBufferContext m line =
     (let sqn = m div gl_subSegmentCount line in
      case map_of (gl_contexts line) sqn of
        Some _ \<Rightarrow> (Inr False, line)
      | None \<Rightarrow>
          (case newBufferContext sqn (gl_streams line) (gl_subSegmentCount line) of
             Inl e \<Rightarrow> (Inl e, line)
           | Inr ctx \<Rightarrow> (Inr True, line\<lparr>gl_contexts := mapPut sqn ctx (gl_contexts line)\<rparr>)))"

text \<open>\<open>_closeBufferContext\<close>. \<open>None\<close> is the use of a context that was destroyed already.\<close>

definition closeBufferContext ::
  "hidden_env \<Rightarrow> nat \<Rightarrow> bool \<Rightarrow> bool \<Rightarrow> segment_line \<Rightarrow> (hidden_close list \<times> segment_line) option" where
  "closeBufferContext env m isEmpty force line =
     (let sqn = m div gl_subSegmentCount line in
      case map_of (gl_contexts line) sqn of
        None \<Rightarrow> None
      | Some ctx \<Rightarrow>
          (case completeSubSegment env (m mod gl_subSegmentCount line) isEmpty ctx of
             (full, log, ctx1) \<Rightarrow>
               Some (log, line\<lparr>gl_contexts := (if force \<or> full then mapErase sqn (gl_contexts line)
                                               else mapPut sqn ctx1 (gl_contexts line))\<rparr>)))"

text \<open>Entering the context, which \<open>_setupBufferContexts\<close> does for every line.\<close>

definition enterLine :: "hidden_env \<Rightarrow> bool \<Rightarrow> nat \<Rightarrow> segment_line \<Rightarrow> unit res \<times> segment_line" where
  "enterLine env isLoad m line =
     (let sqn = m div gl_subSegmentCount line in
      case map_of (gl_contexts line) sqn of
        None \<Rightarrow> (Inl GenericException, line)
      | Some ctx \<Rightarrow>
          (case enterContext env isLoad ctx of
             (r, ctx1) \<Rightarrow> (r, line\<lparr>gl_contexts := mapPut sqn ctx1 (gl_contexts line)\<rparr>)))"

text \<open>The same for all lines; the first that throws ends the loop.\<close>

fun getContexts :: "nat \<Rightarrow> segment_line list \<Rightarrow> bool list res \<times> segment_line list" where
  "getContexts m [] = (Inr [], [])"
| "getContexts m (line # lines) =
     (case getBufferContext m line of
        (Inl e, line1) \<Rightarrow> (Inl e, line1 # lines)
      | (Inr c, line1) \<Rightarrow>
          (case getContexts m lines of
             (Inl e, lines1) \<Rightarrow> (Inl e, line1 # lines1)
           | (Inr cs, lines1) \<Rightarrow> (Inr (c # cs), line1 # lines1)))"

fun enterLines :: "(nat \<Rightarrow> hidden_env) \<Rightarrow> bool \<Rightarrow> nat \<Rightarrow> nat \<Rightarrow> segment_line list \<Rightarrow> unit res \<times> segment_line list" where
  "enterLines envs isLoad m k [] = (Inr (), [])"
| "enterLines envs isLoad m k (line # lines) =
     (case enterLine (envs k) isLoad m line of
        (Inl e, line1) \<Rightarrow> (Inl e, line1 # lines)
      | (Inr _, line1) \<Rightarrow>
          (case enterLines envs isLoad m (Suc k) lines of (r, lines1) \<Rightarrow> (r, line1 # lines1)))"

text \<open>The log of an encoder has the number of the line with every entry.\<close>

fun closeLines ::
  "(nat \<Rightarrow> hidden_env) \<Rightarrow> nat \<Rightarrow> bool \<Rightarrow> nat \<Rightarrow> segment_line list \<Rightarrow> ((nat \<times> hidden_close) list \<times> segment_line list) option" where
  "closeLines envs m isEmpty k [] = Some ([], [])"
| "closeLines envs m isEmpty k (line # lines) =
     (case closeBufferContext (envs k) m isEmpty False line of
        None \<Rightarrow> None
      | Some (log, line1) \<Rightarrow>
          map_option (\<lambda>(log1, lines1). (map (Pair k) log @ log1, line1 # lines1)) (closeLines envs m isEmpty (Suc k) lines))"

section \<open>Sub segment contexts\<close>

text \<open>
  \<open>_setupBufferContexts\<close>. When entering a context throws, or when a load fails, all the contexts are
  closed, with the sub segment empty. When a context can not even be created, the contexts of the
  lines behind it are uninitialised pointers that are closed nevertheless (\<open>None\<close>).
\<close>

definition setupBufferContexts ::
  "(nat \<Rightarrow> hidden_env) \<Rightarrow> bool \<Rightarrow> nat \<Rightarrow> segment_line list \<Rightarrow> (unit res \<times> (nat \<times> hidden_close) list \<times> segment_line list) option" where
  "setupBufferContexts envs isLoad m lines =
     (case getContexts m lines of
        (Inl e, lines1) \<Rightarrow> None
      | (Inr created, lines1) \<Rightarrow>
          (case enterLines envs isLoad m 0 lines1 of (r, lines2) \<Rightarrow>
             (case (case r of Inl e \<Rightarrow> Inl e
                    | Inr _ \<Rightarrow> throwOn (isLoad \<and> \<not> list_all (\<lambda>k. hn_wait (envs k)) [0..<length lines2]) GenericException (Inr ())) of
                Inr _ \<Rightarrow> Some (Inr (), [], lines2)
              | Inl e \<Rightarrow> map_option (\<lambda>(log, lines3). (Inl e, log, lines3)) (closeLines envs m True 0 lines2))))"

text \<open>What \<open>_encode\<close> writes, and the destructor of the sub segment context.\<close>

definition writeLine :: "nat \<Rightarrow> (nat \<Rightarrow> u8 list) \<Rightarrow> segment_line \<Rightarrow> segment_line" where
  "writeLine m content line =
     (let sqn = m div gl_subSegmentCount line in
      case map_of (gl_contexts line) sqn of
        None \<Rightarrow> line
      | Some ctx \<Rightarrow> line\<lparr>gl_contexts := mapPut sqn (writeSubSegment m content ctx) (gl_contexts line)\<rparr>)"

definition finishSubSegment ::
  "(nat \<Rightarrow> hidden_env) \<Rightarrow> nat \<Rightarrow> (nat \<Rightarrow> nat \<Rightarrow> u8 list) option \<Rightarrow> segment_line list \<Rightarrow>
   ((nat \<times> hidden_close) list \<times> segment_line list) option" where
  "finishSubSegment envs m content lines =
     (case content of
        None \<Rightarrow> closeLines envs m True 0 lines
      | Some c \<Rightarrow> closeLines envs m False 0 (map (\<lambda>k. writeLine m (c k) (lines ! k)) [0..<length lines]))"

text \<open>
  The workers encode and drop segments concurrently: a worker begins with a memory segment and finishes it
  later, with the content of the sub segments or without one.
\<close>

datatype encoder_event =
    Begin nat
  | Finish nat "(nat \<Rightarrow> nat \<Rightarrow> u8 list) option"

fun encoderStep ::
  "(nat \<Rightarrow> hidden_env) \<Rightarrow> bool \<Rightarrow> encoder_event \<Rightarrow> segment_line list \<Rightarrow> ((nat \<times> hidden_close) list \<times> segment_line list) option" where
  "encoderStep envs isLoad (Begin m) lines =
     (case setupBufferContexts envs isLoad m lines of Some (Inr _, log, lines1) \<Rightarrow> Some (log, lines1) | _ \<Rightarrow> None)"
| "encoderStep envs isLoad (Finish m content) lines = finishSubSegment envs m content lines"

fun encoderRun ::
  "(nat \<Rightarrow> nat \<Rightarrow> hidden_env) \<Rightarrow> nat \<Rightarrow> bool \<Rightarrow> encoder_event list \<Rightarrow> segment_line list \<Rightarrow>
   ((nat \<times> hidden_close) list \<times> segment_line list) option" where
  "encoderRun envs time isLoad [] lines = Some ([], lines)"
| "encoderRun envs time isLoad (ev # evs) lines =
     (case encoderStep (envs time) isLoad ev lines of
        None \<Rightarrow> None
      | Some (log, lines1) \<Rightarrow>
          map_option (\<lambda>(log1, lines2). (log @ log1, lines2)) (encoderRun envs (Suc time) isLoad evs lines1))"

text \<open>\<open>close\<close> of the encoder, which comes when no worker is active.\<close>

definition closeEncoder :: "(nat \<Rightarrow> hidden_env) \<Rightarrow> segment_line list \<Rightarrow> (nat \<times> hidden_close) list \<times> segment_line list" where
  "closeEncoder envs lines =
     (concat (map (\<lambda>k. concat (map (\<lambda>(_, ctx). map (Pair k) (fst (closeContext (envs k) ctx))) (gl_contexts (lines ! k))))
        [0..<length lines]),
      map (\<lambda>line. line\<lparr>gl_contexts := []\<rparr>) lines)"

text \<open>The lines of an encoder (\<open>_initializeLines\<close>): meta data, ids, data and, for 32 bit, cycle counts.\<close>

definition newLine :: "nat \<Rightarrow> nat \<Rightarrow> segment_line" where
  "newLine streams count = \<lparr>gl_subSegmentCount = count, gl_streams = streams, gl_contexts = []\<rparr>"

definition newLines :: "mem_type \<Rightarrow> segment_line list" where
  "newLines t =
     [newLine 1 (metaSubSegmentCount t), newLine (idStreamCount t) (idSubSegmentCount t)] @
     (if arch32Bit t then [newLine (dataStreamCount t) (dataSubSegmentCount t), newLine 1 (cycleSubSegmentCount t)]
      else [newLine (dataStreamCount t + 1) (dataSubSegmentCount t)])"

end
