(* ===== verification/Hidden_Inv.thy ===== *)
theory Hidden_Inv
  imports Hidden_Lines
begin

text \<open>
  What the buffer contexts of one line of hidden streams hold while workers encode memory segments
  concurrently: the invariant of a line and its preservation.
\<close>

section \<open>Closing a context\<close>

definition answering :: "hidden_env \<Rightarrow> bool" where
  "answering env \<longleftrightarrow> (\<forall>i. \<exists>seg. hn_request env i = Inr (Some seg)) \<and> (\<forall>i. hn_close env i = Inr ()) \<and> hn_wait env"

lemma validSubSegments_upper: "validSubSegments empties n \<le> n"
  by (induction n) simp_all

lemma validSubSegments_last: "j < n \<Longrightarrow> empties ! j = 2 \<Longrightarrow> j < validSubSegments empties n"
  by (induction n) (auto simp: less_Suc_eq)

lemma fillEmpty_keeps:
  assumes "empties ! j = 2"
  shows "peek (j * sz) sz (fillEmpty sz empties n b) = peek (j * sz) sz b"
proof (induction n)
  case (Suc n)
  show ?case
  proof (cases "n = j")
    case True
    then show ?thesis using Suc assms by (simp add: Let_def)
  next
    case False
    then have "Suc j \<le> n \<or> Suc n \<le> j" by auto
    then have "Suc j * sz \<le> n * sz \<or> Suc n * sz \<le> j * sz" by (metis mult_le_mono1)
    then show ?thesis using Suc by (auto simp: Let_def peek_poke_out)
  qed
qed simp

lemma closeEntry_simps [simp]:
  "closeEntry (ctx\<lparr>bc_buffers := x, bc_segmentIds := y\<rparr>) i b = closeEntry ctx i b"
  by (simp add: closeEntry_def Let_def)

lemma closeBuffers_all:
  assumes "answering env" "i + n = length (bc_buffers ctx)" "\<And>k. k < length (bc_buffers ctx) \<Longrightarrow> i \<le> k \<Longrightarrow> bc_buffers ctx ! k \<noteq> None"
  shows "fst (closeBuffers env i n ctx) = map (\<lambda>k. closeEntry ctx k (the (bc_buffers ctx ! k))) [i..<length (bc_buffers ctx)]"
  using assms(2,3)
proof (induction n arbitrary: i ctx)
  case (Suc n)
  then obtain b where b: "bc_buffers ctx ! i = Some b" by fastforce
  have close: "hn_close env i = Inr ()" using assms(1) by (simp add: answering_def)
  define ctx1 where "ctx1 = ctx\<lparr>bc_buffers := (bc_buffers ctx)[i := None], bc_segmentIds := (bc_segmentIds ctx)[i := None]\<rparr>"
  have "fst (closeBuffers env (Suc i) n ctx1) = map (\<lambda>k. closeEntry ctx1 k (the (bc_buffers ctx1 ! k))) [Suc i..<length (bc_buffers ctx1)]"
    by (rule Suc.IH) (use Suc.prems in \<open>auto simp: ctx1_def\<close>)
  also have "\<dots> = map (\<lambda>k. closeEntry ctx k (the (bc_buffers ctx ! k))) [Suc i..<length (bc_buffers ctx)]"
    by (simp add: ctx1_def)
  finally show ?case
    using b close Suc.prems(1) by (cases "closeBuffers env (Suc i) n ctx1") (simp add: ctx1_def [symmetric] upt_conv_Cons)
qed simp

lemma closeContext_all:
  assumes "answering env" "\<And>k. k < length (bc_buffers ctx) \<Longrightarrow> bc_buffers ctx ! k \<noteq> None"
  shows "fst (closeContext env ctx) = map (\<lambda>k. closeEntry ctx k (the (bc_buffers ctx ! k))) [0..<length (bc_buffers ctx)]"
  unfolding closeContext_def using assms by (intro closeBuffers_all) auto

lemma requestBuffers_all:
  assumes "answering env" "i + n = length (bc_buffers ctx)"
  shows "\<exists>ids bufs. requestBuffers env i n ctx = (Inr (), ctx\<lparr>bc_segmentIds := ids, bc_buffers := bufs\<rparr>) \<and>
    length bufs = length (bc_buffers ctx) \<and> (\<forall>k<length bufs. bufs ! k \<noteq> None \<or> k < i \<and> bufs ! k = bc_buffers ctx ! k)"
  using assms(2)
proof (induction n arbitrary: i ctx)
  case 0
  then show ?case by (intro exI [of _ "bc_segmentIds ctx"] exI [of _ "bc_buffers ctx"]) auto
next
  case (Suc n)
  obtain seg where seg: "hn_request env i = Inr (Some seg)" using assms(1) by (auto simp: answering_def)
  define ctx1 where "ctx1 = ctx\<lparr>bc_segmentIds := (bc_segmentIds ctx)[i := Some seg],
      bc_buffers := (bc_buffers ctx)[i := Some (hn_content env i)]\<rparr>"
  obtain ids bufs where r: "requestBuffers env (Suc i) n ctx1 = (Inr (), ctx1\<lparr>bc_segmentIds := ids, bc_buffers := bufs\<rparr>)"
      "length bufs = length (bc_buffers ctx1)"
      "\<forall>k<length bufs. bufs ! k \<noteq> None \<or> k < Suc i \<and> bufs ! k = bc_buffers ctx1 ! k"
    using Suc.IH [of "Suc i" ctx1] Suc.prems by (auto simp: ctx1_def)
  have "i < length (bc_buffers ctx)" using Suc.prems by simp
  then have "\<forall>k<length bufs. bufs ! k \<noteq> None \<or> k < i \<and> bufs ! k = bc_buffers ctx ! k"
    using r(3) by (auto simp: ctx1_def nth_list_update less_Suc_eq split: if_splits)
  then show ?case using seg r(1,2)
    by (intro exI [of _ ids] exI [of _ bufs]) (simp add: ctx1_def)
qed

section \<open>The invariant of a line\<close>

text \<open>
  The history of an encoder: the memory segments that were begun, and how those that are finished
  ended, with content or without.
\<close>

type_synonym outcome = "nat \<Rightarrow> (nat \<Rightarrow> u8 list) option option"

definition complete :: "nat \<Rightarrow> outcome \<Rightarrow> nat \<Rightarrow> bool" where
  "complete c fin s \<longleftrightarrow> (\<forall>j<c. fin (s * c + j) \<noteq> None)"

definition finishedIn :: "nat \<Rightarrow> outcome \<Rightarrow> nat \<Rightarrow> nat set" where
  "finishedIn c fin s = {j. j < c \<and> fin (s * c + j) \<noteq> None}"

definition emptyMark :: "outcome \<Rightarrow> nat \<Rightarrow> nat" where
  "emptyMark fin m = (case fin m of None \<Rightarrow> 0 | Some None \<Rightarrow> 1 | Some (Some _) \<Rightarrow> 2)"

definition context_ok :: "nat \<Rightarrow> nat \<Rightarrow> nat \<Rightarrow> outcome \<Rightarrow> nat \<Rightarrow> buffer_context \<Rightarrow> bool" where
  "context_ok c z n fin s ctx \<longleftrightarrow>
     bc_initialized ctx \<and> \<not> bc_isLoad ctx \<and> bc_sequenceNumber ctx = s \<and> bc_subSegmentCount ctx = c \<and>
     bc_subSegmentSize ctx = z \<and> length (bc_buffers ctx) = n \<and> (\<forall>i<n. bc_buffers ctx ! i \<noteq> None) \<and>
     bc_usedBuffers ctx = card (finishedIn c fin s) \<and> length (bc_bufferEmpty ctx) = c \<and>
     (\<forall>j<c. bc_bufferEmpty ctx ! j = emptyMark fin (s * c + j)) \<and>
     (\<forall>j<c. \<forall>content. fin (s * c + j) = Some (Some content) \<longrightarrow>
        (\<forall>i<n. peek (j * z) z (the (bc_buffers ctx ! i)) = content i))"

text \<open>What was logged for a stream and a sequence number.\<close>

definition stored_ok :: "nat \<Rightarrow> nat \<Rightarrow> outcome \<Rightarrow> nat \<Rightarrow> nat \<Rightarrow> hidden_close \<Rightarrow> bool" where
  "stored_ok c z fin s i e \<longleftrightarrow>
     (\<exists>raw. hc_rawEntryCount e = Some raw \<and>
       (\<forall>j<c. \<forall>content. fin (s * c + j) = Some (Some content) \<longrightarrow>
          j * z + z \<le> raw \<and> peek (j * z) z (hc_content e) = content i))"

definition logOf :: "nat \<Rightarrow> nat \<Rightarrow> hidden_close list \<Rightarrow> hidden_close list" where
  "logOf i s log = filter (\<lambda>e. hc_stream e = i \<and> hc_sequenceNumber e = s) log"

definition slot_ok :: "nat \<Rightarrow> nat \<Rightarrow> nat \<Rightarrow> nat set \<Rightarrow> outcome \<Rightarrow> nat \<Rightarrow> buffer_context option \<Rightarrow> bool" where
  "slot_ok c z n begun fin s x \<longleftrightarrow>
     (case x of
        None \<Rightarrow> (\<forall>m\<in>begun. m div c \<noteq> s) \<or> complete c fin s
      | Some ctx \<Rightarrow> (\<exists>m\<in>begun. m div c = s) \<and> \<not> complete c fin s \<and> context_ok c z n fin s ctx)"

definition log_ok :: "nat \<Rightarrow> nat \<Rightarrow> nat \<Rightarrow> outcome \<Rightarrow> hidden_close list \<Rightarrow> bool" where
  "log_ok c z n fin log \<longleftrightarrow>
     (\<forall>s i. if complete c fin s \<and> i < n then \<exists>e. logOf i s log = [e] \<and> stored_ok c z fin s i e else logOf i s log = [])"

definition line_ok :: "nat set \<Rightarrow> outcome \<Rightarrow> hidden_close list \<Rightarrow> segment_line \<Rightarrow> bool" where
  "line_ok begun fin log line \<longleftrightarrow>
     (let c = gl_subSegmentCount line; n = gl_streams line; z = segmentSize div c in
      0 < c \<and> 0 < n \<and> {m. fin m \<noteq> None} \<subseteq> begun \<and> map_ok (gl_contexts line) \<and>
      (\<forall>s. slot_ok c z n begun fin s (map_of (gl_contexts line) s)) \<and> log_ok c z n fin log)"

lemma line_new: "0 < c \<Longrightarrow> 0 < n \<Longrightarrow> line_ok {} (\<lambda>_. None) [] (newLine n c)"
  by (auto simp: line_ok_def newLine_def Let_def complete_def logOf_def slot_ok_def log_ok_def)

lemma line_D:
  assumes "line_ok begun fin log line"
  shows "0 < gl_subSegmentCount line" "0 < gl_streams line" "{m. fin m \<noteq> None} \<subseteq> begun" "map_ok (gl_contexts line)"
    "slot_ok (gl_subSegmentCount line) (segmentSize div gl_subSegmentCount line) (gl_streams line) begun fin s (map_of (gl_contexts line) s)"
    "log_ok (gl_subSegmentCount line) (segmentSize div gl_subSegmentCount line) (gl_streams line) fin log"
  using assms by (simp_all add: line_ok_def Let_def)

lemma line_I:
  assumes "line_ok begun fin log line" "{m. fin1 m \<noteq> None} \<subseteq> begun1" "map_ok m1"
    and "\<And>s. slot_ok (gl_subSegmentCount line) (segmentSize div gl_subSegmentCount line) (gl_streams line) begun1 fin1 s (map_of m1 s)"
    and "log_ok (gl_subSegmentCount line) (segmentSize div gl_subSegmentCount line) (gl_streams line) fin1 log1"
  shows "line_ok begun1 fin1 log1 (line\<lparr>gl_contexts := m1\<rparr>)"
  using assms by (simp add: line_ok_def Let_def)

lemma slot_begin: "m div c \<noteq> s \<Longrightarrow> slot_ok c z n (insert m begun) fin s x = slot_ok c z n begun fin s x"
  by (auto simp: slot_ok_def split: option.splits)

lemma finishedIn_finite [simp]: "finite (finishedIn c fin s)"
  by (simp add: finishedIn_def)

lemma finishedIn_upper: "finishedIn c fin s \<subseteq> {..<c}"
  by (auto simp: finishedIn_def)

lemma complete_card: "complete c fin s \<longleftrightarrow> card (finishedIn c fin s) = c"
proof -
  have "card (finishedIn c fin s) = c \<longleftrightarrow> finishedIn c fin s = {..<c}"
    by (metis card_subset_eq finite_lessThan finishedIn_upper card_lessThan)
  also have "\<dots> \<longleftrightarrow> complete c fin s" by (auto simp: finishedIn_def complete_def)
  finally show ?thesis by blast
qed

section \<open>Beginning\<close>

lemma enter_new:
  assumes "answering env" "newBufferContext s n c = Inr ctx" "0 < c" "\<forall>j<c. fin (s * c + j) = None"
  shows "\<exists>ctx1. enterContext env False ctx = (Inr (), ctx1) \<and> context_ok c (segmentSize div c) n fin s ctx1"
proof -
  have ctx: "ctx = \<lparr>bc_initialized = False, bc_sequenceNumber = s, bc_subSegmentCount = c, bc_subSegmentSize = segmentSize div c,
      bc_segmentIds = replicate n None, bc_buffers = replicate n None, bc_usedBuffers = 0, bc_bufferEmpty = replicate c 0,
      bc_isLoad = False\<rparr>"
    using assms(2) by (auto simp: newBufferContext_def throwOn_def split: if_splits)
  obtain ids bufs where r: "requestBuffers env 0 n ctx = (Inr (), ctx\<lparr>bc_segmentIds := ids, bc_buffers := bufs\<rparr>)"
      "length bufs = n" "\<forall>k<length bufs. bufs ! k \<noteq> None"
    using requestBuffers_all [OF assms(1), of 0 n ctx] by (auto simp: ctx)
  have "finishedIn c fin s = {}" using assms(4) by (auto simp: finishedIn_def)
  then show ?thesis
    using r assms(4) by (simp add: enterContext_def initializeContext_def ctx context_ok_def emptyMark_def)
qed

lemma enter_again:
  assumes "context_ok c z n fin s ctx"
  shows "enterContext env False ctx = (Inr (), ctx)"
  using assms by (simp add: enterContext_def context_ok_def)

definition beginLine :: "hidden_env \<Rightarrow> nat \<Rightarrow> segment_line \<Rightarrow> segment_line" where
  "beginLine env m line = snd (enterLine env False m (snd (getBufferContext m line)))"

lemma mapPut_same: "map_ok m \<Longrightarrow> map_of m k = Some v \<Longrightarrow> map_of (mapPut k v m) = map_of m"
  by (simp add: fun_upd_idem)

lemma begin_ok:
  assumes env: "answering env" and ok: "line_ok begun fin log line" and m: "m \<notin> begun"
  shows "(\<exists>c. fst (getBufferContext m line) = Inr c) \<and>
    fst (enterLine env False m (snd (getBufferContext m line))) = Inr () \<and>
    line_ok (insert m begun) fin log (beginLine env m line) \<and>
    gl_subSegmentCount (beginLine env m line) = gl_subSegmentCount line \<and> gl_streams (beginLine env m line) = gl_streams line"
proof -
  let ?c = "gl_subSegmentCount line" let ?n = "gl_streams line" let ?z = "segmentSize div ?c" let ?s = "m div ?c"
  note inv = line_D(1-4) [OF ok]
  have m': "fin m = None" using m inv(3) by blast
  have "?s * ?c + m mod ?c = m" "m mod ?c < ?c" using inv(1) by simp_all
  then have open': "\<not> complete ?c fin ?s" using m' by (metis complete_def)
  show ?thesis
  proof (cases "map_of (gl_contexts line) ?s")
    case (Some ctx)
    then have slot: "slot_ok ?c ?z ?n begun fin ?s (Some ctx)" using line_D(5) [OF ok, of ?s] by simp
    then have "context_ok ?c ?z ?n fin ?s ctx" by (simp add: slot_ok_def)
    note again = enter_again [OF this, of env]
    have "line_ok (insert m begun) fin log (line\<lparr>gl_contexts := mapPut ?s ctx (gl_contexts line)\<rparr>)"
    proof (rule line_I [OF ok])
      fix s show "slot_ok ?c ?z ?n (insert m begun) fin s (map_of (mapPut ?s ctx (gl_contexts line)) s)"
        using slot line_D(5) [OF ok, of s] inv(4) slot_begin [of m ?c s] by (cases "s = ?s") (auto simp: slot_ok_def)
    qed (use inv line_D(6) [OF ok] in auto)
    then show ?thesis using Some again
      by (auto simp: getBufferContext_def enterLine_def beginLine_def intro: exI [of _ False])
  next
    case None
    then have fresh: "\<forall>m\<in>begun. m div ?c \<noteq> ?s" using line_D(5) [OF ok, of ?s] open' by (simp add: slot_ok_def)
    have unfinished: "\<forall>j<?c. fin (?s * ?c + j) = None"
    proof (intro allI impI)
      fix j assume "j < ?c"
      then have "(?s * ?c + j) div ?c = ?s" by simp
      then have "?s * ?c + j \<notin> begun" using fresh by blast
      then show "fin (?s * ?c + j) = None" using inv(3) by blast
    qed
    obtain ctx where new: "newBufferContext ?s ?n ?c = Inr ctx" using inv(2) by (simp add: newBufferContext_def throwOn_def)
    obtain ctx1 where enter: "enterContext env False ctx = (Inr (), ctx1)" "context_ok ?c ?z ?n fin ?s ctx1"
      using enter_new [OF env new inv(1) unfinished] by blast
    have "line_ok (insert m begun) fin log (line\<lparr>gl_contexts := mapPut ?s ctx1 (mapPut ?s ctx (gl_contexts line))\<rparr>)"
    proof (rule line_I [OF ok])
      fix s show "slot_ok ?c ?z ?n (insert m begun) fin s (map_of (mapPut ?s ctx1 (mapPut ?s ctx (gl_contexts line))) s)"
        using enter(2) open' line_D(5) [OF ok, of s] inv(4) slot_begin [of m ?c s] by (cases "s = ?s") (auto simp: slot_ok_def)
    qed (use inv line_D(6) [OF ok] in auto)
    then show ?thesis
      using None new enter(1) inv(4)
      by (auto simp: getBufferContext_def enterLine_def beginLine_def Let_def intro: exI [of _ True])
  qed
qed

section \<open>Finishing\<close>

definition finishLine :: "hidden_env \<Rightarrow> nat \<Rightarrow> (nat \<Rightarrow> u8 list) option \<Rightarrow> segment_line \<Rightarrow> (hidden_close list \<times> segment_line) option" where
  "finishLine env m content line =
     (case content of None \<Rightarrow> closeBufferContext env m True False line
      | Some c \<Rightarrow> closeBufferContext env m False False (writeLine m c line))"

text \<open>A context in which the sub segment of \<open>m\<close> has been written and marked.\<close>

definition marked :: "nat \<Rightarrow> (nat \<Rightarrow> u8 list) option \<Rightarrow> buffer_context \<Rightarrow> buffer_context" where
  "marked m content ctx =
     (let ctx1 = (case content of None \<Rightarrow> ctx | Some c \<Rightarrow> writeSubSegment m c ctx)
      in ctx1\<lparr>bc_bufferEmpty := (bc_bufferEmpty ctx1)[m mod bc_subSegmentCount ctx := (if content = None then 1 else 2)],
              bc_usedBuffers := bc_usedBuffers ctx1 + 1\<rparr>)"

lemma completeSubSegment_marked:
  assumes "bc_subSegmentCount ctx = c"
  shows "completeSubSegment env (m mod c) (content = None) (case content of None \<Rightarrow> ctx | Some x \<Rightarrow> writeSubSegment m x ctx) =
    (if bc_usedBuffers ctx = c - 1
     then (True, fst (closeContext env (marked m content ctx)), snd (closeContext env (marked m content ctx)))
     else (False, [], marked m content ctx))"
  using assms by (cases content) (simp_all add: completeSubSegment_def marked_def writeSubSegment_def Let_def split: prod.split)

lemma finishLine_eq:
  assumes "map_ok (gl_contexts line)" "map_of (gl_contexts line) (m div gl_subSegmentCount line) = Some ctx"
    and "bc_subSegmentCount ctx = gl_subSegmentCount line"
  shows "\<exists>m1. finishLine env m content line =
    (if bc_usedBuffers ctx = gl_subSegmentCount line - 1
     then Some (fst (closeContext env (marked m content ctx)), line\<lparr>gl_contexts := m1\<rparr>)
     else Some ([], line\<lparr>gl_contexts := m1\<rparr>)) \<and> map_ok m1 \<and>
    map_of m1 = (map_of (gl_contexts line))(m div gl_subSegmentCount line :=
      (if bc_usedBuffers ctx = gl_subSegmentCount line - 1 then None else Some (marked m content ctx)))"
proof -
  let ?c = "gl_subSegmentCount line"
  define ctxw where "ctxw = (case content of None \<Rightarrow> ctx | Some x \<Rightarrow> writeSubSegment m x ctx)"
  note mark = completeSubSegment_marked [OF assms(3), of env m content, folded ctxw_def]
  define m0 where "m0 = (case content of None \<Rightarrow> gl_contexts line | Some x \<Rightarrow> mapPut (m div ?c) ctxw (gl_contexts line))"
  have m0: "map_ok m0" "map_of m0 = (map_of (gl_contexts line))(m div ?c \<mapsto> ctxw)"
    using assms(1,2) by (auto simp: m0_def ctxw_def fun_upd_idem split: option.split)
  have "finishLine env m content line = closeBufferContext env m (content = None) False (line\<lparr>gl_contexts := m0\<rparr>)"
    using assms(2) by (cases content) (simp_all add: finishLine_def writeLine_def m0_def ctxw_def)
  also have "\<dots> = (if bc_usedBuffers ctx = ?c - 1
      then Some (fst (closeContext env (marked m content ctx)), line\<lparr>gl_contexts := mapErase (m div ?c) m0\<rparr>)
      else Some ([], line\<lparr>gl_contexts := mapPut (m div ?c) (marked m content ctx) m0\<rparr>))"
    using mark m0(2) by (simp add: closeBufferContext_def Let_def case_prod_beta)
  finally show ?thesis
    using m0 by (intro exI [of _ "if bc_usedBuffers ctx = ?c - 1 then mapErase (m div ?c) m0 else mapPut (m div ?c) (marked m content ctx) m0"])
      simp
qed

lemma finishedIn_update:
  assumes "j < c" "fin (s * c + j) = None"
  shows "finishedIn c (fin(s * c + j \<mapsto> o')) s = insert j (finishedIn c fin s) \<and> j \<notin> finishedIn c fin s"
  using assms by (auto simp: finishedIn_def)

lemma div_other:
  fixes c :: nat
  assumes "j' < c" "s' * c + j' = m"
  shows "s' = m div c \<and> j' = m mod c"
  using assms by auto

text \<open>The context after a finish matches the longer history.\<close>

lemma marked_ok:
  assumes ok: "context_ok c z n fin (m div c) ctx" and c: "0 < c" and m: "fin m = None"
    and fits: "\<And>x i. content = Some x \<Longrightarrow> i < n \<Longrightarrow> length (x i) = z"
  shows "context_ok c z n (fin(m \<mapsto> content)) (m div c) (marked m content ctx)"
proof -
  let ?s = "m div c" let ?j = "m mod c" let ?fin = "fin(m \<mapsto> content)"
  have j: "?j < c" "?s * c + ?j = m" using c by simp_all
  have ctx: "bc_initialized ctx" "\<not> bc_isLoad ctx" "bc_sequenceNumber ctx = ?s" "bc_subSegmentCount ctx = c"
      "bc_subSegmentSize ctx = z" "length (bc_buffers ctx) = n" "\<And>i. i < n \<Longrightarrow> bc_buffers ctx ! i \<noteq> None"
      "bc_usedBuffers ctx = card (finishedIn c fin ?s)" "length (bc_bufferEmpty ctx) = c"
      "\<And>j. j < c \<Longrightarrow> bc_bufferEmpty ctx ! j = emptyMark fin (?s * c + j)"
      "\<And>j x i. j < c \<Longrightarrow> fin (?s * c + j) = Some (Some x) \<Longrightarrow> i < n \<Longrightarrow> peek (j * z) z (the (bc_buffers ctx ! i)) = x i"
    using ok by (auto simp: context_ok_def)
  have used: "card (finishedIn c ?fin ?s) = Suc (card (finishedIn c fin ?s))"
    using finishedIn_update [of ?j c fin ?s content] j m by simp
  define ctx1 where "ctx1 = marked m content ctx"
  have other: "?s * c + j' \<noteq> m" if "j' < c" "j' \<noteq> ?j" for j' using div_other [OF that(1), of ?s m] that(2) by auto
  have fields: "bc_initialized ctx1" "\<not> bc_isLoad ctx1" "bc_sequenceNumber ctx1 = ?s" "bc_subSegmentCount ctx1 = c"
      "bc_subSegmentSize ctx1 = z" "length (bc_buffers ctx1) = n" "bc_usedBuffers ctx1 = Suc (bc_usedBuffers ctx)"
      "bc_bufferEmpty ctx1 = (bc_bufferEmpty ctx)[?j := (if content = None then 1 else 2)]"
    using ctx by (auto simp: ctx1_def marked_def writeSubSegment_def Let_def split: option.splits)
  have buffers: "bc_buffers ctx1 ! i = (case content of None \<Rightarrow> bc_buffers ctx ! i
      | Some x \<Rightarrow> Some (poke (?j * z) (x i) (the (bc_buffers ctx ! i))))" if "i < n" for i
    using that ctx(4-6) ctx(7) [OF that]
    by (auto simp: ctx1_def marked_def writeSubSegment_def subSegmentOffset_def Let_def split: option.splits)
  have marks: "bc_bufferEmpty ctx1 ! j' = emptyMark ?fin (?s * c + j')" if "j' < c" for j'
    using that fields(8) ctx(9,10) j other [OF that] by (cases "j' = ?j") (auto simp: emptyMark_def nth_list_update)
  have stored: "peek (j' * z) z (the (bc_buffers ctx1 ! i)) = x i"
    if "j' < c" "?fin (?s * c + j') = Some (Some x)" "i < n" for j' x i
  proof (cases "j' = ?j")
    case True
    then have "content = Some x" using that(2) j(2) by simp
    then show ?thesis using buffers [OF that(3)] fits that(3) True by (simp add: peek_poke)
  next
    case False
    then have old: "peek (j' * z) z (the (bc_buffers ctx ! i)) = x i" using ctx(11) that other [OF that(1)] by simp
    show ?thesis
    proof (cases content)
      case None
      then show ?thesis using buffers [OF that(3)] old by simp
    next
      case (Some y)
      have "Suc j' \<le> ?j \<or> Suc ?j \<le> j'" using False by auto
      then have "Suc j' * z \<le> ?j * z \<or> Suc ?j * z \<le> j' * z" by (metis mult_le_mono1)
      then show ?thesis using buffers [OF that(3)] old Some fits [OF Some that(3)] by (simp add: peek_poke_out add.commute)
    qed
  qed
  have "bc_buffers ctx1 ! i \<noteq> None" if "i < n" for i using buffers [OF that] ctx(7) [OF that] by (simp split: option.split)
  then show ?thesis
    unfolding context_ok_def ctx1_def [symmetric] using fields ctx(8,9) used marks stored by simp
qed

text \<open>Another sequence number of the hidden streams is not concerned.\<close>

lemma outcome_cong:
  assumes "\<And>j. j < c \<Longrightarrow> fin1 (s * c + j) = fin (s * c + j)"
  shows "complete c fin1 s = complete c fin s" "slot_ok c z n begun fin1 s x = slot_ok c z n begun fin s x"
    "stored_ok c z fin1 s i e = stored_ok c z fin s i e"
proof -
  show complete: "complete c fin1 s = complete c fin s" using assms by (simp add: complete_def)
  have "finishedIn c fin1 s = finishedIn c fin s" using assms by (auto simp: finishedIn_def)
  then have "context_ok c z n fin1 s ctx = context_ok c z n fin s ctx" for ctx
    using assms by (simp add: context_ok_def emptyMark_def)
  then show "slot_ok c z n begun fin1 s x = slot_ok c z n begun fin s x" using complete by (simp add: slot_ok_def split: option.split)
  show "stored_ok c z fin1 s i e = stored_ok c z fin s i e" using assms by (simp add: stored_ok_def)
qed

lemma update_other:
  fixes c :: nat
  assumes "s \<noteq> m div c" "j < c"
  shows "(fin(m \<mapsto> x)) (s * c + j) = fin (s * c + j)"
  using div_other [OF assms(2), of s m] assms(1) by auto

lemma outcome_other:
  assumes "s \<noteq> m div c"
  shows "complete c (fin(m \<mapsto> x)) s = complete c fin s"
    "slot_ok c z n begun (fin(m \<mapsto> x)) s y = slot_ok c z n begun fin s y"
    "stored_ok c z (fin(m \<mapsto> x)) s i e = stored_ok c z fin s i e"
  by (intro outcome_cong update_other [OF assms]; assumption)+

text \<open>
  Closing a context whose finished sub segments are the first ones: every stream is closed once, with
  the sub segments that have content, and with a number of raw entries that covers them.
\<close>

lemma closeEntry_ok:
  assumes ok: "context_ok c z n fin s ctx" and first: "finishedIn c fin s = {..<bc_usedBuffers ctx}" and i: "i < n"
  shows "stored_ok c z fin s i (closeEntry ctx i (the (bc_buffers ctx ! i)))"
proof -
  let ?valid = "validSubSegments (bc_bufferEmpty ctx) (bc_usedBuffers ctx)"
  have ctx: "\<not> bc_isLoad ctx" "bc_subSegmentSize ctx = z"
    using ok by (simp_all add: context_ok_def)
  have "j * z + z \<le> z * ?valid \<and> peek (j * z) z (fillEmpty z (bc_bufferEmpty ctx) (?valid - 1) (the (bc_buffers ctx ! i))) = x i"
    if j: "j < c" "fin (s * c + j) = Some (Some x)" for j x
  proof -
    have mark: "bc_bufferEmpty ctx ! j = 2" using ok j by (simp add: context_ok_def emptyMark_def)
    have "j \<in> finishedIn c fin s" using j by (simp add: finishedIn_def)
    then have "j < ?valid" using validSubSegments_last mark first by blast
    then have "Suc j * z \<le> ?valid * z" by (intro mult_le_mono1) simp
    moreover have "peek (j * z) z (the (bc_buffers ctx ! i)) = x i" using ok j i by (simp add: context_ok_def)
    ultimately show ?thesis by (simp add: fillEmpty_keeps [OF mark] mult.commute [of z])
  qed
  then show ?thesis using ctx unfolding stored_ok_def closeEntry_def by (auto simp: Let_def)
qed

lemma closeEntry_key [simp]:
  "hc_stream (closeEntry ctx i b) = i" "hc_sequenceNumber (closeEntry ctx i b) = bc_sequenceNumber ctx"
  by (simp_all add: closeEntry_def Let_def)

lemma filter_one: "i < n \<Longrightarrow> filter (\<lambda>k. k = i) [0..<n] = [i]"
  by (induction n) (auto simp: less_Suc_eq)

lemma close_logOf:
  assumes "answering env" "context_ok c z n fin s ctx"
  shows "logOf i s' (fst (closeContext env ctx)) = (if s' = s \<and> i < n then [closeEntry ctx i (the (bc_buffers ctx ! i))] else [])"
proof -
  have "fst (closeContext env ctx) = map (\<lambda>k. closeEntry ctx k (the (bc_buffers ctx ! k))) [0..<n]"
    using closeContext_all [OF assms(1), of ctx] assms(2) by (simp add: context_ok_def)
  then have "logOf i s' (fst (closeContext env ctx)) =
      map (\<lambda>k. closeEntry ctx k (the (bc_buffers ctx ! k))) (filter (\<lambda>k. k = i \<and> s = s') [0..<n])"
    using assms(2) by (simp add: logOf_def filter_map comp_def context_ok_def)
  also have "filter (\<lambda>k. k = i \<and> s = s') [0..<n] = (if s' = s \<and> i < n then [i] else [])"
    using filter_one [of i n] by (cases "s = s'") (auto simp: filter_empty_conv)
  finally show ?thesis by simp
qed

lemma logOf_append [simp]: "logOf i s (log1 @ log2) = logOf i s log1 @ logOf i s log2"
  by (simp add: logOf_def)

lemma finish_ok:
  assumes env: "answering env" and ok: "line_ok begun fin log line" and m: "m \<in> begun" "fin m = None"
    and fits: "\<And>x i. content = Some x \<Longrightarrow> i < gl_streams line \<Longrightarrow> length (x i) = segmentSize div gl_subSegmentCount line"
  shows "\<exists>log1 m1. finishLine env m content line = Some (log1, line\<lparr>gl_contexts := m1\<rparr>) \<and>
    line_ok begun (fin(m \<mapsto> content)) (log @ log1) (line\<lparr>gl_contexts := m1\<rparr>)"
proof -
  let ?c = "gl_subSegmentCount line" let ?n = "gl_streams line" let ?z = "segmentSize div ?c"
  let ?s = "m div ?c" let ?fin = "fin(m \<mapsto> content)"
  note inv = line_D(1-4) [OF ok]
  have j: "?s * ?c + m mod ?c = m" "m mod ?c < ?c" using inv(1) by simp_all
  then have "\<not> complete ?c fin ?s" using m(2) by (metis complete_def)
  then obtain ctx where ctx: "map_of (gl_contexts line) ?s = Some ctx" "context_ok ?c ?z ?n fin ?s ctx"
    using line_D(5) [OF ok, of ?s] m(1) by (auto simp: slot_ok_def split: option.splits)
  let ?ctx1 = "marked m content ctx" let ?full = "bc_usedBuffers ctx = ?c - 1"
  have ok1: "context_ok ?c ?z ?n ?fin ?s ?ctx1" using ctx(2) inv(1) m(2) fits by (rule marked_ok)
  have count: "bc_subSegmentCount ctx = ?c" "bc_usedBuffers ctx = card (finishedIn ?c fin ?s)"
    using ctx(2) by (simp_all add: context_ok_def)
  obtain m1 where fin: "finishLine env m content line =
      (if ?full then Some (fst (closeContext env ?ctx1), line\<lparr>gl_contexts := m1\<rparr>) else Some ([], line\<lparr>gl_contexts := m1\<rparr>))"
      "map_ok m1" "map_of m1 = (map_of (gl_contexts line))(?s := (if ?full then None else Some ?ctx1))"
    using finishLine_eq [OF inv(4) ctx(1) count(1), of env content] by blast
  define log1 where "log1 = (if ?full then fst (closeContext env ?ctx1) else [])"
  have used: "card (finishedIn ?c ?fin ?s) = Suc (bc_usedBuffers ctx)"
    using finishedIn_update [of "m mod ?c" ?c fin ?s content] j m(2) count(2) by simp
  then have full: "complete ?c ?fin ?s \<longleftrightarrow> ?full" using inv(1) by (auto simp: complete_card)
  have "line_ok begun ?fin (log @ log1) (line\<lparr>gl_contexts := m1\<rparr>)"
  proof (rule line_I [OF ok])
    show "{m. ?fin m \<noteq> None} \<subseteq> begun" using inv(3) m(1) by auto
    fix s show "slot_ok ?c ?z ?n begun ?fin s (map_of m1 s)"
    proof (cases "s = ?s")
      case True
      then show ?thesis using fin(3) full ok1 m(1) by (auto simp: slot_ok_def)
    next
      case False
      then show ?thesis using fin(3) line_D(5) [OF ok, of s] outcome_other(2) [OF False] by simp
    qed
  next
    have log1_ok: "if complete ?c ?fin s \<and> i < ?n then \<exists>e. logOf i s (log @ log1) = [e] \<and> stored_ok ?c ?z ?fin s i e
        else logOf i s (log @ log1) = []" for s i
    proof (cases "s = ?s")
      case True
      have old: "logOf i ?s log = []" using line_D(6) [OF ok] \<open>\<not> complete ?c fin ?s\<close> by (auto simp: log_ok_def)
      have "stored_ok ?c ?z ?fin ?s i (closeEntry ?ctx1 i (the (bc_buffers ?ctx1 ! i)))" if ?full "i < ?n"
      proof (rule closeEntry_ok [OF ok1 _ that(2)])
        have "card (finishedIn ?c ?fin ?s) = ?c" using full that(1) by (simp add: complete_card)
        then have "finishedIn ?c ?fin ?s = {..<?c}" by (metis card_lessThan card_subset_eq finite_lessThan finishedIn_upper)
        moreover have "bc_usedBuffers ?ctx1 = ?c" using ok1 \<open>card (finishedIn ?c ?fin ?s) = ?c\<close> by (simp add: context_ok_def)
        ultimately show "finishedIn ?c ?fin ?s = {..<bc_usedBuffers ?ctx1}" by simp
      qed
      then show ?thesis using True old full close_logOf [OF env ok1, of i ?s] by (auto simp: log1_def logOf_def)
    next
      case False
      have "logOf i s log1 = []" using close_logOf [OF env ok1, of i s] False by (simp add: log1_def logOf_def)
      moreover have "if complete ?c fin s \<and> i < ?n then \<exists>e. logOf i s log = [e] \<and> stored_ok ?c ?z fin s i e else logOf i s log = []"
        using line_D(6) [OF ok] by (simp add: log_ok_def)
      ultimately show ?thesis using outcome_other(1,3) [OF False] by simp
    qed
    show "log_ok ?c ?z ?n ?fin (log @ log1)" unfolding log_ok_def by (intro allI) (rule log1_ok)
  qed (rule fin(2))
  then show ?thesis using fin(1) by (auto simp: log1_def)
qed

end
