(* ===== verification/Hidden_Encoder.thy ===== *)
theory Hidden_Encoder
  imports Hidden_Inv
begin

text \<open>
  The lines of a memory encoder together: every legal interleaving of the workers that encode memory
  segments succeeds, and the hidden streams hold all of what was encoded, in one segment for every
  group of sequence numbers.
\<close>

section \<open>All the lines\<close>

lemma getContexts_all:
  "\<forall>line\<in>set lines. \<exists>c. fst (getBufferContext m line) = Inr c \<Longrightarrow>
   \<exists>cs. getContexts m lines = (Inr cs, map (\<lambda>line. snd (getBufferContext m line)) lines)"
proof (induction lines)
  case (Cons line lines)
  obtain c line1 where "getBufferContext m line = (Inr c, line1)" using Cons.prems by (cases "getBufferContext m line") auto
  then show ?case using Cons by auto
qed simp

lemma map_upt_Cons: "map f [0..<length (x # xs)] = f 0 # map (\<lambda>j. f (Suc j)) [0..<length xs]"
  by (simp add: upt_conv_Cons map_Suc_upt [symmetric] del: upt_Suc)

lemma enterLines_all:
  "\<forall>j<length lines. fst (enterLine (envs (k + j)) isLoad m (lines ! j)) = Inr () \<Longrightarrow>
   enterLines envs isLoad m k lines =
     (Inr (), map (\<lambda>j. snd (enterLine (envs (k + j)) isLoad m (lines ! j))) [0..<length lines])"
proof (induction lines arbitrary: k)
  case (Cons line lines)
  obtain line1 where "enterLine (envs k) isLoad m line = (Inr (), line1)"
    using Cons.prems by (cases "enterLine (envs k) isLoad m line") force
  moreover have "\<forall>j<length lines. fst (enterLine (envs (Suc k + j)) isLoad m (lines ! j)) = Inr ()"
    using Cons.prems by force
  ultimately show ?case using Cons.IH [of "Suc k"] by (simp only: map_upt_Cons) simp
qed simp

lemma closeLines_all:
  "\<forall>j<length lines. closeBufferContext (envs (k + j)) m isEmpty False (lines ! j) = Some (logs j, lines1 j) \<Longrightarrow>
   closeLines envs m isEmpty k lines =
     Some (concat (map (\<lambda>j. map (Pair (k + j)) (logs j)) [0..<length lines]), map lines1 [0..<length lines])"
proof (induction lines arbitrary: k logs lines1)
  case (Cons line lines)
  have "closeBufferContext (envs k) m isEmpty False line = Some (logs 0, lines1 0)" using Cons.prems by force
  moreover have "\<forall>j<length lines. closeBufferContext (envs (Suc k + j)) m isEmpty False (lines ! j) = Some (logs (Suc j), lines1 (Suc j))"
    using Cons.prems by force
  ultimately show ?case using Cons.IH [of "Suc k"] by (simp only: map_upt_Cons) simp
qed simp

text \<open>What one line of an encoder logs, and what a line gets of an outcome.\<close>

definition lineLog :: "nat \<Rightarrow> (nat \<times> hidden_close) list \<Rightarrow> hidden_close list" where
  "lineLog k log = map snd (filter (\<lambda>e. fst e = k) log)"

lemma lineLog_simps [simp]:
  "lineLog k [] = []" "lineLog k (log1 @ log2) = lineLog k log1 @ lineLog k log2"
  "lineLog k (map (Pair j) log) = (if j = k then log else [])"
  by (simp_all add: lineLog_def filter_map comp_def)

lemma lineLog_concat: "k < n \<Longrightarrow> lineLog k (concat (map (\<lambda>j. map (Pair j) (logs j)) [0..<n])) = logs k"
proof (induction n)
  case (Suc n)
  have "lineLog n (concat (map (\<lambda>j. map (Pair j) (logs j)) [0..<m])) = []" if "m \<le> n" for m
    using that by (induction m) simp_all
  then show ?case using Suc by (cases "k = n") simp_all
qed simp

type_synonym encoder_outcome = "nat \<Rightarrow> (nat \<Rightarrow> nat \<Rightarrow> u8 list) option option"

definition lineOutcome :: "nat \<Rightarrow> encoder_outcome \<Rightarrow> outcome" where
  "lineOutcome k fin m = map_option (map_option (\<lambda>c. c k)) (fin m)"

lemma lineOutcome_None [simp]: "lineOutcome k fin m = None \<longleftrightarrow> fin m = None"
  by (simp add: lineOutcome_def)

lemma lineOutcome_update: "lineOutcome k (fin(m \<mapsto> content)) = (lineOutcome k fin)(m \<mapsto> map_option (\<lambda>c. c k) content)"
  by (auto simp: lineOutcome_def)

definition fits :: "segment_line list \<Rightarrow> (nat \<Rightarrow> nat \<Rightarrow> u8 list) \<Rightarrow> bool" where
  "fits lines c \<longleftrightarrow>
     (\<forall>k<length lines. \<forall>i<gl_streams (lines ! k). length (c k i) = segmentSize div gl_subSegmentCount (lines ! k))"

definition sameShape :: "segment_line list \<Rightarrow> segment_line list \<Rightarrow> bool" where
  "sameShape lines lines1 \<longleftrightarrow> length lines1 = length lines \<and>
     (\<forall>k<length lines. gl_subSegmentCount (lines1 ! k) = gl_subSegmentCount (lines ! k) \<and> gl_streams (lines1 ! k) = gl_streams (lines ! k))"

definition encoder_ok :: "nat set \<Rightarrow> encoder_outcome \<Rightarrow> (nat \<times> hidden_close) list \<Rightarrow> segment_line list \<Rightarrow> bool" where
  "encoder_ok begun fin log lines \<longleftrightarrow> (\<forall>k<length lines. line_ok begun (lineOutcome k fin) (lineLog k log) (lines ! k))"

lemma fits_shape: "sameShape lines lines1 \<Longrightarrow> fits lines1 c = fits lines c"
  by (simp add: sameShape_def fits_def)

lemma sameShape_trans: "sameShape lines lines1 \<Longrightarrow> sameShape lines1 lines2 \<Longrightarrow> sameShape lines lines2"
  by (simp add: sameShape_def)

lemma begin_step:
  assumes env: "\<forall>k. answering (envs k)" and ok: "encoder_ok begun fin log lines" and m: "m \<notin> begun"
  shows "\<exists>lines1. encoderStep envs False (Begin m) lines = Some ([], lines1) \<and>
    encoder_ok (insert m begun) fin log lines1 \<and> sameShape lines lines1"
proof -
  let ?mid = "map (\<lambda>line. snd (getBufferContext m line)) lines"
  let ?lines1 = "map (\<lambda>k. beginLine (envs k) m (lines ! k)) [0..<length lines]"
  have all: "(\<exists>c. fst (getBufferContext m (lines ! k)) = Inr c) \<and>
      fst (enterLine (envs k) False m (snd (getBufferContext m (lines ! k)))) = Inr () \<and>
      line_ok (insert m begun) (lineOutcome k fin) (lineLog k log) (beginLine (envs k) m (lines ! k)) \<and>
      gl_subSegmentCount (beginLine (envs k) m (lines ! k)) = gl_subSegmentCount (lines ! k) \<and>
      gl_streams (beginLine (envs k) m (lines ! k)) = gl_streams (lines ! k)" if "k < length lines" for k
    using begin_ok [of "envs k" begun "lineOutcome k fin" "lineLog k log" "lines ! k" m] env ok m that
    by (simp add: encoder_ok_def)
  have "\<forall>line\<in>set lines. \<exists>c. fst (getBufferContext m line) = Inr c" using all by (metis in_set_conv_nth)
  then obtain cs where "getContexts m lines = (Inr cs, ?mid)" using getContexts_all by blast
  moreover have "enterLines envs False m 0 ?mid = (Inr (), ?lines1)"
    using enterLines_all [of ?mid envs 0 False m] all by (simp add: beginLine_def cong: map_cong)
  ultimately have "encoderStep envs False (Begin m) lines = Some ([], ?lines1)"
    by (simp add: setupBufferContexts_def throwOn_def)
  moreover have "encoder_ok (insert m begun) fin log ?lines1 \<and> sameShape lines ?lines1"
    using all by (simp add: encoder_ok_def sameShape_def)
  ultimately show ?thesis by blast
qed

lemma finishSubSegment_all:
  assumes "\<forall>k<length lines. finishLine (envs k) m (map_option (\<lambda>c. c k) content) (lines ! k) = Some (logs k, lines1 k)"
  shows "finishSubSegment envs m content lines =
    Some (concat (map (\<lambda>k. map (Pair k) (logs k)) [0..<length lines]), map lines1 [0..<length lines])"
proof (cases content)
  case None
  then show ?thesis
    using assms closeLines_all [of lines envs 0 m True logs lines1] by (simp add: finishSubSegment_def finishLine_def)
next
  case (Some c)
  then show ?thesis
    using assms closeLines_all [of "map (\<lambda>k. writeLine m (c k) (lines ! k)) [0..<length lines]" envs 0 m False logs lines1]
    by (simp add: finishSubSegment_def finishLine_def)
qed

lemma finish_step:
  assumes env: "\<forall>k. answering (envs k)" and ok: "encoder_ok begun fin log lines" and m: "m \<in> begun" "fin m = None"
    and content: "\<And>c. content = Some c \<Longrightarrow> fits lines c"
  shows "\<exists>log1 lines1. encoderStep envs False (Finish m content) lines = Some (log1, lines1) \<and>
    encoder_ok begun (fin(m \<mapsto> content)) (log @ log1) lines1 \<and> sameShape lines lines1"
proof -
  have "\<exists>log1 m1. finishLine (envs k) m (map_option (\<lambda>c. c k) content) (lines ! k) = Some (log1, (lines ! k)\<lparr>gl_contexts := m1\<rparr>) \<and>
      line_ok begun (lineOutcome k (fin(m \<mapsto> content))) (lineLog k log @ log1) ((lines ! k)\<lparr>gl_contexts := m1\<rparr>)"
    if "k < length lines" for k
    using finish_ok [of "envs k" begun "lineOutcome k fin" "lineLog k log" "lines ! k" m "map_option (\<lambda>c. c k) content"]
      env ok m that content by (force simp: encoder_ok_def fits_def lineOutcome_update)
  then obtain logs maps where all: "\<And>k. k < length lines \<Longrightarrow>
      finishLine (envs k) m (map_option (\<lambda>c. c k) content) (lines ! k) = Some (logs k, (lines ! k)\<lparr>gl_contexts := maps k\<rparr>) \<and>
      line_ok begun (lineOutcome k (fin(m \<mapsto> content))) (lineLog k log @ logs k) ((lines ! k)\<lparr>gl_contexts := maps k\<rparr>)"
    by metis
  let ?log1 = "concat (map (\<lambda>k. map (Pair k) (logs k)) [0..<length lines])"
  let ?lines1 = "map (\<lambda>k. (lines ! k)\<lparr>gl_contexts := maps k\<rparr>) [0..<length lines]"
  have "encoderStep envs False (Finish m content) lines = Some (?log1, ?lines1)"
    using finishSubSegment_all [of lines envs m content logs "\<lambda>k. (lines ! k)\<lparr>gl_contexts := maps k\<rparr>"] all by simp
  moreover have "encoder_ok begun (fin(m \<mapsto> content)) (log @ ?log1) ?lines1"
    using all lineLog_concat [of _ "length lines" logs] by (simp add: encoder_ok_def)
  ultimately show ?thesis by (auto simp: sameShape_def)
qed

section \<open>Histories\<close>

text \<open>
  A worker begins with a memory segment that is new, and finishes one that it has begun, with sub
  segments of the sizes of the lines.
\<close>

fun eventBegun :: "encoder_event \<Rightarrow> nat set \<Rightarrow> nat set" where
  "eventBegun (Begin m) begun = insert m begun"
| "eventBegun (Finish m content) begun = begun"

fun eventOutcome :: "encoder_event \<Rightarrow> encoder_outcome \<Rightarrow> encoder_outcome" where
  "eventOutcome (Begin m) fin = fin"
| "eventOutcome (Finish m content) fin = fin(m \<mapsto> content)"

fun legalEvent :: "segment_line list \<Rightarrow> nat set \<Rightarrow> encoder_outcome \<Rightarrow> encoder_event \<Rightarrow> bool" where
  "legalEvent lines begun fin (Begin m) \<longleftrightarrow> m \<notin> begun"
| "legalEvent lines begun fin (Finish m content) \<longleftrightarrow> m \<in> begun \<and> fin m = None \<and> (case content of None \<Rightarrow> True | Some c \<Rightarrow> fits lines c)"

fun legalFrom :: "segment_line list \<Rightarrow> nat set \<Rightarrow> encoder_outcome \<Rightarrow> encoder_event list \<Rightarrow> bool" where
  "legalFrom lines begun fin [] \<longleftrightarrow> True"
| "legalFrom lines begun fin (ev # evs) \<longleftrightarrow>
     legalEvent lines begun fin ev \<and> legalFrom lines (eventBegun ev begun) (eventOutcome ev fin) evs"

definition begunBy :: "encoder_event list \<Rightarrow> nat set" where
  "begunBy evs = fold eventBegun evs {}"

definition outcomeOf :: "encoder_event list \<Rightarrow> encoder_outcome" where
  "outcomeOf evs = fold eventOutcome evs (\<lambda>_. None)"

lemma legal_shape: "sameShape lines lines1 \<Longrightarrow> legalFrom lines1 begun fin evs = legalFrom lines begun fin evs"
proof (induction evs arbitrary: begun fin)
  case (Cons ev evs)
  then show ?case by (cases ev) (simp_all add: fits_shape split: option.split)
qed simp

lemma run_ok:
  assumes "\<forall>t k. answering (envs t k)"
  shows "encoder_ok begun fin log lines \<Longrightarrow> legalFrom lines begun fin evs \<Longrightarrow>
    \<exists>log1 lines1. encoderRun envs t False evs lines = Some (log1, lines1) \<and>
      encoder_ok (fold eventBegun evs begun) (fold eventOutcome evs fin) (log @ log1) lines1 \<and> sameShape lines lines1"
proof (induction evs arbitrary: t begun fin log lines)
  case Nil
  then show ?case by (simp add: sameShape_def)
next
  case (Cons ev evs)
  have env: "\<forall>k. answering (envs t k)" using assms by blast
  have legal: "legalEvent lines begun fin ev" "legalFrom lines (eventBegun ev begun) (eventOutcome ev fin) evs" using Cons.prems by simp_all
  obtain log1 lines1 where step: "encoderStep (envs t) False ev lines = Some (log1, lines1)"
      "encoder_ok (eventBegun ev begun) (eventOutcome ev fin) (log @ log1) lines1" "sameShape lines lines1"
  proof (cases ev)
    case (Begin m)
    then show ?thesis using begin_step [OF env Cons.prems(1), of m] legal(1) that by auto
  next
    case (Finish m content)
    have "\<And>c. content = Some c \<Longrightarrow> fits lines c" using legal(1) Finish by simp
    then show ?thesis using finish_step [OF env Cons.prems(1), of m content] legal(1) that Finish by auto
  qed
  then show ?case
    using Cons.IH [OF step(2), of "Suc t"] legal(2) legal_shape [OF step(3)] sameShape_trans [OF step(3)] by fastforce
qed

lemma newLine_exists: "0 < n \<Longrightarrow> 0 < c \<Longrightarrow> \<exists>n' c'. newLine n c = newLine n' c' \<and> 0 < n' \<and> 0 < c'"
  by blast

lemma newLines_ok: "encoder_ok {} (\<lambda>_. None) [] (newLines t)"
proof -
  have "\<forall>line\<in>set (newLines t). \<exists>n c. line = newLine n c \<and> 0 < n \<and> 0 < c"
    by (auto simp: newLines_def metaSubSegmentCount_def idSubSegmentCount_def dataSubSegmentCount_def
        cycleSubSegmentCount_def idStreamCount_def dataStreamCount_def simp del: One_nat_def
        intro!: newLine_exists subSegment_fits(1))
  moreover have "(lineOutcome k (\<lambda>_. None)) = (\<lambda>_. None)" for k by (simp add: lineOutcome_def fun_eq_iff)
  ultimately show ?thesis unfolding encoder_ok_def by (metis lineLog_simps(1) line_new nth_mem)
qed

section \<open>Closing the encoder\<close>

lemma concat_logOf: "logOf i s (concat logs) = concat (map (logOf i s) logs)"
  by (induction logs) (simp_all add: logOf_def)

lemma closeAll_logOf:
  assumes "answering env" "distinct (map fst contexts)" "\<forall>(s, ctx)\<in>set contexts. context_ok c z n fin s ctx"
  shows "logOf i s (concat (map (\<lambda>(_, ctx). fst (closeContext env ctx)) contexts)) =
    (case map_of contexts s of None \<Rightarrow> []
     | Some ctx \<Rightarrow> if i < n then [closeEntry ctx i (the (bc_buffers ctx ! i))] else [])"
  using assms(2,3)
proof (induction contexts)
  case (Cons x contexts)
  obtain s' ctx' where x: "x = (s', ctx')" by (cases x)
  have head: "logOf i s (fst (closeContext env ctx')) = (if s = s' \<and> i < n then [closeEntry ctx' i (the (bc_buffers ctx' ! i))] else [])"
    using close_logOf [OF assms(1), of c z n fin s' ctx'] Cons.prems(2) x by simp
  have "map_of contexts s' = None" using Cons.prems(1) x by (simp add: map_of_eq_None_iff)
  then show ?case using Cons x head by auto
qed (simp add: logOf_def)

lemma first_card: "finite A \<Longrightarrow> A = {..<k} \<Longrightarrow> A = {..<card A}"
  by simp

lemma finishedIn_first:
  assumes "\<And>m. fin m \<noteq> None \<longleftrightarrow> m < N"
  shows "finishedIn c fin s = {..<card (finishedIn c fin s)}"
proof -
  have "finishedIn c fin s = {..<min c (N - s * c)}" using assms by (auto simp: finishedIn_def)
  then show ?thesis by simp
qed

lemma slot_context: "slot_ok c z n begun fin s (Some ctx) \<Longrightarrow> context_ok c z n fin s ctx \<and> \<not> complete c fin s"
  by (simp add: slot_ok_def)

text \<open>Afterwards every finished memory segment with content is in the hidden streams of a line.\<close>

lemma close_line:
  assumes env: "answering env" and ok: "line_ok begun fin log line" and all: "\<And>m. fin m \<noteq> None \<longleftrightarrow> m < N"
    and m: "fin m = Some (Some x)" and i: "i < gl_streams line"
  shows "\<exists>e raw. logOf i (m div gl_subSegmentCount line)
      (log @ concat (map (\<lambda>(_, ctx). fst (closeContext env ctx)) (gl_contexts line))) = [e] \<and>
    hc_rawEntryCount e = Some raw \<and>
    (m mod gl_subSegmentCount line) * (segmentSize div gl_subSegmentCount line) + segmentSize div gl_subSegmentCount line \<le> raw \<and>
    peek ((m mod gl_subSegmentCount line) * (segmentSize div gl_subSegmentCount line)) (segmentSize div gl_subSegmentCount line)
      (hc_content e) = x i"
proof -
  let ?c = "gl_subSegmentCount line" let ?n = "gl_streams line" let ?z = "segmentSize div ?c" let ?s = "m div ?c"
  let ?closed = "concat (map (\<lambda>(_, ctx). fst (closeContext env ctx)) (gl_contexts line))"
  note inv = line_D(1-4) [OF ok]
  have j: "?s * ?c + m mod ?c = m" "m mod ?c < ?c" using inv(1) by simp_all
  have distinct: "distinct (map fst (gl_contexts line))" using map_ok_distinct [OF inv(4)] by (simp add: keys_def)
  have slots: "slot_ok ?c ?z ?n begun fin s (map_of (gl_contexts line) s)" for s by (rule line_D(5) [OF ok])
  have "\<forall>(s, ctx)\<in>set (gl_contexts line). context_ok ?c ?z ?n fin s ctx"
  proof (clarify)
    fix s ctx assume "(s, ctx) \<in> set (gl_contexts line)"
    then have "map_of (gl_contexts line) s = Some ctx" using distinct by simp
    then show "context_ok ?c ?z ?n fin s ctx" using slots [of s] slot_context by simp
  qed
  note closed = closeAll_logOf [OF env distinct this, of i ?s]
  have "\<exists>e. logOf i ?s (log @ ?closed) = [e] \<and> stored_ok ?c ?z fin ?s i e"
  proof (cases "map_of (gl_contexts line) ?s")
    case None
    have "m \<in> begun" using inv(3) m by auto
    then have "complete ?c fin ?s" using None slots [of ?s] by (auto simp: slot_ok_def)
    then have "\<exists>e. logOf i ?s log = [e] \<and> stored_ok ?c ?z fin ?s i e" using line_D(6) [OF ok] i by (simp add: log_ok_def)
    then show ?thesis using None closed by simp
  next
    case (Some ctx)
    then have ctx: "context_ok ?c ?z ?n fin ?s ctx" "\<not> complete ?c fin ?s" using slots [of ?s] slot_context by simp_all
    then have "logOf i ?s log = []" using line_D(6) [OF ok] by (auto simp: log_ok_def)
    moreover have "bc_usedBuffers ctx = card (finishedIn ?c fin ?s)" using ctx(1) by (simp add: context_ok_def)
    then have "stored_ok ?c ?z fin ?s i (closeEntry ctx i (the (bc_buffers ctx ! i)))"
      using closeEntry_ok [OF ctx(1) _ i] finishedIn_first [of fin N ?c ?s] all by simp
    ultimately show ?thesis using Some closed i by simp
  qed
  then obtain e where e: "logOf i ?s (log @ ?closed) = [e]" "stored_ok ?c ?z fin ?s i e" by blast
  then obtain raw where raw: "hc_rawEntryCount e = Some raw" "\<forall>j<?c. \<forall>content. fin (?s * ?c + j) = Some (Some content) \<longrightarrow>
      j * ?z + ?z \<le> raw \<and> peek (j * ?z) ?z (hc_content e) = content i"
    unfolding stored_ok_def by blast
  have "(m mod ?c) * ?z + ?z \<le> raw \<and> peek ((m mod ?c) * ?z) ?z (hc_content e) = x i"
    using raw(2) [rule_format, OF j(2), unfolded j(1), OF m] by simp
  then show ?thesis using e(1) raw(1) by blast
qed

lemma closeEncoder_line:
  "k < length lines \<Longrightarrow> lineLog k (fst (closeEncoder envs lines)) =
     concat (map (\<lambda>(_, ctx). fst (closeContext (envs k) ctx)) (gl_contexts (lines ! k)))"
proof -
  have pairs: "concat (map (\<lambda>(_, ctx). map (Pair k) (fst (closeContext (envs k) ctx))) contexts) =
      map (Pair k) (concat (map (\<lambda>(_, ctx). fst (closeContext (envs k) ctx)) contexts))" for k contexts
    by (induction contexts) auto
  show "k < length lines \<Longrightarrow> ?thesis" by (simp add: closeEncoder_def pairs lineLog_concat)
qed

section \<open>Properties\<close>



lemma requestBuffers_numeral:
  "requestBuffers env i (numeral w) ctx = requestBuffers env i (Suc (pred_numeral w)) ctx"
  by (simp only: numeral_eq_Suc)

lemma closeBuffers_numeral: "closeBuffers env i (numeral w) ctx = closeBuffers env i (Suc (pred_numeral w)) ctx"
  by (simp only: numeral_eq_Suc)

lemma replicate_numeral: "replicate (numeral w) x = x # replicate (pred_numeral w) x"
  by (simp add: numeral_eq_Suc)

text \<open>
  A repeated load counts as a completion of its own. When two workers have loaded memory segment 0 and
  left it, one that begins with it again shares the context with one that begins with segment 1; the
  first that finishes is the last the counter waits for, so the context is destroyed while the other still uses it.
\<close>

theorem repeated_load_dangles:
  shows "encoderRun (\<lambda>_ _. \<lparr>hn_request = (\<lambda>_. Inr (Some 0)), hn_content = (\<lambda>_ _. 0), hn_close = (\<lambda>_. Inr ()), hn_wait = True\<rparr>) 0 True
     [Begin 0, Finish 0 None, Begin 0, Finish 0 None, Begin 0, Begin 1, Finish 0 None, Finish 1 None]
     (newLines MemoryAccess64) = None"
proof -
  have lines: "newLines MemoryAccess64 = [newLine 1 12, newLine 3 24, newLine 3 3]"
    by (simp add: newLines_def idStreamCount_def dataStreamCount_def geometry_defs numeral_3_eq_3 [symmetric])
  show ?thesis
    unfolding lines
    by (simp add: newLine_def setupBufferContexts_def getBufferContext_def newBufferContext_def throwOn_def enterLine_def
        enterContext_def initializeContext_def finishSubSegment_def closeBufferContext_def completeSubSegment_def
        closeContext_def mapErase_def Let_def
        requestBuffers_numeral closeBuffers_numeral replicate_numeral)
qed

text \<open>Two memory segments, one of them dropped.\<close>

definition quiet_hidden :: hidden_env where
  "quiet_hidden = \<lparr>hn_request = (\<lambda>_. Inr (Some 0)), hn_content = (\<lambda>_ _. 0), hn_close = (\<lambda>_. Inr ()), hn_wait = True\<rparr>"

definition content7 :: "nat \<Rightarrow> nat \<Rightarrow> u8 list" where
  "content7 k i = replicate (segmentSize div gl_subSegmentCount (newLines MemoryAccess64 ! k)) 7"

definition events7 :: "encoder_event list" where
  "events7 = [Begin 0, Begin 1, Finish 1 None, Finish 0 (Some content7)]"

lemma lines64: "newLines MemoryAccess64 = [newLine 1 12, newLine 3 24, newLine 3 3]"
  by (simp add: newLines_def idStreamCount_def dataStreamCount_def geometry_defs numeral_3_eq_3 [symmetric])

lemma events7_ok:
  "answering quiet_hidden" "legalFrom (newLines MemoryAccess64) {} (\<lambda>_. None) events7" "begunBy events7 = {..<2}"
  "outcomeOf events7 = (\<lambda>_. None)(1 \<mapsto> None, 0 \<mapsto> Some content7)"
  by (auto simp: answering_def quiet_hidden_def events7_def fits_def content7_def begunBy_def outcomeOf_def)



end
