(* ===== verification/Hidden_Assoc.thy ===== *)
theory Hidden_Assoc
  imports Trace_Streams Memory_Encoder
begin

text \<open>
  The hidden streams that a memory encoder is associated with (\<open>_registerHiddenStream\<close>,
  \<open>_initializeLine\<close>, \<open>_initializeLines\<close> and \<open>initialize\<close> of
  \<open>storageserver/simtrace/Simtrace3MemoryEncoder.h\<close>): they are registered with the first write, a second
  frame 0 of the memory stream records them, and opening the store finds them again.
\<close>

section \<open>The attribute\<close>

record associated_streams =
  as_streamCount :: u32
  as_streams :: "u32 list"

definition newAssociatedStreams :: "mem_type \<Rightarrow> associated_streams" where
  "newAssociatedStreams t = \<lparr>as_streamCount = 0, as_streams = replicate (totalStreamCount t) INVALID_STREAM_ID\<rparr>"

definition association_bytes :: "associated_streams \<Rightarrow> u8 list" where
  "association_bytes a = le 4 (unat (as_streamCount a)) @ concat (map (\<lambda>i. le 4 (unat i)) (as_streams a))"

definition association_read :: "mem_type \<Rightarrow> u8 list \<Rightarrow> associated_streams" where
  "association_read t bs =
     \<lparr>as_streamCount = of_nat (field bs 0 4), as_streams = map (\<lambda>k. of_nat (field bs (4 + 4 * k) 4)) [0..<totalStreamCount t]\<rparr>"

section \<open>Registering streams with the store\<close>

text \<open>
  The state is the registry of the server store and the trace store: \<open>registerStream\<close> on a Simtrace3
  store, which describes the new stream in the file.
\<close>

type_synonym ('b, 's, 'f) trace_stores = "('b, 's, 'f) server_store \<times> sim3_store"

definition registerTraceStream ::
  "('b, 's, 'f) store_env \<Rightarrow> ('s stream_object \<Rightarrow> frame \<Rightarrow> frame res) \<Rightarrow> u32 \<Rightarrow> StreamDescriptor \<Rightarrow> u32 \<Rightarrow>
   ('b, 's, 'f) trace_stores \<Rightarrow> u32 res \<times> ('b, 's, 'f) trace_stores" where
  "registerTraceStream env ini i desc buffer st =
     (if sr_configurationLocked (fst st) then (Inl InvalidOperationException, st)
      else if (if isSet (sd_flags desc) SfDynamic then STORE_MAX_NUM_DYNAMIC_STREAMS \<le> sr_numDynamicStreams (fst st)
               else STORE_MAX_NUM_STREAMS \<le> sr_numRegularStreams (fst st))
      then (Inl GenericException, st)
      else (case createTraceStream env ini i desc buffer st of
              (Inl e, st1) \<Rightarrow> (Inl e, st1)
            | (Inr x, s1, t1) \<Rightarrow> (Inr (so_id x), addStream x s1, t1)))"

text \<open>\<open>%d\<close> of \<open>stringFormat\<close>; a stream id is printed as a signed number.\<close>

fun decimal :: "nat \<Rightarrow> string" where
  "decimal n = (if n < 10 then [char_of (48 + n)] else decimal (n div 10) @ [char_of (48 + n mod 10)])"

definition formatInt :: "int \<Rightarrow> string" where
  "formatInt i = (if i < 0 then ''-'' @ decimal (nat (- i)) else decimal (nat i))"

definition hiddenName :: "u32 \<Rightarrow> string \<Rightarrow> nat \<Rightarrow> string" where
  "hiddenName sid prefix i = ''stream'' @ formatInt (sint sid) @ '':'' @ prefix @ formatInt (int i)"

definition hiddenDescriptor :: "string \<Rightarrow> StreamDescriptor" where
  "hiddenDescriptor name =
     \<lparr>sd_name = name, sd_flags = SfHidden,
      sd_type = \<lparr>ty_name = [], ty_id = (0, 0, 0, replicate 8 0), ty_flags = 0, ty_entrySize = 1\<rparr>\<rparr>"

text \<open>\<open>None\<close> in a vector of streams is a null pointer, which a registration that throws leaves behind.\<close>

definition registerHiddenStream ::
  "('b, 's, 'f) store_env \<Rightarrow> ('s stream_object \<Rightarrow> frame \<Rightarrow> frame res) \<Rightarrow> u32 option list \<Rightarrow> nat \<Rightarrow> string \<Rightarrow>
   ('b, 's, 'f) trace_stores \<Rightarrow> u32 res \<times> u32 option list \<times> ('b, 's, 'f) trace_stores" where
  "registerHiddenStream env ini streams index name st =
     (if index \<noteq> length streams \<and> streams ! index \<noteq> None then (Inr (the (streams ! index)), streams, st)
      else
        (let streams1 = (if index = length streams then streams @ [None] else streams) in
         case registerTraceStream env ini INVALID_STREAM_ID (hiddenDescriptor name) SERVER_BUFFER_ID st of
           (Inl e, st1) \<Rightarrow> (Inl e, streams1, st1)
         | (Inr i, st1) \<Rightarrow>
             (case getStream i (fst st1) of
                Inl e \<Rightarrow> (Inl e, streams1, st1)
              | Inr x \<Rightarrow> (Inr i, streams1[index := Some i], st1))))"

section \<open>The lines\<close>

text \<open>The loop of \<open>_initializeLine\<close> for \<open>n\<close> streams from index \<open>i\<close> on.\<close>

fun initializeLine ::
  "('b, 's, 'f) store_env \<Rightarrow> ('s stream_object \<Rightarrow> frame \<Rightarrow> frame res) \<Rightarrow> u32 \<Rightarrow> string \<Rightarrow> nat \<Rightarrow> nat \<Rightarrow> u32 option list \<Rightarrow>
   associated_streams \<Rightarrow> ('b, 's, 'f) trace_stores \<Rightarrow>
   unit res \<times> u32 option list \<times> associated_streams \<times> ('b, 's, 'f) trace_stores" where
  "initializeLine env ini sid prefix i 0 streams a st = (Inr (), streams, a, st)"
| "initializeLine env ini sid prefix i (Suc n) streams a st =
     (let count = unat (as_streamCount a); known = as_streams a ! count in
      if known \<noteq> INVALID_STREAM_ID then
        (case findStream known (fst st) of
           None \<Rightarrow> (Inl GenericException, streams, a, st)
         | Some x \<Rightarrow>
             initializeLine env ini sid prefix (Suc i) n (streams @ [Some known]) (a\<lparr>as_streamCount := as_streamCount a + 1\<rparr>) st)
      else
        (case registerHiddenStream env ini streams i (hiddenName sid prefix i) st of
           (Inl e, streams1, st1) \<Rightarrow> (Inl e, streams1, a, st1)
         | (Inr new, streams1, st1) \<Rightarrow>
             initializeLine env ini sid prefix (Suc i) n streams1
               (a\<lparr>as_streams := (as_streams a)[count := new], as_streamCount := as_streamCount a + 1\<rparr>) st1))"

definition lineLayout :: "mem_type \<Rightarrow> (string \<times> nat) list" where
  "lineLayout t =
     [(''meta'', 1), (''ids'', idStreamCount t)] @
     (if arch32Bit t then [(''data'', dataStreamCount t), (''cycle'', 1)] else [(''data'', dataStreamCount t + 1)])"

fun initializeEachLine ::
  "('b, 's, 'f) store_env \<Rightarrow> ('s stream_object \<Rightarrow> frame \<Rightarrow> frame res) \<Rightarrow> u32 \<Rightarrow> (string \<times> nat) list \<Rightarrow> u32 option list list \<Rightarrow>
   associated_streams \<Rightarrow> ('b, 's, 'f) trace_stores \<Rightarrow>
   unit res \<times> u32 option list list \<times> associated_streams \<times> ('b, 's, 'f) trace_stores" where
  "initializeEachLine env ini sid ((prefix, n) # layout) (streams # lines) a st =
     (case initializeLine env ini sid prefix 0 n streams a st of
        (Inl e, streams1, a1, st1) \<Rightarrow> (Inl e, streams1 # lines, a1, st1)
      | (Inr _, streams1, a1, st1) \<Rightarrow>
          (case initializeEachLine env ini sid layout lines a1 st1 of
             (r, lines1, a2, st2) \<Rightarrow> (r, streams1 # lines1, a2, st2)))"
| "initializeEachLine env ini sid layout lines a st = (Inr (), lines, a, st)"

text \<open>The second frame 0, with the association.\<close>

definition commitAssociation :: "u32 \<times> Guid \<Rightarrow> associated_streams \<Rightarrow> sim3_store \<Rightarrow> u64 res \<times> sim3_store" where
  "commitAssociation stream a s =
     (case newFrame (Some stream) None of
        Inl e \<Rightarrow> (Inl e, s)
      | Inr f0 \<Rightarrow>
          (let sz = of_nat (length (association_bytes a)) in
           case addAttribute SatAssociatedStreams sz sz (association_bytes a) f0 of
             Inl e \<Rightarrow> (Inl e, s)
           | Inr f \<Rightarrow> commitFrame f s))"

text \<open>The encoder: its stream with the type, and the lines.\<close>

record memory_encoder =
  me_stream :: "u32 \<times> Guid"
  me_type :: mem_type
  me_initialized :: bool
  me_lines :: "u32 option list list"

definition newMemoryEncoder :: "u32 \<times> Guid \<Rightarrow> mem_type \<Rightarrow> memory_encoder" where
  "newMemoryEncoder stream t =
     \<lparr>me_stream = stream, me_type = t, me_initialized = False, me_lines = replicate (length (lineLayout t)) []\<rparr>"

text \<open>The constructor.\<close>

definition makeMemoryEncoder :: "u32 \<times> Guid \<Rightarrow> u32 \<Rightarrow> mem_type \<Rightarrow> memory_encoder res" where
  "makeMemoryEncoder stream flags t =
     throwOn (isSet flags StfBigEndian) NotSupportedException
       (throwOn (\<not> isSet flags StfTemporalOrder) NotSupportedException (Inr (newMemoryEncoder stream t)))"

definition initializeLines ::
  "('b, 's, 'f) store_env \<Rightarrow> ('s stream_object \<Rightarrow> frame \<Rightarrow> frame res) \<Rightarrow> associated_streams option \<Rightarrow> memory_encoder \<Rightarrow>
   ('b, 's, 'f) trace_stores \<Rightarrow> unit res \<times> memory_encoder \<times> ('b, 's, 'f) trace_stores" where
  "initializeLines env ini assoc e st =
     (if (case assoc of None \<Rightarrow> False | Some a \<Rightarrow> as_streamCount a \<noteq> of_nat (totalStreamCount (me_type e)))
      then (Inl GenericException, e, st)
      else
        (let a0 = (case assoc of None \<Rightarrow> newAssociatedStreams (me_type e) | Some a \<Rightarrow> a\<lparr>as_streamCount := 0\<rparr>) in
         case initializeEachLine env ini (fst (me_stream e)) (lineLayout (me_type e)) (me_lines e) a0 st of
           (Inl x, lines, a, st1) \<Rightarrow> (Inl x, e\<lparr>me_lines := lines\<rparr>, st1)
         | (Inr _, lines, a, s1, t1) \<Rightarrow>
             (let e1 = e\<lparr>me_lines := lines\<rparr> in
              case (if assoc = None then commitAssociation (me_stream e) a t1 else (Inr 0, t1)) of
                (Inl x, t2) \<Rightarrow> (Inl x, e1, s1, t2)
              | (Inr _, t2) \<Rightarrow> (Inr (), e1\<lparr>me_initialized := True\<rparr>, s1, t2))))"

definition ensureInitialized ::
  "('b, 's, 'f) store_env \<Rightarrow> ('s stream_object \<Rightarrow> frame \<Rightarrow> frame res) \<Rightarrow> memory_encoder \<Rightarrow>
   ('b, 's, 'f) trace_stores \<Rightarrow> unit res \<times> memory_encoder \<times> ('b, 's, 'f) trace_stores" where
  "ensureInitialized env ini e st = (if \<not> me_initialized e then initializeLines env ini None e st else (Inr (), e, st))"

text \<open>\<open>initialize\<close> of the encoder for a frame 0 of its stream.\<close>

definition initializeEncoder ::
  "('b, 's, 'f) store_env \<Rightarrow> ('s stream_object \<Rightarrow> frame \<Rightarrow> frame res) \<Rightarrow> frame \<Rightarrow> bool \<Rightarrow> memory_encoder \<Rightarrow>
   ('b, 's, 'f) trace_stores \<Rightarrow> unit res \<times> memory_encoder \<times> ('b, 's, 'f) trace_stores" where
  "initializeEncoder env ini frame isOpen e st =
     (if isOpen then
        (case findAttribute SatAssociatedStreams frame of
           None \<Rightarrow> (Inr (), e, st)
         | Some (_, buffer) \<Rightarrow>
             if me_initialized e then (Inr (), e, st)
             else initializeLines env ini (Some (association_read (me_type e) buffer)) e st)
      else (Inr (), e, st))"

text \<open>\<open>queryInformationStream\<close> adds the sizes of the hidden streams.\<close>

definition addHiddenSizes :: "(u32 \<Rightarrow> u64) \<Rightarrow> memory_encoder \<Rightarrow> u64 \<Rightarrow> u64" where
  "addHiddenSizes compressed e total0 = fold (\<lambda>x total. total + compressed (the x)) (concat (me_lines e)) total0"

section \<open>Reading the attribute\<close>

lemma field_le4:
  "k < length xs \<Longrightarrow> field (concat (map (\<lambda>i. le 4 (unat (i :: u32))) xs)) (4 * k) 4 = unat (xs ! k)"
proof (induction xs arbitrary: k)
  case (Cons x xs)
  have le4: "length (le 4 (unat x)) = 4" by simp
  show ?case
  proof (cases k)
    case 0
    then show ?thesis using field_hit [OF le4] by simp
  next
    case (Suc k')
    then show ?thesis using Cons field_skip [of "le 4 (unat x)" "4 * k"] le4 by simp
  qed
qed simp

lemma association_roundtrip:
  assumes "length (as_streams a) = totalStreamCount t"
  shows "association_read t (association_bytes a) = a"
proof -
  have le4: "length (le 4 (unat (as_streamCount a))) = 4" by simp
  have "field (association_bytes a) (4 + 4 * k) 4 = unat (as_streams a ! k)" if "k < length (as_streams a)" for k
    using field_le4 [OF that] field_skip [of "le 4 (unat (as_streamCount a))" "4 + 4 * k"] le4
    by (simp add: association_bytes_def)
  then have "map (\<lambda>k. of_nat (field (association_bytes a) (4 + 4 * k) 4)) [0..<totalStreamCount t] = as_streams a"
    using assms by (intro nth_equalityI) simp_all
  moreover have "field (association_bytes a) 0 4 = unat (as_streamCount a)" using field_hit [OF le4] by (simp add: association_bytes_def)
  ultimately show ?thesis by (simp add: association_read_def)
qed

section \<open>Registered streams\<close>

definition knows :: "('b, 's, 'f, 'z) server_store_scheme \<Rightarrow> u32 \<Rightarrow> bool" where
  "knows s i \<longleftrightarrow> findStream i s \<noteq> None"

lemma makeServerStream_valid: "makeServerStream env rid desc buffer segSize s = Inr x \<Longrightarrow> so_id x \<noteq> INVALID_STREAM_ID"
  by (auto simp: makeServerStream_def newStream_def throwOn_def Let_def split: sum.splits if_splits)

lemma createStream_valid: "createStream env i desc buffer s = (Inr x, s') \<Longrightarrow> so_id x \<noteq> INVALID_STREAM_ID"
  by (auto simp: createStream_def dest: makeServerStream_valid split: option.splits sum.splits prod.splits if_splits)

lemma register_ok:
  assumes reg: "registerTraceStream env ini INVALID_STREAM_ID desc buffer st = (r, st1)" and ok: "registry_ok (fst st)"
  shows "registry_ok (fst st1) \<and> (\<forall>j. knows (fst st) j \<longrightarrow> knows (fst st1) j) \<and>
    (\<forall>i. r = Inr i \<longrightarrow> i \<noteq> INVALID_STREAM_ID \<and> knows (fst st1) i)"
proof (cases "sr_configurationLocked (fst st) \<or>
    (if isSet (sd_flags desc) SfDynamic then STORE_MAX_NUM_DYNAMIC_STREAMS \<le> sr_numDynamicStreams (fst st)
     else STORE_MAX_NUM_STREAMS \<le> sr_numRegularStreams (fst st))")
  case True
  then have "st1 = st \<and> (\<exists>x. r = Inl x)" using reg by (auto simp: registerTraceStream_def split: if_splits)
  then show ?thesis using ok by auto
next
  case False
  obtain r1 s1 where cr: "createStream env INVALID_STREAM_ID desc buffer (fst st) = (r1, s1)"
    by (cases "createStream env INVALID_STREAM_ID desc buffer (fst st)")
  obtain n where n: "s1 = (fst st)\<lparr>vs_nextStreamId := n\<rparr>" "std_map.below (sr_streams (fst st)) n"
    using createStream_frame [OF cr ok] by blast
  have ok1: "registry_ok s1" "\<And>j. knows s1 j = knows (fst st) j"
    using ok n by (auto simp: registry_ok_def countStreams_def knows_def findStream_def)
  show ?thesis
  proof (cases "\<exists>i. r = Inr i")
    case True
    then obtain i where i: "r = Inr i" by blast
    then obtain x where x: "r1 = Inr x" "i = so_id x" "fst st1 = addStream x s1"
      using reg False cr by (auto simp: registerTraceStream_def createTraceStream_def split: sum.splits if_splits prod.splits)
    have "registerStream (createStream env) INVALID_STREAM_ID desc buffer (fst st) = (Inr i, addStream x s1)"
      using False cr x by (auto simp: registerStream_def)
    then have "registry_ok (addStream x s1)" using registerStream_ok [OF _ ok] by blast
    moreover have map: "map_ok (sr_streams s1)" using ok1(1) by (simp add: registry_ok_def)
    have "knows (addStream x s1) j \<longleftrightarrow> knows s1 j \<or> j = so_id x" for j
      using map by (auto simp: knows_def findStream_def addStream_def Let_def)
    moreover have "so_id x \<noteq> INVALID_STREAM_ID" using createStream_valid cr x(1) by blast
    ultimately show ?thesis using x i ok1(2) by simp
  next
    case not: False
    then have "fst st1 = s1"
      using reg False cr by (auto simp: registerTraceStream_def createTraceStream_def split: sum.splits if_splits prod.splits)
    then show ?thesis using ok1 not by auto
  qed
qed

lemma registerHidden_new:
  assumes "registerHiddenStream env ini streams (length streams) name st = (Inr i, streams1, st1)" "registry_ok (fst st)"
  shows "registry_ok (fst st1) \<and> (\<forall>j. knows (fst st) j \<longrightarrow> knows (fst st1) j) \<and> i \<noteq> INVALID_STREAM_ID \<and>
    knows (fst st1) i \<and> streams1 = streams @ [Some i]"
proof -
  obtain r st2 where r: "registerTraceStream env ini INVALID_STREAM_ID (hiddenDescriptor name) SERVER_BUFFER_ID st = (r, st2)"
    by (cases "registerTraceStream env ini INVALID_STREAM_ID (hiddenDescriptor name) SERVER_BUFFER_ID st")
  then have "r = Inr i" "st2 = st1" "streams1 = streams @ [Some i]"
    using assms(1) by (auto simp: registerHiddenStream_def Let_def split: sum.splits)
  then show ?thesis using register_ok [OF r assms(2)] by simp
qed

section \<open>Initializing the lines\<close>

lemma update_here: "c < length xs \<Longrightarrow> take c xs @ [y] @ drop (Suc c) xs = xs[c := y]"
  by (simp add: upd_conv_take_nth_drop)

text \<open>With the first write: every stream of the line is new, and is recorded in the attribute.\<close>

lemma initializeLine_registers:
  assumes "initializeLine env ini sid prefix (length streams) n streams a st = (Inr (), streams1, a1, st1)"
    and "registry_ok (fst st)" and "unat (as_streamCount a) + n \<le> length (as_streams a)" "length (as_streams a) < 2 ^ 32"
    and "\<forall>k<length (as_streams a). unat (as_streamCount a) \<le> k \<longrightarrow> as_streams a ! k = INVALID_STREAM_ID"
  shows "\<exists>ids. length ids = n \<and> streams1 = streams @ map Some ids \<and> unat (as_streamCount a1) = unat (as_streamCount a) + n \<and>
    as_streams a1 = take (unat (as_streamCount a)) (as_streams a) @ ids @ drop (unat (as_streamCount a) + n) (as_streams a) \<and>
    (\<forall>i\<in>set ids. i \<noteq> INVALID_STREAM_ID \<and> knows (fst st1) i) \<and> registry_ok (fst st1) \<and>
    (\<forall>j. knows (fst st) j \<longrightarrow> knows (fst st1) j)"
  using assms
proof (induction n arbitrary: streams a st)
  case 0
  then show ?case by simp
next
  case (Suc n)
  let ?c = "unat (as_streamCount a)"
  have c: "?c < length (as_streams a)" "as_streams a ! ?c = INVALID_STREAM_ID" using Suc.prems(3,5) by auto
  obtain new streams2 st2 where hidden:
      "registerHiddenStream env ini streams (length streams) (hiddenName sid prefix (length streams)) st = (Inr new, streams2, st2)"
    using Suc.prems(1) c(2) by (auto simp: Let_def split: sum.splits prod.splits)
  note new = registerHidden_new [OF hidden Suc.prems(2)]
  define a2 where "a2 = a\<lparr>as_streams := (as_streams a)[?c := new], as_streamCount := as_streamCount a + 1\<rparr>"
  have count: "unat (as_streamCount a2) = Suc ?c" "length (as_streams a2) = length (as_streams a)"
    using c(1) Suc.prems(4) unat_add_lem [of "as_streamCount a" 1] by (simp_all add: a2_def)
  have "initializeLine env ini sid prefix (length streams2) n streams2 a2 st2 = (Inr (), streams1, a1, st1)"
    using Suc.prems(1) hidden c(2) new by (simp add: a2_def)
  then obtain ids where ids: "length ids = n" "streams1 = streams2 @ map Some ids" "unat (as_streamCount a1) = unat (as_streamCount a2) + n"
      "as_streams a1 = take (unat (as_streamCount a2)) (as_streams a2) @ ids @ drop (unat (as_streamCount a2) + n) (as_streams a2)"
      "\<forall>i\<in>set ids. i \<noteq> INVALID_STREAM_ID \<and> knows (fst st1) i" "registry_ok (fst st1)"
      "\<forall>j. knows (fst st2) j \<longrightarrow> knows (fst st1) j"
    using Suc.IH [of streams2 a2 st2] Suc.prems(3-5) new count by (auto simp: a2_def)
  have "as_streams a1 = take ?c (as_streams a) @ (new # ids) @ drop (?c + Suc n) (as_streams a)"
    using ids(4) count(1) c(1) by (simp add: a2_def take_Suc_conv_app_nth)
  then show ?case
    using ids new count(1) by (intro exI [of _ "new # ids"]) simp
qed

text \<open>With an attribute of valid streams that the store knows: the same streams, and nothing is registered.\<close>

lemma initializeLine_opens:
  assumes "length ids = n" "\<forall>k<n. as_streams a ! (unat (as_streamCount a) + k) = ids ! k"
    and "\<forall>i\<in>set ids. i \<noteq> INVALID_STREAM_ID \<and> knows (fst st) i" "unat (as_streamCount a) + n < 2 ^ 32"
  shows "initializeLine env ini sid prefix i n streams a st =
    (Inr (), streams @ map Some ids, a\<lparr>as_streamCount := as_streamCount a + of_nat n\<rparr>, st)"
  using assms
proof (induction n arbitrary: i ids streams a)
  case (Suc n)
  then obtain x xs where ids: "ids = x # xs" by (cases ids) auto
  have "as_streams a ! unat (as_streamCount a) = x" using Suc.prems(2) ids by force
  moreover obtain y where "findStream x (fst st) = Some y" using Suc.prems(3) ids by (auto simp: knows_def)
  moreover have count: "unat (as_streamCount a + 1) = Suc (unat (as_streamCount a))"
    using Suc.prems(4) unat_add_lem [of "as_streamCount a" 1] by simp
  then have "\<forall>k<n. as_streams a ! (unat (as_streamCount a + 1) + k) = xs ! k" using Suc.prems(2) ids by force
  ultimately show ?case
    using Suc.IH [of xs "a\<lparr>as_streamCount := as_streamCount a + 1\<rparr>" "Suc i" "streams @ [Some x]"] Suc.prems count ids
    by (simp add: algebra_simps)
qed simp

lemma take_more: "xs1 = take c xs @ ids @ drop (c + n) xs \<Longrightarrow> length ids = n \<Longrightarrow> c + n \<le> length xs \<Longrightarrow>
    take (c + n) xs1 = take c xs @ ids \<and> drop (c + n + m) xs1 = drop (c + n + m) xs \<and> length xs1 = length xs"
  by (simp add: add.commute add.left_commute)

lemma initializeEachLine_registers:
  assumes "initializeEachLine env ini sid layout (replicate (length layout) []) a st = (Inr (), lines, a1, st1)"
    and "registry_ok (fst st)" and "unat (as_streamCount a) + sum_list (map snd layout) \<le> length (as_streams a)"
    and "length (as_streams a) < 2 ^ 32"
    and "\<forall>k<length (as_streams a). unat (as_streamCount a) \<le> k \<longrightarrow> as_streams a ! k = INVALID_STREAM_ID"
  shows "\<exists>idss. map length idss = map snd layout \<and> lines = map (map Some) idss \<and>
    unat (as_streamCount a1) = unat (as_streamCount a) + sum_list (map snd layout) \<and>
    as_streams a1 = take (unat (as_streamCount a)) (as_streams a) @ concat idss @
      drop (unat (as_streamCount a) + sum_list (map snd layout)) (as_streams a) \<and>
    (\<forall>i\<in>set (concat idss). i \<noteq> INVALID_STREAM_ID \<and> knows (fst st1) i) \<and> (\<forall>j. knows (fst st) j \<longrightarrow> knows (fst st1) j)"
  using assms
proof (induction layout arbitrary: a st lines)
  case Nil
  then show ?case by simp
next
  case (Cons x layout)
  obtain prefix n where x: "x = (prefix, n)" by (cases x)
  let ?c = "unat (as_streamCount a)" let ?m = "sum_list (map snd layout)"
  obtain streams2 a2 st2 lines2 where line: "initializeLine env ini sid prefix 0 n [] a st = (Inr (), streams2, a2, st2)"
      and rest: "initializeEachLine env ini sid layout (replicate (length layout) []) a2 st2 = (Inr (), lines2, a1, st1)"
      and lines: "lines = streams2 # lines2"
    using Cons.prems(1) x by (auto split: sum.splits prod.splits)
  have room: "?c + n + ?m \<le> length (as_streams a)" using Cons.prems(3) x by simp
  obtain ids where ids: "length ids = n" "streams2 = map Some ids" "unat (as_streamCount a2) = ?c + n"
      "as_streams a2 = take ?c (as_streams a) @ ids @ drop (?c + n) (as_streams a)"
      "\<forall>i\<in>set ids. i \<noteq> INVALID_STREAM_ID \<and> knows (fst st2) i" "registry_ok (fst st2)" "\<forall>j. knows (fst st) j \<longrightarrow> knows (fst st2) j"
    using initializeLine_registers [of env ini sid prefix "[]" n a st streams2 a2 st2] line Cons.prems(2-5) room by auto
  note more = take_more [OF ids(4,1)]
  have "\<forall>k<length (as_streams a2). unat (as_streamCount a2) \<le> k \<longrightarrow> as_streams a2 ! k = INVALID_STREAM_ID"
    using Cons.prems(5) ids(1,3,4) room by (auto simp: nth_append)
  then obtain idss where idss: "map length idss = map snd layout" "lines2 = map (map Some) idss"
      "unat (as_streamCount a1) = unat (as_streamCount a2) + ?m"
      "as_streams a1 = take (unat (as_streamCount a2)) (as_streams a2) @ concat idss @ drop (unat (as_streamCount a2) + ?m) (as_streams a2)"
      "\<forall>i\<in>set (concat idss). i \<noteq> INVALID_STREAM_ID \<and> knows (fst st1) i" "\<forall>j. knows (fst st2) j \<longrightarrow> knows (fst st1) j"
    using Cons.IH [OF rest ids(6)] Cons.prems(4) more room ids(3) by fastforce
  have "as_streams a1 = take ?c (as_streams a) @ concat (ids # idss) @ drop (?c + (n + ?m)) (as_streams a)"
    using idss(4) more [of ?m] room ids(3) by (simp add: add.assoc)
  then show ?case using ids idss lines x by (intro exI [of _ "ids # idss"]) auto
qed

lemma initializeEachLine_opens:
  assumes "map length idss = map snd layout"
    and "\<forall>k<length (concat idss). as_streams a ! (unat (as_streamCount a) + k) = concat idss ! k"
    and "\<forall>i\<in>set (concat idss). i \<noteq> INVALID_STREAM_ID \<and> knows (fst st) i" "unat (as_streamCount a) + length (concat idss) < 2 ^ 32"
  shows "\<exists>a1. initializeEachLine env ini sid layout (replicate (length layout) []) a st = (Inr (), map (map Some) idss, a1, st)"
  using assms
proof (induction layout arbitrary: idss a)
  case (Cons x layout)
  obtain prefix n where x: "x = (prefix, n)" by (cases x)
  obtain ids rest where idss: "idss = ids # rest" "length ids = n" "map length rest = map snd layout" using Cons.prems(1) x by (cases idss) auto
  define a2 where "a2 = a\<lparr>as_streamCount := as_streamCount a + of_nat n\<rparr>"
  have n: "unat (of_nat n :: u32) = n" using Cons.prems(4) idss by (simp add: unat_of_nat)
  have count: "unat (as_streamCount a2) = unat (as_streamCount a) + n"
    using Cons.prems(4) idss n unat_add_lem [of "as_streamCount a" "of_nat n"] by (simp add: a2_def)
  have first: "\<forall>k<n. as_streams a ! (unat (as_streamCount a) + k) = ids ! k"
  proof (intro allI impI)
    fix k assume "k < n"
    then show "as_streams a ! (unat (as_streamCount a) + k) = ids ! k"
      using Cons.prems(2) [rule_format, of k] idss by (simp add: nth_append)
  qed
  have later: "\<forall>k<length (concat rest). as_streams a2 ! (unat (as_streamCount a2) + k) = concat rest ! k"
  proof (intro allI impI)
    fix k assume "k < length (concat rest)"
    then show "as_streams a2 ! (unat (as_streamCount a2) + k) = concat rest ! k"
      using Cons.prems(2) [rule_format, of "n + k"] idss count by (simp add: nth_append a2_def add.assoc)
  qed
  have "initializeLine env ini sid prefix 0 n [] a st = (Inr (), map Some ids, a2, st)"
    using initializeLine_opens [of ids n a st env ini sid prefix 0 "[]"] first Cons.prems(3,4) idss by (simp add: a2_def)
  moreover obtain a1 where
    "initializeEachLine env ini sid layout (replicate (length layout) []) a2 st = (Inr (), map (map Some) rest, a1, st)"
    using Cons.IH [OF idss(3) later] Cons.prems(3,4) idss count by auto
  ultimately show ?case using x idss(1) by simp
qed simp

lemma layout_total: "sum_list (map snd (lineLayout t)) = totalStreamCount t"
  by (simp add: lineLayout_def totalStreamCount_def)

text \<open>
  C26: The association of a memory stream with its hidden streams survives in the store. When the first
  write has initialized the encoder, an association was committed last, and an encoder that reads the bytes of
  its attribute in a store that knows the streams gets the same hidden streams in the same lines, as
  many as the layout of the entry type has, and registers nothing.
\<close>

theorem association_restores_lines:
  assumes "registry_ok (fst st)" and "initializeLines env ini None (newMemoryEncoder stream t) st = (Inr (), e1, st1)"
    and "\<And>i. knows (fst st1) i \<Longrightarrow> knows (fst st2) i"
  shows "map length (me_lines e1) = map snd (lineLayout t) \<and> None \<notin> set (concat (me_lines e1)) \<and>
    (\<exists>a t0 off. commitAssociation stream a t0 = (Inr off, snd st1) \<and>
      (\<forall>f h env2 ini2. findAttribute SatAssociatedStreams f = Some (h, association_bytes a) \<longrightarrow>
         initializeEncoder env2 ini2 f True (newMemoryEncoder stream t) st2 = (Inr (), e1, st2)))"
proof -
  let ?e = "newMemoryEncoder stream t"
  have total: "totalStreamCount t < 2 ^ 32" "unat (of_nat (totalStreamCount t) :: u32) = totalStreamCount t"
    by (cases t; simp add: totalStreamCount_def idStreamCount_def dataStreamCount_def)+
  obtain lines a s1 t1 off where run:
      "initializeEachLine env ini (fst stream) (lineLayout t) (replicate (length (lineLayout t)) []) (newAssociatedStreams t) st = (Inr (), lines, a, s1, t1)"
      "commitAssociation stream a t1 = (Inr off, snd st1)" "fst st1 = s1" "e1 = ?e\<lparr>me_lines := lines, me_initialized := True\<rparr>"
    using assms(2) by (auto simp: initializeLines_def newMemoryEncoder_def Let_def split: sum.splits prod.splits)
  obtain idss where idss: "map length idss = map snd (lineLayout t)" "lines = map (map Some) idss"
      "unat (as_streamCount a) = totalStreamCount t" "as_streams a = concat idss"
      "\<forall>i\<in>set (concat idss). i \<noteq> INVALID_STREAM_ID \<and> knows s1 i"
    using initializeEachLine_registers [OF run(1) assms(1)] total(1) layout_total [of t] by (auto simp: newAssociatedStreams_def)
  have len: "length (as_streams a) = totalStreamCount t" using idss(1,4) layout_total [of t] by (simp add: length_concat)
  have lengths: "map length (me_lines e1) = map snd (lineLayout t)" using run(4) idss(1,2) by (simp add: comp_def)
  have opens: "initializeEncoder env2 ini2 f True ?e st2 = (Inr (), e1, st2)"
    if f: "findAttribute SatAssociatedStreams f = Some (h, association_bytes a)" for f h env2 ini2
  proof -
    have "\<exists>a1. initializeEachLine env2 ini2 (fst stream) (lineLayout t) (replicate (length (lineLayout t)) []) (a\<lparr>as_streamCount := 0\<rparr>) st2 =
        (Inr (), map (map Some) idss, a1, st2)"
      by (rule initializeEachLine_opens [OF idss(1)]) (use idss(4,5) assms(3) run(3) len total(1) in auto)
    moreover have "as_streamCount a = of_nat (totalStreamCount t)" using idss(3) by (metis of_nat_unat ucast_id)
    ultimately show ?thesis
      using f association_roundtrip [OF len] run(4) idss(2)
      by (auto simp: initializeEncoder_def initializeLines_def newMemoryEncoder_def Let_def)
  qed
  have "None \<notin> set (concat (me_lines e1))" using run(4) idss(2) by auto
  then show ?thesis using lengths opens run(2) by blast
qed

section \<open>A store with room\<close>

text \<open>The names fit into the descriptor.\<close>

declare decimal.simps [simp del]

lemma decimal_length: "n < 10 ^ Suc k \<Longrightarrow> length (decimal n) \<le> Suc k"
proof (induction k arbitrary: n)
  case 0
  then show ?case by (simp add: decimal.simps [of n])
next
  case (Suc k)
  have "n div 10 < 10 ^ Suc k" using Suc.prems by (simp add: less_mult_imp_div_less)
  then show ?case using Suc.IH [of "n div 10"] by (subst decimal.simps) simp
qed

lemma digit_not_zero:
  assumes "d < 10"
  shows "char_of (48 + d :: nat) \<noteq> CHR 0x00"
proof
  assume "char_of (48 + d :: nat) = CHR 0x00"
  then have "(of_char (char_of (48 + d :: nat)) :: nat) = of_char (CHR 0x00)" by simp
  then show False using assms by (simp add: of_char_of)
qed

lemma decimal_no_zero: "CHR 0x00 \<notin> set (decimal n)"
proof (induction n rule: less_induct)
  case (less n)
  show ?case
  proof (cases "n < 10")
    case True
    then show ?thesis using digit_not_zero [of n] by (simp add: decimal.simps [of n] del: char_of_nat)
  next
    case False
    then show ?thesis using less.IH [of "n div 10"] digit_not_zero [of "n mod 10"] by (subst decimal.simps) auto
  qed
qed

lemma formatInt_ok:
  assumes "\<bar>i\<bar> < 10 ^ 10"
  shows "length (formatInt i) \<le> 11" "CHR 0x00 \<notin> set (formatInt i)"
proof -
  have "length (decimal (nat \<bar>i\<bar>)) \<le> Suc 9" by (rule decimal_length) (use assms in simp)
  then show "length (formatInt i) \<le> 11" by (auto simp: formatInt_def abs_if split: if_splits)
  show "CHR 0x00 \<notin> set (formatInt i)" using decimal_no_zero by (simp add: formatInt_def)
qed

lemma hiddenDescriptor_ok:
  assumes "length prefix < 10" "CHR 0x00 \<notin> set prefix" "i < 10"
  shows "descriptor_ok (hiddenDescriptor (hiddenName sid prefix i))"
proof -
  have "\<bar>sint sid\<bar> < 10 ^ 10" using sint_lt [of sid] sint_ge [of sid] by (simp add: abs_less_iff)
  note sid = formatInt_ok [OF this]
  have "\<bar>int i\<bar> < 10 ^ 10" using assms(3) by simp
  note i = formatInt_ok [OF this]
  show ?thesis
    using sid i assms
    by (auto simp: descriptor_ok_def hiddenDescriptor_def hiddenName_def name_ok_def guid_ok_def MAX_STREAM_NAME_LENGTH_def)
qed

text \<open>Enough numbers, a disk with space and an encoder for the hidden streams.\<close>

definition hidden_ready :: "('b, 's, 'f) store_env \<Rightarrow> nat \<Rightarrow> ('b, 's, 'f) trace_stores \<Rightarrow> bool" where
  "hidden_ready env k st \<longleftrightarrow>
     unlimited (s3_file (snd st)) \<and> \<not> s3_readMode (snd st) \<and> \<not> s3_loading (snd st) \<and> registry_ok (fst st) \<and>
     \<not> sr_configurationLocked (fst st) \<and> unat (sr_numRegularStreams (fst st)) + k \<le> 0xFFFF \<and>
     unat (vs_nextStreamId (fst st)) + k < 2 ^ 32 \<and> 1 \<le> se_poolSegmentSize env \<and>
     (\<exists>f. getEncoderFactory (0, 0, 0, replicate 8 0) (fst st) = Inr f \<and> (\<forall>rid d. \<exists>x. se_newStream env rid SERVER_BUFFER_ID d f = Inr x))"

lemma describe_ready:
  assumes "unlimited (s3_file s)" "\<not> s3_readMode s" "\<not> s3_loading s" "sid \<noteq> INVALID_STREAM_ID" "descriptor_ok desc"
  shows "\<exists>r s'. describeStream Inr sid desc s = (Inr r, s') \<and> unlimited (s3_file s') \<and> \<not> s3_readMode s' \<and> \<not> s3_loading s'"
  using runJob_succeeds [OF assms(1-3), of _ "Describe sid desc"] assms(4,5) by (auto split: sum.splits prod.splits)

lemma newStream_hidden: "sid \<noteq> INVALID_STREAM_ID \<Longrightarrow> descriptor_ok (hiddenDescriptor name) \<Longrightarrow> 1 \<le> segSize \<Longrightarrow>
    newStream sid (hiddenDescriptor name) segSize = Inr (hiddenDescriptor name)"
proof -
  assume a: "sid \<noteq> INVALID_STREAM_ID" "descriptor_ok (hiddenDescriptor name)" "1 \<le> segSize"
  have "getEntrySize 1 = 1" "\<not> isVariableEntrySize 1" "\<not> isSet 0 StfTemporalOrder" by code_simp+
  then show ?thesis using a
    by (simp add: newStream_def hiddenDescriptor_def descriptor_ok_def name_ok_def throwOn_def MAX_STREAM_NAME_LENGTH_def)
qed

lemma encoder_map_same: "vs_encoderMap s1 = vs_encoderMap s \<Longrightarrow> getEncoderFactory g s1 = getEncoderFactory g s"
  by (simp add: getEncoderFactory_def findEncoder_def cong: option.case_cong)

lemma register_ready:
  assumes ready: "hidden_ready env (Suc k) st" and name: "descriptor_ok (hiddenDescriptor name)"
  shows "\<exists>i st1. registerHiddenStream env (\<lambda>_. Inr) streams (length streams) name st = (Inr i, streams @ [Some i], st1) \<and> hidden_ready env k st1"
proof -
  let ?s = "fst st" let ?t = "snd st" let ?d = "hiddenDescriptor name" let ?n = "vs_nextStreamId ?s"
  have n: "?n \<noteq> - 1"
  proof
    assume "?n = - 1"
    then have "unat ?n = 2 ^ 32 - 1" by (simp add: unsigned_minus_1_eq_mask mask_eq_exp_minus_1)
    then show False using ready by (simp add: hidden_ready_def)
  qed
  then have valid: "?n \<noteq> INVALID_STREAM_ID" by (simp add: INVALID_OBJECT_ID_def)
  obtain f x where f: "getEncoderFactory (0, 0, 0, replicate 8 0) ?s = Inr f" "se_newStream env ?n SERVER_BUFFER_ID ?d f = Inr x"
      "\<forall>rid d. \<exists>x. se_newStream env rid SERVER_BUFFER_ID d f = Inr x"
    using ready unfolding hidden_ready_def by meson
  define obj where "obj = \<lparr>so_id = ?n, so_desc = ?d, so_bufferId = SERVER_BUFFER_ID, so_stream = x\<rparr>"
  define s1 where "s1 = ?s\<lparr>vs_nextStreamId := ?n + 1\<rparr>"
  have "getEncoderFactory (0, 0, 0, replicate 8 0) s1 = Inr f" using f(1) encoder_map_same [of s1 ?s] by (simp add: s1_def)
  then have make: "makeServerStream env ?n ?d SERVER_BUFFER_ID (se_poolSegmentSize env) s1 = Inr obj"
    using newStream_hidden [OF valid name] f(2) ready
    by (simp add: makeServerStream_def obj_def hidden_ready_def hiddenDescriptor_def)
  have create: "createStream env INVALID_STREAM_ID ?d SERVER_BUFFER_ID ?s = (Inr obj, s1)"
    using n make by (simp add: createStream_def getNextId_def s1_def)
  obtain r t1 where t1: "describeStream Inr ?n ?d ?t = (Inr r, t1)" "unlimited (s3_file t1)" "\<not> s3_readMode t1" "\<not> s3_loading t1"
    using describe_ready [of ?t ?n ?d] ready valid name by (auto simp: hidden_ready_def)
  have trace: "createTraceStream env (\<lambda>_. Inr) INVALID_STREAM_ID ?d SERVER_BUFFER_ID st = (Inr obj, s1, t1)"
    using create t1(1) ready by (simp add: createTraceStream_def hidden_ready_def obj_def)
  have static: "\<not> isSet (sd_flags ?d) SfDynamic" by (simp add: hiddenDescriptor_def isSet_def SfHidden_def SfDynamic_def)
  have "unat (sr_numRegularStreams ?s) < 0xFFFF" using ready by (simp add: hidden_ready_def)
  then have "\<not> STORE_MAX_NUM_STREAMS \<le> sr_numRegularStreams ?s" by (simp add: STORE_MAX_NUM_STREAMS_def word_le_nat_alt)
  then have reg: "registerTraceStream env (\<lambda>_. Inr) INVALID_STREAM_ID ?d SERVER_BUFFER_ID st = (Inr ?n, addStream obj s1, t1)"
    using trace static ready by (simp add: registerTraceStream_def hidden_ready_def obj_def)
  have ok: "registry_ok ?s" using ready by (simp add: hidden_ready_def)
  note known = register_ok [OF reg ok]
  obtain y where "getStream ?n (addStream obj s1) = Inr y" using known by (auto simp: knows_def findStream_def getStream_def split: option.splits)
  then have "registerHiddenStream env (\<lambda>_. Inr) streams (length streams) name st = (Inr ?n, streams @ [Some ?n], addStream obj s1, t1)"
    using reg by (simp add: registerHiddenStream_def)
  moreover have "unat (?n + 1) = Suc (unat ?n)" "unat (sr_numRegularStreams ?s + 1) = Suc (unat (sr_numRegularStreams ?s))"
    using ready unat_add_lem [of ?n 1] unat_add_lem [of "sr_numRegularStreams ?s" 1] by (simp_all add: hidden_ready_def)
  then have "hidden_ready env k (addStream obj s1, t1)"
    using ready known t1(2-4) f(1,3) static encoder_map_same [of "addStream obj s1" ?s]
    by (auto simp: hidden_ready_def addStream_def Let_def s1_def obj_def)
  ultimately show ?thesis by blast
qed

definition unset_from :: "associated_streams \<Rightarrow> bool" where
  "unset_from a \<longleftrightarrow> length (as_streams a) < 2 ^ 32 \<and>
     (\<forall>k<length (as_streams a). unat (as_streamCount a) \<le> k \<longrightarrow> as_streams a ! k = INVALID_STREAM_ID)"

lemma initializeLine_ready:
  assumes "hidden_ready env (n + k) st" "unset_from a" "unat (as_streamCount a) + n \<le> length (as_streams a)"
    and "length prefix < 10" "CHR 0x00 \<notin> set prefix" "length streams + n \<le> 10"
  shows "\<exists>streams1 a1 st1. initializeLine env (\<lambda>_. Inr) sid prefix (length streams) n streams a st = (Inr (), streams1, a1, st1) \<and>
    hidden_ready env k st1 \<and> unset_from a1 \<and> unat (as_streamCount a1) = unat (as_streamCount a) + n \<and>
    length (as_streams a1) = length (as_streams a)"
  using assms
proof (induction n arbitrary: streams a st)
  case 0
  then show ?case by simp
next
  case (Suc n)
  let ?c = "unat (as_streamCount a)" let ?i = "length streams"
  have c: "?c < length (as_streams a)" "as_streams a ! ?c = INVALID_STREAM_ID" "length (as_streams a) < 2 ^ 32"
    using Suc.prems(2,3) by (auto simp: unset_from_def)
  have name: "descriptor_ok (hiddenDescriptor (hiddenName sid prefix ?i))"
    using Suc.prems(4-6) by (intro hiddenDescriptor_ok) simp_all
  obtain new st2 where new: "registerHiddenStream env (\<lambda>_. Inr) streams ?i (hiddenName sid prefix ?i) st = (Inr new, streams @ [Some new], st2)"
      "hidden_ready env (n + k) st2"
    using register_ready [OF _ name, of env "n + k" st streams] Suc.prems(1) by auto
  define a2 where "a2 = a\<lparr>as_streams := (as_streams a)[?c := new], as_streamCount := as_streamCount a + 1\<rparr>"
  have count: "unat (as_streamCount a2) = Suc ?c"
    using c unat_add_lem [of "as_streamCount a" 1] by (simp add: a2_def)
  have "unset_from a2" using Suc.prems(2) c(1) count by (auto simp: unset_from_def a2_def nth_list_update)
  then obtain streams1 a1 st1 where
      "initializeLine env (\<lambda>_. Inr) sid prefix (length (streams @ [Some new])) n (streams @ [Some new]) a2 st2 = (Inr (), streams1, a1, st1)"
      "hidden_ready env k st1" "unset_from a1" "unat (as_streamCount a1) = unat (as_streamCount a2) + n"
      "length (as_streams a1) = length (as_streams a2)"
    using Suc.IH [of st2 a2 "streams @ [Some new]"] new(2) count Suc.prems(3-6) by (auto simp: a2_def)
  then show ?case using new(1) c(2) count by (auto simp: a2_def)
qed

lemma initializeEachLine_ready:
  assumes "hidden_ready env (sum_list (map snd layout) + k) st" "unset_from a"
    and "unat (as_streamCount a) + sum_list (map snd layout) \<le> length (as_streams a)"
    and "\<forall>(prefix, n)\<in>set layout. length prefix < 10 \<and> CHR 0x00 \<notin> set prefix \<and> n \<le> 10"
  shows "\<exists>lines a1 st1. initializeEachLine env (\<lambda>_. Inr) sid layout (replicate (length layout) []) a st = (Inr (), lines, a1, st1) \<and>
    hidden_ready env k st1 \<and> length (as_streams a1) = length (as_streams a)"
  using assms
proof (induction layout arbitrary: a st)
  case (Cons x layout)
  obtain prefix n where x: "x = (prefix, n)" by (cases x)
  let ?m = "sum_list (map snd layout)"
  obtain streams1 a1 st1 where line: "initializeLine env (\<lambda>_. Inr) sid prefix 0 n [] a st = (Inr (), streams1, a1, st1)"
      "hidden_ready env (?m + k) st1" "unset_from a1" "unat (as_streamCount a1) = unat (as_streamCount a) + n"
      "length (as_streams a1) = length (as_streams a)"
    using initializeLine_ready [of env n "?m + k" st a prefix "[]" sid] Cons.prems x by (auto simp: add.assoc)
  obtain lines a2 st2 where "initializeEachLine env (\<lambda>_. Inr) sid layout (replicate (length layout) []) a1 st1 = (Inr (), lines, a2, st2)"
      "hidden_ready env k st2" "length (as_streams a2) = length (as_streams a1)"
    using Cons.IH [OF line(2,3)] Cons.prems(3,4) line(4,5) x by auto
  then show ?case using line(1,5) x by auto
qed simp

lemma association_length: "length (association_bytes a) = 4 + 4 * length (as_streams a)"
  by (induction "as_streams a" arbitrary: a) (simp_all add: association_bytes_def length_concat comp_def sum_list_triv)

lemma commit_ready:
  assumes "unlimited (s3_file s)" "\<not> s3_readMode s" "\<not> s3_loading s" "fst stream \<noteq> INVALID_STREAM_ID" "guid_ok (snd stream)"
    and "length (as_streams a) < 2 ^ 32"
  shows "\<exists>off s'. commitAssociation stream a s = (Inr off, s')"
proof -
  let ?n = "of_nat (length (association_bytes a)) :: u64"
  obtain f0 where f0: "newFrame (Some stream) None = Inr f0" by (cases stream) (simp add: newFrame_def throwOn_def Let_def)
  have "fh_attributeCount (fr_header f0) = 0" using f0 newFrame_facts(5) by (cases stream) blast
  then obtain f where f: "addAttribute SatAssociatedStreams ?n ?n (association_bytes a) f0 = Inr f"
    by (simp add: addAttribute_def throwOn_def Let_def SIMTRACE_V3_FRAME_ATTRIBUTE_TABLE_SIZE_def)
  have facts: "fh_streamId (fr_header f0) = fst stream" "fh_typeId (fr_header f0) = snd stream" "fr_attributes f0 = []"
    using f0 newFrame_facts(1-3) by (cases stream; fastforce)+
  note a = addAttribute_facts [OF f] facts
  have "unat ?n = length (association_bytes a)"
    by (rule unat_of_nat_small) (use assms(6) association_length [of a] in simp)
  then have n: "unat ?n = 4 + 4 * length (as_streams a)" by (simp only: association_length)
  have "\<forall>(b, c)\<in>set (fr_attributes f). take (unat (ah_size b)) c \<noteq> []"
    using a(4,8) n association_length [of a] by auto
  moreover have "fh_streamId (fr_header f) \<noteq> INVALID_STREAM_ID" "guid_ok (fh_typeId (fr_header f))" using a(1,2,6,7) assms(4,5) by simp_all
  ultimately obtain x s' where "commitFrame f s = (Inr x, s')" using commitFrame_succeeds [OF assms(1-3)] by blast
  then show ?thesis using f0 f by (simp add: commitAssociation_def Let_def)
qed

text \<open>The first write to a memory stream initializes the encoder.\<close>

lemma initialize_ready:
  assumes "hidden_ready env (totalStreamCount t) st" "fst stream \<noteq> INVALID_STREAM_ID" "guid_ok (snd stream)"
  shows "\<exists>e1 st1. initializeLines env (\<lambda>_. Inr) None (newMemoryEncoder stream t) st = (Inr (), e1, st1)"
proof -
  have total: "totalStreamCount t < 2 ^ 32" by (cases t) (simp_all add: totalStreamCount_def idStreamCount_def dataStreamCount_def)
  then have unset: "unset_from (newAssociatedStreams t)" by (simp add: unset_from_def newAssociatedStreams_def)
  have layout: "\<forall>(prefix, n)\<in>set (lineLayout t). length prefix < 10 \<and> CHR 0x00 \<notin> set prefix \<and> n \<le> 10"
    by (cases t) (simp_all add: lineLayout_def idStreamCount_def dataStreamCount_def)
  obtain lines a st1 where each:
      "initializeEachLine env (\<lambda>_. Inr) (fst stream) (lineLayout t) (replicate (length (lineLayout t)) []) (newAssociatedStreams t) st =
        (Inr (), lines, a, st1)" "hidden_ready env 0 st1" "length (as_streams a) = totalStreamCount t"
    using initializeEachLine_ready [OF _ unset _ layout, of env 0 st "fst stream"] assms(1)
    by (auto simp: layout_total newAssociatedStreams_def)
  obtain off t2 where "commitAssociation stream a (snd st1) = (Inr off, t2)"
    using commit_ready [of "snd st1" stream a] each(2,3) assms(2,3) total by (auto simp: hidden_ready_def)
  then show ?thesis using each(1) by (cases st1) (simp add: initializeLines_def newMemoryEncoder_def Let_def)
qed

theorem association_restores_lines_witness:
  "\<exists>e1 st1 a t0 off. initializeLines (re_env recorder_env) (\<lambda>_. Inr) None (newMemoryEncoder (7, guid7) DataMemoryAccess32)
      (recorder_store, store7 None) = (Inr (), e1, st1) \<and> map length (me_lines e1) = [1, 4, 3, 1] \<and>
    commitAssociation (7, guid7) a t0 = (Inr off, snd st1)"
proof -
  have new: "createStore 1 None = Inr (store7 None)" by (rule createStore_succeeds) simp
  have ok: "registry_ok recorder_store"
    by (simp add: registry_ok_def recorder_store_def countStreams_def map_ok_def keys_def STORE_MAX_NUM_STREAMBUFFERS_def std_map.below_def)
  have "hidden_ready (re_env recorder_env) (totalStreamCount DataMemoryAccess32) (recorder_store, store7 None)"
    using ok createStore_unlimited [OF new] createStore_ok [OF new]
    by (simp add: hidden_ready_def recorder_env_def recorder_store_def getEncoderFactory_def findEncoder_def defaultEncoderTypeId_def
        totalStreamCount_def idStreamCount_def dataStreamCount_def)
  then obtain e1 st1 where run: "initializeLines (re_env recorder_env) (\<lambda>_. Inr) None (newMemoryEncoder (7, guid7) DataMemoryAccess32)
      (recorder_store, store7 None) = (Inr (), e1, st1)"
    using initialize_ready [of "re_env recorder_env" DataMemoryAccess32 "(recorder_store, store7 None)" "(7, guid7)"] guid7_ok
    by (auto simp: INVALID_OBJECT_ID_def)
  have "map snd (lineLayout DataMemoryAccess32) = [1, 4, 3, 1]" by (simp add: lineLayout_def idStreamCount_def dataStreamCount_def)
  then show ?thesis using association_restores_lines [OF _ run, of st1] ok run by simp blast
qed

end
