(* ===== verification/Rpc_Message.thy ===== *)
theory Rpc_Message
  imports Trace_Format
begin

text \<open>
  The messages between clients and the server (\<open>include/simubase/RpcInterface.h\<close>,
  \<open>libsimubase/RpcInterface.cpp\<close>) and the ports that send and receive them (\<open>libsimubase/Port.cpp\<close>,
  \<open>ServerPort.cpp\<close>, \<open>ClientPort.cpp\<close>) over a channel (\<open>libsimubase/Channel.cpp\<close>). What a payload
  pointer points to decides whether it may be freed; freeing anything else is undefined.
\<close>

section \<open>Messages\<close>

definition MptEmbedded :: u8 where "MptEmbedded = 0"
definition MptData :: u8 where "MptData = 1"
definition MptHandles :: u8 where "MptHandles = 2"
definition MptMax :: u8 where "MptMax = 3"
definition MfResponse :: u8 where "MfResponse = 1"
definition LmfCustomAllocation :: u8 where "LmfCustomAllocation = 1"
definition LmfAllocationOwner :: u8 where "LmfAllocationOwner = 2"
definition SC_Success :: u16 where "SC_Success = 0"
definition SC_Failed :: u16 where "SC_Failed = 1"

text \<open>
  A payload pointer: memory from \<open>malloc\<close> with its content, the address a payload allocator gave, or memory
  of the caller of \<open>setupData\<close>. The payload allocators give segments of stream buffers: the store, the id of the
  buffer, and the segment.
\<close>

type_synonym address = "u32 \<times> u32 \<times> nat"

datatype pointer = NullPtr | Malloc "u8 list" | Allocated address | Borrowed "u8 list"

text \<open>
  \<open>ms_code\<close> is the control code of a request and the status of a response. The 64-bit parameter of an embedded
  message shares its upper half with the length of a payload and the number of handles
  (\<open>ms_length\<close>). \<open>ms_allocator\<close> tells whether a payload allocator is set.
\<close>

record message =
  ms_sequenceNumber :: u8
  ms_payloadType :: u8
  ms_flags :: u8
  ms_code :: u16
  ms_parameter0 :: u32
  ms_parameter1 :: u32
  ms_length :: u32
  ms_payload :: pointer
  ms_handles :: "nat list option"
  ms_allocator :: bool
  ms_localFlags :: u8

definition zeroMessage :: message where
  "zeroMessage =
     \<lparr>ms_sequenceNumber = 0, ms_payloadType = 0, ms_flags = 0, ms_code = 0, ms_parameter0 = 0, ms_parameter1 = 0,
      ms_length = 0, ms_payload = NullPtr, ms_handles = None, ms_allocator = False, ms_localFlags = 0\<rparr>"

definition flagged :: "u8 \<Rightarrow> u8 \<Rightarrow> bool" where
  "flagged flags f \<longleftrightarrow> flags AND f \<noteq> 0"

definition setupEmbedded :: "u32 \<Rightarrow> u64 \<Rightarrow> message \<Rightarrow> message" where
  "setupEmbedded p0 p1 m =
     m\<lparr>ms_payloadType := MptEmbedded, ms_parameter0 := p0, ms_parameter1 := ucast p1, ms_length := ucast (drop_bit 32 p1)\<rparr>"

definition setupEmpty :: "message \<Rightarrow> message" where
  "setupEmpty m = setupEmbedded 0 0 m"

definition setupData :: "u32 \<Rightarrow> u32 \<Rightarrow> u8 list \<Rightarrow> message \<Rightarrow> message" where
  "setupData p0 p1 bytes m =
     m\<lparr>ms_payloadType := MptData, ms_parameter0 := p0, ms_parameter1 := p1, ms_length := of_nat (length bytes),
       ms_payload := (if bytes = [] then NullPtr else Borrowed bytes)\<rparr>"

definition setupHandle :: "u32 \<Rightarrow> u32 \<Rightarrow> nat list \<Rightarrow> message \<Rightarrow> message" where
  "setupHandle p0 p1 handles m =
     m\<lparr>ms_payloadType := MptHandles, ms_parameter0 := p0, ms_parameter1 := p1, ms_length := of_nat (length handles),
       ms_handles := Some handles\<rparr>"

definition testMessage :: "u8 \<Rightarrow> nat \<Rightarrow> message \<Rightarrow> bool" where
  "testMessage type expectedLength m \<longleftrightarrow>
     ms_payloadType m = type \<and>
     (0 < expectedLength \<longrightarrow> type = MptEmbedded \<or> (type = MptData \<or> type = MptHandles) \<and> unat (ms_length m) = expectedLength)"

text \<open>
  \<open>discard\<close>: \<open>None\<close> is a call of \<open>free\<close> for memory that is not from \<open>malloc\<close>. The payload allocators
  of the repository do nothing when they are asked to free.
\<close>

definition discardMessage :: "message \<Rightarrow> (unit res \<times> message) option" where
  "discardMessage m =
     (let done = (\<lambda>m. (Inr (), m\<lparr>ms_localFlags := 0, ms_flags := 0\<rparr>));
          owner = flagged (ms_localFlags m) LmfAllocationOwner in
      if ms_payloadType m = MptEmbedded then Some (done (m\<lparr>ms_parameter1 := 0, ms_length := 0\<rparr>))
      else if ms_payloadType m = MptData then
        (if 0 < ms_length m \<and> ms_payload m \<noteq> NullPtr \<and> owner \<and>
            \<not> flagged (ms_localFlags m) LmfCustomAllocation \<and> \<not> (\<exists>b. ms_payload m = Malloc b)
         then None else Some (done (m\<lparr>ms_length := 0, ms_payload := NullPtr\<rparr>)))
      else if ms_payloadType m = MptHandles then Some (done (m\<lparr>ms_length := 0, ms_handles := None\<rparr>))
      else Some (Inl NotSupportedException, m))"

section \<open>Channels\<close>

text \<open>
  A connection: what can be received, what was sent, the number of bytes that can still be sent (\<open>None\<close>
  without limit), whether handles can be transferred, and what is thrown when the connection is lost.
\<close>

record channel =
  ch_connected :: bool
  ch_in :: "u8 list"
  ch_inHandles :: "nat list list"
  ch_out :: "u8 list"
  ch_outHandles :: "nat list list"
  ch_budget :: "nat option"
  ch_transfersHandles :: bool
  ch_error :: exn

definition channelSend :: "u8 list \<Rightarrow> channel \<Rightarrow> unit res \<times> channel" where
  "channelSend bytes ch =
     (if \<not> ch_connected ch then (Inl InvalidOperationException, ch)
      else if bytes = [] then (Inl ArgumentNullException, ch)
      else
        (case ch_budget ch of
           None \<Rightarrow> (Inr (), ch\<lparr>ch_out := ch_out ch @ bytes\<rparr>)
         | Some k \<Rightarrow>
             (if length bytes \<le> k then Inr () else Inl (ch_error ch),
              ch\<lparr>ch_out := ch_out ch @ take k bytes, ch_budget := Some (k - length bytes)\<rparr>)))"

definition channelSendHandles :: "nat list \<Rightarrow> channel \<Rightarrow> unit res \<times> channel" where
  "channelSendHandles handles ch =
     (if \<not> ch_connected ch then (Inl InvalidOperationException, ch)
      else if \<not> ch_transfersHandles ch then (Inl NotSupportedException, ch)
      else if ch_budget ch = Some 0 then (Inl (ch_error ch), ch)
      else (Inr (), ch\<lparr>ch_outHandles := ch_outHandles ch @ [handles]\<rparr>))"

text \<open>What was received before the connection was lost has been written to the target.\<close>

definition channelReceive :: "nat \<Rightarrow> channel \<Rightarrow> unit res \<times> u8 list \<times> channel" where
  "channelReceive n ch =
     (if \<not> ch_connected ch then (Inl InvalidOperationException, [], ch)
      else if n = 0 then (Inl ArgumentNullException, [], ch)
      else
        (if n \<le> length (ch_in ch) then Inr () else Inl (ch_error ch),
         take n (ch_in ch), ch\<lparr>ch_in := drop n (ch_in ch)\<rparr>))"

definition channelReceiveHandles :: "channel \<Rightarrow> nat list res \<times> channel" where
  "channelReceiveHandles ch =
     (if \<not> ch_connected ch then (Inl InvalidOperationException, ch)
      else if \<not> ch_transfersHandles ch then (Inl NotSupportedException, ch)
      else (case ch_inHandles ch of [] \<Rightarrow> (Inl (ch_error ch), ch) | h # hs \<Rightarrow> (Inr h, ch\<lparr>ch_inHandles := hs\<rparr>)))"

section \<open>The wire format\<close>

definition MESSAGE_SIZE :: nat where "MESSAGE_SIZE = 16"

definition typeAndFlags :: "u8 \<Rightarrow> u8 \<Rightarrow> u8" where
  "typeAndFlags type flags = of_nat (unat type mod 4 + 4 * (unat flags mod 64))"

definition message_bytes :: "message \<Rightarrow> u8 list" where
  "message_bytes m =
     [ms_sequenceNumber m, typeAndFlags (ms_payloadType m) (ms_flags m)] @
     le 2 (unat (ms_code m)) @ le 4 (unat (ms_parameter0 m)) @ le 4 (unat (ms_parameter1 m)) @ le 4 (unat (ms_length m))"

definition message_read :: "u8 list \<Rightarrow> message \<Rightarrow> message" where
  "message_read bs m =
     m\<lparr>ms_sequenceNumber := of_nat (field bs 0 1), ms_payloadType := of_nat (field bs 1 1 mod 4),
       ms_flags := of_nat (field bs 1 1 div 4), ms_code := of_nat (field bs 2 2),
       ms_parameter0 := of_nat (field bs 4 4), ms_parameter1 := of_nat (field bs 8 4), ms_length := of_nat (field bs 12 4)\<rparr>"

section \<open>Ports\<close>

text \<open>A payload allocator with the memory it belongs to: the address it sets, and whether it throws.\<close>

record 'm allocator =
  al_alloc :: "message \<Rightarrow> 'm \<Rightarrow> unit res \<times> address option"
  al_write :: "address \<Rightarrow> u8 list \<Rightarrow> 'm \<Rightarrow> 'm"
  al_read :: "address \<Rightarrow> nat \<Rightarrow> 'm \<Rightarrow> u8 list"

record port =
  po_channel :: channel
  po_lastSequenceNumber :: u8
  po_nextSequenceNumber :: u8

definition payloadBytes :: "'m allocator \<Rightarrow> message \<Rightarrow> 'm \<Rightarrow> u8 list" where
  "payloadBytes al m mem =
     (case ms_payload m of
        NullPtr \<Rightarrow> []
      | Malloc b \<Rightarrow> take (unat (ms_length m)) b
      | Borrowed b \<Rightarrow> take (unat (ms_length m)) b
      | Allocated a \<Rightarrow> al_read al a (unat (ms_length m)) mem)"

definition sendMessage :: "'m allocator \<Rightarrow> 'm \<Rightarrow> message \<Rightarrow> port \<Rightarrow> unit res \<times> port" where
  "sendMessage al mem m p =
     (let p1 = p\<lparr>po_lastSequenceNumber := ms_sequenceNumber m\<rparr> in
      case channelSend (message_bytes m) (po_channel p1) of
        (Inl e, ch) \<Rightarrow> (Inl e, p1\<lparr>po_channel := ch\<rparr>)
      | (Inr _, ch) \<Rightarrow>
          if ms_payloadType m = MptData \<and> ms_length m \<noteq> 0 then
            (case channelSend (payloadBytes al m mem) ch of (r, ch1) \<Rightarrow> (r, p1\<lparr>po_channel := ch1\<rparr>))
          else if ms_payloadType m = MptHandles \<and> ms_length m \<noteq> 0 then
            (case channelSendHandles (the (ms_handles m)) ch of (r, ch1) \<Rightarrow> (r, p1\<lparr>po_channel := ch1\<rparr>))
          else (Inr (), p1\<lparr>po_channel := ch\<rparr>))"

text \<open>The handler of \<open>_receive\<close>: discarding the message and throwing again.\<close>

definition failReceive :: "exn \<Rightarrow> message \<Rightarrow> port \<Rightarrow> 'm \<Rightarrow> (unit res \<times> message \<times> port \<times> 'm) option" where
  "failReceive e m p mem =
     (case discardMessage m of
        None \<Rightarrow> None
      | Some (Inl e', m1) \<Rightarrow> Some (Inl e', m1, p, mem)
      | Some (Inr _, m1) \<Rightarrow> Some (Inl e, m1, p, mem))"

text \<open>The payload goes to the address that the allocator gave, or to new memory.\<close>

definition readPayload :: "'m allocator \<Rightarrow> address option \<Rightarrow> message \<Rightarrow> port \<Rightarrow> 'm \<Rightarrow> (unit res \<times> message \<times> port \<times> 'm) option" where
  "readPayload al address m p mem =
     (case channelReceive (unat (ms_length m)) (po_channel p) of
        (r, bytes, ch) \<Rightarrow>
          (case (case address of
                   None \<Rightarrow> (m\<lparr>ms_payload := Malloc bytes\<rparr>, mem)
                 | Some a \<Rightarrow> (m\<lparr>ms_localFlags := ms_localFlags m OR LmfCustomAllocation\<rparr>, al_write al a bytes mem)) of
             (m1, mem1) \<Rightarrow>
               (case r of
                  Inl e \<Rightarrow> failReceive e m1 (p\<lparr>po_channel := ch\<rparr>) mem1
                | Inr _ \<Rightarrow> Some (Inr (), m1, p\<lparr>po_channel := ch\<rparr>, mem1))))"

text \<open>
  The allocator is not used for the response of a call that failed, whose payload is the text of the error.
\<close>

definition usesAllocator :: "message \<Rightarrow> bool" where
  "usesAllocator m \<longleftrightarrow> ms_allocator m \<and> (\<not> flagged (ms_flags m) MfResponse \<or> ms_code m \<noteq> SC_Failed)"

definition setAddress :: "address option \<Rightarrow> message \<Rightarrow> message" where
  "setAddress address m = (case address of None \<Rightarrow> m | Some a \<Rightarrow> m\<lparr>ms_payload := Allocated a\<rparr>)"

definition receivePayload :: "'m allocator \<Rightarrow> message \<Rightarrow> port \<Rightarrow> 'm \<Rightarrow> (unit res \<times> message \<times> port \<times> 'm) option" where
  "receivePayload al m p mem =
     (let m1 = m\<lparr>ms_payload := NullPtr, ms_localFlags := ms_localFlags m OR LmfAllocationOwner\<rparr> in
      case (if usesAllocator m then al_alloc al m1 mem else (Inr (), None)) of
        (Inl e, address) \<Rightarrow> failReceive e (setAddress address m1) p mem
      | (Inr _, address) \<Rightarrow> readPayload al address (setAddress address m1) p mem)"

text \<open>\<open>_receive\<close>; \<open>None\<close> is undefined behaviour.\<close>

definition receiveMessage :: "'m allocator \<Rightarrow> message \<Rightarrow> port \<Rightarrow> 'm \<Rightarrow> (unit res \<times> message \<times> port \<times> 'm) option" where
  "receiveMessage al m0 p mem =
     (case channelReceive MESSAGE_SIZE (po_channel p) of
        (Inl e, bytes, ch) \<Rightarrow> Some (Inl e, m0, p\<lparr>po_channel := ch\<rparr>, mem)
      | (Inr _, bytes, ch) \<Rightarrow>
          (let m = message_read bytes m0;
               p1 = p\<lparr>po_channel := ch, po_lastSequenceNumber := ms_sequenceNumber m\<rparr> in
           if ms_payloadType m = MptEmbedded then Some (Inr (), m, p1, mem)
           else if ms_payloadType m = MptData then
             (if ms_length m = 0 then Some (Inr (), m\<lparr>ms_payload := NullPtr\<rparr>, p1, mem) else receivePayload al m p1 mem)
           else if ms_payloadType m = MptHandles then
             (if ms_length m = 0 then Some (Inr (), m\<lparr>ms_handles := None\<rparr>, p1, mem)
              else
                (let m1 = m\<lparr>ms_localFlags := ms_localFlags m OR LmfAllocationOwner, ms_handles := Some []\<rparr> in
                 case channelReceiveHandles ch of
                   (Inl e, ch1) \<Rightarrow> failReceive e m1 (p1\<lparr>po_channel := ch1\<rparr>) mem
                 | (Inr hs, ch1) \<Rightarrow> Some (Inr (), m1\<lparr>ms_handles := Some hs\<rparr>, p1\<lparr>po_channel := ch1\<rparr>, mem)))
           else failReceive NotSupportedException m p1 mem))"

text \<open>\<open>wait\<close> of a server port.\<close>

definition waitRequest :: "'m allocator \<Rightarrow> message \<Rightarrow> port \<Rightarrow> 'm \<Rightarrow> (unit res \<times> message \<times> port \<times> 'm) option" where
  "waitRequest al m p mem =
     (case discardMessage m of
        None \<Rightarrow> None
      | Some (Inl e, m1) \<Rightarrow> Some (Inl e, m1, p, mem)
      | Some (Inr _, m1) \<Rightarrow> receiveMessage al m1 p mem)"

text \<open>The responses of a server port, for the four overloads of \<open>ret\<close>.\<close>

datatype reply =
    ReplyEmbedded u32 u64
  | ReplyData "u8 list" u32 u32
  | ReplyHandles "nat list" u32 u32

definition setupReply :: "reply \<Rightarrow> message \<Rightarrow> message" where
  "setupReply r m =
     (case r of
        ReplyEmbedded p0 p1 \<Rightarrow> setupEmbedded p0 p1 m
      | ReplyData bytes p0 p1 \<Rightarrow> setupData p0 p1 bytes m
      | ReplyHandles hs p0 p1 \<Rightarrow> setupHandle p0 p1 hs m)"

definition retMessage :: "'m allocator \<Rightarrow> 'm \<Rightarrow> message \<Rightarrow> port \<Rightarrow> unit res \<times> message \<times> port" where
  "retMessage al mem m p =
     (if MptMax \<le> ms_payloadType m then (Inl NotSupportedException, m, p)
      else
        (let m1 = m\<lparr>ms_flags := ms_flags m OR MfResponse\<rparr> in
         case sendMessage al mem m1 p of (r, p1) \<Rightarrow> (r, m1, p1)))"

definition retReply :: "'m allocator \<Rightarrow> 'm \<Rightarrow> u16 \<Rightarrow> reply \<Rightarrow> message \<Rightarrow> port \<Rightarrow> (unit res \<times> message \<times> port) option" where
  "retReply al mem status r m p =
     (case discardMessage m of
        None \<Rightarrow> None
      | Some (Inl e, m1) \<Rightarrow> Some (Inl e, m1, p)
      | Some (Inr _, m1) \<Rightarrow> Some (retMessage al mem (setupReply r (m1\<lparr>ms_code := status\<rparr>)) p))"

text \<open>\<open>call\<close> of a client port. A peer exception comes with its text and the two parameters.\<close>

datatype call_result =
    CallStatus u16
  | CallThrow exn
  | CallPeer "u8 list" u32 u32

definition callServer ::
  "'m allocator \<Rightarrow> message \<Rightarrow> message \<Rightarrow> port \<Rightarrow> 'm \<Rightarrow> (port \<Rightarrow> port) \<Rightarrow> (call_result \<times> message \<times> port \<times> 'm) option" where
  "callServer al response m p mem server =
     (let m1 = m\<lparr>ms_sequenceNumber := po_nextSequenceNumber p\<rparr>;
          p1 = p\<lparr>po_nextSequenceNumber := po_nextSequenceNumber p + 1\<rparr> in
      case sendMessage al mem m1 p1 of
        (Inl e, p2) \<Rightarrow> Some (CallThrow e, response, p2, mem)
      | (Inr _, p2) \<Rightarrow>
          (case receiveMessage al response (server p2) mem of
             None \<Rightarrow> None
           | Some (Inl e, r, p3, mem1) \<Rightarrow> Some (CallThrow e, r, p3, mem1)
           | Some (Inr _, r, p3, mem1) \<Rightarrow>
               Some (if ms_sequenceNumber r \<noteq> ms_sequenceNumber m1 then CallThrow GenericException
                     else if ms_code r = SC_Failed then
                       (if ms_payloadType r \<noteq> MptData then CallThrow RpcMessageMalformedException
                        else CallPeer (payloadBytes al r mem1) (ms_parameter0 r) (ms_parameter1 r))
                     else CallStatus (ms_code r),
                     r, p3, mem1)))"

end
