(* ===== verification/Rpc_Port.thy ===== *)
theory Rpc_Port
  imports Rpc_Message
begin

text \<open>
  What the ports guarantee: messages arrive as they were sent, and receiving any bytes is safe as long
  as a payload allocator that throws has not set an address.
\<close>

section \<open>The header\<close>

definition message_ok :: "message \<Rightarrow> bool" where
  "message_ok m \<longleftrightarrow> ms_payloadType m < 4 \<and> ms_flags m < 64"

lemma message_length [simp]: "length (message_bytes m) = 16"
  by (simp add: message_bytes_def)

text \<open>The fields of the header that are sent.\<close>

definition sameHeader :: "message \<Rightarrow> message \<Rightarrow> bool" where
  "sameHeader m m' \<longleftrightarrow> ms_sequenceNumber m' = ms_sequenceNumber m \<and> ms_payloadType m' = ms_payloadType m \<and>
     ms_flags m' = ms_flags m \<and> ms_code m' = ms_code m \<and> ms_parameter0 m' = ms_parameter0 m \<and>
     ms_parameter1 m' = ms_parameter1 m \<and> ms_length m' = ms_length m"

lemma flag_byte:
  assumes "type < 4" "flags < 64"
  shows "unat (typeAndFlags type flags) = unat type + 4 * unat flags"
proof -
  have b: "unat type < 4" "unat flags < 64" using assms by (simp_all add: word_less_nat_alt)
  have "unat (of_nat (unat type + 4 * unat flags) :: u8) = unat type + 4 * unat flags"
    by (rule unat_of_nat_small) (use b in simp)
  then show ?thesis using b by (simp only: typeAndFlags_def mod_less)
qed

lemma header_roundtrip:
  assumes "message_ok m"
  shows "sameHeader m (message_read (message_bytes m) m0)"
proof -
  have bounds: "unat (ms_payloadType m) < 4" "unat (ms_flags m) < 64"
    using assms by (simp_all add: message_ok_def word_less_nat_alt)
  have byte: "unat (typeAndFlags (ms_payloadType m) (ms_flags m)) = unat (ms_payloadType m) + 4 * unat (ms_flags m)"
    by (rule flag_byte) (use assms in \<open>simp_all add: message_ok_def\<close>)
  have f: "field (message_bytes m) 0 1 = unat (ms_sequenceNumber m)"
    "field (message_bytes m) 1 1 = unat (ms_payloadType m) + 4 * unat (ms_flags m)"
    "field (message_bytes m) 2 2 = unat (ms_code m)" "field (message_bytes m) 4 4 = unat (ms_parameter0 m)"
    "field (message_bytes m) 8 4 = unat (ms_parameter1 m)" "field (message_bytes m) 12 4 = unat (ms_length m)"
    by (simp_all add: message_bytes_def field_rules byte)
  then show ?thesis using bounds
    by (simp add: sameHeader_def message_read_def word_unat_eq_iff)
qed

section \<open>Sending and receiving\<close>

definition open_channel :: "channel \<Rightarrow> bool" where
  "open_channel ch \<longleftrightarrow> ch_connected ch \<and> ch_budget ch = None"

text \<open>The bytes of a message without handles.\<close>

definition wire :: "'m allocator \<Rightarrow> 'm \<Rightarrow> message \<Rightarrow> u8 list" where
  "wire al mem m = message_bytes m @ (if ms_payloadType m = MptData \<and> ms_length m \<noteq> 0 then payloadBytes al m mem else [])"

definition plain :: "message \<Rightarrow> bool" where
  "plain m \<longleftrightarrow> message_ok m \<and> (ms_payloadType m = MptEmbedded \<or> ms_payloadType m = MptData \<and>
     (\<exists>b. ms_payload m = (if b = [] then NullPtr else Borrowed b) \<and> length b = unat (ms_length m)))"

lemma plain_payload: "plain m \<Longrightarrow> ms_payloadType m = MptData \<Longrightarrow> length (payloadBytes al m mem) = unat (ms_length m)"
  by (auto simp: plain_def payloadBytes_def MptData_def MptEmbedded_def split: if_splits)

lemma channelSend_open: "open_channel ch \<Longrightarrow> bs \<noteq> [] \<Longrightarrow> channelSend bs ch = (Inr (), ch\<lparr>ch_out := ch_out ch @ bs\<rparr>)"
  by (simp add: channelSend_def open_channel_def)

lemma message_nonempty [simp]: "message_bytes m \<noteq> []"
  by (simp add: message_bytes_def)

lemma send_plain:
  assumes "plain m" "open_channel (po_channel p)"
  shows "sendMessage al mem m p =
    (Inr (), p\<lparr>po_lastSequenceNumber := ms_sequenceNumber m,
               po_channel := (po_channel p)\<lparr>ch_out := ch_out (po_channel p) @ wire al mem m\<rparr>\<rparr>)"
proof (cases "ms_payloadType m = MptData \<and> ms_length m \<noteq> 0")
  case True
  then have "payloadBytes al m mem \<noteq> []" using plain_payload [OF assms(1), of al mem] by (auto simp: unat_eq_0)
  moreover have "open_channel ((po_channel p)\<lparr>ch_out := x\<rparr>)" for x using assms(2) by (simp add: open_channel_def)
  ultimately show ?thesis
    using True assms(2) by (simp add: sendMessage_def channelSend_open wire_def Let_def)
next
  case False
  then have "\<not> (ms_payloadType m = MptHandles \<and> ms_length m \<noteq> 0)" using assms(1)
    by (auto simp: plain_def MptHandles_def MptData_def MptEmbedded_def)
  then show ?thesis using False assms(2) by (auto simp: sendMessage_def channelSend_open wire_def Let_def)
qed

text \<open>The message a receiver without a payload allocator gets.\<close>

definition arrived :: "'m allocator \<Rightarrow> 'm \<Rightarrow> message \<Rightarrow> message \<Rightarrow> bool" where
  "arrived al mem m m' \<longleftrightarrow> sameHeader m m' \<and>
     (ms_payloadType m = MptData \<longrightarrow>
        ms_payload m' = (if ms_length m = 0 then NullPtr else Malloc (payloadBytes al m mem)))"

lemma receive_plain:
  assumes m: "plain m" and ch: "ch_connected (po_channel p)" "ch_in (po_channel p) = wire al mem m @ rest"
    and m0: "\<not> ms_allocator m0"
  shows "\<exists>m'. receiveMessage al' m0 p mem' =
      Some (Inr (), m', p\<lparr>po_channel := (po_channel p)\<lparr>ch_in := rest\<rparr>, po_lastSequenceNumber := ms_sequenceNumber m\<rparr>, mem') \<and>
    arrived al mem m m'"
proof -
  let ?m = "message_read (message_bytes m) m0"
  have same: "sameHeader m ?m" using header_roundtrip m by (simp add: plain_def)
  then have fields: "ms_sequenceNumber ?m = ms_sequenceNumber m" "ms_payloadType ?m = ms_payloadType m" "ms_length ?m = ms_length m"
    by (simp_all add: sameHeader_def)
  have noalloc: "\<not> ms_allocator ?m" using m0 by (simp add: message_read_def)
  have head: "channelReceive MESSAGE_SIZE (po_channel p) = (Inr (), message_bytes m,
      (po_channel p)\<lparr>ch_in := drop 16 (wire al mem m @ rest)\<rparr>)"
    using ch by (simp add: channelReceive_def MESSAGE_SIZE_def wire_def)
  show ?thesis
  proof (cases "ms_payloadType m = MptData \<and> ms_length m \<noteq> 0")
    case False
    then have kind: "ms_payloadType m = MptEmbedded \<or> ms_payloadType m = MptData \<and> ms_length m = 0" using m by (auto simp: plain_def)
    have "drop 16 (wire al mem m @ rest) = rest" using False by (auto simp: wire_def)
    then show ?thesis
      using head fields kind same unfolding receiveMessage_def
      by (auto simp: Let_def arrived_def sameHeader_def MptData_def MptEmbedded_def)
  next
    case True
    let ?b = "payloadBytes al m mem"
    let ?p = "p\<lparr>po_channel := (po_channel p)\<lparr>ch_in := ?b @ rest\<rparr>, po_lastSequenceNumber := ms_sequenceNumber m\<rparr>"
    have len: "length ?b = unat (ms_length m)" "unat (ms_length m) \<noteq> 0" using plain_payload [OF m] True by (simp_all add: unat_eq_0)
    have "drop 16 (wire al mem m @ rest) = ?b @ rest" using True by (simp add: wire_def)
    then have "receiveMessage al' m0 p mem' = receivePayload al' ?m ?p mem'"
      using head fields True unfolding receiveMessage_def by (simp add: Let_def MptData_def MptEmbedded_def)
    also have "\<dots> = Some (Inr (), ?m\<lparr>ms_payload := Malloc ?b, ms_localFlags := ms_localFlags ?m OR LmfAllocationOwner\<rparr>,
        p\<lparr>po_channel := (po_channel p)\<lparr>ch_in := rest\<rparr>, po_lastSequenceNumber := ms_sequenceNumber m\<rparr>, mem')"
      using noalloc fields len ch(1) by (simp add: receivePayload_def readPayload_def usesAllocator_def setAddress_def channelReceive_def Let_def)
    finally show ?thesis using same True by (auto simp: arrived_def sameHeader_def)
  qed
qed

text \<open>A sequence of messages.\<close>

fun sendAll :: "'m allocator \<Rightarrow> 'm \<Rightarrow> message list \<Rightarrow> port \<Rightarrow> port" where
  "sendAll al mem [] p = p"
| "sendAll al mem (m # ms) p = sendAll al mem ms (snd (sendMessage al mem m p))"

fun receiveAll :: "'m allocator \<Rightarrow> 'm \<Rightarrow> nat \<Rightarrow> port \<Rightarrow> (message list \<times> port) option" where
  "receiveAll al mem 0 p = Some ([], p)"
| "receiveAll al mem (Suc n) p =
     (case waitRequest al zeroMessage p mem of
        Some (Inr _, m, p1, mem1) \<Rightarrow> map_option (\<lambda>(ms, p2). (m # ms, p2)) (receiveAll al mem1 n p1)
      | _ \<Rightarrow> None)"

lemma sendAll_wire:
  "\<forall>m\<in>set ms. plain m \<Longrightarrow> open_channel (po_channel p) \<Longrightarrow>
   ch_out (po_channel (sendAll al mem ms p)) = ch_out (po_channel p) @ concat (map (wire al mem) ms)"
proof (induction ms arbitrary: p)
  case (Cons m ms)
  then show ?case using send_plain [of m p al mem] by (simp add: open_channel_def)
qed simp

lemma discard_zero: "discardMessage zeroMessage = Some (Inr (), zeroMessage)"
  by (simp add: discardMessage_def zeroMessage_def Let_def MptEmbedded_def)

lemma receiveAll_wire:
  "\<forall>m\<in>set ms. plain m \<Longrightarrow> ch_connected (po_channel q) \<Longrightarrow> ch_in (po_channel q) = concat (map (wire al mem) ms) @ rest \<Longrightarrow>
   \<exists>ms' q'. receiveAll al' mem' (length ms) q = Some (ms', q') \<and> list_all2 (arrived al mem) ms ms' \<and> ch_in (po_channel q') = rest"
proof (induction ms arbitrary: q)
  case (Cons m ms)
  let ?rest = "concat (map (wire al mem) ms) @ rest"
  have m: "plain m" "ch_in (po_channel q) = wire al mem m @ ?rest" using Cons.prems by simp_all
  have none: "\<not> ms_allocator zeroMessage" by (simp add: zeroMessage_def)
  obtain m' where m': "receiveMessage al' zeroMessage q mem' =
      Some (Inr (), m', q\<lparr>po_channel := (po_channel q)\<lparr>ch_in := ?rest\<rparr>, po_lastSequenceNumber := ms_sequenceNumber m\<rparr>, mem')"
      "arrived al mem m m'"
    using receive_plain [OF m(1) Cons.prems(2) m(2) none, of al' mem'] by (elim exE conjE) (rule that)
  define q1 where "q1 = q\<lparr>po_channel := (po_channel q)\<lparr>ch_in := ?rest\<rparr>, po_lastSequenceNumber := ms_sequenceNumber m\<rparr>"
  have wait: "waitRequest al' zeroMessage q mem' = Some (Inr (), m', q1, mem')"
    unfolding waitRequest_def discard_zero option.case prod.case sum.case q1_def by (rule m'(1))
  have "ch_connected (po_channel q1)" "ch_in (po_channel q1) = ?rest" using Cons.prems(2) by (simp_all add: q1_def)
  then obtain ms' q' where ms': "receiveAll al' mem' (length ms) q1 = Some (ms', q')" "list_all2 (arrived al mem) ms ms'"
      "ch_in (po_channel q') = rest"
    using Cons.IH [of q1] Cons.prems(1) by auto
  have "receiveAll al' mem' (length (m # ms)) q = Some (m' # ms', q')" using wait ms'(1) by simp
  then show ?case using m'(2) ms'(2,3) by blast
qed simp

text \<open>
  C17: Messages arrive: whatever sequence of embedded and data messages is sent over a connection is received in the
  same order, each with the same sequence number, type, flags, code and parameters, and with the same
  payload in memory that the receiver owns; what follows on the connection is not touched.
\<close>

theorem messages_arrive:
  assumes "\<And>m. m \<in> set ms \<Longrightarrow> plain m" and "open_channel (po_channel p)" "ch_out (po_channel p) = []"
    and "ch_connected (po_channel q)" "ch_in (po_channel q) = ch_out (po_channel (sendAll al mem ms p)) @ rest"
  shows "\<exists>ms' q'. receiveAll al' mem' (length ms) q = Some (ms', q') \<and> list_all2 (arrived al mem) ms ms' \<and> ch_in (po_channel q') = rest"
  using receiveAll_wire [of ms q al mem rest al' mem'] sendAll_wire [of ms p al mem] assms by simp

definition newChannel :: "u8 list \<Rightarrow> channel" where
  "newChannel bytes =
     \<lparr>ch_connected = True, ch_in = bytes, ch_inHandles = [], ch_out = [], ch_outHandles = [], ch_budget = None,
      ch_transfersHandles = False, ch_error = PlatformException\<rparr>"

definition newPort :: "u8 list \<Rightarrow> port" where
  "newPort bytes = \<lparr>po_channel = newChannel bytes, po_lastSequenceNumber = 0, po_nextSequenceNumber = 0\<rparr>"

definition noAllocator :: "unit allocator" where
  "noAllocator = \<lparr>al_alloc = (\<lambda>_ _. (Inr (), None)), al_write = (\<lambda>_ _ m. m), al_read = (\<lambda>_ _ _. [])\<rparr>"

definition hello :: message where
  "hello = setupData 5 6 [1, 2, 3] (zeroMessage\<lparr>ms_sequenceNumber := 9, ms_code := 0x33\<rparr>)"

lemma hello_plain: "plain hello"
proof -
  have "ms_payload hello = (if [1, 2, 3 :: u8] = [] then NullPtr else Borrowed [1, 2, 3]) \<and>
    length [1, 2, 3 :: u8] = unat (ms_length hello)"
    by (simp add: hello_def setupData_def)
  moreover have "message_ok hello" "ms_payloadType hello = MptData"
    by (simp_all add: message_ok_def hello_def setupData_def zeroMessage_def MptData_def)
  ultimately show ?thesis unfolding plain_def by blast
qed

lemma embedded_plain: "plain (setupEmbedded p0 p1 zeroMessage)"
  by (simp add: plain_def message_ok_def setupEmbedded_def zeroMessage_def MptEmbedded_def)

theorem messages_arrive_witness:
  "\<exists>m1 m2 q'. receiveAll noAllocator () 2
      (newPort (ch_out (po_channel (sendAll noAllocator () [hello, setupEmbedded 7 8 zeroMessage] (newPort []))) @ [4])) =
      Some ([m1, m2], q') \<and> ms_code m1 = 0x33 \<and> ms_payload m1 = Malloc [1, 2, 3] \<and> ms_parameter0 m2 = 7 \<and> ch_in (po_channel q') = [4]"
proof -
  let ?ms = "[hello, setupEmbedded 7 8 zeroMessage]"
  have plain: "plain m" if "m \<in> set ?ms" for m
    using that hello_plain embedded_plain by auto
  have "open_channel (po_channel (newPort []))" "ch_out (po_channel (newPort [])) = []"
    by (simp_all add: open_channel_def newPort_def newChannel_def)
  from messages_arrive [where ms = ?ms and rest = "[4]" and al = noAllocator and mem = "()" and al' = noAllocator and mem' = "()"
      and q = "newPort (ch_out (po_channel (sendAll noAllocator () ?ms (newPort []))) @ [4])", OF plain this]
  obtain ms' q' where r: "receiveAll noAllocator () (length ?ms)
      (newPort (ch_out (po_channel (sendAll noAllocator () ?ms (newPort []))) @ [4])) = Some (ms', q')"
      "list_all2 (arrived noAllocator ()) ?ms ms'" "ch_in (po_channel q') = [4]"
    by (auto simp: newPort_def newChannel_def)
  then obtain m1 m2 where "ms' = [m1, m2]" "arrived noAllocator () hello m1" "arrived noAllocator () (setupEmbedded 7 8 zeroMessage) m2"
    by (auto simp: list_all2_Cons1)
  then have "ms_code m1 = 0x33" "ms_payload m1 = Malloc [1, 2, 3]" "ms_parameter0 m2 = 7"
    by (simp_all add: arrived_def sameHeader_def hello_def setupData_def setupEmbedded_def zeroMessage_def payloadBytes_def MptData_def)
  moreover have "length ?ms = 2" by simp
  then have "receiveAll noAllocator () 2
      (newPort (ch_out (po_channel (sendAll noAllocator () ?ms (newPort []))) @ [4])) = Some ([m1, m2], q')"
    using r(1) \<open>ms' = [m1, m2]\<close> by (simp only:)
  ultimately show ?thesis using r(3) by (intro exI conjI)
qed

section \<open>Safety of receiving\<close>

text \<open>A message in which nothing is owned that is not from \<open>malloc\<close>.\<close>

definition owned_ok :: "message \<Rightarrow> bool" where
  "owned_ok m \<longleftrightarrow> ms_payloadType m = MptData \<longrightarrow> ms_payload m = NullPtr \<or> \<not> flagged (ms_localFlags m) LmfAllocationOwner \<or>
     flagged (ms_localFlags m) LmfCustomAllocation \<or> (\<exists>b. ms_payload m = Malloc b)"

lemma discard_ok: "owned_ok m \<Longrightarrow> discardMessage m \<noteq> None"
  by (auto simp: discardMessage_def owned_ok_def Let_def)

lemma failReceive_ok: "owned_ok m \<Longrightarrow> failReceive e m p mem \<noteq> None"
  using discard_ok [of m] by (auto simp: failReceive_def split: option.splits sum.splits prod.splits)

lemma custom_flagged: "flagged (x OR LmfCustomAllocation) LmfCustomAllocation"
  unfolding flagged_def LmfCustomAllocation_def
proof
  assume "(x OR 1) AND 1 = 0"
  moreover have "bit ((x OR 1) AND 1) 0" by (simp add: bit_simps)
  ultimately have "bit (0 :: u8) 0" by (simp only:)
  then show False by simp
qed

definition allocator_ok :: "'m allocator \<Rightarrow> bool" where
  "allocator_ok al \<longleftrightarrow> (\<forall>m mem e. fst (al_alloc al m mem) = Inl e \<longrightarrow> snd (al_alloc al m mem) = None)"

lemma readPayload_safe: "readPayload al address (setAddress address m) p mem \<noteq> None"
proof -
  obtain r bytes ch where ch: "channelReceive (unat (ms_length (setAddress address m))) (po_channel p) = (r, bytes, ch)" by (rule prod_cases3)
  show ?thesis
  proof (cases address)
    case None
    then show ?thesis using ch failReceive_ok [of "m\<lparr>ms_payload := Malloc bytes\<rparr>"]
      by (auto simp: readPayload_def setAddress_def owned_ok_def split: sum.splits)
  next
    case (Some a)
    then show ?thesis
      using ch failReceive_ok [of "m\<lparr>ms_payload := Allocated a, ms_localFlags := ms_localFlags m OR LmfCustomAllocation\<rparr>"] custom_flagged
      by (auto simp: readPayload_def setAddress_def owned_ok_def split: sum.splits)
  qed
qed

lemma receivePayload_safe:
  assumes "allocator_ok al"
  shows "receivePayload al m p mem \<noteq> None"
proof -
  let ?m1 = "m\<lparr>ms_payload := NullPtr, ms_localFlags := ms_localFlags m OR LmfAllocationOwner\<rparr>"
  obtain r address where a: "(if usesAllocator m then al_alloc al ?m1 mem else (Inr (), None)) = (r, address)"
    by (cases "if usesAllocator m then al_alloc al ?m1 mem else (Inr (), None)")
  show ?thesis
  proof (cases r)
    case (Inl e)
    then have "address = None" using a assms by (auto simp: allocator_ok_def split: if_splits) (metis fst_conv snd_conv)
    then show ?thesis using a Inl failReceive_ok [of ?m1] by (simp add: receivePayload_def setAddress_def owned_ok_def)
  next
    case (Inr u)
    then show ?thesis using a readPayload_safe by (simp add: receivePayload_def)
  qed
qed

text \<open>
  Receiving is safe: whatever bytes arrive, and whether or not the connection is lost in between, \<open>_receive\<close>
  never frees memory that is not from \<open>malloc\<close>, as long as a payload allocator that throws has not set an address.
\<close>

lemma receive_safe:
  assumes "allocator_ok al"
  shows "receiveMessage al m0 p mem \<noteq> None"
proof -
  have other: "failReceive e m p1 mem \<noteq> None" if "ms_payloadType m \<noteq> MptData" for e m p1
    using failReceive_ok [of m] that by (simp add: owned_ok_def)
  obtain r bytes ch where ch: "channelReceive MESSAGE_SIZE (po_channel p) = (r, bytes, ch)" by (rule prod_cases3)
  show ?thesis
  proof (cases r)
    case Inl
    then show ?thesis using ch by (simp add: receiveMessage_def)
  next
    case Inr
    obtain r2 ch2 where "channelReceiveHandles ch = (r2, ch2)" by (cases "channelReceiveHandles ch")
    then show ?thesis
      using ch Inr receivePayload_safe [OF assms] other
      by (cases r2) (auto simp: receiveMessage_def Let_def MptHandles_def MptData_def MptEmbedded_def)
  qed
qed

end
