(* ===== verification/Rpc_Dispatch.thy ===== *)
theory Rpc_Dispatch
  imports Rpc_Message Store_Manager Server_Stream Trace_Streams
begin

text \<open>
  The dispatch of requests: the API of \<open>include/simustor/RpcProtocol.h\<close>, the session workers of
  \<open>storageserver/ServerSessionWorker.cpp\<close> with a handler for every request of a session, and the
  requests before there is a session (\<open>storageserver/StorageServer.cpp\<close>), on the server with its stores,
  server streams and stream buffers.
\<close>

section \<open>The API\<close>

definition RPC_VER :: "u16 \<Rightarrow> u16 \<Rightarrow> u16" where
  "RPC_VER major minor = push_bit 8 (major AND 0xFF) OR (minor AND 0xFF)"

definition RPC_VERSION :: u16 where "RPC_VERSION = RPC_VER 3 2"

definition RPC_VER_AND_CODE :: "u16 \<Rightarrow> u16 \<Rightarrow> u32" where
  "RPC_VER_AND_CODE ver code = push_bit 16 (ucast ver) OR ucast code"

definition CCV30 :: "u16 \<Rightarrow> u32" where "CCV30 code = RPC_VER_AND_CODE (RPC_VER 3 0) code"
definition CCV31 :: "u16 \<Rightarrow> u32" where "CCV31 code = RPC_VER_AND_CODE (RPC_VER 3 1) code"
definition CCV32 :: "u16 \<Rightarrow> u32" where "CCV32 code = RPC_VER_AND_CODE (RPC_VER 3 2) code"

definition CCV32_StreamAppend :: u32 where "CCV32_StreamAppend = CCV32 0x0033"
definition CCV32_StreamClose :: u32 where "CCV32_StreamClose = CCV32 0x0035"
definition CCV30_StreamCloseAndOpen :: u32 where "CCV30_StreamCloseAndOpen = CCV30 0x0034"

text \<open>The handlers, and the maps from the codes to them.\<close>

datatype session_call =
    SessionClose | SessionSetConfiguration | StoreCreate | StoreClose
  | StreamBufferRegister | StreamBufferEnumerate | StreamBufferQuery
  | StreamRegister | StreamEnumerate | StreamQuery | StreamAppend | StreamCloseAndOpen | StreamClose

definition sessionHandlers :: "(u32 \<times> session_call) list" where
  "sessionHandlers =
     [(CCV32 0x0013, SessionClose), (CCV32 0x0014, SessionSetConfiguration),
      (CCV32 0x0020, StoreCreate), (CCV32 0x0021, StoreClose),
      (CCV32 0x0022, StreamBufferRegister), (CCV32 0x0023, StreamBufferEnumerate), (CCV32 0x0024, StreamBufferQuery),
      (CCV32 0x0030, StreamRegister), (CCV31 0x0031, StreamEnumerate), (CCV32 0x0131, StreamEnumerate),
      (CCV32 0x0032, StreamQuery), (CCV32_StreamAppend, StreamAppend),
      (CCV30_StreamCloseAndOpen, StreamCloseAndOpen), (CCV32 0x0134, StreamCloseAndOpen),
      (CCV32_StreamClose, StreamClose)]"

datatype server_call = PeekVersion | EnumerateSessions | SessionCreate | SessionOpen | SessionQuery

definition serverHandlers :: "(u32 \<times> server_call) list" where
  "serverHandlers =
     [(CCV32 0x0000, PeekVersion), (CCV32 0x0001, EnumerateSessions),
      (CCV32 0x0010, SessionCreate), (CCV32 0x0011, SessionOpen), (CCV32 0x0012, SessionQuery)]"

text \<open>
  The payload that the handlers test for; the handler of \<open>StreamEnumerate\<close> uses the test of
  \<open>StreamBufferEnumerate\<close>.
\<close>

definition sizeof_StreamOpenQuery :: nat where "sizeof_StreamOpenQuery = 24"

fun requestPayload :: "session_call \<Rightarrow> u8 \<times> nat" where
  "requestPayload SessionSetConfiguration = (MptData, 0)"
| "requestPayload StoreCreate = (MptData, 0)"
| "requestPayload StreamRegister = (MptData, sizeof_StreamDescriptor)"
| "requestPayload StreamAppend = (MptData, 0)"
| "requestPayload StreamCloseAndOpen = (MptData, sizeof_StreamOpenQuery)"
| "requestPayload StreamClose = (MptData, 0)"
| "requestPayload _ = (MptEmbedded, 0)"

text \<open>\<open>StreamOpenQuery\<close> with its padding, and the ids of an enumeration.\<close>

definition queryType :: "u32 \<Rightarrow> QueryIndexType" where
  "queryType t =
     (if t = 0 then QTree QIndex else if t = 1 then QTree QCycleCount else if t = 2 then QTree QRealTime
      else if t = 3 then QSequenceNumber else if t = 4 then QNextValidSequenceNumber
      else if t = 5 then QPreviousValidSequenceNumber else QUserIndex (unat t - 6))"

definition query_read :: "u8 list \<Rightarrow> QueryIndexType \<times> u64 \<times> u32" where
  "query_read bs = (queryType (of_nat (field bs 0 4)), of_nat (field bs 8 8), of_nat (field bs 16 4))"

definition ids_bytes :: "u32 list \<Rightarrow> u8 list" where
  "ids_bytes ids = concat (map (\<lambda>i. le 4 (unat i)) ids)"

definition text_read :: "u8 list \<Rightarrow> string" where
  "text_read bs = map (\<lambda>b. char_of (unat b)) bs"

definition range_bytes :: "Range \<Rightarrow> u8 list" where
  "range_bytes r = le 8 (unat (rg_start r)) @ le 8 (unat (rg_end r))"

definition information_bytes :: "StreamDescriptor \<Rightarrow> StreamStatistics \<Rightarrow> u8 list" where
  "information_bytes d t =
     descriptor_bytes d @ le 8 (unat (st_compressedSize t)) @ le 8 (unat (st_entryCount t)) @
     le 8 (unat (st_rawEntryCount t)) @ range_bytes (ri_index (st_ranges t)) @
     range_bytes (ri_cycle (st_ranges t)) @ range_bytes (ri_time (st_ranges t))"

section \<open>Stream buffers and the server\<close>

text \<open>A stream buffer of the server: its layout, its handle, and the buffer.\<close>

record memory =
  mm_geometry :: stream_buffer
  mm_handle :: nat
  mm_buffer :: server_buffer

definition control_bytes :: "SegmentControlElement \<Rightarrow> u8 list" where
  "control_bytes c =
     le 8 (unat (ce_cookie c)) @ le 4 (unat (ln_stream (ce_link c))) @ le 4 (unat (ln_sequenceNumber (ce_link c))) @
     le 4 (unat (ce_entryCount c)) @ le 4 (unat (ce_rawEntryCount c)) @ le 8 (unat (ce_startIndex c)) @
     le 8 (unat (ce_endCycle c)) @ le 8 (unat (ce_startCycle c)) @ le 8 (unat (ce_endTime c)) @ le 8 (unat (ce_startTime c))"

definition control_read :: "u8 list \<Rightarrow> SegmentControlElement" where
  "control_read bs =
     \<lparr>ce_cookie = of_nat (field bs 0 8),
      ce_link = \<lparr>ln_stream = of_nat (field bs 8 4), ln_sequenceNumber = of_nat (field bs 12 4)\<rparr>,
      ce_entryCount = of_nat (field bs 16 4), ce_rawEntryCount = of_nat (field bs 20 4),
      ce_startIndex = of_nat (field bs 24 8), ce_endCycle = of_nat (field bs 32 8), ce_startCycle = of_nat (field bs 40 8),
      ce_endTime = of_nat (field bs 48 8), ce_startTime = of_nat (field bs 56 8)\<rparr>"

text \<open>A segment as a payload: the data, and the control element behind them.\<close>

definition segmentPayload :: "nat \<Rightarrow> server_buffer \<Rightarrow> u8 list" where
  "segmentPayload seg b = sv_data b seg @ control_bytes (sv_ctrl b seg)"

definition writePayload :: "nat \<Rightarrow> u8 list \<Rightarrow> server_buffer \<Rightarrow> server_buffer" where
  "writePayload seg bytes b =
     (let n = length (sv_data b seg); new = bytes @ drop (length bytes) (segmentPayload seg b)
      in b\<lparr>sv_data := (sv_data b)(seg := take n new), sv_ctrl := (sv_ctrl b)(seg := control_read (drop n new))\<rparr>)"

definition getSegmentAsPayload :: "stream_buffer \<Rightarrow> nat option \<Rightarrow> (u64 \<times> u64) res" where
  "getSegmentAsPayload b segment =
     (case getSegment b (case segment of None \<Rightarrow> INVALID_SEGMENT_ID | Some i \<Rightarrow> of_nat i) of
        Inl e \<Rightarrow> Inl e
      | Inr p \<Rightarrow> Inr (p, bf_segmentSize b + of_nat sizeof_SegmentControlElement))"

text \<open>The server with the memory pool for the streams of the server itself.\<close>

type_synonym 'f trace_store = "(memory, server_stream, 'f) server_store"

record 'f world =
  wd_server :: "(memory, server_stream, 'f) server"
  wd_pool :: memory

definition setStore :: "u32 \<Rightarrow> 'f trace_store \<Rightarrow> 'f world \<Rightarrow> 'f world" where
  "setStore k st w =
     (let sv = wd_server w; mg = sy_manager sv in
      case map_of (mg_stores mg) k of
        None \<Rightarrow> w
      | Some r \<Rightarrow> w\<lparr>wd_server := sv\<lparr>sy_manager := setReference k (r\<lparr>rf_store := Some st\<rparr>) mg\<rparr>\<rparr>)"

definition getMemory :: "u32 \<Rightarrow> 'f trace_store \<Rightarrow> 'f world \<Rightarrow> memory" where
  "getMemory buffer st w =
     (if buffer = SERVER_BUFFER_ID then wd_pool w else the (map_of (sr_buffers st) buffer))"

text \<open>The store \<open>st\<close> and the content of one of its buffers.\<close>

definition saveStore :: "u32 \<Rightarrow> server_buffer \<Rightarrow> u32 \<Rightarrow> 'f trace_store \<Rightarrow> 'f world \<Rightarrow> 'f world" where
  "saveStore buffer b k st w =
     (if buffer = SERVER_BUFFER_ID then setStore k st (w\<lparr>wd_pool := (wd_pool w)\<lparr>mm_buffer := b\<rparr>\<rparr>)
      else setStore k (st\<lparr>sr_buffers := mapPut buffer ((getMemory buffer st w)\<lparr>mm_buffer := b\<rparr>) (sr_buffers st)\<rparr>) w)"

section \<open>Sessions\<close>

text \<open>\<open>libsimustor/Session.cpp\<close>: what forwards to the store of the session.\<close>

definition sessionStore :: "u32 \<Rightarrow> 'f world \<Rightarrow> (u32 \<times> 'f trace_store) res" where
  "sessionStore i w =
     (case map_of (sy_sessions (wd_server w)) i of
        None \<Rightarrow> Inl InvalidOperationException
      | Some x \<Rightarrow>
          (case es_store x of
             None \<Rightarrow> Inl InvalidOperationException
           | Some k \<Rightarrow> (case getStore k (sy_manager (wd_server w)) of Inl e \<Rightarrow> Inl e | Inr st \<Rightarrow> Inr (k, st))))"

definition withStore :: "u32 \<Rightarrow> ('f trace_store \<Rightarrow> 'a res \<times> 'f trace_store) \<Rightarrow> 'f world \<Rightarrow> 'a res \<times> 'f world" where
  "withStore i f w =
     (case sessionStore i w of
        Inl e \<Rightarrow> (Inl e, w)
      | Inr (k, st) \<Rightarrow> (case f st of (r, st1) \<Rightarrow> (r, setStore k st1 w)))"

definition sessionRegisterStreamBuffer ::
  "(memory, server_stream, 'f) store_env \<Rightarrow> u32 \<Rightarrow> nat \<Rightarrow> u32 \<Rightarrow> 'f world \<Rightarrow> u32 res \<times> 'f world" where
  "sessionRegisterStreamBuffer env i segSize numSegments w =
     withStore i (registerStreamBuffer (createStreamBuffer env segSize numSegments)) w"

definition sessionRegisterStream ::
  "(memory, server_stream, 'f) store_env \<Rightarrow> u32 \<Rightarrow> StreamDescriptor \<Rightarrow> u32 \<Rightarrow> 'f world \<Rightarrow> u32 res \<times> 'f world" where
  "sessionRegisterStream env i desc buffer w =
     withStore i (registerStream (createStream env) INVALID_STREAM_ID desc buffer) w"

definition sessionEnumerateStreamBuffers :: "u32 \<Rightarrow> 'f world \<Rightarrow> u32 list res" where
  "sessionEnumerateStreamBuffers i w = map_sum id (\<lambda>(k, st). keys (sr_buffers st)) (sessionStore i w)"

definition sessionEnumerateStreams :: "u32 \<Rightarrow> u32 \<Rightarrow> 'f world \<Rightarrow> u32 list res" where
  "sessionEnumerateStreams i filt w = map_sum id (\<lambda>(k, st). map so_id (enumerateStreams filt st)) (sessionStore i w)"

definition sessionGetStreamBuffer :: "u32 \<Rightarrow> u32 \<Rightarrow> 'f world \<Rightarrow> memory res" where
  "sessionGetStreamBuffer i buffer w =
     (case sessionStore i w of Inl e \<Rightarrow> Inl e | Inr (k, st) \<Rightarrow> getStreamBuffer buffer st)"

text \<open>
  A stream is looked up together with the buffer its segments are in, and both are put back when it was used.
\<close>

definition sessionGetStream :: "u32 \<Rightarrow> u32 \<Rightarrow> 'f world \<Rightarrow> (u32 \<times> server_stream stream_object) res" where
  "sessionGetStream i sid w =
     (case sessionStore i w of
        Inl e \<Rightarrow> Inl e
      | Inr (k, st) \<Rightarrow>
          (case getStream sid st of
             Inl e \<Rightarrow> Inl e
           | Inr x \<Rightarrow> Inr (k, x\<lparr>so_stream := (so_stream x)\<lparr>ss_buffer := mm_buffer (getMemory (so_bufferId x) st w)\<rparr>\<rparr>)))"

definition putStream :: "u32 \<Rightarrow> server_stream stream_object \<Rightarrow> server_stream \<Rightarrow> 'f world \<Rightarrow> 'f world" where
  "putStream k x s w =
     (case getStore k (sy_manager (wd_server w)) of
        Inl _ \<Rightarrow> w
      | Inr st \<Rightarrow>
          saveStore (so_bufferId x) (ss_buffer s) k
            (st\<lparr>sr_streams := mapPut (so_id x) (x\<lparr>so_stream := s\<rparr>) (sr_streams st)\<rparr>) w)"

definition sessionApplySetting :: "(string \<Rightarrow> unit res) \<Rightarrow> u32 \<Rightarrow> string \<Rightarrow> 'f world \<Rightarrow> unit res" where
  "sessionApplySetting applyText i setting w =
     (case map_of (sy_sessions (wd_server w)) i of
        None \<Rightarrow> Inl InvalidOperationException
      | Some x \<Rightarrow> throwOn (\<not> es_isAlive x) InvalidOperationException (applyText setting))"

end
