(* ===== verification/Session_Worker.thy ===== *)
theory Session_Worker
  imports Rpc_Dispatch
begin

text \<open>
  The worker thread of a session (\<open>storageserver/ServerSessionWorker.cpp\<close>): the payload allocator, which lets
  segments be received in place, the handlers, and the loop that serves requests. \<open>None\<close> is
  undefined behaviour or a call that waits for ever.
\<close>

section \<open>The payload allocator\<close>

definition peerApiVersion :: "u32 \<Rightarrow> 'f world \<Rightarrow> u16" where
  "peerApiVersion i w = es_peerApiVersion (the (map_of (sy_sessions (wd_server w)) i))"

text \<open>A buffer of a store, and its layout.\<close>

definition memoryAt :: "u32 \<Rightarrow> u32 \<Rightarrow> 'f world \<Rightarrow> server_buffer" where
  "memoryAt k buffer w = mm_buffer (getMemory buffer (projr (getStore k (sy_manager (wd_server w)))) w)"

definition geometryAt :: "u32 \<Rightarrow> u32 \<Rightarrow> 'f world \<Rightarrow> stream_buffer" where
  "geometryAt k buffer w = mm_geometry (getMemory buffer (projr (getStore k (sy_manager (wd_server w)))) w)"

text \<open>
  \<open>_messagePayloadAllocator\<close>. The address is set before the length is tested. \<open>getBufferMapping\<close> gives the invalid
  id for a segment that is not in the buffer.
\<close>

definition segmentOfMessage :: "u32 \<Rightarrow> u32 \<Rightarrow> message \<Rightarrow> 'f world \<Rightarrow> unit res \<times> address option" where
  "segmentOfMessage i code m w =
     (case sessionGetStream i (ms_parameter0 m) w of
        Inl e \<Rightarrow> (Inl e, None)
      | Inr (k, x) \<Rightarrow>
          (let s = so_stream x;
               sqn = (if code = CCV32_StreamAppend then ss_lastAppendSequenceNumber s else ms_parameter1 m);
               seg = getBufferMapping sqn s in
           case getSegmentAsPayload (geometryAt k (so_bufferId x) w) seg of
             Inl e \<Rightarrow> (Inl e, None)
           | Inr (p, maxSize) \<Rightarrow>
               (if ucast (ms_length m) \<noteq> maxSize then Inl RpcMessageMalformedException else Inr (),
                map_option (\<lambda>n. (k, so_bufferId x, n)) seg)))"

definition messagePayloadAllocator :: "u32 \<Rightarrow> message \<Rightarrow> 'f world \<Rightarrow> unit res \<times> address option" where
  "messagePayloadAllocator i m w =
     (let code = RPC_VER_AND_CODE (peerApiVersion i w) (ms_code m) in
      if code = CCV32_StreamAppend \<or> code = CCV32_StreamClose then
        (if \<not> testMessage MptData 0 m then (Inl RpcMessageMalformedException, None) else segmentOfMessage i code m w)
      else (Inr (), None))"

definition workerAllocator :: "u32 \<Rightarrow> 'f world allocator" where
  "workerAllocator i =
     \<lparr>al_alloc = messagePayloadAllocator i,
      al_write = (\<lambda>(k, buffer, seg) bytes w.
        saveStore buffer (writePayload seg bytes (memoryAt k buffer w)) k (projr (getStore k (sy_manager (wd_server w)))) w),
      al_read = (\<lambda>(k, buffer, seg) n w. take n (segmentPayload seg (memoryAt k buffer w)))\<rparr>"

section \<open>The context of a handler\<close>

text \<open>
  What a handler gets from outside: how stores, buffers and streams are made and closed, what the streams
  meet, the library that applies settings, the statistics from the encoder, the texts and codes of
  exceptions.
\<close>

record 'f handler_env =
  hv_store :: "(memory, server_stream, 'f) store_env"
  hv_manager :: "(memory, server_stream, 'f) manager_env"
  hv_request :: request_env
  hv_close :: close_env
  hv_open :: stream_env
  hv_cleanup :: close_env
  hv_now :: u64
  hv_apply :: "string \<Rightarrow> unit res"
  hv_statistics :: "server_stream \<Rightarrow> StreamStatistics"
  hv_what :: "exn \<Rightarrow> u8 list"
  hv_error :: "exn \<Rightarrow> u32 \<times> u32"

text \<open>The worker: its session, its wait context, and whether the channel transfers handles.\<close>

record worker =
  wk_session :: u32
  wk_wait :: nat
  wk_shared :: bool

text \<open>What a handler works on: the message, the port, the server, and whether the worker shall stop.\<close>

record 'f call_state =
  cs_message :: message
  cs_port :: port
  cs_world :: "'f world"
  cs_stop :: bool

text \<open>A handler tells whether the loop has to send the response.\<close>

type_synonym 'f handled = "(bool res \<times> 'f call_state) option"

definition payloadOf :: "worker \<Rightarrow> 'f call_state \<Rightarrow> u8 list" where
  "payloadOf wk cs = payloadBytes (workerAllocator (wk_session wk)) (cs_message cs) (cs_world cs)"

definition respond :: "worker \<Rightarrow> u16 \<Rightarrow> reply \<Rightarrow> 'f call_state \<Rightarrow> (unit res \<times> 'f call_state) option" where
  "respond wk status r cs =
     (case retReply (workerAllocator (wk_session wk)) (cs_world cs) status r (cs_message cs) (cs_port cs) of
        None \<Rightarrow> None
      | Some (res, m, p) \<Rightarrow> Some (res, cs\<lparr>cs_message := m, cs_port := p\<rparr>))"

definition respondOnly :: "worker \<Rightarrow> reply \<Rightarrow> 'f call_state \<Rightarrow> 'f handled" where
  "respondOnly wk r cs = map_option (\<lambda>(res, cs1). (map_sum id (\<lambda>_. False) res, cs1)) (respond wk SC_Success r cs)"

section \<open>Sessions and stores\<close>

definition handleSessionClose :: "'f call_state \<Rightarrow> 'f handled" where
  "handleSessionClose cs = Some (Inr True, cs\<lparr>cs_stop := True\<rparr>)"

definition handleSessionSetConfiguration :: "'f handler_env \<Rightarrow> worker \<Rightarrow> 'f call_state \<Rightarrow> 'f handled" where
  "handleSessionSetConfiguration env wk cs =
     Some (map_sum id (\<lambda>_. True)
             (sessionApplySetting (hv_apply env) (wk_session wk) (text_read (payloadOf wk cs)) (cs_world cs)), cs)"

definition withServer ::
  "((memory, server_stream, 'f) server \<Rightarrow> unit res \<times> (memory, server_stream, 'f) server) \<Rightarrow> 'f call_state \<Rightarrow> 'f handled" where
  "withServer f cs =
     (case f (wd_server (cs_world cs)) of
        (r, sv) \<Rightarrow> Some (map_sum id (\<lambda>_. True) r, cs\<lparr>cs_world := (cs_world cs)\<lparr>wd_server := sv\<rparr>\<rparr>))"

definition handleStoreCreate :: "'f handler_env \<Rightarrow> worker \<Rightarrow> 'f call_state \<Rightarrow> 'f handled" where
  "handleStoreCreate env wk cs =
     (let alwaysCreate = ms_parameter0 (cs_message cs) = 1;
          opening = ms_parameter1 (cs_message cs) = 1;
          specifier = text_read (payloadOf wk cs) in
      withServer
        (if opening then sessionOpenStore (hv_manager env) specifier False True (wk_session wk)
         else sessionOpenStore (hv_manager env) specifier alwaysCreate False (wk_session wk)) cs)"

definition handleStoreClose :: "'f handler_env \<Rightarrow> worker \<Rightarrow> 'f call_state \<Rightarrow> 'f handled" where
  "handleStoreClose env wk cs = withServer (sessionCloseStore (hv_manager env) (hv_now env) (wk_session wk)) cs"

section \<open>Stream buffers\<close>

text \<open>\<open>embedded.parameter1\<close> is the 64-bit parameter.\<close>

definition embeddedParameter1 :: "message \<Rightarrow> u64" where
  "embeddedParameter1 m = push_bit 32 (ucast (ms_length m)) OR ucast (ms_parameter1 m)"

definition handleStreamBufferRegister :: "'f handler_env \<Rightarrow> worker \<Rightarrow> 'f call_state \<Rightarrow> 'f handled" where
  "handleStreamBufferRegister env wk cs =
     (let m = cs_message cs in
      case sessionRegisterStreamBuffer (hv_store env) (wk_session wk) (unat (embeddedParameter1 m)) (ms_parameter0 m) (cs_world cs) of
        (Inl e, w) \<Rightarrow> Some (Inl e, cs\<lparr>cs_world := w\<rparr>)
      | (Inr rid, w) \<Rightarrow>
          if wk_shared wk then
            (case sessionGetStreamBuffer (wk_session wk) rid w of
               Inl e \<Rightarrow> Some (Inl e, cs\<lparr>cs_world := w\<rparr>)
             | Inr mm \<Rightarrow> respondOnly wk (ReplyHandles [mm_handle mm] rid 0) (cs\<lparr>cs_world := w\<rparr>))
          else respondOnly wk (ReplyEmbedded rid 0) (cs\<lparr>cs_world := w\<rparr>))"

definition handleStreamBufferEnumerate :: "worker \<Rightarrow> 'f call_state \<Rightarrow> 'f handled" where
  "handleStreamBufferEnumerate wk cs =
     (case sessionEnumerateStreamBuffers (wk_session wk) (cs_world cs) of
        Inl e \<Rightarrow> Some (Inl e, cs)
      | Inr ids \<Rightarrow> respondOnly wk (ReplyData (ids_bytes ids) (of_nat (length ids)) 0) cs)"

definition handleStreamBufferQuery :: "worker \<Rightarrow> 'f call_state \<Rightarrow> 'f handled" where
  "handleStreamBufferQuery wk cs =
     (case sessionGetStreamBuffer (wk_session wk) (ms_parameter0 (cs_message cs)) (cs_world cs) of
        Inl e \<Rightarrow> Some (Inl e, cs)
      | Inr mm \<Rightarrow>
          (let n = bf_numSegments (mm_geometry mm); sz = ucast (bf_segmentSize (mm_geometry mm)) :: u32 in
           if wk_shared wk then respondOnly wk (ReplyHandles [mm_handle mm] n sz) cs
           else respondOnly wk (ReplyEmbedded n (ucast sz)) cs))"

section \<open>Streams\<close>

definition handleStreamRegister :: "'f handler_env \<Rightarrow> worker \<Rightarrow> 'f call_state \<Rightarrow> 'f handled" where
  "handleStreamRegister env wk cs =
     (let desc = (descriptor_read (payloadOf wk cs))\<lparr>sd_flags := SfNone\<rparr> in
      case sessionRegisterStream (hv_store env) (wk_session wk) desc (ms_parameter0 (cs_message cs)) (cs_world cs) of
        (Inl e, w) \<Rightarrow> Some (Inl e, cs\<lparr>cs_world := w\<rparr>)
      | (Inr rid, w) \<Rightarrow> respondOnly wk (ReplyEmbedded rid 0) (cs\<lparr>cs_world := w\<rparr>))"

definition handleStreamEnumerate :: "worker \<Rightarrow> 'f call_state \<Rightarrow> 'f handled" where
  "handleStreamEnumerate wk cs =
     (case sessionEnumerateStreams (wk_session wk) SefRegular (cs_world cs) of
        Inl e \<Rightarrow> Some (Inl e, cs)
      | Inr ids \<Rightarrow> respondOnly wk (ReplyData (ids_bytes ids) (of_nat (length ids)) 0) cs)"

definition handleStreamQuery :: "'f handler_env \<Rightarrow> worker \<Rightarrow> 'f call_state \<Rightarrow> 'f handled" where
  "handleStreamQuery env wk cs =
     (case sessionGetStream (wk_session wk) (ms_parameter0 (cs_message cs)) (cs_world cs) of
        Inl e \<Rightarrow> Some (Inl e, cs)
      | Inr (k, x) \<Rightarrow>
          respondOnly wk (ReplyData (information_bytes (so_desc x) (hv_statistics env (so_stream x))) (so_bufferId x) 0) cs)"

definition segmentNumber :: "nat option \<Rightarrow> u32" where
  "segmentNumber seg = (case seg of None \<Rightarrow> INVALID_SEGMENT_ID | Some n \<Rightarrow> of_nat n)"

text \<open>The response of an operation that got a segment; if it can not be sent, the segment is closed again.\<close>

definition respondOrClose ::
  "'f handler_env \<Rightarrow> worker \<Rightarrow> u32 \<Rightarrow> server_stream stream_object \<Rightarrow> u32 \<Rightarrow> reply \<Rightarrow> 'f call_state \<Rightarrow> 'f handled" where
  "respondOrClose env wk k x sqn r cs =
     (case respondOnly wk r cs of
        None \<Rightarrow> None
      | Some (Inr b, cs1) \<Rightarrow> Some (Inr b, cs1)
      | Some (Inl e, cs1) \<Rightarrow>
          (case close (hv_cleanup env) (wk_session wk) sqn None True (so_stream x) of
             (r1, s1) \<Rightarrow>
               Some (case r1 of Inl e1 \<Rightarrow> Inl e1 | Inr _ \<Rightarrow> Inl e, cs1\<lparr>cs_world := putStream k x s1 (cs_world cs1)\<rparr>)))"

definition handleStreamAppend :: "'f handler_env \<Rightarrow> worker \<Rightarrow> 'f call_state \<Rightarrow> 'f handled" where
  "handleStreamAppend env wk cs =
     (case sessionGetStream (wk_session wk) (ms_parameter0 (cs_message cs)) (cs_world cs) of
        Inl e \<Rightarrow> Some (Inl e, cs)
      | Inr (k, x) \<Rightarrow>
          (case append (hv_request env) (hv_close env) (wk_session wk) None (so_stream x) of
             (r, s) \<Rightarrow>
               (let cs1 = cs\<lparr>cs_world := putStream k x s (cs_world cs)\<rparr> in
                case r of
                  Inl e \<Rightarrow> Some (Inl e, cs1)
                | Inr (sqn, seg) \<Rightarrow>
                    respondOrClose env wk k (x\<lparr>so_stream := s\<rparr>) sqn
                      (ReplyData (if wk_shared wk \<or> seg = None then [] else control_bytes (sv_ctrl (ss_buffer s) (the seg)))
                         sqn (segmentNumber seg)) cs1)))"

text \<open>
  \<open>_handleStreamCloseAndOpen\<close>: the close, then the open with the wait context of the worker. In the response of
  version 3.0 is the sequence number instead of the offset.
\<close>

definition closeFirst :: "'f handler_env \<Rightarrow> worker \<Rightarrow> u32 \<Rightarrow> server_stream \<Rightarrow> unit res \<times> server_stream" where
  "closeFirst env wk closeSqn s =
     (if closeSqn \<noteq> INVALID_STREAM_SEGMENT_ID then close (hv_close env) (wk_session wk) closeSqn None False s else (Inr (), s))"

definition resetWait :: "nat \<Rightarrow> server_stream \<Rightarrow> server_stream" where
  "resetWait n s = s\<lparr>ss_waits := (ss_waits s)(n := \<lparr>wc_count = 0, wc_errors = []\<rparr>)\<rparr>"

definition openReply :: "worker \<Rightarrow> u32 \<Rightarrow> u32 \<Rightarrow> nat option \<Rightarrow> u64 option \<Rightarrow> server_stream \<Rightarrow> reply" where
  "openReply wk code sqn seg offset s =
     (let bytes = (if wk_shared wk \<or> seg = None then [] else segmentPayload (the seg) (ss_buffer s)) in
      if code = CCV30_StreamCloseAndOpen then ReplyData bytes sqn (segmentNumber seg)
      else ReplyData bytes (segmentNumber seg) (ucast (the offset)))"

definition handleStreamCloseAndOpen :: "'f handler_env \<Rightarrow> worker \<Rightarrow> u32 \<Rightarrow> 'f call_state \<Rightarrow> 'f handled" where
  "handleStreamCloseAndOpen env wk code cs =
     (case sessionGetStream (wk_session wk) (ms_parameter0 (cs_message cs)) (cs_world cs) of
        Inl e \<Rightarrow> Some (Inl e, cs)
      | Inr (k, x) \<Rightarrow>
          (case closeFirst env wk (ms_parameter1 (cs_message cs)) (so_stream x) of
             (Inl e, s) \<Rightarrow> Some (Inl e, cs\<lparr>cs_world := putStream k x s (cs_world cs)\<rparr>)
           | (Inr _, s) \<Rightarrow>
               (case query_read (payloadOf wk cs) of
                  (type, val, flags) \<Rightarrow>
                    (case openStream (hv_open env) (wk_session wk) type val (flags OR SafSynchronous) True (Some (wk_wait wk))
                            (resetWait (wk_wait wk) s) of
                       (None, _) \<Rightarrow> None
                     | (Some (Inl e), s1) \<Rightarrow> Some (Inl e, cs\<lparr>cs_world := putStream k x s1 (cs_world cs)\<rparr>)
                     | (Some (Inr (sqn, seg, offset)), s1) \<Rightarrow>
                         respondOrClose env wk k (x\<lparr>so_stream := s1\<rparr>) sqn (openReply wk code sqn seg offset s1)
                           (cs\<lparr>cs_world := putStream k x s1 (cs_world cs)\<rparr>)))))"

definition handleStreamClose :: "'f handler_env \<Rightarrow> worker \<Rightarrow> 'f call_state \<Rightarrow> 'f handled" where
  "handleStreamClose env wk cs =
     (case sessionGetStream (wk_session wk) (ms_parameter0 (cs_message cs)) (cs_world cs) of
        Inl e \<Rightarrow> Some (Inl e, cs)
      | Inr (k, x) \<Rightarrow>
          (case close (hv_close env) (wk_session wk) (ms_parameter1 (cs_message cs)) None False (so_stream x) of
             (r, s) \<Rightarrow> Some (map_sum id (\<lambda>_. True) r, cs\<lparr>cs_world := putStream k x s (cs_world cs)\<rparr>)))"

section \<open>Serving requests\<close>

definition callHandler :: "'f handler_env \<Rightarrow> worker \<Rightarrow> u32 \<Rightarrow> session_call \<Rightarrow> 'f call_state \<Rightarrow> 'f handled" where
  "callHandler env wk code call cs =
     (case call of
        SessionClose \<Rightarrow> handleSessionClose cs
      | SessionSetConfiguration \<Rightarrow> handleSessionSetConfiguration env wk cs
      | StoreCreate \<Rightarrow> handleStoreCreate env wk cs
      | StoreClose \<Rightarrow> handleStoreClose env wk cs
      | StreamBufferRegister \<Rightarrow> handleStreamBufferRegister env wk cs
      | StreamBufferEnumerate \<Rightarrow> handleStreamBufferEnumerate wk cs
      | StreamBufferQuery \<Rightarrow> handleStreamBufferQuery wk cs
      | StreamRegister \<Rightarrow> handleStreamRegister env wk cs
      | StreamEnumerate \<Rightarrow> handleStreamEnumerate wk cs
      | StreamQuery \<Rightarrow> handleStreamQuery env wk cs
      | StreamAppend \<Rightarrow> handleStreamAppend env wk cs
      | StreamCloseAndOpen \<Rightarrow> handleStreamCloseAndOpen env wk code cs
      | StreamClose \<Rightarrow> handleStreamClose env wk cs)"

text \<open>The inner \<open>try\<close> up to its handlers: \<open>TEST_REQUEST\<close>, the handler, and the response if it is left to the loop.\<close>

definition dispatch :: "'f handler_env \<Rightarrow> worker \<Rightarrow> u32 \<Rightarrow> 'f call_state \<Rightarrow> (unit res \<times> 'f call_state) option" where
  "dispatch env wk code cs =
     (case map_of sessionHandlers code of
        None \<Rightarrow> Some (Inl NotSupportedException, cs)
      | Some call \<Rightarrow>
          if \<not> testMessage (fst (requestPayload call)) (snd (requestPayload call)) (cs_message cs)
          then Some (Inl RpcMessageMalformedException, cs)
          else
            (case callHandler env wk code call cs of
               None \<Rightarrow> None
             | Some (Inl e, cs1) \<Rightarrow> Some (Inl e, cs1)
             | Some (Inr True, cs1) \<Rightarrow> respond wk SC_Success (ReplyEmbedded 0 0) cs1
             | Some (Inr False, cs1) \<Rightarrow> Some (Inr (), cs1)))"

text \<open>An iteration of the loop goes on or returns from the thread.\<close>

datatype iteration = Continue | Return int

definition leave :: "int \<Rightarrow> 'f call_state \<Rightarrow> iteration" where
  "leave r cs = Return (if cs_stop cs then 0 else r)"

definition serveRequest :: "'f handler_env \<Rightarrow> worker \<Rightarrow> 'f call_state \<Rightarrow> (iteration \<times> 'f call_state) option" where
  "serveRequest env wk cs =
     (case waitRequest (workerAllocator (wk_session wk)) (zeroMessage\<lparr>ms_allocator := \<not> wk_shared wk\<rparr>) (cs_port cs) (cs_world cs) of
        None \<Rightarrow> None
      | Some (r, m, p, w) \<Rightarrow>
          (let cs1 = cs\<lparr>cs_message := m, cs_port := p, cs_world := w\<rparr> in
           case r of
             Inl e \<Rightarrow> Some (leave (-1) cs1, cs1)
           | Inr _ \<Rightarrow>
               (case dispatch env wk (RPC_VER_AND_CODE (peerApiVersion (wk_session wk) w) (ms_code m)) cs1 of
                  None \<Rightarrow> None
                | Some (Inr _, cs2) \<Rightarrow> Some (Continue, cs2)
                | Some (Inl e, cs2) \<Rightarrow>
                    if e = SocketException \<or> e = StdException \<or> cs_stop cs2 then Some (leave (-1) cs2, cs2)
                    else
                      (case respond wk SC_Failed (ReplyData (hv_what env e) (fst (hv_error env e)) (snd (hv_error env e))) cs2 of
                         None \<Rightarrow> None
                       | Some (Inr _, cs3) \<Rightarrow> Some (Continue, cs3)
                       | Some (Inl e1, cs3) \<Rightarrow> Some (leave (-1) cs3, cs3)))))"

text \<open>
  The processing loop; \<open>env n\<close> is what the n-th request meets, and the fuel bounds the requests. The thread
  returns, or a request is undefined or never comes back (\<open>Stuck\<close>), or the loop is not at its end yet.
\<close>

datatype 'f run_result = Returned int "'f call_state" | Stuck | OutOfFuel

fun runWorker :: "nat \<Rightarrow> (nat \<Rightarrow> 'f handler_env) \<Rightarrow> nat \<Rightarrow> worker \<Rightarrow> 'f call_state \<Rightarrow> 'f run_result" where
  "runWorker fuel env n wk cs =
     (if cs_stop cs then Returned 0 cs
      else
        (case fuel of
           0 \<Rightarrow> OutOfFuel
         | Suc fuel1 \<Rightarrow>
             (case serveRequest (env n) wk cs of
                None \<Rightarrow> Stuck
              | Some (Return r, cs1) \<Rightarrow> Returned r cs1
              | Some (Continue, cs1) \<Rightarrow> runWorker fuel1 env (Suc n) wk cs1)))"

declare runWorker.simps [simp del]

definition acknowledgeSessionCreate :: "worker \<Rightarrow> 'f call_state \<Rightarrow> unit res \<times> 'f call_state" where
  "acknowledgeSessionCreate wk cs =
     (let m = (setupEmpty zeroMessage)\<lparr>ms_sequenceNumber := po_lastSequenceNumber (cs_port cs), ms_code := SC_Success,
                ms_parameter0 := wk_session wk\<rparr> in
      case retMessage (workerAllocator (wk_session wk)) (cs_world cs) m (cs_port cs) of
        (r, _, p) \<Rightarrow> (r, cs\<lparr>cs_port := p\<rparr>))"

text \<open>\<open>_run\<close>.\<close>

definition runSession :: "nat \<Rightarrow> (nat \<Rightarrow> 'f handler_env) \<Rightarrow> worker \<Rightarrow> 'f call_state \<Rightarrow> 'f run_result" where
  "runSession fuel env wk cs =
     (case acknowledgeSessionCreate wk cs of
        (Inl e, cs1) \<Rightarrow> Returned (if cs_stop cs1 then 0 else - 1) cs1
      | (Inr _, cs1) \<Rightarrow> runWorker fuel env 0 wk cs1)"

text \<open>\<open>close\<close> from another thread: the port is disconnected.\<close>

definition closeWorker :: "'f call_state \<Rightarrow> 'f call_state" where
  "closeWorker cs =
     cs\<lparr>cs_stop := True, cs_port := (cs_port cs)\<lparr>po_channel := (po_channel (cs_port cs))\<lparr>ch_connected := False\<rparr>\<rparr>\<rparr>"

end
