(* ===== verification/Server_Requests.thy ===== *)
theory Server_Requests
  imports Session_Worker Stream_Buffer
begin

text \<open>
  The requests of clients that have no session yet, and the size of the memory pools
  (\<open>storageserver/StorageServer.cpp\<close>, \<open>libsimutrace/ClientSession.cpp\<close>).
\<close>

section \<open>Requests without a session\<close>

text \<open>
  What becomes of a connection: it belongs to the worker of a session, it is dropped, or the server stops.
\<close>

datatype connection = Session u32 | Dropped | ServerStops

definition serverAllocator :: "'f world allocator" where
  "serverAllocator = \<lparr>al_alloc = (\<lambda>_ _. (Inr (), None)), al_write = (\<lambda>_ _ w. w), al_read = (\<lambda>_ _ _. [])\<rparr>"

text \<open>The state of a request: the message, the port, the server.\<close>

record 'f request =
  rr_message :: message
  rr_port :: port
  rr_world :: "'f world"

definition answer :: "u16 \<Rightarrow> reply \<Rightarrow> 'f request \<Rightarrow> (unit res \<times> 'f request) option" where
  "answer status r rr =
     (case retReply serverAllocator (rr_world rr) status r (rr_message rr) (rr_port rr) of
        None \<Rightarrow> None
      | Some (res, m, p) \<Rightarrow> Some (res, rr\<lparr>rr_message := m, rr_port := p\<rparr>))"

definition answerOnly :: "reply \<Rightarrow> 'f request \<Rightarrow> (connection res \<times> 'f request) option" where
  "answerOnly r rr = map_option (\<lambda>(res, rr1). (map_sum id (\<lambda>_. Dropped) res, rr1)) (answer SC_Success r rr)"

definition handlePeekVersion :: "'f request \<Rightarrow> (connection res \<times> 'f request) option" where
  "handlePeekVersion rr = answerOnly (ReplyEmbedded (ucast RPC_VERSION) 0) rr"

definition handleEnumerateSessions :: "'f request \<Rightarrow> (connection res \<times> 'f request) option" where
  "handleEnumerateSessions rr =
     (let ids = keys (sy_sessions (wd_server (rr_world rr))) in
      answerOnly (ReplyData (ids_bytes ids) (ucast RPC_VERSION) (of_nat (length ids))) rr)"

text \<open>\<open>worker\<close> is the thread that the session creates for the connection.\<close>

definition handleSessionCreate :: "nat \<Rightarrow> 'f request \<Rightarrow> (connection res \<times> 'f request) option" where
  "handleSessionCreate worker rr =
     (case createSession (ucast (ms_parameter0 (rr_message rr))) worker (wd_server (rr_world rr)) of
        (r, sv) \<Rightarrow> Some (map_sum id Session r, rr\<lparr>rr_world := (rr_world rr)\<lparr>wd_server := sv\<rparr>\<rparr>))"

definition handleSessionOpen :: "nat \<Rightarrow> 'f request \<Rightarrow> (connection res \<times> 'f request) option" where
  "handleSessionOpen worker rr =
     (let localId = ms_parameter1 (rr_message rr) in
      case openLocalSession (ucast (ms_parameter0 (rr_message rr))) worker localId (wd_server (rr_world rr)) of
        (r, sv) \<Rightarrow> Some (map_sum id (\<lambda>_. Session localId) r, rr\<lparr>rr_world := (rr_world rr)\<lparr>wd_server := sv\<rparr>\<rparr>))"

definition callServerHandler :: "nat \<Rightarrow> server_call \<Rightarrow> 'f request \<Rightarrow> (connection res \<times> 'f request) option" where
  "callServerHandler worker call rr =
     (if \<not> testMessage MptEmbedded 0 (rr_message rr) then Some (Inl RpcMessageMalformedException, rr)
      else
        (case call of
           PeekVersion \<Rightarrow> handlePeekVersion rr
         | EnumerateSessions \<Rightarrow> handleEnumerateSessions rr
         | SessionCreate \<Rightarrow> handleSessionCreate worker rr
         | SessionOpen \<Rightarrow> handleSessionOpen worker rr
         | SessionQuery \<Rightarrow> Some (Inl NotImplementedException, rr)))"

definition dispatchServer :: "nat \<Rightarrow> 'f request \<Rightarrow> (connection res \<times> 'f request) option" where
  "dispatchServer worker rr =
     (let m = rr_message rr in
      case map_of serverHandlers (RPC_VER_AND_CODE (ucast (ms_parameter0 m)) (ms_code m)) of
        None \<Rightarrow> Some (Inl NotSupportedException, rr)
      | Some call \<Rightarrow> callServerHandler worker call rr)"

text \<open>\<open>_processRequest\<close>; the connection is dropped after an error, whether or not it could be sent.\<close>

definition processRequest :: "'f handler_env \<Rightarrow> nat \<Rightarrow> port \<Rightarrow> 'f world \<Rightarrow> (connection \<times> 'f request) option" where
  "processRequest env worker port w =
     (case waitRequest serverAllocator zeroMessage port w of
        None \<Rightarrow> None
      | Some (r, m, p, w1) \<Rightarrow>
          (let rr = \<lparr>rr_message = m, rr_port = p, rr_world = w1\<rparr> in
           case (case r of Inl e \<Rightarrow> Some (Inl e, rr) | Inr _ \<Rightarrow> dispatchServer worker rr) of
             None \<Rightarrow> None
           | Some (Inr c, rr1) \<Rightarrow> Some (c, rr1)
           | Some (Inl e, rr1) \<Rightarrow>
               if e = SocketException then Some (Dropped, rr1)
               else if e = StdException then Some (ServerStops, rr1)
               else
                 (case answer SC_Failed (ReplyData (hv_what env e) (fst (hv_error env e)) (snd (hv_error env e))) rr1 of
                    None \<Rightarrow> None
                  | Some (_, rr2) \<Rightarrow> Some (Dropped, rr2))))"

section \<open>The size of the memory pools\<close>

definition MiB :: u64 where "MiB = 0x100000"
definition SIMUTRACE_SERVER_MEMMGMT_MINIMUM_POOLSIZE :: u64 where "SIMUTRACE_SERVER_MEMMGMT_MINIMUM_POOLSIZE = 512"

text \<open>The loop that reduces the size to the physical memory.\<close>

function reducePool :: "u64 \<Rightarrow> u64 \<Rightarrow> u64" where
  "reducePool physicalMemory poolSize =
     (if SIMUTRACE_SERVER_MEMMGMT_MINIMUM_POOLSIZE * MiB < poolSize \<and> physicalMemory < poolSize
      then reducePool physicalMemory (poolSize - of_nat SIMUTRACE_MEMMGMT_SEGMENT_SIZE * MiB)
      else poolSize)"
  by pat_completeness auto
termination
proof (relation "measure (\<lambda>(_, poolSize). unat poolSize)")
  fix physicalMemory poolSize :: u64
  assume a: "SIMUTRACE_SERVER_MEMMGMT_MINIMUM_POOLSIZE * MiB < poolSize \<and> physicalMemory < poolSize"
  let ?c = "of_nat SIMUTRACE_MEMMGMT_SEGMENT_SIZE * MiB :: u64"
  have "?c < SIMUTRACE_SERVER_MEMMGMT_MINIMUM_POOLSIZE * MiB"
    by (simp add: SIMUTRACE_MEMMGMT_SEGMENT_SIZE_def SIMUTRACE_SERVER_MEMMGMT_MINIMUM_POOLSIZE_def MiB_def)
  then have le: "?c \<le> poolSize" using a by (rule order.strict_trans [OF _ conjunct1, THEN less_imp_le])
  have "0 < unat ?c" by (simp add: SIMUTRACE_MEMMGMT_SEGMENT_SIZE_def MiB_def)
  moreover have "unat (poolSize - ?c) = unat poolSize - unat ?c" by (rule unat_sub [OF le])
  moreover have "unat ?c \<le> unat poolSize" using le by (simp only: word_le_nat_alt)
  ultimately have "unat (poolSize - ?c) < unat poolSize" by linarith
  then show "((physicalMemory, poolSize - ?c), physicalMemory, poolSize) \<in> measure (\<lambda>(_, poolSize). unat poolSize)"
    by (simp only: in_measure case_prod_conv)
qed simp

declare reducePool.simps [simp del]

text \<open>
  \<open>_determineMemoryPoolConfiguration\<close>, and \<open>_determineStreamBufferConfiguration\<close> of the client. The
  configured size is in MiB; the minimum it is compared with is not multiplied.
\<close>

definition determinePoolSize :: "int \<Rightarrow> u64 \<Rightarrow> u32 res" where
  "determinePoolSize conf physicalMemory =
     (let poolSize = of_int conf * MiB in
      throwOn (poolSize < SIMUTRACE_SERVER_MEMMGMT_MINIMUM_POOLSIZE) ConfigurationException
        (Inr (ucast (reducePool physicalMemory poolSize div (of_nat SIMUTRACE_MEMMGMT_SEGMENT_SIZE * MiB)))))"

end
