(* ===== verification/Worker_Response.thy ===== *)
theory Worker_Response
  imports Rpc_Port Server_Requests
begin

text \<open>
  The protocol of a session: every request that a worker serves gets exactly one response, whatever its handler
  does, and every request takes at least the bytes of a message from the connection.
\<close>

section \<open>Messages that can be discarded\<close>

definition held :: "message \<Rightarrow> bool" where
  "held m \<longleftrightarrow> ms_payloadType m \<in> {MptEmbedded, MptData, MptHandles} \<and> owned_ok m"

lemma payload_types [simp]: "MptEmbedded \<noteq> MptData" "MptEmbedded \<noteq> MptHandles" "MptData \<noteq> MptHandles"
  "MptData \<noteq> MptEmbedded" "MptHandles \<noteq> MptEmbedded" "MptHandles \<noteq> MptData"
  by (simp_all add: MptEmbedded_def MptData_def MptHandles_def)

lemma discard_held:
  assumes "held m"
  shows "\<exists>m'. discardMessage m = Some (Inr (), m') \<and> ms_sequenceNumber m' = ms_sequenceNumber m \<and> ms_flags m' = 0 \<and>
    ms_localFlags m' = 0 \<and> ms_allocator m' = ms_allocator m"
  using assms by (auto simp: held_def owned_ok_def discardMessage_def Let_def)

text \<open>What a receive leaves as it is.\<close>

definition same_out :: "channel \<Rightarrow> channel \<Rightarrow> bool" where
  "same_out ch ch' \<longleftrightarrow> ch_out ch' = ch_out ch \<and> ch_connected ch' = ch_connected ch \<and> ch_budget ch' = ch_budget ch \<and>
     ch_transfersHandles ch' = ch_transfersHandles ch"

lemma channelReceive_same: "channelReceive n ch = (r, bytes, ch') \<Longrightarrow> same_out ch ch' \<and>
    (r = Inr () \<longrightarrow> bytes = take n (ch_in ch) \<and> ch_in ch' = drop n (ch_in ch) \<and> n \<le> length (ch_in ch))"
  by (auto simp: channelReceive_def same_out_def split: if_splits)

lemma channelReceiveHandles_same: "channelReceiveHandles ch = (r, ch') \<Longrightarrow> same_out ch ch' \<and> ch_in ch' = ch_in ch"
  by (auto simp: channelReceiveHandles_def same_out_def split: if_splits list.splits)

lemma same_out_trans: "same_out a b \<Longrightarrow> same_out b c \<Longrightarrow> same_out a c"
  by (simp add: same_out_def)

lemma failReceive_fails: "failReceive e m p mem = Some (r, m', p', mem') \<Longrightarrow> (\<exists>e'. r = Inl e') \<and> p' = p"
  by (auto simp: failReceive_def split: option.splits sum.splits)

lemma readPayload_received:
  assumes "readPayload al address (setAddress address m) p mem = Some (Inr u, m', p', mem')"
  shows "held m' = (ms_payloadType m \<in> {MptEmbedded, MptData, MptHandles}) \<and> ms_sequenceNumber m' = ms_sequenceNumber m \<and>
    same_out (po_channel p) (po_channel p') \<and> length (ch_in (po_channel p')) \<le> length (ch_in (po_channel p))"
proof -
  obtain r bytes ch where ch: "channelReceive (unat (ms_length (setAddress address m))) (po_channel p) = (r, bytes, ch)" by (rule prod_cases3)
  note same = channelReceive_same [OF ch]
  show ?thesis
  proof (cases r)
    case (Inl e)
    then show ?thesis using assms ch failReceive_fails [of e] by (cases address) (fastforce simp: readPayload_def)+
  next
    case (Inr v)
    then show ?thesis using assms ch same custom_flagged
      by (cases address) (auto simp: readPayload_def setAddress_def held_def owned_ok_def)
  qed
qed

lemma receive_held:
  assumes "receiveMessage al m0 p mem = Some (Inr u, m, p', mem')"
  shows "held m \<and> ms_sequenceNumber m = hd (ch_in (po_channel p)) \<and> same_out (po_channel p) (po_channel p') \<and>
    length (ch_in (po_channel p')) + MESSAGE_SIZE \<le> length (ch_in (po_channel p))"
proof -
  obtain r bytes ch where ch: "channelReceive MESSAGE_SIZE (po_channel p) = (r, bytes, ch)" by (rule prod_cases3)
  let ?m = "message_read bytes m0"
  let ?p = "p\<lparr>po_channel := ch, po_lastSequenceNumber := ms_sequenceNumber ?m\<rparr>"
  have r: "r = Inr ()" using assms ch by (cases r) (auto simp: receiveMessage_def)
  note same = channelReceive_same [OF ch, unfolded r, simplified]
  have seq: "ms_sequenceNumber ?m = hd (ch_in (po_channel p))"
  proof -
    have "ch_in (po_channel p) \<noteq> []" using same by (auto simp: MESSAGE_SIZE_def)
    then obtain b bs where "ch_in (po_channel p) = b # bs" by (cases "ch_in (po_channel p)") auto
    then have "bytes = b # take 15 bs" using same by (simp add: MESSAGE_SIZE_def)
    then show ?thesis using \<open>ch_in (po_channel p) = b # bs\<close> by (simp add: message_read_def field_def)
  qed
  have eq: "receiveMessage al m0 p mem =
      (if ms_payloadType ?m = MptEmbedded then Some (Inr (), ?m, ?p, mem)
       else if ms_payloadType ?m = MptData then
         (if ms_length ?m = 0 then Some (Inr (), ?m\<lparr>ms_payload := NullPtr\<rparr>, ?p, mem) else receivePayload al ?m ?p mem)
       else if ms_payloadType ?m = MptHandles then
         (if ms_length ?m = 0 then Some (Inr (), ?m\<lparr>ms_handles := None\<rparr>, ?p, mem)
          else
            (let m1 = ?m\<lparr>ms_localFlags := ms_localFlags ?m OR LmfAllocationOwner, ms_handles := Some []\<rparr> in
             case channelReceiveHandles ch of
               (Inl e, ch1) \<Rightarrow> failReceive e m1 (?p\<lparr>po_channel := ch1\<rparr>) mem
             | (Inr hs, ch1) \<Rightarrow> Some (Inr (), m1\<lparr>ms_handles := Some hs\<rparr>, ?p\<lparr>po_channel := ch1\<rparr>, mem)))
       else failReceive NotSupportedException ?m ?p mem)"
    unfolding receiveMessage_def ch r by (simp add: Let_def)
  consider "ms_payloadType ?m = MptEmbedded \<or> ms_payloadType ?m \<in> {MptData, MptHandles} \<and> ms_length ?m = 0"
    | "ms_payloadType ?m = MptData" "ms_length ?m \<noteq> 0" | "ms_payloadType ?m = MptHandles" "ms_length ?m \<noteq> 0"
    | "ms_payloadType ?m \<notin> {MptEmbedded, MptData, MptHandles}" by blast
  then show ?thesis
  proof cases
    case 1
    then show ?thesis using assms eq same seq by (auto simp: held_def owned_ok_def split: if_splits)
  next
    case 2
    then have "receivePayload al ?m ?p mem = Some (Inr u, m, p', mem')" using assms eq by simp
    moreover define m1 where "m1 = ?m\<lparr>ms_payload := NullPtr, ms_localFlags := ms_localFlags ?m OR LmfAllocationOwner\<rparr>"
    ultimately obtain address where "readPayload al address (setAddress address m1) ?p mem = Some (Inr u, m, p', mem')"
      using failReceive_fails by (fastforce simp: receivePayload_def Let_def split: prod.splits sum.splits if_splits)
    note R = readPayload_received [OF this]
    have "ms_payloadType m1 = MptData" "ms_sequenceNumber m1 = ms_sequenceNumber ?m" using 2 by (simp_all add: m1_def)
    then show ?thesis using R same seq same_out_trans by (auto intro: same_out_trans)
  next
    case 3
    obtain r2 ch2 where h: "channelReceiveHandles ch = (r2, ch2)" by (cases "channelReceiveHandles ch")
    note same2 = channelReceiveHandles_same [OF h]
    have "\<exists>hs. r2 = Inr hs" using assms eq 3 h failReceive_fails by (cases r2) (fastforce simp: Let_def)+
    then show ?thesis using assms eq 3 h same same2 seq by (auto simp: held_def owned_ok_def Let_def same_out_def)
  next
    case 4
    then show ?thesis using assms eq failReceive_fails by fastforce
  qed
qed

section \<open>Responses\<close>

text \<open>One message, with its payload, was added to what is sent.\<close>

definition responds :: "u8 \<Rightarrow> u16 \<Rightarrow> channel \<Rightarrow> channel \<Rightarrow> bool" where
  "responds sequenceNumber status ch ch' \<longleftrightarrow>
     (\<exists>m b. ch_out ch' = ch_out ch @ message_bytes m @ b \<and> ms_sequenceNumber m = sequenceNumber \<and>
        flagged (ms_flags m) MfResponse \<and> ms_code m = status \<and> message_ok m \<and>
        length b = (if ms_payloadType m = MptData then unat (ms_length m) else 0) \<and>
        ms_payloadType m \<in> {MptEmbedded, MptData, MptHandles} \<and>
        (ms_payloadType m = MptHandles \<longrightarrow> ch_transfersHandles ch) \<and>
        (status = SC_Failed \<longrightarrow> ms_payloadType m = MptData))"

definition same_in :: "channel \<Rightarrow> channel \<Rightarrow> bool" where
  "same_in ch ch' \<longleftrightarrow> ch_in ch' = ch_in ch \<and> ch_connected ch' = ch_connected ch \<and> ch_budget ch' = ch_budget ch \<and>
     ch_transfersHandles ch' = ch_transfersHandles ch"

definition sendable :: "bool \<Rightarrow> channel \<Rightarrow> reply \<Rightarrow> bool" where
  "sendable shared ch r \<longleftrightarrow> open_channel ch \<and> (shared \<longrightarrow> ch_transfersHandles ch) \<and> (\<forall>hs p0 p1. r = ReplyHandles hs p0 p1 \<longrightarrow> shared)"

lemma unat_of_nat_le: "unat (of_nat n :: 'a::len word) \<le> n"
  by (simp add: unsigned_of_nat take_bit_nat_eq_self_iff take_bit_eq_mod)

lemma response_flag: "flagged (0 OR MfResponse) MfResponse"
  by (simp add: flagged_def MfResponse_def)

lemma retReply_sends:
  assumes m: "held m" and s: "sendable shared (po_channel p) r" and d: "status = SC_Failed \<longrightarrow> (\<exists>b p0 p1. r = ReplyData b p0 p1)"
  shows "\<exists>m' p'. retReply al mem status r m p = Some (Inr (), m', p') \<and>
    responds (ms_sequenceNumber m) status (po_channel p) (po_channel p') \<and> same_in (po_channel p) (po_channel p')"
proof -
  obtain m1 where m1: "discardMessage m = Some (Inr (), m1)" "ms_sequenceNumber m1 = ms_sequenceNumber m" "ms_flags m1 = 0"
    using discard_held [OF m] by blast
  let ?m = "(setupReply r (m1\<lparr>ms_code := status\<rparr>))\<lparr>ms_flags := 0 OR MfResponse\<rparr>"
  have f: "ms_flags (setupReply r (m1\<lparr>ms_code := status\<rparr>)) = 0" "ms_sequenceNumber ?m = ms_sequenceNumber m" "ms_code ?m = status"
    using m1 by (cases r; simp add: setupReply_def setupEmbedded_def setupData_def setupHandle_def)+
  have ty: "\<not> MptMax \<le> ms_payloadType (setupReply r (m1\<lparr>ms_code := status\<rparr>))"
    by (cases r; simp add: setupReply_def setupEmbedded_def setupData_def setupHandle_def MptEmbedded_def MptData_def MptHandles_def MptMax_def word_le_nat_alt)
  have ret: "retReply al mem status r m p = Some (case sendMessage al mem ?m p of (res, p1) \<Rightarrow> (res, ?m, p1))"
    unfolding retReply_def m1(1) using ty f(1) by (simp add: retMessage_def Let_def)
  have op: "ch_connected (po_channel p)" "ch_budget (po_channel p) = None" using s by (simp_all add: sendable_def open_channel_def)
  have ok: "message_ok ?m"
    by (cases r; simp add: message_ok_def setupReply_def setupEmbedded_def setupData_def setupHandle_def MptEmbedded_def MptData_def
        MptHandles_def MfResponse_def word_less_nat_alt)
  have "\<exists>p1 b. sendMessage al mem ?m p = (Inr (), p1) \<and> ch_out (po_channel p1) = ch_out (po_channel p) @ message_bytes ?m @ b \<and>
      same_in (po_channel p) (po_channel p1) \<and> length b = (if ms_payloadType ?m = MptData then unat (ms_length ?m) else 0) \<and>
      ms_payloadType ?m \<in> {MptEmbedded, MptData, MptHandles} \<and> (ms_payloadType ?m = MptHandles \<longrightarrow> ch_transfersHandles (po_channel p))"
  proof (cases r)
    case (ReplyEmbedded p0 p1)
    then have "ms_payloadType ?m = MptEmbedded" by (simp add: setupReply_def setupEmbedded_def)
    then show ?thesis using op
      by (simp add: sendMessage_def channelSend_def same_in_def Let_def)
  next
    case (ReplyData bs p0 p1)
    then have ty: "ms_payloadType ?m = MptData" and l: "ms_length ?m = of_nat (length bs)"
      and pl: "ms_payload ?m = (if bs = [] then NullPtr else Borrowed bs)" by (simp_all add: setupReply_def setupData_def)
    show ?thesis
    proof (cases "ms_length ?m = 0")
      case True
      then show ?thesis using ty op by (simp add: sendMessage_def channelSend_def same_in_def Let_def)
    next
      case False
      have "unat (of_nat (length bs) :: u32) \<le> length bs" by (rule unat_of_nat_le)
      then have b: "bs \<noteq> []" "payloadBytes al ?m mem = take (unat (ms_length ?m)) bs" "length (payloadBytes al ?m mem) = unat (ms_length ?m)"
        using l pl False by (auto simp: payloadBytes_def)
      moreover have "payloadBytes al ?m mem \<noteq> []" using b(3) False by (auto simp: unat_eq_0)
      ultimately show ?thesis using False ty op
        by (simp add: sendMessage_def channelSend_def same_in_def Let_def)
    qed
  next
    case (ReplyHandles hs p0 p1)
    then have ty: "ms_payloadType ?m = MptHandles" by (simp add: setupReply_def setupHandle_def)
    have "ch_transfersHandles (po_channel p)" using s ReplyHandles by (simp add: sendable_def)
    then show ?thesis using ty op
      by (simp add: sendMessage_def channelSend_def channelSendHandles_def same_in_def Let_def)
  qed
  then obtain p1 b where p1: "sendMessage al mem ?m p = (Inr (), p1)" "ch_out (po_channel p1) = ch_out (po_channel p) @ message_bytes ?m @ b"
    "same_in (po_channel p) (po_channel p1)" and b: "length b = (if ms_payloadType ?m = MptData then unat (ms_length ?m) else 0)"
      "ms_payloadType ?m \<in> {MptEmbedded, MptData, MptHandles}" "ms_payloadType ?m = MptHandles \<longrightarrow> ch_transfersHandles (po_channel p)" by blast
  have fail: "status = SC_Failed \<longrightarrow> ms_payloadType ?m = MptData" using d by (auto simp: setupReply_def setupData_def)
  have "flagged (ms_flags ?m) MfResponse" using response_flag by simp
  then have "responds (ms_sequenceNumber m) status (po_channel p) (po_channel p1)"
    using p1(2) f(2,3) fail ok b unfolding responds_def by (intro exI [of _ ?m] exI [of _ b]) simp
  then show ?thesis using ret p1(1,3) by simp
qed

section \<open>Handlers\<close>

definition ready :: "worker \<Rightarrow> 'f call_state \<Rightarrow> bool" where
  "ready wk cs \<longleftrightarrow> held (cs_message cs) \<and> open_channel (po_channel (cs_port cs)) \<and>
     (wk_shared wk \<longrightarrow> ch_transfersHandles (po_channel (cs_port cs)))"

definition answered :: "u16 \<Rightarrow> 'f call_state \<Rightarrow> 'f call_state \<Rightarrow> bool" where
  "answered status cs cs' \<longleftrightarrow>
     responds (ms_sequenceNumber (cs_message cs)) status (po_channel (cs_port cs)) (po_channel (cs_port cs')) \<and>
     same_in (po_channel (cs_port cs)) (po_channel (cs_port cs'))"

definition untouched :: "'f call_state \<Rightarrow> 'f call_state \<Rightarrow> bool" where
  "untouched cs cs' \<longleftrightarrow> cs_message cs' = cs_message cs \<and> cs_port cs' = cs_port cs"

lemma untouched_simps [simp]:
  "untouched cs cs" "untouched cs (cs\<lparr>cs_world := w\<rparr>)" "untouched cs (cs\<lparr>cs_stop := b\<rparr>)"
  by (simp_all add: untouched_def)

lemma ready_untouched: "ready wk cs \<Longrightarrow> untouched cs cs' \<Longrightarrow> ready wk cs'"
  by (simp add: ready_def untouched_def)

lemma answered_untouched: "answered status cs1 cs2 \<Longrightarrow> untouched cs cs1 \<Longrightarrow> answered status cs cs2"
  by (simp add: answered_def untouched_def)

lemma respond_answers:
  assumes "ready wk cs" and "\<forall>hs p0 p1. r = ReplyHandles hs p0 p1 \<longrightarrow> wk_shared wk"
    and "status = SC_Failed \<longrightarrow> (\<exists>b p0 p1. r = ReplyData b p0 p1)"
  shows "\<exists>cs'. respond wk status r cs = Some (Inr (), cs') \<and> answered status cs cs'"
proof -
  have "sendable (wk_shared wk) (po_channel (cs_port cs)) r" using assms(1,2) by (auto simp: ready_def sendable_def)
  from retReply_sends [OF _ this assms(3), of "cs_message cs" "workerAllocator (wk_session wk)" "cs_world cs"] assms(1)
  obtain m' p' where "retReply (workerAllocator (wk_session wk)) (cs_world cs) status r (cs_message cs) (cs_port cs) = Some (Inr (), m', p')"
    "responds (ms_sequenceNumber (cs_message cs)) status (po_channel (cs_port cs)) (po_channel p')"
    "same_in (po_channel (cs_port cs)) (po_channel p')" by (auto simp: ready_def)
  then show ?thesis by (simp add: respond_def answered_def)
qed

text \<open>A handler that left the response to the loop, or that throws, sent nothing.\<close>

definition handled_ok :: "'f call_state \<Rightarrow> 'f handled \<Rightarrow> bool" where
  "handled_ok cs h \<longleftrightarrow>
     (case h of None \<Rightarrow> True | Some (r, cs') \<Rightarrow> if r = Inr False then answered SC_Success cs cs' else untouched cs cs')"

lemma handled_simps [simp]:
  "handled_ok cs None" "handled_ok cs (Some (Inl e, cs')) = untouched cs cs'" "handled_ok cs (Some (Inr True, cs')) = untouched cs cs'"
  "handled_ok cs (Some (map_sum id (\<lambda>_. True) r, cs')) = untouched cs cs'"
  by (cases r; simp add: handled_ok_def)+

lemma respondOnly_answers:
  assumes "ready wk cs" and "\<forall>hs p0 p1. r = ReplyHandles hs p0 p1 \<longrightarrow> wk_shared wk"
  shows "\<exists>cs'. respondOnly wk r cs = Some (Inr False, cs') \<and> answered SC_Success cs cs'"
  using respond_answers [OF assms, of SC_Success] by (auto simp: respondOnly_def SC_Success_def SC_Failed_def)

lemma respondOnly_handled:
  assumes "ready wk cs" and "untouched cs cs1" and "\<forall>hs p0 p1. r = ReplyHandles hs p0 p1 \<longrightarrow> wk_shared wk"
  shows "handled_ok cs (respondOnly wk r cs1)"
  using respondOnly_answers [OF ready_untouched [OF assms(1,2)] assms(3)] answered_untouched assms(2) by (auto simp: handled_ok_def)

lemma respondOrClose_handled:
  assumes "ready wk cs" and "untouched cs cs1" and "\<forall>hs p0 p1. r \<noteq> ReplyHandles hs p0 p1"
  shows "handled_ok cs (respondOrClose env wk k x sqn r cs1)"
  using respondOnly_answers [OF ready_untouched [OF assms(1,2)], of r] answered_untouched assms(2,3)
  by (auto simp: handled_ok_def respondOrClose_def)

lemmas handler_defs = handleSessionClose_def handleSessionSetConfiguration_def handleStoreCreate_def handleStoreClose_def
  handleStreamBufferRegister_def handleStreamBufferEnumerate_def handleStreamBufferQuery_def handleStreamRegister_def
  handleStreamEnumerate_def handleStreamQuery_def handleStreamAppend_def handleStreamCloseAndOpen_def handleStreamClose_def
  withServer_def

lemma openReply_data: "openReply wk code sqn seg offset s \<noteq> ReplyHandles hs p0 p1"
  by (simp add: openReply_def Let_def)

lemma callHandler_handled:
  assumes "ready wk cs"
  shows "handled_ok cs (callHandler env wk code call cs)"
  by (cases call)
    (auto simp: callHandler_def handler_defs Let_def openReply_data split: sum.splits prod.splits option.splits
      intro!: respondOnly_handled [OF assms] respondOrClose_handled [OF assms])

lemma dispatch_answers:
  assumes r: "ready wk cs" and d: "dispatch env wk code cs = Some (res, cs')"
  shows "case res of Inl e \<Rightarrow> untouched cs cs' | Inr _ \<Rightarrow> answered SC_Success cs cs'"
proof (cases "map_of sessionHandlers code")
  case None
  then show ?thesis using d by (auto simp: dispatch_def)
next
  case (Some call)
  show ?thesis
  proof (cases "testMessage (fst (requestPayload call)) (snd (requestPayload call)) (cs_message cs)")
    case False
    then show ?thesis using d Some by (auto simp: dispatch_def)
  next
    case True
    note H = callHandler_handled [OF r, of env code call]
    obtain hr cs1 where h: "callHandler env wk code call cs = Some (hr, cs1)" using d Some True by (auto simp: dispatch_def split: option.splits)
    consider e where "hr = Inl e" | "hr = Inr True" | "hr = Inr False" by (cases hr) auto
    then show ?thesis
    proof cases
      case 1
      then show ?thesis using d Some True h H by (auto simp: dispatch_def)
    next
      case 2
      then have u: "untouched cs cs1" using H h by simp
      from respond_answers [OF ready_untouched [OF r u], of "ReplyEmbedded 0 0" SC_Success]
      obtain cs2 where "respond wk SC_Success (ReplyEmbedded 0 0) cs1 = Some (Inr (), cs2)" "answered SC_Success cs1 cs2"
        by (auto simp: SC_Success_def SC_Failed_def)
      then show ?thesis using d Some True h 2 answered_untouched [OF _ u] by (auto simp: dispatch_def)
    next
      case 3
      then show ?thesis using d Some True h H by (auto simp: dispatch_def handled_ok_def)
    qed
  qed
qed

section \<open>One response for every request\<close>

lemma received_ready:
  assumes "waitRequest al m0 (cs_port cs) w0 = Some (Inr u, m, p, w)" and "open_channel (po_channel (cs_port cs))"
    and "wk_shared wk \<longrightarrow> ch_transfersHandles (po_channel (cs_port cs))"
  shows "ready wk (cs\<lparr>cs_message := m, cs_port := p, cs_world := w\<rparr>) \<and> ms_sequenceNumber m = hd (ch_in (po_channel (cs_port cs))) \<and>
    same_out (po_channel (cs_port cs)) (po_channel p) \<and> length (ch_in (po_channel p)) + MESSAGE_SIZE \<le> length (ch_in (po_channel (cs_port cs)))"
proof -
  obtain m1 where "receiveMessage al m1 (cs_port cs) w0 = Some (Inr u, m, p, w)"
    using assms(1) by (auto simp: waitRequest_def split: option.splits sum.splits)
  from receive_held [OF this] show ?thesis using assms(2,3) by (simp add: ready_def open_channel_def same_out_def)
qed

lemma serve_step:
  assumes "serveRequest env wk cs = Some (Continue, cs')" and "open_channel (po_channel (cs_port cs))"
    and "wk_shared wk \<Longrightarrow> ch_transfersHandles (po_channel (cs_port cs))"
  shows "\<exists>status\<in>{SC_Success, SC_Failed}.
    responds (hd (ch_in (po_channel (cs_port cs)))) status (po_channel (cs_port cs)) (po_channel (cs_port cs')) \<and>
    open_channel (po_channel (cs_port cs')) \<and> ch_transfersHandles (po_channel (cs_port cs')) = ch_transfersHandles (po_channel (cs_port cs)) \<and>
    length (ch_in (po_channel (cs_port cs'))) + MESSAGE_SIZE \<le> length (ch_in (po_channel (cs_port cs)))"
proof -
  let ?al = "workerAllocator (wk_session wk)" and ?m0 = "zeroMessage\<lparr>ms_allocator := \<not> wk_shared wk\<rparr>"
  obtain r m p w where wait: "waitRequest ?al ?m0 (cs_port cs) (cs_world cs) = Some (r, m, p, w)"
    using assms(1) by (auto simp: serveRequest_def split: option.splits)
  let ?cs = "cs\<lparr>cs_message := m, cs_port := p, cs_world := w\<rparr>"
  obtain u where r: "r = Inr u" using assms(1) wait by (cases r) (auto simp: serveRequest_def leave_def Let_def)
  note R = received_ready [OF wait [unfolded r] assms(2), of wk]
  then have ready: "ready wk ?cs" using assms(3) by blast
  have same: "answered status ?cs cs1 \<Longrightarrow>
      responds (hd (ch_in (po_channel (cs_port cs)))) status (po_channel (cs_port cs)) (po_channel (cs_port cs1)) \<and>
      open_channel (po_channel (cs_port cs1)) \<and> ch_transfersHandles (po_channel (cs_port cs1)) = ch_transfersHandles (po_channel (cs_port cs)) \<and>
      length (ch_in (po_channel (cs_port cs1))) + MESSAGE_SIZE \<le> length (ch_in (po_channel (cs_port cs)))" for status cs1
    using R assms(2,3) by (auto simp: answered_def responds_def same_out_def same_in_def open_channel_def)
  obtain res cs2 where d: "dispatch env wk (RPC_VER_AND_CODE (peerApiVersion (wk_session wk) w) (ms_code m)) ?cs = Some (res, cs2)"
    using assms(1) wait r by (auto simp: serveRequest_def Let_def split: option.splits)
  note D = dispatch_answers [OF ready d]
  show ?thesis
  proof (cases res)
    case (Inr v)
    then have "cs' = cs2" using assms(1) wait r d by (simp add: serveRequest_def Let_def)
    then show ?thesis using D Inr same by auto
  next
    case (Inl e)
    then have u: "untouched ?cs cs2" using D by simp
    let ?reply = "ReplyData (hv_what env e) (fst (hv_error env e)) (snd (hv_error env e))"
    obtain cs3 where f: "respond wk SC_Failed ?reply cs2 = Some (Inr (), cs3)" "answered SC_Failed cs2 cs3"
      using respond_answers [OF ready_untouched [OF ready u], of ?reply SC_Failed] by auto
    then have "cs' = cs3" using assms(1) wait r d Inl by (auto simp: serveRequest_def Let_def leave_def split: if_splits)
    then show ?thesis using answered_untouched [OF f(2) u] same by auto
  qed
qed

text \<open>
  C18: One response: every request after which a worker goes on was answered by exactly one message, a success
  or a failure with the text of the exception, which has the sequence number of the request and is marked as a response;
  nothing else was sent.
\<close>

theorem one_response:
  assumes "serveRequest env wk cs = Some (Continue, cs')" and "open_channel (po_channel (cs_port cs))"
    and "wk_shared wk \<Longrightarrow> ch_transfersHandles (po_channel (cs_port cs))"
  shows "\<exists>status\<in>{SC_Success, SC_Failed}.
    responds (hd (ch_in (po_channel (cs_port cs)))) status (po_channel (cs_port cs)) (po_channel (cs_port cs'))"
  using serve_step [OF assms] by blast

section \<open>The loop ends\<close>

lemma serve_consumes:
  assumes "serveRequest env wk cs = Some (Continue, cs')" and "open_channel (po_channel (cs_port cs))"
    and "wk_shared wk \<Longrightarrow> ch_transfersHandles (po_channel (cs_port cs))"
  shows "length (ch_in (po_channel (cs_port cs'))) + MESSAGE_SIZE \<le> length (ch_in (po_channel (cs_port cs)))"
  using serve_step [OF assms] by blast

lemma runWorker_ends:
  assumes "open_channel (po_channel (cs_port cs))" and "wk_shared wk \<Longrightarrow> ch_transfersHandles (po_channel (cs_port cs))"
    and "length (ch_in (po_channel (cs_port cs))) div MESSAGE_SIZE < fuel" and "fuel \<le> fuel'"
  shows "runWorker fuel env n wk cs \<noteq> OutOfFuel \<and> runWorker fuel' env n wk cs = runWorker fuel env n wk cs"
  using assms
proof (induction fuel arbitrary: fuel' n cs)
  case (Suc fuel)
  obtain f where f: "fuel' = Suc f" "fuel \<le> f" using Suc.prems(4) by (cases fuel') auto
  show ?case
  proof (cases "serveRequest (env n) wk cs")
    case None
    then show ?thesis using f by (simp add: runWorker.simps [of "Suc f"] runWorker.simps [of "Suc fuel"])
  next
    case (Some a)
    obtain it cs' where a: "a = (it, cs')" by fastforce
    show ?thesis
    proof (cases it)
      case (Return r)
      then show ?thesis using Some a f by (simp add: runWorker.simps [of "Suc f"] runWorker.simps [of "Suc fuel"])
    next
      case Continue
      from serve_step [OF Some [unfolded a Continue] Suc.prems(1,2)]
      have next': "open_channel (po_channel (cs_port cs'))" "ch_transfersHandles (po_channel (cs_port cs')) = ch_transfersHandles (po_channel (cs_port cs))"
        "length (ch_in (po_channel (cs_port cs'))) + MESSAGE_SIZE \<le> length (ch_in (po_channel (cs_port cs)))" by blast+
      have "length (ch_in (po_channel (cs_port cs'))) div MESSAGE_SIZE < fuel"
        using next'(3) Suc.prems(3) div_le_mono [OF next'(3), of MESSAGE_SIZE] by (simp add: MESSAGE_SIZE_def)
      then have "runWorker fuel env (Suc n) wk cs' \<noteq> OutOfFuel \<and> runWorker f env (Suc n) wk cs' = runWorker fuel env (Suc n) wk cs'"
        using Suc.IH [OF next'(1) _ _ f(2)] next'(2) Suc.prems(2) by simp
      then show ?thesis using Some a Continue f by (simp add: runWorker.simps [of "Suc f"] runWorker.simps [of "Suc fuel"])
    qed
  qed
qed simp

text \<open>
  C36: The loop of a worker ends: every request takes the 16 bytes of a message at least from the connection. With more
  steps than the received bytes are messages, the loop has come to its end: the thread has returned, or a
  handler is undefined or waits for ever; more steps do not change the result.
\<close>

theorem worker_loop_ends:
  assumes "open_channel (po_channel (cs_port cs))" and "wk_shared wk \<Longrightarrow> ch_transfersHandles (po_channel (cs_port cs))"
    and "length (ch_in (po_channel (cs_port cs))) div MESSAGE_SIZE < fuel"
  shows "runWorker fuel env n wk cs \<noteq> OutOfFuel \<and>
    (\<forall>fuel'. fuel \<le> fuel' \<longrightarrow> runWorker fuel' env n wk cs = runWorker fuel env n wk cs) \<and>
    (\<forall>cs'. serveRequest (env n) wk cs = Some (Continue, cs') \<longrightarrow>
       length (ch_in (po_channel (cs_port cs'))) + MESSAGE_SIZE \<le> length (ch_in (po_channel (cs_port cs))))"
  using runWorker_ends [OF assms] serve_consumes [OF _ assms(1,2)] by blast

end
