(* ===== verification/Worker_Faults.thy ===== *)
theory Worker_Faults
  imports Worker_Response
begin

text \<open>
  What a client can do to the server with the payload of a segment: the payload allocator gives out the memory of a
  segment before the message is checked.
\<close>

section \<open>The codes\<close>

lemma session_codes:
  "map_of sessionHandlers (RPC_VER_AND_CODE RPC_VERSION 0x13) = Some SessionClose"
  "map_of sessionHandlers (RPC_VER_AND_CODE RPC_VERSION 0x35) = Some StreamClose"
  "RPC_VER_AND_CODE RPC_VERSION 0x35 = CCV32_StreamClose" "CCV32_StreamClose \<noteq> CCV32_StreamAppend"
  by code_simp+

section \<open>Looking up what was put\<close>

lemma map_of_put_same: "map_of (mapPut k v m) k = Some v"
  by (induction k v m rule: mapPut.induct) auto

lemma getStore_some: "getStore k m = Inr st \<Longrightarrow> \<exists>r. map_of (mg_stores m) k = Some r"
  by (auto simp: getStore_def split: option.splits)

lemma getStore_setStore:
  assumes "getStore k (sy_manager (wd_server w)) = Inr st0"
  shows "getStore k (sy_manager (wd_server (setStore k st w))) = Inr st"
  using getStore_some [OF assms] by (auto simp: setStore_def Let_def getStore_def setReference_def map_of_put_same)

lemma setStore_simps [simp]:
  "sy_sessions (wd_server (setStore k st w)) = sy_sessions (wd_server w)" "wd_pool (setStore k st w) = wd_pool w"
  by (simp_all add: setStore_def Let_def split: option.splits)

lemma saveStore_sessions [simp]: "sy_sessions (wd_server (saveStore b buffer k st w)) = sy_sessions (wd_server w)"
  by (simp add: saveStore_def)

text \<open>The store that is put back has the streams it had, and the new content in the buffer.\<close>

lemma saveStore_store:
  assumes "getStore k (sy_manager (wd_server w)) = Inr st0"
  shows "\<exists>st1. getStore k (sy_manager (wd_server (saveStore b buffer k st w))) = Inr st1 \<and> sr_streams st1 = sr_streams st \<and>
    mm_buffer (getMemory b st1 (saveStore b buffer k st w)) = buffer"
proof (cases "b = SERVER_BUFFER_ID")
  case True
  have "getStore k (sy_manager (wd_server (w\<lparr>wd_pool := (wd_pool w)\<lparr>mm_buffer := buffer\<rparr>\<rparr>))) = Inr st0" using assms by simp
  from getStore_setStore [OF this, of st] show ?thesis using True by (auto simp: saveStore_def getMemory_def)
next
  case False
  let ?st = "st\<lparr>sr_buffers := mapPut b ((getMemory b st w)\<lparr>mm_buffer := buffer\<rparr>) (sr_buffers st)\<rparr>"
  from getStore_setStore [OF assms, of ?st] show ?thesis
    using False by (simp add: saveStore_def getMemory_def map_of_put_same)
qed

lemma sessionGetStream_store:
  assumes "sessionGetStream i sid w = Inr (k, x)"
  shows "\<exists>s0 st y. map_of (sy_sessions (wd_server w)) i = Some s0 \<and> es_store s0 = Some k \<and>
    getStore k (sy_manager (wd_server w)) = Inr st \<and> map_of (sr_streams st) sid = Some y \<and>
    x = y\<lparr>so_stream := (so_stream y)\<lparr>ss_buffer := mm_buffer (getMemory (so_bufferId y) st w)\<rparr>\<rparr>"
  using assms by (auto simp: sessionGetStream_def sessionStore_def getStream_def split: option.splits sum.splits)

lemma putStream_memory:
  assumes "getStore k (sy_manager (wd_server w)) = Inr st"
  shows "memoryAt k (so_bufferId x) (putStream k x s w) = ss_buffer s"
proof -
  let ?st = "st\<lparr>sr_streams := mapPut (so_id x) (x\<lparr>so_stream := s\<rparr>) (sr_streams st)\<rparr>"
  from saveStore_store [OF assms, of "so_bufferId x" "ss_buffer s" ?st] assms
  show ?thesis by (auto simp: memoryAt_def putStream_def)
qed

section \<open>Receiving a segment\<close>

text \<open>
  A request to close (or append to) a stream arrives on a connection without shared memory, with a header that names
  a segment in the buffer.
\<close>

definition segmentRequest ::
  "worker \<Rightarrow> message \<Rightarrow> u8 list \<Rightarrow> u32 \<Rightarrow> server_stream stream_object \<Rightarrow> nat \<Rightarrow> u64 \<Rightarrow> 'f call_state \<Rightarrow> bool" where
  "segmentRequest wk m rest k x n full cs \<longleftrightarrow>
     message_ok m \<and> ms_payloadType m = MptData \<and> ms_length m \<noteq> 0 \<and> ms_code m = 0x35 \<and>
     peerApiVersion (wk_session wk) (cs_world cs) = RPC_VERSION \<and> \<not> wk_shared wk \<and>
     open_channel (po_channel (cs_port cs)) \<and> ch_in (po_channel (cs_port cs)) = message_bytes m @ rest \<and>
     sessionGetStream (wk_session wk) (ms_parameter0 m) (cs_world cs) = Inr (k, x) \<and>
     getBufferMapping (ms_parameter1 m) (so_stream x) = Some n \<and>
     (\<exists>p. getSegmentAsPayload (geometryAt k (so_bufferId x) (cs_world cs)) (Some n) = Inr (p, full))"

lemma discard_allocated:
  assumes "ms_payloadType m = MptData" "ms_length m \<noteq> 0" "ms_localFlags m = 0"
  shows "discardMessage (m\<lparr>ms_localFlags := LmfAllocationOwner, ms_payload := Allocated a\<rparr>) = None"
  using assms by (simp add: discardMessage_def Let_def flagged_def LmfAllocationOwner_def LmfCustomAllocation_def word_gt_0)

lemma wait_segment:
  assumes req: "segmentRequest wk m rest k x n full cs"
  shows "\<exists>m1 p1. waitRequest (workerAllocator (wk_session wk)) (zeroMessage\<lparr>ms_allocator := \<not> wk_shared wk\<rparr>) (cs_port cs) (cs_world cs) =
      (if ucast (ms_length m) \<noteq> full then None
       else readPayload (workerAllocator (wk_session wk)) (Some (k, so_bufferId x, n)) (setAddress (Some (k, so_bufferId x, n)) m1) p1 (cs_world cs)) \<and>
    sameHeader m m1 \<and> same_out (po_channel (cs_port cs)) (po_channel p1) \<and> ch_in (po_channel p1) = rest"
proof -
  let ?al = "workerAllocator (wk_session wk)" and ?z = "zeroMessage\<lparr>ms_allocator := True\<rparr>" and ?a = "(k, so_bufferId x, n)"
  let ?m = "message_read (message_bytes m) ?z"
  let ?m1 = "?m\<lparr>ms_payload := NullPtr, ms_localFlags := LmfAllocationOwner\<rparr>"
  let ?p = "(cs_port cs)\<lparr>po_channel := (po_channel (cs_port cs))\<lparr>ch_in := rest\<rparr>, po_lastSequenceNumber := ms_sequenceNumber m\<rparr>"
  note R = req [unfolded segmentRequest_def]
  have same: "sameHeader m ?m" using header_roundtrip R by blast
  then have f: "ms_payloadType ?m = MptData" "ms_length ?m = ms_length m" "ms_code ?m = 0x35" "ms_parameter0 ?m = ms_parameter0 m"
    "ms_parameter1 ?m = ms_parameter1 m" "ms_sequenceNumber ?m = ms_sequenceNumber m" using R by (simp_all add: sameHeader_def)
  have l: "ms_allocator ?m" "ms_localFlags ?m = 0" by (simp_all add: message_read_def zeroMessage_def)
  have uses: "usesAllocator ?m" using f l by (simp add: usesAllocator_def SC_Failed_def)
  obtain pp where g: "getSegmentAsPayload (geometryAt k (so_bufferId x) (cs_world cs)) (Some n) = Inr (pp, full)" using R by blast
  have alloc: "al_alloc ?al ?m1 (cs_world cs) =
      (if ucast (ms_length m) \<noteq> full then Inl RpcMessageMalformedException else Inr (), Some ?a)"
    using R f g session_codes(3,4)
    by (simp add: workerAllocator_def messagePayloadAllocator_def segmentOfMessage_def testMessage_def Let_def)
  have w0: "discardMessage ?z = Some (Inr (), ?z)"
    by (simp add: discardMessage_def zeroMessage_def Let_def MptEmbedded_def)
  have head: "channelReceive MESSAGE_SIZE (po_channel (cs_port cs)) = (Inr (), message_bytes m, (po_channel (cs_port cs))\<lparr>ch_in := rest\<rparr>)"
    using R by (simp add: channelReceive_def MESSAGE_SIZE_def open_channel_def)
  have wait: "waitRequest ?al (zeroMessage\<lparr>ms_allocator := \<not> wk_shared wk\<rparr>) (cs_port cs) (cs_world cs) = receivePayload ?al ?m ?p (cs_world cs)"
    using w0 head f R by (simp add: waitRequest_def receiveMessage_def Let_def)
  have recv: "receivePayload ?al ?m ?p (cs_world cs) =
      (case al_alloc ?al ?m1 (cs_world cs) of
        (Inl e, address) \<Rightarrow> failReceive e (setAddress address ?m1) ?p (cs_world cs)
      | (Inr _, address) \<Rightarrow> readPayload ?al address (setAddress address ?m1) ?p (cs_world cs))"
    using uses l by (simp add: receivePayload_def Let_def)
  have "failReceive e (setAddress (Some ?a) ?m1) ?p (cs_world cs) = None" for e
    using discard_allocated [of ?m ?a] f(1,2) l(2) R by (simp add: failReceive_def setAddress_def)
  then have "receivePayload ?al ?m ?p (cs_world cs) =
      (if ucast (ms_length m) \<noteq> full then None else readPayload ?al (Some ?a) (setAddress (Some ?a) ?m1) ?p (cs_world cs))"
    unfolding recv alloc by simp
  moreover have "sameHeader m ?m1" using same by (simp add: sameHeader_def)
  moreover have "same_out (po_channel (cs_port cs)) (po_channel ?p)" "ch_in (po_channel ?p) = rest" by (simp_all add: same_out_def)
  ultimately show ?thesis using wait by (intro exI [of _ ?m1] exI [of _ ?p]) simp
qed

text \<open>
  C38: A wrong length frees the segment: if the payload of a request to close a segment in the buffer does not
  have the length of a segment, the worker calls \<open>free\<close> for the address of the segment in the buffer: the payload allocator
  sets the address before it throws, and the flag that protects it is set afterwards. Receiving has no result, as
  discarding a message with such an address has none.
\<close>

theorem wrong_length_frees_segment:
  assumes "segmentRequest wk m rest k x n full cs" and "ucast (ms_length m) \<noteq> full"
  shows "waitRequest (workerAllocator (wk_session wk)) (zeroMessage\<lparr>ms_allocator := \<not> wk_shared wk\<rparr>) (cs_port cs) (cs_world cs) = None \<and>
    serveRequest env wk cs = None"
  using wait_segment [OF assms(1)] assms(2) by (auto simp: serveRequest_def)

section \<open>Writing to a segment of another session\<close>

lemma writePayload_data: "length (sv_data b n) \<le> length bytes \<Longrightarrow>
    sv_data (writePayload n bytes b) n = take (length (sv_data b n)) bytes"
  by (simp add: writePayload_def Let_def)

lemma setAddress_fields [simp]: "ms_length (setAddress a m) = ms_length m" "ms_payloadType (setAddress a m) = ms_payloadType m"
  "ms_sequenceNumber (setAddress a m) = ms_sequenceNumber m" "ms_code (setAddress a m) = ms_code m"
  "ms_parameter0 (setAddress a m) = ms_parameter0 m" "ms_parameter1 (setAddress a m) = ms_parameter1 m"
  by (simp_all add: setAddress_def split: option.splits)

lemma close_foreign:
  assumes "getBufferMapping q s = Some n" and "lc_referenceMap (locAt q s) session = None"
  shows "close env session q wait False s = (Inl GenericException, s)"
proof -
  have "segmentIsAllocated q s" using assms(1) by (simp add: getBufferMapping_def split: if_splits)
  then show ?thesis using assms(2) by (simp add: close_def Let_def)
qed

lemma foreign_parts: "locAt q (s\<lparr>ss_buffer := b\<rparr>) = locAt q s" "segmentIsAllocated q (s\<lparr>ss_buffer := b\<rparr>) = segmentIsAllocated q s"
  by (simp_all add: segmentIsAllocated_def locAt_def)

lemma foreign_mapping: "getBufferMapping q (s\<lparr>ss_buffer := b\<rparr>) = getBufferMapping q s"
  by (simp add: getBufferMapping_def foreign_parts)

text \<open>
  C37: A segment of another session can be overwritten: a request to close a segment with a payload of the right
  length replaces the data of that segment in the buffer, and only then fails because the session does not hold the segment.
\<close>

theorem foreign_segment_overwritten:
  assumes req: "segmentRequest wk m (bytes @ rest) k x n full cs" and full: "ucast (ms_length m) = full"
    and bytes: "length bytes = unat (ms_length m)" "length (sv_data (ss_buffer (so_stream x)) n) \<le> length bytes"
    and foreign: "lc_referenceMap (locAt (ms_parameter1 m) (so_stream x)) (wk_session wk) = None"
    and alive: "\<not> cs_stop cs"
  shows "\<exists>cs'. serveRequest env wk cs = Some (Continue, cs') \<and>
    responds (ms_sequenceNumber m) SC_Failed (po_channel (cs_port cs)) (po_channel (cs_port cs')) \<and>
    sv_data (memoryAt k (so_bufferId x) (cs_world cs')) n = take (length (sv_data (ss_buffer (so_stream x)) n)) bytes"
proof -
  let ?i = "wk_session wk" and ?w = "cs_world cs" and ?b = "so_bufferId x" and ?q = "ms_parameter1 m"
  let ?al = "workerAllocator ?i" and ?a = "(k, so_bufferId x, n)"
  note R = req [unfolded segmentRequest_def]
  obtain m1 p1 where wait: "waitRequest ?al (zeroMessage\<lparr>ms_allocator := \<not> wk_shared wk\<rparr>) (cs_port cs) ?w =
      readPayload ?al (Some ?a) (setAddress (Some ?a) m1) p1 ?w"
    and m1: "sameHeader m m1" and p1: "same_out (po_channel (cs_port cs)) (po_channel p1)" "ch_in (po_channel p1) = bytes @ rest"
    using wait_segment [OF req] full by auto
  obtain s0 st y where S: "map_of (sy_sessions (wd_server ?w)) ?i = Some s0" "es_store s0 = Some k"
    "getStore k (sy_manager (wd_server ?w)) = Inr st" "map_of (sr_streams st) (ms_parameter0 m) = Some y"
    "x = y\<lparr>so_stream := (so_stream y)\<lparr>ss_buffer := mm_buffer (getMemory (so_bufferId y) st ?w)\<rparr>\<rparr>"
    using sessionGetStream_store [of ?i "ms_parameter0 m" ?w k x] R by blast
  define buf where "buf = writePayload n bytes (ss_buffer (so_stream x))"
  define w1 where "w1 = saveStore ?b buf k st ?w"
  have written: "al_write ?al ?a bytes ?w = w1"
    using S(3,5) by (simp add: workerAllocator_def w1_def buf_def memoryAt_def)
  obtain st1 where st1: "getStore k (sy_manager (wd_server w1)) = Inr st1" "sr_streams st1 = sr_streams st" "mm_buffer (getMemory ?b st1 w1) = buf"
    using saveStore_store [OF S(3), of ?b buf st] unfolding w1_def by blast
  define x1 where "x1 = y\<lparr>so_stream := (so_stream y)\<lparr>ss_buffer := buf\<rparr>\<rparr>"
  have get1: "sessionGetStream ?i (ms_parameter0 m) w1 = Inr (k, x1)"
    using S st1 by (simp add: sessionGetStream_def sessionStore_def getStream_def w1_def x1_def)
  have s1: "so_stream x1 = (so_stream x)\<lparr>ss_buffer := buf\<rparr>" "so_bufferId x1 = ?b" using S(5) by (simp_all add: x1_def)
  let ?m2 = "(setAddress (Some ?a) m1)\<lparr>ms_localFlags := ms_localFlags (setAddress (Some ?a) m1) OR LmfCustomAllocation\<rparr>"
  let ?p2 = "p1\<lparr>po_channel := (po_channel p1)\<lparr>ch_in := rest\<rparr>\<rparr>"
  have len: "unat (ms_length m1) = length bytes" "0 < length bytes" using m1 bytes(1) R by (auto simp: sameHeader_def unat_gt_0)
  have "channelReceive (unat (ms_length m1)) (po_channel p1) = (Inr (), bytes, (po_channel p1)\<lparr>ch_in := rest\<rparr>)"
    using len p1 R by (simp add: channelReceive_def same_out_def open_channel_def)
  then have wait2: "waitRequest ?al (zeroMessage\<lparr>ms_allocator := \<not> wk_shared wk\<rparr>) (cs_port cs) ?w = Some (Inr (), ?m2, ?p2, w1)"
    unfolding wait using written by (simp add: readPayload_def)
  let ?cs1 = "cs\<lparr>cs_message := ?m2, cs_port := ?p2, cs_world := w1\<rparr>"
  have f: "ms_payloadType ?m2 = MptData" "ms_code ?m2 = 0x35" "ms_parameter0 ?m2 = ms_parameter0 m" "ms_parameter1 ?m2 = ?q"
    "ms_sequenceNumber ?m2 = ms_sequenceNumber m" using m1 R by (simp_all add: sameHeader_def)
  have version: "peerApiVersion ?i w1 = RPC_VERSION" using R by (simp add: peerApiVersion_def w1_def)
  define w2 where "w2 = putStream k x1 (so_stream x1) w1"
  have closed: "close e ?i ?q None False (so_stream x1) = (Inl GenericException, so_stream x1)" for e
    by (rule close_foreign) (use R foreign in \<open>simp_all add: s1 foreign_parts foreign_mapping\<close>)
  have d: "dispatch env wk (RPC_VER_AND_CODE (peerApiVersion ?i w1) (ms_code ?m2)) ?cs1 =
      Some (Inl GenericException, ?cs1\<lparr>cs_world := w2\<rparr>)"
    unfolding version f(2) using f(1,3,4) get1 closed session_codes(2)
    by (simp add: dispatch_def testMessage_def callHandler_def handleStreamClose_def w2_def)
  have "held ?m2" using f(1) custom_flagged by (simp add: held_def owned_ok_def)
  then have ready: "ready wk (?cs1\<lparr>cs_world := w2\<rparr>)" using R p1(1) by (simp add: ready_def open_channel_def same_out_def)
  let ?r = "ReplyData (hv_what env GenericException) (fst (hv_error env GenericException)) (snd (hv_error env GenericException))"
  obtain cs3 where fail: "respond wk SC_Failed ?r (?cs1\<lparr>cs_world := w2\<rparr>) = Some (Inr (), cs3)" "answered SC_Failed (?cs1\<lparr>cs_world := w2\<rparr>) cs3"
    using respond_answers [OF ready, of ?r SC_Failed] by auto
  then have "serveRequest env wk cs = Some (Continue, cs3)"
    using wait2 d alive by (simp add: serveRequest_def Let_def)
  moreover have "cs_world cs3 = w2" using fail(1) by (auto simp: respond_def split: option.splits)
  moreover have "memoryAt k ?b w2 = buf" using putStream_memory [OF st1(1), of x1 "so_stream x1"] s1 by (simp add: w2_def)
  moreover have "sv_data buf n = take (length (sv_data (ss_buffer (so_stream x)) n)) bytes"
    unfolding buf_def by (rule writePayload_data) (rule bytes(2))
  moreover have "responds (ms_sequenceNumber m) SC_Failed (po_channel (cs_port cs)) (po_channel (cs_port cs3))"
    using fail(2) f(5) p1(1) by (simp add: answered_def responds_def same_out_def)
  ultimately show ?thesis by auto
qed

section \<open>A small server\<close>

text \<open>
  One store with one buffer of one segment (of 8 bytes), which the session 9 is writing; the worker of session 1, which
  has the store open too, receives \<open>input\<close>.
\<close>

definition demoStream :: server_stream where
  "demoStream =
     addSegmentLocation (newLocation 0 9 0)
       (newServerStream \<lparr>sr_store = 0, sr_id = 0, sr_typeFlags = 0, sr_entrySize = 8\<rparr> 0 (\<lambda>_. \<lparr>wc_count = 0, wc_errors = []\<rparr>)
          (initializeSegments 1 0 True (\<lambda>_. control_zero) (\<lambda>_. replicate 8 0)))"

definition demoDescriptor :: StreamDescriptor where
  "demoDescriptor =
     \<lparr>sd_name = ''s'', sd_flags = 0,
      sd_type = \<lparr>ty_name = ''t'', ty_id = (0, 0, 0, replicate 8 0), ty_flags = 0, ty_entrySize = 8\<rparr>\<rparr>"

definition demoMemory :: memory where
  "demoMemory =
     \<lparr>mm_geometry = \<lparr>bf_id = 0, bf_segmentSize = 8, bf_lineSize = 4096, bf_numSegments = 1\<rparr>, mm_handle = 5,
      mm_buffer = ss_buffer demoStream\<rparr>"

definition demoObject :: "server_stream stream_object" where
  "demoObject = \<lparr>so_id = 0, so_desc = demoDescriptor, so_bufferId = 0, so_stream = demoStream\<rparr>"

definition demoStore :: "unit trace_store" where
  "demoStore =
     \<lparr>sr_id = 0, sr_name = ''a'', sr_configurationLocked = False, sr_numRegularStreams = 1, sr_numDynamicStreams = 0,
      sr_buffers = [(0, demoMemory)], sr_streams = [(0, demoObject)], vs_referenceCount = 3, vs_references = [9, 1],
      vs_nextBufferId = 1, vs_nextStreamId = 1, vs_encoderMap = []\<rparr>"

definition demoWorld :: "unit world" where
  "demoWorld =
     \<lparr>wd_server =
        \<lparr>sy_sessions = [(1, \<lparr>es_peerApiVersion = RPC_VERSION, es_workers = [7], es_referenceCount = 1, es_isAlive = True, es_store = Some 0\<rparr>)],
         sy_nextSessionId = 10, sy_canCreateSession = True,
         sy_manager = \<lparr>mg_persistentCache = 0, mg_nextStoreId = 1,
           mg_stores = [(0, \<lparr>rf_name = ''a'', rf_store = Some demoStore, rf_dormant = False, rf_dormantTime = 0\<rparr>)]\<rparr>\<rparr>,
      wd_pool = demoMemory\<rparr>"

definition demoState :: "u8 list \<Rightarrow> unit call_state" where
  "demoState input = \<lparr>cs_message = zeroMessage, cs_port = newPort input, cs_world = demoWorld, cs_stop = False\<rparr>"

definition demoWorker :: worker where
  "demoWorker = \<lparr>wk_session = 1, wk_wait = 0, wk_shared = False\<rparr>"

text \<open>A request to close the segment 0 of the stream 0, with a payload of the given length.\<close>

definition demoClose :: "u32 \<Rightarrow> message" where
  "demoClose n = zeroMessage\<lparr>ms_sequenceNumber := 3, ms_payloadType := MptData, ms_code := 0x35, ms_length := n\<rparr>"

lemmas demo_defs = demoWorld_def demoStore_def demoObject_def demoMemory_def demoWorker_def demoState_def newPort_def newChannel_def

lemma demo_mapping: "getBufferMapping 0 demoStream = Some 0" "locAt 0 demoStream = newLocation 0 9 0"
  by (simp_all add: getBufferMapping_def segmentIsAllocated_def locAt_def demoStream_def addSegmentLocation_def newServerStream_def
      newLocation_def Let_def INVALID_OBJECT_ID_def)

lemma demo_request:
  assumes "n \<noteq> 0"
  shows "segmentRequest demoWorker (demoClose n) rest 0 demoObject 0 72 (demoState (message_bytes (demoClose n) @ rest))"
proof -
  have "sessionGetStream 1 0 demoWorld = Inr (0, demoObject)"
    by (simp add: sessionGetStream_def sessionStore_def getStore_def getStream_def getMemory_def demo_defs SERVER_BUFFER_ID_def INVALID_OBJECT_ID_def)
  moreover have "getSegmentAsPayload (geometryAt 0 0 demoWorld) (Some 0) = Inr (0, 72)"
    by (simp add: getSegmentAsPayload_def getSegment_def geometryAt_def getStore_def getMemory_def demo_defs SERVER_BUFFER_ID_def
        INVALID_OBJECT_ID_def sizeof_SegmentControlElement_def)
  moreover have "peerApiVersion 1 demoWorld = RPC_VERSION" by (simp add: peerApiVersion_def demo_defs)
  ultimately show ?thesis using assms demo_mapping
    by (simp add: segmentRequest_def demoClose_def zeroMessage_def message_ok_def MptData_def demoState_def demoWorker_def newPort_def
        newChannel_def open_channel_def demoObject_def word_less_nat_alt)
qed

theorem wrong_length_frees_segment_witness:
  "\<forall>env. serveRequest env demoWorker (demoState (message_bytes (demoClose 4) @ [1, 2, 3, 4])) = None"
proof
  fix env :: "unit handler_env"
  have "serveRequest env demoWorker (demoState (message_bytes (demoClose 4) @ [1, 2, 3, 4])) = None"
    by (rule conjunct2, rule wrong_length_frees_segment [OF demo_request]) (simp_all add: demoClose_def)
  then show "serveRequest env demoWorker (demoState (message_bytes (demoClose 4) @ [1, 2, 3, 4])) = None" .
qed

theorem foreign_segment_overwritten_witness:
  "\<forall>env. \<exists>cs'. serveRequest env demoWorker (demoState (message_bytes (demoClose 72) @ replicate 72 7)) = Some (Continue, cs') \<and>
    sv_data (memoryAt 0 0 (cs_world cs')) 0 = replicate 8 7"
proof
  fix env :: "unit handler_env"
  let ?cs = "demoState (message_bytes (demoClose 72) @ replicate 72 7)"
  have "segmentRequest demoWorker (demoClose 72) (replicate 72 7 @ []) 0 demoObject 0 72 ?cs" using demo_request [of 72 "replicate 72 7"] by simp
  moreover have "sv_data (ss_buffer (so_stream demoObject)) 0 = replicate 8 0"
    by (simp add: demoObject_def demoStream_def newServerStream_def initializeSegments_def addSegmentLocation_def Let_def)
  moreover have "lc_referenceMap (locAt (ms_parameter1 (demoClose 72)) (so_stream demoObject)) (wk_session demoWorker) = None"
    using demo_mapping by (simp add: demoClose_def zeroMessage_def demoObject_def demoWorker_def newLocation_def)
  ultimately obtain cs' where "serveRequest env demoWorker ?cs = Some (Continue, cs')"
    "sv_data (memoryAt 0 (so_bufferId demoObject) (cs_world cs')) 0 = take 8 (replicate 72 7)"
    using foreign_segment_overwritten [of demoWorker "demoClose 72" "replicate 72 7" "[]" 0 demoObject 0 72 ?cs env]
    by (auto simp: demoClose_def demoState_def)
  then show "\<exists>cs'. serveRequest env demoWorker ?cs = Some (Continue, cs') \<and> sv_data (memoryAt 0 0 (cs_world cs')) 0 = replicate 8 7"
    by (auto simp: demoObject_def)
qed

text \<open>A request to close the session, which the worker answers before it stops.\<close>

definition demoBye :: message where
  "demoBye = zeroMessage\<lparr>ms_sequenceNumber := 3, ms_code := 0x13\<rparr>"

lemma wait_embedded:
  assumes "message_ok m" "ms_payloadType m = MptEmbedded" and "ch_connected (po_channel p)" "ch_in (po_channel p) = message_bytes m @ rest"
  shows "\<exists>m1 p1. waitRequest al (zeroMessage\<lparr>ms_allocator := b\<rparr>) p w = Some (Inr (), m1, p1, w) \<and> sameHeader m m1"
proof -
  let ?z = "zeroMessage\<lparr>ms_allocator := b\<rparr>"
  let ?m = "message_read (message_bytes m) ?z"
  have same: "sameHeader m ?m" by (rule header_roundtrip) (rule assms(1))
  have "discardMessage ?z = Some (Inr (), ?z)"
    by (simp add: discardMessage_def zeroMessage_def Let_def MptEmbedded_def)
  moreover have "channelReceive MESSAGE_SIZE (po_channel p) = (Inr (), message_bytes m, (po_channel p)\<lparr>ch_in := rest\<rparr>)"
    using assms(3,4) by (simp add: channelReceive_def MESSAGE_SIZE_def)
  moreover have "ms_payloadType ?m = MptEmbedded" using same assms(2) by (simp add: sameHeader_def)
  ultimately show ?thesis using same by (simp add: waitRequest_def receiveMessage_def Let_def)
qed

lemma demoBye_served:
  "\<exists>cs'. serveRequest env demoWorker (demoState (message_bytes demoBye)) = Some (Continue, cs') \<and> cs_stop cs'"
proof -
  let ?cs = "demoState (message_bytes demoBye)"
  let ?al = "workerAllocator (wk_session demoWorker)"
  have ok: "message_ok demoBye" "ms_payloadType demoBye = MptEmbedded"
    by (simp_all add: demoBye_def zeroMessage_def message_ok_def MptEmbedded_def)
  have ch: "ch_connected (po_channel (cs_port ?cs))" "ch_in (po_channel (cs_port ?cs)) = message_bytes demoBye @ []"
    by (simp_all add: demoState_def newPort_def newChannel_def)
  from wait_embedded [OF ok ch, of ?al "\<not> wk_shared demoWorker" "cs_world ?cs"]
  obtain m p where wait: "waitRequest ?al (zeroMessage\<lparr>ms_allocator := \<not> wk_shared demoWorker\<rparr>) (cs_port ?cs) (cs_world ?cs) =
      Some (Inr (), m, p, cs_world ?cs)" and m: "sameHeader demoBye m" by blast
  let ?cs1 = "?cs\<lparr>cs_message := m, cs_port := p, cs_world := cs_world ?cs\<rparr>"
  have "open_channel (po_channel (cs_port ?cs))" by (simp add: demoState_def newPort_def newChannel_def open_channel_def)
  from received_ready [OF wait this, of demoWorker] have ready: "ready demoWorker ?cs1" by (simp add: demoWorker_def)
  have f: "ms_code m = 0x13" "ms_payloadType m = MptEmbedded" using m by (simp_all add: sameHeader_def demoBye_def zeroMessage_def MptEmbedded_def)
  have v: "peerApiVersion (wk_session demoWorker) (cs_world ?cs) = RPC_VERSION"
    by (simp add: peerApiVersion_def demo_defs)
  from respond_answers [OF ready_untouched [OF ready, of "?cs1\<lparr>cs_stop := True\<rparr>"], of "ReplyEmbedded 0 0" SC_Success]
  obtain cs2 where r: "respond demoWorker SC_Success (ReplyEmbedded 0 0) (?cs1\<lparr>cs_stop := True\<rparr>) = Some (Inr (), cs2)"
    by (auto simp: SC_Success_def SC_Failed_def)
  then have stop: "cs_stop cs2" by (auto simp: respond_def split: option.splits)
  from r have "dispatch env demoWorker (RPC_VER_AND_CODE RPC_VERSION (ms_code m)) ?cs1 = Some (Inr (), cs2)"
    unfolding f(1) using f(2) session_codes(1)
    by (simp add: dispatch_def testMessage_def callHandler_def handleSessionClose_def)
  then show ?thesis using wait v stop by (simp add: serveRequest_def Let_def)
qed

theorem one_response_witness:
  "\<forall>env. \<exists>cs'. serveRequest env demoWorker (demoState (message_bytes demoBye)) = Some (Continue, cs') \<and>
    (\<exists>status\<in>{SC_Success, SC_Failed}. responds 3 status (newChannel (message_bytes demoBye)) (po_channel (cs_port cs')))"
proof
  fix env :: "unit handler_env"
  let ?in = "message_bytes demoBye"
  obtain cs' where s: "serveRequest env demoWorker (demoState ?in) = Some (Continue, cs')"
    using demoBye_served by blast
  have "open_channel (po_channel (cs_port (demoState ?in)))" "\<not> wk_shared demoWorker"
    by (simp_all add: demo_defs open_channel_def)
  with one_response [OF s] have "\<exists>status\<in>{SC_Success, SC_Failed}.
      responds (hd ?in) status (newChannel ?in) (po_channel (cs_port cs'))" by (auto simp: demoState_def newPort_def newChannel_def)
  moreover have "hd ?in = 3" by (simp add: message_bytes_def demoBye_def)
  ultimately show "\<exists>cs'. serveRequest env demoWorker (demoState ?in) = Some (Continue, cs') \<and>
    (\<exists>status\<in>{SC_Success, SC_Failed}. responds 3 status (newChannel ?in) (po_channel (cs_port cs')))" using s by auto
qed

theorem worker_loop_ends_witness:
  "\<forall>env. runWorker 2 env 0 demoWorker (demoState (message_bytes demoBye)) \<noteq> OutOfFuel \<and>
    (\<exists>cs'. runWorker 2 env 0 demoWorker (demoState (message_bytes demoBye)) = Returned 0 cs')"
proof
  fix env :: "nat \<Rightarrow> unit handler_env"
  let ?cs = "demoState (message_bytes demoBye)"
  have "runWorker 2 env 0 demoWorker ?cs \<noteq> OutOfFuel"
    by (rule worker_loop_ends [THEN conjunct1]) (simp_all add: demo_defs open_channel_def MESSAGE_SIZE_def)
  moreover obtain cs' where s: "serveRequest (env 0) demoWorker ?cs = Some (Continue, cs')" "cs_stop cs'" using demoBye_served by blast
  have "\<not> cs_stop ?cs" by (simp add: demoState_def)
  then have "runWorker 2 env 0 demoWorker ?cs = Returned 0 cs'"
    using s by (simp add: runWorker.simps numeral_2_eq_2)
  ultimately show "runWorker 2 env 0 demoWorker ?cs \<noteq> OutOfFuel \<and> (\<exists>cs'. runWorker 2 env 0 demoWorker ?cs = Returned 0 cs')" by blast
qed

end
