(* ===== verification/Server_Life.thy ===== *)
theory Server_Life
  imports Worker_Faults Stream_Buffer
begin

text \<open>
  The server over its life: what the requests without a session and the workers do to the sessions, which versions
  of the API are ever in use, and the size of the memory pools.
\<close>

section \<open>Versions of the API\<close>

lemma version_of_code: "drop_bit 16 (RPC_VER_AND_CODE v c) = ucast v"
  by (rule bit_word_eqI) (auto simp: RPC_VER_AND_CODE_def bit_simps dest: bit_imp_le_length)

lemma ucast_version: "(ucast (v :: u16) :: u32) = ucast v' \<Longrightarrow> v = v'"
proof (rule bit_word_eqI)
  fix n
  assume "(ucast v :: u32) = ucast v'" "n < LENGTH(16)"
  then have "bit (ucast v :: u32) n = bit (ucast v' :: u32) n" by (simp only:)
  then show "bit v n = bit v' n" using \<open>n < LENGTH(16)\<close> by (simp add: bit_ucast_iff)
qed

lemma server_codes: "c \<in> set (map fst serverHandlers) \<Longrightarrow> drop_bit 16 c = ucast RPC_VERSION"
proof -
  have "list_all (\<lambda>c. drop_bit 16 c = ucast RPC_VERSION) (map fst serverHandlers)" by code_simp
  then show "c \<in> set (map fst serverHandlers) \<Longrightarrow> drop_bit 16 c = ucast RPC_VERSION" by (auto simp: list_all_iff)
qed

lemma server_call_version:
  assumes "map_of serverHandlers (RPC_VER_AND_CODE v c) = Some call"
  shows "v = RPC_VERSION"
proof -
  have "RPC_VER_AND_CODE v c \<in> set (map fst serverHandlers)" using map_of_SomeD [OF assms] by force
  from server_codes [OF this] show ?thesis using version_of_code by (metis ucast_version)
qed

definition versions :: "(u32 \<times> session) list \<Rightarrow> bool" where
  "versions m \<longleftrightarrow> (\<forall>(i, x)\<in>set m. es_peerApiVersion x = RPC_VERSION)"

definition versions_ok :: "'f world \<Rightarrow> bool" where
  "versions_ok w \<longleftrightarrow> versions (sy_sessions (wd_server w))"

lemma mapPut_set: "set (mapPut k v m) \<subseteq> insert (k, v) (set m)"
  by (induction k v m rule: mapPut.induct) auto

lemma versions_put [simp]: "versions m \<Longrightarrow> es_peerApiVersion x = RPC_VERSION \<Longrightarrow> versions (mapPut i x m)"
  using mapPut_set [of i x m] by (fastforce simp: versions_def)

lemma versions_erase [simp]: "versions m \<Longrightarrow> versions (mapErase i m)"
  by (auto simp: versions_def mapErase_def)

lemma version_at [simp]: "versions m \<Longrightarrow> map_of m i = Some x \<Longrightarrow> es_peerApiVersion x = RPC_VERSION"
  by (auto simp: versions_def dest: map_of_SomeD)

text \<open>The operations on sessions.\<close>

lemma session_versions:
  assumes "versions (sy_sessions s)"
  shows "versions (sy_sessions (snd (createSession RPC_VERSION worker s)))"
    and "versions (sy_sessions (snd (openLocalSession v worker i s)))"
    and "versions (sy_sessions (snd (sessionOpenStore env specifier always opening i s)))"
    and "versions (sy_sessions (snd (sessionCloseStore env now i s)))"
    and "versions (sy_sessions (snd (detachWorker env now worker i s)))"
  using assms version_at [OF assms]
  by (auto simp: createSession_def openLocalSession_def attachSession_def sessionOpenStore_def sessionCloseStore_def
      closeSessionStore_def detachWorker_def setSession_def throwOn_def split: sum.splits prod.splits option.splits if_splits)

lemma saveStore_versions [simp]: "versions_ok (saveStore b buffer k st w) = versions_ok w"
  by (simp add: versions_ok_def)

lemma setStore_versions [simp]: "versions_ok (setStore k st w) = versions_ok w"
  by (simp add: versions_ok_def)

lemma putStream_versions [simp]: "versions_ok (putStream k x s w) = versions_ok w"
  by (simp add: putStream_def split: sum.splits)

lemma withStore_versions: "withStore i f w = (r, w') \<Longrightarrow> versions_ok w' = versions_ok w"
  by (auto simp: withStore_def split: sum.splits prod.splits)

lemma respond_world: "respond wk status r cs = Some (res, cs') \<Longrightarrow> cs_world cs' = cs_world cs"
  by (auto simp: respond_def split: option.splits)

lemma respondOnly_world: "respondOnly wk r cs = Some (res, cs') \<Longrightarrow> cs_world cs' = cs_world cs"
  by (auto simp: respondOnly_def dest: respond_world)

lemma respondOrClose_versions: "respondOrClose env wk k x sqn r cs = Some (res, cs') \<Longrightarrow> versions_ok (cs_world cs') = versions_ok (cs_world cs)"
  by (auto simp: respondOrClose_def dest: respondOnly_world split: option.splits sum.splits prod.splits)

lemma withServer_versions:
  assumes "withServer f cs = Some (r, cs')" and "versions (sy_sessions (snd (f (wd_server (cs_world cs)))))"
  shows "versions_ok (cs_world cs')"
  using assms by (auto simp: withServer_def versions_ok_def split: prod.splits)

lemma callHandler_versions:
  assumes ok: "versions_ok (cs_world cs)" and c: "callHandler env wk code call cs = Some (r, cs')"
  shows "versions_ok (cs_world cs')"
proof -
  have s: "versions (sy_sessions (wd_server (cs_world cs)))" using ok by (simp add: versions_ok_def)
  show ?thesis
  proof (cases call)
    case StoreCreate
    then show ?thesis using c session_versions(3) [OF s]
      by (auto simp: callHandler_def handleStoreCreate_def Let_def intro: withServer_versions split: if_splits)
  next
    case StoreClose
    then show ?thesis using c session_versions(4) [OF s]
      by (auto simp: callHandler_def handleStoreClose_def intro: withServer_versions)
  next
    case StreamBufferRegister
    then show ?thesis using c ok
      by (auto simp: callHandler_def handleStreamBufferRegister_def sessionRegisterStreamBuffer_def Let_def
          dest!: respondOnly_world withStore_versions split: prod.splits sum.splits if_splits)
  next
    case StreamRegister
    then show ?thesis using c ok
      by (auto simp: callHandler_def handleStreamRegister_def sessionRegisterStream_def Let_def
          dest!: respondOnly_world withStore_versions split: prod.splits sum.splits)
  qed (use c ok in \<open>auto simp: callHandler_def handleSessionClose_def handleSessionSetConfiguration_def handleStreamBufferEnumerate_def
      handleStreamBufferQuery_def handleStreamEnumerate_def handleStreamQuery_def handleStreamAppend_def handleStreamCloseAndOpen_def
      handleStreamClose_def Let_def dest!: respondOnly_world respondOrClose_versions split: prod.splits sum.splits option.splits if_splits\<close>)
qed

text \<open>Receiving changes the world through the payload allocator only.\<close>

lemma receive_keeps:
  assumes keep: "\<And>a b w. P (al_write al a b w) = P w" and c: "waitRequest al m0 p w = Some (r, m, p', w')"
  shows "P w' = P w"
proof -
  have fail: "failReceive e m p w = Some (r, m', p', w') \<Longrightarrow> w' = w" for e m p w r m' p' w'
    by (auto simp: failReceive_def split: option.splits sum.splits)
  have read: "readPayload al address m p w = Some (r, m', p', w') \<Longrightarrow> P w' = P w" for address m p w r m' p' w'
    using keep by (auto simp: readPayload_def dest!: fail split: prod.splits option.splits sum.splits)
  have payload: "receivePayload al m p w = Some (r, m', p', w') \<Longrightarrow> P w' = P w" for m p w r m' p' w'
    by (auto simp: receivePayload_def Let_def dest!: fail read split: prod.splits sum.splits)
  have "receiveMessage al m p w = Some (r, m', p', w') \<Longrightarrow> P w' = P w" for m p w r m' p' w'
    by (auto simp: receiveMessage_def Let_def dest!: fail payload split: prod.splits sum.splits if_splits)
  then show ?thesis using c by (auto simp: waitRequest_def split: option.splits sum.splits)
qed

lemma dispatch_versions:
  assumes "versions_ok (cs_world cs)" and "dispatch env wk code cs = Some (r, cs')"
  shows "versions_ok (cs_world cs')"
  using assms callHandler_versions [OF assms(1)]
  by (auto simp: dispatch_def dest!: respond_world split: option.splits sum.splits if_splits bool.splits)

lemma serve_versions:
  assumes ok: "versions_ok (cs_world cs)" and c: "serveRequest env wk cs = Some (it, cs')"
  shows "versions_ok (cs_world cs')"
proof -
  obtain r m p w where wait: "waitRequest (workerAllocator (wk_session wk)) (zeroMessage\<lparr>ms_allocator := \<not> wk_shared wk\<rparr>) (cs_port cs) (cs_world cs) =
      Some (r, m, p, w)" using c by (auto simp: serveRequest_def split: option.splits)
  have "versions_ok (al_write (workerAllocator (wk_session wk)) a b v) = versions_ok v" for a b and v :: "'a world"
    by (simp add: workerAllocator_def split: prod.splits)
  from receive_keeps [where P = versions_ok, OF this wait] ok have w: "versions_ok w" by simp
  let ?cs = "cs\<lparr>cs_message := m, cs_port := p, cs_world := w\<rparr>"
  show ?thesis
  proof (cases r)
    case (Inl e)
    then show ?thesis using c wait w by (auto simp: serveRequest_def Let_def)
  next
    case (Inr u)
    then obtain res cs2 where d: "dispatch env wk (RPC_VER_AND_CODE (peerApiVersion (wk_session wk) w) (ms_code m)) ?cs = Some (res, cs2)"
      using c wait by (auto simp: serveRequest_def Let_def split: option.splits)
    have "versions_ok (cs_world cs2)" by (rule dispatch_versions [OF _ d]) (simp add: w)
    then show ?thesis using c wait Inr d
      by (auto simp: serveRequest_def Let_def dest!: respond_world split: sum.splits option.splits if_splits)
  qed
qed

lemma answer_world: "answer status r rr = Some (res, rr') \<Longrightarrow> rr_world rr' = rr_world rr"
  by (auto simp: answer_def split: option.splits)

lemma answerOnly_world: "answerOnly r rr = Some (res, rr') \<Longrightarrow> rr_world rr' = rr_world rr"
  by (auto simp: answerOnly_def dest: answer_world)

lemma dispatchServer_versions:
  assumes ok: "versions_ok (rr_world rr)" and c: "dispatchServer worker rr = Some (r, rr')"
  shows "versions_ok (rr_world rr')"
proof (cases "map_of serverHandlers (RPC_VER_AND_CODE (ucast (ms_parameter0 (rr_message rr))) (ms_code (rr_message rr)))")
  case None
  then show ?thesis using c ok by (simp add: dispatchServer_def Let_def)
next
  case (Some call)
  have v: "ucast (ms_parameter0 (rr_message rr)) = RPC_VERSION" by (rule server_call_version [OF Some])
  have s: "versions (sy_sessions (wd_server (rr_world rr)))" using ok by (simp add: versions_ok_def)
  have c': "callServerHandler worker call rr = Some (r, rr')" using c Some by (simp add: dispatchServer_def Let_def)
  show ?thesis using c' ok session_versions(1) [OF s, of worker] session_versions(2) [OF s, of RPC_VERSION worker "ms_parameter1 (rr_message rr)"] v
    by (cases call) (auto simp: callServerHandler_def handlePeekVersion_def handleEnumerateSessions_def handleSessionCreate_def
        handleSessionOpen_def versions_ok_def Let_def dest!: answerOnly_world split: if_splits prod.splits)
qed

lemma process_versions:
  assumes ok: "versions_ok w" and c: "processRequest env worker port w = Some (conn, rr)"
  shows "versions_ok (rr_world rr)"
proof -
  obtain r m p w1 where wait: "waitRequest serverAllocator zeroMessage port w = Some (r, m, p, w1)"
    using c by (auto simp: processRequest_def split: option.splits)
  have "versions_ok (al_write serverAllocator a b v) = versions_ok v" for a b and v :: "'a world" by (simp add: serverAllocator_def)
  from receive_keeps [where P = versions_ok, OF this wait] ok have w: "versions_ok w1" by simp
  let ?rr = "\<lparr>rr_message = m, rr_port = p, rr_world = w1\<rparr>"
  have "versions_ok (rr_world rr1)" if "(case r of Inl e \<Rightarrow> Some (Inl e, ?rr) | Inr _ \<Rightarrow> dispatchServer worker ?rr) = Some (x, rr1)" for x rr1
    using that w dispatchServer_versions [of ?rr worker] by (auto split: sum.splits)
  then show ?thesis using c wait
    by (auto simp: processRequest_def Let_def dest!: answer_world split: option.splits sum.splits if_splits)
qed

section \<open>The life of the server\<close>

text \<open>
  The steps of the server: requests without a session, requests of sessions, workers that leave their session,
  and whatever else happens to stores and buffers.
\<close>

inductive server_life :: "'f world \<Rightarrow> bool" where
  start: "server_life \<lparr>wd_server = newServer cache, wd_pool = pool\<rparr>"
| request: "server_life w \<Longrightarrow> processRequest env worker port w = Some (conn, rr) \<Longrightarrow> server_life (rr_world rr)"
| serve: "server_life (cs_world cs) \<Longrightarrow> serveRequest env wk cs = Some (it, cs') \<Longrightarrow> server_life (cs_world cs')"
| detach: "server_life w \<Longrightarrow> server_life (w\<lparr>wd_server := snd (detachWorker menv now worker i (wd_server w))\<rparr>)"
| others: "server_life w \<Longrightarrow> sy_sessions (wd_server w') = sy_sessions (wd_server w) \<Longrightarrow> server_life w'"

lemma life_versions: "server_life w \<Longrightarrow> versions_ok w"
proof (induction rule: server_life.induct)
  case (start cache pool)
  then show ?case by (simp add: versions_ok_def versions_def newServer_def)
next
  case (detach w menv now worker i)
  then show ?case using session_versions(5) by (simp add: versions_ok_def)
next
  case (others w w')
  then show ?case by (simp add: versions_ok_def)
qed (simp_all add: process_versions serve_versions)

text \<open>
  C35: Only the current version: every session of a running server has the version of the server, because the requests
  that create a session have no handlers for older versions; the handlers for the requests of version 3.0 and
  3.1 are never called.
\<close>

theorem only_current_version:
  assumes "server_life w" and "map_of (sy_sessions (wd_server w)) i = Some x"
  shows "es_peerApiVersion x = RPC_VERSION \<and>
    RPC_VER_AND_CODE (peerApiVersion i w) code \<noteq> CCV30_StreamCloseAndOpen \<and>
    RPC_VER_AND_CODE (peerApiVersion i w) code \<noteq> CCV31 0x31"
proof -
  have x: "es_peerApiVersion x = RPC_VERSION" using life_versions [OF assms(1)] assms(2) by (simp add: versions_ok_def)
  have "drop_bit 16 (RPC_VER_AND_CODE (peerApiVersion i w) code) = ucast RPC_VERSION"
    using x assms(2) by (simp add: version_of_code peerApiVersion_def)
  moreover have "drop_bit 16 CCV30_StreamCloseAndOpen \<noteq> ucast RPC_VERSION" "drop_bit 16 (CCV31 0x31) \<noteq> ucast RPC_VERSION"
    by code_simp+
  ultimately show ?thesis using x by metis
qed

text \<open>A server with one session, which a request has created.\<close>

definition demoHello :: message where
  "demoHello = zeroMessage\<lparr>ms_sequenceNumber := 1, ms_code := 0x10, ms_parameter0 := ucast RPC_VERSION\<rparr>"

definition emptyWorld :: "unit world" where
  "emptyWorld = \<lparr>wd_server = newServer 0, wd_pool = demoMemory\<rparr>"

lemma demoHello_served: "\<exists>rr. processRequest env 7 (newPort (message_bytes demoHello)) emptyWorld = Some (Session 0, rr) \<and>
    map_of (sy_sessions (wd_server (rr_world rr))) 0 =
      Some \<lparr>es_peerApiVersion = RPC_VERSION, es_workers = [7], es_referenceCount = 1, es_isAlive = True, es_store = None\<rparr>"
proof -
  let ?p = "newPort (message_bytes demoHello)"
  have ok: "message_ok demoHello" "ms_payloadType demoHello = MptEmbedded"
    by (simp_all add: demoHello_def zeroMessage_def message_ok_def MptEmbedded_def)
  have ch: "ch_connected (po_channel ?p)" "ch_in (po_channel ?p) = message_bytes demoHello @ []"
    by (simp_all add: newPort_def newChannel_def)
  have z: "zeroMessage\<lparr>ms_allocator := False\<rparr> = zeroMessage" by (simp add: zeroMessage_def)
  from wait_embedded [OF ok ch, of serverAllocator False emptyWorld]
  obtain m p where wait: "waitRequest serverAllocator zeroMessage ?p emptyWorld = Some (Inr (), m, p, emptyWorld)" and m: "sameHeader demoHello m"
    unfolding z by blast
  have f: "ms_code m = 0x10" "ms_payloadType m = MptEmbedded" "ms_parameter0 m = ucast RPC_VERSION"
    using m ok(2) by (simp_all add: sameHeader_def demoHello_def)
  have code: "map_of serverHandlers (RPC_VER_AND_CODE RPC_VERSION 0x10) = Some SessionCreate" by code_simp
  have v: "ucast (ucast RPC_VERSION :: u32) = RPC_VERSION" by code_simp
  obtain sv where c: "createSession RPC_VERSION 7 (wd_server emptyWorld) = (Inr 0, sv)" "map_of (sy_sessions sv) 0 =
      Some \<lparr>es_peerApiVersion = RPC_VERSION, es_workers = [7], es_referenceCount = 1, es_isAlive = True, es_store = None\<rparr>"
    by (simp add: createSession_def emptyWorld_def newServer_def getNextId_def INVALID_OBJECT_ID_def setSession_def)
  have "dispatchServer 7 \<lparr>rr_message = m, rr_port = p, rr_world = emptyWorld\<rparr> =
      Some (Inr (Session 0), \<lparr>rr_message = m, rr_port = p, rr_world = emptyWorld\<lparr>wd_server := sv\<rparr>\<rparr>)"
    using f v code c(1) by (simp add: dispatchServer_def Let_def callServerHandler_def testMessage_def handleSessionCreate_def)
  then show ?thesis using wait c(2) by (simp add: processRequest_def Let_def)
qed

theorem only_current_version_witness:
  "\<exists>w :: unit world. (\<exists>x. map_of (sy_sessions (wd_server w)) 0 = Some x \<and> es_peerApiVersion x = RPC_VERSION) \<and>
    RPC_VER_AND_CODE (peerApiVersion 0 w) 0x34 \<noteq> CCV30_StreamCloseAndOpen"
proof -
  obtain rr where rr: "processRequest undefined 7 (newPort (message_bytes demoHello)) emptyWorld = Some (Session 0, rr)"
    "map_of (sy_sessions (wd_server (rr_world rr))) 0 =
      Some \<lparr>es_peerApiVersion = RPC_VERSION, es_workers = [7], es_referenceCount = 1, es_isAlive = True, es_store = None\<rparr>"
    using demoHello_served by blast
  have "server_life (rr_world rr)" by (rule server_life.request [OF _ rr(1)]) (simp add: emptyWorld_def server_life.start)
  from only_current_version [OF this rr(2), of "0x34"] rr(2) show ?thesis by blast
qed

section \<open>The size of the memory pools\<close>

definition segmentBytes :: u64 where "segmentBytes = of_nat SIMUTRACE_MEMMGMT_SEGMENT_SIZE * MiB"

lemma segmentBytes_num: "segmentBytes = 0x4000000"
  by (simp add: segmentBytes_def SIMUTRACE_MEMMGMT_SEGMENT_SIZE_def MiB_def)

lemma minimum_num: "SIMUTRACE_SERVER_MEMMGMT_MINIMUM_POOLSIZE * MiB = 0x20000000"
  by (simp add: SIMUTRACE_SERVER_MEMMGMT_MINIMUM_POOLSIZE_def MiB_def)

lemma reducePool_fits: "poolSize \<le> 0x20000000 \<Longrightarrow> reducePool physicalMemory poolSize = poolSize"
  by (subst reducePool.simps) (auto simp: minimum_num dest: leD)

text \<open>The pool is not larger than the physical memory, unless it is the minimum.\<close>

lemma reducePool_bound: "reducePool physicalMemory poolSize \<le> max 0x20000000 physicalMemory"
proof (induction physicalMemory poolSize rule: reducePool.induct)
  case (1 physicalMemory poolSize)
  show ?case
  proof (cases "SIMUTRACE_SERVER_MEMMGMT_MINIMUM_POOLSIZE * MiB < poolSize \<and> physicalMemory < poolSize")
    case True
    then have "reducePool physicalMemory poolSize = reducePool physicalMemory (poolSize - of_nat SIMUTRACE_MEMMGMT_SEGMENT_SIZE * MiB)"
      by (subst reducePool.simps) (rule if_P)
    then show ?thesis using 1 [OF True] by (simp only:)
  next
    case False
    then have "reducePool physicalMemory poolSize = poolSize" by (subst reducePool.simps) (rule if_not_P)
    then show ?thesis using False by (auto simp: minimum_num le_max_iff_disj not_less)
  qed
qed

text \<open>
  The minimum is not enforced: a configured pool size from 1 to 511 MiB is accepted, although the minimum is 512 MiB, because the
  minimum is compared as a number of bytes; below 64 MiB, the pool has no segments, and no buffer can be
  created with it.
\<close>

theorem minimum_not_enforced:
  assumes "0 < conf" "conf < 512"
  shows "determinePoolSize conf physicalMemory = Inr (of_int (conf div 64)) \<and>
    (conf div 64 \<noteq> 0 \<or> newStreamBuffer bid segSize (of_int (conf div 64)) pageSize \<in> {Inl ArgumentException, Inl NotSupportedException})"
proof -
  obtain n where n: "conf = int n" "0 < n" "n < 512" using assms by (metis of_nat_0_less_iff of_nat_less_numeral_iff zero_less_imp_eq_int)
  have pool: "of_int conf * MiB = (of_nat (n * 0x100000) :: u64)" by (simp add: n MiB_def)
  have u: "unat (of_nat (n * 0x100000) :: u64) = n * 0x100000" by (rule unat_of_nat_small) (use n in simp)
  have big: "\<not> (of_nat (n * 0x100000) :: u64) < SIMUTRACE_SERVER_MEMMGMT_MINIMUM_POOLSIZE"
    unfolding word_less_nat_alt u using n by (simp add: SIMUTRACE_SERVER_MEMMGMT_MINIMUM_POOLSIZE_def)
  have "(of_nat (n * 0x100000) :: u64) \<le> 0x20000000" unfolding word_le_nat_alt u using n by simp
  note fits = reducePool_fits [OF this, of physicalMemory]
  have "unat ((of_nat (n * 0x100000) :: u64) div segmentBytes) = n div 64"
    unfolding unat_div u segmentBytes_num by simp
  then have q: "(ucast ((of_nat (n * 0x100000) :: u64) div segmentBytes) :: u32) = of_nat (n div 64)"
    by (metis of_nat_unat)
  moreover note q
  moreover have "of_nat (n div 64) = (of_int (conf div 64) :: u32)"
    unfolding n(1) by (metis of_int_of_nat_eq of_nat_numeral zdiv_int)
  ultimately have "determinePoolSize conf physicalMemory = Inr (of_int (conf div 64))"
    unfolding determinePoolSize_def Let_def pool segmentBytes_def [symmetric] using big fits by (simp only: throwOn_simps)
  moreover have "newStreamBuffer bid segSize 0 pageSize \<in> {Inl ArgumentException, Inl NotSupportedException}"
    by (simp add: newStreamBuffer_def)
  ultimately show ?thesis by auto
qed

theorem minimum_not_enforced_witness:
  "determinePoolSize 63 0x100000000 = Inr 0 \<and> newStreamBuffer 0 0x4000000 0 4096 \<in> {Inl ArgumentException, Inl NotSupportedException}"
  using minimum_not_enforced [of 63 "0x100000000" 0 "0x4000000" 4096] by simp

end
