(* ===== verification/Rpc_Call.thy ===== *)
theory Rpc_Call
  imports Worker_Faults
begin

text \<open>
  A call from a client to the worker of its session: the port of the client, the connection, the dispatch of
  the request, and the response.
\<close>

text \<open>What a worker sends can be received by a client without a payload allocator.\<close>

lemma response_received:
  assumes resp: "responds n status ch ch'" "ch_out ch = []" "\<not> ch_transfersHandles ch"
    and client: "ch_connected (po_channel q)" "ch_in (po_channel q) = ch_out ch'"
  shows "\<exists>r q'. receiveMessage al zeroMessage q mem = Some (Inr (), r, q', mem) \<and> ms_sequenceNumber r = n \<and> ms_code r = status \<and>
    (status = SC_Failed \<longrightarrow> ms_payloadType r = MptData) \<and> ch_in (po_channel q') = []"
proof -
  obtain m b where m: "ch_out ch' = message_bytes m @ b" "ms_sequenceNumber m = n" "ms_code m = status" "message_ok m"
    "length b = (if ms_payloadType m = MptData then unat (ms_length m) else 0)" "ms_payloadType m \<in> {MptEmbedded, MptData}"
    "status = SC_Failed \<longrightarrow> ms_payloadType m = MptData"
    using resp by (auto simp: responds_def)
  define m2 where "m2 = m\<lparr>ms_payload := (if b = [] then NullPtr else Borrowed b)\<rparr>"
  have bytes: "message_bytes m2 = message_bytes m" by (simp add: m2_def message_bytes_def)
  have ok: "message_ok m2" using m(4) by (simp add: m2_def message_ok_def)
  have b: "ms_payload m2 = (if b = [] then NullPtr else Borrowed b)" by (simp add: m2_def)
  have "ms_payloadType m2 = MptEmbedded \<or> ms_payloadType m2 = MptData \<and> length b = unat (ms_length m2)"
    using m(5,6) by (auto simp: m2_def)
  then have plain: "plain m2" using ok b unfolding plain_def by blast
  have "payloadBytes al m2 mem = b" if "ms_payloadType m = MptData" using m(5) that by (simp add: payloadBytes_def m2_def)
  then have "wire al mem m2 = message_bytes m @ b" using m(5,6) bytes by (auto simp: wire_def m2_def)
  then have inp: "ch_in (po_channel q) = wire al mem m2 @ []" using client(2) m(1) by simp
  have none: "\<not> ms_allocator zeroMessage" by (simp add: zeroMessage_def)
  obtain r where r: "receiveMessage al zeroMessage q mem =
      Some (Inr (), r, q\<lparr>po_channel := (po_channel q)\<lparr>ch_in := []\<rparr>, po_lastSequenceNumber := ms_sequenceNumber m2\<rparr>, mem)" "arrived al mem m2 r"
    using receive_plain [OF plain client(1) inp none, of al mem] by (elim exE conjE) (rule that)
  then show ?thesis using m by (auto simp: arrived_def sameHeader_def m2_def)
qed



end
