(* ===== verification/Spec2Isabelle.thy ===== *)
theory Spec2Isabelle
  imports Prelude Fcm Vpc4 Vpc4_Codec Memory_Encoder Variable_Entry Stor_Types Stream_Buffer
    Server_Buffer Buffer_Lists Buffer_Ops Buffer_Pool Server_Stream Stream_Inv Stream_Ops
    Stream_Open Stream_Steps Stream_Waits Stream_System
    Trace_Format Trace_Store Trace_Store_Inv Trace_Commit Trace_Open Trace_System
    Multiplexer Work_Pool Std_Map Store_Registry Store_Manager Store_Server
    Trace_Codec Trace_Streams
    Client_Stream Client_Read Client_Data
    Hidden_Lines Hidden_Inv Hidden_Encoder Hidden_Assoc
    Rpc_Message Rpc_Port Rpc_Dispatch Session_Worker Server_Requests
    Worker_Response Worker_Faults Server_Life Rpc_Call
begin

text \<open>
  A verification development for Simutrace, a tracing framework. A client writes trace entries to
  streams and reads them; the storage server keeps the streams in segments of 64 MiB, encodes the
  segments with type-specific encoders and writes them to a store. File names below are relative to
  \<open>src/simutrace\<close>; a file without a directory is in \<open>storageserver\<close>.

  \<^bold>\<open>The parts and how they interact.\<close> A client stream (\<open>libsimutrace\<close>) has at most one segment open for
  writing and any number of handles for reading; it asks the server for segments by sequence number.
  A session of the server looks the stream up in a store and passes the request to the server stream
  (\<open>ServerStream.cpp\<close>), which takes segments from the server stream buffer (\<open>ServerStreamBuffer.cpp\<close>), counts
  the references of the sessions, and gives closed segments back. The buffer submits a segment to the
  encoder of its stream; the encoder queues a work item in the worker pool (\<open>WorkQueue.cpp\<close>,
  \<open>WorkerPool.cpp\<close>), compresses the segment, commits a frame to the store (\<open>simtrace/Simtrace3Store.cpp\<close>) and
  completes the segment, which wakes up those that wait. Segments with memory accesses go through
  predictors first (\<open>simtrace/VPC4\<close>) and are spread over hidden streams, which are server streams with
  the generic encoder. The store manager (\<open>ServerStoreManager.cpp\<close>) shares the open stores between sessions.

  \<^bold>\<open>Conventions.\<close> Machine integers are words of their width; sequence numbers of the hidden streams and
  times of events are natural numbers, where the code only divides or counts. Code that throws
  returns \<open>error + 'a\<close> (\<open>res\<close>, in Prelude); an operation that changes an object returns the result and the
  new object, which also holds what was changed before a throw. A pointer into a mapping is an
  offset, a null pointer is \<open>None\<close>, \<open>std::map\<close> is a list sorted by key (Std_Map). What code outside this
  repository, or another thread, answers is an argument. Assertions are those of a release build:
  they are not checked, and what they claim is proved as an invariant or reported as a finding.

  \<^bold>\<open>Foundations.\<close> Prelude has the integers, the errors and the shared lemmas. Std_Map has ordered maps with
  the locale \<open>ordered_map\<close> and the allocation of ids (\<open>IdAllocator.h\<close>).

  \<^bold>\<open>Entries and types.\<close> Variable_Entry: the block format of data of variable size
  (\<open>include/SimuStorTypes.h\<close>). Stor_Types: links, ranges, index trees, control elements, statistics,
  descriptors, the checks of the \<open>Stream\<close> constructor, the table of memory types.

  \<^bold>\<open>Compression of memory accesses.\<close> Fcm and Vpc4: the finite context predictors and the compound
  predictors for the instruction pointer, the cycle count and values. Vpc4_Codec: the locale
  \<open>keyed_codec\<close>, interpreted for the three compound predictors; an encoder and a decoder in lock step reproduce
  every value. Memory_Encoder: \<open>_encode\<close> and \<open>_decode\<close> of \<open>simtrace/Simtrace3MemoryEncoder.h\<close>; the
  round trip of a segment, for any garbage in the memory that the code leaves uninitialised, and the
  bounds of every lane. Hidden_Lines: the buffer contexts that collect the sub segments of several memory
  segments (\<open>BufferContext\<close>), the lines (\<open>SegmentLine\<close>) and the sub segment contexts of the workers; the
  concurrent workers are a sequence of events, one for the construction and one for the destruction of
  a sub segment context. Hidden_Inv and Hidden_Encoder: the invariant of a line against the history of the
  events, the life time of the contexts, and that the hidden streams hold all that was encoded.
  Hidden_Assoc: registering the hidden streams, recording them in a second frame 0, finding them again.

  \<^bold>\<open>The stream buffer.\<close> Stream_Buffer: layout and debug patterns of the lines
  (\<open>libsimustor/StreamBuffer.cpp\<close>). Server_Buffer: the segments with the free list and the standby list as
  index-linked records, the control cookie and all public operations. Buffer_Lists: both linked lists
  as lists, and what each internal operation does to them. Buffer_Ops: the operations refine those on
  the lists, and the invariant over all reachable buffers. Buffer_Pool: the locale \<open>segment_pool\<close>, what
  a user of the buffer relies on, interpreted on the operations.

  \<^bold>\<open>Server streams.\<close> Server_Stream: the segment table, the open list, the append state, wait lists,
  index trees and statistics, with the operations to append, add, open, complete and close. Stream_Inv,
  Stream_Ops, Stream_Open, Stream_Steps: the invariant (the counts are the sums of the references, the open list is the
  set of referenced segments, held segments are pairwise different) and that every operation keeps it, on
  the laws of the segment pool. Stream_Waits: the counters of the wait contexts. Stream_System: the stream as
  a transition system with other threads working on the buffer, and the properties.

  \<^bold>\<open>The store format.\<close> Trace_Format: headers byte by byte (\<open>simtrace/FileHeader.h\<close>,
  \<open>simtrace/Simtrace3Format.h\<close>). Trace_Store: frames and the file with its header, directories and
  writes that may fail at any byte budget of the disk. Trace_Store_Inv: the log of a file, as a relation between
  bytes and committed frames. Trace_Commit: a commit appends to the log or leaves it. Trace_Open: opening visits the
  log. Trace_System: create, commit, fail, close and open again. Trace_Codec: the LZMA
  wrapper, the generic encoder and the work items of the encoders. Trace_Streams: describing streams, and
  opening a store as the inverse of working on it; the locale \<open>segment_encoder\<close>, interpreted for the generic encoder.

  \<^bold>\<open>Stores, sessions, workers.\<close> Store_Registry: the registry of buffers and streams of a store, encoders,
  attached sessions. Store_Manager and Store_Server: specifiers, sharing, dormant stores, eviction, sessions, and the
  invariant that a store is open exactly as long as it is used. Work_Pool: queue, workers,
  helping waiters and closing as a step relation, with the liveness of the pool.

  \<^bold>\<open>The client.\<close> Client_Stream: handles of static and dynamic streams with the memory they see, and the
  inline functions that step through entries (\<open>include/SimuTrace.h\<close>). Client_Read: a scan in either direction sees
  all entries. Client_Data: data of variable size over several segments. Multiplexer: the
  merging stream of \<open>libsimutraceX/StreamMultiplexer.cpp\<close>.

  \<^bold>\<open>Messages.\<close> Rpc_Message: the messages between client and server with their wire format and what their
  payload pointer may be (\<open>libsimubase/RpcInterface.cpp\<close>), channels that may be lost after any
  byte (\<open>libsimubase/Channel.cpp\<close>), and the ports (\<open>libsimubase/Port.cpp\<close>, \<open>ServerPort.cpp\<close>, \<open>ClientPort.cpp\<close>).
  Rpc_Port: messages arrive as they were sent, and receiving frees only what it owns.

  \<^bold>\<open>Requests.\<close> Rpc_Dispatch: the codes of the API (\<open>include/simustor/RpcProtocol.h\<close>), the tables of
  handlers, the payloads, and the operations of \<open>libsimustor/Session.cpp\<close> that forward to the store, on a
  server whose stores hold the server streams and buffers of the theories above. Session_Worker: the
  payload allocator, all handlers and the loop of a session worker (\<open>ServerSessionWorker.cpp\<close>).
  Server_Requests: the requests without a session and the size of the memory pool (\<open>StorageServer.cpp\<close>).
  Worker_Response: every request gets exactly one response, and the loop ends with the connection.
  Rpc_Call: a call of the client port and the worker together. Worker_Faults: what requests can do to segments that
  the session does not hold. Server_Life: the server as a transition system, in which every
  session has the current version.

  \<^bold>\<open>Bounds and fuel.\<close> \<open>openStore\<close> takes fuel for the entries of all directories: frames plus 448, the
  number of directories that fit into the header, is enough. \<open>closeLoop\<close> follows iterators into the open list: its
  length is enough, which is proved. \<open>readDataLoop\<close> needs a step
  for every segment. \<open>runWorker\<close> needs one step more than the
  received bytes are messages of 16 bytes, which is proved; it tells running out of fuel from a request that does not come back. \<open>flushLoop\<close> chases pointers and is a partial function, which is proved to return. All other loops are
  structural, or their termination is proved with the definition. The segment size is the 64 MiB of the default configuration.

  \<^bold>\<open>Not modelled.\<close> Data races: except for the worker pool, the events on a stream and the events of
  the memory encoder, operations run one after the other, as the locks of the code order them. In
  particular \<open>_writeFrame\<close> runs outside the lock of the file in the code and as a whole here, and \<open>WorkerPool::close\<close> blocks
  and clears the queue, and stops and wakes the workers, in one step each. Calls that are taken to succeed: mapping a directory of
  a store into memory, and detaching the server session from a store that is released. Left out are
  start-up, bindings and shut-down of the server; sockets, files and shared memory
  (a file is its bytes with a budget, a connection the bytes that arrive); logging, profiling, configuration and process start; \<open>Session::close\<close>,
  which joins threads; the type inference of the multiplexer; client calls that only forward a request;
  the bindings for other languages; and the third-party code: LZMA, FarmHash, option parsing and
  delegates. Of LZMA it is only assumed that decompressing gives back what was compressed.

  The properties are the theorems whose text begins with a number C1, C2, and so on. Where the code does
  not do what it means to, the theorem states what it does.
\<close>

end
